(* ===== verification/Go_Prelude.thy ===== *)
theory Go_Prelude
  imports Main "HOL-Library.List_Lexorder" "HOL-Library.Char_ord" "HOL-Library.Sublist"
begin

text \<open>
  The shared layer of the development.

  A Go \<open>string\<close> is a sequence of bytes and is modelled as a \<open>char list\<close>, one \<open>char\<close>
  per byte. This theory holds the functions of the Go packages \<open>strings\<close>, \<open>strconv\<close> and
  \<open>sort\<close> that the modelled code calls, the result type of fallible functions (a sum with
  the error on the left), and the lemma collections the component theories extend.

  Bounds. \<open>strings.ToLower\<close>, \<open>strings.ToUpper\<close>, \<open>strings.TrimSpace\<close> and
  \<open>strings.Fields\<close> read UTF-8; here they act on the ASCII bytes and leave bytes above 127
  unchanged, which is what Go does on ASCII text. \<open>strconv.Atoi\<close> has the 64-bit range of the
  supported platforms.
\<close>

named_theorems go_string "equations of the modelled string functions"

section \<open>Results\<close>

type_synonym ('e, 'a) result = "'e + 'a"

abbreviation Err :: "'e \<Rightarrow> ('e, 'a) result" where "Err \<equiv> Inl"
abbreviation Ok :: "'a \<Rightarrow> ('e, 'a) result" where "Ok \<equiv> Inr"

definition bind_res :: "('e, 'a) result \<Rightarrow> ('a \<Rightarrow> ('e, 'b) result) \<Rightarrow> ('e, 'b) result" where
  "bind_res r f = (case r of Inl e \<Rightarrow> Inl e | Inr x \<Rightarrow> f x)"

lemma bind_res_simps [simp]:
  "bind_res (Inl e) f = Inl e"
  "bind_res (Inr x) f = f x"
  by (simp_all add: bind_res_def)

lemma bind_res_Ok: "bind_res r f = Inr y \<longleftrightarrow> (\<exists>x. r = Inr x \<and> f x = Inr y)"
  by (cases r) auto

lemma bind_res_Err: "bind_res r f = Inl e \<longleftrightarrow> r = Inl e \<or> (\<exists>x. r = Inr x \<and> f x = Inl e)"
  by (cases r) auto

definition is_ok :: "('e, 'a) result \<Rightarrow> bool" where
  "is_ok r = (case r of Inl _ \<Rightarrow> False | Inr _ \<Rightarrow> True)"

lemma is_ok_simps [simp]: "is_ok (Inr x)" "\<not> is_ok (Inl e)"
  by (simp_all add: is_ok_def)

text \<open>A loop that runs a fallible step on each element and stops at the first error.\<close>

fun map_res :: "('a \<Rightarrow> ('e, 'b) result) \<Rightarrow> 'a list \<Rightarrow> ('e, 'b list) result" where
  "map_res f [] = Inr []"
| "map_res f (x # xs) = bind_res (f x) (\<lambda>y. bind_res (map_res f xs) (\<lambda>ys. Inr (y # ys)))"

lemma map_res_Ok: "map_res f xs = Inr ys \<longleftrightarrow> list_all2 (\<lambda>x y. f x = Inr y) xs ys"
  by (induction xs arbitrary: ys) (auto simp: bind_res_Ok list_all2_Cons1)

text \<open>The first error of a list of checks, in order.\<close>

fun check_all :: "('a \<Rightarrow> ('e, unit) result) \<Rightarrow> 'a list \<Rightarrow> ('e, unit) result" where
  "check_all f [] = Inr ()"
| "check_all f (x # xs) = bind_res (f x) (\<lambda>_. check_all f xs)"

lemma check_all_Ok: "check_all f xs = Inr u \<longleftrightarrow> (\<forall>x\<in>set xs. f x = Inr ())"
  by (induction xs) (auto simp: bind_res_Ok)

section \<open>Strings\<close>

definition has_prefix :: "string \<Rightarrow> string \<Rightarrow> bool" where
  "has_prefix s p \<longleftrightarrow> take (length p) s = p"

definition has_suffix :: "string \<Rightarrow> string \<Rightarrow> bool" where
  "has_suffix s p \<longleftrightarrow> length p \<le> length s \<and> drop (length s - length p) s = p"

definition trim_prefix :: "string \<Rightarrow> string \<Rightarrow> string" where
  "trim_prefix s p = (if has_prefix s p then drop (length p) s else s)"

definition trim_suffix :: "string \<Rightarrow> string \<Rightarrow> string" where
  "trim_suffix s p = (if has_suffix s p then take (length s - length p) s else s)"

text \<open>\<open>strings.CutSuffix\<close>: the rest and whether the suffix was there.\<close>

definition cut_suffix :: "string \<Rightarrow> string \<Rightarrow> string \<times> bool" where
  "cut_suffix s p = (trim_suffix s p, has_suffix s p)"

text \<open>\<open>strings.Cut\<close> at a one-byte separator: before, after, found.\<close>

definition cut :: "string \<Rightarrow> char \<Rightarrow> string \<times> string \<times> bool" where
  "cut s c = (if c \<in> set s
     then (takeWhile (\<lambda>x. x \<noteq> c) s, tl (dropWhile (\<lambda>x. x \<noteq> c) s), True)
     else (s, [], False))"

fun contains_str :: "string \<Rightarrow> string \<Rightarrow> bool" where
  "contains_str [] sub = (sub = [])"
| "contains_str (c # s) sub = (has_prefix (c # s) sub \<or> contains_str s sub)"

definition contains_any :: "string \<Rightarrow> string \<Rightarrow> bool" where
  "contains_any s chars = list_ex (\<lambda>c. c \<in> set chars) s"

text \<open>\<open>strings.Split\<close> at a one-byte separator. An empty text gives one empty field.\<close>

fun split_on :: "char \<Rightarrow> string \<Rightarrow> string list" where
  "split_on c [] = [[]]"
| "split_on c (x # xs) =
     (if x = c then [] # split_on c xs
      else (case split_on c xs of [] \<Rightarrow> [[x]] | y # ys \<Rightarrow> (x # y) # ys))"

text \<open>\<open>strings.SplitN\<close> at a one-byte separator, at most \<open>n > 0\<close> fields.\<close>

fun split_n :: "nat \<Rightarrow> char \<Rightarrow> string \<Rightarrow> string list" where
  "split_n 0 c s = []"
| "split_n (Suc 0) c s = [s]"
| "split_n (Suc (Suc n)) c s =
     (case cut s c of (before, after, found) \<Rightarrow>
        if found then before # split_n (Suc n) c after else [s])"

fun join :: "string \<Rightarrow> string list \<Rightarrow> string" where
  "join sep [] = []"
| "join sep [x] = x"
| "join sep (x # y # ys) = x @ sep @ join sep (y # ys)"

definition is_upper :: "char \<Rightarrow> bool" where
  "is_upper c \<longleftrightarrow> 65 \<le> (of_char c :: nat) \<and> (of_char c :: nat) \<le> 90"

definition is_lower :: "char \<Rightarrow> bool" where
  "is_lower c \<longleftrightarrow> 97 \<le> (of_char c :: nat) \<and> (of_char c :: nat) \<le> 122"

definition is_digit :: "char \<Rightarrow> bool" where
  "is_digit c \<longleftrightarrow> 48 \<le> (of_char c :: nat) \<and> (of_char c :: nat) \<le> 57"

definition lower_char :: "char \<Rightarrow> char" where
  "lower_char c = (if is_upper c then char_of ((of_char c :: nat) + 32) else c)"

definition upper_char :: "char \<Rightarrow> char" where
  "upper_char c = (if is_lower c then char_of ((of_char c :: nat) - 32) else c)"

definition to_lower :: "string \<Rightarrow> string" where "to_lower = map lower_char"
definition to_upper :: "string \<Rightarrow> string" where "to_upper = map upper_char"

definition equal_fold :: "string \<Rightarrow> string \<Rightarrow> bool" where
  "equal_fold s t \<longleftrightarrow> to_lower s = to_lower t"

abbreviation newline :: char where "newline \<equiv> CHR 0x0A"
abbreviation carriage_return :: char where "carriage_return \<equiv> CHR 0x0D"
abbreviation tab :: char where "tab \<equiv> CHR 0x09"
abbreviation backslash :: char where "backslash \<equiv> CHR 0x5C"

definition is_space :: "char \<Rightarrow> bool" where
  "is_space c \<longleftrightarrow> c \<in> {CHR 0x09, CHR 0x0A, CHR 0x0B, CHR 0x0C, CHR 0x0D, CHR 0x20}"

definition trim_right_by :: "(char \<Rightarrow> bool) \<Rightarrow> string \<Rightarrow> string" where
  "trim_right_by p s = rev (dropWhile p (rev s))"

definition trim_by :: "(char \<Rightarrow> bool) \<Rightarrow> string \<Rightarrow> string" where
  "trim_by p s = trim_right_by p (dropWhile p s)"

definition trim_space :: "string \<Rightarrow> string" where "trim_space = trim_by is_space"

text \<open>\<open>strings.Fields\<close>: the maximal runs of bytes that are not spaces.\<close>

fun fields_acc :: "string \<Rightarrow> string \<Rightarrow> string list" where
  "fields_acc acc [] = (if acc = [] then [] else [rev acc])"
| "fields_acc acc (c # s) =
     (if is_space c then (if acc = [] then fields_acc [] s else rev acc # fields_acc [] s)
      else fields_acc (c # acc) s)"

definition fields :: "string \<Rightarrow> string list" where "fields s = fields_acc [] s"

text \<open>\<open>strings.LastIndex\<close> of one byte, as an option.\<close>

fun last_index :: "char \<Rightarrow> string \<Rightarrow> nat option" where
  "last_index c [] = None"
| "last_index c (x # xs) =
     (case last_index c xs of Some i \<Rightarrow> Some (Suc i) | None \<Rightarrow> if x = c then Some 0 else None)"

lemma last_index_None: "c \<notin> set s \<Longrightarrow> last_index c s = None"
  by (induction s) auto

lemma last_index_append: "c \<notin> set t \<Longrightarrow> last_index c (s @ c # t) = Some (length s)"
  by (induction s) (auto simp: last_index_None)

definition replace_char :: "char \<Rightarrow> char \<Rightarrow> string \<Rightarrow> string" where
  "replace_char c d = map (\<lambda>x. if x = c then d else x)"

section \<open>Numbers as text\<close>

definition digit_char :: "nat \<Rightarrow> char" where "digit_char d = char_of (48 + d)"
definition digit_val :: "char \<Rightarrow> nat" where "digit_val c = of_char c - 48"

fun nat_text :: "nat \<Rightarrow> string" where
  "nat_text n = (if n < 10 then [digit_char n] else nat_text (n div 10) @ [digit_char (n mod 10)])"

declare nat_text.simps [simp del]

text \<open>\<open>strconv.Itoa\<close>.\<close>

definition itoa :: "int \<Rightarrow> string" where
  "itoa i = (if i < 0 then CHR ''-'' # nat_text (nat (- i)) else nat_text (nat i))"

definition parse_digits :: "string \<Rightarrow> nat option" where
  "parse_digits s = (if s \<noteq> [] \<and> list_all is_digit s
     then Some (foldl (\<lambda>n c. 10 * n + digit_val c) 0 s) else None)"

definition int64_min :: int where "int64_min = - (2 ^ 63)"
definition int64_max :: int where "int64_max = 2 ^ 63 - 1"

text \<open>\<open>strconv.Atoi\<close>: an optional sign, decimal digits, and the range of a 64-bit \<open>int\<close>.\<close>

definition atoi :: "string \<Rightarrow> int option" where
  "atoi s =
     (let (neg, digits) = (case s of [] \<Rightarrow> (False, [])
        | c # cs \<Rightarrow> if c = CHR ''-'' then (True, cs) else if c = CHR ''+'' then (False, cs)
                    else (False, s))
      in case parse_digits digits of None \<Rightarrow> None
         | Some n \<Rightarrow> (let v = (if neg then - int n else int n)
             in if int64_min \<le> v \<and> v \<le> int64_max then Some v else None))"

section \<open>Maps with sorted keys\<close>

text \<open>
  A Go map whose keys the code collects and sorts (\<open>sort.Strings\<close>) before it walks them. The
  model keeps such a map as an association list in insertion order; the sorted key list is
  the same for every order Go may iterate in.
\<close>

definition sorted_keys :: "('k::linorder \<times> 'v) list \<Rightarrow> 'k list" where
  "sorted_keys m = sort (remdups (map fst m))"

text \<open>The first occurrence of every element, in order: the \<open>seen\<close>-map idiom.\<close>

fun dedupe_by :: "('a \<Rightarrow> 'k) \<Rightarrow> 'k list \<Rightarrow> 'a list \<Rightarrow> 'a list" where
  "dedupe_by key seen [] = []"
| "dedupe_by key seen (x # xs) =
     (if key x \<in> set seen then dedupe_by key seen xs
      else x # dedupe_by key (key x # seen) xs)"

section \<open>Facts about the string functions\<close>

lemma has_prefix_append [simp]: "has_prefix (p @ s) p"
  by (simp add: has_prefix_def)

lemma has_prefix_iff: "has_prefix s p \<longleftrightarrow> (\<exists>r. s = p @ r)"
  unfolding has_prefix_def by (metis append_eq_conv_conj append_take_drop_id)

lemma has_suffix_append [simp]: "has_suffix (s @ p) p"
  by (simp add: has_suffix_def)

lemma has_suffix_iff: "has_suffix s p \<longleftrightarrow> (\<exists>r. s = r @ p)"
  unfolding has_suffix_def
  by (metis append_eq_conv_conj append_take_drop_id diff_add_inverse2 le_add2 length_append)

lemma trim_suffix_append [simp]: "trim_suffix (s @ p) p = s"
  by (simp add: trim_suffix_def)

lemma trim_prefix_append [simp]: "trim_prefix (p @ s) p = s"
  by (simp add: trim_prefix_def)

lemma trim_suffix_no [simp]: "\<not> has_suffix s p \<Longrightarrow> trim_suffix s p = s"
  by (simp add: trim_suffix_def)

lemma trim_suffix_cases:
  obtains "has_suffix s p" "s = trim_suffix s p @ p" | "\<not> has_suffix s p" "trim_suffix s p = s"
  by (metis has_suffix_iff trim_suffix_append trim_suffix_no)

lemma cut_hit: "c \<notin> set s \<Longrightarrow> cut (s @ c # t) c = (s, t, True)"
  by (induction s) (auto simp: cut_def)

lemma cut_miss [simp]: "c \<notin> set s \<Longrightarrow> cut s c = (s, [], False)"
  by (simp add: cut_def)

lemma cut_found:
  "cut s c = (a, b, True) \<Longrightarrow> s = a @ c # b \<and> c \<notin> set a"
proof -
  assume h: "cut s c = (a, b, True)"
  then have c: "c \<in> set s" by (auto simp: cut_def split: if_splits)
  then obtain u v where s: "s = u @ c # v" "c \<notin> set u" by (meson split_list_first)
  then show ?thesis using h cut_hit [of c u v] by simp
qed

lemma cut_not_found: "cut s c = (a, b, False) \<Longrightarrow> c \<notin> set s \<and> a = s \<and> b = []"
  by (auto simp: cut_def split: if_splits)

lemma contains_str_iff: "contains_str s sub \<longleftrightarrow> (\<exists>u v. s = u @ sub @ v)"
proof (induction s)
  case Nil
  then show ?case by auto
next
  case (Cons c s)
  show ?case
  proof
    assume "contains_str (c # s) sub"
    then show "\<exists>u v. c # s = u @ sub @ v"
      using Cons.IH by (auto simp: has_prefix_iff) (metis append_Cons append_Nil)+
  next
    assume "\<exists>u v. c # s = u @ sub @ v"
    then obtain u v where uv: "c # s = u @ sub @ v" by blast
    show "contains_str (c # s) sub"
    proof (cases u)
      case Nil
      then have "has_prefix (c # s) sub" using uv by (simp add: has_prefix_iff)
      then show ?thesis by simp
    next
      case (Cons d u')
      then show ?thesis using uv Cons.IH by auto
    qed
  qed
qed

lemma contains_str_char [simp]: "contains_str s [c] \<longleftrightarrow> c \<in> set s"
  by (auto simp: contains_str_iff in_set_conv_decomp)

lemma contains_any_iff: "contains_any s cs \<longleftrightarrow> set s \<inter> set cs \<noteq> {}"
  by (auto simp: contains_any_def list_ex_iff)

lemma split_on_neq_Nil [simp]: "split_on c s \<noteq> []"
  by (cases s) (auto split: list.splits)

lemma join_split_on [simp]: "join [c] (split_on c s) = s"
proof (induction s)
  case Nil
  then show ?case by simp
next
  case (Cons x s)
  then show ?case
    by (cases "split_on c s") (auto split: list.splits elim: join.elims, (metis join.simps append_Cons neq_Nil_conv)+)
qed

lemma split_on_no_sep: "c \<notin> set s \<Longrightarrow> split_on c s = [s]"
  by (induction s) auto

lemma split_on_append: "c \<notin> set s \<Longrightarrow> split_on c (s @ c # t) = s # split_on c t"
  by (induction s) auto

lemma split_on_concat: "split_on c (s @ c # t) = split_on c s @ split_on c t"
  by (induction s) (auto split: list.splits)

lemma join_append:
  "xs \<noteq> [] \<Longrightarrow> ys \<noteq> [] \<Longrightarrow> join sep (xs @ ys) = join sep xs @ sep @ join sep ys"
  by (induction sep xs rule: join.induct) (auto simp: neq_Nil_conv)

lemma split_on_join:
  "xs \<noteq> [] \<Longrightarrow> \<forall>x\<in>set xs. c \<notin> set x \<Longrightarrow> split_on c (join [c] xs) = xs"
proof (induction "[c]" xs rule: join.induct)
  case (3 x y ys)
  then show ?case by (simp add: split_on_append)
qed (auto simp: split_on_no_sep)

lemma split_on_fields: "x \<in> set (split_on c s) \<Longrightarrow> c \<notin> set x"
  by (induction s arbitrary: x) (auto split: if_splits list.splits)

subsection \<open>Case folding\<close>

lemma of_char_less: "(of_char c :: nat) < 256"
  by (metis of_char_mod_256 mod_less_divisor zero_less_numeral)

lemma lower_char_idem [simp]: "lower_char (lower_char c) = lower_char c"
  by (auto simp: lower_char_def is_upper_def)

lemma to_lower_idem [simp]: "to_lower (to_lower s) = to_lower s"
  by (simp add: to_lower_def comp_def)

lemma to_lower_append [simp]: "to_lower (s @ t) = to_lower s @ to_lower t"
  by (simp add: to_lower_def)

lemma length_to_lower [simp]: "length (to_lower s) = length s"
  by (simp add: to_lower_def)

lemma to_lower_Nil [simp]: "to_lower s = [] \<longleftrightarrow> s = []"
  by (simp add: to_lower_def)

definition not_letter :: "char \<Rightarrow> bool" where
  "not_letter c \<longleftrightarrow> \<not> is_upper c \<and> \<not> is_lower c"

lemma lower_char_fix: "\<not> is_upper c \<Longrightarrow> lower_char c = c"
  by (simp add: lower_char_def)

lemma lower_char_eq_iff: "not_letter d \<Longrightarrow> lower_char c = d \<longleftrightarrow> c = d"
proof
  assume d: "not_letter d" and eq: "lower_char c = d"
  show "c = d"
  proof (cases "is_upper c")
    case True
    then have "is_lower d" using eq
      by (auto simp: lower_char_def is_upper_def is_lower_def)
    then show ?thesis using d by (simp add: not_letter_def)
  next
    case False
    then show ?thesis using eq by (simp add: lower_char_def)
  qed
qed (auto simp: lower_char_def not_letter_def)

lemma in_to_lower: "not_letter d \<Longrightarrow> d \<in> set (to_lower s) \<longleftrightarrow> d \<in> set s"
  by (force simp: to_lower_def image_iff lower_char_eq_iff eq_commute [of d])

lemma not_letter_punct [simp]:
  "not_letter CHR ''.''" "not_letter CHR '':''" "not_letter CHR ''*''" "not_letter CHR ''/''"
  "not_letter CHR ''-''" "not_letter CHR ''@''" "not_letter CHR '' ''" "not_letter CHR 0x09"
  by (simp_all add: not_letter_def is_upper_def is_lower_def)

subsection \<open>Decimal text\<close>

lemma digit_char_simps:
  "d < 10 \<Longrightarrow> is_digit (digit_char d)" "d < 10 \<Longrightarrow> digit_val (digit_char d) = d"
  by (simp_all add: is_digit_def digit_char_def digit_val_def)

lemma nat_text_neq_Nil [simp]: "nat_text n \<noteq> []"
  by (subst nat_text.simps) simp

lemma nat_text_digits: "list_all is_digit (nat_text n)"
proof (induction n rule: nat_text.induct)
  case (1 n)
  then show ?case by (subst nat_text.simps) (auto simp: digit_char_simps)
qed

lemma nat_text_value: "foldl (\<lambda>m c. 10 * m + digit_val c) 0 (nat_text n) = n"
proof (induction n rule: nat_text.induct)
  case (1 n)
  then show ?case by (subst nat_text.simps) (auto simp: digit_char_simps)
qed

lemma parse_digits_nat_text [simp]: "parse_digits (nat_text n) = Some n"
  by (simp add: parse_digits_def nat_text_digits nat_text_value)

lemma digit_not_sign: "is_digit c \<Longrightarrow> c \<noteq> CHR ''-'' \<and> c \<noteq> CHR ''+''"
  by (auto simp: is_digit_def)

lemma nat_text_hd: "\<exists>c cs. nat_text n = c # cs \<and> is_digit c"
  using nat_text_digits [of n] by (cases "nat_text n") auto

lemma atoi_itoa: "int64_min \<le> i \<Longrightarrow> i \<le> int64_max \<Longrightarrow> atoi (itoa i) = Some i"
proof (cases "i < 0")
  case True
  assume "int64_min \<le> i" "i \<le> int64_max"
  then show ?thesis using True by (simp add: atoi_def itoa_def)
next
  case False
  assume h: "int64_min \<le> i" "i \<le> int64_max"
  obtain c cs where "nat_text (nat i) = c # cs" "is_digit c" using nat_text_hd by blast
  moreover have "parse_digits (nat_text (nat i)) = Some (nat i)" by simp
  ultimately show ?thesis using False h digit_not_sign [of c]
    by (simp add: atoi_def itoa_def)
qed

lemma itoa_chars: "c \<in> set (itoa i) \<Longrightarrow> is_digit c \<or> c = CHR ''-''"
  using nat_text_digits by (auto simp: itoa_def list_all_iff split: if_splits)

lemma itoa_neg: "(\<exists>r. itoa k = CHR ''-'' # r) \<longleftrightarrow> k < 0"
proof (cases "k < 0")
  case False
  obtain c cs where "nat_text (nat k) = c # cs" "is_digit c" using nat_text_hd by blast
  then show ?thesis using False digit_not_sign [of c] by (simp add: itoa_def)
qed (simp add: itoa_def)

lemma nat_text_inj: "nat_text m = nat_text n \<Longrightarrow> m = n"
  by (metis nat_text_value)

lemma itoa_inj: "itoa i = itoa j \<Longrightarrow> i = j"
proof -
  assume eq: "itoa i = itoa j"
  then have "i < 0 \<longleftrightarrow> j < 0" using itoa_neg [of i] itoa_neg [of j] by simp
  then show ?thesis using eq by (auto simp: itoa_def dest!: nat_text_inj split: if_splits)
qed

lemma itoa_neq_Nil [simp]: "itoa i \<noteq> []"
  by (simp add: itoa_def)

subsection \<open>Deduplication\<close>

lemma set_dedupe_by:
  "x \<in> set (dedupe_by key seen xs) \<Longrightarrow> x \<in> set xs \<and> key x \<notin> set seen"
  by (induction key seen xs rule: dedupe_by.induct) (auto split: if_splits)

lemma keys_dedupe_by: "key ` set (dedupe_by key seen xs) = key ` set xs - set seen"
  by (induction key seen xs rule: dedupe_by.induct) (auto split: if_splits)

lemma distinct_dedupe_by: "distinct (map key (dedupe_by key seen xs))"
proof (induction key seen xs rule: dedupe_by.induct)
  case (2 key seen x xs)
  then show ?case using set_dedupe_by [of _ key "key x # seen" xs] by fastforce
qed simp

lemma sorted_keys_set [simp]: "set (sorted_keys m) = fst ` set m"
  by (simp add: sorted_keys_def)

lemma sorted_keys_sorted: "sorted (sorted_keys m)" "distinct (sorted_keys m)"
  by (simp_all add: sorted_keys_def)

section \<open>Trimming\<close>

lemma trim_plain: "s \<noteq> [] \<Longrightarrow> \<not> is_space (hd s) \<Longrightarrow> \<not> is_space (last s) \<Longrightarrow> trim_space s = s"
proof -
  assume s: "s \<noteq> []" "\<not> is_space (hd s)" "\<not> is_space (last s)"
  have l: "dropWhile is_space s = s" using s by (cases s) auto
  have r: "dropWhile is_space (rev s) = rev s" using s by (cases s rule: rev_cases) auto
  show ?thesis by (simp add: trim_space_def trim_by_def trim_right_by_def l r)
qed

lemma trim_terminated: "list_all (\<lambda>c. \<not> is_space c) s \<Longrightarrow> s \<noteq> [] \<Longrightarrow> trim_space (s @ [newline]) = s"
proof -
  assume s: "list_all (\<lambda>c. \<not> is_space c) s" "s \<noteq> []"
  have "dropWhile is_space (s @ [newline]) = s @ [newline]" using s by (cases s) auto
  moreover have "dropWhile is_space (rev s) = rev s" using s by (cases s rule: rev_cases) (auto simp: list_all_iff)
  moreover have "is_space newline" by (simp add: is_space_def)
  ultimately show ?thesis by (simp add: trim_space_def trim_by_def trim_right_by_def)
qed

end
