(* ===== verification/Go_Path.thy ===== *)
theory Go_Path
  imports Go_Prelude
begin

text \<open>
  The part of Go's \<open>path/filepath\<close> (on Unix) that the program uses: \<open>Clean\<close>, \<open>Dir\<close>,
  \<open>Base\<close>, \<open>Join\<close>, \<open>Rel\<close>, \<open>IsAbs\<close> and \<open>IsLocal\<close>. They work on the text of a path only.
  The lemmas give the shape of a clean path: \<open>..\<close> elements, none of them in an absolute path,
  and then plain names.
\<close>

section \<open>Local paths\<close>

text \<open>
  \<open>filepath.IsLocal\<close>: not empty, not absolute, and no \<open>..\<close> climbs above the start. The depth
  is the number of elements \<open>filepath.Clean\<close> would keep so far.
\<close>

fun stays_inside :: "nat \<Rightarrow> string list \<Rightarrow> bool" where
  "stays_inside depth [] = True"
| "stays_inside depth (s # ss) =
     (if s = [] \<or> s = ''.'' then stays_inside depth ss
      else if s = ''..'' then (case depth of 0 \<Rightarrow> False | Suc d \<Rightarrow> stays_inside d ss)
      else stays_inside (Suc depth) ss)"

definition is_local :: "string \<Rightarrow> bool" where
  "is_local path \<longleftrightarrow> path \<noteq> [] \<and> \<not> has_prefix path ''/'' \<and> stays_inside 0 (split_on CHR ''/'' path)"

lemma is_local_neq_Nil: "is_local p \<Longrightarrow> p \<noteq> []"
  by (simp add: is_local_def)

section \<open>Operations\<close>

definition is_abs :: "string \<Rightarrow> bool" where
  "is_abs path \<longleftrightarrow> has_prefix path ''/''"

text \<open>The elements that \<open>Clean\<close> keeps, with those kept so far in reverse order.\<close>

fun clean_segments :: "bool \<Rightarrow> string list \<Rightarrow> string list \<Rightarrow> string list" where
  "clean_segments rooted acc [] = rev acc"
| "clean_segments rooted acc (s # ss) =
     (if s = [] \<or> s = ''.'' then clean_segments rooted acc ss
      else if s = ''..'' then
        (if acc \<noteq> [] \<and> hd acc \<noteq> ''..'' then clean_segments rooted (tl acc) ss
         else if rooted then clean_segments rooted acc ss
         else clean_segments rooted (s # acc) ss)
      else clean_segments rooted (s # acc) ss)"

definition path_segments :: "string \<Rightarrow> string list" where
  "path_segments path = clean_segments (is_abs path) [] (split_on CHR ''/'' path)"

definition path_clean :: "string \<Rightarrow> string" where
  "path_clean path =
     (let out = join ''/'' (path_segments path)
      in if is_abs path then CHR ''/'' # out else if out = [] then ''.'' else out)"

text \<open>The text up to and with the last slash.\<close>

definition dir_prefix :: "string \<Rightarrow> string" where
  "dir_prefix path = (case last_index CHR ''/'' path of None \<Rightarrow> [] | Some i \<Rightarrow> take (Suc i) path)"

definition path_dir :: "string \<Rightarrow> string" where
  "path_dir path = path_clean (dir_prefix path)"

definition path_base :: "string \<Rightarrow> string" where
  "path_base path =
     (if path = [] then ''.''
      else let stripped = trim_right_by (\<lambda>c. c = CHR ''/'') path;
               name = drop (length (dir_prefix stripped)) stripped
           in if name = [] then ''/'' else name)"

definition path_join :: "string list \<Rightarrow> string" where
  "path_join elements =
     (case filter (\<lambda>e. e \<noteq> []) elements of [] \<Rightarrow> [] | es \<Rightarrow> path_clean (join ''/'' es))"

text \<open>What is left of two lists after their common start.\<close>

fun drop_common :: "'a list \<Rightarrow> 'a list \<Rightarrow> 'a list \<times> 'a list" where
  "drop_common (x # xs) (y # ys) = (if x = y then drop_common xs ys else (x # xs, y # ys))"
| "drop_common xs ys = (xs, ys)"

definition path_rel :: "string \<Rightarrow> string \<Rightarrow> string option" where
  "path_rel base target =
     (if path_clean base = path_clean target then Some ''.''
      else if is_abs base \<noteq> is_abs target then None
      else case drop_common (path_segments base)
                  (if path_clean target = ''.'' then [''.''] else path_segments target) of
             (b, t) \<Rightarrow> if b \<noteq> [] \<and> hd b = ''..'' then None
                       else Some (join ''/'' (replicate (length b) ''..'' @ t)))"

section \<open>The shape of a clean path\<close>

definition plain :: "string \<Rightarrow> bool" where
  "plain s \<longleftrightarrow> s \<noteq> [] \<and> s \<noteq> ''.'' \<and> s \<noteq> ''..'' \<and> CHR ''/'' \<notin> set s"

lemma clean_segments_form:
  "list_all plain ys \<Longrightarrow> (rooted \<longrightarrow> k = 0) \<Longrightarrow> \<forall>s\<in>set ss. CHR ''/'' \<notin> set s \<Longrightarrow>
   \<exists>k' ys'. clean_segments rooted (rev ys @ replicate k ''..'') ss = replicate k' ''..'' @ ys' \<and>
     list_all plain ys' \<and> (rooted \<longrightarrow> k' = 0)"
proof (induction ss arbitrary: ys k)
  case Nil
  then show ?case by auto
next
  case (Cons s ss)
  let ?acc = "rev ys @ replicate k ''..''"
  have rest: "\<forall>s\<in>set ss. CHR ''/'' \<notin> set s" using Cons.prems by simp
  show ?case
  proof (cases "s = [] \<or> s = ''.'' \<or> (s = ''..'' \<and> (ys = [] \<and> rooted))")
    case True
    then have "clean_segments rooted ?acc (s # ss) = clean_segments rooted ?acc ss" using Cons.prems(2) by auto
    then show ?thesis using Cons.IH [OF Cons.prems(1,2) rest] by simp
  next
    case a: False
    show ?thesis
    proof (cases "s = ''..''")
      case True
      show ?thesis
      proof (cases ys rule: rev_cases)
        case Nil
        then have "clean_segments rooted ?acc (s # ss) = clean_segments rooted (rev [] @ replicate (Suc k) ''..'') ss"
          using a True by (cases k) auto
        moreover have "\<exists>k' ys'. clean_segments rooted (rev [] @ replicate (Suc k) ''..'') ss = replicate k' ''..'' @ ys' \<and>
            list_all plain ys' \<and> (rooted \<longrightarrow> k' = 0)"
          using a True Nil by (intro Cons.IH [OF _ _ rest]) auto
        ultimately show ?thesis by metis
      next
        case (snoc zs z)
        then have "clean_segments rooted ?acc (s # ss) = clean_segments rooted (rev zs @ replicate k ''..'') ss"
          using True Cons.prems(1) by (auto simp: plain_def)
        then show ?thesis using Cons.IH [of zs k] Cons.prems snoc by simp
      qed
    next
      case False
      have "clean_segments rooted ?acc (s # ss) = clean_segments rooted (rev (ys @ [s]) @ replicate k ''..'') ss"
        using a False by simp
      then show ?thesis using Cons.IH [of "ys @ [s]" k] Cons.prems a False by (simp add: plain_def)
    qed
  qed
qed

lemma path_segments_form:
  obtains k ys where "path_segments p = replicate k ''..'' @ ys" "list_all plain ys" "is_abs p \<longrightarrow> k = 0"
proof -
  have "\<forall>s\<in>set (split_on CHR ''/'' p). CHR ''/'' \<notin> set s" using split_on_fields by blast
  then have "\<exists>k ys. clean_segments (is_abs p) (rev [] @ replicate 0 ''..'') (split_on CHR ''/'' p) = replicate k ''..'' @ ys \<and>
      list_all plain ys \<and> (is_abs p \<longrightarrow> k = 0)"
    by (intro clean_segments_form) (simp_all)
  then show ?thesis using that unfolding path_segments_def rev.simps replicate_0 append_Nil by blast
qed

lemma plain_parts: "list_all plain ys \<Longrightarrow> \<forall>s\<in>set (replicate k ''..'' @ ys). s \<noteq> [] \<and> CHR ''/'' \<notin> set s"
  by (simp add: plain_def list_all_iff ball_Un set_replicate_conv_if)

lemma join_eq_Nil: "\<forall>s\<in>set ss. s \<noteq> [] \<Longrightarrow> join sep ss = [] \<longleftrightarrow> ss = []"
  by (induction sep ss rule: join.induct) auto

lemma join_Cons: "join sep (x # xs) = x @ (if xs = [] then [] else sep @ join sep xs)"
  by (cases xs) auto

lemma stays_inside_plain: "list_all plain ys \<Longrightarrow> stays_inside d ys"
  by (induction ys arbitrary: d) (auto simp: plain_def)

lemma join_plain_local:
  assumes "list_all plain ys" "ys \<noteq> []"
  shows "is_local (join ''/'' ys)"
proof -
  obtain y ys' where y: "ys = y # ys'" using assms(2) by (cases ys) auto
  have "plain y" using assms(1) y by simp
  then obtain c cs where "y = c # cs" "c \<noteq> CHR ''/''" by (cases y) (auto simp: plain_def)
  then have "\<not> has_prefix (join ''/'' ys) ''/''" "join ''/'' ys \<noteq> []"
    by (auto simp: y join_Cons has_prefix_def)
  moreover have "split_on CHR ''/'' (join ''/'' ys) = ys"
    using split_on_join [of ys "CHR ''/''"] assms plain_parts [of ys 0] by simp
  ultimately show ?thesis using stays_inside_plain [OF assms(1)] by (simp add: is_local_def)
qed

lemma dot_local: "is_local ''.''"
  by (simp add: is_local_def has_prefix_def)

lemma climbs:
  assumes "list_all plain ys" "0 < k"
  shows "join ''/'' (replicate k ''..'' @ ys) = ''..'' \<or> has_prefix (join ''/'' (replicate k ''..'' @ ys)) ''../''"
proof -
  obtain j where "k = Suc j" using assms(2) by (cases k) auto
  then show ?thesis by (auto simp: join_Cons has_prefix_def)
qed

text \<open>A clean relative path stays inside unless it starts with \<open>..\<close>.\<close>

lemma clean_local:
  assumes "\<not> is_abs p" "path_clean p \<noteq> ''..''" "\<not> has_prefix (path_clean p) ''../''"
  shows "is_local (path_clean p)"
proof -
  obtain k ys where s: "path_segments p = replicate k ''..'' @ ys" "list_all plain ys" by (rule path_segments_form)
  have ne: "join ''/'' (path_segments p) = [] \<longleftrightarrow> path_segments p = []"
    using plain_parts [OF s(2), of k] unfolding s(1) by (intro join_eq_Nil) blast
  show ?thesis
  proof (cases "path_segments p = []")
    case True
    then show ?thesis using assms(1) dot_local by (simp add: path_clean_def)
  next
    case False
    then have c: "path_clean p = join ''/'' (replicate k ''..'' @ ys)" using assms(1) ne s(1) by (simp add: path_clean_def Let_def)
    then have "k = 0" using climbs [OF s(2), of k] assms(2,3) by auto
    then show ?thesis using c s False join_plain_local [OF s(2)] by simp
  qed
qed

lemma drop_common_suffix: "\<exists>cs. xs = cs @ fst (drop_common xs ys) \<and> ys = cs @ snd (drop_common xs ys)"
proof (induction xs ys rule: drop_common.induct)
  case (1 x xs y ys)
  then show ?case by (cases "x = y") (auto, metis append_Cons)
qed auto

text \<open>A path relative to an absolute one stays inside unless it starts with \<open>..\<close>.\<close>

lemma rel_local:
  assumes "path_rel base target = Some r" "is_abs target" "r \<noteq> ''..''" "\<not> has_prefix r ''../''"
  shows "is_local r"
proof (cases "path_clean base = path_clean target")
  case True
  then show ?thesis using assms(1) dot_local by (simp add: path_rel_def)
next
  case False
  have "path_clean target \<noteq> ''.''" using assms(2) by (simp add: path_clean_def Let_def)
  then obtain b t where bt: "drop_common (path_segments base) (path_segments target) = (b, t)"
    "r = join ''/'' (replicate (length b) ''..'' @ t)" "is_abs base"
    using assms(1,2) False by (auto simp: path_rel_def split: prod.splits if_splits)
  obtain k ys where ys: "path_segments target = ys" "list_all plain ys"
    using path_segments_form [of target] assms(2) by (metis append_Nil replicate_0)
  obtain cs where cs: "path_segments base = cs @ b" "ys = cs @ t"
    using drop_common_suffix [of "path_segments base" "path_segments target"] bt(1) ys(1) by auto
  have t: "list_all plain t" using ys(2) cs(2) by simp
  have b: "b = []" using climbs [OF t, of "length b"] assms(3,4) bt(2) by auto
  have "t \<noteq> []"
  proof
    assume "t = []"
    then have "path_segments base = path_segments target" using cs b ys(1) by simp
    then show False using False bt(3) assms(2) by (simp add: path_clean_def)
  qed
  then show ?thesis using join_plain_local [OF t] bt(2) b by simp
qed

section \<open>The parent of a path is shorter\<close>

definition weight :: "string list \<Rightarrow> nat" where
  "weight ss = sum_list (map (\<lambda>s. Suc (length s)) ss)"

lemma weight_simps [simp]: "weight [] = 0" "weight (s # ss) = Suc (length s) + weight ss" "weight (xs @ ys) = weight xs + weight ys"
  by (simp_all add: weight_def)

lemma weight_rev [simp]: "weight (rev ss) = weight ss"
  by (simp add: weight_def flip: rev_map)

lemma weight_tl: "weight (tl ss) \<le> weight ss"
  by (cases ss) auto

lemma clean_segments_weight:
  "weight (clean_segments rooted acc ss) \<le> weight acc + weight (filter (\<lambda>s. s \<noteq> []) ss)"
proof (induction rooted acc ss rule: clean_segments.induct)
  case (2 rooted acc s ss)
  then show ?case using weight_tl [of acc] by (auto intro: order.trans)
qed simp

lemma join_length: "ss \<noteq> [] \<Longrightarrow> Suc (length (join [c] ss)) = weight ss"
  by (induction "[c]" ss rule: join.induct) auto

lemma split_weight: "weight (split_on c s) = Suc (length s)"
  using join_length [of "split_on c s" c] by simp

lemma filter_weight: "weight (filter P ss) + weight (filter (\<lambda>s. \<not> P s) ss) = weight ss"
  by (induction ss) auto

lemma path_clean_length: "length (path_clean p) \<le> max 1 (length p)"
proof -
  let ?ss = "split_on CHR ''/'' p"
  have w: "weight (path_segments p) \<le> weight (filter (\<lambda>s. s \<noteq> []) ?ss)"
    using clean_segments_weight [of "is_abs p" "[]" ?ss] by (simp add: path_segments_def)
  have all: "weight (filter (\<lambda>s. s \<noteq> []) ?ss) \<le> Suc (length p)"
    using filter_weight [of "\<lambda>s. s \<noteq> []" ?ss] split_weight [of "CHR ''/''" p] by linarith
  show ?thesis
  proof (cases "is_abs p")
    case True
    then obtain q where q: "p = CHR ''/'' # q" by (auto simp: is_abs_def has_prefix_iff)
    then have "filter (\<lambda>s. s \<noteq> []) ?ss = filter (\<lambda>s. s \<noteq> []) (split_on CHR ''/'' q)" by simp
    then have "weight (path_segments p) \<le> Suc (length q)"
      using w filter_weight [of "\<lambda>s. s \<noteq> []" "split_on CHR ''/'' q"] split_weight [of "CHR ''/''" q] by simp
    then show ?thesis using True q join_length [of "path_segments p" "CHR ''/''"]
      by (cases "path_segments p = []") (auto simp: path_clean_def)
  next
    case False
    then show ?thesis using w all join_length [of "path_segments p" "CHR ''/''"]
      by (cases "path_segments p = []") (auto simp: path_clean_def Let_def)
  qed
qed

lemma split_on_snoc: "split_on c (s @ [c]) = split_on c s @ [[]]"
proof (induction s)
  case (Cons x s)
  then show ?case by (cases "split_on c s") auto
qed simp

lemma clean_segments_snoc: "clean_segments rooted acc (ss @ [[]]) = clean_segments rooted acc ss"
  by (induction rooted acc ss rule: clean_segments.induct) auto

lemma path_clean_slash: "q \<noteq> [] \<Longrightarrow> path_clean (q @ ''/'') = path_clean q"
  using split_on_snoc [of "CHR ''/''" q] clean_segments_snoc
  by (cases q) (auto simp: path_clean_def path_segments_def is_abs_def has_prefix_def Let_def)

lemma last_index_Some: "last_index c s = Some i \<Longrightarrow> i < length s \<and> s ! i = c"
  by (induction s arbitrary: i) (auto split: option.splits if_splits)

definition path_depth :: "string \<Rightarrow> nat" where
  "path_depth p = (if p = ''.'' then 0 else if p = [] then 1 else Suc (length p))"

lemma path_clean_neq_Nil [simp]: "path_clean p \<noteq> []"
  by (simp add: path_clean_def Let_def)

lemma path_dir_depth:
  assumes "path_dir p \<noteq> p"
  shows "path_depth (path_dir p) < path_depth p"
proof (cases "last_index CHR ''/'' p")
  case None
  then have d: "path_dir p = ''.''" by (simp add: path_dir_def dir_prefix_def path_clean_def path_segments_def is_abs_def has_prefix_def)
  then show ?thesis using assms by (simp add: path_depth_def)
next
  case (Some i)
  note i = last_index_Some [OF this]
  define q where "q = take i p"
  have p: "p = q @ CHR ''/'' # drop (Suc i) p" using i id_take_nth_drop [of i p] by (simp add: q_def)
  have pre: "dir_prefix p = q @ ''/''" using Some i by (simp add: dir_prefix_def q_def take_Suc_conv_app_nth)
  have dot: "p \<noteq> ''.''" using i by (cases i) auto
  show ?thesis
  proof (cases "q = []")
    case True
    then have "path_dir p = ''/''" using pre by (simp add: path_dir_def path_clean_def path_segments_def is_abs_def has_prefix_def)
    moreover from this have "length p \<noteq> 1" using assms p True by auto
    ultimately show ?thesis using p True dot by (cases "drop (Suc i) p") (auto simp: path_depth_def)
  next
    case False
    then have "path_dir p = path_clean q" using pre path_clean_slash by (simp add: path_dir_def)
    moreover have "length (path_clean q) \<le> length q" using path_clean_length [of q] False by (cases q) auto
    moreover have "length q < length p" using i by (simp add: q_def)
    ultimately show ?thesis using dot i by (auto simp: path_depth_def)
  qed
qed

end
