(* ===== verification/Checkpoint_Ignore.thy ===== *)
theory Checkpoint_Ignore
  imports Go_Prelude
begin

text \<open>
  \<open>internal/checkpoint/ignore.go\<close>: the ignore list of a project.

  \<open>glob pattern subject\<close> stands for \<open>path.Match\<close> without an error, the function that
  \<open>matchesPattern\<close> makes of it; what the code needs of the glob language is a hypothesis
  of the theorem that needs it. What is ignored as a directory takes every directory under it
  along, and the temporary files of a restore are ignored by default.
\<close>

definition default_ignores :: "string list" where
  "default_ignores =
     [''.git/'', ''node_modules/'', ''.venv/'', ''venv/'', ''__pycache__/'', ''.mypy_cache/'',
      ''.pytest_cache/'', ''.ruff_cache/'', ''target/'', ''dist/'', ''build/'', ''.next/'', ''.turbo/'',
      ''.DS_Store'', ''*.pyc'', ''*.prison-partial'', ''*.partial'']"

record ignore_pattern =
  ip_text :: string
  ip_rooted :: bool
  ip_directory_only :: bool

definition new_pattern :: "string \<Rightarrow> ignore_pattern option" where
  "new_pattern pat =
     (let cleaned = trim_right_by (\<lambda>c. c = CHR ''/'') pat
      in if cleaned = [] then None
         else Some \<lparr>ip_text = cleaned, ip_rooted = contains_str cleaned ''/'',
           ip_directory_only = has_suffix pat ''/''\<rparr>)"

text \<open>A nil \<open>*Ignore\<close> is \<open>None\<close> in \<open>matches\<close>.\<close>

type_synonym ignore = "ignore_pattern list"

definition new_ignore :: "string list \<Rightarrow> ignore" where
  "new_ignore patterns = List.map_filter new_pattern patterns"

definition pattern_matches :: "(string \<Rightarrow> string \<Rightarrow> bool) \<Rightarrow> string \<Rightarrow> bool \<Rightarrow> ignore_pattern \<Rightarrow> bool" where
  "pattern_matches glob relativePath isDirectory p \<longleftrightarrow>
     (let segments = split_on CHR ''/'' relativePath
      in if ip_directory_only p \<and> \<not> isDirectory then False
         else if ip_rooted p
         then glob (ip_text p) relativePath \<or>
           list_ex (\<lambda>depth. glob (ip_text p) (join ''/'' (take depth segments))) [1..<length segments]
         else list_ex (glob (ip_text p)) segments)"

definition matches :: "(string \<Rightarrow> string \<Rightarrow> bool) \<Rightarrow> ignore option \<Rightarrow> string \<Rightarrow> bool \<Rightarrow> bool" where
  "matches glob ig relativePath isDirectory \<longleftrightarrow>
     (case ig of None \<Rightarrow> False
      | Some patterns \<Rightarrow> relativePath \<noteq> [] \<and> list_ex (pattern_matches glob relativePath isDirectory) patterns)"

section \<open>Facts\<close>

lemma pattern_matches_below:
  assumes "pattern_matches glob p isDirectory pat"
  shows "pattern_matches glob (p @ ''/'' @ q) True pat"
proof -
  let ?ps = "split_on CHR ''/'' p" and ?qs = "split_on CHR ''/'' q"
  have seg: "split_on CHR ''/'' (p @ ''/'' @ q) = ?ps @ ?qs" by (simp add: split_on_concat)
  have len: "0 < length ?ps" "0 < length ?qs" by simp_all
  have p: "p = join ''/'' (take (length ?ps) (?ps @ ?qs))" by simp
  show ?thesis
  proof (cases "ip_rooted pat")
    case False
    then show ?thesis using assms unfolding pattern_matches_def seg Let_def by (auto split: if_splits)
  next
    case True
    then consider "glob (ip_text pat) p"
      | depth where "depth \<in> {1..<length ?ps}" "glob (ip_text pat) (join ''/'' (take depth ?ps))"
      using assms by (auto simp: pattern_matches_def Let_def list_ex_iff split: if_splits)
    then have "\<exists>depth\<in>{1..<length (?ps @ ?qs)}. glob (ip_text pat) (join ''/'' (take depth (?ps @ ?qs)))"
    proof cases
      case 1
      then show ?thesis using p len by (intro bexI [of _ "length ?ps"]) (auto simp: Suc_le_eq)
    next
      case 2
      then show ?thesis using len by (intro bexI [of _ depth]) auto
    qed
    then show ?thesis using True unfolding pattern_matches_def seg Let_def by (simp add: list_ex_iff)
  qed
qed

lemma new_ignore_in: "new_pattern s = Some p \<Longrightarrow> s \<in> set ss \<Longrightarrow> p \<in> set (new_ignore ss)"
  by (induction ss) (auto simp: new_ignore_def List.map_filter_simps split: option.splits)

lemma temporary_ignored:
  assumes "\<And>name. CHR ''/'' \<notin> set name \<Longrightarrow> glob ''*.prison-partial'' (name @ ''.prison-partial'')"
  shows "matches glob (Some (new_ignore default_ignores)) (path @ ''.prison-partial'') isDirectory"
proof -
  obtain ps p where ps: "split_on CHR ''/'' path = ps @ [p]" by (metis rev_exhaust split_on_neq_Nil)
  have p: "CHR ''/'' \<notin> set p" using split_on_fields [of p "CHR ''/''" path] ps by simp
  have "split_on CHR ''/'' (path @ x) = ps @ [p @ x]" if x: "CHR ''/'' \<notin> set x" for x
  proof (cases "ps = []")
    case True
    then have "path = p" using join_split_on [of "CHR ''/''" path] ps by simp
    then show ?thesis using p x True by (simp add: split_on_no_sep)
  next
    case False
    then have "path = join ''/'' ps @ ''/'' @ p"
      using join_split_on [of "CHR ''/''" path] ps by (simp add: join_append)
    moreover have "split_on CHR ''/'' (join ''/'' ps) = ps"
      using False split_on_fields [of _ "CHR ''/''" path] ps by (intro split_on_join) auto
    ultimately show ?thesis using split_on_concat [of "CHR ''/''" "join ''/'' ps" "p @ x"] p x
      by (simp add: split_on_no_sep)
  qed
  then have seg: "split_on CHR ''/'' (path @ ''.prison-partial'') = ps @ [p @ ''.prison-partial'']" by simp
  have "new_pattern ''*.prison-partial'' =
      Some \<lparr>ip_text = ''*.prison-partial'', ip_rooted = False, ip_directory_only = False\<rparr>" by code_simp
  moreover have "''*.prison-partial'' \<in> set default_ignores" by code_simp
  ultimately have "\<lparr>ip_text = ''*.prison-partial'', ip_rooted = False, ip_directory_only = False\<rparr>
      \<in> set (new_ignore default_ignores)" by (rule new_ignore_in)
  moreover have "pattern_matches glob (path @ ''.prison-partial'') isDirectory
      \<lparr>ip_text = ''*.prison-partial'', ip_rooted = False, ip_directory_only = False\<rparr>"
    unfolding pattern_matches_def seg Let_def using assms [OF p] by simp
  ultimately show ?thesis unfolding matches_def by (auto simp: list_ex_iff)
qed

section \<open>Properties\<close>

text \<open>What an ignore list matches as a directory or a file, it matches for every directory
  below: an ignored tree is ignored as a whole.\<close>

theorem ignored_below:
  assumes "matches glob ig p isDirectory"
  shows "matches glob ig (p @ ''/'' @ q) True"
  using assms pattern_matches_below by (fastforce simp: matches_def list_ex_iff split: option.splits)

definition suffix_glob :: "string \<Rightarrow> string \<Rightarrow> bool" where
  "suffix_glob pat s \<longleftrightarrow> (case pat of [] \<Rightarrow> s = []
     | c # cs \<Rightarrow> if c = CHR ''*'' then has_suffix s cs \<and> CHR ''/'' \<notin> set s else s = pat)"

theorem ignored_below_witness:
  "matches suffix_glob (Some (new_ignore default_ignores)) (''node_modules'' @ ''/'' @ ''left-pad/lib'') True"
proof (rule ignored_below)
  show "matches suffix_glob (Some (new_ignore default_ignores)) ''node_modules'' True" by code_simp
qed

text \<open>The temporary file of a restore, wherever it is, is ignored by the default list, so that a
  scan during or after a failed restore does not record it. (A star matches any text without a slash.)\<close>

theorem partial_ignored:
  assumes "\<And>name. CHR ''/'' \<notin> set name \<Longrightarrow> glob ''*.prison-partial'' (name @ ''.prison-partial'')"
  shows "matches glob (Some (new_ignore default_ignores)) (path @ ''.prison-partial'') isDirectory"
  using assms by (rule temporary_ignored)

theorem partial_ignored_witness:
  "matches suffix_glob (Some (new_ignore default_ignores)) (''src/main.go'' @ ''.prison-partial'') False"
proof (rule partial_ignored)
  fix name
  assume "CHR ''/'' \<notin> set name"
  moreover have "has_suffix (name @ ''.prison-partial'') ''.prison-partial''" by (rule has_suffix_append)
  ultimately show "suffix_glob ''*.prison-partial'' (name @ ''.prison-partial'')"
    unfolding suffix_glob_def list.case by simp
qed

end
