(* ===== verification/Checkpoint_Tree.thy ===== *)
theory Checkpoint_Tree
  imports Checkpoint_Manifest Checkpoint_Ignore "HOL-Library.AList"
begin

text \<open>
  The working tree: the file operations of \<open>os.Root\<close> that the package calls, \<open>WriteEntry\<close>
  and \<open>removePath\<close> of \<open>restore.go\<close>, and the scan of \<open>scan.go\<close>.

  A tree is an association list from slash-separated paths to nodes; the project directory
  itself is implicit. Paths whose contents cannot be read are a list beside it. A symbolic link
  in the middle of a path is followed as \<open>os.Root\<close> does it, as long as it stays inside the
  project. The kernel's own failures (a full disk, a lost permission to write) are not modelled.
  SHA-256 is the parameter \<open>sha\<close>, which returns the hexadecimal digest.
\<close>

section \<open>Nodes and file operations\<close>

datatype node = NFile file_mode string | NLink string | NDir | NSpecial

type_synonym tree = "(string \<times> node) list"

datatype fs_error = NotExist | NotEmpty | NotDirectory | Exists | IsDirectory | PathEscapes | TooManyLinks

definition parent_of :: "string \<Rightarrow> string" where
  "parent_of p = (case last_index CHR ''/'' p of None \<Rightarrow> [] | Some i \<Rightarrow> take i p)"

definition lstat :: "tree \<Rightarrow> string \<Rightarrow> node option" where
  "lstat t p = (if p = [] then Some NDir else map_of t p)"

text \<open>The name of \<open>k\<close> in the directory \<open>d\<close>, when it is there.\<close>

definition name_in :: "string \<Rightarrow> string \<Rightarrow> string option" where
  "name_in d k =
     (let name = (if d = [] then k else trim_prefix k (d @ ''/''))
      in if (d = [] \<or> has_prefix k (d @ ''/'')) \<and> name \<noteq> [] \<and> CHR ''/'' \<notin> set name then Some name else None)"

definition child_path :: "string \<Rightarrow> string \<Rightarrow> string" where
  "child_path d name = (if d = [] then name else d @ ''/'' @ name)"

text \<open>\<open>ReadDir\<close>: the names of a directory, sorted.\<close>

definition child_names :: "tree \<Rightarrow> string \<Rightarrow> string list" where
  "child_names t d = sort (remdups (List.map_filter (name_in d) (map fst t)))"

text \<open>How \<open>os.Root\<close> walks to a directory. A link is replaced by its target, at most eight times; a target that is absolute, or that
  climbs above the project, is refused. \<open>MkdirAll\<close> makes each directory that is missing on the way.\<close>

definition root_max_symlinks :: nat where "root_max_symlinks = 8"

function open_dirs :: "bool \<Rightarrow> nat \<Rightarrow> tree \<Rightarrow> string list \<Rightarrow> string list \<Rightarrow> (fs_error, string list) result \<times> tree" where
  "open_dirs mk links t cur [] = (Ok cur, t)"
| "open_dirs mk links t cur (s # ss) =
     (if s = [] \<or> s = ''.'' then open_dirs mk links t cur ss
      else if s = ''..'' then if cur = [] then (Err PathEscapes, t) else open_dirs mk links t (butlast cur) ss
      else let p = join ''/'' (cur @ [s])
      in case lstat t p of
           None \<Rightarrow> if mk then open_dirs mk links (AList.update p NDir t) (cur @ [s]) ss else (Err NotExist, t)
         | Some NDir \<Rightarrow> open_dirs mk links t (cur @ [s]) ss
         | Some (NLink target) \<Rightarrow>
             (case links of
                0 \<Rightarrow> (Err TooManyLinks, t)
              | Suc n \<Rightarrow> if target = [] \<or> is_abs target then (Err PathEscapes, t)
                         else open_dirs mk n t cur (split_on CHR ''/'' target @ ss))
         | Some _ \<Rightarrow> (Err NotDirectory, t))"
  by pat_completeness auto
termination by (relation "measures [\<lambda>(mk, links, t, cur, ss). links, \<lambda>(mk, links, t, cur, ss). length ss]") auto

definition dir_segments :: "string \<Rightarrow> string list" where
  "dir_segments p = (if p = [] then [] else split_on CHR ''/'' p)"

definition file_name :: "string \<Rightarrow> string" where
  "file_name p = (case last_index CHR ''/'' p of None \<Rightarrow> p | Some i \<Rightarrow> drop (Suc i) p)"

text \<open>The place a path names: its parent with the links followed, and its own name.\<close>

definition locate :: "tree \<Rightarrow> string \<Rightarrow> (fs_error, string) result" where
  "locate t p =
     bind_res (fst (open_dirs False root_max_symlinks t [] (dir_segments (parent_of p))))
       (\<lambda>d. Ok (child_path (join ''/'' d) (file_name p)))"

text \<open>\<open>MkdirAll\<close>: the last element can be a link to a directory.\<close>

definition mkdir_all :: "string \<Rightarrow> tree \<Rightarrow> fs_error option \<times> tree" where
  "mkdir_all p t =
     (if p = [] then (None, t)
      else case open_dirs True root_max_symlinks t [] (dir_segments (parent_of p)) of
        (Err e, t1) \<Rightarrow> (Some e, t1)
      | (Ok d, t1) \<Rightarrow>
          let q = child_path (join ''/'' d) (file_name p)
          in case lstat t1 q of
               None \<Rightarrow> (None, AList.update q NDir t1)
             | Some NDir \<Rightarrow> (None, t1)
             | Some (NLink target) \<Rightarrow>
                 (case fst (open_dirs False root_max_symlinks t1 [] (dir_segments p)) of Ok _ \<Rightarrow> (None, t1) | Err _ \<Rightarrow> (Some Exists, t1))
             | Some _ \<Rightarrow> (Some Exists, t1))"

text \<open>The operations on a place: the last element is not followed.\<close>

definition fs_remove :: "string \<Rightarrow> tree \<Rightarrow> (fs_error, tree) result" where
  "fs_remove p t =
     (case map_of t p of
        None \<Rightarrow> Err NotExist
      | Some n \<Rightarrow> if n = NDir \<and> child_names t p \<noteq> [] then Err NotEmpty else Ok (AList.delete p t))"

definition symlink :: "string \<Rightarrow> string \<Rightarrow> tree \<Rightarrow> (fs_error, tree) result" where
  "symlink target p t =
     (if lstat t p \<noteq> None then Err Exists
      else if lstat t (parent_of p) \<noteq> Some NDir then Err NotExist
      else Ok (AList.update p (NLink target) t))"

definition write_file :: "string \<Rightarrow> string \<Rightarrow> file_mode \<Rightarrow> tree \<Rightarrow> (fs_error, tree) result" where
  "write_file p content mode t =
     (case lstat t p of
        None \<Rightarrow> if lstat t (parent_of p) = Some NDir then Ok (AList.update p (NFile mode content) t) else Err NotExist
      | Some (NFile m c) \<Rightarrow> Ok (AList.update p (NFile m content) t)
      | Some NDir \<Rightarrow> Err IsDirectory
      | Some _ \<Rightarrow> Err Exists)"

definition chmod :: "string \<Rightarrow> file_mode \<Rightarrow> tree \<Rightarrow> (fs_error, tree) result" where
  "chmod p mode t =
     (case lstat t p of
        Some (NFile m c) \<Rightarrow> Ok (AList.update p (NFile mode c) t)
      | Some _ \<Rightarrow> Ok t
      | None \<Rightarrow> Err NotExist)"

definition rename :: "string \<Rightarrow> string \<Rightarrow> tree \<Rightarrow> (fs_error, tree) result" where
  "rename p q t =
     (case map_of t p of
        None \<Rightarrow> Err NotExist
      | Some n \<Rightarrow> if lstat t q = Some NDir then Err IsDirectory
          else Ok (AList.update q n (AList.delete p t)))"

text \<open>The operations of \<open>os.Root\<close> on a path.\<close>

definition root_lstat :: "tree \<Rightarrow> string \<Rightarrow> (fs_error, node) result" where
  "root_lstat t p = bind_res (locate t p) (\<lambda>q. case lstat t q of None \<Rightarrow> Err NotExist | Some n \<Rightarrow> Ok n)"

definition root_remove :: "string \<Rightarrow> tree \<Rightarrow> (fs_error, tree) result" where
  "root_remove p t = bind_res (locate t p) (\<lambda>q. fs_remove q t)"

definition root_symlink :: "string \<Rightarrow> string \<Rightarrow> tree \<Rightarrow> (fs_error, tree) result" where
  "root_symlink target p t = bind_res (locate t p) (\<lambda>q. symlink target q t)"

definition root_write :: "string \<Rightarrow> string \<Rightarrow> file_mode \<Rightarrow> tree \<Rightarrow> (fs_error, tree) result" where
  "root_write p content mode t = bind_res (locate t p) (\<lambda>q. write_file q content mode t)"

definition root_chmod :: "string \<Rightarrow> file_mode \<Rightarrow> tree \<Rightarrow> (fs_error, tree) result" where
  "root_chmod p mode t = bind_res (locate t p) (\<lambda>q. chmod q mode t)"

definition root_rename :: "string \<Rightarrow> string \<Rightarrow> tree \<Rightarrow> (fs_error, tree) result" where
  "root_rename p r t = bind_res (locate t p) (\<lambda>q. bind_res (locate t r) (\<lambda>s. rename q s t))"

text \<open>\<open>ReadDir\<close> of a path that is a directory itself.\<close>

definition root_children :: "tree \<Rightarrow> string \<Rightarrow> string list" where
  "root_children t p = (case locate t p of Ok q \<Rightarrow> child_names t q | Err _ \<Rightarrow> [])"

section \<open>Writing and removing entries\<close>

definition remove_path :: "string \<Rightarrow> tree \<Rightarrow> (fs_error, tree) result" where
  "remove_path p t =
     (case root_lstat t p of
        Err e \<Rightarrow> if e = NotExist then Ok t else Err e
      | Ok information \<Rightarrow>
        (case root_remove p t of
           Ok t' \<Rightarrow> Ok t'
         | Err e \<Rightarrow> if information = NDir \<and> root_children t p \<noteq> [] then Err NotEmpty else Err e))"

datatype write_error =
  CannotReplace string
| CannotCreate string
| CannotCreateParent string
| CannotCreateLink string
| CannotWrite string
| CannotSetPermissions string

definition restore_temporary_suffix :: string where
  "restore_temporary_suffix = ''.prison-partial''"

text \<open>A failed operation keeps what the ones before it did.\<close>

definition or_fail :: "(fs_error, tree) result \<Rightarrow> tree \<Rightarrow> write_error \<Rightarrow>
    (tree \<Rightarrow> write_error option \<times> tree) \<Rightarrow> write_error option \<times> tree" where
  "or_fail r t e rest = (case r of Err _ \<Rightarrow> (Some e, t) | Ok t' \<Rightarrow> rest t')"

definition ignore_failure :: "(fs_error, tree) result \<Rightarrow> tree \<Rightarrow> tree" where
  "ignore_failure r t = (case r of Err _ \<Rightarrow> t | Ok t' \<Rightarrow> t')"

text \<open>\<open>Lstat\<close>, and removal of what is in the way.\<close>

definition clear_unless :: "(node \<Rightarrow> bool) \<Rightarrow> string \<Rightarrow> tree \<Rightarrow> (fs_error, tree) result" where
  "clear_unless fine p t =
     (case root_lstat t p of Ok n \<Rightarrow> if fine n then Ok t else remove_path p t | Err _ \<Rightarrow> Ok t)"

definition write_directory :: "string \<Rightarrow> tree \<Rightarrow> write_error option \<times> tree" where
  "write_directory p t =
     or_fail (clear_unless (\<lambda>n. n = NDir) p t) t (CannotReplace p) (\<lambda>t1.
     case mkdir_all p t1 of
       (Some _, t2) \<Rightarrow> (Some (CannotCreate p), t2)
     | (None, t2) \<Rightarrow> (None, t2))"

definition write_link :: "string \<Rightarrow> string \<Rightarrow> tree \<Rightarrow> write_error option \<times> tree" where
  "write_link p content t =
     or_fail (remove_path p t) t (CannotReplace p) (\<lambda>t1.
     or_fail (root_symlink content p t1) t1 (CannotCreateLink p) (\<lambda>t2. (None, t2)))"

definition is_regular :: "node \<Rightarrow> bool" where
  "is_regular n = (case n of NFile _ _ \<Rightarrow> True | _ \<Rightarrow> False)"

definition file_mode_to_write :: "file_mode \<Rightarrow> file_mode" where
  "file_mode_to_write m = (if perm m = 0 then 420 else perm m)"

definition write_regular :: "string \<Rightarrow> file_mode \<Rightarrow> string \<Rightarrow> tree \<Rightarrow> write_error option \<times> tree" where
  "write_regular p mode content t =
     or_fail (clear_unless is_regular p t) t (CannotReplace p) (\<lambda>t1.
     let temporary = p @ restore_temporary_suffix;
         t2 = ignore_failure (root_remove temporary t1) t1
     in or_fail (root_write temporary content mode t2) t2 (CannotWrite p) (\<lambda>t3.
        or_fail (root_chmod temporary mode t3) (ignore_failure (root_remove temporary t3) t3) (CannotSetPermissions p) (\<lambda>t4.
        or_fail (root_rename temporary p t4) (ignore_failure (root_remove temporary t4) t4) (CannotWrite p) (\<lambda>t5.
        (None, t5)))))"

definition write_entry :: "entry \<Rightarrow> string \<Rightarrow> tree \<Rightarrow> write_error option \<times> tree" where
  "write_entry e content t =
     (let p = e_path e
      in if e_kind e = KindDirectory then write_directory p t
         else case mkdir_all (parent_of p) t of
           (Some _, t1) \<Rightarrow> (Some (CannotCreateParent p), t1)
         | (None, t1) \<Rightarrow>
             if e_kind e = KindLink then write_link p content t1
             else write_regular p (file_mode_to_write (e_mode e)) content t1)"

section \<open>What the operations change\<close>

lemmas tree_simps = update_conv' delete_conv'

definition node_of :: "entry \<Rightarrow> string \<Rightarrow> node" where
  "node_of e content =
     (if e_kind e = KindDirectory then NDir
      else if e_kind e = KindLink then NLink content
      else NFile (file_mode_to_write (e_mode e)) content)"

text \<open>A tree that differs from \<open>t\<close> at most in \<open>ps\<close> and in new directories.\<close>

definition only_changes :: "string set \<Rightarrow> tree \<Rightarrow> tree \<Rightarrow> bool" where
  "only_changes ps t t' \<longleftrightarrow>
     (\<forall>q. q \<notin> ps \<longrightarrow> map_of t' q = map_of t q \<or> (map_of t q = None \<and> map_of t' q = Some NDir))"

lemma only_changes_refl [simp]: "only_changes ps t t"
  by (simp add: only_changes_def)

lemma only_changes_trans:
  "only_changes ps t t' \<Longrightarrow> only_changes qs t' t'' \<Longrightarrow> only_changes (ps \<union> qs) t t''"
  by (fastforce simp: only_changes_def)

lemma only_changes_mono: "only_changes ps t t' \<Longrightarrow> ps \<subseteq> qs \<Longrightarrow> only_changes qs t t'"
  by (auto simp: only_changes_def)

lemma update_changes: "only_changes {p} t (AList.update p n t)"
  by (simp add: only_changes_def tree_simps)

lemma delete_changes: "only_changes {p} t (AList.delete p t)"
  by (simp add: only_changes_def tree_simps)

lemma fs_remove_changes: "fs_remove p t = Ok t' \<Longrightarrow> only_changes {p} t t' \<and> map_of t' p = None"
  by (auto simp: fs_remove_def delete_changes tree_simps split: option.splits if_splits)

section \<open>The directories on the way\<close>

text \<open>The proper parents of a path. When none of them is a link, the walk to a path with plain names ends where its text says.\<close>

definition way :: "string \<Rightarrow> string set" where
  "way p = {d. d \<noteq> [] \<and> has_prefix p (d @ ''/'')}"

definition plain_path :: "string \<Rightarrow> bool" where
  "plain_path p \<longleftrightarrow> list_all plain (split_on CHR ''/'' p)"

definition is_link :: "node option \<Rightarrow> bool" where
  "is_link n \<longleftrightarrow> (case n of Some (NLink target) \<Rightarrow> True | _ \<Rightarrow> False)"

definition linkless :: "tree \<Rightarrow> string \<Rightarrow> bool" where
  "linkless t p \<longleftrightarrow> (\<forall>d\<in>way p. \<not> is_link (map_of t d))"

definition open_way :: "tree \<Rightarrow> string \<Rightarrow> bool" where
  "open_way t p \<longleftrightarrow> (\<forall>d\<in>way p. map_of t d = Some NDir)"

lemma is_link_simps [simp]: "\<not> is_link None" "\<not> is_link (Some NDir)" "\<not> is_link (Some (NFile m c))" "is_link (Some (NLink x))"
  by (simp_all add: is_link_def)

lemma plain_path_neq_Nil: "plain_path p \<Longrightarrow> p \<noteq> []"
  by (auto simp: plain_path_def plain_def)

lemma open_way_linkless: "open_way t p \<Longrightarrow> linkless t p"
  by (simp add: open_way_def linkless_def)

lemma way_self: "p \<notin> way p"
  by (auto simp: way_def has_prefix_iff)

lemma way_length: "d \<in> way p \<Longrightarrow> length d < length p"
  by (auto simp: way_def has_prefix_iff)

lemma way_trans: "d \<in> way p \<Longrightarrow> p \<in> way q \<Longrightarrow> d \<in> way q"
  by (auto simp: way_def has_prefix_iff)

lemma prefix_less: "(p :: string) < p @ c # r"
  by (induction p) simp_all

lemma way_less: "d \<in> way p \<Longrightarrow> d < p"
  using prefix_less by (auto simp: way_def has_prefix_iff)

lemma slash_split:
  assumes "u @ v = d @ CHR ''/'' # r" "CHR ''/'' \<notin> set v"
  shows "\<exists>r'. u = d @ CHR ''/'' # r' \<and> r = r' @ v"
  using assms by (auto simp: append_eq_append_conv2 append_eq_Cons_conv)

lemma way_suffix: "way (p @ restore_temporary_suffix) = way p"
proof -
  have n: "CHR ''/'' \<notin> set restore_temporary_suffix" by (simp add: restore_temporary_suffix_def)
  show ?thesis by (auto simp: way_def has_prefix_iff dest!: slash_split [OF _ n])
qed

text \<open>The parent and the name of a plain path.\<close>

lemma plain_join_Nil: "list_all plain ss \<Longrightarrow> join ''/'' ss = [] \<longleftrightarrow> ss = []"
  by (rule join_eq_Nil) (auto simp: list_all_iff plain_def)

lemma split_plain: "list_all plain ss \<Longrightarrow> ss \<noteq> [] \<Longrightarrow> split_on CHR ''/'' (join ''/'' ss) = ss"
  by (rule split_on_join) (auto simp: list_all_iff plain_def)

lemma child_path_join: "list_all plain ss \<Longrightarrow> child_path (join ''/'' ss) x = join ''/'' (ss @ [x])"
  by (cases "ss = []") (simp_all add: child_path_def plain_join_Nil join_append)

lemma parent_file: "CHR ''/'' \<notin> set x \<Longrightarrow> parent_of (j @ CHR ''/'' # x) = j \<and> file_name (j @ CHR ''/'' # x) = x"
  using last_index_append [of "CHR ''/''" x j] by (simp add: parent_of_def file_name_def)

lemma plain_pathE:
  assumes "plain_path p"
  obtains ss x where "list_all plain ss" "plain x" "p = join ''/'' (ss @ [x])" "split_on CHR ''/'' p = ss @ [x]"
    "dir_segments (parent_of p) = ss" "file_name p = x" "parent_of p = join ''/'' ss"
proof -
  let ?ss = "butlast (split_on CHR ''/'' p)" and ?x = "last (split_on CHR ''/'' p)"
  have s: "split_on CHR ''/'' p = ?ss @ [?x]" by simp
  then have pl: "list_all plain ?ss" "plain ?x" using assms by (auto simp: plain_path_def list_all_iff dest: in_set_butlastD)
  have p: "p = join ''/'' (?ss @ [?x])" using join_split_on [of "CHR ''/''" p] by simp
  have n: "CHR ''/'' \<notin> set ?x" using pl(2) by (simp add: plain_def)
  have "parent_of p = join ''/'' ?ss \<and> file_name p = ?x"
  proof (cases "?ss = []")
    case True
    then have "p = ?x" using p by (metis append_Nil join.simps(2))
    then show ?thesis using n True by (metis file_name_def last_index_None option.simps(4) parent_of_def join.simps(1))
  next
    case False
    then have "p = join ''/'' ?ss @ CHR ''/'' # ?x" using p join_append [of ?ss "[?x]" "''/''"] by simp
    then show ?thesis using parent_file [OF n] by metis
  qed
  moreover have "dir_segments (join ''/'' ?ss) = ?ss"
    using split_plain [OF pl(1)] plain_join_Nil [OF pl(1)] by (auto simp: dir_segments_def)
  ultimately show thesis using that [OF pl p s] by simp
qed

lemma plain_path_suffix: "plain_path p \<Longrightarrow> plain_path (p @ restore_temporary_suffix)"
proof -
  assume "plain_path p"
  then obtain ss x where s: "list_all plain ss" "plain x" "p = join ''/'' (ss @ [x])" by (rule plain_pathE)
  let ?x = "x @ restore_temporary_suffix"
  have "join ''/'' (ss @ [x]) @ restore_temporary_suffix = join ''/'' (ss @ [?x])"
    by (cases "ss = []") (simp_all add: join_append)
  moreover have "plain ?x" using s(2) by (auto simp: plain_def restore_temporary_suffix_def)
  ultimately show ?thesis using split_plain [of "ss @ [?x]"] s by (simp add: plain_path_def)
qed

text \<open>The directories a walk meets.\<close>

fun dir_paths :: "string list \<Rightarrow> string list \<Rightarrow> string list" where
  "dir_paths cur [] = []"
| "dir_paths cur (s # ss) = join ''/'' (cur @ [s]) # dir_paths (cur @ [s]) ss"

lemma dir_paths_prefix: "d \<in> set (dir_paths cur ss) \<Longrightarrow> list_all plain (cur @ ss) \<Longrightarrow>
    d \<noteq> [] \<and> (d = join ''/'' (cur @ ss) \<or> has_prefix (join ''/'' (cur @ ss)) (d @ ''/''))"
proof (induction cur ss rule: dir_paths.induct)
  case (2 cur s ss)
  show ?case
  proof (cases "d = join ''/'' (cur @ [s])")
    case True
    then have "d \<noteq> []" using 2(3) plain_join_Nil [of "cur @ [s]"] by simp
    then show ?thesis using True join_append [of "cur @ [s]" ss "''/''"] by (cases "ss = []") (auto simp: has_prefix_iff)
  qed (use 2 in auto)
qed simp

lemma dir_paths_way:
  assumes "plain_path p" "d \<in> set (dir_paths [] (dir_segments (parent_of p)))"
  shows "d \<in> way p"
proof -
  obtain ss x where s: "list_all plain ss" "p = join ''/'' (ss @ [x])" "dir_segments (parent_of p) = ss"
    using plain_pathE [OF assms(1)] by metis
  have d: "d \<noteq> []" "d = join ''/'' ss \<or> has_prefix (join ''/'' ss) (d @ ''/'')"
    using dir_paths_prefix [of d "[]" ss] assms(2) s by auto
  then have "ss \<noteq> []" by (auto simp: has_prefix_iff)
  then show ?thesis using d join_append [of ss "[x]" "''/''"] s(2) by (auto simp: way_def has_prefix_iff)
qed

text \<open>Making every directory of a list.\<close>

fun mkdir_each :: "string list \<Rightarrow> tree \<Rightarrow> fs_error option \<times> tree" where
  "mkdir_each [] t = (None, t)"
| "mkdir_each (d # ds) t =
     (case lstat t d of
        None \<Rightarrow> mkdir_each ds (AList.update d NDir t)
      | Some n \<Rightarrow> if n = NDir then mkdir_each ds t else (Some NotDirectory, t))"

lemma open_dirs_make:
  "list_all plain (cur @ ss) \<Longrightarrow> \<forall>d\<in>set (dir_paths cur ss). \<not> is_link (map_of t d) \<Longrightarrow>
   open_dirs True links t cur ss =
     (case mkdir_each (dir_paths cur ss) t of (None, t') \<Rightarrow> (Ok (cur @ ss), t') | (Some e, t') \<Rightarrow> (Err e, t'))"
proof (induction ss arbitrary: cur t)
  case (Cons s ss)
  have p: "plain s" "join ''/'' (cur @ [s]) \<noteq> []" using Cons.prems(1) plain_join_Nil [of "cur @ [s]"] by simp_all
  have st: "lstat t (join ''/'' (cur @ [s])) = map_of t (join ''/'' (cur @ [s]))" using p(2) by (simp add: lstat_def)
  have ih: "open_dirs True links u (cur @ [s]) ss =
     (case mkdir_each (dir_paths (cur @ [s]) ss) u of (None, t') \<Rightarrow> (Ok (cur @ s # ss), t') | (Some e, t') \<Rightarrow> (Err e, t'))"
    if "u = t \<or> u = AList.update (join ''/'' (cur @ [s])) NDir t" for u
  proof -
    have "\<forall>d\<in>set (dir_paths (cur @ [s]) ss). \<not> is_link (map_of u d)" using Cons.prems(2) that by (auto simp: update_conv' split: if_splits)
    then show ?thesis using Cons.IH [of "cur @ [s]" u] Cons.prems(1) by (simp only: append_assoc append.simps)
  qed
  show ?case using p(1) Cons.prems(2) ih by (auto simp: plain_def Let_def st is_link_def split: option.split node.split)
qed simp

lemma open_dirs_find:
  "list_all plain (cur @ ss) \<Longrightarrow> \<forall>d\<in>set (dir_paths cur ss). \<not> is_link (map_of t d) \<Longrightarrow>
   snd (open_dirs False links t cur ss) = t \<and>
   (\<forall>d. fst (open_dirs False links t cur ss) = Ok d \<longrightarrow> d = cur @ ss) \<and>
   (fst (open_dirs False links t cur ss) = Ok (cur @ ss) \<longleftrightarrow> (\<forall>d\<in>set (dir_paths cur ss). map_of t d = Some NDir))"
proof (induction ss arbitrary: cur)
  case (Cons s ss)
  have p: "plain s" "join ''/'' (cur @ [s]) \<noteq> []" using Cons.prems(1) plain_join_Nil [of "cur @ [s]"] by simp_all
  have st: "lstat t (join ''/'' (cur @ [s])) = map_of t (join ''/'' (cur @ [s]))" using p(2) by (simp add: lstat_def)
  show ?case using p(1) Cons.prems Cons.IH [of "cur @ [s]"]
    by (auto simp: plain_def Let_def st is_link_def split: option.split node.split)
qed simp

lemma locate_linkless:
  assumes "plain_path p" "linkless t p" "locate t p = Ok q"
  shows "q = p"
proof -
  obtain ss x where s: "list_all plain ss" "p = join ''/'' (ss @ [x])" "dir_segments (parent_of p) = ss" "file_name p = x"
    using plain_pathE [OF assms(1)] by metis
  have "\<forall>d\<in>set (dir_paths [] ss). \<not> is_link (map_of t d)"
    using dir_paths_way [OF assms(1)] assms(2) s(3) by (auto simp: linkless_def)
  from open_dirs_find [OF _ this, of root_max_symlinks] show ?thesis
    using assms(3) s child_path_join [OF s(1), of x] by (auto simp: locate_def bind_res_Ok)
qed

lemma locate_open:
  assumes "plain_path p" "open_way t p"
  shows "locate t p = Ok p"
proof -
  obtain ss x where s: "list_all plain ss" "p = join ''/'' (ss @ [x])" "dir_segments (parent_of p) = ss" "file_name p = x"
    using plain_pathE [OF assms(1)] by metis
  have "\<forall>d\<in>set (dir_paths [] ss). map_of t d = Some NDir"
    using dir_paths_way [OF assms(1)] assms(2) s(3) by (auto simp: open_way_def)
  with open_dirs_find [of "[]" ss t root_max_symlinks] show ?thesis
    using s child_path_join [OF s(1), of x] by (auto simp: locate_def)
qed

lemma dir_paths_take: "k < length ss \<Longrightarrow> join ''/'' (cur @ take (Suc k) ss) \<in> set (dir_paths cur ss)"
proof (induction cur ss arbitrary: k rule: dir_paths.induct)
  case (2 cur s ss)
  then show ?case by (cases k) auto
qed simp

lemma way_dir_paths:
  assumes "plain_path p" "d \<in> way p"
  shows "d \<in> set (dir_paths [] (dir_segments (parent_of p)))"
proof -
  obtain ss x where s: "split_on CHR ''/'' p = ss @ [x]" "dir_segments (parent_of p) = ss" using plain_pathE [OF assms(1)] by metis
  obtain r where r: "p = d @ CHR ''/'' # r" using assms(2) by (auto simp: way_def has_prefix_iff)
  have c: "split_on CHR ''/'' d @ split_on CHR ''/'' r = ss @ [x]" using split_on_concat [of "CHR ''/''" d r] s(1) r by simp
  define k where "k = length (split_on CHR ''/'' d) - 1"
  have k: "length (split_on CHR ''/'' d) = Suc k" by (simp add: k_def)
  have "length (split_on CHR ''/'' r) > 0" by simp
  then have l: "Suc k \<le> length ss" using arg_cong [OF c, of length] k by (simp del: length_greater_0_conv)
  have "take (Suc k) ss = take (Suc k) (ss @ [x])" using l by simp
  also have "\<dots> = split_on CHR ''/'' d" by (simp add: c [symmetric] k)
  finally have "join ''/'' ([] @ take (Suc k) ss) = d" by simp
  then show ?thesis using dir_paths_take [of k ss "[]"] l s(2) by (simp add: Suc_le_eq)
qed

lemma set_dir_paths: "plain_path p \<Longrightarrow> set (dir_paths [] (dir_segments (parent_of p))) = way p"
  using way_dir_paths dir_paths_way by blast

lemma way_parent:
  assumes "plain_path p"
  shows "parent_of p = [] \<and> way p = {} \<or> plain_path (parent_of p) \<and> way p = insert (parent_of p) (way (parent_of p))"
proof -
  obtain ss x where s: "list_all plain ss" "p = join ''/'' (ss @ [x])" "dir_segments (parent_of p) = ss" "parent_of p = join ''/'' ss"
    using plain_pathE [OF assms] by metis
  show ?thesis
  proof (cases "ss = []")
    case True
    then show ?thesis using set_dir_paths [OF assms] s(3,4) by auto
  next
    case False
    have pp: "parent_of p \<in> way p" using False s join_append [of ss "[x]" "''/''"] plain_join_Nil [OF s(1)]
      by (auto simp: way_def has_prefix_iff)
    have "d = parent_of p \<or> d \<in> way (parent_of p)" if "d \<in> way p" for d
      using dir_paths_prefix [of d "[]" ss] way_dir_paths [OF assms that] s by (auto simp: way_def)
    moreover have "plain_path (parent_of p)" using split_plain [OF s(1) False] s(1,4) by (simp add: plain_path_def)
    ultimately show ?thesis using pp way_trans by blast
  qed
qed

lemma mkdir_each_changes: "mkdir_each ds t = (r, t') \<Longrightarrow> only_changes {} t t'"
proof (induction ds t rule: mkdir_each.induct)
  case (2 d ds t)
  show ?case
  proof (cases "lstat t d")
    case None
    then have "only_changes {} (AList.update d NDir t) t'" using 2 by simp
    moreover have "only_changes {} t (AList.update d NDir t)"
      using None by (auto simp: only_changes_def tree_simps lstat_def split: if_splits)
    ultimately show ?thesis using only_changes_trans by fastforce
  next
    case (Some n)
    then show ?thesis using 2 by (auto split: if_splits)
  qed
qed simp

lemma mkdir_each_present: "mkdir_each ds t = (None, t') \<Longrightarrow> d \<in> set ds \<Longrightarrow> lstat t' d = Some NDir"
proof (induction ds t rule: mkdir_each.induct)
  case (2 d' ds t)
  have keep: "lstat t' d' = Some NDir" if "lstat s d' = Some NDir" "mkdir_each ds s = (None, t')" for s
  proof (cases "d' = []")
    case False
    have "map_of t' d' = map_of s d' \<or> (map_of s d' = None \<and> map_of t' d' = Some NDir)"
      using mkdir_each_changes [OF that(2)] by (simp add: only_changes_def)
    then show ?thesis using that(1) False by (auto simp: lstat_def)
  qed (simp add: lstat_def)
  show ?case
  proof (cases "lstat t d'")
    case None
    then have m: "mkdir_each ds (AList.update d' NDir t) = (None, t')" using 2(3) by simp
    then show ?thesis using 2(1) [OF None m] 2(4) keep [of "AList.update d' NDir t"]
      by (auto simp: lstat_def tree_simps)
  next
    case (Some n)
    then have m: "mkdir_each ds t = (None, t')" "n = NDir" using 2(3) by (auto split: if_splits)
    then show ?thesis using 2(2) [OF Some m(2,1)] 2(4) keep [of t] Some by auto
  qed
qed simp

text \<open>How a step leaves the way to a path alone.\<close>

lemma only_changes_linkless: "only_changes ps t t' \<Longrightarrow> ps \<inter> way p = {} \<Longrightarrow> linkless t p \<Longrightarrow> linkless t' p"
  unfolding only_changes_def linkless_def by (metis disjoint_iff is_link_simps(2))

lemma only_changes_open: "only_changes ps t t' \<Longrightarrow> ps \<inter> way p = {} \<Longrightarrow> open_way t p \<Longrightarrow> open_way t' p"
  unfolding only_changes_def open_way_def by (metis disjoint_iff)

lemma mkdir_all_spec:
  assumes "mkdir_all p t = (None, t')" "p = [] \<or> plain_path p \<and> linkless t p \<and> \<not> is_link (map_of t p)"
  shows "only_changes {} t t' \<and> lstat t' p = Some NDir \<and> (p \<noteq> [] \<longrightarrow> open_way t' p)"
proof (cases "p = []")
  case True
  then show ?thesis using assms(1) by (simp add: mkdir_all_def lstat_def)
next
  case False
  then have p: "plain_path p" "linkless t p" "\<not> is_link (map_of t p)" using assms(2) by auto
  obtain ss x where s: "list_all plain ss" "p = join ''/'' (ss @ [x])" "dir_segments (parent_of p) = ss" "file_name p = x"
    using plain_pathE [OF p(1)] by metis
  have w: "set (dir_paths [] ss) = way p" using set_dir_paths [OF p(1)] s(3) by simp
  have "\<forall>d\<in>set (dir_paths [] ss). \<not> is_link (map_of t d)" using p(2) unfolding w linkless_def .
  note m = open_dirs_make [of "[]" ss t root_max_symlinks, OF _ this]
  obtain t1 where t1: "mkdir_each (dir_paths [] ss) t = (None, t1)"
    and r: "t' = t1 \<and> lstat t1 p = Some NDir \<or> t' = AList.update p NDir t1 \<and> lstat t1 p = None \<or> is_link (lstat t1 p)"
    using assms(1) m s(1) False child_path_join [OF s(1), of x]
    by (auto simp: mkdir_all_def s(3,4) s(2) [symmetric] Let_def is_link_def split: prod.splits option.splits sum.splits node.splits)
  have st: "lstat t1 p = map_of t1 p" using False by (simp add: lstat_def)
  have c: "only_changes {} t t1" by (rule mkdir_each_changes [OF t1])
  then have "\<not> is_link (map_of t1 p)" using p(3) unfolding only_changes_def by (metis empty_iff is_link_simps(2))
  then have r': "t' = t1 \<and> map_of t1 p = Some NDir \<or> t' = AList.update p NDir t1 \<and> map_of t1 p = None" using r st by simp
  then have c': "only_changes {} t1 t'" by (auto simp: only_changes_def tree_simps split: if_splits)
  have "open_way t1 p" using mkdir_each_present [OF t1] unfolding w open_way_def by (auto simp: lstat_def way_def)
  then have "open_way t' p" using only_changes_open [OF c'] by simp
  then show ?thesis using only_changes_trans [OF c c'] r' False by (auto simp: lstat_def tree_simps)
qed

lemma root_open:
  assumes "plain_path p" "open_way t p"
  shows "root_lstat t p = (case map_of t p of None \<Rightarrow> Err NotExist | Some n \<Rightarrow> Ok n)" "root_remove p t = fs_remove p t"
    "root_symlink content p t = symlink content p t" "root_write p content mode t = write_file p content mode t"
    "root_chmod p mode t = chmod p mode t" "root_children t p = child_names t p"
  using locate_open [OF assms] plain_path_neq_Nil [OF assms(1)]
  by (simp_all add: root_lstat_def root_remove_def root_symlink_def root_write_def root_chmod_def root_children_def lstat_def)

lemma remove_path_changes:
  assumes "remove_path p t = Ok t'" "plain_path p" "linkless t p"
  shows "only_changes {p} t t' \<and> (open_way t p \<longrightarrow> map_of t' p = None)"
proof -
  have p: "p \<noteq> []" using assms(2) by (rule plain_path_neq_Nil)
  have "t' = t \<and> root_lstat t p = Err NotExist \<or> root_remove p t = Ok t'"
    using assms(1) by (auto simp: remove_path_def split: sum.splits if_splits)
  then show ?thesis
  proof
    assume h: "t' = t \<and> root_lstat t p = Err NotExist"
    have "open_way t p \<Longrightarrow> map_of t p = None" using h root_open(1) [OF assms(2)] by (auto split: option.splits)
    then show ?thesis using h by simp
  next
    assume "root_remove p t = Ok t'"
    then obtain q where q: "locate t p = Ok q" "fs_remove q t = Ok t'" by (auto simp: root_remove_def bind_res_Ok)
    then have "q = p" using locate_linkless assms(2,3) by blast
    then show ?thesis using fs_remove_changes q(2) by blast
  qed
qed

lemma clear_unless_changes:
  "clear_unless fine p t = Ok t' \<Longrightarrow> plain_path p \<Longrightarrow> linkless t p \<Longrightarrow> only_changes {p} t t'"
  using remove_path_changes [of p t t'] by (auto simp: clear_unless_def split: sum.splits if_splits)

lemma root_lstat_found:
  assumes "root_lstat t p = Ok n" "plain_path p" "linkless t p"
  shows "map_of t p = Some n"
proof -
  obtain q where q: "locate t p = Ok q" "lstat t q = Some n"
    using assms(1) by (auto simp: root_lstat_def bind_res_Ok split: option.splits)
  moreover have "q = p" using locate_linkless assms(2,3) q(1) by blast
  ultimately show ?thesis using plain_path_neq_Nil [OF assms(2)] by (simp add: lstat_def)
qed

text \<open>The conditions under which an entry is written where its path says: no link on the way to it, and, for a directory, a link at its
  own path can be reached.\<close>

definition reachable_link :: "tree \<Rightarrow> string \<Rightarrow> bool" where
  "reachable_link t p \<longleftrightarrow> (is_link (map_of t p) \<longrightarrow> open_way t p)"

lemma write_directory_spec:
  assumes "write_directory p t = (None, t')" "plain_path p" "linkless t p" "reachable_link t p"
  shows "only_changes {p} t t' \<and> map_of t' p = Some NDir"
proof -
  obtain t1 where t1: "clear_unless (\<lambda>n. n = NDir) p t = Ok t1" "mkdir_all p t1 = (None, t')"
    using assms(1) by (auto simp: write_directory_def or_fail_def split: sum.splits option.splits prod.splits)
  have c: "only_changes {p} t t1" by (rule clear_unless_changes [OF t1(1) assms(2,3)])
  have "\<not> is_link (map_of t1 p)"
  proof (cases "root_lstat t p")
    case (Inl e)
    then have "t1 = t" using t1(1) by (simp add: clear_unless_def)
    moreover have "open_way t p \<Longrightarrow> map_of t p = None" using Inl root_open(1) [OF assms(2)] by (auto split: option.splits)
    ultimately show ?thesis using assms(4) by (auto simp: reachable_link_def)
  next
    case (Inr n)
    note f = root_lstat_found [OF Inr assms(2,3)]
    show ?thesis
    proof (cases "n = NDir")
      case False
      then have "remove_path p t = Ok t1" using t1(1) Inr by (simp add: clear_unless_def)
      then have "root_remove p t = Ok t1" using Inr by (auto simp: remove_path_def split: sum.splits if_splits)
      then obtain q where q: "locate t p = Ok q" "fs_remove q t = Ok t1" by (auto simp: root_remove_def bind_res_Ok)
      then show ?thesis using fs_remove_changes [OF q(2)] locate_linkless [OF assms(2,3) q(1)] by simp
    qed (use t1(1) Inr f in \<open>simp add: clear_unless_def\<close>)
  qed
  moreover have "linkless t1 p" using only_changes_linkless [OF c] way_self assms(3) by simp
  ultimately show ?thesis
    using mkdir_all_spec [OF t1(2)] only_changes_trans [OF c, of "{}" t'] assms(2) plain_path_neq_Nil [OF assms(2)]
    by (simp add: lstat_def)
qed

lemma write_link_spec:
  assumes "write_link p content t = (None, t')" "plain_path p" "open_way t p"
  shows "only_changes {p} t t' \<and> map_of t' p = Some (NLink content)"
proof -
  obtain t1 where t1: "remove_path p t = Ok t1" "root_symlink content p t1 = Ok t'"
    using assms(1) by (auto simp: write_link_def or_fail_def split: sum.splits)
  have c: "only_changes {p} t t1" using remove_path_changes [OF t1(1) assms(2) open_way_linkless [OF assms(3)]] by simp
  have "open_way t1 p" using only_changes_open [OF c] way_self assms(3) by simp
  then have "t' = AList.update p (NLink content) t1"
    using t1(2) root_open(3) [OF assms(2)] by (auto simp: symlink_def split: if_splits)
  then show ?thesis using only_changes_trans [OF c update_changes, of p] by (simp add: tree_simps)
qed

lemma suffix_neq [simp]: "p @ restore_temporary_suffix \<noteq> p" "p \<noteq> p @ restore_temporary_suffix"
  "p @ restore_temporary_suffix \<noteq> []"
  by (simp_all add: restore_temporary_suffix_def)

lemma temporary_way: "{p, p @ restore_temporary_suffix} \<inter> way p = {}"
  using way_self way_self [of "p @ restore_temporary_suffix"] by (auto simp: way_suffix)

lemma write_regular_spec:
  assumes "write_regular p mode content t = (None, t')" "plain_path p" "open_way t p"
  shows "only_changes {p, p @ restore_temporary_suffix} t t' \<and> map_of t' p = Some (NFile mode content) \<and>
    map_of t' (p @ restore_temporary_suffix) = None"
proof -
  let ?tmp = "p @ restore_temporary_suffix"
  have pt: "plain_path ?tmp" by (rule plain_path_suffix [OF assms(2)])
  have ow: "open_way u ?tmp \<longleftrightarrow> open_way u p" for u by (simp add: open_way_def way_suffix)
  have keep: "open_way v p" if "only_changes ps u v" "ps \<subseteq> {p, ?tmp}" "open_way u p" for ps u v
    using only_changes_open [OF that(1)] that(2,3) temporary_way [of p] by blast
  obtain t1 t3 t4 where t1: "clear_unless is_regular p t = Ok t1" and
    w: "root_write ?tmp content mode (ignore_failure (root_remove ?tmp t1) t1) = Ok t3" and
    c: "root_chmod ?tmp mode t3 = Ok t4" and r: "root_rename ?tmp p t4 = Ok t'"
    using assms(1) by (auto simp: write_regular_def or_fail_def Let_def split: sum.splits)
  have c1: "only_changes {p} t t1" by (rule clear_unless_changes [OF t1 assms(2) open_way_linkless [OF assms(3)]])
  note o1 = keep [OF c1 _ assms(3)]
  let ?t2 = "ignore_failure (fs_remove ?tmp t1) t1"
  have e2: "root_remove ?tmp t1 = fs_remove ?tmp t1" using root_open(2) [OF pt] o1 ow by simp
  have c2: "only_changes {?tmp} t1 ?t2"
    using fs_remove_changes [of ?tmp t1] by (auto simp: ignore_failure_def split: sum.splits)
  have o2: "open_way ?t2 p" using keep [OF c2] o1 by simp
  have w': "write_file ?tmp content mode ?t2 = Ok t3" using w root_open(4) [OF pt, of ?t2] o2 ow by (simp add: e2)
  have t3: "only_changes {?tmp} ?t2 t3" "\<exists>m. map_of t3 ?tmp = Some (NFile m content)"
    using w' by (auto simp: write_file_def update_changes tree_simps split: option.splits node.splits if_splits)
  have o3: "open_way t3 p" using keep [OF t3(1)] o2 by simp
  have "lstat t3 ?tmp = map_of t3 ?tmp" using suffix_neq(3) [of p] unfolding lstat_def by presburger
  moreover have "chmod ?tmp mode t3 = Ok t4" using c root_open(5) [OF pt, of t3] o3 ow by simp
  ultimately have t4: "only_changes {?tmp} t3 t4" "map_of t4 ?tmp = Some (NFile mode content)"
    using t3(2) by (auto simp: chmod_def update_changes tree_simps)
  have o4: "open_way t4 p" using keep [OF t4(1)] o3 by simp
  have "rename ?tmp p t4 = Ok t'" using r locate_open [OF pt] locate_open [OF assms(2)] o4 ow by (simp add: root_rename_def)
  then have t5: "t' = AList.update p (NFile mode content) (AList.delete ?tmp t4)"
    using t4(2) by (auto simp: rename_def split: if_splits)
  have "only_changes {?tmp, p} t4 t'"
    using only_changes_trans [OF delete_changes update_changes] unfolding t5 by (metis insert_is_Un)
  then have "only_changes ({p} \<union> ({?tmp} \<union> ({?tmp} \<union> ({?tmp} \<union> {?tmp, p})))) t t'"
    using c1 c2 t3(1) t4(1) by (intro only_changes_trans)
  then have "only_changes {p, ?tmp} t t'" by (rule only_changes_mono) auto
  moreover have "restore_temporary_suffix \<noteq> []" by (simp add: restore_temporary_suffix_def)
  ultimately show ?thesis by (simp add: t5 tree_simps)
qed

text \<open>What one write of an entry of kind \<open>k\<close> at \<open>p\<close> changes, and where a link can be new.\<close>

definition written :: "string \<Rightarrow> kind \<Rightarrow> tree \<Rightarrow> tree \<Rightarrow> bool" where
  "written p k t t' \<longleftrightarrow>
     only_changes (if k = KindDirectory then {p} else {p, p @ restore_temporary_suffix}) t t' \<and>
     (k = KindDirectory \<longrightarrow> map_of t' p = Some NDir) \<and>
     (\<forall>d. is_link (map_of t' d) \<longrightarrow> is_link (map_of t d) \<or> (d = p \<and> k = KindLink))"

lemma written_changes: "written p k t t' \<Longrightarrow> only_changes {p, p @ restore_temporary_suffix} t t'"
  by (auto simp: written_def intro: only_changes_mono split: if_splits)

text \<open>What \<open>WriteEntry\<close> does when it returns without an error.\<close>

lemma write_entry_spec:
  assumes "write_entry e content t = (None, t')" "plain_path (e_path e)" "linkless t (e_path e)"
    and "e_kind e = KindDirectory \<Longrightarrow> reachable_link t (e_path e)"
  shows "written (e_path e) (e_kind e) t t' \<and> map_of t' (e_path e) = Some (node_of e content)"
proof (cases "e_kind e = KindDirectory")
  case True
  then have "only_changes {e_path e} t t' \<and> map_of t' (e_path e) = Some NDir"
    using assms write_directory_spec [of "e_path e" t t'] by (simp add: write_entry_def Let_def)
  moreover have "is_link (map_of t d)" if "only_changes {e_path e} t t'" "map_of t' (e_path e) = Some NDir" "is_link (map_of t' d)" for d
    using that by (cases "d = e_path e") (auto simp: only_changes_def)
  ultimately show ?thesis using True by (auto simp: node_of_def written_def)
next
  case False
  let ?p = "e_path e" and ?tmp = "e_path e @ restore_temporary_suffix"
  obtain t1 where m: "mkdir_all (parent_of ?p) t = (None, t1)" and
    w: "(if e_kind e = KindLink then write_link ?p content t1
         else write_regular ?p (file_mode_to_write (e_mode e)) content t1) = (None, t')"
    using assms(1) False by (auto simp: write_entry_def Let_def split: prod.splits option.splits)
  have "parent_of ?p = [] \<or> plain_path (parent_of ?p) \<and> linkless t (parent_of ?p) \<and> \<not> is_link (map_of t (parent_of ?p))"
    using way_parent [OF assms(2)] assms(3) by (auto simp: linkless_def)
  note s = mkdir_all_spec [OF m this]
  then have c: "only_changes {} t t1" and o: "open_way t1 ?p"
    using way_parent [OF assms(2)] plain_path_neq_Nil [of "[]"] by (auto simp: open_way_def lstat_def split: if_splits)
  have new: "is_link (map_of t d)" if "only_changes ps t t'" "d \<notin> ps" "is_link (map_of t' d)" for ps d
    using that by (auto simp: only_changes_def)
  show ?thesis
  proof (cases "e_kind e = KindLink")
    case True
    then have "only_changes {?p} t t' \<and> map_of t' ?p = Some (NLink content)"
      using w write_link_spec [OF _ assms(2) o] only_changes_trans [OF c, of "{?p}" t'] by auto
    then show ?thesis using True False new by (auto simp: node_of_def written_def intro: only_changes_mono)
  next
    case k: False
    then have r: "only_changes {?p, ?tmp} t t'" "map_of t' ?p = Some (NFile (file_mode_to_write (e_mode e)) content)" "map_of t' ?tmp = None"
      using w write_regular_spec [OF _ assms(2) o] only_changes_trans [OF c, of "{?p, ?tmp}" t'] by auto
    have "is_link (map_of t d)" if "is_link (map_of t' d)" for d
      using new [OF r(1) _ that] r(2,3) that by (cases "d = ?p"; cases "d = ?tmp") auto
    then show ?thesis using r k False by (simp add: node_of_def written_def)
  qed
qed

end
