(* ===== verification/Checkpoint_Scan.thy ===== *)
theory Checkpoint_Scan
  imports Checkpoint_Tree
begin

text \<open>
  \<open>internal/checkpoint/scan.go\<close>: \<open>Scan\<close>, \<open>scanState.walk\<close>, \<open>record\<close>, \<open>append\<close> and
  \<open>skip\<close>. The walk ends because every directory it enters holds fewer paths below it. Its
  entries are those of nodes the tree has, once each, outside the ignore list and with names
  that a manifest can hold.
\<close>

section \<open>The scan\<close>

definition maximum_total_bytes :: int where "maximum_total_bytes = 2 * 1024 * 1024 * 1024"
definition maximum_entry_count :: int where "maximum_entry_count = 100000"

datatype skip_reason = CannotRead | LineBreak | NotRegular
datatype scan_error = RootUnreadable | TreeTooBig | TooManyEntries

record project =
  p_tree :: tree
  p_unreadable :: "string list"

record scan_state =
  s_entries :: manifest
  s_skipped :: "(string \<times> skip_reason) list"
  s_total :: int

text \<open>What a scan depends on: the digest function, the glob language and the ignore list.\<close>

record scanner =
  sha :: "string \<Rightarrow> string"
  glob :: "string \<Rightarrow> string \<Rightarrow> bool"
  ignore_list :: "ignore option"

definition skip :: "string \<Rightarrow> skip_reason \<Rightarrow> scan_state \<Rightarrow> scan_state" where
  "skip p r st = st\<lparr>s_skipped := s_skipped st @ [(p, r)]\<rparr>"

definition append_entry :: "entry \<Rightarrow> scan_state \<Rightarrow> (scan_error, scan_state) result" where
  "append_entry e st =
     (let st' = st\<lparr>s_entries := s_entries st @ [e]\<rparr>
      in if maximum_entry_count < int (length (s_entries st')) then Err TooManyEntries else Ok st')"

text \<open>\<open>record\<close> for everything but a directory.\<close>

definition record_leaf :: "scanner \<Rightarrow> project \<Rightarrow> string \<Rightarrow> scan_state \<Rightarrow> (scan_error, scan_state) result" where
  "record_leaf sc pr p st =
     (case map_of (p_tree pr) p of
        Some (NLink target) \<Rightarrow>
          if p \<in> set (p_unreadable pr) then Ok (skip p CannotRead st)
          else append_entry \<lparr>e_kind = KindLink, e_mode = 0, e_digest = sha sc target, e_path = p\<rparr> st
      | Some (NFile mode content) \<Rightarrow>
          (let st1 = st\<lparr>s_total := s_total st + int (length content)\<rparr>
           in if maximum_total_bytes < s_total st1 then Err TreeTooBig
              else if p \<in> set (p_unreadable pr) then Ok (skip p CannotRead st1)
              else append_entry \<lparr>e_kind = KindFile, e_mode = perm mode, e_digest = sha sc content, e_path = p\<rparr> st1)
      | Some NSpecial \<Rightarrow> Ok (skip p NotRegular st)
      | _ \<Rightarrow> Ok (skip p CannotRead st))"

fun fold_res :: "('a \<Rightarrow> 's \<Rightarrow> ('e, 's) result) \<Rightarrow> 'a list \<Rightarrow> 's \<Rightarrow> ('e, 's) result" where
  "fold_res f [] s = Ok s"
| "fold_res f (x # xs) s = bind_res (f x s) (fold_res f xs)"

lemma fold_res_cong [fundef_cong]:
  "xs = ys \<Longrightarrow> s = t \<Longrightarrow> (\<And>x u. x \<in> set ys \<Longrightarrow> f x u = g x u) \<Longrightarrow> fold_res f xs s = fold_res g ys t"
proof (induction xs arbitrary: ys s t)
  case (Cons x xs)
  have "fold_res f xs = fold_res g xs" using Cons.IH [of xs] Cons.prems(1,3) by fastforce
  then show ?case using Cons.prems by (auto simp: bind_res_def split: sum.splits)
qed simp

text \<open>The paths of a tree that are below a directory.\<close>

definition below :: "string \<Rightarrow> string \<Rightarrow> bool" where
  "below d k \<longleftrightarrow> d = [] \<or> has_prefix k (d @ ''/'')"

lemma name_in_child: "name_in d k = Some name \<Longrightarrow> k = child_path d name \<and> name \<noteq> [] \<and> CHR ''/'' \<notin> set name"
proof -
  assume n: "name_in d k = Some name"
  show ?thesis
  proof (cases "d = []")
    case False
    then have h: "has_prefix k (d @ ''/'')" "name = trim_prefix k (d @ ''/'')" "name \<noteq> []" "CHR ''/'' \<notin> set name"
      using n by (auto simp: name_in_def Let_def split: if_splits)
    then obtain r where "k = (d @ ''/'') @ r" by (metis has_prefix_iff)
    then show ?thesis using h trim_prefix_append [of "d @ ''/''" r] False by (simp add: child_path_def)
  qed (use n in \<open>auto simp: name_in_def child_path_def split: if_splits\<close>)
qed

lemma child_names_in: "name \<in> set (child_names t d) \<Longrightarrow>
    child_path d name \<in> fst ` set t \<and> name \<noteq> [] \<and> CHR ''/'' \<notin> set name"
  unfolding child_names_def by (force simp: map_filter_def dest: name_in_child)

lemma below_child: "name \<noteq> [] \<Longrightarrow> CHR ''/'' \<notin> set name \<Longrightarrow> below d (child_path d name)"
  by (auto simp: below_def child_path_def has_prefix_iff)

lemma below_trans: "below p k \<Longrightarrow> below d p \<Longrightarrow> p \<noteq> [] \<Longrightarrow> below d k"
  by (auto simp: below_def has_prefix_iff)

lemma not_below_self: "p \<noteq> [] \<Longrightarrow> \<not> below p p"
  by (auto simp: below_def has_prefix_iff)

lemma below_measure:
  assumes "name \<in> set (child_names t d)"
  shows "length (filter (below (child_path d name)) (map fst t)) < length (filter (below d) (map fst t))"
proof -
  let ?p = "child_path d name"
  note n = child_names_in [OF assms]
  have p: "?p \<noteq> []" using n by (auto simp: child_path_def)
  have sub: "below ?p k \<Longrightarrow> below d k" for k using below_trans [of ?p k d] below_child [of name d] n p by blast
  have "filter (below ?p) (map fst t) = filter (below ?p) (filter (below d) (map fst t))"
    using sub by (simp add: filter_filter cong: filter_cong) (metis)
  moreover have "?p \<in> set (filter (below d) (map fst t))" using n below_child [of name d] by auto
  moreover have "\<not> below ?p ?p" by (rule not_below_self [OF p])
  ultimately show ?thesis by (metis length_filter_less)
qed

function walk :: "scanner \<Rightarrow> project \<Rightarrow> string \<Rightarrow> scan_state \<Rightarrow> (scan_error, scan_state) result" where
  "walk sc pr d st =
     (if d \<in> set (p_unreadable pr)
      then (if d = [] then Err RootUnreadable else Ok (skip d CannotRead st))
      else fold_res (\<lambda>name st.
          let p = child_path d name; isDirectory = (map_of (p_tree pr) p = Some NDir)
          in if matches (glob sc) (ignore_list sc) p isDirectory then Ok st
             else if contains_any name [newline, carriage_return] then Ok (skip p LineBreak st)
             else if isDirectory
             then bind_res (append_entry \<lparr>e_kind = KindDirectory, e_mode = 0, e_digest = [], e_path = p\<rparr> st)
                    (\<lambda>st1. walk sc pr p st1)
             else record_leaf sc pr p st)
        (child_names (p_tree pr) d) st)"
  by pat_completeness auto
termination
  by (relation "measure (\<lambda>(sc, pr, d, st). length (filter (below d) (map fst (p_tree pr))))")
    (auto simp: filter_map intro: below_measure [unfolded filter_map length_map])

declare walk.simps [simp del]

definition scan :: "scanner \<Rightarrow> project \<Rightarrow> (scan_error, manifest \<times> (string \<times> skip_reason) list) result" where
  "scan sc pr =
     bind_res (walk sc pr [] \<lparr>s_entries = [], s_skipped = [], s_total = 0\<rparr>)
       (\<lambda>st. Ok (sort_by_path (s_entries st), s_skipped st))"

section \<open>What a scan records\<close>

text \<open>The entry describes the node the tree has at its path.\<close>

definition entry_matches :: "(string \<Rightarrow> string) \<Rightarrow> tree \<Rightarrow> entry \<Rightarrow> bool" where
  "entry_matches h t e \<longleftrightarrow>
     (case map_of t (e_path e) of
        Some NDir \<Rightarrow> e = \<lparr>e_kind = KindDirectory, e_mode = 0, e_digest = [], e_path = e_path e\<rparr>
      | Some (NLink target) \<Rightarrow> e = \<lparr>e_kind = KindLink, e_mode = 0, e_digest = h target, e_path = e_path e\<rparr>
      | Some (NFile mode content) \<Rightarrow>
          e = \<lparr>e_kind = KindFile, e_mode = perm mode, e_digest = h content, e_path = e_path e\<rparr>
      | _ \<Rightarrow> False)"

definition scanned :: "scanner \<Rightarrow> project \<Rightarrow> entry \<Rightarrow> bool" where
  "scanned sc pr e \<longleftrightarrow> entry_matches (sha sc) (p_tree pr) e \<and>
     \<not> matches (glob sc) (ignore_list sc) (e_path e) (e_kind e = KindDirectory) \<and>
     (e_kind e = KindDirectory \<or> e_path e \<notin> set (p_unreadable pr))"

text \<open>Names with a line break are skipped, so a path below \<open>d\<close> has none unless \<open>d\<close> has one.\<close>

definition clean_path :: "string \<Rightarrow> bool" where
  "clean_path p \<longleftrightarrow> set p \<inter> {newline, carriage_return} = {}"

definition at_or_below :: "string \<Rightarrow> string \<Rightarrow> bool" where
  "at_or_below p k \<longleftrightarrow> k = p \<or> has_prefix k (p @ ''/'')"

definition walked :: "scanner \<Rightarrow> project \<Rightarrow> (string \<Rightarrow> bool) \<Rightarrow> manifest \<Rightarrow> bool" where
  "walked sc pr inside new \<longleftrightarrow> distinct (map e_path new) \<and>
     (\<forall>e\<in>set new. scanned sc pr e \<and> inside (e_path e) \<and> clean_path (e_path e))"

lemma append_entry_Ok: "append_entry e st = Ok st' \<longleftrightarrow>
    st' = st\<lparr>s_entries := s_entries st @ [e]\<rparr> \<and> int (length (s_entries st)) < maximum_entry_count"
  by (auto simp: append_entry_def Let_def)

lemma skip_entries [simp]: "s_entries (skip p r st) = s_entries st"
  by (simp add: skip_def)

lemma record_leaf_walked:
  assumes "record_leaf sc pr p st = Ok st'" "\<not> matches (glob sc) (ignore_list sc) p False"
    "map_of (p_tree pr) p \<noteq> Some NDir" "clean_path p"
  shows "\<exists>new. s_entries st' = s_entries st @ new \<and> walked sc pr (at_or_below p) new"
  using assms
  by (auto simp: record_leaf_def append_entry_Ok walked_def scanned_def entry_matches_def at_or_below_def Let_def
      split: option.splits node.splits if_splits)

lemma fold_res_news:
  assumes "\<And>x s s'. x \<in> set xs \<Longrightarrow> f x s = Ok s' \<Longrightarrow> \<exists>new. s_entries s' = s_entries s @ new \<and> Q x new"
    and "fold_res f xs s = Ok s'"
  shows "\<exists>news. list_all2 Q xs news \<and> s_entries s' = s_entries s @ concat news"
  using assms
proof (induction xs arbitrary: s)
  case Nil
  then show ?case by simp
next
  case (Cons x xs)
  obtain s1 where s1: "f x s = Ok s1" "fold_res f xs s1 = Ok s'"
    using Cons.prems(2) by (auto simp: bind_res_Ok)
  obtain new where n: "s_entries s1 = s_entries s @ new" "Q x new" using Cons.prems(1) s1(1) by fastforce
  obtain news where ns: "list_all2 Q xs news" "s_entries s' = s_entries s1 @ concat news"
    using Cons.IH [OF Cons.prems(1) s1(2)] by auto
  show ?case using n ns by (intro exI [of _ "new # news"]) simp
qed

lemma at_or_below_child:
  assumes "at_or_below (child_path d n) k" "at_or_below (child_path d m) k"
    and "CHR ''/'' \<notin> set n" "CHR ''/'' \<notin> set m"
  shows "n = m"
proof -
  have first: "\<exists>r. k = child_path d x \<and> r = x \<or> (\<exists>z. k = (if d = [] then [] else d @ ''/'') @ x @ ''/'' @ z)"
    if "at_or_below (child_path d x) k" for x
    using that by (auto simp: at_or_below_def child_path_def has_prefix_iff)
  define rest where "rest = (if d = [] then k else drop (length d + 1) k)"
  have hd: "hd (split_on CHR ''/'' rest) = x" if "at_or_below (child_path d x) k" "CHR ''/'' \<notin> set x" for x
    using that
    by (auto simp: at_or_below_def child_path_def has_prefix_iff rest_def split_on_no_sep split_on_append
        split: if_splits)
  show ?thesis using hd assms by metis
qed

lemma walked_concat:
  "distinct names \<Longrightarrow> \<forall>n\<in>set names. CHR ''/'' \<notin> set n \<and> n \<noteq> [] \<Longrightarrow>
   list_all2 (\<lambda>n. walked sc pr (at_or_below (child_path d n))) names news \<Longrightarrow>
   walked sc pr (below d) (concat news)"
proof (induction names arbitrary: news)
  case Nil
  then show ?case by (simp add: walked_def)
next
  case (Cons n names)
  obtain new news' where nw: "news = new # news'" "walked sc pr (at_or_below (child_path d n)) new"
    "list_all2 (\<lambda>n. walked sc pr (at_or_below (child_path d n))) names news'"
    using Cons.prems(3) by (auto simp: list_all2_Cons1)
  have ih: "walked sc pr (below d) (concat news')" using Cons.IH [OF _ _ nw(3)] Cons.prems by simp
  have first: "below d (e_path e)" if "e \<in> set new" for e
  proof -
    have "at_or_below (child_path d n) (e_path e)" using that nw(2) by (simp add: walked_def)
    then have "e_path e = child_path d n \<or> below (child_path d n) (e_path e)"
      by (auto simp: at_or_below_def below_def)
    moreover have "child_path d n \<noteq> []" using Cons.prems(2) by (simp add: child_path_def)
    ultimately show ?thesis using below_child [of n d] below_trans [of "child_path d n" "e_path e" d] Cons.prems(2) by auto
  qed
  have "e_path e \<noteq> e_path e'" if h: "e \<in> set new" "e' \<in> set (concat news')" for e e'
  proof
    assume eq: "e_path e = e_path e'"
    obtain m where m: "m \<in> set names" "at_or_below (child_path d m) (e_path e')"
    proof -
      obtain new' where e': "e' \<in> set new'" "new' \<in> set news'" using h(2) by auto
      then obtain i where i: "i < length news'" "new' = news' ! i" by (auto simp: in_set_conv_nth)
      then have "i < length names" "walked sc pr (at_or_below (child_path d (names ! i))) new'"
        using nw(3) by (auto simp: list_all2_conv_all_nth)
      then show thesis using that [of "names ! i"] e'(1) by (simp add: walked_def)
    qed
    have "at_or_below (child_path d n) (e_path e)" using h(1) nw(2) by (auto simp: walked_def)
    then have "n = m" using at_or_below_child [of d n "e_path e" m] m eq Cons.prems(2) by auto
    then show False using m(1) Cons.prems(1) by simp
  qed
  then show ?case using ih nw(2) first unfolding nw(1) walked_def by (auto simp: image_iff)
qed

lemma walk_walked:
  "walk sc pr d st = Ok st' \<Longrightarrow> clean_path d \<Longrightarrow>
   \<exists>new. s_entries st' = s_entries st @ new \<and> walked sc pr (below d) new"
proof (induction sc pr d st arbitrary: st' rule: walk.induct)
  case (1 sc pr d st)
  show ?case
  proof (cases "d \<in> set (p_unreadable pr)")
    case True
    then show ?thesis using 1(2) by (subst (asm) walk.simps) (auto simp: walked_def split: if_splits)
  next
    case False
    let ?f = "\<lambda>name st.
          let p = child_path d name; isDirectory = (map_of (p_tree pr) p = Some NDir)
          in if matches (glob sc) (ignore_list sc) p isDirectory then Ok st
             else if contains_any name [newline, carriage_return] then Ok (skip p LineBreak st)
             else if isDirectory
             then bind_res (append_entry \<lparr>e_kind = KindDirectory, e_mode = 0, e_digest = [], e_path = p\<rparr> st)
                    (\<lambda>st1. walk sc pr p st1)
             else record_leaf sc pr p st"
    let ?names = "child_names (p_tree pr) d"
    have w: "fold_res ?f ?names st = Ok st'" using 1(2) False by (subst (asm) walk.simps) simp
    have "\<exists>new. s_entries s' = s_entries s @ new \<and> walked sc pr (at_or_below (child_path d n)) new"
      if n: "n \<in> set ?names" and f: "?f n s = Ok s'" for n s s'
    proof -
      define p where "p = child_path d n"
      define isd where "isd = (map_of (p_tree pr) p = Some NDir)"
      have pc: "clean_path p" if "\<not> contains_any n [newline, carriage_return]"
        using that 1(3) by (auto simp: p_def clean_path_def child_path_def contains_any_iff)
      have pne: "p \<noteq> []" using child_names_in [OF n] by (auto simp: p_def child_path_def)
      consider (same) "s' = s \<or> s' = skip p LineBreak s"
        | (dir) s1 where "isd" "\<not> matches (glob sc) (ignore_list sc) p isd" "\<not> contains_any n [newline, carriage_return]"
          "append_entry \<lparr>e_kind = KindDirectory, e_mode = 0, e_digest = [], e_path = p\<rparr> s = Ok s1" "walk sc pr p s1 = Ok s'"
        | (leaf) "\<not> isd" "\<not> matches (glob sc) (ignore_list sc) p isd" "\<not> contains_any n [newline, carriage_return]"
          "record_leaf sc pr p s = Ok s'"
        using f unfolding Let_def p_def [symmetric] isd_def [symmetric] by (auto simp: bind_res_Ok split: if_splits)
      then show ?thesis
      proof cases
        case same
        then show ?thesis by (intro exI [of _ "[]"]) (auto simp: walked_def)
      next
        case leaf
        then show ?thesis using record_leaf_walked [OF leaf(4)] pc [OF leaf(3)] by (simp add: isd_def p_def)
      next
        case dir
        obtain new where nw: "s_entries s' = s_entries s1 @ new" "walked sc pr (below p) new"
          using 1(1) [OF False n p_def isd_def dir(2,3,1,5) pc [OF dir(3)]] by blast
        let ?e = "\<lparr>e_kind = KindDirectory, e_mode = 0, e_digest = [], e_path = p\<rparr>"
        have "scanned sc pr ?e" using dir(1,2) by (simp add: scanned_def entry_matches_def isd_def)
        moreover have "e_path e \<noteq> p" if "e \<in> set new" for e
          using nw(2) that not_below_self [OF pne] by (auto simp: walked_def)
        moreover have "at_or_below p (e_path e)" if "e \<in> set new" for e
          using nw(2) that pne by (auto simp: walked_def below_def at_or_below_def)
        ultimately have "walked sc pr (at_or_below p) (?e # new)"
          using nw(2) pc [OF dir(3)] by (auto simp: walked_def at_or_below_def)
        moreover have "s_entries s' = s_entries s @ ?e # new" using nw(1) dir(4) by (simp add: append_entry_Ok)
        ultimately show ?thesis unfolding p_def by blast
      qed
    qed
    from fold_res_news [where f = ?f and Q = "\<lambda>n. walked sc pr (at_or_below (child_path d n))", OF this w]
    obtain news where
      n: "list_all2 (\<lambda>n. walked sc pr (at_or_below (child_path d n))) ?names news" "s_entries st' = s_entries st @ concat news"
      by blast
    have "distinct ?names" "\<forall>n\<in>set ?names. CHR ''/'' \<notin> set n \<and> n \<noteq> []"
      using child_names_in by (auto simp: child_names_def)
    from walked_concat [OF this n(1)] n(2) show ?thesis by blast
  qed
qed

lemma scan_walked:
  assumes "scan sc pr = Ok (m, sk)"
  shows "distinct (map e_path m) \<and> sorted (map e_path m) \<and>
    (\<forall>e\<in>set m. scanned sc pr e \<and> clean_path (e_path e))"
proof -
  obtain st where "walk sc pr [] \<lparr>s_entries = [], s_skipped = [], s_total = 0\<rparr> = Ok st" "m = sort_by_path (s_entries st)"
    using assms by (auto simp: scan_def bind_res_Ok)
  then show ?thesis
    using walk_walked [of sc pr "[]" "\<lparr>s_entries = [], s_skipped = [], s_total = 0\<rparr>" st]
    by (simp add: clean_path_def walked_def sort_by_path_def distinct_map)
qed

text \<open>The walk records a directory before what is in it, so the parents of a scanned path are scanned directories.\<close>

definition closed_from :: "string \<Rightarrow> manifest \<Rightarrow> bool" where
  "closed_from d m \<longleftrightarrow> (\<forall>e\<in>set m. \<forall>w\<in>way (e_path e). below d w \<longrightarrow> (\<exists>e'\<in>set m. e_path e' = w \<and> e_kind e' = KindDirectory))"

lemma below_self_way: "w \<in> way p \<longleftrightarrow> w \<noteq> [] \<and> below w p"
  by (auto simp: way_def below_def)

lemma way_between:
  assumes "w \<in> way k" "below d w" "at_or_below (child_path d n) k" "CHR ''/'' \<notin> set n" "n \<noteq> []"
  shows "k \<noteq> child_path d n \<and> (w = child_path d n \<or> below (child_path d n) w)"
proof -
  define pre where "pre = (if d = [] then [] else d @ ''/'')"
  have "\<exists>w'. w = pre @ w'" using assms(2) by (auto simp: below_def has_prefix_iff pre_def)
  then obtain w' where w: "w = pre @ w'" by blast
  have p: "child_path d n = pre @ n" by (simp add: child_path_def pre_def)
  obtain r where k: "k = pre @ w' @ CHR ''/'' # r" using assms(1) w by (auto simp: way_def has_prefix_iff)
  have kn: "w' @ CHR ''/'' # r \<noteq> n" using assms(4) by auto
  then obtain s where "w' @ CHR ''/'' # r = n @ CHR ''/'' # s"
    using assms(3) k p by (auto simp: at_or_below_def has_prefix_iff)
  then have "w' = n \<or> (\<exists>u. w' = n @ CHR ''/'' # u)"
    using assms(4) by (auto simp: append_eq_append_conv2 Cons_eq_append_conv append_eq_Cons_conv)
  then show ?thesis using kn k p w assms(5) by (auto simp: below_def has_prefix_iff)
qed

lemma record_leaf_news:
  assumes "record_leaf sc pr p st = Ok st'"
  shows "\<exists>new. s_entries st' = s_entries st @ new \<and> (\<forall>e\<in>set new. e_path e = p)"
  using assms by (auto simp: record_leaf_def append_entry_Ok Let_def split: option.splits node.splits if_splits)

lemma walk_closed:
  "walk sc pr d st = Ok st' \<Longrightarrow> \<exists>new. s_entries st' = s_entries st @ new \<and> closed_from d new \<and> (\<forall>e\<in>set new. below d (e_path e))"
proof (induction sc pr d st arbitrary: st' rule: walk.induct)
  case (1 sc pr d st)
  show ?case
  proof (cases "d \<in> set (p_unreadable pr)")
    case True
    then show ?thesis using 1(2) by (subst (asm) walk.simps) (auto simp: closed_from_def split: if_splits)
  next
    case False
    let ?f = "\<lambda>name st.
          let p = child_path d name; isDirectory = (map_of (p_tree pr) p = Some NDir)
          in if matches (glob sc) (ignore_list sc) p isDirectory then Ok st
             else if contains_any name [newline, carriage_return] then Ok (skip p LineBreak st)
             else if isDirectory
             then bind_res (append_entry \<lparr>e_kind = KindDirectory, e_mode = 0, e_digest = [], e_path = p\<rparr> st)
                    (\<lambda>st1. walk sc pr p st1)
             else record_leaf sc pr p st"
    let ?names = "child_names (p_tree pr) d"
    let ?Q = "\<lambda>new. closed_from d new \<and> (\<forall>e\<in>set new. below d (e_path e))"
    have w: "fold_res ?f ?names st = Ok st'" using 1(2) False by (subst (asm) walk.simps) simp
    have each: "\<exists>new. s_entries s' = s_entries s @ new \<and> ?Q new"
      if n: "n \<in> set ?names" and f: "?f n s = Ok s'" for n s s'
    proof -
      define p where "p = child_path d n"
      define isd where "isd = (map_of (p_tree pr) p = Some NDir)"
      note cn = child_names_in [OF n]
      have pne: "p \<noteq> []" using cn by (auto simp: p_def child_path_def)
      have bp: "below d p" using below_child cn by (simp add: p_def)
      consider (same) "s_entries s' = s_entries s"
        | (dir) s1 where "isd" "\<not> matches (glob sc) (ignore_list sc) p isd" "\<not> contains_any n [newline, carriage_return]"
          "append_entry \<lparr>e_kind = KindDirectory, e_mode = 0, e_digest = [], e_path = p\<rparr> s = Ok s1" "walk sc pr p s1 = Ok s'"
        | (leaf) "record_leaf sc pr p s = Ok s'"
        using f unfolding Let_def p_def [symmetric] isd_def [symmetric] by (auto simp: bind_res_Ok split: if_splits)
      then show ?thesis
      proof cases
        case same
        then show ?thesis by (intro exI [of _ "[]"]) (auto simp: closed_from_def)
      next
        case leaf
        obtain new where nw: "s_entries s' = s_entries s @ new" "\<forall>e\<in>set new. e_path e = p" using record_leaf_news [OF leaf] by blast
        have "\<not> below d w" if "w \<in> way p" for w
          using way_between [of w p d n] that cn by (auto simp: p_def at_or_below_def)
        then show ?thesis using nw bp by (auto simp: closed_from_def)
      next
        case dir
        obtain new where nw: "s_entries s' = s_entries s1 @ new" "closed_from p new" "\<forall>e\<in>set new. below p (e_path e)"
          using 1(1) [OF False n p_def isd_def dir(2,3,1,5)] by blast
        let ?e = "\<lparr>e_kind = KindDirectory, e_mode = 0, e_digest = [], e_path = p\<rparr>"
        have ab: "at_or_below p (e_path e)" if "e \<in> set (?e # new)" for e
          using that nw(3) pne by (auto simp: at_or_below_def below_def)
        have "\<exists>e'\<in>set (?e # new). e_path e' = w \<and> e_kind e' = KindDirectory"
          if e: "e \<in> set (?e # new)" "w \<in> way (e_path e)" "below d w" for e w
        proof -
          have b: "e_path e \<noteq> p \<and> (w = p \<or> below p w)"
            using way_between [OF e(2,3), of n] ab [OF e(1)] cn by (simp add: p_def)
          then have "e \<in> set new" using e(1) by auto
          then show ?thesis using b nw(2) e(2) unfolding closed_from_def by (cases "w = p") auto
        qed
        then have "closed_from d (?e # new)" by (auto simp: closed_from_def)
        moreover have "below d (e_path e)" if "e \<in> set (?e # new)" for e
          using that nw(3) bp below_trans pne by auto
        moreover have "s_entries s' = s_entries s @ ?e # new" using nw(1) dir(4) by (simp add: append_entry_Ok)
        ultimately show ?thesis by blast
      qed
    qed
    have "\<exists>news. list_all2 (\<lambda>n. ?Q) ?names news \<and> s_entries st' = s_entries st @ concat news"
    proof (rule fold_res_news [OF _ w])
      fix n s s' assume "n \<in> set ?names" "?f n s = Ok s'"
      then show "\<exists>new. s_entries s' = s_entries s @ new \<and> ?Q new" by (rule each)
    qed
    then obtain news where n: "list_all2 (\<lambda>n. ?Q) ?names news" "s_entries st' = s_entries st @ concat news" by blast
    have "?Q new" if "new \<in> set news" for new
      using n(1) that unfolding list_all2_conv_all_nth in_set_conv_nth by metis
    then have "?Q (concat news)" by (fastforce simp: closed_from_def)
    then show ?thesis using n(2) by blast
  qed
qed

lemma scan_closed:
  assumes "scan sc pr = Ok (m, sk)" "e \<in> set m" "w \<in> way (e_path e)"
  shows "\<exists>e'\<in>set m. e_path e' = w \<and> e_kind e' = KindDirectory"
proof -
  obtain st where "walk sc pr [] \<lparr>s_entries = [], s_skipped = [], s_total = 0\<rparr> = Ok st" "m = sort_by_path (s_entries st)"
    using assms(1) by (auto simp: scan_def bind_res_Ok)
  then show ?thesis
    using walk_closed [of sc pr "[]" "\<lparr>s_entries = [], s_skipped = [], s_total = 0\<rparr>" st] assms(2,3)
    by (auto simp: closed_from_def below_def sort_by_path_def)
qed

lemma scan_open_way:
  assumes "scan sc pr = Ok (m, sk)" "e \<in> set m"
  shows "open_way (p_tree pr) (e_path e)"
  unfolding open_way_def
proof
  fix w assume "w \<in> way (e_path e)"
  from scan_closed [OF assms this] obtain e' where e': "e' \<in> set m" "e_path e' = w" "e_kind e' = KindDirectory" by blast
  have "entry_matches (sha sc) (p_tree pr) e'" using scan_walked [OF assms(1)] e'(1) by (simp add: scanned_def)
  then show "map_of (p_tree pr) w = Some NDir" using e'(2,3) by (auto simp: entry_matches_def split: option.splits node.splits)
qed

end
