(* ===== verification/Checkpoint_Store.thy ===== *)
theory Checkpoint_Store
  imports Checkpoint_Scan
begin

text \<open>
  \<open>internal/checkpoint/store.go\<close>, and \<open>Step\<close>, \<open>DiffTarget\<close> and \<open>Diff\<close> of
  \<open>restore.go\<close> and \<open>report.go\<close>: the object store, the snapshots, the current checkpoint.

  The store directory is a record: the objects by shard and name, the leftovers of interrupted
  writes, the files of \<open>snapshots\<close> and the content of \<open>HEAD\<close>. Every operation runs under the
  lock of \<open>Lock\<close>, so the operations are functions on the store. Writes to the store itself do
  not fail in the model; a snapshot file that is missing or broken is one of its states. The
  JSON text of the metadata is kept as its document (\<open>MetaFile\<close>), with \<open>None\<close> for text that
  is not JSON.
\<close>

section \<open>State\<close>

datatype snapshot_file = ManifestFile string | MetaFile "metadata_document option"

record store =
  st_project :: project
  st_objects :: "((string \<times> string) \<times> string) list"
  st_partials :: "string list"
  st_snapshots :: "(string \<times> snapshot_file) list"
  st_head :: "string option"

datatype store_error =
  NoCheckpoints
| NoCheckpoint string
| CannotReadCheckpoint string
| BadCheckpoint string nat
| BadDetails string
| ScanFailed scan_error
| ObjectMissing string
| EarliestCheckpoint string
| LatestCheckpoint string
| NoBase
| BaseIsTheirs string
| OwnBase string
| OutsideProject string
| Panicked
| TreeChanged string
| RemoveFailed string fs_error
| WriteFailed write_error

definition manifest_suffix :: string where "manifest_suffix = ''.manifest''"
definition metadata_suffix :: string where "metadata_suffix = ''.meta''"

section \<open>Names\<close>

text \<open>\<open>fmt.Sprintf("%04d", number)\<close>: the sign counts toward the width.\<close>

definition format_checkpoint_id :: "int \<Rightarrow> string" where
  "format_checkpoint_id number =
     (if number < 0 then CHR ''-'' # (let s = nat_text (nat (- number)) in replicate (3 - length s) CHR ''0'' @ s)
      else (let s = nat_text (nat number) in replicate (4 - length s) CHR ''0'' @ s))"

text \<open>The place of an object: \<open>BlobPath\<close> without the store directory.\<close>

definition blob_key :: "string \<Rightarrow> string \<times> string" where
  "blob_key digest = (if length digest < 3 then ([], digest) else (take 2 digest, drop 2 digest))"

definition blob :: "store \<Rightarrow> string \<Rightarrow> (store_error, string) result" where
  "blob st digest = (case map_of (st_objects st) (blob_key digest) of
     None \<Rightarrow> Err (ObjectMissing digest) | Some content \<Rightarrow> Ok content)"

definition checkpoint_numbers :: "store \<Rightarrow> int list" where
  "checkpoint_numbers st =
     sort (List.map_filter (\<lambda>(name, _). if has_suffix name manifest_suffix
        then atoi (trim_suffix name manifest_suffix) else None) (st_snapshots st))"

definition identifiers :: "store \<Rightarrow> string list" where
  "identifiers st = map format_checkpoint_id (checkpoint_numbers st)"

definition head :: "store \<Rightarrow> string option" where
  "head st =
     (case st_head st of None \<Rightarrow> None
      | Some data \<Rightarrow> (let identifier = trim_space data in if identifier = [] then None else Some identifier))"

definition set_head :: "string \<Rightarrow> store \<Rightarrow> store" where
  "set_head identifier st = st\<lparr>st_head := Some (identifier @ [newline])\<rparr>"

definition clear_head :: "store \<Rightarrow> store" where
  "clear_head st = st\<lparr>st_head := None\<rparr>"

fun first_in :: "string list \<Rightarrow> string list \<Rightarrow> string option" where
  "first_in ids [] = None"
| "first_in ids (c # cs) = (if c \<in> set ids then Some c else first_in ids cs)"

definition resolve :: "store \<Rightarrow> string \<Rightarrow> (store_error, string) result" where
  "resolve st wanted =
     (let ids = identifiers st
      in if ids = [] then Err NoCheckpoints
         else let trimmed = trim_space wanted;
                  candidates = trimmed #
                    (case atoi trimmed of Some number \<Rightarrow> [format_checkpoint_id number] | None \<Rightarrow> [])
              in (case first_in ids candidates of
                    Some c \<Rightarrow> Ok c | None \<Rightarrow> Err (NoCheckpoint wanted)))"

section \<open>Reading snapshots\<close>

definition stored_manifest :: "store \<Rightarrow> string \<Rightarrow> (store_error, manifest) result" where
  "stored_manifest st identifier =
     (case map_of (st_snapshots st) (identifier @ manifest_suffix) of
        Some (ManifestFile data) \<Rightarrow>
          (case parse_manifest data of Err line \<Rightarrow> Err (BadCheckpoint identifier line) | Ok m \<Rightarrow> Ok m)
      | _ \<Rightarrow> Err (CannotReadCheckpoint identifier))"

definition stored_metadata ::
  "(time_layout \<Rightarrow> string \<Rightarrow> 't option) \<Rightarrow> store \<Rightarrow> string \<Rightarrow> (store_error, 't metadata) result" where
  "stored_metadata parse_time st identifier =
     (case map_of (st_snapshots st) (identifier @ metadata_suffix) of
        Some (MetaFile (Some d)) \<Rightarrow> Ok (metadata_of parse_time d)
      | Some _ \<Rightarrow> Err (BadDetails identifier)
      | None \<Rightarrow> Err (CannotReadCheckpoint identifier))"

definition no_metadata :: "'t metadata" where
  "no_metadata = \<lparr>m_time = None, m_label = [], m_entries = 0\<rparr>"

record 't checkpoint =
  c_id :: string
  c_metadata :: "'t metadata"
  c_skipped :: "(string \<times> skip_reason) list"

text \<open>\<open>List\<close> drops the error of \<open>Metadata\<close>, which leaves the zero value.\<close>

definition list_checkpoints :: "(time_layout \<Rightarrow> string \<Rightarrow> 't option) \<Rightarrow> store \<Rightarrow> 't checkpoint list" where
  "list_checkpoints parse_time st =
     map (\<lambda>identifier. \<lparr>c_id = identifier,
            c_metadata = (case stored_metadata parse_time st identifier of Ok m \<Rightarrow> m | Err _ \<Rightarrow> no_metadata),
            c_skipped = []\<rparr>) (identifiers st)"

section \<open>Taking a checkpoint\<close>

text \<open>\<open>writeObject\<close>: an object that is there already is not written again.\<close>

definition write_object :: "scanner \<Rightarrow> string \<Rightarrow> store \<Rightarrow> string \<times> store" where
  "write_object sc content st =
     (let digest = sha sc content; key = blob_key digest
      in (digest, if map_of (st_objects st) key \<noteq> None then st
                  else st\<lparr>st_objects := AList.update key content (st_objects st)\<rparr>))"

definition entry_source :: "tree \<Rightarrow> entry \<Rightarrow> string option" where
  "entry_source t e =
     (case map_of t (e_path e) of
        Some (NLink target) \<Rightarrow> if e_kind e = KindLink then Some target else None
      | Some (NFile mode content) \<Rightarrow> if e_kind e = KindLink then None else Some content
      | _ \<Rightarrow> None)"

definition store_entry_content :: "scanner \<Rightarrow> entry \<Rightarrow> store \<Rightarrow> (store_error, entry \<times> store) result" where
  "store_entry_content sc e st =
     (if e_kind e = KindDirectory then Ok (e, st)
      else case entry_source (p_tree (st_project st)) e of
        None \<Rightarrow> Err (ObjectMissing (e_path e))
      | Some content \<Rightarrow>
          (case write_object sc content st of (digest, st') \<Rightarrow> Ok (e\<lparr>e_digest := digest\<rparr>, st')))"

fun store_entries :: "scanner \<Rightarrow> manifest \<Rightarrow> store \<Rightarrow> (store_error, manifest \<times> store) result" where
  "store_entries sc [] st = Ok ([], st)"
| "store_entries sc (e # es) st =
     bind_res (store_entry_content sc e st) (\<lambda>(e', st1).
     bind_res (store_entries sc es st1) (\<lambda>(es', st2). Ok (e' # es', st2)))"

definition next_identifier :: "store \<Rightarrow> string" where
  "next_identifier st =
     (let ids = identifiers st;
          highest = (if ids = [] then 0 else (case atoi (last ids) of Some n \<Rightarrow> n | None \<Rightarrow> 0))
      in format_checkpoint_id (highest + 1))"

definition write_snapshot :: "string \<Rightarrow> manifest \<Rightarrow> metadata_document \<Rightarrow> store \<Rightarrow> store" where
  "write_snapshot identifier entries doc st =
     st\<lparr>st_snapshots := AList.update (identifier @ metadata_suffix) (MetaFile (Some doc))
         (AList.update (identifier @ manifest_suffix) (ManifestFile (format_manifest entries)) (st_snapshots st))\<rparr>"

definition take_checkpoint ::
  "scanner \<Rightarrow> ('t \<Rightarrow> string) \<Rightarrow> 't \<Rightarrow> string \<Rightarrow> store \<Rightarrow> (store_error, 't checkpoint \<times> store) result" where
  "take_checkpoint sc fmt now label st =
     (case scan sc (st_project st) of
        Err e \<Rightarrow> Err (ScanFailed e)
      | Ok (entries, skipped) \<Rightarrow>
          bind_res (store_entries sc entries st) (\<lambda>(entries', st1).
            let identifier = next_identifier st1;
                metadata = \<lparr>m_time = Some now, m_label = label, m_entries = int (length entries')\<rparr>;
                st2 = write_snapshot identifier entries' (document fmt metadata) st1
            in Ok (\<lparr>c_id = identifier, c_metadata = metadata, c_skipped = skipped\<rparr>, set_head identifier st2)))"

section \<open>Removing and pruning\<close>

definition remove_checkpoint :: "string \<Rightarrow> store \<Rightarrow> (store_error, store) result" where
  "remove_checkpoint wanted st =
     bind_res (resolve st wanted) (\<lambda>identifier.
       let st1 = st\<lparr>st_snapshots := AList.delete (identifier @ metadata_suffix)
                   (AList.delete (identifier @ manifest_suffix) (st_snapshots st))\<rparr>
       in Ok (if head st1 = Some identifier then clear_head st1 else st1))"

fun referenced :: "store \<Rightarrow> string list \<Rightarrow> (store_error, string list) result" where
  "referenced st [] = Ok []"
| "referenced st (identifier # ids) =
     bind_res (stored_manifest st identifier) (\<lambda>m.
     bind_res (referenced st ids) (\<lambda>ds. Ok (filter (\<lambda>d. d \<noteq> []) (map e_digest m) @ ds)))"

text \<open>A file of the object directory that is not a shard goes without a count.\<close>

definition prune :: "store \<Rightarrow> (store_error, nat \<times> nat \<times> store) result" where
  "prune st =
     bind_res (referenced st (identifiers st)) (\<lambda>ds.
       let drops = filter (\<lambda>((shard, name), content). shard \<noteq> [] \<and> shard @ name \<notin> set ds) (st_objects st);
           kept = filter (\<lambda>((shard, name), content). shard \<noteq> [] \<and> shard @ name \<in> set ds) (st_objects st)
       in Ok (length drops, sum_list (map (\<lambda>(_, content). length content) drops),
              st\<lparr>st_objects := kept, st_partials := []\<rparr>))"

section \<open>Moving between checkpoints\<close>

fun index_in :: "string \<Rightarrow> string list \<Rightarrow> nat option" where
  "index_in x [] = None"
| "index_in x (y # ys) = (if x = y then Some 0 else map_option Suc (index_in x ys))"

definition step :: "store \<Rightarrow> int \<Rightarrow> (store_error, string) result" where
  "step st direction =
     (let ids = identifiers st
      in if ids = [] then Err NoCheckpoints
         else let position = (case head st of None \<Rightarrow> length ids - 1
                    | Some h \<Rightarrow> (case index_in h ids of None \<Rightarrow> length ids - 1 | Some i \<Rightarrow> i));
                  target = int position + direction
              in if target < 0 then Err (EarliestCheckpoint (ids ! position))
                 else if int (length ids) \<le> target then Err (LatestCheckpoint (ids ! position))
                 else Ok (ids ! nat target))"

definition diff_target :: "store \<Rightarrow> string \<Rightarrow> (store_error, string) result" where
  "diff_target st wanted =
     (if wanted = [] then
        (case head st of
           Some h \<Rightarrow> resolve st h
         | None \<Rightarrow> (let ids = identifiers st in if ids = [] then Err NoCheckpoints else resolve st (last ids)))
      else resolve st wanted)"

definition diff_checkpoint ::
  "scanner \<Rightarrow> store \<Rightarrow> string \<Rightarrow> (store_error, changes \<times> manifest \<times> manifest \<times> (string \<times> skip_reason) list) result" where
  "diff_checkpoint sc st wanted =
     bind_res (diff_target st wanted) (\<lambda>identifier.
     bind_res (stored_manifest st identifier) (\<lambda>previous.
       case scan sc (st_project st) of
         Err e \<Rightarrow> Err (ScanFailed e)
       | Ok (current, skipped) \<Rightarrow> Ok (compare previous current, previous, current, skipped)))"

end
