(* ===== verification/Checkpoint_Restore.thy ===== *)
theory Checkpoint_Restore
  imports Checkpoint_Store
begin

text \<open>
  \<open>internal/checkpoint/restore.go\<close>: \<open>restorable\<close>, \<open>restore\<close>, \<open>Restore\<close> and
  \<open>RestoreWithoutAutomatic\<close>.

  A restore that fails half-way keeps what it did; the result is the error, if any, the counts and
  the store. The theorems say what a restore that returns without an error has made of the tree,
  what a checkpoint holds after \<open>Take\<close>, that \<open>Prune\<close> keeps what any checkpoint needs, and that
  together they give back the files that were there when the checkpoint was taken.
\<close>

section \<open>Operations\<close>

record restore_result =
  r_automatic :: string
  r_written :: nat
  r_removed :: nat

definition no_restore :: restore_result where
  "no_restore = \<lparr>r_automatic = [], r_written = 0, r_removed = 0\<rparr>"

fun blobs_present :: "store \<Rightarrow> manifest \<Rightarrow> (store_error, unit) result" where
  "blobs_present st [] = Ok ()"
| "blobs_present st (e # es) =
     (if e_kind e \<noteq> KindDirectory \<and> map_of (st_objects st) (blob_key (e_digest e)) = None
      then Err (ObjectMissing (e_path e)) else blobs_present st es)"

definition restorable :: "store \<Rightarrow> string \<Rightarrow> (store_error, string \<times> manifest) result" where
  "restorable st wanted =
     bind_res (resolve st wanted) (\<lambda>identifier.
     bind_res (stored_manifest st identifier) (\<lambda>recorded.
     bind_res (blobs_present st recorded) (\<lambda>_. Ok (identifier, recorded))))"

text \<open>The loop over the obsolete paths, last first; a directory that is not empty stays.\<close>

fun remove_obsolete :: "string list \<Rightarrow> nat \<Rightarrow> tree \<Rightarrow> store_error option \<times> nat \<times> tree" where
  "remove_obsolete [] n t = (None, n, t)"
| "remove_obsolete (p # ps) n t =
     (case remove_path p t of
        Ok t' \<Rightarrow> remove_obsolete ps (n + 1) t'
      | Err NotEmpty \<Rightarrow> remove_obsolete ps n t
      | Err e \<Rightarrow> (Some (RemoveFailed p e), n, t))"

definition entry_content :: "store \<Rightarrow> entry \<Rightarrow> (store_error, string) result" where
  "entry_content st e =
     (if e_kind e = KindDirectory then Ok []
      else case blob st (e_digest e) of Ok content \<Rightarrow> Ok content | Err _ \<Rightarrow> Err (ObjectMissing (e_path e)))"

text \<open>Directories first, then by path: the order of the comparison function.\<close>

definition restore_order :: "manifest \<Rightarrow> manifest" where
  "restore_order m = sort_by_path (filter (\<lambda>e. e_kind e = KindDirectory) m) @
     sort_by_path (filter (\<lambda>e. e_kind e \<noteq> KindDirectory) m)"

fun write_entries :: "store \<Rightarrow> manifest \<Rightarrow> nat \<Rightarrow> tree \<Rightarrow> store_error option \<times> nat \<times> tree" where
  "write_entries st [] n t = (None, n, t)"
| "write_entries st (e # es) n t =
     (case entry_content st e of
        Err x \<Rightarrow> (Some x, n, t)
      | Ok content \<Rightarrow>
        (case write_entry e content t of
           (Some x, t') \<Rightarrow> (Some (WriteFailed x), n, t')
         | (None, t') \<Rightarrow> write_entries st es (n + 1) t'))"

definition set_tree :: "tree \<Rightarrow> store \<Rightarrow> store" where
  "set_tree t st = st\<lparr>st_project := (st_project st)\<lparr>p_tree := t\<rparr>\<rparr>"

definition obsolete_paths :: "manifest \<Rightarrow> manifest \<Rightarrow> string list" where
  "obsolete_paths recorded present =
     rev (sort (map e_path (filter (\<lambda>e. index recorded (e_path e) = None) present)))"

definition restore :: "scanner \<Rightarrow> string \<Rightarrow> manifest \<Rightarrow> store \<Rightarrow> store_error option \<times> restore_result \<times> store" where
  "restore sc identifier recorded st =
     (case scan sc (st_project st) of
        Err e \<Rightarrow> (Some (ScanFailed e), no_restore, st)
      | Ok (present, _) \<Rightarrow>
        (case remove_obsolete (obsolete_paths recorded present) 0 (p_tree (st_project st)) of
           (Some e, n, t) \<Rightarrow> (Some e, no_restore\<lparr>r_removed := n\<rparr>, set_tree t st)
         | (None, n, t) \<Rightarrow>
           (case write_entries st (restore_order recorded) 0 t of
              (Some e, w, t') \<Rightarrow> (Some e, no_restore\<lparr>r_removed := n, r_written := w\<rparr>, set_tree t' st)
            | (None, w, t') \<Rightarrow>
                (None, no_restore\<lparr>r_removed := n, r_written := w\<rparr>, set_head identifier (set_tree t' st)))))"

definition restore_checkpoint ::
  "scanner \<Rightarrow> ('t \<Rightarrow> string) \<Rightarrow> 't \<Rightarrow> string \<Rightarrow> store \<Rightarrow> store_error option \<times> restore_result \<times> store" where
  "restore_checkpoint sc fmt now wanted st =
     (case restorable st wanted of
        Err e \<Rightarrow> (Some e, no_restore, st)
      | Ok (identifier, recorded) \<Rightarrow>
        (case take_checkpoint sc fmt now (''automatic, before restoring '' @ identifier) st of
           Err e \<Rightarrow> (Some e, no_restore, st)
         | Ok (automatic, st1) \<Rightarrow>
           (case restore sc identifier recorded st1 of
              (err, result, st2) \<Rightarrow> (err, result\<lparr>r_automatic := c_id automatic\<rparr>, st2))))"

text \<open>\<open>back\<close> and \<open>forward\<close>: only from an unchanged tree.\<close>

definition restore_without_automatic ::
  "scanner \<Rightarrow> string \<Rightarrow> store \<Rightarrow> store_error option \<times> restore_result \<times> store" where
  "restore_without_automatic sc wanted st =
     (case restorable st wanted of
        Err e \<Rightarrow> (Some e, no_restore, st)
      | Ok (identifier, recorded) \<Rightarrow>
        (case diff_target st [] of
           Err e \<Rightarrow> (Some e, no_restore, st)
         | Ok h \<Rightarrow>
           (case diff_checkpoint sc st h of
              Err e \<Rightarrow> (Some e, no_restore, st)
            | Ok (changes, _, _, _) \<Rightarrow>
                if \<not> changes_empty changes then (Some (TreeChanged h), no_restore, st)
                else restore sc identifier recorded st)))"

section \<open>What a restore makes of the tree\<close>

lemma remove_path_open:
  assumes "plain_path p" "open_way t p"
  shows "remove_path p t =
    (case map_of t p of
       None \<Rightarrow> Ok t
     | Some n \<Rightarrow> (case fs_remove p t of Ok t' \<Rightarrow> Ok t' | Err e \<Rightarrow> if n = NDir \<and> child_names t p \<noteq> [] then Err NotEmpty else Err e))"
  unfolding remove_path_def root_open(1,2,6) [OF assms] by (simp split: option.split)

lemma remove_path_tree:
  assumes "remove_path p t = Ok t1" "plain_path p" "open_way t p"
  shows "q \<noteq> p \<Longrightarrow> map_of t1 q = map_of t q" "map_of t1 p = None"
    "map_of t q = None \<Longrightarrow> map_of t1 q = None"
  using assms(1) unfolding remove_path_open [OF assms(2,3)]
  by (auto simp: fs_remove_def tree_simps split: option.splits sum.splits if_splits)

lemma remove_path_NotEmpty: "remove_path p t = Err NotEmpty \<Longrightarrow> plain_path p \<Longrightarrow> open_way t p \<Longrightarrow> map_of t p = Some NDir"
  by (auto simp: remove_path_open fs_remove_def split: option.splits sum.splits if_splits)

text \<open>Every obsolete path is gone or a directory that could not go; nothing else changed.\<close>

definition cleared :: "string set \<Rightarrow> tree \<Rightarrow> tree \<Rightarrow> bool" where
  "cleared ps t t' \<longleftrightarrow> (\<forall>q. q \<notin> ps \<longrightarrow> map_of t' q = map_of t q) \<and>
   (\<forall>q\<in>ps. q \<noteq> [] \<longrightarrow> map_of t' q = None \<or> (map_of t q = Some NDir \<and> map_of t' q = Some NDir))"

lemma remove_obsolete_cleared:
  "remove_obsolete ps n t = (None, n', t') \<Longrightarrow> sorted (rev ps) \<Longrightarrow> \<forall>p\<in>set ps. plain_path p \<and> open_way t p \<Longrightarrow>
   cleared (set ps) t t'"
proof (induction ps arbitrary: n t)
  case Nil
  then show ?case by (simp add: cleared_def)
next
  case (Cons p ps)
  have s: "sorted (rev ps)" "\<forall>q\<in>set ps. q \<le> p" using Cons.prems(2) by (auto simp: sorted_append)
  have p: "plain_path p" "open_way t p" "p \<noteq> []" using Cons.prems(3) plain_path_neq_Nil by auto
  show ?case
  proof (cases "remove_path p t")
    case (Inr t1)
    have "open_way t1 q" if "q \<in> set ps" for q
      using Cons.prems(3) that remove_path_tree(1) [OF Inr p(1,2)] way_less [of p q] s(2) by (fastforce simp: open_way_def)
    then have ih: "cleared (set ps) t1 t'" using Cons.IH [OF _ s(1)] Cons.prems(1,3) Inr by simp
    have "map_of t' p = None"
      using ih remove_path_tree(2) [OF Inr p(1,2)] p(3) by (cases "p \<in> set ps") (auto simp: cleared_def)
    then show ?thesis using ih remove_path_tree(1) [OF Inr p(1,2)] unfolding cleared_def
      by (metis (no_types, lifting) insert_iff list.set(2))
  next
    case (Inl x)
    then have x: "x = NotEmpty" and r: "remove_obsolete ps n t = (None, n', t')"
      using Cons.prems by (auto split: fs_error.splits)
    have d: "map_of t p = Some NDir" using remove_path_NotEmpty Inl x p(1,2) by simp
    have ih: "cleared (set ps) t t'" by (rule Cons.IH [OF r s(1)]) (use Cons.prems(3) in simp)
    then have "map_of t' p = None \<or> map_of t' p = Some NDir"
      using d p(3) by (cases "p \<in> set ps") (auto simp: cleared_def)
    then show ?thesis using ih d unfolding cleared_def by auto
  qed
qed

section \<open>Writing a list of entries\<close>

text \<open>The paths to write with their kinds, directories first and outermost first. No link is on the way to one of them, unless a directory
  of the list takes its place, and what the list writes on the way to one of its paths is a directory.\<close>

definition ways_ready :: "tree \<Rightarrow> (string \<times> kind) list \<Rightarrow> bool" where
  "ways_ready t js \<longleftrightarrow>
     sorted_wrt (\<lambda>i j. snd j = KindDirectory \<longrightarrow> snd i = KindDirectory \<and> fst i \<le> fst j) js \<and>
     (\<forall>(p, k)\<in>set js. (\<forall>d\<in>way p. is_link (map_of t d) \<longrightarrow> (d, KindDirectory) \<in> set js) \<and>
        (\<forall>d\<in>way p. \<forall>k'. (d, k') \<in> set js \<longrightarrow> k' = KindDirectory) \<and>
        (k = KindDirectory \<longrightarrow> reachable_link t p))"

lemma ways_ready_head: "ways_ready t ((p, k) # js) \<Longrightarrow> linkless t p \<and> (k = KindDirectory \<longrightarrow> reachable_link t p)"
proof -
  assume w: "ways_ready t ((p, k) # js)"
  have "\<not> is_link (map_of t d)" if d: "d \<in> way p" for d
  proof
    assume "is_link (map_of t d)"
    then have "(d, KindDirectory) \<in> set js" using w d way_self [of p] by (auto simp: ways_ready_def)
    then have "p \<le> d" using w by (auto simp: ways_ready_def)
    then show False using way_less [OF d] by simp
  qed
  then show ?thesis using w by (auto simp: linkless_def ways_ready_def)
qed

lemma ways_ready_step:
  assumes "ways_ready t ((p, k) # js)" "written p k t t1" "p \<notin> fst ` set js"
  shows "ways_ready t1 js"
proof -
  let ?all = "set ((p, k) # js)"
  have each: "(\<forall>d\<in>way q. is_link (map_of t d) \<longrightarrow> (d, KindDirectory) \<in> ?all) \<and>
      (\<forall>d\<in>way q. \<forall>k''. (d, k'') \<in> ?all \<longrightarrow> k'' = KindDirectory) \<and> (k' = KindDirectory \<longrightarrow> reachable_link t q)"
    if "(q, k') \<in> set js" for q k'
    using assms(1) that unfolding ways_ready_def by (elim conjE) (drule bspec [of _ _ "(q, k')"]; simp)
  have dirs: "k'' = KindDirectory" if "(q, k') \<in> set js" "d \<in> way q" "(d, k'') \<in> ?all" for q k' d k''
    using each [OF that(1)] that(2,3) by blast
  have links: "(d, KindDirectory) \<in> ?all" if "(q, k') \<in> set js" "d \<in> way q" "is_link (map_of t d)" for q k' d
    using each [OF that(1)] that(2,3) by blast
  have reach: "reachable_link t q" if "(q, KindDirectory) \<in> set js" for q using each [OF that] by blast
  have s: "sorted_wrt (\<lambda>i j. snd j = KindDirectory \<longrightarrow> snd i = KindDirectory \<and> fst i \<le> fst j) js"
    and first: "\<forall>j\<in>set js. snd j = KindDirectory \<longrightarrow> k = KindDirectory"
    using assms(1) by (auto simp: ways_ready_def)
  have new: "is_link (map_of t d)" if "is_link (map_of t1 d)" "d \<noteq> p \<or> k \<noteq> KindLink" for d
    using assms(2) that by (auto simp: written_def)
  have l: "(d, KindDirectory) \<in> set js" if h: "(q, k') \<in> set js" "d \<in> way q" "is_link (map_of t1 d)" for q k' d
  proof -
    have pk: "d = p \<Longrightarrow> k = KindDirectory" using dirs [OF h(1,2), of k] by simp
    then have "d \<noteq> p" using assms(2) h(3) by (auto simp: written_def)
    then show ?thesis using links [OF h(1,2)] new [OF h(3)] by simp
  qed
  have r: "reachable_link t1 q" if h: "(q, KindDirectory) \<in> set js" for q
  proof -
    have k: "k = KindDirectory" using first h by force
    have c: "only_changes {p} t t1" "map_of t1 p = Some NDir" using assms(2) k by (auto simp: written_def)
    have "open_way t1 q" if "open_way t q" using that c unfolding open_way_def only_changes_def by (metis singletonD)
    then show ?thesis using reach [OF h] new [of q] k by (auto simp: reachable_link_def)
  qed
  have "(\<forall>d\<in>way q. is_link (map_of t1 d) \<longrightarrow> (d, KindDirectory) \<in> set js) \<and>
      (\<forall>d\<in>way q. \<forall>k''. (d, k'') \<in> set js \<longrightarrow> k'' = KindDirectory) \<and> (k' = KindDirectory \<longrightarrow> reachable_link t1 q)"
    if "(q, k') \<in> set js" for q k'
    using l [OF that] dirs [OF that] r that by auto
  then show ?thesis unfolding ways_ready_def using s by blast
qed

text \<open>No path is the temporary path of another, as the default ignore list makes sure.\<close>

definition no_temporaries :: "string set \<Rightarrow> bool" where
  "no_temporaries ps \<longleftrightarrow> (\<forall>p\<in>ps. p @ restore_temporary_suffix \<notin> ps)"

definition jobs :: "manifest \<Rightarrow> (string \<times> kind) list" where
  "jobs es = map (\<lambda>e. (e_path e, e_kind e)) es"

lemma write_entries_tree:
  "write_entries st es n t = (None, n', t') \<Longrightarrow> distinct (map e_path es) \<Longrightarrow> \<forall>e\<in>set es. plain_path (e_path e) \<Longrightarrow>
   ways_ready t (jobs es) \<Longrightarrow> no_temporaries (e_path ` set es \<union> ps) \<Longrightarrow> e_path ` set es \<inter> ps = {} \<Longrightarrow>
   (\<forall>e\<in>set es. \<exists>content. entry_content st e = Ok content \<and> map_of t' (e_path e) = Some (node_of e content)) \<and>
   (\<forall>q\<in>ps. map_of t' q = map_of t q \<or> (map_of t q = None \<and> map_of t' q = Some NDir))"
proof (induction es arbitrary: n t ps)
  case Nil
  then show ?case by simp
next
  case (Cons e es)
  obtain content t1 where c: "entry_content st e = Ok content" and w: "write_entry e content t = (None, t1)"
    and r: "write_entries st es (n + 1) t1 = (None, n', t')"
    using Cons.prems(1) by (auto split: sum.splits prod.splits option.splits)
  have rd: "ways_ready t ((e_path e, e_kind e) # jobs es)" using Cons.prems(4) by (simp add: jobs_def)
  have sp: "written (e_path e) (e_kind e) t t1" "map_of t1 (e_path e) = Some (node_of e content)"
    using write_entry_spec [OF w] ways_ready_head [OF rd] Cons.prems(3) by auto
  have "e_path e \<notin> fst ` set (jobs es)" using Cons.prems(2) by (auto simp: jobs_def)
  then have "ways_ready t1 (jobs es)" by (rule ways_ready_step [OF rd sp(1)])
  then have ih: "(\<forall>e\<in>set es. \<exists>content. entry_content st e = Ok content \<and> map_of t' (e_path e) = Some (node_of e content)) \<and>
    (\<forall>q\<in>insert (e_path e) ps. map_of t' q = map_of t1 q \<or> (map_of t1 q = None \<and> map_of t' q = Some NDir))"
    using Cons.prems(2,3,5,6) by (intro Cons.IH [OF r]) auto
  have "map_of t' (e_path e) = Some (node_of e content)" using ih sp(2) by auto
  moreover have "map_of t1 q = map_of t q \<or> (map_of t q = None \<and> map_of t1 q = Some NDir)" if "q \<in> ps" for q
  proof -
    have "q \<noteq> e_path e" "q \<noteq> e_path e @ restore_temporary_suffix"
      using Cons.prems(5,6) that by (auto simp: no_temporaries_def)
    then show ?thesis using written_changes [OF sp(1)] by (auto simp: only_changes_def)
  qed
  ultimately show ?case using ih c by fastforce
qed

lemma restore_order_sorted:
  "sorted_wrt (\<lambda>i j. snd j = KindDirectory \<longrightarrow> snd i = KindDirectory \<and> fst i \<le> fst j) (jobs (restore_order m))"
proof -
  have "sorted (map e_path (sort_by_path (filter (\<lambda>e. e_kind e = KindDirectory) m)))" by (simp add: sort_by_path_def)
  then have "sorted_wrt (\<lambda>i j. e_path i \<le> e_path j) (sort_by_path (filter (\<lambda>e. e_kind e = KindDirectory) m))"
    by (simp add: sorted_wrt_map)
  then have "sorted_wrt (\<lambda>i j. e_kind j = KindDirectory \<longrightarrow> e_kind i = KindDirectory \<and> e_path i \<le> e_path j)
      (sort_by_path (filter (\<lambda>e. e_kind e = KindDirectory) m))"
    by (rule sorted_wrt_mono_rel [rotated]) (auto simp: sort_by_path_def)
  moreover have "sorted_wrt (\<lambda>i j. e_kind j = KindDirectory \<longrightarrow> e_kind i = KindDirectory \<and> e_path i \<le> e_path j)
      (sort_by_path (filter (\<lambda>e. e_kind e \<noteq> KindDirectory) m))"
    by (rule sorted_wrt_mono_rel [of _ "\<lambda>i j. True"]) (auto simp: sort_by_path_def sorted_wrt_iff_nth_less)
  ultimately show ?thesis
    by (auto simp: jobs_def restore_order_def sorted_wrt_append sorted_wrt_map sort_by_path_def)
qed

lemma set_restore_order [simp]: "set (restore_order m) = set m"
  by (auto simp: restore_order_def sort_by_path_def)

lemma distinct_restore_order: "distinct (map e_path m) \<Longrightarrow> distinct (map e_path (restore_order m))"
  by (auto simp: restore_order_def sort_by_path_def distinct_map inj_on_def)

lemma obsolete_set: "set (obsolete_paths recorded present) = e_path ` set present - e_path ` set recorded"
  by (auto simp: obsolete_paths_def index_None)

lemma restore_ready:
  assumes "distinct (map e_path m)"
    "\<forall>e\<in>set m. \<forall>d\<in>way (e_path e). \<exists>e'\<in>set m. e_path e' = d \<and> e_kind e' = KindDirectory"
    "\<And>p. p \<in> e_path ` set m \<Longrightarrow> is_link (map_of t p) \<Longrightarrow> open_way t p"
  shows "ways_ready t (jobs (restore_order m))"
proof -
  have s: "set (jobs (restore_order m)) = (\<lambda>e. (e_path e, e_kind e)) ` set m" by (simp add: jobs_def)
  have one: "e = e'" if "e \<in> set m" "e' \<in> set m" "e_path e = e_path e'" for e e'
    using assms(1) that by (auto simp: distinct_map inj_on_def)
  have each: "(\<forall>d\<in>way (e_path e). is_link (map_of t d) \<longrightarrow> (d, KindDirectory) \<in> set (jobs (restore_order m))) \<and>
      (\<forall>d\<in>way (e_path e). \<forall>k'. (d, k') \<in> set (jobs (restore_order m)) \<longrightarrow> k' = KindDirectory) \<and>
      (e_kind e = KindDirectory \<longrightarrow> reachable_link t (e_path e))" if e: "e \<in> set m" for e
  proof (intro conjI ballI impI allI)
    fix d assume d: "d \<in> way (e_path e)"
    obtain e' where e': "e' \<in> set m" "e_path e' = d" "e_kind e' = KindDirectory" using assms(2) e d by blast
    then show "(d, KindDirectory) \<in> set (jobs (restore_order m))" unfolding s by (auto simp: image_iff)
    fix k' assume "(d, k') \<in> set (jobs (restore_order m))"
    then obtain e'' where "e'' \<in> set m" "e_path e'' = d" "k' = e_kind e''" unfolding s by auto
    then show "k' = KindDirectory" using one [of e'' e'] e' by simp
  qed (use assms(3) e in \<open>auto simp: reachable_link_def\<close>)
  have "\<forall>(p, k)\<in>set (jobs (restore_order m)). (\<forall>d\<in>way p. is_link (map_of t d) \<longrightarrow> (d, KindDirectory) \<in> set (jobs (restore_order m))) \<and>
      (\<forall>d\<in>way p. \<forall>k'. (d, k') \<in> set (jobs (restore_order m)) \<longrightarrow> k' = KindDirectory) \<and> (k = KindDirectory \<longrightarrow> reachable_link t p)"
  proof (rule ballI, rule case_prodI2)
    fix j p k assume "j \<in> set (jobs (restore_order m))" "j = (p, k)"
    then obtain e where e: "e \<in> set m" "p = e_path e" "k = e_kind e" unfolding s by auto
    show "(\<forall>d\<in>way p. is_link (map_of t d) \<longrightarrow> (d, KindDirectory) \<in> set (jobs (restore_order m))) \<and>
      (\<forall>d\<in>way p. \<forall>k'. (d, k') \<in> set (jobs (restore_order m)) \<longrightarrow> k' = KindDirectory) \<and> (k = KindDirectory \<longrightarrow> reachable_link t p)"
      unfolding e(2,3) by (rule each [OF e(1)])
  qed
  then show ?thesis unfolding ways_ready_def using restore_order_sorted by blast
qed

lemma restore_tree:
  assumes r: "restore sc identifier recorded st = (None, res, st')"
    and sc: "scan sc (st_project st) = Ok (present, sk)"
    and m: "distinct (map e_path recorded)" "\<forall>e\<in>set recorded. plain_path (e_path e)"
      "no_temporaries (e_path ` set recorded \<union> e_path ` set present)" "\<forall>e\<in>set present. plain_path (e_path e)"
    and closed: "\<forall>e\<in>set recorded. \<forall>d\<in>way (e_path e). \<exists>e'\<in>set recorded. e_path e' = d \<and> e_kind e' = KindDirectory"
    and links: "\<forall>p. is_link (map_of (p_tree (st_project st)) p) \<longrightarrow> open_way (p_tree (st_project st)) p"
  defines "t' \<equiv> p_tree (st_project st')"
  shows "\<forall>e\<in>set recorded. \<exists>content. entry_content st e = Ok content \<and> map_of t' (e_path e) = Some (node_of e content)"
    "\<forall>q\<in>e_path ` set present - e_path ` set recorded. map_of t' q = None \<or> map_of t' q = Some NDir"
    "st_objects st' = st_objects st" "st_snapshots st' = st_snapshots st" "st_head st' = Some (identifier @ [newline])"
proof -
  obtain n t w t2 where o: "remove_obsolete (obsolete_paths recorded present) 0 (p_tree (st_project st)) = (None, n, t)"
    and wr: "write_entries st (restore_order recorded) 0 t = (None, w, t2)"
    and st': "st' = set_head identifier (set_tree t2 st)"
    using r sc by (auto simp: restore_def split: prod.splits option.splits)
  have t': "t' = t2" by (simp add: t'_def st' set_head_def set_tree_def)
  let ?t0 = "p_tree (st_project st)"
  let ?ps = "e_path ` set present - e_path ` set recorded"
  have op: "\<forall>p\<in>set (obsolete_paths recorded present). plain_path p \<and> open_way ?t0 p"
    using scan_open_way [OF sc] m(4) unfolding obsolete_set by auto
  have c: "cleared ?ps ?t0 t"
    using remove_obsolete_cleared [OF o _ op] unfolding obsolete_set by (simp add: obsolete_paths_def)
  have ready: "ways_ready t (jobs (restore_order recorded))"
  proof (rule restore_ready [OF m(1) closed])
    fix p assume "p \<in> e_path ` set recorded" and l: "is_link (map_of t p)"
    then have "is_link (map_of ?t0 p)" using c by (auto simp: cleared_def)
    then have "open_way ?t0 p" using links by blast
    moreover have "map_of t d = map_of ?t0 d" if d: "d \<in> way p" for d
    proof -
      obtain e where "e \<in> set recorded" "p = e_path e" using \<open>p \<in> e_path ` set recorded\<close> by blast
      then obtain e' where "e' \<in> set recorded" "e_path e' = d" using closed d by blast
      then have "d \<notin> ?ps" by (metis DiffD2 imageI)
      then show ?thesis using c by (simp add: cleared_def)
    qed
    ultimately show "open_way t p" by (simp add: open_way_def)
  qed
  have w2: "(\<forall>e\<in>set (restore_order recorded). \<exists>content. entry_content st e = Ok content \<and>
        map_of t2 (e_path e) = Some (node_of e content)) \<and>
      (\<forall>q\<in>?ps. map_of t2 q = map_of t q \<or> (map_of t q = None \<and> map_of t2 q = Some NDir))"
    by (rule write_entries_tree [OF wr distinct_restore_order [OF m(1)] _ ready]) (use m in \<open>auto simp: Un_Diff_cancel\<close>)
  then show "\<forall>e\<in>set recorded. \<exists>content. entry_content st e = Ok content \<and> map_of t' (e_path e) = Some (node_of e content)"
    by (simp add: t')
  show "\<forall>q\<in>?ps. map_of t' q = None \<or> map_of t' q = Some NDir"
    using w2 c m(4) plain_path_neq_Nil unfolding t' cleared_def by (metis (no_types, lifting) DiffD1 imageE)
  show "st_objects st' = st_objects st" "st_snapshots st' = st_snapshots st"
    "st_head st' = Some (identifier @ [newline])"
    by (simp_all add: st' set_head_def set_tree_def)
qed

end
