(* ===== verification/Checkpoint_History.thy ===== *)
theory Checkpoint_History
  imports Checkpoint_Restore
begin

text \<open>
  The invariant of the checkpoint store and the properties of its operations: every checkpoint
  that is listed can be read, every object it names is there and is addressed by its content,
  and \<open>Take\<close>, \<open>Remove\<close>, \<open>Prune\<close> and the restores keep it so.
\<close>

section \<open>Checkpoint numbers\<close>

lemma parse_digits_zeros: "parse_digits (replicate k CHR ''0'' @ nat_text n) = Some n"
proof -
  have "foldl (\<lambda>n c. 10 * n + digit_val c) 0 (replicate k CHR ''0'') = 0"
    by (induction k) (simp_all add: digit_val_def)
  moreover have "list_all is_digit (replicate k CHR ''0'')"
    by (simp add: list_all_length is_digit_def)
  ultimately show ?thesis using nat_text_digits [of n] nat_text_value [of n]
    by (simp add: parse_digits_def)
qed

lemma zeros_hd: "\<exists>c cs. replicate k CHR ''0'' @ nat_text n = c # cs \<and> is_digit c"
  using nat_text_hd [of n] by (cases k) (auto simp: is_digit_def)

lemma atoi_format [simp]:
  assumes "0 \<le> n" "n \<le> int64_max"
  shows "atoi (format_checkpoint_id n) = Some n"
proof -
  define s where "s = replicate (4 - length (nat_text (nat n))) CHR ''0'' @ nat_text (nat n)"
  obtain c cs where c: "s = c # cs" "is_digit c" using zeros_hd unfolding s_def by blast
  have f: "format_checkpoint_id n = s" using assms by (simp add: format_checkpoint_id_def s_def Let_def)
  have p: "parse_digits s = Some (nat n)" unfolding s_def by (rule parse_digits_zeros)
  have "int64_min \<le> 0" by (simp add: int64_min_def)
  then show ?thesis using assms p digit_not_sign [OF c(2)] unfolding f c(1) by (simp add: atoi_def Let_def)
qed

lemma format_digits: "0 \<le> n \<Longrightarrow> list_all is_digit (format_checkpoint_id n) \<and> format_checkpoint_id n \<noteq> []"
  using nat_text_digits [of "nat n"] by (auto simp: format_checkpoint_id_def Let_def list_all_iff is_digit_def)

lemma trim_digits:
  assumes d: "list_all is_digit s" "s \<noteq> []"
  shows "trim_space (s @ [newline]) = s \<and> trim_space s = s"
proof -
  have no: "\<forall>c\<in>set s. \<not> is_space c" using d(1) by (auto simp: list_all_iff is_digit_def is_space_def)
  have same: "dropWhile is_space xs = xs" if "\<forall>c\<in>set xs. \<not> is_space c" for xs
    using that by (cases xs) auto
  have "dropWhile is_space (s @ [newline]) = s @ [newline]" using no d(2) by (cases s) auto
  moreover have "is_space newline" by (simp add: is_space_def)
  moreover note same [of s] same [of "rev s"]
  ultimately show ?thesis using no by (simp add: trim_space_def trim_by_def trim_right_by_def)
qed

section \<open>The identifiers of a store\<close>

definition names :: "store \<Rightarrow> string set" where
  "names st = fst ` set (st_snapshots st)"

lemma names_iff: "x \<in> names st \<longleftrightarrow> (\<exists>f. (x, f) \<in> set (st_snapshots st))"
  by (force simp: names_def)

lemma numbers_iff: "n \<in> set (checkpoint_numbers st) \<longleftrightarrow>
    (\<exists>s. s @ manifest_suffix \<in> names st \<and> atoi s = Some n)"
proof -
  have "n \<in> set (checkpoint_numbers st) \<longleftrightarrow> (\<exists>name f. (name, f) \<in> set (st_snapshots st) \<and>
      has_suffix name manifest_suffix \<and> atoi (trim_suffix name manifest_suffix) = Some n)"
    unfolding checkpoint_numbers_def set_sort by (force simp: map_filter_def split: if_splits)
  also have "\<dots> \<longleftrightarrow> (\<exists>s f. (s @ manifest_suffix, f) \<in> set (st_snapshots st) \<and> atoi s = Some n)"
    unfolding has_suffix_iff using trim_suffix_append by metis
  finally show ?thesis unfolding names_iff by blast
qed

lemma sorted_numbers: "sorted (checkpoint_numbers st)"
  by (simp add: checkpoint_numbers_def)

text \<open>
  The invariant. Manifest files have the names \<open>Take\<close> gives them, each is readable and its objects
  are there, and every object lies where its digest says.
\<close>

definition addressed :: "scanner \<Rightarrow> store \<Rightarrow> bool" where
  "addressed sc st \<longleftrightarrow> (\<forall>k c. map_of (st_objects st) k = Some c \<longrightarrow> k = blob_key (sha sc c))"

definition has_objects :: "store \<Rightarrow> manifest \<Rightarrow> bool" where
  "has_objects st m \<longleftrightarrow> (\<forall>e\<in>set m. e_kind e \<noteq> KindDirectory \<longrightarrow>
     (\<exists>c. map_of (st_objects st) (blob_key (e_digest e)) = Some c) \<and> 3 \<le> length (e_digest e))"

definition store_ok :: "scanner \<Rightarrow> store \<Rightarrow> bool" where
  "store_ok sc st \<longleftrightarrow> addressed sc st \<and>
     (\<forall>s. s @ manifest_suffix \<in> names st \<longrightarrow> (\<exists>n. s = format_checkpoint_id n \<and> 0 \<le> n \<and> n \<le> int64_max)) \<and>
     (\<forall>i\<in>set (identifiers st). \<exists>m. stored_manifest st i = Ok m \<and> has_objects st m)"

text \<open>SHA-256 in hexadecimal: longer than the shard name and free of separators.\<close>

definition hex_digest :: "(string \<Rightarrow> string) \<Rightarrow> bool" where
  "hex_digest h \<longleftrightarrow> (\<forall>s. 3 \<le> length (h s) \<and> set (h s) \<inter> {tab, newline} = {})"

lemma store_ok_identifiers:
  assumes "store_ok sc st"
  shows "i \<in> set (identifiers st) \<longleftrightarrow> i @ manifest_suffix \<in> names st"
    "i \<in> set (identifiers st) \<Longrightarrow> \<exists>n. i = format_checkpoint_id n \<and> 0 \<le> n \<and> n \<le> int64_max \<and> n \<in> set (checkpoint_numbers st)"
proof -
  have canon: "\<exists>n. s = format_checkpoint_id n \<and> 0 \<le> n \<and> n \<le> int64_max" if "s @ manifest_suffix \<in> names st" for s
    using assms that unfolding store_ok_def by blast
  show *: "\<exists>n. i = format_checkpoint_id n \<and> 0 \<le> n \<and> n \<le> int64_max \<and> n \<in> set (checkpoint_numbers st)"
    if i: "i \<in> set (identifiers st)" for i
  proof -
    obtain n s where n: "i = format_checkpoint_id n" "s @ manifest_suffix \<in> names st" "atoi s = Some n"
      using i by (auto simp: identifiers_def numbers_iff)
    then show ?thesis using canon [OF n(2)] numbers_iff by fastforce
  qed
  show "i \<in> set (identifiers st) \<longleftrightarrow> i @ manifest_suffix \<in> names st"
  proof
    assume "i \<in> set (identifiers st)"
    then obtain n s where n: "i = format_checkpoint_id n" "s @ manifest_suffix \<in> names st" "atoi s = Some n"
      by (auto simp: identifiers_def numbers_iff)
    then show "i @ manifest_suffix \<in> names st" using canon [OF n(2)] by auto
  next
    assume i: "i @ manifest_suffix \<in> names st"
    then show "i \<in> set (identifiers st)" using canon [OF i] numbers_iff by (fastforce simp: identifiers_def)
  qed
qed

lemma same_names: "names st' = names st \<Longrightarrow> set (identifiers st') = set (identifiers st)"
  by (auto simp: identifiers_def numbers_iff)

lemma blob_key_inj: "3 \<le> length d \<Longrightarrow> 3 \<le> length d' \<Longrightarrow> blob_key d = blob_key d' \<Longrightarrow> d = d'"
  by (auto simp: blob_key_def) (metis append_take_drop_id)

lemma blob_key_parts: "3 \<le> length d \<Longrightarrow> blob_key d = (shard, name) \<longleftrightarrow> shard @ name = d \<and> length shard = 2"
  by (auto simp: blob_key_def)

lemma map_le_Some: "m \<subseteq>\<^sub>m m' \<Longrightarrow> m k = Some v \<Longrightarrow> m' k = Some v"
  by (metis domI map_le_def)

section \<open>Storing the entries of a scan\<close>

lemma store_entries_scan:
  "\<forall>e\<in>set es. scanned sc pr e \<Longrightarrow> st_project st = pr \<Longrightarrow> addressed sc st \<Longrightarrow> hex_digest (sha sc) \<Longrightarrow>
   \<exists>st'. store_entries sc es st = Ok (es, st') \<and> addressed sc st' \<and> has_objects st' es \<and>
     map_of (st_objects st) \<subseteq>\<^sub>m map_of (st_objects st') \<and>
     st' = st\<lparr>st_objects := st_objects st'\<rparr>"
proof (induction es arbitrary: st)
  case Nil
  then show ?case by (simp add: has_objects_def)
next
  case (Cons e es)
  have e: "entry_matches (sha sc) (p_tree pr) e" using Cons.prems(1) by (simp add: scanned_def)
  have "\<exists>st1. store_entry_content sc e st = Ok (e, st1) \<and> addressed sc st1 \<and>
     (e_kind e \<noteq> KindDirectory \<longrightarrow> (\<exists>c. map_of (st_objects st1) (blob_key (e_digest e)) = Some c) \<and> 3 \<le> length (e_digest e)) \<and>
     map_of (st_objects st) \<subseteq>\<^sub>m map_of (st_objects st1) \<and> st1 = st\<lparr>st_objects := st_objects st1\<rparr>"
  proof (cases "e_kind e = KindDirectory")
    case True
    then show ?thesis using Cons.prems(3) by (simp add: store_entry_content_def)
  next
    case False
    then obtain content where c: "entry_source (p_tree pr) e = Some content" "e_digest e = sha sc content"
      using e by (auto simp: entry_matches_def entry_source_def split: option.splits node.splits)
        (metis entry.select_convs kind.distinct)+
    define key where "key = blob_key (sha sc content)"
    define st1 where "st1 = (if map_of (st_objects st) key \<noteq> None then st
        else st\<lparr>st_objects := AList.update key content (st_objects st)\<rparr>)"
    have "store_entry_content sc e st = Ok (e\<lparr>e_digest := sha sc content\<rparr>, st1)"
      using False c Cons.prems(2) by (simp add: store_entry_content_def write_object_def st1_def key_def Let_def)
    moreover have "e\<lparr>e_digest := sha sc content\<rparr> = e" using c(2) by simp
    moreover have "addressed sc st1" using Cons.prems(3) by (auto simp: addressed_def st1_def key_def tree_simps)
    moreover have "\<exists>c. map_of (st_objects st1) (blob_key (e_digest e)) = Some c"
      using c(2) by (auto simp: st1_def key_def tree_simps)
    moreover have "3 \<le> length (e_digest e)" using c(2) Cons.prems(4) by (simp add: hex_digest_def)
    moreover have "map_of (st_objects st) \<subseteq>\<^sub>m map_of (st_objects st1)" "st1 = st\<lparr>st_objects := st_objects st1\<rparr>"
      by (auto simp: st1_def map_le_def tree_simps)
    ultimately show ?thesis by metis
  qed
  then obtain st1 where s1: "store_entry_content sc e st = Ok (e, st1)" "addressed sc st1"
     "e_kind e \<noteq> KindDirectory \<longrightarrow> (\<exists>c. map_of (st_objects st1) (blob_key (e_digest e)) = Some c) \<and> 3 \<le> length (e_digest e)"
     "map_of (st_objects st) \<subseteq>\<^sub>m map_of (st_objects st1)" "st1 = st\<lparr>st_objects := st_objects st1\<rparr>"
    by blast
  have "st_project st1 = pr" using Cons.prems(2) s1(5) by (metis store.select_convs(1) store.surjective store.update_convs(2))
  then obtain st2 where s2: "store_entries sc es st1 = Ok (es, st2)" "addressed sc st2" "has_objects st2 es"
     "map_of (st_objects st1) \<subseteq>\<^sub>m map_of (st_objects st2)" "st2 = st1\<lparr>st_objects := st_objects st2\<rparr>"
    using Cons.IH [of st1] Cons.prems(1,4) s1(2) by auto
  have "store_entries sc (e # es) st = Ok (e # es, st2)" using s1(1) s2(1) by simp
  moreover have "has_objects st2 (e # es)"
    using s2(3) s1(3) map_le_Some [OF s2(4)] unfolding has_objects_def by (metis set_ConsD)
  moreover have "map_of (st_objects st) \<subseteq>\<^sub>m map_of (st_objects st2)" using s1(4) s2(4) map_le_trans by blast
  moreover have "st2 = st\<lparr>st_objects := st_objects st2\<rparr>" using s1(5) s2(5) by (metis store.update_convs(2) store.surjective)
  ultimately show ?case using s2(2) by blast
qed

section \<open>Taking a checkpoint\<close>

lemma names_update: "fst ` set (AList.update k v al) = insert k (fst ` set al)"
  by (simp add: dom_update)

lemma names_delete: "fst ` set (AList.delete k al) = fst ` set al - {k}"
  by (auto simp: AList.delete_eq)

lemma suffixes: "s @ metadata_suffix \<noteq> t @ manifest_suffix" "manifest_suffix \<noteq> []"
proof -
  have "last (s @ metadata_suffix) \<noteq> last (t @ manifest_suffix)"
    by (simp add: metadata_suffix_def manifest_suffix_def)
  then show "s @ metadata_suffix \<noteq> t @ manifest_suffix" by metis
qed (simp add: manifest_suffix_def)

lemma format_inj: "0 \<le> n \<Longrightarrow> n \<le> int64_max \<Longrightarrow> 0 \<le> m \<Longrightarrow> m \<le> int64_max \<Longrightarrow>
    format_checkpoint_id n = format_checkpoint_id m \<longleftrightarrow> n = m"
  using atoi_format by (metis option.inject)

lemma next_identifier_fresh:
  assumes ok: "store_ok sc st" and max: "\<forall>n\<in>set (checkpoint_numbers st). n < int64_max"
  obtains n where "next_identifier st = format_checkpoint_id n" "0 \<le> n" "n \<le> int64_max"
    "\<forall>k\<in>set (checkpoint_numbers st). k < n" "next_identifier st \<notin> set (identifiers st)"
    "n = 1 \<or> n - 1 \<in> set (checkpoint_numbers st)"
proof -
  note ids = store_ok_identifiers [OF ok]
  have rng: "0 \<le> k \<and> k \<le> int64_max" if k: "k \<in> set (checkpoint_numbers st)" for k
  proof -
    obtain s where s: "s @ manifest_suffix \<in> names st" "atoi s = Some k" using k unfolding numbers_iff by blast
    then obtain m where "s = format_checkpoint_id m" "0 \<le> m" "m \<le> int64_max" using ok unfolding store_ok_def by blast
    then show ?thesis using s(2) by simp
  qed
  define n where "n = (if checkpoint_numbers st = [] then 1 else last (checkpoint_numbers st) + 1)"
  have last: "checkpoint_numbers st \<noteq> [] \<Longrightarrow> last (checkpoint_numbers st) \<in> set (checkpoint_numbers st)" by simp
  have "next_identifier st = format_checkpoint_id n"
    using rng last by (auto simp: next_identifier_def n_def identifiers_def Let_def last_map)
  moreover have "0 \<le> n" "n \<le> int64_max"
  proof -
    have "0 \<le> last (checkpoint_numbers st) \<and> last (checkpoint_numbers st) < int64_max" if "checkpoint_numbers st \<noteq> []"
      using rng [OF last [OF that]] max last [OF that] by blast
    moreover have "1 \<le> int64_max" by (simp add: int64_max_def)
    ultimately show "0 \<le> n" "n \<le> int64_max" by (auto simp: n_def)
  qed
  moreover have less: "\<forall>k\<in>set (checkpoint_numbers st). k < n"
    using sorted_numbers [of st] by (cases "checkpoint_numbers st" rule: rev_cases)
      (auto simp: n_def sorted_append)
  moreover have "format_checkpoint_id n \<notin> set (identifiers st)"
    using less rng format_inj calculation(2,3) by (fastforce simp: identifiers_def)
  moreover have "n = 1 \<or> n - 1 \<in> set (checkpoint_numbers st)" using last by (simp add: n_def)
  ultimately show thesis using that by metis
qed

text \<open>The trees that a file system can have: paths of plain names, below directories.\<close>

definition tidy :: "tree \<Rightarrow> bool" where
  "tidy t \<longleftrightarrow> list_all (\<lambda>(p, _). plain_path p \<and> list_all (\<lambda>d. map_of t d = Some NDir) (dir_paths [] (dir_segments (parent_of p)))) t"

lemma tidy_path:
  assumes "tidy t" "map_of t p = Some n"
  shows "plain_path p" "open_way t p" "is_local p"
proof -
  have "(p, n) \<in> set t" by (rule map_of_SomeD [OF assms(2)])
  then have h: "plain_path p" "\<forall>d\<in>set (dir_paths [] (dir_segments (parent_of p))). map_of t d = Some NDir"
    using assms(1) by (auto simp: tidy_def list_all_iff)
  show "plain_path p" by (rule h(1))
  show "open_way t p" using h(2) unfolding set_dir_paths [OF h(1)] open_way_def .
  show "is_local p" using join_plain_local [of "split_on CHR ''/'' p"] h(1) by (simp add: plain_path_def)
qed

lemma tidy_links: "tidy t \<Longrightarrow> is_link (map_of t p) \<Longrightarrow> open_way t p"
  using tidy_path(2) [of t p] by (cases "map_of t p") auto

lemma scanned_storable:
  assumes "scanned sc pr e" "clean_path (e_path e)" "hex_digest (sha sc)" "tidy (p_tree pr)"
  shows "storable e"
proof -
  obtain n where n: "map_of (p_tree pr) (e_path e) = Some n" "entry_matches (sha sc) (p_tree pr) e"
    using assms(1) by (auto simp: scanned_def entry_matches_def split: option.splits)
  have "is_local (e_path e)" by (rule tidy_path(3) [OF assms(4) n(1)])
  then show ?thesis
    using n assms(2,3) by (cases n; cases e)
      (auto simp: entry_matches_def storable_def clean_path_def hex_digest_def)
qed

lemma take_checkpoint_spec:
  assumes ok: "store_ok sc st" and max: "\<forall>n\<in>set (checkpoint_numbers st). n < int64_max"
    and hx: "hex_digest (sha sc)" and td: "tidy (p_tree (st_project st))"
    and s: "scan sc (st_project st) = Ok (m, sk)"
  shows "\<exists>c st'. take_checkpoint sc fmt now label st = Ok (c, st') \<and> store_ok sc st' \<and>
    c_id c \<notin> set (identifiers st) \<and> set (identifiers st') = insert (c_id c) (set (identifiers st)) \<and>
    head st' = Some (c_id c) \<and> resolve st' (c_id c) = Ok (c_id c) \<and> stored_manifest st' (c_id c) = Ok m \<and>
    (\<forall>i\<in>set (identifiers st). stored_manifest st' i = stored_manifest st i) \<and>
    map_of (st_objects st) \<subseteq>\<^sub>m map_of (st_objects st') \<and> st_project st' = st_project st \<and> has_objects st' m \<and>
    (\<forall>k\<in>set (checkpoint_numbers st'). k = 1 \<or> k \<in> set (checkpoint_numbers st) \<or> k - 1 \<in> set (checkpoint_numbers st))"
proof -
  note w = scan_walked [OF s]
  obtain st1 where s1: "store_entries sc m st = Ok (m, st1)" "addressed sc st1" "has_objects st1 m"
      "map_of (st_objects st) \<subseteq>\<^sub>m map_of (st_objects st1)" "st1 = st\<lparr>st_objects := st_objects st1\<rparr>"
    using store_entries_scan [of m sc "st_project st" st] w hx ok by (auto simp: store_ok_def)
  have snap1: "st_snapshots st1 = st_snapshots st" "st_project st1 = st_project st"
    using s1(5) by (metis store.select_convs store.surjective store.update_convs(2))+
  have idn: "identifiers st1 = identifiers st" "next_identifier st1 = next_identifier st"
    using snap1 by (simp_all add: identifiers_def checkpoint_numbers_def next_identifier_def)
  obtain n where n: "next_identifier st = format_checkpoint_id n" "0 \<le> n" "n \<le> int64_max"
    "next_identifier st \<notin> set (identifiers st)" "n = 1 \<or> n - 1 \<in> set (checkpoint_numbers st)"
    using next_identifier_fresh [OF ok max] by metis
  define i where "i = next_identifier st"
  define c where "c = \<lparr>c_id = i, c_metadata = \<lparr>m_time = Some now, m_label = label, m_entries = int (length m)\<rparr>, c_skipped = sk\<rparr>"
  define st' where "st' = set_head i (write_snapshot i m (document fmt (c_metadata c)) st1)"
  have tk: "take_checkpoint sc fmt now label st = Ok (c, st')"
    using s s1(1) idn by (simp add: take_checkpoint_def Let_def st'_def c_def i_def)
  have obj: "st_objects st' = st_objects st1" "st_project st' = st_project st"
    by (simp_all add: st'_def set_head_def write_snapshot_def snap1)
  have nm: "names st' = insert (i @ metadata_suffix) (insert (i @ manifest_suffix) (names st))"
    by (simp add: st'_def set_head_def write_snapshot_def names_def names_update snap1)
  have lk: "map_of (st_snapshots st') (j @ manifest_suffix) =
      (if j = i then Some (ManifestFile (format_manifest m)) else map_of (st_snapshots st) (j @ manifest_suffix))" for j
    using suffixes(1) [of i j] by (auto simp: st'_def set_head_def write_snapshot_def tree_simps snap1)
  have sm: "stored_manifest st' i = Ok m"
  proof -
    have "list_all storable m" using w scanned_storable [OF _ _ hx td] by (auto simp: list_all_iff)
    then show ?thesis unfolding stored_manifest_def lk
      by (simp add: parse_manifest_def parse_format_lines)
  qed
  have old: "stored_manifest st' j = stored_manifest st j" if "j \<in> set (identifiers st)" for j
    using that n(4) lk unfolding stored_manifest_def i_def by auto
  note ids = store_ok_identifiers [OF ok]
  have numbers: "k \<in> set (checkpoint_numbers st') \<longleftrightarrow> k \<in> set (checkpoint_numbers st) \<or> k = n" for k
  proof -
    have "atoi i = Some n" using n by (simp add: i_def)
    then show ?thesis unfolding numbers_iff nm using suffixes(1) [of i] by (auto simp: eq_commute)
  qed
  have idset: "set (identifiers st') = insert i (set (identifiers st))"
    using numbers n(1) by (auto simp: identifiers_def i_def)
  have "has_objects st' m'" if "has_objects st m'" for m'
    using that map_le_Some [OF s1(4)] unfolding has_objects_def obj by metis
  then have "\<forall>j\<in>set (identifiers st'). \<exists>m. stored_manifest st' j = Ok m \<and> has_objects st' m"
    using ok old sm s1(3) unfolding idset store_ok_def by (auto simp: has_objects_def obj)
  moreover have "\<exists>n. s = format_checkpoint_id n \<and> 0 \<le> n \<and> n \<le> int64_max" if "s @ manifest_suffix \<in> names st'" for s
    using that ok n(1-3) suffixes(1) [of i s] unfolding nm i_def store_ok_def by (auto simp: eq_commute)
  ultimately have sok: "store_ok sc st'" using s1(2) unfolding store_ok_def addressed_def obj by blast
  have fd: "list_all is_digit i" "i \<noteq> []" using format_digits [OF n(2)] n(1) by (simp_all add: i_def)
  have hd: "head st' = Some i"
    using trim_digits [OF fd] fd(2) by (simp add: head_def st'_def set_head_def write_snapshot_def)
  have rs: "resolve st' i = Ok i"
    using trim_digits [OF fd] idset by (auto simp: resolve_def Let_def)
  show ?thesis
    by (intro exI [of _ c] exI [of _ st'] conjI)
      (use tk sok n(4,5) numbers idset hd rs sm old s1(4) obj s1(3) in \<open>auto simp: c_def i_def has_objects_def\<close>)
qed

section \<open>Removing and pruning\<close>

lemma remove_checkpoint_spec:
  assumes ok: "store_ok sc st" and r: "remove_checkpoint wanted st = Ok st'"
  obtains i where "resolve st wanted = Ok i" "store_ok sc st'" "set (identifiers st') = set (identifiers st) - {i}"
    "\<forall>j\<in>set (identifiers st'). stored_manifest st' j = stored_manifest st j" "st_objects st' = st_objects st"
    "head st' = (if head st = Some i then None else head st)"
proof -
  obtain i where i: "resolve st wanted = Ok i" using r by (auto simp: remove_checkpoint_def bind_res_Ok)
  define st1 where "st1 = st\<lparr>st_snapshots := AList.delete (i @ metadata_suffix)
                   (AList.delete (i @ manifest_suffix) (st_snapshots st))\<rparr>"
  have st': "st' = (if head st1 = Some i then clear_head st1 else st1)"
    using r i by (auto simp: remove_checkpoint_def st1_def Let_def)
  have snap: "st_snapshots st' = st_snapshots st1" "st_objects st' = st_objects st"
    by (simp_all add: st' clear_head_def st1_def)
  have hd: "head st' = (if head st = Some i then None else head st)"
    by (simp add: st' clear_head_def head_def st1_def)
  have nm: "names st' = names st - {i @ manifest_suffix, i @ metadata_suffix}"
    by (auto simp: names_def snap st1_def names_delete)
  have lk: "map_of (st_snapshots st') (j @ manifest_suffix) =
      (if j = i then None else map_of (st_snapshots st) (j @ manifest_suffix))" for j
    using suffixes(1) [of i j] by (auto simp: snap st1_def tree_simps)
  have canon: "\<exists>n. s = format_checkpoint_id n \<and> 0 \<le> n \<and> n \<le> int64_max" if "s @ manifest_suffix \<in> names st'" for s
    using that ok unfolding nm store_ok_def by blast
  have mem: "j \<in> set (identifiers st') \<longleftrightarrow> j @ manifest_suffix \<in> names st'" for j
  proof
    assume "j \<in> set (identifiers st')"
    then obtain n s where n: "j = format_checkpoint_id n" "s @ manifest_suffix \<in> names st'" "atoi s = Some n"
      by (auto simp: identifiers_def numbers_iff)
    then show "j @ manifest_suffix \<in> names st'" using canon [OF n(2)] by auto
  next
    assume "j @ manifest_suffix \<in> names st'"
    then show "j \<in> set (identifiers st')" using canon numbers_iff by (fastforce simp: identifiers_def)
  qed
  have idset: "set (identifiers st') = set (identifiers st) - {i}"
    using mem store_ok_identifiers(1) [OF ok] suffixes(1) [of i] by (auto simp: nm eq_commute)
  have old: "\<forall>j\<in>set (identifiers st'). stored_manifest st' j = stored_manifest st j"
    using lk unfolding idset stored_manifest_def by auto
  then have "\<forall>j\<in>set (identifiers st'). \<exists>m. stored_manifest st' j = Ok m \<and> has_objects st' m"
    using ok unfolding store_ok_def has_objects_def snap idset by simp
  then have "store_ok sc st'" using ok canon unfolding store_ok_def addressed_def snap by blast
  then show thesis using that i idset old snap(2) hd by blast
qed

lemma referenced_spec:
  "referenced st ids = Ok ds \<Longrightarrow> i \<in> set ids \<Longrightarrow> stored_manifest st i = Ok m \<Longrightarrow> e \<in> set m \<Longrightarrow>
   e_digest e \<noteq> [] \<Longrightarrow> e_digest e \<in> set ds"
  by (induction ids arbitrary: ds) (auto simp: bind_res_Ok)

lemma referenced_total: "\<forall>i\<in>set ids. \<exists>m. stored_manifest st i = Ok m \<Longrightarrow> \<exists>ds. referenced st ids = Ok ds"
  by (induction ids) (auto simp: bind_res_Ok)

lemma referenced_sound:
  "referenced st ids = Ok ds \<Longrightarrow> d \<in> set ds \<Longrightarrow> \<exists>i m e. i \<in> set ids \<and> stored_manifest st i = Ok m \<and> e \<in> set m \<and> e_digest e = d"
  by (induction ids arbitrary: ds) (fastforce simp: bind_res_Ok)+

lemma map_of_filter_in: "P k \<Longrightarrow> map_of (filter (\<lambda>(k, v). P k) al) k = map_of al k"
  by (induction al) auto

lemma map_of_filter_out: "\<not> P k \<Longrightarrow> map_of (filter (\<lambda>(k, v). P k) al) k = None"
  by (induction al) auto

lemma prune_spec:
  assumes ok: "store_ok sc st"
  shows "\<exists>n b st'. prune st = Ok (n, b, st') \<and> store_ok sc st' \<and> identifiers st' = identifiers st \<and>
    stored_manifest st' = stored_manifest st \<and> st_project st' = st_project st \<and> head st' = head st \<and> st_partials st' = [] \<and>
    (\<forall>k. map_of (st_objects st') k = (if \<exists>i m e. i \<in> set (identifiers st) \<and> stored_manifest st i = Ok m \<and>
       e \<in> set m \<and> e_digest e \<noteq> [] \<and> fst k \<noteq> [] \<and> fst k @ snd k = e_digest e then map_of (st_objects st) k else None))"
proof -
  obtain ds where ds: "referenced st (identifiers st) = Ok ds"
    using referenced_total [of "identifiers st" st] ok unfolding store_ok_def by blast
  define P where "P = (\<lambda>k :: string \<times> string. fst k \<noteq> [] \<and> fst k @ snd k \<in> set ds)"
  define kept where "kept = filter (\<lambda>(k, v). P k) (st_objects st)"
  have kd: "filter (\<lambda>((shard, name), content). shard \<noteq> [] \<and> shard @ name \<in> set ds) (st_objects st) = kept"
    unfolding kept_def P_def by (rule filter_cong) auto
  define st' where "st' = st\<lparr>st_objects := kept, st_partials := []\<rparr>"
  obtain n b where p: "prune st = Ok (n, b, st')"
    using ds kd unfolding prune_def st'_def by (simp add: Let_def)
  have same: "identifiers st' = identifiers st" "stored_manifest st' = stored_manifest st" "names st' = names st"
    "head st' = head st"
    by (simp_all add: st'_def identifiers_def checkpoint_numbers_def stored_manifest_def fun_eq_iff names_def head_def)
  have Pk: "P k \<longleftrightarrow> (\<exists>i m e. i \<in> set (identifiers st) \<and> stored_manifest st i = Ok m \<and>
       e \<in> set m \<and> e_digest e \<noteq> [] \<and> fst k \<noteq> [] \<and> fst k @ snd k = e_digest e)" for k
    using referenced_spec [OF ds] referenced_sound [OF ds] unfolding P_def by fastforce
  have mo: "map_of (st_objects st') k = (if P k then map_of (st_objects st) k else None)" for k
    by (simp add: st'_def kept_def map_of_filter_in map_of_filter_out)
  have "has_objects st' m" if i: "i \<in> set (identifiers st)" "stored_manifest st i = Ok m" "has_objects st m" for i m
    unfolding has_objects_def
  proof (intro ballI impI)
    fix e
    assume e: "e \<in> set m" "e_kind e \<noteq> KindDirectory"
    then obtain c where c: "map_of (st_objects st) (blob_key (e_digest e)) = Some c" "3 \<le> length (e_digest e)"
      using i(3) unfolding has_objects_def by blast
    have "P (blob_key (e_digest e))"
    proof -
      have "fst (blob_key (e_digest e)) \<noteq> []" "fst (blob_key (e_digest e)) @ snd (blob_key (e_digest e)) = e_digest e"
        "e_digest e \<noteq> []" using c(2) by (auto simp: blob_key_def)
      then show ?thesis unfolding Pk using i(1,2) e(1) by metis
    qed
    then show "(\<exists>c. map_of (st_objects st') (blob_key (e_digest e)) = Some c) \<and> 3 \<le> length (e_digest e)"
      using c mo by simp
  qed
  moreover have "addressed sc st'" using ok mo unfolding store_ok_def addressed_def by (auto split: if_splits)
  ultimately have "store_ok sc st'" using ok unfolding store_ok_def same by blast
  moreover have "st_project st' = st_project st" "st_partials st' = []" by (simp_all add: st'_def)
  ultimately show ?thesis using p same mo unfolding Pk by blast
qed

section \<open>Taking and restoring\<close>

lemma blobs_present_ok: "has_objects st m \<Longrightarrow> blobs_present st m = Ok ()"
  by (induction m) (auto simp: has_objects_def)

lemma entry_content_digest:
  assumes "entry_content st e = Ok content" "e_kind e \<noteq> KindDirectory" "addressed sc st" "hex_digest (sha sc)"
    "3 \<le> length (e_digest e)"
  shows "sha sc content = e_digest e"
proof -
  have "map_of (st_objects st) (blob_key (e_digest e)) = Some content"
    using assms(1,2) by (auto simp: entry_content_def blob_def split: sum.splits option.splits)
  then have "blob_key (e_digest e) = blob_key (sha sc content)" using assms(3) unfolding addressed_def by blast
  then show ?thesis using blob_key_inj assms(4,5) unfolding hex_digest_def by metis
qed

definition ignores_temporaries :: "scanner \<Rightarrow> bool" where
  "ignores_temporaries sc \<longleftrightarrow> (\<forall>p d. matches (glob sc) (ignore_list sc) (p @ restore_temporary_suffix) d)"

lemma no_temporaries_scans:
  assumes "ignores_temporaries sc" "scan sc pr = Ok (m, sk)" "scan sc pr' = Ok (m', sk')"
  shows "no_temporaries (e_path ` set m \<union> e_path ` set m')"
proof -
  have "\<forall>e\<in>set m \<union> set m'. \<not> matches (glob sc) (ignore_list sc) (e_path e) (e_kind e = KindDirectory)"
    using scan_walked [OF assms(2)] scan_walked [OF assms(3)] by (auto simp: scanned_def)
  then have "\<forall>e\<in>set m \<union> set m'. e_path e \<noteq> p @ restore_temporary_suffix" for p
    using assms(1) unfolding ignores_temporaries_def by metis
  then show ?thesis unfolding no_temporaries_def by (auto simp: eq_commute)
qed

lemma scan_paths:
  assumes "scan sc pr = Ok (m, sk)" "tidy (p_tree pr)" "e \<in> set m"
  shows "plain_path (e_path e)"
proof -
  have "scanned sc pr e" using scan_walked [OF assms(1)] assms(3) by blast
  then obtain n where "map_of (p_tree pr) (e_path e) = Some n"
    by (auto simp: scanned_def entry_matches_def split: option.splits)
  then show ?thesis by (rule tidy_path(1) [OF assms(2)])
qed

text \<open>What a restore gives back for a node: an unset mode becomes \<open>0o644\<close>.\<close>

definition restored :: "node \<Rightarrow> node" where
  "restored n = (case n of NFile mode content \<Rightarrow> NFile (file_mode_to_write mode) content | _ \<Rightarrow> n)"

lemma restored_node:
  assumes "scanned sc pr e" "map_of (p_tree pr) (e_path e) = Some n"
    and "e_kind e \<noteq> KindDirectory \<Longrightarrow> sha sc content = e_digest e" "inj (sha sc)"
  shows "node_of e content = restored n"
  using assms by (cases n; cases e)
    (auto simp: scanned_def entry_matches_def node_of_def restored_def file_mode_to_write_def inj_eq)

lemma restorable_ok:
  assumes "resolve st w = Ok i" "stored_manifest st i = Ok m" "has_objects st m"
  shows "restorable st w = Ok (i, m)"
  using assms blobs_present_ok [OF assms(3)] by (simp add: restorable_def)

lemma restore_checkpoint_tree:
  assumes ok: "store_ok sc st" and max: "\<forall>n\<in>set (checkpoint_numbers st). n < int64_max"
    and hx: "hex_digest (sha sc)" and td: "tidy (p_tree (st_project st))" and ig: "ignores_temporaries sc"
    and i: "i \<in> set (identifiers st)" "resolve st i = Ok i" "stored_manifest st i = Ok m"
      "distinct (map e_path m)" "\<forall>e\<in>set m. plain_path (e_path e)"
    and m: "scan sc pr0 = Ok (m, sk0)"
    and r: "restore_checkpoint sc fmt now i st = (None, res, st')"
  shows "(\<forall>e\<in>set m. \<exists>content. map_of (p_tree (st_project st')) (e_path e) = Some (node_of e content) \<and>
      (e_kind e \<noteq> KindDirectory \<longrightarrow> sha sc content = e_digest e)) \<and> head st' = Some i"
proof -
  have ho: "has_objects st m" using ok i(1,3) unfolding store_ok_def by fastforce
  have ra: "restorable st i = Ok (i, m)" by (rule restorable_ok [OF i(2,3) ho])
  obtain present sk where s: "scan sc (st_project st) = Ok (present, sk)"
    using r ra by (cases "scan sc (st_project st)") (auto simp: restore_checkpoint_def take_checkpoint_def)
  obtain c st1 where t: "take_checkpoint sc fmt now (''automatic, before restoring '' @ i) st = Ok (c, st1)"
    "addressed sc st1" "map_of (st_objects st) \<subseteq>\<^sub>m map_of (st_objects st1)" "st_project st1 = st_project st"
    using take_checkpoint_spec [OF ok max hx td s] unfolding store_ok_def by metis
  obtain res1 where rr: "restore sc i m st1 = (None, res1, st')"
    using r ra t(1) by (auto simp: restore_checkpoint_def split: prod.splits)
  have s1: "scan sc (st_project st1) = Ok (present, sk)" using s t(4) by simp
  have pl: "\<forall>e\<in>set present. plain_path (e_path e)" using scan_paths [OF s td] by blast
  have cl: "\<forall>e\<in>set m. \<forall>d\<in>way (e_path e). \<exists>e'\<in>set m. e_path e' = d \<and> e_kind e' = KindDirectory"
    using scan_closed [OF m] by blast
  have li: "\<forall>p. is_link (map_of (p_tree (st_project st1)) p) \<longrightarrow> open_way (p_tree (st_project st1)) p"
    using tidy_links [OF td] t(4) by simp
  note tree = restore_tree [OF rr s1 i(4,5) no_temporaries_scans [OF ig m s] pl cl li]
  have "sha sc content = e_digest e" if e: "e \<in> set m" "e_kind e \<noteq> KindDirectory" "entry_content st1 e = Ok content" for e content
    using entry_content_digest [OF e(3,2) t(2) hx] ho e(1,2) by (auto simp: has_objects_def)
  moreover have "head st' = Some i"
  proof -
    obtain n where "i = format_checkpoint_id n" "0 \<le> n" using store_ok_identifiers(2) [OF ok i(1)] by blast
    then show ?thesis using format_digits [of n] trim_digits [of i] tree(5) by (simp add: head_def)
  qed
  ultimately show ?thesis using tree(1) by blast
qed

section \<open>An example store\<close>

definition hex_pair :: "char \<Rightarrow> string" where
  "hex_pair c = [char_of (65 + of_char c div 16 :: nat), char_of (65 + of_char c mod 16 :: nat)]"

definition example_sha :: "string \<Rightarrow> string" where
  "example_sha s = ''sha'' @ concat (map hex_pair s)"

definition example_scanner :: scanner where
  "example_scanner = \<lparr>sha = example_sha, glob = suffix_glob, ignore_list = Some (new_ignore default_ignores)\<rparr>"

definition example_project :: project where
  "example_project = \<lparr>p_tree = [(''src'', NDir), (''src/a.go'', NFile 420 ''x'')], p_unreadable = []\<rparr>"

definition example_store :: store where
  "example_store = \<lparr>st_project = example_project, st_objects = [], st_partials = [], st_snapshots = [], st_head = None\<rparr>"

definition changed_project :: project where
  "changed_project = \<lparr>p_tree = [(''src'', NDir), (''src/a.go'', NDir), (''junk'', NFile 420 ''y'')], p_unreadable = []\<rparr>"

definition example_scan :: manifest where
  "example_scan = [\<lparr>e_kind = KindDirectory, e_mode = 0, e_digest = [], e_path = ''src''\<rparr>,
     \<lparr>e_kind = KindFile, e_mode = 420, e_digest = ''shaHI'', e_path = ''src/a.go''\<rparr>]"

definition example_taken :: "nat checkpoint \<times> store" where
  "example_taken = (case take_checkpoint example_scanner (\<lambda>_. ''now'') 1 ''first'' example_store of
     Ok r \<Rightarrow> r | Err _ \<Rightarrow> (\<lparr>c_id = [], c_metadata = no_metadata, c_skipped = []\<rparr>, example_store))"

definition example_restored :: "store_error option \<times> restore_result \<times> store" where
  "example_restored = restore_checkpoint example_scanner (\<lambda>_. ''now'') (2::nat) (c_id (fst example_taken))
     ((snd example_taken)\<lparr>st_project := changed_project\<rparr>)"

lemma example_scan: "scan example_scanner example_project = Ok (example_scan, [])"
  by code_simp

lemma example_taken: "take_checkpoint example_scanner (\<lambda>_. ''now'') 1 ''first'' example_store = Ok example_taken"
proof -
  have "is_ok (take_checkpoint example_scanner (\<lambda>_. ''now'') (1::nat) ''first'' example_store)" by code_simp
  then show ?thesis by (simp add: example_taken_def is_ok_def split: sum.splits)
qed

lemma example_restored: "fst example_restored = None"
  by code_simp

lemma nibbles: "(of_char x :: nat) div 16 < 16" "(of_char x :: nat) mod 16 < 16" for x :: char
proof -
  have "(of_char x :: nat) < 256" by (rule nat_of_char_less_256)
  then show "(of_char x :: nat) div 16 < 16" by (simp add: less_mult_imp_div_less)
qed simp

lemma nibble_code: "n < 16 \<Longrightarrow> (of_char (char_of (65 + n) :: char) :: nat) = 65 + n" for n :: nat
  by (simp add: of_char_of)

lemma hex_pair_inj: "hex_pair c = hex_pair d \<Longrightarrow> c = d"
proof -
  assume h: "hex_pair c = hex_pair d"
  then have "(of_char (char_of (65 + of_char c div 16 :: nat) :: char) :: nat) = of_char (char_of (65 + of_char d div 16 :: nat) :: char)"
    "(of_char (char_of (65 + of_char c mod 16 :: nat) :: char) :: nat) = of_char (char_of (65 + of_char d mod 16 :: nat) :: char)"
    by (metis hex_pair_def list.inject)+
  then have "(of_char c :: nat) div 16 = of_char d div 16" "(of_char c :: nat) mod 16 = of_char d mod 16"
    unfolding nibble_code [OF nibbles(1)] nibble_code [OF nibbles(2)] by simp_all
  then have "(of_char c :: nat) = of_char d" by (metis div_mult_mod_eq)
  then show "c = d" by simp
qed

lemma hex_pairs_inj: "concat (map hex_pair s) = concat (map hex_pair t) \<Longrightarrow> s = t"
proof (induction s arbitrary: t)
  case Nil
  then show ?case by (cases t) (auto simp: hex_pair_def)
next
  case (Cons c s)
  then obtain d t' where t: "t = d # t'" by (cases t) (auto simp: hex_pair_def)
  have "length (hex_pair c) = length (hex_pair d)" by (simp add: hex_pair_def)
  then have "hex_pair c = hex_pair d \<and> concat (map hex_pair s) = concat (map hex_pair t')"
    using Cons.prems unfolding t by simp
  then show ?case using Cons.IH hex_pair_inj t by auto
qed

lemma example_sha_inj: "inj example_sha"
  by (rule injI) (simp add: example_sha_def hex_pairs_inj)

lemma example_sha_hex: "hex_digest example_sha"
proof -
  have "(of_char x :: nat) \<ge> 65" if "x \<in> set (hex_pair c)" for x c
    using that nibble_code [OF nibbles(1) [of c]] nibble_code [OF nibbles(2) [of c]] by (auto simp: hex_pair_def)
  moreover have "(of_char tab :: nat) = 9" "(of_char newline :: nat) = 10" by simp_all
  ultimately have "x \<noteq> tab \<and> x \<noteq> newline" if "x \<in> set (hex_pair c)" for x c
    using that by fastforce
  then show ?thesis by (auto simp: hex_digest_def example_sha_def)
qed

lemma example_ignores: "ignores_temporaries example_scanner"
proof -
  have g: "\<And>name. CHR ''/'' \<notin> set name \<Longrightarrow> suffix_glob ''*.prison-partial'' (name @ ''.prison-partial'')"
    by (simp add: suffix_glob_def has_suffix_append del: append.simps(2))
  show ?thesis
    using temporary_ignored [of suffix_glob] g
    by (simp add: ignores_temporaries_def example_scanner_def restore_temporary_suffix_def)
qed

lemma example_numbers: "checkpoint_numbers example_store = []"
  by code_simp

lemma example_store_ok: "store_ok example_scanner example_store"
  using example_numbers by (simp add: store_ok_def addressed_def identifiers_def names_def)
    (simp add: example_store_def)

lemma example_tidy: "tidy (p_tree example_project)" "tidy (p_tree changed_project)"
  by code_simp+

lemma example_scanner_sha [simp]: "sha example_scanner = example_sha"
  by (simp add: example_scanner_def)

lemma example_store_project [simp]: "st_project example_store = example_project"
  by (simp add: example_store_def)

section \<open>Properties\<close>

text \<open>\<open>Take\<close> keeps the store well formed and adds exactly one checkpoint: its identifier is
  new, it is the current one, it resolves to itself, its manifest is the scan of the tree, all its
  objects are there, and the manifests and objects of the other checkpoints are as before.\<close>

theorem take_adds_checkpoint:
  assumes "store_ok sc st" "\<forall>n\<in>set (checkpoint_numbers st). n < int64_max"
    and "hex_digest (sha sc)" "tidy (p_tree (st_project st))" "scan sc (st_project st) = Ok (m, sk)"
  shows "\<exists>c st'. take_checkpoint sc fmt now label st = Ok (c, st') \<and> store_ok sc st' \<and>
    c_id c \<notin> set (identifiers st) \<and> set (identifiers st') = insert (c_id c) (set (identifiers st)) \<and>
    head st' = Some (c_id c) \<and> resolve st' (c_id c) = Ok (c_id c) \<and>
    stored_manifest st' (c_id c) = Ok m \<and> has_objects st' m \<and>
    (\<forall>i\<in>set (identifiers st). stored_manifest st' i = stored_manifest st i) \<and>
    map_of (st_objects st) \<subseteq>\<^sub>m map_of (st_objects st')"
  using take_checkpoint_spec [OF assms, of fmt now label] by blast

theorem take_adds_checkpoint_witness:
  "\<exists>c st'. take_checkpoint example_scanner (\<lambda>_. ''now'') (1::nat) ''first'' example_store = Ok (c, st') \<and>
     stored_manifest st' (c_id c) = Ok example_scan"
  using take_adds_checkpoint [of example_scanner example_store example_scan "[]" "\<lambda>_. ''now''" "1::nat" "''first''"]
    example_store_ok example_numbers example_sha_hex example_tidy example_scan by auto

text \<open>C22. \<open>Prune\<close> always returns on a well-formed store. It removes an object exactly when no
  manifest of any checkpoint names its digest, and changes no checkpoint: everything that could be
  restored before can be restored after.\<close>

theorem prune_keeps_referenced:
  assumes "store_ok sc st"
  shows "\<exists>n b st'. prune st = Ok (n, b, st') \<and> store_ok sc st' \<and> identifiers st' = identifiers st \<and>
    stored_manifest st' = stored_manifest st \<and>
    (\<forall>k. map_of (st_objects st') k = (if \<exists>i m e. i \<in> set (identifiers st) \<and> stored_manifest st i = Ok m \<and>
       e \<in> set m \<and> e_digest e \<noteq> [] \<and> fst k \<noteq> [] \<and> fst k @ snd k = e_digest e then map_of (st_objects st) k else None))"
  using prune_spec [OF assms] by blast

theorem prune_keeps_referenced_witness:
  "\<exists>n b st'. prune example_store = Ok (n, b, st') \<and> store_ok example_scanner st'"
  using prune_keeps_referenced [OF example_store_ok] by blast

text \<open>\<open>Remove\<close> takes away one checkpoint and no other: the store stays well formed, the other
  manifests and all objects are as before, and the current checkpoint is cleared when it was that one.\<close>

theorem remove_only_that:
  assumes "store_ok sc st" "remove_checkpoint wanted st = Ok st'"
  shows "\<exists>i. resolve st wanted = Ok i \<and> store_ok sc st' \<and> set (identifiers st') = set (identifiers st) - {i} \<and>
    (\<forall>j\<in>set (identifiers st'). stored_manifest st' j = stored_manifest st j) \<and>
    st_objects st' = st_objects st \<and> head st' = (if head st = Some i then None else head st)"
  by (rule remove_checkpoint_spec [OF assms]) blast

theorem remove_only_that_witness:
  "\<exists>st'. remove_checkpoint ''1'' (snd example_taken) = Ok st' \<and> head st' = None \<and> store_ok example_scanner st'"
proof -
  have "\<exists>c st'. take_checkpoint example_scanner (\<lambda>_. ''now'') (1::nat) ''first'' example_store = Ok (c, st') \<and> store_ok example_scanner st'"
    using take_checkpoint_spec [OF example_store_ok, of example_scan "[]" "\<lambda>_. ''now''" "1::nat" "''first''"]
      example_numbers example_sha_hex example_tidy(1) example_scan by (simp del: One_nat_def) blast
  then have ok: "store_ok example_scanner (snd example_taken)" unfolding example_taken by (metis sum.inject(2) snd_conv)
  have "is_ok (remove_checkpoint ''1'' (snd example_taken))" by code_simp
  then obtain st' where st': "remove_checkpoint ''1'' (snd example_taken) = Ok st'" by (auto simp: is_ok_def split: sum.splits)
  have r: "resolve (snd example_taken) ''1'' = Ok ''0001''" "head (snd example_taken) = Some ''0001''"
    by code_simp+
  show ?thesis using remove_only_that [OF ok st'] st' r by auto
qed

text \<open>C16. A restore gives back what was there when the checkpoint was taken. Take a checkpoint of a
  tree, change the project in any way, and restore it (with the automatic checkpoint before it): when
  the restore returns without an error, every path the checkpoint recorded is there again, with the
  recorded kind, link target, content and permissions, and the checkpoint is the current one.\<close>

theorem take_then_restore:
  assumes "store_ok sc st" "\<forall>n\<in>set (checkpoint_numbers st). n + 1 < int64_max"
    and "hex_digest (sha sc)" "inj (sha sc)" "ignores_temporaries sc"
    and "tidy (p_tree (st_project st))" "tidy (p_tree pr)"
    and "scan sc (st_project st) = Ok (m, sk)"
    and "take_checkpoint sc fmt now label st = Ok (c, st1)"
    and "restore_checkpoint sc fmt now' (c_id c) (st1\<lparr>st_project := pr\<rparr>) = (None, res, st2)"
  shows "(\<forall>p n. p \<in> e_path ` set m \<and> map_of (p_tree (st_project st)) p = Some n \<longrightarrow>
      map_of (p_tree (st_project st2)) p = Some (restored n)) \<and> head st2 = Some (c_id c)"
proof -
  have max: "\<forall>n\<in>set (checkpoint_numbers st). n < int64_max" using assms(2) by auto
  note t = take_checkpoint_spec [OF assms(1) max assms(3,6,8), of fmt now label]
  define st0 where "st0 = st1\<lparr>st_project := pr\<rparr>"
  have t1: "store_ok sc st1" "c_id c \<in> set (identifiers st1)" "resolve st1 (c_id c) = Ok (c_id c)"
    "stored_manifest st1 (c_id c) = Ok m"
    "\<forall>k\<in>set (checkpoint_numbers st1). k = 1 \<or> k \<in> set (checkpoint_numbers st) \<or> k - 1 \<in> set (checkpoint_numbers st)"
    using t assms(9) by auto
  have same: "identifiers st0 = identifiers st1" "stored_manifest st0 = stored_manifest st1" "names st0 = names st1"
    "st_objects st0 = st_objects st1" "checkpoint_numbers st0 = checkpoint_numbers st1" "resolve st0 = resolve st1"
    by (simp_all add: st0_def identifiers_def checkpoint_numbers_def stored_manifest_def names_def resolve_def fun_eq_iff)
  have ok0: "store_ok sc st0" using t1(1) unfolding store_ok_def addressed_def has_objects_def same .
  have max0: "\<forall>n\<in>set (checkpoint_numbers st0). n < int64_max"
    using t1(5) assms(2) unfolding same by (fastforce simp: int64_max_def)
  have td0: "tidy (p_tree (st_project st0))" using assms(7) by (simp add: st0_def)
  note w = scan_walked [OF assms(8)]
  have r: "(\<forall>e\<in>set m. \<exists>content. map_of (p_tree (st_project st2)) (e_path e) = Some (node_of e content) \<and>
      (e_kind e \<noteq> KindDirectory \<longrightarrow> sha sc content = e_digest e)) \<and> head st2 = Some (c_id c)"
    using t1(2-4) assms(10) w scan_paths [OF assms(8,6)]
    by (intro restore_checkpoint_tree [OF ok0 max0 assms(3) td0 assms(5) _ _ _ _ _ assms(8)])
      (auto simp: same simp flip: st0_def)
  have "map_of (p_tree (st_project st2)) (e_path e) = Some (restored n)"
    if "e \<in> set m" "map_of (p_tree (st_project st)) (e_path e) = Some n" for e n
    using r w that restored_node [OF _ that(2) _ assms(4)] by metis
  then show ?thesis using r by auto
qed

theorem take_then_restore_witness:
  "map_of (p_tree (st_project (snd (snd example_restored)))) ''src/a.go'' = Some (NFile 420 ''x'')"
proof -
  obtain c st1 where t: "example_taken = (c, st1)" by (metis surj_pair)
  obtain res st2 where r: "example_restored = (None, res, st2)"
    using example_restored by (metis prod.collapse)
  have tk: "take_checkpoint example_scanner (\<lambda>_. ''now'') 1 ''first'' example_store = Ok (c, st1)"
    using example_taken t by simp
  have rs: "restore_checkpoint example_scanner (\<lambda>_. ''now'') (2::nat) (c_id c) (st1\<lparr>st_project := changed_project\<rparr>) = (None, res, st2)"
    using r unfolding example_restored_def t fst_conv snd_conv .
  have "\<forall>n\<in>set (checkpoint_numbers example_store). n + 1 < int64_max" by (simp add: example_numbers)
  note th = take_then_restore [OF example_store_ok this _ _ example_ignores _ _ _ tk rs, of example_scan "[]"]
  have "''src/a.go'' \<in> e_path ` set example_scan" by (simp add: example_scan_def)
  moreover have "map_of (p_tree example_project) ''src/a.go'' = Some (NFile 420 ''x'')" by (simp add: example_project_def)
  moreover have "restored (NFile 420 ''x'') = NFile 420 ''x''" by code_simp
  ultimately show ?thesis
    using th example_sha_hex example_sha_inj example_tidy example_scan r by (metis example_scanner_sha example_store_project snd_conv)
qed

end
