(* ===== verification/Checkpoint_Text.thy ===== *)
theory Checkpoint_Text
  imports Go_Prelude
begin

text \<open>
  \<open>IsText\<close> of \<open>internal/checkpoint/checkpoint.go\<close>, with \<open>utf8.Valid\<close>, \<open>utf8.FullRune\<close> and
  \<open>utf8.RuneStart\<close> as the standard library defines them. A string is valid when it is a
  concatenation of well-formed runes; the main lemma is that cutting such a string anywhere
  leaves a text.
\<close>

section \<open>UTF-8\<close>

abbreviation byte :: "char \<Rightarrow> nat" where "byte c \<equiv> of_char c"

text \<open>The length a first byte announces; zero for a byte that cannot start a rune.\<close>

definition utf8_len :: "char \<Rightarrow> nat" where
  "utf8_len c =
     (if byte c < 0x80 then 1
      else if 0xC2 \<le> byte c \<and> byte c \<le> 0xDF then 2
      else if 0xE0 \<le> byte c \<and> byte c \<le> 0xEF then 3
      else if 0xF0 \<le> byte c \<and> byte c \<le> 0xF4 then 4 else 0)"

text \<open>The range of the second byte, which excludes overlong forms and surrogates.\<close>

definition second_ok :: "char \<Rightarrow> char \<Rightarrow> bool" where
  "second_ok c d \<longleftrightarrow>
     (if byte c = 0xE0 then 0xA0 else if byte c = 0xF0 then 0x90 else 0x80) \<le> byte d \<and>
     byte d \<le> (if byte c = 0xED then 0x9F else if byte c = 0xF4 then 0x8F else 0xBF)"

definition continuation :: "char \<Rightarrow> bool" where
  "continuation c \<longleftrightarrow> 0x80 \<le> byte c \<and> byte c \<le> 0xBF"

definition rune_start :: "char \<Rightarrow> bool" where
  "rune_start c \<longleftrightarrow> \<not> continuation c"

fun rune_tail :: "char \<Rightarrow> string \<Rightarrow> bool" where
  "rune_tail c [] = True"
| "rune_tail c (d # ds) \<longleftrightarrow> second_ok c d \<and> list_all continuation ds"

function valid_utf8 :: "string \<Rightarrow> bool" where
  "valid_utf8 [] = True"
| "valid_utf8 (c # s) =
     (0 < utf8_len c \<and> utf8_len c \<le> length (c # s) \<and> rune_tail c (take (utf8_len c - 1) s) \<and>
      valid_utf8 (drop (utf8_len c - 1) s))"
  by pat_completeness auto
termination
  by (relation "measure length") auto

declare valid_utf8.simps(2) [simp del]

text \<open>\<open>utf8.FullRune\<close>: an invalid encoding is a full rune, since it decodes to an error.\<close>

definition full_rune :: "string \<Rightarrow> bool" where
  "full_rune p =
     (case p of [] \<Rightarrow> False
      | c # ds \<Rightarrow>
          utf8_len c \<le> length p \<or>
          (case ds of [] \<Rightarrow> False
           | d # ds' \<Rightarrow> \<not> second_ok c d \<or> (case ds' of [] \<Rightarrow> False | e # _ \<Rightarrow> \<not> continuation e)))"

section \<open>IsText\<close>

definition sniff_bytes :: nat where "sniff_bytes = 8192"

text \<open>The loop over \<open>back\<close>: at most three bytes from the end, to the first start of a rune.\<close>

fun trim_rune :: "nat \<Rightarrow> nat \<Rightarrow> string \<Rightarrow> string" where
  "trim_rune 0 back data = data"
| "trim_rune (Suc left) back data =
     (if rune_start (data ! (length data - back))
      then (if full_rune (drop (length data - back) data) then data else take (length data - back) data)
      else trim_rune left (back + 1) data)"

definition is_text :: "string \<Rightarrow> bool" where
  "is_text data =
     (let probe = (if sniff_bytes < length data then take sniff_bytes data else data)
      in if CHR 0x00 \<in> set probe then False
         else valid_utf8 (trim_rune (min 3 (length data)) 1 data))"

section \<open>Runes\<close>

definition rune :: "string \<Rightarrow> bool" where
  "rune r \<longleftrightarrow> r \<noteq> [] \<and> 0 < utf8_len (hd r) \<and> length r = utf8_len (hd r) \<and> rune_tail (hd r) (tl r)"

lemma utf8_len_le: "utf8_len c \<le> 4"
  by (simp add: utf8_len_def)

lemma second_continuation: "second_ok c d \<Longrightarrow> continuation d"
  by (auto simp: second_ok_def continuation_def split: if_splits)

lemma rune_tail_continuation: "rune_tail c ds \<Longrightarrow> list_all continuation ds"
  by (cases ds) (auto dest: second_continuation)

lemma rune_tail_take: "rune_tail c ds \<Longrightarrow> rune_tail c (take n ds)"
  by (cases ds; cases n) (auto simp: list_all_iff dest: in_set_takeD)

lemma len_start: "0 < utf8_len c \<Longrightarrow> rune_start c"
  by (auto simp: utf8_len_def rune_start_def continuation_def split: if_splits)

lemma valid_rune: "rune r \<Longrightarrow> valid_utf8 (r @ s) \<longleftrightarrow> valid_utf8 s"
  by (cases r) (auto simp: rune_def valid_utf8.simps(2))

lemma valid_runes: "list_all rune rs \<Longrightarrow> valid_utf8 (concat rs)"
  by (induction rs) (auto simp: valid_rune)

lemma valid_split: "valid_utf8 s \<Longrightarrow> \<exists>rs. list_all rune rs \<and> s = concat rs"
proof (induction s rule: valid_utf8.induct)
  case 1
  then show ?case by (intro exI [of _ "[]"]) simp
next
  case (2 c s)
  let ?n = "utf8_len c - 1"
  have v: "0 < utf8_len c" "utf8_len c \<le> Suc (length s)" "rune_tail c (take ?n s)" "valid_utf8 (drop ?n s)"
    using 2(2) by (simp_all add: valid_utf8.simps(2))
  then obtain rs where rs: "list_all rune rs" "drop ?n s = concat rs" using 2(1) by blast
  have "rune (c # take ?n s)" using v by (auto simp: rune_def)
  moreover have "c # s = (c # take ?n s) @ concat rs" by (simp flip: rs(2))
  ultimately show ?case using rs(1) by (intro exI [of _ "(c # take ?n s) # rs"]) simp
qed

lemma take_concat:
  "\<exists>k r. take n (concat rs) = concat (take k rs) @ r \<and> (r = [] \<or> (k < length rs \<and> (\<exists>m. 0 < m \<and> m < length (rs ! k) \<and> r = take m (rs ! k))))"
proof (induction rs arbitrary: n)
  case Nil
  then show ?case by simp
next
  case (Cons r rs)
  show ?case
  proof (cases "length r \<le> n")
    case True
    obtain k q where k: "take (n - length r) (concat rs) = concat (take k rs) @ q"
      "q = [] \<or> (k < length rs \<and> (\<exists>m. 0 < m \<and> m < length (rs ! k) \<and> q = take m (rs ! k)))"
      using Cons.IH by blast
    then show ?thesis using True by (intro exI [of _ "Suc k"] exI [of _ q]) auto
  next
    case False
    then show ?thesis
      by (intro exI [of _ 0] exI [of _ "take n r"]) (cases n, auto intro!: exI [of _ n])
  qed
qed

text \<open>The loop finds the start of the last rune when at most three bytes end it.\<close>

lemma trim_rune_find:
  "list_all continuation ds \<Longrightarrow> rune_start c \<Longrightarrow> b \<le> length ds \<Longrightarrow> length ds < left + b \<Longrightarrow>
   trim_rune left (Suc b) (p @ c # ds) = (if full_rune (c # ds) then p @ c # ds else p)"
proof (induction left arbitrary: b)
  case 0
  then show ?case by simp
next
  case (Suc left)
  let ?data = "p @ c # ds"
  show ?case
  proof (cases "b = length ds")
    case True
    then show ?thesis using Suc.prems(2) by simp
  next
    case False
    then have lt: "b < length ds" using Suc.prems(3) by simp
    then have "length ?data - Suc b = length p + Suc (length ds - Suc b)" by simp
    then have "?data ! (length ?data - Suc b) = ds ! (length ds - Suc b)"
      by (simp only: nth_append_length_plus nth_Cons_Suc)
    then have "\<not> rune_start (?data ! (length ?data - Suc b))"
      using Suc.prems(1) lt by (simp add: rune_start_def list_all_length)
    then show ?thesis using Suc.IH [of "Suc b"] Suc.prems lt by simp
  qed
qed

lemma trim_rune_keep:
  "\<forall>i<left. continuation (data ! (length data - (back + i))) \<Longrightarrow> trim_rune left back data = data"
proof (induction left arbitrary: "back")
  case (Suc left)
  have "continuation (data ! (length data - back))" using Suc.prems by (metis add_0_right zero_less_Suc)
  moreover have "trim_rune left (back + 1) data = data"
    using Suc.prems by (intro Suc.IH) (metis Suc_less_eq add.commute add.left_commute plus_1_eq_Suc)
  ultimately show ?case by (simp add: rune_start_def)
qed simp

lemma full_rune_prefix:
  assumes "rune (c # ds)" "m < length ds"
  shows "\<not> full_rune (c # take m ds)"
proof -
  define es where "es = take m ds"
  have t: "rune_tail c es" "list_all continuation es"
    using assms(1) rune_tail_take [of c ds m] rune_tail_continuation [of c es] by (auto simp: rune_def es_def)
  have "\<not> utf8_len c \<le> length (c # es)" using assms by (simp add: rune_def es_def)
  then have "\<not> full_rune (c # es)" using t by (auto simp: full_rune_def split: list.splits)
  then show ?thesis by (simp add: es_def)
qed

lemma full_rune_whole: "rune r \<Longrightarrow> full_rune r"
  by (cases r) (auto simp: rune_def full_rune_def)

lemma trim_valid:
  assumes rs: "list_all rune rs"
  shows "valid_utf8 (trim_rune (min 3 (length (take n (concat rs)))) 1 (take n (concat rs)))"
proof -
  obtain k r where kr: "take n (concat rs) = concat (take k rs) @ r"
    "r = [] \<or> (k < length rs \<and> (\<exists>m. 0 < m \<and> m < length (rs ! k) \<and> r = take m (rs ! k)))"
    using take_concat by blast
  have ok: "list_all rune (take k rs)" using rs by (auto simp: list_all_iff dest: in_set_takeD)
  show ?thesis
  proof (cases "r = []")
    case False
    then obtain m where m: "k < length rs" "0 < m" "m < length (rs ! k)" "r = take m (rs ! k)"
      using kr(2) by blast
    have rk: "rune (rs ! k)" using rs m(1) by (simp add: list_all_length)
    then obtain c ds where cd: "rs ! k = c # ds" by (cases "rs ! k") (auto simp: rune_def)
    have r: "r = c # take (m - 1) ds" using m cd by (cases m) auto
    have c: "rune_start c" "list_all continuation ds" "length ds < 4"
      using rk cd len_start rune_tail_continuation utf8_len_le [of c] by (auto simp: rune_def)
    have "trim_rune (min 3 (length (take n (concat rs)))) (Suc 0) (concat (take k rs) @ c # take (m - 1) ds) =
        (if full_rune (c # take (m - 1) ds) then concat (take k rs) @ c # take (m - 1) ds else concat (take k rs))"
    proof (rule trim_rune_find)
      show "list_all continuation (take (m - 1) ds)" using c(2) by (auto simp: list_all_iff dest: in_set_takeD)
      have "length (take n (concat rs)) = length (concat (take k rs)) + Suc (length (take (m - 1) ds))"
        using kr(1) r by simp
      then show "length (take (m - 1) ds) < min 3 (length (take n (concat rs))) + 0"
        using c(3) m(2,3) cd by auto
    qed (use c in auto)
    moreover have "\<not> full_rune (c # take (m - 1) ds)"
      using full_rune_prefix [of c ds "m - 1"] rk cd m by auto
    ultimately show ?thesis using kr(1) r valid_runes [OF ok] by simp
  next
    case True
    then have t: "take n (concat rs) = concat (take k rs)" using kr(1) by simp
    show ?thesis
    proof (cases "take k rs" rule: rev_cases)
      case Nil
      show ?thesis unfolding t Nil by simp
    next
      case (snoc qs q)
      have q: "rune q" "list_all rune qs" using ok snoc by auto
      then obtain c ds where cd: "q = c # ds" by (cases q) (auto simp: rune_def)
      have c: "rune_start c" "list_all continuation ds"
        using q(1) cd len_start rune_tail_continuation by (auto simp: rune_def)
      have v: "valid_utf8 (concat qs @ c # ds)" using valid_runes [OF ok] snoc cd by simp
      have e: "take n (concat rs) = concat qs @ c # ds" using t snoc cd by simp
      show ?thesis
      proof (cases "length ds < 3")
        case True
        have "trim_rune (min 3 (length (take n (concat rs)))) (Suc 0) (concat qs @ c # ds) =
            (if full_rune (c # ds) then concat qs @ c # ds else concat qs)"
          by (rule trim_rune_find) (use c True e in auto)
        then show ?thesis using full_rune_whole [OF q(1)] cd v e by simp
      next
        case False
        have "trim_rune (min 3 (length (concat qs @ c # ds))) 1 (concat qs @ c # ds) = concat qs @ c # ds"
        proof (rule trim_rune_keep, intro allI impI)
          fix i
          assume "i < min 3 (length (concat qs @ c # ds))"
          then have i: "i < 3" by simp
          then have "length (concat qs @ c # ds) - (1 + i) = length (concat qs) + Suc (length ds - (1 + i))"
            using False by simp
          then have "(concat qs @ c # ds) ! (length (concat qs @ c # ds) - (1 + i)) = ds ! (length ds - (1 + i))"
            by (simp only: nth_append_length_plus nth_Cons_Suc)
          then show "continuation ((concat qs @ c # ds) ! (length (concat qs @ c # ds) - (1 + i)))"
            using c(2) False by (simp add: list_all_length)
        qed
        then show ?thesis using v e by simp
      qed
    qed
  qed
qed

section \<open>Properties\<close>

text \<open>Every prefix of a UTF-8 text without a NUL byte is a text, wherever it is cut: also in
  the middle of a character, as the callers that pass the first bytes of a file do.\<close>

theorem is_text_prefix:
  assumes "valid_utf8 s" "CHR 0x00 \<notin> set s"
  shows "is_text (take n s)"
proof -
  obtain rs where rs: "list_all rune rs" "s = concat rs" using valid_split [OF assms(1)] by blast
  have "CHR 0x00 \<notin> set (take k (concat rs))" for k
    using assms(2) unfolding rs(2) by (meson in_set_takeD)
  then show ?thesis using trim_valid [OF rs(1), of n] rs(2) by (simp add: is_text_def Let_def)
qed

theorem is_text_prefix_witness: "is_text (take 2 [CHR ''a'', CHR 0xE2, CHR 0x82, CHR 0xAC])"
proof (rule is_text_prefix)
  show "valid_utf8 [CHR ''a'', CHR 0xE2, CHR 0x82, CHR 0xAC]" by code_simp
qed simp

end
