(* ===== verification/Textdiff_Myers.thy ===== *)
theory Textdiff_Myers
  imports Go_Prelude
begin

text \<open>
  The search of \<open>internal/checkpoint/textdiff/diff.go\<close>: \<open>diagonalBounds\<close>, \<open>reachable\<close>,
  \<open>aligner.split\<close> and \<open>aligner.align\<close>, the linear-space algorithm of Myers with a step limit.

  Array reads and writes that Go checks are options: \<open>None\<close> is the panic. The scratch arrays
  \<open>forward\<close> and \<open>reverse\<close> of the \<open>aligner\<close> are cleared at the start of every \<open>split\<close>, so
  the model makes them fresh there and keeps only their capacity. The lemmas show that no
  access is out of range, that \<open>split\<close> always returns a point strictly inside its rectangle
  (so the recursion of \<open>align\<close> ends, which is its termination proof), and that the runs
  \<open>align\<close> collects are increasing and match.
\<close>

section \<open>Checked arrays\<close>

definition aget :: "'a list \<Rightarrow> int \<Rightarrow> 'a option" where
  "aget xs i = (if 0 \<le> i \<and> i < int (length xs) then Some (xs ! nat i) else None)"

definition aput :: "'a list \<Rightarrow> int \<Rightarrow> 'a \<Rightarrow> 'a list option" where
  "aput xs i v = (if 0 \<le> i \<and> i < int (length xs) then Some (xs[nat i := v]) else None)"

section \<open>The search\<close>

definition diagonal_bounds :: "int \<Rightarrow> int \<Rightarrow> int \<Rightarrow> int \<times> int" where
  "diagonal_bounds step n m =
     (let lowest = max (- step) (- m); highest = min step n in
      (if odd (lowest + step) then lowest + 1 else lowest,
       if odd (highest + step) then highest - 1 else highest))"

definition reachable :: "int list \<Rightarrow> int \<Rightarrow> int \<Rightarrow> int \<Rightarrow> int \<Rightarrow> int option" where
  "reachable paths offset k n m =
     (case aget paths (offset + k - 1) of None \<Rightarrow> None
      | Some lower \<Rightarrow> (let x = (if 0 \<le> lower \<and> lower < n then lower + 1 else - 1) in
          case aget paths (offset + k + 1) of None \<Rightarrow> None
          | Some upper \<Rightarrow> Some (if 0 \<le> upper \<and> upper - (k + 1) < m \<and> x < upper then upper else x)))"

text \<open>The two diagonal loops: forward from the low corner, backward from the high corner.\<close>

function snake_forward :: "'a list \<Rightarrow> 'a list \<Rightarrow> int \<Rightarrow> int \<Rightarrow> (int \<times> int) option" where
  "snake_forward a b x y =
     (if x < int (length a) \<and> y < int (length b)
      then (case aget a x of None \<Rightarrow> None
            | Some u \<Rightarrow> (case aget b y of None \<Rightarrow> None
                | Some v \<Rightarrow> if u = v then snake_forward a b (x + 1) (y + 1) else Some (x, y)))
      else Some (x, y))"
  by pat_completeness auto
termination
  by (relation "measure (\<lambda>(a, b, x, y). nat (int (length a) - x))") auto

function snake_backward :: "'a list \<Rightarrow> 'a list \<Rightarrow> int \<Rightarrow> int \<Rightarrow> (int \<times> int) option" where
  "snake_backward a b x y =
     (if x < int (length a) \<and> y < int (length b)
      then (case aget a (int (length a) - 1 - x) of None \<Rightarrow> None
            | Some u \<Rightarrow> (case aget b (int (length b) - 1 - y) of None \<Rightarrow> None
                | Some v \<Rightarrow> if u = v then snake_backward a b (x + 1) (y + 1) else Some (x, y)))
      else Some (x, y))"
  by pat_completeness auto
termination
  by (relation "measure (\<lambda>(a, b, x, y). nat (int (length a) - x))") auto

declare snake_forward.simps [simp del] snake_backward.simps [simp del]

text \<open>A pass ends with the new state or with the split point that \<open>split\<close> returns.\<close>

datatype 's outcome = Next 's | Return int int

text \<open>
  The forward loop over the diagonals of one step. Its state is the array and the furthest
  point so far. The coordinates are relative to the rectangle.
\<close>

function forward_pass ::
  "'a list \<Rightarrow> 'a list \<Rightarrow> int \<Rightarrow> int list \<Rightarrow> int \<Rightarrow> int \<Rightarrow> int list \<Rightarrow> int \<Rightarrow> int \<Rightarrow>
   (int list \<times> int \<times> int) outcome option" where
  "forward_pass a b offset reverse highest k forward bestX bestY =
     (if highest < k then Some (Next (forward, bestX, bestY))
      else let n = int (length a); m = int (length b); delta = n - m in
        case reachable forward offset k n m of None \<Rightarrow> None
        | Some x \<Rightarrow>
          (case aput forward (offset + k) x of None \<Rightarrow> None
           | Some forward1 \<Rightarrow>
             if x < 0 then forward_pass a b offset reverse highest (k + 2) forward1 bestX bestY
             else (case snake_forward a b x (x - k) of None \<Rightarrow> None
               | Some (x', y') \<Rightarrow>
                 (case aput forward1 (offset + k) x' of None \<Rightarrow> None
                  | Some forward2 \<Rightarrow>
                    let mirror = offset + delta - k;
                        overlap = (odd delta \<and> 0 \<le> mirror \<and> mirror < int (length reverse) \<and>
                          0 \<le> reverse ! nat mirror \<and> n \<le> x' + reverse ! nat mirror)
                    in if overlap then Some (Return x' y')
                       else if bestX + bestY < x' + y'
                       then forward_pass a b offset reverse highest (k + 2) forward2 x' y'
                       else forward_pass a b offset reverse highest (k + 2) forward2 bestX bestY))))"
  by pat_completeness auto
termination
  by (relation "measure (\<lambda>(a, b, offset, reverse, highest, k, _). nat (highest + 1 - k))") auto

text \<open>The backward loop of one step. On an overlap it returns the forward point.\<close>

function backward_pass ::
  "'a list \<Rightarrow> 'a list \<Rightarrow> int \<Rightarrow> int list \<Rightarrow> int \<Rightarrow> int \<Rightarrow> int list \<Rightarrow> int list outcome option" where
  "backward_pass a b offset forward highest k reverse =
     (if highest < k then Some (Next reverse)
      else let n = int (length a); m = int (length b); delta = n - m in
        case reachable reverse offset k n m of None \<Rightarrow> None
        | Some x \<Rightarrow>
          (case aput reverse (offset + k) x of None \<Rightarrow> None
           | Some reverse1 \<Rightarrow>
             if x < 0 then backward_pass a b offset forward highest (k + 2) reverse1
             else (case snake_backward a b x (x - k) of None \<Rightarrow> None
               | Some (x', y') \<Rightarrow>
                 (case aput reverse1 (offset + k) x' of None \<Rightarrow> None
                  | Some reverse2 \<Rightarrow>
                    let mirror = offset + delta - k;
                        overlap = (even delta \<and> 0 \<le> mirror \<and> mirror < int (length forward) \<and>
                          0 \<le> forward ! nat mirror \<and> n \<le> forward ! nat mirror + x')
                    in if overlap
                       then Some (Return (forward ! nat mirror) (forward ! nat mirror - (delta - k)))
                       else backward_pass a b offset forward highest (k + 2) reverse2))))"
  by pat_completeness auto
termination
  by (relation "measure (\<lambda>(a, b, offset, forward, highest, k, _). nat (highest + 1 - k))") auto

declare forward_pass.simps [simp del] backward_pass.simps [simp del]

text \<open>The integer square root, rounded down: \<open>int(math.Sqrt(float64(x)))\<close>.\<close>

fun isqrt :: "nat \<Rightarrow> nat" where
  "isqrt 0 = 0"
| "isqrt (Suc n) = (let r = isqrt n in if (r + 1) * (r + 1) \<le> Suc n then r + 1 else r)"

definition step_limit :: "nat \<Rightarrow> int" where
  "step_limit len = max 1024 (4 * int (isqrt len))"

text \<open>The loop over the steps, from \<open>step\<close> on.\<close>

function split_loop ::
  "'a list \<Rightarrow> 'a list \<Rightarrow> int \<Rightarrow> int \<Rightarrow> int \<Rightarrow> int \<Rightarrow> int list \<Rightarrow> int list \<Rightarrow> int \<Rightarrow> int \<Rightarrow>
   (int \<times> int) option" where
  "split_loop a b offset maxSteps limit step forward reverse bestX bestY =
     (if maxSteps < step \<or> limit < step then Some (bestX, bestY)
      else case diagonal_bounds step (int (length a)) (int (length b)) of (lowest, highest) \<Rightarrow>
        (case forward_pass a b offset reverse highest lowest forward bestX bestY of
           None \<Rightarrow> None
         | Some (Return x y) \<Rightarrow> Some (x, y)
         | Some (Next (forward', bestX', bestY')) \<Rightarrow>
           (case backward_pass a b offset forward' highest lowest reverse of
              None \<Rightarrow> None
            | Some (Return x y) \<Rightarrow> Some (x, y)
            | Some (Next reverse') \<Rightarrow>
                split_loop a b offset maxSteps limit (step + 1) forward' reverse' bestX' bestY')))"
  by pat_completeness auto
termination
  by (relation "measure (\<lambda>(a, b, offset, maxSteps, limit, step, _). nat (maxSteps + 1 - step))") auto

declare split_loop.simps [simp del]

text \<open>
  \<open>split\<close> on the two slices. \<open>capacity\<close> is the length of the scratch arrays: taking a longer
  prefix of them panics.
\<close>

definition split_point :: "nat \<Rightarrow> 'a list \<Rightarrow> 'a list \<Rightarrow> (int \<times> int) option" where
  "split_point capacity a b =
     (let maxSteps = (length a + length b + 1) div 2;
          offset = int maxSteps + 1;
          blank = replicate (2 * maxSteps + 3) (- 1)
      in if capacity < 2 * maxSteps + 3 then None
         else case aput blank offset 0 of None \<Rightarrow> None
         | Some start \<Rightarrow>
             split_loop a b offset (int maxSteps) (step_limit (length a + length b)) 1 start start 0 0)"


section \<open>Edit paths\<close>

text \<open>
  \<open>edits a b s x y\<close>: exactly \<open>s\<close> deletions and insertions, and any number of common lines, turn
  the first \<open>x\<close> elements of \<open>a\<close> into the first \<open>y\<close> elements of \<open>b\<close>. It is the specification
  the arrays of the search are read against.
\<close>

inductive edits :: "'a list \<Rightarrow> 'a list \<Rightarrow> nat \<Rightarrow> nat \<Rightarrow> nat \<Rightarrow> bool" for a b where
  start: "edits a b 0 0 0"
| common: "edits a b s x y \<Longrightarrow> x < length a \<Longrightarrow> y < length b \<Longrightarrow> a ! x = b ! y \<Longrightarrow>
    edits a b s (Suc x) (Suc y)"
| delete: "edits a b s x y \<Longrightarrow> x < length a \<Longrightarrow> edits a b (Suc s) (Suc x) y"
| insert: "edits a b s x y \<Longrightarrow> y < length b \<Longrightarrow> edits a b (Suc s) x (Suc y)"

definition shortest :: "'a list \<Rightarrow> 'a list \<Rightarrow> nat \<Rightarrow> bool" where
  "shortest a b D \<longleftrightarrow> edits a b D (length a) (length b) \<and>
     (\<forall>s. edits a b s (length a) (length b) \<longrightarrow> D \<le> s)"

lemma edits_bounds:
  "edits a b s x y \<Longrightarrow> x \<le> length a \<and> y \<le> length b \<and> s \<le> x + y \<and>
     x \<le> y + s \<and> y \<le> x + s \<and> even (x + y + s)"
  by (induction rule: edits.induct) auto

lemma edits_slide:
  "edits a b s x y \<Longrightarrow> x + j \<le> length a \<Longrightarrow> y + j \<le> length b \<Longrightarrow>
   \<forall>i<j. a ! (x + i) = b ! (y + i) \<Longrightarrow> edits a b s (x + j) (y + j)"
  by (induction j) (auto intro: edits.common)

lemma edits_deletes: "edits a b s x y \<Longrightarrow> x + j \<le> length a \<Longrightarrow> edits a b (s + j) (x + j) y"
  by (induction j) (auto intro: edits.delete)

lemma edits_inserts: "edits a b s x y \<Longrightarrow> y + j \<le> length b \<Longrightarrow> edits a b (s + j) x (y + j)"
  by (induction j) (auto intro: edits.insert)

lemma edits_all: "edits a b (length a + length b) (length a) (length b)"
  using edits_inserts [OF edits_deletes [OF edits.start, of "length a" a b], of "length b"] by simp

lemma shortest_exists: "\<exists>D. shortest a b D"
  unfolding shortest_def using edits_all [of a b]
  by (intro exI [of _ "LEAST s. edits a b s (length a) (length b)"]) (auto intro: LeastI Least_le)

lemma shortest_le: "shortest a b D \<Longrightarrow> D \<le> length a + length b"
  using edits_all by (auto simp: shortest_def)

lemma shortest_parity: "shortest a b D \<Longrightarrow> even (length a + length b + D)"
  by (auto simp: shortest_def dest: edits_bounds)

text \<open>The last edit of a path, and the common lines after it.\<close>

lemma edits_last:
  assumes "edits a b t x y"
  shows "(case t of 0 \<Rightarrow> x = y \<and> (\<forall>i<x. a ! i = b ! i)
    | Suc s \<Rightarrow> \<exists>x0 y0 j. edits a b s x0 y0 \<and>
        ((x0 < length a \<and> x = Suc x0 + j \<and> y = y0 + j \<and> (\<forall>i<j. a ! (Suc x0 + i) = b ! (y0 + i))) \<or>
         (y0 < length b \<and> x = x0 + j \<and> y = Suc y0 + j \<and> (\<forall>i<j. a ! (x0 + i) = b ! (Suc y0 + i)))))"
  using assms
proof (induction rule: edits.induct)
  case start
  then show ?case by simp
next
  case (common s x y)
  show ?case
  proof (cases s)
    case 0
    then show ?thesis using common by (auto simp: less_Suc_eq)
  next
    case (Suc s')
    with common.IH obtain x0 y0 j where e: "edits a b s' x0 y0" and
      c: "(x0 < length a \<and> x = Suc x0 + j \<and> y = y0 + j \<and> (\<forall>i<j. a ! (Suc x0 + i) = b ! (y0 + i))) \<or>
         (y0 < length b \<and> x = x0 + j \<and> y = Suc y0 + j \<and> (\<forall>i<j. a ! (x0 + i) = b ! (Suc y0 + i)))"
      by auto
    have "(x0 < length a \<and> Suc x = Suc x0 + Suc j \<and> Suc y = y0 + Suc j \<and>
             (\<forall>i<Suc j. a ! (Suc x0 + i) = b ! (y0 + i))) \<or>
         (y0 < length b \<and> Suc x = x0 + Suc j \<and> Suc y = Suc y0 + Suc j \<and>
             (\<forall>i<Suc j. a ! (x0 + i) = b ! (Suc y0 + i)))"
      using c common.hyps by (auto simp: less_Suc_eq)
    then show ?thesis using e Suc by (simp only: nat.case) blast
  qed
next
  case (delete s x y)
  then show ?case by (simp only: nat.case) (intro exI [of _ x] exI [of _ y] exI [of _ 0], simp)
next
  case (insert s x y)
  then show ?case by (simp only: nat.case) (intro exI [of _ x] exI [of _ y] exI [of _ 0], simp)
qed

lemmas edits_zero = edits_last [where t = 0, simplified]
lemmas edits_Suc = edits_last [where t = "Suc s" for s, simplified]

text \<open>
  \<open>rest a b t x y\<close>: \<open>t\<close> more edits reach the end. It is a path of the reversed lists, which is
  how the backward search walks.
\<close>

abbreviation rest :: "'a list \<Rightarrow> 'a list \<Rightarrow> nat \<Rightarrow> nat \<Rightarrow> nat \<Rightarrow> bool" where
  "rest a b t x y \<equiv> edits (rev a) (rev b) t (length a - x) (length b - y)"

lemma rest_common:
  assumes "rest a b t (Suc x) (Suc y)" "x < length a" "y < length b" "a ! x = b ! y"
  shows "rest a b t x y"
  using edits.common [OF assms(1)] assms(2-4) by (simp add: rev_nth Suc_diff_Suc)

lemma rest_delete: "rest a b t (Suc x) y \<Longrightarrow> x < length a \<Longrightarrow> rest a b (Suc t) x y"
  using edits.delete [of "rev a" "rev b" t "length a - Suc x" "length b - y"] by (simp add: Suc_diff_Suc)

lemma rest_insert: "rest a b t x (Suc y) \<Longrightarrow> y < length b \<Longrightarrow> rest a b (Suc t) x y"
  using edits.insert [of "rev a" "rev b" t "length a - x" "length b - Suc y"] by (simp add: Suc_diff_Suc)

lemma rest_slide:
  "rest a b t (x + j) (y + j) \<Longrightarrow> x + j \<le> length a \<Longrightarrow> y + j \<le> length b \<Longrightarrow>
   \<forall>i<j. a ! (x + i) = b ! (y + i) \<Longrightarrow> rest a b t x y"
proof (induction j)
  case (Suc j)
  then show ?case using rest_common [of a b t "x + j" "y + j"] by simp
qed simp

lemma rest_bounds:
  assumes "rest a b t x y" "x \<le> length a" "y \<le> length b"
  shows "length a + y \<le> length b + x + t" "length b + x \<le> length a + y + t"
  using edits_bounds [OF assms(1)] assms(2,3) by auto

text \<open>A path can be cut after any number of its edits.\<close>

lemma edits_cut:
  "edits a b (s + d) x y \<Longrightarrow> rest a b t x y \<Longrightarrow>
   \<exists>x' y'. edits a b s x' y' \<and> rest a b (t + d) x' y'"
proof (induction d arbitrary: x y t)
  case 0
  then show ?case by auto
next
  case (Suc d)
  obtain x0 y0 j where e: "edits a b (s + d) x0 y0" and
    c: "(x0 < length a \<and> x = Suc x0 + j \<and> y = y0 + j \<and> (\<forall>i<j. a ! (Suc x0 + i) = b ! (y0 + i))) \<or>
        (y0 < length b \<and> x = x0 + j \<and> y = Suc y0 + j \<and> (\<forall>i<j. a ! (x0 + i) = b ! (Suc y0 + i)))"
    using edits_Suc [of a b "s + d" x y] Suc.prems(1) by auto
  have bd: "x \<le> length a" "y \<le> length b" using edits_bounds [OF Suc.prems(1)] by auto
  have "rest a b (Suc t) x0 y0"
    using c
  proof
    assume d: "x0 < length a \<and> x = Suc x0 + j \<and> y = y0 + j \<and> (\<forall>i<j. a ! (Suc x0 + i) = b ! (y0 + i))"
    then have "rest a b t (Suc x0) y0" using Suc.prems(2) bd rest_slide [of a b t "Suc x0" j y0] by simp
    then show ?thesis using d rest_delete by blast
  next
    assume d: "y0 < length b \<and> x = x0 + j \<and> y = Suc y0 + j \<and> (\<forall>i<j. a ! (x0 + i) = b ! (Suc y0 + i))"
    then have "rest a b t x0 (Suc y0)" using Suc.prems(2) bd rest_slide [of a b t x0 j "Suc y0"] by simp
    then show ?thesis using d rest_insert by blast
  qed
  then show ?case using Suc.IH [OF e, of "Suc t"] by simp
qed

lemma shortest_cut:
  assumes "shortest a b D" "D = s + t"
  shows "\<exists>x y. edits a b s x y \<and> rest a b t x y"
proof -
  have "rest a b 0 (length a) (length b)" by (simp add: edits.start)
  then show ?thesis using edits_cut [of a b s t "length a" "length b" 0] assms
    by (auto simp: shortest_def)
qed

text \<open>A path of the lists, walked backward, is a path of the reversed lists.\<close>

lemma edits_rev: "edits a b s (length a) (length b) \<Longrightarrow> edits (rev a) (rev b) s (length a) (length b)"
proof -
  assume e: "edits a b s (length a) (length b)"
  have "rest a b 0 (length a) (length b)" by (simp add: edits.start)
  then obtain x y where xy: "edits a b 0 x y" "rest a b s x y"
    using edits_cut [of a b 0 s "length a" "length b" 0] e by auto
  have yx: "y = x" and m: "\<forall>i<x. a ! i = b ! i" using edits_zero [OF xy(1)] by auto
  have "rest a b s (0 + x) (0 + x)" using xy(2) yx by simp
  then have "rest a b s 0 0"
    using rest_slide m edits_bounds [OF xy(1)] yx by (metis add_0)
  then show ?thesis by simp
qed

lemma shortest_rev: "shortest a b D \<Longrightarrow> shortest (rev a) (rev b) D"
  unfolding shortest_def using edits_rev [of a b] edits_rev [of "rev a" "rev b"] by auto


section \<open>The arrays as functions of the diagonal\<close>

text \<open>
  An array of length \<open>2 * M + 3\<close> is read as a function of the diagonal \<open>k\<close>, from
  \<open>- (M + 1)\<close> to \<open>M + 1\<close>; its value is how far along \<open>a\<close> the search got there, or \<open>- 1\<close>.
\<close>

definition diag :: "nat \<Rightarrow> int list \<Rightarrow> int \<Rightarrow> int" where
  "diag M arr k = (if - (int M + 1) \<le> k \<and> k \<le> int M + 1 then arr ! nat (int M + 1 + k) else - 1)"

definition reach :: "int \<Rightarrow> int \<Rightarrow> (int \<Rightarrow> int) \<Rightarrow> int \<Rightarrow> int" where
  "reach n m F k =
     (let lower = F (k - 1); x = (if 0 \<le> lower \<and> lower < n then lower + 1 else - 1);
          upper = F (k + 1)
      in if 0 \<le> upper \<and> upper - (k + 1) < m \<and> x < upper then upper else x)"

lemma reachable_diag:
  assumes "length arr = 2 * M + 3" "- int M \<le> k" "k \<le> int M"
  shows "reachable arr (int M + 1) k n m = Some (reach n m (diag M arr) k)"
  using assms by (simp add: reachable_def reach_def aget_def diag_def Let_def add.assoc add_diff_eq)

lemma aput_diag:
  assumes "length arr = 2 * M + 3" "- int M \<le> k" "k \<le> int M"
  shows "\<exists>arr'. aput arr (int M + 1 + k) v = Some arr' \<and> length arr' = 2 * M + 3 \<and>
    diag M arr' = (diag M arr)(k := v)"
  using assms by (auto simp: aput_def diag_def fun_eq_iff nth_list_update)

definition slides :: "'a list \<Rightarrow> 'a list \<Rightarrow> int \<Rightarrow> int \<Rightarrow> nat \<Rightarrow> bool" where
  "slides a b x y j \<longleftrightarrow>
     x + int j \<le> int (length a) \<and> y + int j \<le> int (length b) \<and>
     (\<forall>i<j. a ! (nat x + i) = b ! (nat y + i)) \<and>
     \<not> (x + int j < int (length a) \<and> y + int j < int (length b) \<and>
        a ! (nat x + j) = b ! (nat y + j))"

lemma snake_forward_slides:
  "0 \<le> x \<Longrightarrow> 0 \<le> y \<Longrightarrow> x \<le> int (length a) \<Longrightarrow> y \<le> int (length b) \<Longrightarrow>
   \<exists>j. snake_forward a b x y = Some (x + int j, y + int j) \<and> slides a b x y j"
proof (induction a b x y rule: snake_forward.induct)
  case (1 a b x y)
  show ?case
  proof (cases "x < int (length a) \<and> y < int (length b) \<and> a ! nat x = b ! nat y")
    case True
    have "\<exists>j. snake_forward a b (x + 1) (y + 1) = Some (x + 1 + int j, y + 1 + int j) \<and>
        slides a b (x + 1) (y + 1) j"
      using True "1.prems" by (intro "1.IH") (auto simp: aget_def)
    then obtain j where j: "snake_forward a b (x + 1) (y + 1) = Some (x + 1 + int j, y + 1 + int j)"
      "slides a b (x + 1) (y + 1) j" by blast
    have s: "nat (x + 1) = Suc (nat x)" "nat (y + 1) = Suc (nat y)" using "1.prems" by auto
    have "slides a b x y (Suc j)"
      using j(2) True unfolding slides_def s by (auto simp: less_Suc_eq_0_disj)
    moreover have "snake_forward a b x y = Some (x + int (Suc j), y + int (Suc j))"
      using True "1.prems" j(1) by (subst snake_forward.simps) (simp add: aget_def algebra_simps)
    ultimately show ?thesis by blast
  next
    case False
    have "snake_forward a b x y = Some (x, y)"
      using False "1.prems" by (subst snake_forward.simps) (auto simp: aget_def)
    moreover have "slides a b x y 0" using False "1.prems" by (auto simp: slides_def)
    ultimately show ?thesis by (intro exI [of _ 0]) simp
  qed
qed

lemma aget_rev: "0 \<le> x \<Longrightarrow> x < int (length a) \<Longrightarrow> aget a (int (length a) - 1 - x) = aget (rev a) x"
proof -
  assume x: "0 \<le> x" "x < int (length a)"
  then have "nat (int (length a) - 1 - x) = length a - Suc (nat x)" by auto
  then show ?thesis using x by (simp add: aget_def rev_nth)
qed

lemma snake_backward_forward:
  "0 \<le> x \<Longrightarrow> 0 \<le> y \<Longrightarrow> snake_backward a b x y = snake_forward (rev a) (rev b) x y"
proof (induction a b x y rule: snake_backward.induct)
  case (1 a b x y)
  then show ?case
    by (subst snake_backward.simps, subst snake_forward.simps)
      (auto simp: aget_rev split: option.splits)
qed

text \<open>How far a pass gets on diagonal \<open>k\<close>, from the array \<open>F\<close> of the step before.\<close>

definition furthest :: "'a list \<Rightarrow> 'a list \<Rightarrow> (int \<Rightarrow> int) \<Rightarrow> int \<Rightarrow> int" where
  "furthest a b F k =
     (let x = reach (int (length a)) (int (length b)) F k in
      if x < 0 then x
      else (case snake_forward a b x (x - k) of None \<Rightarrow> x | Some (x', y') \<Rightarrow> x'))"

text \<open>The diagonals of step \<open>s\<close>: those of its parity inside the rectangle.\<close>

definition on_step :: "int \<Rightarrow> int \<Rightarrow> int \<Rightarrow> int \<Rightarrow> bool" where
  "on_step s n m k \<longleftrightarrow> even (k + s) \<and> - s \<le> k \<and> k \<le> s \<and> - m \<le> k \<and> k \<le> n"

lemma diagonal_bounds_on_step:
  assumes "diagonal_bounds s n m = (lo, hi)"
  shows "even (lo + s)" "even (k + s) \<Longrightarrow> lo \<le> k \<and> k \<le> hi \<longleftrightarrow> on_step s n m k"
proof -
  have lo: "lo = (if odd (max (- s) (- m) + s) then max (- s) (- m) + 1 else max (- s) (- m))"
    and hi: "hi = (if odd (min s n + s) then min s n - 1 else min s n)"
    using assms by (auto simp: diagonal_bounds_def Let_def)
  show "even (lo + s)" unfolding lo by simp
  assume e: "even (k + s)"
  have "lo \<le> k \<longleftrightarrow> max (- s) (- m) \<le> k"
    unfolding lo using e by (auto simp: order_le_less)
  moreover have "k \<le> hi \<longleftrightarrow> k \<le> min s n"
    unfolding hi using e by (auto simp: order_le_less)
  ultimately show "lo \<le> k \<and> k \<le> hi \<longleftrightarrow> on_step s n m k" using e by (auto simp: on_step_def)
qed


section \<open>What the arrays mean\<close>

text \<open>
  Soundness of an array after \<open>s\<close> steps: every entry is a point of the rectangle that some path
  with \<open>s\<close> edits reaches (or \<open>s - 1\<close>, for the diagonals of the other parity).
\<close>

definition front :: "'a list \<Rightarrow> 'a list \<Rightarrow> nat \<Rightarrow> (int \<Rightarrow> int) \<Rightarrow> bool" where
  "front a b s F \<longleftrightarrow> (\<forall>k. - 1 \<le> F k \<and> (0 \<le> F k \<longrightarrow> k \<le> F k \<and>
     edits a b (if even (k + int s) then s else s - 1) (nat (F k)) (nat (F k - k))))"

lemma front_ge: "front a b s F \<Longrightarrow> - 1 \<le> F k"
  by (simp add: front_def)

lemma front_point:
  assumes "front a b s F" "0 \<le> F k"
  shows "k \<le> F k" "F k \<le> int (length a)" "F k - k \<le> int (length b)"
    "even (k + int s) \<Longrightarrow> edits a b s (nat (F k)) (nat (F k - k))"
proof -
  have e: "k \<le> F k" "edits a b (if even (k + int s) then s else s - 1) (nat (F k)) (nat (F k - k))"
    using assms by (auto simp: front_def)
  show "k \<le> F k" by (rule e)
  show "F k \<le> int (length a)" "F k - k \<le> int (length b)"
    using edits_bounds [OF e(2)] by auto
  show "even (k + int s) \<Longrightarrow> edits a b s (nat (F k)) (nat (F k - k))" using e(2) by simp
qed

lemma reach_front:
  assumes fr: "front a b s F" and par: "even (k + int (Suc s))"
    and x: "x = reach (int (length a)) (int (length b)) F k" "0 \<le> x"
  shows "k \<le> x \<and> edits a b (Suc s) (nat x) (nat (x - k))"
proof -
  consider (up) "x = F (k + 1)" "0 \<le> F (k + 1)" "F (k + 1) - (k + 1) < int (length b)"
    | (low) "x = F (k - 1) + 1" "0 \<le> F (k - 1)" "F (k - 1) < int (length a)"
    using x by (auto simp: reach_def Let_def split: if_splits)
  then show ?thesis
  proof cases
    case up
    then have "edits a b s (nat x) (nat (x - (k + 1)))" "k + 1 \<le> x"
      using front_point [OF fr up(2)] par by auto
    then have "edits a b (Suc s) (nat x) (Suc (nat (x - (k + 1))))"
      using up by (intro edits.insert) auto
    moreover have "Suc (nat (x - (k + 1))) = nat (x - k)" using \<open>k + 1 \<le> x\<close> by auto
    ultimately show ?thesis using \<open>k + 1 \<le> x\<close> by simp
  next
    case low
    then have q: "F (k - 1) = x - 1" by simp
    have "edits a b s (nat (x - 1)) (nat (x - 1 - (k - 1)))" "k - 1 \<le> x - 1"
      using front_point(1,4) [OF fr low(2)] par unfolding q by simp_all
    then have "edits a b s (nat (x - 1)) (nat (x - k))" "k - 1 \<le> x - 1" by simp_all
    then have "edits a b (Suc s) (Suc (nat (x - 1))) (nat (x - k))"
      using low by (intro edits.delete) auto
    moreover have "Suc (nat (x - 1)) = nat x" using low by auto
    ultimately show ?thesis using \<open>k - 1 \<le> x - 1\<close> by simp
  qed
qed

lemma reach_ge: "- 1 \<le> reach n m F k"
  by (auto simp: reach_def Let_def)

lemma furthest_front:
  assumes fr: "front a b s F" and par: "even (k + int (Suc s))"
    and x: "x = reach (int (length a)) (int (length b)) F k" "0 \<le> x"
  shows "snake_forward a b x (x - k) = Some (furthest a b F k, furthest a b F k - k)"
    "slides a b x (x - k) (nat (furthest a b F k - x))"
    "x \<le> furthest a b F k" "edits a b (Suc s) (nat (furthest a b F k)) (nat (furthest a b F k - k))"
proof -
  have r: "k \<le> x" "edits a b (Suc s) (nat x) (nat (x - k))" using reach_front [OF fr par x] by auto
  have bd: "x \<le> int (length a)" "x - k \<le> int (length b)" using edits_bounds [OF r(2)] x(2) r(1) by auto
  obtain j where j: "snake_forward a b x (x - k) = Some (x + int j, x - k + int j)" "slides a b x (x - k) j"
    using snake_forward_slides [of x "x - k" a b] x(2) r(1) bd by auto
  have f: "furthest a b F k = x + int j"
    using x j(1) by (auto simp: furthest_def Let_def)
  show "snake_forward a b x (x - k) = Some (furthest a b F k, furthest a b F k - k)"
    using j(1) f by simp
  show "slides a b x (x - k) (nat (furthest a b F k - x))" "x \<le> furthest a b F k" using j(2) f by auto
  have nat_sum: "nat (x + int j) = nat x + j" "nat (x + int j - k) = nat (x - k) + j" using x(2) r(1) by arith+
  have "edits a b (Suc s) (nat x + j) (nat (x - k) + j)"
    using j(2) x(2) r(1) by (intro edits_slide [OF r(2)]) (auto simp: slides_def)
  then show "edits a b (Suc s) (nat (furthest a b F k)) (nat (furthest a b F k - k))"
    unfolding f nat_sum .
qed

lemma furthest_neg: "reach (int (length a)) (int (length b)) F k < 0 \<Longrightarrow>
    furthest a b F k = reach (int (length a)) (int (length b)) F k"
  by (simp add: furthest_def Let_def)

lemma furthest_edits:
  assumes fr: "front a b s F" and par: "even (k + int (Suc s))" and nn: "0 \<le> furthest a b F k"
  shows "k \<le> furthest a b F k" "edits a b (Suc s) (nat (furthest a b F k)) (nat (furthest a b F k - k))"
proof -
  define x where "x = reach (int (length a)) (int (length b)) F k"
  have x: "0 \<le> x" using nn furthest_neg [of a b F k] unfolding x_def by linarith
  show "edits a b (Suc s) (nat (furthest a b F k)) (nat (furthest a b F k - k))"
    using furthest_front [OF fr par x_def x] by simp
  show "k \<le> furthest a b F k"
    using furthest_front(3) [OF fr par x_def x] reach_front [OF fr par x_def x] by simp
qed

text \<open>The array after the first diagonals of step \<open>Suc s\<close>, those below \<open>k\<close>.\<close>

definition stepped :: "'a list \<Rightarrow> 'a list \<Rightarrow> nat \<Rightarrow> (int \<Rightarrow> int) \<Rightarrow> int \<Rightarrow> int \<Rightarrow> int" where
  "stepped a b s F k j =
     (if on_step (int (Suc s)) (int (length a)) (int (length b)) j \<and> j < k then furthest a b F j else F j)"

definition next_front :: "'a list \<Rightarrow> 'a list \<Rightarrow> nat \<Rightarrow> (int \<Rightarrow> int) \<Rightarrow> int \<Rightarrow> int" where
  "next_front a b s F j =
     (if on_step (int (Suc s)) (int (length a)) (int (length b)) j then furthest a b F j else F j)"

lemma front_next:
  assumes fr: "front a b s F"
  shows "front a b (Suc s) (next_front a b s F)"
  unfolding front_def
proof
  fix k
  let ?G = "next_front a b s F"
  show "- 1 \<le> ?G k \<and> (0 \<le> ?G k \<longrightarrow> k \<le> ?G k \<and>
     edits a b (if even (k + int (Suc s)) then Suc s else Suc s - 1) (nat (?G k)) (nat (?G k - k)))"
  proof (cases "on_step (int (Suc s)) (int (length a)) (int (length b)) k")
    case True
    then have par: "even (k + int (Suc s))" by (simp add: on_step_def)
    have "- 1 \<le> furthest a b F k"
      using furthest_neg [of a b F k] furthest_front(3) [OF fr par refl]
        reach_ge [of "int (length a)" "int (length b)" F k] by linarith
    then show ?thesis using True par furthest_edits [OF fr par] by (simp add: next_front_def)
  next
    case False
    have "even (k + int (Suc s)) \<Longrightarrow> \<not> 0 \<le> F k"
    proof
      assume e: "even (k + int (Suc s))" and nn: "0 \<le> F k"
      have ed: "k \<le> F k" "edits a b (s - 1) (nat (F k)) (nat (F k - k))"
        using fr nn e by (auto simp: front_def split: if_splits)
      show False using edits_bounds [OF ed(2)] ed(1) nn e False by (auto simp: on_step_def)
    qed
    then show ?thesis using False fr by (auto simp: next_front_def front_def split: if_splits)
  qed
qed

text \<open>One diagonal of a pass: the reads and writes are in range and set entry \<open>k\<close>.\<close>

lemma pass_diagonal:
  assumes fr: "front a b s F" and M: "s < M"
    and arr: "length arr = 2 * M + 3" "diag M arr = stepped a b s F k"
    and on: "on_step (int (Suc s)) (int (length a)) (int (length b)) k"
  defines "x \<equiv> reach (int (length a)) (int (length b)) F k"
  obtains arr1 where
    "reachable arr (int M + 1) k (int (length a)) (int (length b)) = Some x"
    "aput arr (int M + 1 + k) x = Some arr1" "length arr1 = 2 * M + 3"
    "x < 0 \<Longrightarrow> furthest a b F k < 0 \<and> diag M arr1 = stepped a b s F (k + 2)"
    "0 \<le> x \<Longrightarrow> 0 \<le> furthest a b F k \<and>
       snake_forward a b x (x - k) = Some (furthest a b F k, furthest a b F k - k) \<and>
       (\<exists>arr2. aput arr1 (int M + 1 + k) (furthest a b F k) = Some arr2 \<and>
          length arr2 = 2 * M + 3 \<and> diag M arr2 = stepped a b s F (k + 2))"
proof -
  have xd: "x = reach (int (length a)) (int (length b)) F k" by (simp add: x_def)
  have k: "- int M \<le> k" "k \<le> int M" and par: "even (k + int (Suc s))"
    using on M by (auto simp: on_step_def)
  have "\<not> on_step (int (Suc s)) n m (k - 1)" "\<not> on_step (int (Suc s)) n m (k + 1)" for n m
    using par by (auto simp: on_step_def)
  then have rx: "reach (int (length a)) (int (length b)) (stepped a b s F k) k = x"
    by (simp add: x_def reach_def stepped_def)
  have r: "reachable arr (int M + 1) k (int (length a)) (int (length b)) = Some x"
    using reachable_diag [OF arr(1) k, of "int (length a)" "int (length b)"] arr(2) rx by simp
  obtain arr1 where a1: "aput arr (int M + 1 + k) x = Some arr1" "length arr1 = 2 * M + 3"
      "diag M arr1 = (stepped a b s F k)(k := x)"
    using aput_diag [OF arr(1) k, of x] arr(2) by auto
  have upd: "(stepped a b s F k)(k := furthest a b F k) = stepped a b s F (k + 2)"
  proof
    fix j
    have "even (j + int (Suc s)) \<Longrightarrow> j < k + 2 \<longleftrightarrow> j < k \<or> j = k"
      using par by presburger
    then have "on_step (int (Suc s)) (int (length a)) (int (length b)) j \<Longrightarrow> j < k + 2 \<longleftrightarrow> j < k \<or> j = k"
      by (simp add: on_step_def)
    then show "((stepped a b s F k)(k := furthest a b F k)) j = stepped a b s F (k + 2) j"
      using on by (auto simp: stepped_def)
  qed
  show thesis
  proof (rule that [OF r a1(1,2)])
    assume "x < 0"
    then show "furthest a b F k < 0 \<and> diag M arr1 = stepped a b s F (k + 2)"
      using furthest_neg [of a b F k] a1(3) upd unfolding x_def by simp
  next
    assume x: "0 \<le> x"
    obtain arr2 where a2: "aput arr1 (int M + 1 + k) (furthest a b F k) = Some arr2"
        "length arr2 = 2 * M + 3" "diag M arr2 = (diag M arr1)(k := furthest a b F k)"
      using aput_diag [OF a1(2) k] by metis
    then have "diag M arr2 = stepped a b s F (k + 2)" using a1(3) upd by simp
    then show "0 \<le> furthest a b F k \<and>
       snake_forward a b x (x - k) = Some (furthest a b F k, furthest a b F k - k) \<and>
       (\<exists>arr2. aput arr1 (int M + 1 + k) (furthest a b F k) = Some arr2 \<and>
          length arr2 = 2 * M + 3 \<and> diag M arr2 = stepped a b s F (k + 2))"
      using furthest_front(1,3) [OF fr par xd x] a2 x by auto
  qed
qed


section \<open>The two passes of a step\<close>

lemma stepped_start:
  assumes "diagonal_bounds (int (Suc s)) (int (length a)) (int (length b)) = (lo, hi)"
  shows "stepped a b s F lo = F"
proof
  fix j
  show "stepped a b s F lo j = F j"
    using diagonal_bounds_on_step(2) [OF assms, of j] by (auto simp: stepped_def on_step_def)
qed

lemma stepped_end:
  assumes "diagonal_bounds (int (Suc s)) (int (length a)) (int (length b)) = (lo, hi)" "hi < k"
  shows "stepped a b s F k = next_front a b s F"
proof
  fix j
  show "stepped a b s F k j = next_front a b s F j"
    using diagonal_bounds_on_step(2) [OF assms(1), of j] assms(2)
    by (auto simp: stepped_def next_front_def on_step_def)
qed

lemma mirror_diag:
  assumes "length arr = 2 * M + 3"
  shows "0 \<le> int M + 1 + d \<and> int M + 1 + d < int (length arr) \<and> 0 \<le> arr ! nat (int M + 1 + d) \<and>
      Q (arr ! nat (int M + 1 + d)) \<longleftrightarrow> 0 \<le> diag M arr d \<and> Q (diag M arr d)"
  using assms by (auto simp: diag_def)

definition forward_overlap :: "'a list \<Rightarrow> 'a list \<Rightarrow> (int \<Rightarrow> int) \<Rightarrow> int \<Rightarrow> int \<Rightarrow> bool" where
  "forward_overlap a b R x k \<longleftrightarrow> odd (int (length a) - int (length b)) \<and>
     0 \<le> R (int (length a) - int (length b) - k) \<and>
     int (length a) \<le> x + R (int (length a) - int (length b) - k)"

definition forward_done ::
  "'a list \<Rightarrow> 'a list \<Rightarrow> nat \<Rightarrow> (int \<Rightarrow> int) \<Rightarrow> (int \<Rightarrow> int) \<Rightarrow> nat \<Rightarrow> int \<Rightarrow> int \<Rightarrow> int \<Rightarrow>
   (int list \<times> int \<times> int) outcome \<Rightarrow> bool" where
  "forward_done a b s F R M k bx by out \<longleftrightarrow>
     (let on = on_step (int (Suc s)) (int (length a)) (int (length b)) in
      case out of
        Return x y \<Rightarrow> \<exists>j. on j \<and> 0 \<le> furthest a b F j \<and> x = furthest a b F j \<and> y = x - j
      | Next (arr, bx', by') \<Rightarrow>
          length arr = 2 * M + 3 \<and> diag M arr = next_front a b s F \<and>
          (\<forall>j. on j \<and> k \<le> j \<and> 0 \<le> furthest a b F j \<longrightarrow>
             \<not> forward_overlap a b R (furthest a b F j) j \<and>
             furthest a b F j + (furthest a b F j - j) \<le> bx' + by') \<and>
          bx + by \<le> bx' + by' \<and>
          (bx' = bx \<and> by' = by \<or>
           (\<exists>j. on j \<and> 0 \<le> furthest a b F j \<and> bx' = furthest a b F j \<and> by' = bx' - j)))"

lemma forward_pass_spec:
  assumes fr: "front a b s F" and M: "s < M" and rv: "length reverse = 2 * M + 3"
    and db: "diagonal_bounds (int (Suc s)) (int (length a)) (int (length b)) = (lo, hi)"
  shows "length arr = 2 * M + 3 \<Longrightarrow> diag M arr = stepped a b s F k \<Longrightarrow> lo \<le> k \<Longrightarrow>
    even (k + int (Suc s)) \<Longrightarrow>
    \<exists>out. forward_pass a b (int M + 1) reverse hi k arr bx by = Some out \<and>
      forward_done a b s F (diag M reverse) M k bx by out"
proof (induction "nat (hi + 1 - k)" arbitrary: k arr bx "by" rule: less_induct)
  case less
  let ?on = "on_step (int (Suc s)) (int (length a)) (int (length b))"
  show ?case
  proof (cases "hi < k")
    case True
    have no: "\<not> (?on j \<and> k \<le> j)" for j
    proof
      assume j: "?on j \<and> k \<le> j"
      then have "even (j + int (Suc s))" by (simp add: on_step_def)
      then show False using diagonal_bounds_on_step(2) [OF db, of j] True j by simp
    qed
    then show ?thesis
      using True less.prems stepped_end [OF db True, of F] no
      by (subst forward_pass.simps) (auto simp: forward_done_def Let_def)
  next
    case False
    then have on: "?on k" using diagonal_bounds_on_step(2) [OF db less.prems(4)] less.prems(3) by simp
    have dec: "nat (hi + 1 - (k + 2)) < nat (hi + 1 - k)" using False by auto
    have par: "even (k + 2 + int (Suc s))" "lo \<le> k + 2" using less.prems(3,4) by simp_all
    have nxt: "?on j \<Longrightarrow> k \<le> j \<longleftrightarrow> j = k \<or> k + 2 \<le> j" for j
    proof -
      assume "?on j"
      then have "even (j + int (Suc s))" by (simp add: on_step_def)
      then have "even (j + k)" using less.prems(4) by (simp add: even_add)
      then show ?thesis by presburger
    qed
    define x where "x = reach (int (length a)) (int (length b)) F k"
    define f where "f = furthest a b F k"
    obtain arr1 where
      r: "reachable arr (int M + 1) k (int (length a)) (int (length b)) = Some x" and
      p: "aput arr (int M + 1 + k) x = Some arr1" "length arr1 = 2 * M + 3" and
      neg: "x < 0 \<Longrightarrow> f < 0 \<and> diag M arr1 = stepped a b s F (k + 2)" and
      nn: "0 \<le> x \<Longrightarrow> 0 \<le> f \<and> snake_forward a b x (x - k) = Some (f, f - k) \<and>
         (\<exists>arr2. aput arr1 (int M + 1 + k) f = Some arr2 \<and>
          length arr2 = 2 * M + 3 \<and> diag M arr2 = stepped a b s F (k + 2))"
      using pass_diagonal [OF fr M less.prems(1,2) on] unfolding x_def f_def by metis
    note step = forward_pass.simps [of a b "int M + 1" reverse hi k arr bx "by"]
    show ?thesis
    proof (cases "x < 0")
      case True
      obtain out where o: "forward_pass a b (int M + 1) reverse hi (k + 2) arr1 bx by = Some out"
          "forward_done a b s F (diag M reverse) M (k + 2) bx by out"
        using less.hyps [OF dec p(2) _ par(2,1)] neg True by blast
      have "forward_done a b s F (diag M reverse) M k bx by out"
        using o(2) nxt neg True unfolding forward_done_def f_def Let_def
        by (auto split: outcome.splits)
      then show ?thesis using o(1) False True r p by (subst step) (simp add: Let_def)
    next
      case x: False
      then obtain arr2 where f0: "0 \<le> f" and sn: "snake_forward a b x (x - k) = Some (f, f - k)" and
        a2: "aput arr1 (int M + 1 + k) f = Some arr2" "length arr2 = 2 * M + 3"
          "diag M arr2 = stepped a b s F (k + 2)" using nn by auto
      let ?d = "int (length a) - int (length b)"
      have ov: "(odd ?d \<and> 0 \<le> int M + 1 + ?d - k \<and> int M + 1 + ?d - k < int (length reverse) \<and>
           0 \<le> reverse ! nat (int M + 1 + ?d - k) \<and>
           int (length a) \<le> f + reverse ! nat (int M + 1 + ?d - k)) \<longleftrightarrow>
          forward_overlap a b (diag M reverse) f k"
        using mirror_diag [OF rv, of "?d - k" "\<lambda>v. int (length a) \<le> f + v"]
        unfolding forward_overlap_def by (auto simp: add_diff_eq)
      define bx2 by2 where "bx2 = (if bx + by < f + (f - k) then f else bx)" and
        "by2 = (if bx + by < f + (f - k) then f - k else by)"
      have eq: "forward_pass a b (int M + 1) reverse hi k arr bx by =
          (if forward_overlap a b (diag M reverse) f k then Some (Return f (f - k))
           else forward_pass a b (int M + 1) reverse hi (k + 2) arr2 bx2 by2)"
        using False x r p(1) sn a2(1) ov by (subst step) (simp add: Let_def bx2_def by2_def)
      show ?thesis
      proof (cases "forward_overlap a b (diag M reverse) f k")
        case True
        then show ?thesis using eq on f0 by (auto simp: forward_done_def f_def)
      next
        case no: False
        obtain out where o: "forward_pass a b (int M + 1) reverse hi (k + 2) arr2 bx2 by2 = Some out"
            "forward_done a b s F (diag M reverse) M (k + 2) bx2 by2 out"
          using less.hyps [OF dec a2(2,3) par(2,1)] by blast
        have b2: "bx + by \<le> bx2 + by2" "f + (f - k) \<le> bx2 + by2"
            "bx2 = bx \<and> by2 = by \<or> bx2 = f \<and> by2 = f - k"
          by (auto simp: bx2_def by2_def)
        have "forward_done a b s F (diag M reverse) M k bx by out"
        proof (cases out)
          case (Return x y)
          then show ?thesis using o(2) by (simp add: forward_done_def Let_def)
        next
          case (Next st)
          obtain ar bx' by' where st: "st = (ar, bx', by')" by (metis prod_cases3)
          have d: "length ar = 2 * M + 3" "diag M ar = next_front a b s F"
            "\<And>j. ?on j \<Longrightarrow> k + 2 \<le> j \<Longrightarrow> 0 \<le> furthest a b F j \<Longrightarrow>
               \<not> forward_overlap a b (diag M reverse) (furthest a b F j) j \<and>
               furthest a b F j + (furthest a b F j - j) \<le> bx' + by'"
            "bx2 + by2 \<le> bx' + by'"
            "bx' = bx2 \<and> by' = by2 \<or>
             (\<exists>j. ?on j \<and> 0 \<le> furthest a b F j \<and> bx' = furthest a b F j \<and> by' = bx' - j)"
            using o(2) unfolding Next st forward_done_def Let_def by auto
          have "?on j \<Longrightarrow> k \<le> j \<Longrightarrow> 0 \<le> furthest a b F j \<Longrightarrow>
               \<not> forward_overlap a b (diag M reverse) (furthest a b F j) j \<and>
               furthest a b F j + (furthest a b F j - j) \<le> bx' + by'" for j
            using d(3) [of j] d(4) nxt [of j] no b2 unfolding f_def by auto
          moreover have "bx + by \<le> bx' + by'" using b2 d(4) by linarith
          moreover have "bx' = bx \<and> by' = by \<or>
             (\<exists>j. ?on j \<and> 0 \<le> furthest a b F j \<and> bx' = furthest a b F j \<and> by' = bx' - j)"
            using d(5) b2(3) on f0 unfolding f_def by metis
          ultimately show ?thesis using d(1,2) unfolding Next st forward_done_def Let_def by auto
        qed
        then show ?thesis using eq no o(1) by simp
      qed
    qed
  qed
qed

end
