(* ===== verification/Textdiff_Split.thy ===== *)
theory Textdiff_Split
  imports Textdiff_Myers
begin

text \<open>
  Correctness of the search of \<open>Textdiff_Myers\<close>: the backward pass of a step, the optimality
  of the two arrays (no shortest path is ahead of them), the detection of the meeting point, and
  the property that \<open>split\<close> always returns a point of its rectangle other than the two corners it
  lies between. The termination of \<open>align\<close> (theory \<open>Textdiff_Align\<close>) rests on it.
\<close>

section \<open>The backward pass\<close>

definition backward_overlap :: "'a list \<Rightarrow> 'a list \<Rightarrow> (int \<Rightarrow> int) \<Rightarrow> int \<Rightarrow> int \<Rightarrow> bool" where
  "backward_overlap a b F x k \<longleftrightarrow> even (int (length a) - int (length b)) \<and>
     0 \<le> F (int (length a) - int (length b) - k) \<and>
     int (length a) \<le> F (int (length a) - int (length b) - k) + x"

definition backward_done ::
  "'a list \<Rightarrow> 'a list \<Rightarrow> nat \<Rightarrow> (int \<Rightarrow> int) \<Rightarrow> (int \<Rightarrow> int) \<Rightarrow> nat \<Rightarrow> int \<Rightarrow> int list outcome \<Rightarrow> bool" where
  "backward_done a b s R F M k out \<longleftrightarrow>
     (let on = on_step (int (Suc s)) (int (length a)) (int (length b));
          delta = int (length a) - int (length b) in
      case out of
        Return x y \<Rightarrow> \<exists>j. on j \<and> even delta \<and> 0 \<le> F (delta - j) \<and> x = F (delta - j) \<and> y = x - (delta - j)
      | Next arr \<Rightarrow>
          length arr = 2 * M + 3 \<and> diag M arr = next_front (rev a) (rev b) s R \<and>
          (\<forall>j. on j \<and> k \<le> j \<and> 0 \<le> furthest (rev a) (rev b) R j \<longrightarrow>
             \<not> backward_overlap a b F (furthest (rev a) (rev b) R j) j))"

lemma backward_pass_spec:
  assumes fr: "front (rev a) (rev b) s R" and M: "s < M" and fw: "length forward = 2 * M + 3"
    and db: "diagonal_bounds (int (Suc s)) (int (length a)) (int (length b)) = (lo, hi)"
  shows "length arr = 2 * M + 3 \<Longrightarrow> diag M arr = stepped (rev a) (rev b) s R k \<Longrightarrow> lo \<le> k \<Longrightarrow>
    even (k + int (Suc s)) \<Longrightarrow>
    \<exists>out. backward_pass a b (int M + 1) forward hi k arr = Some out \<and>
      backward_done a b s R (diag M forward) M k out"
proof (induction "nat (hi + 1 - k)" arbitrary: k arr rule: less_induct)
  case less
  let ?on = "on_step (int (Suc s)) (int (length a)) (int (length b))"
  have dbr: "diagonal_bounds (int (Suc s)) (int (length (rev a))) (int (length (rev b))) = (lo, hi)"
    using db by simp
  show ?case
  proof (cases "hi < k")
    case True
    have no: "\<not> (?on j \<and> k \<le> j)" for j
    proof
      assume j: "?on j \<and> k \<le> j"
      then have "even (j + int (Suc s))" by (simp add: on_step_def)
      then show False using diagonal_bounds_on_step(2) [OF db, of j] True j by simp
    qed
    then show ?thesis
      using True less.prems stepped_end [OF dbr True, of R] no
      by (subst backward_pass.simps) (auto simp: backward_done_def Let_def)
  next
    case False
    then have on: "?on k" using diagonal_bounds_on_step(2) [OF db less.prems(4)] less.prems(3) by simp
    have dec: "nat (hi + 1 - (k + 2)) < nat (hi + 1 - k)" using False by auto
    have par: "even (k + 2 + int (Suc s))" "lo \<le> k + 2" using less.prems(3,4) by simp_all
    have nxt: "?on j \<Longrightarrow> k \<le> j \<longleftrightarrow> j = k \<or> k + 2 \<le> j" for j
    proof -
      assume "?on j"
      then have "even (j + int (Suc s))" by (simp add: on_step_def)
      then have "even (j + k)" using less.prems(4) by (simp add: even_add)
      then show ?thesis by presburger
    qed
    define x where "x = reach (int (length a)) (int (length b)) R k"
    define f where "f = furthest (rev a) (rev b) R k"
    obtain arr1 where
      r: "reachable arr (int M + 1) k (int (length a)) (int (length b)) = Some x" and
      p: "aput arr (int M + 1 + k) x = Some arr1" "length arr1 = 2 * M + 3" and
      neg: "x < 0 \<Longrightarrow> f < 0 \<and> diag M arr1 = stepped (rev a) (rev b) s R (k + 2)" and
      nn: "0 \<le> x \<Longrightarrow> 0 \<le> f \<and> snake_forward (rev a) (rev b) x (x - k) = Some (f, f - k) \<and>
         (\<exists>arr2. aput arr1 (int M + 1 + k) f = Some arr2 \<and>
          length arr2 = 2 * M + 3 \<and> diag M arr2 = stepped (rev a) (rev b) s R (k + 2))"
      using pass_diagonal [OF fr M less.prems(1,2)] on unfolding x_def f_def length_rev by metis
    note step = backward_pass.simps [of a b "int M + 1" forward hi k arr]
    show ?thesis
    proof (cases "x < 0")
      case True
      obtain out where o: "backward_pass a b (int M + 1) forward hi (k + 2) arr1 = Some out"
          "backward_done a b s R (diag M forward) M (k + 2) out"
        using less.hyps [OF dec p(2) _ par(2,1)] neg True by blast
      have "backward_done a b s R (diag M forward) M k out"
        using o(2) nxt neg True unfolding backward_done_def f_def Let_def
        by (auto split: outcome.splits)
      then show ?thesis using o(1) False True r p by (subst step) (simp add: Let_def)
    next
      case x: False
      then obtain arr2 where f0: "0 \<le> f" and sn: "snake_forward (rev a) (rev b) x (x - k) = Some (f, f - k)" and
        a2: "aput arr1 (int M + 1 + k) f = Some arr2" "length arr2 = 2 * M + 3"
          "diag M arr2 = stepped (rev a) (rev b) s R (k + 2)" using nn by auto
      have xk: "k \<le> x" using reach_front [OF fr less.prems(4), of x] x by (simp add: x_def)
      have sb: "snake_backward a b x (x - k) = Some (f, f - k)"
        using snake_backward_forward [of x "x - k" a b] x xk sn by simp
      let ?d = "int (length a) - int (length b)"
      have ix: "int M + 1 + ?d - k = int M + 1 + (?d - k)" by simp
      have ov: "(even ?d \<and> 0 \<le> int M + 1 + ?d - k \<and> int M + 1 + ?d - k < int (length forward) \<and>
           0 \<le> forward ! nat (int M + 1 + ?d - k) \<and>
           int (length a) \<le> forward ! nat (int M + 1 + ?d - k) + f) \<longleftrightarrow>
          backward_overlap a b (diag M forward) f k"
        using mirror_diag [OF fw, of "?d - k" "\<lambda>v. int (length a) \<le> v + f"]
        unfolding backward_overlap_def ix by (auto simp del: add_diff_eq)
      have val: "backward_overlap a b (diag M forward) f k \<Longrightarrow>
          forward ! nat (int M + 1 + ?d - k) = diag M forward (?d - k)"
        using ov fw unfolding ix by (auto simp: diag_def)
      have eq: "backward_pass a b (int M + 1) forward hi k arr =
          (if backward_overlap a b (diag M forward) f k
           then Some (Return (diag M forward (?d - k)) (diag M forward (?d - k) - (?d - k)))
           else backward_pass a b (int M + 1) forward hi (k + 2) arr2)"
        using False x r p(1) sb a2(1) ov val by (subst step) (simp add: Let_def)
      show ?thesis
      proof (cases "backward_overlap a b (diag M forward) f k")
        case True
        then have "backward_done a b s R (diag M forward) M k
            (Return (diag M forward (?d - k)) (diag M forward (?d - k) - (?d - k)))"
          using on unfolding backward_done_def backward_overlap_def Let_def outcome.case by blast
        then show ?thesis using eq True by simp
      next
        case no: False
        obtain out where o: "backward_pass a b (int M + 1) forward hi (k + 2) arr2 = Some out"
            "backward_done a b s R (diag M forward) M (k + 2) out"
          using less.hyps [OF dec a2(2,3) par(2,1)] by blast
        have "backward_done a b s R (diag M forward) M k out"
          using o(2) nxt no unfolding backward_done_def f_def Let_def
          by (auto split: outcome.splits)
        then show ?thesis using eq no o(1) by simp
      qed
    qed
  qed
qed

section \<open>No shortest path is ahead of the arrays\<close>

definition complete :: "'a list \<Rightarrow> 'a list \<Rightarrow> nat \<Rightarrow> nat \<Rightarrow> (int \<Rightarrow> int) \<Rightarrow> bool" where
  "complete a b D s F \<longleftrightarrow> (\<forall>x y t. edits a b s x y \<and> rest a b t x y \<and> s + t = D \<longrightarrow>
     int x \<le> F (int x - int y))"

lemma completeD:
  "complete a b D s F \<Longrightarrow> edits a b s x y \<Longrightarrow> rest a b t x y \<Longrightarrow> s + t = D \<Longrightarrow>
   int x \<le> F (int x - int y)"
  unfolding complete_def by blast

lemma furthest_past:
  assumes fr: "front a b s F" and par: "even (int x - int y + int (Suc s))"
    and le: "int x \<le> reach (int (length a)) (int (length b)) F (int x - int y)"
    and bd: "x + j \<le> length a" "y + j \<le> length b" "\<forall>i<j. a ! (x + i) = b ! (y + i)"
  shows "int (x + j) \<le> furthest a b F (int x - int y)"
proof (rule ccontr)
  define k where "k = int x - int y"
  define r where "r = reach (int (length a)) (int (length b)) F k"
  define f where "f = furthest a b F k"
  assume "\<not> int (x + j) \<le> furthest a b F (int x - int y)"
  then have lt: "f < int x + int j" by (simp add: f_def k_def)
  have xr: "int x \<le> r" using le by (simp add: r_def k_def)
  then have r0: "0 \<le> r" by linarith
  have sl: "slides a b r (r - k) (nat (f - r))" and rf: "r \<le> f"
    using furthest_front(2,3) [OF fr, of k r] par r0 r_def unfolding k_def [symmetric] f_def by auto
  define i where "i = nat (f - int x)"
  have i: "i < j" "nat r + nat (f - r) = x + i" "nat (r - k) + nat (f - r) = y + i"
    using lt rf xr r0 by (auto simp: i_def k_def)
  have "\<not> (f < int (length a) \<and> f - k < int (length b) \<and> a ! (x + i) = b ! (y + i))"
    using sl i rf unfolding slides_def by (auto simp: algebra_simps)
  moreover have "f < int (length a)" "f - k < int (length b)" using lt bd by (auto simp: k_def)
  ultimately show False using bd(3) i(1) by blast
qed

lemma reach_after_delete:
  assumes "x0 \<le> F (k - 1)" "0 \<le> x0" "F (k - 1) < n"
  shows "x0 + 1 \<le> reach n m F k"
  using assms by (auto simp: reach_def Let_def)

lemma reach_after_insert:
  assumes "x0 \<le> F (k + 1)" "0 \<le> x0" "F (k + 1) - (k + 1) < m"
  shows "x0 \<le> reach n m F k"
  using assms by (auto simp: reach_def Let_def)

text \<open>A front at the border of the rectangle would be a shorter way to the corner.\<close>

lemma front_before_delete:
  assumes sh: "shortest a b D" and fr: "front a b s F" and D: "Suc s + t = D"
    and par: "even (int x0 - int y0 + int s)" and le: "int x0 \<le> F (int x0 - int y0)"
    and r: "rest a b t (Suc x0) y0" "x0 < length a" "y0 \<le> length b"
  shows "F (int x0 - int y0) < int (length a)"
proof (rule ccontr)
  let ?k = "int x0 - int y0"
  have F0: "0 \<le> F ?k" using le by linarith
  assume "\<not> F ?k < int (length a)"
  then have F: "F ?k = int (length a)" using front_point(2) [OF fr F0] by linarith
  define y where "y = nat (int (length a) - ?k)"
  have y: "int y = int (length a) - ?k" "y \<le> length b"
    using front_point(1,3) [OF fr F0] F by (auto simp: y_def)
  have "edits a b s (length a) y"
    using front_point(4) [OF fr F0 par] F by (simp add: y_def)
  then have "edits a b (s + (length b - y)) (length a) (length b)"
    using edits_inserts [of a b s "length a" y "length b - y"] y(2) by simp
  then have "D \<le> s + (length b - y)" using sh by (simp add: shortest_def)
  then show False using rest_bounds [OF r(1)] r(2,3) D y by auto
qed

lemma front_before_insert:
  assumes sh: "shortest a b D" and fr: "front a b s F" and D: "Suc s + t = D"
    and par: "even (int x0 - int y0 + int s)" and le: "int x0 \<le> F (int x0 - int y0)"
    and r: "rest a b t x0 (Suc y0)" "x0 \<le> length a" "y0 < length b"
  shows "F (int x0 - int y0) - (int x0 - int y0) < int (length b)"
proof (rule ccontr)
  let ?k = "int x0 - int y0"
  have F0: "0 \<le> F ?k" using le by linarith
  assume "\<not> F ?k - ?k < int (length b)"
  then have F: "F ?k - ?k = int (length b)" using front_point(3) [OF fr F0] by linarith
  define x where "x = nat (F ?k)"
  have x: "int x = int (length b) + ?k" "x \<le> length a"
    using front_point(2) [OF fr F0] F F0 by (auto simp: x_def)
  have "edits a b s x (length b)"
    using front_point(4) [OF fr F0 par] F by (simp add: x_def)
  then have "edits a b (s + (length a - x)) (length a) (length b)"
    using edits_deletes [of a b s x "length b" "length a - x"] x(2) by simp
  then have "D \<le> s + (length a - x)" using sh by (simp add: shortest_def)
  then show False using rest_bounds [OF r(1)] r(2,3) D x by auto
qed

lemma complete_next:
  assumes sh: "shortest a b D" and fr: "front a b s F" and c: "complete a b D s F"
  shows "complete a b D (Suc s) (next_front a b s F)"
  unfolding complete_def
proof (intro allI impI, elim conjE)
  fix x y t
  assume e: "edits a b (Suc s) x y" and r: "rest a b t x y" and D: "Suc s + t = D"
  let ?k = "int x - int y"
  have bd: "x \<le> length a" "y \<le> length b" "even (x + y + Suc s)" "x \<le> y + Suc s" "y \<le> x + Suc s"
    using edits_bounds [OF e] by auto
  have ek: "even (?k + int (Suc s))" using bd(3) by presburger
  have on: "on_step (int (Suc s)) (int (length a)) (int (length b)) ?k"
    using bd ek by (auto simp: on_step_def)
  obtain x0 y0 j where e0: "edits a b s x0 y0" and
    cs: "(x0 < length a \<and> x = Suc x0 + j \<and> y = y0 + j \<and> (\<forall>i<j. a ! (Suc x0 + i) = b ! (y0 + i))) \<or>
        (y0 < length b \<and> x = x0 + j \<and> y = Suc y0 + j \<and> (\<forall>i<j. a ! (x0 + i) = b ! (Suc y0 + i)))"
    using edits_Suc [OF e] by auto
  have par: "even (int x0 - int y0 + int s)" using edits_bounds [OF e0] by presburger
  have "int x \<le> furthest a b F ?k"
    using cs
  proof
    assume d: "x0 < length a \<and> x = Suc x0 + j \<and> y = y0 + j \<and> (\<forall>i<j. a ! (Suc x0 + i) = b ! (y0 + i))"
    have rt: "rest a b t (Suc x0) y0" using d r bd rest_slide [of a b t "Suc x0" j y0] by simp
    have le: "int x0 \<le> F (int x0 - int y0)"
      using completeD [OF c e0 rest_delete [OF rt]] d D by simp
    have "F (int x0 - int y0) < int (length a)"
      using front_before_delete [OF sh fr D par le rt] d edits_bounds [OF e0] by simp
    then have "int (Suc x0) \<le> reach (int (length a)) (int (length b)) F (int (Suc x0) - int y0)"
      using reach_after_delete [of "int x0" F "int (Suc x0) - int y0" "int (length a)" "int (length b)"] le
      by simp
    moreover have q: "?k = int (Suc x0) - int y0" using d by simp
    moreover have "Suc x0 + j \<le> length a" "y0 + j \<le> length b" using d bd by auto
    ultimately have "int (Suc x0 + j) \<le> furthest a b F (int (Suc x0) - int y0)"
      using furthest_past [OF fr, of "Suc x0" y0 j] d ek by metis
    then show ?thesis unfolding q using d by metis
  next
    assume d: "y0 < length b \<and> x = x0 + j \<and> y = Suc y0 + j \<and> (\<forall>i<j. a ! (x0 + i) = b ! (Suc y0 + i))"
    have rt: "rest a b t x0 (Suc y0)" using d r bd rest_slide [of a b t x0 j "Suc y0"] by simp
    have le: "int x0 \<le> F (int x0 - int y0)"
      using completeD [OF c e0 rest_insert [OF rt]] d D by simp
    have "F (int x0 - int y0) - (int x0 - int y0) < int (length b)"
      using front_before_insert [OF sh fr D par le rt] d edits_bounds [OF e0] by simp
    then have "int x0 \<le> reach (int (length a)) (int (length b)) F (int x0 - int (Suc y0))"
      using reach_after_insert [of "int x0" F "int x0 - int (Suc y0)" "int (length b)" "int (length a)"] le
      by simp
    moreover have q: "?k = int x0 - int (Suc y0)" using d by simp
    moreover have "x0 + j \<le> length a" "Suc y0 + j \<le> length b" using d bd by auto
    ultimately have "int (x0 + j) \<le> furthest a b F (int x0 - int (Suc y0))"
      using furthest_past [OF fr, of x0 "Suc y0" j] d ek by metis
    then show ?thesis unfolding q using d by metis
  qed
  then show "int x \<le> next_front a b s F ?k" using on by (simp add: next_front_def)
qed

section \<open>Detection\<close>

lemma complete_rest:
  assumes c: "complete (rev a) (rev b) D t R" and e: "edits a b s x y" and r: "rest a b t x y"
    and D: "s + t = D"
  shows "int (length a) - int x \<le> R (int (length a) - int (length b) - (int x - int y))"
proof -
  have bd: "x \<le> length a" "y \<le> length b" using edits_bounds [OF e] by auto
  have "rest (rev a) (rev b) s (length a - x) (length b - y)" using e bd by simp
  from completeD [OF c r this] D bd show ?thesis by (simp add: algebra_simps of_nat_diff)
qed

lemma forward_detects:
  assumes sh: "shortest a b D" and D: "D = Suc (2 * s)"
    and c: "complete a b D (Suc s) (next_front a b s F)" and cr: "complete (rev a) (rev b) D s R"
  shows "\<exists>j. on_step (int (Suc s)) (int (length a)) (int (length b)) j \<and> 0 \<le> furthest a b F j \<and>
    forward_overlap a b R (furthest a b F j) j"
proof -
  obtain x y where xy: "edits a b (Suc s) x y" "rest a b s x y"
    using shortest_cut [OF sh, of "Suc s" s] D by auto
  have bd: "x \<le> length a" "y \<le> length b" "even (x + y + Suc s)" "x \<le> y + Suc s" "y \<le> x + Suc s"
    using edits_bounds [OF xy(1)] by auto
  have "even (int x - int y + int (Suc s))" using bd(3) by presburger
  then have on: "on_step (int (Suc s)) (int (length a)) (int (length b)) (int x - int y)"
    using bd by (auto simp: on_step_def)
  have f: "int x \<le> furthest a b F (int x - int y)"
    using completeD [OF c xy] D on by (simp add: next_front_def)
  have r: "int (length a) - int x \<le> R (int (length a) - int (length b) - (int x - int y))"
    using complete_rest [OF cr xy] D by simp
  have "odd (length a + length b)" using shortest_parity [OF sh] D by simp
  then have "odd (int (length a) - int (length b))" by presburger
  then have "forward_overlap a b R (furthest a b F (int x - int y)) (int x - int y)"
    using f r bd by (auto simp: forward_overlap_def)
  moreover have "0 \<le> furthest a b F (int x - int y)" using f by linarith
  ultimately show ?thesis using on by blast
qed

lemma backward_detects:
  assumes sh: "shortest a b D" and D: "D = 2 * Suc s"
    and c: "complete a b D (Suc s) F" and cr: "complete (rev a) (rev b) D (Suc s) (next_front (rev a) (rev b) s R)"
  shows "\<exists>j. on_step (int (Suc s)) (int (length a)) (int (length b)) j \<and>
    0 \<le> furthest (rev a) (rev b) R j \<and> backward_overlap a b F (furthest (rev a) (rev b) R j) j"
proof -
  obtain x y where xy: "edits a b (Suc s) x y" "rest a b (Suc s) x y"
    using shortest_cut [OF sh, of "Suc s" "Suc s"] D by auto
  have bd: "x \<le> length a" "y \<le> length b" using edits_bounds [OF xy(1)] by auto
  let ?d = "int (length a) - int (length b)"
  define j where "j = ?d - (int x - int y)"
  have jx: "j = int (length a - x) - int (length b - y)" using bd by (simp add: j_def of_nat_diff)
  have eb: "even (length a - x + (length b - y) + Suc s)" "length a - x \<le> length b - y + Suc s"
    "length b - y \<le> length a - x + Suc s" using edits_bounds [OF xy(2)] by auto
  have "even (j + int (Suc s))" unfolding jx using eb(1) by presburger
  then have on: "on_step (int (Suc s)) (int (length a)) (int (length b)) j"
    using eb bd unfolding jx by (auto simp: on_step_def)
  have f: "int x \<le> F (?d - j)" using completeD [OF c xy] D by (simp add: j_def)
  have r: "int (length a) - int x \<le> furthest (rev a) (rev b) R j"
    using complete_rest [OF cr xy] D on unfolding j_def by (simp add: next_front_def)
  have "even (length a + length b)" using shortest_parity [OF sh] D by simp
  then have "even ?d" by presburger
  then have "backward_overlap a b F (furthest (rev a) (rev b) R j) j"
    using f r by (auto simp: backward_overlap_def)
  moreover have "0 \<le> furthest (rev a) (rev b) R j" using r bd by linarith
  ultimately show ?thesis using on by blast
qed

section \<open>The split point\<close>

definition inside :: "'a list \<Rightarrow> 'a list \<Rightarrow> int \<Rightarrow> int \<Rightarrow> bool" where
  "inside a b x y \<longleftrightarrow> 0 \<le> x \<and> x \<le> int (length a) \<and> 0 \<le> y \<and> y \<le> int (length b) \<and>
     (x, y) \<noteq> (0, 0) \<and> (x, y) \<noteq> (int (length a), int (length b))"

lemma inside_edits:
  assumes "shortest a b D" "edits a b t (nat x) (nat y)" "t < D" "0 < x + y" "0 \<le> x" "0 \<le> y"
  shows "inside a b x y"
proof -
  have "(nat x, nat y) \<noteq> (length a, length b)" using assms by (auto simp: shortest_def)
  then show ?thesis using edits_bounds [OF assms(2)] assms(4-6) by (auto simp: inside_def)
qed

lemma inside_furthest:
  assumes sh: "shortest a b D" and fr: "front a b s F" and s: "Suc s < D"
    and j: "on_step (int (Suc s)) (int (length a)) (int (length b)) j" "0 \<le> furthest a b F j"
  shows "inside a b (furthest a b F j) (furthest a b F j - j)" "0 < furthest a b F j + (furthest a b F j - j)"
proof -
  have par: "even (j + int (Suc s))" using j by (simp add: on_step_def)
  have e: "j \<le> furthest a b F j" "edits a b (Suc s) (nat (furthest a b F j)) (nat (furthest a b F j - j))"
    using furthest_edits [OF fr par j(2)] by auto
  show p: "0 < furthest a b F j + (furthest a b F j - j)"
    using edits_bounds [OF e(2)] e(1) j(2) by linarith
  show "inside a b (furthest a b F j) (furthest a b F j - j)"
    using inside_edits [OF sh e(2) s] p e(1) j(2) by simp
qed

lemma inside_front:
  assumes sh: "shortest a b D" and fr: "front a b (Suc s) F" and s: "Suc s < D"
    and k: "0 \<le> F k" "even (k + int (Suc s))"
  shows "inside a b (F k) (F k - k)"
proof -
  have e: "k \<le> F k" "edits a b (Suc s) (nat (F k)) (nat (F k - k))"
    using front_point(1,4) [OF fr k(1)] k(2) by auto
  then show ?thesis using inside_edits [OF sh e(2) s] edits_bounds [OF e(2)] k(1) by linarith
qed

lemma first_step_reaches:
  assumes F: "F 0 = 0" and b: "b \<noteq> []"
  shows "on_step (int (Suc 0)) (int (length a)) (int (length b)) (- 1)" "front a b 0 F \<Longrightarrow> 0 \<le> furthest a b F (- 1)"
proof -
  have "1 \<le> length b" using b by (cases b) auto
  then have b1: "(1::int) \<le> int (length b)" by linarith
  then show "on_step (int (Suc 0)) (int (length a)) (int (length b)) (- 1)" by (auto simp: on_step_def)
  have "0 \<le> reach (int (length a)) (int (length b)) F (- 1)"
    by (rule reach_after_insert) (use F b in simp_all)
  then show "front a b 0 F \<Longrightarrow> 0 \<le> furthest a b F (- 1)"
    using furthest_front(3) [of a b 0 F "- 1", OF _ _ refl] by force
qed

text \<open>What holds when the loop is about to run step \<open>Suc s\<close>.\<close>

definition searching ::
  "'a list \<Rightarrow> 'a list \<Rightarrow> nat \<Rightarrow> nat \<Rightarrow> nat \<Rightarrow> int list \<Rightarrow> int list \<Rightarrow> int \<Rightarrow> int \<Rightarrow> bool" where
  "searching a b D M s forward reverse bx by \<longleftrightarrow>
     length forward = 2 * M + 3 \<and> length reverse = 2 * M + 3 \<and>
     front a b s (diag M forward) \<and> front (rev a) (rev b) s (diag M reverse) \<and>
     complete a b D s (diag M forward) \<and> complete (rev a) (rev b) D s (diag M reverse) \<and>
     (if s = 0 then diag M forward 0 = 0 \<and> bx = 0 \<and> by = 0 else inside a b bx by \<and> 0 < bx + by)"

lemma searching_step:
  assumes sh: "shortest a b D" and b: "b \<noteq> []" and D: "Suc (2 * s) \<le> D" "1 < D" and M: "s < M"
    and inv: "searching a b D M s forward reverse bx by"
    and db: "diagonal_bounds (int (Suc s)) (int (length a)) (int (length b)) = (lo, hi)"
  shows "(\<exists>x y. forward_pass a b (int M + 1) reverse hi lo forward bx by = Some (Return x y) \<and> inside a b x y) \<or>
     (\<exists>fw' bx' by'. forward_pass a b (int M + 1) reverse hi lo forward bx by = Some (Next (fw', bx', by')) \<and>
       ((\<exists>x y. backward_pass a b (int M + 1) fw' hi lo reverse = Some (Return x y) \<and> inside a b x y) \<or>
        (\<exists>rv'. backward_pass a b (int M + 1) fw' hi lo reverse = Some (Next rv') \<and>
           searching a b D M (Suc s) fw' rv' bx' by' \<and> Suc (2 * Suc s) \<le> D)))"
proof -
  let ?F = "diag M forward" and ?R = "diag M reverse"
  let ?on = "on_step (int (Suc s)) (int (length a)) (int (length b))"
  have len: "length forward = 2 * M + 3" "length reverse = 2 * M + 3"
    and fr: "front a b s ?F" and rr: "front (rev a) (rev b) s ?R"
    and cf: "complete a b D s ?F" and cr: "complete (rev a) (rev b) D s ?R"
    and best: "if s = 0 then ?F 0 = 0 \<and> bx = 0 \<and> by = 0 else inside a b bx by \<and> 0 < bx + by"
    using inv by (auto simp: searching_def)
  have dbr: "diagonal_bounds (int (Suc s)) (int (length (rev a))) (int (length (rev b))) = (lo, hi)"
    using db by simp
  have lo: "even (lo + int (Suc s))" using diagonal_bounds_on_step(1) [OF db] .
  have sD: "Suc s < D" using D by linarith
  have all: "?on j \<Longrightarrow> lo \<le> j" for j
    using diagonal_bounds_on_step(2) [OF db, of j] by (simp add: on_step_def)
  obtain out where fo: "forward_pass a b (int M + 1) reverse hi lo forward bx by = Some out"
    and fd: "forward_done a b s ?F ?R M lo bx by out"
    using forward_pass_spec [OF fr M len(2) db len(1), of lo bx "by"] stepped_start [OF db, of ?F] lo by auto
  show ?thesis
  proof (cases out)
    case (Return x y)
    then have "inside a b x y"
      using fd inside_furthest(1) [OF sh fr sD] by (auto simp: forward_done_def)
    then show ?thesis using fo Return by blast
  next
    case (Next st)
    obtain fw bx' by' where st: "st = (fw, bx', by')" by (metis prod_cases3)
    have lfw: "length fw = 2 * M + 3" and dfw: "diag M fw = next_front a b s ?F"
      and no: "\<And>j. ?on j \<Longrightarrow> 0 \<le> furthest a b ?F j \<Longrightarrow> \<not> forward_overlap a b ?R (furthest a b ?F j) j \<and>
           furthest a b ?F j + (furthest a b ?F j - j) \<le> bx' + by'"
      and bb: "bx' = bx \<and> by' = by \<or> (\<exists>j. ?on j \<and> 0 \<le> furthest a b ?F j \<and> bx' = furthest a b ?F j \<and> by' = bx' - j)"
      using fd all unfolding Next st forward_done_def Let_def by auto
    have fr': "front a b (Suc s) (diag M fw)" using front_next [OF fr] dfw by simp
    have cf': "complete a b D (Suc s) (diag M fw)" using complete_next [OF sh fr cf] dfw by simp
    have "D \<noteq> Suc (2 * s)"
      using forward_detects [OF sh _ _ cr] cf' no unfolding dfw by blast
    then have D2: "2 * Suc s \<le> D" using D(1) by arith
    have best': "inside a b bx' by' \<and> 0 < bx' + by'"
    proof (cases "\<exists>j. ?on j \<and> 0 \<le> furthest a b ?F j \<and> bx' = furthest a b ?F j \<and> by' = bx' - j")
      case True
      then show ?thesis using inside_furthest [OF sh fr sD] by auto
    next
      case False
      then have bx: "bx' = bx" "by' = by" using bb by auto
      have "s \<noteq> 0"
      proof
        assume s: "s = 0"
        then have j: "?on (- 1)" "0 \<le> furthest a b ?F (- 1)"
          using first_step_reaches [of ?F b a] best b fr by simp_all
        from no [OF j] inside_furthest(2) [OF sh fr sD j] bx best s show False by simp
      qed
      then show ?thesis using best bx by simp
    qed
    obtain out2 where bo: "backward_pass a b (int M + 1) fw hi lo reverse = Some out2"
      and bd: "backward_done a b s ?R (diag M fw) M lo out2"
      using backward_pass_spec [OF rr M lfw db len(2), of lo] stepped_start [OF dbr, of ?R] lo by auto
    show ?thesis
    proof (cases out2)
      case (Return x y)
      then obtain j where j: "?on j" "even (int (length a) - int (length b))"
          "0 \<le> diag M fw (int (length a) - int (length b) - j)"
          "x = diag M fw (int (length a) - int (length b) - j)"
          "y = x - (int (length a) - int (length b) - j)"
        using bd by (auto simp: backward_done_def Let_def)
      have "even (int (length a) - int (length b) - j + int (Suc s))"
        using j(1,2) unfolding on_step_def by presburger
      then have "inside a b x y" using inside_front [OF sh fr' sD j(3)] j(4,5) by simp
      then show ?thesis using fo bo Next st Return by blast
    next
      case (Next rv)
      have lrv: "length rv = 2 * M + 3" and drv: "diag M rv = next_front (rev a) (rev b) s ?R"
        and nb: "\<And>j. ?on j \<Longrightarrow> 0 \<le> furthest (rev a) (rev b) ?R j \<Longrightarrow>
             \<not> backward_overlap a b (diag M fw) (furthest (rev a) (rev b) ?R j) j"
        using bd all unfolding Next backward_done_def Let_def by auto
      have rr': "front (rev a) (rev b) (Suc s) (diag M rv)" using front_next [OF rr] drv by simp
      have cr': "complete (rev a) (rev b) D (Suc s) (diag M rv)"
        using complete_next [OF shortest_rev [OF sh] rr cr] drv by simp
      have "D \<noteq> 2 * Suc s"
        using backward_detects [OF sh _ cf'] cr' nb unfolding drv by blast
      then have "Suc (2 * Suc s) \<le> D" using D2 by linarith
      moreover have "searching a b D M (Suc s) fw rv bx' by'"
        using lfw lrv fr' rr' cf' cr' best' by (simp add: searching_def)
      ultimately show ?thesis using fo bo \<open>out = Next st\<close> st Next by blast
    qed
  qed
qed

lemma split_loop_inside:
  assumes sh: "shortest a b D" and b: "b \<noteq> []" and D1: "1 < D"
  shows "searching a b D M s forward reverse bx by \<Longrightarrow> Suc (2 * s) \<le> D \<Longrightarrow>
    0 < s \<or> 0 < M \<and> 1 \<le> limit \<Longrightarrow>
    \<exists>x y. split_loop a b (int M + 1) (int M) limit (int (Suc s)) forward reverse bx by = Some (x, y) \<and>
      inside a b x y"
proof (induction "Suc M - s" arbitrary: s forward reverse bx "by" rule: less_induct)
  case less
  note step = split_loop.simps [of a b "int M + 1" "int M" limit "int (Suc s)" forward reverse bx "by"]
  show ?case
  proof (cases "int M < int (Suc s) \<or> limit < int (Suc s)")
    case True
    then have "0 < s" using less.prems(3) by auto
    then show ?thesis using True less.prems(1) by (subst step) (auto simp: searching_def)
  next
    case False
    then have M: "s < M" by auto
    obtain lo hi where db: "diagonal_bounds (int (Suc s)) (int (length a)) (int (length b)) = (lo, hi)"
      by (metis surj_pair)
    have eq: "split_loop a b (int M + 1) (int M) limit (int (Suc s)) forward reverse bx by =
       (case forward_pass a b (int M + 1) reverse hi lo forward bx by of
           None \<Rightarrow> None
         | Some (Return x y) \<Rightarrow> Some (x, y)
         | Some (Next (forward', bestX', bestY')) \<Rightarrow>
           (case backward_pass a b (int M + 1) forward' hi lo reverse of
              None \<Rightarrow> None
            | Some (Return x y) \<Rightarrow> Some (x, y)
            | Some (Next reverse') \<Rightarrow>
                split_loop a b (int M + 1) (int M) limit (int (Suc (Suc s))) forward' reverse' bestX' bestY'))"
    proof -
      have "int (Suc s) + 1 = int (Suc (Suc s))" by simp
      then show ?thesis using False db by (subst step) (simp only: if_False prod.case)
    qed
    from searching_step [OF sh b less.prems(2) D1 M less.prems(1) db] show ?thesis
    proof (elim disjE exE conjE)
      fix x y
      assume "forward_pass a b (int M + 1) reverse hi lo forward bx by = Some (Return x y)" "inside a b x y"
      then show ?thesis by (subst eq) simp
    next
      fix fw' bx' by' x y
      assume "forward_pass a b (int M + 1) reverse hi lo forward bx by = Some (Next (fw', bx', by'))"
        "backward_pass a b (int M + 1) fw' hi lo reverse = Some (Return x y)" "inside a b x y"
      then show ?thesis by (subst eq) simp
    next
      fix fw' bx' by' rv'
      assume p: "forward_pass a b (int M + 1) reverse hi lo forward bx by = Some (Next (fw', bx', by'))"
        "backward_pass a b (int M + 1) fw' hi lo reverse = Some (Next rv')"
        "searching a b D M (Suc s) fw' rv' bx' by'" "Suc (2 * Suc s) \<le> D"
      have dec: "Suc M - Suc s < Suc M - s" using M by simp
      from less.hyps [OF dec p(3,4)] obtain x y where
        "split_loop a b (int M + 1) (int M) limit (int (Suc (Suc s))) fw' rv' bx' by' = Some (x, y)" "inside a b x y"
        by auto
      then show ?thesis using p(1,2) by (subst eq) simp
    qed
  qed
qed

text \<open>\<open>split\<close> needs what \<open>align\<close> has arranged: both ends of the two slices differ.\<close>

lemma shortest_two:
  assumes sh: "shortest a b D" and ne: "a \<noteq> []" "b \<noteq> []" and d: "hd a \<noteq> hd b" "last a \<noteq> last b"
  shows "1 < D"
proof (rule ccontr)
  have e: "edits a b D (length a) (length b)" using sh by (simp add: shortest_def)
  have h: "a ! 0 \<noteq> b ! 0" using ne d(1) by (simp add: hd_conv_nth)
  assume "\<not> 1 < D"
  then consider "D = 0" | "D = Suc 0" by linarith
  then show False
  proof cases
    case 1
    then show ?thesis using edits_zero [of a b "length a" "length b"] e h ne by auto
  next
    case 2
    then obtain x0 y0 j where e0: "edits a b 0 x0 y0" and
      c: "(length a = Suc x0 + j \<and> length b = y0 + j \<and> (\<forall>i<j. a ! (Suc x0 + i) = b ! (y0 + i))) \<or>
          (length a = x0 + j \<and> length b = Suc y0 + j \<and> (\<forall>i<j. a ! (x0 + i) = b ! (Suc y0 + i)))"
      using edits_Suc [of a b 0 "length a" "length b"] e by auto
    have z: "x0 = y0" "\<forall>i<x0. a ! i = b ! i" using edits_zero [OF e0] by auto
    then have "x0 = 0" using h by (cases x0) auto
    then have "0 < j" "a ! (length a - 1) = b ! (length b - 1)"
      using c z ne by (auto simp: neq0_conv [symmetric] simp del: neq0_conv dest: spec [of _ "j - 1"])
    then show ?thesis using d(2) ne by (simp add: last_conv_nth)
  qed
qed

lemma front_start:
  assumes "diag M arr = (\<lambda>k. if k = 0 then 0 else - 1)"
  shows "front a b 0 (diag M arr)"
  unfolding assms front_def by (auto intro: edits.start)

lemma complete_start:
  assumes "diag M arr = (\<lambda>k. if k = 0 then 0 else - 1)" "a \<noteq> []" "b \<noteq> []" "hd a \<noteq> hd b"
  shows "complete a b D 0 (diag M arr)"
  unfolding assms complete_def
proof (intro allI impI, elim conjE)
  fix x y t
  assume "edits a b 0 x y"
  from edits_zero [OF this] have e: "x = y" "\<forall>i<x. a ! i = b ! i" by auto
  have "a ! 0 \<noteq> b ! 0" using assms by (simp add: hd_conv_nth)
  then have "x = 0" using e by (cases x) auto
  then show "int x \<le> (if int x - int y = 0 then 0 else - 1)" using e by simp
qed

lemma split_point_inside:
  assumes cap: "2 * ((length a + length b + 1) div 2) + 3 \<le> capacity"
    and ne: "a \<noteq> []" "b \<noteq> []" and d: "hd a \<noteq> hd b" "last a \<noteq> last b"
  shows "\<exists>x y. split_point capacity a b = Some (x, y) \<and> inside a b x y"
proof -
  obtain D where sh: "shortest a b D" using shortest_exists by blast
  have D1: "1 < D" by (rule shortest_two [OF sh ne d])
  define M where "M = (length a + length b + 1) div 2"
  define start where "start = (replicate (2 * M + 3) (- 1) :: int list)[nat (int M + 1) := 0]"
  have M: "0 < M" using ne by (cases a; cases b) (auto simp: M_def)
  have dg: "diag M start = (\<lambda>k. if k = 0 then 0 else - 1)"
    by (auto simp: diag_def start_def fun_eq_iff nth_list_update)
  have ap: "aput (replicate (2 * M + 3) (- 1)) (int M + 1) 0 = Some start"
    by (simp add: aput_def start_def)
  have "searching a b D M 0 start start 0 0"
    using front_start [OF dg, of a b] front_start [OF dg, of "rev a" "rev b"] dg
      complete_start [OF dg ne d(1), of D] complete_start [OF dg, of "rev a" "rev b" D] ne d
    by (simp add: searching_def start_def hd_rev)
  moreover have "1 \<le> step_limit (length a + length b)" unfolding step_limit_def by linarith
  ultimately
  obtain x y where "split_loop a b (int M + 1) (int M) (step_limit (length a + length b)) 1 start start 0 0
      = Some (x, y)" "inside a b x y"
    using split_loop_inside [OF sh ne(2) D1, of M 0 start start 0 0 "step_limit (length a + length b)"] D1 M
    by auto
  then show ?thesis using cap ap unfolding split_point_def M_def [symmetric] Let_def by simp
qed

end
