(* ===== verification/Textdiff_Align.thy ===== *)
theory Textdiff_Align
  imports Textdiff_Split
begin

text \<open>
  \<open>appendBlock\<close>, \<open>aligner.align\<close>, \<open>alignIdentifiers\<close>, \<open>appendMiddleBlocks\<close> and
  \<open>commonBlocks\<close> of \<open>internal/checkpoint/textdiff/diff.go\<close>.

  A list of blocks is read as the list of index pairs it matches (\<open>block_pairs\<close>). The
  contract of every operation here is a \<open>matching\<close>: the pairs rise in both indices, are in range
  and pair equal lines. The result of \<open>align\<close> is an option because its array accesses are
  checked; \<open>align_runs\<close> shows that it is never \<open>None\<close>.
\<close>

section \<open>Blocks\<close>

record block =
  a_start :: nat
  b_start :: nat
  run_length :: nat

abbreviation mk_block :: "nat \<Rightarrow> nat \<Rightarrow> nat \<Rightarrow> block" where
  "mk_block i j l \<equiv> \<lparr>a_start = i, b_start = j, run_length = l\<rparr>"

definition slice :: "nat \<Rightarrow> nat \<Rightarrow> 'a list \<Rightarrow> 'a list" where
  "slice i j xs = take (j - i) (drop i xs)"

fun append_block :: "block list \<Rightarrow> nat \<Rightarrow> nat \<Rightarrow> nat \<Rightarrow> block list" where
  "append_block [] i j l = [mk_block i j l]"
| "append_block [p] i j l =
     (if a_start p + run_length p = i \<and> b_start p + run_length p = j
      then [p\<lparr>run_length := run_length p + l\<rparr>] else [p, mk_block i j l])"
| "append_block (p # q # bs) i j l = p # append_block (q # bs) i j l"

text \<open>The number of equal elements two slices start with: the prefix and suffix loops.\<close>

fun common_prefix :: "'a list \<Rightarrow> 'a list \<Rightarrow> nat" where
  "common_prefix (x # xs) (y # ys) = (if x = y then Suc (common_prefix xs ys) else 0)"
| "common_prefix _ _ = 0"

definition common_suffix :: "'a list \<Rightarrow> 'a list \<Rightarrow> nat" where
  "common_suffix xs ys = common_prefix (rev xs) (rev ys)"

lemma common_prefix_le: "common_prefix xs ys \<le> length xs" "common_prefix xs ys \<le> length ys"
  by (induction xs ys rule: common_prefix.induct) auto

lemma common_prefix_eq: "i < common_prefix xs ys \<Longrightarrow> xs ! i = ys ! i"
  by (induction xs ys arbitrary: i rule: common_prefix.induct)
    (auto split: if_splits simp: less_Suc_eq_0_disj)

lemma common_prefix_stop:
  "common_prefix xs ys < length xs \<Longrightarrow> common_prefix xs ys < length ys \<Longrightarrow>
   xs ! common_prefix xs ys \<noteq> ys ! common_prefix xs ys"
  by (induction xs ys rule: common_prefix.induct) (auto split: if_splits)

lemma common_prefix_self [simp]: "common_prefix xs xs = length xs"
  by (induction xs) auto

lemma common_suffix_le: "common_suffix xs ys \<le> length xs" "common_suffix xs ys \<le> length ys"
  using common_prefix_le [of "rev xs" "rev ys"] by (auto simp: common_suffix_def)

lemma common_suffix_eq:
  assumes "i < common_suffix xs ys"
  shows "xs ! (length xs - common_suffix xs ys + i) = ys ! (length ys - common_suffix xs ys + i)"
proof -
  define s where "s = common_suffix xs ys"
  have le: "s \<le> length xs" "s \<le> length ys" using common_suffix_le [of xs ys] by (auto simp: s_def)
  have i: "i < s" using assms by (simp add: s_def)
  then have "rev xs ! (s - Suc i) = rev ys ! (s - Suc i)"
    using common_prefix_eq [of "s - Suc i" "rev xs" "rev ys"] by (simp add: s_def common_suffix_def)
  moreover have "length xs - Suc (s - Suc i) = length xs - s + i"
    "length ys - Suc (s - Suc i) = length ys - s + i" using le i by auto
  ultimately show ?thesis using le i by (simp add: rev_nth flip: s_def)
qed

lemma common_suffix_stop:
  "common_suffix xs ys < length xs \<Longrightarrow> common_suffix xs ys < length ys \<Longrightarrow>
   xs ! (length xs - Suc (common_suffix xs ys)) \<noteq> ys ! (length ys - Suc (common_suffix xs ys))"
  using common_prefix_stop [of "rev xs" "rev ys"] by (simp add: common_suffix_def rev_nth)

lemma length_slice [simp]: "j \<le> length xs \<Longrightarrow> length (slice i j xs) = j - i"
  by (simp add: slice_def)

lemma nth_slice [simp]: "k < j - i \<Longrightarrow> j \<le> length xs \<Longrightarrow> slice i j xs ! k = xs ! (i + k)"
  by (simp add: slice_def)

lemma slice_append: "i \<le> j \<Longrightarrow> j \<le> k \<Longrightarrow> k \<le> length xs \<Longrightarrow> slice i j xs @ slice j k xs = slice i k xs"
  by (rule nth_equalityI) (auto simp: nth_append add.commute)

lemma slice_full [simp]: "slice 0 (length xs) xs = xs"
  by (simp add: slice_def)

section \<open>Alignment\<close>

text \<open>\<open>split\<close> on a rectangle: slicing beyond the end panics, the point is shifted back.\<close>

definition split :: "nat \<Rightarrow> 'a list \<Rightarrow> 'a list \<Rightarrow> nat \<Rightarrow> nat \<Rightarrow> nat \<Rightarrow> nat \<Rightarrow> (nat \<times> nat) option" where
  "split capacity a b aLow aHigh bLow bHigh =
     (if aHigh \<le> length a \<and> bHigh \<le> length b
      then (case split_point capacity (slice aLow aHigh a) (slice bLow bHigh b) of
          None \<Rightarrow> None | Some (x, y) \<Rightarrow> Some (nat (int aLow + x), nat (int bLow + y)))
      else None)"

text \<open>
  The prefix and suffix loops of \<open>align\<close>. Reading past the end of \<open>a\<close> or \<open>b\<close> panics, in
  the suffix loop at the latest.
\<close>

definition strip_prefix :: "'a list \<Rightarrow> 'a list \<Rightarrow> nat \<Rightarrow> nat \<Rightarrow> nat \<Rightarrow> nat \<Rightarrow> nat" where
  "strip_prefix a b aLow aHigh bLow bHigh = common_prefix (slice aLow aHigh a) (slice bLow bHigh b)"

definition strip_suffix :: "'a list \<Rightarrow> 'a list \<Rightarrow> nat \<Rightarrow> nat \<Rightarrow> nat \<Rightarrow> nat \<Rightarrow> nat option" where
  "strip_suffix a b aLow aHigh bLow bHigh =
     (if aLow < aHigh \<and> bLow < bHigh \<and> (length a < aHigh \<or> length b < bHigh) then None
      else Some (common_suffix (slice aLow aHigh a) (slice bLow bHigh b)))"

lemma split_inside:
  assumes sp: "split capacity a b aLow aHigh bLow bHigh = Some (x, y)"
    and lt: "aLow < aHigh" "bLow < bHigh"
    and hd: "a ! aLow \<noteq> b ! bLow" and lst: "a ! (aHigh - 1) \<noteq> b ! (bHigh - 1)"
  shows "aLow \<le> x \<and> x \<le> aHigh \<and> bLow \<le> y \<and> y \<le> bHigh \<and> (x, y) \<noteq> (aLow, bLow) \<and> (x, y) \<noteq> (aHigh, bHigh)"
proof -
  let ?s = "slice aLow aHigh a" and ?t = "slice bLow bHigh b"
  have le: "aHigh \<le> length a" "bHigh \<le> length b"
    using sp by (auto simp: split_def split: if_splits)
  then obtain u v where p: "split_point capacity ?s ?t = Some (u, v)"
      "x = nat (int aLow + u)" "y = nat (int bLow + v)"
    using sp by (auto simp: split_def split: option.splits)
  have ne: "?s \<noteq> []" "?t \<noteq> []" using le lt by (auto simp: slice_def)
  have "hd ?s \<noteq> hd ?t" "last ?s \<noteq> last ?t"
    using hd lst le lt ne by (simp_all add: hd_conv_nth last_conv_nth)
  moreover have "2 * ((length ?s + length ?t + 1) div 2) + 3 \<le> capacity"
    using p(1) by (simp add: split_point_def Let_def split: if_splits)
  ultimately have "inside ?s ?t u v" using split_point_inside [of ?s ?t capacity] ne p(1) by auto
  then show ?thesis using p(2,3) le lt by (auto simp: inside_def)
qed

lemma split_total:
  assumes cap: "2 * ((aHigh - aLow + (bHigh - bLow) + 1) div 2) + 3 \<le> capacity"
    and le: "aHigh \<le> length a" "bHigh \<le> length b" and lt: "aLow < aHigh" "bLow < bHigh"
    and hd: "a ! aLow \<noteq> b ! bLow" and lst: "a ! (aHigh - 1) \<noteq> b ! (bHigh - 1)"
  shows "\<exists>p. split capacity a b aLow aHigh bLow bHigh = Some p"
proof -
  let ?s = "slice aLow aHigh a" and ?t = "slice bLow bHigh b"
  have ne: "?s \<noteq> []" "?t \<noteq> []" using le lt by (auto simp: slice_def)
  have "hd ?s \<noteq> hd ?t" "last ?s \<noteq> last ?t"
    using hd lst le lt ne by (simp_all add: hd_conv_nth last_conv_nth)
  then obtain u v where "split_point capacity ?s ?t = Some (u, v)"
    using split_point_inside [of ?s ?t capacity] ne cap le by auto
  then show ?thesis using le by (simp add: split_def)
qed

text \<open>The corners of the stripped rectangle differ, as \<open>split\<close> needs.\<close>

lemma stripped:
  assumes p: "p = strip_prefix a b aLow aHigh bLow bHigh"
    and s: "strip_suffix a b (aLow + p) aHigh (bLow + p) bHigh = Some s"
    and lt: "aLow + p < aHigh - s" "bLow + p < bHigh - s"
  shows "aHigh \<le> length a" "bHigh \<le> length b"
    "a ! (aLow + p) \<noteq> b ! (bLow + p)" "a ! (aHigh - s - 1) \<noteq> b ! (bHigh - s - 1)"
proof -
  let ?u = "slice (aLow + p) aHigh a" and ?v = "slice (bLow + p) bHigh b"
  have sc: "common_suffix ?u ?v = s" using s lt by (auto simp: strip_suffix_def split: if_splits)
  show le: "aHigh \<le> length a" "bHigh \<le> length b"
    using s lt by (auto simp: strip_suffix_def split: if_splits)
  show "a ! (aLow + p) \<noteq> b ! (bLow + p)"
    using common_prefix_stop [of "slice aLow aHigh a" "slice bLow bHigh b"] le lt
    by (simp add: p strip_prefix_def)
  have lens: "length ?u = aHigh - (aLow + p)" "length ?v = bHigh - (bLow + p)" using le by auto
  have "?u ! (length ?u - Suc s) \<noteq> ?v ! (length ?v - Suc s)"
    using common_suffix_stop [of ?u ?v] lt lens unfolding sc by simp
  moreover have "?u ! (length ?u - Suc s) = a ! (aHigh - s - 1)"
    "?v ! (length ?v - Suc s) = b ! (bHigh - s - 1)"
    using le lt lens by (simp_all add: nth_slice)
  ultimately show "a ! (aHigh - s - 1) \<noteq> b ! (bHigh - s - 1)" by simp
qed

lemma align_rect:
  assumes st: "strip_suffix a b (aLow + strip_prefix a b aLow aHigh bLow bHigh) aHigh
      (bLow + strip_prefix a b aLow aHigh bLow bHigh) bHigh = Some s"
    and lt: "aLow + strip_prefix a b aLow aHigh bLow bHigh < aHigh - s"
      "bLow + strip_prefix a b aLow aHigh bLow bHigh < bHigh - s"
    and sp: "split capacity a b (aLow + strip_prefix a b aLow aHigh bLow bHigh) (aHigh - s)
      (bLow + strip_prefix a b aLow aHigh bLow bHigh) (bHigh - s) = Some (x, y)"
  shows "x - (aLow + strip_prefix a b aLow aHigh bLow bHigh) +
      (y - (bLow + strip_prefix a b aLow aHigh bLow bHigh)) < aHigh - aLow + (bHigh - bLow)"
    "aHigh - s - x + (bHigh - s - y) < aHigh - aLow + (bHigh - bLow)"
    "aLow + strip_prefix a b aLow aHigh bLow bHigh \<le> x" "x \<le> aHigh - s"
    "bLow + strip_prefix a b aLow aHigh bLow bHigh \<le> y" "y \<le> bHigh - s"
proof -
  note in_rect = split_inside [OF sp lt stripped(3,4) [OF refl st lt]]
  show "x - (aLow + strip_prefix a b aLow aHigh bLow bHigh) +
      (y - (bLow + strip_prefix a b aLow aHigh bLow bHigh)) < aHigh - aLow + (bHigh - bLow)"
    "aHigh - s - x + (bHigh - s - y) < aHigh - aLow + (bHigh - bLow)"
    using in_rect lt by auto
  show "aLow + strip_prefix a b aLow aHigh bLow bHigh \<le> x" "x \<le> aHigh - s"
    "bLow + strip_prefix a b aLow aHigh bLow bHigh \<le> y" "y \<le> bHigh - s"
    using in_rect by auto
qed

function align ::
  "nat \<Rightarrow> 'a list \<Rightarrow> 'a list \<Rightarrow> nat \<Rightarrow> nat \<Rightarrow> nat \<Rightarrow> nat \<Rightarrow> block list \<Rightarrow> block list option" where
  "align capacity a b aLow aHigh bLow bHigh runs =
     (let pre = strip_prefix a b aLow aHigh bLow bHigh;
          runs1 = (if 0 < pre then append_block runs aLow bLow pre else runs);
          aLow1 = aLow + pre; bLow1 = bLow + pre
      in case strip_suffix a b aLow1 aHigh bLow1 bHigh of
           None \<Rightarrow> None
         | Some suf \<Rightarrow>
           (let aHigh1 = aHigh - suf; bHigh1 = bHigh - suf
            in case (if aLow1 < aHigh1 \<and> bLow1 < bHigh1
                 then (case split capacity a b aLow1 aHigh1 bLow1 bHigh1 of
                     None \<Rightarrow> None
                   | Some (aSplit, bSplit) \<Rightarrow>
                     (case align capacity a b aLow1 aSplit bLow1 bSplit runs1 of
                        None \<Rightarrow> None
                      | Some runs2 \<Rightarrow> align capacity a b aSplit aHigh1 bSplit bHigh1 runs2))
                 else Some runs1) of
                None \<Rightarrow> None
              | Some runs3 \<Rightarrow>
                  Some (if 0 < suf then append_block runs3 aHigh1 bHigh1 suf else runs3)))"
  by pat_completeness auto
termination
  by (relation "measure (\<lambda>(capacity, a, b, aLow, aHigh, bLow, bHigh, runs). (aHigh - aLow) + (bHigh - bLow))")
    (simp_all only: in_measure prod.case wf_measure, (elim conjE, hypsubst, (rule align_rect(1, 2), assumption+))+)

declare align.simps [simp del]

section \<open>Matchings\<close>

definition run_pairs :: "nat \<Rightarrow> nat \<Rightarrow> nat \<Rightarrow> (nat \<times> nat) list" where
  "run_pairs i j l = map (\<lambda>k. (i + k, j + k)) [0..<l]"

definition block_pairs :: "block list \<Rightarrow> (nat \<times> nat) list" where
  "block_pairs bs = concat (map (\<lambda>p. run_pairs (a_start p) (b_start p) (run_length p)) bs)"

definition rising :: "(nat \<times> nat) list \<Rightarrow> bool" where
  "rising = sorted_wrt (\<lambda>p q. fst p < fst q \<and> snd p < snd q)"

definition matching :: "'a list \<Rightarrow> 'a list \<Rightarrow> (nat \<times> nat) list \<Rightarrow> bool" where
  "matching a b ps \<longleftrightarrow> rising ps \<and> (\<forall>(i, j)\<in>set ps. i < length a \<and> j < length b \<and> a ! i = b ! j)"

text \<open>A matching inside a rectangle of \<open>a\<close> and \<open>b\<close>.\<close>

definition matching_in ::
  "'a list \<Rightarrow> 'a list \<Rightarrow> nat \<Rightarrow> nat \<Rightarrow> nat \<Rightarrow> nat \<Rightarrow> (nat \<times> nat) list \<Rightarrow> bool" where
  "matching_in a b i i' j j' ps \<longleftrightarrow> matching a b ps \<and>
     (\<forall>(p, q)\<in>set ps. i \<le> p \<and> p < i' \<and> j \<le> q \<and> q < j')"

lemma run_pairs_simps [simp]: "run_pairs i j 0 = []" "run_pairs i j (Suc l) = run_pairs i j l @ [(i + l, j + l)]"
  by (simp_all add: run_pairs_def)

lemma set_run_pairs: "set (run_pairs i j l) = {(i + k, j + k) |k. k < l}"
  by (auto simp: run_pairs_def)

lemma run_pairs_add: "run_pairs i j (l + m) = run_pairs i j l @ run_pairs (i + l) (j + l) m"
  by (induction m) (auto simp: add.assoc)

lemma block_pairs_simps [simp]:
  "block_pairs [] = []"
  "block_pairs (p # bs) = run_pairs (a_start p) (b_start p) (run_length p) @ block_pairs bs"
  "block_pairs (bs @ cs) = block_pairs bs @ block_pairs cs"
  by (simp_all add: block_pairs_def)

lemma append_block_pairs [simp]: "block_pairs (append_block bs i j l) = block_pairs bs @ run_pairs i j l"
  by (induction bs i j l rule: append_block.induct) (auto simp: run_pairs_add)

lemma append_block_positive:
  "\<forall>p\<in>set bs. 0 < run_length p \<Longrightarrow> 0 < l \<Longrightarrow> \<forall>p\<in>set (append_block bs i j l). 0 < run_length p"
  by (induction bs i j l rule: append_block.induct) auto

lemma rising_run: "rising (run_pairs i j l)"
  by (induction l) (auto simp: rising_def sorted_wrt_append set_run_pairs)

lemma rising_append: "rising (ps @ qs) \<longleftrightarrow> rising ps \<and> rising qs \<and>
    (\<forall>p\<in>set ps. \<forall>q\<in>set qs. fst p < fst q \<and> snd p < snd q)"
  by (simp add: rising_def sorted_wrt_append)

lemma rising_Nil [simp]: "rising []"
  by (simp add: rising_def)

lemma matching_in_Nil [simp]: "matching_in a b i i' j j' []"
  by (simp add: matching_in_def matching_def)

lemma matching_in_append:
  assumes "matching_in a b i x j y ps" "matching_in a b x i' y j' qs" "i \<le> x" "x \<le> i'" "j \<le> y" "y \<le> j'"
  shows "matching_in a b i i' j j' (ps @ qs)"
  using assms unfolding matching_in_def matching_def rising_append by fastforce

lemma matching_in_run:
  assumes "\<forall>k<l. a ! (i + k) = b ! (j + k)" "i + l \<le> length a" "j + l \<le> length b"
  shows "matching_in a b i (i + l) j (j + l) (run_pairs i j l)"
  using assms by (auto simp: matching_in_def matching_def rising_run set_run_pairs)

lemma strip_prefix_run:
  assumes "aHigh \<le> length a" "bHigh \<le> length b"
  and p_def: "p = strip_prefix a b aLow aHigh bLow bHigh"
  shows "p \<le> aHigh - aLow" "p \<le> bHigh - bLow" "k < p \<Longrightarrow> a ! (aLow + k) = b ! (bLow + k)"
proof -
  show le: "p \<le> aHigh - aLow" "p \<le> bHigh - bLow"
    using common_prefix_le [of "slice aLow aHigh a" "slice bLow bHigh b"] assms(1,2)
    unfolding p_def strip_prefix_def by simp_all
  show "k < p \<Longrightarrow> a ! (aLow + k) = b ! (bLow + k)"
    using common_prefix_eq [of k "slice aLow aHigh a" "slice bLow bHigh b"] assms(1,2) le
    unfolding p_def strip_prefix_def by simp
qed

lemma strip_suffix_run:
  assumes le: "aHigh \<le> length a" "bHigh \<le> length b" "aLow \<le> aHigh" "bLow \<le> bHigh"
  shows "\<exists>s. strip_suffix a b aLow aHigh bLow bHigh = Some s \<and> s \<le> aHigh - aLow \<and> s \<le> bHigh - bLow \<and>
    (\<forall>k<s. a ! (aHigh - s + k) = b ! (bHigh - s + k))"
proof -
  let ?u = "slice aLow aHigh a" and ?v = "slice bLow bHigh b"
  define s where "s = common_suffix ?u ?v"
  have sl: "s \<le> aHigh - aLow" "s \<le> bHigh - bLow"
    using common_suffix_le [of ?u ?v] le unfolding s_def by simp_all
  have "a ! (aHigh - s + k) = b ! (bHigh - s + k)" if k: "k < s" for k
  proof -
    have "?u ! (aHigh - aLow - s + k) = ?v ! (bHigh - bLow - s + k)"
      using common_suffix_eq [of k ?u ?v] k le unfolding s_def by simp
    moreover have "aLow + (aHigh - aLow - s + k) = aHigh - s + k"
      "bLow + (bHigh - bLow - s + k) = bHigh - s + k" using sl le by auto
    ultimately show ?thesis using k sl le by simp
  qed
  moreover have "strip_suffix a b aLow aHigh bLow bHigh = Some s"
    using le by (simp add: strip_suffix_def s_def)
  ultimately show ?thesis using sl by blast
qed

text \<open>\<open>align\<close> never panics and adds a matching of its rectangle to the runs.\<close>

lemma align_runs:
  assumes "2 * ((aHigh - aLow + (bHigh - bLow) + 1) div 2) + 3 \<le> capacity"
    and "aHigh \<le> length a" "bHigh \<le> length b" "aLow \<le> aHigh" "bLow \<le> bHigh"
    and "\<forall>p\<in>set runs. 0 < run_length p"
  shows "\<exists>runs' ps. align capacity a b aLow aHigh bLow bHigh runs = Some runs' \<and>
    block_pairs runs' = block_pairs runs @ ps \<and> matching_in a b aLow aHigh bLow bHigh ps \<and>
    (\<forall>p\<in>set runs'. 0 < run_length p)"
  using assms
proof (induction "aHigh - aLow + (bHigh - bLow)" arbitrary: aLow aHigh bLow bHigh runs rule: less_induct)
  case less
  note le = less.prems(2-5)
  define p where "p = strip_prefix a b aLow aHigh bLow bHigh"
  note P = strip_prefix_run [OF le(1,2) p_def]
  obtain s where s: "strip_suffix a b (aLow + p) aHigh (bLow + p) bHigh = Some s"
    and S: "s \<le> aHigh - (aLow + p)" "s \<le> bHigh - (bLow + p)" "\<forall>k<s. a ! (aHigh - s + k) = b ! (bHigh - s + k)"
  proof -
    have "aLow + p \<le> aHigh" "bLow + p \<le> bHigh" using P(1,2) le by auto
    then show thesis using strip_suffix_run [OF le(1,2)] that by blast
  qed
  define runs1 where "runs1 = (if 0 < p then append_block runs aLow bLow p else runs)"
  define fin where "fin r = (if 0 < s then append_block r (aHigh - s) (bHigh - s) s else r)" for r
  have r1: "block_pairs runs1 = block_pairs runs @ run_pairs aLow bLow p" "\<forall>q\<in>set runs1. 0 < run_length q"
    using append_block_positive [OF less.prems(6)] less.prems(6) by (auto simp: runs1_def)
  have m1: "matching_in a b aLow (aLow + p) bLow (bLow + p) (run_pairs aLow bLow p)"
    using P le by (intro matching_in_run) auto
  have fin: "block_pairs (fin r) = block_pairs r @ run_pairs (aHigh - s) (bHigh - s) s" for r
    by (simp add: fin_def)
  have m3: "matching_in a b (aHigh - s) aHigh (bHigh - s) bHigh (run_pairs (aHigh - s) (bHigh - s) s)"
    using matching_in_run [of s a "aHigh - s" b "bHigh - s"] S le by simp
  have eq: "align capacity a b aLow aHigh bLow bHigh runs =
      (case (if aLow + p < aHigh - s \<and> bLow + p < bHigh - s
         then (case split capacity a b (aLow + p) (aHigh - s) (bLow + p) (bHigh - s) of
             None \<Rightarrow> None
           | Some (x, y) \<Rightarrow>
             (case align capacity a b (aLow + p) x (bLow + p) y runs1 of
                None \<Rightarrow> None
              | Some r \<Rightarrow> align capacity a b x (aHigh - s) y (bHigh - s) r))
         else Some runs1) of
       None \<Rightarrow> None | Some r \<Rightarrow> Some (fin r))"
    unfolding align.simps [of capacity a b aLow aHigh bLow bHigh runs] Let_def p_def [symmetric]
      runs1_def [symmetric] s option.case fin_def by (rule refl)
  have finish: ?case if mid: "align capacity a b aLow aHigh bLow bHigh runs = Some (fin r)"
      "block_pairs r = block_pairs runs1 @ ps" "matching_in a b (aLow + p) (aHigh - s) (bLow + p) (bHigh - s) ps"
      "\<forall>q\<in>set r. 0 < run_length q" for r ps
  proof -
    have "matching_in a b aLow (aHigh - s) bLow (bHigh - s) (run_pairs aLow bLow p @ ps)"
      using matching_in_append [OF m1 mid(3)] P S le by simp
    from matching_in_append [OF this m3] have "matching_in a b aLow aHigh bLow bHigh
        ((run_pairs aLow bLow p @ ps) @ run_pairs (aHigh - s) (bHigh - s) s)" using P S le by simp
    moreover have "\<forall>q\<in>set (fin r). 0 < run_length q" using append_block_positive [OF mid(4)] mid(4) by (simp add: fin_def)
    ultimately show ?case using mid(1,2) fin r1(1) by (metis append.assoc)
  qed
  show ?case
  proof (cases "aLow + p < aHigh - s \<and> bLow + p < bHigh - s")
    case False
    then have "align capacity a b aLow aHigh bLow bHigh runs = Some (fin runs1)"
      unfolding eq by auto
    then show ?thesis using finish [of runs1 "[]"] r1(2) by simp
  next
    case True
    note lt = conjunct1 [OF True] conjunct2 [OF True]
    have cap: "2 * ((aHigh - s - (aLow + p) + (bHigh - s - (bLow + p)) + 1) div 2) + 3 \<le> capacity"
      using less.prems(1) by (rule order_trans [rotated]) auto
    obtain x y where sp: "split capacity a b (aLow + p) (aHigh - s) (bLow + p) (bHigh - s) = Some (x, y)"
    proof -
      have "aHigh - s \<le> length a" "bHigh - s \<le> length b" using le by auto
      from split_total [OF cap this lt stripped(3,4) [OF p_def s lt]] that show thesis by auto
    qed
    note R = align_rect [OF s [unfolded p_def] lt [unfolded p_def] sp [unfolded p_def], folded p_def]
    have mono: "2 * ((m + 1) div 2) + 3 \<le> capacity" if "m \<le> aHigh - aLow + (bHigh - bLow)" for m
      using less.prems(1) that by (elim order_trans [rotated]) auto
    obtain runs2 ps where r2: "align capacity a b (aLow + p) x (bLow + p) y runs1 = Some runs2"
      "block_pairs runs2 = block_pairs runs1 @ ps" "matching_in a b (aLow + p) x (bLow + p) y ps"
      "\<forall>q\<in>set runs2. 0 < run_length q"
    proof -
      have "x \<le> length a" "y \<le> length b" "x - (aLow + p) + (y - (bLow + p)) \<le> aHigh - aLow + (bHigh - bLow)"
        using R le by auto
      from less.hyps [OF R(1) mono [OF this(3)] this(1,2) R(3,5) r1(2)] that show thesis by blast
    qed
    obtain runs3 qs where r3: "align capacity a b x (aHigh - s) y (bHigh - s) runs2 = Some runs3"
      "block_pairs runs3 = block_pairs runs2 @ qs" "matching_in a b x (aHigh - s) y (bHigh - s) qs"
      "\<forall>q\<in>set runs3. 0 < run_length q"
    proof -
      have "aHigh - s \<le> length a" "bHigh - s \<le> length b"
        "aHigh - s - x + (bHigh - s - y) \<le> aHigh - aLow + (bHigh - bLow)"
        using R le by auto
      from less.hyps [OF R(2) mono [OF this(3)] this(1,2) R(4,6) r2(4)] that show thesis by blast
    qed
    have "align capacity a b aLow aHigh bLow bHigh runs = Some (fin runs3)"
      unfolding eq using True sp r2(1) r3(1) by simp
    moreover have "matching_in a b (aLow + p) (aHigh - s) (bLow + p) (bHigh - s) (ps @ qs)"
      using matching_in_append [OF r2(3) r3(3) R(3,4,5,6)] .
    ultimately show ?thesis using finish [of runs3 "ps @ qs"] r2(2) r3(2,4) by simp
  qed
qed

definition align_identifiers :: "'a list \<Rightarrow> 'a list \<Rightarrow> block list option" where
  "align_identifiers a b =
     align (2 * ((length a + length b + 1) div 2) + 3) a b 0 (length a) 0 (length b) []"

lemma align_identifiers_matching:
  "\<exists>runs. align_identifiers a b = Some runs \<and> matching a b (block_pairs runs)"
  using align_runs [of "length a" 0 "length b" 0 "2 * ((length a + length b + 1) div 2) + 3" a b "[]"]
  unfolding align_identifiers_def matching_in_def by auto

section \<open>The blocks two texts share\<close>

text \<open>
  The map \<open>identifierOf\<close> as an association list: a line gets the next number when it is new.
\<close>

fun number_lines :: "('a \<times> nat) list \<Rightarrow> 'a list \<Rightarrow> nat list \<times> ('a \<times> nat) list" where
  "number_lines known [] = ([], known)"
| "number_lines known (line # ls) =
     (case map_of known line of
        Some identifier \<Rightarrow>
          (case number_lines known ls of (ids, known') \<Rightarrow> (identifier # ids, known'))
      | None \<Rightarrow>
          (case number_lines ((line, length known) # known) ls of
             (ids, known') \<Rightarrow> (length known # ids, known')))"

text \<open>The lines of \<open>b\<close> that \<open>a\<close> has, with their indices.\<close>

fun kept_b :: "('a \<times> nat) list \<Rightarrow> nat \<Rightarrow> 'a list \<Rightarrow> (nat \<times> nat) list" where
  "kept_b known index [] = []"
| "kept_b known index (line # ls) =
     (case map_of known line of
        None \<Rightarrow> kept_b known (Suc index) ls
      | Some identifier \<Rightarrow> (identifier, index) # kept_b known (Suc index) ls)"

definition shared_identifiers :: "nat \<Rightarrow> nat list \<Rightarrow> bool list" where
  "shared_identifiers count identifiers =
     foldl (\<lambda>shared identifier. shared[identifier := True]) (replicate count False) identifiers"

fun kept_a :: "bool list \<Rightarrow> nat \<Rightarrow> nat list \<Rightarrow> (nat \<times> nat) list" where
  "kept_a shared index [] = []"
| "kept_a shared index (identifier # ids) =
     (if shared ! identifier then (identifier, index) # kept_a shared (Suc index) ids
      else kept_a shared (Suc index) ids)"

text \<open>The two loops over the runs and over the positions of a run.\<close>

definition append_run :: "nat list \<Rightarrow> nat list \<Rightarrow> nat \<Rightarrow> block list \<Rightarrow> block \<Rightarrow> block list" where
  "append_run keptAIndex keptBIndex offset blocks run =
     foldl (\<lambda>bs position. append_block bs (keptAIndex ! (a_start run + position) + offset)
         (keptBIndex ! (b_start run + position) + offset) 1)
       blocks [0..<run_length run]"

definition append_middle_blocks :: "block list \<Rightarrow> 'a list \<Rightarrow> 'a list \<Rightarrow> nat \<Rightarrow> block list option" where
  "append_middle_blocks blocks a b offset =
     (if a = [] \<or> b = [] then Some blocks
      else case number_lines [] a of (aIdentifiers, identifierOf) \<Rightarrow>
        (let keptB = kept_b identifierOf 0 b;
             shared = shared_identifiers (length identifierOf) (map fst keptB);
             keptA = kept_a shared 0 aIdentifiers
         in if keptA = [] \<or> keptB = [] then Some blocks
            else (case align_identifiers (map fst keptA) (map fst keptB) of
                None \<Rightarrow> None
              | Some runs \<Rightarrow> Some (foldl (append_run (map snd keptA) (map snd keptB) offset) blocks runs))))"

definition common_blocks :: "'a list \<Rightarrow> 'a list \<Rightarrow> block list option" where
  "common_blocks a b =
     (let pre = common_prefix a b;
          suf = common_suffix (drop pre a) (drop pre b);
          blocks = (if 0 < pre then [mk_block 0 0 pre] else [])
      in case append_middle_blocks blocks (slice pre (length a - suf) a) (slice pre (length b - suf) b) pre of
           None \<Rightarrow> None
         | Some blocks' \<Rightarrow>
             Some (if 0 < suf then append_block blocks' (length a - suf) (length b - suf) suf else blocks'))"

subsection \<open>Identifiers stand for lines\<close>

definition numbering :: "('a \<times> nat) list \<Rightarrow> bool" where
  "numbering known \<longleftrightarrow> (\<forall>l i. map_of known l = Some i \<longrightarrow> i < length known) \<and>
     (\<forall>l l' i. map_of known l = Some i \<longrightarrow> map_of known l' = Some i \<longrightarrow> l = l')"

lemma numbering_Cons: "numbering known \<Longrightarrow> map_of known l = None \<Longrightarrow> numbering ((l, length known) # known)"
  unfolding numbering_def by (auto split: if_splits) (metis less_SucI less_irrefl)+

lemma number_lines_spec:
  "number_lines known ls = (ids, known') \<Longrightarrow> numbering known \<Longrightarrow>
   numbering known' \<and> map_of known \<subseteq>\<^sub>m map_of known' \<and>
   list_all2 (\<lambda>l i. map_of known' l = Some i) ls ids"
proof (induction known ls arbitrary: ids known' rule: number_lines.induct)
  case (2 known line ls)
  show ?case
  proof (cases "map_of known line")
    case None
    then obtain ids' where n: "number_lines ((line, length known) # known) ls = (ids', known')"
        "ids = length known # ids'"
      using 2(3) by (auto split: prod.splits)
    note ih = 2(1) [OF None n(1) numbering_Cons [OF 2(4) None]]
    have sub: "map_of ((line, length known) # known) \<subseteq>\<^sub>m map_of known'" using ih by blast
    have "map_of known \<subseteq>\<^sub>m map_of ((line, length known) # known)" using None by (auto simp: map_le_def)
    moreover have "map_of known' line = Some (length known)" using sub by (force simp: map_le_def)
    ultimately show ?thesis using ih n(2) sub map_le_trans by auto
  next
    case (Some i)
    then obtain ids' where n: "number_lines known ls = (ids', known')" "ids = i # ids'"
      using 2(3) by (auto split: prod.splits)
    have ih: "numbering known' \<and> map_of known \<subseteq>\<^sub>m map_of known' \<and>
        list_all2 (\<lambda>l i. map_of known' l = Some i) ls ids'" using 2(2) [OF Some n(1) 2(4)] .
    moreover have "map_of known' line = Some i" using ih Some by (auto simp: map_le_def dom_def)
    ultimately show ?thesis using n(2) by simp
  qed
qed auto

text \<open>The kept lists rise in their indices and name lines of the texts.\<close>

definition kept_of :: "('a \<times> nat) list \<Rightarrow> 'a list \<Rightarrow> nat \<Rightarrow> (nat \<times> nat) list \<Rightarrow> bool" where
  "kept_of known ls index kept \<longleftrightarrow> sorted_wrt (<) (map snd kept) \<and>
     (\<forall>(i, k)\<in>set kept. index \<le> k \<and> k < index + length ls \<and> map_of known (ls ! (k - index)) = Some i)"

lemma kept_of_skip: "kept_of known ls (Suc index) kept \<Longrightarrow> kept_of known (l # ls) index kept"
  by (auto simp: kept_of_def nth_Cons' Suc_diff_Suc)

lemma kept_of_take:
  "kept_of known ls (Suc index) kept \<Longrightarrow> map_of known l = Some i \<Longrightarrow>
   kept_of known (l # ls) index ((i, index) # kept)"
  by (force simp: kept_of_def nth_Cons')

lemma kept_b_spec: "kept_of known ls index (kept_b known index ls)"
  by (induction known index ls rule: kept_b.induct)
    (auto split: option.splits intro: kept_of_skip kept_of_take, simp add: kept_of_def)

lemma kept_a_spec: "list_all2 (\<lambda>l i. map_of known l = Some i) ls ids \<Longrightarrow>
    kept_of known ls index (kept_a shared index ids)"
proof (induction shared index ids arbitrary: ls rule: kept_a.induct)
  case (1 shared index)
  then show ?case by (simp add: kept_of_def)
next
  case (2 shared index i ids)
  then obtain l ls' where ls: "ls = l # ls'" "map_of known l = Some i"
      "list_all2 (\<lambda>l i. map_of known l = Some i) ls' ids"
    by (auto simp: list_all2_Cons2)
  then show ?case using 2(1) [OF _ ls(3)] 2(2) [OF _ ls(3)] by (auto intro: kept_of_skip kept_of_take)
qed

subsection \<open>The blocks are a matching\<close>

lemma append_run_pairs [simp]:
  "block_pairs (append_run ia ib offset bs run) = block_pairs bs @
     map (\<lambda>(p, q). (ia ! p + offset, ib ! q + offset)) (run_pairs (a_start run) (b_start run) (run_length run))"
proof -
  have "block_pairs (foldl (\<lambda>bs k. append_block bs (f k) (g k) 1) bs [0..<l]) =
      block_pairs bs @ map (\<lambda>k. (f k, g k)) [0..<l]" for f g :: "nat \<Rightarrow> nat" and l
    by (induction l) simp_all
  then show ?thesis by (simp add: append_run_def run_pairs_def comp_def)
qed

lemma append_run_positive:
  assumes "\<forall>p\<in>set bs. 0 < run_length p"
  shows "\<forall>p\<in>set (append_run ia ib offset bs run). 0 < run_length p"
proof -
  have "\<forall>p\<in>set (foldl (\<lambda>bs k. append_block bs (f k) (g k) 1) bs [0..<l]). 0 < run_length p"
    for f g :: "nat \<Rightarrow> nat" and l
  proof (induction l)
    case (Suc l)
    then show ?case using append_block_positive [OF Suc.IH, of 1] by simp
  qed (use assms in simp)
  then show ?thesis by (simp add: append_run_def)
qed

lemma append_runs:
  "block_pairs (foldl (append_run ia ib offset) bs runs) =
     block_pairs bs @ map (\<lambda>(p, q). (ia ! p + offset, ib ! q + offset)) (block_pairs runs)"
  "\<forall>p\<in>set bs. 0 < run_length p \<Longrightarrow> \<forall>p\<in>set (foldl (append_run ia ib offset) bs runs). 0 < run_length p"
proof -
  show "block_pairs (foldl (append_run ia ib offset) bs runs) =
     block_pairs bs @ map (\<lambda>(p, q). (ia ! p + offset, ib ! q + offset)) (block_pairs runs)"
    by (induction runs arbitrary: bs) simp_all
  show "\<forall>p\<in>set bs. 0 < run_length p \<Longrightarrow> \<forall>p\<in>set (foldl (append_run ia ib offset) bs runs). 0 < run_length p"
  proof (induction runs arbitrary: bs)
    case (Cons r runs)
    show ?case using Cons.IH [OF append_run_positive [OF Cons.prems]] by simp
  qed simp
qed

lemma matching_kept:
  assumes ka: "kept_of known a 0 ka" and kb: "kept_of known b 0 kb" and nm: "numbering known"
    and m: "matching (map fst ka) (map fst kb) ps"
  shows "matching a b (map (\<lambda>(p, q). (map snd ka ! p, map snd kb ! q)) ps)"
proof -
  have at: "p < length kept \<Longrightarrow> map snd kept ! p < length ls \<and>
      map_of known (ls ! (map snd kept ! p)) = Some (map fst kept ! p)"
    if "kept_of known ls 0 kept" for kept ls p
  proof -
    assume "p < length kept"
    then have "case kept ! p of (i, k) \<Rightarrow> k < length ls \<and> map_of known (ls ! k) = Some i"
      using that nth_mem [of p kept] unfolding kept_of_def by fastforce
    then show ?thesis using \<open>p < length kept\<close> by (simp add: case_prod_unfold)
  qed
  have up: "p < p' \<Longrightarrow> p' < length kept \<Longrightarrow> map snd kept ! p < map snd kept ! p'"
    if "kept_of known ls 0 kept" for kept ls p p'
    using that sorted_wrt_nth_less [of "(<)" "map snd kept" p p'] by (simp add: kept_of_def)
  have in_range: "p < length ka \<and> q < length kb \<and> map fst ka ! p = map fst kb ! q" if "(p, q) \<in> set ps" for p q
    using m that by (auto simp: matching_def)
  have "rising (map (\<lambda>(p, q). (map snd ka ! p, map snd kb ! q)) ps)"
    unfolding rising_def sorted_wrt_map
  proof (rule sorted_wrt_mono_rel [of ps])
    show "sorted_wrt (\<lambda>p q. fst p < fst q \<and> snd p < snd q) ps"
      using m by (simp add: matching_def rising_def)
    fix x y
    assume "x \<in> set ps" "y \<in> set ps" "fst x < fst y \<and> snd x < snd y"
    then show "fst (case x of (p, q) \<Rightarrow> (map snd ka ! p, map snd kb ! q)) < fst (case y of (p, q) \<Rightarrow> (map snd ka ! p, map snd kb ! q)) \<and>
      snd (case x of (p, q) \<Rightarrow> (map snd ka ! p, map snd kb ! q)) < snd (case y of (p, q) \<Rightarrow> (map snd ka ! p, map snd kb ! q))"
      using up [OF ka] up [OF kb] in_range by (auto split: prod.splits)
  qed
  moreover have "map snd ka ! p < length a \<and> map snd kb ! q < length b \<and>
      a ! (map snd ka ! p) = b ! (map snd kb ! q)" if "(p, q) \<in> set ps" for p q
    using at [OF ka, of p] at [OF kb, of q] in_range [OF that] nm unfolding numbering_def by metis
  ultimately show ?thesis by (auto simp: matching_def)
qed

lemma append_middle_blocks_matching:
  assumes pos: "\<forall>p\<in>set blocks. 0 < run_length p"
  shows "\<exists>blocks' ps. append_middle_blocks blocks a b offset = Some blocks' \<and>
    block_pairs blocks' = block_pairs blocks @ map (\<lambda>(p, q). (p + offset, q + offset)) ps \<and>
    matching a b ps \<and> (\<forall>p\<in>set blocks'. 0 < run_length p)"
proof (cases "a = [] \<or> b = []")
  case True
  then show ?thesis using pos
    by (intro exI [of _ blocks] exI [of _ "[]"]) (auto simp: append_middle_blocks_def matching_def)
next
  case False
  obtain ids known where n: "number_lines [] a = (ids, known)" by (metis surj_pair)
  have nm: "numbering known" "list_all2 (\<lambda>l i. map_of known l = Some i) a ids"
    using number_lines_spec [OF n] by (auto simp: numbering_def)
  define kb where "kb = kept_b known 0 b"
  define ka where "ka = kept_a (shared_identifiers (length known) (map fst kb)) 0 ids"
  have k: "kept_of known a 0 ka" "kept_of known b 0 kb"
    using kept_a_spec [OF nm(2)] kept_b_spec by (auto simp: ka_def kb_def)
  show ?thesis
  proof (cases "ka = [] \<or> kb = []")
    case True
    then have "append_middle_blocks blocks a b offset = Some blocks"
      using False n by (auto simp: append_middle_blocks_def ka_def kb_def Let_def)
    then show ?thesis using pos by (intro exI [of _ blocks] exI [of _ "[]"]) (auto simp: matching_def)
  next
    case no: False
    obtain runs where r: "align_identifiers (map fst ka) (map fst kb) = Some runs"
        "matching (map fst ka) (map fst kb) (block_pairs runs)"
      using align_identifiers_matching by blast
    have "append_middle_blocks blocks a b offset =
        Some (foldl (append_run (map snd ka) (map snd kb) offset) blocks runs)"
      using False no n r(1) by (simp add: append_middle_blocks_def Let_def flip: kb_def ka_def)
    moreover note matching_kept [OF k nm(1) r(2)]
    moreover have "map (\<lambda>(p, q). (p + offset, q + offset))
        (map (\<lambda>(p, q). (map snd ka ! p, map snd kb ! q)) (block_pairs runs)) =
      map (\<lambda>(p, q). (map snd ka ! p + offset, map snd kb ! q + offset)) (block_pairs runs)"
      by (simp add: case_prod_unfold)
    ultimately show ?thesis using append_runs [where bs = blocks] pos by metis
  qed
qed

lemma matching_shift:
  assumes m: "matching (slice i i' a) (slice i j' b) ps" and le: "i' \<le> length a" "j' \<le> length b"
  shows "matching_in a b i i' i j' (map (\<lambda>(p, q). (p + i, q + i)) ps)"
proof -
  have "rising (map (\<lambda>(p, q). (p + i, q + i)) ps)"
    using m by (simp add: matching_def rising_def sorted_wrt_map case_prod_unfold)
  moreover have "p + i < i' \<and> q + i < j' \<and> a ! (p + i) = b ! (q + i)" if "(p, q) \<in> set ps" for p q
    using m le that by (auto simp: matching_def add.commute)
  ultimately show ?thesis using le by (force simp: matching_in_def matching_def)
qed

text \<open>The contract of \<open>commonBlocks\<close>: it returns non-empty blocks that match.\<close>

theorem common_blocks_matching:
  "\<exists>bs. common_blocks a b = Some bs \<and> matching a b (block_pairs bs) \<and> (\<forall>p\<in>set bs. 0 < run_length p)"
proof -
  define p where "p = common_prefix a b"
  define s where "s = common_suffix (drop p a) (drop p b)"
  define bs0 where "bs0 = (if 0 < p then [mk_block 0 0 p] else [])"
  have le: "p \<le> length a" "p \<le> length b" using common_prefix_le [of a b] by (auto simp: p_def)
  have sl: "s \<le> length a - p" "s \<le> length b - p"
    using common_suffix_le [of "drop p a" "drop p b"] by (auto simp: s_def)
  obtain bs1 ps where b1: "append_middle_blocks bs0 (slice p (length a - s) a) (slice p (length b - s) b) p = Some bs1"
      "block_pairs bs1 = block_pairs bs0 @ map (\<lambda>(x, y). (x + p, y + p)) ps"
      "matching (slice p (length a - s) a) (slice p (length b - s) b) ps" "\<forall>q\<in>set bs1. 0 < run_length q"
  proof -
    have "\<forall>q\<in>set bs0. 0 < run_length q" by (simp add: bs0_def)
    from append_middle_blocks_matching [OF this] that show thesis by blast
  qed
  define bs where "bs = (if 0 < s then append_block bs1 (length a - s) (length b - s) s else bs1)"
  have eq: "common_blocks a b = Some bs"
    using b1(1) unfolding common_blocks_def Let_def p_def [symmetric] s_def [symmetric] bs0_def [symmetric] bs_def
    by simp
  have m1: "matching_in a b 0 p 0 p (run_pairs 0 0 p)"
    using matching_in_run [of p a 0 b 0] common_prefix_eq [of _ a b] le by (simp add: p_def)
  have m2: "matching_in a b p (length a - s) p (length b - s) (map (\<lambda>(x, y). (x + p, y + p)) ps)"
    by (rule matching_shift [OF b1(3)]) auto
  have sx: "\<forall>k<s. a ! (length a - s + k) = b ! (length b - s + k)"
    using common_suffix_eq [of _ "drop p a" "drop p b"] sl le unfolding s_def [symmetric] by simp
  have m3: "matching_in a b (length a - s) (length a) (length b - s) (length b)
      (run_pairs (length a - s) (length b - s) s)"
    using matching_in_run [of s a "length a - s" b "length b - s"] sx sl by simp
  have "matching_in a b 0 (length a - s) 0 (length b - s)
      (run_pairs 0 0 p @ map (\<lambda>(x, y). (x + p, y + p)) ps)"
    using matching_in_append [OF m1 m2] sl le by simp
  from matching_in_append [OF this m3] have "matching_in a b 0 (length a) 0 (length b)
      ((run_pairs 0 0 p @ map (\<lambda>(x, y). (x + p, y + p)) ps) @ run_pairs (length a - s) (length b - s) s)"
    using sl by simp
  moreover have "block_pairs bs = (run_pairs 0 0 p @ map (\<lambda>(x, y). (x + p, y + p)) ps) @
      run_pairs (length a - s) (length b - s) s"
    using b1(2) by (simp add: bs_def bs0_def)
  moreover have "\<forall>q\<in>set bs. 0 < run_length q"
    using append_block_positive [OF b1(4)] b1(4) by (simp add: bs_def)
  ultimately show ?thesis using eq unfolding matching_in_def by metis
qed

end
