(* ===== verification/Textdiff.thy ===== *)
theory Textdiff
  imports Textdiff_Align
begin

text \<open>
  The rest of \<open>internal/checkpoint/textdiff\<close> but the merge: \<open>Split\<close> and \<open>Join\<close> of
  \<open>lines.go\<close>, \<open>Diff\<close> of \<open>diff.go\<close>, \<open>Hunks\<close>, \<open>Unified\<close> and their helpers of
  \<open>hunk.go\<close>.

  The locale \<open>common_block_finder\<close> is the contract of \<open>commonBlocks\<close> that \<open>Diff\<close> and
  \<open>Merge3\<close> rely on; it is interpreted on \<open>common_blocks\<close>. The main results: an edit script
  replays to both texts, it has a change exactly when the texts differ, and patching the old text
  with the hunks gives the new one.
\<close>

section \<open>The contract of commonBlocks\<close>

text \<open>Blocks in order, in range and matching, after the positions \<open>i\<close> and \<open>j\<close>.\<close>

fun block_chain :: "'a list \<Rightarrow> 'a list \<Rightarrow> nat \<Rightarrow> nat \<Rightarrow> block list \<Rightarrow> bool" where
  "block_chain a b i j [] \<longleftrightarrow> i \<le> length a \<and> j \<le> length b"
| "block_chain a b i j (p # bs) \<longleftrightarrow> i \<le> a_start p \<and> j \<le> b_start p \<and>
     a_start p + run_length p \<le> length a \<and> b_start p + run_length p \<le> length b \<and>
     slice (a_start p) (a_start p + run_length p) a = slice (b_start p) (b_start p + run_length p) b \<and>
     block_chain a b (a_start p + run_length p) (b_start p + run_length p) bs"

locale common_block_finder =
  fixes find :: "'a list \<Rightarrow> 'a list \<Rightarrow> block list option"
  assumes find_total: "\<exists>bs. find a b = Some bs"
    and find_matching: "find a b = Some bs \<Longrightarrow> matching a b (block_pairs bs)"
    and find_positive: "find a b = Some bs \<Longrightarrow> p \<in> set bs \<Longrightarrow> 0 < run_length p"
    and find_self: "find a a = Some (if a = [] then [] else [mk_block 0 0 (length a)])"
begin

lemma chain_of_matching:
  "matching a b (block_pairs bs) \<Longrightarrow> \<forall>p\<in>set bs. 0 < run_length p \<Longrightarrow>
   \<forall>(p, q)\<in>set (block_pairs bs). i \<le> p \<and> j \<le> q \<Longrightarrow> i \<le> length a \<Longrightarrow> j \<le> length b \<Longrightarrow>
   block_chain a b i j bs"
proof (induction bs arbitrary: i j)
  case (Cons p bs)
  obtain l where l: "run_length p = Suc l" using Cons.prems(2) by (cases "run_length p") auto
  let ?ps = "run_pairs (a_start p) (b_start p) (run_length p)"
  have mem: "(a_start p + k, b_start p + k) \<in> set (block_pairs (p # bs))" if "k < run_length p" for k
    using that by (auto simp: set_run_pairs)
  have ok: "a_start p + k < length a \<and> b_start p + k < length b \<and> a ! (a_start p + k) = b ! (b_start p + k)"
    if "k < run_length p" for k
    using Cons.prems(1) mem [OF that] unfolding matching_def by fastforce
  have start: "i \<le> a_start p" "j \<le> b_start p" using Cons.prems(3) mem [of 0] l by fastforce+
  have end1: "a_start p + run_length p \<le> length a" "b_start p + run_length p \<le> length b"
    using ok [of l] l by auto
  have "slice (a_start p) (a_start p + run_length p) a = slice (b_start p) (b_start p + run_length p) b"
    using ok end1 by (intro nth_equalityI) auto
  moreover have "block_chain a b (a_start p + run_length p) (b_start p + run_length p) bs"
  proof (rule Cons.IH)
    show "matching a b (block_pairs bs)" using Cons.prems(1) by (auto simp: matching_def rising_append)
    have "(a_start p + l, b_start p + l) \<in> set ?ps" by (auto simp: set_run_pairs l)
    then show "\<forall>(q, r)\<in>set (block_pairs bs). a_start p + run_length p \<le> q \<and> b_start p + run_length p \<le> r"
      using Cons.prems(1) unfolding matching_def block_pairs_simps rising_append l by fastforce
  qed (use Cons.prems(2) end1 in auto)
  ultimately show ?case using start end1 by simp
qed simp

lemma find_chain: "find a b = Some bs \<Longrightarrow> block_chain a b 0 0 bs"
  using chain_of_matching [of a b bs 0 0] find_matching find_positive by auto

end

lemma common_blocks_self:
  "common_blocks a a = Some (if a = [] then [] else [mk_block 0 0 (length a)])"
  by (auto simp: common_blocks_def Let_def append_middle_blocks_def common_suffix_def slice_def)

interpretation blocks: common_block_finder common_blocks
proof
  fix a b :: "'a list" and bs p
  show "\<exists>bs. common_blocks a b = Some bs" using common_blocks_matching [of a b] by blast
  show "common_blocks a b = Some bs \<Longrightarrow> matching a b (block_pairs bs)"
    "common_blocks a b = Some bs \<Longrightarrow> p \<in> set bs \<Longrightarrow> 0 < run_length p"
    using common_blocks_matching [of a b] by auto
qed (rule common_blocks_self)

section \<open>Lines\<close>

text \<open>\<open>Split\<close>: the lines without terminators and whether the last one had a newline.\<close>

definition split_lines :: "string \<Rightarrow> string list \<times> bool" where
  "split_lines text =
     (if text = [] then ([], False)
      else let trailingNewline = has_suffix text [newline];
               text' = (if trailingNewline then take (length text - 1) text else text)
           in (split_on newline text', trailingNewline))"

definition join_lines :: "string list \<Rightarrow> bool \<Rightarrow> string" where
  "join_lines ls trailingNewline =
     (if ls = [] then []
      else let text = join [newline] ls in if trailingNewline then text @ [newline] else text)"

lemma join_split_lines [simp]: "join_lines (fst (split_lines text)) (snd (split_lines text)) = text"
  by (auto simp: split_lines_def join_lines_def Let_def has_suffix_iff)

section \<open>Edit scripts\<close>

datatype op = OpEqual | OpDelete | OpInsert

record 'a edit =
  edit_op :: op
  edit_line :: 'a

abbreviation mk_edit :: "op \<Rightarrow> 'a \<Rightarrow> 'a edit" where
  "mk_edit o1 l \<equiv> \<lparr>edit_op = o1, edit_line = l\<rparr>"

text \<open>The loop over the blocks from the two positions on, and the two loops after it.\<close>

fun diff_loop :: "'a list \<Rightarrow> 'a list \<Rightarrow> nat \<Rightarrow> nat \<Rightarrow> block list \<Rightarrow> 'a edit list" where
  "diff_loop a b aIndex bIndex [] =
     map (mk_edit OpDelete) (drop aIndex a) @ map (mk_edit OpInsert) (drop bIndex b)"
| "diff_loop a b aIndex bIndex (run # runs) =
     (let aIndex1 = max aIndex (a_start run);
          aEnd = a_start run + run_length run
      in map (mk_edit OpDelete) (slice aIndex (a_start run) a) @
         map (mk_edit OpInsert) (slice bIndex (b_start run) b) @
         map (mk_edit OpEqual) (slice aIndex1 aEnd a) @
         diff_loop a b (max aIndex1 aEnd) (b_start run + run_length run) runs)"

definition diff :: "'a list \<Rightarrow> 'a list \<Rightarrow> 'a edit list option" where
  "diff a b = map_option (diff_loop a b 0 0) (common_blocks a b)"

text \<open>What a script reads and writes: the specification of \<open>Diff\<close>.\<close>

definition old_lines :: "'a edit list \<Rightarrow> 'a list" where
  "old_lines es = map edit_line (filter (\<lambda>e. edit_op e \<noteq> OpInsert) es)"

definition new_lines :: "'a edit list \<Rightarrow> 'a list" where
  "new_lines es = map edit_line (filter (\<lambda>e. edit_op e \<noteq> OpDelete) es)"

lemma edit_lines_simps [simp]:
  "old_lines [] = []" "new_lines [] = []"
  "old_lines (es @ fs) = old_lines es @ old_lines fs" "new_lines (es @ fs) = new_lines es @ new_lines fs"
  "old_lines (e # es) = (if edit_op e = OpInsert then [] else [edit_line e]) @ old_lines es"
  "new_lines (e # es) = (if edit_op e = OpDelete then [] else [edit_line e]) @ new_lines es"
  by (simp_all add: old_lines_def new_lines_def)

lemma edit_lines_map [simp]:
  "old_lines (map (mk_edit OpEqual) xs) = xs" "new_lines (map (mk_edit OpEqual) xs) = xs"
  "old_lines (map (mk_edit OpDelete) xs) = xs" "new_lines (map (mk_edit OpDelete) xs) = []"
  "old_lines (map (mk_edit OpInsert) xs) = []" "new_lines (map (mk_edit OpInsert) xs) = xs"
  by (induction xs) auto

lemma slice_drop: "i \<le> j \<Longrightarrow> j \<le> length xs \<Longrightarrow> slice i j xs @ drop j xs = drop i xs"
  by (simp add: slice_def) (metis append_take_drop_id drop_drop le_add_diff_inverse2)

lemma diff_loop_lines:
  "block_chain a b i j bs \<Longrightarrow> old_lines (diff_loop a b i j bs) = drop i a \<and>
     new_lines (diff_loop a b i j bs) = drop j b"
proof (induction bs arbitrary: i j)
  case (Cons p bs)
  let ?ia = "a_start p" and ?ib = "b_start p" and ?l = "run_length p"
  have c: "i \<le> ?ia" "j \<le> ?ib" "?ia + ?l \<le> length a" "?ib + ?l \<le> length b"
    "slice ?ia (?ia + ?l) a = slice ?ib (?ib + ?l) b" "block_chain a b (?ia + ?l) (?ib + ?l) bs"
    using Cons.prems by auto
  have mx: "max i ?ia = ?ia" "max ?ia (?ia + ?l) = ?ia + ?l" using c(1) by auto
  note ih = Cons.IH [OF c(6)]
  have "slice i ?ia a @ slice ?ia (?ia + ?l) a @ drop (?ia + ?l) a = drop i a"
    using c(1,3) by (simp add: slice_drop)
  moreover have "slice j ?ib b @ slice ?ib (?ib + ?l) b @ drop (?ib + ?l) b = drop j b"
    using c(2,4) by (simp add: slice_drop)
  ultimately show ?case using ih c(5) by (simp add: Let_def mx)
qed simp

lemma diff_lines: "diff a b = Some es \<Longrightarrow> old_lines es = a \<and> new_lines es = b"
  using diff_loop_lines [OF blocks.find_chain] by (auto simp: diff_def)

lemma diff_total: "\<exists>es. diff a b = Some es"
  using blocks.find_total by (fastforce simp: diff_def)

lemma diff_self: "diff a a = Some (map (mk_edit OpEqual) a)"
  by (simp add: diff_def common_blocks_self) (simp add: slice_def)

lemma only_equal_lines: "\<forall>e\<in>set es. edit_op e = OpEqual \<Longrightarrow> old_lines es = new_lines es"
  by (induction es) auto

section \<open>Hunks\<close>

record 'a hunk =
  h_a_start :: int
  h_a_count :: int
  h_b_start :: int
  h_b_count :: int
  h_lines :: "'a edit list"

abbreviation is_equal :: "'a edit \<Rightarrow> bool" where "is_equal e \<equiv> edit_op e = OpEqual"

text \<open>The inner loop: where the hunk that holds the change at \<open>e\<close> ends.\<close>

function hunk_end :: "'a edit list \<Rightarrow> nat \<Rightarrow> nat \<Rightarrow> nat" where
  "hunk_end es ctx e =
     (if e < length es then
        if \<not> is_equal (es ! e) then hunk_end es ctx (e + 1)
        else let gap = length (takeWhile is_equal (drop e es)) in
          if e + gap = length es \<or> 2 * ctx < gap then min (e + ctx) (length es)
          else hunk_end es ctx (e + gap)
      else e)"
  by pat_completeness auto
termination
  by (relation "measure (\<lambda>(es, ctx, e). length es - e)")
    (auto simp: Cons_nth_drop_Suc [symmetric])

declare hunk_end.simps [simp del]

definition mk_hunk :: "int \<Rightarrow> int \<Rightarrow> 'a edit list \<Rightarrow> 'a hunk" where
  "mk_hunk aStart bStart ls = \<lparr>h_a_start = aStart,
     h_a_count = int (length (filter (\<lambda>e. edit_op e \<noteq> OpInsert) ls)), h_b_start = bStart,
     h_b_count = int (length (filter (\<lambda>e. edit_op e \<noteq> OpDelete) ls)), h_lines = ls\<rparr>"

lemma equal_run:
  assumes i: "i < e + length (takeWhile is_equal (drop e es))" "e \<le> i"
  shows "i < length es \<and> is_equal (es ! i)"
proof -
  let ?w = "takeWhile is_equal (drop e es)"
  have k: "i - e < length ?w" using i by auto
  have "length ?w \<le> length es - e" using length_takeWhile_le [of is_equal "drop e es"] by simp
  then have l: "i < length es" using k by linarith
  have "?w ! (i - e) = es ! i" using k i l by (simp add: takeWhile_nth)
  moreover have "is_equal (?w ! (i - e))" using nth_mem [OF k] set_takeWhileD by fast
  ultimately show ?thesis using l by simp
qed

lemma hunk_end_spec:
  "e \<le> length es \<Longrightarrow> e \<le> hunk_end es ctx e \<and> hunk_end es ctx e \<le> length es \<and>
   (\<forall>i. hunk_end es ctx e \<le> i \<and> i < length es \<and> \<not> is_equal (es ! i) \<longrightarrow>
      hunk_end es ctx e + ctx \<le> i)"
proof (induction es ctx e rule: hunk_end.induct)
  case (1 es ctx e)
  define gap where "gap = length (takeWhile is_equal (drop e es))"
  have gl: "e + gap \<le> length es"
    using length_takeWhile_le [of is_equal "drop e es"] "1.prems" by (simp add: gap_def)
  consider "e = length es" | (change) "e < length es" "\<not> is_equal (es ! e)"
    | (last) "e < length es" "is_equal (es ! e)" "e + gap = length es \<or> 2 * ctx < gap"
    | (gap) "e < length es" "is_equal (es ! e)" "\<not> (e + gap = length es \<or> 2 * ctx < gap)"
    using "1.prems" by linarith
  then show ?case
  proof cases
    case 1
    then show ?thesis by (subst (1 2 3 4) hunk_end.simps) simp
  next
    case change
    have eq: "hunk_end es ctx e = hunk_end es ctx (e + 1)"
      using change by (subst hunk_end.simps) simp
    then show ?thesis unfolding eq using "1.IH"(1) [OF change] change by auto
  next
    case last
    have eq: "hunk_end es ctx e = min (e + ctx) (length es)"
      using last by (subst hunk_end.simps) (simp add: Let_def gap_def)
    have "e + gap \<le> i" if "e \<le> i" "\<not> is_equal (es ! i)" for i
      using equal_run [of i e es] that unfolding gap_def by (meson leI)
    note after = this
    have "min (e + ctx) (length es) + ctx \<le> i"
      if "min (e + ctx) (length es) \<le> i" "i < length es" "\<not> is_equal (es ! i)" for i
    proof -
      have "e \<le> i" using that(1) last(1) by simp
      then have "e + gap \<le> i" using after that(3) by blast
      then show ?thesis using last(3) that(2) by linarith
    qed
    then show ?thesis unfolding eq using last(1) by auto
  next
    case gap
    have eq: "hunk_end es ctx e = hunk_end es ctx (e + gap)"
      using gap by (subst hunk_end.simps) (simp add: Let_def gap_def)
    have "e + gap \<le> hunk_end es ctx (e + gap) \<and> hunk_end es ctx (e + gap) \<le> length es \<and>
       (\<forall>i. hunk_end es ctx (e + gap) \<le> i \<and> i < length es \<and> \<not> is_equal (es ! i) \<longrightarrow>
          hunk_end es ctx (e + gap) + ctx \<le> i)"
      using "1.IH"(2) [OF gap(1) _ gap_def] gap(2,3) gl by blast
    then show ?thesis unfolding eq by auto
  qed
qed

lemma hunk_end_gt: "e < length es \<Longrightarrow> \<not> is_equal (es ! e) \<Longrightarrow> e < hunk_end es ctx e"
  using hunk_end_spec [of "e + 1" es ctx] by (subst hunk_end.simps) simp

text \<open>The outer loop, from the state of \<open>index\<close>, \<open>aPosition\<close> and \<open>bPosition\<close> on.\<close>

function hunks_loop :: "'a edit list \<Rightarrow> nat \<Rightarrow> nat \<Rightarrow> int \<Rightarrow> int \<Rightarrow> 'a hunk list" where
  "hunks_loop es ctx index aPosition bPosition =
     (if index < length es then
        if is_equal (es ! index) then hunks_loop es ctx (index + 1) (aPosition + 1) (bPosition + 1)
        else let start = index - ctx;
                 end1 = hunk_end es ctx index;
                 h = mk_hunk (aPosition - int (index - start)) (bPosition - int (index - start))
                       (slice start end1 es)
             in h # hunks_loop es ctx end1 (h_a_start h + h_a_count h) (h_b_start h + h_b_count h)
      else [])"
  by pat_completeness auto
termination
  by (relation "measure (\<lambda>(es, ctx, index, _). length es - index)")
    (auto simp: hunk_end_gt diff_less_mono2)

declare hunks_loop.simps [simp del]

definition hunks :: "'a edit list \<Rightarrow> int \<Rightarrow> 'a hunk list" where
  "hunks es ctx = hunks_loop es (nat (max ctx 0)) 0 0 0"

subsection \<open>Hunks as a patch\<close>

text \<open>What a hunk list promises: copy the old text between the hunks, write their new lines.\<close>

fun patch :: "'a list \<Rightarrow> nat \<Rightarrow> 'a hunk list \<Rightarrow> 'a list" where
  "patch a pos [] = drop pos a"
| "patch a pos (h # hs) = slice pos (nat (h_a_start h)) a @ new_lines (h_lines h) @
     patch a (nat (h_a_start h + h_a_count h)) hs"

text \<open>A hunk names the lines it holds in both texts.\<close>

definition hunk_fits :: "'a list \<Rightarrow> 'a list \<Rightarrow> 'a hunk \<Rightarrow> bool" where
  "hunk_fits a b h \<longleftrightarrow> 0 \<le> h_a_start h \<and> 0 \<le> h_b_start h \<and>
     slice (nat (h_a_start h)) (nat (h_a_start h + h_a_count h)) a = old_lines (h_lines h) \<and>
     slice (nat (h_b_start h)) (nat (h_b_start h + h_b_count h)) b = new_lines (h_lines h)"

lemma three_parts:
  assumes "i \<le> j"
  shows "es = take i es @ slice i j es @ drop j es" "take j es = take i es @ slice i j es"
    "drop i es = slice i j es @ drop j es"
proof -
  show t: "take j es = take i es @ slice i j es"
    using assms by (simp add: slice_def) (metis le_add_diff_inverse take_add)
  then show "es = take i es @ slice i j es @ drop j es" by (metis append.assoc append_take_drop_id)
  then show "drop i es = slice i j es @ drop j es"
    by (metis append_same_eq append_take_drop_id same_append_eq)
qed

lemma slice_parts: "slice (length xs) (length xs + length ys) (xs @ ys @ zs) = ys"
  by (simp add: slice_def)

lemma old_lines_slice:
  assumes "i \<le> j"
  shows "slice (length (old_lines (take i es))) (length (old_lines (take j es))) (old_lines es) =
    old_lines (slice i j es)"
    "slice (length (new_lines (take i es))) (length (new_lines (take j es))) (new_lines es) =
    new_lines (slice i j es)"
  using arg_cong [OF three_parts(1) [OF assms], of old_lines es]
    arg_cong [OF three_parts(1) [OF assms], of new_lines es]
    three_parts(2) [OF assms, of es] by (simp_all add: slice_parts)

lemma length_filter_lines:
  "length (filter (\<lambda>e. edit_op e \<noteq> OpInsert) es) = length (old_lines es)"
  "length (filter (\<lambda>e. edit_op e \<noteq> OpDelete) es) = length (new_lines es)"
  by (simp_all add: old_lines_def new_lines_def)

lemma equal_slice_lines:
  assumes "\<forall>k. i \<le> k \<and> k < j \<longrightarrow> is_equal (es ! k)" "j \<le> length es"
  shows "old_lines (slice i j es) = new_lines (slice i j es)"
    "length (old_lines (slice i j es)) = j - i" "length (new_lines (slice i j es)) = j - i"
proof -
  have eq: "\<forall>e\<in>set (slice i j es). is_equal e" using assms by (auto simp: in_set_conv_nth)
  then show "old_lines (slice i j es) = new_lines (slice i j es)" by (rule only_equal_lines)
  show "length (old_lines (slice i j es)) = j - i" "length (new_lines (slice i j es)) = j - i"
    using eq assms(2) by (simp_all add: old_lines_def new_lines_def filter_id_conv)
qed

lemma hunks_loop_patch:
  assumes "index \<le> length es" "base \<le> index" "\<forall>k. base \<le> k \<and> k < index \<longrightarrow> is_equal (es ! k)"
    and "\<forall>k. index \<le> k \<and> k < length es \<and> \<not> is_equal (es ! k) \<longrightarrow> base = 0 \<or> base + ctx \<le> k"
    and "aPos = int (length (old_lines (take index es)))" "bPos = int (length (new_lines (take index es)))"
  shows "patch (old_lines es) (length (old_lines (take base es))) (hunks_loop es ctx index aPos bPos) =
      new_lines (drop base es) \<and>
    (\<forall>h\<in>set (hunks_loop es ctx index aPos bPos). hunk_fits (old_lines es) (new_lines es) h)"
  using assms
proof (induction es ctx index aPos bPos arbitrary: base rule: hunks_loop.induct)
  case (1 es ctx index aPos bPos)
  consider (stop) "index = length es" | (equal) "index < length es" "is_equal (es ! index)"
    | (change) "index < length es" "\<not> is_equal (es ! index)" using "1.prems"(1) by linarith
  then show ?case
  proof cases
    case stop
    have "old_lines (drop base es) = new_lines (drop base es)"
      using equal_slice_lines(1) [of base "length es" es] "1.prems"(3) stop by (simp add: slice_def)
    moreover have "old_lines (drop base es) = drop (length (old_lines (take base es))) (old_lines es)"
      by (metis append_eq_conv_conj append_take_drop_id edit_lines_simps(3))
    ultimately show ?thesis using stop by (subst (1 2) hunks_loop.simps) simp
  next
    case equal
    have eq: "hunks_loop es ctx index aPos bPos = hunks_loop es ctx (index + 1) (aPos + 1) (bPos + 1)"
      using equal by (subst hunks_loop.simps) simp
    show ?thesis unfolding eq
    proof (rule "1.IH"(1) [OF equal])
      show "\<forall>k. base \<le> k \<and> k < index + 1 \<longrightarrow> is_equal (es ! k)"
        using "1.prems"(3) equal(2) by (auto simp: less_Suc_eq)
    qed (use "1.prems" equal in \<open>auto simp: take_Suc_conv_app_nth\<close>)
  next
    case change
    define start where "start = index - ctx"
    define E where "E = hunk_end es ctx index"
    define h where "h = mk_hunk (aPos - int (index - start)) (bPos - int (index - start)) (slice start E es)"
    have eq: "hunks_loop es ctx index aPos bPos =
        h # hunks_loop es ctx E (h_a_start h + h_a_count h) (h_b_start h + h_b_count h)"
      using change unfolding h_def E_def start_def by (subst hunks_loop.simps) (simp add: Let_def)
    have ls: "base \<le> start" "start \<le> index" using "1.prems"(2,4) change by (auto simp: start_def)
    have E: "index < E" "E \<le> length es"
        "\<forall>k. E \<le> k \<and> k < length es \<and> \<not> is_equal (es ! k) \<longrightarrow> E + ctx \<le> k"
      using hunk_end_gt [OF change, of ctx] hunk_end_spec [of index es ctx] change
      unfolding E_def by auto
    have mid: "length (old_lines (slice start index es)) = index - start"
        "length (new_lines (slice start index es)) = index - start"
      using equal_slice_lines(2,3) [of start index es] "1.prems"(1,3) ls by auto
    have st: "h_a_start h = int (length (old_lines (take start es)))"
        "h_b_start h = int (length (new_lines (take start es)))"
      using "1.prems"(5,6) mid arg_cong [OF three_parts(2) [OF ls(2), of es], of "\<lambda>u. length (old_lines u)"]
        arg_cong [OF three_parts(2) [OF ls(2), of es], of "\<lambda>u. length (new_lines u)"]
      unfolding h_def mk_hunk_def by auto
    have sE: "start \<le> E" using ls E by simp
    have en: "h_a_start h + h_a_count h = int (length (old_lines (take E es)))"
        "h_b_start h + h_b_count h = int (length (new_lines (take E es)))"
      using st three_parts(2) [OF sE, of es] unfolding h_def mk_hunk_def
      by (simp_all add: length_filter_lines)
    have hl: "h_lines h = slice start E es" by (simp add: h_def mk_hunk_def)
    have ih: "patch (old_lines es) (length (old_lines (take E es)))
          (hunks_loop es ctx E (h_a_start h + h_a_count h) (h_b_start h + h_b_count h)) =
        new_lines (drop E es) \<and>
      (\<forall>h\<in>set (hunks_loop es ctx E (h_a_start h + h_a_count h) (h_b_start h + h_b_count h)).
         hunk_fits (old_lines es) (new_lines es) h)"
      by (rule "1.IH"(2) [OF change start_def E_def h_def [unfolded]]) (use E en in auto)
    have fits: "hunk_fits (old_lines es) (new_lines es) h"
      unfolding hunk_fits_def hl using old_lines_slice [OF sE, of es] st en by simp
    have "slice (length (old_lines (take base es))) (length (old_lines (take start es))) (old_lines es) =
        new_lines (slice base start es)"
      using old_lines_slice(1) [OF ls(1), of es] equal_slice_lines(1) [of base start es] "1.prems"(1,3) ls by auto
    moreover have "new_lines (drop base es) =
        new_lines (slice base start es) @ new_lines (slice start E es) @ new_lines (drop E es)"
      using three_parts(3) [OF ls(1), of es] three_parts(3) [OF sE, of es] by simp
    ultimately show ?thesis unfolding eq using ih fits st en hl by simp
  qed
qed

lemma hunks_patch:
  "patch (old_lines es) 0 (hunks es ctx) = new_lines es"
  "h \<in> set (hunks es ctx) \<Longrightarrow> hunk_fits (old_lines es) (new_lines es) h"
  using hunks_loop_patch [of 0 es 0 "nat (max ctx 0)" 0 0] unfolding hunks_def by auto

section \<open>The unified format\<close>

definition no_newline_marker :: string where
  "no_newline_marker = [backslash] @ '' No newline at end of file''"

definition hunk_range :: "int \<Rightarrow> int \<Rightarrow> string" where
  "hunk_range start count =
     (if count = 0 then itoa start @ '',0''
      else if count = 1 then itoa (start + 1)
      else itoa (start + 1) @ '','' @ itoa count)"

definition edit_prefix :: "op \<Rightarrow> string" where
  "edit_prefix operation = (case operation of OpDelete \<Rightarrow> ''-'' | OpInsert \<Rightarrow> ''+'' | OpEqual \<Rightarrow> '' '')"

definition edit_text :: "bool \<Rightarrow> string edit \<Rightarrow> string list" where
  "edit_text terminated e =
     (case cut_suffix (edit_line e) [newline] of (line, hasNewline) \<Rightarrow>
        (edit_prefix (edit_op e) @ line) #
        (if terminated \<and> \<not> hasNewline then [no_newline_marker] else []))"

definition hunk_text :: "bool \<Rightarrow> string hunk \<Rightarrow> string list" where
  "hunk_text terminated h =
     (''@@ -'' @ hunk_range (h_a_start h) (h_a_count h) @ '' +'' @
        hunk_range (h_b_start h) (h_b_count h) @ '' @@'') #
     concat (map (edit_text terminated) (h_lines h))"

definition unified ::
  "string list \<Rightarrow> string list \<Rightarrow> string \<Rightarrow> string \<Rightarrow> int \<Rightarrow> bool \<Rightarrow> string list option" where
  "unified a b aName bName ctx terminated =
     (case diff a b of None \<Rightarrow> None
      | Some es \<Rightarrow>
        (let hs = hunks es ctx
         in Some (if hs = [] then []
            else [''--- '' @ aName, ''+++ '' @ bName] @ concat (map (hunk_text terminated) hs))))"

lemma hunks_loop_equal: "list_all is_equal es \<Longrightarrow> hunks_loop es ctx index x y = []"
  by (induction es ctx index x y rule: hunks_loop.induct) (subst hunks_loop.simps, simp add: list_all_length)

lemma hunks_empty: "hunks es ctx = [] \<longleftrightarrow> list_all is_equal es"
proof
  assume h: "hunks es ctx = []"
  show "list_all is_equal es"
  proof (rule ccontr)
    assume "\<not> list_all is_equal es"
    then obtain i where i: "i < length es" "\<not> is_equal (es ! i)" by (auto simp: list_all_length)
    have "index \<le> i \<Longrightarrow> hunks_loop es c index x y \<noteq> []" for c index x y
      using i
    proof (induction es c index x y rule: hunks_loop.induct)
      case (1 es c index x y)
      show ?case
      proof (cases "is_equal (es ! index)")
        case True
        then have "index + 1 \<le> i" using 1 by (cases "index = i") auto
        then show ?thesis using 1 True by (subst hunks_loop.simps) simp
      next
        case False
        then show ?thesis using 1 by (subst hunks_loop.simps) (simp add: Let_def)
      qed
    qed
    then show False using h by (simp add: hunks_def)
  qed
qed (simp add: hunks_def hunks_loop_equal)

lemma diff_unchanged: "diff a b = Some es \<Longrightarrow> list_all is_equal es \<longleftrightarrow> a = b"
proof -
  assume d: "diff a b = Some es"
  have "list_all is_equal es \<Longrightarrow> a = b"
    using diff_lines [OF d] only_equal_lines [of es] unfolding list_all_iff by metis
  moreover have "a = b \<Longrightarrow> list_all is_equal es"
    using d diff_self [of a] by (auto simp: list_all_iff)
  ultimately show ?thesis by blast
qed

section \<open>Properties\<close>

text \<open>C20. \<open>Diff\<close> returns for every two texts, without a panic. Its script deletes and keeps
  exactly the lines of the first text and inserts and keeps exactly those of the second, in
  order, and it has a change exactly when the texts differ.\<close>

theorem diff_replays:
  "\<exists>es. diff a b = Some es \<and> old_lines es = a \<and> new_lines es = b \<and> (list_all is_equal es \<longleftrightarrow> a = b)"
  using diff_total [of a b] diff_lines [of a b] diff_unchanged [of a b] by blast

text \<open>C21. Patching the first text with the hunks of a diff gives the second text, for every
  number of context lines (a negative number counts as none), and each hunk names the lines it
  holds in both texts by its ranges.\<close>

theorem hunks_are_a_patch:
  "\<exists>es. diff a b = Some es \<and> patch a 0 (hunks es ctx) = b \<and> list_all (hunk_fits a b) (hunks es ctx)"
proof -
  obtain es where es: "diff a b = Some es" using diff_total by blast
  then show ?thesis using diff_lines [OF es] hunks_patch(1) [of es ctx] hunks_patch(2) [of _ es ctx]
    by (auto simp: list_all_iff)
qed

text \<open>The unified text is empty exactly when the two texts have the same lines.\<close>

theorem unified_empty: "unified a b aName bName ctx terminated = Some [] \<longleftrightarrow> a = b"
proof -
  obtain es where es: "diff a b = Some es" using diff_total by blast
  then show ?thesis
    using hunks_empty [of es ctx] diff_unchanged [OF es] by (auto simp: unified_def Let_def)
qed

text \<open>A range of a hunk header determines the start and the count it was written for.\<close>

theorem hunk_range_determines:
  assumes "hunk_range start count = hunk_range start' count'" "0 \<le> count" "0 \<le> count'"
  shows "start = start' \<and> count = count'"
proof -
  have no: "CHR '','' \<notin> set (itoa i)" for i
    using itoa_chars [of "CHR '',''" i] by (auto simp: is_digit_def)
  have zero: "itoa c = ''0'' \<longleftrightarrow> c = 0" for c
  proof -
    have "itoa 0 = ''0''" by code_simp
    then show ?thesis using itoa_inj [of c 0] by auto
  qed
  have "cut (hunk_range s c) (CHR '','') =
      (if c = 0 then (itoa s, ''0'', True) else if c = 1 then (itoa (s + 1), [], False)
       else (itoa (s + 1), itoa c, True))" for s c
    using no [of s] no [of "s + 1"] by (simp add: hunk_range_def cut_hit)
  from this [of start count] this [of start' count'] show ?thesis
    unfolding assms(1)
    by (cases "count = 0"; cases "count = 1"; cases "count' = 0"; cases "count' = 1")
      (auto dest: itoa_inj simp: zero zero [THEN eq_iff_swap])
qed

theorem hunk_range_determines_witness: "(4::int) = 4 \<and> (2::int) = 2"
  by (rule hunk_range_determines [of 4 2 4 2]) simp_all

end
