(* ===== verification/Textdiff_Merge.thy ===== *)
theory Textdiff_Merge
  imports Textdiff
begin

text \<open>
  \<open>internal/checkpoint/textdiff/merge.go\<close>: \<open>syncRegions\<close>, \<open>marker\<close> and \<open>Merge3\<close>.

  A slice expression that is out of range panics; the merge is an option for that reason, and
  \<open>merge3_parts\<close> shows that it always returns. That lemma is the specification of the merge:
  the three texts fall into the same number of parts, each a stretch that may differ followed by
  a stretch that is the same in all three, and the result is the decision of \<open>merge_region\<close>
  for each part.
\<close>

section \<open>The regions all three texts share\<close>

record sync_region =
  base_start :: nat
  base_end :: nat
  our_start :: nat
  our_end :: nat
  their_start :: nat
  their_end :: nat

definition overlap_region :: "block \<Rightarrow> block \<Rightarrow> nat \<Rightarrow> nat \<Rightarrow> sync_region" where
  "overlap_region ourBlock theirBlock overlapStart overlapEnd =
     \<lparr>base_start = overlapStart, base_end = overlapEnd,
      our_start = overlapStart - a_start ourBlock + b_start ourBlock,
      our_end = overlapEnd - a_start ourBlock + b_start ourBlock,
      their_start = overlapStart - a_start theirBlock + b_start theirBlock,
      their_end = overlapEnd - a_start theirBlock + b_start theirBlock\<rparr>"

fun sync_overlaps :: "block list \<Rightarrow> block list \<Rightarrow> sync_region list" where
  "sync_overlaps (ourBlock # os) (theirBlock # ts) =
     (let ourEnd = a_start ourBlock + run_length ourBlock;
          theirEnd = a_start theirBlock + run_length theirBlock;
          overlapStart = max (a_start ourBlock) (a_start theirBlock);
          overlapEnd = min ourEnd theirEnd
      in (if overlapStart < overlapEnd
          then [overlap_region ourBlock theirBlock overlapStart overlapEnd] else []) @
         (if ourEnd < theirEnd then sync_overlaps os (theirBlock # ts)
          else sync_overlaps (ourBlock # os) ts))"
| "sync_overlaps _ _ = []"

definition sync_regions :: "'a list \<Rightarrow> 'a list \<Rightarrow> 'a list \<Rightarrow> sync_region list option" where
  "sync_regions base ours theirs =
     (case common_blocks base ours of None \<Rightarrow> None
      | Some ourBlocks \<Rightarrow>
        (case common_blocks base theirs of None \<Rightarrow> None
         | Some theirBlocks \<Rightarrow> Some (sync_overlaps ourBlocks theirBlocks @
             [\<lparr>base_start = length base, base_end = length base, our_start = length ours,
               our_end = length ours, their_start = length theirs, their_end = length theirs\<rparr>])))"

section \<open>The merge\<close>

record merge_result =
  result_lines :: "string list"
  conflicts :: nat

definition marker :: "string \<Rightarrow> string \<Rightarrow> string" where
  "marker mark label = (if label = [] then mark else mark @ '' '' @ label)"

definition conflict_block ::
  "string \<Rightarrow> string \<Rightarrow> string \<Rightarrow> string list \<Rightarrow> string list \<Rightarrow> string list \<Rightarrow> string list" where
  "conflict_block ourLabel baseLabel theirLabel regionBase regionOurs regionTheirs =
     [marker ''<<<<<<<'' ourLabel] @ regionOurs @ [marker ''|||||||'' baseLabel] @ regionBase @
     [''=======''] @ regionTheirs @ [marker ''>>>>>>>'' theirLabel]"

text \<open>The switch of the loop: the lines it appends and the conflicts it counts.\<close>

definition merge_region ::
  "string \<Rightarrow> string \<Rightarrow> string \<Rightarrow> string list \<Rightarrow> string list \<Rightarrow> string list \<Rightarrow> merge_result" where
  "merge_region ourLabel baseLabel theirLabel regionBase regionOurs regionTheirs =
     (if regionOurs = regionTheirs then \<lparr>result_lines = regionOurs, conflicts = 0\<rparr>
      else if regionOurs = regionBase then \<lparr>result_lines = regionTheirs, conflicts = 0\<rparr>
      else if regionTheirs = regionBase then \<lparr>result_lines = regionOurs, conflicts = 0\<rparr>
      else \<lparr>result_lines = conflict_block ourLabel baseLabel theirLabel regionBase regionOurs regionTheirs,
            conflicts = 1\<rparr>)"

definition slices_ok ::
  "'a list \<Rightarrow> 'a list \<Rightarrow> 'a list \<Rightarrow> nat \<Rightarrow> nat \<Rightarrow> nat \<Rightarrow> sync_region \<Rightarrow> bool" where
  "slices_ok base ours theirs baseIndex ourIndex theirIndex r \<longleftrightarrow>
     baseIndex \<le> base_start r \<and> base_start r \<le> base_end r \<and> base_end r \<le> length base \<and>
     ourIndex \<le> our_start r \<and> our_start r \<le> length ours \<and>
     theirIndex \<le> their_start r \<and> their_start r \<le> length theirs"

fun merge_regions ::
  "string \<Rightarrow> string \<Rightarrow> string \<Rightarrow> string list \<Rightarrow> string list \<Rightarrow> string list \<Rightarrow>
   nat \<Rightarrow> nat \<Rightarrow> nat \<Rightarrow> sync_region list \<Rightarrow> merge_result \<Rightarrow> merge_result option" where
  "merge_regions ol bl tl1 base ours theirs baseIndex ourIndex theirIndex [] result = Some result"
| "merge_regions ol bl tl1 base ours theirs baseIndex ourIndex theirIndex (r # rs) result =
     (if slices_ok base ours theirs baseIndex ourIndex theirIndex r
      then let picked = merge_region ol bl tl1 (slice baseIndex (base_start r) base)
                 (slice ourIndex (our_start r) ours) (slice theirIndex (their_start r) theirs)
           in merge_regions ol bl tl1 base ours theirs (base_end r) (our_end r) (their_end r) rs
                \<lparr>result_lines = result_lines result @ result_lines picked @ slice (base_start r) (base_end r) base,
                 conflicts = conflicts result + conflicts picked\<rparr>
      else None)"

definition merge3 ::
  "string list \<Rightarrow> string list \<Rightarrow> string list \<Rightarrow> string \<Rightarrow> string \<Rightarrow> string \<Rightarrow> merge_result option" where
  "merge3 base ours theirs ourLabel baseLabel theirLabel =
     (case sync_regions base ours theirs of None \<Rightarrow> None
      | Some regions \<Rightarrow> merge_regions ourLabel baseLabel theirLabel base ours theirs 0 0 0 regions
          \<lparr>result_lines = [], conflicts = 0\<rparr>)"

section \<open>The regions are in order and match\<close>

fun region_chain :: "'a list \<Rightarrow> 'a list \<Rightarrow> 'a list \<Rightarrow> nat \<Rightarrow> nat \<Rightarrow> nat \<Rightarrow> sync_region list \<Rightarrow> bool" where
  "region_chain base ours theirs i j k [] \<longleftrightarrow> i = length base \<and> j = length ours \<and> k = length theirs"
| "region_chain base ours theirs i j k (r # rs) \<longleftrightarrow>
     slices_ok base ours theirs i j k r \<and> our_start r \<le> our_end r \<and> our_end r \<le> length ours \<and>
     their_start r \<le> their_end r \<and> their_end r \<le> length theirs \<and>
     slice (our_start r) (our_end r) ours = slice (base_start r) (base_end r) base \<and>
     slice (their_start r) (their_end r) theirs = slice (base_start r) (base_end r) base \<and>
     region_chain base ours theirs (base_end r) (our_end r) (their_end r) rs"

text \<open>The state of the two-pointer loop: how far the regions so far reach, seen from one side.\<close>

definition side_ready :: "nat \<Rightarrow> nat \<Rightarrow> block list \<Rightarrow> bool" where
  "side_ready i j bs \<longleftrightarrow> (case bs of [] \<Rightarrow> True
     | p # _ \<Rightarrow> i \<le> a_start p + run_length p \<and> j \<le> max i (a_start p) - a_start p + b_start p)"

lemma sub_slice:
  assumes "slice p (p + l) a = slice q (q + l) b" "p \<le> s" "s \<le> e" "e \<le> p + l"
  shows "slice (s - p + q) (e - p + q) b = slice s e a"
proof -
  have cut: "slice (r + (s - p)) (r + (e - p)) xs = slice (s - p) (e - p) (slice r (r + l) xs)"
    for r and xs :: "'a list"
    using assms(2-4) by (simp add: slice_def min_def add.commute drop_take)
  show ?thesis using cut [of p a] cut [of q b] assms by (simp add: add.commute)
qed

lemma sync_chain:
  assumes "block_chain base ours i1 j1 os" "block_chain base theirs i2 j2 ts"
    and "i \<le> length base" "j \<le> length ours" "k \<le> length theirs"
    and "side_ready i j os" "side_ready i k ts"
    and "os \<noteq> [] \<Longrightarrow> ts \<noteq> [] \<Longrightarrow> i \<le> max (a_start (hd os)) (a_start (hd ts))"
  shows "region_chain base ours theirs i j k (sync_overlaps os ts @
      [\<lparr>base_start = length base, base_end = length base, our_start = length ours,
        our_end = length ours, their_start = length theirs, their_end = length theirs\<rparr>])"
  using assms
proof (induction os ts arbitrary: i j k i1 j1 i2 j2 rule: sync_overlaps.induct)
  case (1 p os q ts)
  define ourEnd where "ourEnd = a_start p + run_length p"
  define theirEnd where "theirEnd = a_start q + run_length q"
  define s where "s = max (a_start p) (a_start q)"
  define e where "e = min ourEnd theirEnd"
  define sent where "sent = \<lparr>base_start = length base, base_end = length base, our_start = length ours,
        our_end = length ours, their_start = length theirs, their_end = length theirs\<rparr>"
  have P: "ourEnd \<le> length base" "b_start p + run_length p \<le> length ours"
      "slice (a_start p) (a_start p + run_length p) base = slice (b_start p) (b_start p + run_length p) ours"
      "block_chain base ours ourEnd (b_start p + run_length p) os"
    using "1.prems"(1) by (auto simp: ourEnd_def)
  have Q: "theirEnd \<le> length base" "b_start q + run_length q \<le> length theirs"
      "slice (a_start q) (a_start q + run_length q) base = slice (b_start q) (b_start q + run_length q) theirs"
      "block_chain base theirs theirEnd (b_start q + run_length q) ts"
    using "1.prems"(2) by (auto simp: theirEnd_def)
  have rp: "i \<le> ourEnd" "j \<le> max i (a_start p) - a_start p + b_start p"
    and rq: "i \<le> theirEnd" "k \<le> max i (a_start q) - a_start q + b_start q"
    and ie: "i \<le> s"
    using "1.prems"(6-8) by (auto simp: side_ready_def ourEnd_def theirEnd_def s_def)
  text \<open>Both ways to advance keep the state ready.\<close>
  have rest: "region_chain base ours theirs i' j' k'
      ((if ourEnd < theirEnd then sync_overlaps os (q # ts) else sync_overlaps (p # os) ts) @ [sent])"
    if "i' \<le> ourEnd" "i' \<le> theirEnd" "j' \<le> length ours" "k' \<le> length theirs"
      "j' \<le> max i' (a_start p) - a_start p + b_start p" "k' \<le> max i' (a_start q) - a_start q + b_start q" for i' j' k'
  proof -
    have jb: "j' \<le> b_start p + run_length p" "k' \<le> b_start q + run_length q"
      using that by (auto simp: ourEnd_def theirEnd_def)
    show ?thesis
    proof (cases "ourEnd < theirEnd")
      case True
      have "side_ready i' j' os" "os \<noteq> [] \<Longrightarrow> i' \<le> a_start (hd os)"
        using P(4) that(1) jb(1) by (cases os; auto simp: side_ready_def)+
      then show ?thesis
        using "1.IH"(1) [OF ourEnd_def theirEnd_def s_def e_def True P(4) "1.prems"(2), of i' j' k']
          True that P(1) by (auto simp: side_ready_def sent_def theirEnd_def le_max_iff_disj)
    next
      case False
      have "side_ready i' k' ts" "ts \<noteq> [] \<Longrightarrow> i' \<le> a_start (hd ts)"
        using Q(4) that(2) jb(2) by (cases ts; auto simp: side_ready_def)+
      then show ?thesis
        using "1.IH"(2) [OF ourEnd_def theirEnd_def s_def e_def False "1.prems"(1) Q(4), of i' j' k']
          False that P(1) by (auto simp: side_ready_def sent_def ourEnd_def le_max_iff_disj)
    qed
  qed
  have eq: "sync_overlaps (p # os) (q # ts) =
      (if s < e then [overlap_region p q s e] else []) @
      (if ourEnd < theirEnd then sync_overlaps os (q # ts) else sync_overlaps (p # os) ts)"
    by (simp add: Let_def s_def e_def ourEnd_def theirEnd_def)
  show ?case
  proof (cases "s < e")
    case False
    then show ?thesis unfolding eq sent_def [symmetric] using rest [of i j k] rp rq "1.prems"(4,5) by simp
  next
    case True
    let ?r = "overlap_region p q s e"
    have b: "a_start p \<le> s" "a_start q \<le> s" "e \<le> a_start p + run_length p" "e \<le> a_start q + run_length q"
      by (auto simp: s_def e_def ourEnd_def theirEnd_def)
    have "region_chain base ours theirs e (our_end ?r) (their_end ?r)
        ((if ourEnd < theirEnd then sync_overlaps os (q # ts) else sync_overlaps (p # os) ts) @ [sent])"
      using b True P(2) Q(2) by (intro rest) (auto simp: overlap_region_def e_def)
    moreover have "slices_ok base ours theirs i j k ?r" "our_start ?r \<le> our_end ?r" "our_end ?r \<le> length ours"
        "their_start ?r \<le> their_end ?r" "their_end ?r \<le> length theirs"
      using True b ie rp rq P(1,2) [unfolded ourEnd_def] Q(1,2) by (auto simp: slices_ok_def overlap_region_def)
    moreover have "slice (our_start ?r) (our_end ?r) ours = slice (base_start ?r) (base_end ?r) base"
        "slice (their_start ?r) (their_end ?r) theirs = slice (base_start ?r) (base_end ?r) base"
      using sub_slice [OF P(3) b(1) _ b(3)] sub_slice [OF Q(3) b(2) _ b(4)] True
      by (simp_all add: overlap_region_def)
    ultimately show ?thesis
      unfolding eq sent_def [symmetric] using True by (simp add: overlap_region_def)
  qed
qed (simp_all add: slices_ok_def slice_def)

section \<open>The parts of the three texts\<close>

text \<open>A part: the three stretches that may differ, then the lines all three share.\<close>

record part =
  part_base :: "string list"
  part_ours :: "string list"
  part_theirs :: "string list"
  part_shared :: "string list"

fun region_parts ::
  "string list \<Rightarrow> string list \<Rightarrow> string list \<Rightarrow> nat \<Rightarrow> nat \<Rightarrow> nat \<Rightarrow> sync_region list \<Rightarrow> part list" where
  "region_parts base ours theirs i j k [] = []"
| "region_parts base ours theirs i j k (r # rs) =
     \<lparr>part_base = slice i (base_start r) base, part_ours = slice j (our_start r) ours,
      part_theirs = slice k (their_start r) theirs, part_shared = slice (base_start r) (base_end r) base\<rparr> #
     region_parts base ours theirs (base_end r) (our_end r) (their_end r) rs"

definition texts :: "(part \<Rightarrow> string list) \<Rightarrow> part list \<Rightarrow> string list" where
  "texts side ps = concat (map (\<lambda>p. side p @ part_shared p) ps)"

lemma texts_simps [simp]: "texts side [] = []" "texts side (p # ps) = side p @ part_shared p @ texts side ps"
  by (simp_all add: texts_def)

definition decide :: "string \<Rightarrow> string \<Rightarrow> string \<Rightarrow> part \<Rightarrow> merge_result" where
  "decide ol bl tl1 p = merge_region ol bl tl1 (part_base p) (part_ours p) (part_theirs p)"

lemma merge_regions_parts:
  "region_chain base ours theirs i j k rs \<Longrightarrow>
   (let ps = region_parts base ours theirs i j k rs in
    merge_regions ol bl tl1 base ours theirs i j k rs res = Some
      \<lparr>result_lines = result_lines res @ texts (\<lambda>p. result_lines (decide ol bl tl1 p)) ps,
       conflicts = conflicts res + sum_list (map (\<lambda>p. conflicts (decide ol bl tl1 p)) ps)\<rparr> \<and>
    texts part_base ps = drop i base \<and> texts part_ours ps = drop j ours \<and> texts part_theirs ps = drop k theirs)"
proof (induction ol bl tl1 base ours theirs i j k rs res rule: merge_regions.induct)
  case (1 ol bl tl1 base ours theirs i j k res)
  then show ?case by simp
next
  case (2 ol bl tl1 base ours theirs i j k r rs res)
  let ?picked = "merge_region ol bl tl1 (slice i (base_start r) base) (slice j (our_start r) ours)
      (slice k (their_start r) theirs)"
  have ok: "slices_ok base ours theirs i j k r" using 2(2) by simp
  have le: "i \<le> base_start r" "base_start r \<le> base_end r" "base_end r \<le> length base"
    "j \<le> our_start r" "our_start r \<le> our_end r" "our_end r \<le> length ours"
    "k \<le> their_start r" "their_start r \<le> their_end r" "their_end r \<le> length theirs"
    using 2(2) by (auto simp: slices_ok_def)
  have parts: "slice i (base_start r) base @ slice (base_start r) (base_end r) base @ drop (base_end r) base = drop i base"
    "slice j (our_start r) ours @ slice (our_start r) (our_end r) ours @ drop (our_end r) ours = drop j ours"
    "slice k (their_start r) theirs @ slice (their_start r) (their_end r) theirs @ drop (their_end r) theirs = drop k theirs"
    using le by (simp_all add: slice_drop)
  have sh: "slice (our_start r) (our_end r) ours = slice (base_start r) (base_end r) base"
      "slice (their_start r) (their_end r) theirs = slice (base_start r) (base_end r) base"
      "region_chain base ours theirs (base_end r) (our_end r) (their_end r) rs"
    using 2(2) by auto
  show ?case using 2(1) [OF ok refl sh(3)] ok parts sh(1,2) by (simp add: Let_def decide_def)
qed

definition merge_parts :: "string list \<Rightarrow> string list \<Rightarrow> string list \<Rightarrow> part list" where
  "merge_parts base ours theirs =
     (case sync_regions base ours theirs of None \<Rightarrow> []
      | Some rs \<Rightarrow> region_parts base ours theirs 0 0 0 rs)"

lemma sync_regions_chain:
  "\<exists>rs. sync_regions base ours theirs = Some rs \<and> region_chain base ours theirs 0 0 0 rs"
proof -
  obtain os ts where f: "common_blocks base ours = Some os" "common_blocks base theirs = Some ts"
    using blocks.find_total by meson
  note c = blocks.find_chain [OF f(1)] blocks.find_chain [OF f(2)]
  show ?thesis using sync_chain [OF c, of 0 0 0] f by (simp add: sync_regions_def side_ready_def split: list.splits)
qed

lemma merge3_parts:
  "merge3 base ours theirs ol bl tl1 = Some
     \<lparr>result_lines = texts (\<lambda>p. result_lines (decide ol bl tl1 p)) (merge_parts base ours theirs),
      conflicts = sum_list (map (\<lambda>p. conflicts (decide ol bl tl1 p)) (merge_parts base ours theirs))\<rparr>"
  "texts part_base (merge_parts base ours theirs) = base"
  "texts part_ours (merge_parts base ours theirs) = ours"
  "texts part_theirs (merge_parts base ours theirs) = theirs"
proof -
  obtain rs where rs: "sync_regions base ours theirs = Some rs" "region_chain base ours theirs 0 0 0 rs"
    using sync_regions_chain by blast
  note m = merge_regions_parts [OF rs(2), of ol bl tl1 "\<lparr>result_lines = [], conflicts = 0\<rparr>"]
  show "merge3 base ours theirs ol bl tl1 = Some
     \<lparr>result_lines = texts (\<lambda>p. result_lines (decide ol bl tl1 p)) (merge_parts base ours theirs),
      conflicts = sum_list (map (\<lambda>p. conflicts (decide ol bl tl1 p)) (merge_parts base ours theirs))\<rparr>"
  "texts part_base (merge_parts base ours theirs) = base"
  "texts part_ours (merge_parts base ours theirs) = ours"
  "texts part_theirs (merge_parts base ours theirs) = theirs"
    using m rs(1) by (simp_all add: merge3_def merge_parts_def Let_def)
qed

section \<open>Sides that did not change\<close>

lemma sync_identity:
  "\<forall>q\<in>set ts. a_start q = b_start q \<Longrightarrow> r \<in> set (sync_overlaps os ts) \<Longrightarrow>
     their_start r = base_start r \<and> their_end r = base_end r"
  "\<forall>p\<in>set os. a_start p = b_start p \<Longrightarrow> r \<in> set (sync_overlaps os ts) \<Longrightarrow>
     our_start r = base_start r \<and> our_end r = base_end r"
proof (induction os ts rule: sync_overlaps.induct)
  case (1 p os q ts)
  { case 1 then show ?case using "1.IH"(1,3) by (auto simp: Let_def overlap_region_def split: if_splits) }
  { case 2 then show ?case using "1.IH"(2,4) by (auto simp: Let_def overlap_region_def split: if_splits) }
qed simp_all

lemma sync_same:
  "block_chain a b i j bs \<Longrightarrow> \<forall>p\<in>set bs. 0 < run_length p \<Longrightarrow> r \<in> set (sync_overlaps bs bs) \<Longrightarrow>
   our_start r = their_start r \<and> our_end r = their_end r"
proof (induction bs arbitrary: i j)
  case (Cons p bs)
  have "sync_overlaps (p # bs) bs = sync_overlaps bs bs"
    using Cons.prems(1,2) by (cases bs) (auto simp: Let_def)
  then have "r \<in> set (sync_overlaps bs bs) \<or> r = overlap_region p p (a_start p) (a_start p + run_length p)"
    using Cons.prems(3) by (auto simp: Let_def split: if_splits)
  then show ?case using Cons.IH [of "a_start p + run_length p" "b_start p + run_length p"] Cons.prems(1,2)
    by (auto simp: overlap_region_def)
qed simp

lemma region_parts_agree:
  "\<forall>r\<in>set rs. our_start r = their_start r \<and> our_end r = their_end r \<Longrightarrow>
   p \<in> set (region_parts base ours ours i j j rs) \<Longrightarrow> part_ours p = part_theirs p"
  "\<forall>r\<in>set rs. their_start r = base_start r \<and> their_end r = base_end r \<Longrightarrow>
   p \<in> set (region_parts base ours base i j i rs) \<Longrightarrow> part_theirs p = part_base p"
  "\<forall>r\<in>set rs. our_start r = base_start r \<and> our_end r = base_end r \<Longrightarrow>
   p \<in> set (region_parts base base theirs i i k rs) \<Longrightarrow> part_ours p = part_base p"
  by (induction rs arbitrary: i j k) auto

lemma self_blocks: "common_blocks base base = Some bs \<Longrightarrow> \<forall>q\<in>set bs. a_start q = b_start q"
  using blocks.find_self [of base] by (auto split: if_splits)

lemma merge_parts_agree:
  "p \<in> set (merge_parts base ours ours) \<Longrightarrow> part_ours p = part_theirs p"
  "p \<in> set (merge_parts base ours base) \<Longrightarrow> part_theirs p = part_base p"
  "p \<in> set (merge_parts base base theirs) \<Longrightarrow> part_ours p = part_base p"
proof -
  obtain os where o: "common_blocks base ours = Some os" using blocks.find_total by blast
  have "\<forall>r\<in>set (sync_overlaps os os). our_start r = their_start r \<and> our_end r = their_end r"
    using sync_same [OF blocks.find_chain [OF o]] blocks.find_positive [OF o] by blast
  then show "p \<in> set (merge_parts base ours ours) \<Longrightarrow> part_ours p = part_theirs p"
    by (auto simp: merge_parts_def sync_regions_def o elim!: region_parts_agree(1) [rotated])
next
  show "p \<in> set (merge_parts base ours base) \<Longrightarrow> part_theirs p = part_base p"
    by (auto simp: merge_parts_def sync_regions_def split: option.splits
        dest: sync_identity(1) [OF self_blocks] elim!: region_parts_agree(2) [rotated])
  show "p \<in> set (merge_parts base base theirs) \<Longrightarrow> part_ours p = part_base p"
    by (auto simp: merge_parts_def sync_regions_def split: option.splits
        dest: sync_identity(2) [OF self_blocks] elim!: region_parts_agree(3) [rotated])
qed

lemma texts_cong: "(\<And>p. p \<in> set ps \<Longrightarrow> f p = g p) \<Longrightarrow> texts f ps = texts g ps"
  by (simp add: texts_def cong: map_cong)

lemma merge_picks:
  assumes "\<And>p. p \<in> set (merge_parts base ours theirs) \<Longrightarrow> decide ol bl tl1 p = \<lparr>result_lines = side p, conflicts = 0\<rparr>"
  shows "merge3 base ours theirs ol bl tl1 = Some
     \<lparr>result_lines = texts side (merge_parts base ours theirs), conflicts = 0\<rparr>"
  using assms texts_cong [of "merge_parts base ours theirs" "\<lambda>p. result_lines (decide ol bl tl1 p)" side]
  by (simp add: merge3_parts(1) cong: map_cong)

section \<open>Where the shared lines are\<close>

text \<open>The positions of the shared lines of the parts in the three texts.\<close>

fun shared_lines :: "nat \<Rightarrow> nat \<Rightarrow> nat \<Rightarrow> part list \<Rightarrow> (nat \<times> nat \<times> nat) list" where
  "shared_lines i j k [] = []"
| "shared_lines i j k (p # ps) =
     (let i' = i + length (part_base p); j' = j + length (part_ours p); k' = k + length (part_theirs p); l = length (part_shared p)
      in map (\<lambda>n. (i' + n, j' + n, k' + n)) [0..<l] @ shared_lines (i' + l) (j' + l) (k' + l) ps)"

definition region_lines :: "sync_region \<Rightarrow> (nat \<times> nat \<times> nat) list" where
  "region_lines r = map (\<lambda>n. (base_start r + n, our_start r + n, their_start r + n)) [0..<base_end r - base_start r]"

lemma block_pairs_from: "block_chain a b i j bs \<Longrightarrow> (x, y) \<in> set (block_pairs bs) \<Longrightarrow> i \<le> x"
proof (induction bs arbitrary: i j)
  case (Cons p bs)
  then show ?case using Cons.IH [of "a_start p + run_length p" "b_start p + run_length p"] by (fastforce simp: set_run_pairs)
qed simp

lemma mem_run_pairs: "(x, y) \<in> set (run_pairs i j l) \<longleftrightarrow> i \<le> x \<and> x < i + l \<and> y = x - i + j"
  by (auto simp: set_run_pairs intro!: exI [of _ "x - i"])

lemma mem_region_lines:
  assumes "a_start p \<le> s" "a_start q \<le> s"
  shows "(x, y, z) \<in> set (region_lines (overlap_region p q s e)) \<longleftrightarrow>
     s \<le> x \<and> x < e \<and> y = x - a_start p + b_start p \<and> z = x - a_start q + b_start q"
  using assms by (auto simp: region_lines_def overlap_region_def image_iff intro!: bexI [of _ "x - s"])

lemma sync_overlaps_lines:
  assumes "block_chain base ours i1 j1 os" "block_chain base theirs i2 j2 ts"
  shows "(x, y, z) \<in> set (concat (map region_lines (sync_overlaps os ts))) \<longleftrightarrow>
     (x, y) \<in> set (block_pairs os) \<and> (x, z) \<in> set (block_pairs ts)"
  using assms
proof (induction os ts arbitrary: i1 j1 i2 j2 rule: sync_overlaps.induct)
  case (1 p os q ts)
  define ourEnd where "ourEnd = a_start p + run_length p"
  define theirEnd where "theirEnd = a_start q + run_length q"
  have P: "block_chain base ours ourEnd (b_start p + run_length p) os"
    and Q: "block_chain base theirs theirEnd (b_start q + run_length q) ts"
    using "1.prems" by (auto simp: ourEnd_def theirEnd_def)
  note later = block_pairs_from [OF P, of x y] block_pairs_from [OF Q, of x z]
  have head: "(x, y, z) \<in> set (if max (a_start p) (a_start q) < min ourEnd theirEnd
        then region_lines (overlap_region p q (max (a_start p) (a_start q)) (min ourEnd theirEnd)) else []) \<longleftrightarrow>
      (x, y) \<in> set (run_pairs (a_start p) (b_start p) (run_length p)) \<and> (x, z) \<in> set (run_pairs (a_start q) (b_start q) (run_length q))"
    using mem_region_lines [of p "max (a_start p) (a_start q)" q x y z "min ourEnd theirEnd"]
    by (auto simp: mem_run_pairs ourEnd_def theirEnd_def)
  have tail: "(x, y, z) \<in> set (concat (map region_lines (if ourEnd < theirEnd then sync_overlaps os (q # ts) else sync_overlaps (p # os) ts))) \<longleftrightarrow>
      (if ourEnd < theirEnd then (x, y) \<in> set (block_pairs os) \<and> (x, z) \<in> set (block_pairs (q # ts))
       else (x, y) \<in> set (block_pairs (p # os)) \<and> (x, z) \<in> set (block_pairs ts))"
    using "1.IH"(1) [OF ourEnd_def theirEnd_def refl refl _ P "1.prems"(2)]
      "1.IH"(2) [OF ourEnd_def theirEnd_def refl refl _ "1.prems"(1) Q] by (simp split: if_splits)
  have "(x, y, z) \<in> set (concat (map region_lines (sync_overlaps (p # os) (q # ts)))) \<longleftrightarrow>
      ((x, y) \<in> set (run_pairs (a_start p) (b_start p) (run_length p)) \<and> (x, z) \<in> set (run_pairs (a_start q) (b_start q) (run_length q))) \<or>
      (if ourEnd < theirEnd then (x, y) \<in> set (block_pairs os) \<and> (x, z) \<in> set (block_pairs (q # ts))
       else (x, y) \<in> set (block_pairs (p # os)) \<and> (x, z) \<in> set (block_pairs ts))"
    unfolding head [symmetric] tail [symmetric] by (simp add: Let_def ourEnd_def theirEnd_def)
  then show ?case using later by (auto simp: mem_run_pairs ourEnd_def theirEnd_def split: if_splits)
qed simp_all

lemma region_parts_lines:
  "region_chain base ours theirs i j k rs \<Longrightarrow>
   shared_lines i j k (region_parts base ours theirs i j k rs) = concat (map region_lines rs)"
proof (induction rs arbitrary: i j k)
  case (Cons r rs)
  have le: "i \<le> base_start r" "base_start r \<le> base_end r" "base_end r \<le> length base"
    "j \<le> our_start r" "our_start r \<le> our_end r" "our_end r \<le> length ours"
    "k \<le> their_start r" "their_start r \<le> their_end r" "their_end r \<le> length theirs"
    using Cons.prems by (auto simp: slices_ok_def)
  have "length (slice (our_start r) (our_end r) ours) = length (slice (base_start r) (base_end r) base)"
    "length (slice (their_start r) (their_end r) theirs) = length (slice (base_start r) (base_end r) base)"
    using Cons.prems by auto
  then have e: "our_end r = our_start r + (base_end r - base_start r)" "their_end r = their_start r + (base_end r - base_start r)"
    using le by simp_all
  show ?case using Cons.IH [of "base_end r" "our_end r" "their_end r"] Cons.prems le
    by (simp add: Let_def region_lines_def e)
qed simp

lemma region_parts_append:
  "\<exists>i' j' k'. region_parts base ours theirs i j k (rs @ [r]) = region_parts base ours theirs i j k rs @
     region_parts base ours theirs i' j' k' [r]"
  by (induction rs arbitrary: i j k) auto

lemma region_parts_shared:
  "\<forall>r\<in>set rs. base_start r < base_end r \<and> base_end r \<le> length base \<Longrightarrow>
   list_all (\<lambda>p. part_shared p \<noteq> []) (region_parts base ours theirs i j k rs)"
  by (induction rs arbitrary: i j k) (auto simp: slice_def)

lemma sync_overlaps_within:
  "block_chain base ours i1 j1 os \<Longrightarrow> r \<in> set (sync_overlaps os ts) \<Longrightarrow> base_start r < base_end r \<and> base_end r \<le> length base"
proof (induction os ts arbitrary: i1 j1 rule: sync_overlaps.induct)
  case (1 p os q ts)
  then show ?case using "1.IH"(1) [OF refl refl refl refl] "1.IH"(2) [OF refl refl refl refl _ "1.prems"(1)]
    by (auto simp: Let_def overlap_region_def split: if_splits)
qed simp_all

lemma merge_parts_shared:
  assumes "common_blocks base ours = Some os" "common_blocks base theirs = Some ts"
  shows "set (shared_lines 0 0 0 (merge_parts base ours theirs)) =
      {(x, y, z). (x, y) \<in> set (block_pairs os) \<and> (x, z) \<in> set (block_pairs ts)}"
    "\<exists>ps p. merge_parts base ours theirs = ps @ [p] \<and> list_all (\<lambda>p. part_shared p \<noteq> []) ps \<and> part_shared p = []"
proof -
  define sent where "sent = \<lparr>base_start = length base, base_end = length base, our_start = length ours,
        our_end = length ours, their_start = length theirs, their_end = length theirs\<rparr>"
  note c = blocks.find_chain [OF assms(1)] blocks.find_chain [OF assms(2)]
  have rs: "sync_regions base ours theirs = Some (sync_overlaps os ts @ [sent])" by (simp add: sync_regions_def assms sent_def)
  then have ch: "region_chain base ours theirs 0 0 0 (sync_overlaps os ts @ [sent])"
    using sync_regions_chain [of base ours theirs] by simp
  have "set (shared_lines 0 0 0 (merge_parts base ours theirs)) = set (concat (map region_lines (sync_overlaps os ts)))"
    by (simp add: merge_parts_def rs region_parts_lines [OF ch]) (simp add: region_lines_def sent_def)
  then show "set (shared_lines 0 0 0 (merge_parts base ours theirs)) =
      {(x, y, z). (x, y) \<in> set (block_pairs os) \<and> (x, z) \<in> set (block_pairs ts)}"
    using sync_overlaps_lines [OF c] by (intro set_eqI) (simp only: split_paired_all mem_Collect_eq prod.case)
  obtain i j k where "merge_parts base ours theirs = region_parts base ours theirs 0 0 0 (sync_overlaps os ts) @
      region_parts base ours theirs i j k [sent]"
    using region_parts_append [of base ours theirs 0 0 0 "sync_overlaps os ts" sent] by (auto simp: merge_parts_def rs)
  moreover have "list_all (\<lambda>p. part_shared p \<noteq> []) (region_parts base ours theirs 0 0 0 (sync_overlaps os ts))"
    using sync_overlaps_within [OF c(1)] by (intro region_parts_shared) blast
  ultimately show "\<exists>ps p. merge_parts base ours theirs = ps @ [p] \<and> list_all (\<lambda>p. part_shared p \<noteq> []) ps \<and> part_shared p = []"
    by (simp add: sent_def slice_def)
qed

section \<open>What a part becomes\<close>

text \<open>The lines of a conflict, and the three-way rule: a change of one side alone is taken, the same change of both sides is taken once,
  and two different changes are both kept between markers, with what was there before.\<close>

definition mark_line :: "string \<Rightarrow> string \<Rightarrow> string" where
  "mark_line mark label = mark @ (if label = [] then [] else CHR '' '' # label)"

definition is_conflict :: "part \<Rightarrow> bool" where
  "is_conflict p \<longleftrightarrow> part_ours p \<noteq> part_base p \<and> part_theirs p \<noteq> part_base p \<and> part_ours p \<noteq> part_theirs p"

definition three_way :: "string \<Rightarrow> string \<Rightarrow> string \<Rightarrow> part \<Rightarrow> string list" where
  "three_way ol bl tl1 p =
     (if is_conflict p
      then mark_line ''<<<<<<<'' ol # part_ours p @ mark_line ''|||||||'' bl # part_base p @ ''======='' # part_theirs p @
        [mark_line ''>>>>>>>'' tl1]
      else if part_ours p = part_base p then part_theirs p else part_ours p)"

lemma decide_three_way:
  "result_lines (decide ol bl tl1 p) = three_way ol bl tl1 p" "conflicts (decide ol bl tl1 p) = (if is_conflict p then 1 else 0)"
  by (auto simp: decide_def merge_region_def three_way_def is_conflict_def conflict_block_def marker_def mark_line_def)

section \<open>Properties\<close>

text \<open>C19. \<open>Merge3\<close> returns for all texts, without a slice out of range. The three texts fall into parts, each three stretches
  followed by lines that all three share; the shared lines are exactly those base lines that the comparison of base and ours and the
  comparison of base and theirs both match, at the matched positions, and every part but the last ends with some. Each part becomes what
  the three-way rule says, followed by its shared lines: the change of the side that changed it, the common change, or both changes
  between markers. The conflicts are the number of parts that both sides changed differently.\<close>

theorem merge3_by_parts:
  "\<exists>os ts ps p. common_blocks base ours = Some os \<and> common_blocks base theirs = Some ts \<and>
     texts part_base (ps @ [p]) = base \<and> texts part_ours (ps @ [p]) = ours \<and> texts part_theirs (ps @ [p]) = theirs \<and>
     set (shared_lines 0 0 0 (ps @ [p])) = {(x, y, z). (x, y) \<in> set (block_pairs os) \<and> (x, z) \<in> set (block_pairs ts)} \<and>
     list_all (\<lambda>p. part_shared p \<noteq> []) ps \<and> part_shared p = [] \<and>
     merge3 base ours theirs ol bl tl1 = Some
      \<lparr>result_lines = texts (three_way ol bl tl1) (ps @ [p]), conflicts = length (filter is_conflict (ps @ [p]))\<rparr>"
proof -
  obtain os ts where o: "common_blocks base ours = Some os" "common_blocks base theirs = Some ts"
    using blocks.find_total by meson
  obtain ps p where p: "merge_parts base ours theirs = ps @ [p]" "list_all (\<lambda>p. part_shared p \<noteq> []) ps" "part_shared p = []"
    using merge_parts_shared(2) [OF o] by blast
  have n: "sum_list (map (\<lambda>p. conflicts (decide ol bl tl1 p)) xs) = length (filter is_conflict xs)" for xs
    by (induction xs) (auto simp: decide_three_way)
  have "texts (\<lambda>p. result_lines (decide ol bl tl1 p)) (ps @ [p]) = texts (three_way ol bl tl1) (ps @ [p])"
    by (simp add: decide_three_way)
  then have "merge3 base ours theirs ol bl tl1 = Some
      \<lparr>result_lines = texts (three_way ol bl tl1) (ps @ [p]), conflicts = length (filter is_conflict (ps @ [p]))\<rparr>"
    using merge3_parts(1) [of base ours theirs ol bl tl1] unfolding p(1) n by simp
  moreover note merge_parts_shared(1) [OF o, unfolded p(1)] merge3_parts(2-4) [of base ours theirs, unfolded p(1)]
  ultimately show ?thesis using o p(2,3)
    by (intro exI [of _ os, OF exI [of _ ts, OF exI [of _ ps, OF exI [of _ p]]]] conjI)
qed

text \<open>When one side is the base, the merge is the other side, and when both sides are
  equal it is that side; in none of these cases is there a conflict.\<close>

theorem merge3_unchanged_side:
  "merge3 base ours base ol bl tl1 = Some \<lparr>result_lines = ours, conflicts = 0\<rparr> \<and>
   merge3 base base theirs ol bl tl1 = Some \<lparr>result_lines = theirs, conflicts = 0\<rparr> \<and>
   merge3 base ours ours ol bl tl1 = Some \<lparr>result_lines = ours, conflicts = 0\<rparr>"
proof (intro conjI)
  show "merge3 base ours base ol bl tl1 = Some \<lparr>result_lines = ours, conflicts = 0\<rparr>"
    using merge_picks [of base ours base ol bl tl1 part_ours] merge_parts_agree(2) [of _ base ours] merge3_parts(3)
    by (auto simp: decide_def merge_region_def)
  show "merge3 base base theirs ol bl tl1 = Some \<lparr>result_lines = theirs, conflicts = 0\<rparr>"
    using merge_picks [of base base theirs ol bl tl1 part_theirs] merge_parts_agree(3) [of _ base theirs] merge3_parts(4)
    by (auto simp: decide_def merge_region_def)
  show "merge3 base ours ours ol bl tl1 = Some \<lparr>result_lines = ours, conflicts = 0\<rparr>"
    using merge_picks [of base ours ours ol bl tl1 part_ours] merge_parts_agree(1) [of _ base ours] merge3_parts(3)
    by (auto simp: decide_def merge_region_def)
qed

end
