(* ===== verification/Checkpoint_Merge.thy ===== *)
theory Checkpoint_Merge
  imports Checkpoint_History Checkpoint_Text Textdiff_Merge
begin

text \<open>
  \<open>internal/checkpoint/merge.go\<close>: the plan of a merge (\<open>planMergedPath\<close>, \<open>planMergedFile\<close>,
  \<open>resolveMergedMode\<close>, \<open>planMergeManifests\<close>), its application (\<open>applyMergePlan\<close>,
  \<open>writeMergedPath\<close>, \<open>dropMergedPath\<close>), \<open>Merge\<close> with \<open>mergeBase\<close>, and the report.

  A pointer to an entry is an option. \<open>Merge3\<close> is an option because of its slice expressions;
  the plan turns its \<open>None\<close> into the error \<open>Panicked\<close>, and \<open>plan_never_panics\<close> shows that this
  does not happen. A merge that fails half-way keeps what it did: its result is the error, if any,
  the part of the plan that was applied, and the tree.
\<close>

section \<open>The plan\<close>

definition default_our_label :: string where "default_our_label = ''working tree''"

datatype merge_action = MergeKeep | MergeWriteEntry | MergeWriteLines | MergeDelete

record merge_plan_entry =
  mp_path :: string
  mp_action :: merge_action
  mp_label :: string
  mp_note :: string
  mp_conflicts :: nat
  mp_entry :: entry
  mp_lines :: "string list"
  mp_mode :: file_mode
  mp_trailing_newline :: bool

definition is_directory :: "merge_plan_entry \<Rightarrow> bool" where
  "is_directory item \<longleftrightarrow> (mp_action item = MergeWriteEntry \<or> mp_action item = MergeDelete) \<and>
     e_kind (mp_entry item) = KindDirectory"

record merge_options =
  mo_base_id :: string
  mo_dry_run :: bool
  mo_our_label :: string

record merge_outcome =
  mr_base_id :: string
  mr_theirs_id :: string
  mr_automatic :: string
  mr_plan :: "merge_plan_entry list"
  mr_merged :: nat
  mr_conflicted :: nat

definition no_outcome :: merge_outcome where
  "no_outcome = \<lparr>mr_base_id = [], mr_theirs_id = [], mr_automatic = [], mr_plan = [],
     mr_merged = 0, mr_conflicted = 0\<rparr>"

record merge_labels =
  ml_ours :: string
  ml_base :: string
  ml_theirs :: string

definition read_project_file :: "store \<Rightarrow> string \<Rightarrow> string option" where
  "read_project_file st p =
     (case map_of (p_tree (st_project st)) p of
        Some (NFile _ content) \<Rightarrow> if p \<in> set (p_unreadable (st_project st)) then None else Some content
      | _ \<Rightarrow> None)"

definition text_lines :: "string \<Rightarrow> string list option" where
  "text_lines data = (if is_text data then Some (fst (split_lines data)) else None)"

definition stored_text :: "store \<Rightarrow> string \<Rightarrow> string list option" where
  "stored_text st digest = (case blob st digest of Ok data \<Rightarrow> text_lines data | Err _ \<Rightarrow> None)"

definition same_signature :: "entry option \<Rightarrow> entry option \<Rightarrow> bool" where
  "same_signature left right \<longleftrightarrow>
     (case (left, right) of
        (Some l, Some r) \<Rightarrow> e_kind l = e_kind r \<and> perm (e_mode l) = perm (e_mode r) \<and> e_digest l = e_digest r
      | (None, None) \<Rightarrow> True
      | _ \<Rightarrow> False)"

definition entry_kind_note :: "entry \<Rightarrow> string" where
  "entry_kind_note e =
     (case e_kind e of KindDirectory \<Rightarrow> ''/'' | KindLink \<Rightarrow> '' (symlink)'' | _ \<Rightarrow> [])"

definition ends_with_newline :: "string \<Rightarrow> bool" where
  "ends_with_newline data \<longleftrightarrow> data = [] \<or> last data = newline"

text \<open>\<open>%04o\<close> of permission bits, which have three octal digits.\<close>

definition octal4 :: "file_mode \<Rightarrow> string" where
  "octal4 m = (let n = unat m in map digit_char [n div 512 mod 8, n div 64 mod 8, n div 8 mod 8, n mod 8])"

definition resolve_merged_mode :: "entry option \<Rightarrow> file_mode \<Rightarrow> file_mode \<Rightarrow> file_mode \<times> string" where
  "resolve_merged_mode base ourMode0 theirMode0 =
     (let ourMode = perm ourMode0; theirMode = perm theirMode0
      in if ourMode = theirMode then (ourMode, [])
         else let baseMode = (case base of None \<Rightarrow> ourMode | Some b \<Rightarrow> perm (e_mode b))
              in if ourMode = baseMode then (theirMode, [])
                 else if theirMode = baseMode then (ourMode, [])
                 else (ourMode, '' (permissions differ, kept '' @ octal4 ourMode @ '')''))"

definition plan_item :: "string \<Rightarrow> merge_action \<Rightarrow> string \<Rightarrow> string \<Rightarrow> merge_plan_entry" where
  "plan_item path action label note = \<lparr>mp_path = path, mp_action = action, mp_label = label, mp_note = note,
     mp_conflicts = 0, mp_entry = no_entry, mp_lines = [], mp_mode = 0, mp_trailing_newline = False\<rparr>"

definition plan_merged_file ::
  "store \<Rightarrow> string \<Rightarrow> entry option \<Rightarrow> entry \<Rightarrow> entry \<Rightarrow> merge_labels \<Rightarrow> (store_error, merge_plan_entry) result" where
  "plan_merged_file st path base ours theirs labels =
     (let ourData = read_project_file st path; theirData = blob st (e_digest theirs)
      in case (Option.bind ourData text_lines, case theirData of Ok data \<Rightarrow> text_lines data | Err _ \<Rightarrow> None) of
           (Some ourLines, Some theirLines) \<Rightarrow>
             (let baseLines = (case base of
                    Some b \<Rightarrow> if e_kind b = KindFile then (case stored_text st (e_digest b) of Some ls \<Rightarrow> ls | None \<Rightarrow> []) else []
                  | None \<Rightarrow> [])
              in case merge3 baseLines ourLines theirLines (ml_ours labels) (ml_base labels) (ml_theirs labels) of
                   None \<Rightarrow> Err Panicked
                 | Some merged \<Rightarrow>
                     (case resolve_merged_mode base (e_mode ours) (e_mode theirs) of (mode, modeNote) \<Rightarrow>
                        let item = (plan_item path MergeWriteLines ''merged'' modeNote)
                              \<lparr>mp_conflicts := conflicts merged, mp_lines := result_lines merged, mp_mode := mode,
                               mp_trailing_newline :=
                                 (case ourData of Some d \<Rightarrow> ends_with_newline d | None \<Rightarrow> True) \<or>
                                 (case theirData of Ok d \<Rightarrow> ends_with_newline d | Err _ \<Rightarrow> True)\<rparr>
                        in Ok (if 0 < conflicts merged
                               then item\<lparr>mp_label := ''CONFLICT'',
                                      mp_note := '' ('' @ nat_text (conflicts merged) @ '' hunk(s))'' @ modeNote\<rparr>
                               else item)))
         | _ \<Rightarrow> Ok ((plan_item path MergeKeep ''CONFLICT'' '' (binary, contents differ, kept yours)'')
                   \<lparr>mp_conflicts := 1\<rparr>))"

definition plan_merged_path ::
  "store \<Rightarrow> string \<Rightarrow> entry option \<Rightarrow> entry option \<Rightarrow> entry option \<Rightarrow> merge_labels \<Rightarrow>
   (store_error, merge_plan_entry option) result" where
  "plan_merged_path st path base ours theirs labels =
     (if same_signature theirs base \<or> same_signature ours theirs then Ok None
      else if same_signature ours base then
        (case theirs of
           None \<Rightarrow> (case base of
              None \<Rightarrow> Err Panicked
            | Some b \<Rightarrow> Ok (Some ((plan_item path MergeDelete ''removed'' (entry_kind_note b))\<lparr>mp_entry := b\<rparr>)))
         | Some t \<Rightarrow> Ok (Some ((plan_item path MergeWriteEntry (if base = None then ''added'' else ''updated'')
                              (entry_kind_note t))\<lparr>mp_entry := t\<rparr>)))
      else let conflict = (plan_item path MergeKeep ''CONFLICT'' [])\<lparr>mp_conflicts := 1\<rparr>
      in case (ours, theirs) of
           (None, Some t) \<Rightarrow> Ok (Some (conflict\<lparr>mp_action := MergeWriteEntry, mp_entry := t,
                mp_note := '' (removed here, restored from the checkpoint)''\<rparr>))
         | (Some u, None) \<Rightarrow> Ok (Some (conflict\<lparr>mp_note := '' (removed in the checkpoint, kept yours)''\<rparr>))
         | (Some u, Some t) \<Rightarrow>
             if e_kind u \<noteq> e_kind t then Ok (Some (conflict\<lparr>mp_note := '' ('' @ kind_text (e_kind u) @ '' here, '' @
                  kind_text (e_kind t) @ '' in the checkpoint, kept yours)''\<rparr>))
             else if e_kind u = KindLink then Ok (Some (conflict\<lparr>mp_note := '' (symlink targets differ, kept yours)''\<rparr>))
             else bind_res (plan_merged_file st path base u t labels) (\<lambda>item. Ok (Some item))
         | (None, None) \<Rightarrow> Err Panicked)"

fun plan_paths ::
  "store \<Rightarrow> manifest \<Rightarrow> manifest \<Rightarrow> manifest \<Rightarrow> merge_labels \<Rightarrow> string list \<Rightarrow> (store_error, merge_plan_entry list) result" where
  "plan_paths st base ours theirs labels [] = Ok []"
| "plan_paths st base ours theirs labels (path # paths) =
     bind_res (plan_merged_path st path (index base path) (index ours path) (index theirs path) labels) (\<lambda>item.
     bind_res (plan_paths st base ours theirs labels paths) (\<lambda>rest.
       Ok (case item of Some i \<Rightarrow> i # rest | None \<Rightarrow> rest)))"

definition plan_merge_manifests ::
  "scanner \<Rightarrow> store \<Rightarrow> manifest \<Rightarrow> manifest \<Rightarrow> merge_labels \<Rightarrow> (store_error, merge_plan_entry list) result" where
  "plan_merge_manifests sc st base theirs labels =
     (case scan sc (st_project st) of
        Err e \<Rightarrow> Err (ScanFailed e)
      | Ok (ours, _) \<Rightarrow> plan_paths st base ours theirs labels
          (sort (remdups (map e_path base @ map e_path ours @ map e_path theirs))))"

definition plan_merge ::
  "scanner \<Rightarrow> store \<Rightarrow> string \<Rightarrow> string \<Rightarrow> string \<Rightarrow> (store_error, merge_plan_entry list) result" where
  "plan_merge sc st theirsID baseID ourLabel =
     bind_res (stored_manifest st baseID) (\<lambda>base.
     bind_res (stored_manifest st theirsID) (\<lambda>theirs.
       plan_merge_manifests sc st base theirs
         \<lparr>ml_ours = ourLabel, ml_base = ''base '' @ baseID, ml_theirs = ''checkpoint '' @ theirsID\<rparr>))"

definition plan_merge_exported ::
  "scanner \<Rightarrow> store \<Rightarrow> string \<Rightarrow> string \<Rightarrow> (store_error, merge_plan_entry list) result" where
  "plan_merge_exported sc st theirsWanted baseWanted =
     bind_res (resolve st theirsWanted) (\<lambda>theirsID.
     bind_res (resolve st baseWanted) (\<lambda>baseID. plan_merge sc st theirsID baseID default_our_label))"

section \<open>Applying a plan\<close>

definition write_merged_path :: "store \<Rightarrow> merge_plan_entry \<Rightarrow> tree \<Rightarrow> store_error option \<times> tree" where
  "write_merged_path st item t =
     (if mp_action item = MergeWriteEntry then
        (case blob st (e_digest (mp_entry item)) of
           Err _ \<Rightarrow> (Some (ObjectMissing (mp_path item)), t)
         | Ok content \<Rightarrow> (case write_entry (mp_entry item) content t of (err, t') \<Rightarrow> (map_option WriteFailed err, t')))
      else (case write_entry \<lparr>e_kind = KindFile, e_mode = mp_mode item, e_digest = [], e_path = mp_path item\<rparr>
                 (join_lines (mp_lines item) (mp_trailing_newline item)) t of
              (err, t') \<Rightarrow> (map_option WriteFailed err, t')))"

definition write_directory_item :: "merge_plan_entry \<Rightarrow> tree \<Rightarrow> store_error option \<times> tree" where
  "write_directory_item item t =
     (case write_entry (mp_entry item) [] t of (err, t') \<Rightarrow> (map_option WriteFailed err, t'))"

text \<open>One loop over the plan: each item is written, unless it is a dry run, and counted as applied.\<close>

fun apply_writes ::
  "(merge_plan_entry \<Rightarrow> tree \<Rightarrow> store_error option \<times> tree) \<Rightarrow> bool \<Rightarrow> merge_plan_entry list \<Rightarrow>
   merge_plan_entry list \<Rightarrow> tree \<Rightarrow> store_error option \<times> merge_plan_entry list \<times> tree" where
  "apply_writes f dryRun [] applied t = (None, applied, t)"
| "apply_writes f dryRun (item # plan) applied t =
     (case (if dryRun then (None, t) else f item t) of
        (Some e, t') \<Rightarrow> (Some e, applied, t')
      | (None, t') \<Rightarrow> apply_writes f dryRun plan (applied @ [item]) t')"

definition drop_merged_path :: "merge_plan_entry \<Rightarrow> bool \<Rightarrow> tree \<Rightarrow> (store_error, bool \<times> tree) result" where
  "drop_merged_path item dryRun t =
     (if e_kind (mp_entry item) = KindDirectory then
        if dryRun then
          Ok (case locate t (mp_path item) of Ok q \<Rightarrow> lstat t q = Some NDir \<and> child_names t q = [] | Err _ \<Rightarrow> False, t)
        else (case root_remove (mp_path item) t of Ok t' \<Rightarrow> Ok (True, t') | Err _ \<Rightarrow> Ok (False, t))
      else if dryRun then Ok (True, t)
      else (case remove_path (mp_path item) t of
              Ok t' \<Rightarrow> Ok (True, t') | Err e \<Rightarrow> Err (RemoveFailed (mp_path item) e)))"

fun apply_drops ::
  "bool \<Rightarrow> merge_plan_entry list \<Rightarrow> merge_plan_entry list \<Rightarrow> tree \<Rightarrow>
   store_error option \<times> merge_plan_entry list \<times> tree" where
  "apply_drops dryRun [] applied t = (None, applied, t)"
| "apply_drops dryRun (item # items) applied t =
     (case drop_merged_path item dryRun t of
        Err e \<Rightarrow> (Some e, applied, t)
      | Ok (dropped, t') \<Rightarrow> apply_drops dryRun items (if dropped then applied @ [item] else applied) t')"

definition finish_plan :: "merge_plan_entry list \<Rightarrow> merge_plan_entry list" where
  "finish_plan = sort_key mp_path"

definition directory_items :: "merge_plan_entry list \<Rightarrow> merge_plan_entry list" where
  "directory_items = filter (\<lambda>item. mp_action item = MergeWriteEntry \<and> is_directory item)"

definition written_items :: "merge_plan_entry list \<Rightarrow> merge_plan_entry list" where
  "written_items = filter (\<lambda>item. \<not> (is_directory item \<or>
     (mp_action item \<noteq> MergeWriteEntry \<and> mp_action item \<noteq> MergeWriteLines)))"

definition drop_items :: "merge_plan_entry list \<Rightarrow> merge_plan_entry list" where
  "drop_items plan = rev (sort_key mp_path (filter (\<lambda>item. mp_action item = MergeDelete) plan))"

definition apply_merge_plan ::
  "store \<Rightarrow> merge_plan_entry list \<Rightarrow> bool \<Rightarrow> tree \<Rightarrow> store_error option \<times> merge_plan_entry list \<times> tree" where
  "apply_merge_plan st plan dryRun t =
     (case apply_writes write_directory_item dryRun (directory_items plan) [] t of
        (Some e, applied, t1) \<Rightarrow> (Some e, finish_plan applied, t1)
      | (None, applied1, t1) \<Rightarrow>
        (case apply_writes (write_merged_path st) dryRun (written_items plan) applied1 t1 of
           (Some e, applied, t2) \<Rightarrow> (Some e, finish_plan applied, t2)
         | (None, applied2, t2) \<Rightarrow>
           (case apply_drops dryRun (drop_items plan) applied2 t2 of
              (Some e, applied, t3) \<Rightarrow> (Some e, finish_plan applied, t3)
            | (None, applied3, t3) \<Rightarrow>
                (None, finish_plan (applied3 @ filter (\<lambda>item. mp_action item = MergeKeep) plan), t3))))"

section \<open>Merge\<close>

definition merge_base :: "store \<Rightarrow> string \<Rightarrow> string \<Rightarrow> (store_error, string) result" where
  "merge_base st theirsID wanted0 =
     bind_res (if wanted0 = [] then (case head st of None \<Rightarrow> Err NoBase | Some h \<Rightarrow> Ok h) else Ok wanted0) (\<lambda>wanted.
     bind_res (resolve st wanted) (\<lambda>baseID.
       if baseID = theirsID then Err (BaseIsTheirs theirsID) else Ok baseID))"

text \<open>What \<open>Merge\<close> and \<open>Pick\<close> do with a plan: the automatic checkpoint, the application, the counts.\<close>

definition run_plan ::
  "scanner \<Rightarrow> ('t \<Rightarrow> string) \<Rightarrow> 't \<Rightarrow> string \<Rightarrow> bool \<Rightarrow> merge_plan_entry list \<Rightarrow> merge_outcome \<Rightarrow> store \<Rightarrow>
   store_error option \<times> merge_outcome \<times> store" where
  "run_plan sc fmt now label dryRun plan result st =
     (case (if dryRun then Ok (result, st)
            else case take_checkpoint sc fmt now label st of
                   Err e \<Rightarrow> Err e
                 | Ok (automatic, st1) \<Rightarrow> Ok (result\<lparr>mr_automatic := c_id automatic\<rparr>, st1)) of
        Err e \<Rightarrow> (Some e, result, st)
      | Ok (result1, st1) \<Rightarrow>
        (case apply_merge_plan st1 plan dryRun (p_tree (st_project st1)) of
           (err, applied, t) \<Rightarrow>
             (err, result1\<lparr>mr_plan := applied,
                     mr_conflicted := length (filter (\<lambda>item. 0 < mp_conflicts item) applied),
                     mr_merged := length (filter (\<lambda>item. \<not> 0 < mp_conflicts item) applied)\<rparr>, set_tree t st1)))"

definition merge ::
  "scanner \<Rightarrow> ('t \<Rightarrow> string) \<Rightarrow> 't \<Rightarrow> string \<Rightarrow> merge_options \<Rightarrow> store \<Rightarrow>
   store_error option \<times> merge_outcome \<times> store" where
  "merge sc fmt now theirsWanted options st =
     (case resolve st theirsWanted of Err e \<Rightarrow> (Some e, no_outcome, st) | Ok theirsID \<Rightarrow>
     (case merge_base st theirsID (mo_base_id options) of Err e \<Rightarrow> (Some e, no_outcome, st) | Ok baseID \<Rightarrow>
     (let ourLabel = (if mo_our_label options = [] then default_our_label else mo_our_label options)
      in case plan_merge sc st theirsID baseID ourLabel of Err e \<Rightarrow> (Some e, no_outcome, st) | Ok plan \<Rightarrow>
     (let result = no_outcome\<lparr>mr_base_id := baseID, mr_theirs_id := theirsID\<rparr>
      in if plan = [] then (None, result, st)
         else run_plan sc fmt now (''automatic, before merging '' @ theirsID) (mo_dry_run options) plan result st))))"

section \<open>The report\<close>

definition report_label_width :: nat where "report_label_width = 15"

text \<open>\<open>%-*s\<close> pads a label on the right; the labels are ASCII.\<close>

definition report_row :: "string \<Rightarrow> string \<Rightarrow> string \<Rightarrow> string" where
  "report_row label path note =
     ''  '' @ label @ replicate (report_label_width - length label) CHR '' '' @ path @ note"

definition write_applied_plan :: "merge_outcome \<Rightarrow> string \<Rightarrow> string \<Rightarrow> bool \<Rightarrow> string list" where
  "write_applied_plan result verb noun dryRun =
     map (\<lambda>item. report_row (mp_label item) (mp_path item) (mp_note item)) (mr_plan result) @
     [[], nat_text (mr_merged result) @ '' path(s) '' @ verb @ '', '' @ nat_text (mr_conflicted result) @ '' conflicted.''] @
     (if dryRun then [''Dry run. Nothing was written.'']
      else (if 0 < mr_conflicted result then [[], ''Edit the files to remove the conflict markers.''] else []) @
        [[], ''checkpoint '' @ mr_automatic result @ '' is the tree from before this '' @ noun @ ''.''])"

definition write_merge_report :: "merge_outcome \<Rightarrow> string \<Rightarrow> string \<Rightarrow> bool \<Rightarrow> string list" where
  "write_merge_report result baseID theirsID dryRun =
     (if mr_plan result = [] then [''checkpoint '' @ theirsID @ '' has no new changes'']
      else [''merging checkpoint '' @ theirsID @ '' into the working tree.'', [],
            ''  base   checkpoint '' @ baseID, ''  ours   the working tree'', ''  theirs checkpoint '' @ theirsID, []] @
           write_applied_plan result ''merged'' ''merge'' dryRun)"

section \<open>What a plan holds\<close>

lemma no_temporaries_subset: "no_temporaries qs \<Longrightarrow> ps \<subseteq> qs \<Longrightarrow> no_temporaries ps"
  by (auto simp: no_temporaries_def)

lemma same_signature_simps [simp]:
  "same_signature None None" "\<not> same_signature None (Some e)" "\<not> same_signature (Some e) None"
  by (simp_all add: same_signature_def)

lemma same_signature_None [simp]: "same_signature None b \<longleftrightarrow> b = None" "same_signature b None \<longleftrightarrow> b = None"
  by (cases b; simp)+

lemma same_signature_refl [simp]: "same_signature e e"
  by (cases e) (simp_all add: same_signature_def)

lemma same_signature_sym: "same_signature a b \<longleftrightarrow> same_signature b a"
  by (auto simp: same_signature_def split: option.splits)

lemma same_signature_trans: "same_signature a b \<Longrightarrow> same_signature b c \<Longrightarrow> same_signature a c"
  by (auto simp: same_signature_def split: option.splits)

lemma plan_item_simps [simp]:
  "mp_path (plan_item p a l n) = p" "mp_action (plan_item p a l n) = a" "mp_conflicts (plan_item p a l n) = 0"
  by (simp_all add: plan_item_def)

text \<open>The three-way rule for one path, given the entries of the three trees there: what each side says, when there is a conflict, and
  what a merged file holds. The texts are those that can be read as text; a base that is no readable text counts as empty.\<close>

definition our_text :: "store \<Rightarrow> string \<Rightarrow> string list option" where
  "our_text st p = Option.bind (read_project_file st p) text_lines"

definition base_text :: "store \<Rightarrow> entry option \<Rightarrow> string list" where
  "base_text st base =
     (case base of
        Some b \<Rightarrow> if e_kind b = KindFile then (case stored_text st (e_digest b) of Some ls \<Rightarrow> ls | None \<Rightarrow> []) else []
      | None \<Rightarrow> [])"

definition mergeable :: "store \<Rightarrow> string \<Rightarrow> entry option \<Rightarrow> entry option \<Rightarrow> bool" where
  "mergeable st p ours theirs \<longleftrightarrow>
     (case (ours, theirs) of
        (Some u, Some v) \<Rightarrow> e_kind u = e_kind v \<and> e_kind u \<noteq> KindLink \<and> our_text st p \<noteq> None \<and> stored_text st (e_digest v) \<noteq> None
      | _ \<Rightarrow> False)"

text \<open>Permissions: the side that differs from the base wins, and ours when both do. Without a base, theirs.\<close>

definition merged_mode :: "entry option \<Rightarrow> entry \<Rightarrow> entry \<Rightarrow> file_mode" where
  "merged_mode base u v =
     (case base of
        None \<Rightarrow> perm (e_mode v)
      | Some b \<Rightarrow> if perm (e_mode u) = perm (e_mode b) then perm (e_mode v) else perm (e_mode u))"

definition merged_as :: "store \<Rightarrow> merge_labels \<Rightarrow> entry option \<Rightarrow> entry \<Rightarrow> entry \<Rightarrow> merge_plan_entry \<Rightarrow> bool" where
  "merged_as st labels base u v item \<longleftrightarrow>
     (\<exists>ourData theirData r. read_project_file st (mp_path item) = Some ourData \<and> blob st (e_digest v) = Ok theirData \<and>
        merge3 (base_text st base) (fst (split_lines ourData)) (fst (split_lines theirData)) (ml_ours labels) (ml_base labels) (ml_theirs labels) = Some r \<and>
        mp_lines item = result_lines r \<and> mp_conflicts item = conflicts r \<and> mp_mode item = merged_mode base u v \<and>
        (mp_trailing_newline item \<longleftrightarrow> ends_with_newline ourData \<or> ends_with_newline theirData))"

definition planned :: "store \<Rightarrow> merge_labels \<Rightarrow> entry option \<Rightarrow> entry option \<Rightarrow> entry option \<Rightarrow> merge_plan_entry \<Rightarrow> bool" where
  "planned st labels base ours theirs item \<longleftrightarrow>
     (mp_label item = ''CONFLICT'' \<longleftrightarrow> 0 < mp_conflicts item) \<and>
     (if same_signature ours base then mp_conflicts item = 0 \<and>
        (case theirs of
           Some v \<Rightarrow> mp_action item = MergeWriteEntry \<and> mp_entry item = v
         | None \<Rightarrow> mp_action item = MergeDelete \<and> base = Some (mp_entry item))
      else (case (ours, theirs) of
          (None, Some v) \<Rightarrow> mp_action item = MergeWriteEntry \<and> mp_entry item = v \<and> mp_conflicts item = 1
        | (Some u, Some v) \<Rightarrow>
            if mergeable st (mp_path item) ours theirs then mp_action item = MergeWriteLines \<and> merged_as st labels base u v item
            else mp_action item = MergeKeep \<and> mp_conflicts item = 1
        | (Some u, None) \<Rightarrow> mp_action item = MergeKeep \<and> mp_conflicts item = 1
        | (None, None) \<Rightarrow> False))"

lemma resolve_merged_mode_mode: "fst (resolve_merged_mode base (e_mode u) (e_mode v)) = merged_mode base u v"
  by (auto simp: resolve_merged_mode_def merged_mode_def Let_def split: option.splits)

lemma plan_merged_file_spec:
  assumes "e_kind u = e_kind v" "e_kind u \<noteq> KindLink"
  shows "\<exists>item. plan_merged_file st path base u v labels = Ok item \<and> mp_path item = path \<and>
     (mp_label item = ''CONFLICT'' \<longleftrightarrow> 0 < mp_conflicts item) \<and>
     (if mergeable st path (Some u) (Some v) then mp_action item = MergeWriteLines \<and> merged_as st labels base u v item
      else mp_action item = MergeKeep \<and> mp_conflicts item = 1)"
proof (cases "mergeable st path (Some u) (Some v)")
  case True
  then obtain ourData theirData where d: "read_project_file st path = Some ourData" "blob st (e_digest v) = Ok theirData"
    "is_text ourData" "is_text theirData"
    by (auto simp: mergeable_def our_text_def stored_text_def text_lines_def bind_eq_Some_conv split: sum.splits if_splits)
  obtain r where r: "merge3 (base_text st base) (fst (split_lines ourData)) (fst (split_lines theirData))
      (ml_ours labels) (ml_base labels) (ml_theirs labels) = Some r"
    using merge3_parts(1) by blast
  obtain mode modeNote where m: "resolve_merged_mode base (e_mode u) (e_mode v) = (mode, modeNote)" by fastforce
  then have mode: "mode = merged_mode base u v" using resolve_merged_mode_mode [of base u v] by simp
  define item where "item = (plan_item path MergeWriteLines ''merged'' modeNote)
      \<lparr>mp_conflicts := conflicts r, mp_lines := result_lines r, mp_mode := mode,
       mp_trailing_newline := ends_with_newline ourData \<or> ends_with_newline theirData\<rparr>"
  define out where "out = (if 0 < conflicts r
      then item\<lparr>mp_label := ''CONFLICT'', mp_note := '' ('' @ nat_text (conflicts r) @ '' hunk(s))'' @ modeNote\<rparr> else item)"
  have "plan_merged_file st path base u v labels = Ok out"
    using d r m unfolding out_def item_def base_text_def by (simp add: plan_merged_file_def text_lines_def Let_def)
  moreover have "merged_as st labels base u v out" unfolding merged_as_def
    using d(1,2) r mode by (intro exI [of _ ourData] exI [of _ theirData] exI [of _ r]) (simp add: out_def item_def)
  moreover have "mp_path out = path" "mp_action out = MergeWriteLines" "mp_label out = ''CONFLICT'' \<longleftrightarrow> 0 < mp_conflicts out"
    by (simp_all add: out_def item_def plan_item_def)
  ultimately show ?thesis using True by simp
next
  case False
  then have "Option.bind (read_project_file st path) text_lines = None \<or>
      (case blob st (e_digest v) of Ok data \<Rightarrow> text_lines data | Err _ \<Rightarrow> None) = None"
    using assms by (simp add: mergeable_def our_text_def stored_text_def)
  then have "plan_merged_file st path base u v labels = Ok ((plan_item path MergeKeep ''CONFLICT'' '' (binary, contents differ, kept yours)'')
      \<lparr>mp_conflicts := 1\<rparr>)"
    by (auto simp: plan_merged_file_def Let_def split: option.split)
  then show ?thesis using False by (simp add: plan_item_def)
qed

lemma plan_merged_path_spec:
  "\<exists>r. plan_merged_path st path base ours theirs labels = Ok r \<and>
     (r = None \<longleftrightarrow> same_signature theirs base \<or> same_signature ours theirs) \<and>
     (\<forall>item. r = Some item \<longrightarrow> mp_path item = path \<and> planned st labels base ours theirs item)"
proof (cases "same_signature theirs base \<or> same_signature ours theirs")
  case True
  then show ?thesis by (simp add: plan_merged_path_def)
next
  case unsettled: False
  show ?thesis
  proof (cases "same_signature ours base")
    case True
    then show ?thesis using unsettled
      by (cases theirs; cases base) (auto simp: plan_merged_path_def planned_def plan_item_def)
  next
    case changed: False
    show ?thesis
    proof (cases "\<exists>u v. ours = Some u \<and> theirs = Some v \<and> e_kind u = e_kind v \<and> e_kind u \<noteq> KindLink")
      case True
      then obtain u v where uv: "ours = Some u" "theirs = Some v" "e_kind u = e_kind v" "e_kind u \<noteq> KindLink" by blast
      obtain item where i: "plan_merged_file st path base u v labels = Ok item" "mp_path item = path"
        "mp_label item = ''CONFLICT'' \<longleftrightarrow> 0 < mp_conflicts item"
        "if mergeable st path (Some u) (Some v) then mp_action item = MergeWriteLines \<and> merged_as st labels base u v item
         else mp_action item = MergeKeep \<and> mp_conflicts item = 1"
        using plan_merged_file_spec [OF uv(3,4), of st path base labels] by (elim exE conjE) (rule that)
      have "plan_merged_path st path base ours theirs labels = Ok (Some item)"
        using i(1) unsettled changed uv by (simp add: plan_merged_path_def)
      moreover have "planned st labels base ours theirs item" using i(2-4) changed uv by (simp add: planned_def)
      ultimately show ?thesis using unsettled i(2) by simp
    next
      case False
      then have "\<not> mergeable st path ours theirs" by (auto simp: mergeable_def split: option.splits)
      then show ?thesis using unsettled changed False
        by (cases ours; cases theirs) (auto simp: plan_merged_path_def planned_def plan_item_def Let_def)
    qed
  qed
qed

lemma planned_entry: "planned st labels base ours theirs item \<Longrightarrow> mp_action item = MergeWriteEntry \<Longrightarrow> theirs = Some (mp_entry item)"
  by (auto simp: planned_def split: if_splits option.splits)

lemma planned_ours:
  "planned st labels base ours theirs item \<Longrightarrow> mp_action item = MergeKeep \<or> mp_action item = MergeDelete \<Longrightarrow> ours \<noteq> None"
  by (cases ours) (auto simp: planned_def split: if_splits option.splits)

lemma plan_paths_spec:
  "sorted paths \<Longrightarrow> distinct paths \<Longrightarrow> \<exists>plan. plan_paths st base ours theirs labels paths = Ok plan \<and>
     sorted (map mp_path plan) \<and> distinct (map mp_path plan) \<and>
     mp_path ` set plan = {p\<in>set paths. \<not> same_signature (index theirs p) (index base p) \<and>
        \<not> same_signature (index ours p) (index theirs p)} \<and>
     (\<forall>item\<in>set plan. planned st labels (index base (mp_path item)) (index ours (mp_path item)) (index theirs (mp_path item)) item)"
proof (induction paths)
  case (Cons p paths)
  obtain r where r: "plan_merged_path st p (index base p) (index ours p) (index theirs p) labels = Ok r"
    "r = None \<longleftrightarrow> same_signature (index theirs p) (index base p) \<or> same_signature (index ours p) (index theirs p)"
    "\<forall>item. r = Some item \<longrightarrow> mp_path item = p \<and> planned st labels (index base p) (index ours p) (index theirs p) item"
    using plan_merged_path_spec by meson
  obtain plan where plan: "plan_paths st base ours theirs labels paths = Ok plan" "sorted (map mp_path plan)"
    "distinct (map mp_path plan)" "mp_path ` set plan = {p\<in>set paths. \<not> same_signature (index theirs p) (index base p) \<and>
        \<not> same_signature (index ours p) (index theirs p)}"
    "\<forall>item\<in>set plan. planned st labels (index base (mp_path item)) (index ours (mp_path item)) (index theirs (mp_path item)) item"
    using Cons by auto
  have le: "\<forall>x\<in>mp_path ` set plan. p \<le> x \<and> x \<noteq> p" using plan(4) Cons.prems by auto
  show ?case
  proof (cases r)
    case None
    then show ?thesis using r plan by auto
  next
    case (Some item)
    then have "plan_paths st base ours theirs labels (p # paths) = Ok (item # plan)" using r(1) plan(1) by simp
    moreover have "mp_path ` set (item # plan) = {x\<in>set (p # paths). \<not> same_signature (index theirs x) (index base x) \<and>
        \<not> same_signature (index ours x) (index theirs x)}"
      using plan(4) r(2,3) Some by auto
    ultimately show ?thesis using r(3) Some plan(2,3,5) le by auto
  qed
qed simp

lemma plan_manifests_spec:
  assumes "scan sc (st_project st) = Ok (ours, sk)"
  shows "\<exists>plan. plan_merge_manifests sc st base theirs labels = Ok plan \<and>
     sorted (map mp_path plan) \<and> distinct (map mp_path plan) \<and>
     mp_path ` set plan = {p. \<not> same_signature (index theirs p) (index base p) \<and>
        \<not> same_signature (index ours p) (index theirs p)} \<and>
     (\<forall>item\<in>set plan. planned st labels (index base (mp_path item)) (index ours (mp_path item)) (index theirs (mp_path item)) item)"
proof -
  let ?paths = "sort (remdups (map e_path base @ map e_path ours @ map e_path theirs))"
  have "same_signature (index theirs p) (index base p)" if "p \<notin> set ?paths" for p
    using that by (simp flip: index_None)
  then have "{p\<in>set ?paths. \<not> same_signature (index theirs p) (index base p) \<and> \<not> same_signature (index ours p) (index theirs p)} =
      {p. \<not> same_signature (index theirs p) (index base p) \<and> \<not> same_signature (index ours p) (index theirs p)}" by blast
  then show ?thesis
    using plan_paths_spec [of ?paths st base ours theirs labels] assms
    by (simp add: plan_merge_manifests_def)
qed

section \<open>What applying a plan does to the tree\<close>

text \<open>A node stays, or a new directory appears where nothing was.\<close>

definition kept :: "string set \<Rightarrow> tree \<Rightarrow> tree \<Rightarrow> bool" where
  "kept ps t t' \<longleftrightarrow> (\<forall>q\<in>ps. map_of t q \<noteq> None \<longrightarrow> map_of t' q = map_of t q)"

lemma kept_refl [simp]: "kept ps t t"
  by (simp add: kept_def)

lemma kept_trans: "kept ps t u \<Longrightarrow> kept ps u v \<Longrightarrow> kept ps t v"
  by (simp add: kept_def)

lemma kept_mono: "kept ps t u \<Longrightarrow> qs \<subseteq> ps \<Longrightarrow> kept qs t u"
  by (auto simp: kept_def)

lemma kept_node: "kept ps t u \<Longrightarrow> q \<in> ps \<Longrightarrow> map_of t q = Some n \<Longrightarrow> map_of u q = Some n"
  by (auto simp: kept_def)

lemma only_changes_kept: "only_changes qs t u \<Longrightarrow> ps \<inter> qs = {} \<Longrightarrow> kept ps t u"
  by (fastforce simp: only_changes_def kept_def)

text \<open>What one writing step promises: where no link is in the way it sets the node at its path, and disturbs no other than its temporary
  path.\<close>

definition item_kind :: "merge_plan_entry \<Rightarrow> kind" where
  "item_kind item = (if mp_action item = MergeWriteEntry then e_kind (mp_entry item) else KindFile)"

definition item_jobs :: "merge_plan_entry list \<Rightarrow> (string \<times> kind) list" where
  "item_jobs items = map (\<lambda>item. (mp_path item, item_kind item)) items"

lemma item_jobs_simps [simp]: "item_jobs [] = []" "item_jobs (item # items) = (mp_path item, item_kind item) # item_jobs items"
  "set (item_jobs items) = (\<lambda>item. (mp_path item, item_kind item)) ` set items"
  by (simp_all add: item_jobs_def)

definition writes :: "(merge_plan_entry \<Rightarrow> tree \<Rightarrow> store_error option \<times> tree) \<Rightarrow>
    (merge_plan_entry \<Rightarrow> node \<Rightarrow> bool) \<Rightarrow> merge_plan_entry \<Rightarrow> bool" where
  "writes f Q item \<longleftrightarrow> (\<forall>t t'. linkless t (mp_path item) \<and> (item_kind item = KindDirectory \<longrightarrow> reachable_link t (mp_path item)) \<and>
     f item t = (None, t') \<longrightarrow>
     written (mp_path item) (item_kind item) t t' \<and> (\<exists>n. map_of t' (mp_path item) = Some n \<and> Q item n))"

lemma apply_writes_tree:
  "apply_writes f False items applied t = (None, applied', t') \<Longrightarrow> \<forall>item\<in>set items. writes f Q item \<Longrightarrow>
   distinct (map mp_path items) \<Longrightarrow> ways_ready t (item_jobs items) \<Longrightarrow>
   no_temporaries (mp_path ` set items \<union> ps) \<Longrightarrow> mp_path ` set items \<inter> ps = {} \<Longrightarrow>
   applied' = applied @ items \<and> kept ps t t' \<and>
   (\<forall>item\<in>set items. \<exists>n. map_of t' (mp_path item) = Some n \<and> Q item n) \<and>
   (\<forall>d. is_link (map_of t' d) \<longrightarrow> is_link (map_of t d) \<or> (d, KindLink) \<in> set (item_jobs items))"
proof (induction items arbitrary: applied t ps)
  case (Cons item items)
  obtain t1 where t1: "f item t = (None, t1)" and rest: "apply_writes f False items (applied @ [item]) t1 = (None, applied', t')"
    using Cons.prems(1) by (auto split: prod.splits option.splits)
  have rd: "ways_ready t ((mp_path item, item_kind item) # item_jobs items)" using Cons.prems(4) by simp
  obtain n where o: "written (mp_path item) (item_kind item) t t1" "map_of t1 (mp_path item) = Some n" "Q item n"
    using t1 Cons.prems(2) ways_ready_head [OF rd] unfolding writes_def list.set by blast
  have "mp_path item \<notin> fst ` set (item_jobs items)" using Cons.prems(3) by (auto simp: image_image)
  note rd1 = ways_ready_step [OF rd o(1) this]
  let ?ps = "insert (mp_path item) ps"
  have ih: "applied' = (applied @ [item]) @ items \<and> kept ?ps t1 t' \<and>
      (\<forall>item\<in>set items. \<exists>n. map_of t' (mp_path item) = Some n \<and> Q item n) \<and>
      (\<forall>d. is_link (map_of t' d) \<longrightarrow> is_link (map_of t1 d) \<or> (d, KindLink) \<in> set (item_jobs items))"
    using Cons.prems(2,3,5,6) by (intro Cons.IH [OF rest _ _ rd1]) auto
  have "is_link (map_of t d) \<or> (d, KindLink) \<in> set (item_jobs (item # items))" if "is_link (map_of t' d)" for d
    using that ih o(1) by (auto simp: written_def image_iff)
  moreover have "kept ps t t1"
    using Cons.prems(5,6) by (intro only_changes_kept [OF written_changes [OF o(1)]]) (auto simp: no_temporaries_def)
  ultimately show ?case
    using ih kept_trans [of ps t t1 t'] kept_mono [of ?ps t1 t' ps] kept_node [of ?ps t1 t' "mp_path item" n] o(2,3) by auto
qed simp

lemma apply_drops_tree:
  "apply_drops False items applied t = (None, applied', t') \<Longrightarrow> sorted (rev (map mp_path items)) \<Longrightarrow>
   \<forall>item\<in>set items. plain_path (mp_path item) \<and> open_way t (mp_path item) \<Longrightarrow>
   (\<forall>q. q \<notin> mp_path ` set items \<longrightarrow> map_of t' q = map_of t q) \<and>
   (\<forall>q. map_of t q = None \<longrightarrow> map_of t' q = None) \<and>
   (\<forall>item\<in>set items. e_kind (mp_entry item) \<noteq> KindDirectory \<longrightarrow> map_of t' (mp_path item) = None)"
proof (induction items arbitrary: applied t)
  case (Cons item items)
  obtain d t1 where d: "drop_merged_path item False t = Ok (d, t1)"
    and rest: "apply_drops False items (if d then applied @ [item] else applied) t1 = (None, applied', t')"
    using Cons.prems(1) by (cases "drop_merged_path item False t") auto
  have s: "sorted (rev (map mp_path items))" "\<forall>i\<in>set items. mp_path i \<le> mp_path item"
    using Cons.prems(2) by (auto simp: sorted_append)
  have p: "plain_path (mp_path item)" "open_way t (mp_path item)" using Cons.prems(3) by auto
  have one: "(\<forall>q. q \<noteq> mp_path item \<longrightarrow> map_of t1 q = map_of t q) \<and> (\<forall>q. map_of t q = None \<longrightarrow> map_of t1 q = None) \<and>
      (e_kind (mp_entry item) \<noteq> KindDirectory \<longrightarrow> map_of t1 (mp_path item) = None)"
  proof (cases "e_kind (mp_entry item) = KindDirectory")
    case True
    then have "t1 = t \<or> fs_remove (mp_path item) t = Ok t1"
      using d root_open(2) [OF p] by (auto simp: drop_merged_path_def split: sum.splits)
    then show ?thesis using True by (auto simp: fs_remove_def tree_simps split: option.splits if_splits)
  next
    case False
    then have "remove_path (mp_path item) t = Ok t1" using d by (auto simp: drop_merged_path_def split: sum.splits)
    then show ?thesis using remove_path_tree [of "mp_path item" t t1] p by auto
  qed
  have "\<forall>i\<in>set items. plain_path (mp_path i) \<and> open_way t1 (mp_path i)"
  proof
    fix i assume i: "i \<in> set items"
    have "map_of t1 w = map_of t w" if "w \<in> way (mp_path i)" for w
      using one way_less [OF that] s(2) i by fastforce
    then show "plain_path (mp_path i) \<and> open_way t1 (mp_path i)" using Cons.prems(3) i by (simp add: open_way_def)
  qed
  note ih = Cons.IH [OF rest s(1) this]
  show ?case using one ih by auto
qed simp

definition written_node :: "store \<Rightarrow> merge_plan_entry \<Rightarrow> node \<Rightarrow> bool" where
  "written_node st item n \<longleftrightarrow>
     (if mp_action item = MergeWriteEntry
      then \<exists>content. entry_content st (mp_entry item) = Ok content \<and> n = node_of (mp_entry item) content
      else n = NFile (file_mode_to_write (mp_mode item)) (join_lines (mp_lines item) (mp_trailing_newline item)))"

lemma write_merged_path_writes:
  assumes "plain_path (mp_path item)"
    "mp_action item = MergeWriteEntry \<Longrightarrow> e_path (mp_entry item) = mp_path item \<and> e_kind (mp_entry item) \<noteq> KindDirectory"
  shows "writes (write_merged_path st) (written_node st) item"
proof (cases "mp_action item = MergeWriteEntry")
  case True
  note e = assms(2) [OF True]
  show ?thesis unfolding writes_def
  proof (intro allI impI, elim conjE)
    fix t t'
    assume l: "linkless t (mp_path item)" and w: "write_merged_path st item t = (None, t')"
    then obtain content where c: "blob st (e_digest (mp_entry item)) = Ok content" "write_entry (mp_entry item) content t = (None, t')"
      using True by (auto simp: write_merged_path_def split: sum.splits prod.splits)
    then show "written (mp_path item) (item_kind item) t t' \<and> (\<exists>n. map_of t' (mp_path item) = Some n \<and> written_node st item n)"
      using write_entry_spec [OF c(2)] e assms(1) l True by (simp add: written_node_def entry_content_def item_kind_def)
  qed
next
  case False
  let ?e = "\<lparr>e_kind = KindFile, e_mode = mp_mode item, e_digest = [], e_path = mp_path item\<rparr>"
  show ?thesis unfolding writes_def
  proof (intro allI impI, elim conjE)
    fix t t'
    assume l: "linkless t (mp_path item)" and w: "write_merged_path st item t = (None, t')"
    then have c: "write_entry ?e (join_lines (mp_lines item) (mp_trailing_newline item)) t = (None, t')"
      using False by (auto simp: write_merged_path_def split: sum.splits prod.splits)
    then show "written (mp_path item) (item_kind item) t t' \<and> (\<exists>n. map_of t' (mp_path item) = Some n \<and> written_node st item n)"
      using write_entry_spec [OF c] assms(1) l False by (simp add: written_node_def node_of_def item_kind_def)
  qed
qed

lemma write_directory_item_writes:
  assumes "plain_path (mp_path item)" "e_path (mp_entry item) = mp_path item" "e_kind (mp_entry item) = KindDirectory"
    "mp_action item = MergeWriteEntry"
  shows "writes write_directory_item (written_node st) item"
proof -
  have "written (mp_path item) (item_kind item) t t' \<and> (\<exists>n. map_of t' (mp_path item) = Some n \<and> written_node st item n)"
    if "linkless t (mp_path item)" "reachable_link t (mp_path item)" "write_directory_item item t = (None, t')" for t t'
    using that assms write_entry_spec [of "mp_entry item" "[]" t t']
    by (auto simp: write_directory_item_def written_node_def entry_content_def item_kind_def split: prod.splits)
  then show ?thesis using assms(3,4) by (auto simp: writes_def item_kind_def)
qed

text \<open>No path that the plan changes lies below a link that stays, or below a file or link that the plan writes.\<close>

definition links_clear :: "tree \<Rightarrow> merge_plan_entry list \<Rightarrow> bool" where
  "links_clear t plan \<longleftrightarrow> (\<forall>item\<in>set plan. mp_action item \<noteq> MergeKeep \<longrightarrow> (\<forall>d\<in>way (mp_path item).
     (is_link (map_of t d) \<longrightarrow> d \<in> mp_path ` set (directory_items plan)) \<and> d \<notin> mp_path ` set (written_items plan)))"

lemma apply_plan_tree:
  assumes a: "apply_merge_plan st plan False t = (None, applied, t')"
    and plan: "distinct (map mp_path plan)" "\<forall>item\<in>set plan. plain_path (mp_path item)"
      "\<forall>item\<in>set plan. mp_action item = MergeWriteEntry \<longrightarrow> e_path (mp_entry item) = mp_path item"
    and srt: "sorted (map mp_path plan)" and clear: "links_clear t plan"
    and links: "\<forall>p. is_link (map_of t p) \<longrightarrow> open_way t p"
    and drops: "\<forall>item\<in>set plan. mp_action item = MergeDelete \<longrightarrow> open_way t (mp_path item) \<and> way (mp_path item) \<subseteq> ps \<union> mp_path ` set plan"
    and ps: "no_temporaries (mp_path ` set plan \<union> ps)" "mp_path ` set plan \<inter> ps = {}"
  shows "kept ps t t'"
    "\<forall>item\<in>set plan. case mp_action item of
        MergeKeep \<Rightarrow> map_of t (mp_path item) \<noteq> None \<longrightarrow> map_of t' (mp_path item) = map_of t (mp_path item)
      | MergeDelete \<Rightarrow> e_kind (mp_entry item) \<noteq> KindDirectory \<longrightarrow> map_of t' (mp_path item) = None
      | _ \<Rightarrow> \<exists>n. map_of t' (mp_path item) = Some n \<and> written_node st item n"
proof -
  let ?D = "directory_items plan" and ?W = "written_items plan" and ?X = "drop_items plan"
  let ?K = "filter (\<lambda>item. mp_action item = MergeKeep) plan"
  obtain ap1 t1 where s1: "apply_writes write_directory_item False ?D [] t = (None, ap1, t1)"
    using a by (auto simp: apply_merge_plan_def split: prod.splits option.splits)
  obtain ap2 t2 where s2: "apply_writes (write_merged_path st) False ?W ap1 t1 = (None, ap2, t2)"
    using a s1 by (auto simp: apply_merge_plan_def split: prod.splits option.splits)
  obtain ap3 where s3: "apply_drops False ?X ap2 t2 = (None, ap3, t')"
    using a s1 s2 by (auto simp: apply_merge_plan_def split: prod.splits option.splits)
  have sets: "set ?D = {i\<in>set plan. mp_action i = MergeWriteEntry \<and> e_kind (mp_entry i) = KindDirectory}"
    "set ?W = {i\<in>set plan. mp_action i = MergeWriteLines \<or> mp_action i = MergeWriteEntry \<and> e_kind (mp_entry i) \<noteq> KindDirectory}"
    "set ?X = {i\<in>set plan. mp_action i = MergeDelete}"
    by (auto simp: directory_items_def written_items_def drop_items_def is_directory_def)
  have inj: "mp_path i = mp_path j \<Longrightarrow> i = j" if "i \<in> set plan" "j \<in> set plan" for i j
    using plan(1) that by (auto simp: distinct_map inj_on_def)
  have ds: "distinct (map mp_path ?D)" "distinct (map mp_path ?W)"
    using plan(1) by (simp_all add: directory_items_def written_items_def distinct_map inj_on_def)
  define KX where "KX = ps \<union> mp_path ` {i\<in>set plan. mp_action i = MergeKeep \<or> mp_action i = MergeDelete}"
  define psD where "psD = KX \<union> mp_path ` set ?W"
  define psW where "psW = KX \<union> mp_path ` set ?D"
  have nt: "no_temporaries (mp_path ` set ?D \<union> psD)" "no_temporaries (mp_path ` set ?W \<union> psW)"
    using ps(1) unfolding no_temporaries_def psD_def psW_def KX_def sets by blast+
  have dj: "mp_path ` set ?D \<inter> psD = {}" "mp_path ` set ?W \<inter> psW = {}"
    using ps(2) inj unfolding psD_def psW_def KX_def sets by (auto, (metis merge_action.distinct)+)
  have w1: "\<forall>item\<in>set ?D. writes write_directory_item (written_node st) item"
    using plan(2,3) write_directory_item_writes unfolding sets by blast
  have w2: "\<forall>item\<in>set ?W. writes (write_merged_path st) (written_node st) item"
    using plan(2,3) unfolding sets by (auto intro!: write_merged_path_writes)
  have kinds: "item_kind i = KindDirectory" if "i \<in> set ?D" for i using that unfolding sets by (simp add: item_kind_def)
  have kinds2: "item_kind i \<noteq> KindDirectory" if "i \<in> set ?W" for i using that unfolding sets by (auto simp: item_kind_def)
  have wD: "d \<in> mp_path ` set ?D" if "i \<in> set ?D \<union> set ?W" "d \<in> way (mp_path i)" "is_link (map_of t d)" for i d
    using clear that unfolding links_clear_def sets by auto
  have wW: "d \<notin> mp_path ` set ?W" if "i \<in> set plan" "mp_action i \<noteq> MergeKeep" "d \<in> way (mp_path i)" for i d
    using clear that unfolding links_clear_def by auto
  have rd1: "ways_ready t (item_jobs ?D)"
  proof -
    have "sorted (map mp_path ?D)" unfolding directory_items_def using srt by (rule sorted_filter)
    then have "sorted_wrt (\<lambda>i j. snd j = KindDirectory \<longrightarrow> snd i = KindDirectory \<and> fst i \<le> fst j) (item_jobs ?D)"
      unfolding item_jobs_def sorted_wrt_map by (rule sorted_wrt_mono_rel [rotated]) (use kinds in auto)
    then show ?thesis using wD kinds links unfolding ways_ready_def by (fastforce simp: image_iff reachable_link_def)
  qed
  note r1 = apply_writes_tree [OF s1 w1 ds(1) rd1 nt(1) dj(1)]
  have l1: "\<not> is_link (map_of t1 d)" if w: "i \<in> set ?W" "d \<in> way (mp_path i)" for i d
  proof
    assume d: "is_link (map_of t1 d)"
    then have "is_link (map_of t d) \<or> (d, KindLink) \<in> set (item_jobs ?D)" using r1 by blast
    then have "is_link (map_of t d)" using kinds by (auto simp: image_iff)
    then obtain j where j: "j \<in> set ?D" "d = mp_path j" using wD [of i d] w by auto
    then obtain n where n: "map_of t1 d = Some n" "written_node st j n" using r1 by blast
    have "mp_action j = MergeWriteEntry" "e_kind (mp_entry j) = KindDirectory" using j(1) unfolding sets by auto
    then show False using n d by (auto simp: written_node_def node_of_def)
  qed
  have rd2: "ways_ready t1 (item_jobs ?W)"
  proof -
    have "sorted_wrt (\<lambda>i j. snd j = KindDirectory \<longrightarrow> snd i = KindDirectory \<and> fst i \<le> fst j) (item_jobs ?W)"
      unfolding item_jobs_def sorted_wrt_map by (rule sorted_wrt_mono_rel [of _ "\<lambda>i j. True"]) (use kinds2 in \<open>auto simp: sorted_wrt_iff_nth_less\<close>)
    moreover have "d \<notin> mp_path ` set ?W" if "i \<in> set ?W" "d \<in> way (mp_path i)" for i d
      using wW [of i d] that unfolding sets by auto
    ultimately show ?thesis using l1 kinds2 unfolding ways_ready_def by (fastforce simp: image_iff)
  qed
  note r2 = apply_writes_tree [OF s2 w2 ds(2) rd2 nt(2) dj(2)]
  have "open_way t2 (mp_path i)" if i: "i \<in> set ?X" for i
    unfolding open_way_def
  proof
    fix d assume d: "d \<in> way (mp_path i)"
    have i': "i \<in> set plan" "mp_action i = MergeDelete" using i unfolding sets by auto
    have t: "map_of t d = Some NDir" using drops i' d by (auto simp: open_way_def)
    have nW: "d \<notin> mp_path ` set ?W" using wW [OF i'(1) _ d] i'(2) by simp
    show "map_of t2 d = Some NDir"
    proof (cases "d \<in> mp_path ` set ?D")
      case True
      then obtain j where j: "j \<in> set ?D" "d = mp_path j" by blast
      then obtain n where n: "map_of t1 d = Some n" "written_node st j n" using r1 by blast
      have "mp_action j = MergeWriteEntry" "e_kind (mp_entry j) = KindDirectory" using j(1) unfolding sets by auto
      then have "n = NDir" using n by (auto simp: written_node_def node_of_def)
      moreover have "d \<in> psW" using True by (simp add: psW_def)
      ultimately show ?thesis using r2 n(1) kept_node by blast
    next
      case False
      have "d \<in> ps \<union> mp_path ` set plan" using drops i' d by blast
      then have "d \<in> KX"
      proof
        assume "d \<in> mp_path ` set plan"
        then obtain j where j: "j \<in> set plan" "d = mp_path j" by blast
        have "j \<notin> set ?D" "j \<notin> set ?W" using False nW j(2) by auto
        then have "mp_action j = MergeKeep \<or> mp_action j = MergeDelete" using j(1) unfolding sets by (cases "mp_action j") auto
        then show "d \<in> KX" using j by (auto simp: KX_def)
      qed (simp add: KX_def)
      then have "d \<in> psD" "d \<in> psW" by (auto simp: psD_def psW_def)
      then show ?thesis using r1 r2 t kept_node by blast
    qed
  qed
  then have opX: "\<forall>item\<in>set ?X. plain_path (mp_path item) \<and> open_way t2 (mp_path item)" using plan(2) unfolding sets by blast
  have "sorted (rev (map mp_path ?X))" by (simp add: drop_items_def rev_map [symmetric])
  note r3 = apply_drops_tree [OF s3 this opX]
  have notX: "map_of t' q = map_of t2 q" if "q \<notin> mp_path ` set ?X" for q using r3 that by blast
  have k12: "kept KX t t2" using r1 r2 kept_trans [of KX t t1 t2] kept_mono [of psD t t1 KX] kept_mono [of psW t1 t2 KX]
    by (auto simp: psD_def psW_def)
  have psX: "q \<notin> mp_path ` set ?X" if "q \<in> ps" for q using ps(2) that unfolding sets by blast
  show "kept ps t t'" using k12 notX [OF psX] unfolding kept_def KX_def by auto
  have other: "mp_path i \<notin> mp_path ` set ?X" if "i \<in> set plan" "mp_action i \<noteq> MergeDelete" for i
    using that inj unfolding sets by auto
  show "\<forall>item\<in>set plan. case mp_action item of
        MergeKeep \<Rightarrow> map_of t (mp_path item) \<noteq> None \<longrightarrow> map_of t' (mp_path item) = map_of t (mp_path item)
      | MergeDelete \<Rightarrow> e_kind (mp_entry item) \<noteq> KindDirectory \<longrightarrow> map_of t' (mp_path item) = None
      | _ \<Rightarrow> \<exists>n. map_of t' (mp_path item) = Some n \<and> written_node st item n"
  proof
    fix i assume i: "i \<in> set plan"
    have D: "\<exists>n. map_of t' (mp_path i) = Some n \<and> written_node st i n" if d: "i \<in> set ?D"
    proof -
      obtain n where "map_of t1 (mp_path i) = Some n" "written_node st i n" using r1 d by blast
      moreover have "mp_path i \<in> psW" using d by (simp add: psW_def)
      moreover have "mp_action i \<noteq> MergeDelete" using d unfolding sets by simp
      ultimately show ?thesis using r2 notX [OF other [OF i]] kept_node by metis
    qed
    have W: "\<exists>n. map_of t' (mp_path i) = Some n \<and> written_node st i n" if w: "i \<in> set ?W"
    proof -
      have "mp_action i \<noteq> MergeDelete" using w unfolding sets by auto
      then show ?thesis using r2 w notX [OF other [OF i]] by metis
    qed
    show "case mp_action i of
        MergeKeep \<Rightarrow> map_of t (mp_path i) \<noteq> None \<longrightarrow> map_of t' (mp_path i) = map_of t (mp_path i)
      | MergeDelete \<Rightarrow> e_kind (mp_entry i) \<noteq> KindDirectory \<longrightarrow> map_of t' (mp_path i) = None
      | _ \<Rightarrow> \<exists>n. map_of t' (mp_path i) = Some n \<and> written_node st i n"
    proof (cases "mp_action i")
      case MergeKeep
      then have "mp_path i \<in> KX" using i by (auto simp: KX_def)
      then show ?thesis using k12 notX [OF other [OF i]] MergeKeep by (simp add: kept_def)
    next
      case MergeWriteEntry
      then show ?thesis using D W i unfolding sets by (cases "e_kind (mp_entry i) = KindDirectory") auto
    next
      case MergeWriteLines
      then show ?thesis using W i unfolding sets by auto
    next
      case MergeDelete
      then show ?thesis using r3 i unfolding sets by auto
    qed
  qed
qed

section \<open>Properties\<close>

text \<open>C18. The plan of a merge is exact. It is made for every scanned tree, without a panic, one item
  for each path, in the order of the paths, exactly where the checkpoint differs from the base and
  from the tree. A path that only the checkpoint changed is written or removed as there, without a
  conflict. A path that both changed is kept and is a conflict, unless it was removed here, when it is
  written back as a conflict, or both sides are readable texts: then the item holds the lines, the
  number of conflicts and the final newline of the three-way merge of base, tree and checkpoint, and the
  permissions of the side that changed them. The label says \<open>CONFLICT\<close> exactly when there is one.\<close>

theorem merge_plan_exact:
  assumes "scan sc (st_project st) = Ok (ours, sk)"
  shows "\<exists>plan. plan_merge_manifests sc st base theirs labels = Ok plan \<and>
     sorted (map mp_path plan) \<and> distinct (map mp_path plan) \<and>
     mp_path ` set plan = {p. \<not> same_signature (index theirs p) (index base p) \<and>
        \<not> same_signature (index ours p) (index theirs p)} \<and>
     (\<forall>item\<in>set plan. planned st labels (index base (mp_path item)) (index ours (mp_path item)) (index theirs (mp_path item)) item)"
  using plan_manifests_spec [OF assms] .

definition example_text :: "string list \<Rightarrow> string" where
  "example_text ls = join_lines ls True"

definition example_file_entry :: "string list \<Rightarrow> entry" where
  "example_file_entry ls = \<lparr>e_kind = KindFile, e_mode = 420, e_digest = example_sha (example_text ls), e_path = ''a''\<rparr>"

definition example_text_store :: store where
  "example_text_store = \<lparr>st_project = \<lparr>p_tree = [(''a'', NFile 420 (example_text [''X'', ''m'', ''y'']))], p_unreadable = []\<rparr>,
     st_objects = map (\<lambda>ls. (blob_key (example_sha (example_text ls)), example_text ls)) [[''x'', ''m'', ''y''], [''x'', ''m'', ''Y'']],
     st_partials = [], st_snapshots = [], st_head = None\<rparr>"

definition example_plan_labels :: merge_labels where
  "example_plan_labels = \<lparr>ml_ours = ''ours'', ml_base = ''base'', ml_theirs = ''theirs''\<rparr>"

lemma example_text_scan:
  "scan example_scanner (st_project example_text_store) = Ok ([example_file_entry [''X'', ''m'', ''y'']], [])"
  by code_simp

lemma example_text_merge:
  "merge3 [''x'', ''m'', ''y''] [''X'', ''m'', ''y''] [''x'', ''m'', ''Y''] ''ours'' ''base'' ''theirs'' =
     Some \<lparr>result_lines = [''X'', ''m'', ''Y''], conflicts = 0\<rparr>"
  by code_simp

theorem merge_plan_exact_witness:
  "\<exists>item. plan_merge_manifests example_scanner example_text_store [example_file_entry [''x'', ''m'', ''y'']]
       [example_file_entry [''x'', ''m'', ''Y'']] example_plan_labels = Ok [item] \<and>
     mp_path item = ''a'' \<and> mp_action item = MergeWriteLines \<and> mp_lines item = [''X'', ''m'', ''Y''] \<and> mp_conflicts item = 0"
proof -
  let ?b = "example_file_entry [''x'', ''m'', ''y'']" and ?o = "example_file_entry [''X'', ''m'', ''y'']"
    and ?t = "example_file_entry [''x'', ''m'', ''Y'']"
  obtain plan where plan: "plan_merge_manifests example_scanner example_text_store [?b] [?t] example_plan_labels = Ok plan"
    "distinct (map mp_path plan)"
    "mp_path ` set plan = {p. \<not> same_signature (index [?t] p) (index [?b] p) \<and> \<not> same_signature (index [?o] p) (index [?t] p)}"
    "\<forall>item\<in>set plan. planned example_text_store example_plan_labels (index [?b] (mp_path item)) (index [?o] (mp_path item))
       (index [?t] (mp_path item)) item"
    using merge_plan_exact [OF example_text_scan, of "[?b]" "[?t]" example_plan_labels] by blast
  have here: "index [?b] ''a'' = Some ?b" "index [?o] ''a'' = Some ?o" "index [?t] ''a'' = Some ?t"
    by code_simp+
  have away: "index [?b] p = None" "index [?o] p = None" "index [?t] p = None" if "p \<noteq> ''a''" for p
    using that by (simp_all add: index_None example_file_entry_def)
  have differ: "\<not> same_signature (Some ?t) (Some ?b)" "\<not> same_signature (Some ?o) (Some ?t)" "\<not> same_signature (Some ?o) (Some ?b)"
    by code_simp+
  have "mp_path ` set plan = {''a''}" unfolding plan(3)
  proof (rule set_eqI)
    fix p show "p \<in> {p. \<not> same_signature (index [?t] p) (index [?b] p) \<and> \<not> same_signature (index [?o] p) (index [?t] p)} \<longleftrightarrow> p \<in> {''a''}"
      by (cases "p = ''a''") (simp_all only: here away differ mem_Collect_eq singleton_iff same_signature_simps not_False_eq_True not_True_eq_False simp_thms)
  qed
  moreover from this have "length plan = Suc 0" using distinct_card [OF plan(2)] by simp
  then obtain item where i: "plan = [item]" by (auto simp: length_Suc_conv)
  ultimately have item: "plan = [item]" "mp_path item = ''a''" by simp_all
  have m: "mergeable example_text_store ''a'' (Some ?o) (Some ?t)" by code_simp
  have data: "read_project_file example_text_store ''a'' = Some (example_text [''X'', ''m'', ''y''])"
    "blob example_text_store (e_digest ?t) = Ok (example_text [''x'', ''m'', ''Y''])"
    "base_text example_text_store (Some ?b) = [''x'', ''m'', ''y'']"
    "fst (split_lines (example_text [''X'', ''m'', ''y''])) = [''X'', ''m'', ''y'']"
    "fst (split_lines (example_text [''x'', ''m'', ''Y''])) = [''x'', ''m'', ''Y'']"
    by code_simp+
  have "planned example_text_store example_plan_labels (Some ?b) (Some ?o) (Some ?t) item"
    using plan(4) item here by simp
  then have "mp_action item = MergeWriteLines \<and> merged_as example_text_store example_plan_labels (Some ?b) ?o ?t item"
    using differ(3) m item(2) by (simp add: planned_def)
  moreover from this have "mp_lines item = [''X'', ''m'', ''Y''] \<and> mp_conflicts item = 0"
    using data example_text_merge item(2) by (auto simp: merged_as_def example_plan_labels_def)
  ultimately show ?thesis using plan(1) item by blast
qed


definition example_theirs :: manifest where
  "example_theirs = [\<lparr>e_kind = KindDirectory, e_mode = 0, e_digest = [], e_path = ''lib''\<rparr>]"


text \<open>The code has two gaps here. A checkpoint with a directory \<open>link\<close> is merged into a tree that has a link \<open>link\<close> to \<open>b\<close> there. The
  link is kept, as a conflict, but the new file \<open>link/f\<close> is still written, through the link: the file \<open>b/f\<close> of the user, which is in no
  plan, is overwritten, and no error is reported. And a checkpoint that turned a directory with a file into a file cannot be merged even
  into an unchanged tree, because the files are written before the drops.\<close>

definition linked_project :: project where
  "linked_project = \<lparr>p_tree = [(''link'', NLink ''b''), (''b'', NDir), (''b/f'', NFile 420 ''mine'')], p_unreadable = []\<rparr>"

definition file_at :: "string \<Rightarrow> string \<Rightarrow> entry" where
  "file_at p content = \<lparr>e_kind = KindFile, e_mode = 420, e_digest = example_sha content, e_path = p\<rparr>"

definition directory_at :: "string \<Rightarrow> entry" where
  "directory_at p = \<lparr>e_kind = KindDirectory, e_mode = 0, e_digest = [], e_path = p\<rparr>"

definition merge_into :: "project \<Rightarrow> manifest \<Rightarrow> manifest \<Rightarrow> store_error option \<times> string list \<times> tree" where
  "merge_into pr base theirs =
     (let st = \<lparr>st_project = pr, st_objects = [(blob_key (example_sha ''theirs''), ''theirs'')], st_partials = [], st_snapshots = [],
        st_head = None\<rparr>
      in case plan_merge_manifests example_scanner st base theirs example_plan_labels of
           Err e \<Rightarrow> (Some e, [], p_tree pr)
         | Ok plan \<Rightarrow> (case apply_merge_plan st plan False (p_tree pr) of (err, applied, t) \<Rightarrow> (err, map mp_path applied, t)))"

lemma merge_writes_through_link:
  "case merge_into linked_project [] [directory_at ''link'', file_at ''link/f'' ''theirs''] of
     (err, applied, t) \<Rightarrow> err = None \<and> applied = [''link'', ''link/f''] \<and> map_of t ''b/f'' = Some (NFile 420 ''theirs'')"
  by code_simp

lemma merge_cannot_replace_directory:
  "fst (merge_into \<lparr>p_tree = [(''d'', NDir), (''d/f'', NFile 420 ''old'')], p_unreadable = []\<rparr>
      [directory_at ''d'', file_at ''d/f'' ''old''] [file_at ''d'' ''theirs'']) = Some (WriteFailed (CannotReplace ''d''))"
  by code_simp

lemma apply_writes_dry: "apply_writes f True items applied t = (None, applied @ items, t)"
  by (induction items arbitrary: applied) auto

lemma apply_drops_dry: "\<exists>applied'. apply_drops True items applied t = (None, applied', t)"
  by (induction items arbitrary: applied) (auto simp: drop_merged_path_def)

lemma apply_plan_dry: "\<exists>applied. apply_merge_plan st plan True t = (None, applied, t)"
  using apply_drops_dry [of "drop_items plan" "directory_items plan @ written_items plan" t]
  by (auto simp: apply_merge_plan_def apply_writes_dry)

lemma set_same_tree [simp]: "set_tree (p_tree (st_project st)) st = st"
  by (simp add: set_tree_def)

lemma run_plan_dry: "run_plan sc fmt now label True plan r st = (err, r1, st1) \<Longrightarrow> st1 = st \<and> err = None"
  using apply_plan_dry [of st plan "p_tree (st_project st)"] by (auto simp: run_plan_def)

lemma run_plan_counts:
  assumes "run_plan sc fmt now label d plan r st = (err, r1, st1)" "mr_merged r + mr_conflicted r = length (mr_plan r)"
  shows "mr_merged r1 + mr_conflicted r1 = length (mr_plan r1)"
  using assms sum_length_filter_compl [of "\<lambda>item. 0 < mp_conflicts item"]
  by (auto simp: run_plan_def add.commute split: sum.splits prod.splits if_splits)

lemma merge_runs:
  assumes "merge sc fmt now wanted options st = (err, r1, st1)"
  shows "(st1 = st \<and> mr_merged r1 = 0 \<and> mr_conflicted r1 = 0 \<and> mr_plan r1 = []) \<or>
    (\<exists>label plan r. run_plan sc fmt now label (mo_dry_run options) plan r st = (err, r1, st1) \<and>
       mr_merged r = 0 \<and> mr_conflicted r = 0 \<and> mr_plan r = [])"
proof (cases "resolve st wanted")
  case (Inr theirsID)
  note w = this
  show ?thesis
  proof (cases "merge_base st theirsID (mo_base_id options)")
    case (Inr baseID)
    define plan where "plan = plan_merge sc st theirsID baseID (if mo_our_label options = [] then default_our_label else mo_our_label options)"
    show ?thesis
    proof (cases plan)
      case (Inr items)
      show ?thesis
      proof (cases "items = []")
        case False
        then have "run_plan sc fmt now (''automatic, before merging '' @ theirsID) (mo_dry_run options) items
            (no_outcome\<lparr>mr_base_id := baseID, mr_theirs_id := theirsID\<rparr>) st = (err, r1, st1)"
          using assms w \<open>merge_base _ _ _ = _\<close> Inr unfolding plan_def by (simp add: merge_def Let_def)
        then show ?thesis by (intro disjI2 exI conjI) (assumption, simp_all add: no_outcome_def)
      qed (use assms w \<open>merge_base _ _ _ = _\<close> Inr plan_def in \<open>auto simp: merge_def no_outcome_def Let_def\<close>)
    qed (use assms w Inr plan_def in \<open>auto simp: merge_def no_outcome_def Let_def\<close>)
  qed (use assms w in \<open>auto simp: merge_def no_outcome_def\<close>)
qed (use assms in \<open>auto simp: merge_def no_outcome_def\<close>)

text \<open>A dry run of a merge changes nothing in the store or the tree, whatever its outcome, and
  every merge counts each applied item once, as merged or as conflicted.\<close>

theorem merge_dry_run:
  "snd (snd (merge sc fmt now wanted (options\<lparr>mo_dry_run := True\<rparr>) st)) = st \<and>
   (let r = fst (snd (merge sc fmt now wanted options st)) in mr_merged r + mr_conflicted r = length (mr_plan r))"
proof -
  obtain err r st1 where a: "merge sc fmt now wanted (options\<lparr>mo_dry_run := True\<rparr>) st = (err, r, st1)" by (metis surj_pair)
  obtain err' r' st' where b: "merge sc fmt now wanted options st = (err', r', st')" by (metis surj_pair)
  have "st1 = st" using merge_runs [OF a] run_plan_dry by fastforce
  moreover have "mr_merged r' + mr_conflicted r' = length (mr_plan r')"
    using merge_runs [OF b] run_plan_counts by fastforce
  ultimately show ?thesis by (simp add: a b)
qed

end
