(* ===== verification/Checkpoint_Pick.thy ===== *)
theory Checkpoint_Pick
  imports Checkpoint_Merge Go_Path
begin

text \<open>
  \<open>internal/checkpoint/pick.go\<close>: \<open>Pick\<close> with its base, the filter by paths, and the paths a
  user names (\<open>RelativePath\<close>). \<open>filepath.EvalSymlinks\<close> reads the machine's own file system and
  is the parameter \<open>eval_symlinks\<close>.
\<close>

section \<open>Picking a checkpoint\<close>

definition empty_base_label :: string where "empty_base_label = ''an empty tree''"

record pick_options =
  po_from :: string
  po_paths :: "string list"
  po_dry_run :: bool

record pick_outcome =
  pk_merge :: merge_outcome
  pk_unmatched :: "string list"

definition no_pick :: pick_outcome where
  "no_pick = \<lparr>pk_merge = no_outcome, pk_unmatched = []\<rparr>"

definition previous_identifier :: "store \<Rightarrow> string \<Rightarrow> string" where
  "previous_identifier st identifier =
     (case index_in identifier (identifiers st) of
        Some (Suc i) \<Rightarrow> identifiers st ! i | _ \<Rightarrow> [])"

definition pick_base :: "store \<Rightarrow> string \<Rightarrow> string \<Rightarrow> (store_error, string \<times> manifest) result" where
  "pick_base st theirsID wanted0 =
     (let wanted = (if wanted0 = [] then previous_identifier st theirsID else wanted0)
      in if wanted = [] then Ok ([], [])
         else bind_res (resolve st wanted) (\<lambda>baseID.
              if baseID = theirsID then Err (OwnBase theirsID)
              else bind_res (stored_manifest st baseID) (\<lambda>manifest. Ok (baseID, manifest))))"

definition path_is_under :: "string \<Rightarrow> string \<Rightarrow> bool" where
  "path_is_under path wanted \<longleftrightarrow> wanted = ''.'' \<or> path = wanted \<or> has_prefix path (wanted @ ''/'')"

text \<open>The loop over the plan: an item is kept for the first wanted path it is under, which then
  counts as matched.\<close>

fun match_items :: "string list \<Rightarrow> merge_plan_entry list \<Rightarrow> merge_plan_entry list \<times> string list" where
  "match_items paths [] = ([], [])"
| "match_items paths (item # plan) =
     (case match_items paths plan of (kept_items, matched) \<Rightarrow>
        (case find (path_is_under (mp_path item)) paths of
           Some wanted \<Rightarrow> (item # kept_items, wanted # matched)
         | None \<Rightarrow> (kept_items, matched)))"

fun unmatched_paths :: "string list \<Rightarrow> string list \<Rightarrow> string list \<Rightarrow> string list" where
  "unmatched_paths matched unmatched [] = unmatched"
| "unmatched_paths matched unmatched (wanted # paths) =
     unmatched_paths matched
       (if wanted \<notin> set matched \<and> wanted \<notin> set unmatched then unmatched @ [wanted] else unmatched) paths"

definition filter_plan_by_paths ::
  "merge_plan_entry list \<Rightarrow> string list \<Rightarrow> merge_plan_entry list \<times> string list" where
  "filter_plan_by_paths plan paths =
     (if paths = [] then (plan, [])
      else case match_items paths plan of (kept_items, matched) \<Rightarrow> (kept_items, unmatched_paths matched [] paths))"

definition pick ::
  "scanner \<Rightarrow> ('t \<Rightarrow> string) \<Rightarrow> 't \<Rightarrow> string \<Rightarrow> pick_options \<Rightarrow> store \<Rightarrow>
   store_error option \<times> pick_outcome \<times> store" where
  "pick sc fmt now wanted options st =
     (case resolve st wanted of Err e \<Rightarrow> (Some e, no_pick, st) | Ok theirsID \<Rightarrow>
     (case pick_base st theirsID (po_from options) of Err e \<Rightarrow> (Some e, no_pick, st) | Ok (baseID, base) \<Rightarrow>
     (case stored_manifest st theirsID of Err e \<Rightarrow> (Some e, no_pick, st) | Ok theirs \<Rightarrow>
     (let baseLabel = (if baseID = [] then empty_base_label else ''base '' @ baseID)
      in case plan_merge_manifests sc st base theirs
           \<lparr>ml_ours = default_our_label, ml_base = baseLabel, ml_theirs = ''checkpoint '' @ theirsID\<rparr> of
           Err e \<Rightarrow> (Some e, no_pick, st)
         | Ok full \<Rightarrow>
           (case filter_plan_by_paths full (po_paths options) of (plan, unmatched) \<Rightarrow>
             (let result = no_outcome\<lparr>mr_base_id := baseID, mr_theirs_id := theirsID\<rparr>
              in if plan = [] then (None, \<lparr>pk_merge = result, pk_unmatched = unmatched\<rparr>, st)
                 else case run_plan sc fmt now (''automatic, before picking '' @ theirsID) (po_dry_run options) plan result st of
                   (err, r, st1) \<Rightarrow> (err, \<lparr>pk_merge = r, pk_unmatched = unmatched\<rparr>, st1)))))))"

section \<open>The paths a user names\<close>

function resolved_loop :: "(string \<Rightarrow> string option) \<Rightarrow> string \<Rightarrow> string \<Rightarrow> string \<Rightarrow> string" where
  "resolved_loop eval_symlinks path current remaining =
     (case eval_symlinks current of
        Some resolved \<Rightarrow> path_join [resolved, remaining]
      | None \<Rightarrow>
          if path_dir current = current then path
          else resolved_loop eval_symlinks path (path_dir current) (path_join [path_base current, remaining]))"
  by pat_completeness auto
termination
  by (relation "measure (\<lambda>(e, p, current, r). path_depth current)") (auto simp: path_dir_depth)

declare resolved_loop.simps [simp del]

definition resolved_path :: "(string \<Rightarrow> string option) \<Rightarrow> string \<Rightarrow> string" where
  "resolved_path eval_symlinks path = resolved_loop eval_symlinks path path []"

fun first_inside :: "string \<Rightarrow> string list \<Rightarrow> string option" where
  "first_inside root [] = None"
| "first_inside root (candidate # candidates) =
     (case path_rel root candidate of
        None \<Rightarrow> first_inside root candidates
      | Some relative \<Rightarrow>
          if relative = ''..'' \<or> has_prefix relative ''../'' then first_inside root candidates
          else Some relative)"

definition relative_to_project :: "(string \<Rightarrow> string option) \<Rightarrow> string \<Rightarrow> string \<Rightarrow> string option" where
  "relative_to_project eval_symlinks project absolute =
     first_inside (resolved_path eval_symlinks project) [absolute, resolved_path eval_symlinks absolute]"

definition relative_path ::
  "(string \<Rightarrow> string option) \<Rightarrow> string \<Rightarrow> string \<Rightarrow> (store_error, string) result" where
  "relative_path eval_symlinks project argument =
     (let cleaned = path_clean argument
      in case (if is_abs cleaned then relative_to_project eval_symlinks project cleaned else Some cleaned) of
           None \<Rightarrow> Err (OutsideProject argument)
         | Some slashed \<Rightarrow>
             if slashed = ''..'' \<or> has_prefix slashed ''../'' then Err (OutsideProject argument) else Ok slashed)"

section \<open>The report\<close>

definition pick_base_text :: "string \<Rightarrow> string" where
  "pick_base_text baseID = (if baseID = [] then empty_base_label else ''checkpoint '' @ baseID)"

definition write_pick_report :: "pick_outcome \<Rightarrow> bool \<Rightarrow> string list" where
  "write_pick_report result dryRun =
     (let theirs = mr_theirs_id (pk_merge result)
      in map (\<lambda>path. ''checkpoint '' @ theirs @ '' has no changes in '' @ path) (pk_unmatched result) @
         (if mr_plan (pk_merge result) = [] then
            (if pk_unmatched result = [] then [''checkpoint '' @ theirs @ '' has no new changes''] else [])
          else [''picking checkpoint '' @ theirs @ '' into the working tree.'', [],
                ''  base   '' @ pick_base_text (mr_base_id (pk_merge result)), ''  ours   the working tree'',
                ''  theirs checkpoint '' @ theirs, []] @
               write_applied_plan (pk_merge result) ''picked'' ''pick'' dryRun))"

section \<open>Lemmas\<close>

lemma match_items_spec:
  "match_items paths plan = (kept_items, matched) \<Longrightarrow>
   kept_items = filter (\<lambda>item. list_ex (path_is_under (mp_path item)) paths) plan \<and>
   set matched = {w. \<exists>item\<in>set plan. find (path_is_under (mp_path item)) paths = Some w}"
proof (induction plan arbitrary: kept_items matched)
  case (Cons item plan)
  obtain k m where r: "match_items paths plan = (k, m)" by fastforce
  note ih = Cons.IH [OF r]
  show ?case
  proof (cases "find (path_is_under (mp_path item)) paths")
    case None
    then have "\<not> list_ex (path_is_under (mp_path item)) paths" by (auto simp: find_None_iff list_ex_iff)
    then show ?thesis using Cons.prems r ih None by auto
  next
    case (Some w)
    then have "list_ex (path_is_under (mp_path item)) paths" by (auto simp: find_Some_iff list_ex_iff)
    then show ?thesis using Cons.prems r ih Some by auto
  qed
qed simp

lemma unmatched_paths_spec:
  "distinct u \<Longrightarrow> set (unmatched_paths matched u paths) = set u \<union> (set paths - set matched) \<and>
     distinct (unmatched_paths matched u paths)"
  by (induction paths arbitrary: u) auto

lemma path_clean_abs: "is_abs (path_clean p) \<longleftrightarrow> is_abs p"
proof (cases "is_abs p")
  case False
  obtain k ys where s: "path_segments p = replicate k ''..'' @ ys" "list_all plain ys" by (rule path_segments_form)
  note parts = plain_parts [OF s(2), of k, folded s(1)]
  have "\<not> has_prefix (join ''/'' (path_segments p)) ''/''"
  proof (cases "path_segments p")
    case (Cons x xs)
    then obtain c cs where "x = c # cs" "c \<noteq> CHR ''/''" using parts by (cases x) auto
    then show ?thesis using Cons by (simp add: join_Cons has_prefix_def)
  qed (simp add: has_prefix_def)
  then show ?thesis using False by (auto simp: path_clean_def is_abs_def Let_def has_prefix_def)
qed (simp add: path_clean_def is_abs_def Let_def has_prefix_def)

lemma first_inside_spec:
  "first_inside root cs = Some r \<Longrightarrow> \<exists>c\<in>set cs. path_rel root c = Some r \<and> r \<noteq> ''..'' \<and> \<not> has_prefix r ''../''"
  by (induction cs) (auto split: option.splits if_splits)

section \<open>Properties\<close>

text \<open>A path that \<open>RelativePath\<close> accepts stays inside the project, whatever the links of the
  machine resolve to: it is not empty or absolute, and no \<open>..\<close> climbs above the project. (The links
  of an absolute path resolve to absolute paths, which is what \<open>EvalSymlinks\<close> returns for one.)\<close>

theorem relative_path_inside:
  assumes "relative_path eval_symlinks project argument = Ok p"
    and "\<And>path. is_abs path \<Longrightarrow> is_abs (resolved_path eval_symlinks path)"
  shows "is_local p"
proof (cases "is_abs (path_clean argument)")
  case True
  then have "first_inside (resolved_path eval_symlinks project)
      [path_clean argument, resolved_path eval_symlinks (path_clean argument)] = Some p"
    using assms(1) by (auto simp: relative_path_def relative_to_project_def Let_def split: option.splits if_splits)
  from first_inside_spec [OF this] obtain c
    where c: "c = path_clean argument \<or> c = resolved_path eval_symlinks (path_clean argument)"
      "path_rel (resolved_path eval_symlinks project) c = Some p" "p \<noteq> ''..''" "\<not> has_prefix p ''../''"
    unfolding list.set by blast
  then have "is_abs c" using True assms(2) by blast
  then show ?thesis by (rule rel_local [OF c(2) _ c(3,4)])
next
  case False
  then have "p = path_clean argument" "p \<noteq> ''..''" "\<not> has_prefix p ''../''"
    using assms(1) by (auto simp: relative_path_def Let_def split: if_splits)
  then show ?thesis using clean_local [of argument] False path_clean_abs by simp
qed

theorem relative_path_inside_witness:
  "is_local (path_clean ''src/../lib//x'') \<and> path_clean ''src/../lib//x'' = ''lib/x''"
proof -
  have loop: "resolved_loop (\<lambda>p. Some p) path p [] = path_clean p" if "is_abs p" for path p
    using that by (subst resolved_loop.simps) (auto simp: path_join_def is_abs_def has_prefix_def)
  have "\<And>path. is_abs path \<Longrightarrow> is_abs (resolved_path (\<lambda>p. Some p) path)"
    by (simp add: resolved_path_def loop path_clean_abs)
  moreover have "relative_path (\<lambda>p. Some p) ''/home/a'' ''src/../lib//x'' = Ok ''lib/x''" by code_simp
  ultimately have "is_local ''lib/x''" using relative_path_inside [of "\<lambda>p. Some p" "''/home/a''" "''src/../lib//x''"] by blast
  moreover have "path_clean ''src/../lib//x'' = ''lib/x''" by code_simp
  ultimately show ?thesis by simp
qed

text \<open>The path filter of a pick keeps exactly the items of the plan that are at or below a wanted
  path, in their order, and names each wanted path once for which no item was kept.\<close>

theorem filter_plan_exact:
  "filter_plan_by_paths plan paths =
     (if paths = [] then (plan, [])
      else (filter (\<lambda>item. list_ex (path_is_under (mp_path item)) paths) plan, snd (filter_plan_by_paths plan paths))) \<and>
   distinct (snd (filter_plan_by_paths plan paths)) \<and>
   set (snd (filter_plan_by_paths plan paths)) =
     set paths - {w. \<exists>item\<in>set plan. find (path_is_under (mp_path item)) paths = Some w}"
proof (cases "paths = []")
  case False
  obtain k m where r: "match_items paths plan = (k, m)" by fastforce
  show ?thesis using match_items_spec [OF r] unmatched_paths_spec [of "[]" m paths] False r
    by (simp add: filter_plan_by_paths_def)
qed (simp add: filter_plan_by_paths_def)

text \<open>The filter counts an item only for the first wanted path it is under: a second wanted path
  below the first is reported as one without changes, although the plan has its item.\<close>

lemma overlapping_path_unmatched:
  "filter_plan_by_paths [plan_item ''src/a.go'' MergeWriteEntry ''updated'' []] [''src'', ''src/a.go''] =
     ([plan_item ''src/a.go'' MergeWriteEntry ''updated'' []], [''src/a.go''])"
  by (simp add: filter_plan_by_paths_def path_is_under_def has_prefix_def)

end
