(* ===== verification/Checkpoint_Report.thy ===== *)
theory Checkpoint_Report
  imports Checkpoint_Merge
begin

text \<open>
  \<open>internal/checkpoint/report.go\<close>: the text of a comparison (\<open>WriteReport\<close>) and its patch form
  (\<open>WriteUnified\<close>). A report is the list of its lines; writing to the destination does not fail.
  \<open>textdiff.Unified\<close> is an option because the search behind it can panic, and so is a report;
  \<open>report_bounded\<close> and \<open>unified_stream\<close> show that both always return.
\<close>

section \<open>Descriptions\<close>

definition maximum_diff_lines_per_file :: nat where "maximum_diff_lines_per_file = 60"
definition maximum_diff_lines_total :: nat where "maximum_diff_lines_total = 400"
definition report_context_lines :: int where "report_context_lines = 2"
definition unified_context_lines :: int where "unified_context_lines = 3"
definition git_mode_file :: string where "git_mode_file = ''100644''"
definition git_mode_executable :: string where "git_mode_executable = ''100755''"
definition git_mode_link :: string where "git_mode_link = ''120000''"

definition sniff_is_text :: "string option \<Rightarrow> bool" where
  "sniff_is_text content = (case content of None \<Rightarrow> False | Some data \<Rightarrow> is_text (take sniff_bytes data))"

definition executable :: "file_mode \<Rightarrow> bool" where
  "executable m \<longleftrightarrow> m AND 73 \<noteq> 0"

definition describe_added :: "store \<Rightarrow> entry \<Rightarrow> string" where
  "describe_added st e =
     (case e_kind e of KindDirectory \<Rightarrow> ''/'' | KindLink \<Rightarrow> '' (symlink)''
      | _ \<Rightarrow> if \<not> sniff_is_text (read_project_file st (e_path e)) then '' (binary)''
             else if executable (e_mode e) then '' (executable)'' else [])"

definition describe_removed :: "store \<Rightarrow> entry \<Rightarrow> string" where
  "describe_removed st e =
     (case e_kind e of KindDirectory \<Rightarrow> ''/'' | KindLink \<Rightarrow> '' (symlink)''
      | _ \<Rightarrow> if \<not> sniff_is_text (map_of (st_objects st) (blob_key (e_digest e))) then '' (binary)'' else [])"

definition describe_mode_change :: "file_mode \<Rightarrow> file_mode \<Rightarrow> string" where
  "describe_mode_change previous current =
     (if executable current \<and> \<not> executable previous then '' (became executable)''
      else if executable previous \<and> \<not> executable current then '' (no longer executable)''
      else [])"

definition project_text :: "store \<Rightarrow> string \<Rightarrow> string list option" where
  "project_text st p = Option.bind (read_project_file st p) text_lines"

definition read_link :: "store \<Rightarrow> string \<Rightarrow> string option" where
  "read_link st p = (case map_of (p_tree (st_project st)) p of Some (NLink target) \<Rightarrow> Some target | _ \<Rightarrow> None)"

section \<open>The report\<close>

definition shown_lines :: "bool \<Rightarrow> string list \<Rightarrow> string list" where
  "shown_lines full all_lines =
     (let ls = (if 2 < length all_lines then drop 2 all_lines else [])
      in if \<not> full \<and> maximum_diff_lines_per_file < length ls
         then take maximum_diff_lines_per_file ls @
              [''... '' @ nat_text (length ls - maximum_diff_lines_per_file) @ '' more lines'']
         else ls)"

definition link_line :: "store \<Rightarrow> entry \<Rightarrow> entry \<Rightarrow> string" where
  "link_line st b a =
     (case (blob st (e_digest b), read_link st (e_path a)) of
        (Ok previousTarget, Some currentTarget) \<Rightarrow>
          ''    (symlink: '' @ previousTarget @ '' -> '' @ currentTarget @ '')''
      | _ \<Rightarrow> ''    (symlink, target unreadable)'')"

definition put :: "string list \<Rightarrow> (string list \<times> nat) option \<Rightarrow> (string list \<times> nat) option" where
  "put ls remaining = map_option (\<lambda>(more, withheld). (ls @ more, withheld)) remaining"

fun report_changes ::
  "store \<Rightarrow> bool \<Rightarrow> changed_entry list \<Rightarrow> nat \<Rightarrow> nat \<Rightarrow> (string list \<times> nat) option" where
  "report_changes st full [] printed withheld = Some ([], withheld)"
| "report_changes st full (change # cs) printed withheld =
     (let b = before change; a = after change
      in if e_kind b \<noteq> e_kind a
         then put [report_row ''changed'' (e_path a) ('' ('' @ kind_text (e_kind b) @ '' became '' @ kind_text (e_kind a) @ '')'')]
                (report_changes st full cs printed withheld)
         else put [report_row ''changed'' (e_path a) (describe_mode_change (e_mode b) (e_mode a))]
           (if e_kind a = KindDirectory then report_changes st full cs printed withheld
            else if e_kind a = KindLink then put [link_line st b a] (report_changes st full cs printed withheld)
            else case (stored_text st (e_digest b), project_text st (e_path a)) of
               (Some previousLines, Some currentLines) \<Rightarrow>
                 if \<not> full \<and> maximum_diff_lines_total \<le> printed then report_changes st full cs printed (withheld + 1)
                 else (case unified previousLines currentLines (''a/'' @ e_path a) (''b/'' @ e_path a) report_context_lines False of
                         None \<Rightarrow> None
                       | Some all_lines \<Rightarrow>
                           (let ls = shown_lines full all_lines
                            in put (map (\<lambda>l. ''    '' @ l) ls) (report_changes st full cs (printed + length ls) withheld)))
             | _ \<Rightarrow> put [''    (binary file, contents differ)''] (report_changes st full cs printed withheld)))"

definition write_report :: "store \<Rightarrow> string \<Rightarrow> changes \<Rightarrow> bool \<Rightarrow> string list option" where
  "write_report st identifier ch full =
     map_option (\<lambda>(ls, withheld).
       [nat_text (changes_count ch) @ '' path(s) changed since checkpoint '' @ identifier @ ''.'', []] @
       map (\<lambda>e. report_row ''added'' (e_path e) (describe_added st e)) (added ch) @
       map (\<lambda>e. report_row ''removed'' (e_path e) (describe_removed st e)) (removed ch) @
       ls @ [[]] @
       (if 0 < withheld then [nat_text withheld @ '' more changed path(s) not shown.'',
                              ''Run `prison checkpoint diff --full` to see all changes.'', []] else []) @
       [''Run `prison checkpoint` to save these changes.''])
     (report_changes st full (changed ch) 0 0)"

section \<open>The unified form\<close>

datatype unified_status = UnifiedAdded | UnifiedRemoved | UnifiedChanged

record unified_side =
  us_lines :: "string list"
  us_text :: bool
  us_digest :: string
  us_mode :: string

definition absent_side :: unified_side where
  "absent_side = \<lparr>us_lines = [], us_text = True, us_digest = [], us_mode = []\<rparr>"

text \<open>\<open>strings.SplitAfter\<close> at line breaks, without the empty end.\<close>

definition split_keeping_newlines :: "string \<Rightarrow> string list" where
  "split_keeping_newlines text =
     (let parts = split_on newline text
      in map (\<lambda>l. l @ [newline]) (butlast parts) @ (if last parts = [] then [] else [last parts]))"

definition content_side :: "string \<Rightarrow> string \<Rightarrow> string \<Rightarrow> unified_side" where
  "content_side data digest mode =
     (let side = \<lparr>us_lines = [], us_text = False, us_digest = digest, us_mode = mode\<rparr>
      in if is_text data then side\<lparr>us_text := True, us_lines := split_keeping_newlines data\<rparr> else side)"

definition git_mode :: "entry \<Rightarrow> string" where
  "git_mode e = (if e_kind e = KindLink then git_mode_link
     else if executable (e_mode e) then git_mode_executable else git_mode_file)"

definition abbreviate_digest :: "string \<Rightarrow> string" where
  "abbreviate_digest digest =
     (if digest = [] then ''0000000'' else if 7 < length digest then take 7 digest else digest)"

definition project_side :: "store \<Rightarrow> entry \<Rightarrow> unified_side" where
  "project_side st e =
     (case (if e_kind e = KindLink then read_link st (e_path e) else read_project_file st (e_path e)) of
        None \<Rightarrow> \<lparr>us_lines = [], us_text = False, us_digest = e_digest e, us_mode = git_mode e\<rparr>
      | Some data \<Rightarrow> content_side data (e_digest e) (git_mode e))"

definition stored_side :: "store \<Rightarrow> entry \<Rightarrow> unified_side" where
  "stored_side st e =
     (case blob st (e_digest e) of
        Err _ \<Rightarrow> \<lparr>us_lines = [], us_text = False, us_digest = e_digest e, us_mode = git_mode e\<rparr>
      | Ok data \<Rightarrow> content_side data (e_digest e) (git_mode e))"

definition file_header :: "string \<Rightarrow> unified_status \<Rightarrow> unified_side \<Rightarrow> unified_side \<Rightarrow> string list" where
  "file_header path status b a =
     (''diff --git a/'' @ path @ '' b/'' @ path) #
     (case status of
        UnifiedAdded \<Rightarrow> [''new file mode '' @ us_mode a]
      | UnifiedRemoved \<Rightarrow> [''deleted file mode '' @ us_mode b]
      | UnifiedChanged \<Rightarrow> if us_mode b \<noteq> us_mode a then [''old mode '' @ us_mode b, ''new mode '' @ us_mode a] else []) @
     [''index '' @ abbreviate_digest (us_digest b) @ ''..'' @ abbreviate_digest (us_digest a) @
        (if status = UnifiedChanged \<and> us_mode b = us_mode a then CHR '' '' # us_mode a else [])]"

definition unified_file :: "string \<Rightarrow> unified_status \<Rightarrow> unified_side \<Rightarrow> unified_side \<Rightarrow> string list option" where
  "unified_file path status b a =
     (let fromName = (if status = UnifiedAdded then ''/dev/null'' else ''a/'' @ path);
          toName = (if status = UnifiedRemoved then ''/dev/null'' else ''b/'' @ path)
      in if \<not> us_text b \<or> \<not> us_text a
         then Some (file_header path status b a @ [''Binary files '' @ fromName @ '' and '' @ toName @ '' differ''])
         else map_option (\<lambda>ls. file_header path status b a @ ls)
                (unified (us_lines b) (us_lines a) fromName toName unified_context_lines True))"

text \<open>The two streams: file diffs, and what is said beside them.\<close>

type_synonym streams = "(string list \<times> string list) option"

definition to_out :: "string list option \<Rightarrow> streams \<Rightarrow> streams" where
  "to_out ls remaining = Option.bind ls (\<lambda>ls. map_option (\<lambda>(out, aside). (ls @ out, aside)) remaining)"

definition to_aside :: "string \<Rightarrow> streams \<Rightarrow> streams" where
  "to_aside l remaining = map_option (\<lambda>(out, aside). (out, l # aside)) remaining"

fun unified_changed :: "store \<Rightarrow> changed_entry list \<Rightarrow> streams" where
  "unified_changed st [] = Some ([], [])"
| "unified_changed st (change # cs) =
     (if e_kind (before change) = KindDirectory \<or> e_kind (after change) = KindDirectory
      then to_aside (''directory changed: '' @ e_path (after change)) (unified_changed st cs)
      else to_out (unified_file (e_path (after change)) UnifiedChanged
             (stored_side st (before change)) (project_side st (after change))) (unified_changed st cs))"

fun unified_removed :: "store \<Rightarrow> manifest \<Rightarrow> streams \<Rightarrow> streams" where
  "unified_removed st [] remaining = remaining"
| "unified_removed st (e # es) remaining =
     (if e_kind e = KindDirectory then to_aside (''directory removed: '' @ e_path e) (unified_removed st es remaining)
      else to_out (unified_file (e_path e) UnifiedRemoved (stored_side st e) absent_side) (unified_removed st es remaining))"

fun unified_added :: "store \<Rightarrow> manifest \<Rightarrow> streams \<Rightarrow> streams" where
  "unified_added st [] remaining = remaining"
| "unified_added st (e # es) remaining =
     (if e_kind e = KindDirectory then to_aside (''directory added: '' @ e_path e) (unified_added st es remaining)
      else to_out (unified_file (e_path e) UnifiedAdded absent_side (project_side st e)) (unified_added st es remaining))"

definition write_unified :: "store \<Rightarrow> string \<Rightarrow> changes \<Rightarrow> streams" where
  "write_unified st identifier ch =
     to_aside (nat_text (changes_count ch) @ '' path(s) changed since checkpoint '' @ identifier)
       (unified_added st (added ch) (unified_removed st (removed ch) (unified_changed st (changed ch))))"

section \<open>Lemmas\<close>

lemma unified_total: "\<exists>ls. unified a b aName bName ctx terminated = Some ls"
  using diff_total [of a b] by (auto simp: unified_def Let_def)

lemma put_Some: "put ls remaining = Some (out, w) \<longleftrightarrow> (\<exists>more. remaining = Some (more, w) \<and> out = ls @ more)"
  by (auto simp: put_def)

lemma put_total: "\<exists>r. remaining = Some r \<Longrightarrow> \<exists>r. put ls remaining = Some r"
  by (auto simp: put_def)

lemma shown_length: "\<not> full \<Longrightarrow> length (shown_lines full ls) \<le> Suc maximum_diff_lines_per_file"
  by (simp add: shown_lines_def Let_def)

text \<open>The diff lines stay below the limit until the last file that is shown; every change has a row
  and at most one remark.\<close>

lemma report_changes_bounded:
  "\<exists>ls w. report_changes st False cs printed withheld = Some (ls, w) \<and>
     length ls + printed \<le> 2 * length cs +
       max printed (maximum_diff_lines_total + maximum_diff_lines_per_file) \<and>
     withheld \<le> w \<and> w \<le> withheld + length cs"
proof (induction cs arbitrary: printed withheld)
  case (Cons change cs)
  obtain ls w where ih: "report_changes st False cs printed withheld = Some (ls, w)"
    "length ls + printed \<le> 2 * length cs + max printed (maximum_diff_lines_total + maximum_diff_lines_per_file)"
    "withheld \<le> w" "w \<le> withheld + length cs"
    using Cons.IH by blast
  obtain ls1 w1 where ih1: "report_changes st False cs printed (withheld + 1) = Some (ls1, w1)"
    "length ls1 + printed \<le> 2 * length cs + max printed (maximum_diff_lines_total + maximum_diff_lines_per_file)"
    "withheld + 1 \<le> w1" "w1 \<le> withheld + 1 + length cs"
    using Cons.IH by blast
  show ?case
  proof (cases "e_kind (before change) = e_kind (after change) \<and> e_kind (after change) \<noteq> KindDirectory \<and>
      e_kind (after change) \<noteq> KindLink")
    case False
    then show ?thesis using ih by (auto simp: Let_def put_def)
  next
    case True
    show ?thesis
    proof (cases "stored_text st (e_digest (before change)) = None \<or> project_text st (e_path (after change)) = None")
      case True
      then show ?thesis using ih \<open>_ \<and> _\<close> by (auto simp: Let_def put_def split: option.splits)
    next
      case False
      then obtain p c where pc: "stored_text st (e_digest (before change)) = Some p" "project_text st (e_path (after change)) = Some c"
        by auto
      show ?thesis
      proof (cases "maximum_diff_lines_total \<le> printed")
        case True
        then show ?thesis using ih1 pc \<open>_ \<and> _\<close> by (auto simp: Let_def put_def)
      next
        case small: False
        obtain all_lines where u: "unified p c (''a/'' @ e_path (after change)) (''b/'' @ e_path (after change)) report_context_lines False = Some all_lines"
          using unified_total by blast
        define sl where "sl = shown_lines False all_lines"
        have sl: "length sl \<le> Suc maximum_diff_lines_per_file" using shown_length unfolding sl_def by blast
        obtain ls2 w2 where ih2: "report_changes st False cs (printed + length sl) withheld = Some (ls2, w2)"
          "length ls2 + (printed + length sl) \<le> 2 * length cs +
             max (printed + length sl) (maximum_diff_lines_total + maximum_diff_lines_per_file)"
          "withheld \<le> w2" "w2 \<le> withheld + length cs"
          using Cons.IH by blast
        have "report_changes st False (change # cs) printed withheld =
            Some ([report_row ''changed'' (e_path (after change)) (describe_mode_change (e_mode (before change)) (e_mode (after change)))] @
              map (\<lambda>l. ''    '' @ l) sl @ ls2, w2)"
          using True pc small u ih2(1) by (simp add: Let_def put_def sl_def)
        then show ?thesis using ih2 sl small by (simp add: max_def split: if_splits)
      qed
    qed
  qed
qed (simp add: max_def)

lemma join_terminated: "join [c] (xs @ [y]) = concat (map (\<lambda>l. l @ [c]) xs) @ y"
  by (induction xs) (auto simp: join_Cons)

lemma split_keeping_concat [simp]: "concat (split_keeping_newlines text) = text"
proof -
  have "join [newline] (butlast (split_on newline text) @ [last (split_on newline text)]) = text" by simp
  then have "concat (map (\<lambda>l. l @ [newline]) (butlast (split_on newline text))) @ last (split_on newline text) = text"
    by (simp only: join_terminated)
  then show ?thesis by (cases "last (split_on newline text) = []") (simp_all add: split_keeping_newlines_def Let_def)
qed

lemma put_None [simp]: "put ls r = None \<longleftrightarrow> r = None"
  by (simp add: put_def)

lemma report_changes_total: "report_changes st full cs printed withheld \<noteq> None"
proof (induction cs arbitrary: printed withheld)
  case (Cons change cs)
  have u: "unified a b n m c d \<noteq> None" for a b n m c d using unified_total [of a b n m c d] by auto
  have ih: "\<exists>a b. report_changes st full cs p w = Some (a, b)" for p w using Cons.IH [of p w] by auto
  show ?case using ih u by (auto simp: Let_def simp del: not_None_eq split: option.splits)
qed simp

lemma unified_file_total: "\<exists>ls. unified_file path status b a = Some ls"
  using unified_total by (auto simp: unified_file_def Let_def)

definition stream_ok :: "nat \<Rightarrow> streams \<Rightarrow> bool" where
  "stream_ok n s \<longleftrightarrow> (\<exists>out aside. s = Some (out, aside) \<and> length aside = n)"

lemma stream_ok_out: "stream_ok n s \<Longrightarrow> stream_ok n (to_out (unified_file path status b a) s)"
  using unified_file_total [of path status b a] by (auto simp: stream_ok_def to_out_def)

lemma stream_ok_aside: "stream_ok n s \<Longrightarrow> stream_ok (Suc n) (to_aside l s)"
  by (auto simp: stream_ok_def to_aside_def)

lemma unified_added_ok: "stream_ok n s \<Longrightarrow>
    stream_ok (length (filter (\<lambda>e. e_kind e = KindDirectory) es) + n) (unified_added st es s)"
  by (induction es) (auto intro: stream_ok_out stream_ok_aside)

lemma unified_removed_ok: "stream_ok n s \<Longrightarrow>
    stream_ok (length (filter (\<lambda>e. e_kind e = KindDirectory) es) + n) (unified_removed st es s)"
  by (induction es) (auto intro: stream_ok_out stream_ok_aside)

lemma unified_changed_ok:
  "stream_ok (length (filter (\<lambda>c. e_kind (before c) = KindDirectory \<or> e_kind (after c) = KindDirectory) cs)) (unified_changed st cs)"
proof (induction cs)
  case Nil
  then show ?case by (simp add: stream_ok_def)
qed (auto intro: stream_ok_out stream_ok_aside)

section \<open>Properties\<close>

text \<open>A report always returns, and without \<open>--full\<close> it is bounded by the number of changed paths:
  a row for each, at most one remark below a changed one, and at most 460 lines of diff in all.\<close>

theorem report_bounded:
  "(\<exists>ls. write_report st identifier ch True = Some ls) \<and>
   (\<exists>ls. write_report st identifier ch False = Some ls \<and>
      length ls \<le> length (added ch) + length (removed ch) + 2 * length (changed ch) + 460 + 7)"
proof -
  obtain r where "report_changes st True (changed ch) 0 0 = Some r" using report_changes_total by (metis not_None_eq)
  moreover obtain ls w where "report_changes st False (changed ch) 0 0 = Some (ls, w)"
    "length ls + 0 \<le> 2 * length (changed ch) + max 0 (maximum_diff_lines_total + maximum_diff_lines_per_file)"
    using report_changes_bounded [of st "changed ch" 0 0] by blast
  ultimately show ?thesis
    by (auto simp: write_report_def maximum_diff_lines_total_def maximum_diff_lines_per_file_def)
qed

text \<open>The patch form always returns. Its first stream holds file diffs only: every change of a
  directory, and the summary, is one line of the second stream, and that stream has no other.\<close>

theorem unified_stream:
  "\<exists>out aside. write_unified st identifier ch = Some (out, aside) \<and>
     length aside = length (filter (\<lambda>e. e_kind e = KindDirectory) (added ch)) +
       length (filter (\<lambda>e. e_kind e = KindDirectory) (removed ch)) +
       length (filter (\<lambda>c. e_kind (before c) = KindDirectory \<or> e_kind (after c) = KindDirectory) (changed ch)) + 1"
proof -
  let ?n = "\<lambda>es. length (filter (\<lambda>e. e_kind e = KindDirectory) es)"
  have "stream_ok (Suc (?n (added ch) + (?n (removed ch) +
      length (filter (\<lambda>c. e_kind (before c) = KindDirectory \<or> e_kind (after c) = KindDirectory) (changed ch)))))
    (write_unified st identifier ch)"
    unfolding write_unified_def
    by (intro stream_ok_aside unified_added_ok unified_removed_ok unified_changed_ok)
  then show ?thesis by (simp add: stream_ok_def add.assoc)
qed

text \<open>The diff of a changed text file is a patch of its bytes: its hunks, applied to the lines of
  the old content, give the new content, line ends included, and they are what the stream holds
  after the header of the file.\<close>

theorem unified_file_patch:
  assumes "is_text old" "is_text new"
  shows "\<exists>es. diff (us_lines (content_side old d m)) (us_lines (content_side new d' m')) = Some es \<and>
    concat (patch (us_lines (content_side old d m)) 0 (hunks es unified_context_lines)) = new \<and>
    unified_file path UnifiedChanged (content_side old d m) (content_side new d' m') =
      Some (file_header path UnifiedChanged (content_side old d m) (content_side new d' m') @
        (if hunks es unified_context_lines = [] then []
         else [''--- a/'' @ path, ''+++ b/'' @ path] @
           concat (map (hunk_text True) (hunks es unified_context_lines))))"
proof -
  let ?a = "us_lines (content_side old d m)" and ?b = "us_lines (content_side new d' m')"
  have s: "us_text (content_side old d m)" "us_text (content_side new d' m')" "concat ?b = new"
    using assms by (simp_all add: content_side_def)
  obtain es where es: "diff ?a ?b = Some es" using diff_total by blast
  have "patch ?a 0 (hunks es unified_context_lines) = ?b"
    using diff_lines [OF es] hunks_patch(1) [of es unified_context_lines] by simp
  then show ?thesis using s es by (simp add: unified_file_def unified_def Let_def)
qed

theorem unified_file_patch_witness:
  "\<exists>es. diff (us_lines (content_side ''a'' [] [])) (us_lines (content_side ''b'' [] [])) = Some es \<and>
     concat (patch (us_lines (content_side ''a'' [] [])) 0 (hunks es unified_context_lines)) = ''b''"
proof -
  have "is_text ''a''" "is_text ''b''" by code_simp+
  from unified_file_patch [OF this, of "[]" "[]" "[]" "[]" "[]"] show ?thesis by blast
qed

end
