(* ===== verification/Go_Base64.thy ===== *)
theory Go_Base64
  imports Go_Prelude
begin

text \<open>
  Go's \<open>base64.StdEncoding\<close>. The decoder skips line breaks, wants the padding and does not look
  at the unused bits of the last character, as the package documents.
\<close>

definition base64_alphabet :: string where
  "base64_alphabet = ''ABCDEFGHIJKLMNOPQRSTUVWXYZabcdefghijklmnopqrstuvwxyz0123456789+/''"

definition base64_char :: "nat \<Rightarrow> char" where
  "base64_char n = base64_alphabet ! n"

fun position :: "'a \<Rightarrow> 'a list \<Rightarrow> nat option" where
  "position x [] = None"
| "position x (y # ys) = (if x = y then Some 0 else map_option Suc (position x ys))"

definition base64_value :: "char \<Rightarrow> nat option" where
  "base64_value c = position c base64_alphabet"

abbreviation code :: "char \<Rightarrow> nat" where "code c \<equiv> of_char c"

fun base64_encode :: "string \<Rightarrow> string" where
  "base64_encode [] = []"
| "base64_encode [x] = [base64_char (code x div 4), base64_char (code x mod 4 * 16), CHR ''='', CHR ''='']"
| "base64_encode [x, y] = [base64_char (code x div 4), base64_char (code x mod 4 * 16 + code y div 16),
     base64_char (code y mod 16 * 4), CHR ''='']"
| "base64_encode (x # y # z # s) = [base64_char (code x div 4), base64_char (code x mod 4 * 16 + code y div 16),
     base64_char (code y mod 16 * 4 + code z div 64), base64_char (code z mod 64)] @ base64_encode s"

fun base64_quanta :: "string \<Rightarrow> string option" where
  "base64_quanta [] = Some []"
| "base64_quanta (a # b # c # d # s) =
     (case (base64_value a, base64_value b) of
        (Some p, Some q) \<Rightarrow>
          if c = CHR ''='' then (if d = CHR ''='' \<and> s = [] then Some [char_of (p * 4 + q div 16)] else None)
          else (case base64_value c of None \<Rightarrow> None | Some r \<Rightarrow>
            if d = CHR ''='' then
              (if s = [] then Some [char_of (p * 4 + q div 16), char_of (q mod 16 * 16 + r div 4)] else None)
            else (case base64_value d of None \<Rightarrow> None | Some t \<Rightarrow>
              map_option (\<lambda>more. [char_of (p * 4 + q div 16), char_of (q mod 16 * 16 + r div 4), char_of (r mod 4 * 64 + t)] @ more)
                (base64_quanta s)))
      | _ \<Rightarrow> None)"
| "base64_quanta _ = None"

definition base64_decode :: "string \<Rightarrow> string option" where
  "base64_decode s = base64_quanta (filter (\<lambda>c. c \<noteq> newline \<and> c \<noteq> carriage_return) s)"

section \<open>Lemmas\<close>

lemma base64_alphabet_length: "length base64_alphabet = 64"
  by (simp add: base64_alphabet_def)

lemma base64_alphabet_distinct: "distinct base64_alphabet"
  by (simp add: base64_alphabet_def)

lemma position_nth: "distinct xs \<Longrightarrow> i < length xs \<Longrightarrow> position (xs ! i) xs = Some i"
  by (induction xs arbitrary: i) (auto simp: nth_Cons split: nat.splits)

lemma base64_value_char [simp]: "n < 64 \<Longrightarrow> base64_value (base64_char n) = Some n"
  using position_nth [OF base64_alphabet_distinct, of n]
  by (simp add: base64_value_def base64_char_def base64_alphabet_length)

lemma base64_char_in: "n < 64 \<Longrightarrow> base64_char n \<in> set base64_alphabet"
  by (simp add: base64_char_def base64_alphabet_length)

lemma base64_alphabet_plain: "c \<in> set base64_alphabet \<Longrightarrow> c \<noteq> CHR ''='' \<and> \<not> is_space c"
  by (auto simp: base64_alphabet_def is_space_def)

lemma base64_char_plain [simp]:
  assumes "n < 64"
  shows "base64_char n \<noteq> CHR ''=''" "\<not> is_space (base64_char n)"
  using base64_alphabet_plain [OF base64_char_in [OF assms]] by auto

lemma code_less [simp]: "code c < 256"
  by (rule nat_of_char_less_256)

lemma sextets [simp]: "code x div 4 < 64" "code x mod 4 * 16 < 64" "code x mod 4 * 16 + code y div 16 < 64"
  "code y mod 16 * 4 < 64" "code y mod 16 * 4 + code z div 64 < 64" "code z mod 64 < 64"
proof -
  have lt: "code c div 4 < 64" "code c div 16 < 16" "code c div 64 < 4" for c
    using code_less [of c] by (auto simp: div_less_iff_less_mult)
  have md: "code c mod 4 \<le> 3" "code c mod 16 \<le> 15" for c
    using mod_less_divisor [of 4 "code c"] mod_less_divisor [of 16 "code c"] by linarith+
  show "code x div 4 < 64" "code x mod 4 * 16 < 64" "code x mod 4 * 16 + code y div 16 < 64"
    "code y mod 16 * 4 < 64" "code y mod 16 * 4 + code z div 64 < 64" "code z mod 64 < 64"
    using lt(1) [of x] lt(2) [of y] lt(3) [of z] md(1) [of x] md(2) [of y] by (linarith, linarith, linarith, linarith, linarith, simp)
qed

lemma octets_nat:
  fixes n :: nat
  assumes "n < 256"
  shows "n div 16 div 16 = 0" "n div 64 div 4 = 0" "n div 16 mod 16 * 16 + n mod 16 = n" "n div 64 mod 4 * 64 + n mod 64 = n"
proof -
  show "n div 16 div 16 = 0" "n div 64 div 4 = 0" using assms by (simp_all add: div_mult2_eq [symmetric])
  have "n div 16 < 16" "n div 64 < 4" using assms by (auto simp: div_less_iff_less_mult)
  then have "n div 16 mod 16 = n div 16" "n div 64 mod 4 = n div 64" by simp_all
  then show "n div 16 mod 16 * 16 + n mod 16 = n" "n div 64 mod 4 * 64 + n mod 64 = n" by simp_all
qed

lemmas octets = octets_nat [OF code_less]

lemma base64_quanta_encode: "base64_quanta (base64_encode s) = Some s"
  by (induction s rule: base64_encode.induct) (simp_all add: octets)

lemma base64_encode_chars: "c \<in> set (base64_encode s) \<Longrightarrow> c = CHR ''='' \<or> c \<in> set base64_alphabet"
  by (induction s rule: base64_encode.induct) (auto simp: base64_char_in)

lemma base64_encode_space: "c \<in> set (base64_encode s) \<Longrightarrow> \<not> is_space c"
  using base64_encode_chars [of c s] base64_alphabet_plain by (auto simp: is_space_def)

lemma base64_encode_neq_Nil [simp]: "base64_encode s = [] \<longleftrightarrow> s = []"
  by (cases s rule: base64_encode.cases) auto

lemma base64_decode_encode [simp]: "base64_decode (base64_encode s) = Some s"
proof -
  have "c \<noteq> newline \<and> c \<noteq> carriage_return" if "c \<in> set (base64_encode s)" for c
    using base64_encode_space [OF that] by (auto simp: is_space_def)
  then have "filter (\<lambda>c. c \<noteq> newline \<and> c \<noteq> carriage_return) (base64_encode s) = base64_encode s"
    by (simp add: filter_id_conv)
  then show ?thesis by (simp add: base64_decode_def base64_quanta_encode)
qed

end
