(* ===== verification/Broker_Protocol.thy ===== *)
theory Broker_Protocol
  imports Go_Base64
begin

text \<open>
  \<open>internal/broker/protocol/protocol.go\<close>: the host names of the zone \<open>prison.internal\<close> and the
  \<open>Proxy-Authorization\<close> header that carries a project token.
\<close>

section \<open>Names\<close>

definition zone :: string where "zone = ''prison.internal''"
definition broker_host :: string where "broker_host = ''broker.'' @ zone"
definition kind_broker :: string where "kind_broker = ''broker''"
definition kind_inmate :: string where "kind_inmate = ''inmate''"
definition kind_route :: string where "kind_route = ''route''"
definition default_broker_port :: int where "default_broker_port = 8787"
definition path_hosts :: string where "path_hosts = ''/v1/hosts''"
definition path_certificates :: string where "path_certificates = ''/v1/certificates''"
definition path_environment :: string where "path_environment = ''/v1/environment''"
definition path_keys :: string where "path_keys = ''/v1/keys''"
definition path_sign :: string where "path_sign = ''/v1/sign''"
definition proxy_user :: string where "proxy_user = ''prison''"

definition inmate_host :: "string \<Rightarrow> string" where
  "inmate_host inmate = inmate @ ''.inmate.'' @ zone"

definition route_host :: "string \<Rightarrow> string" where
  "route_host secret = secret @ ''.route.'' @ zone"

definition normalize :: "string \<Rightarrow> string" where
  "normalize host = to_lower (trim_suffix host ''.'')"

definition in_zone :: "string \<Rightarrow> bool" where
  "in_zone host0 \<longleftrightarrow> (let host = normalize host0 in host = zone \<or> has_suffix host (CHR ''.'' # zone))"

definition parse_zone_name :: "string \<Rightarrow> (string \<times> string) option" where
  "parse_zone_name host0 =
     (let host = normalize host0
      in if host = broker_host then Some (kind_broker, [])
         else case cut_suffix host (CHR ''.'' # zone) of
           (remaining, found) \<Rightarrow>
             if \<not> found then None
             else case cut remaining CHR ''.'' of
               (label, kindLabel, hasKind) \<Rightarrow>
                 if \<not> hasKind \<or> label = [] \<or> CHR ''.'' \<in> set kindLabel then None
                 else if kindLabel = kind_inmate \<or> kindLabel = kind_route then Some (kindLabel, label)
                 else None)"

section \<open>The proxy header\<close>

definition proxy_authorization :: "string \<Rightarrow> string" where
  "proxy_authorization token = ''Basic '' @ base64_encode (proxy_user @ '':'' @ token)"

definition token_from_proxy_authorization :: "string \<Rightarrow> string option" where
  "token_from_proxy_authorization header =
     (case cut (trim_space header) CHR '' '' of
        (scheme, encoded, found) \<Rightarrow>
          if \<not> found \<or> \<not> equal_fold scheme ''Basic'' then None
          else case base64_decode (trim_space encoded) of
            None \<Rightarrow> None
          | Some decoded \<Rightarrow>
              (case cut decoded CHR '':'' of
                 (_, password, hasColon) \<Rightarrow>
                   if \<not> hasColon \<or> password = [] then None else Some password))"

section \<open>Lemmas\<close>

section \<open>Properties\<close>

text \<open>The password that the broker reads from the header that a box sends is the token it was
  made from, for every token; an empty token is never accepted.\<close>

theorem token_round_trip:
  "token_from_proxy_authorization (proxy_authorization token) = (if token = [] then None else Some token)"
proof -
  define m where "m = proxy_user @ '':'' @ token"
  have ne: "base64_encode m \<noteq> []" by (simp add: m_def)
  have sp: "\<not> is_space (hd (base64_encode m))" "\<not> is_space (last (base64_encode m))"
    using base64_encode_space [OF hd_in_set [OF ne]] base64_encode_space [OF last_in_set [OF ne]] .
  have e: "trim_space (base64_encode m) = base64_encode m" by (rule trim_plain [OF ne sp])
  have pa: "proxy_authorization token = ''Basic '' @ base64_encode m" by (simp add: proxy_authorization_def m_def)
  have h: "trim_space (''Basic '' @ base64_encode m) = ''Basic '' @ base64_encode m"
    using ne sp by (intro trim_plain) (auto simp: is_space_def)
  have c: "cut (''Basic '' @ base64_encode m) CHR '' '' = (''Basic'', base64_encode m, True)"
    using cut_hit [of "CHR '' ''" "''Basic''" "base64_encode m"] by simp
  have "cut m CHR '':'' = (proxy_user, token, True)"
    using cut_hit [of "CHR '':''" proxy_user token] by (simp add: proxy_user_def m_def)
  then show ?thesis
    unfolding token_from_proxy_authorization_def pa h c by (simp add: e equal_fold_def)
qed

text \<open>The zone names are exact. A host names the broker, an inmate or a route precisely when, in
  lower case and without a final dot, it is the name the broker gives that inmate or route.\<close>

theorem zone_name_exact:
  "parse_zone_name host = Some (kind, name) \<longleftrightarrow>
     (kind = kind_broker \<and> name = [] \<and> normalize host = broker_host) \<or>
     (kind = kind_inmate \<and> name \<noteq> [] \<and> CHR ''.'' \<notin> set name \<and> normalize host = inmate_host name) \<or>
     (kind = kind_route \<and> name \<noteq> [] \<and> CHR ''.'' \<notin> set name \<and> normalize host = route_host name)"
proof (cases "normalize host = broker_host")
  case True
  have no: "broker_host \<noteq> n @ CHR ''.'' # k @ CHR ''.'' # zone" if "n \<noteq> []" "CHR ''.'' \<notin> set n" "k \<noteq> []" for n k
  proof
    assume "broker_host = n @ CHR ''.'' # k @ CHR ''.'' # zone"
    then have "''broker'' = n @ CHR ''.'' # k" by (simp add: broker_host_def zone_def flip: append_assoc append_Cons)
    then have "CHR ''.'' \<in> set ''broker''" by (metis in_set_conv_decomp)
    then show False by simp
  qed
  show ?thesis
    using True no [of name "''inmate''"] no [of name "''route''"]
    by (auto simp: parse_zone_name_def inmate_host_def route_host_def kind_broker_def kind_inmate_def kind_route_def)
next
  case False
  have shape: "cut_suffix (normalize host) (CHR ''.'' # zone) = (r, True) \<longleftrightarrow> normalize host = r @ CHR ''.'' # zone" for r
    by (auto simp: cut_suffix_def has_suffix_iff)
  have parts: "cut r CHR ''.'' = (name, k, True) \<longleftrightarrow> CHR ''.'' \<notin> set name \<and> r = name @ CHR ''.'' # k" for r name k
    using cut_found [of r "CHR ''.''" name k] cut_hit [of "CHR ''.''" name k] by auto
  show ?thesis
  proof (cases "has_suffix (normalize host) (CHR ''.'' # zone)")
    case no: False
    then show ?thesis using False
      by (auto simp: parse_zone_name_def cut_suffix_def inmate_host_def route_host_def has_suffix_iff Let_def)
  next
    case True
    then obtain r where r: "normalize host = r @ CHR ''.'' # zone" by (auto simp: has_suffix_iff)
    have host: "normalize host = inmate_host n \<longleftrightarrow> r = n @ CHR ''.'' # kind_inmate"
      "normalize host = route_host n \<longleftrightarrow> r = n @ CHR ''.'' # kind_route" for n
      by (simp_all add: r inmate_host_def route_host_def kind_inmate_def kind_route_def flip: append_assoc append_Cons)
    obtain a b f where c: "cut r CHR ''.'' = (a, b, f)" by (metis surj_pair)
    have cs: "cut_suffix (normalize host) (CHR ''.'' # zone) = (r, True)" using r shape by blast
    show ?thesis
      using False c cs host parts [of r a b] parts [of r name kind_inmate] parts [of r name kind_route]
      by (cases f) (auto simp: parse_zone_name_def Let_def kind_broker_def kind_inmate_def kind_route_def)
  qed
qed

end
