(* ===== verification/Broker_Http.thy ===== *)
theory Broker_Http
  imports Go_Path Broker_Protocol
begin

text \<open>
  The requests that the broker serves, and how it reads a destination from one
  (\<open>splitConnectTarget\<close>, \<open>requestTarget\<close>, \<open>clientAddress\<close>, \<open>normalizeHost\<close> of
  \<open>internal/broker/dispatch.go\<close>, \<open>isCanonicalPath\<close> of \<open>route.go\<close>).

  \<open>net.SplitHostPort\<close> and the \<open>Hostname\<close> and \<open>Port\<close> of a \<open>url.URL\<close> are modelled as the standard
  library defines them. The decoded and the escaped path of a URL are two fields of the request,
  because the decoding is the library's. The lemmas show that a canonical path below \<open>/\<close> has no
  element that an upstream could resolve to another path.
\<close>

section \<open>Requests\<close>

record request =
  rq_method :: string
  rq_scheme :: string
  rq_url_host :: string
  rq_host :: string
  rq_path :: string
  rq_escaped_path :: string
  rq_authorization :: string
  rq_remote :: string

definition method_connect :: string where "method_connect = ''CONNECT''"
definition method_get :: string where "method_get = ''GET''"
definition method_post :: string where "method_post = ''POST''"

section \<open>Hosts and ports\<close>

text \<open>\<open>net.SplitHostPort\<close>; every error is \<open>None\<close>.\<close>

definition first_index :: "char \<Rightarrow> string \<Rightarrow> nat option" where
  "first_index c s = (if c \<in> set s then Some (length (takeWhile (\<lambda>x. x \<noteq> c) s)) else None)"

definition split_host_port :: "string \<Rightarrow> (string \<times> string) option" where
  "split_host_port text = (case last_index CHR '':'' text of None \<Rightarrow> None
     | Some i \<Rightarrow>
         if has_prefix text ''['' then
           (case first_index CHR '']'' text of None \<Rightarrow> None
            | Some e \<Rightarrow>
                if e + 1 \<noteq> i then None
                else if CHR ''['' \<in> set (tl text) \<or> CHR '']'' \<in> set (drop (e + 1) text) then None
                else Some (drop 1 (take e text), drop (i + 1) text))
         else if CHR '':'' \<in> set (take i text) then None
         else if CHR ''['' \<in> set text \<or> CHR '']'' \<in> set text then None
         else Some (take i text, drop (i + 1) text))"

text \<open>\<open>URL.Hostname\<close> and \<open>URL.Port\<close>.\<close>

definition valid_optional_port :: "string \<Rightarrow> bool" where
  "valid_optional_port port \<longleftrightarrow> port = [] \<or> (hd port = CHR '':'' \<and> list_all is_digit (tl port))"

definition url_split :: "string \<Rightarrow> string \<times> string" where
  "url_split host_port =
     (let (host, port) = (case last_index CHR '':'' host_port of None \<Rightarrow> (host_port, [])
            | Some i \<Rightarrow> if valid_optional_port (drop i host_port) then (take i host_port, drop (i + 1) host_port)
                else (host_port, []))
      in (if has_prefix host ''['' \<and> has_suffix host '']'' then take (length host - 2) (drop 1 host) else host, port))"

definition url_hostname :: "string \<Rightarrow> string" where "url_hostname h = fst (url_split h)"
definition url_port :: "string \<Rightarrow> string" where "url_port h = snd (url_split h)"

definition normalize_target_host :: "string \<Rightarrow> string" where
  "normalize_target_host host = trim_suffix (to_lower host) ''.''"

definition split_connect_target :: "string \<Rightarrow> (string \<times> int) option" where
  "split_connect_target target =
     (let parts = (case split_host_port target of
            None \<Rightarrow> if CHR '':'' \<in> set target then None else Some (target, ''443'')
          | Some p \<Rightarrow> Some p)
      in case parts of None \<Rightarrow> None
         | Some (host0, port_text) \<Rightarrow>
             (case atoi port_text of None \<Rightarrow> None
              | Some port \<Rightarrow>
                  if port < 1 \<or> port > 65535 then None
                  else let host = normalize_target_host host0 in if host = [] then None else Some (host, port)))"

definition connect_target :: "request \<Rightarrow> string" where
  "connect_target r = (if rq_url_host r = [] then rq_host r else rq_url_host r)"

definition request_target :: "request \<Rightarrow> string \<times> int" where
  "request_target r =
     (if rq_method r = method_connect then
        (case split_connect_target (connect_target r) of None \<Rightarrow> (connect_target r, 0) | Some t \<Rightarrow> t)
      else if rq_url_host r = [] then ([], 0)
      else (normalize_target_host (url_hostname (rq_url_host r)),
            case atoi (url_port (rq_url_host r)) of None \<Rightarrow> 80 | Some p \<Rightarrow> p))"

definition client_address :: "string \<Rightarrow> string" where
  "client_address remote = (case split_host_port remote of None \<Rightarrow> remote | Some (host, _) \<Rightarrow> host)"

section \<open>Canonical paths\<close>

definition is_canonical_path :: "request \<Rightarrow> bool" where
  "is_canonical_path r =
     (let path = (if rq_path r = [] then ''/'' else rq_path r);
          cleaned0 = path_clean path;
          cleaned = (if has_suffix path ''/'' \<and> cleaned0 \<noteq> ''/'' then cleaned0 @ ''/'' else cleaned0);
          escaped = to_lower (rq_escaped_path r)
      in cleaned = path \<and> backslash \<notin> set path \<and> \<not> contains_str escaped ''%2e'' \<and>
         \<not> contains_str escaped ''%2f'' \<and> \<not> contains_str escaped ''%5c'')"

definition contains_string :: "string list \<Rightarrow> string \<Rightarrow> bool" where
  "contains_string values wanted = list_ex (\<lambda>v. v = wanted) values"

section \<open>What a canonical path is\<close>

text \<open>No element of the path is empty or a dot, except for a last empty element after a slash.\<close>

definition plain_below_root :: "string \<Rightarrow> bool" where
  "plain_below_root path \<longleftrightarrow> path = ''/'' \<or>
     (\<exists>elements. elements \<noteq> [] \<and> list_all plain elements \<and>
        (path = ''/'' @ join ''/'' elements \<or> path = ''/'' @ join ''/'' elements @ ''/''))"

lemma canonical_plain:
  assumes "is_canonical_path r" "has_prefix (rq_path r) ''/''"
  shows "plain_below_root (rq_path r)"
proof -
  have ne: "rq_path r \<noteq> []" using assms(2) by (auto simp: has_prefix_def)
  have abs: "is_abs (rq_path r)" using assms(2) by (simp add: is_abs_def)
  obtain k ys where p: "path_segments (rq_path r) = replicate k ''..'' @ ys" "list_all plain ys" "is_abs (rq_path r) \<longrightarrow> k = 0"
    by (rule path_segments_form)
  then have c: "path_clean (rq_path r) = ''/'' @ join ''/'' ys" using abs by (simp add: path_clean_def Let_def)
  have "rq_path r = ''/'' @ join ''/'' ys \<or> (rq_path r = ''/'' @ join ''/'' ys @ ''/'' \<and> path_clean (rq_path r) \<noteq> ''/'')"
    using assms(1) ne c by (auto simp: is_canonical_path_def Let_def split: if_splits)
  then show ?thesis
  proof (cases "ys = []")
    case True
    then show ?thesis using c \<open>rq_path r = _ \<or> _\<close> by (simp add: plain_below_root_def)
  next
    case False
    then show ?thesis using p(2) \<open>rq_path r = _ \<or> _\<close> by (auto simp: plain_below_root_def)
  qed
qed

lemma plain_elements:
  assumes "plain_below_root path"
  shows "''..'' \<notin> set (split_on CHR ''/'' path)" "''.'' \<notin> set (split_on CHR ''/'' path)"
proof -
  have np: "''..'' \<notin> set es \<and> ''.'' \<notin> set es" if "list_all plain es" for es
    using that by (auto simp: list_all_iff plain_def)
  have "''..'' \<notin> set (split_on CHR ''/'' path) \<and> ''.'' \<notin> set (split_on CHR ''/'' path)"
  proof (cases "path = ''/''")
    case True
    then show ?thesis by simp
  next
    case False
    have "\<exists>es. es \<noteq> [] \<and> list_all plain es \<and> (path = ''/'' @ join ''/'' es \<or> path = ''/'' @ join ''/'' es @ ''/'')"
      using assms [unfolded plain_below_root_def] False by argo
    then obtain es where es: "es \<noteq> []" "list_all plain es"
      "path = ''/'' @ join ''/'' es \<or> path = ''/'' @ join ''/'' es @ ''/''"
      by (elim exE conjE)
    have j: "split_on CHR ''/'' (join ''/'' es) = es"
      using split_on_join [OF es(1), of "CHR ''/''"] es(2) by (auto simp: plain_def list_all_iff)
    have "split_on CHR ''/'' (''/'' @ x) = [] # split_on CHR ''/'' x" for x by simp
    then have "split_on CHR ''/'' path = [] # es \<or> split_on CHR ''/'' path = [] # es @ [[]]"
      using es(3) j split_on_snoc [of "CHR ''/''" "join ''/'' es"] by metis
    then show ?thesis by (elim disjE) (simp_all add: np [OF es(2)])
  qed
  then show "''..'' \<notin> set (split_on CHR ''/'' path)" "''.'' \<notin> set (split_on CHR ''/'' path)" by simp_all
qed

text \<open>A path that the broker forwards cannot leave its prefix. A canonical path that starts with the
  prefix of a route has no \<open>.\<close> or \<open>..\<close> element, no backslash, and no escaped dot, slash or backslash, and
  cleaning it changes nothing but a last slash; so an upstream that normalises it stays below the prefix.\<close>

theorem canonical_path_stays:
  assumes "is_canonical_path r" "has_prefix (rq_path r) below" "has_prefix below ''/''"
  shows "''..'' \<notin> set (split_on CHR ''/'' (rq_path r)) \<and> ''.'' \<notin> set (split_on CHR ''/'' (rq_path r)) \<and>
    backslash \<notin> set (rq_path r) \<and>
    (path_clean (rq_path r) = rq_path r \<or> path_clean (rq_path r) @ ''/'' = rq_path r) \<and>
    (\<forall>bad\<in>{''%2e'', ''%2f'', ''%5c''}. \<not> contains_str (to_lower (rq_escaped_path r)) bad)"
proof -
  have slash: "has_prefix (rq_path r) ''/''" using assms(2,3) by (auto simp: has_prefix_iff)
  then have ne: "rq_path r \<noteq> []" by (auto simp: has_prefix_def)
  have "backslash \<notin> set (rq_path r)" "path_clean (rq_path r) = rq_path r \<or> path_clean (rq_path r) @ ''/'' = rq_path r"
    "\<forall>bad\<in>{''%2e'', ''%2f'', ''%5c''}. \<not> contains_str (to_lower (rq_escaped_path r)) bad"
    using assms(1) ne by (simp_all add: is_canonical_path_def Let_def split: if_splits)
  then show ?thesis using plain_elements [OF canonical_plain [OF assms(1) slash]] by blast
qed

definition example_request :: request where
  "example_request = \<lparr>rq_method = ''GET'', rq_scheme = ''https'', rq_url_host = [], rq_host = ''api.example.org'',
     rq_path = ''/v1/items/'', rq_escaped_path = ''/v1/items/'', rq_authorization = [], rq_remote = ''10.0.0.2:40000''\<rparr>"

theorem canonical_path_stays_witness:
  "''..'' \<notin> set (split_on CHR ''/'' (rq_path example_request)) \<and> path_clean (rq_path example_request) @ ''/'' = ''/v1/items/''"
proof -
  have "is_canonical_path example_request" "has_prefix (rq_path example_request) ''/v1/''" "has_prefix ''/v1/'' ''/''"
    by code_simp+
  from canonical_path_stays [OF this] have "''..'' \<notin> set (split_on CHR ''/'' (rq_path example_request))" by blast
  moreover have "path_clean (rq_path example_request) @ ''/'' = ''/v1/items/''" by code_simp
  ultimately show ?thesis by blast
qed

end
