(* ===== verification/Policy.thy ===== *)
theory Policy
  imports Go_Prelude
begin

text \<open>
  \<open>internal/policy/policy.go\<close>: the egress allowlist patterns, their parser and printer, the
  allowlist and its decisions, and the built-in default list. \<open>ParsePattern\<close> is
  \<open>parse_pattern\<close>, \<open>Pattern.String\<close> is \<open>pattern_string\<close>, \<open>NewAllowList\<close> is
  \<open>new_allow_list\<close>, \<open>Allows\<close> is \<open>allows\<close> and \<open>HostMatches\<close> is \<open>host_matches\<close>.
  The lemmas show that every parsed pattern is well formed, that printing and parsing are
  inverse, that deduplication by the printed form changes no decision, and what a decision is.
\<close>

definition default_ports :: "int list" where "default_ports = [80, 443]"

record pattern =
  pat_host :: string
  pat_wildcard :: bool
  pat_all_ports :: bool
  pat_ports :: "int list"

datatype pattern_error =
    Entry_Empty
  | Entry_Bad_Chars string
  | Entry_Many_Ports string
  | Entry_Bad_Wildcard string
  | Entry_Bad_Port string string
  | At_Line nat pattern_error
  | At_Entry nat pattern_error
  | Line_Too_Long

text \<open>The port part of \<open>ParsePattern\<close>: all the cases of its final switch.\<close>

definition parse_port_part :: "string \<Rightarrow> string \<Rightarrow> bool \<Rightarrow> (pattern_error, bool \<times> int list) result" where
  "parse_port_part entry port_text has_port =
     (if \<not> has_port then Ok (False, default_ports)
      else if port_text = ''*'' then Ok (True, [])
      else (case atoi port_text of
              None \<Rightarrow> Err (Entry_Bad_Port port_text entry)
            | Some port \<Rightarrow> if port < 1 \<or> port > 65535 then Err (Entry_Bad_Port port_text entry)
                           else Ok (False, [port])))"

definition parse_pattern :: "string \<Rightarrow> (pattern_error, pattern) result" where
  "parse_pattern text =
     (let entry = trim_space text in
      if entry = [] then Err Entry_Empty
      else if contains_any entry [CHR ''/'', CHR ''@'', CHR '' '', tab] then Err (Entry_Bad_Chars entry)
      else (case cut entry CHR '':'' of (host0, port_text, has_port) \<Rightarrow>
        if CHR '':'' \<in> set port_text then Err (Entry_Many_Ports entry)
        else let host1 = to_lower (trim_suffix host0 ''.'');
                 wildcard = has_prefix host1 ''*.'';
                 host = (if wildcard then drop 2 host1 else host1) in
          if host = [] \<or> CHR ''*'' \<in> set host \<or> has_prefix host ''.'' \<or> has_suffix host ''.''
          then Err (Entry_Bad_Wildcard entry)
          else bind_res (parse_port_part entry port_text has_port) (\<lambda>(all_ports, ports).
            Ok \<lparr>pat_host = host, pat_wildcard = wildcard,
                pat_all_ports = all_ports, pat_ports = ports\<rparr>)))"

text \<open>
  \<open>bufio.Scanner\<close> with \<open>ScanLines\<close>: lines without their terminator and one trailing
  carriage return. It stops with an error at a line that does not fit its 64 KiB buffer.
\<close>

definition max_scan_token :: nat where "max_scan_token = 65536"

definition raw_lines :: "string \<Rightarrow> string list" where
  "raw_lines text =
     (let ls = split_on newline text in if last ls = [] then butlast ls else ls)"

definition scan_lines :: "string \<Rightarrow> string list \<times> bool" where
  "scan_lines text =
     (let ls = raw_lines text; short = (\<lambda>l. length l < max_scan_token) in
      (map (\<lambda>l. trim_suffix l [carriage_return]) (takeWhile short ls), \<not> list_all short ls))"

definition strip_comment :: "string \<Rightarrow> string" where
  "strip_comment line = trim_space (takeWhile (\<lambda>c. c \<noteq> CHR ''#'') line)"

fun parse_lines :: "nat \<Rightarrow> string list \<Rightarrow> (pattern_error, pattern list) result" where
  "parse_lines n [] = Ok []"
| "parse_lines n (l # ls) =
     (let text = strip_comment l in
      if text = [] then parse_lines (Suc n) ls
      else (case parse_pattern text of
              Inl e \<Rightarrow> Err (At_Line (Suc n) e)
            | Inr p \<Rightarrow> bind_res (parse_lines (Suc n) ls) (\<lambda>ps. Ok (p # ps))))"

definition parse_list :: "string \<Rightarrow> (pattern_error, pattern list) result" where
  "parse_list text = (case scan_lines text of (ls, too_long) \<Rightarrow>
     bind_res (parse_lines 0 ls) (\<lambda>ps. if too_long then Err Line_Too_Long else Ok ps))"

fun parse_strings_from :: "nat \<Rightarrow> string list \<Rightarrow> (pattern_error, pattern list) result" where
  "parse_strings_from i [] = Ok []"
| "parse_strings_from i (entry # entries) =
     (case parse_pattern entry of
        Inl e \<Rightarrow> Err (At_Entry (Suc i) e)
      | Inr p \<Rightarrow> bind_res (parse_strings_from (Suc i) entries) (\<lambda>ps. Ok (p # ps)))"

definition parse_strings :: "string list \<Rightarrow> (pattern_error, pattern list) result" where
  "parse_strings entries = parse_strings_from 0 entries"

definition is_default_ports :: "int list \<Rightarrow> bool" where
  "is_default_ports ports \<longleftrightarrow>
     length ports = length default_ports \<and>
     list_all (\<lambda>(p, q). p = q) (zip ports default_ports)"

definition pattern_string :: "pattern \<Rightarrow> string" where
  "pattern_string p =
     (let host = (if pat_wildcard p then ''*.'' @ pat_host p else pat_host p) in
      if pat_all_ports p then host @ '':*''
      else if length (pat_ports p) = 1 \<and> \<not> is_default_ports (pat_ports p)
      then host @ '':'' @ itoa (pat_ports p ! 0)
      else host)"

definition normalize_host :: "string \<Rightarrow> string" where
  "normalize_host host = to_lower (trim_suffix host ''.'')"

definition matches_host :: "pattern \<Rightarrow> string \<Rightarrow> bool" where
  "matches_host p host0 =
     (let host = normalize_host host0 in
      host = pat_host p \<or> (pat_wildcard p \<and> has_suffix host (''.'' @ pat_host p)))"

definition matches_port :: "pattern \<Rightarrow> int \<Rightarrow> bool" where
  "matches_port p port \<longleftrightarrow> pat_all_ports p \<or> port \<in> set (pat_ports p)"

record decision =
  allowed :: bool
  host_known :: bool
  suggested :: string

definition no_decision :: decision where
  "no_decision = \<lparr>allowed = False, host_known = False, suggested = []\<rparr>"

type_synonym allow_list = "pattern list"

definition new_allow_list :: "pattern list list \<Rightarrow> allow_list" where
  "new_allow_list groups = dedupe_by pattern_string [] (concat groups)"

definition allow_strings :: "allow_list \<Rightarrow> string list" where
  "allow_strings a = map pattern_string a"

text \<open>The loop of \<open>Allows\<close>, with the decision it has built so far.\<close>

fun allows_loop :: "decision \<Rightarrow> pattern list \<Rightarrow> string \<Rightarrow> int \<Rightarrow> decision" where
  "allows_loop d [] host port =
     (if host_known d then d\<lparr>suggested := normalize_host host @ '':'' @ itoa port\<rparr> else d)"
| "allows_loop d (p # ps) host port =
     (if \<not> matches_host p host then allows_loop d ps host port
      else if matches_port p port then \<lparr>allowed = True, host_known = True, suggested = []\<rparr>
      else allows_loop (d\<lparr>host_known := True\<rparr>) ps host port)"

definition allows :: "allow_list \<Rightarrow> string \<Rightarrow> int \<Rightarrow> decision" where
  "allows a host port = allows_loop no_decision a host port"

definition host_matches :: "allow_list \<Rightarrow> string \<Rightarrow> bool" where
  "host_matches a host = list_ex (\<lambda>p. matches_host p host) a"

definition default_floor_entries :: "string list" where
  "default_floor_entries =
     [''registry.npmjs.org'', ''registry.yarnpkg.com'', ''*.npmjs.org'', ''github.com'',
      ''*.github.com'', ''*.githubusercontent.com'', ''ghcr.io'', ''deb.debian.org'',
      ''security.debian.org'', ''pypi.org'', ''files.pythonhosted.org'', ''proxy.golang.org'',
      ''sum.golang.org'', ''crates.io'', ''static.crates.io'']"

text \<open>\<open>DefaultFloor\<close> panics when its entries do not parse: the \<open>Err\<close> case.\<close>

definition default_floor :: "(pattern_error, pattern list) result" where
  "default_floor = parse_strings default_floor_entries"

section \<open>Well-formed patterns\<close>

definition wf_ports :: "bool \<Rightarrow> int list \<Rightarrow> bool" where
  "wf_ports all_ports ports \<longleftrightarrow>
     (if all_ports then ports = []
      else ports = default_ports \<or> (\<exists>q. ports = [q] \<and> 1 \<le> q \<and> q \<le> 65535))"

definition wf_pattern :: "pattern \<Rightarrow> bool" where
  "wf_pattern p \<longleftrightarrow>
     pat_host p \<noteq> [] \<and> to_lower (pat_host p) = pat_host p \<and>
     set (pat_host p) \<inter> {CHR ''*'', CHR '':'', CHR ''/'', CHR ''@'', CHR '' '', tab} = {} \<and>
     \<not> has_prefix (pat_host p) ''.'' \<and> \<not> has_suffix (pat_host p) ''.'' \<and>
     wf_ports (pat_all_ports p) (pat_ports p)"

lemma set_trim_suffix: "set (trim_suffix s t) \<subseteq> set s"
  by (auto simp: trim_suffix_def dest: in_set_takeD)

lemma parse_port_part_wf:
  "parse_port_part entry pt hp = Ok (ap, ports) \<Longrightarrow> wf_ports ap ports"
  by (auto simp: parse_port_part_def wf_ports_def split: if_splits option.splits)

lemma cut_fst_chars: "cut s c = (a, b, f) \<Longrightarrow> set a \<subseteq> set s - {c}"
  by (auto simp: cut_def split: if_splits dest: set_takeWhileD)

lemma parse_pattern_wf:
  assumes "parse_pattern text = Ok p"
  shows "wf_pattern p"
proof -
  let ?e = "trim_space text"
  obtain h0 pt hp where c: "cut ?e CHR '':'' = (h0, pt, hp)" by (metis prod_cases3)
  let ?h1 = "to_lower (trim_suffix h0 ''.'')"
  let ?w = "has_prefix ?h1 ''*.''"
  let ?h = "if ?w then drop 2 ?h1 else ?h1"
  from assms c obtain ap ports where
      chars: "\<not> contains_any ?e [CHR ''/'', CHR ''@'', CHR '' '', tab]"
      and h: "?h \<noteq> []" "CHR ''*'' \<notin> set ?h" "\<not> has_prefix ?h ''.''" "\<not> has_suffix ?h ''.''"
      and ports: "parse_port_part ?e pt hp = Ok (ap, ports)"
      and p: "p = \<lparr>pat_host = ?h, pat_wildcard = ?w, pat_all_ports = ap, pat_ports = ports\<rparr>"
    by (auto simp: parse_pattern_def Let_def bind_res_Ok split: if_splits)
  have sub: "set (trim_suffix h0 ''.'') \<subseteq> set ?e - {CHR '':''}"
    using cut_fst_chars [OF c] set_trim_suffix by blast
  have "x \<notin> set ?h1" if "x \<in> {CHR '':'', CHR ''/'', CHR ''@'', CHR '' '', tab}" for x
    using that sub chars by (auto simp: in_to_lower contains_any_iff)
  moreover have "set ?h \<subseteq> set ?h1" by (auto dest: in_set_dropD)
  ultimately have cs: "set ?h \<inter> {CHR ''*'', CHR '':'', CHR ''/'', CHR ''@'', CHR '' '', tab} = {}"
    using h(2) by blast
  have "to_lower ?h = ?h" by (auto simp: to_lower_def drop_map comp_def)
  then show ?thesis using h cs parse_port_part_wf [OF ports]
    unfolding wf_pattern_def p by simp
qed


section \<open>Printing and parsing\<close>

definition shown_host :: "pattern \<Rightarrow> string" where
  "shown_host p = (if pat_wildcard p then ''*.'' @ pat_host p else pat_host p)"

definition shown_port :: "bool \<Rightarrow> int list \<Rightarrow> string option" where
  "shown_port all_ports ports =
     (if all_ports then Some ''*'' else if ports = default_ports then None
      else Some (itoa (hd ports)))"

lemma pattern_string_parts:
  "wf_ports (pat_all_ports p) (pat_ports p) \<Longrightarrow>
   pattern_string p = shown_host p @
     (case shown_port (pat_all_ports p) (pat_ports p) of None \<Rightarrow> [] | Some t \<Rightarrow> CHR '':'' # t)"
  by (auto simp: pattern_string_def shown_host_def shown_port_def wf_ports_def is_default_ports_def
      default_ports_def Let_def split: if_splits)

lemma shown_host_no_colon: "wf_pattern p \<Longrightarrow> CHR '':'' \<notin> set (shown_host p)"
  by (auto simp: shown_host_def wf_pattern_def)

lemma shown_host_inj:
  assumes "wf_pattern p" "wf_pattern q" "shown_host p = shown_host q"
  shows "pat_host p = pat_host q \<and> pat_wildcard p = pat_wildcard q"
proof -
  have "CHR ''*'' \<notin> set (pat_host p)" "CHR ''*'' \<notin> set (pat_host q)"
    using assms by (auto simp: wf_pattern_def)
  then show ?thesis using assms(3) unfolding shown_host_def
    by (metis append_Cons list.set_intros(1) same_append_eq)
qed

lemma itoa_not_star: "itoa i \<noteq> ''*''"
proof -
  have "CHR ''*'' \<notin> set (itoa i)" using itoa_chars [of "CHR ''*''" i] by (auto simp: is_digit_def)
  then show ?thesis by (metis list.set_intros(1))
qed

lemma shown_port_inj:
  assumes "wf_ports a1 ps1" "wf_ports a2 ps2" "shown_port a1 ps1 = shown_port a2 ps2"
  shows "a1 = a2 \<and> ps1 = ps2"
  using assms itoa_not_star [symmetric]
  by (auto simp: shown_port_def wf_ports_def default_ports_def itoa_not_star split: if_splits dest: itoa_inj)

lemma pattern_string_inj:
  assumes p: "wf_pattern p" and q: "wf_pattern q" and eq: "pattern_string p = pattern_string q"
  shows "p = q"
proof -
  define tp where "tp = shown_port (pat_all_ports p) (pat_ports p)"
  define tq where "tq = shown_port (pat_all_ports q) (pat_ports q)"
  have wp: "wf_ports (pat_all_ports p) (pat_ports p)" and wq: "wf_ports (pat_all_ports q) (pat_ports q)"
    using p q by (auto simp: wf_pattern_def)
  have cp: "cut (pattern_string p) CHR '':'' =
      (shown_host p, case tp of None \<Rightarrow> [] | Some t \<Rightarrow> t, tp \<noteq> None)"
    using shown_host_no_colon [OF p] pattern_string_parts [OF wp]
    by (cases tp) (auto simp: tp_def cut_hit)
  have cq: "cut (pattern_string q) CHR '':'' =
      (shown_host q, case tq of None \<Rightarrow> [] | Some t \<Rightarrow> t, tq \<noteq> None)"
    using shown_host_no_colon [OF q] pattern_string_parts [OF wq]
    by (cases tq) (auto simp: tq_def cut_hit)
  have "shown_host p = shown_host q" "tp = tq"
    using cp cq eq by (auto split: option.splits)
  then show ?thesis
    using shown_host_inj [OF p q] shown_port_inj [OF wp wq] by (simp add: tp_def tq_def)
qed

lemma trim_space_id: "list_all (\<lambda>c. \<not> is_space c) s \<Longrightarrow> trim_space s = s"
proof -
  assume h: "list_all (\<lambda>c. \<not> is_space c) s"
  then have "dropWhile is_space s = s" "dropWhile is_space (rev s) = rev s"
    by (metis dropWhile_eq_self_iff hd_in_set list_all_iff set_rev)+
  then show ?thesis by (simp add: trim_space_def trim_by_def trim_right_by_def)
qed

lemma itoa_no_space: "list_all (\<lambda>c. \<not> is_space c) (itoa i)"
  using itoa_chars by (fastforce simp: list_all_iff is_space_def is_digit_def)

lemma shown_port_chars:
  "shown_port a ps = Some t \<Longrightarrow> wf_ports a ps \<Longrightarrow> list_all (\<lambda>c. \<not> is_space c) t \<and>
     set t \<inter> {CHR '':'', CHR ''/'', CHR ''@'', CHR '' '', tab} = {}"
  using itoa_no_space [of "hd ps"] itoa_chars [of _ "hd ps"]
  by (fastforce simp: shown_port_def is_space_def is_digit_def split: if_splits)

lemma parse_shown_port:
  assumes "wf_ports a ps"
  shows "parse_port_part entry (case shown_port a ps of None \<Rightarrow> [] | Some t \<Rightarrow> t)
     (shown_port a ps \<noteq> None) = Ok (a, ps)"
proof -
  have rng: "1 \<le> i \<Longrightarrow> i \<le> 65535 \<Longrightarrow> atoi (itoa i) = Some i" for i
    by (rule atoi_itoa) (simp_all add: int64_min_def int64_max_def)
  show ?thesis using assms
    by (auto simp: parse_port_part_def shown_port_def wf_ports_def default_ports_def itoa_not_star rng)
qed

lemma shown_host_chars:
  assumes "wf_pattern p" "list_all (\<lambda>c. \<not> is_space c) (pat_host p)"
  shows "list_all (\<lambda>c. \<not> is_space c) (shown_host p)"
    and "set (shown_host p) \<inter> {CHR '':'', CHR ''/'', CHR ''@'', CHR '' '', tab} = {}"
    and "to_lower (trim_suffix (shown_host p) ''.'') = shown_host p"
    and "has_prefix (shown_host p) ''*.'' = pat_wildcard p"
proof -
  have low: "to_lower (shown_host p) = shown_host p"
    using assms by (auto simp: shown_host_def wf_pattern_def to_lower_def lower_char_def is_upper_def)
  have ns: "\<not> has_suffix (shown_host p) ''.''"
    using assms unfolding wf_pattern_def shown_host_def has_suffix_iff
    by (auto simp: append_eq_append_conv2 append_eq_Cons_conv Cons_eq_append_conv)
  then show "to_lower (trim_suffix (shown_host p) ''.'') = shown_host p" using low by simp
  show "list_all (\<lambda>c. \<not> is_space c) (shown_host p)"
    using assms by (auto simp: shown_host_def is_space_def)
  show "set (shown_host p) \<inter> {CHR '':'', CHR ''/'', CHR ''@'', CHR '' '', tab} = {}"
    using assms by (auto simp: shown_host_def wf_pattern_def)
  show "has_prefix (shown_host p) ''*.'' = pat_wildcard p"
    using assms by (auto simp: shown_host_def has_prefix_iff wf_pattern_def)
qed

lemma parse_pattern_string:
  assumes wf: "wf_pattern p" and ns: "list_all (\<lambda>c. \<not> is_space c) (pat_host p)"
  shows "parse_pattern (pattern_string p) = Ok p"
proof -
  define t where "t = shown_port (pat_all_ports p) (pat_ports p)"
  have wp: "wf_ports (pat_all_ports p) (pat_ports p)" using wf by (simp add: wf_pattern_def)
  have s: "pattern_string p = shown_host p @ (case t of None \<Rightarrow> [] | Some u \<Rightarrow> CHR '':'' # u)"
    using pattern_string_parts [OF wp] by (simp add: t_def)
  have tch: "t = Some u \<Longrightarrow> list_all (\<lambda>c. \<not> is_space c) u \<and>
      set u \<inter> {CHR '':'', CHR ''/'', CHR ''@'', CHR '' '', tab} = {}" for u
    using shown_port_chars [OF _ wp] by (simp add: t_def)
  note hch = shown_host_chars [OF wf ns]
  have trim: "trim_space (pattern_string p) = pattern_string p"
    using hch(1) tch by (intro trim_space_id) (auto simp: s is_space_def split: option.splits)
  have cut: "cut (pattern_string p) CHR '':'' =
      (shown_host p, case t of None \<Rightarrow> [] | Some u \<Rightarrow> u, t \<noteq> None)"
    using hch(2) by (cases t) (auto simp: s cut_hit)
  have ok: "\<not> contains_any (pattern_string p) [CHR ''/'', CHR ''@'', CHR '' '', tab]"
    using hch(2) tch by (auto simp: s contains_any_iff split: option.splits)
  have ne: "pattern_string p \<noteq> []" using wf by (auto simp: s shown_host_def wf_pattern_def)
  have many: "CHR '':'' \<notin> set (case t of None \<Rightarrow> [] | Some u \<Rightarrow> u)"
    using tch by (auto split: option.splits)
  have host: "(if pat_wildcard p then drop 2 (shown_host p) else shown_host p) = pat_host p"
    by (simp add: shown_host_def)
  show ?thesis
    unfolding parse_pattern_def Let_def trim cut prod.case hch(3) hch(4) host
    using ne ok many wf parse_shown_port [OF wp] by (simp add: wf_pattern_def t_def)
qed

section \<open>Decisions\<close>

lemma allows_loop_spec:
  "allows_loop d ps host port =
     (if \<exists>p\<in>set ps. matches_host p host \<and> matches_port p port
      then \<lparr>allowed = True, host_known = True, suggested = []\<rparr>
      else let k = (host_known d \<or> (\<exists>p\<in>set ps. matches_host p host)) in
           d\<lparr>host_known := k,
             suggested := (if k then normalize_host host @ '':'' @ itoa port else suggested d)\<rparr>)"
  by (induction d ps host port rule: allows_loop.induct) (auto simp: Let_def)

lemma allows_spec:
  "allows a host port =
     (if \<exists>p\<in>set a. matches_host p host \<and> matches_port p port
      then \<lparr>allowed = True, host_known = True, suggested = []\<rparr>
      else if \<exists>p\<in>set a. matches_host p host
      then \<lparr>allowed = False, host_known = True, suggested = normalize_host host @ '':'' @ itoa port\<rparr>
      else no_decision)"
  by (simp add: allows_def allows_loop_spec no_decision_def Let_def)

lemma allows_cong: "set a = set b \<Longrightarrow> allows a host port = allows b host port"
  by (simp add: allows_spec)

lemma host_matches_iff: "host_matches a host \<longleftrightarrow> (\<exists>p\<in>set a. matches_host p host)"
  by (simp add: host_matches_def list_ex_iff)

lemma allows_imp_host_matches: "allowed (allows a host port) \<Longrightarrow> host_matches a host"
  by (auto simp: allows_spec host_matches_iff no_decision_def split: if_splits)

lemma set_new_allow_list:
  assumes "\<forall>p\<in>set (concat groups). wf_pattern p"
  shows "set (new_allow_list groups) = set (concat groups)"
proof
  show "set (new_allow_list groups) \<subseteq> set (concat groups)"
    unfolding new_allow_list_def using set_dedupe_by by fast
  show "set (concat groups) \<subseteq> set (new_allow_list groups)"
  proof
    fix p assume p: "p \<in> set (concat groups)"
    then have "pattern_string p \<in> pattern_string ` set (new_allow_list groups)"
      unfolding new_allow_list_def by (subst keys_dedupe_by) simp
    then obtain q where q: "q \<in> set (new_allow_list groups)" "pattern_string p = pattern_string q" by auto
    then have "q \<in> set (concat groups)" unfolding new_allow_list_def using set_dedupe_by by fast
    then show "p \<in> set (new_allow_list groups)" using q p assms pattern_string_inj by metis
  qed
qed

lemma parse_lines_wf: "parse_lines n ls = Ok ps \<Longrightarrow> \<forall>p\<in>set ps. wf_pattern p"
  by (induction n ls arbitrary: ps rule: parse_lines.induct)
    (auto simp: Let_def bind_res_Ok parse_pattern_wf split: if_splits sum.splits)

lemma parse_list_wf: "parse_list text = Ok ps \<Longrightarrow> \<forall>p\<in>set ps. wf_pattern p"
  by (auto simp: parse_list_def bind_res_Ok dest: parse_lines_wf split: prod.splits if_splits)

lemma parse_strings_from_wf: "parse_strings_from i es = Ok ps \<Longrightarrow> \<forall>p\<in>set ps. wf_pattern p"
  by (induction i es arbitrary: ps rule: parse_strings_from.induct)
    (auto simp: bind_res_Ok parse_pattern_wf split: sum.splits)

lemma parse_strings_wf: "parse_strings es = Ok ps \<Longrightarrow> \<forall>p\<in>set ps. wf_pattern p"
  unfolding parse_strings_def by (rule parse_strings_from_wf)


section \<open>Properties\<close>

text \<open>A parsed allowlist entry is printed back to text that parses to the same pattern,
  whatever mix of upper case, trailing dot, wildcard, port or port wildcard the entry used, as long
  as no white space is inside the entry.\<close>

theorem pattern_print_parse:
  assumes "parse_pattern text = Ok p" and "list_all (\<lambda>c. \<not> is_space c) (pat_host p)"
  shows "parse_pattern (pattern_string p) = Ok p"
  using parse_pattern_wf [OF assms(1)] assms(2) by (rule parse_pattern_string)

theorem pattern_print_parse_witness:
  "parse_pattern '' *.GitHub.com.:443 '' =
     Ok \<lparr>pat_host = ''github.com'', pat_wildcard = True, pat_all_ports = False, pat_ports = [443]\<rparr> \<and>
   parse_pattern (pattern_string
     \<lparr>pat_host = ''github.com'', pat_wildcard = True, pat_all_ports = False, pat_ports = [443]\<rparr>) =
     Ok \<lparr>pat_host = ''github.com'', pat_wildcard = True, pat_all_ports = False, pat_ports = [443]\<rparr>"
proof -
  have 1: "parse_pattern '' *.GitHub.com.:443 '' =
     Ok \<lparr>pat_host = ''github.com'', pat_wildcard = True, pat_all_ports = False, pat_ports = [443]\<rparr>"
    by code_simp
  show ?thesis using 1 pattern_print_parse [OF 1] by (simp add: is_space_def)
qed

text \<open>C40. The decision of an allowlist that was built from parsed entries is: allowed exactly
  when some entry of some list matches the host and the port; a refusal that knows the host names
  the normalised host and the port as the suggestion; any other host is refused without a
  suggestion. The deduplication by printed form loses no entry, and the order is irrelevant.\<close>

theorem allow_list_decision:
  assumes "map_res parse_strings entries = Ok groups"
  shows "allows (new_allow_list groups) host port =
     (if \<exists>p\<in>set (concat groups). matches_host p host \<and> matches_port p port
      then \<lparr>allowed = True, host_known = True, suggested = []\<rparr>
      else if \<exists>p\<in>set (concat groups). matches_host p host
      then \<lparr>allowed = False, host_known = True, suggested = normalize_host host @ '':'' @ itoa port\<rparr>
      else \<lparr>allowed = False, host_known = False, suggested = []\<rparr>)"
proof -
  have "\<forall>g\<in>set groups. \<exists>es. parse_strings es = Ok g"
    using assms by (auto simp: map_res_Ok list_all2_conv_all_nth in_set_conv_nth) metis
  then have "\<forall>p\<in>set (concat groups). wf_pattern p" using parse_strings_wf by fastforce
  then show ?thesis using set_new_allow_list [of groups] by (simp add: allows_spec no_decision_def)
qed

definition example_entries :: "string list list" where
  "example_entries = [[''example.org:8081'', ''*.example.org''], [''*.example.org.:80'']]"

theorem allow_list_decision_witness:
  "map_res parse_strings example_entries =
     Ok [[\<lparr>pat_host = ''example.org'', pat_wildcard = False, pat_all_ports = False, pat_ports = [8081]\<rparr>,
          \<lparr>pat_host = ''example.org'', pat_wildcard = True, pat_all_ports = False, pat_ports = [80, 443]\<rparr>],
         [\<lparr>pat_host = ''example.org'', pat_wildcard = True, pat_all_ports = False, pat_ports = [80]\<rparr>]] \<and>
   allowed (allows (new_allow_list
        [[\<lparr>pat_host = ''example.org'', pat_wildcard = False, pat_all_ports = False, pat_ports = [8081]\<rparr>,
          \<lparr>pat_host = ''example.org'', pat_wildcard = True, pat_all_ports = False, pat_ports = [80, 443]\<rparr>],
         [\<lparr>pat_host = ''example.org'', pat_wildcard = True, pat_all_ports = False, pat_ports = [80]\<rparr>]])
      ''api.example.org'' 443)"
proof -
  have 1: "map_res parse_strings example_entries =
     Ok [[\<lparr>pat_host = ''example.org'', pat_wildcard = False, pat_all_ports = False, pat_ports = [8081]\<rparr>,
          \<lparr>pat_host = ''example.org'', pat_wildcard = True, pat_all_ports = False, pat_ports = [80, 443]\<rparr>],
         [\<lparr>pat_host = ''example.org'', pat_wildcard = True, pat_all_ports = False, pat_ports = [80]\<rparr>]]"
    by code_simp
  have 2: "matches_host \<lparr>pat_host = ''example.org'', pat_wildcard = True, pat_all_ports = False,
      pat_ports = [80, 443]\<rparr> ''api.example.org''"
    by code_simp
  show ?thesis using 1 2 by (simp add: allow_list_decision [OF 1] matches_port_def)
qed

text \<open>The suggestion in a refusal is an entry that would allow the refused request: it
  parses, and with it the list allows the same host and port.\<close>

theorem suggestion_admits:
  assumes refused: "\<not> allowed (allows a host port)" "host_known (allows a host port)"
    and port: "1 \<le> port" "port \<le> 65535"
    and bytes: "list_all (\<lambda>c. is_lower c \<or> is_digit c \<or> c \<in> set ''.-_'') (normalize_host host)"
    and dots: "normalize_host host \<noteq> []" "\<not> has_prefix (normalize_host host) ''.''"
      "\<not> has_suffix (normalize_host host) ''.''"
  shows "\<exists>q. parse_pattern (suggested (allows a host port)) = Ok q \<and> allowed (allows (a @ [q]) host port)"
proof -
  let ?h = "normalize_host host"
  let ?q = "\<lparr>pat_host = ?h, pat_wildcard = False, pat_all_ports = False, pat_ports = [port]\<rparr>"
  have sug: "suggested (allows a host port) = pattern_string ?q"
    using refused by (auto simp: allows_spec no_decision_def pattern_string_def is_default_ports_def
        default_ports_def split: if_splits)
  have low: "to_lower ?h = ?h" by (simp add: normalize_host_def)
  have cs: "set ?h \<inter> {CHR ''*'', CHR '':'', CHR ''/'', CHR ''@'', CHR '' '', tab} = {}"
    using bytes by (auto simp: list_all_iff is_lower_def is_digit_def)
  have ns: "list_all (\<lambda>c. \<not> is_space c) ?h"
    using bytes by (auto simp: list_all_iff is_lower_def is_digit_def is_space_def)
  have wf: "wf_pattern ?q" using low cs dots port by (simp add: wf_pattern_def wf_ports_def)
  have "parse_pattern (pattern_string ?q) = Ok ?q"
    using parse_pattern_string [OF wf] ns by simp
  moreover have "matches_host ?q host \<and> matches_port ?q port"
    by (simp add: matches_host_def matches_port_def Let_def)
  ultimately show ?thesis unfolding sug by (intro exI [of _ ?q]) (simp add: allows_spec)
qed

theorem suggestion_admits_witness:
  "\<exists>q. parse_pattern (suggested (allows
      [\<lparr>pat_host = ''example.org'', pat_wildcard = False, pat_all_ports = False, pat_ports = [80]\<rparr>]
      ''Example.org.'' 8080)) = Ok q \<and>
     allowed (allows ([\<lparr>pat_host = ''example.org'', pat_wildcard = False, pat_all_ports = False,
       pat_ports = [80]\<rparr>] @ [q]) ''Example.org.'' 8080)"
proof -
  have n: "normalize_host ''Example.org.'' = ''example.org''" by code_simp
  show ?thesis
    by (rule suggestion_admits)
      (simp_all add: allows_spec matches_host_def matches_port_def n is_lower_def is_digit_def
        has_prefix_def has_suffix_def)
qed

end
