(* ===== verification/State_Files.thy ===== *)
theory State_Files
  imports Policy Go_Path "HOL-Library.AList"
begin

text \<open>
  The disk under the state root and the shared file functions of \<open>internal/state\<close>
  (\<open>WriteFileAtomic\<close>, \<open>readJSONFile\<close>, \<open>writeJSONFile\<close>, \<open>os.MkdirAll\<close>, \<open>os.ReadDir\<close>).

  A disk maps clean absolute paths to nodes, with the modification time of each. The paths in
  \<open>dk_blocked\<close> exist but cannot be read, or are directories that cannot be written. A file is
  replaced in one step, because the code writes a temporary file and renames it. The lemmas
  say what a path looks like below a clean directory and what a write keeps.
\<close>

section \<open>Paths below a clean directory\<close>

definition clean_dir :: "string \<Rightarrow> bool" where
  "clean_dir d \<longleftrightarrow> is_abs d \<and> path_clean d = d \<and> d \<noteq> ''/''"

lemma clean_segments_plain:
  "plain a \<Longrightarrow> clean_segments rooted acc (ss @ [a]) = clean_segments rooted acc ss @ [a]"
  by (induction rooted acc ss rule: clean_segments.induct) (auto simp: plain_def)

lemma path_below:
  assumes "clean_dir d" "plain a"
  shows "path_join [d, a] = d @ ''/'' @ a" and "clean_dir (d @ ''/'' @ a)"
proof -
  have a: "CHR ''/'' \<notin> set a" "a \<noteq> []" using assms(2) by (auto simp: plain_def)
  have d: "is_abs d" "path_clean d = d" "d \<noteq> ''/''" "d \<noteq> []" using assms(1) by (auto simp: clean_dir_def is_abs_def has_prefix_def)
  have s: "path_segments (d @ ''/'' @ a) = path_segments d @ [a]"
    using d(1) a(1) clean_segments_plain [OF assms(2)]
    by (auto simp: path_segments_def split_on_concat split_on_no_sep is_abs_def has_prefix_iff simp del: split_on.simps)
  have n: "path_segments d \<noteq> []" using d(1-3) by (auto simp: path_clean_def Let_def)
  have i: "is_abs (d @ ''/'' @ a)" using d(1) by (auto simp: is_abs_def has_prefix_iff)
  have e: "CHR ''/'' # join ''/'' (path_segments d) = d" using d(1,2) by (simp add: path_clean_def Let_def)
  have "path_clean (d @ ''/'' @ a) = (CHR ''/'' # join ''/'' (path_segments d)) @ ''/'' @ a"
    using i s by (simp add: path_clean_def Let_def join_append [OF n])
  then have c: "path_clean (d @ ''/'' @ a) = d @ ''/'' @ a" by (simp only: e)
  show "path_join [d, a] = d @ ''/'' @ a" using d(4) a(2) c by (simp add: path_join_def)
  show "clean_dir (d @ ''/'' @ a)" using i c d(4) by (cases d) (auto simp: clean_dir_def)
qed

lemma path_join_nested: "path_join [d, a, b] = path_join [path_join [d, a], b]" if "clean_dir d" "plain a" "plain b"
proof -
  have n: "d \<noteq> []" "a \<noteq> []" "b \<noteq> []" using that by (auto simp: clean_dir_def plain_def is_abs_def has_prefix_def)
  have "path_join [d, a, b] = path_clean (join ''/'' [d @ ''/'' @ a, b])" using n by (simp add: path_join_def)
  also have "\<dots> = path_join [d @ ''/'' @ a, b]" using n by (simp add: path_join_def)
  finally show ?thesis using path_below(1) [OF that(1,2)] by simp
qed

section \<open>The disk\<close>

datatype state_node = SDir (node_time: int) | SFile (node_data: string) (node_time: int)

record disk =
  dk_nodes :: "(string \<times> state_node) list"
  dk_blocked :: "string list"

datatype state_error =
    NotExist
  | CannotRead string
  | CannotStat string
  | CannotCreate string
  | CannotWrite string
  | CannotReplace string
  | CannotRemove string
  | BadList string pattern_error
  | BadJson string
  | NotAProjectId string
  | UnknownProject string
  | UnjailableRoot
  | UnjailableHome string
  | CannotResolve string
  | NotProjectState string
  | NotInProjects string
  | TrustMissing string
  | TrustInvalid string string

definition node_at :: "disk \<Rightarrow> string \<Rightarrow> state_node option" where
  "node_at d path = map_of (dk_nodes d) path"

text \<open>\<open>os.Stat\<close>, and \<open>os.ReadFile\<close>: a directory cannot be read as a file.\<close>

definition stat_file :: "disk \<Rightarrow> string \<Rightarrow> (state_error, state_node) result" where
  "stat_file d path = (case node_at d path of None \<Rightarrow> Err NotExist
     | Some n \<Rightarrow> if path \<in> set (dk_blocked d) then Err (CannotStat path) else Ok n)"

definition read_file :: "disk \<Rightarrow> string \<Rightarrow> (state_error, string) result" where
  "read_file d path = (case node_at d path of None \<Rightarrow> Err NotExist
     | Some (SDir _) \<Rightarrow> Err (CannotRead path)
     | Some (SFile data _) \<Rightarrow> if path \<in> set (dk_blocked d) then Err (CannotRead path) else Ok data)"

text \<open>The name of a direct child of a directory.\<close>

definition child_of :: "string \<Rightarrow> string \<Rightarrow> string option" where
  "child_of dir path =
     (let name = drop (length dir + 1) path
      in if has_prefix path (dir @ ''/'') \<and> name \<noteq> [] \<and> CHR ''/'' \<notin> set name then Some name else None)"

text \<open>\<open>os.ReadDir\<close>: the names of a directory in order.\<close>

definition read_dir :: "disk \<Rightarrow> string \<Rightarrow> (state_error, string list) result" where
  "read_dir d dir = (case node_at d dir of None \<Rightarrow> Err NotExist
     | Some (SFile _ _) \<Rightarrow> Err (CannotRead dir)
     | Some (SDir _) \<Rightarrow> if dir \<in> set (dk_blocked d) then Err (CannotRead dir)
         else Ok (sort (remdups (List.map_filter (child_of dir \<circ> fst) (dk_nodes d)))))"

definition is_dir :: "disk \<Rightarrow> string \<Rightarrow> bool" where
  "is_dir d path = (case node_at d path of Some (SDir _) \<Rightarrow> path \<notin> set (dk_blocked d) | _ \<Rightarrow> False)"

definition put_node :: "string \<Rightarrow> state_node \<Rightarrow> disk \<Rightarrow> disk" where
  "put_node path n d = d\<lparr>dk_nodes := AList.update path n (dk_nodes d)\<rparr>"

text \<open>\<open>os.MkdirAll\<close>: the missing directories of a path, from the top.\<close>

definition path_starts :: "string \<Rightarrow> string list" where
  "path_starts path =
     (let segments = split_on CHR ''/'' path
      in map (\<lambda>k. join ''/'' (take k segments)) [2..<Suc (length segments)])"

fun make_each :: "string list \<Rightarrow> int \<Rightarrow> disk \<Rightarrow> disk option" where
  "make_each [] now d = Some d"
| "make_each (p # ps) now d = (case node_at d p of
       Some (SDir _) \<Rightarrow> make_each ps now d
     | Some (SFile _ _) \<Rightarrow> None
     | None \<Rightarrow> if path_dir p \<in> set (dk_blocked d) then None else make_each ps now (put_node p (SDir now) d))"

definition make_directory :: "string \<Rightarrow> int \<Rightarrow> disk \<Rightarrow> (state_error, disk) result" where
  "make_directory path now d = (case make_each (path_starts path) now d of
     None \<Rightarrow> Err (CannotCreate path) | Some d' \<Rightarrow> Ok d')"

fun make_directories :: "string list \<Rightarrow> int \<Rightarrow> disk \<Rightarrow> (state_error, disk) result" where
  "make_directories [] now d = Ok d"
| "make_directories (p # ps) now d = bind_res (make_directory p now d) (make_directories ps now)"

text \<open>\<open>os.RemoveAll\<close> and \<open>os.Remove\<close>.\<close>

definition at_or_under :: "string \<Rightarrow> string \<Rightarrow> bool" where
  "at_or_under dir path \<longleftrightarrow> path = dir \<or> has_prefix path (dir @ ''/'')"

definition remove_all :: "string \<Rightarrow> disk \<Rightarrow> (state_error, disk) result" where
  "remove_all dir d =
     (if list_ex (at_or_under dir) (filter (\<lambda>p. p \<in> fst ` set (dk_nodes d)) (dk_blocked d)) then Err (CannotRemove dir)
      else Ok (d\<lparr>dk_nodes := filter (\<lambda>(p, _). \<not> at_or_under dir p) (dk_nodes d)\<rparr>))"

definition remove_file :: "string \<Rightarrow> disk \<Rightarrow> (state_error, disk) result" where
  "remove_file path d = (case node_at d path of None \<Rightarrow> Err NotExist
     | Some _ \<Rightarrow> if path_dir path \<in> set (dk_blocked d) then Err (CannotRemove path)
         else Ok (d\<lparr>dk_nodes := AList.delete path (dk_nodes d)\<rparr>))"

text \<open>
  \<open>WriteFileAtomic\<close>: the temporary file needs a directory that can be written, and the rename
  does not replace a directory.
\<close>

definition write_file_atomic :: "string \<Rightarrow> string \<Rightarrow> int \<Rightarrow> disk \<Rightarrow> (state_error, disk) result" where
  "write_file_atomic path data now d =
     (if \<not> is_dir d (path_dir path) then Err (CannotWrite path)
      else case node_at d path of Some (SDir _) \<Rightarrow> Err (CannotReplace path)
           | _ \<Rightarrow> Ok (put_node path (SFile data now) d))"

definition read_json_file :: "(string \<Rightarrow> 'a option) \<Rightarrow> disk \<Rightarrow> string \<Rightarrow> (state_error, 'a option) result" where
  "read_json_file decode d path = (case read_file d path of
       Err NotExist \<Rightarrow> Ok None
     | Err e \<Rightarrow> Err e
     | Ok data \<Rightarrow> (case decode data of None \<Rightarrow> Err (BadJson path) | Some x \<Rightarrow> Ok (Some x)))"

definition write_json_file :: "('a \<Rightarrow> string) \<Rightarrow> string \<Rightarrow> 'a \<Rightarrow> int \<Rightarrow> disk \<Rightarrow> (state_error, disk) result" where
  "write_json_file encode path x now d = write_file_atomic path (encode x @ [newline]) now d"

section \<open>What a write keeps\<close>

lemma write_atomic_Ok:
  assumes "write_file_atomic path data now d = Ok d'"
  shows "d' = put_node path (SFile data now) d"
  using assms by (auto simp: write_file_atomic_def split: if_splits option.splits state_node.splits)

lemma node_put: "node_at (put_node path n d) p = (if p = path then Some n else node_at d p)"
  by (simp add: node_at_def put_node_def update_conv')

lemma blocked_put [simp]: "dk_blocked (put_node path n d) = dk_blocked d"
  by (simp add: put_node_def)

lemma read_written:
  assumes "write_file_atomic path data now d = Ok d'" "path \<notin> set (dk_blocked d)"
  shows "read_file d' path = Ok data"
  using assms write_atomic_Ok [OF assms(1)] by (simp add: read_file_def node_put)

lemma read_other:
  assumes "write_file_atomic path data now d = Ok d'" "p \<noteq> path"
  shows "read_file d' p = read_file d p" "stat_file d' p = stat_file d p"
  using write_atomic_Ok [OF assms(1)] assms(2) by (simp_all add: read_file_def stat_file_def node_put split: option.splits state_node.splits)

lemma child_of_iff: "child_of dir path = Some name \<longleftrightarrow> path = dir @ ''/'' @ name \<and> name \<noteq> [] \<and> CHR ''/'' \<notin> set name"
  by (auto simp: child_of_def has_prefix_iff Let_def)

lemma read_dir_iff:
  assumes "read_dir d dir = Ok names"
  shows "name \<in> set names \<longleftrightarrow> (\<exists>n. (dir @ ''/'' @ name, n) \<in> set (dk_nodes d)) \<and> name \<noteq> [] \<and> CHR ''/'' \<notin> set name"
proof -
  have "names = sort (remdups (List.map_filter (child_of dir \<circ> fst) (dk_nodes d)))"
    using assms by (auto simp: read_dir_def split: option.splits state_node.splits if_splits)
  then have "name \<in> set names \<longleftrightarrow> (\<exists>x\<in>set (dk_nodes d). child_of dir (fst x) = Some name)"
    by (force simp: List.map_filter_def)
  then show ?thesis by (force simp: child_of_iff)
qed

lemma read_dir_sorted: "read_dir d dir = Ok names \<Longrightarrow> sorted names \<and> distinct names"
  by (auto simp: read_dir_def split: option.splits state_node.splits if_splits)

end
