(* ===== verification/State_Root.thy ===== *)
theory State_Root
  imports State_Files
begin

text \<open>
  \<open>internal/state\<close>: the state root and its projects (\<open>state.go\<close>, \<open>project.go\<close>,
  \<open>record.go\<close>), the token table (\<open>token.go\<close>) and the trust records (\<open>trust.go\<close>).

  Each method is a definition over the disk; a write takes the current time. SHA-256, the
  random bytes of a token, \<open>filepath.EvalSymlinks\<close>, the home directory and the JSON text of
  the records are parameters. The lemmas show what the root and project paths are, that
  project identifiers are recognised exactly, and that what is written is read back.
\<close>

section \<open>Records\<close>

record box_shape =
  bx_image :: string
  bx_cpus :: int
  bx_memory :: string
  bx_sudo :: bool
  bx_network :: string
  bx_shadow :: "string list"
  bx_ports :: "(int \<times> int) list"
  bx_inmates :: "string list"

record project_record =
  pr_path :: string
  pr_created :: int
  pr_trusted_config :: string
  pr_port_block :: int
  pr_setup_signature :: string
  pr_box :: "box_shape option"

record credential_spec =
  cs_variable :: string
  cs_header :: string
  cs_prefix :: string

record inmate_route =
  ir_name :: string
  ir_upstream :: string
  ir_path_prefix :: string
  ir_credentials :: "credential_spec list"

record profile =
  pf_inmates :: "inmate_route list"
  pf_egress :: "string list"
  pf_written :: int

record trust_record =
  tr_hash :: string
  tr_origin_url :: string
  tr_origin_ref :: string

text \<open>The JSON forms of the records: a decoder and an encoder for each.\<close>

record json_forms =
  jf_record :: "string \<Rightarrow> project_record option"
  jf_record_text :: "project_record \<Rightarrow> string"
  jf_profile :: "string \<Rightarrow> profile option"
  jf_profile_text :: "profile \<Rightarrow> string"
  jf_trust :: "string \<Rightarrow> trust_record option"
  jf_trust_text :: "trust_record \<Rightarrow> string"

section \<open>The root\<close>

record root =
  root_path :: string

definition isolator_dir :: "root \<Rightarrow> string" where "isolator_dir r = path_join [root_path r, ''isolator'']"
definition config_file :: "root \<Rightarrow> string" where "config_file r = path_join [root_path r, ''config.toml'']"
definition floor_file :: "root \<Rightarrow> string" where "floor_file r = path_join [root_path r, ''egress-allow'']"
definition root_vault_file :: "root \<Rightarrow> string" where "root_vault_file r = path_join [root_path r, ''secrets.vault'']"
definition broker_socket :: "root \<Rightarrow> string" where "broker_socket r = path_join [root_path r, ''broker.sock'']"
definition broker_log :: "root \<Rightarrow> string" where "broker_log r = path_join [root_path r, ''broker.log'']"
definition broker_pid_file :: "root \<Rightarrow> string" where "broker_pid_file r = path_join [root_path r, ''broker.pid'']"
definition inmates_dir :: "root \<Rightarrow> string" where "inmates_dir r = path_join [root_path r, ''inmates'']"
definition trust_dir :: "root \<Rightarrow> string" where "trust_dir r = path_join [root_path r, ''trust'']"
definition projects_dir :: "root \<Rightarrow> string" where "projects_dir r = path_join [root_path r, ''projects'']"

text \<open>\<open>OpenRoot\<close>, with the current directory.\<close>

definition open_root :: "string \<Rightarrow> string \<Rightarrow> int \<Rightarrow> disk \<Rightarrow> (state_error, root \<times> disk) result" where
  "open_root cwd path now d =
     (let absolute = (if is_abs path then path_clean path else path_join [cwd, path]);
          r = \<lparr>root_path = path_clean absolute\<rparr>
      in bind_res (make_directories [root_path r, projects_dir r, inmates_dir r, trust_dir r] now d) (\<lambda>d'. Ok (r, d')))"

definition read_allow_file :: "disk \<Rightarrow> string \<Rightarrow> (state_error, pattern list) result" where
  "read_allow_file d path = (case read_file d path of
       Err NotExist \<Rightarrow> Ok []
     | Err e \<Rightarrow> Err (CannotRead path)
     | Ok data \<Rightarrow> (case parse_list data of Inl e \<Rightarrow> Err (BadList path e) | Inr ps \<Rightarrow> Ok ps))"

definition floor_allow_list :: "root \<Rightarrow> disk \<Rightarrow> (state_error, pattern list) result" where
  "floor_allow_list r d = bind_res (read_allow_file d (floor_file r)) (\<lambda>ps. if ps = [] then Ok [] else Ok ps)"

section \<open>Project identifiers\<close>

definition project_id_length :: nat where "project_id_length = 12"
definition slug_length :: nat where "slug_length = 40"

definition hex_byte :: "char \<Rightarrow> bool" where
  "hex_byte c \<longleftrightarrow> is_digit c \<or> (97 \<le> (of_char c :: nat) \<and> (of_char c :: nat) \<le> 102)"

definition is_project_id :: "string \<Rightarrow> bool" where
  "is_project_id text \<longleftrightarrow> length text = project_id_length \<and> list_all hex_byte text"

definition hex_char :: "nat \<Rightarrow> char" where
  "hex_char n = (if n < 10 then char_of (48 + n) else char_of (87 + n))"

text \<open>\<open>hex.EncodeToString\<close>.\<close>

definition hex_encode :: "string \<Rightarrow> string" where
  "hex_encode bytes = concat (map (\<lambda>c. [hex_char (of_char c div 16), hex_char (of_char c mod 16)]) bytes)"

text \<open>\<open>ProjectID\<close> over SHA-256.\<close>

definition project_id :: "(string \<Rightarrow> string) \<Rightarrow> string \<Rightarrow> string" where
  "project_id sha real_path = take project_id_length (hex_encode (sha real_path))"

definition slug_char :: "char \<Rightarrow> char" where
  "slug_char c = (if is_upper c then lower_char c else if is_lower c \<or> is_digit c then c else CHR ''-'')"

definition slug :: "string \<Rightarrow> string" where
  "slug real_path = trim_by (\<lambda>c. c = CHR ''-'') (take slug_length (map slug_char (path_base real_path)))"

definition new_token :: "string \<Rightarrow> string" where
  "new_token random = hex_encode (take 32 random)"

section \<open>Projects\<close>

record project =
  prj_id :: string
  prj_dir :: string
  prj_root :: root
  prj_directory_path :: string

definition homes_dir :: "project \<Rightarrow> string" where "homes_dir p = path_join [prj_dir p, ''homes'']"
definition home_dir :: "project \<Rightarrow> string \<Rightarrow> string" where "home_dir p inmate = path_join [homes_dir p, inmate]"
definition shadow_dir :: "project \<Rightarrow> string \<Rightarrow> string" where
  "shadow_dir p relative_path = path_join [prj_dir p, ''shadow'', replace_char CHR ''/'' CHR ''_'' relative_path]"
definition empty_dir :: "project \<Rightarrow> string" where "empty_dir p = path_join [prj_dir p, ''empty'']"
definition checkpoints_dir :: "project \<Rightarrow> string" where "checkpoints_dir p = path_join [prj_dir p, ''checkpoints'']"
definition record_file :: "project \<Rightarrow> string" where "record_file p = path_join [prj_dir p, ''project.json'']"
definition token_file :: "project \<Rightarrow> string" where "token_file p = path_join [prj_dir p, ''token'']"
definition grants_file :: "project \<Rightarrow> string" where "grants_file p = path_join [prj_dir p, ''grants'']"
definition egress_file :: "project \<Rightarrow> string" where "egress_file p = path_join [prj_dir p, ''egress-allow'']"
definition profile_file :: "project \<Rightarrow> string" where "profile_file p = path_join [prj_dir p, ''profile.json'']"
definition trusted_config_copy :: "project \<Rightarrow> string" where "trusted_config_copy p = path_join [prj_dir p, ''config-trusted.toml'']"

text \<open>
  \<open>filepath.EvalSymlinks\<close> and \<open>os.UserHomeDir\<close> are given as functions of the environment.
\<close>

record host =
  h_resolve :: "string \<Rightarrow> string option"
  h_home :: "string option"
  h_sha :: "string \<Rightarrow> string"

definition home_directory_forms :: "host \<Rightarrow> string list" where
  "home_directory_forms h = (case h_home h of None \<Rightarrow> []
     | Some home0 \<Rightarrow> if home0 = [] then []
         else let home = path_clean home0
              in home # (case h_resolve h home of None \<Rightarrow> []
                   | Some resolved \<Rightarrow> if path_clean resolved \<noteq> home then [path_clean resolved] else []))"

definition refuse_unjailable_path :: "host \<Rightarrow> string \<Rightarrow> (state_error, unit) result" where
  "refuse_unjailable_path h real_path =
     (if real_path = ''/'' then Err UnjailableRoot
      else if list_ex (\<lambda>home. home \<noteq> [] \<and> real_path = home) (home_directory_forms h) then Err (UnjailableHome real_path)
      else Ok ())"

definition open_project :: "host \<Rightarrow> root \<Rightarrow> string \<Rightarrow> int \<Rightarrow> disk \<Rightarrow> (state_error, project \<times> disk) result" where
  "open_project h r project_directory now d =
     (case h_resolve h project_directory of None \<Rightarrow> Err (CannotResolve project_directory)
      | Some resolved \<Rightarrow>
          let real_path = path_clean resolved in
          bind_res (refuse_unjailable_path h real_path) (\<lambda>_.
            let identifier = project_id (h_sha h) real_path;
                p = \<lparr>prj_id = identifier, prj_dir = path_join [projects_dir r, identifier], prj_root = r,
                     prj_directory_path = real_path\<rparr>
            in bind_res (make_directories [prj_dir p, homes_dir p, path_join [prj_dir p, ''shadow''], empty_dir p, checkpoints_dir p] now d)
                 (\<lambda>d'. Ok (p, d'))))"

definition known_project :: "root \<Rightarrow> string \<Rightarrow> project" where
  "known_project r identifier =
     \<lparr>prj_id = identifier, prj_dir = path_join [projects_dir r, identifier], prj_root = r, prj_directory_path = []\<rparr>"

definition project_by_id :: "root \<Rightarrow> string \<Rightarrow> disk \<Rightarrow> (state_error, project) result" where
  "project_by_id r identifier d =
     (if \<not> is_project_id identifier then Err (NotAProjectId identifier)
      else if \<not> is_dir d (path_join [projects_dir r, identifier]) then Err (UnknownProject identifier)
      else Ok (known_project r identifier))"

definition entry_is_dir :: "disk \<Rightarrow> string \<Rightarrow> string \<Rightarrow> bool" where
  "entry_is_dir d dir name = (case node_at d (dir @ ''/'' @ name) of Some (SDir _) \<Rightarrow> True | _ \<Rightarrow> False)"

definition list_projects :: "root \<Rightarrow> disk \<Rightarrow> (state_error, project list) result" where
  "list_projects r d = (case read_dir d (projects_dir r) of
       Err NotExist \<Rightarrow> Ok []
     | Err e \<Rightarrow> Err (CannotRead (projects_dir r))
     | Ok names \<Rightarrow> Ok (map (known_project r) (filter (\<lambda>name. entry_is_dir d (projects_dir r) name \<and> is_project_id name) names)))"

definition legacy_layout_detected :: "root \<Rightarrow> disk \<Rightarrow> bool" where
  "legacy_layout_detected r d \<longleftrightarrow>
     is_ok (stat_file d (path_join [root_path r, ''auth-routes.json''])) \<or>
     (case read_dir d (root_path r) of Err e \<Rightarrow> False
      | Ok names \<Rightarrow> list_ex (\<lambda>name. entry_is_dir d (root_path r) name \<and> is_project_id name) names)"

section \<open>The files of a project\<close>

definition load_record :: "json_forms \<Rightarrow> project \<Rightarrow> disk \<Rightarrow> (state_error, project_record option) result" where
  "load_record js p d = read_json_file (jf_record js) d (record_file p)"

definition save_record :: "json_forms \<Rightarrow> project \<Rightarrow> project_record \<Rightarrow> int \<Rightarrow> disk \<Rightarrow> (state_error, disk) result" where
  "save_record js p rec now d = write_json_file (jf_record_text js) (record_file p) rec now d"

definition box_name :: "json_forms \<Rightarrow> project \<Rightarrow> string \<Rightarrow> disk \<Rightarrow> string" where
  "box_name js p domain d =
     (let path = (case load_record js p d of Ok (Some rec) \<Rightarrow> if pr_path rec \<noteq> [] then pr_path rec else prj_directory_path p
                  | _ \<Rightarrow> prj_directory_path p);
          name = slug path
      in (if name = [] then ''project'' else name) @ ''-'' @ prj_id p @ ''.'' @ domain)"

definition token_if_present :: "project \<Rightarrow> disk \<Rightarrow> (state_error, string option) result" where
  "token_if_present p d = (case read_file d (token_file p) of
       Err NotExist \<Rightarrow> Ok None
     | Err e \<Rightarrow> Err (CannotRead (token_file p))
     | Ok data \<Rightarrow> if trim_space data = [] then Ok None else Ok (Some (trim_space data)))"

definition project_token :: "string \<Rightarrow> int \<Rightarrow> project \<Rightarrow> disk \<Rightarrow> (state_error, string \<times> disk) result" where
  "project_token random now p d =
     bind_res (token_if_present p d) (\<lambda>found. case found of
         Some token \<Rightarrow> Ok (token, d)
       | None \<Rightarrow> (let token = new_token random
                  in bind_res (write_file_atomic (token_file p) (token @ [newline]) now d) (\<lambda>d'. Ok (token, d'))))"

definition project_grants :: "project \<Rightarrow> disk \<Rightarrow> (state_error, string list) result" where
  "project_grants p d = (case read_file d (grants_file p) of
       Err NotExist \<Rightarrow> Ok []
     | Err e \<Rightarrow> Err (CannotRead (grants_file p))
     | Ok data \<Rightarrow> (case scan_lines data of (ls, too_long) \<Rightarrow>
         if too_long then Err (CannotRead (grants_file p))
         else Ok (filter (\<lambda>line. \<not> (line = [] \<or> has_prefix line ''#'')) (map trim_space ls))))"

definition set_grants :: "project \<Rightarrow> string list \<Rightarrow> int \<Rightarrow> disk \<Rightarrow> (state_error, disk) result" where
  "set_grants p names now d = write_file_atomic (grants_file p) (concat (map (\<lambda>name. name @ [newline]) names)) now d"

definition egress_allow :: "project \<Rightarrow> disk \<Rightarrow> (state_error, pattern list) result" where
  "egress_allow p d = read_allow_file d (egress_file p)"

definition load_profile :: "json_forms \<Rightarrow> project \<Rightarrow> disk \<Rightarrow> (state_error, profile option) result" where
  "load_profile js p d = read_json_file (jf_profile js) d (profile_file p)"

definition save_profile :: "json_forms \<Rightarrow> project \<Rightarrow> profile \<Rightarrow> int \<Rightarrow> disk \<Rightarrow> (state_error, disk) result" where
  "save_profile js p pf now d = write_json_file (jf_profile_text js) (profile_file p) pf now d"

text \<open>\<open>Size\<close> skips what it cannot look at.\<close>

definition project_size :: "project \<Rightarrow> disk \<Rightarrow> int" where
  "project_size p d = sum_list (map (\<lambda>(path, n). case n of
       SFile data _ \<Rightarrow> if at_or_under (prj_dir p) path \<and> path \<notin> set (dk_blocked d) then int (length data) else 0
     | SDir _ \<Rightarrow> 0) (dk_nodes d))"

definition remove_project :: "project \<Rightarrow> disk \<Rightarrow> (state_error, disk) result" where
  "remove_project p d =
     (if \<not> is_project_id (prj_id p) then Err (NotProjectState (prj_dir p))
      else if path_dir (prj_dir p) \<noteq> projects_dir (prj_root p) \<or> path_base (prj_dir p) \<noteq> prj_id p then Err (NotInProjects (prj_dir p))
      else remove_all (prj_dir p) d)"

definition changing_files :: "string list" where
  "changing_files = [''token'', ''grants'', ''egress-allow'', ''profile.json'']"

fun times_of :: "string \<Rightarrow> disk \<Rightarrow> string list \<Rightarrow> (state_error, (string \<times> int) list) result" where
  "times_of dir d [] = Ok []"
| "times_of dir d (name # names) =
     (let path = path_join [dir, name] in
      case stat_file d path of
        Err NotExist \<Rightarrow> times_of dir d names
      | Err e \<Rightarrow> Err (CannotStat path)
      | Ok n \<Rightarrow> bind_res (times_of dir d names) (\<lambda>ts. Ok ((name, node_time n) # ts)))"

definition mod_times :: "project \<Rightarrow> disk \<Rightarrow> (state_error, (string \<times> int) list) result" where
  "mod_times p d = times_of (prj_dir p) d changing_files"

section \<open>The broker process, port blocks and tokens\<close>

definition claimed_port_blocks :: "json_forms \<Rightarrow> root \<Rightarrow> disk \<Rightarrow> (state_error, (string \<times> int) list) result" where
  "claimed_port_blocks js r d =
     bind_res (list_projects r d) (\<lambda>projects.
     bind_res (map_res (\<lambda>p. bind_res (load_record js p d) (\<lambda>rec. Ok (p, rec))) projects) (\<lambda>loaded.
       Ok (List.map_filter (\<lambda>(p, rec). case rec of None \<Rightarrow> None
             | Some x \<Rightarrow> if pr_port_block x = 0 then None else Some (prj_id p, pr_port_block x)) loaded)))"

definition broker_pid :: "root \<Rightarrow> disk \<Rightarrow> int option" where
  "broker_pid r d = (case read_file d (broker_pid_file r) of Err e \<Rightarrow> None
     | Ok data \<Rightarrow> (case atoi (trim_space data) of None \<Rightarrow> None | Some pid \<Rightarrow> if pid \<le> 0 then None else Some pid))"

definition save_broker_pid :: "root \<Rightarrow> int \<Rightarrow> int \<Rightarrow> disk \<Rightarrow> (state_error, disk) result" where
  "save_broker_pid r pid now d = write_file_atomic (broker_pid_file r) (itoa pid @ [newline]) now d"

type_synonym token_entries = "(string \<times> string) list"

fun token_entries_of :: "project list \<Rightarrow> disk \<Rightarrow> (state_error, token_entries) result" where
  "token_entries_of [] d = Ok []"
| "token_entries_of (p # ps) d =
     bind_res (token_if_present p d) (\<lambda>found. bind_res (token_entries_of ps d) (\<lambda>es.
       Ok (case found of None \<Rightarrow> es | Some token \<Rightarrow> (prj_id p, token) # es)))"

definition token_table :: "root \<Rightarrow> disk \<Rightarrow> (state_error, token_entries) result" where
  "token_table r d = bind_res (list_projects r d) (\<lambda>projects. token_entries_of projects d)"

text \<open>The walk of \<open>Lookup\<close> does not stop at a match, so the last one counts.\<close>

fun lookup_loop :: "string \<Rightarrow> token_entries \<Rightarrow> string option \<Rightarrow> string option" where
  "lookup_loop candidate [] found = found"
| "lookup_loop candidate ((identifier, token) # es) found =
     lookup_loop candidate es (if candidate = token then Some identifier else found)"

definition token_lookup :: "token_entries \<Rightarrow> string \<Rightarrow> string option" where
  "token_lookup es token = lookup_loop token es None"

section \<open>Trust records\<close>

definition check_trust_component :: "string \<Rightarrow> string \<Rightarrow> (state_error, unit) result" where
  "check_trust_component label given =
     (if given = [] then Err (TrustMissing label)
      else if contains_any given [CHR ''/'', backslash] \<or> has_prefix given ''.'' then Err (TrustInvalid label given)
      else Ok ())"

definition trust_record_file :: "root \<Rightarrow> string \<Rightarrow> string \<Rightarrow> (state_error, string) result" where
  "trust_record_file r kind name =
     bind_res (check_trust_component ''kind'' kind) (\<lambda>_.
     bind_res (check_trust_component ''name'' name) (\<lambda>_.
       Ok (path_join [trust_dir r, kind @ ''s'', name @ ''.json''])))"

definition load_trust_record :: "json_forms \<Rightarrow> root \<Rightarrow> string \<Rightarrow> string \<Rightarrow> disk \<Rightarrow> (state_error, trust_record option) result" where
  "load_trust_record js r kind name d =
     bind_res (trust_record_file r kind name) (\<lambda>path. read_json_file (jf_trust js) d path)"

definition save_trust_record ::
  "json_forms \<Rightarrow> root \<Rightarrow> string \<Rightarrow> string \<Rightarrow> trust_record \<Rightarrow> int \<Rightarrow> disk \<Rightarrow> (state_error, disk) result" where
  "save_trust_record js r kind name rec now d =
     bind_res (trust_record_file r kind name) (\<lambda>path.
     bind_res (make_directory (path_dir path) now d) (\<lambda>d'.
       write_json_file (jf_trust_text js) path rec now d'))"

definition delete_trust_record :: "root \<Rightarrow> string \<Rightarrow> string \<Rightarrow> disk \<Rightarrow> (state_error, disk) result" where
  "delete_trust_record r kind name d =
     bind_res (trust_record_file r kind name) (\<lambda>path.
       case remove_file path d of Err NotExist \<Rightarrow> Ok d | Err e \<Rightarrow> Err (CannotRemove path) | Ok d' \<Rightarrow> Ok d')"

section \<open>Hexadecimal texts and identifiers\<close>

lemma hex_char_byte: "n < 16 \<Longrightarrow> hex_byte (hex_char n)"
  by (auto simp: hex_byte_def hex_char_def is_digit_def of_char_of)

lemma hex_encode_bytes: "list_all hex_byte (hex_encode bytes)"
proof -
  have "(of_char c :: nat) div 16 < 16" for c :: char using nat_of_char_less_256 [of c] by (simp add: less_mult_imp_div_less)
  then show ?thesis by (induction bytes) (auto simp: hex_encode_def hex_char_byte)
qed

lemma hex_encode_length: "length (hex_encode bytes) = 2 * length bytes"
  by (induction bytes) (auto simp: hex_encode_def)

lemma project_id_recognised: "6 \<le> length (sha path) \<Longrightarrow> is_project_id (project_id sha path)"
  using hex_encode_bytes [of "sha path"] hex_encode_length [of "sha path"]
  by (auto simp: is_project_id_def project_id_def project_id_length_def list_all_iff dest: in_set_takeD)

lemma hex_byte_plain: "hex_byte c \<Longrightarrow> c \<noteq> CHR ''/'' \<and> c \<noteq> CHR ''.'' \<and> \<not> is_space c"
  by (auto simp: hex_byte_def is_digit_def is_space_def)

lemma project_id_plain: "is_project_id i \<Longrightarrow> plain i"
proof -
  assume i: "is_project_id i"
  then have n: "i \<noteq> []" by (auto simp: is_project_id_def project_id_length_def)
  have "CHR ''/'' \<notin> set i" "CHR ''.'' \<notin> set i"
    using i hex_byte_plain by (metis is_project_id_def list_all_iff)+
  then show "plain i" using n by (auto simp: plain_def)
qed

section \<open>What is written is read back\<close>

definition grant_name :: "string \<Rightarrow> bool" where
  "grant_name n \<longleftrightarrow> n \<noteq> [] \<and> \<not> is_space (hd n) \<and> \<not> is_space (last n) \<and> newline \<notin> set n \<and>
     \<not> has_prefix n ''#'' \<and> length n < max_scan_token"

lemma split_terminated: "\<forall>n\<in>set names. c \<notin> set n \<Longrightarrow> split_on c (concat (map (\<lambda>n. n @ [c]) names)) = names @ [[]]"
  by (induction names) (auto simp: split_on_append)

lemma grant_name_kept:
  assumes "grant_name n"
  shows "trim_suffix n [carriage_return] = n" "trim_space n = n"
proof -
  have "n \<noteq> []" "\<not> is_space (last n)" using assms by (auto simp: grant_name_def)
  then have "last n \<noteq> carriage_return" by (auto simp: is_space_def)
  then have "\<not> has_suffix n [carriage_return]" by (auto simp: has_suffix_iff)
  then show "trim_suffix n [carriage_return] = n" by simp
  show "trim_space n = n" using assms trim_plain by (auto simp: grant_name_def)
qed

lemma scan_grants:
  assumes "\<forall>n\<in>set names. grant_name n"
  shows "scan_lines (concat (map (\<lambda>n. n @ [newline]) names)) = (names, False)"
proof -
  have r: "raw_lines (concat (map (\<lambda>n. n @ [newline]) names)) = names"
    using split_terminated [of names newline] assms by (simp add: raw_lines_def grant_name_def)
  have s: "\<forall>n\<in>set names. length n < max_scan_token" using assms by (auto simp: grant_name_def)
  have "map (\<lambda>l. trim_suffix l [carriage_return]) names = names"
    using assms grant_name_kept(1) by (simp add: map_idI)
  then show ?thesis using s by (simp add: scan_lines_def r Let_def list_all_iff takeWhile_eq_all_conv [THEN iffD2, OF s])
qed

text \<open>What is granted is what is read. After the names of secrets have been written as the
  grants of a project, they are read back in order, and no other file of the disk has changed.\<close>

theorem grants_round_trip:
  assumes "set_grants p names now d = Ok d'" "grants_file p \<notin> set (dk_blocked d)" "\<forall>n\<in>set names. grant_name n"
  shows "project_grants p d' = Ok names \<and> (q \<noteq> grants_file p \<longrightarrow> read_file d' q = read_file d q)"
proof
  have w: "write_file_atomic (grants_file p) (concat (map (\<lambda>n. n @ [newline]) names)) now d = Ok d'"
    using assms(1) by (simp add: set_grants_def)
  have "map trim_space names = names" using assms(3) grant_name_kept(2) by (simp add: map_idI)
  moreover have "filter (\<lambda>line. \<not> (line = [] \<or> has_prefix line ''#'')) names = names"
    using assms(3) by (auto simp: grant_name_def intro: filter_True)
  ultimately show "project_grants p d' = Ok names"
    using read_written [OF w assms(2)] scan_grants [OF assms(3)] by (simp add: project_grants_def)
  show "q \<noteq> grants_file p \<longrightarrow> read_file d' q = read_file d q" using read_other [OF w] by blast
qed

definition example_root :: root where "example_root = \<lparr>root_path = ''/p''\<rparr>"
definition example_id :: string where "example_id = ''0123456789ab''"
definition example_state_disk :: disk where
  "example_state_disk = \<lparr>dk_nodes = [(''/p'', SDir 1), (''/p/projects'', SDir 1), (''/p/projects/0123456789ab'', SDir 1)], dk_blocked = []\<rparr>"

theorem grants_round_trip_witness:
  "\<exists>d'. set_grants (known_project example_root example_id) [''key'', ''token''] 5 example_state_disk = Ok d' \<and>
     project_grants (known_project example_root example_id) d' = Ok [''key'', ''token'']"
proof -
  have "is_ok (set_grants (known_project example_root example_id) [''key'', ''token''] 5 example_state_disk)" by code_simp
  then obtain d' where d: "set_grants (known_project example_root example_id) [''key'', ''token''] 5 example_state_disk = Ok d'"
    by (auto simp: is_ok_def split: sum.splits)
  have "grants_file (known_project example_root example_id) \<notin> set (dk_blocked example_state_disk)" by (simp add: example_state_disk_def)
  moreover have "\<forall>n\<in>set [''key'', ''token'']. grant_name n" by (simp add: grant_name_def has_prefix_def is_space_def max_scan_token_def)
  ultimately show ?thesis using grants_round_trip [OF d] d by blast
qed

text \<open>A project keeps its token. The token that is handed out is the one on disk, or a fresh
  one of 64 hexadecimal characters that is then on disk, and every later call gives the same one
  without a write.\<close>

theorem token_stable:
  assumes "project_token random now p d = Ok (token, d')" "token_file p \<notin> set (dk_blocked d)" "length random = 32"
  shows "token_if_present p d' = Ok (Some token) \<and> project_token random' now' p d' = Ok (token, d') \<and>
    (if d' = d then token_if_present p d = Ok (Some token)
     else token_if_present p d = Ok None \<and> length token = 64 \<and> list_all hex_byte token)"
proof -
  have "token_if_present p d' = Ok (Some token) \<and> (if d' = d then token_if_present p d = Ok (Some token)
     else token_if_present p d = Ok None \<and> length token = 64 \<and> list_all hex_byte token)"
  proof (cases "token_if_present p d = Ok (Some token)")
    case True
    then show ?thesis using assms(1) by (auto simp: project_token_def)
  next
    case False
    then have n1: "token_if_present p d = Ok None"
      using assms(1) by (cases "token_if_present p d") (auto simp: project_token_def split: option.splits)
    then have n23: "token = new_token random" "write_file_atomic (token_file p) (token @ [newline]) now d = Ok d'"
      using assms(1) by (auto simp: project_token_def Let_def bind_res_Ok)
    note n = n1 n23
    have l: "length token = 64" using assms(3) by (simp add: n(2) new_token_def hex_encode_length)
    have h: "list_all hex_byte token" using hex_encode_bytes by (simp add: n(2) new_token_def)
    then have "list_all (\<lambda>c. \<not> is_space c) token" using hex_byte_plain by (simp add: list_all_iff)
    then have "trim_space (token @ [newline]) = token" using trim_terminated [of token] l by (cases token) auto
    then have t: "token_if_present p d' = Ok (Some token)"
      using read_written [OF n(3) assms(2)] l by (auto simp: token_if_present_def)
    then have "d' \<noteq> d" using n(1) by auto
    then show ?thesis using t n(1) l h by simp
  qed
  then show ?thesis by (simp add: project_token_def)
qed

theorem token_stable_witness:
  "\<exists>d'. project_token (replicate 32 CHR ''x'') 5 (known_project example_root example_id) example_state_disk = Ok (concat (replicate 32 ''78''), d') \<and>
     token_if_present (known_project example_root example_id) d' = Ok (Some (concat (replicate 32 ''78'')))"
proof -
  have "map_option fst (case project_token (replicate 32 CHR ''x'') 5 (known_project example_root example_id) example_state_disk of Ok x \<Rightarrow> Some x | Err e \<Rightarrow> None)
      = Some (concat (replicate 32 ''78''))" by code_simp
  then obtain d' where d: "project_token (replicate 32 CHR ''x'') 5 (known_project example_root example_id) example_state_disk = Ok (concat (replicate 32 ''78''), d')"
    by (auto split: sum.splits)
  have "token_file (known_project example_root example_id) \<notin> set (dk_blocked example_state_disk)" by (simp add: example_state_disk_def)
  then show ?thesis using token_stable [OF d] d by auto
qed

section \<open>Trust records and removal stay in their place\<close>

lemma trust_component:
  assumes "check_trust_component label c = Ok ()" "CHR ''/'' \<notin> set s"
  shows "CHR ''/'' \<notin> set c" "plain (c @ s)"
proof -
  show a: "CHR ''/'' \<notin> set c"
    using assms(1) by (auto simp: check_trust_component_def contains_any_iff split: if_splits)
  have "c \<noteq> []" "hd c \<noteq> CHR ''.''"
    using assms(1) by (cases c; auto simp: check_trust_component_def has_prefix_def split: if_splits)+
  then show "plain (c @ s)" using a assms(2) by (cases c) (auto simp: plain_def)
qed

lemma root_dirs:
  assumes "clean_dir (root_path r)"
  shows "trust_dir r = root_path r @ ''/trust''" "projects_dir r = root_path r @ ''/projects''"
    "clean_dir (trust_dir r)" "clean_dir (projects_dir r)"
  using path_below [OF assms, of "''trust''"] path_below [OF assms, of "''projects''"]
  by (simp_all add: trust_dir_def projects_dir_def plain_def)

text \<open>The file of a trust record is always the one for its kind and name, directly below the
  directory of the kind, and different records never share a file.\<close>

theorem trust_file_inside:
  assumes "clean_dir (root_path r)" "trust_record_file r kind name = Ok path"
  shows "path = root_path r @ ''/trust/'' @ kind @ ''s/'' @ name @ ''.json'' \<and>
    (trust_record_file r kind' name' = Ok path \<longrightarrow> kind' = kind \<and> name' = name)"
proof -
  have place: "p = root_path r @ ''/trust/'' @ k @ ''s/'' @ n @ ''.json'' \<and> CHR ''/'' \<notin> set k \<and> CHR ''/'' \<notin> set n"
    if t: "trust_record_file r k n = Ok p" for k n p
  proof -
    have c: "check_trust_component ''kind'' k = Ok ()" "check_trust_component ''name'' n = Ok ()"
      and p: "p = path_join [trust_dir r, k @ ''s'', n @ ''.json'']"
      using t by (auto simp: trust_record_file_def bind_res_Ok)
    have k: "plain (k @ ''s'')" and n: "plain (n @ ''.json'')" using trust_component(2) [OF c(1)] trust_component(2) [OF c(2)] by auto
    note kd = path_below [OF root_dirs(3) [OF assms(1)] k]
    have "p = (trust_dir r @ ''/'' @ k @ ''s'') @ ''/'' @ n @ ''.json''"
      using path_join_nested [OF root_dirs(3) [OF assms(1)] k n] path_below(1) [OF kd(2) n] by (simp only: p kd(1))
    then show ?thesis using trust_component(1) [OF c(1), of "[]"] trust_component(1) [OF c(2), of "[]"] by (simp add: root_dirs(1) [OF assms(1)])
  qed
  note here = place [OF assms(2)]
  have "kind' = kind \<and> name' = name" if "trust_record_file r kind' name' = Ok path"
  proof -
    have "(kind' @ ''s'') @ CHR ''/'' # (name' @ ''.json'') = (kind @ ''s'') @ CHR ''/'' # (name @ ''.json'')"
      using place [OF that] here by simp
    moreover have "cut ((kind' @ ''s'') @ CHR ''/'' # (name' @ ''.json'')) CHR ''/'' = (kind' @ ''s'', name' @ ''.json'', True)"
      "cut ((kind @ ''s'') @ CHR ''/'' # (name @ ''.json'')) CHR ''/'' = (kind @ ''s'', name @ ''.json'', True)"
      using place [OF that] here by (auto intro!: cut_hit simp del: append_assoc)
    ultimately have "(kind' @ ''s'', name' @ ''.json'', True) = (kind @ ''s'', name @ ''.json'', True)" by argo
    then show ?thesis by simp
  qed
  then show ?thesis using here by blast
qed

theorem trust_file_inside_witness:
  "\<exists>path. trust_record_file example_root ''plugin'' ''go'' = Ok path \<and> path = ''/p/trust/plugins/go.json''"
proof -
  have r: "clean_dir (root_path example_root)" by code_simp
  have "is_ok (trust_record_file example_root ''plugin'' ''go'')" by code_simp
  then obtain path where p: "trust_record_file example_root ''plugin'' ''go'' = Ok path" by (auto simp: is_ok_def split: sum.splits)
  show ?thesis using conjunct1 [OF trust_file_inside [OF r p]] p by (simp add: example_root_def)
qed

lemma under_disjoint:
  assumes "at_or_under (dir @ ''/'' @ a) (dir @ ''/'' @ b)" "CHR ''/'' \<notin> set b"
  shows "a = b"
proof (rule ccontr)
  assume "a \<noteq> b"
  then obtain r where "dir @ ''/'' @ b = ((dir @ ''/'' @ a) @ ''/'') @ r"
    using assms(1) unfolding at_or_under_def has_prefix_iff by auto
  then have "b = a @ ''/'' @ r" by simp
  then have "CHR ''/'' \<in> set b" by (metis UnCI list.set_intros(1) set_append)
  then show False using assms(2) by simp
qed

lemma map_of_removed: "map_of (filter (\<lambda>(p, _). \<not> P p) xs) q = (if P q then None else map_of xs q)"
  by (induction xs) auto

lemma remove_all_nodes:
  "remove_all dir d = Ok d' \<Longrightarrow> node_at d' q = (if at_or_under dir q then None else node_at d q) \<and> dk_blocked d' = dk_blocked d"
  by (auto simp: remove_all_def node_at_def map_of_removed split: if_splits)

lemma not_removed: "remove_all dir d = Ok d' \<Longrightarrow> \<not> at_or_under dir q \<Longrightarrow> is_dir d' q = is_dir d q \<and> read_file d' q = read_file d q"
  using remove_all_nodes [of dir d d' q] by (simp add: is_dir_def read_file_def split: option.splits state_node.splits)

text \<open>Removing a project removes exactly the files at and below its state directory. The
  project is unknown afterwards, every other project is found as before, and nothing outside the
  directory has changed.\<close>

theorem remove_project_exact:
  assumes "remove_project p d = Ok d'" "clean_dir (root_path (prj_root p))"
    and "prj_dir p = path_join [projects_dir (prj_root p), prj_id p]"
  shows "prj_dir p = root_path (prj_root p) @ ''/projects/'' @ prj_id p \<and>
    node_at d' q = (if at_or_under (prj_dir p) q then None else node_at d q) \<and>
    project_by_id (prj_root p) (prj_id p) d' = Err (UnknownProject (prj_id p)) \<and>
    (other \<noteq> prj_id p \<longrightarrow> project_by_id (prj_root p) other d' = project_by_id (prj_root p) other d)"
proof -
  let ?r = "prj_root p"
  have i: "is_project_id (prj_id p)" and r: "remove_all (prj_dir p) d = Ok d'"
    using assms(1) by (auto simp: remove_project_def split: if_splits)
  note root = root_dirs(2) [OF assms(2)]
  have place: "path_join [projects_dir ?r, j] = projects_dir ?r @ ''/'' @ j" if "is_project_id j" for j
    using path_below(1) [OF root_dirs(4) [OF assms(2)] project_id_plain [OF that]] .
  have "at_or_under (prj_dir p) (prj_dir p)" by (simp add: at_or_under_def)
  then have "\<not> is_dir d' (prj_dir p)" using remove_all_nodes [OF r, of "prj_dir p"] by (simp add: is_dir_def)
  then have gone: "project_by_id ?r (prj_id p) d' = Err (UnknownProject (prj_id p))"
    using i assms(3) by (simp add: project_by_id_def)
  have "project_by_id ?r other d' = project_by_id ?r other d" if o: "other \<noteq> prj_id p"
  proof (cases "is_project_id other")
    case True
    then have "\<not> at_or_under (prj_dir p) (path_join [projects_dir ?r, other])"
      using o under_disjoint [of "projects_dir ?r" "prj_id p" other] project_id_plain [OF True]
      unfolding assms(3) place [OF i] place [OF True] plain_def by blast
    then show ?thesis using not_removed [OF r] by (simp add: project_by_id_def)
  qed (simp add: project_by_id_def)
  moreover have "prj_dir p = root_path ?r @ ''/projects/'' @ prj_id p" using place [OF i] assms(3) by (simp add: root)
  ultimately show ?thesis using remove_all_nodes [OF r] gone by blast
qed

theorem remove_project_exact_witness:
  "\<exists>d'. remove_project (known_project example_root example_id) example_state_disk = Ok d' \<and>
     node_at d' ''/p/projects'' = Some (SDir 1) \<and> node_at d' ''/p/projects/0123456789ab'' = None"
proof -
  let ?p = "known_project example_root example_id"
  have "is_ok (remove_project ?p example_state_disk)" by code_simp
  then obtain d' where d: "remove_project ?p example_state_disk = Ok d'" by (auto simp: is_ok_def split: sum.splits)
  have r: "clean_dir (root_path (prj_root ?p))" by code_simp
  have p: "prj_dir ?p = path_join [projects_dir (prj_root ?p), prj_id ?p]" by (simp add: known_project_def)
  have "at_or_under (prj_dir ?p) ''/p/projects/0123456789ab''" "\<not> at_or_under (prj_dir ?p) ''/p/projects''" by code_simp+
  moreover have "node_at example_state_disk ''/p/projects'' = Some (SDir 1)" by code_simp
  ultimately show ?thesis
    using remove_project_exact [OF d r p, of "''/p/projects''"] remove_project_exact [OF d r p, of "''/p/projects/0123456789ab''"] d by simp
qed

end
