(* ===== verification/Vault_Validate.thy ===== *)
theory Vault_Validate
  imports Go_Prelude
begin

text \<open>
  \<open>internal/vault/types.go\<close> and \<open>internal/vault/validate.go\<close>: the records of the vault and
  \<open>ValidateSecret\<close>, which checks a record and puts its upstream and methods in canonical form.
  The regular expressions are written out as predicates on bytes. A time is an \<open>int option\<close>, with
  \<open>None\<close> for Go's zero time. When two unwanted configurations are present, Go reports either one
  (it ranges over a map), so that error does not name it. \<open>Digest\<close> takes SHA-256 as a parameter.
\<close>

section \<open>Records\<close>

definition mode_route :: string where "mode_route = ''route''"
definition mode_sign :: string where "mode_sign = ''sign''"
definition mode_expose :: string where "mode_expose = ''expose''"
definition algorithm_ssh_agent :: string where "algorithm_ssh_agent = ''ssh-agent''"
definition algorithm_hmac_sha256 :: string where "algorithm_hmac_sha256 = ''hmac-sha256''"
definition reserved_secret_name :: string where "reserved_secret_name = ''prison''"

record route_spec =
  rs_upstream :: string
  rs_path_prefix :: string
  rs_header :: string
  rs_prefix :: string
  rs_base_url_variable :: string
  rs_token_variable :: string
  rs_token_placeholder :: string
  rs_methods :: "string list"
  rs_rate_limit :: int
  rs_intercept :: bool

record sign_spec =
  ss_algorithm :: string
  ss_fingerprint :: string
  ss_namespace :: string
  ss_rate_limit :: int

record expose_spec =
  es_variable :: string

record secret =
  sec_name :: string
  sec_description :: string
  sec_mode :: string
  sec_created :: "int option"
  sec_value :: string
  sec_route :: "route_spec option"
  sec_sign :: "sign_spec option"
  sec_expose :: "expose_spec option"

record authority =
  au_key :: string
  au_certificate :: string
  au_created :: "int option"

datatype secret_error =
  NoRecord
| BadSecretName string
| ReservedName string
| BadMode string
| MissingConfiguration string
| ExtraConfiguration string
| NoUpstream
| EmptyUpstream
| UpstreamScheme string
| UpstreamInvalid string
| UpstreamPort string
| UpstreamNoHost string
| BadPathPrefix string
| BadHeader string
| BadVariable string
| TokenNeedsPlaceholder
| PlaceholderNeedsToken
| PlaceholderNewline
| BadMethod string
| NegativeRateLimit
| ValueMissing
| BadFingerprint
| AgentValue
| BadAlgorithm string
| ExposedNewline

section \<open>Patterns\<close>

definition is_letter :: "char \<Rightarrow> bool" where "is_letter c \<longleftrightarrow> is_lower c \<or> is_upper c"

definition secret_name_pattern :: "string \<Rightarrow> bool" where
  "secret_name_pattern s \<longleftrightarrow>
     (case s of [] \<Rightarrow> False
      | c # cs \<Rightarrow> is_lower c \<and> list_all (\<lambda>x. is_lower x \<or> is_digit x \<or> x = CHR ''-'') cs \<and> length cs \<le> 31)"

definition environment_variable_pattern :: "string \<Rightarrow> bool" where
  "environment_variable_pattern s \<longleftrightarrow>
     (case s of [] \<Rightarrow> False
      | c # cs \<Rightarrow> (is_letter c \<or> c = CHR ''_'') \<and> list_all (\<lambda>x. is_letter x \<or> is_digit x \<or> x = CHR ''_'') cs)"

definition fingerprint_pattern :: "string \<Rightarrow> bool" where
  "fingerprint_pattern s \<longleftrightarrow> has_prefix s ''SHA256:'' \<and>
     (let digest = trim_suffix (drop 7 s) ''=''
      in length digest = 43 \<and> list_all (\<lambda>x. is_letter x \<or> is_digit x \<or> x = CHR ''+'' \<or> x = CHR ''/'') digest)"

definition http_method_pattern :: "string \<Rightarrow> bool" where
  "http_method_pattern s \<longleftrightarrow> s \<noteq> [] \<and> list_all is_upper s"

section \<open>Upstreams\<close>

definition digest_preview_length :: nat where "digest_preview_length = 12"
definition default_upstream_port :: int where "default_upstream_port = 443"

definition normalise_host :: "string \<Rightarrow> string" where
  "normalise_host host = trim_suffix (to_lower (trim_space host)) ''.''"

definition parse_upstream :: "string \<Rightarrow> (secret_error, string \<times> int) result" where
  "parse_upstream upstream =
     (let trimmed = trim_space upstream
      in if trimmed = [] then Err EmptyUpstream
         else if contains_str trimmed ''://'' then Err (UpstreamScheme upstream)
         else if contains_any trimmed [CHR ''/'', CHR ''@'', CHR '' '', tab, carriage_return, newline] then Err (UpstreamInvalid upstream)
         else bind_res
           (case last_index CHR '':'' trimmed of
              None \<Rightarrow> Ok (trimmed, default_upstream_port)
            | Some colon \<Rightarrow>
                (let hostPart = take colon trimmed
                 in case atoi (drop (colon + 1) trimmed) of
                      None \<Rightarrow> Err (UpstreamPort upstream)
                    | Some parsedPort \<Rightarrow>
                        if parsedPort < 1 \<or> 65535 < parsedPort \<or> CHR '':'' \<in> set hostPart then Err (UpstreamPort upstream)
                        else Ok (hostPart, parsedPort)))
           (\<lambda>(hostPart, port).
              let host = normalise_host hostPart
              in if host = [] then Err (UpstreamNoHost upstream) else Ok (host, port)))"

definition split_upstream :: "string \<Rightarrow> string \<times> int" where
  "split_upstream upstream =
     (case parse_upstream upstream of
        Err _ \<Rightarrow> (normalise_host upstream, default_upstream_port) | Ok r \<Rightarrow> r)"

definition format_upstream :: "string \<Rightarrow> int \<Rightarrow> string" where
  "format_upstream host port = (if port = default_upstream_port then host else host @ '':'' @ itoa port)"

section \<open>Validation\<close>

fun collect_methods :: "string list \<Rightarrow> (secret_error, string list) result" where
  "collect_methods [] = Ok []"
| "collect_methods (raw # methods) =
     (let m = to_upper (trim_space raw)
      in if m = [] then collect_methods methods
         else if \<not> http_method_pattern m then Err (BadMethod m)
         else bind_res (collect_methods methods) (\<lambda>seen. Ok (m # seen)))"

definition normalise_methods :: "string list \<Rightarrow> (secret_error, string list) result" where
  "normalise_methods methods = bind_res (collect_methods methods) (\<lambda>seen. Ok (sort (remdups seen)))"

definition validate_mode_specs :: "secret \<Rightarrow> (secret_error, unit) result" where
  "validate_mode_specs s =
     (let mode = sec_mode s;
          present = [(mode_route, sec_route s \<noteq> None), (mode_sign, sec_sign s \<noteq> None), (mode_expose, sec_expose s \<noteq> None)]
      in if mode \<notin> {mode_route, mode_sign, mode_expose} then Err (BadMode mode)
         else if map_of present mode \<noteq> Some True then Err (MissingConfiguration mode)
         else if list_ex (\<lambda>(m, given). given \<and> m \<noteq> mode) present then Err (ExtraConfiguration mode)
         else Ok ())"

definition guard :: "bool \<Rightarrow> 'e \<Rightarrow> ('e, unit) result" where
  "guard bad e = (if bad then Err e else Ok ())"

definition validate_route :: "secret \<Rightarrow> route_spec \<Rightarrow> (secret_error, secret) result" where
  "validate_route s route =
     bind_res (guard (rs_upstream route = []) NoUpstream) (\<lambda>_.
     bind_res (parse_upstream (rs_upstream route)) (\<lambda>(host, port).
     bind_res (guard (\<not> has_prefix (rs_path_prefix route) ''/'') (BadPathPrefix (rs_path_prefix route))) (\<lambda>_.
     bind_res (guard (rs_header route = [] \<or>
       contains_any (rs_header route) [CHR '' '', tab, CHR '':'', carriage_return, newline]) (BadHeader (rs_header route))) (\<lambda>_.
     bind_res (guard (rs_base_url_variable route \<noteq> [] \<and> \<not> environment_variable_pattern (rs_base_url_variable route))
       (BadVariable (rs_base_url_variable route))) (\<lambda>_.
     bind_res (guard (rs_token_variable route \<noteq> [] \<and> \<not> environment_variable_pattern (rs_token_variable route))
       (BadVariable (rs_token_variable route))) (\<lambda>_.
     bind_res (guard (rs_token_variable route \<noteq> [] \<and> rs_token_placeholder route = []) TokenNeedsPlaceholder) (\<lambda>_.
     bind_res (guard (rs_token_placeholder route \<noteq> [] \<and> rs_token_variable route = []) PlaceholderNeedsToken) (\<lambda>_.
     bind_res (guard (rs_token_placeholder route \<noteq> [] \<and>
       contains_any (rs_token_placeholder route) [carriage_return, newline]) PlaceholderNewline) (\<lambda>_.
     bind_res (normalise_methods (rs_methods route)) (\<lambda>methods.
     bind_res (guard (rs_rate_limit route < 0) NegativeRateLimit) (\<lambda>_.
     bind_res (guard (sec_value s = []) ValueMissing) (\<lambda>_.
       Ok (s\<lparr>sec_route := Some (route\<lparr>rs_upstream := format_upstream host port, rs_methods := methods\<rparr>)\<rparr>)))))))))))))"

definition validate_sign :: "secret \<Rightarrow> sign_spec \<Rightarrow> (secret_error, secret) result" where
  "validate_sign s sign =
     bind_res
       (if ss_algorithm sign = algorithm_ssh_agent then
          (if \<not> fingerprint_pattern (ss_fingerprint sign) then Err BadFingerprint
           else if sec_value s \<noteq> [] then Err AgentValue else Ok ())
        else if ss_algorithm sign = algorithm_hmac_sha256 then
          (if sec_value s = [] then Err ValueMissing else Ok ())
        else Err (BadAlgorithm (ss_algorithm sign))) (\<lambda>_.
     bind_res (guard (ss_rate_limit sign < 0) NegativeRateLimit) (\<lambda>_. Ok s))"

definition validate_expose :: "secret \<Rightarrow> expose_spec \<Rightarrow> (secret_error, secret) result" where
  "validate_expose s expose =
     bind_res (guard (\<not> environment_variable_pattern (es_variable expose)) (BadVariable (es_variable expose))) (\<lambda>_.
     bind_res (guard (sec_value s = []) ValueMissing) (\<lambda>_.
     bind_res (guard (contains_any (sec_value s) [carriage_return, newline]) ExposedNewline) (\<lambda>_. Ok s)))"

definition validate_secret :: "secret option \<Rightarrow> (secret_error, secret) result" where
  "validate_secret given =
     (case given of
        None \<Rightarrow> Err NoRecord
      | Some s \<Rightarrow>
          if \<not> secret_name_pattern (sec_name s) then Err (BadSecretName (sec_name s))
          else if sec_name s = reserved_secret_name then Err (ReservedName (sec_name s))
          else bind_res (validate_mode_specs s) (\<lambda>_.
            case (sec_route s, sec_sign s, sec_expose s) of
              (Some route, _, _) \<Rightarrow> validate_route s route
            | (None, Some sign, _) \<Rightarrow> validate_sign s sign
            | (None, None, Some expose) \<Rightarrow> validate_expose s expose
            | (None, None, None) \<Rightarrow> Err (MissingConfiguration (sec_mode s))))"

definition digest_text :: "(string \<Rightarrow> string) \<Rightarrow> string \<Rightarrow> string" where
  "digest_text sha value =
     (if value = [] then ''-'' else ''sha256:'' @ take digest_preview_length (sha value))"

section \<open>What validation promises\<close>

text \<open>The characters that a stored host does not have.\<close>

definition host_specials :: "char set" where
  "host_specials = {CHR '':'', CHR ''/'', CHR ''@'', CHR '' '', tab, carriage_return, newline}"

definition route_ok :: "route_spec \<Rightarrow> bool" where
  "route_ok r \<longleftrightarrow>
     (\<exists>host port. rs_upstream r = format_upstream host port \<and> host \<noteq> [] \<and> 1 \<le> port \<and> port \<le> 65535 \<and>
        set host \<inter> host_specials = {} \<and> to_lower host = host) \<and>
     has_prefix (rs_path_prefix r) ''/'' \<and>
     rs_header r \<noteq> [] \<and> set (rs_header r) \<inter> {CHR '' '', tab, CHR '':'', carriage_return, newline} = {} \<and>
     (rs_token_variable r = [] \<longleftrightarrow> rs_token_placeholder r = []) \<and>
     carriage_return \<notin> set (rs_token_placeholder r) \<and> newline \<notin> set (rs_token_placeholder r) \<and>
     sorted (rs_methods r) \<and> distinct (rs_methods r) \<and> list_all http_method_pattern (rs_methods r) \<and> 0 \<le> rs_rate_limit r"

definition secret_ok :: "secret \<Rightarrow> bool" where
  "secret_ok s \<longleftrightarrow> secret_name_pattern (sec_name s) \<and> sec_name s \<noteq> reserved_secret_name \<and>
     ((\<exists>r. sec_mode s = mode_route \<and> sec_route s = Some r \<and> sec_sign s = None \<and> sec_expose s = None \<and>
         route_ok r \<and> sec_value s \<noteq> []) \<or>
      (\<exists>g. sec_mode s = mode_sign \<and> sec_route s = None \<and> sec_sign s = Some g \<and> sec_expose s = None \<and>
         0 \<le> ss_rate_limit g \<and>
         (ss_algorithm g = algorithm_ssh_agent \<and> fingerprint_pattern (ss_fingerprint g) \<and> sec_value s = [] \<or>
          ss_algorithm g = algorithm_hmac_sha256 \<and> sec_value s \<noteq> [])) \<or>
      (\<exists>x. sec_mode s = mode_expose \<and> sec_route s = None \<and> sec_sign s = None \<and> sec_expose s = Some x \<and>
         environment_variable_pattern (es_variable x) \<and> sec_value s \<noteq> [] \<and>
         carriage_return \<notin> set (sec_value s) \<and> newline \<notin> set (sec_value s)))"

lemma guard_Ok [simp]: "guard bad e = Ok () \<longleftrightarrow> \<not> bad"
  by (simp add: guard_def)

lemma set_trim_space: "set (trim_space s) \<subseteq> set s"
  by (auto simp: trim_space_def trim_by_def trim_right_by_def dest!: set_dropWhileD)

lemma set_trim_suffix_sub: "set (trim_suffix s p) \<subseteq> set s"
  by (auto simp: trim_suffix_def dest: in_set_takeD)

lemma trim_suffix_lower: "to_lower (trim_suffix (to_lower s) p) = trim_suffix (to_lower s) p"
  by (simp add: trim_suffix_def to_lower_def take_map flip: map_map)
    (simp add: to_lower_def [symmetric] flip: take_map to_lower_def)

lemma parse_upstream_Ok:
  assumes "parse_upstream u = Ok (host, port)"
  shows "host \<noteq> [] \<and> 1 \<le> port \<and> port \<le> 65535 \<and> to_lower host = host \<and>
    set host \<inter> host_specials = {}"
proof -
  define t where "t = trim_space u"
  have t: "set t \<inter> (host_specials - {CHR '':''}) = {}"
    using assms by (auto simp: parse_upstream_def t_def Let_def contains_any_iff host_specials_def split: if_splits)
  obtain h where h: "host = normalise_host h" "set h \<subseteq> set t" "CHR '':'' \<notin> set h" "1 \<le> port" "port \<le> 65535" "host \<noteq> []"
  proof (cases "last_index CHR '':'' t")
    case None
    have nc: "CHR '':'' \<notin> set t" using None by (induction t) (auto split: option.splits if_splits)
    have "host = normalise_host t \<and> port = default_upstream_port \<and> host \<noteq> []"
      using assms None by (auto simp: parse_upstream_def t_def Let_def split: if_splits)
    then show ?thesis using nc that [of t] by (auto simp: default_upstream_port_def)
  next
    case (Some c)
    then have "host = normalise_host (take c t) \<and> CHR '':'' \<notin> set (take c t) \<and> 1 \<le> port \<and> port \<le> 65535 \<and> host \<noteq> []"
      using assms by (auto simp: parse_upstream_def t_def Let_def split: if_splits option.splits)
    then show ?thesis using that [of "take c t"] set_take_subset by metis
  qed
  define l where "l = to_lower (trim_space h)"
  have hl: "host = trim_suffix l ''.''" using h(1) by (simp add: normalise_host_def l_def)
  have plain: "d \<notin> set l" if "d \<notin> set h" "d \<in> host_specials" for d
  proof -
    have "not_letter d" using that(2) by (auto simp: host_specials_def not_letter_def is_upper_def is_lower_def)
    then show ?thesis using in_to_lower [of d "trim_space h"] set_trim_space [of h] that(1) by (auto simp: l_def)
  qed
  have l: "set l \<inter> host_specials = {}"
  proof -
    have "d \<notin> set h" if "d \<in> host_specials" for d
      using that t h(2,3) by blast
    then show ?thesis using plain by blast
  qed
  have "to_lower host = host" unfolding hl l_def by (rule trim_suffix_lower)
  moreover have "set host \<inter> host_specials = {}" using l set_trim_suffix_sub [of l "''.''"] unfolding hl by blast
  ultimately show ?thesis using h(4-6) by blast
qed

lemma collect_methods_Ok: "collect_methods ms = Ok seen \<Longrightarrow> list_all http_method_pattern seen"
  by (induction ms arbitrary: seen) (auto simp: Let_def bind_res_Ok split: if_splits)

lemma normalise_methods_Ok:
  assumes "normalise_methods ms = Ok methods"
  shows "sorted methods \<and> distinct methods \<and> list_all http_method_pattern methods"
  using assms collect_methods_Ok by (fastforce simp: normalise_methods_def bind_res_Ok list_all_iff)

lemma validate_route_Ok:
  assumes "validate_route s route = Ok s'"
  shows "\<exists>host port methods. parse_upstream (rs_upstream route) = Ok (host, port) \<and> normalise_methods (rs_methods route) = Ok methods \<and>
    s' = s\<lparr>sec_route := Some (route\<lparr>rs_upstream := format_upstream host port, rs_methods := methods\<rparr>)\<rparr> \<and>
    sec_value s \<noteq> [] \<and> route_ok (route\<lparr>rs_upstream := format_upstream host port, rs_methods := methods\<rparr>)"
proof -
  obtain host port methods where p: "parse_upstream (rs_upstream route) = Ok (host, port)"
    "normalise_methods (rs_methods route) = Ok methods"
    "s' = s\<lparr>sec_route := Some (route\<lparr>rs_upstream := format_upstream host port, rs_methods := methods\<rparr>)\<rparr>"
    "sec_value s \<noteq> []"
    "has_prefix (rs_path_prefix route) ''/''" "rs_header route \<noteq> []"
    "\<not> contains_any (rs_header route) [CHR '' '', tab, CHR '':'', carriage_return, newline]"
    "rs_token_variable route \<noteq> [] \<longrightarrow> rs_token_placeholder route \<noteq> []"
    "rs_token_placeholder route \<noteq> [] \<longrightarrow> rs_token_variable route \<noteq> []"
    "rs_token_placeholder route \<noteq> [] \<longrightarrow> \<not> contains_any (rs_token_placeholder route) [carriage_return, newline]"
    "\<not> rs_rate_limit route < 0"
    using assms by (auto simp: validate_route_def bind_res_Ok)
  have "route_ok (route\<lparr>rs_upstream := format_upstream host port, rs_methods := methods\<rparr>)"
    unfolding route_ok_def using parse_upstream_Ok [OF p(1)] normalise_methods_Ok [OF p(2)] p(5-11)
    by (auto simp: contains_any_iff)
  then show ?thesis using p(1-4) by blast
qed

lemma validate_mode_specs_Ok:
  assumes "validate_mode_specs s = Ok ()"
  shows "(\<exists>r. sec_mode s = mode_route \<and> sec_route s = Some r \<and> sec_sign s = None \<and> sec_expose s = None) \<or>
    (\<exists>g. sec_mode s = mode_sign \<and> sec_route s = None \<and> sec_sign s = Some g \<and> sec_expose s = None) \<or>
    (\<exists>x. sec_mode s = mode_expose \<and> sec_route s = None \<and> sec_sign s = None \<and> sec_expose s = Some x)"
proof -
  have "sec_mode s \<in> {mode_route, mode_sign, mode_expose}"
    using assms by (auto simp: validate_mode_specs_def Let_def split: if_splits)
  then consider "sec_mode s = mode_route" | "sec_mode s = mode_sign" | "sec_mode s = mode_expose" by blast
  then show ?thesis
    using assms by cases (cases "sec_route s"; cases "sec_sign s"; cases "sec_expose s";
      simp add: validate_mode_specs_def Let_def mode_route_def mode_sign_def mode_expose_def)+
qed

lemma validate_cases:
  assumes "validate_secret (Some s) = Ok s'"
  obtains (route) r where "sec_mode s = mode_route" "sec_route s = Some r" "sec_sign s = None" "sec_expose s = None"
      "validate_route s r = Ok s'"
  | (sign) g where "sec_mode s = mode_sign" "sec_route s = None" "sec_sign s = Some g" "sec_expose s = None"
      "validate_sign s g = Ok s'"
  | (expose) x where "sec_mode s = mode_expose" "sec_route s = None" "sec_sign s = None" "sec_expose s = Some x"
      "validate_expose s x = Ok s'"
proof -
  have "validate_mode_specs s = Ok ()" using assms by (auto simp: validate_secret_def bind_res_Ok split: if_splits)
  from validate_mode_specs_Ok [OF this] show ?thesis
    using assms route sign expose by (auto simp: validate_secret_def bind_res_Ok split: if_splits)
qed

lemma validate_name:
  "validate_secret (Some s) = Ok s' \<Longrightarrow> secret_name_pattern (sec_name s) \<and> sec_name s \<noteq> reserved_secret_name \<and>
     validate_mode_specs s = Ok ()"
  by (auto simp: validate_secret_def bind_res_Ok split: if_splits)

lemma validate_sign_Ok: "validate_sign s g = Ok s' \<Longrightarrow> s' = s \<and> 0 \<le> ss_rate_limit g \<and>
    (ss_algorithm g = algorithm_ssh_agent \<and> fingerprint_pattern (ss_fingerprint g) \<and> sec_value s = [] \<or>
     ss_algorithm g = algorithm_hmac_sha256 \<and> sec_value s \<noteq> [])"
  by (auto simp: validate_sign_def bind_res_Ok split: if_splits)

lemma validate_expose_Ok: "validate_expose s x = Ok s' \<Longrightarrow> s' = s \<and> environment_variable_pattern (es_variable x) \<and>
    sec_value s \<noteq> [] \<and> carriage_return \<notin> set (sec_value s) \<and> newline \<notin> set (sec_value s)"
  by (auto simp: validate_expose_def bind_res_Ok contains_any_iff)

lemma validate_secret_ok:
  assumes "validate_secret (Some s) = Ok s'"
  shows "secret_ok s' \<and> sec_name s' = sec_name s"
  using assms
proof (cases rule: validate_cases)
  case (route r)
  then show ?thesis using validate_route_Ok [OF route(5)] validate_name [OF assms] unfolding secret_ok_def by force
next
  case (sign g)
  then show ?thesis using validate_sign_Ok [OF sign(5)] validate_name [OF assms] unfolding secret_ok_def by force
next
  case (expose x)
  then show ?thesis using validate_expose_Ok [OF expose(5)] validate_name [OF assms] unfolding secret_ok_def by force
qed

section \<open>Canonical records\<close>

lemma upper_char_fix: "is_upper c \<Longrightarrow> upper_char c = c"
  by (auto simp: upper_char_def is_upper_def is_lower_def)

lemma method_fix: "http_method_pattern m \<Longrightarrow> to_upper (trim_space m) = m"
proof -
  assume m: "http_method_pattern m"
  have up: "is_upper c \<Longrightarrow> \<not> is_space c" for c by (auto simp: is_upper_def is_space_def)
  have dw: "\<forall>c\<in>set xs. \<not> is_space c \<Longrightarrow> dropWhile is_space xs = xs" for xs by (cases xs) auto
  have "dropWhile is_space m = m" "dropWhile is_space (rev m) = rev m"
    using m up by (auto simp: http_method_pattern_def list_all_iff intro!: dw)
  then have "trim_space m = m" by (simp add: trim_space_def trim_by_def trim_right_by_def)
  then show ?thesis using m by (simp add: to_upper_def http_method_pattern_def list_all_iff map_idI upper_char_fix)
qed

lemma collect_methods_fix: "list_all http_method_pattern ms \<Longrightarrow> collect_methods ms = Ok ms"
proof (induction ms)
  case (Cons m ms)
  then have "to_upper (trim_space m) = m" "http_method_pattern m" by (simp_all add: method_fix)
  then show ?case using Cons by (auto simp: Let_def http_method_pattern_def)
qed simp

lemma normalise_methods_fix: "normalise_methods ms = Ok methods \<Longrightarrow> normalise_methods methods = Ok methods"
  using normalise_methods_Ok [of ms methods]
  by (simp add: normalise_methods_def collect_methods_fix distinct_remdups_id sorted_sort_id)

lemma dropWhile_length: "length xs \<le> length (dropWhile P xs) \<Longrightarrow> dropWhile P xs = xs"
  by (cases xs) (auto, metis length_dropWhile_le not_less_eq_eq)

lemma trim_space_length: "length s \<le> length (trim_space s) \<Longrightarrow> trim_space s = s"
proof -
  assume l: "length s \<le> length (trim_space s)"
  define u where "u = dropWhile is_space s"
  have t: "trim_space s = rev (dropWhile is_space (rev u))" by (simp add: trim_space_def trim_by_def trim_right_by_def u_def)
  have "length (trim_space s) \<le> length u" "length u \<le> length s"
    using length_dropWhile_le [of is_space "rev u"] length_dropWhile_le [of is_space s] by (simp_all add: t u_def)
  then have a: "length s \<le> length u" "length (rev u) \<le> length (dropWhile is_space (rev u))" using l by (simp_all add: t)
  have "u = s" using dropWhile_length [OF a(1) [unfolded u_def]] by (simp add: u_def)
  moreover have "dropWhile is_space (rev u) = rev u" by (rule dropWhile_length [OF a(2)])
  ultimately show ?thesis using t by simp
qed

lemma contains_str_chars: "contains_str s sub \<Longrightarrow> set sub \<subseteq> set s"
  by (auto simp: contains_str_iff)

text \<open>A stored upstream reads back as it was stored, when its host has no further dot or space to trim.\<close>

lemma parse_format_upstream:
  assumes "parse_upstream u = Ok (host, port)" "normalise_host host = host"
  shows "parse_upstream (format_upstream host port) = Ok (host, port)"
proof -
  note p = parse_upstream_Ok [OF assms(1)]
  have "length (trim_suffix x d) \<le> length x" for x d :: string by (simp add: trim_suffix_def)
  then have "length host \<le> length (trim_space host)"
    using assms(2) unfolding normalise_host_def by (metis length_to_lower)
  then have th: "trim_space host = host" by (rule trim_space_length)
  have no: "CHR ''/'' \<notin> set host" "CHR '':'' \<notin> set host" "CHR ''@'' \<notin> set host" "CHR '' '' \<notin> set host" "tab \<notin> set host"
    "carriage_return \<notin> set host" "newline \<notin> set host"
    using p by (auto simp: host_specials_def)
  show ?thesis
  proof (cases "port = default_upstream_port")
    case True
    then show ?thesis using p th assms(2) no contains_str_chars [of host "''://''"] last_index_None [OF no(2)]
      by (auto simp: parse_upstream_def format_upstream_def Let_def contains_any_iff)
  next
    case False
    define s where "s = host @ CHR '':'' # itoa port"
    have f: "format_upstream host port = s" using False by (simp add: format_upstream_def s_def)
    have dig: "is_digit c" if "c \<in> set (itoa port)" for c
    proof -
      have "itoa port = nat_text (nat port)" using p by (simp add: itoa_def)
      then show ?thesis using that nat_text_digits [of "nat port"] by (simp add: list_all_iff)
    qed
    have nd: "c \<notin> set (itoa port)" if "\<not> is_digit c" for c using dig that by blast
    have ch: "CHR '':'' \<notin> set (itoa port)" "CHR ''/'' \<notin> set s" "\<not> contains_any s [CHR ''/'', CHR ''@'', CHR '' '', tab, carriage_return, newline]"
      using no nd [of "CHR ''/''"] nd [of "CHR ''@''"] nd [of "CHR '' ''"] nd [of tab] nd [of carriage_return] nd [of newline] nd [of "CHR '':''"]
      by (auto simp: s_def contains_any_iff is_digit_def)
    have ts: "trim_space s = s"
    proof -
      obtain h hs where h: "host = h # hs" using p by (cases host) auto
      have "hd host \<in> set host" using p by simp
      have "dropWhile is_space host = host"
        using th length_dropWhile_le [of is_space host] by (metis dropWhile_length h length_rev length_dropWhile_le le_trans trim_space_def trim_by_def trim_right_by_def order.refl)
      then have "\<not> is_space h" by (metis h dropWhile.simps(2) length_Cons length_dropWhile_le not_less_eq_eq)
      then have 1: "dropWhile is_space s = s" by (simp add: s_def h)
      obtain b bs where b: "rev (itoa port) = b # bs" by (cases "rev (itoa port)") auto
      then have "is_digit b" using dig by (metis list.set_intros(1) set_rev)
      then have "dropWhile is_space (rev s) = rev s" using b by (auto simp: s_def is_digit_def is_space_def)
      then show ?thesis using 1 by (simp add: trim_space_def trim_by_def trim_right_by_def)
    qed
    have at: "atoi (itoa port) = Some port"
      using p by (intro atoi_itoa) (simp_all add: int64_min_def int64_max_def)
    have "\<not> contains_str s ''://''" using ch(2) contains_str_chars [of s "''://''"] by auto
    then show ?thesis
      unfolding f using ts ch p no at assms(2) last_index_append [OF ch(1), of host]
      by (simp add: parse_upstream_def Let_def s_def)
  qed
qed

section \<open>Properties\<close>

text \<open>A record that \<open>ValidateSecret\<close> accepts is well formed: its name is a host label and not the
  reserved one, it has exactly the configuration of its mode, its upstream is a lower-case host with
  a port from 1 to 65535, its header, placeholder and exposed value cannot break a line, its methods
  are sorted and distinct, its rate limit is not negative, and it has a value when its mode needs one.\<close>

theorem validated_secret:
  assumes "validate_secret (Some s) = Ok s'"
  shows "secret_ok s' \<and> sec_name s' = sec_name s"
  using validate_secret_ok [OF assms] .

definition example_secret :: secret where
  "example_secret = \<lparr>sec_name = ''github'', sec_description = [], sec_mode = mode_route, sec_created = None,
     sec_value = ''t'', sec_route = Some \<lparr>rs_upstream = ''API.github.com.'', rs_path_prefix = ''/'',
       rs_header = ''Authorization'', rs_prefix = ''Bearer '', rs_base_url_variable = [], rs_token_variable = [],
       rs_token_placeholder = [], rs_methods = [''post'', ''get''], rs_rate_limit = 3, rs_intercept = True\<rparr>,
     sec_sign = None, sec_expose = None\<rparr>"

theorem validated_secret_witness:
  "\<exists>s'. validate_secret (Some example_secret) = Ok s' \<and> secret_ok s' \<and>
     map_option rs_methods (sec_route s') = Some [''GET'', ''POST'']"
proof -
  define r where "r = \<lparr>rs_upstream = ''api.github.com'', rs_path_prefix = ''/'',
       rs_header = ''Authorization'', rs_prefix = ''Bearer '', rs_base_url_variable = [], rs_token_variable = [],
       rs_token_placeholder = [], rs_methods = [''GET'', ''POST''], rs_rate_limit = 3, rs_intercept = True\<rparr>"
  have "validate_secret (Some example_secret) = Ok (example_secret\<lparr>sec_route := Some r\<rparr>)" unfolding r_def by code_simp
  from this validated_secret [OF this] show ?thesis by (auto simp: r_def)
qed

text \<open>Validation is stable. What it returns is accepted again and returned as it is, whenever the
  stored upstream reads back as the host and port it was written for.\<close>

theorem validate_again:
  assumes "validate_secret (Some s) = Ok s'"
    and "\<And>r. sec_route s' = Some r \<Longrightarrow>
      parse_upstream (rs_upstream r) = Ok (split_upstream (rs_upstream r)) \<and>
      format_upstream (fst (split_upstream (rs_upstream r))) (snd (split_upstream (rs_upstream r))) = rs_upstream r"
  shows "validate_secret (Some s') = Ok s'"
  using assms(1)
proof (cases rule: validate_cases)
  case (route r)
  obtain host port methods where p: "normalise_methods (rs_methods r) = Ok methods"
    "s' = s\<lparr>sec_route := Some (r\<lparr>rs_upstream := format_upstream host port, rs_methods := methods\<rparr>)\<rparr>"
    using validate_route_Ok [OF route(5)] by blast
  define r' where "r' = r\<lparr>rs_upstream := format_upstream host port, rs_methods := methods\<rparr>"
  have s': "sec_route s' = Some r'" "s' = s\<lparr>sec_route := Some r'\<rparr>" using p(2) by (simp_all add: r'_def)
  have u: "parse_upstream (rs_upstream r') = Ok (split_upstream (rs_upstream r'))"
    "format_upstream (fst (split_upstream (rs_upstream r'))) (snd (split_upstream (rs_upstream r'))) = rs_upstream r'"
    using assms(2) [OF s'(1)] by auto
  have ne: "rs_upstream r' \<noteq> []" using u(1) by (auto simp: parse_upstream_def trim_space_def trim_by_def trim_right_by_def)
  have m: "normalise_methods (rs_methods r') = Ok (rs_methods r')" using normalise_methods_fix [OF p(1)] by (simp add: r'_def)
  have "validate_route s' r' = Ok s'"
    using route(5) u m ne by (auto simp: validate_route_def bind_res_Ok s'(2) r'_def split: prod.splits)
  moreover have "validate_mode_specs s' = Ok ()"
    using validate_name [OF assms(1)] route(1-4) by (simp add: validate_mode_specs_def Let_def s'(2) mode_route_def mode_sign_def mode_expose_def)
  ultimately show ?thesis using validate_name [OF assms(1)] s' by (simp add: validate_secret_def)
next
  case (sign g)
  then show ?thesis using validate_sign_Ok [OF sign(5)] assms(1) by simp
next
  case (expose x)
  then show ?thesis using validate_expose_Ok [OF expose(5)] assms(1) by simp
qed

theorem validate_again_witness:
  "\<exists>s'. validate_secret (Some example_secret) = Ok s' \<and> validate_secret (Some s') = Ok s'"
proof -
  define r where "r = \<lparr>rs_upstream = ''api.github.com'', rs_path_prefix = ''/'',
       rs_header = ''Authorization'', rs_prefix = ''Bearer '', rs_base_url_variable = [], rs_token_variable = [],
       rs_token_placeholder = [], rs_methods = [''GET'', ''POST''], rs_rate_limit = 3, rs_intercept = True\<rparr>"
  have v: "validate_secret (Some example_secret) = Ok (example_secret\<lparr>sec_route := Some r\<rparr>)" unfolding r_def by code_simp
  have "validate_secret (Some (example_secret\<lparr>sec_route := Some r\<rparr>)) = Ok (example_secret\<lparr>sec_route := Some r\<rparr>)"
  proof (rule validate_again [OF v])
    fix q assume "sec_route (example_secret\<lparr>sec_route := Some r\<rparr>) = Some q"
    then have "q = r" by simp
    moreover have "split_upstream (rs_upstream r) = (''api.github.com'', 443)"
      "parse_upstream (rs_upstream r) = Ok (''api.github.com'', 443)"
      "format_upstream ''api.github.com'' 443 = ''api.github.com''" "rs_upstream r = ''api.github.com''"
      unfolding r_def by code_simp+
    ultimately show "parse_upstream (rs_upstream q) = Ok (split_upstream (rs_upstream q)) \<and>
      format_upstream (fst (split_upstream (rs_upstream q))) (snd (split_upstream (rs_upstream q))) = rs_upstream q" by simp
  qed
  then show ?thesis using v by blast
qed

text \<open>The stored form of an upstream keeps its meaning: it parses to the same host and port, when
  the host has no further dot or space to trim.\<close>

theorem upstream_round_trip:
  assumes "parse_upstream u = Ok (host, port)" "normalise_host host = host"
  shows "split_upstream (format_upstream host port) = (host, port)"
  using parse_format_upstream [OF assms] by (simp add: split_upstream_def)

theorem upstream_round_trip_witness:
  "split_upstream (format_upstream ''db.local'' 5432) = (''db.local'', 5432)"
proof (rule upstream_round_trip)
  show "parse_upstream ''DB.local.:5432'' = Ok (''db.local'', 5432)" by code_simp
qed code_simp

end
