(* ===== verification/Vault.thy ===== *)
theory Vault
  imports Vault_Validate Go_Base64 "HOL-Library.Word" "HOL-Library.AList" "HOL-Library.Countable"
begin

text \<open>
  \<open>internal/vault/vault.go\<close>: the encrypted file of secrets and certificate authorities, and a handle
  on it that keeps a decrypted copy.

  The file is an option: its content with its size and modification time. The content is the
  container, or \<open>None\<close> when it is not the JSON of one. What the code takes from other packages is the
  record \<open>crypto\<close>: Argon2, XChaCha20-Poly1305 (\<open>seal\<close> and \<open>unseal\<close>), the JSON text of the header
  (the additional data) and of the document, and the length of the JSON text of a container.
  \<open>crypto_ok\<close> is what they promise: opening a sealed text with the same key, nonce and additional
  data gives the text back, and a document survives its JSON form. Nonces, salts and times are
  arguments. Every operation holds the mutex, and the writers also hold the lock file, so an
  operation is a function on the handle and the file. The handle and the file are returned by the
  failing operations too. Failures of the disk are not modelled; a copy of a record is the record.
\<close>

section \<open>State\<close>

definition format_version :: int where "format_version = 2"
definition key_derivation_name :: string where "key_derivation_name = ''argon2id''"
definition default_argon2_time :: "32 word" where "default_argon2_time = 3"
definition default_argon2_memory_kib :: "32 word" where "default_argon2_memory_kib = 65536"
definition default_argon2_threads :: "8 word" where "default_argon2_threads = 1"
definition nonce_size :: nat where "nonce_size = 24"

record vault_document =
  doc_version :: int
  doc_secrets :: "(string \<times> secret option) list"
  doc_authorities :: "(string \<times> authority option) list"

record key_derivation_parameters =
  kdf_name :: string
  kdf_time :: "32 word"
  kdf_memory_kib :: "32 word"
  kdf_threads :: "8 word"

record container_header =
  hd_version :: int
  hd_kdf :: key_derivation_parameters
  hd_salt :: string

record container =
  ct_version :: int
  ct_kdf :: key_derivation_parameters
  ct_salt :: string
  ct_nonce :: string
  ct_ciphertext :: string

record vault_file =
  vf_content :: "container option"
  vf_size :: int
  vf_mod_time :: int

record vault =
  v_key :: "string option"
  v_salt :: string
  v_kdf :: key_derivation_parameters
  v_document :: "vault_document option"
  v_loaded_mod_time :: int
  v_loaded_size :: int

record crypto =
  cr_derive :: "string \<Rightarrow> string \<Rightarrow> key_derivation_parameters \<Rightarrow> string"
  cr_seal :: "string \<Rightarrow> string \<Rightarrow> string \<Rightarrow> string \<Rightarrow> string"
  cr_unseal :: "string \<Rightarrow> string \<Rightarrow> string \<Rightarrow> string \<Rightarrow> string option"
  cr_header_json :: "container_header \<Rightarrow> string"
  cr_encode :: "vault_document \<Rightarrow> string"
  cr_decode :: "string \<Rightarrow> vault_document option"
  cr_size :: "container \<Rightarrow> int"

datatype vault_error =
  EmptyPassphrase
| VaultExists
| NoVault
| NotVaultFile
| OtherVersion int
| UnsupportedDerivation string
| UnreadableSalt
| UnreadableNonce
| UnreadableCiphertext
| WrongPassphrase
| InvalidDocument
| VaultLocked
| InvalidSecret secret_error
| NoAuthorityHost
| IncompleteAuthority string

section \<open>The file\<close>

definition header :: "container \<Rightarrow> container_header" where
  "header c = \<lparr>hd_version = ct_version c, hd_kdf = ct_kdf c, hd_salt = ct_salt c\<rparr>"

definition vault_exists :: "vault_file option \<Rightarrow> bool" where
  "vault_exists disk \<longleftrightarrow> disk \<noteq> None"

definition empty_document :: vault_document where
  "empty_document = \<lparr>doc_version = format_version, doc_secrets = [], doc_authorities = []\<rparr>"

definition read_container :: "vault_file option \<Rightarrow> (vault_error, container \<times> vault_file) result" where
  "read_container disk =
     (case disk of None \<Rightarrow> Err NoVault
      | Some file \<Rightarrow>
        (case vf_content file of None \<Rightarrow> Err NotVaultFile
         | Some parsed \<Rightarrow>
             if ct_version parsed \<noteq> format_version then Err (OtherVersion (ct_version parsed))
             else if kdf_name (ct_kdf parsed) \<noteq> key_derivation_name \<or> kdf_time (ct_kdf parsed) = 0 \<or>
               kdf_memory_kib (ct_kdf parsed) = 0 \<or> kdf_threads (ct_kdf parsed) = 0
             then Err (UnsupportedDerivation (kdf_name (ct_kdf parsed)))
             else Ok (parsed, file)))"

definition decrypt_document :: "crypto \<Rightarrow> container \<Rightarrow> string \<Rightarrow> (vault_error, vault_document) result" where
  "decrypt_document cr parsed key =
     (case base64_decode (ct_nonce parsed) of None \<Rightarrow> Err UnreadableNonce
      | Some nonce \<Rightarrow>
          if length nonce \<noteq> nonce_size then Err UnreadableNonce
          else (case base64_decode (ct_ciphertext parsed) of None \<Rightarrow> Err UnreadableCiphertext
            | Some ciphertext \<Rightarrow>
              (case cr_unseal cr key nonce ciphertext (cr_header_json cr (header parsed)) of None \<Rightarrow> Err WrongPassphrase
               | Some plaintext \<Rightarrow>
                 (case cr_decode cr plaintext of None \<Rightarrow> Err InvalidDocument | Some doc \<Rightarrow> Ok doc))))"

definition encrypt_document ::
  "crypto \<Rightarrow> vault_document \<Rightarrow> string \<Rightarrow> string \<Rightarrow> key_derivation_parameters \<Rightarrow> string \<Rightarrow> container" where
  "encrypt_document cr doc key salt parameters nonce =
     (let h = \<lparr>hd_version = format_version, hd_kdf = parameters, hd_salt = base64_encode salt\<rparr>
      in \<lparr>ct_version = hd_version h, ct_kdf = hd_kdf h, ct_salt = hd_salt h, ct_nonce = base64_encode nonce,
          ct_ciphertext = base64_encode (cr_seal cr key nonce (cr_encode cr doc) (cr_header_json cr h))\<rparr>)"

text \<open>\<open>replaceFile\<close>: the new file takes the place of the old one at once.\<close>

definition replace_file :: "crypto \<Rightarrow> container \<Rightarrow> int \<Rightarrow> vault_file" where
  "replace_file cr content now = \<lparr>vf_content = Some content, vf_size = cr_size cr content, vf_mod_time = now\<rparr>"

section \<open>The handle\<close>

definition set_loaded :: "vault_document \<Rightarrow> vault_file \<Rightarrow> vault \<Rightarrow> vault" where
  "set_loaded doc info v = v\<lparr>v_document := Some doc, v_loaded_mod_time := vf_mod_time info, v_loaded_size := vf_size info\<rparr>"

definition write_locked ::
  "crypto \<Rightarrow> vault_document \<Rightarrow> string \<Rightarrow> int \<Rightarrow> vault \<Rightarrow> vault_file option \<Rightarrow>
   (vault_error, unit) result \<times> vault \<times> vault_file option" where
  "write_locked cr doc nonce now v disk =
     (case v_key v of None \<Rightarrow> (Err VaultLocked, v, disk)
      | Some key \<Rightarrow>
          (let info = replace_file cr (encrypt_document cr doc key (v_salt v) (v_kdf v) nonce) now
           in (Ok (), set_loaded doc info v, Some info)))"

definition reload_locked :: "crypto \<Rightarrow> vault \<Rightarrow> vault_file option \<Rightarrow> (vault_error, unit) result \<times> vault" where
  "reload_locked cr v disk =
     (case v_key v of None \<Rightarrow> (Err VaultLocked, v)
      | Some key \<Rightarrow>
        (case disk of None \<Rightarrow> (Err NoVault, v\<lparr>v_document := None\<rparr>)
         | Some info \<Rightarrow>
             if v_document v \<noteq> None \<and> vf_size info = v_loaded_size v \<and> vf_mod_time info = v_loaded_mod_time v then (Ok (), v)
             else (case read_container disk of Err e \<Rightarrow> (Err e, v\<lparr>v_document := None\<rparr>)
               | Ok (parsed, info) \<Rightarrow>
                 (case decrypt_document cr parsed key of Err e \<Rightarrow> (Err e, v\<lparr>v_document := None\<rparr>)
                  | Ok doc \<Rightarrow> (Ok (), set_loaded doc info v)))))"

definition lock_and_reload :: "crypto \<Rightarrow> vault \<Rightarrow> vault_file option \<Rightarrow> (vault_error, unit) result \<times> vault" where
  "lock_and_reload cr v disk =
     (if v_key v = None then (Err VaultLocked, v) else reload_locked cr (v\<lparr>v_document := None\<rparr>) disk)"

definition create_vault ::
  "crypto \<Rightarrow> string \<Rightarrow> string \<Rightarrow> string \<Rightarrow> int \<Rightarrow> vault_file option \<Rightarrow> (vault_error, vault) result \<times> vault_file option" where
  "create_vault cr passphrase salt nonce now disk =
     (if passphrase = [] then (Err EmptyPassphrase, disk)
      else if vault_exists disk then (Err VaultExists, disk)
      else let parameters = \<lparr>kdf_name = key_derivation_name, kdf_time = default_argon2_time,
                 kdf_memory_kib = default_argon2_memory_kib, kdf_threads = default_argon2_threads\<rparr>;
               v = \<lparr>v_key = Some (cr_derive cr passphrase salt parameters), v_salt = salt, v_kdf = parameters,
                    v_document = None, v_loaded_mod_time = 0, v_loaded_size = 0\<rparr>
           in case write_locked cr empty_document nonce now v disk of
                (Err e, _, disk') \<Rightarrow> (Err e, disk') | (Ok _, v', disk') \<Rightarrow> (Ok v', disk'))"

definition open_vault :: "crypto \<Rightarrow> string \<Rightarrow> vault_file option \<Rightarrow> (vault_error, vault) result" where
  "open_vault cr passphrase disk =
     bind_res (read_container disk) (\<lambda>(parsed, info).
       case base64_decode (ct_salt parsed) of None \<Rightarrow> Err UnreadableSalt
       | Some salt \<Rightarrow>
           if salt = [] then Err UnreadableSalt
           else let key = cr_derive cr passphrase salt (ct_kdf parsed)
                in bind_res (decrypt_document cr parsed key) (\<lambda>doc.
                     Ok (set_loaded doc info \<lparr>v_key = Some key, v_salt = salt, v_kdf = ct_kdf parsed,
                           v_document = None, v_loaded_mod_time = 0, v_loaded_size = 0\<rparr>)))"

definition lock_vault_handle :: "vault \<Rightarrow> vault" where
  "lock_vault_handle v = v\<lparr>v_key := None, v_document := None\<rparr>"

section \<open>Secrets and authorities\<close>

definition vault_secret :: "crypto \<Rightarrow> string \<Rightarrow> vault \<Rightarrow> vault_file option \<Rightarrow> secret option \<times> vault" where
  "vault_secret cr name v disk =
     (case reload_locked cr v disk of
        (Err _, v') \<Rightarrow> (None, v')
      | (Ok _, v') \<Rightarrow> (case v_document v' of None \<Rightarrow> (None, v')
          | Some doc \<Rightarrow> (case map_of (doc_secrets doc) name of Some s \<Rightarrow> (s, v') | None \<Rightarrow> (None, v'))))"

definition document_secrets :: "vault_document \<Rightarrow> secret list" where
  "document_secrets doc = List.map_filter (\<lambda>name. Option.bind (map_of (doc_secrets doc) name) (\<lambda>s. s))
     (sorted_keys (filter (\<lambda>(_, s). s \<noteq> None) (doc_secrets doc)))"

definition vault_secrets :: "crypto \<Rightarrow> vault \<Rightarrow> vault_file option \<Rightarrow> secret list \<times> vault" where
  "vault_secrets cr v disk =
     (case reload_locked cr v disk of
        (Err _, v') \<Rightarrow> ([], v')
      | (Ok _, v') \<Rightarrow> (case v_document v' of None \<Rightarrow> ([], v') | Some doc \<Rightarrow> (document_secrets doc, v')))"

definition vault_authority :: "crypto \<Rightarrow> string \<Rightarrow> vault \<Rightarrow> vault_file option \<Rightarrow> authority option \<times> vault" where
  "vault_authority cr host v disk =
     (case reload_locked cr v disk of
        (Err _, v') \<Rightarrow> (None, v')
      | (Ok _, v') \<Rightarrow> (case v_document v' of None \<Rightarrow> (None, v')
          | Some doc \<Rightarrow> (case map_of (doc_authorities doc) host of Some a \<Rightarrow> (a, v') | None \<Rightarrow> (None, v'))))"

definition copy_document :: "vault_document \<Rightarrow> vault_document" where
  "copy_document doc = \<lparr>doc_version = format_version,
     doc_secrets = filter (\<lambda>(_, s). s \<noteq> None) (doc_secrets doc),
     doc_authorities = filter (\<lambda>(_, a). a \<noteq> None) (doc_authorities doc)\<rparr>"

definition put_secret ::
  "crypto \<Rightarrow> secret \<Rightarrow> string \<Rightarrow> int \<Rightarrow> vault \<Rightarrow> vault_file option \<Rightarrow>
   (vault_error, bool) result \<times> vault \<times> vault_file option" where
  "put_secret cr given nonce now v disk =
     (case validate_secret (Some given) of Err e \<Rightarrow> (Err (InvalidSecret e), v, disk)
      | Ok valid \<Rightarrow>
        (let s = (if sec_created valid = None then valid\<lparr>sec_created := Some now\<rparr> else valid)
         in case lock_and_reload cr v disk of (Err e, v1) \<Rightarrow> (Err e, v1, disk)
          | (Ok _, v1) \<Rightarrow>
            (case v_document v1 of None \<Rightarrow> (Err VaultLocked, v1, disk)
             | Some loaded \<Rightarrow>
               (let doc = copy_document loaded;
                    replaced = (map_of (doc_secrets doc) (sec_name s) \<noteq> None);
                    doc' = doc\<lparr>doc_secrets := AList.update (sec_name s) (Some s) (doc_secrets doc)\<rparr>
                in case write_locked cr doc' nonce now v1 disk of
                     (Err e, v2, disk') \<Rightarrow> (Err e, v2, disk') | (Ok _, v2, disk') \<Rightarrow> (Ok replaced, v2, disk')))))"

definition delete_secret ::
  "crypto \<Rightarrow> string \<Rightarrow> string \<Rightarrow> int \<Rightarrow> vault \<Rightarrow> vault_file option \<Rightarrow>
   (vault_error, bool) result \<times> vault \<times> vault_file option" where
  "delete_secret cr name nonce now v disk =
     (case lock_and_reload cr v disk of (Err e, v1) \<Rightarrow> (Err e, v1, disk)
      | (Ok _, v1) \<Rightarrow>
        (case v_document v1 of None \<Rightarrow> (Err VaultLocked, v1, disk)
         | Some loaded \<Rightarrow>
             if map_of (doc_secrets loaded) name = None then (Ok False, v1, disk)
             else let doc = copy_document loaded;
                      doc' = doc\<lparr>doc_secrets := AList.delete name (doc_secrets doc)\<rparr>
                  in case write_locked cr doc' nonce now v1 disk of
                       (Err e, v2, disk') \<Rightarrow> (Err e, v2, disk') | (Ok _, v2, disk') \<Rightarrow> (Ok True, v2, disk')))"

definition set_authority ::
  "crypto \<Rightarrow> string \<Rightarrow> authority option \<Rightarrow> string \<Rightarrow> int \<Rightarrow> vault \<Rightarrow> vault_file option \<Rightarrow>
   (vault_error, unit) result \<times> vault \<times> vault_file option" where
  "set_authority cr host given nonce now v disk =
     (if host = [] then (Err NoAuthorityHost, v, disk)
      else case given of None \<Rightarrow> (Err (IncompleteAuthority host), v, disk)
      | Some a \<Rightarrow>
          if au_key a = [] \<or> au_certificate a = [] then (Err (IncompleteAuthority host), v, disk)
          else let stored = (if au_created a = None then a\<lparr>au_created := Some now\<rparr> else a)
               in case lock_and_reload cr v disk of (Err e, v1) \<Rightarrow> (Err e, v1, disk)
                | (Ok _, v1) \<Rightarrow>
                  (case v_document v1 of None \<Rightarrow> (Err VaultLocked, v1, disk)
                   | Some loaded \<Rightarrow>
                     (let doc = copy_document loaded;
                          doc' = doc\<lparr>doc_authorities := AList.update host (Some stored) (doc_authorities doc)\<rparr>
                      in write_locked cr doc' nonce now v1 disk)))"

section \<open>What a vault holds\<close>

definition crypto_ok :: "crypto \<Rightarrow> bool" where
  "crypto_ok cr \<longleftrightarrow>
     (\<forall>key nonce text additional. cr_unseal cr key nonce (cr_seal cr key nonce text additional) additional = Some text) \<and>
     (\<forall>doc. cr_decode cr (cr_encode cr doc) = Some doc)"

text \<open>The document in a file, for the holder of a key.\<close>

definition stored :: "crypto \<Rightarrow> string \<Rightarrow> vault_file option \<Rightarrow> vault_document option" where
  "stored cr key disk =
     (case read_container disk of Err _ \<Rightarrow> None
      | Ok (parsed, _) \<Rightarrow> (case decrypt_document cr parsed key of Err _ \<Rightarrow> None | Ok doc \<Rightarrow> Some doc))"

definition kdf_ok :: "key_derivation_parameters \<Rightarrow> bool" where
  "kdf_ok k \<longleftrightarrow> kdf_name k = key_derivation_name \<and> kdf_time k \<noteq> 0 \<and> kdf_memory_kib k \<noteq> 0 \<and> kdf_threads k \<noteq> 0"

lemma read_container_None [simp]: "read_container None = Err NoVault"
  by (simp add: read_container_def)

lemma decrypt_encrypt:
  assumes "crypto_ok cr" "length nonce = nonce_size"
  shows "decrypt_document cr (encrypt_document cr doc key salt k nonce) key = Ok doc"
  using assms by (simp add: decrypt_document_def encrypt_document_def header_def crypto_ok_def Let_def)

lemma read_encrypted:
  assumes "kdf_ok k"
  shows "read_container (Some (replace_file cr (encrypt_document cr doc key salt k nonce) now)) =
     Ok (encrypt_document cr doc key salt k nonce, replace_file cr (encrypt_document cr doc key salt k nonce) now)"
  using assms by (simp add: read_container_def replace_file_def encrypt_document_def Let_def kdf_ok_def)

lemma stored_written:
  assumes "crypto_ok cr" "length nonce = nonce_size" "kdf_ok k"
  shows "stored cr key (Some (replace_file cr (encrypt_document cr doc key salt k nonce) now)) = Some doc"
  by (simp add: stored_def read_encrypted [OF assms(3)] decrypt_encrypt [OF assms(1,2)])

lemma reload_fresh:
  assumes "v_key v = Some key" "v_document v = None" "stored cr key disk = Some doc"
  shows "\<exists>v'. reload_locked cr v disk = (Ok (), v') \<and> v_document v' = Some doc \<and> v_key v' = Some key \<and>
    v_salt v' = v_salt v \<and> v_kdf v' = v_kdf v"
  using assms by (auto simp: stored_def reload_locked_def set_loaded_def split: sum.splits prod.splits option.splits)

lemma lock_and_reload_Ok:
  assumes "v_key v = Some key" "stored cr key disk = Some doc"
  shows "\<exists>v'. lock_and_reload cr v disk = (Ok (), v') \<and> v_document v' = Some doc \<and> v_key v' = Some key \<and>
    v_salt v' = v_salt v \<and> v_kdf v' = v_kdf v"
  using reload_fresh [of "v\<lparr>v_document := None\<rparr>" key cr disk doc] assms by (simp add: lock_and_reload_def)

text \<open>A handle after a write: its copy is the document of the file, so that reads do not decrypt.\<close>

lemma write_locked_Ok:
  assumes "v_key v = Some key"
  shows "\<exists>v' info. write_locked cr doc nonce now v disk = (Ok (), v', Some info) \<and> v_key v' = Some key \<and>
    v_salt v' = v_salt v \<and> v_kdf v' = v_kdf v \<and> v_document v' = Some doc \<and>
    info = replace_file cr (encrypt_document cr doc key (v_salt v) (v_kdf v) nonce) now \<and>
    reload_locked cr v' (Some info) = (Ok (), v')"
  using assms by (simp add: write_locked_def set_loaded_def reload_locked_def Let_def)

lemma put_secret_spec:
  fixes now :: int
  assumes "crypto_ok cr" "v_key v = Some key" "stored cr key disk = Some doc" "kdf_ok (v_kdf v)"
    and "length nonce = nonce_size" "validate_secret (Some given) = Ok s"
  defines "s' \<equiv> (if sec_created s = None then s\<lparr>sec_created := Some now\<rparr> else s)"
  defines "doc' \<equiv> (copy_document doc)\<lparr>doc_secrets := AList.update (sec_name given) (Some s') (doc_secrets (copy_document doc))\<rparr>"
  shows "\<exists>v' disk'. put_secret cr given nonce now v disk =
      (Ok (map_of (doc_secrets (copy_document doc)) (sec_name given) \<noteq> None), v', disk') \<and>
    stored cr key disk' = Some doc' \<and> v_key v' = Some key \<and> v_document v' = Some doc' \<and> v_kdf v' = v_kdf v \<and> v_salt v' = v_salt v \<and>
    reload_locked cr v' disk' = (Ok (), v')"
proof -
  obtain v1 where v1: "lock_and_reload cr v disk = (Ok (), v1)" "v_document v1 = Some doc" "v_key v1 = Some key"
    "v_salt v1 = v_salt v" "v_kdf v1 = v_kdf v"
    using lock_and_reload_Ok [OF assms(2,3)] by blast
  have n: "sec_name s' = sec_name given" using validate_secret_ok [OF assms(6)] by (simp add: s'_def)
  obtain v2 info where w: "write_locked cr doc' nonce now v1 disk = (Ok (), v2, Some info)" "v_key v2 = Some key"
    "v_salt v2 = v_salt v1" "v_kdf v2 = v_kdf v1" "v_document v2 = Some doc'"
    "info = replace_file cr (encrypt_document cr doc' key (v_salt v1) (v_kdf v1) nonce) now"
    "reload_locked cr v2 (Some info) = (Ok (), v2)"
    using write_locked_Ok [OF v1(3)] by blast
  have "put_secret cr given nonce now v disk = (Ok (map_of (doc_secrets (copy_document doc)) (sec_name given) \<noteq> None), v2, Some info)"
    unfolding put_secret_def assms(6) sum.case Let_def s'_def [symmetric] v1(1) prod.case v1(2) option.case n doc'_def [symmetric] w(1) ..
  moreover have "stored cr key (Some info) = Some doc'"
    unfolding w(6) using stored_written assms(1,4,5) v1(5) by simp
  ultimately show ?thesis using w v1 by auto
qed

lemma delete_secret_spec:
  assumes "crypto_ok cr" "v_key v = Some key" "stored cr key disk = Some doc" "kdf_ok (v_kdf v)" "length nonce = nonce_size"
    and "map_of (doc_secrets doc) name \<noteq> None"
  defines "doc' \<equiv> (copy_document doc)\<lparr>doc_secrets := AList.delete name (doc_secrets (copy_document doc))\<rparr>"
  shows "\<exists>v' disk'. delete_secret cr name nonce now v disk = (Ok True, v', disk') \<and>
    stored cr key disk' = Some doc' \<and> v_key v' = Some key \<and> v_kdf v' = v_kdf v \<and> reload_locked cr v' disk' = (Ok (), v') \<and>
    v_document v' = Some doc'"
proof -
  obtain v1 where v1: "lock_and_reload cr v disk = (Ok (), v1)" "v_document v1 = Some doc" "v_key v1 = Some key"
    "v_salt v1 = v_salt v" "v_kdf v1 = v_kdf v"
    using lock_and_reload_Ok [OF assms(2,3)] by blast
  obtain v2 info where w: "write_locked cr doc' nonce now v1 disk = (Ok (), v2, Some info)" "v_key v2 = Some key"
    "v_kdf v2 = v_kdf v1" "v_document v2 = Some doc'"
    "info = replace_file cr (encrypt_document cr doc' key (v_salt v1) (v_kdf v1) nonce) now"
    "reload_locked cr v2 (Some info) = (Ok (), v2)"
    using write_locked_Ok [OF v1(3)] by blast
  have "delete_secret cr name nonce now v disk = (Ok True, v2, Some info)"
    unfolding delete_secret_def Let_def v1(1) prod.case sum.case v1(2) option.case if_not_P [OF assms(6)] doc'_def [symmetric] w(1) ..
  moreover have "stored cr key (Some info) = Some doc'"
    unfolding w(5) using stored_written assms(1,4,5) v1(5) by simp
  ultimately show ?thesis using w v1 by auto
qed

definition well_keyed :: "vault_document \<Rightarrow> bool" where
  "well_keyed doc \<longleftrightarrow> distinct (map fst (doc_secrets doc))"

lemma map_of_copy:
  "well_keyed doc \<Longrightarrow> map_of (doc_secrets (copy_document doc)) n =
     (case map_of (doc_secrets doc) n of Some (Some s) \<Rightarrow> Some (Some s) | _ \<Rightarrow> None)"
proof -
  have "distinct (map fst al) \<Longrightarrow> map_of (filter (\<lambda>(_, s). s \<noteq> None) al) n =
      (case map_of al n of Some (Some s) \<Rightarrow> Some (Some s) | _ \<Rightarrow> None)" for al :: "(string \<times> secret option) list"
    by (induction al) (auto split: option.splits dest: map_of_SomeD simp: image_iff map_of_eq_None_iff)
  then show "well_keyed doc \<Longrightarrow> ?thesis" by (simp add: well_keyed_def copy_document_def)
qed

lemma secret_after:
  assumes "reload_locked cr v disk = (Ok (), v)" "v_document v = Some doc"
  shows "fst (vault_secret cr n v disk) = (case map_of (doc_secrets doc) n of Some s \<Rightarrow> s | None \<Rightarrow> None)"
  using assms by (simp add: vault_secret_def split: option.splits)

lemmas doc_lookup = update_conv' delete_conv'

text \<open>Every secret of a document is well formed and has its key as its name.\<close>

definition document_ok :: "vault_document \<Rightarrow> bool" where
  "document_ok doc \<longleftrightarrow> well_keyed doc \<and> (\<forall>n s. map_of (doc_secrets doc) n = Some (Some s) \<longrightarrow> secret_ok s \<and> sec_name s = n)"

lemma secret_ok_created: "secret_ok s \<Longrightarrow> secret_ok (s\<lparr>sec_created := c\<rparr>)"
  by (simp add: secret_ok_def)

lemma document_ok_copy: "document_ok doc \<Longrightarrow> document_ok (copy_document doc)"
  unfolding document_ok_def
  by (auto simp: map_of_copy split: option.splits) (simp add: well_keyed_def copy_document_def distinct_map_filter)

lemma distinct_update: "distinct (map fst al) \<Longrightarrow> distinct (map fst (AList.update k v al))"
  by (rule distinct_update)

lemma document_ok_put:
  assumes "document_ok doc" "secret_ok s" "sec_name s = n"
  shows "document_ok (doc\<lparr>doc_secrets := AList.update n (Some s) (doc_secrets doc)\<rparr>)"
  using assms by (auto simp: document_ok_def well_keyed_def doc_lookup AList.distinct_update)

lemma document_ok_delete: "document_ok doc \<Longrightarrow> document_ok (doc\<lparr>doc_secrets := AList.delete n (doc_secrets doc)\<rparr>)"
  by (auto simp: document_ok_def well_keyed_def doc_lookup distinct_delete)

section \<open>Properties\<close>

text \<open>A secret that is stored can be read back, whatever the handle had in its copy before. The
  handle reads the validated record, with its time of creation, and every other name reads as the
  file had it; the answer says whether the name had a secret.\<close>

theorem put_then_read:
  assumes "crypto_ok cr" "v_key v = Some key" "stored cr key disk = Some doc" "kdf_ok (v_kdf v)" "well_keyed doc"
    and "length nonce = nonce_size" "validate_secret (Some given) = Ok s"
  shows "\<exists>replaced v' disk'. put_secret cr given nonce now v disk = (Ok replaced, v', disk') \<and>
    replaced = (\<exists>old. map_of (doc_secrets doc) (sec_name given) = Some (Some old)) \<and>
    fst (vault_secret cr (sec_name given) v' disk') = Some (if sec_created s = None then s\<lparr>sec_created := Some now\<rparr> else s) \<and>
    (\<forall>n. n \<noteq> sec_name given \<longrightarrow> fst (vault_secret cr n v' disk') =
       (case map_of (doc_secrets doc) n of Some x \<Rightarrow> x | None \<Rightarrow> None))"
proof -
  let ?s = "if sec_created s = None then s\<lparr>sec_created := Some now\<rparr> else s"
  let ?doc = "(copy_document doc)\<lparr>doc_secrets := AList.update (sec_name given) (Some ?s) (doc_secrets (copy_document doc))\<rparr>"
  obtain v' disk' where p: "put_secret cr given nonce now v disk =
      (Ok (map_of (doc_secrets (copy_document doc)) (sec_name given) \<noteq> None), v', disk')"
    "v_document v' = Some ?doc" "reload_locked cr v' disk' = (Ok (), v')"
    using put_secret_spec [OF assms(1-4,6,7), of now] by blast
  have r: "(map_of (doc_secrets (copy_document doc)) (sec_name given) \<noteq> None) =
      (\<exists>old. map_of (doc_secrets doc) (sec_name given) = Some (Some old))"
    using map_of_copy [OF assms(5)] by (auto split: option.splits)
  have "fst (vault_secret cr n v' disk') = (if n = sec_name given then Some ?s
      else case map_of (doc_secrets doc) n of Some x \<Rightarrow> x | None \<Rightarrow> None)" for n
    using secret_after [OF p(3,2), of n] map_of_copy [OF assms(5), of n]
    by (auto simp: doc_lookup split: option.splits)
  then show ?thesis using p(1) r by auto
qed


text \<open>Every secret of a vault is well formed and stands under its own name: a new vault is so, and
  storing and removing secrets keep it so.\<close>

theorem vault_secrets_ok:
  assumes "crypto_ok cr" "v_key v = Some key" "stored cr key disk = Some doc" "kdf_ok (v_kdf v)"
    and "length nonce = nonce_size" "document_ok doc"
  shows "document_ok empty_document \<and>
    (case put_secret cr given nonce now v disk of (r, v', disk') \<Rightarrow> \<exists>doc'. stored cr key disk' = Some doc' \<and> document_ok doc') \<and>
    (case delete_secret cr name nonce now v disk of (r, v', disk') \<Rightarrow> \<exists>doc'. stored cr key disk' = Some doc' \<and> document_ok doc')"
proof (intro conjI)
  show "document_ok empty_document" by (simp add: document_ok_def well_keyed_def empty_document_def)
  show "case put_secret cr given nonce now v disk of (r, v', disk') \<Rightarrow> \<exists>doc'. stored cr key disk' = Some doc' \<and> document_ok doc'"
  proof (cases "validate_secret (Some given)")
    case (Inl e)
    then show ?thesis using assms(3,6) by (simp add: put_secret_def)
  next
    case (Inr s)
    let ?s = "if sec_created s = None then s\<lparr>sec_created := Some now\<rparr> else s"
    have "secret_ok ?s" "sec_name ?s = sec_name given" using validate_secret_ok [OF Inr] secret_ok_created by auto
    then have "document_ok ((copy_document doc)\<lparr>doc_secrets := AList.update (sec_name given) (Some ?s) (doc_secrets (copy_document doc))\<rparr>)"
      by (intro document_ok_put document_ok_copy assms(6))
    then show ?thesis using put_secret_spec [OF assms(1-5) Inr, of now] by auto
  qed
  show "case delete_secret cr name nonce now v disk of (r, v', disk') \<Rightarrow> \<exists>doc'. stored cr key disk' = Some doc' \<and> document_ok doc'"
  proof (cases "map_of (doc_secrets doc) name = None")
    case True
    obtain v1 where "lock_and_reload cr v disk = (Ok (), v1)" "v_document v1 = Some doc"
      using lock_and_reload_Ok [OF assms(2,3)] by blast
    then show ?thesis using True assms(3,6) by (simp add: delete_secret_def)
  next
    case False
    then show ?thesis
      using delete_secret_spec [OF assms(1-5) False, of now] document_ok_delete [OF document_ok_copy [OF assms(6)]] by auto
  qed
qed

section \<open>Witnesses\<close>

text \<open>The records as tuples, which the library can number. A document is written as its number; the
  cipher puts the key, the nonce and the additional data before the text. They stand in for JSON and
  XChaCha20-Poly1305 to show that \<open>crypto_ok\<close> can hold.\<close>

definition route_tuple where
  "route_tuple r = (rs_upstream r, rs_path_prefix r, rs_header r, rs_prefix r, rs_base_url_variable r,
     rs_token_variable r, rs_token_placeholder r, rs_methods r, rs_rate_limit r, rs_intercept r)"

definition tuple_route :: "_ \<Rightarrow> route_spec" where
  "tuple_route = (\<lambda>(u, p, h, x, b, t, o1, m, l, i). \<lparr>rs_upstream = u, rs_path_prefix = p, rs_header = h, rs_prefix = x,
     rs_base_url_variable = b, rs_token_variable = t, rs_token_placeholder = o1, rs_methods = m, rs_rate_limit = l,
     rs_intercept = i\<rparr>)"

definition secret_tuple where
  "secret_tuple s = (sec_name s, sec_description s, sec_mode s, sec_created s, sec_value s, map_option route_tuple (sec_route s),
     map_option (\<lambda>g. (ss_algorithm g, ss_fingerprint g, ss_namespace g, ss_rate_limit g)) (sec_sign s),
     map_option es_variable (sec_expose s))"

definition tuple_secret :: "_ \<Rightarrow> secret" where
  "tuple_secret = (\<lambda>(n, d, m, c, v, r, g, x). \<lparr>sec_name = n, sec_description = d, sec_mode = m, sec_created = c, sec_value = v,
     sec_route = map_option tuple_route r,
     sec_sign = map_option (\<lambda>(a, f, n, l). \<lparr>ss_algorithm = a, ss_fingerprint = f, ss_namespace = n, ss_rate_limit = l\<rparr>) g,
     sec_expose = map_option (\<lambda>v. \<lparr>es_variable = v\<rparr>) x\<rparr>)"

definition document_tuple where
  "document_tuple doc = (doc_version doc, map (map_prod id (map_option secret_tuple)) (doc_secrets doc),
     map (map_prod id (map_option (\<lambda>a. (au_key a, au_certificate a, au_created a)))) (doc_authorities doc))"

definition tuple_document :: "_ \<Rightarrow> vault_document" where
  "tuple_document = (\<lambda>(v, s, a). \<lparr>doc_version = v, doc_secrets = map (map_prod id (map_option tuple_secret)) s,
     doc_authorities = map (map_prod id (map_option (\<lambda>(k, c, t). \<lparr>au_key = k, au_certificate = c, au_created = t\<rparr>))) a\<rparr>)"

lemma tuple_route_route [simp]: "tuple_route (route_tuple r) = r"
  by (simp add: tuple_route_def route_tuple_def)

lemma tuple_secret_secret [simp]: "tuple_secret (secret_tuple s) = s"
  by (cases s) (auto simp: tuple_secret_def secret_tuple_def option.map_comp comp_def intro!: option.map_ident_strong)

lemma tuple_document_document [simp]: "tuple_document (document_tuple doc) = doc"
  by (cases doc) (auto simp: tuple_document_def document_tuple_def option.map_comp comp_def intro!: map_idI option.map_ident_strong)

definition example_crypto :: crypto where
  "example_crypto = \<lparr>cr_derive = (\<lambda>passphrase salt parameters. passphrase @ salt),
     cr_seal = (\<lambda>key nonce text additional. (key @ nonce @ additional) @ text),
     cr_unseal = (\<lambda>key nonce ciphertext additional.
       if has_prefix ciphertext (key @ nonce @ additional) then Some (trim_prefix ciphertext (key @ nonce @ additional)) else None),
     cr_header_json = hd_salt, cr_encode = (\<lambda>doc. nat_text (to_nat (document_tuple doc))),
     cr_decode = (\<lambda>text. map_option (\<lambda>n. tuple_document (from_nat n)) (parse_digits text)), cr_size = (\<lambda>c. int (length (ct_ciphertext c)))\<rparr>"

lemma example_crypto_ok: "crypto_ok example_crypto"
  using has_prefix_append trim_prefix_append by (simp add: crypto_ok_def example_crypto_def del: append_assoc)

definition example_kdf :: key_derivation_parameters where
  "example_kdf = \<lparr>kdf_name = key_derivation_name, kdf_time = 3, kdf_memory_kib = 65536, kdf_threads = 1\<rparr>"

definition example_nonce :: string where "example_nonce = replicate 24 CHR ''n''"

definition example_disk :: "vault_file option" where
  "example_disk = Some (replace_file example_crypto
     (encrypt_document example_crypto empty_document ''ps'' ''s'' example_kdf example_nonce) 7)"

definition example_vault :: vault where
  "example_vault = \<lparr>v_key = Some ''ps'', v_salt = ''s'', v_kdf = example_kdf, v_document = None,
     v_loaded_mod_time = 0, v_loaded_size = 0\<rparr>"

lemma example_vault_ok:
  "v_key example_vault = Some ''ps''" "kdf_ok (v_kdf example_vault)" "length example_nonce = nonce_size"
  "stored example_crypto ''ps'' example_disk = Some empty_document" "well_keyed empty_document" "document_ok empty_document"
proof -
  show k: "kdf_ok (v_kdf example_vault)" by (simp add: example_vault_def example_kdf_def kdf_ok_def)
  show n: "length example_nonce = nonce_size" by (simp add: example_nonce_def nonce_size_def)
  show "stored example_crypto ''ps'' example_disk = Some empty_document"
    unfolding example_disk_def using stored_written [OF example_crypto_ok n, of example_kdf] k by (simp add: example_vault_def)
qed (simp_all add: example_vault_def well_keyed_def document_ok_def empty_document_def)

definition example_exposed :: "string \<Rightarrow> secret" where
  "example_exposed name = \<lparr>sec_name = name, sec_description = [], sec_mode = mode_expose, sec_created = None, sec_value = ''v'',
     sec_route = None, sec_sign = None, sec_expose = Some \<lparr>es_variable = ''KEY''\<rparr>\<rparr>"

lemma example_exposed_ok:
  "validate_secret (Some (example_exposed ''one'')) = Ok (example_exposed ''one'')"
  "validate_secret (Some (example_exposed ''two'')) = Ok (example_exposed ''two'')"
  by code_simp+

theorem put_then_read_witness:
  "\<exists>replaced v' disk'. put_secret example_crypto (example_exposed ''one'') example_nonce 9 example_vault example_disk = (Ok replaced, v', disk') \<and>
     replaced = False \<and> fst (vault_secret example_crypto ''one'' v' disk') = Some ((example_exposed ''one'')\<lparr>sec_created := Some 9\<rparr>)"
  using put_then_read [OF example_crypto_ok example_vault_ok(1,4,2,5,3) example_exposed_ok(1), of 9]
  by (auto simp: example_exposed_def empty_document_def)


theorem vault_secrets_ok_witness:
  "case put_secret example_crypto (example_exposed ''one'') example_nonce 9 example_vault example_disk of
     (r, v', disk') \<Rightarrow> \<exists>doc'. stored example_crypto ''ps'' disk' = Some doc' \<and> document_ok doc'"
  using vault_secrets_ok [OF example_crypto_ok example_vault_ok(1,4,2,3,6)] by simp

end
