(* ===== verification/Broker_Projects.thy ===== *)
theory Broker_Projects
  imports State_Root Vault Broker_Protocol
begin

text \<open>
  \<open>internal/broker/projects.go\<close>: the table of project snapshots, its reloads, and the floor of
  the egress policy.

  A snapshot is what the broker knows of a project: its token, its grants, its profile and its
  egress patterns. The table is replaced as a whole by every reload. A \<open>nil\<close> entry that the
  code would follow is the outer \<open>None\<close> of \<open>lookup_token\<close>; the invariant \<open>table_ok\<close> excludes it.
  The lemmas show that every reload keeps the invariant, that a token is accepted exactly when
  it is the token of a project, and that a reload brings the table to what is on disk.
\<close>

section \<open>The state\<close>

record snapshot =
  sn_id :: string
  sn_token :: string
  sn_grants :: "string list"
  sn_granted :: "string list"
  sn_profile :: "profile option"
  sn_profile_egress :: "pattern list"
  sn_egress :: "pattern list"
  sn_mod_times :: "(string \<times> int) list"

record project_table =
  tb_by_id :: "(string \<times> snapshot) list"
  tb_ids :: "string list"

record floor_state =
  fl_patterns :: "pattern list option"
  fl_stamp :: string

text \<open>The lines of the broker's own log.\<close>

datatype log_line = SkippedEgress string string pattern_error | LoadError string state_error | Failure state_error

text \<open>What the broker reads: the disk, the JSON forms and the state root.\<close>

record site =
  st_json :: json_forms
  st_root :: root
  st_disk :: disk

record projects_state =
  ps_table :: project_table
  ps_floor :: floor_state
  ps_errors :: "(string \<times> state_error) list"
  ps_log :: "log_line list"

definition sorted_ids :: "(string \<times> snapshot) list \<Rightarrow> string list" where
  "sorted_ids by_id = sorted_keys by_id"

definition empty_table :: project_table where "empty_table = \<lparr>tb_by_id = [], tb_ids = []\<rparr>"

definition snapshot_of :: "project_table \<Rightarrow> string \<Rightarrow> snapshot option" where
  "snapshot_of t i = map_of (tb_by_id t) i"

text \<open>The loop of \<open>lookupToken\<close>, which does not stop at a match.\<close>

fun token_loop :: "project_table \<Rightarrow> string \<Rightarrow> string list \<Rightarrow> snapshot option \<Rightarrow> snapshot option option" where
  "token_loop t candidate [] found = Some found"
| "token_loop t candidate (i # ids) found =
     (case snapshot_of t i of None \<Rightarrow> None
      | Some s \<Rightarrow> if sn_token s = [] then token_loop t candidate ids found
          else token_loop t candidate ids (if candidate = sn_token s then Some s else found))"

definition lookup_token :: "project_table \<Rightarrow> string \<Rightarrow> snapshot option option" where
  "lookup_token t token = token_loop t token (tb_ids t) None"

definition with_project :: "string \<Rightarrow> snapshot option \<Rightarrow> project_table \<Rightarrow> project_table" where
  "with_project i s t =
     (let kept = AList.delete i (tb_by_id t);
          by_id = (case s of None \<Rightarrow> kept | Some x \<Rightarrow> kept @ [(i, x)])
      in \<lparr>tb_by_id = by_id, tb_ids = sorted_ids by_id\<rparr>)"

section \<open>Loading a project\<close>

text \<open>The entries of a profile that parse, and the log lines of the others.\<close>

fun profile_patterns :: "string \<Rightarrow> string list \<Rightarrow> pattern list \<times> log_line list" where
  "profile_patterns i [] = ([], [])"
| "profile_patterns i (entry # entries) =
     (case profile_patterns i entries of (ps, lines) \<Rightarrow>
        (case parse_pattern entry of Err e \<Rightarrow> (ps, SkippedEgress i entry e # lines) | Ok p \<Rightarrow> (p # ps, lines)))"

definition load_project :: "site \<Rightarrow> project \<Rightarrow> (state_error, snapshot \<times> log_line list) result" where
  "load_project site p =
     bind_res (mod_times p (st_disk site)) (\<lambda>stamps.
     bind_res (token_if_present p (st_disk site)) (\<lambda>token.
     bind_res (project_grants p (st_disk site)) (\<lambda>grants.
     bind_res (egress_allow p (st_disk site)) (\<lambda>egress.
     bind_res (load_profile (st_json site) p (st_disk site)) (\<lambda>pf.
       (let parsed = (case pf of None \<Rightarrow> ([], []) | Some x \<Rightarrow> profile_patterns (prj_id p) (pf_egress x))
        in Ok (\<lparr>sn_id = prj_id p, sn_token = (case token of None \<Rightarrow> [] | Some x \<Rightarrow> x), sn_grants = grants,
                sn_granted = remdups grants, sn_profile = pf, sn_profile_egress = fst parsed, sn_egress = egress,
                sn_mod_times = stamps\<rparr>, snd parsed)))))))"

text \<open>\<open>noteLoadError\<close>: each distinct error of a project is logged once.\<close>

definition note_load_error :: "string \<Rightarrow> state_error \<Rightarrow> projects_state \<Rightarrow> projects_state" where
  "note_load_error i e b =
     (if map_of (ps_errors b) i = Some e then b
      else b\<lparr>ps_errors := AList.update i e (ps_errors b), ps_log := ps_log b @ [LoadError i e]\<rparr>)"

definition clear_load_error :: "string \<Rightarrow> projects_state \<Rightarrow> projects_state" where
  "clear_load_error i b = b\<lparr>ps_errors := AList.delete i (ps_errors b)\<rparr>"

definition log_all :: "log_line list \<Rightarrow> projects_state \<Rightarrow> projects_state" where
  "log_all lines b = b\<lparr>ps_log := ps_log b @ lines\<rparr>"

definition reload_project :: "site \<Rightarrow> string \<Rightarrow> projects_state \<Rightarrow> state_error option \<times> projects_state" where
  "reload_project site i b =
     (case project_by_id (st_root site) i (st_disk site) of
        Err _ \<Rightarrow> (None, b\<lparr>ps_table := with_project i None (ps_table b)\<rparr>)
      | Ok p \<Rightarrow>
        (case load_project site p of
           Err e \<Rightarrow> (Some e, note_load_error i e b)
         | Ok (s, lines) \<Rightarrow>
             (None, (clear_load_error i (log_all lines b))\<lparr>ps_table := with_project i (Some s) (ps_table b)\<rparr>)))"

text \<open>The loop of \<open>reloadAll\<close>: the new snapshots, the first error, and the log.\<close>

fun reload_each ::
  "site \<Rightarrow> project_table \<Rightarrow> project list \<Rightarrow> (string \<times> snapshot) list \<Rightarrow> state_error option \<Rightarrow> projects_state \<Rightarrow>
   (string \<times> snapshot) list \<times> state_error option \<times> projects_state" where
  "reload_each site previous [] by_id first b = (by_id, first, b)"
| "reload_each site previous (p # ps) by_id first b =
     (case load_project site p of
        Err e \<Rightarrow> reload_each site previous ps
          (case snapshot_of previous (prj_id p) of None \<Rightarrow> by_id | Some kept \<Rightarrow> AList.update (prj_id p) kept by_id)
          (if first = None then Some e else first) (note_load_error (prj_id p) e b)
      | Ok (s, lines) \<Rightarrow> reload_each site previous ps (AList.update (prj_id p) s by_id) first
          (clear_load_error (prj_id p) (log_all lines b)))"

definition reload_all :: "site \<Rightarrow> projects_state \<Rightarrow> state_error option \<times> projects_state" where
  "reload_all site b =
     (case list_projects (st_root site) (st_disk site) of
        Err e \<Rightarrow> (Some e, b)
      | Ok projects \<Rightarrow>
        (case reload_each site (ps_table b) projects [] None b of (by_id, first, b') \<Rightarrow>
           (first, b'\<lparr>ps_table := \<lparr>tb_by_id = by_id, tb_ids = sorted_ids by_id\<rparr>\<rparr>)))"

section \<open>The floor\<close>

definition default_patterns :: "pattern list" where
  "default_patterns = (case default_floor of Ok ps \<Rightarrow> ps | Err _ \<Rightarrow> [])"

definition file_stamp :: "disk \<Rightarrow> string \<Rightarrow> string" where
  "file_stamp d path = (case stat_file d path of
       Ok (SFile data t) \<Rightarrow> itoa (int (length data)) @ '':'' @ itoa t
     | Ok (SDir t) \<Rightarrow> ''0:'' @ itoa t
     | Err _ \<Rightarrow> ''absent'')"

definition reload_floor :: "site \<Rightarrow> projects_state \<Rightarrow> projects_state" where
  "reload_floor site b =
     (let stamp = file_stamp (st_disk site) (floor_file (st_root site)); current = ps_floor b in
      if fl_patterns current \<noteq> None \<and> fl_stamp current = stamp then b
      else (case floor_allow_list (st_root site) (st_disk site) of
          Err e \<Rightarrow>
            (let b' = log_all [Failure e] b
             in if fl_patterns current \<noteq> None then b'
                else b'\<lparr>ps_floor := \<lparr>fl_patterns = Some default_patterns, fl_stamp = stamp\<rparr>\<rparr>)
        | Ok patterns \<Rightarrow>
            b\<lparr>ps_floor := \<lparr>fl_patterns = Some (if patterns = [] then default_patterns else patterns), fl_stamp = stamp\<rparr>\<rparr>))"

section \<open>Polling\<close>

definition same_mod_times :: "(string \<times> int) list \<Rightarrow> (string \<times> int) list \<Rightarrow> bool" where
  "same_mod_times before after \<longleftrightarrow>
     length before = length after \<and> list_all (\<lambda>(name, t). map_of after name = Some t) before"

fun poll_each :: "site \<Rightarrow> project_table \<Rightarrow> project list \<Rightarrow> projects_state \<Rightarrow> projects_state" where
  "poll_each site t [] b = b"
| "poll_each site t (p # ps) b =
     (case mod_times p (st_disk site) of
        Err e \<Rightarrow> poll_each site t ps (log_all [Failure e] b)
      | Ok stamps \<Rightarrow>
          (if (case snapshot_of t (prj_id p) of None \<Rightarrow> False | Some s \<Rightarrow> same_mod_times (sn_mod_times s) stamps)
           then poll_each site t ps b
           else poll_each site t ps (snd (reload_project site (prj_id p) b))))"

fun drop_unseen :: "site \<Rightarrow> string list \<Rightarrow> string list \<Rightarrow> projects_state \<Rightarrow> projects_state" where
  "drop_unseen site seen [] b = b"
| "drop_unseen site seen (i # ids) b =
     drop_unseen site seen ids (if i \<in> set seen then b else snd (reload_project site i b))"

definition poll_once :: "site \<Rightarrow> projects_state \<Rightarrow> projects_state" where
  "poll_once site b0 =
     (let b = reload_floor site b0 in
      case list_projects (st_root site) (st_disk site) of
        Err e \<Rightarrow> log_all [Failure e] b
      | Ok projects \<Rightarrow>
          (let t = ps_table b
           in drop_unseen site (map prj_id projects) (tb_ids t) (poll_each site t projects b)))"

section \<open>The table invariant\<close>

definition table_ok :: "project_table \<Rightarrow> bool" where
  "table_ok t \<longleftrightarrow> distinct (map fst (tb_by_id t)) \<and> tb_ids t = sort (map fst (tb_by_id t)) \<and>
     (\<forall>(i, s)\<in>set (tb_by_id t). sn_id s = i)"

lemma sorted_ids_distinct: "distinct (map fst by_id) \<Longrightarrow> sorted_ids by_id = sort (map fst by_id)"
  by (simp add: sorted_ids_def sorted_keys_def distinct_remdups_id)

lemma table_okI: "distinct (map fst by_id) \<Longrightarrow> \<forall>(i, s)\<in>set by_id. sn_id s = i \<Longrightarrow>
   table_ok \<lparr>tb_by_id = by_id, tb_ids = sorted_ids by_id\<rparr>"
  by (simp add: table_ok_def sorted_ids_distinct)

lemma set_update: "(i, s) \<in> set (AList.update k v xs) \<Longrightarrow> (i, s) = (k, v) \<or> (i, s) \<in> set xs"
  by (induction xs) (auto split: if_splits)

lemma delete_subset: "set (AList.delete k xs) \<subseteq> set xs"
  by (auto simp: AList.delete_eq)

lemma empty_table_ok: "table_ok empty_table"
  by (simp add: table_ok_def empty_table_def)

lemma with_project_ok:
  assumes "table_ok t" "\<forall>x. s = Some x \<longrightarrow> sn_id x = i"
  shows "table_ok (with_project i s t)"
proof -
  have d: "distinct (map fst (AList.delete i (tb_by_id t)))"
    using assms(1) by (simp add: table_ok_def AList.distinct_delete)
  have n: "i \<notin> fst ` set (AList.delete i (tb_by_id t))" by (auto simp: AList.delete_eq)
  have v: "\<forall>(j, x)\<in>set (AList.delete i (tb_by_id t)). sn_id x = j"
    using assms(1) delete_subset unfolding table_ok_def by fast
  show ?thesis
  proof (cases s)
    case None
    then show ?thesis unfolding with_project_def Let_def using table_okI [OF d v] by simp
  next
    case (Some x)
    have "distinct (map fst (AList.delete i (tb_by_id t) @ [(i, x)]))" using d n by simp
    moreover have "\<forall>(j, y)\<in>set (AList.delete i (tb_by_id t) @ [(i, x)]). sn_id y = j" using v assms(2) Some by simp
    ultimately show ?thesis unfolding with_project_def Let_def using table_okI Some by simp
  qed
qed

lemma snapshot_with: "snapshot_of (with_project i s t) j = (if j = i then s else snapshot_of t j)"
  by (auto simp: snapshot_of_def with_project_def Let_def map_of_delete map_add_def AList.delete_conv' split: option.splits)

lemma load_project_id: "load_project site p = Ok (s, lines) \<Longrightarrow> sn_id s = prj_id p"
  by (auto simp: load_project_def bind_res_Ok Let_def)

lemma project_by_id_id: "project_by_id r i d = Ok p \<Longrightarrow> prj_id p = i \<and> p = known_project r i"
  by (auto simp: project_by_id_def known_project_def split: if_splits)

lemma note_table [simp]: "ps_table (note_load_error i e b) = ps_table b" "ps_table (clear_load_error i b) = ps_table b"
    "ps_table (log_all lines b) = ps_table b"
  by (simp_all add: note_load_error_def clear_load_error_def log_all_def)

lemma reload_project_ok: "table_ok (ps_table b) \<Longrightarrow> table_ok (ps_table (snd (reload_project site i b)))"
  using with_project_ok project_by_id_id load_project_id
  by (fastforce simp: reload_project_def split: sum.splits prod.splits)


lemma reload_each_ok:
  "reload_each site previous ps by_id first b = (by_id', first', b') \<Longrightarrow> table_ok previous \<Longrightarrow>
   distinct (map fst by_id) \<Longrightarrow> \<forall>(i, s)\<in>set by_id. sn_id s = i \<Longrightarrow>
   distinct (map fst by_id') \<and> (\<forall>(i, s)\<in>set by_id'. sn_id s = i)"
proof (induction site previous ps by_id first b rule: reload_each.induct)
  case (2 site previous p ps by_id first b)
  have upd: "distinct (map fst (AList.update (prj_id p) s by_id)) \<and> (\<forall>(i, x)\<in>set (AList.update (prj_id p) s by_id). sn_id x = i)"
    if "sn_id s = prj_id p" for s
    using that "2.prems"(3,4) by (auto simp: distinct_update dest!: set_update)
  show ?case
  proof (cases "load_project site p")
    case (Inl e)
    show ?thesis
    proof (cases "snapshot_of previous (prj_id p)")
      case None
      then show ?thesis using "2.IH"(1) [OF Inl] "2.prems" Inl by simp
    next
      case (Some kept)
      then have "sn_id kept = prj_id p" using "2.prems"(2) by (auto simp: table_ok_def snapshot_of_def dest: map_of_SomeD)
      then show ?thesis using "2.IH"(1) [OF Inl] "2.prems" Inl Some upd by simp
    qed
  next
    case (Inr a)
    obtain s lines where a: "a = (s, lines)" by (cases a)
    then show ?thesis using "2.IH"(2) [OF Inr a [symmetric]] "2.prems" Inr upd [OF load_project_id [OF Inr [unfolded a]]] by simp
  qed
qed auto

lemma reload_all_ok:
  assumes "table_ok (ps_table b)"
  shows "table_ok (ps_table (snd (reload_all site b)))"
proof (cases "list_projects (st_root site) (st_disk site)")
  case (Inr projects)
  obtain by_id first b' where r: "reload_each site (ps_table b) projects [] None b = (by_id, first, b')"
    by (metis prod_cases3)
  then show ?thesis using reload_each_ok [OF r assms] table_okI Inr by (simp add: reload_all_def)
qed (simp add: reload_all_def assms)

lemma reload_floor_table [simp]: "ps_table (reload_floor site b) = ps_table b"
  by (simp add: reload_floor_def Let_def split: sum.splits)

lemma poll_each_ok: "table_ok (ps_table b) \<Longrightarrow> table_ok (ps_table (poll_each site t ps b))"
  by (induction site t ps b rule: poll_each.induct) (auto simp: reload_project_ok split: sum.splits)

lemma drop_unseen_ok: "table_ok (ps_table b) \<Longrightarrow> table_ok (ps_table (drop_unseen site seen ids b))"
  by (induction site seen ids b rule: drop_unseen.induct) (simp_all add: reload_project_ok)

lemma poll_once_ok: "table_ok (ps_table b) \<Longrightarrow> table_ok (ps_table (poll_once site b))"
  by (simp add: poll_once_def Let_def drop_unseen_ok poll_each_ok split: sum.splits)

section \<open>Tokens\<close>

definition token_match :: "project_table \<Rightarrow> string \<Rightarrow> string \<Rightarrow> snapshot \<Rightarrow> bool" where
  "token_match t c i s \<longleftrightarrow> snapshot_of t i = Some s \<and> sn_token s = c \<and> c \<noteq> []"

lemma token_loop_total:
  "\<forall>i\<in>set ids. snapshot_of t i \<noteq> None \<Longrightarrow>
   \<exists>r. token_loop t c ids found = Some r \<and>
     ((\<exists>i\<in>set ids. \<exists>s. token_match t c i s \<and> r = Some s) \<or> (\<nexists>i s. i \<in> set ids \<and> token_match t c i s) \<and> r = found)"
proof (induction t c ids found rule: token_loop.induct)
  case (2 t c i ids found)
  then obtain s where s: "snapshot_of t i = Some s" by auto
  have ids: "\<forall>i\<in>set ids. snapshot_of t i \<noteq> None" using 2(3) by simp
  show ?case
  proof (cases "sn_token s = [] \<or> c \<noteq> sn_token s")
    case True
    then have step: "token_loop t c (i # ids) found = token_loop t c ids found" using s by auto
    have no: "\<not> token_match t c i x" for x using True s by (auto simp: token_match_def)
    have "\<exists>r. token_loop t c ids found = Some r \<and>
       ((\<exists>i\<in>set ids. \<exists>s. token_match t c i s \<and> r = Some s) \<or> (\<nexists>i s. i \<in> set ids \<and> token_match t c i s) \<and> r = found)"
      using 2(1) [OF s _ ids] 2(2) [OF s _ ids] True by (cases "sn_token s = []") auto
    then show ?thesis unfolding step using no by auto
  next
    case False
    then have step: "token_loop t c (i # ids) found = token_loop t c ids (Some s)" and m: "token_match t c i s"
      using s by (auto simp: token_match_def)
    show ?thesis unfolding step using 2(2) [OF s _ ids] False m by auto
  qed
qed simp

lemma ids_present: "table_ok t \<Longrightarrow> i \<in> set (tb_ids t) \<longleftrightarrow> snapshot_of t i \<noteq> None"
  by (auto simp: table_ok_def snapshot_of_def map_of_eq_None_iff)

lemma table_ok_id: "table_ok t \<Longrightarrow> snapshot_of t i = Some s \<Longrightarrow> sn_id s = i"
  by (auto simp: table_ok_def snapshot_of_def dest: map_of_SomeD)

section \<open>The table and the disk\<close>

text \<open>What the broker should know of a project.\<close>

definition project_view :: "site \<Rightarrow> string \<Rightarrow> snapshot option" where
  "project_view site i = (case project_by_id (st_root site) i (st_disk site) of Err _ \<Rightarrow> None
     | Ok p \<Rightarrow> (case load_project site p of Err _ \<Rightarrow> None | Ok (s, _) \<Rightarrow> Some s))"

definition projects_readable :: "site \<Rightarrow> bool" where
  "projects_readable site \<longleftrightarrow> clean_dir (root_path (st_root site)) \<and> node_at (st_disk site) (projects_dir (st_root site)) \<noteq> None \<and>
     (\<forall>i. is_project_id i \<longrightarrow> projects_dir (st_root site) @ ''/'' @ i \<notin> set (dk_blocked (st_disk site)))"

lemma listed_projects:
  assumes "projects_readable site" "list_projects (st_root site) (st_disk site) = Ok ps"
  shows "distinct (map prj_id ps)"
    and "p \<in> set ps \<Longrightarrow> p = known_project (st_root site) (prj_id p)"
    and "i \<in> set (map prj_id ps) \<longleftrightarrow> project_by_id (st_root site) i (st_disk site) = Ok (known_project (st_root site) i)"
proof -
  let ?r = "st_root site" and ?d = "st_disk site"
  let ?keep = "\<lambda>name. entry_is_dir ?d (projects_dir ?r) name \<and> is_project_id name"
  have id: "prj_id (known_project ?r j) = j" for j by (simp add: known_project_def)
  have "node_at ?d (projects_dir ?r) \<noteq> None" using assms(1) by (simp add: projects_readable_def)
  then have "read_dir ?d (projects_dir ?r) \<noteq> Err NotExist"
    by (auto simp: read_dir_def split: option.splits state_node.splits)
  then obtain names where n: "read_dir ?d (projects_dir ?r) = Ok names" "ps = map (known_project ?r) (filter ?keep names)"
    using assms(2) by (auto simp: list_projects_def split: sum.splits state_error.splits)
  then show "distinct (map prj_id ps)" using read_dir_sorted [OF n(1)] by (simp add: id comp_def)
  show "p \<in> set ps \<Longrightarrow> p = known_project ?r (prj_id p)" using n(2) id by auto
  have "project_by_id ?r i ?d = Ok (known_project ?r i) \<longleftrightarrow> is_project_id i \<and> entry_is_dir ?d (projects_dir ?r) i"
  proof (cases "is_project_id i")
    case True
    then have "path_join [projects_dir ?r, i] = projects_dir ?r @ ''/'' @ i"
      using assms(1) path_below(1) root_dirs(4) project_id_plain by (simp add: projects_readable_def)
    then show ?thesis using True assms(1)
      by (auto simp: project_by_id_def projects_readable_def entry_is_dir_def is_dir_def split: option.splits state_node.splits)
  qed (simp add: project_by_id_def)
  moreover have "i \<in> set names" if i: "is_project_id i" "entry_is_dir ?d (projects_dir ?r) i"
  proof -
    obtain m where "map_of (dk_nodes ?d) (projects_dir ?r @ ''/'' @ i) = Some m"
      using i(2) by (auto simp: entry_is_dir_def node_at_def split: option.splits)
    then show ?thesis using read_dir_iff [OF n(1)] project_id_plain [OF i(1)] map_of_SomeD by (fastforce simp: plain_def)
  qed
  ultimately show "i \<in> set (map prj_id ps) \<longleftrightarrow> project_by_id ?r i ?d = Ok (known_project ?r i)"
    using n(2) id by auto
qed


lemma reload_project_view:
  assumes "\<forall>p. project_by_id (st_root site) i (st_disk site) = Ok p \<longrightarrow> is_ok (load_project site p)"
  shows "snapshot_of (ps_table (snd (reload_project site i b))) j = (if j = i then project_view site i else snapshot_of (ps_table b) j)"
  using assms by (auto simp: reload_project_def project_view_def snapshot_with is_ok_def split: sum.splits prod.splits)

definition unchanged :: "site \<Rightarrow> project_table \<Rightarrow> string \<Rightarrow> bool" where
  "unchanged site t i = (case mod_times (known_project (st_root site) i) (st_disk site) of Err _ \<Rightarrow> False
     | Ok stamps \<Rightarrow> (case snapshot_of t i of None \<Rightarrow> False | Some s \<Rightarrow> same_mod_times (sn_mod_times s) stamps))"

text \<open>Every project of the list can be read.\<close>

definition loadable :: "site \<Rightarrow> project list \<Rightarrow> bool" where
  "loadable site ps \<longleftrightarrow> (\<forall>p\<in>set ps. is_ok (mod_times p (st_disk site)) \<and> is_ok (load_project site p) \<and>
     p = known_project (st_root site) (prj_id p) \<and>
     project_by_id (st_root site) (prj_id p) (st_disk site) = Ok p)"

lemma loadable_reload: "loadable site ps \<Longrightarrow> p \<in> set ps \<Longrightarrow>
   snapshot_of (ps_table (snd (reload_project site (prj_id p) b))) j = (if j = prj_id p then project_view site j else snapshot_of (ps_table b) j)"
  using reload_project_view [of site "prj_id p"] by (auto simp: loadable_def)

lemma poll_each_view:
  "loadable site ps \<Longrightarrow>
   snapshot_of (ps_table (poll_each site t ps b)) j =
     (if j \<in> prj_id ` set ps \<and> \<not> unchanged site t j then project_view site j else snapshot_of (ps_table b) j)"
proof (induction ps arbitrary: b)
  case (Cons p ps)
  have l: "loadable site ps" using Cons.prems by (simp add: loadable_def)
  obtain stamps where m: "mod_times p (st_disk site) = Ok stamps" and k: "p = known_project (st_root site) (prj_id p)"
    using Cons.prems by (auto simp: loadable_def is_ok_def split: sum.splits)
  have u: "unchanged site t (prj_id p) = (case snapshot_of t (prj_id p) of None \<Rightarrow> False | Some s \<Rightarrow> same_mod_times (sn_mod_times s) stamps)"
    using m k by (simp add: unchanged_def)
  show ?case
  proof (cases "unchanged site t (prj_id p)")
    case True
    then have "poll_each site t (p # ps) b = poll_each site t ps b" using m u by simp
    then show ?thesis using Cons.IH [OF l] True by auto
  next
    case False
    then have "poll_each site t (p # ps) b = poll_each site t ps (snd (reload_project site (prj_id p) b))" using m u by simp
    then show ?thesis using Cons.IH [OF l] False loadable_reload [OF Cons.prems, of p] by auto
  qed
qed simp

definition absent :: "site \<Rightarrow> string \<Rightarrow> bool" where
  "absent site i \<longleftrightarrow> (\<forall>p. project_by_id (st_root site) i (st_disk site) \<noteq> Ok p)"

lemma absent_view: "absent site i \<Longrightarrow> project_view site i = None"
  by (auto simp: absent_def project_view_def split: sum.splits)

lemma absent_reload: "absent site i \<Longrightarrow> snapshot_of (ps_table (snd (reload_project site i b))) j = (if j = i then None else snapshot_of (ps_table b) j)"
  using reload_project_view [of site i b j] absent_view [of site i] by (simp add: absent_def)

lemma absent_unlisted:
  assumes "projects_readable site" "list_projects (st_root site) (st_disk site) = Ok ps" "i \<notin> prj_id ` set ps"
  shows "absent site i"
  unfolding absent_def
proof (intro allI notI)
  fix p assume "project_by_id (st_root site) i (st_disk site) = Ok p"
  then have "i \<in> set (map prj_id ps)" using listed_projects(3) [OF assms(1,2), of i] project_by_id_id by metis
  then show False using assms(3) by simp
qed

lemma drop_unseen_view:
  "\<forall>i\<in>set ids. i \<notin> set seen \<longrightarrow> absent site i \<Longrightarrow>
   snapshot_of (ps_table (drop_unseen site seen ids b)) j =
     (if j \<in> set ids \<and> j \<notin> set seen then None else snapshot_of (ps_table b) j)"
  by (induction ids arbitrary: b) (auto simp: absent_reload)

lemma reload_each_view:
  "loadable site ps \<Longrightarrow> reload_each site previous ps by_id first b = (by_id', first', b') \<Longrightarrow>
   map_of by_id' j = (if j \<in> prj_id ` set ps then project_view site j else map_of by_id j)"
proof (induction ps arbitrary: by_id b)
  case (Cons p ps)
  have l: "loadable site ps" using Cons.prems(1) by (simp add: loadable_def)
  obtain s lines where s: "load_project site p = Ok (s, lines)" "project_by_id (st_root site) (prj_id p) (st_disk site) = Ok p"
    using Cons.prems(1) by (auto simp: loadable_def is_ok_def split: sum.splits)
  then have v: "project_view site (prj_id p) = Some s" by (simp add: project_view_def)
  show ?case using Cons.IH [OF l] Cons.prems(2) s v by (auto simp: update_conv')
qed simp

section \<open>Properties\<close>

text \<open>The table of projects stays well formed: every reload of one project, of all projects,
  and every poll, on any disk, keeps the identifiers sorted, without duplicates and equal to those
  of the snapshots, so no lookup ever meets a missing entry.\<close>

theorem project_table_invariant:
  "table_ok empty_table \<and>
   (table_ok (ps_table b) \<longrightarrow>
      table_ok (ps_table (snd (reload_project site i b))) \<and>
      table_ok (ps_table (snd (reload_all site b))) \<and>
      table_ok (ps_table (poll_once site b)) \<and>
      lookup_token (ps_table b) token \<noteq> None)"
proof -
  have "lookup_token (ps_table b) token \<noteq> None" if t: "table_ok (ps_table b)"
    using token_loop_total [of "tb_ids (ps_table b)" "ps_table b" token None] ids_present [OF t]
    unfolding lookup_token_def by fastforce
  then show ?thesis using empty_table_ok reload_project_ok reload_all_ok poll_once_ok by blast
qed

lemma lookup_token_exact:
  assumes "table_ok t"
  shows "\<exists>r. lookup_token t token = Some r \<and>
    (case r of Some s \<Rightarrow> snapshot_of t (sn_id s) = Some s \<and> sn_token s = token \<and> token \<noteq> []
     | None \<Rightarrow> token = [] \<or> (\<forall>i s. snapshot_of t i = Some s \<longrightarrow> sn_token s \<noteq> token))"
proof -
  obtain r where r: "lookup_token t token = Some r"
    "(\<exists>i\<in>set (tb_ids t). \<exists>s. token_match t token i s \<and> r = Some s) \<or>
     (\<nexists>i s. i \<in> set (tb_ids t) \<and> token_match t token i s) \<and> r = None"
    using token_loop_total [of "tb_ids t" t token None] ids_present [OF assms] unfolding lookup_token_def by fastforce
  have listed: "token_match t token i s \<Longrightarrow> i \<in> set (tb_ids t) \<and> sn_id s = i" for i s
    using ids_present [OF assms] table_ok_id [OF assms] by (simp add: token_match_def)
  have "case r of Some s \<Rightarrow> snapshot_of t (sn_id s) = Some s \<and> sn_token s = token \<and> token \<noteq> []
     | None \<Rightarrow> token = [] \<or> (\<forall>i s. snapshot_of t i = Some s \<longrightarrow> sn_token s \<noteq> token)"
  proof (cases r)
    case None
    then have "\<not> token_match t token i s" for i s using r(2) listed by blast
    then show ?thesis using None by (auto simp: token_match_def)
  next
    case (Some s)
    then obtain i where "token_match t token i s" using r(2) by blast
    then show ?thesis using Some listed by (auto simp: token_match_def)
  qed
  then show ?thesis using r(1) by blast
qed

text \<open>C24. A token opens exactly its project. In a well-formed table a token is accepted only as the
  non-empty token of the project that is returned, and it is refused only when no project has it.\<close>

theorem token_authenticates:
  assumes "table_ok t"
  shows "\<exists>r. lookup_token t token = Some r \<and>
    (case r of Some s \<Rightarrow> snapshot_of t (sn_id s) = Some s \<and> sn_token s = token \<and> token \<noteq> []
     | None \<Rightarrow> token = [] \<or> (\<forall>i s. snapshot_of t i = Some s \<longrightarrow> sn_token s \<noteq> token))"
  using assms by (rule lookup_token_exact)

text \<open>A full reload without an error makes the table what is on disk: it has exactly the
  projects of the disk, each with its current snapshot.\<close>

theorem reload_mirrors_disk:
  assumes "projects_readable site" "list_projects (st_root site) (st_disk site) = Ok ps" "loadable site ps"
  shows "snapshot_of (ps_table (snd (reload_all site b))) i = project_view site i"
proof -
  obtain by_id first b' where r: "reload_each site (ps_table b) ps [] None b = (by_id, first, b')" by (metis prod_cases3)
  have "snapshot_of (ps_table (snd (reload_all site b))) i = (if i \<in> prj_id ` set ps then project_view site i else None)"
    using reload_each_view [OF assms(3) r, of i] assms(2) r by (simp add: reload_all_def snapshot_of_def)
  moreover have "project_view site i = None" if "i \<notin> prj_id ` set ps"
    using absent_view absent_unlisted [OF assms(1,2) that] by blast
  ultimately show ?thesis by auto
qed


section \<open>Examples\<close>

definition example_json :: json_forms where
  "example_json = \<lparr>jf_record = (\<lambda>_. None), jf_record_text = (\<lambda>_. []), jf_profile = (\<lambda>_. None), jf_profile_text = (\<lambda>_. []),
     jf_trust = (\<lambda>_. None), jf_trust_text = (\<lambda>_. [])\<rparr>"

definition example_site :: site where
  "example_site = \<lparr>st_json = example_json, st_root = example_root,
     st_disk = put_node ''/p/projects/0123456789ab/token'' (SFile (''abc'' @ [newline]) 7)
       (put_node ''/p/projects/0123456789ab/grants'' (SFile (''key'' @ [newline]) 6) example_state_disk)\<rparr>"

definition example_snapshot :: "string \<Rightarrow> snapshot" where
  "example_snapshot i = \<lparr>sn_id = i, sn_token = ''abc'', sn_grants = [''key''], sn_granted = [''key''], sn_profile = None,
     sn_profile_egress = [], sn_egress = [], sn_mod_times = [(''token'', 7), (''grants'', 6)]\<rparr>"

text \<open>A table with a project that is not on the disk any more.\<close>

definition example_projects :: projects_state where
  "example_projects = \<lparr>ps_table = with_project ''ffffffffffff'' (Some (example_snapshot ''ffffffffffff'')) empty_table,
     ps_floor = \<lparr>fl_patterns = None, fl_stamp = []\<rparr>, ps_errors = [], ps_log = []\<rparr>"

lemma empty_snapshot: "snapshot_of empty_table i = None"
  by (simp add: snapshot_of_def empty_table_def)

lemma example_site_ok:
  "projects_readable example_site"
  "list_projects (st_root example_site) (st_disk example_site) = Ok [known_project example_root example_id]"
  "loadable example_site [known_project example_root example_id]"
  "project_view example_site example_id = Some (example_snapshot example_id)"
proof -
  have "clean_dir (root_path (st_root example_site))" "node_at (st_disk example_site) (projects_dir (st_root example_site)) \<noteq> None"
    by code_simp+
  moreover have "dk_blocked (st_disk example_site) = []" by (simp add: example_site_def example_state_disk_def)
  ultimately show "projects_readable example_site" by (simp add: projects_readable_def)
  show "list_projects (st_root example_site) (st_disk example_site) = Ok [known_project example_root example_id]" by code_simp
  let ?p = "known_project example_root example_id"
  have "read_file (st_disk example_site) (grants_file ?p) = Ok (concat (map (\<lambda>n. n @ [newline]) [''key'']))" by code_simp
  moreover have "\<forall>n\<in>set [''key'']. grant_name n" by (simp add: grant_name_def has_prefix_def is_space_def max_scan_token_def)
  moreover have "trim_space ''key'' = ''key''" "\<not> has_prefix ''key'' ''#''" by code_simp+
  ultimately have grants: "project_grants ?p (st_disk example_site) = Ok [''key'']"
    using scan_grants [of "[''key'']"] by (simp add: project_grants_def)
  have parts: "mod_times ?p (st_disk example_site) = Ok [(''token'', 7), (''grants'', 6)]"
    "token_if_present ?p (st_disk example_site) = Ok (Some ''abc'')" "egress_allow ?p (st_disk example_site) = Ok []"
    "load_profile (st_json example_site) ?p (st_disk example_site) = Ok None" "prj_id ?p = example_id"
    by code_simp+
  have loaded: "load_project example_site ?p = Ok (example_snapshot example_id, [])"
    by (simp add: load_project_def grants parts example_snapshot_def)
  have found: "project_by_id (st_root example_site) example_id (st_disk example_site) = Ok ?p" by code_simp
  have "known_project (st_root example_site) example_id = ?p" by (simp add: example_site_def)
  then show "loadable example_site [?p]" by (simp add: loadable_def loaded parts found)
  show "project_view example_site example_id = Some (example_snapshot example_id)" by (simp add: project_view_def loaded found)
qed

lemma example_projects_ok: "table_ok (ps_table example_projects)"
  unfolding example_projects_def using with_project_ok [OF empty_table_ok] by (simp add: example_snapshot_def)

theorem project_table_invariant_witness:
  "table_ok (ps_table (snd (reload_all example_site example_projects))) \<and> lookup_token (ps_table example_projects) ''abc'' \<noteq> None"
  using project_table_invariant [of example_projects] example_projects_ok by blast

theorem token_authenticates_witness:
  "\<exists>r. lookup_token (ps_table example_projects) ''abc'' = Some r \<and> r = Some (example_snapshot ''ffffffffffff'')"
proof -
  have s: "snapshot_of (ps_table example_projects) ''ffffffffffff'' = Some (example_snapshot ''ffffffffffff'')"
    "sn_token (example_snapshot ''ffffffffffff'') = ''abc''"
    by (simp_all add: example_projects_def snapshot_with example_snapshot_def)
  have o: "snapshot_of (ps_table example_projects) i = Some x \<Longrightarrow> x = example_snapshot ''ffffffffffff''" for i x
    by (simp add: example_projects_def snapshot_with empty_snapshot split: if_splits)
  obtain r where r: "lookup_token (ps_table example_projects) ''abc'' = Some r"
    "case r of Some s \<Rightarrow> snapshot_of (ps_table example_projects) (sn_id s) = Some s \<and> sn_token s = ''abc'' \<and> ''abc'' \<noteq> []
     | None \<Rightarrow> ''abc'' = [] \<or> (\<forall>i s. snapshot_of (ps_table example_projects) i = Some s \<longrightarrow> sn_token s \<noteq> ''abc'')"
    using token_authenticates [OF example_projects_ok, of "''abc''"] by blast
  show ?thesis
  proof (cases r)
    case None
    then show ?thesis using r(2) s by auto
  next
    case (Some x)
    then show ?thesis using r o by auto
  qed
qed

theorem reload_mirrors_disk_witness:
  "snapshot_of (ps_table (snd (reload_all example_site example_projects))) example_id = Some (example_snapshot example_id)"
  using reload_mirrors_disk [OF example_site_ok(1-3), of example_projects example_id] example_site_ok(4) by simp


end
