(* ===== verification/Broker_Secrets.thy ===== *)
theory Broker_Secrets
  imports Broker_Projects
begin

text \<open>
  \<open>internal/broker/secrets.go\<close>: what a project gets from the vault. The open handle is part of the
  broker's state; without one every operation behaves as if there were no secret. A read of the
  handle may refresh its cached document; \<open>secrets_again\<close> shows that this does not change what later
  reads give, so the reads here use the handle they are given.
\<close>

section \<open>The vault of the broker\<close>

text \<open>What the broker reads of the vault: the cryptography and the file.\<close>

record vault_site =
  vs_crypto :: crypto
  vs_file :: "vault_file option"

datatype vault_state = VaultUnlockedState | VaultAbsentState | VaultLockedState

definition unlock_vault :: "vault_site \<Rightarrow> string \<Rightarrow> vault option \<Rightarrow> vault_error option \<times> vault option" where
  "unlock_vault vs passphrase held = (case open_vault (vs_crypto vs) passphrase (vs_file vs) of
     Err e \<Rightarrow> (Some e, held) | Ok opened \<Rightarrow> (None, Some opened))"

definition lock_vault :: "vault option \<Rightarrow> vault option" where
  "lock_vault held = None"

definition vault_state_of :: "vault_site \<Rightarrow> vault option \<Rightarrow> vault_state" where
  "vault_state_of vs held =
     (if held \<noteq> None then VaultUnlockedState
      else if \<not> vault_exists (vs_file vs) then VaultAbsentState else VaultLockedState)"

definition is_wrong_passphrase :: "vault_error \<Rightarrow> bool" where
  "is_wrong_passphrase e \<longleftrightarrow> e = WrongPassphrase"

section \<open>Granted secrets\<close>

definition granted_secrets :: "vault_site \<Rightarrow> vault option \<Rightarrow> snapshot \<Rightarrow> secret list" where
  "granted_secrets vs held s = (case held of None \<Rightarrow> []
     | Some v \<Rightarrow> if sn_granted s = [] then []
         else filter (\<lambda>x. sec_name x \<in> set (sn_granted s)) (fst (vault_secrets (vs_crypto vs) v (vs_file vs))))"

definition granted_secret :: "vault_site \<Rightarrow> vault option \<Rightarrow> snapshot \<Rightarrow> string \<Rightarrow> secret option" where
  "granted_secret vs held s name =
     (if name = [] \<or> name \<notin> set (sn_granted s) then None
      else (case held of None \<Rightarrow> None | Some v \<Rightarrow> fst (vault_secret (vs_crypto vs) name v (vs_file vs))))"

definition is_intercept :: "secret \<Rightarrow> bool" where
  "is_intercept x \<longleftrightarrow> sec_mode x = mode_route \<and> (case sec_route x of None \<Rightarrow> False | Some r \<Rightarrow> rs_intercept r)"

definition intercept_routes :: "vault_site \<Rightarrow> vault option \<Rightarrow> snapshot \<Rightarrow> secret list" where
  "intercept_routes vs held s = filter is_intercept (granted_secrets vs held s)"

definition route_upstream :: "secret \<Rightarrow> string" where
  "route_upstream x = (case sec_route x of None \<Rightarrow> [] | Some r \<Rightarrow> rs_upstream r)"

definition intercept_route_for :: "vault_site \<Rightarrow> vault option \<Rightarrow> snapshot \<Rightarrow> string \<Rightarrow> int \<Rightarrow> secret option" where
  "intercept_route_for vs held s host port =
     find (\<lambda>x. split_upstream (route_upstream x) = (host, port)) (intercept_routes vs held s)"

definition intercept_hosts :: "vault_site \<Rightarrow> vault option \<Rightarrow> snapshot \<Rightarrow> string list" where
  "intercept_hosts vs held s =
     sort (remdups (filter (\<lambda>host. host \<noteq> []) (map (\<lambda>x. fst (split_upstream (route_upstream x))) (intercept_routes vs held s))))"

definition intercept_pattern :: "secret \<Rightarrow> pattern option" where
  "intercept_pattern x = (case split_upstream (route_upstream x) of (host, port) \<Rightarrow>
     (case parse_pattern (host @ '':'' @ itoa port) of Err _ \<Rightarrow> None | Ok p \<Rightarrow> Some p))"

definition allow_list_for :: "vault_site \<Rightarrow> vault option \<Rightarrow> floor_state \<Rightarrow> snapshot \<Rightarrow> allow_list" where
  "allow_list_for vs held base s =
     new_allow_list [(case fl_patterns base of None \<Rightarrow> [] | Some ps \<Rightarrow> ps), sn_profile_egress s, sn_egress s,
       List.map_filter intercept_pattern (intercept_routes vs held s)]"

section \<open>The environment of a box\<close>

text \<open>The three loops of \<open>environmentLines\<close>: a later assignment replaces an earlier one.\<close>

definition base_url_assignment :: "secret \<Rightarrow> (string \<times> string) option" where
  "base_url_assignment x = (case sec_route x of None \<Rightarrow> None
     | Some r \<Rightarrow> if sec_mode x = mode_route \<and> rs_base_url_variable r \<noteq> []
         then Some (rs_base_url_variable r, ''http://'' @ route_host (sec_name x)) else None)"

definition token_assignment :: "secret \<Rightarrow> (string \<times> string) option" where
  "token_assignment x = (case sec_route x of None \<Rightarrow> None
     | Some r \<Rightarrow> if sec_mode x = mode_route \<and> rs_token_variable r \<noteq> []
         then Some (rs_token_variable r, rs_token_placeholder r) else None)"

definition expose_assignment :: "secret \<Rightarrow> (string \<times> string) option" where
  "expose_assignment x = (case sec_expose x of None \<Rightarrow> None
     | Some e \<Rightarrow> if sec_mode x = mode_expose \<and> es_variable e \<noteq> [] then Some (es_variable e, sec_value x) else None)"

fun assign_all :: "(string \<times> string) list \<Rightarrow> (string \<times> string) list \<Rightarrow> (string \<times> string) list" where
  "assign_all [] m = m"
| "assign_all ((name, text) # rest') m = assign_all rest' (AList.update name text m)"

definition assignments :: "secret list \<Rightarrow> (string \<times> string) list" where
  "assignments secrets = assign_all (List.map_filter base_url_assignment secrets @
     List.map_filter token_assignment secrets @ List.map_filter expose_assignment secrets) []"

definition environment_lines :: "vault_site \<Rightarrow> vault option \<Rightarrow> snapshot \<Rightarrow> string list" where
  "environment_lines vs held s =
     (let m = assignments (granted_secrets vs held s)
      in map (\<lambda>name. name @ ''='' @ the (map_of m name)) (sorted_keys m))"

section \<open>Upstreams and credentials\<close>

text \<open>\<open>net.JoinHostPort\<close>.\<close>

definition join_host_port :: "string \<Rightarrow> string \<Rightarrow> string" where
  "join_host_port host port =
     (if CHR '':'' \<in> set host then ''['' @ host @ '']:'' @ port else host @ '':'' @ port)"

definition upstream_address :: "string \<Rightarrow> string" where
  "upstream_address upstream = (case split_upstream upstream of (host, port) \<Rightarrow> join_host_port host (itoa port))"

type_synonym credentials = "(string \<times> string) list"

fun merge_credentials :: "(string \<times> string) list \<Rightarrow> credentials \<Rightarrow> credentials" where
  "merge_credentials [] held = held"
| "merge_credentials ((name, text) # values) held =
     merge_credentials values (if text = [] then AList.delete name held else AList.update name text held)"

definition credential_variables :: "credentials \<Rightarrow> string list" where
  "credential_variables held = sorted_keys held"

text \<open>A variable that is not held reads as the empty text.\<close>

definition held_credential :: "credentials \<Rightarrow> string \<Rightarrow> string" where
  "held_credential held name = (case map_of held name of None \<Rightarrow> [] | Some text \<Rightarrow> text)"

fun choose_credential :: "credential_spec list \<Rightarrow> credentials \<Rightarrow> (string \<times> string) option" where
  "choose_credential [] held = None"
| "choose_credential (spec # specs) held =
     (let text = held_credential held (cs_variable spec) in
      if text = [] then choose_credential specs held
      else Some (if cs_header spec = [] then ''Authorization'' else cs_header spec, cs_prefix spec @ text))"

section \<open>Reads of the handle\<close>

lemma reload_again:
  assumes "reload_locked cr v disk = (r, v')"
  shows "reload_locked cr v' disk = (r, v')"
proof (cases "v_key v")
  case (Some key)
  note k = Some
  show ?thesis
  proof (cases disk)
    case (Some info)
    show ?thesis
    proof (cases "v_document v \<noteq> None \<and> vf_size info = v_loaded_size v \<and> vf_mod_time info = v_loaded_mod_time v")
      case False
      show ?thesis
      proof (cases "read_container disk")
        case (Inl e)
        then show ?thesis using assms k Some False by (auto simp: reload_locked_def)
      next
        case (Inr a)
        then obtain parsed where a: "a = (parsed, info)"
          using Some by (auto simp: read_container_def split: option.splits if_splits)
        show ?thesis
          using assms k Some False Inr a by (cases "decrypt_document cr parsed key") (auto simp: reload_locked_def set_loaded_def)
      qed
    qed (use assms k Some in \<open>auto simp: reload_locked_def\<close>)
  qed (use assms k in \<open>auto simp: reload_locked_def\<close>)
qed (use assms in \<open>auto simp: reload_locked_def\<close>)

lemma secrets_again:
  assumes "vault_secrets cr v disk = (xs, v')"
  shows "vault_secrets cr v' disk = (xs, v')" "fst (vault_secret cr name v' disk) = fst (vault_secret cr name v disk)"
proof -
  obtain r where r: "reload_locked cr v disk = (r, v')"
    using assms by (auto simp: vault_secrets_def split: prod.splits sum.splits option.splits)
  show "vault_secrets cr v' disk = (xs, v')" using assms reload_again [OF r] r by (simp add: vault_secrets_def)
  show "fst (vault_secret cr name v' disk) = fst (vault_secret cr name v disk)"
    using reload_again [OF r] r by (simp add: vault_secret_def)
qed

section \<open>Facts\<close>

lemma granted_secrets_named: "x \<in> set (granted_secrets vs held s) \<Longrightarrow> held \<noteq> None \<and> sec_name x \<in> set (sn_granted s)"
  by (auto simp: granted_secrets_def split: option.splits if_splits)

lemma assign_all_map: "map_of (assign_all ps m) = map_of m ++ map_of (rev ps)"
  by (induction ps m rule: assign_all.induct) (auto simp: update_conv map_add_def fun_eq_iff split: option.splits)

lemma assign_all_dom: "fst ` set (assign_all ps m) = fst ` set ps \<union> fst ` set m"
  by (induction ps m rule: assign_all.induct) (auto simp: dom_update)

lemma map_filter_set: "y \<in> set (List.map_filter f xs) \<longleftrightarrow> (\<exists>x\<in>set xs. f x = Some y)"
  by (force simp: List.map_filter_def)

text \<open>The value of a variable: an exposed secret first, then a token placeholder, then a base URL;
  the last secret in the order of the names counts.\<close>

definition variable_value :: "secret list \<Rightarrow> string \<Rightarrow> string option" where
  "variable_value xs =
     map_of (rev (List.map_filter base_url_assignment xs)) ++ map_of (rev (List.map_filter token_assignment xs)) ++
     map_of (rev (List.map_filter expose_assignment xs))"

lemma assignments_value: "map_of (assignments xs) = variable_value xs"
  by (simp add: assignments_def assign_all_map variable_value_def map_add_assoc)

lemma sorted_keys_dom: "set (sorted_keys m) = dom (map_of m)" "sorted (sorted_keys m)" "distinct (sorted_keys m)"
  by (simp_all add: sorted_keys_def dom_map_of_conv_image_fst)

section \<open>The secrets of a document by name\<close>

definition secret_named :: "vault_document \<Rightarrow> string \<Rightarrow> secret option" where
  "secret_named doc n = (case map_of (doc_secrets doc) n of Some (Some x) \<Rightarrow> Some x | _ \<Rightarrow> None)"

lemma filter_sorted_set: "finite A \<Longrightarrow> filter P (sorted_list_of_set A) = sorted_list_of_set {x \<in> A. P x}" for A :: "string set"
  by (rule sorted_distinct_set_unique) (auto simp: sorted_wrt_filter)

lemma sorted_keys_set_of: "sorted_keys m = sorted_list_of_set (fst ` set m)" for m :: "(string \<times> 'a) list"
  by (rule sorted_distinct_set_unique) (auto simp: sorted_keys_def)

lemma secret_named_dom: "well_keyed doc \<Longrightarrow> fst ` set (filter (\<lambda>(_, x). x \<noteq> None) (doc_secrets doc)) = dom (secret_named doc)"
proof -
  assume w: "well_keyed doc"
  have "(n, Some x) \<in> set (doc_secrets doc) \<longleftrightarrow> secret_named doc n = Some x" for n x
  proof -
    have "(n, Some x) \<in> set (doc_secrets doc) \<longleftrightarrow> map_of (doc_secrets doc) n = Some (Some x)"
      using w map_of_eq_Some_iff [of "doc_secrets doc"] by (simp only: well_keyed_def)
    then show ?thesis by (simp only: secret_named_def) (simp split: option.splits)
  qed
  then show ?thesis by force
qed

lemma document_secrets_named:
  assumes "well_keyed doc"
  shows "document_secrets doc = map (\<lambda>n. the (secret_named doc n)) (sorted_list_of_set (dom (secret_named doc)))"
proof -
  let ?L = "secret_named doc"
  have f: "finite (dom ?L)" using secret_named_dom [OF assms, symmetric] by simp
  have b: "Option.bind (map_of (doc_secrets doc) n) (\<lambda>x. x) = ?L n" for n by (simp add: secret_named_def split: option.splits)
  have "List.map_filter ?L ns = map (\<lambda>n. the (?L n)) ns" if "set ns \<subseteq> dom ?L" for ns
    using that by (induction ns) (auto simp: List.map_filter_simps)
  moreover have "sorted_keys (filter (\<lambda>(_, x). x \<noteq> None) (doc_secrets doc)) = sorted_list_of_set (dom ?L)"
    by (simp only: sorted_keys_set_of secret_named_dom [OF assms])
  ultimately show ?thesis using f unfolding document_secrets_def b by simp
qed

lemma document_ok_named: "document_ok doc \<Longrightarrow> secret_named doc n = Some x \<Longrightarrow> sec_name x = n"
  by (auto simp: document_ok_def secret_named_def split: option.splits)

text \<open>The secrets of some names depend only on those names.\<close>

lemma document_secrets_cong:
  assumes "document_ok doc" "document_ok doc'" "\<forall>n. P n \<longrightarrow> secret_named doc' n = secret_named doc n"
  shows "filter (\<lambda>x. P (sec_name x)) (document_secrets doc') = filter (\<lambda>x. P (sec_name x)) (document_secrets doc)"
proof -
  have one: "filter (\<lambda>x. P (sec_name x)) (document_secrets d) =
      map (\<lambda>n. the (secret_named d n)) (sorted_list_of_set {n \<in> dom (secret_named d). P n})" if d: "document_ok d" for d
  proof -
    have w: "well_keyed d" using d by (simp add: document_ok_def)
    have f: "finite (dom (secret_named d))" using secret_named_dom [OF w, symmetric] by simp
    have "filter (\<lambda>x. P (sec_name x)) (map (\<lambda>n. the (secret_named d n)) ns) = map (\<lambda>n. the (secret_named d n)) (filter P ns)"
      if "set ns \<subseteq> dom (secret_named d)" for ns
      using that document_ok_named [OF d] by (induction ns) auto
    then show ?thesis using f by (simp add: document_secrets_named [OF w] filter_sorted_set)
  qed
  have "{n \<in> dom (secret_named doc'). P n} = {n \<in> dom (secret_named doc). P n}" using assms(3) by auto
  moreover have "finite (dom (secret_named doc))" using secret_named_dom assms(1) by (metis document_ok_def finite_imageI finite_set)
  ultimately show ?thesis using assms(3) by (simp add: one [OF assms(1)] one [OF assms(2)])
qed

section \<open>Properties\<close>

text \<open>Two states of the vault give a project the same when they agree on the secrets it is granted.\<close>

lemma granted_only:
  assumes "granted_secrets vs held s = granted_secrets vs' held' s"
  shows "environment_lines vs held s = environment_lines vs' held' s" "intercept_routes vs held s = intercept_routes vs' held' s"
    "intercept_hosts vs held s = intercept_hosts vs' held' s" "allow_list_for vs held base s = allow_list_for vs' held' base s"
    "intercept_route_for vs held s host port = intercept_route_for vs' held' s host port"
  using assms by (simp_all add: environment_lines_def intercept_routes_def intercept_hosts_def allow_list_for_def intercept_route_for_def)

lemma no_secrets_default:
  assumes "held = None \<or> sn_granted s = []"
  shows "granted_secrets vs held s = []" "granted_secret vs held s name = None" "environment_lines vs held s = []"
    "intercept_route_for vs held s host port = None"
    "allow_list_for vs held base s = new_allow_list [case fl_patterns base of None \<Rightarrow> [] | Some ps \<Rightarrow> ps, sn_profile_egress s, sn_egress s, []]"
  using assms by (auto simp: granted_secrets_def granted_secret_def environment_lines_def intercept_route_for_def
      intercept_routes_def allow_list_for_def assignments_def sorted_keys_def Let_def List.map_filter_simps split: option.splits)

lemma reload_either:
  assumes "v_key w = Some key" "v_document w = Some doc" "stored cr key disk = Some doc'"
  shows "\<exists>w' D. reload_locked cr w disk = (Ok (), w') \<and> v_document w' = Some D \<and> (D = doc \<or> D = doc')"
  using assms by (auto simp: stored_def reload_locked_def set_loaded_def split: sum.splits prod.splits option.splits)

text \<open>C14. A secret that is not granted has no influence. When any handle of the vault stores a secret
  whose name a project is not granted, the environment, the intercepted routes and the egress allowlist
  that the broker gives that project through its own handle are the same as before.\<close>

theorem ungranted_secret_invisible:
  assumes "crypto_ok cr" "v_key v = Some key" "stored cr key disk = Some doc" "kdf_ok (v_kdf v)" "length nonce = nonce_size"
    and "document_ok doc" "v_key w = Some key" "v_document w = Some doc" "reload_locked cr w disk = (Ok (), w)"
    and "validate_secret (Some given) = Ok valid" "sec_name given \<notin> set (sn_granted s)"
  shows "\<exists>r v' disk'. put_secret cr given nonce now v disk = (Ok r, v', disk') \<and>
    environment_lines \<lparr>vs_crypto = cr, vs_file = disk'\<rparr> (Some w) s = environment_lines \<lparr>vs_crypto = cr, vs_file = disk\<rparr> (Some w) s \<and>
    intercept_route_for \<lparr>vs_crypto = cr, vs_file = disk'\<rparr> (Some w) s host port =
      intercept_route_for \<lparr>vs_crypto = cr, vs_file = disk\<rparr> (Some w) s host port \<and>
    allow_list_for \<lparr>vs_crypto = cr, vs_file = disk'\<rparr> (Some w) base s = allow_list_for \<lparr>vs_crypto = cr, vs_file = disk\<rparr> (Some w) base s"
proof -
  let ?x = "if sec_created valid = None then valid\<lparr>sec_created := Some now\<rparr> else valid"
  let ?doc = "(copy_document doc)\<lparr>doc_secrets := AList.update (sec_name given) (Some ?x) (doc_secrets (copy_document doc))\<rparr>"
  let ?granted = "\<lambda>d. filter (\<lambda>x. sec_name x \<in> set (sn_granted s)) (document_secrets d)"
  obtain v' disk' r where p: "put_secret cr given nonce now v disk = (Ok r, v', disk')" "stored cr key disk' = Some ?doc"
    using put_secret_spec [OF assms(1-5,10), of now] by blast
  have x: "secret_ok ?x" "sec_name ?x = sec_name given" using validate_secret_ok [OF assms(10)] secret_ok_created by auto
  have ok: "document_ok ?doc" using x by (intro document_ok_put document_ok_copy assms(6))
  have "secret_named ?doc n = secret_named doc n" if "n \<in> set (sn_granted s)" for n
    using that assms(6,11) map_of_copy [of doc n]
    by (auto simp: secret_named_def doc_lookup document_ok_def split: option.splits)
  then have c: "?granted ?doc = ?granted doc"
    using document_secrets_cong [OF assms(6) ok, of "\<lambda>n. n \<in> set (sn_granted s)"] by blast
  obtain w' D where w: "reload_locked cr w disk' = (Ok (), w')" "v_document w' = Some D" "D = doc \<or> D = ?doc"
    using reload_either [OF assms(7,8) p(2)] by blast
  then have "?granted D = ?granted doc" using c by (elim disjE) (simp_all only:)
  then have g: "granted_secrets \<lparr>vs_crypto = cr, vs_file = disk'\<rparr> (Some w) s = granted_secrets \<lparr>vs_crypto = cr, vs_file = disk\<rparr> (Some w) s"
    using w(1,2) assms(8,9) by (simp add: granted_secrets_def vault_secrets_def)
  show ?thesis using p(1) granted_only [OF g] by blast
qed

text \<open>The environment of a box has one line for each variable that the granted secrets set, in
  order; an exposed secret has priority over a token placeholder and that over a base URL. With a locked
  vault, or without grants, there is no line.\<close>

theorem environment_priority:
  "environment_lines vs held s = map (\<lambda>name. name @ ''='' @ the (variable_value (granted_secrets vs held s) name))
     (sorted_list_of_set (dom (variable_value (granted_secrets vs held s)))) \<and>
   (held = None \<or> sn_granted s = [] \<longrightarrow> environment_lines vs held s = []) \<and>
   (x \<in> set (granted_secrets vs held s) \<and> expose_assignment x = Some (name, text) \<longrightarrow>
      (\<exists>y\<in>set (granted_secrets vs held s). \<exists>shown. expose_assignment y = Some (name, shown) \<and>
         variable_value (granted_secrets vs held s) name = Some shown))"
proof (intro conjI impI)
  let ?xs = "granted_secrets vs held s"
  have "sorted_keys (assignments ?xs) = sorted_list_of_set (dom (variable_value ?xs))"
    by (simp add: sorted_keys_set_of dom_map_of_conv_image_fst flip: assignments_value)
  then show "environment_lines vs held s = map (\<lambda>name. name @ ''='' @ the (variable_value ?xs name))
     (sorted_list_of_set (dom (variable_value ?xs)))"
    by (simp add: environment_lines_def assignments_value)
  show "held = None \<or> sn_granted s = [] \<Longrightarrow> environment_lines vs held s = []" by (rule no_secrets_default(3))
  assume "x \<in> set ?xs \<and> expose_assignment x = Some (name, text)"
  then have "(name, text) \<in> set (rev (List.map_filter expose_assignment ?xs))" by (auto simp: map_filter_set)
  then obtain shown where m: "map_of (rev (List.map_filter expose_assignment ?xs)) name = Some shown" by (metis weak_map_of_SomeI)
  then have "(name, shown) \<in> set (List.map_filter expose_assignment ?xs)" by (auto dest: map_of_SomeD)
  then show "\<exists>y\<in>set ?xs. \<exists>shown. expose_assignment y = Some (name, shown) \<and> variable_value ?xs name = Some shown"
    using m by (auto simp: map_filter_set variable_value_def)
qed

definition example_vault_site :: vault_site where
  "example_vault_site = \<lparr>vs_crypto = example_crypto, vs_file = Vault.example_disk\<rparr>"

theorem environment_priority_witness:
  "environment_lines example_vault_site None (example_snapshot example_id) = []"
  using environment_priority [of example_vault_site None "example_snapshot example_id"] by blast

theorem ungranted_secret_invisible_witness:
  "\<exists>w r v' disk'. v_document w = Some empty_document \<and>
     put_secret example_crypto (example_exposed ''one'') example_nonce 9 example_vault Vault.example_disk = (Ok r, v', disk') \<and>
     environment_lines \<lparr>vs_crypto = example_crypto, vs_file = disk'\<rparr> (Some w) (example_snapshot example_id) =
       environment_lines example_vault_site (Some w) (example_snapshot example_id)"
proof -
  note ok = example_vault_ok
  have "v_document example_vault = None" by (simp add: example_vault_def)
  then obtain w where w: "reload_locked example_crypto example_vault Vault.example_disk = (Ok (), w)"
    "v_document w = Some empty_document" "v_key w = Some ''ps''"
    using reload_fresh [OF ok(1) _ ok(4)] by blast
  have n: "sec_name (example_exposed ''one'') \<notin> set (sn_granted (example_snapshot example_id))"
    by (simp add: example_exposed_def example_snapshot_def)
  show ?thesis
    using ungranted_secret_invisible [OF example_crypto_ok ok(1,4,2,3,6) w(3,2) reload_again [OF w(1)] example_exposed_ok(1) n, of 9] w(2)
    unfolding example_vault_site_def by blast
qed

end
