(* ===== verification/Broker_Limits.thy ===== *)
theory Broker_Limits
  imports Go_Prelude
begin

text \<open>
  \<open>internal/broker/limits/limits.go\<close>: the rate limiter. A time is its number of nanoseconds; the
  mutex makes each call one step, so a run is a list of calls.
\<close>

definition rate_window :: int where "rate_window = 60 * 1000000000"

type_synonym limiter = "string \<Rightarrow> int list"

definition new_rate_limiter :: limiter where "new_rate_limiter = (\<lambda>key. [])"

definition allow :: "int \<Rightarrow> string \<Rightarrow> int \<Rightarrow> limiter \<Rightarrow> bool \<times> limiter" where
  "allow moment key perMinute limiter =
     (if perMinute \<le> 0 then (True, limiter)
      else let recent = filter (\<lambda>stamp. moment - stamp < rate_window) (limiter key)
           in if perMinute \<le> int (length recent) then (False, limiter(key := recent))
              else (True, limiter(key := recent @ [moment])))"

text \<open>The answers to a list of calls: the time, the key and the limit of each.\<close>

fun allow_run :: "(int \<times> string \<times> int) list \<Rightarrow> limiter \<Rightarrow> bool list" where
  "allow_run [] limiter = []"
| "allow_run ((moment, key, perMinute) # calls) limiter =
     (case allow moment key perMinute limiter of (ok, limiter') \<Rightarrow> ok # allow_run calls limiter')"

text \<open>The times at which a key was let through.\<close>

definition allowed_times :: "string \<Rightarrow> (int \<times> string \<times> int) list \<Rightarrow> bool list \<Rightarrow> int list" where
  "allowed_times key calls answers =
     map (\<lambda>((moment, _), _). moment) (filter (\<lambda>((_, k, _), ok). ok \<and> k = key) (zip calls answers))"

definition in_window :: "int \<Rightarrow> int \<Rightarrow> bool" where
  "in_window start moment \<longleftrightarrow> start \<le> moment \<and> moment < start + rate_window"

section \<open>The invariant of a key\<close>

text \<open>What the limiter holds for the key are the times in the last minute of its last call.\<close>

definition holds_recent :: "int \<Rightarrow> int list \<Rightarrow> int list \<Rightarrow> bool" where
  "holds_recent last_call history stamps \<longleftrightarrow>
     stamps = filter (\<lambda>s. last_call - s < rate_window) history \<and> (\<forall>s\<in>set history. s \<le> last_call)"

definition window_bound :: "int \<Rightarrow> int list \<Rightarrow> bool" where
  "window_bound n history \<longleftrightarrow> (\<forall>start. int (length (filter (in_window start) history)) \<le> n)"

lemma filter_length_mono: "(\<And>x. x \<in> set xs \<Longrightarrow> P x \<Longrightarrow> Q x) \<Longrightarrow> length (filter P xs) \<le> length (filter Q xs)"
  by (induction xs) (auto intro: le_SucI)

lemma allow_key:
  assumes "holds_recent m history (limiter key)" "window_bound n history" "m \<le> moment" "0 < n"
    and "allow moment key n limiter = (ok, limiter')"
  shows "holds_recent moment (if ok then history @ [moment] else history) (limiter' key) \<and>
    window_bound n (if ok then history @ [moment] else history)"
proof -
  define recent where "recent = filter (\<lambda>s. moment - s < rate_window) (limiter key)"
  have r: "recent = filter (\<lambda>s. moment - s < rate_window) history"
    unfolding recent_def using assms(1,3) by (auto simp: holds_recent_def intro!: filter_cong)
  have le: "\<forall>s\<in>set history. s \<le> moment" using assms(1,3) by (fastforce simp: holds_recent_def)
  show ?thesis
  proof (cases ok)
    case False
    then have "limiter' key = recent" using assms(4,5) by (auto simp: allow_def recent_def Let_def split: if_splits)
    then show ?thesis using False r le assms(2) by (simp add: holds_recent_def)
  next
    case True
    then have k: "limiter' key = recent @ [moment]" "int (length recent) < n"
      using assms(4,5) by (auto simp: allow_def recent_def Let_def split: if_splits)
    have "int (length (filter (in_window start) (history @ [moment]))) \<le> n" for start
    proof (cases "in_window start moment")
      case False
      then show ?thesis using assms(2) by (simp add: window_bound_def)
    next
      case True
      then have "length (filter (in_window start) history) \<le> length recent"
        unfolding r by (intro filter_length_mono) (auto simp: in_window_def)
      then show ?thesis using True k(2) by simp
    qed
    then show ?thesis using True k(1) r le by (auto simp: holds_recent_def window_bound_def rate_window_def)
  qed
qed

lemma allow_other: "allow moment key n limiter = (ok, limiter') \<Longrightarrow> key' \<noteq> key \<Longrightarrow> limiter' key' = limiter key'"
  by (auto simp: allow_def Let_def split: if_splits)

lemma allow_run_bound:
  "sorted (map fst calls) \<Longrightarrow> \<forall>(moment, k, perMinute)\<in>set calls. m \<le> moment \<and> (k = key \<longrightarrow> perMinute = n) \<Longrightarrow> 0 < n \<Longrightarrow>
   holds_recent m history (limiter key) \<Longrightarrow> window_bound n history \<Longrightarrow>
   window_bound n (history @ allowed_times key calls (allow_run calls limiter))"
proof (induction calls arbitrary: limiter history m)
  case Nil
  then show ?case by (simp add: allowed_times_def)
next
  case (Cons call calls)
  obtain moment k perMinute where call: "call = (moment, k, perMinute)" by (metis surj_pair)
  obtain ok limiter' where a: "allow moment k perMinute limiter = (ok, limiter')" by fastforce
  have later: "\<forall>(x, k, p)\<in>set calls. moment \<le> x \<and> (k = key \<longrightarrow> p = n)" "\<forall>(x, k, p)\<in>set calls. m \<le> x \<and> (k = key \<longrightarrow> p = n)"
    using Cons.prems(1,2) call by auto
  have s: "sorted (map fst calls)" using Cons.prems(1) by simp
  show ?case
  proof (cases "k = key")
    case True
    then have pn: "perMinute = n" "m \<le> moment" using Cons.prems(2) call by auto
    note step = allow_key [OF Cons.prems(4,5) pn(2) Cons.prems(3) a [unfolded True pn(1)]]
    have "window_bound n ((if ok then history @ [moment] else history) @ allowed_times key calls (allow_run calls limiter'))"
      using step by (intro Cons.IH [OF s later(1) Cons.prems(3)]) auto
    then show ?thesis using True a call by (cases ok) (simp_all add: allowed_times_def)
  next
    case False
    then have "holds_recent m history (limiter' key)" using allow_other [OF a] Cons.prems(4) by auto
    then have "window_bound n (history @ allowed_times key calls (allow_run calls limiter'))"
      using Cons.prems(3,5) s later(2) by (intro Cons.IH)
    then show ?thesis using False a call by (simp add: allowed_times_def)
  qed
qed

section \<open>Properties\<close>



end
