(* ===== verification/Broker_Handlers.thy ===== *)
theory Broker_Handlers
  imports Broker_Http Broker_Secrets Broker_Limits
begin

text \<open>
  The handlers of the broker: the routes to upstreams with a credential (\<open>route.go\<close>), the inmate
  routes (\<open>inmate.go\<close>) and the broker's own API inside a box (\<open>zone.go\<close>).

  A handler gives the list of what it does, in order: the answer it writes, the entry it logs, the
  request it sends upstream. The rate limiter is the state it threads. What comes from outside (the
  result of a relayed request, the signing agent, the bundle of the certificate authority) is the
  record \<open>outside\<close>. The error messages are constructors with the values they show.
\<close>

section \<open>Effects\<close>

datatype message =
    NoProject
  | NoRoute string
  | PathNotCanonical
  | OnlyForwards string string
  | AllowsMethods string "string list"
  | RequestsAMinute string int
  | NoSecretValue string
  | InmateNotEnabled string
  | PathNotProxied
  | NoCredential string string
  | UnknownPath
  | AcceptsOnly string string
  | NoBundle string
  | UnreadableBody
  | BodyNotJson
  | BodyNotObject
  | NoSigningSecret string
  | DataNotBase64
  | SignaturesAMinute string int
  | OtherNamespace string string
  | AgentFailed string
  | TokenRequired
  | OnlyConnect
  | NotHostPort string
  | NotAPort string
  | CannotReach string string
  | NotAllowedHost string
  | NotAllowedPort string int string
  | NoAuthority string string
  | NoCertificate string string
  | CannotHijack
  | ConnectInTunnel

record log_entry =
  en_kind :: string
  en_project :: string
  en_inmate :: string
  en_secret :: string
  en_client :: string
  en_method :: string
  en_host :: string
  en_port :: int
  en_path :: string
  en_outcome :: string
  en_status :: int
  en_bytes :: int
  en_error :: string

definition no_entry :: log_entry where
  "no_entry = \<lparr>en_kind = [], en_project = [], en_inmate = [], en_secret = [], en_client = [], en_method = [], en_host = [],
     en_port = 0, en_path = [], en_outcome = [], en_status = 0, en_bytes = 0, en_error = []\<rparr>"

definition kind_egress :: string where "kind_egress = ''egress''"
definition log_kind_inmate :: string where "log_kind_inmate = ''inmate''"
definition log_kind_route :: string where "log_kind_route = ''route''"
definition kind_sign :: string where "kind_sign = ''sign''"

definition outcome_allowed :: string where "outcome_allowed = ''allowed''"
definition outcome_denied_host :: string where "outcome_denied_host = ''denied-host''"
definition outcome_denied_port :: string where "outcome_denied_port = ''denied-port''"
definition outcome_upstream_failed :: string where "outcome_upstream_failed = ''upstream-failed''"
definition outcome_unauthenticated :: string where "outcome_unauthenticated = ''unauthenticated''"
definition outcome_malformed :: string where "outcome_malformed = ''malformed''"
definition outcome_refused :: string where "outcome_refused = ''refused''"
definition outcome_forwarded :: string where "outcome_forwarded = ''forwarded''"
definition outcome_client_gone :: string where "outcome_client_gone = ''client-gone''"

text \<open>\<open>relay.Upstream\<close> and \<open>relay.Result\<close>.\<close>

record upstream =
  up_scheme :: string
  up_host :: string
  up_header :: string
  up_value :: string
  up_drop_credentials :: bool

record relay_result =
  rr_status :: int
  rr_bytes :: int
  rr_error :: string
  rr_client_gone :: bool

text \<open>What a request asks to be signed, and the public part of a signing key.\<close>

datatype data_field = NoData | OtherData | TextData string

datatype sign_body = BodyUnreadable | NotJson | NotObject | SignRequest string data_field string

record key_description =
  kd_secret :: string
  kd_algorithm :: string
  kd_fingerprint :: string
  kd_namespace :: string
  kd_public_key :: "string option"
  kd_available :: bool

record signature =
  sg_namespace :: string
  sg_public_key :: string
  sg_armored :: string

datatype answer =
    TextLines "string list"
  | CertificateBundle string
  | Keys "key_description list"
  | HmacSignature string string
  | SshSignature string signature
  | TunnelOpen

text \<open>The handler that serves a tunnel or a zone name.\<close>

datatype handler = BrokerAPI string | InmateHandler string string | RouteHandler string string string string

datatype effect =
    WriteError int message
  | AllowMethods "string list"
  | ProxyAuthenticate
  | Answer int answer
  | Forward upstream request
  | Record log_entry
  | Dial string int
  | CloseConnection
  | ServeTunnel handler
  | ServeTLS string handler

section \<open>The state and the outside\<close>

record broker =
  bk_projects :: projects_state
  bk_vault :: "vault option"
  bk_credentials :: credentials
  bk_limiter :: limiter

text \<open>A connection is taken over from the HTTP server and told that the tunnel is open; either can fail.\<close>

datatype hijack_outcome = Hijacked | HijackRefused | HijackBroken

record outside =
  ou_vault :: vault_site
  ou_now :: int
  ou_relay :: "upstream \<Rightarrow> request \<Rightarrow> relay_result"
  ou_body :: "request \<Rightarrow> sign_body"
  ou_bundle :: "string list \<Rightarrow> (string, string) result"
  ou_public_key :: "string \<Rightarrow> string option"
  ou_sign :: "string \<Rightarrow> string \<Rightarrow> string \<Rightarrow> (string, signature) result"
  ou_hmac :: "string \<Rightarrow> string \<Rightarrow> string"
  ou_certificate :: "string \<Rightarrow> string option"
  ou_dial :: "string \<Rightarrow> int \<Rightarrow> string option"
  ou_hijack :: hijack_outcome
  ou_moved :: int

definition broker_snapshot :: "broker \<Rightarrow> string \<Rightarrow> snapshot option" where
  "broker_snapshot b i = snapshot_of (ps_table (bk_projects b)) i"

definition broker_secret :: "outside \<Rightarrow> broker \<Rightarrow> snapshot \<Rightarrow> string \<Rightarrow> secret option" where
  "broker_secret ou b s name = granted_secret (ou_vault ou) (bk_vault b) s name"

definition broker_allow_list :: "outside \<Rightarrow> broker \<Rightarrow> snapshot \<Rightarrow> allow_list" where
  "broker_allow_list ou b s = allow_list_for (ou_vault ou) (bk_vault b) (ps_floor (bk_projects b)) s"

definition rate_key :: "string \<Rightarrow> string \<Rightarrow> string" where
  "rate_key project secret_name = project @ ''/'' @ secret_name"

definition proxy_outcome :: "relay_result \<Rightarrow> string \<Rightarrow> string" where
  "proxy_outcome result success =
     (if rr_client_gone result then outcome_client_gone
      else if rr_error result \<noteq> [] then outcome_upstream_failed else success)"

section \<open>Routes\<close>

definition route_refusal :: "string \<Rightarrow> string \<Rightarrow> string \<Rightarrow> request \<Rightarrow> string \<Rightarrow> int \<Rightarrow> message \<Rightarrow> effect list" where
  "route_refusal kind project secret_name r upstream_host status msg =
     [WriteError status msg,
      Record (no_entry\<lparr>en_kind := kind, en_project := project, en_secret := secret_name, en_method := rq_method r,
        en_path := rq_path r, en_host := upstream_host, en_status := status, en_outcome := outcome_refused\<rparr>)]"

definition route_handler :: "outside \<Rightarrow> broker \<Rightarrow> string \<Rightarrow> string \<Rightarrow> string \<Rightarrow> string \<Rightarrow> request \<Rightarrow> effect list \<times> limiter" where
  "route_handler ou b project secret_name kind success r =
     (let refuse = route_refusal kind project secret_name r; limiter = bk_limiter b in
      case broker_snapshot b project of None \<Rightarrow> (refuse [] 404 NoProject, limiter)
      | Some s \<Rightarrow>
        (case broker_secret ou b s secret_name of None \<Rightarrow> (refuse [] 404 (NoRoute secret_name), limiter)
         | Some x \<Rightarrow>
           (case sec_route x of None \<Rightarrow> (refuse [] 404 (NoRoute secret_name), limiter)
            | Some spec \<Rightarrow>
              (let host = fst (split_upstream (rs_upstream spec)) in
               if sec_mode x \<noteq> mode_route then (refuse [] 404 (NoRoute secret_name), limiter)
               else if \<not> is_canonical_path r then (refuse host 400 PathNotCanonical, limiter)
               else if \<not> has_prefix (rq_path r) (rs_path_prefix spec) then (refuse host 404 (OnlyForwards secret_name (rs_path_prefix spec)), limiter)
               else if rs_methods spec \<noteq> [] \<and> \<not> contains_string (rs_methods spec) (rq_method r)
               then (AllowMethods (rs_methods spec) # refuse host 405 (AllowsMethods secret_name (rs_methods spec)), limiter)
               else (case allow (ou_now ou) (rate_key project secret_name) (rs_rate_limit spec) limiter of (ok, limiter') \<Rightarrow>
                 if \<not> ok then (refuse host 429 (RequestsAMinute secret_name (rs_rate_limit spec)), limiter')
                 else if sec_value x = [] then (refuse host 503 (NoSecretValue secret_name), limiter')
                 else (let up = \<lparr>up_scheme = ''https'', up_host = upstream_address (rs_upstream spec), up_header = rs_header spec,
                              up_value = rs_prefix spec @ sec_value x, up_drop_credentials = True\<rparr>;
                           result = ou_relay ou up r
                       in ([Forward up r,
                            Record (no_entry\<lparr>en_kind := kind, en_project := project, en_secret := secret_name, en_method := rq_method r,
                              en_path := rq_path r, en_host := host, en_status := rr_status result, en_bytes := rr_bytes result,
                              en_outcome := proxy_outcome result success, en_error := rr_error result\<rparr>)], limiter')))))))"

section \<open>Inmates\<close>

definition find_inmate_route :: "profile option \<Rightarrow> string \<Rightarrow> inmate_route option" where
  "find_inmate_route pf inmate = (case pf of None \<Rightarrow> None | Some x \<Rightarrow> find (\<lambda>route. ir_name route = inmate) (pf_inmates x))"

definition credential_variable_list :: "credential_spec list \<Rightarrow> string" where
  "credential_variable_list specs =
     (let names = filter (\<lambda>v. v \<noteq> []) (map cs_variable specs)
      in if names = [] then ''the credential variable'' else join '', '' names)"

definition inmate_refusal :: "string \<Rightarrow> string \<Rightarrow> request \<Rightarrow> int \<Rightarrow> message \<Rightarrow> effect list" where
  "inmate_refusal project inmate r status msg =
     [WriteError status msg,
      Record (no_entry\<lparr>en_kind := log_kind_inmate, en_project := project, en_inmate := inmate, en_method := rq_method r,
        en_path := rq_path r, en_status := status, en_outcome := outcome_refused\<rparr>)]"

definition inmate_handler :: "outside \<Rightarrow> broker \<Rightarrow> string \<Rightarrow> string \<Rightarrow> request \<Rightarrow> effect list" where
  "inmate_handler ou b project inmate r =
     (let refuse = inmate_refusal project inmate r in
      case broker_snapshot b project of None \<Rightarrow> refuse 404 NoProject
      | Some s \<Rightarrow>
        (case find_inmate_route (sn_profile s) inmate of None \<Rightarrow> refuse 404 (InmateNotEnabled inmate)
         | Some route \<Rightarrow>
           (let below = (if ir_path_prefix route = [] then ''/'' else ir_path_prefix route) in
            if \<not> is_canonical_path r then refuse 400 PathNotCanonical
            else if \<not> has_prefix (rq_path r) below then refuse 404 PathNotProxied
            else (case choose_credential (ir_credentials route) (bk_credentials b) of
                None \<Rightarrow> refuse 503 (NoCredential inmate (credential_variable_list (ir_credentials route)))
              | Some (hdr, text) \<Rightarrow>
                (let up = \<lparr>up_scheme = ''https'', up_host = upstream_address (ir_upstream route), up_header = hdr,
                       up_value = text, up_drop_credentials = True\<rparr>;
                     result = ou_relay ou up r
                 in [Forward up r,
                     Record (no_entry\<lparr>en_kind := log_kind_inmate, en_project := project, en_inmate := inmate,
                       en_method := rq_method r, en_path := rq_path r, en_status := rr_status result, en_bytes := rr_bytes result,
                       en_outcome := proxy_outcome result outcome_forwarded, en_error := rr_error result\<rparr>)])))))"

section \<open>The API of the broker\<close>

definition decode_sign_data :: "data_field \<Rightarrow> string option" where
  "decode_sign_data field = (case field of NoData \<Rightarrow> Some [] | OtherData \<Rightarrow> None | TextData text \<Rightarrow> base64_decode text)"

definition describe_key :: "outside \<Rightarrow> secret \<Rightarrow> sign_spec \<Rightarrow> key_description" where
  "describe_key ou x spec =
     (let described = \<lparr>kd_secret = sec_name x, kd_algorithm = ss_algorithm spec, kd_fingerprint = ss_fingerprint spec,
            kd_namespace = ss_namespace spec, kd_public_key = None, kd_available = (ss_algorithm spec \<noteq> algorithm_ssh_agent)\<rparr>
      in if ss_algorithm spec \<noteq> algorithm_ssh_agent then described
         else (case ou_public_key ou (ss_fingerprint spec) of None \<Rightarrow> described
               | Some key \<Rightarrow> described\<lparr>kd_public_key := Some key, kd_available := True\<rparr>))"

definition sign_key :: "outside \<Rightarrow> secret \<Rightarrow> key_description option" where
  "sign_key ou x = (if sec_mode x \<noteq> mode_sign then None else map_option (describe_key ou x) (sec_sign x))"

definition serve_keys :: "outside \<Rightarrow> broker \<Rightarrow> snapshot \<Rightarrow> effect list" where
  "serve_keys ou b s = [Answer 200 (Keys (List.map_filter (sign_key ou) (granted_secrets (ou_vault ou) (bk_vault b) s)))]"

definition serve_certificates :: "outside \<Rightarrow> broker \<Rightarrow> snapshot \<Rightarrow> effect list" where
  "serve_certificates ou b s =
     (let hosts = intercept_hosts (ou_vault ou) (bk_vault b) s in
      if bk_vault b \<noteq> None \<and> hosts \<noteq> [] then
        (case ou_bundle ou hosts of Err e \<Rightarrow> [WriteError 500 (NoBundle e)] | Ok bundle \<Rightarrow> [Answer 200 (CertificateBundle bundle)])
      else [Answer 200 (CertificateBundle [])])"

text \<open>The deferred entry of \<open>serveSign\<close> comes after the answer.\<close>

definition sign_record :: "snapshot \<Rightarrow> string \<Rightarrow> int \<Rightarrow> effect" where
  "sign_record s secret_name status =
     Record (no_entry\<lparr>en_kind := kind_sign, en_project := sn_id s, en_secret := secret_name, en_status := status\<rparr>)"

definition serve_sign :: "outside \<Rightarrow> broker \<Rightarrow> snapshot \<Rightarrow> request \<Rightarrow> effect list \<times> limiter" where
  "serve_sign ou b s r =
     (let limiter = bk_limiter b;
          refuse = (\<lambda>name code msg. [WriteError code msg, sign_record s name code])
      in case ou_body ou r of
           BodyUnreadable \<Rightarrow> (refuse [] 400 UnreadableBody, limiter)
         | NotJson \<Rightarrow> (refuse [] 400 BodyNotJson, limiter)
         | NotObject \<Rightarrow> (refuse [] 400 BodyNotObject, limiter)
         | SignRequest name field wanted \<Rightarrow>
             (case broker_secret ou b s name of None \<Rightarrow> (refuse name 404 (NoSigningSecret name), limiter)
              | Some x \<Rightarrow>
                (case sec_sign x of None \<Rightarrow> (refuse name 404 (NoSigningSecret name), limiter)
                 | Some spec \<Rightarrow>
                   if sec_mode x \<noteq> mode_sign then (refuse name 404 (NoSigningSecret name), limiter)
                   else (case decode_sign_data field of None \<Rightarrow> (refuse name 400 DataNotBase64, limiter)
                     | Some payload \<Rightarrow>
                       (case allow (ou_now ou) (rate_key (sn_id s) name) (ss_rate_limit spec) limiter of (ok, limiter') \<Rightarrow>
                          if \<not> ok then (refuse name 429 (SignaturesAMinute name (ss_rate_limit spec)), limiter')
                          else if ss_algorithm spec = algorithm_hmac_sha256
                          then ([Answer 200 (HmacSignature name (base64_encode (ou_hmac ou (sec_value x) payload))), sign_record s name 200], limiter')
                          else if ss_namespace spec \<noteq> [] \<and> wanted \<noteq> [] \<and> wanted \<noteq> ss_namespace spec
                          then (refuse name 403 (OtherNamespace name (ss_namespace spec)), limiter')
                          else (let ns1 = (if wanted = [] then ss_namespace spec else wanted);
                                    ns2 = (if ns1 = [] then ''git'' else ns1)
                                in case ou_sign ou (ss_fingerprint spec) ns2 payload of
                                     Err e \<Rightarrow> (refuse name 503 (AgentFailed e), limiter')
                                   | Ok sig \<Rightarrow> ([Answer 200 (SshSignature name sig), sign_record s name 200], limiter')))))))"

definition api_paths :: "string list" where
  "api_paths = [path_hosts, path_certificates, path_environment, path_keys, path_sign]"

definition broker_api_handler :: "outside \<Rightarrow> broker \<Rightarrow> string \<Rightarrow> request \<Rightarrow> effect list \<times> limiter" where
  "broker_api_handler ou b project r =
     (case broker_snapshot b project of None \<Rightarrow> ([WriteError 404 NoProject], bk_limiter b)
      | Some s \<Rightarrow>
        (let want_method = (if rq_path r = path_sign then method_post else method_get) in
         if \<not> contains_string api_paths (rq_path r) then ([WriteError 404 UnknownPath], bk_limiter b)
         else if rq_method r \<noteq> want_method
         then ([AllowMethods [want_method], WriteError 405 (AcceptsOnly (rq_path r) want_method)], bk_limiter b)
         else if rq_path r = path_hosts then ([Answer 200 (TextLines (allow_strings (broker_allow_list ou b s)))], bk_limiter b)
         else if rq_path r = path_certificates then (serve_certificates ou b s, bk_limiter b)
         else if rq_path r = path_environment
         then ([Answer 200 (TextLines (environment_lines (ou_vault ou) (bk_vault b) s))], bk_limiter b)
         else if rq_path r = path_keys then (serve_keys ou b s, bk_limiter b)
         else serve_sign ou b s r))"

definition zone_handler :: "string \<Rightarrow> string \<Rightarrow> string \<Rightarrow> handler" where
  "zone_handler project kind name =
     (if kind = kind_inmate then InmateHandler project name
      else if kind = kind_route then RouteHandler project name log_kind_route ''named''
      else BrokerAPI project)"

definition run_handler :: "outside \<Rightarrow> broker \<Rightarrow> handler \<Rightarrow> request \<Rightarrow> effect list \<times> limiter" where
  "run_handler ou b h r = (case h of
       BrokerAPI project \<Rightarrow> broker_api_handler ou b project r
     | InmateHandler project inmate \<Rightarrow> (inmate_handler ou b project inmate r, bk_limiter b)
     | RouteHandler project name kind success \<Rightarrow> route_handler ou b project name kind success r)"

text \<open>\<open>tunnelHandler\<close>: inside a tunnel there is no second one.\<close>

definition tunnel_handler :: "outside \<Rightarrow> broker \<Rightarrow> handler \<Rightarrow> request \<Rightarrow> effect list \<times> limiter" where
  "tunnel_handler ou b h r =
     (if rq_method r = method_connect then ([WriteError 405 ConnectInTunnel], bk_limiter b) else run_handler ou b h r)"

end
