(* ===== verification/Broker_Dispatch.thy ===== *)
theory Broker_Dispatch
  imports Broker_Handlers
begin

text \<open>
  \<open>internal/broker/dispatch.go\<close>: what the broker does with a request of a box. \<open>serve_tcp\<close>
  authenticates it and serves a tunnel, a zone name or an absolute HTTP address.

  The lemmas say what each step can do. The properties are the safety of the whole: only a request
  with the token of a project leads anywhere, a connection is opened only to a destination that the
  egress policy of that project allows, and a credential goes only to the upstream of a secret or an
  inmate of that project.
\<close>

section \<open>Definitions\<close>

definition egress_entry :: "string \<Rightarrow> request \<Rightarrow> string \<Rightarrow> int \<Rightarrow> string \<Rightarrow> int \<Rightarrow> log_entry" where
  "egress_entry project r host port outcome status =
     no_entry\<lparr>en_kind := kind_egress, en_project := project, en_client := client_address (rq_remote r),
       en_method := rq_method r, en_host := host, en_port := port, en_outcome := outcome, en_status := status\<rparr>"

definition authenticate :: "broker \<Rightarrow> request \<Rightarrow> snapshot option option" where
  "authenticate b r = (case token_from_proxy_authorization (rq_authorization r) of
     None \<Rightarrow> Some None | Some token \<Rightarrow> lookup_token (ps_table (bk_projects b)) token)"

definition refuse_destination :: "snapshot \<Rightarrow> request \<Rightarrow> string \<Rightarrow> int \<Rightarrow> decision \<Rightarrow> effect list" where
  "refuse_destination s r host port d =
     (if host_known d then
        [WriteError 403 (NotAllowedPort host port (suggested d)), Record (egress_entry (sn_id s) r host port outcome_denied_port 403)]
      else [WriteError 403 (NotAllowedHost host), Record (egress_entry (sn_id s) r host port outcome_denied_host 403)])"

text \<open>\<open>acknowledgeTunnel\<close> and then a tunnel.\<close>

definition open_tunnel :: "outside \<Rightarrow> effect list \<Rightarrow> effect list" where
  "open_tunnel ou next' = (case ou_hijack ou of
     Hijacked \<Rightarrow> Answer 200 TunnelOpen # next' | HijackRefused \<Rightarrow> [WriteError 500 CannotHijack] | HijackBroken \<Rightarrow> [CloseConnection])"

definition serve_intercept :: "outside \<Rightarrow> broker \<Rightarrow> snapshot \<Rightarrow> string \<Rightarrow> string \<Rightarrow> int \<Rightarrow> effect list" where
  "serve_intercept ou b s secret_name host port =
     (let refuse = (\<lambda>msg. [WriteError 502 msg,
            Record (no_entry\<lparr>en_kind := log_kind_route, en_project := sn_id s, en_secret := secret_name, en_method := method_connect,
              en_host := host, en_port := port, en_outcome := outcome_refused, en_status := 502\<rparr>)])
      in if bk_vault b = None then refuse (NoAuthority host secret_name)
         else (case ou_certificate ou host of Some e \<Rightarrow> refuse (NoCertificate host e)
           | None \<Rightarrow> open_tunnel ou [ServeTLS host (RouteHandler (sn_id s) secret_name log_kind_route ''intercepted'')]))"

definition serve_connect :: "outside \<Rightarrow> broker \<Rightarrow> request \<Rightarrow> snapshot \<Rightarrow> effect list" where
  "serve_connect ou b r s =
     (let target = connect_target r in
      case split_connect_target target of
        None \<Rightarrow> [WriteError 400 (NotHostPort target), Record (egress_entry (sn_id s) r target 0 outcome_malformed 400)]
      | Some (host, port) \<Rightarrow>
        (case parse_zone_name host of
           Some (kind, name) \<Rightarrow> open_tunnel ou [ServeTunnel (zone_handler (sn_id s) kind name)]
         | None \<Rightarrow>
           (case intercept_route_for (ou_vault ou) (bk_vault b) s host port of
              Some x \<Rightarrow> serve_intercept ou b s (sec_name x) host port
            | None \<Rightarrow>
              (let d = allows (broker_allow_list ou b s) host port in
               if \<not> allowed d then refuse_destination s r host port d
               else (case ou_dial ou host port of
                   Some e \<Rightarrow> [Dial host port, WriteError 502 (CannotReach host e),
                     Record ((egress_entry (sn_id s) r host port outcome_upstream_failed 502)\<lparr>en_error := e\<rparr>)]
                 | None \<Rightarrow> Dial host port # open_tunnel ou
                     [Record ((egress_entry (sn_id s) r host port outcome_allowed 200)\<lparr>en_bytes := ou_moved ou\<rparr>)])))))"

definition absolute_outcome :: "relay_result \<Rightarrow> string" where
  "absolute_outcome result = proxy_outcome result outcome_allowed"

definition serve_absolute_uri :: "outside \<Rightarrow> broker \<Rightarrow> request \<Rightarrow> snapshot \<Rightarrow> effect list \<times> limiter" where
  "serve_absolute_uri ou b r s =
     (let host = normalize_target_host (url_hostname (rq_url_host r)); port_text = url_port (rq_url_host r);
          port = (if port_text = [] then Some 80
                  else (case atoi port_text of None \<Rightarrow> None | Some p \<Rightarrow> if p < 1 \<or> p > 65535 then None else Some p))
      in case port of None \<Rightarrow> ([WriteError 400 (NotAPort port_text)], bk_limiter b)
         | Some p \<Rightarrow>
           (case parse_zone_name host of
              Some (kind, name) \<Rightarrow> run_handler ou b (zone_handler (sn_id s) kind name) r
            | None \<Rightarrow>
              (let d = allows (broker_allow_list ou b s) host p in
               if \<not> allowed d then (refuse_destination s r host p d, bk_limiter b)
               else (let up = \<lparr>up_scheme = ''http'', up_host = rq_url_host r, up_header = [], up_value = [], up_drop_credentials = False\<rparr>;
                         result = ou_relay ou up r
                     in ([Forward up r,
                          Record ((egress_entry (sn_id s) r host p (absolute_outcome result) (rr_status result))
                            \<lparr>en_bytes := rr_bytes result, en_error := rr_error result\<rparr>)], bk_limiter b)))))"

text \<open>The outer \<open>None\<close> would be a missing entry of the project table.\<close>

definition serve_tcp :: "outside \<Rightarrow> broker \<Rightarrow> request \<Rightarrow> (effect list \<times> limiter) option" where
  "serve_tcp ou b r =
     (case request_target r of (host, port) \<Rightarrow>
        (case authenticate b r of
           None \<Rightarrow> None
         | Some None \<Rightarrow> Some ([ProxyAuthenticate, WriteError 407 TokenRequired,
             Record (egress_entry [] r host port outcome_unauthenticated 407)], bk_limiter b)
         | Some (Some s) \<Rightarrow> Some
             (if rq_method r = method_connect then (serve_connect ou b r s, bk_limiter b)
              else if rq_url_host r \<noteq> [] \<and> equal_fold (rq_scheme r) ''http'' then serve_absolute_uri ou b r s
              else ([WriteError 400 OnlyConnect, Record (egress_entry (sn_id s) r host port outcome_malformed 400)], bk_limiter b))))"

section \<open>What a handler can do\<close>

text \<open>A request is forwarded with the credential of a granted route, to its upstream and below its
  prefix, or with the credential of an inmate of the project.\<close>

definition route_forward :: "outside \<Rightarrow> broker \<Rightarrow> string \<Rightarrow> upstream \<Rightarrow> request \<Rightarrow> bool" where
  "route_forward ou b project up r \<longleftrightarrow>
     (\<exists>s name x spec. broker_snapshot b project = Some s \<and> name \<in> set (sn_granted s) \<and> broker_secret ou b s name = Some x \<and>
        sec_mode x = mode_route \<and> sec_route x = Some spec \<and> sec_value x \<noteq> [] \<and>
        is_canonical_path r \<and> has_prefix (rq_path r) (rs_path_prefix spec) \<and>
        (rs_methods spec = [] \<or> rq_method r \<in> set (rs_methods spec)) \<and>
        up = \<lparr>up_scheme = ''https'', up_host = upstream_address (rs_upstream spec), up_header = rs_header spec,
          up_value = rs_prefix spec @ sec_value x, up_drop_credentials = True\<rparr>)"

definition inmate_forward :: "broker \<Rightarrow> string \<Rightarrow> upstream \<Rightarrow> request \<Rightarrow> bool" where
  "inmate_forward b project up r \<longleftrightarrow>
     (\<exists>s pf route hdr text. broker_snapshot b project = Some s \<and> sn_profile s = Some pf \<and> route \<in> set (pf_inmates pf) \<and>
        choose_credential (ir_credentials route) (bk_credentials b) = Some (hdr, text) \<and> is_canonical_path r \<and>
        up = \<lparr>up_scheme = ''https'', up_host = upstream_address (ir_upstream route), up_header = hdr, up_value = text,
          up_drop_credentials = True\<rparr>)"

definition leads_out :: "effect \<Rightarrow> bool" where
  "leads_out e = (case e of Dial _ _ \<Rightarrow> True | Forward _ _ \<Rightarrow> True | ServeTunnel _ \<Rightarrow> True | ServeTLS _ _ \<Rightarrow> True | _ \<Rightarrow> False)"

definition is_forward :: "effect \<Rightarrow> bool" where
  "is_forward e = (case e of Forward _ _ \<Rightarrow> True | _ \<Rightarrow> False)"

lemma broker_secret_granted: "broker_secret ou b s name = Some x \<Longrightarrow> name \<in> set (sn_granted s)"
  by (auto simp: broker_secret_def granted_secret_def split: if_splits)

lemma route_handler_forward:
  assumes "Forward up r' \<in> set (fst (route_handler ou b project name kind success r))"
  shows "route_forward ou b project up r' \<and> r' = r"
proof (cases "broker_snapshot b project")
  case None
  then show ?thesis using assms by (simp add: route_handler_def route_refusal_def)
next
  case s: (Some s)
  show ?thesis
  proof (cases "broker_secret ou b s name")
    case None
    then show ?thesis using assms s by (simp add: route_handler_def route_refusal_def)
  next
    case x: (Some x)
    show ?thesis
    proof (cases "sec_route x")
      case None
      then show ?thesis using assms s x by (simp add: route_handler_def route_refusal_def)
    next
      case spec: (Some spec)
      have "sec_mode x = mode_route \<and> sec_value x \<noteq> [] \<and> is_canonical_path r \<and> has_prefix (rq_path r) (rs_path_prefix spec) \<and>
        (rs_methods spec = [] \<or> rq_method r \<in> set (rs_methods spec)) \<and> r' = r \<and>
        up = \<lparr>up_scheme = ''https'', up_host = upstream_address (rs_upstream spec), up_header = rs_header spec,
          up_value = rs_prefix spec @ sec_value x, up_drop_credentials = True\<rparr>"
        using assms s x spec
        by (simp add: route_handler_def route_refusal_def Let_def contains_string_def list_ex_iff split: if_splits prod.splits)
      then show ?thesis using s x spec broker_secret_granted [OF x] unfolding route_forward_def by blast
    qed
  qed
qed

lemma find_in: "find P xs = Some x \<Longrightarrow> x \<in> set xs \<and> P x"
  by (induction xs) (auto split: if_splits)

lemma inmate_handler_forward:
  assumes "Forward up r' \<in> set (inmate_handler ou b project inmate r)"
  shows "inmate_forward b project up r' \<and> r' = r"
proof -
  obtain s route where s: "broker_snapshot b project = Some s" "find_inmate_route (sn_profile s) inmate = Some route"
    using assms by (auto simp: inmate_handler_def inmate_refusal_def Let_def split: option.splits)
  obtain pf where p: "sn_profile s = Some pf" "route \<in> set (pf_inmates pf)"
    using s(2) find_in by (fastforce simp: find_inmate_route_def split: option.splits)
  obtain hdr shown where c: "choose_credential (ir_credentials route) (bk_credentials b) = Some (hdr, shown)"
    using assms s by (cases "choose_credential (ir_credentials route) (bk_credentials b)")
      (auto simp: inmate_handler_def inmate_refusal_def Let_def split: if_splits)
  have "is_canonical_path r \<and> r' = r \<and> up = \<lparr>up_scheme = ''https'', up_host = upstream_address (ir_upstream route),
      up_header = hdr, up_value = shown, up_drop_credentials = True\<rparr>"
    using assms s c by (simp add: inmate_handler_def inmate_refusal_def Let_def split: if_splits)
  then show ?thesis using s(1) p c unfolding inmate_forward_def by blast
qed

lemma serve_sign_inside: "e \<in> set (fst (serve_sign ou b s r)) \<Longrightarrow> \<not> leads_out e"
proof -
  have refuse: "e \<in> set [WriteError code msg, sign_record s name code] \<Longrightarrow> \<not> leads_out e" for code msg name
    by (auto simp: leads_out_def sign_record_def)
  have good: "e \<in> set [Answer code a, sign_record s name code] \<Longrightarrow> \<not> leads_out e" for code a name
    by (auto simp: leads_out_def sign_record_def)
  assume e: "e \<in> set (fst (serve_sign ou b s r))"
  show ?thesis
  proof (cases "ou_body ou r")
    case (SignRequest name field wanted)
    show ?thesis
    proof (cases "Option.bind (broker_secret ou b s name) (\<lambda>x. map_option (Pair x) (sec_sign x))")
      case None
      then show ?thesis using e SignRequest refuse by (auto simp: serve_sign_def Let_def split: option.splits)
    next
      case (Some a)
      then obtain x spec where "broker_secret ou b s name = Some x" "sec_sign x = Some spec" by (auto simp: bind_eq_Some_conv)
      then show ?thesis using e SignRequest refuse good
        by (simp add: serve_sign_def Let_def split: option.splits if_splits prod.splits sum.splits; blast)
    qed
  qed (use e refuse in \<open>auto simp: serve_sign_def\<close>)
qed

lemma api_handler_inside: "e \<in> set (fst (broker_api_handler ou b project r)) \<Longrightarrow> \<not> leads_out e"
proof -
  assume e: "e \<in> set (fst (broker_api_handler ou b project r))"
  show ?thesis
  proof (cases "broker_snapshot b project")
    case None
    then show ?thesis using e by (simp add: broker_api_handler_def leads_out_def)
  next
    case (Some s)
    have "e \<in> set (serve_certificates ou b s) \<Longrightarrow> \<not> leads_out e"
      by (auto simp: serve_certificates_def leads_out_def Let_def split: if_splits sum.splits)
    moreover have "e \<in> set (serve_keys ou b s) \<Longrightarrow> \<not> leads_out e" by (simp add: serve_keys_def leads_out_def)
    ultimately show ?thesis using e Some serve_sign_inside
      by (simp add: broker_api_handler_def Let_def split: if_splits) (auto simp: leads_out_def)
  qed
qed

lemma refusals_inside:
  "e \<in> set (route_refusal kind project name r host status msg) \<Longrightarrow> \<not> leads_out e"
  "e \<in> set (inmate_refusal project inmate r status msg) \<Longrightarrow> \<not> leads_out e"
  "e \<in> set (refuse_destination s r host' port d) \<Longrightarrow> \<not> leads_out e"
  by (auto simp: route_refusal_def inmate_refusal_def refuse_destination_def leads_out_def split: if_splits)

lemma route_handler_out:
  assumes "e \<in> set (fst (route_handler ou b project name kind success r))" "leads_out e"
  shows "is_forward e"
proof (cases "Option.bind (broker_snapshot b project) (\<lambda>s. Option.bind (broker_secret ou b s name) sec_route)")
  case None
  then show ?thesis using assms refusals_inside(1) by (auto simp: route_handler_def Let_def split: option.splits)
next
  case (Some spec)
  then obtain s x where "broker_snapshot b project = Some s" "broker_secret ou b s name = Some x" "sec_route x = Some spec"
    by (auto simp: bind_eq_Some_conv)
  then show ?thesis using assms refusals_inside(1)
    by (simp add: route_handler_def Let_def split: if_splits prod.splits) (auto simp: leads_out_def is_forward_def)
qed

lemma inmate_handler_out: "e \<in> set (inmate_handler ou b project inmate r) \<Longrightarrow> leads_out e \<Longrightarrow> is_forward e"
  using refusals_inside(2)
  by (simp add: inmate_handler_def Let_def split: option.splits if_splits prod.splits) (auto simp: leads_out_def is_forward_def)

section \<open>What a request can lead to\<close>

definition handler_project :: "handler \<Rightarrow> string" where
  "handler_project h = (case h of BrokerAPI project \<Rightarrow> project | InmateHandler project _ \<Rightarrow> project | RouteHandler project _ _ _ \<Rightarrow> project)"

text \<open>The port that an HTTP client dials for the host of a URL.\<close>

definition dialled_port :: "string \<Rightarrow> int option" where
  "dialled_port url_host = (if url_port url_host = [] then Some 80 else atoi (url_port url_host))"

definition plain_forward :: "outside \<Rightarrow> broker \<Rightarrow> snapshot \<Rightarrow> request \<Rightarrow> upstream \<Rightarrow> request \<Rightarrow> bool" where
  "plain_forward ou b s r up r' \<longleftrightarrow> r' = r \<and>
     up = \<lparr>up_scheme = ''http'', up_host = rq_url_host r, up_header = [], up_value = [], up_drop_credentials = False\<rparr> \<and>
     (\<exists>port. dialled_port (rq_url_host r) = Some port \<and> 1 \<le> port \<and> port \<le> 65535 \<and>
        allowed (allows (broker_allow_list ou b s) (normalize_target_host (url_hostname (rq_url_host r))) port))"

definition permitted :: "outside \<Rightarrow> broker \<Rightarrow> snapshot \<Rightarrow> request \<Rightarrow> effect \<Rightarrow> bool" where
  "permitted ou b s r e = (case e of
       Dial host port \<Rightarrow> allowed (allows (broker_allow_list ou b s) host port)
     | Forward up r' \<Rightarrow> route_forward ou b (sn_id s) up r' \<or> inmate_forward b (sn_id s) up r' \<or> plain_forward ou b s r up r'
     | ServeTunnel h \<Rightarrow> handler_project h = sn_id s
     | ServeTLS host h \<Rightarrow> (\<exists>x\<in>set (intercept_routes (ou_vault ou) (bk_vault b) s). sec_name x \<in> set (sn_granted s) \<and>
         fst (split_upstream (route_upstream x)) = host \<and> h = RouteHandler (sn_id s) (sec_name x) log_kind_route ''intercepted'')
     | _ \<Rightarrow> True)"

lemma zone_project: "handler_project (zone_handler project kind name) = project"
  by (simp add: zone_handler_def handler_project_def)

lemma run_handler_confined:
  assumes "e \<in> set (fst (run_handler ou b h r))" "leads_out e"
  shows "\<exists>up. e = Forward up r \<and> (route_forward ou b (handler_project h) up r \<or> inmate_forward b (handler_project h) up r)"
proof (cases h)
  case (BrokerAPI project)
  then show ?thesis using assms api_handler_inside by (simp add: run_handler_def)
next
  case (InmateHandler project inmate)
  then have i: "e \<in> set (inmate_handler ou b project inmate r)" using assms(1) by (simp add: run_handler_def)
  then obtain up r' where "e = Forward up r'" using inmate_handler_out [OF i assms(2)] by (auto simp: is_forward_def split: effect.splits)
  then show ?thesis using i inmate_handler_forward InmateHandler unfolding handler_project_def by fastforce
next
  case (RouteHandler project name kind success)
  then have i: "e \<in> set (fst (route_handler ou b project name kind success r))" using assms(1) by (simp add: run_handler_def)
  then obtain up r' where "e = Forward up r'" using route_handler_out [OF i assms(2)] by (auto simp: is_forward_def split: effect.splits)
  then show ?thesis using i route_handler_forward RouteHandler unfolding handler_project_def by fastforce
qed

lemma intercept_found:
  assumes "intercept_route_for vs held s host port = Some x"
  shows "x \<in> set (intercept_routes vs held s)" "fst (split_upstream (route_upstream x)) = host" "sec_name x \<in> set (sn_granted s)"
proof -
  note f = find_in [OF assms [unfolded intercept_route_for_def]]
  show "x \<in> set (intercept_routes vs held s)" "fst (split_upstream (route_upstream x)) = host" using f by auto
  then show "sec_name x \<in> set (sn_granted s)" using granted_secrets_named by (auto simp: intercept_routes_def)
qed

lemma serve_connect_permitted:
  assumes "e \<in> set (serve_connect ou b r s)" "leads_out e"
  shows "permitted ou b s r e"
proof (cases "split_connect_target (connect_target r)")
  case None
  then show ?thesis using assms by (auto simp: serve_connect_def leads_out_def Let_def)
next
  case (Some a)
  then obtain host port where t: "split_connect_target (connect_target r) = Some (host, port)" by (cases a) auto
  show ?thesis
  proof (cases "parse_zone_name host")
    case (Some z)
    then show ?thesis using assms t
      by (cases z) (auto simp: serve_connect_def open_tunnel_def leads_out_def permitted_def zone_project split: if_splits hijack_outcome.splits)
  next
    case z: None
    show ?thesis
    proof (cases "intercept_route_for (ou_vault ou) (bk_vault b) s host port")
      case (Some x)
      have "e = ServeTLS host (RouteHandler (sn_id s) (sec_name x) log_kind_route ''intercepted'')"
        using assms t z Some
        by (auto simp: serve_connect_def serve_intercept_def open_tunnel_def leads_out_def Let_def split: if_splits option.splits hijack_outcome.splits)
      then show ?thesis using intercept_found [OF Some] unfolding permitted_def by auto
    next
      case None
      then show ?thesis using assms t z refusals_inside(3)
        by (simp add: serve_connect_def open_tunnel_def Let_def split: if_splits option.splits hijack_outcome.splits) (auto simp: leads_out_def permitted_def)
    qed
  qed
qed

lemma serve_absolute_permitted:
  assumes "e \<in> set (fst (serve_absolute_uri ou b r s))" "leads_out e"
  shows "permitted ou b s r e"
proof -
  let ?host = "normalize_target_host (url_hostname (rq_url_host r))"
  let ?port = "if url_port (rq_url_host r) = [] then Some 80
     else (case atoi (url_port (rq_url_host r)) of None \<Rightarrow> None | Some p \<Rightarrow> if p < 1 \<or> p > 65535 then None else Some p)"
  show ?thesis
  proof (cases ?port)
    case None
    then have "fst (serve_absolute_uri ou b r s) = [WriteError 400 (NotAPort (url_port (rq_url_host r)))]"
      unfolding serve_absolute_uri_def Let_def by (simp only: option.case fst_conv)
    then show ?thesis using assms by (simp add: leads_out_def)
  next
    case (Some p)
    have p: "dialled_port (rq_url_host r) = Some p \<and> 1 \<le> p \<and> p \<le> 65535"
      using Some by (auto simp: dialled_port_def split: if_splits option.splits)
    show ?thesis
    proof (cases "parse_zone_name ?host")
      case z: (Some z)
      obtain kind name where "z = (kind, name)" by (cases z)
      then have "fst (serve_absolute_uri ou b r s) = fst (run_handler ou b (zone_handler (sn_id s) kind name) r)"
        using z unfolding serve_absolute_uri_def Let_def Some by (simp only: option.case prod.case)
      then have "e \<in> set (fst (run_handler ou b (zone_handler (sn_id s) kind name) r))" using assms(1) by simp
      from run_handler_confined [OF this assms(2)] show ?thesis by (auto simp: zone_project permitted_def)
    next
      case None
      have "fst (serve_absolute_uri ou b r s) = (let d = allows (broker_allow_list ou b s) ?host p in
          if \<not> allowed d then refuse_destination s r ?host p d
          else (let up = \<lparr>up_scheme = ''http'', up_host = rq_url_host r, up_header = [], up_value = [], up_drop_credentials = False\<rparr>;
              result = ou_relay ou up r
            in [Forward up r, Record ((egress_entry (sn_id s) r ?host p (absolute_outcome result) (rr_status result))
                  \<lparr>en_bytes := rr_bytes result, en_error := rr_error result\<rparr>)]))"
        unfolding serve_absolute_uri_def Let_def Some None option.case by (simp only: if_distrib [of fst] fst_conv)
      then show ?thesis using assms refusals_inside(3) p
        by (simp add: Let_def split: if_splits) (auto simp: leads_out_def permitted_def plain_forward_def)
    qed
  qed
qed

text \<open>C1. Only an authenticated request leads anywhere, and only where its project may go. Whatever the
  broker opens for a request, the request carries the non-empty token of a project, and: a direct connection
  goes to a host and port that the egress policy of that project allows; a tunnel serves only that project;
  TLS is ended only for the upstream of a granted, intercepted secret; a forwarded request either goes without
  a credential to a host that the policy allows on the port that is dialled for its URL (80 without a port), or carries the credential of a granted route or of an inmate of
  that project to its own upstream.\<close>

theorem egress_safe:
  assumes "table_ok (ps_table (bk_projects b))" "serve_tcp ou b r = Some (es, limiter')" "e \<in> set es" "leads_out e"
  shows "\<exists>s. token_from_proxy_authorization (rq_authorization r) = Some (sn_token s) \<and> sn_token s \<noteq> [] \<and>
    broker_snapshot b (sn_id s) = Some s \<and> permitted ou b s r e"
proof -
  obtain host port where t: "request_target r = (host, port)" by (cases "request_target r")
  obtain s where s: "authenticate b r = Some (Some s)"
    using assms(2-4) t by (auto simp: serve_tcp_def leads_out_def split: option.splits)
  then obtain token where token: "token_from_proxy_authorization (rq_authorization r) = Some token"
    "lookup_token (ps_table (bk_projects b)) token = Some (Some s)"
    by (auto simp: authenticate_def split: option.splits)
  have known: "broker_snapshot b (sn_id s) = Some s" "sn_token s = token" "token \<noteq> []"
    using lookup_token_exact [OF assms(1), of token] token(2) by (auto simp: broker_snapshot_def)
  have "e \<in> set (serve_connect ou b r s) \<or> e \<in> set (fst (serve_absolute_uri ou b r s))"
    using assms(2-4) s t by (auto simp: serve_tcp_def leads_out_def split: if_splits)
  then have "permitted ou b s r e" using serve_connect_permitted serve_absolute_permitted assms(4) by blast
  then show ?thesis using token(1) known by blast
qed

text \<open>C2. A tunnel stays within its project. Whatever a handler of a tunnel opens for any request is that
  request, forwarded with the credential of a granted route or of an inmate of the handler's project to its own
  upstream; and there is no second tunnel inside it.\<close>

theorem tunnel_confined:
  assumes "e \<in> set (fst (tunnel_handler ou b h r))" "leads_out e"
  shows "\<exists>up. e = Forward up r \<and> rq_method r \<noteq> method_connect \<and> up_scheme up = ''https'' \<and> up_drop_credentials up \<and>
    (route_forward ou b (handler_project h) up r \<or> inmate_forward b (handler_project h) up r)"
proof -
  have m: "rq_method r \<noteq> method_connect" "e \<in> set (fst (run_handler ou b h r))"
    using assms by (auto simp: tunnel_handler_def leads_out_def split: if_splits)
  then obtain up where u: "e = Forward up r" "route_forward ou b (handler_project h) up r \<or> inmate_forward b (handler_project h) up r"
    using run_handler_confined [OF m(2) assms(2)] by blast
  have "up_scheme up = ''https''" "up_drop_credentials up" using u(2) unfolding route_forward_def inmate_forward_def by force+
  then show ?thesis using u m(1) by blast
qed

section \<open>Refusals and the log\<close>

text \<open>The refusals that no entry records: an absolute address with a port out of range, a connection that the server cannot hand over, a CONNECT
  inside of a tunnel, and what the API of the broker refuses before it looks at a signing request.\<close>

fun unrecorded :: "message \<Rightarrow> int option" where
  "unrecorded (NotAPort port) = Some 400"
| "unrecorded CannotHijack = Some 500"
| "unrecorded ConnectInTunnel = Some 405"
| "unrecorded NoProject = Some 404"
| "unrecorded UnknownPath = Some 404"
| "unrecorded (AcceptsOnly path meth) = Some 405"
| "unrecorded (NoBundle e) = Some 500"
| "unrecorded msg = None"

text \<open>Every other error answer in a list of effects has an entry with its status.\<close>

definition refusals_logged :: "effect list \<Rightarrow> bool" where
  "refusals_logged es \<longleftrightarrow> (\<forall>status msg. WriteError status msg \<in> set es \<longrightarrow> (\<exists>en. Record en \<in> set es \<and> en_status en = status) \<or> unrecorded msg = Some status)"

lemma refusals_logged_pairs [simp]:
  "refusals_logged (route_refusal kind project name r host status msg)"
  "refusals_logged (AllowMethods ms # route_refusal kind project name r host status msg)"
  "refusals_logged (inmate_refusal project inmate r status msg)"
  "refusals_logged (refuse_destination s r host' port d)"
  "refusals_logged [Forward up r, Record en]"
  "refusals_logged [WriteError status msg, sign_record s name status]"
  "refusals_logged [Answer status a, sign_record s name recorded]"
  by (auto simp: refusals_logged_def route_refusal_def inmate_refusal_def refuse_destination_def egress_entry_def sign_record_def)

lemma refusals_logged_single [simp]:
  "refusals_logged [Answer status a]" "refusals_logged [WriteError status msg] \<longleftrightarrow> unrecorded msg = Some status"
  "refusals_logged [AllowMethods ms, WriteError status msg] \<longleftrightarrow> unrecorded msg = Some status"
  by (auto simp: refusals_logged_def)

lemma route_handler_logged: "refusals_logged (fst (route_handler ou b project name kind success r))"
proof (cases "Option.bind (broker_snapshot b project) (\<lambda>s. Option.bind (broker_secret ou b s name) sec_route)")
  case None
  then show ?thesis by (auto simp: route_handler_def Let_def split: option.splits)
next
  case (Some spec)
  then obtain s x where "broker_snapshot b project = Some s" "broker_secret ou b s name = Some x" "sec_route x = Some spec"
    by (auto simp: bind_eq_Some_conv)
  then show ?thesis by (simp add: route_handler_def Let_def split: if_splits prod.splits)
qed

lemma inmate_handler_logged: "refusals_logged (inmate_handler ou b project inmate r)"
  by (simp add: inmate_handler_def Let_def split: option.splits if_splits prod.splits)

lemma serve_sign_logged: "refusals_logged (fst (serve_sign ou b s r))"
  by (simp add: serve_sign_def Let_def split: sign_body.split option.split prod.split sum.split)

lemma api_handler_logged: "refusals_logged (fst (broker_api_handler ou b project r))"
  using serve_sign_logged
  by (simp add: broker_api_handler_def serve_certificates_def serve_keys_def Let_def split: option.split sum.split)

lemma run_handler_logged: "refusals_logged (fst (run_handler ou b h r))"
  using route_handler_logged inmate_handler_logged api_handler_logged by (cases h) (simp_all add: run_handler_def)

lemma open_tunnel_logged:
  assumes "\<forall>e\<in>set next'. \<forall>status msg. e \<noteq> WriteError status msg"
  shows "refusals_logged (open_tunnel ou next')" "refusals_logged (Dial host port # open_tunnel ou next')"
  using assms by (auto simp: refusals_logged_def open_tunnel_def split: hijack_outcome.split)

lemma serve_connect_logged: "refusals_logged (serve_connect ou b r s)"
proof -
  have tunnel: "refusals_logged (open_tunnel ou [ServeTunnel h])" "refusals_logged (open_tunnel ou [ServeTLS host h])"
    "refusals_logged (Dial host port # open_tunnel ou [Record en])" for h host port en
    by (simp_all add: open_tunnel_logged)
  have pairs: "refusals_logged [WriteError status msg, Record en]" "refusals_logged [Dial host port, WriteError status msg, Record en]"
    if "en_status en = status" for status msg en host port
    using that by (auto simp: refusals_logged_def)
  have intercept: "refusals_logged (serve_intercept ou b s name host port)" for name host port
    using tunnel(2) by (simp add: serve_intercept_def Let_def pairs split: option.split)
  show ?thesis using tunnel intercept
    by (simp add: serve_connect_def Let_def pairs egress_entry_def split: option.split prod.split)
qed

lemma serve_absolute_logged: "refusals_logged (fst (serve_absolute_uri ou b r s))"
  using run_handler_logged by (simp add: serve_absolute_uri_def Let_def split: option.split prod.split)

text \<open>C36. Every request that the broker refuses, outside and inside of tunnels, is in its log with the status of the answer. The exceptions
  are those of \<open>unrecorded\<close>.\<close>

theorem refusals_recorded:
  assumes "(\<exists>limiter'. serve_tcp ou b r = Some (es, limiter')) \<or> es = fst (tunnel_handler ou b h r)" "WriteError status msg \<in> set es"
  shows "(\<exists>en. Record en \<in> set es \<and> en_status en = status) \<or> unrecorded msg = Some status"
proof -
  have "refusals_logged es" if "serve_tcp ou b r = Some (es, limiter')" for limiter'
  proof -
    obtain host port where t: "request_target r = (host, port)" by (cases "request_target r")
    have "refusals_logged [ProxyAuthenticate, WriteError 407 TokenRequired, Record (egress_entry [] r host port outcome_unauthenticated 407)]"
      "refusals_logged [WriteError 400 OnlyConnect, Record (egress_entry i r host port outcome_malformed 400)]" for i
      by (auto simp: refusals_logged_def egress_entry_def)
    then show ?thesis using that t serve_connect_logged serve_absolute_logged
      by (auto simp: serve_tcp_def split: option.splits if_splits) (metis fst_conv)+
  qed
  moreover have "refusals_logged (fst (tunnel_handler ou b h r))" using run_handler_logged by (simp add: tunnel_handler_def)
  ultimately have "refusals_logged es" using assms(1) by blast
  then show ?thesis using assms(2) unfolding refusals_logged_def by blast
qed

section \<open>Examples\<close>

definition example_outside :: outside where
  "example_outside = \<lparr>ou_vault = example_vault_site, ou_now = 0,
     ou_relay = (\<lambda>up r. \<lparr>rr_status = 200, rr_bytes = 0, rr_error = [], rr_client_gone = False\<rparr>), ou_body = (\<lambda>r. NotJson),
     ou_bundle = (\<lambda>hosts. Ok []), ou_public_key = (\<lambda>f. None), ou_sign = (\<lambda>f n d. Err []), ou_hmac = (\<lambda>k d. []),
     ou_certificate = (\<lambda>h. None), ou_dial = (\<lambda>h p. None), ou_hijack = Hijacked, ou_moved = 10\<rparr>"

definition example_floor :: pattern where
  "example_floor = \<lparr>pat_host = ''github.com'', pat_wildcard = False, pat_all_ports = False, pat_ports = [443]\<rparr>"

definition example_inmate :: profile where
  "example_inmate = \<lparr>pf_inmates = [\<lparr>ir_name = ''claude'', ir_upstream = ''api.example.org'', ir_path_prefix = [],
     ir_credentials = [\<lparr>cs_variable = ''KEY'', cs_header = [], cs_prefix = ''Bearer ''\<rparr>]\<rparr>], pf_egress = [], pf_written = 0\<rparr>"

definition example_broker :: broker where
  "example_broker = \<lparr>bk_projects = \<lparr>ps_table = with_project example_id (Some ((example_snapshot example_id)\<lparr>sn_profile := Some example_inmate\<rparr>)) empty_table,
       ps_floor = \<lparr>fl_patterns = Some [example_floor], fl_stamp = []\<rparr>, ps_errors = [], ps_log = []\<rparr>,
     bk_vault = None, bk_credentials = [(''KEY'', ''k'')], bk_limiter = new_rate_limiter\<rparr>"

definition example_connect :: "string \<Rightarrow> request" where
  "example_connect target = \<lparr>rq_method = ''CONNECT'', rq_scheme = [], rq_url_host = target, rq_host = target, rq_path = [],
     rq_escaped_path = [], rq_authorization = proxy_authorization ''abc'', rq_remote = ''10.0.0.2:40000''\<rparr>"

lemma example_broker_ok: "table_ok (ps_table (bk_projects example_broker))"
  unfolding example_broker_def using with_project_ok [OF empty_table_ok] by (simp add: example_snapshot_def)

theorem egress_safe_witness:
  "allowed (allows (broker_allow_list example_outside example_broker
     ((example_snapshot example_id)\<lparr>sn_profile := Some example_inmate\<rparr>)) ''github.com'' 443)"
proof -
  have "map_option fst (serve_tcp example_outside example_broker (example_connect ''github.com:443'')) =
    Some [Dial ''github.com'' 443, Answer 200 TunnelOpen, Record (no_entry\<lparr>en_kind := kind_egress, en_project := example_id,
      en_client := ''10.0.0.2'', en_method := ''CONNECT'', en_host := ''github.com'', en_port := 443, en_outcome := outcome_allowed,
      en_status := 200, en_bytes := 10\<rparr>)]" by code_simp
  then obtain es limiter' where s: "serve_tcp example_outside example_broker (example_connect ''github.com:443'') = Some (es, limiter')"
    "Dial ''github.com'' 443 \<in> set es" by auto
  have "leads_out (Dial ''github.com'' 443)" by (simp add: leads_out_def)
  from egress_safe [OF example_broker_ok s this] obtain sn where sn: "broker_snapshot example_broker (sn_id sn) = Some sn"
    "permitted example_outside example_broker sn (example_connect ''github.com:443'') (Dial ''github.com'' 443)" by blast
  have "sn = (example_snapshot example_id)\<lparr>sn_profile := Some example_inmate\<rparr>"
    using sn(1) by (simp add: broker_snapshot_def example_broker_def snapshot_with empty_snapshot split: if_splits)
  then show ?thesis using sn(2) by (simp add: permitted_def)
qed

theorem tunnel_confined_witness:
  "\<exists>up. Forward up example_request \<in> set (fst (tunnel_handler example_outside example_broker (InmateHandler example_id ''claude'') example_request)) \<and>
     inmate_forward example_broker example_id up example_request"
proof -
  let ?up = "\<lparr>up_scheme = ''https'', up_host = ''api.example.org:443'', up_header = ''Authorization'', up_value = ''Bearer k'', up_drop_credentials = True\<rparr>"
  have f: "Forward ?up example_request \<in> set (fst (tunnel_handler example_outside example_broker (InmateHandler example_id ''claude'') example_request))"
    by code_simp
  have "leads_out (Forward ?up example_request)" by (simp add: leads_out_def)
  from tunnel_confined [OF f this] have c: "route_forward example_outside example_broker example_id ?up example_request \<or>
      inmate_forward example_broker example_id ?up example_request" by (simp add: handler_project_def)
  have "\<not> route_forward example_outside example_broker example_id ?up example_request"
    by (auto simp: route_forward_def broker_secret_def granted_secret_def example_broker_def split: if_splits)
  then show ?thesis using f c by blast
qed

theorem refusals_recorded_witness:
  "\<exists>es limiter' en. serve_tcp example_outside example_broker (example_connect ''example.com:443'') = Some (es, limiter') \<and>
     Record en \<in> set es \<and> en_status en = 403"
proof -
  have "map_option fst (serve_tcp example_outside example_broker (example_connect ''example.com:443'')) =
    Some [WriteError 403 (NotAllowedHost ''example.com''), Record (no_entry\<lparr>en_kind := kind_egress, en_project := example_id,
      en_client := ''10.0.0.2'', en_method := ''CONNECT'', en_host := ''example.com'', en_port := 443, en_outcome := outcome_denied_host,
      en_status := 403\<rparr>)]" by code_simp
  then obtain es limiter' where s: "serve_tcp example_outside example_broker (example_connect ''example.com:443'') = Some (es, limiter')"
    "WriteError 403 (NotAllowedHost ''example.com'') \<in> set es" by auto
  have "\<exists>l. serve_tcp example_outside example_broker (example_connect ''example.com:443'') = Some (es, l)" using s(1) by blast
  from refusals_recorded [OF disjI1 [OF this] s(2)] show ?thesis using s by auto
qed

end
