(* ===== verification/Broker_Listeners.thy ===== *)
theory Broker_Listeners
  imports Go_Prelude "HOL-Library.Multiset"
begin

text \<open>
  \<open>internal/broker/listeners.go\<close>: the TCP listeners of the boxes as a state machine.

  Each address has one entry, protected by its mutex. The goroutines are a multiset of threads: a call of
  \<open>listen\<close> before its check (\<open>Claiming\<close>), an attempt to bind and the wait before the next one
  (\<open>tryBind\<close>, \<open>retryBind\<close>), the end of the retries, and a server that accepts connections
  (\<open>serveListener\<close>). A step is one critical section. The outcome of \<open>net.Listen\<close>, of the server and of
  the run context is the choice of the step. The properties say that the threads and the flags of an entry
  always agree, so that an address never has two binders or two servers, and that binding comes to an end.
\<close>

section \<open>The entries\<close>

definition bind_attempts :: nat where "bind_attempts = 30"

record tcp_listener =
  ls_address :: string
  ls_bound :: bool
  ls_binding :: bool
  ls_port :: int
  ls_error :: string
  ls_server :: "nat option"

text \<open>\<open>control.Listener\<close>.\<close>

record listener_state =
  lst_address :: string
  lst_port :: int
  lst_bound :: bool
  lst_error :: string

definition new_listener :: "string \<Rightarrow> tcp_listener" where
  "new_listener a = \<lparr>ls_address = a, ls_bound = False, ls_binding = False, ls_port = 0, ls_error = [], ls_server = None\<rparr>"

definition entry_state :: "tcp_listener \<Rightarrow> listener_state" where
  "entry_state e = \<lparr>lst_address = ls_address e, lst_port = ls_port e, lst_bound = ls_bound e, lst_error = ls_error e\<rparr>"

definition is_taken :: "tcp_listener \<Rightarrow> bool" where
  "is_taken e \<longleftrightarrow> ls_bound e \<or> ls_binding e"

definition bind_failed :: "string \<Rightarrow> tcp_listener \<Rightarrow> tcp_listener" where
  "bind_failed err e = e\<lparr>ls_error := err\<rparr>"

definition bind_done :: "nat \<Rightarrow> int \<Rightarrow> tcp_listener \<Rightarrow> tcp_listener" where
  "bind_done n port e = e\<lparr>ls_server := Some n, ls_bound := True, ls_binding := False, ls_error := [], ls_port := port\<rparr>"

text \<open>\<open>serveListener\<close> after \<open>Serve\<close> has returned; the error of a closed server is \<open>None\<close>.\<close>

definition serve_ended :: "nat \<Rightarrow> string option \<Rightarrow> tcp_listener \<Rightarrow> tcp_listener" where
  "serve_ended n err e =
     (if ls_server e \<noteq> Some n then e
      else (let e' = e\<lparr>ls_bound := False, ls_server := None\<rparr>
            in case err of None \<Rightarrow> e' | Some m \<Rightarrow> e'\<lparr>ls_error := m\<rparr>))"

definition stop_binding :: "tcp_listener \<Rightarrow> tcp_listener" where
  "stop_binding e = e\<lparr>ls_binding := False\<rparr>"

section \<open>The manager and its threads\<close>

datatype thread =
    Claiming string
  | Trying string nat
  | Waiting string nat
  | GivingUp string
  | Serving string nat

record listener_manager =
  lm_entries :: "string \<Rightarrow> tcp_listener option"
  lm_order :: "string list"
  lm_threads :: "thread multiset"
  lm_next :: nat

definition no_listeners :: listener_manager where
  "no_listeners = \<lparr>lm_entries = (\<lambda>_. None), lm_order = [], lm_threads = {#}, lm_next = 0\<rparr>"

text \<open>The first critical section of \<open>listen\<close>.\<close>

definition enter_listen :: "string \<Rightarrow> listener_manager \<Rightarrow> listener_manager" where
  "enter_listen a s =
     (let s' = (case lm_entries s a of Some _ \<Rightarrow> s
            | None \<Rightarrow> s\<lparr>lm_entries := (lm_entries s)(a \<mapsto> new_listener a), lm_order := lm_order s @ [a]\<rparr>)
      in s'\<lparr>lm_threads := add_mset (Claiming a) (lm_threads s')\<rparr>)"

definition set_entry :: "string \<Rightarrow> tcp_listener \<Rightarrow> thread multiset \<Rightarrow> listener_manager \<Rightarrow> listener_manager" where
  "set_entry a e T s = s\<lparr>lm_entries := (lm_entries s)(a \<mapsto> e), lm_threads := T\<rparr>"

text \<open>What follows an attempt that failed.\<close>

definition after_failure :: "string \<Rightarrow> nat \<Rightarrow> thread" where
  "after_failure a k = (if k < bind_attempts then Waiting a (Suc k) else GivingUp a)"

inductive listener_step :: "listener_manager \<Rightarrow> listener_manager \<Rightarrow> bool" where
  enter: "listener_step s (enter_listen a s)"
| claim_taken: "lm_threads s = add_mset (Claiming a) T \<Longrightarrow> lm_entries s a = Some e \<Longrightarrow> is_taken e \<Longrightarrow>
    listener_step s (s\<lparr>lm_threads := T\<rparr>)"
| claim_free: "lm_threads s = add_mset (Claiming a) T \<Longrightarrow> lm_entries s a = Some e \<Longrightarrow> \<not> is_taken e \<Longrightarrow>
    listener_step s (set_entry a (e\<lparr>ls_binding := True\<rparr>) (add_mset (Trying a 1) T) s)"
| bind_ok: "lm_threads s = add_mset (Trying a k) T \<Longrightarrow> lm_entries s a = Some e \<Longrightarrow>
    listener_step s ((set_entry a (bind_done (lm_next s) port e) (add_mset (Serving a (lm_next s)) T) s)\<lparr>lm_next := Suc (lm_next s)\<rparr>)"
| bind_fail: "lm_threads s = add_mset (Trying a k) T \<Longrightarrow> lm_entries s a = Some e \<Longrightarrow>
    listener_step s (set_entry a (bind_failed err e) (add_mset (after_failure a k) T) s)"
| timer: "lm_threads s = add_mset (Waiting a k) T \<Longrightarrow> listener_step s (s\<lparr>lm_threads := add_mset (Trying a k) T\<rparr>)"
| cancelled: "lm_threads s = add_mset (Waiting a k) T \<Longrightarrow> listener_step s (s\<lparr>lm_threads := add_mset (GivingUp a) T\<rparr>)"
| give_up: "lm_threads s = add_mset (GivingUp a) T \<Longrightarrow> lm_entries s a = Some e \<Longrightarrow>
    listener_step s (set_entry a (stop_binding e) T s)"
| serve_end: "lm_threads s = add_mset (Serving a n) T \<Longrightarrow> lm_entries s a = Some e \<Longrightarrow>
    listener_step s (set_entry a (serve_ended n err e) T s)"

inductive_cases stepE: "listener_step s s'"

inductive reachable_listeners :: "listener_manager \<Rightarrow> bool" where
  start: "reachable_listeners no_listeners"
| next_step: "reachable_listeners s \<Longrightarrow> listener_step s s' \<Longrightarrow> reachable_listeners s'"

definition listener_states :: "listener_manager \<Rightarrow> listener_state list" where
  "listener_states s = map (\<lambda>a. entry_state (the (lm_entries s a))) (lm_order s)"

text \<open>\<open>closeListeners\<close>: the servers that are closed; each then ends with a \<open>serve_end\<close> step.\<close>

definition close_listeners :: "listener_manager \<Rightarrow> nat list" where
  "close_listeners s = List.map_filter (\<lambda>a. Option.bind (lm_entries s a) ls_server) (lm_order s)"

section \<open>The invariant\<close>

fun thread_address :: "thread \<Rightarrow> string" where
  "thread_address (Claiming a) = a"
| "thread_address (Trying a k) = a"
| "thread_address (Waiting a k) = a"
| "thread_address (GivingUp a) = a"
| "thread_address (Serving a n) = a"

fun is_binder :: "string \<Rightarrow> thread \<Rightarrow> bool" where
  "is_binder a (Trying b k) = (a = b)"
| "is_binder a (Waiting b k) = (a = b)"
| "is_binder a (GivingUp b) = (a = b)"
| "is_binder a _ = False"

fun is_server :: "string \<Rightarrow> thread \<Rightarrow> bool" where
  "is_server a (Serving b n) = (a = b)"
| "is_server a _ = False"

fun attempt_ok :: "thread \<Rightarrow> bool" where
  "attempt_ok (Trying a k) = (1 \<le> k \<and> k \<le> bind_attempts)"
| "attempt_ok (Waiting a k) = (1 \<le> k \<and> k \<le> bind_attempts)"
| "attempt_ok _ = True"

definition binders :: "listener_manager \<Rightarrow> string \<Rightarrow> nat" where
  "binders s a = size (filter_mset (is_binder a) (lm_threads s))"

definition servers :: "listener_manager \<Rightarrow> string \<Rightarrow> nat" where
  "servers s a = size (filter_mset (is_server a) (lm_threads s))"

definition entry_ok :: "listener_manager \<Rightarrow> string \<Rightarrow> tcp_listener \<Rightarrow> bool" where
  "entry_ok s a e \<longleftrightarrow> ls_address e = a \<and> \<not> (ls_bound e \<and> ls_binding e) \<and>
     binders s a = (if ls_binding e then 1 else 0) \<and> servers s a = (if ls_bound e then 1 else 0) \<and>
     (ls_bound e \<longleftrightarrow> ls_server e \<noteq> None) \<and>
     (\<forall>n. Serving a n \<in># lm_threads s \<longrightarrow> ls_server e = Some n)"

definition listeners_ok :: "listener_manager \<Rightarrow> bool" where
  "listeners_ok s \<longleftrightarrow> distinct (lm_order s) \<and> set (lm_order s) = dom (lm_entries s) \<and>
     (\<forall>t\<in>#lm_threads s. thread_address t \<in> dom (lm_entries s) \<and> attempt_ok t) \<and>
     (\<forall>a e. lm_entries s a = Some e \<longrightarrow> entry_ok s a e)"

lemma no_listeners_ok: "listeners_ok no_listeners"
  by (simp add: listeners_ok_def no_listeners_def)

lemmas count_defs = binders_def servers_def

lemma no_threads_of: "listeners_ok s \<Longrightarrow> lm_entries s a = None \<Longrightarrow>
   filter_mset (is_binder a) (lm_threads s) = {#} \<and> filter_mset (is_server a) (lm_threads s) = {#} \<and> (\<forall>n. Serving a n \<notin># lm_threads s)"
proof -
  assume s: "listeners_ok s" "lm_entries s a = None"
  have "is_binder a t \<or> is_server a t \<Longrightarrow> thread_address t = a" for t by (cases t) auto
  then have "\<forall>t\<in>#lm_threads s. \<not> is_binder a t \<and> \<not> is_server a t" using s by (fastforce simp: listeners_ok_def)
  then show ?thesis by (auto simp: filter_mset_eq_conv)
qed

text \<open>A step that changes one entry and replaces threads of its address.\<close>

lemma set_entry_ok:
  assumes "listeners_ok s" "lm_entries s a = Some e" "lm_threads s = add_mset t T" "thread_address t = a"
    and "\<forall>t'\<in>#T'. thread_address t' = a \<and> attempt_ok t'"
    and "entry_ok (set_entry a e' (T' + T) s) a e'"
  shows "listeners_ok (set_entry a e' (T' + T) s)"
proof -
  let ?s = "set_entry a e' (T' + T) s"
  have other: "entry_ok ?s b f" if "b \<noteq> a" "lm_entries s b = Some f" for b f
  proof -
    have ok: "entry_ok s b f" using assms(1) that(2) by (simp add: listeners_ok_def)
    have t: "\<not> is_binder b t \<and> \<not> is_server b t" "t \<noteq> Serving b n" for n using assms(4) that(1) by (cases t; auto)+
    have "\<forall>t'\<in>#T'. \<not> is_binder b t' \<and> \<not> is_server b t' \<and> t' \<noteq> Serving b n" for n
    proof
      fix t' assume "t' \<in># T'"
      then show "\<not> is_binder b t' \<and> \<not> is_server b t' \<and> t' \<noteq> Serving b n" using assms(5) that(1) by (cases t') auto
    qed
    then have "filter_mset (is_binder b) T' = {#}" "filter_mset (is_server b) T' = {#}" "\<forall>n. Serving b n \<notin># T'"
      by (auto simp: filter_mset_eq_conv)
    then show ?thesis using ok assms(3) t by (auto simp: entry_ok_def count_defs set_entry_def)
  qed
  have "distinct (lm_order ?s) \<and> set (lm_order ?s) = dom (lm_entries ?s)"
    using assms(1,2) by (auto simp: listeners_ok_def set_entry_def)
  moreover have "\<forall>t'\<in>#lm_threads ?s. thread_address t' \<in> dom (lm_entries ?s) \<and> attempt_ok t'"
    using assms(1,3,5) by (auto simp: listeners_ok_def set_entry_def)
  moreover have "\<forall>b f. lm_entries ?s b = Some f \<longrightarrow> entry_ok ?s b f"
    using other assms(6) by (auto simp: set_entry_def)
  ultimately show ?thesis by (simp add: listeners_ok_def)
qed

text \<open>A step that only changes threads of one address.\<close>

lemma set_threads_ok:
  assumes "listeners_ok s" "lm_threads s = add_mset t T" "\<forall>t'\<in>#T'. thread_address t' = thread_address t \<and> attempt_ok t'"
    and "\<And>e. lm_entries s (thread_address t) = Some e \<Longrightarrow> entry_ok (set_entry (thread_address t) e (T' + T) s) (thread_address t) e"
  shows "listeners_ok (s\<lparr>lm_threads := T' + T\<rparr>)"
proof -
  have "thread_address t \<in> dom (lm_entries s)" using assms(1,2) by (simp add: listeners_ok_def)
  then obtain e where e: "lm_entries s (thread_address t) = Some e" by blast
  have "s\<lparr>lm_threads := T' + T\<rparr> = set_entry (thread_address t) e (T' + T) s"
    using e by (simp add: set_entry_def fun_upd_idem)
  then show ?thesis using set_entry_ok [OF assms(1) e assms(2) refl assms(3) assms(4) [OF e]] by simp
qed

lemma next_irrelevant: "listeners_ok (s\<lparr>lm_next := n\<rparr>) = listeners_ok s"
  by (simp add: listeners_ok_def entry_ok_def count_defs)

lemma enter_listen_ok: "listeners_ok s \<Longrightarrow> listeners_ok (enter_listen a s)"
proof (cases "lm_entries s a")
  case None
  moreover assume ok: "listeners_ok s"
  ultimately show ?thesis using no_threads_of [OF ok None]
    by (auto simp: listeners_ok_def enter_listen_def Let_def entry_ok_def count_defs new_listener_def)
next
  case (Some e)
  moreover assume "listeners_ok s"
  ultimately show ?thesis
    by (auto simp: listeners_ok_def enter_listen_def Let_def entry_ok_def count_defs)
qed

lemma attempt_after_failure: "attempt_ok (Trying a k) \<Longrightarrow> attempt_ok (after_failure a k) \<and> thread_address (after_failure a k) = a"
  by (simp add: after_failure_def)

lemma binder_after_failure: "is_binder b (after_failure a k) \<longleftrightarrow> a = b" "\<not> is_server b (after_failure a k)" "after_failure a k \<noteq> Serving b n" "Serving b n \<noteq> after_failure a k"
  by (auto simp: after_failure_def)

lemma entry_of: "listeners_ok s \<Longrightarrow> lm_entries s a = Some e \<Longrightarrow> entry_ok s a e"
  by (simp add: listeners_ok_def)

lemma thread_of: "listeners_ok s \<Longrightarrow> lm_threads s = add_mset t T \<Longrightarrow> attempt_ok t"
  by (simp add: listeners_ok_def)

lemma listener_step_ok:
  assumes "listener_step s s'" "listeners_ok s"
  shows "listeners_ok s'"
  using assms(1)
proof (cases rule: listener_step.cases)
  case (enter a)
  then show ?thesis using enter_listen_ok [OF assms(2)] by simp
next
  case (claim_taken a T e)
  have "listeners_ok (s\<lparr>lm_threads := {#} + T\<rparr>)"
    using entry_of [OF assms(2), of a] claim_taken(2)
    by (intro set_threads_ok [OF assms(2) claim_taken(2)]) (auto simp: entry_ok_def count_defs set_entry_def)
  then show ?thesis using claim_taken by simp
next
  case (claim_free a T e)
  have "listeners_ok (set_entry a (e\<lparr>ls_binding := True\<rparr>) ({#Trying a 1#} + T) s)"
    using entry_of [OF assms(2) claim_free(3)] claim_free
    by (intro set_entry_ok [OF assms(2) claim_free(3,2)])
      (auto simp: entry_ok_def count_defs set_entry_def bind_attempts_def is_taken_def)
  then show ?thesis using claim_free by simp
next
  case (bind_ok a k T e port)
  have b: "ls_binding e" "\<not> ls_bound e" "servers s a = 0" "\<forall>n. Serving a n \<notin># lm_threads s"
    using entry_of [OF assms(2) bind_ok(3)] bind_ok(2) by (auto simp: entry_ok_def count_defs split: if_splits)
  have "listeners_ok (set_entry a (bind_done (lm_next s) port e) ({#Serving a (lm_next s)#} + T) s)"
    using entry_of [OF assms(2) bind_ok(3)] bind_ok(2) b
    by (intro set_entry_ok [OF assms(2) bind_ok(3,2)]) (auto simp: entry_ok_def count_defs set_entry_def bind_done_def)
  then show ?thesis using bind_ok by (simp add: next_irrelevant)
next
  case (bind_fail a k T e err)
  note k = attempt_after_failure [OF thread_of [OF assms(2) bind_fail(2)]]
  have "listeners_ok (set_entry a (bind_failed err e) ({#after_failure a k#} + T) s)"
    using entry_of [OF assms(2) bind_fail(3)] bind_fail(2) k
    by (intro set_entry_ok [OF assms(2) bind_fail(3,2)])
      (auto simp: entry_ok_def count_defs set_entry_def bind_failed_def binder_after_failure)
  then show ?thesis using bind_fail by simp
next
  case (timer a k T)
  have "listeners_ok (s\<lparr>lm_threads := {#Trying a k#} + T\<rparr>)"
    using entry_of [OF assms(2), of a] thread_of [OF assms(2) timer(2)] timer(2)
    by (intro set_threads_ok [OF assms(2) timer(2)]) (auto simp: entry_ok_def count_defs set_entry_def)
  then show ?thesis using timer by simp
next
  case (cancelled a k T)
  have "listeners_ok (s\<lparr>lm_threads := {#GivingUp a#} + T\<rparr>)"
    using entry_of [OF assms(2), of a] cancelled(2)
    by (intro set_threads_ok [OF assms(2) cancelled(2)]) (auto simp: entry_ok_def count_defs set_entry_def)
  then show ?thesis using cancelled by simp
next
  case (give_up a T e)
  have "listeners_ok (set_entry a (stop_binding e) ({#} + T) s)"
    using entry_of [OF assms(2) give_up(3)] give_up(2)
    by (intro set_entry_ok [OF assms(2) give_up(3,2)])
      (auto simp: entry_ok_def count_defs set_entry_def stop_binding_def split: if_splits)
  then show ?thesis using give_up by simp
next
  case (serve_end a n T e err)
  have b: "ls_server e = Some n" "ls_bound e" using entry_of [OF assms(2) serve_end(3)] serve_end(2) by (auto simp: entry_ok_def)
  have c: "servers s a = 1" using entry_of [OF assms(2) serve_end(3)] b by (simp add: entry_ok_def)
  then have none: "filter_mset (is_server a) T = {#}" using serve_end(2) by (simp add: count_defs)
  have "Serving a m \<notin># T" for m
  proof
    assume "Serving a m \<in># T"
    then have "Serving a m \<in># filter_mset (is_server a) T" by simp
    then show False using none by simp
  qed
  then have "listeners_ok (set_entry a (serve_ended n err e) ({#} + T) s)"
    using entry_of [OF assms(2) serve_end(3)] serve_end(2) b none
    by (intro set_entry_ok [OF assms(2) serve_end(3,2)])
      (auto simp: entry_ok_def count_defs set_entry_def serve_ended_def Let_def split: option.splits)
  then show ?thesis using serve_end by simp
qed

lemma reachable_ok: "reachable_listeners s \<Longrightarrow> listeners_ok s"
  by (induction rule: reachable_listeners.induct) (auto simp: no_listeners_ok intro: listener_step_ok)

section \<open>Binding ends\<close>

text \<open>The number of steps that a binder has left at most.\<close>

fun thread_rank :: "string \<Rightarrow> thread \<Rightarrow> nat" where
  "thread_rank a (Trying b k) = (if a = b then 2 * (bind_attempts - k) + 2 else 0)"
| "thread_rank a (Waiting b k) = (if a = b then 2 * (bind_attempts - k) + 3 else 0)"
| "thread_rank a (GivingUp b) = (if a = b then 1 else 0)"
| "thread_rank a _ = 0"

definition binder_rank :: "listener_manager \<Rightarrow> string \<Rightarrow> nat" where
  "binder_rank s a = (\<Sum>t\<in>#lm_threads s. thread_rank a t)"

lemma rank_after_failure: "attempt_ok (Trying b k) \<Longrightarrow> thread_rank a (after_failure b k) \<le> thread_rank a (Trying b k) \<and>
    (a = b \<longrightarrow> thread_rank a (after_failure b k) < thread_rank a (Trying b k))"
  by (auto simp: after_failure_def bind_attempts_def)

lemma rank_step:
  assumes "listeners_ok s" "listener_step s s'" "lm_entries s a = Some e" "ls_binding e"
  shows "binder_rank s' a \<le> binder_rank s a"
  using assms(2)
proof (cases rule: listener_step.cases)
  case (enter b)
  then show ?thesis by (auto simp: binder_rank_def enter_listen_def Let_def split: option.splits)
next
  case (claim_free b T f)
  have "b \<noteq> a" using claim_free(3,4) assms(3,4) by (auto simp: is_taken_def)
  then show ?thesis using claim_free by (simp add: binder_rank_def set_entry_def)
next
  case (bind_fail b k T f err)
  then show ?thesis using rank_after_failure [of b k a] thread_of [OF assms(1) bind_fail(2)]
    by (simp add: binder_rank_def set_entry_def)
qed (auto simp: binder_rank_def set_entry_def)

lemma binder_thread:
  assumes "listeners_ok s" "lm_entries s a = Some e" "ls_binding e"
  obtains t T where "lm_threads s = add_mset t T" "is_binder a t" "attempt_ok t"
proof -
  have "size (filter_mset (is_binder a) (lm_threads s)) = 1" using assms by (auto simp: listeners_ok_def entry_ok_def count_defs)
  then obtain t where t: "filter_mset (is_binder a) (lm_threads s) = {#t#}" using size_1_singleton_mset by blast
  then have "t \<in># filter_mset (is_binder a) (lm_threads s)" by simp
  then have "t \<in># lm_threads s" "is_binder a t" by auto
  then show ?thesis using that assms(1) by (metis insert_DiffM listeners_ok_def)
qed

lemma rank_progress:
  assumes "listeners_ok s" "lm_entries s a = Some e" "ls_binding e"
  shows "\<exists>s'. listener_step s s' \<and> binder_rank s' a < binder_rank s a"
proof -
  obtain t T where t: "lm_threads s = add_mset t T" "is_binder a t" "attempt_ok t" using binder_thread [OF assms] .
  show ?thesis
  proof (cases t)
    case (Trying b k)
    then have "listener_step s (set_entry a (bind_failed [] e) (add_mset (after_failure a k) T) s)"
      using bind_fail [of s a k T e "[]"] t assms(2) by simp
    moreover have "binder_rank (set_entry a (bind_failed [] e) (add_mset (after_failure a k) T) s) a < binder_rank s a"
      using Trying t rank_after_failure [of b k a] by (simp add: binder_rank_def set_entry_def)
    ultimately show ?thesis by blast
  next
    case (Waiting b k)
    then have "listener_step s (s\<lparr>lm_threads := add_mset (Trying a k) T\<rparr>)" using timer [of s a k T] t by simp
    moreover have "binder_rank (s\<lparr>lm_threads := add_mset (Trying a k) T\<rparr>) a < binder_rank s a"
      using Waiting t by (simp add: binder_rank_def)
    ultimately show ?thesis by blast
  next
    case (GivingUp b)
    then have "listener_step s (set_entry a (stop_binding e) T s)" using give_up [of s a T e] t assms(2) by simp
    moreover have "binder_rank (set_entry a (stop_binding e) T s) a < binder_rank s a"
      using GivingUp t by (simp add: binder_rank_def set_entry_def)
    ultimately show ?thesis by blast
  qed (use t in auto)
qed

lemma sum_of_matching: "(\<Sum>t\<in>#M. if P t then c else 0) = size (filter_mset P M) * (c::nat)"
  by (induction M) auto

lemma rank_bound:
  assumes "listeners_ok s" "lm_entries s a = Some e"
  shows "binder_rank s a \<le> 2 * bind_attempts + 1"
proof -
  have b: "size (filter_mset (is_binder a) (lm_threads s)) \<le> 1" using assms by (auto simp: listeners_ok_def entry_ok_def count_defs)
  have "thread_rank a t \<le> (if is_binder a t then 2 * bind_attempts + 1 else 0)" if "t \<in># lm_threads s" for t
  proof -
    have "attempt_ok t" using assms(1) that by (simp add: listeners_ok_def)
    then show ?thesis by (cases t) (auto simp: bind_attempts_def)
  qed
  then have "binder_rank s a \<le> (\<Sum>t\<in>#lm_threads s. if is_binder a t then 2 * bind_attempts + 1 else 0)"
    unfolding binder_rank_def by (rule sum_mset_mono)
  also have "\<dots> = size (filter_mset (is_binder a) (lm_threads s)) * (2 * bind_attempts + 1)"
    by (rule sum_of_matching)
  also have "\<dots> \<le> 2 * bind_attempts + 1" using mult_le_mono1 [OF b, of "2 * bind_attempts + 1"] by simp
  finally show ?thesis .
qed

section \<open>Properties\<close>

text \<open>C29. A listener address never has two binders or two servers. In every state that the goroutines can
  reach, in any interleaving, the entries are the addresses in order, without duplicates; an entry is not
  bound and binding at once; it is binding exactly while one thread tries to bind it, and bound exactly while
  one server accepts its connections.\<close>

theorem one_listener_each:
  assumes "reachable_listeners s" "lm_entries s a = Some e"
  shows "distinct (lm_order s) \<and> a \<in> set (lm_order s) \<and> \<not> (ls_bound e \<and> ls_binding e) \<and>
    size (filter_mset (is_binder a) (lm_threads s)) = (if ls_binding e then 1 else 0) \<and>
    size (filter_mset (is_server a) (lm_threads s)) = (if ls_bound e then 1 else 0) \<and>
    (\<forall>n. Serving a n \<in># lm_threads s \<longrightarrow> ls_server e = Some n)"
proof -
  have "listeners_ok s" using assms(1) by (rule reachable_ok)
  then show ?thesis using assms(2) by (auto simp: listeners_ok_def entry_ok_def count_defs)
qed

text \<open>C30. Binding an address comes to an end. While an entry is binding, no step of any goroutine raises the
  number of steps its binder has left, which is at most 61 from the start; and a step that lowers it is always
  possible, even when every attempt fails. So the retries stop after 30 attempts at the latest.\<close>

theorem binding_ends:
  assumes "reachable_listeners s" "lm_entries s a = Some e" "ls_binding e"
  shows "binder_rank s a \<le> 2 * bind_attempts + 1 \<and>
    (listener_step s s' \<longrightarrow> binder_rank s' a \<le> binder_rank s a) \<and>
    (\<exists>s'. listener_step s s' \<and> binder_rank s' a < binder_rank s a)"
proof -
  have "listeners_ok s" using assms(1) by (rule reachable_ok)
  then show ?thesis using rank_bound rank_step rank_progress assms(2,3) by blast
qed

section \<open>Examples\<close>

text \<open>One call of \<open>listen\<close> that has claimed its address.\<close>

definition example_listening :: listener_manager where
  "example_listening = \<lparr>lm_entries = [''10.0.0.1'' \<mapsto> (new_listener ''10.0.0.1'')\<lparr>ls_binding := True\<rparr>],
     lm_order = [''10.0.0.1''], lm_threads = {#Trying ''10.0.0.1'' 1#}, lm_next = 0\<rparr>"

lemma example_listening_reachable: "reachable_listeners example_listening"
proof -
  have 1: "reachable_listeners (enter_listen ''10.0.0.1'' no_listeners)"
    using next_step [OF start enter] .
  have "listener_step (enter_listen ''10.0.0.1'' no_listeners)
      (set_entry ''10.0.0.1'' ((new_listener ''10.0.0.1'')\<lparr>ls_binding := True\<rparr>) (add_mset (Trying ''10.0.0.1'' 1) {#}) (enter_listen ''10.0.0.1'' no_listeners))"
    by (rule claim_free) (simp_all add: enter_listen_def no_listeners_def is_taken_def new_listener_def)
  from next_step [OF 1 this] show ?thesis
    by (simp add: example_listening_def set_entry_def enter_listen_def no_listeners_def)
qed

lemma example_listening_entry:
  "lm_entries example_listening ''10.0.0.1'' = Some ((new_listener ''10.0.0.1'')\<lparr>ls_binding := True\<rparr>)"
  by (simp add: example_listening_def)

theorem one_listener_each_witness:
  "size (filter_mset (is_binder ''10.0.0.1'') (lm_threads example_listening)) = 1"
  using one_listener_each [OF example_listening_reachable example_listening_entry] by simp

theorem binding_ends_witness:
  "\<exists>s'. listener_step example_listening s' \<and> binder_rank s' ''10.0.0.1'' < binder_rank example_listening ''10.0.0.1''"
  using binding_ends [OF example_listening_reachable example_listening_entry] by simp

end
