(* ===== verification/Broker_Forwards.thy ===== *)
theory Broker_Forwards
  imports Broker_Secrets
begin

text \<open>
  \<open>internal/broker/forwards.go\<close>: the ports of the boxes that the broker publishes on the loopback
  address. \<open>netip.ParseAddr\<close> is a parameter, and so are the ports that other programs hold, on which
  \<open>net.Listen\<close> fails. The open listeners of the table are kept beside it, as the operating system has
  them; the invariant says that they are the ones of the boxes, so nothing leaks.
\<close>

record port_pair =
  pp_host :: int
  pp_guest :: int

record publish_request =
  pq_address :: string
  pq_ports :: "port_pair list"

text \<open>An open listener: its port on the host and the destination in the box.\<close>

type_synonym forward_listener = "int \<times> string"

record forward_table =
  ft_by_box :: "(string \<times> forward_listener list) list"
  ft_open :: "forward_listener list"

datatype forward_error = BadBoxAddress string | CannotPublish int

definition no_forwards :: forward_table where
  "no_forwards = \<lparr>ft_by_box = [], ft_open = []\<rparr>"

definition forwards_of :: "forward_table \<Rightarrow> string \<Rightarrow> forward_listener list" where
  "forwards_of t box = (case map_of (ft_by_box t) box of None \<Rightarrow> [] | Some ls \<Rightarrow> ls)"

definition close_ports :: "forward_listener list \<Rightarrow> forward_table \<Rightarrow> forward_table" where
  "close_ports ls t = t\<lparr>ft_open := filter (\<lambda>l. l \<notin> set ls) (ft_open t)\<rparr>"

definition unpublish :: "string \<Rightarrow> forward_table \<Rightarrow> forward_table" where
  "unpublish box t = close_ports (forwards_of t box) (t\<lparr>ft_by_box := AList.delete box (ft_by_box t)\<rparr>)"

text \<open>\<open>net.Listen\<close> on a port of the host.\<close>

definition can_listen :: "int set \<Rightarrow> int \<Rightarrow> forward_table \<Rightarrow> bool" where
  "can_listen busy port t \<longleftrightarrow> port \<notin> busy \<and> port \<notin> fst ` set (ft_open t)"

text \<open>The loop of \<open>publish\<close>, with the listeners it has opened.\<close>

fun publish_ports ::
  "int set \<Rightarrow> string \<Rightarrow> port_pair list \<Rightarrow> forward_listener list \<Rightarrow> forward_table \<Rightarrow>
   (forward_error, forward_listener list) result \<times> forward_table" where
  "publish_ports busy target [] opened t = (Ok opened, t)"
| "publish_ports busy target (p # ps) opened t =
     (if \<not> can_listen busy (pp_host p) t then (Err (CannotPublish (pp_host p)), close_ports opened t)
      else let l = (pp_host p, join_host_port target (itoa (pp_guest p)))
           in publish_ports busy target ps (opened @ [l]) (t\<lparr>ft_open := ft_open t @ [l]\<rparr>))"

definition publish ::
  "(string \<Rightarrow> string option) \<Rightarrow> int set \<Rightarrow> string \<Rightarrow> publish_request \<Rightarrow> forward_table \<Rightarrow> forward_error option \<times> forward_table" where
  "publish parse_addr busy box q t =
     (case parse_addr (pq_address q) of None \<Rightarrow> (Some (BadBoxAddress (pq_address q)), t)
      | Some target \<Rightarrow>
        (case publish_ports busy target (pq_ports q) [] (unpublish box t) of
           (Err e, t') \<Rightarrow> (Some e, t')
         | (Ok ls, t') \<Rightarrow> (None, t'\<lparr>ft_by_box := AList.update box ls (ft_by_box t')\<rparr>)))"

definition close_all :: "forward_table \<Rightarrow> forward_table" where
  "close_all t = fold unpublish (map fst (ft_by_box t)) t"

section \<open>The invariant\<close>

definition table_listeners :: "forward_table \<Rightarrow> forward_listener list" where
  "table_listeners t = concat (map snd (ft_by_box t))"

definition forwards_ok :: "forward_table \<Rightarrow> bool" where
  "forwards_ok t \<longleftrightarrow> distinct (map fst (ft_by_box t)) \<and> distinct (map fst (ft_open t)) \<and>
     distinct (table_listeners t) \<and> set (ft_open t) = set (table_listeners t)"

lemma no_forwards_ok: "forwards_ok no_forwards"
  by (simp add: forwards_ok_def no_forwards_def table_listeners_def)

lemma delete_absent: "box \<notin> fst ` set m \<Longrightarrow> AList.delete box m = m \<and> map_of m box = None" for m :: "(string \<times> forward_listener list) list"
  by (induction m) auto

lemma listeners_delete:
  fixes al :: "(string \<times> forward_listener list) list"
  assumes "distinct (map fst al)"
  shows "set (concat (map snd (AList.delete box al))) \<union> set (case map_of al box of None \<Rightarrow> [] | Some ls \<Rightarrow> ls) = set (concat (map snd al))"
    and "distinct (concat (map snd al)) \<Longrightarrow> distinct (concat (map snd (AList.delete box al))) \<and>
      set (concat (map snd (AList.delete box al))) \<inter> set (case map_of al box of None \<Rightarrow> [] | Some ls \<Rightarrow> ls) = {}"
proof -
  show "set (concat (map snd (AList.delete box al))) \<union> set (case map_of al box of None \<Rightarrow> [] | Some ls \<Rightarrow> ls) = set (concat (map snd al))"
    using assms delete_absent by (induction al) (auto split: option.splits)
  show "distinct (concat (map snd al)) \<Longrightarrow> distinct (concat (map snd (AList.delete box al))) \<and>
      set (concat (map snd (AList.delete box al))) \<inter> set (case map_of al box of None \<Rightarrow> [] | Some ls \<Rightarrow> ls) = {}"
    using assms
  proof (induction al)
    case (Cons x al)
    then have ih: "distinct (concat (map snd (AList.delete box al)))"
      "set (concat (map snd (AList.delete box al))) \<inter> set (case map_of al box of None \<Rightarrow> [] | Some ls \<Rightarrow> ls) = {}" by auto
    have sub: "set (concat (map snd (AList.delete box al))) \<subseteq> set (concat (map snd al))" by (auto simp: AList.delete_eq)
    have msub: "set (case map_of al box of None \<Rightarrow> [] | Some ls \<Rightarrow> ls) \<subseteq> set (concat (map snd al))"
      using map_of_SomeD [of al box] by (cases "map_of al box") force+
    show ?case
    proof (cases "fst x = box")
      case True
      then show ?thesis using Cons.prems ih sub delete_absent [of box al] by (cases x) auto
    next
      case False
      then show ?thesis using Cons.prems ih sub msub by (cases x) fastforce
    qed
  qed simp
qed

lemma unpublish_ok:
  assumes "forwards_ok t"
  shows "forwards_ok (unpublish box t)" "forwards_of (unpublish box t) b = (if b = box then [] else forwards_of t b)"
proof -
  note d = listeners_delete [of "ft_by_box t" box] assms [unfolded forwards_ok_def table_listeners_def]
  have o: "ft_open (unpublish box t) = filter (\<lambda>l. l \<notin> set (forwards_of t box)) (ft_open t)"
    "ft_by_box (unpublish box t) = AList.delete box (ft_by_box t)"
    by (simp_all add: unpublish_def close_ports_def)
  have "set (filter (\<lambda>l. l \<notin> set (forwards_of t box)) (ft_open t)) = set (concat (map snd (AList.delete box (ft_by_box t))))"
    using d unfolding forwards_of_def by auto
  moreover have "distinct (map fst (filter (\<lambda>l. l \<notin> set (forwards_of t box)) (ft_open t)))"
    using d by (simp add: distinct_map_filter)
  ultimately show "forwards_ok (unpublish box t)"
    using d by (simp add: forwards_ok_def table_listeners_def o AList.distinct_delete)
  show "forwards_of (unpublish box t) b = (if b = box then [] else forwards_of t b)"
    by (simp add: forwards_of_def o delete_conv')
qed

text \<open>The loop opens each port once and puts the new listeners after those that were open; on an error
  it closes what it has opened.\<close>

definition requested :: "string \<Rightarrow> port_pair list \<Rightarrow> forward_listener list" where
  "requested target ps = map (\<lambda>p. (pp_host p, join_host_port target (itoa (pp_guest p)))) ps"

lemma publish_ports_spec:
  assumes "ft_open t = base @ opened" "distinct (map fst (base @ opened))"
  shows "case publish_ports busy target ps opened t of
      (Ok ls, t') \<Rightarrow> ls = opened @ requested target ps \<and> t' = t\<lparr>ft_open := base @ ls\<rparr> \<and> distinct (map fst (base @ ls))
    | (Err _, t') \<Rightarrow> t' = t\<lparr>ft_open := base\<rparr>"
  using assms
proof (induction ps arbitrary: opened t)
  case Nil
  then show ?case by (simp add: requested_def)
next
  case (Cons p ps)
  let ?l = "(pp_host p, join_host_port target (itoa (pp_guest p)))"
  show ?case
  proof (cases "can_listen busy (pp_host p) t")
    case True
    then have "ft_open (t\<lparr>ft_open := ft_open t @ [?l]\<rparr>) = base @ (opened @ [?l])" "distinct (map fst (base @ opened @ [?l]))"
      using Cons.prems by (auto simp: can_listen_def)
    from Cons.IH [OF this] True show ?thesis
      by (auto simp: Let_def requested_def split: prod.splits sum.splits)
  next
    case False
    have "set base \<inter> set opened = {}" "distinct base" using Cons.prems(2) by (auto simp: distinct_map)
    then have "filter (\<lambda>l. l \<notin> set opened) (base @ opened) = base" by (auto intro: filter_True)
    then show ?thesis using False Cons.prems(1) by (simp add: close_ports_def)
  qed
qed

lemma listeners_update:
  "distinct (map fst al) \<Longrightarrow> map_of al box = None \<Longrightarrow> concat (map snd (AList.update box ls al)) = concat (map snd al) @ ls"
  by (induction al) (auto split: if_splits)

lemma publish_spec:
  assumes "forwards_ok t"
  shows "case publish parse_addr busy box q t of (err, t') \<Rightarrow> forwards_ok t' \<and>
    (b \<noteq> box \<longrightarrow> forwards_of t' b = forwards_of t b) \<and>
    (case parse_addr (pq_address q) of
       None \<Rightarrow> t' = t
     | Some target \<Rightarrow> forwards_of t' box = (if err = None then requested target (pq_ports q) else []))"
proof (cases "parse_addr (pq_address q)")
  case None
  then show ?thesis using assms by (simp add: publish_def)
next
  case (Some target)
  let ?t = "unpublish box t"
  have ok: "forwards_ok ?t" and empty: "map_of (ft_by_box ?t) box = None"
    using unpublish_ok(1) [OF assms] by (simp_all add: unpublish_def close_ports_def delete_conv')
  have dist: "distinct (map fst (ft_open ?t @ []))" using ok by (simp add: forwards_ok_def)
  note spec = publish_ports_spec [where t = ?t and base = "ft_open ?t" and opened = "[]" and busy = busy and target = target and ps = "pq_ports q",
      OF append_Nil2 [symmetric] dist]
  obtain res t' where run: "publish_ports busy target (pq_ports q) [] ?t = (res, t')" by (cases "publish_ports busy target (pq_ports q) [] ?t")
  show ?thesis
  proof (cases res)
    case (Inl e)
    then have "t' = ?t" using spec run by simp
    then show ?thesis using run Inl Some ok unpublish_ok(2) [OF assms] by (simp add: publish_def)
  next
    case (Inr ls)
    have "ls = requested target (pq_ports q) \<and> t' = ?t\<lparr>ft_open := ft_open ?t @ ls\<rparr> \<and> distinct (map fst (ft_open ?t @ ls))"
      using spec unfolding run Inr prod.case sum.case append_Nil append_Nil2 .
    then have r: "ls = requested target (pq_ports q)" "t' = ?t\<lparr>ft_open := ft_open ?t @ ls\<rparr>" "distinct (map fst (ft_open ?t @ ls))"
      by blast+
    let ?u = "t'\<lparr>ft_by_box := AList.update box ls (ft_by_box t')\<rparr>"
    have d: "distinct (map fst (ft_by_box ?t))" using ok by (simp add: forwards_ok_def)
    have l: "table_listeners ?u = table_listeners ?t @ ls" using listeners_update [OF d empty] r(2) by (simp add: table_listeners_def)
    have "distinct (ft_open ?t @ ls)" using r(3) by (simp add: distinct_map del: map_append)
    then have "distinct (table_listeners ?u)" using ok l by (auto simp: forwards_ok_def)
    moreover have "set (ft_open ?u) = set (table_listeners ?u)" using ok l r(2) by (simp add: forwards_ok_def)
    moreover have "distinct (map fst (ft_by_box ?u))" using d r(2) by (simp add: distinct_update)
    ultimately have "forwards_ok ?u" using r(2,3) by (simp add: forwards_ok_def)
    moreover have "forwards_of ?u c = (if c = box then ls else forwards_of ?t c)" for c
      using r(2) by (simp add: forwards_of_def update_conv')
    ultimately show ?thesis using run Inr Some r(1) unpublish_ok(2) [OF assms] by (simp add: publish_def)
  qed
qed

text \<open>Published ports never leak. Publishing, whether it succeeds or not, and withdrawing keep the open
  listeners equal to those in the table, with no port open twice; a box gets exactly the ports it asks for or,
  when one of them is taken, none; and no other box is touched.\<close>

theorem forwards_exact:
  assumes "forwards_ok t"
  shows "forwards_ok (unpublish box t) \<and> forwards_of (unpublish box t) b = (if b = box then [] else forwards_of t b) \<and>
    (case publish parse_addr busy box q t of (err, t') \<Rightarrow> forwards_ok t' \<and>
       (b \<noteq> box \<longrightarrow> forwards_of t' b = forwards_of t b) \<and>
       (case parse_addr (pq_address q) of
          None \<Rightarrow> t' = t
        | Some target \<Rightarrow> forwards_of t' box = (if err = None then requested target (pq_ports q) else [])))"
  using unpublish_ok [OF assms] publish_spec [OF assms] by (intro conjI) simp_all

theorem forwards_exact_witness:
  "forwards_of (snd (publish Some {22} ''box'' \<lparr>pq_address = ''10.0.0.2'', pq_ports = [\<lparr>pp_host = 8080, pp_guest = 80\<rparr>]\<rparr> no_forwards)) ''box'' =
     [(8080, ''10.0.0.2:80'')]"
proof -
  let ?q = "\<lparr>pq_address = ''10.0.0.2'', pq_ports = [\<lparr>pp_host = 8080, pp_guest = 80\<rparr>]\<rparr>"
  have "fst (publish Some {22} ''box'' ?q no_forwards) = None" by code_simp
  moreover have "requested ''10.0.0.2'' (pq_ports ?q) = [(8080, ''10.0.0.2:80'')]" by code_simp
  ultimately show ?thesis
    using forwards_exact [OF no_forwards_ok, where parse_addr = Some and box = "''box''" and busy = "{22}" and q = ?q and b = "''box''"] by (auto split: prod.splits)
qed

end
