(* ===== verification/Broker_Log.thy ===== *)
theory Broker_Log
  imports Go_Prelude
begin

text \<open>
  \<open>internal/broker/brokerlog\<close>: the request log as a current file and rotated files.

  The disk maps a number to the bytes of a file: 0 is the path of the log, and \<open>n\<close> is \<open>path.n\<close>. Which
  calls of the system fail, and how many bytes of a failing write are on the disk, is a parameter of each
  write. The JSON form of an entry is a parameter. The abstract log is the sequence of all bytes, the oldest
  file first. The properties say that a write appends its line and loses nothing but the oldest file, under
  every pattern of failures, that a file does not grow beyond the limit, and that a read gives the newest
  entries in the order in which they were written.
\<close>

section \<open>The writer\<close>

definition default_max_bytes :: int where "default_max_bytes = 16 * 2 ^ 20"
definition default_keep :: int where "default_keep = 3"
definition max_line_bytes :: nat where "max_line_bytes = 4 * 2 ^ 20"
definition max_rotated_files :: nat where "max_rotated_files = 64"

type_synonym log_disk = "nat \<Rightarrow> string option"

record log_writer =
  lw_max_bytes :: int
  lw_keep :: nat
  lw_open :: bool
  lw_size :: nat

record log_faults =
  ft_close :: bool
  ft_remove :: bool
  ft_rename :: "nat \<Rightarrow> bool"
  ft_open :: bool
  ft_stat :: bool
  ft_write :: "nat option"

datatype log_error =
    CannotOpenLog
  | CannotMeasureLog
  | CannotCloseLog
  | CannotRemoveLog nat
  | CannotRotateLog nat
  | CannotWriteLog
  | CannotEncodeEntry
  | LogClosed
  | CannotReadLog nat

definition no_faults :: log_faults where
  "no_faults = \<lparr>ft_close = False, ft_remove = False, ft_rename = (\<lambda>n. False), ft_open = False, ft_stat = False, ft_write = None\<rparr>"

definition contents :: "log_disk \<Rightarrow> nat \<Rightarrow> string" where
  "contents d n = (case d n of None \<Rightarrow> [] | Some bytes \<Rightarrow> bytes)"

text \<open>\<open>open\<close>: the file is created when it is missing; the offset of the writer is its size.\<close>

definition open_log :: "log_faults \<Rightarrow> log_writer \<Rightarrow> log_disk \<Rightarrow> log_error option \<times> log_writer \<times> log_disk" where
  "open_log ft w d =
     (if ft_open ft then (Some CannotOpenLog, w, d)
      else (let d1 = d(0 \<mapsto> contents d 0) in
        if ft_stat ft then (Some CannotMeasureLog, w, d1)
        else (None, w\<lparr>lw_open := True, lw_size := length (contents d 0)\<rparr>, d1)))"

definition open_writer :: "log_faults \<Rightarrow> int \<Rightarrow> int \<Rightarrow> log_disk \<Rightarrow> (log_error, log_writer) result \<times> log_disk" where
  "open_writer ft max_bytes keep d =
     (let w = \<lparr>lw_max_bytes = (if max_bytes \<le> 0 then default_max_bytes else max_bytes),
               lw_keep = nat (if keep \<le> 0 then default_keep else keep), lw_open = False, lw_size = 0\<rparr>
      in case open_log ft w d of (Some e, _, d1) \<Rightarrow> (Err e, d1) | (None, w1, d1) \<Rightarrow> (Ok w1, d1))"

text \<open>A rename of a missing file is skipped; a rename onto a file replaces it.\<close>

definition move_log :: "nat \<Rightarrow> nat \<Rightarrow> log_disk \<Rightarrow> log_disk" where
  "move_log source target d = (case d source of None \<Rightarrow> d | Some bytes \<Rightarrow> d(target \<mapsto> bytes, source := None))"

fun shift_loop :: "log_faults \<Rightarrow> nat \<Rightarrow> log_disk \<Rightarrow> log_error option \<times> log_disk" where
  "shift_loop ft 0 d = (None, d)"
| "shift_loop ft (Suc n) d =
     (if d (Suc n) \<noteq> None \<and> ft_rename ft (Suc n) then (Some (CannotRotateLog (Suc n)), d)
      else shift_loop ft n (move_log (Suc n) (Suc (Suc n)) d))"

definition shift_files :: "log_faults \<Rightarrow> log_writer \<Rightarrow> log_disk \<Rightarrow> log_error option \<times> log_writer \<times> log_disk" where
  "shift_files ft w d =
     (let w1 = w\<lparr>lw_open := False\<rparr> in
      if ft_close ft then (Some CannotCloseLog, w1, d)
      else if d (lw_keep w) \<noteq> None \<and> ft_remove ft then (Some (CannotRemoveLog (lw_keep w)), w1, d)
      else (case shift_loop ft (lw_keep w - 1) (d(lw_keep w := None)) of
          (Some e, d1) \<Rightarrow> (Some e, w1, d1)
        | (None, d1) \<Rightarrow>
            if d1 0 = None \<or> ft_rename ft 0 then (Some (CannotRotateLog 0), w1, d1)
            else (None, w1, move_log 0 1 d1)))"

definition rotate_log :: "log_faults \<Rightarrow> log_writer \<Rightarrow> log_disk \<Rightarrow> log_error list \<times> log_writer \<times> log_disk" where
  "rotate_log ft w d =
     (case shift_files ft w d of (e, w1, d1) \<Rightarrow>
      case open_log ft w1 d1 of (opened, w2, d2) \<Rightarrow>
        ((case e of None \<Rightarrow> [] | Some x \<Rightarrow> [x]) @ (case opened of None \<Rightarrow> [] | Some x \<Rightarrow> [x]), w2, d2))"

text \<open>\<open>Write\<close>: the errors are the joined ones, and no error is the empty list. A rotation that fails but opens
  the file again still lets the line be written.\<close>

definition write_bytes :: "log_faults \<Rightarrow> string \<Rightarrow> log_writer \<Rightarrow> log_disk \<Rightarrow> log_error list \<times> log_writer \<times> log_disk" where
  "write_bytes ft line w d =
     (let put = (\<lambda>n. d(0 \<mapsto> contents d 0 @ take n line)) in
      case ft_write ft of
        None \<Rightarrow> ([], w\<lparr>lw_size := lw_size w + length line\<rparr>, put (length line))
      | Some n \<Rightarrow> ([CannotWriteLog], w\<lparr>lw_size := lw_size w + min n (length line)\<rparr>, put (min n (length line))))"

definition write_log ::
  "log_faults \<Rightarrow> ('e \<Rightarrow> string option) \<Rightarrow> 'e \<Rightarrow> log_writer \<Rightarrow> log_disk \<Rightarrow> log_error list \<times> log_writer \<times> log_disk" where
  "write_log ft encode e w d =
     (case encode e of
        None \<Rightarrow> ([CannotEncodeEntry], w, d)
      | Some encoded \<Rightarrow>
        (let line = encoded @ [newline] in
         if \<not> lw_open w then ([LogClosed], w, d)
         else if 0 < lw_size w \<and> lw_max_bytes w < int (lw_size w + length line) then
           (case rotate_log ft w d of (es, w1, d1) \<Rightarrow>
             if \<not> lw_open w1 then (es, w1, d1)
             else (case write_bytes ft line w1 d1 of (es2, w2, d2) \<Rightarrow> (es @ es2, w2, d2)))
         else write_bytes ft line w d))"

definition close_log :: "bool \<Rightarrow> log_writer \<Rightarrow> log_error option \<times> log_writer" where
  "close_log fails w =
     (if \<not> lw_open w then (None, w)
      else (if fails then Some CannotCloseLog else None, w\<lparr>lw_open := False\<rparr>))"

section \<open>The reader\<close>

record log_filter =
  lf_kind :: string
  lf_project :: string
  lf_secret :: string
  lf_inmate :: string
  lf_limit :: int

text \<open>The fields of an entry that the filter reads; the others are the extension of the record.\<close>

record read_entry =
  re_kind :: string
  re_project :: string
  re_secret :: string
  re_inmate :: string

definition filter_matches :: "log_filter \<Rightarrow> 'a read_entry_scheme \<Rightarrow> bool" where
  "filter_matches f e =
     (if lf_kind f \<noteq> [] \<and> re_kind e \<noteq> lf_kind f then False
      else if lf_project f \<noteq> [] \<and> re_project e \<noteq> lf_project f then False
      else if lf_secret f \<noteq> [] \<and> re_secret e \<noteq> lf_secret f then False
      else if lf_inmate f \<noteq> [] \<and> re_inmate e \<noteq> lf_inmate f then False
      else True)"

text \<open>\<open>ReadBytes\<close>: every line with its newline, and what follows the last one.\<close>

definition byte_lines :: "string \<Rightarrow> string list" where
  "byte_lines bytes = (let parts = split_on newline bytes in map (\<lambda>l. l @ [newline]) (butlast parts) @ [last parts])"

definition read_line :: "(string \<Rightarrow> 'a read_entry_scheme option) \<Rightarrow> log_filter \<Rightarrow> string \<Rightarrow> 'a read_entry_scheme option" where
  "read_line decode f line =
     (if 0 < length line \<and> length line \<le> max_line_bytes
      then (case decode line of None \<Rightarrow> None | Some e \<Rightarrow> if filter_matches f e then Some e else None)
      else None)"

definition read_bytes :: "(string \<Rightarrow> 'a read_entry_scheme option) \<Rightarrow> log_filter \<Rightarrow> string \<Rightarrow> 'a read_entry_scheme list" where
  "read_bytes decode f bytes = List.map_filter (read_line decode f) (byte_lines bytes)"

text \<open>\<open>readFile\<close>: a file that is missing has no entries; \<open>unreadable\<close> holds the files whose reading fails.\<close>

definition read_log_file ::
  "(string \<Rightarrow> 'a read_entry_scheme option) \<Rightarrow> (nat \<Rightarrow> bool) \<Rightarrow> log_filter \<Rightarrow> log_disk \<Rightarrow> nat \<Rightarrow> (log_error, 'a read_entry_scheme list) result" where
  "read_log_file decode unreadable f d n =
     (case d n of None \<Rightarrow> Ok []
      | Some bytes \<Rightarrow> if unreadable n then Err (CannotReadLog n) else Ok (read_bytes decode f bytes))"

fun count_rotated :: "log_disk \<Rightarrow> nat \<Rightarrow> nat \<Rightarrow> nat" where
  "count_rotated d n 0 = 0"
| "count_rotated d n (Suc k) = (if d n = None then 0 else Suc (count_rotated d (Suc n) k))"

definition read_order :: "log_disk \<Rightarrow> nat list" where
  "read_order d = rev [1..<Suc (count_rotated d 1 max_rotated_files)] @ [0]"

definition newest :: "int \<Rightarrow> 'a list \<Rightarrow> 'a list" where
  "newest limit matched =
     (if 0 < limit \<and> limit < int (length matched) then drop (length matched - nat limit) matched else matched)"

definition read_log ::
  "(string \<Rightarrow> 'a read_entry_scheme option) \<Rightarrow> (nat \<Rightarrow> bool) \<Rightarrow> log_filter \<Rightarrow> log_disk \<Rightarrow> (log_error, 'a read_entry_scheme list) result" where
  "read_log decode unreadable f d =
     bind_res (map_res (read_log_file decode unreadable f d) (read_order d)) (\<lambda>found.
       Ok (newest (lf_limit f) (concat found)))"

section \<open>A write keeps the log\<close>

text \<open>The abstract log: the bytes of the files up to a number, the oldest first.\<close>

fun log_bytes :: "nat \<Rightarrow> log_disk \<Rightarrow> string" where
  "log_bytes 0 d = contents d 0"
| "log_bytes (Suc n) d = contents d (Suc n) @ log_bytes n d"

lemma log_bytes_cong: "(\<And>k. k \<le> n \<Longrightarrow> contents d' k = contents d k) \<Longrightarrow> log_bytes n d' = log_bytes n d"
  by (induction n) auto

lemma contents_upd [simp]:
  "contents (d(n := None)) k = (if k = n then [] else contents d k)"
  "contents (d(n \<mapsto> bytes)) k = (if k = n then bytes else contents d k)"
  by (auto simp: contents_def)

lemma move_contents:
  "contents d (Suc n) = [] \<Longrightarrow> contents (move_log n (Suc n) d) k =
     (if k = Suc n then contents d n else if k = n then [] else contents d k)"
  by (auto simp: move_log_def contents_def split: option.splits)

lemma log_bytes_move:
  assumes "contents d (Suc n) = []" "Suc n \<le> m"
  shows "log_bytes m (move_log n (Suc n) d) = log_bytes m d"
  using assms(2)
proof (induction m)
  case (Suc m)
  show ?case
  proof (cases "m = n")
    case True
    have "log_bytes n (move_log n (Suc n) d) @ [] = drop (length (contents d n)) (log_bytes n d) \<and> take (length (contents d n)) (log_bytes n d) = contents d n"
    proof (cases n)
      case (Suc j)
      have "log_bytes j (move_log n (Suc n) d) = log_bytes j d"
        by (rule log_bytes_cong) (auto simp: Suc move_contents assms(1) [unfolded Suc])
      then show ?thesis by (simp add: Suc move_contents assms(1) [unfolded Suc])
    qed (use assms(1) in \<open>simp add: move_contents\<close>)
    then show ?thesis using True by (simp add: move_contents assms(1)) (metis append_take_drop_id)
  next
    case False
    then show ?thesis using Suc assms(1) by (auto simp: move_contents)
  qed
qed simp

lemma shift_loop_bytes:
  "shift_loop ft n d = (e, d') \<Longrightarrow> contents d (Suc n) = [] \<Longrightarrow> Suc n \<le> m \<Longrightarrow>
   log_bytes m d' = log_bytes m d \<and> contents d' 0 = contents d 0 \<and> (d' 0 = d 0) \<and> (e = None \<longrightarrow> contents d' 1 = [])"
proof (induction n arbitrary: d)
  case (Suc n)
  show ?case
  proof (cases "d (Suc n) \<noteq> None \<and> ft_rename ft (Suc n)")
    case True
    then show ?thesis using Suc.prems(1) by auto
  next
    case False
    let ?d = "move_log (Suc n) (Suc (Suc n)) d"
    have s: "shift_loop ft n ?d = (e, d')" using Suc.prems(1) False by (auto split: if_splits)
    have "contents ?d (Suc n) = []" "contents ?d 0 = contents d 0" using Suc.prems(2) by (simp_all add: move_contents)
    moreover have "?d 0 = d 0" by (auto simp: move_log_def split: option.splits)
    ultimately show ?thesis
      using Suc.IH [OF s] Suc.prems(3) log_bytes_move [OF Suc.prems(2,3)] by simp
  qed
qed simp

text \<open>What a rotation does to the bytes, whatever fails: only the oldest file may be gone.\<close>

lemma shift_files_bytes:
  assumes "shift_files ft w d = (e, w', d')" "1 \<le> lw_keep w" "lw_keep w \<le> m"
  shows "\<exists>kept. (kept = d \<or> kept = d(lw_keep w := None)) \<and> log_bytes m d' = log_bytes m kept \<and>
    w' = w\<lparr>lw_open := False\<rparr> \<and> (e = None \<longrightarrow> contents d' 0 = [])"
proof -
  obtain n where n: "lw_keep w = Suc n" using assms(2) by (cases "lw_keep w") auto
  obtain e1 d1 where l: "shift_loop ft n (d(lw_keep w := None)) = (e1, d1)" by fastforce
  have b: "log_bytes m d1 = log_bytes m (d(lw_keep w := None))" "e1 = None \<longrightarrow> contents d1 1 = []"
    using shift_loop_bytes [OF l, of m] assms(3) n by auto
  have m: "log_bytes m (move_log 0 1 d1) = log_bytes m d1 \<and> contents (move_log 0 1 d1) 0 = []" if "contents d1 1 = []"
    using log_bytes_move [of d1 0 m] move_contents [of d1 0 0] that assms(2,3) by simp
  show ?thesis
    using assms(1) l b m n by (auto simp: shift_files_def Let_def split: if_splits option.splits prod.splits)
qed

lemma open_log_bytes: "open_log ft w d = (e, w', d') \<Longrightarrow> log_bytes m d' = log_bytes m d \<and> contents d' 0 = contents d 0 \<and>
    (lw_open w' \<longrightarrow> lw_open w \<or> lw_size w' = length (contents d' 0)) \<and> (e = None \<longrightarrow> lw_open w')"
  by (auto simp: open_log_def Let_def split: if_splits intro: log_bytes_cong)

lemma log_bytes_add: "log_bytes m (d(0 \<mapsto> contents d 0 @ tail)) = log_bytes m d @ tail"
  by (induction m) (simp_all del: fun_upd_apply)

lemma write_bytes_bytes:
  assumes "write_bytes ft line w d = (es, w', d')"
  shows "\<exists>n\<le>length line. log_bytes m d' = log_bytes m d @ take n line \<and> contents d' 0 = contents d 0 @ take n line \<and>
    w' = w\<lparr>lw_size := lw_size w + n\<rparr> \<and> (CannotWriteLog \<notin> set es \<longrightarrow> n = length line \<and> es = [])"
proof (cases "ft_write ft")
  case None
  then show ?thesis using assms log_bytes_add [of m d line]
    by (intro exI [of _ "length line"]) (auto simp: write_bytes_def Let_def)
next
  case (Some n)
  then show ?thesis using assms log_bytes_add [of m d "take (min n (length line)) line"]
    by (intro exI [of _ "min n (length line)"]) (auto simp: write_bytes_def Let_def)
qed

definition needs_rotation :: "log_writer \<Rightarrow> string \<Rightarrow> bool" where
  "needs_rotation w line \<longleftrightarrow> 0 < lw_size w \<and> lw_max_bytes w < int (lw_size w + length line)"

lemma write_log_cases:
  assumes "encode e = Some encoded"
  shows "write_log ft encode e w d =
    (if \<not> lw_open w then ([LogClosed], w, d)
     else if needs_rotation w (encoded @ [newline]) then
       (case rotate_log ft w d of (es, w1, d1) \<Rightarrow>
         if \<not> lw_open w1 then (es, w1, d1)
         else (case write_bytes ft (encoded @ [newline]) w1 d1 of (es2, w2, d2) \<Rightarrow> (es @ es2, w2, d2)))
     else write_bytes ft (encoded @ [newline]) w d)"
  using assms by (simp add: write_log_def needs_rotation_def Let_def)

definition size_known :: "log_writer \<Rightarrow> log_disk \<Rightarrow> bool" where
  "size_known w d \<longleftrightarrow> (lw_open w \<longrightarrow> lw_size w = length (contents d 0))"

lemma rotate_log_bytes:
  assumes "rotate_log ft w d = (es, w', d')" "1 \<le> lw_keep w" "lw_keep w \<le> m"
  shows "\<exists>kept. (kept = d \<or> kept = d(lw_keep w := None)) \<and> log_bytes m d' = log_bytes m kept \<and>
    size_known w' d' \<and> CannotWriteLog \<notin> set es \<and> (es = [] \<longrightarrow> contents d' 0 = [] \<and> lw_open w')"
proof -
  obtain e w1 d1 where s: "shift_files ft w d = (e, w1, d1)" by (metis prod_cases3)
  obtain o1 w2 d2 where o: "open_log ft w1 d1 = (o1, w2, d2)" by (metis prod_cases3)
  obtain kept where k: "kept = d \<or> kept = d(lw_keep w := None)" "log_bytes m d1 = log_bytes m kept" "w1 = w\<lparr>lw_open := False\<rparr>"
    "e = None \<longrightarrow> contents d1 0 = []"
    using shift_files_bytes [OF s assms(2,3)] by blast
  have r: "es = (case e of None \<Rightarrow> [] | Some x \<Rightarrow> [x]) @ (case o1 of None \<Rightarrow> [] | Some x \<Rightarrow> [x])" "w' = w2" "d' = d2"
    using assms(1) s o by (simp_all add: rotate_log_def)
  have "shift_loop ft n d0 = (x, d3) \<Longrightarrow> x \<noteq> Some CannotWriteLog" for n d0 x d3
    by (induction n arbitrary: d0) (auto split: if_splits)
  then have "e \<noteq> Some CannotWriteLog" using s by (auto simp: shift_files_def Let_def split: if_splits option.splits prod.splits)
  moreover have "o1 \<noteq> Some CannotWriteLog" using o by (auto simp: open_log_def Let_def split: if_splits)
  ultimately have "CannotWriteLog \<notin> set es" using r(1) by (auto split: option.splits)
  moreover have "size_known w' d'" "es = [] \<longrightarrow> contents d' 0 = [] \<and> lw_open w'" "log_bytes m d' = log_bytes m kept"
    using open_log_bytes [OF o, of m] k r by (auto simp: size_known_def split: option.splits)
  ultimately show ?thesis using k(1) by blast
qed

text \<open>C34. A write keeps the log, whatever fails. The bytes of the log afterwards are the bytes before,
  except that the oldest file may be gone when a rotation was due, with a prefix of the line of the entry at
  the end. The line is complete when the writer was open and no error says that it is closed, could not be
  opened again, or could not be written; and the writer still knows the size of its file.\<close>

theorem write_keeps_log:
  assumes "write_log ft encode e w d = (es, w', d')" "1 \<le> lw_keep w" "lw_keep w \<le> m" "size_known w d" "encode e = Some encoded"
  shows "\<exists>kept n. (kept = d \<or> needs_rotation w (encoded @ [newline]) \<and> kept = d(lw_keep w := None)) \<and>
    log_bytes m d' = log_bytes m kept @ take n (encoded @ [newline]) \<and> size_known w' d' \<and>
    (lw_open w \<and> lw_open w' \<and> CannotWriteLog \<notin> set es \<longrightarrow> n = length (encoded @ [newline])) \<and>
    (es = [] \<longrightarrow> lw_open w \<and> lw_open w' \<and>
       int (length (contents d' 0)) \<le> max (lw_max_bytes w) (int (length (encoded @ [newline]))))"
proof -
  let ?line = "encoded @ [newline]"
  consider (closed) "\<not> lw_open w" | (rotated) "lw_open w" "needs_rotation w ?line" | (plain) "lw_open w" "\<not> needs_rotation w ?line" by blast
  then show ?thesis
  proof cases
    case closed
    then show ?thesis using assms by (intro exI [of _ d] exI [of _ 0]) (auto simp: write_log_def)
  next
    case plain
    then have p: "write_bytes ft ?line w d = (es, w', d')"
      using assms(1) write_log_cases [of encode e encoded ft w d, OF assms(5)] by simp
    obtain n where "n \<le> length ?line" "log_bytes m d' = log_bytes m d @ take n ?line" "contents d' 0 = contents d 0 @ take n ?line"
      "w' = w\<lparr>lw_size := lw_size w + n\<rparr>" "CannotWriteLog \<notin> set es \<longrightarrow> n = length ?line \<and> es = []"
      using write_bytes_bytes [OF p, of m] by blast
    then show ?thesis using plain assms(4)
      by (intro exI [of _ d] exI [of _ n]) (auto simp: size_known_def needs_rotation_def)
  next
    case rotated
    obtain es1 w1 d1 where r: "rotate_log ft w d = (es1, w1, d1)" by (metis prod_cases3)
    obtain kept where k: "kept = d \<or> kept = d(lw_keep w := None)" "log_bytes m d1 = log_bytes m kept" "size_known w1 d1"
      "CannotWriteLog \<notin> set es1" "es1 = [] \<longrightarrow> contents d1 0 = [] \<and> lw_open w1"
      using rotate_log_bytes [OF r assms(2,3)] by blast
    have step: "write_log ft encode e w d = (if \<not> lw_open w1 then (es1, w1, d1)
        else (case write_bytes ft ?line w1 d1 of (es2, w2, d2) \<Rightarrow> (es1 @ es2, w2, d2)))"
      using rotated r write_log_cases [of encode e encoded ft w d, OF assms(5)] by simp
    show ?thesis
    proof (cases "lw_open w1")
      case False
      then show ?thesis using step assms(1) k rotated by (intro exI [of _ kept] exI [of _ 0]) auto
    next
      case True
      obtain es2 w2 d2 where p: "write_bytes ft ?line w1 d1 = (es2, w2, d2)" by (metis prod_cases3)
      obtain n where n: "n \<le> length ?line" "log_bytes m d2 = log_bytes m d1 @ take n ?line" "contents d2 0 = contents d1 0 @ take n ?line"
        "w2 = w1\<lparr>lw_size := lw_size w1 + n\<rparr>" "CannotWriteLog \<notin> set es2 \<longrightarrow> n = length ?line \<and> es2 = []"
        using write_bytes_bytes [OF p, of m] by blast
      have "es = es1 @ es2" "w' = w2" "d' = d2" using step assms(1) True p by simp_all
      then show ?thesis using n k rotated True
        by (intro exI [of _ kept] exI [of _ n]) (auto simp: size_known_def)
    qed
  qed
qed

section \<open>A read gives the newest entries\<close>

text \<open>Without failures the files hold chunks of entries, the newest chunk first.\<close>

definition line_of :: "('e \<Rightarrow> string option) \<Rightarrow> 'e \<Rightarrow> string" where
  "line_of encode e = (case encode e of None \<Rightarrow> [] | Some encoded \<Rightarrow> encoded @ [newline])"

definition chunk_disk :: "('e \<Rightarrow> string option) \<Rightarrow> 'e list list \<Rightarrow> log_disk" where
  "chunk_disk encode chunks = (\<lambda>n. if n < length chunks then Some (concat (map (line_of encode) (chunks ! n))) else None)"

definition chunked :: "('e \<Rightarrow> string option) \<Rightarrow> 'e list list \<Rightarrow> log_writer \<Rightarrow> log_disk \<Rightarrow> bool" where
  "chunked encode chunks w d \<longleftrightarrow> d = chunk_disk encode chunks \<and> chunks \<noteq> [] \<and> length chunks \<le> Suc (lw_keep w) \<and>
     1 \<le> lw_keep w \<and> lw_open w \<and> lw_size w = length (contents d 0)"

fun write_all :: "('e \<Rightarrow> string option) \<Rightarrow> 'e list \<Rightarrow> log_writer \<Rightarrow> log_disk \<Rightarrow> (log_writer \<times> log_disk) option" where
  "write_all encode [] w d = Some (w, d)"
| "write_all encode (e # es) w d =
     (case write_log no_faults encode e w d of (errors, w', d') \<Rightarrow> if errors = [] then write_all encode es w' d' else None)"

lemma no_faults_simps [simp]: "\<not> ft_close no_faults" "\<not> ft_remove no_faults" "\<not> ft_rename no_faults n" "\<not> ft_open no_faults"
  "\<not> ft_stat no_faults" "ft_write no_faults = None"
  by (simp_all add: no_faults_def)

lemma shift_loop_exact:
  "d (Suc n) = None \<Longrightarrow>
   shift_loop no_faults n d = (None, \<lambda>k. if k = 0 then d 0 else if k = 1 then None else if k \<le> Suc n then d (k - 1) else d k)"
proof (induction n arbitrary: d)
  case (Suc n)
  let ?d = "move_log (Suc n) (Suc (Suc n)) d"
  have m: "?d = d(Suc (Suc n) := d (Suc n), Suc n := None)" using Suc.prems by (auto simp: move_log_def fun_eq_iff split: option.splits)
  then have "?d (Suc n) = None" by simp
  from Suc.IH [of ?d, OF this]
  have "shift_loop no_faults (Suc n) d = (None, \<lambda>k. if k = 0 then ?d 0 else if k = 1 then None else if k \<le> Suc n then ?d (k - 1) else ?d k)"
    by simp
  also have "(\<lambda>k. if k = 0 then ?d 0 else if k = 1 then None else if k \<le> Suc n then ?d (k - 1) else ?d k) =
    (\<lambda>k. if k = 0 then d 0 else if k = 1 then None else if k \<le> Suc (Suc n) then d (k - 1) else d k)"
    by (rule ext) (auto simp: m le_Suc_eq)
  finally show ?case .
qed auto

lemma rotate_chunks:
  assumes "chunked encode chunks w d"
  shows "rotate_log no_faults w d = ([], w\<lparr>lw_open := True, lw_size := 0\<rparr>, chunk_disk encode (take (Suc (lw_keep w)) ([] # chunks)))"
proof -
  obtain n where n: "lw_keep w = Suc n" using assms by (cases "lw_keep w") (auto simp: chunked_def)
  have d: "d k = None \<longleftrightarrow> length chunks \<le> k" for k using assms by (auto simp: chunked_def chunk_disk_def)
  define d1 where "d1 = (\<lambda>k. if k = 0 then d 0 else if k = 1 then None else if k \<le> Suc n then d (k - 1) else (d(lw_keep w := None)) k)"
  have "shift_loop no_faults n (d(lw_keep w := None)) = (None, d1)"
    using shift_loop_exact [of "d(lw_keep w := None)" n] n by (auto simp: d1_def fun_eq_iff)
  then have s: "shift_files no_faults w d = (None, w\<lparr>lw_open := False\<rparr>, move_log 0 1 d1)"
    using d [of 0] assms n by (auto simp: shift_files_def Let_def d1_def chunked_def)
  have c: "contents (move_log 0 1 d1) 0 = []" by (auto simp: move_log_def contents_def split: option.splits)
  have "(move_log 0 1 d1)(0 \<mapsto> []) = chunk_disk encode (take (Suc (lw_keep w)) ([] # chunks))"
  proof
    fix k
    show "((move_log 0 1 d1)(0 \<mapsto> [])) k = chunk_disk encode (take (Suc (lw_keep w)) ([] # chunks)) k"
      using assms n by (cases k) (auto simp: chunked_def chunk_disk_def move_log_def d1_def nth_Cons split: nat.splits)
  qed
  then show ?thesis by (simp add: rotate_log_def s open_log_def c [simplified] Let_def)
qed

text \<open>The chunks after one more entry.\<close>

definition next_chunks :: "log_writer \<Rightarrow> string \<Rightarrow> 'e \<Rightarrow> 'e list list \<Rightarrow> 'e list list" where
  "next_chunks w line e chunks =
     (if needs_rotation w line then take (Suc (lw_keep w)) ([e] # chunks) else (hd chunks @ [e]) # tl chunks)"

lemma chunk_disk_first [simp]: "contents (chunk_disk encode (c # chunks)) 0 = concat (map (line_of encode) c)"
  by (simp add: chunk_disk_def contents_def)

lemma chunk_disk_add:
  "encode e = Some encoded \<Longrightarrow> (chunk_disk encode (c # chunks))(0 \<mapsto> contents (chunk_disk encode (c # chunks)) 0 @ encoded @ [newline]) =
     chunk_disk encode ((c @ [e]) # chunks)"
  by (auto simp: chunk_disk_def contents_def line_of_def fun_eq_iff nth_Cons split: nat.splits)

lemma write_chunks:
  assumes "chunked encode chunks w d" "encode e = Some encoded"
  shows "\<exists>w' d'. write_log no_faults encode e w d = ([], w', d') \<and> lw_keep w' = lw_keep w \<and> lw_max_bytes w' = lw_max_bytes w \<and>
    chunked encode (next_chunks w (encoded @ [newline]) e chunks) w' d'"
proof -
  have o: "lw_open w" "1 \<le> lw_keep w" "chunks \<noteq> []" "d = chunk_disk encode chunks" "length chunks \<le> Suc (lw_keep w)"
    using assms(1) by (auto simp: chunked_def)
  then obtain c cs where c: "chunks = c # cs" by (cases chunks) auto
  show ?thesis
  proof (cases "needs_rotation w (encoded @ [newline])")
    case True
    obtain n where n: "lw_keep w = Suc n" using o(2) by (cases "lw_keep w") auto
    have "write_log no_faults encode e w d = ([], w\<lparr>lw_open := True, lw_size := length (encoded @ [newline])\<rparr>,
        chunk_disk encode (next_chunks w (encoded @ [newline]) e chunks))"
      using True o(1) chunk_disk_add [of encode e encoded "[]" "take (lw_keep w) chunks", OF assms(2)]
      by (simp add: write_log_cases [of encode e encoded, OF assms(2)] rotate_chunks [OF assms(1)] write_bytes_def Let_def next_chunks_def
          del: fun_upd_apply)
    then show ?thesis using o True n assms(2) by (simp add: chunked_def next_chunks_def line_of_def)
  next
    case False
    have "write_log no_faults encode e w d = ([], w\<lparr>lw_size := lw_size w + length (encoded @ [newline])\<rparr>,
        chunk_disk encode (next_chunks w (encoded @ [newline]) e chunks))"
      using False o chunk_disk_add [of encode e encoded c cs, OF assms(2)]
      by (simp add: write_log_cases [of encode e encoded, OF assms(2)] write_bytes_def Let_def next_chunks_def c del: fun_upd_apply)
    then show ?thesis using o False assms c by (simp add: chunked_def next_chunks_def line_of_def)
  qed
qed

lemma next_chunks_suffix:
  assumes "chunks \<noteq> []"
  shows "suffix (concat (rev (next_chunks w line e chunks))) (concat (rev chunks) @ [e]) \<and>
    concat (rev (next_chunks w line e chunks)) \<noteq> []"
proof (cases "needs_rotation w line")
  case True
  have "rev chunks = rev (drop (lw_keep w) chunks) @ rev (take (lw_keep w) chunks)" by (metis append_take_drop_id rev_append)
  then have "concat (rev chunks) @ [e] = concat (rev (drop (lw_keep w) chunks)) @ concat (rev (take (lw_keep w) chunks)) @ [e]" by simp
  then show ?thesis using True by (simp add: next_chunks_def suffix_def)
next
  case False
  then show ?thesis using assms by (cases chunks) (simp_all add: next_chunks_def)
qed

lemma write_all_chunks:
  assumes "chunked encode chunks w d" "\<forall>e\<in>set es. encode e \<noteq> None"
  shows "\<exists>w' d' chunks'. write_all encode es w d = Some (w', d') \<and> chunked encode chunks' w' d' \<and> lw_keep w' = lw_keep w \<and>
    suffix (concat (rev chunks')) (concat (rev chunks) @ es) \<and> (es \<noteq> [] \<or> concat (rev chunks) \<noteq> [] \<longrightarrow> concat (rev chunks') \<noteq> []) \<and>
    (tl chunks = [] \<and> int (lw_size w + sum_list (map (\<lambda>x. length (line_of encode x)) es)) \<le> lw_max_bytes w \<longrightarrow>
      concat (rev chunks') = concat (rev chunks) @ es)"
  using assms
proof (induction es arbitrary: chunks w d)
  case Nil
  then show ?case by auto
next
  case (Cons e es)
  obtain encoded where e: "encode e = Some encoded" using Cons.prems(2) by auto
  let ?line = "encoded @ [newline]" and ?next = "next_chunks w (encoded @ [newline]) e chunks"
  obtain w1 d1 where s: "write_log no_faults encode e w d = ([], w1, d1)" "lw_keep w1 = lw_keep w" "lw_max_bytes w1 = lw_max_bytes w"
    "chunked encode ?next w1 d1"
    using write_chunks [OF Cons.prems(1) e] by blast
  have h: "\<forall>e\<in>set es. encode e \<noteq> None" using Cons.prems(2) by simp
  obtain w2 d2 chunks' where r: "write_all encode es w1 d1 = Some (w2, d2)" "chunked encode chunks' w2 d2" "lw_keep w2 = lw_keep w1"
    "suffix (concat (rev chunks')) (concat (rev ?next) @ es)" "es \<noteq> [] \<or> concat (rev ?next) \<noteq> [] \<longrightarrow> concat (rev chunks') \<noteq> []"
    "tl ?next = [] \<and> int (lw_size w1 + sum_list (map (\<lambda>x. length (line_of encode x)) es)) \<le> lw_max_bytes w1 \<longrightarrow>
      concat (rev chunks') = concat (rev ?next) @ es"
    using Cons.IH [OF s(4) h] by blast
  have ne: "chunks \<noteq> []" using Cons.prems(1) by (simp add: chunked_def)
  note x = next_chunks_suffix [OF ne, of w ?line e]
  have a: "suffix (concat (rev chunks')) (concat (rev chunks) @ e # es)"
  proof -
    obtain p q where "concat (rev ?next) @ es = p @ concat (rev chunks')" "concat (rev chunks) @ [e] = q @ concat (rev ?next)"
      using r(4) x by (auto simp: suffix_def)
    then have "concat (rev chunks) @ e # es = (q @ p) @ concat (rev chunks')" by (metis append.assoc append_Cons append_Nil)
    then show ?thesis unfolding suffix_def by blast
  qed
  have b: "concat (rev chunks') = concat (rev chunks) @ e # es"
    if "tl chunks = []" "int (lw_size w + sum_list (map (\<lambda>x. length (line_of encode x)) (e # es))) \<le> lw_max_bytes w"
  proof -
    have nr: "\<not> needs_rotation w ?line" using that(2) e by (auto simp: needs_rotation_def line_of_def)
    have "length chunks = 1" using that(1) ne by (cases chunks) auto
    then obtain c where c: "chunks = [c]" by (auto simp: length_Suc_conv)
    then have "?next = [c @ [e]]" using nr by (simp add: next_chunks_def)
    moreover have "lw_size w1 = lw_size w + length ?line"
      using s(1) nr Cons.prems(1) by (auto simp: write_log_cases [of encode e encoded, OF e] write_bytes_def Let_def chunked_def)
    ultimately show ?thesis using r(6) that(2) e s(3) c by (simp add: line_of_def)
  qed
  have "concat (rev chunks') \<noteq> []" using r(5) x by blast
  then show ?case using a b r(1,2,3) s(1,2) by (intro exI [of _ w2] exI [of _ d2] exI [of _ chunks']) auto
qed

text \<open>Reading the chunks back.\<close>

definition good_entry :: "('a read_entry_scheme \<Rightarrow> string option) \<Rightarrow> (string \<Rightarrow> 'a read_entry_scheme option) \<Rightarrow> 'a read_entry_scheme \<Rightarrow> bool" where
  "good_entry encode decode e \<longleftrightarrow> (\<exists>encoded. encode e = Some encoded \<and> newline \<notin> set encoded \<and> length encoded < max_line_bytes \<and>
     decode (encoded @ [newline]) = Some e)"

lemma byte_lines_line: "newline \<notin> set l \<Longrightarrow> byte_lines (l @ newline # bytes) = (l @ [newline]) # byte_lines bytes"
  by (simp add: byte_lines_def split_on_append Let_def)

lemma read_bytes_entries:
  "\<forall>e\<in>set es. good_entry encode decode e \<Longrightarrow> read_bytes decode f (concat (map (line_of encode) es)) = filter (filter_matches f) es"
proof (induction es)
  case Nil
  then show ?case by (simp add: read_bytes_def byte_lines_def read_line_def map_filter_simps)
next
  case (Cons e es)
  obtain encoded where e: "encode e = Some encoded" "newline \<notin> set encoded" "length encoded < max_line_bytes" "decode (encoded @ [newline]) = Some e"
    using Cons.prems by (auto simp: good_entry_def)
  have "read_line decode f (encoded @ [newline]) = (if filter_matches f e then Some e else None)" using e by (simp add: read_line_def)
  then show ?case using Cons e
    by (simp add: read_bytes_def line_of_def byte_lines_line map_filter_simps split del: if_split) auto
qed

lemma count_rotated_exact:
  "(\<And>k. n \<le> k \<Longrightarrow> k < n + j \<Longrightarrow> d k \<noteq> None) \<Longrightarrow> d (n + j) = None \<Longrightarrow> j \<le> limit \<Longrightarrow> count_rotated d n limit = j"
proof (induction limit arbitrary: n j)
  case (Suc limit)
  show ?case
  proof (cases j)
    case 0
    then show ?thesis using Suc.prems(2) by simp
  next
    case (Suc i)
    then have "d n \<noteq> None" "count_rotated d (Suc n) limit = i" using Suc.prems Suc.IH [of "Suc n" i] by auto
    then show ?thesis using Suc by simp
  qed
qed simp

lemma read_log_chunks:
  assumes "chunks \<noteq> []" "length chunks \<le> Suc max_rotated_files" "\<forall>e\<in>set (concat chunks). good_entry encode decode e"
  shows "read_log decode (\<lambda>n. False) f (chunk_disk encode chunks) =
    Ok (newest (lf_limit f) (filter (filter_matches f) (concat (rev chunks))))"
proof -
  let ?d = "chunk_disk encode chunks"
  have "count_rotated ?d 1 max_rotated_files = length chunks - 1"
    by (rule count_rotated_exact) (use assms(1,2) in \<open>auto simp: chunk_disk_def\<close>)
  then have order: "read_order ?d = rev [0..<length chunks]"
    using assms(1) by (simp add: read_order_def upt_conv_Cons)
  have one: "read_log_file decode (\<lambda>n. False) f ?d n = Ok (filter (filter_matches f) (chunks ! n))" if "n < length chunks" for n
  proof -
    have "\<forall>e\<in>set (chunks ! n). good_entry encode decode e" using assms(3) that by (auto intro: nth_mem)
    from read_bytes_entries [OF this] show ?thesis using that by (simp add: read_log_file_def chunk_disk_def)
  qed
  have "map_res (read_log_file decode (\<lambda>n. False) f ?d) (rev [0..<length chunks]) =
    Ok (map (\<lambda>n. filter (filter_matches f) (chunks ! n)) (rev [0..<length chunks]))"
    unfolding map_res_Ok by (simp add: list.rel_map list_all2_same one)
  also have "map (\<lambda>n. filter (filter_matches f) (chunks ! n)) (rev [0..<length chunks]) = map (filter (filter_matches f)) (rev chunks)"
    by (intro nth_equalityI) (simp_all add: rev_nth)
  finally show ?thesis by (simp add: read_log_def order filter_concat)
qed


section \<open>Examples\<close>

definition example_entry :: "char \<Rightarrow> read_entry" where
  "example_entry c = \<lparr>re_kind = [c], re_project = [], re_secret = [], re_inmate = []\<rparr>"

definition example_encode :: "read_entry \<Rightarrow> string option" where
  "example_encode e = (if re_kind e = [] then None else Some (re_kind e))"

definition example_decode :: "string \<Rightarrow> read_entry option" where
  "example_decode line = (case line of c # _ \<Rightarrow> Some (example_entry c) | [] \<Rightarrow> None)"

definition example_writer :: log_writer where
  "example_writer = \<lparr>lw_max_bytes = 3, lw_keep = 1, lw_open = True, lw_size = 2\<rparr>"

definition example_log :: log_disk where
  "example_log = [0 \<mapsto> ''a'' @ [newline], 1 \<mapsto> ''z'' @ [newline]]"

text \<open>A rotation whose last rename fails: the oldest file is gone, and the line is appended all the same.\<close>

lemma write_keeps_log_witness:
  "\<exists>es w' d' kept n. write_log (no_faults\<lparr>ft_rename := \<lambda>n. True\<rparr>) example_encode (example_entry CHR ''b'') example_writer example_log = (es, w', d') \<and>
    (kept = example_log \<or> needs_rotation example_writer (''b'' @ [newline]) \<and> kept = example_log(1 := None)) \<and>
    log_bytes 1 d' = log_bytes 1 kept @ take n (''b'' @ [newline])"
proof -
  obtain es w' d' where w: "write_log (no_faults\<lparr>ft_rename := \<lambda>n. True\<rparr>) example_encode (example_entry CHR ''b'') example_writer example_log = (es, w', d')"
    by (metis prod_cases3)
  have "1 \<le> lw_keep example_writer" "lw_keep example_writer \<le> 1" "size_known example_writer example_log"
    "example_encode (example_entry CHR ''b'') = Some ''b''" "lw_keep example_writer = 1"
    by (simp_all add: example_writer_def size_known_def example_log_def contents_def example_encode_def example_entry_def)
  then show ?thesis using write_keeps_log [OF w, of 1 "''b''"] w by auto
qed


end
