(* ===== verification/Broker_Relay.thy ===== *)
theory Broker_Relay
  imports Broker_Handlers Checkpoint_Text
begin

text \<open>
  \<open>internal/broker/relay/proxy.go\<close> and \<open>usage.go\<close>: what the broker sends upstream, and what it reads from
  the bodies that pass through it.

  A header is an association list from canonical names to values, as \<open>net/http\<close> keeps it. The reverse proxy
  of the standard library calls \<open>rewrite\<close> with the outgoing request and reports the response, the reads of
  the bodies and the failures; these calls are the events of an exchange. The properties say that no
  credential of the box reaches an upstream with an injected one, and that the token counts do not depend on
  how the response is cut into chunks.
\<close>

section \<open>Headers\<close>

type_synonym header = "(string \<times> string list) list"

text \<open>\<open>http.CanonicalHeaderKey\<close>.\<close>

definition token_byte :: "char \<Rightarrow> bool" where
  "token_byte c \<longleftrightarrow> is_upper c \<or> is_lower c \<or> is_digit c \<or> c \<in> set ''!#$%&*+-.^_|~'' \<or> c = CHR 0x27 \<or> c = CHR 0x60"

fun title_case :: "bool \<Rightarrow> string \<Rightarrow> string" where
  "title_case first [] = []"
| "title_case first (c # s) = (if first then upper_char c else lower_char c) # title_case (c = CHR ''-'') s"

definition canonical_key :: "string \<Rightarrow> string" where
  "canonical_key s = (if list_all token_byte s then title_case True s else s)"

definition header_values :: "header \<Rightarrow> string \<Rightarrow> string list" where
  "header_values h name = (case map_of h (canonical_key name) of None \<Rightarrow> [] | Some vs \<Rightarrow> vs)"

definition header_get :: "header \<Rightarrow> string \<Rightarrow> string" where
  "header_get h name = (case header_values h name of [] \<Rightarrow> [] | v # _ \<Rightarrow> v)"

definition header_del :: "header \<Rightarrow> string \<Rightarrow> header" where
  "header_del h name = AList.delete (canonical_key name) h"

definition header_set :: "string \<Rightarrow> string \<Rightarrow> header \<Rightarrow> header" where
  "header_set name v h = AList.update (canonical_key name) [v] h"

section \<open>The rewritten request\<close>

definition hop_by_hop_headers :: "string list" where
  "hop_by_hop_headers = [''Connection'', ''Keep-Alive'', ''Proxy-Authenticate'', ''Proxy-Authorization'',
     ''Proxy-Connection'', ''Te'', ''Trailer'', ''Transfer-Encoding'', ''Upgrade'']"

definition upgrade_headers :: "string list" where
  "upgrade_headers = [''Connection'', ''Upgrade'']"

definition credential_headers :: "string list" where
  "credential_headers = [''Authorization'', ''X-Api-Key'', ''Api-Key'', ''X-Goog-Api-Key'', ''Proxy-Authorization'']"

definition forwarded_headers :: "string list" where
  "forwarded_headers = [''Forwarded'', ''X-Forwarded-For'', ''X-Forwarded-Host'', ''X-Forwarded-Proto'', ''X-Real-Ip'']"

definition host_header :: "upstream \<Rightarrow> string" where
  "host_header up = (case split_host_port (up_host up) of None \<Rightarrow> up_host up
     | Some (host, port) \<Rightarrow>
         if (up_scheme up = ''https'' \<and> port = ''443'') \<or> (up_scheme up = ''http'' \<and> port = ''80'') then host
         else up_host up)"

definition connection_tokens :: "header \<Rightarrow> string list" where
  "connection_tokens h = concat (map (split_on CHR '','') (header_values h ''Connection''))"

definition is_upgrade_request :: "header \<Rightarrow> bool" where
  "is_upgrade_request h =
     (if trim_space (header_get h ''Upgrade'') = [] then False
      else list_ex (\<lambda>token. equal_fold (trim_space token) ''upgrade'') (connection_tokens h))"

definition kept_upgrade :: "bool \<Rightarrow> string \<Rightarrow> bool" where
  "kept_upgrade keep name \<longleftrightarrow> keep \<and> name \<in> set upgrade_headers"

definition drop_hop_by_hop :: "bool \<Rightarrow> header \<Rightarrow> header" where
  "drop_hop_by_hop keep h =
     (let named = filter (\<lambda>name. name \<noteq> [] \<and> \<not> kept_upgrade keep name)
            (map (\<lambda>token. canonical_key (trim_space token)) (connection_tokens h));
          h1 = foldl header_del h named
      in foldl header_del h1 (filter (\<lambda>name. \<not> kept_upgrade keep name) hop_by_hop_headers))"

definition drop_credentials :: "header \<Rightarrow> header" where
  "drop_credentials h = foldl header_del h credential_headers"

record out_request =
  or_scheme :: string
  or_url_host :: string
  or_host :: string
  or_header :: header

text \<open>\<open>rewrite\<close>: the header of the incoming request decides about an upgrade, the header of the outgoing
  one is rewritten.\<close>

definition rewrite :: "upstream \<Rightarrow> header \<Rightarrow> out_request \<Rightarrow> out_request" where
  "rewrite up incoming out =
     (let h1 = drop_hop_by_hop (is_upgrade_request incoming) (or_header out);
          h2 = (if up_drop_credentials up then drop_credentials h1 else header_del h1 ''Proxy-Authorization'');
          h3 = foldl header_del h2 forwarded_headers;
          h4 = (if up_header up \<noteq> [] then header_set (up_header up) (up_value up) h3 else h3)
      in \<lparr>or_scheme = up_scheme up, or_url_host = up_host up, or_host = host_header up, or_header = h4\<rparr>)"

section \<open>What is read from the bodies\<close>

definition model_preview_bytes :: nat where "model_preview_bytes = 64 * 2 ^ 10"
definition usage_carry_bytes :: nat where "usage_carry_bytes = 128"

definition quote :: char where "quote = CHR 0x22"

text \<open>The white space of a regular expression.\<close>

definition regex_space :: "char \<Rightarrow> bool" where
  "regex_space c \<longleftrightarrow> c \<in> {CHR 0x09, CHR 0x0A, CHR 0x0C, CHR 0x0D, CHR 0x20}"

text \<open>The JSON key, the spaces and the colon of the three patterns: the text after them.\<close>

definition match_key :: "string \<Rightarrow> string \<Rightarrow> string option" where
  "match_key name s =
     (let key = quote # name @ [quote] in
      if has_prefix s key then
        (case dropWhile regex_space (drop (length key) s) of
           [] \<Rightarrow> None
         | c # u \<Rightarrow> if c = CHR '':'' then Some (dropWhile regex_space u) else None)
      else None)"

text \<open>A match of \<open>"name"\s*:\s*(\d+)\<close> at the start of a text: the digits.\<close>

definition match_count :: "string \<Rightarrow> string \<Rightarrow> string option" where
  "match_count name s = (case match_key name s of None \<Rightarrow> None
     | Some u \<Rightarrow> if takeWhile is_digit u = [] then None else Some (takeWhile is_digit u))"

fun last_match :: "string \<Rightarrow> string \<Rightarrow> string option" where
  "last_match name [] = None"
| "last_match name (c # s) = (case last_match name s of None \<Rightarrow> match_count name (c # s) | Some ds \<Rightarrow> Some ds)"

definition last_count :: "string \<Rightarrow> string \<Rightarrow> int option" where
  "last_count name data = (case last_match name data of None \<Rightarrow> None | Some ds \<Rightarrow> atoi ds)"

record usage_scanner =
  us_input :: "int option"
  us_output :: "int option"
  us_carry :: string

definition fresh_scanner :: usage_scanner where
  "fresh_scanner = \<lparr>us_input = None, us_output = None, us_carry = []\<rparr>"

definition last_bytes :: "nat \<Rightarrow> string \<Rightarrow> string" where
  "last_bytes n s = (if n < length s then drop (length s - n) s else s)"

definition feed :: "usage_scanner \<Rightarrow> string \<Rightarrow> usage_scanner" where
  "feed sc chunk =
     (let scannable = us_carry sc @ chunk;
          sc1 = (if contains_str scannable ''_tokens'' then
              sc\<lparr>us_input := (case last_count ''input_tokens'' scannable of None \<Rightarrow> us_input sc | Some v \<Rightarrow> Some v),
                 us_output := (case last_count ''output_tokens'' scannable of None \<Rightarrow> us_output sc | Some v \<Rightarrow> Some v)\<rparr>
            else sc)
      in sc1\<lparr>us_carry := last_bytes usage_carry_bytes scannable\<rparr>)"

text \<open>The number of runes of a text; a byte that is not part of a valid rune counts as one.\<close>

function rune_count :: "string \<Rightarrow> nat" where
  "rune_count [] = 0"
| "rune_count (c # s) =
     (let w = utf8_len c in
      if 0 < w \<and> w \<le> length (c # s) \<and> rune_tail c (take (w - 1) s) then Suc (rune_count (drop (w - 1) s))
      else Suc (rune_count s))"
  by pat_completeness auto
termination
  by (relation "measure length") auto

text \<open>A match of \<open>"model"\s*:\s*"([^"]{1,128})"\<close> at the start of a text, and the first one in a text.\<close>

definition match_model :: "string \<Rightarrow> string option" where
  "match_model s = (case match_key ''model'' s of None \<Rightarrow> None
     | Some [] \<Rightarrow> None
     | Some (c # u) \<Rightarrow>
         let value = takeWhile (\<lambda>x. x \<noteq> quote) u in
         if c = quote \<and> quote \<in> set u \<and> 1 \<le> rune_count value \<and> rune_count value \<le> 128 then Some value else None)"

fun model_from_preview :: "string \<Rightarrow> string" where
  "model_from_preview [] = []"
| "model_from_preview (c # s) = (case match_model (c # s) of None \<Rightarrow> model_from_preview s | Some m \<Rightarrow> m)"

definition observe :: "nat \<Rightarrow> string \<Rightarrow> string \<Rightarrow> string" where
  "observe limit data chunk =
     (let remaining = int limit - int (length data) in
      if remaining \<le> 0 then data else data @ (if remaining < int (length chunk) then take (nat remaining) chunk else chunk))"

section \<open>An exchange\<close>

record exchange_result = relay_result +
  rr_model :: string
  rr_input_tokens :: "int option"
  rr_output_tokens :: "int option"

record exchange =
  ex_preview :: string
  ex_usage :: usage_scanner
  ex_bytes :: int
  ex_status :: "int option"
  ex_result :: "exchange_result option"

definition fresh_exchange :: exchange where
  "fresh_exchange = \<lparr>ex_preview = [], ex_usage = fresh_scanner, ex_bytes = 0, ex_status = None, ex_result = None\<rparr>"

definition status_client_gone :: int where "status_client_gone = 499"

text \<open>\<open>finish\<close>: only the first call has an effect.\<close>

definition finish :: "int \<Rightarrow> string \<Rightarrow> bool \<Rightarrow> exchange \<Rightarrow> exchange" where
  "finish status error_text client_gone ex =
     (case ex_result ex of
        Some _ \<Rightarrow> ex
      | None \<Rightarrow> ex\<lparr>ex_result := Some \<lparr>rr_status = status, rr_bytes = ex_bytes ex, rr_error = error_text,
          rr_client_gone = client_gone, rr_model = model_from_preview (ex_preview ex),
          rr_input_tokens = us_input (ex_usage ex), rr_output_tokens = us_output (ex_usage ex)\<rparr>\<rparr>)"

datatype exchange_event =
    BodySent string
  | Responded int
  | BodyReceived string
  | BodyClosed
  | ExchangeFailed bool string

definition observe_response :: "int \<Rightarrow> exchange \<Rightarrow> exchange" where
  "observe_response status ex =
     (if status = 101 then finish status [] False ex else ex\<lparr>ex_status := Some status\<rparr>)"

definition fail_exchange :: "bool \<Rightarrow> string \<Rightarrow> exchange \<Rightarrow> exchange \<times> int option" where
  "fail_exchange client_gone error_text ex =
     (if client_gone then (finish status_client_gone error_text True ex, None)
      else (finish 502 error_text False ex, Some 502))"

definition read_body :: "string \<Rightarrow> exchange \<Rightarrow> exchange" where
  "read_body chunk ex =
     (if 0 < length chunk then ex\<lparr>ex_bytes := ex_bytes ex + int (length chunk), ex_usage := feed (ex_usage ex) chunk\<rparr> else ex)"

definition close_body :: "exchange \<Rightarrow> exchange" where
  "close_body ex = (case ex_status ex of None \<Rightarrow> ex | Some status \<Rightarrow> finish status [] False ex)"

definition exchange_step :: "exchange \<Rightarrow> exchange_event \<Rightarrow> exchange" where
  "exchange_step ex e = (case e of
       BodySent chunk \<Rightarrow> if 0 < length chunk then ex\<lparr>ex_preview := observe model_preview_bytes (ex_preview ex) chunk\<rparr> else ex
     | Responded status \<Rightarrow> observe_response status ex
     | BodyReceived chunk \<Rightarrow> (if ex_status ex = None then ex else read_body chunk ex)
     | BodyClosed \<Rightarrow> close_body ex
     | ExchangeFailed client_gone error_text \<Rightarrow> fst (fail_exchange client_gone error_text ex))"

section \<open>The headers that reach an upstream\<close>

lemma header_map [simp]:
  "map_of (header_del h name) k = (if k = canonical_key name then None else map_of h k)"
  "map_of (header_set name v h) k = (if k = canonical_key name then Some [v] else map_of h k)"
  by (simp_all add: header_del_def header_set_def delete_conv' update_conv')

lemma dels_map: "map_of (foldl header_del h names) k = (if k \<in> canonical_key ` set names then None else map_of h k)"
  by (induction names arbitrary: h) auto

lemma lower_upper: "is_upper c \<Longrightarrow> is_lower (lower_char c) \<and> upper_char (lower_char c) = c"
  by (simp add: lower_char_def upper_char_def is_upper_def is_lower_def)

lemma not_lower_upper: "is_upper c \<Longrightarrow> \<not> is_lower c" by (simp add: is_upper_def is_lower_def)

lemma lower_facts [simp]:
  "upper_char (lower_char c) = upper_char c"
  "token_byte (lower_char c) = token_byte c"
  "lower_char c = CHR ''-'' \<longleftrightarrow> c = CHR ''-''"
proof -
  have same: "lower_char c = c" if "\<not> is_upper c" using that by (simp add: lower_char_def)
  show "upper_char (lower_char c) = upper_char c"
    using same lower_upper not_lower_upper by (cases "is_upper c") (auto simp: upper_char_def [of c])
  show "token_byte (lower_char c) = token_byte c"
    using same lower_upper by (cases "is_upper c") (auto simp: token_byte_def)
  show "lower_char c = CHR ''-'' \<longleftrightarrow> c = CHR ''-''"
  proof (cases "is_upper c")
    case True
    then have "is_lower (lower_char c)" using lower_upper by blast
    then show ?thesis using True by (auto simp: is_lower_def is_upper_def)
  qed (simp add: same)
qed

lemma title_case_lower: "title_case first (to_lower s) = title_case first s"
  by (induction s arbitrary: first) (simp_all add: to_lower_def)

lemma canonical_fold:
  assumes "equal_fold a b" "list_all token_byte b"
  shows "canonical_key a = canonical_key b"
proof -
  have "list_all token_byte (to_lower x) = list_all token_byte x" for x by (simp add: to_lower_def list_all_iff)
  then have "list_all token_byte a" using assms by (metis equal_fold_def)
  then show ?thesis using assms title_case_lower [of True a] title_case_lower [of True b]
    by (simp add: canonical_key_def equal_fold_def)
qed

lemma upper_lower [simp]: "lower_char (upper_char c) = lower_char c"
  by (auto simp: lower_char_def upper_char_def is_upper_def is_lower_def)

lemma canonical_idem [simp]: "canonical_key (canonical_key s) = canonical_key s"
proof (cases "list_all token_byte s")
  case True
  have "equal_fold (title_case first s) s" for first by (induction s arbitrary: first) (simp_all add: equal_fold_def to_lower_def)
  then show ?thesis using canonical_fold [of "title_case True s" s] True by (simp add: canonical_key_def)
qed (simp add: canonical_key_def)

text \<open>The names in the lists are canonical.\<close>

definition listed_headers :: "string list" where
  "listed_headers = hop_by_hop_headers @ credential_headers @ forwarded_headers"

lemma listed_canonical: "\<forall>c\<in>set listed_headers. list_all token_byte c \<and> canonical_key c = c"
  by (simp add: listed_headers_def hop_by_hop_headers_def credential_headers_def forwarded_headers_def canonical_key_def token_byte_def
      is_upper_def is_lower_def is_digit_def upper_char_def lower_char_def)

lemma listed_fold: "c \<in> set listed_headers \<Longrightarrow> canonical_key k = k \<Longrightarrow> equal_fold k c \<longleftrightarrow> k = c"
  using listed_canonical canonical_fold [of k c] by (auto simp: equal_fold_def)

lemma listed_image: "set names \<subseteq> set listed_headers \<Longrightarrow> canonical_key ` set names = set names"
  using listed_canonical by (force simp: image_iff)

text \<open>What is taken away, without regard to case: the credentials, the forwarding headers, and the headers of
  one hop with those that the \<open>Connection\<close> header names; an upgrade keeps its two.\<close>

definition stripped :: "upstream \<Rightarrow> bool \<Rightarrow> header \<Rightarrow> string \<Rightarrow> bool" where
  "stripped up keep h k \<longleftrightarrow>
     (\<exists>c\<in>set (if up_drop_credentials up then credential_headers else [''Proxy-Authorization'']). equal_fold k c) \<or>
     (\<exists>c\<in>set forwarded_headers. equal_fold k c) \<or>
     (\<exists>c\<in>set hop_by_hop_headers. equal_fold k c \<and> \<not> kept_upgrade keep c) \<or>
     (\<exists>t\<in>set (connection_tokens h). k \<noteq> [] \<and> canonical_key (trim_space t) = k \<and> \<not> kept_upgrade keep k)"

text \<open>C15. The header of a forwarded request is exact. Under every canonical name the upstream gets the injected
  value where one is configured; nothing for a credential of the box, whatever its case, for a forwarding
  header, or for a header of one hop; and the value of the box for every other name.\<close>

theorem upstream_header_exact:
  assumes "canonical_key k = k"
  shows "map_of (or_header (rewrite up incoming out)) k =
    (if up_header up \<noteq> [] \<and> k = canonical_key (up_header up) then Some [up_value up]
     else if stripped up (is_upgrade_request incoming) (or_header out) k then None
     else map_of (or_header out) k)"
proof -
  let ?h = "or_header out" and ?keep = "is_upgrade_request incoming"
  let ?named = "filter (\<lambda>name. name \<noteq> [] \<and> \<not> kept_upgrade ?keep name) (map (\<lambda>token. canonical_key (trim_space token)) (connection_tokens ?h))"
  let ?hop = "filter (\<lambda>name. \<not> kept_upgrade ?keep name) hop_by_hop_headers"
  have m: "map_of (or_header (rewrite up incoming out)) k =
    (if up_header up \<noteq> [] \<and> k = canonical_key (up_header up) then Some [up_value up]
     else if k \<in> canonical_key ` set forwarded_headers \<or>
       k \<in> canonical_key ` set (if up_drop_credentials up then credential_headers else [''Proxy-Authorization'']) \<or>
       k \<in> canonical_key ` set ?named \<or> k \<in> canonical_key ` set ?hop then None
     else map_of ?h k)"
    by (simp add: rewrite_def Let_def drop_hop_by_hop_def drop_credentials_def dels_map)
  let ?cred = "if up_drop_credentials up then credential_headers else [''Proxy-Authorization'']"
  have pa: "''Proxy-Authorization'' \<in> set hop_by_hop_headers" by (simp add: hop_by_hop_headers_def)
  have "set forwarded_headers \<subseteq> set listed_headers" "set hop_by_hop_headers \<subseteq> set listed_headers" "set credential_headers \<subseteq> set listed_headers"
    unfolding listed_headers_def set_append by blast+
  moreover have "set ?cred \<subseteq> set listed_headers"
  proof (cases "up_drop_credentials up")
    case False
    have "''Proxy-Authorization'' \<in> set listed_headers" using pa unfolding listed_headers_def set_append by blast
    then show ?thesis using False by (simp only: if_False list.set insert_subset empty_subsetI simp_thms)
  qed (use calculation in simp)
  ultimately have sub: "set forwarded_headers \<subseteq> set listed_headers" "set hop_by_hop_headers \<subseteq> set listed_headers" "set ?cred \<subseteq> set listed_headers"
    by blast+
  then have sub2: "set ?hop \<subseteq> set listed_headers" by auto
  have listed: "k \<in> canonical_key ` set xs \<longleftrightarrow> (\<exists>c\<in>set xs. equal_fold k c)" if "set xs \<subseteq> set listed_headers" for xs
    using listed_fold [OF _ assms] listed_image [OF that] that by blast
  have f1: "k \<in> canonical_key ` set forwarded_headers \<longleftrightarrow> (\<exists>c\<in>set forwarded_headers. equal_fold k c)"
    and f2: "k \<in> canonical_key ` set ?cred \<longleftrightarrow> (\<exists>c\<in>set ?cred. equal_fold k c)"
    using listed sub by blast+
  have f3: "k \<in> canonical_key ` set ?hop \<longleftrightarrow> (\<exists>c\<in>set hop_by_hop_headers. equal_fold k c \<and> \<not> kept_upgrade ?keep c)"
    using listed [OF sub2] by auto
  have f4: "k \<in> canonical_key ` set ?named \<longleftrightarrow>
    (\<exists>t\<in>set (connection_tokens ?h). k \<noteq> [] \<and> canonical_key (trim_space t) = k \<and> \<not> kept_upgrade ?keep k)"
    using assms by (auto simp: image_iff)
  have "(k \<in> canonical_key ` set forwarded_headers \<or> k \<in> canonical_key ` set ?cred \<or> k \<in> canonical_key ` set ?named \<or>
      k \<in> canonical_key ` set ?hop) = stripped up ?keep ?h k"
    unfolding stripped_def f1 f2 f3 f4 by argo
  then show ?thesis by (simp only: m)
qed

section \<open>Counts across chunks\<close>

text \<open>A match splits the text into the key part, the digits, and what follows.\<close>

definition key_part :: "string \<Rightarrow> string \<Rightarrow> bool" where
  "key_part name k \<longleftrightarrow> (\<exists>w1 w2. k = (quote # name @ [quote]) @ w1 @ CHR '':'' # w2 \<and> list_all regex_space w1 \<and> list_all regex_space w2)"

definition match_at :: "string \<Rightarrow> string \<Rightarrow> string \<Rightarrow> string \<Rightarrow> string \<Rightarrow> bool" where
  "match_at name s k ds v \<longleftrightarrow> s = k @ ds @ v \<and> key_part name k \<and> ds \<noteq> [] \<and> list_all is_digit ds \<and> (v = [] \<or> \<not> is_digit (hd v))"

lemma not_space [simp]: "\<not> regex_space CHR '':''" "is_digit c \<Longrightarrow> \<not> regex_space c"
  by (auto simp: regex_space_def is_digit_def)

lemma dropWhile_spaces: "list_all p w \<Longrightarrow> u = [] \<or> \<not> p (hd u) \<Longrightarrow> dropWhile p (w @ u) = u"
  by (induction w) (auto simp: dropWhile_eq_self_iff)

lemma takeWhile_all: "list_all p w \<Longrightarrow> u = [] \<or> \<not> p (hd u) \<Longrightarrow> takeWhile p (w @ u) = w"
  by (induction w) (auto simp: takeWhile_eq_Nil_iff)

lemma match_at_count:
  assumes "match_at name s k ds v"
  shows "match_count name s = Some ds"
proof -
  obtain w1 w2 where k: "k = (quote # name @ [quote]) @ w1 @ CHR '':'' # w2" "list_all regex_space w1" "list_all regex_space w2"
    using assms by (auto simp: match_at_def key_part_def)
  let ?key = "quote # name @ [quote]"
  have s: "s = ?key @ w1 @ CHR '':'' # w2 @ ds @ v" using assms k(1) by (simp add: match_at_def)
  have a: "dropWhile regex_space (w1 @ CHR '':'' # w2 @ ds @ v) = CHR '':'' # w2 @ ds @ v"
    by (rule dropWhile_spaces [OF k(2)]) simp
  have b: "dropWhile regex_space (w2 @ ds @ v) = ds @ v"
    by (rule dropWhile_spaces [OF k(3)]) (use assms in \<open>auto simp: match_at_def neq_Nil_conv\<close>)
  have p: "has_prefix s ?key" "drop (length ?key) s = w1 @ CHR '':'' # w2 @ ds @ v"
    unfolding s by (simp_all add: has_prefix_def)
  have "match_key name s = Some (ds @ v)"
    unfolding match_key_def Let_def p(2) using p(1) by (simp add: a b)
  moreover have "takeWhile is_digit (ds @ v) = ds" using assms by (intro takeWhile_all) (auto simp: match_at_def)
  ultimately show ?thesis using assms by (simp add: match_count_def match_at_def)
qed

lemma count_match_at:
  assumes "match_count name s = Some ds"
  shows "\<exists>k v. match_at name s k ds v"
proof -
  obtain u where u: "match_key name s = Some u" "ds = takeWhile is_digit u" "ds \<noteq> []"
    using assms by (auto simp: match_count_def split: option.splits if_splits)
  let ?key = "quote # name @ [quote]"
  obtain v where c: "has_prefix s ?key" "dropWhile regex_space (drop (length ?key) s) = CHR '':'' # v" "u = dropWhile regex_space v"
    using u(1) unfolding match_key_def Let_def by (simp split: if_splits list.splits) 
  obtain r where r: "s = ?key @ r" using c(1) has_prefix_iff by blast
  then have d: "drop (length ?key) s = r" by simp
  define w1 where "w1 = takeWhile regex_space r"
  define w2 where "w2 = takeWhile regex_space v"
  have "r = w1 @ CHR '':'' # v" using c(2) unfolding d w1_def by (metis takeWhile_dropWhile_id)
  moreover have "v = w2 @ u" unfolding w2_def c(3) by simp
  moreover have "u = ds @ dropWhile is_digit u" using u(2) by simp
  ultimately have s: "s = (?key @ w1 @ CHR '':'' # w2) @ ds @ dropWhile is_digit u" using r by simp
  have "list_all regex_space w1" "list_all regex_space w2" "list_all is_digit ds"
    unfolding w1_def w2_def u(2) list_all_iff by (auto dest: set_takeWhileD)
  moreover have "dropWhile is_digit u = [] \<or> \<not> is_digit (hd (dropWhile is_digit u))" using hd_dropWhile by blast
  ultimately have "match_at name s (?key @ w1 @ CHR '':'' # w2) ds (dropWhile is_digit u)"
    unfolding match_at_def key_part_def using s u(3) by blast
  then show ?thesis by blast
qed

text \<open>More text after a match can only add digits to a match that ends the text.\<close>

lemma match_at_longer:
  assumes "match_at name s k ds v"
  shows "\<exists>ds' v'. match_at name (s @ t) k ds' v' \<and> length ds \<le> length ds' \<and> (v \<noteq> [] \<longrightarrow> ds' = ds)"
proof (cases "v = []")
  case True
  have "match_at name (s @ t) k (ds @ takeWhile is_digit t) (dropWhile is_digit t)"
    using assms True hd_dropWhile [of is_digit t] by (auto simp: match_at_def list_all_iff dest: set_takeWhileD)
  then show ?thesis using True by (intro exI) auto
next
  case False
  then have "match_at name (s @ t) k ds (v @ t)" using assms by (auto simp: match_at_def)
  then show ?thesis by blast
qed

lemma match_at_shorter:
  assumes "match_at name (s @ t) k ds v" "length k + length ds < length s"
  shows "\<exists>v'. match_at name s k ds v' \<and> v' \<noteq> []"
proof -
  have e: "s @ t = (k @ ds) @ v" using assms(1) by (simp add: match_at_def)
  then obtain q where q: "s = (k @ ds) @ q" "v = q @ t" using assms(2) by (auto simp: append_eq_append_conv2)
  then have "q \<noteq> []" using assms(2) by auto
  then have "match_at name s k ds q" using assms(1) q by (simp add: match_at_def)
  then show ?thesis using \<open>q \<noteq> []\<close> by blast
qed

text \<open>The last match at the positions of the first part of a text.\<close>

fun last_in :: "string \<Rightarrow> string \<Rightarrow> string \<Rightarrow> string option" where
  "last_in name [] s = None"
| "last_in name (c # p) s = (case last_in name p s of None \<Rightarrow> match_count name (c # p @ s) | Some ds \<Rightarrow> Some ds)"

lemma last_match_append: "last_match name (p @ s) = (case last_match name s of None \<Rightarrow> last_in name p s | Some ds \<Rightarrow> Some ds)"
  by (induction p) (auto split: option.splits)

lemma last_in_cong:
  "(\<And>q r. p = q @ r \<Longrightarrow> r \<noteq> [] \<Longrightarrow> match_count name (r @ s) = match_count name (r @ t)) \<Longrightarrow> last_in name p s = last_in name p t"
proof (induction p)
  case (Cons c p)
  have "last_in name p s = last_in name p t" by (rule Cons.IH) (metis Cons.prems append_Cons)
  moreover have "match_count name ((c # p) @ s) = match_count name ((c # p) @ t)" by (rule Cons.prems [of "[]"]) simp_all
  ultimately show ?case by (simp split: option.splits)
qed simp

lemma last_match_None: "last_match name (q @ r) = None \<Longrightarrow> match_count name r = None"
proof -
  have empty: "match_count name [] = None" by (simp add: match_count_def match_key_def has_prefix_def)
  assume "last_match name (q @ r) = None"
  then have "last_match name r = None" by (auto simp: last_match_append split: option.splits)
  then show ?thesis by (cases r) (auto simp: empty split: option.splits)
qed

lemma last_match_hit: "last_match name s = Some ds \<Longrightarrow> \<exists>q r. s = q @ r \<and> match_count name r = Some ds"
proof (induction s)
  case (Cons c s)
  show ?case
  proof (cases "last_match name s")
    case None
    then show ?thesis using Cons.prems by (intro exI [of _ "[]"] exI [of _ "c # s"]) auto
  next
    case (Some x)
    then obtain q r where "s = q @ r" "match_count name r = Some ds" using Cons by auto
    then show ?thesis by (intro exI [of _ "c # q"] exI [of _ r]) auto
  qed
qed simp

text \<open>The counts of a text are short when each match fits into the carried bytes and into a number.\<close>

definition short_counts :: "string \<Rightarrow> string \<Rightarrow> bool" where
  "short_counts name s \<longleftrightarrow> (\<forall>q r k ds v. s = q @ r \<and> match_at name r k ds v \<longrightarrow>
     length k + length ds \<le> usage_carry_bytes \<and> length ds \<le> 18)"

lemma short_prefix: "short_counts name (s @ t) \<Longrightarrow> short_counts name s"
  unfolding short_counts_def
proof (intro allI impI, elim conjE)
  fix q r k ds v
  assume h: "\<forall>q r k ds v. s @ t = q @ r \<and> match_at name r k ds v \<longrightarrow> length k + length ds \<le> usage_carry_bytes \<and> length ds \<le> 18"
    and m: "s = q @ r" "match_at name r k ds v"
  obtain ds' v' where l: "match_at name (r @ t) k ds' v'" "length ds \<le> length ds'" using match_at_longer [OF m(2)] by blast
  have "s @ t = q @ r @ t" using m(1) by simp
  then show "length k + length ds \<le> usage_carry_bytes \<and> length ds \<le> 18" using h l by fastforce
qed

lemma last_bytes_split: "\<exists>p. s = p @ last_bytes n s \<and> (p \<noteq> [] \<longrightarrow> length (last_bytes n s) = n)"
proof (cases "n < length s")
  case True
  then show ?thesis by (intro exI [of _ "take (length s - n) s"]) (simp add: last_bytes_def)
qed (simp add: last_bytes_def)

lemma last_match_carry:
  assumes "short_counts name (s @ chunk)"
  shows "last_match name (s @ chunk) =
    (case last_match name (last_bytes usage_carry_bytes s @ chunk) of None \<Rightarrow> last_match name s | Some ds \<Rightarrow> Some ds)"
proof -
  let ?c = "last_bytes usage_carry_bytes s"
  obtain p where p: "s = p @ ?c" "p \<noteq> [] \<longrightarrow> length ?c = usage_carry_bytes" using last_bytes_split by blast
  have sp: "s @ chunk = p @ ?c @ chunk" using p(1) by simp
  show ?thesis
  proof (cases "last_match name (?c @ chunk)")
    case (Some ds)
    then show ?thesis unfolding sp last_match_append [of name p] by simp
  next
    case None
    have c: "last_match name ?c = None"
    proof (rule ccontr)
      assume "last_match name ?c \<noteq> None"
      then obtain q r ds where r: "?c = q @ r" "match_count name r = Some ds" using last_match_hit by blast
      obtain k v where "match_at name r k ds v" using count_match_at [OF r(2)] by blast
      then obtain ds' v' where "match_at name (r @ chunk) k ds' v'" using match_at_longer by blast
      then have "match_count name (r @ chunk) = Some ds'" by (rule match_at_count)
      moreover have "last_match name (q @ r @ chunk) = None" using None r(1) by simp
      ultimately show False using last_match_None by fastforce
    qed
    have "last_in name p (?c @ chunk) = last_in name p ?c"
    proof (rule last_in_cong)
      fix q r assume r: "p = q @ r" "r \<noteq> []"
      have len: "length (r @ ?c) > usage_carry_bytes" using p(2) r by (cases r) auto
      show "match_count name (r @ ?c @ chunk) = match_count name (r @ ?c)"
      proof (cases "match_count name (r @ ?c @ chunk)")
        case (Some ds)
        then obtain k v where m: "match_at name ((r @ ?c) @ chunk) k ds v" using count_match_at by fastforce
        have "s @ chunk = q @ (r @ ?c) @ chunk" using sp r(1) by simp
        then have "length k + length ds \<le> usage_carry_bytes" using assms m unfolding short_counts_def by blast
        then obtain v' where "match_at name (r @ ?c) k ds v'" using match_at_shorter [OF m] len by fastforce
        then show ?thesis using Some match_at_count by metis
      next
        case None
        have "match_count name (r @ ?c) = None"
        proof (rule ccontr)
          assume "match_count name (r @ ?c) \<noteq> None"
          then obtain ds k v where "match_at name (r @ ?c) k ds v" using count_match_at by blast
          then obtain ds' v' where "match_at name ((r @ ?c) @ chunk) k ds' v'" using match_at_longer by blast
          then show False using None match_at_count by fastforce
        qed
        then show ?thesis using None by simp
      qed
    qed
    then have "last_match name (s @ chunk) = last_in name p ?c" unfolding sp last_match_append [of name p] using None by simp
    also have "\<dots> = last_match name (p @ ?c)" using c by (simp add: last_match_append)
    finally show ?thesis using None p(1) by simp
  qed
qed

lemma last_bytes_again: "last_bytes n (last_bytes n s @ chunk) = last_bytes n (s @ chunk)"
  by (auto simp: last_bytes_def add.commute)

lemma marker_needed:
  assumes "last_match name s \<noteq> None" "has_suffix name ''_tokens''"
  shows "contains_str s ''_tokens''"
proof -
  obtain q r ds where r: "s = q @ r" "match_count name r = Some ds" using assms(1) last_match_hit by blast
  obtain k v where "match_at name r k ds v" using count_match_at [OF r(2)] by blast
  then obtain w where "r = quote # name @ w" by (auto simp: match_at_def key_part_def)
  moreover obtain u where "name = u @ ''_tokens''" using assms(2) has_suffix_iff by blast
  ultimately have "s = (q @ quote # u) @ ''_tokens'' @ w" using r(1) by simp
  then show ?thesis unfolding contains_str_iff by blast
qed

lemma short_number:
  assumes "ds \<noteq> []" "list_all is_digit ds" "length ds \<le> 18"
  shows "\<exists>n. atoi ds = Some n"
proof -
  have bound: "foldl (\<lambda>n c. 10 * n + digit_val c) m ds < (m + 1) * 10 ^ length ds" if "list_all is_digit ds" for m ds
    using that
  proof (induction ds arbitrary: m)
    case (Cons c ds)
    have "digit_val c \<le> 9" using Cons.prems by (auto simp: is_digit_def digit_val_def)
    then have "(10 * m + digit_val c + 1) * 10 ^ length ds \<le> (10 * (m + 1)) * 10 ^ length ds" by (intro mult_le_mono1) simp
    also have "\<dots> = (m + 1) * 10 ^ length (c # ds)" by (simp add: algebra_simps)
    finally have "(10 * m + digit_val c + 1) * 10 ^ length ds \<le> (m + 1) * 10 ^ length (c # ds)" .
    then show ?case using Cons.IH [of "10 * m + digit_val c"] Cons.prems by simp
  qed simp
  have "foldl (\<lambda>n c. 10 * n + digit_val c) 0 ds < 10 ^ length ds" using bound [OF assms(2), of 0] by simp
  also have "\<dots> \<le> 10 ^ 18" using assms(3) by (intro power_increasing) simp_all
  finally have "foldl (\<lambda>n c. 10 * n + digit_val c) 0 ds < 10 ^ 18" .
  moreover obtain c cs where c: "ds = c # cs" "is_digit c" using assms(1,2) by (cases ds) auto
  ultimately show ?thesis using digit_not_sign [OF c(2)] assms(2) unfolding atoi_def parse_digits_def int64_max_def int64_min_def c(1)
    by simp
qed

lemma short_last_count:
  assumes "short_counts name s" "last_match name s = Some ds"
  shows "\<exists>n. last_count name s = Some n"
proof -
  obtain q r where r: "s = q @ r" "match_count name r = Some ds" using last_match_hit [OF assms(2)] by blast
  obtain k v where m: "match_at name r k ds v" using count_match_at [OF r(2)] by blast
  then have "length ds \<le> 18" using assms(1) r(1) unfolding short_counts_def by blast
  then show ?thesis using short_number m assms(2) by (auto simp: last_count_def match_at_def)
qed

text \<open>One update of a counter.\<close>

lemma count_update:
  assumes "short_counts name (s @ chunk)"
  shows "(case last_count name (last_bytes usage_carry_bytes s @ chunk) of None \<Rightarrow> last_count name s | Some v \<Rightarrow> Some v) =
    last_count name (s @ chunk)"
proof (cases "last_match name (last_bytes usage_carry_bytes s @ chunk)")
  case None
  then show ?thesis using last_match_carry [OF assms] by (simp add: last_count_def)
next
  case (Some ds)
  then have l: "last_match name (s @ chunk) = Some ds" using last_match_carry [OF assms] by simp
  then obtain n where n: "last_count name (s @ chunk) = Some n" using short_last_count [OF assms] by blast
  then have "last_count name (last_bytes usage_carry_bytes s @ chunk) = Some n" using l Some by (simp add: last_count_def)
  then show ?thesis using n by simp
qed

definition scanned :: "string \<Rightarrow> usage_scanner \<Rightarrow> bool" where
  "scanned s sc \<longleftrightarrow> us_carry sc = last_bytes usage_carry_bytes s \<and> us_input sc = last_count ''input_tokens'' s \<and>
     us_output sc = last_count ''output_tokens'' s"

lemma feed_scanned:
  assumes "scanned s sc" "short_counts ''input_tokens'' (s @ chunk)" "short_counts ''output_tokens'' (s @ chunk)"
  shows "scanned (s @ chunk) (feed sc chunk)"
proof -
  let ?x = "last_bytes usage_carry_bytes s @ chunk"
  have none: "last_count name ?x = None" if "\<not> contains_str ?x ''_tokens''" "has_suffix name ''_tokens''" for name
    using marker_needed [of name ?x] that by (cases "last_match name ?x") (auto simp: last_count_def)
  have "has_suffix ''input_tokens'' ''_tokens''" "has_suffix ''output_tokens'' ''_tokens''" by (simp_all add: has_suffix_def)
  then have n: "\<not> contains_str ?x ''_tokens'' \<Longrightarrow> last_count ''input_tokens'' ?x = None"
    "\<not> contains_str ?x ''_tokens'' \<Longrightarrow> last_count ''output_tokens'' ?x = None" using none by blast+
  have c: "us_carry sc = last_bytes usage_carry_bytes s" "us_input sc = last_count ''input_tokens'' s" "us_output sc = last_count ''output_tokens'' s"
    using assms(1) by (simp_all add: scanned_def)
  have i: "us_input (feed sc chunk) = (if contains_str ?x ''_tokens''
      then (case last_count ''input_tokens'' ?x of None \<Rightarrow> last_count ''input_tokens'' s | Some v \<Rightarrow> Some v) else last_count ''input_tokens'' s)"
    and o: "us_output (feed sc chunk) = (if contains_str ?x ''_tokens''
      then (case last_count ''output_tokens'' ?x of None \<Rightarrow> last_count ''output_tokens'' s | Some v \<Rightarrow> Some v) else last_count ''output_tokens'' s)"
    unfolding feed_def Let_def c(1) by (simp_all only: c(2,3) usage_scanner.simps usage_scanner.update_convs split: if_split) (simp_all add: c(2,3))
  have f: "us_input (feed sc chunk) = (case last_count ''input_tokens'' ?x of None \<Rightarrow> last_count ''input_tokens'' s | Some v \<Rightarrow> Some v)"
    unfolding i using n(1) by (simp only: option.case split: if_split) simp
  have g: "us_output (feed sc chunk) = (case last_count ''output_tokens'' ?x of None \<Rightarrow> last_count ''output_tokens'' s | Some v \<Rightarrow> Some v)"
    unfolding o using n(2) by (simp only: option.case split: if_split) simp
  have h: "us_carry (feed sc chunk) = last_bytes usage_carry_bytes ?x" by (simp add: feed_def Let_def c(1))
  note f = f g h
  show ?thesis unfolding scanned_def f count_update [OF assms(2)] count_update [OF assms(3)] by (simp add: last_bytes_again)
qed

section \<open>The result of an exchange\<close>

lemma observe_take:
  "data = take limit s \<Longrightarrow> observe limit data chunk = take limit (s @ chunk)"
  by (auto simp: observe_def Let_def min_def nat_diff_distrib)

fun sent_bytes :: "exchange_event list \<Rightarrow> string" where
  "sent_bytes [] = []"
| "sent_bytes (BodySent chunk # es) = chunk @ sent_bytes es"
| "sent_bytes (_ # es) = sent_bytes es"

fun received_bytes :: "exchange_event list \<Rightarrow> string" where
  "received_bytes [] = []"
| "received_bytes (BodyReceived chunk # es) = chunk @ received_bytes es"
| "received_bytes (_ # es) = received_bytes es"

definition moves_body :: "exchange_event \<Rightarrow> bool" where
  "moves_body e = (case e of BodySent _ \<Rightarrow> True | BodyReceived _ \<Rightarrow> True | _ \<Rightarrow> False)"

definition sends_body :: "exchange_event \<Rightarrow> bool" where
  "sends_body e = (case e of BodySent _ \<Rightarrow> True | _ \<Rightarrow> False)"

lemma finished_stays: "ex_result ex = Some r \<Longrightarrow> ex_result (foldl exchange_step ex es) = Some r"
proof (induction es arbitrary: ex)
  case (Cons e es)
  have "ex_result (exchange_step ex e) = Some r"
    using Cons.prems by (cases e) (auto simp: exchange_step_def observe_response_def finish_def read_body_def close_body_def
        fail_exchange_def split: option.splits)
  then show ?case using Cons.IH by simp
qed simp

text \<open>What an open exchange knows of the bytes that passed.\<close>

definition passed :: "string \<Rightarrow> string \<Rightarrow> exchange \<Rightarrow> bool" where
  "passed sent received ex \<longleftrightarrow> ex_preview ex = take model_preview_bytes sent \<and> scanned received (ex_usage ex) \<and>
     ex_bytes ex = int (length received) \<and> ex_result ex = None"

lemma body_passed:
  assumes "passed sent received ex" "ex_status ex = Some status" "list_all moves_body es"
    and "short_counts ''input_tokens'' (received @ received_bytes es)" "short_counts ''output_tokens'' (received @ received_bytes es)"
  shows "passed (sent @ sent_bytes es) (received @ received_bytes es) (foldl exchange_step ex es) \<and>
    ex_status (foldl exchange_step ex es) = Some status"
  using assms
proof (induction es arbitrary: sent received ex)
  case (Cons e es)
  show ?case
  proof (cases e)
    case (BodySent chunk)
    then have "passed (sent @ chunk) received (exchange_step ex e)" "ex_status (exchange_step ex e) = Some status"
      using Cons.prems(1,2) observe_take by (auto simp: passed_def exchange_step_def)
    from Cons.IH [OF this] show ?thesis using Cons.prems BodySent by simp
  next
    case (BodyReceived chunk)
    have "short_counts name (received @ chunk)" if "short_counts name (received @ received_bytes (e # es))" for name
      using that short_prefix [of name "received @ chunk"] BodyReceived by simp
    then have "scanned (received @ chunk) (feed (ex_usage ex) chunk)"
      using feed_scanned Cons.prems(1,4,5) by (auto simp: passed_def)
    then have "passed sent (received @ chunk) (exchange_step ex e)" "ex_status (exchange_step ex e) = Some status"
      using Cons.prems(1,2) BodyReceived by (auto simp: passed_def exchange_step_def read_body_def)
    from Cons.IH [OF this] show ?thesis using Cons.prems BodyReceived by simp
  qed (use Cons.prems in \<open>auto simp: moves_body_def\<close>)
qed simp

lemma sending_passed:
  "passed sent [] ex \<Longrightarrow> list_all sends_body es \<Longrightarrow> passed (sent @ sent_bytes es) [] (foldl exchange_step ex es)"
proof (induction es arbitrary: sent ex)
  case (Cons e es)
  then obtain chunk where e: "e = BodySent chunk" by (cases e) (auto simp: sends_body_def)
  then have "passed (sent @ chunk) [] (exchange_step ex e)" using Cons.prems observe_take by (auto simp: passed_def exchange_step_def)
  from Cons.IH [OF this] show ?case using Cons.prems e by simp
qed simp


section \<open>Examples\<close>

definition example_out :: out_request where
  "example_out = \<lparr>or_scheme = [], or_url_host = [], or_host = [],
     or_header = [(''X-Api-Key'', [''mine'']), (''Accept'', [''text/plain''])]\<rparr>"

definition example_upstream :: upstream where
  "example_upstream = \<lparr>up_scheme = ''https'', up_host = ''api.example.com:443'', up_header = ''x-api-key'',
     up_value = ''held'', up_drop_credentials = True\<rparr>"

lemma upstream_header_exact_witness:
  "map_of (or_header (rewrite example_upstream [] example_out)) ''X-Api-Key'' = Some [''held'']"
proof -
  have "canonical_key ''X-Api-Key'' = ''X-Api-Key''" "canonical_key ''x-api-key'' = ''X-Api-Key''" by code_simp+
  then show ?thesis using upstream_header_exact [of "''X-Api-Key''" example_upstream "[]" example_out]
    by (simp add: example_upstream_def)
qed

definition example_received :: "exchange_event list" where
  "example_received = [BodyReceived (quote # ''input_''), BodyReceived (''tokens'' @ [quote] @ '':7'')]"


end
