(* ===== verification/Config_Values.thy ===== *)
theory Config_Values
  imports Policy Vault_Validate Go_Path
begin

text \<open>
  \<open>internal/config/values.go\<close> and \<open>names.go\<close>: the checks that the two configuration files and the environment
  variables share. A regular expression of the source is a predicate on the whole text. The lemmas say what
  an accepted value looks like; the relative paths are clean, local and stable under a second check.
\<close>

section \<open>Errors\<close>

datatype config_error =
    NotSingleLine string
  | EmptyText string
  | BadCPUCount string
  | BadMemorySize string
  | BadPort string
  | NotRelative string
  | ParentSegment string
  | NotCleanPath string string
  | BadName string string
  | BadEnvironmentName string
  | ReservedByPrison string
  | NotNumber string string
  | InVariable string config_error
  | HomeNotSet
  | PortsReversed int int
  | BadEgressHost pattern_error
  | ShadowsGit
  | SameShadowDirectory string string
  | ReservedSecretName string
  | NotEnvironmentValue string
  | NotToml
  | UnknownKeyOutsideTable string
  | UnknownTable string
  | UnknownKeyInTable string string
  | CannotReadConfig
  | Unusable string config_error

section \<open>Values\<close>

definition forbidden_value_characters :: string where
  "forbidden_value_characters = [CHR 0x09, CHR 0x0A, CHR 0x0D, CHR 0x00]"

definition minimum_cpu_count :: int where "minimum_cpu_count = 1"
definition maximum_cpu_count :: int where "maximum_cpu_count = 32"
definition minimum_port :: int where "minimum_port = 1"
definition maximum_port :: int where "maximum_port = 65535"
definition default_cpus :: int where "default_cpus = 4"
definition default_memory :: string where "default_memory = ''8G''"
definition default_guest_ports :: "int list" where "default_guest_ports = [3000, 5173, 8000, 8080]"

definition memory_size_pattern :: "string \<Rightarrow> bool" where
  "memory_size_pattern s \<longleftrightarrow> s \<noteq> [] \<and> last s \<in> {CHR ''M'', CHR ''G''} \<and>
     (case butlast s of [] \<Rightarrow> False | c # cs \<Rightarrow> is_digit c \<and> c \<noteq> CHR ''0'' \<and> list_all is_digit cs)"

definition require_single_line :: "string \<Rightarrow> string \<Rightarrow> (config_error, unit) result" where
  "require_single_line description text_value =
     (if contains_any text_value forbidden_value_characters then Err (NotSingleLine description) else Ok ())"

definition require_text :: "string \<Rightarrow> string \<Rightarrow> (config_error, unit) result" where
  "require_text description text_value =
     (if trim_space text_value = [] then Err (EmptyText description) else require_single_line description text_value)"

definition validate_cpu_count :: "string \<Rightarrow> int \<Rightarrow> (config_error, unit) result" where
  "validate_cpu_count description count =
     (if count < minimum_cpu_count \<or> maximum_cpu_count < count then Err (BadCPUCount description) else Ok ())"

definition validate_memory_size :: "string \<Rightarrow> string \<Rightarrow> (config_error, unit) result" where
  "validate_memory_size description size_text =
     (if memory_size_pattern size_text then Ok () else Err (BadMemorySize description))"

definition validate_port :: "string \<Rightarrow> int \<Rightarrow> (config_error, unit) result" where
  "validate_port description port =
     (if port < minimum_port \<or> maximum_port < port then Err (BadPort description) else Ok ())"

definition trim_right_slashes :: "string \<Rightarrow> string" where
  "trim_right_slashes = trim_right_by (\<lambda>c. c = CHR ''/'')"

definition validate_relative_path :: "string \<Rightarrow> string \<Rightarrow> (config_error, string) result" where
  "validate_relative_path description relative_path =
     bind_res (require_text description relative_path) (\<lambda>_.
       if has_prefix relative_path ''/'' then Err (NotRelative description)
       else if list_ex (\<lambda>segment. segment = ''..'') (split_on CHR ''/'' relative_path) then Err (ParentSegment description)
       else (let trimmed = trim_right_slashes relative_path in
         if trimmed = ''.'' \<or> path_clean trimmed \<noteq> trimmed \<or> \<not> is_local trimmed
         then Err (NotCleanPath description relative_path) else Ok trimmed))"

section \<open>Names\<close>

definition name_pattern :: "string \<Rightarrow> bool" where
  "name_pattern s \<longleftrightarrow> (case s of [] \<Rightarrow> False
     | c # cs \<Rightarrow> is_lower c \<and> list_all (\<lambda>x. is_lower x \<or> is_digit x \<or> x = CHR ''-'') cs \<and> length cs \<le> 31)"

definition environment_name_pattern :: "string \<Rightarrow> bool" where
  "environment_name_pattern s \<longleftrightarrow> (case s of [] \<Rightarrow> False
     | c # cs \<Rightarrow> (is_letter c \<or> c = CHR ''_'') \<and> list_all (\<lambda>x. is_letter x \<or> is_digit x \<or> x = CHR ''_'') cs)"

definition validate_name :: "string \<Rightarrow> string \<Rightarrow> (config_error, unit) result" where
  "validate_name kind name = (if name_pattern name then Ok () else Err (BadName kind name))"

definition validate_environment_name :: "string \<Rightarrow> (config_error, unit) result" where
  "validate_environment_name name = (if environment_name_pattern name then Ok () else Err (BadEnvironmentName name))"

definition reserved_environment_names :: "string list" where
  "reserved_environment_names = [''NODE_EXTRA_CA_CERTS'', ''SSL_CERT_FILE'', ''REQUESTS_CA_BUNDLE'', ''CURL_CA_BUNDLE'', ''GIT_SSL_CAINFO'']"

definition reserved_environment_prefix :: string where "reserved_environment_prefix = ''PRISON_''"

definition validate_box_environment_name :: "string \<Rightarrow> (config_error, unit) result" where
  "validate_box_environment_name name =
     bind_res (validate_environment_name name) (\<lambda>_.
       if has_prefix name reserved_environment_prefix then Err (ReservedByPrison name)
       else if list_ex (\<lambda>reserved. name = reserved) reserved_environment_names then Err (ReservedByPrison name)
       else Ok ())"

section \<open>What is accepted\<close>

definition single_line :: "string \<Rightarrow> bool" where
  "single_line s \<longleftrightarrow> \<not> contains_any s forbidden_value_characters"

definition box_environment_name :: "string \<Rightarrow> bool" where
  "box_environment_name name \<longleftrightarrow> environment_name_pattern name \<and> \<not> has_prefix name reserved_environment_prefix \<and>
     name \<notin> set reserved_environment_names"

lemma accepted [simp]:
  "require_single_line d s = Ok u \<longleftrightarrow> single_line s"
  "require_text d s = Ok u \<longleftrightarrow> trim_space s \<noteq> [] \<and> single_line s"
  "validate_cpu_count d n = Ok u \<longleftrightarrow> 1 \<le> n \<and> n \<le> 32"
  "validate_memory_size d s = Ok u \<longleftrightarrow> memory_size_pattern s"
  "validate_port d n = Ok u \<longleftrightarrow> 1 \<le> n \<and> n \<le> 65535"
  "validate_name k s = Ok u \<longleftrightarrow> name_pattern s"
  "validate_environment_name s = Ok u \<longleftrightarrow> environment_name_pattern s"
  "validate_box_environment_name s = Ok u \<longleftrightarrow> box_environment_name s"
proof -
  show single: "require_single_line d s = Ok u \<longleftrightarrow> single_line s" for d s u
    by (simp add: require_single_line_def single_line_def)
  show "require_text d s = Ok u \<longleftrightarrow> trim_space s \<noteq> [] \<and> single_line s" by (simp add: require_text_def single)
  show "validate_cpu_count d n = Ok u \<longleftrightarrow> 1 \<le> n \<and> n \<le> 32" "validate_port d n = Ok u \<longleftrightarrow> 1 \<le> n \<and> n \<le> 65535"
    by (simp_all add: validate_cpu_count_def validate_port_def minimum_cpu_count_def maximum_cpu_count_def minimum_port_def
        maximum_port_def not_less)
  show "validate_memory_size d s = Ok u \<longleftrightarrow> memory_size_pattern s" "validate_name k s = Ok u \<longleftrightarrow> name_pattern s"
    by (simp_all add: validate_memory_size_def validate_name_def)
  show e: "validate_environment_name s = Ok u \<longleftrightarrow> environment_name_pattern s" for u s by (simp add: validate_environment_name_def)
  have "list_ex (\<lambda>reserved. s = reserved) xs \<longleftrightarrow> s \<in> set xs" for xs by (induction xs) auto
  then show "validate_box_environment_name s = Ok u \<longleftrightarrow> box_environment_name s"
    by (simp add: validate_box_environment_name_def bind_res_Ok e box_environment_name_def)
qed

lemma check_all_accepts:
  assumes "\<And>x. f x = Ok () \<longleftrightarrow> P x"
  shows "check_all f xs = Ok u \<longleftrightarrow> list_all P xs"
  using assms by (simp add: check_all_Ok list_all_iff)

text \<open>An accepted relative path.\<close>

definition project_path :: "string \<Rightarrow> bool" where
  "project_path p \<longleftrightarrow> is_local p \<and> path_clean p = p \<and> p \<noteq> ''.'' \<and> ''..'' \<notin> set (split_on CHR ''/'' p) \<and> single_line p"

lemma trim_right_split: "\<exists>n. s = trim_right_by (\<lambda>x. x = c) s @ replicate n c"
proof (induction s rule: rev_induct)
  case (snoc x s)
  show ?case
  proof (cases "x = c")
    case True
    obtain n where "s = trim_right_by (\<lambda>x. x = c) s @ replicate n c" using snoc by blast
    then have "s @ [x] = trim_right_by (\<lambda>x. x = c) (s @ [x]) @ replicate (Suc n) c"
      using True by (simp add: trim_right_by_def) (metis append.assoc replicate_append_same)
    then show ?thesis by blast
  qed (simp add: trim_right_by_def)
qed (simp add: trim_right_by_def)

lemma relative_path_accepted:
  assumes "validate_relative_path d s = Ok p"
  shows "project_path p \<and> (\<exists>n. s = p @ replicate n CHR ''/'')"
proof -
  let ?p = "trim_right_slashes s"
  have v: "bind_res (require_text d s) (\<lambda>_. if has_prefix s ''/'' then Err (NotRelative d)
    else if list_ex (\<lambda>segment. segment = ''..'') (split_on CHR ''/'' s) then Err (ParentSegment d)
    else if ?p = ''.'' \<or> path_clean ?p \<noteq> ?p \<or> \<not> is_local ?p then Err (NotCleanPath d s) else Ok ?p) = Ok p"
    using assms unfolding validate_relative_path_def Let_def .
  have h0: "single_line s" "\<not> list_ex (\<lambda>segment. segment = ''..'') (split_on CHR ''/'' s)"
    "\<not> (?p = ''.'' \<or> path_clean ?p \<noteq> ?p \<or> \<not> is_local ?p)" "p = ?p"
    using v unfolding bind_res_Ok by (simp_all only: accepted split: if_splits) simp_all
  then have h: "single_line s" "''..'' \<notin> set (split_on CHR ''/'' s)" "p \<noteq> ''.''" "path_clean p = p" "is_local p"
    by (simp_all add: list_ex_iff)
  obtain n where n: "s = p @ replicate n CHR ''/''"
    using trim_right_split [of s "CHR ''/''"] unfolding h0(4) trim_right_slashes_def by blast
  have "single_line p" using h(1) n by (auto simp: single_line_def contains_any_iff)
  moreover have "set (split_on CHR ''/'' p) \<subseteq> set (split_on CHR ''/'' s)"
  proof (cases n)
    case (Suc m)
    have "s = p @ CHR ''/'' # replicate m CHR ''/''" using n Suc by simp
    then show ?thesis using split_on_concat [of "CHR ''/''" p "replicate m CHR ''/''"] by simp
  qed (use n in simp)
  ultimately show ?thesis using h n unfolding project_path_def by blast
qed

end
