(* ===== verification/Config.thy ===== *)
theory Config
  imports Config_Values
begin

text \<open>
  \<open>internal/config\<close>: the overrides from the environment, the project file, the global file, and the order in which
  they apply.

  TOML decoding is a parameter: it gives the typed tables and the keys that no field took. The environment is
  a function from names to optional values. The properties say that accepted overrides and an accepted project
  file are well formed, in particular that no two shadowed directories share a directory on the host.
\<close>

section \<open>Overrides\<close>

definition default_domain :: string where "default_domain = ''prison''"
definition default_network :: string where "default_network = ''prison''"
definition default_broker_port_number :: int where "default_broker_port_number = 8787"
definition default_port_base :: int where "default_port_base = 40000"
definition default_port_limit :: int where "default_port_limit = 40100"
definition default_root_folder :: string where "default_root_folder = ''.prison''"

record overrides =
  ov_inmates :: "string list option"
  ov_pager :: "string option"
  ov_diff_tool :: "string option"
  ov_cpus :: "int option"
  ov_memory :: "string option"
  ov_sudo :: "bool option"
  ov_ports :: "int list option"
  ov_image :: string
  ov_foundation :: string
  ov_root :: string
  ov_domain :: string
  ov_network :: string
  ov_broker_port :: int
  ov_port_base :: int
  ov_port_limit :: int

type_synonym environment = "string \<Rightarrow> string option"

definition value_of :: "environment \<Rightarrow> string \<Rightarrow> string" where
  "value_of env name = (case env name of None \<Rightarrow> [] | Some v \<Rightarrow> trim_space v)"

definition parse_number :: "string \<Rightarrow> string \<Rightarrow> (config_error, int) result" where
  "parse_number description number_text =
     (case atoi number_text of None \<Rightarrow> Err (NotNumber number_text description) | Some n \<Rightarrow> Ok n)"

definition number_or :: "environment \<Rightarrow> string \<Rightarrow> int \<Rightarrow> (config_error, int) result" where
  "number_or env name fallback =
     (let number_text = value_of env name in
      if number_text = [] then Ok fallback else parse_number name number_text)"

definition read_inmates :: "environment \<Rightarrow> overrides \<Rightarrow> (config_error, overrides) result" where
  "read_inmates env ov =
     (case env ''PRISON_INMATES'' of None \<Rightarrow> Ok ov
      | Some names \<Rightarrow> (case check_all (validate_name ''inmate'') (Go_Prelude.fields names) of
          Err e \<Rightarrow> Err (InVariable ''PRISON_INMATES'' e) | Ok _ \<Rightarrow> Ok (ov\<lparr>ov_inmates := Some (Go_Prelude.fields names)\<rparr>)))"

definition read_cpus :: "environment \<Rightarrow> overrides \<Rightarrow> (config_error, overrides) result" where
  "read_cpus env ov =
     (let number_text = value_of env ''PRISON_CPUS'' in
      if number_text = [] then Ok ov
      else bind_res (parse_number ''PRISON_CPUS'' number_text) (\<lambda>count.
        bind_res (validate_cpu_count ''PRISON_CPUS'' count) (\<lambda>_. Ok (ov\<lparr>ov_cpus := Some count\<rparr>))))"

definition read_memory :: "environment \<Rightarrow> overrides \<Rightarrow> (config_error, overrides) result" where
  "read_memory env ov =
     (let memory = value_of env ''PRISON_MEMORY'' in
      if memory = [] then Ok ov
      else bind_res (validate_memory_size ''PRISON_MEMORY'' memory) (\<lambda>_. Ok (ov\<lparr>ov_memory := Some memory\<rparr>)))"

definition read_sudo :: "environment \<Rightarrow> overrides \<Rightarrow> overrides" where
  "read_sudo env ov = (case env ''PRISON_SUDO'' of None \<Rightarrow> ov | Some v \<Rightarrow> ov\<lparr>ov_sudo := Some (v = ''1'')\<rparr>)"

definition read_port :: "string \<Rightarrow> (config_error, int) result" where
  "read_port field =
     bind_res (parse_number ''PRISON_PORTS'' field) (\<lambda>port.
       bind_res (validate_port ''every port in PRISON_PORTS'' port) (\<lambda>_. Ok port))"

definition read_ports :: "environment \<Rightarrow> overrides \<Rightarrow> (config_error, overrides) result" where
  "read_ports env ov =
     (case env ''PRISON_PORTS'' of None \<Rightarrow> Ok ov
      | Some v \<Rightarrow> bind_res (map_res read_port (Go_Prelude.fields v)) (\<lambda>ports. Ok (ov\<lparr>ov_ports := Some ports\<rparr>)))"

definition read_box_shape :: "environment \<Rightarrow> overrides \<Rightarrow> (config_error, overrides) result" where
  "read_box_shape env ov =
     bind_res (read_cpus env ov) (\<lambda>ov1. bind_res (read_memory env ov1) (\<lambda>ov2. read_ports env (read_sudo env ov2)))"

definition read_checkpoint_tools :: "environment \<Rightarrow> overrides \<Rightarrow> (config_error, overrides) result" where
  "read_checkpoint_tools env ov =
     bind_res (case env ''PRISON_PAGER'' of None \<Rightarrow> Ok ov
       | Some v \<Rightarrow> bind_res (require_single_line ''PRISON_PAGER'' v) (\<lambda>_. Ok (ov\<lparr>ov_pager := Some v\<rparr>))) (\<lambda>ov1.
       case env ''PRISON_DIFF_TOOL'' of None \<Rightarrow> Ok ov1
       | Some v \<Rightarrow> bind_res (require_single_line ''PRISON_DIFF_TOOL'' v) (\<lambda>_. Ok (ov1\<lparr>ov_diff_tool := Some v\<rparr>)))"

definition read_root :: "environment \<Rightarrow> (config_error, string) result" where
  "read_root env =
     bind_res (let explicit = value_of env ''PRISON_ROOT'' in
       if explicit \<noteq> [] then Ok explicit
       else (let home = value_of env ''HOME'' in
         if home = [] then Err HomeNotSet else Ok (path_join [home, default_root_folder]))) (\<lambda>root.
       bind_res (require_text ''PRISON_ROOT'' root) (\<lambda>_. Ok root))"

definition text_or :: "environment \<Rightarrow> string \<Rightarrow> string \<Rightarrow> (config_error, string) result" where
  "text_or env name fallback =
     (let v = value_of env name in if v = [] then Ok fallback else bind_res (require_text name v) (\<lambda>_. Ok v))"

definition port_or :: "environment \<Rightarrow> string \<Rightarrow> int \<Rightarrow> (config_error, int) result" where
  "port_or env name fallback = bind_res (number_or env name fallback) (\<lambda>n. bind_res (validate_port name n) (\<lambda>_. Ok n))"

definition read_host_placement :: "environment \<Rightarrow> overrides \<Rightarrow> (config_error, overrides) result" where
  "read_host_placement env ov =
     bind_res (read_root env) (\<lambda>root.
     bind_res (text_or env ''PRISON_DOMAIN'' (ov_domain ov)) (\<lambda>domain.
     bind_res (text_or env ''PRISON_NETWORK'' (ov_network ov)) (\<lambda>network.
     bind_res (port_or env ''PRISON_BROKER_PORT'' default_broker_port_number) (\<lambda>broker_port.
     bind_res (port_or env ''PRISON_PORT_BASE'' default_port_base) (\<lambda>base.
     bind_res (port_or env ''PRISON_PORT_LIMIT'' default_port_limit) (\<lambda>limit.
       if base > limit then Err (PortsReversed base limit)
       else Ok (ov\<lparr>ov_root := root, ov_domain := domain, ov_network := network, ov_broker_port := broker_port,
         ov_port_base := base, ov_port_limit := limit\<rparr>)))))))"

definition read_overrides :: "environment \<Rightarrow> (config_error, overrides) result" where
  "read_overrides env =
     (let ov = \<lparr>ov_inmates = None, ov_pager = None, ov_diff_tool = None, ov_cpus = None, ov_memory = None, ov_sudo = None,
            ov_ports = None, ov_image = value_of env ''PRISON_IMAGE'', ov_foundation = value_of env ''PRISON_FOUNDATION'',
            ov_root = [], ov_domain = default_domain, ov_network = default_network, ov_broker_port = 0, ov_port_base = 0,
            ov_port_limit = 0\<rparr>
      in bind_res (read_inmates env ov) (\<lambda>ov1. bind_res (read_box_shape env ov1) (\<lambda>ov2.
         bind_res (read_checkpoint_tools env ov2) (\<lambda>ov3. read_host_placement env ov3))))"

section \<open>The project file\<close>

record project_config =
  pc_inmates :: "string list option"
  pc_cpus :: "int option"
  pc_memory :: "string option"
  pc_ports :: "int list option"
  pc_sudo :: "bool option"
  pc_shadow :: "string list"
  pc_commands :: "string list"
  pc_ignore :: "string list"
  pc_hosts :: "string list"
  pc_require :: "string list"
  pc_environment :: "(string \<times> string) list"

datatype raw_value = RawText string | RawInt int | RawBool bool | RawOther

text \<open>A decoded file: the tables, the raw environment, and the keys that were not decoded, each with whether
  it is a table.\<close>

record 'a toml_document =
  td_value :: 'a
  td_environment :: "(string \<times> raw_value) list"
  td_undecoded :: "(string list \<times> bool) list"

type_synonym schema = "(string \<times> string list option) list"

definition project_schema :: schema where
  "project_schema = [(''prison'', Some [''inmates'']), (''box'', Some [''cpus'', ''memory'', ''ports'', ''sudo'', ''shadow'']),
     (''setup'', Some [''commands'']), (''checkpoint'', Some [''ignore'']), (''egress'', Some [''hosts'']),
     (''secrets'', Some [''require'']), (''environment'', None)]"

definition refuse_unknown_key :: "schema \<Rightarrow> string list \<times> bool \<Rightarrow> (config_error, unit) result" where
  "refuse_unknown_key schema undecoded = (case undecoded of (key, is_table) \<Rightarrow>
     (case map_of schema (hd key) of
        None \<Rightarrow> Err (if is_table then UnknownTable (hd key) else UnknownKeyOutsideTable (hd key))
      | Some None \<Rightarrow> Ok ()
      | Some (Some accepted) \<Rightarrow> if length key < 2 then Ok () else Err (UnknownKeyInTable (key ! 1) (hd key))))"

definition decode_text :: "string \<Rightarrow> (string \<Rightarrow> 'a toml_document option) \<Rightarrow> schema \<Rightarrow> string \<Rightarrow> (config_error, 'a toml_document) result" where
  "decode_text path decode schema content =
     (case decode content of None \<Rightarrow> Err (Unusable path NotToml)
      | Some doc \<Rightarrow> (case check_all (refuse_unknown_key schema) (td_undecoded doc) of
          Err e \<Rightarrow> Err (Unusable path e) | Ok _ \<Rightarrow> Ok doc))"

definition environment_text :: "string \<Rightarrow> raw_value \<Rightarrow> (config_error, string) result" where
  "environment_text name v = (case v of
       RawText s \<Rightarrow> Ok s
     | RawInt i \<Rightarrow> Ok (itoa i)
     | RawBool b \<Rightarrow> Ok (if b then ''true'' else ''false'')
     | RawOther \<Rightarrow> Err (NotEnvironmentValue name))"

definition read_variable :: "(string \<times> raw_value) list \<Rightarrow> string \<Rightarrow> (config_error, string \<times> string) result" where
  "read_variable table name =
     bind_res (validate_box_environment_name name) (\<lambda>_.
     bind_res (environment_text name (case map_of table name of None \<Rightarrow> RawOther | Some v \<Rightarrow> v)) (\<lambda>v.
     bind_res (require_single_line (''environment.'' @ name) v) (\<lambda>_. Ok (name, v))))"

definition read_environment :: "(string \<times> raw_value) list \<Rightarrow> (config_error, (string \<times> string) list) result" where
  "read_environment table = map_res (read_variable table) (sorted_keys table)"

definition flatten_path :: "string \<Rightarrow> string" where
  "flatten_path p = replace_char CHR ''/'' CHR ''_'' p"

text \<open>The loop over the shadow paths, with the cleaned paths so far under their flattened names.\<close>

fun validate_shadow :: "(string \<times> string) list \<Rightarrow> string list \<Rightarrow> (config_error, string list) result" where
  "validate_shadow seen [] = Ok []"
| "validate_shadow seen (p # ps) =
     bind_res (validate_relative_path ''every entry in box.shadow'' p) (\<lambda>cleaned.
       if cleaned = ''.git'' \<or> has_prefix cleaned ''.git/'' then Err ShadowsGit
       else (case map_of seen (flatten_path cleaned) of
           Some other \<Rightarrow> Err (SameShadowDirectory other cleaned)
         | None \<Rightarrow> bind_res (validate_shadow ((flatten_path cleaned, cleaned) # seen) ps) (\<lambda>cs. Ok (cleaned # cs))))"

definition validate_optional :: "('a \<Rightarrow> (config_error, unit) result) \<Rightarrow> 'a option \<Rightarrow> (config_error, unit) result" where
  "validate_optional f v = (case v of None \<Rightarrow> Ok () | Some x \<Rightarrow> f x)"

definition validate_box :: "project_config \<Rightarrow> (config_error, project_config) result" where
  "validate_box pc =
     bind_res (validate_optional (validate_cpu_count ''box.cpus'') (pc_cpus pc)) (\<lambda>_.
     bind_res (validate_optional (validate_memory_size ''box.memory'') (pc_memory pc)) (\<lambda>_.
     bind_res (validate_optional (check_all (validate_port ''every entry in box.ports'')) (pc_ports pc)) (\<lambda>_.
     bind_res (validate_shadow [] (pc_shadow pc)) (\<lambda>shadow. Ok (pc\<lparr>pc_shadow := shadow\<rparr>)))))"

definition secret_name_the_broker_uses :: string where "secret_name_the_broker_uses = ''prison''"

definition validate_required_secret :: "string \<Rightarrow> (config_error, unit) result" where
  "validate_required_secret name =
     bind_res (validate_name ''secret'' name) (\<lambda>_.
       if name = secret_name_the_broker_uses then Err (ReservedSecretName name) else Ok ())"

definition validate_ignore_entry :: "string \<Rightarrow> (config_error, unit) result" where
  "validate_ignore_entry entry = bind_res (validate_relative_path ''every entry in checkpoint.ignore'' entry) (\<lambda>_. Ok ())"

definition validate_egress_host :: "string \<Rightarrow> (config_error, unit) result" where
  "validate_egress_host host =
     bind_res (require_text ''every entry in egress.hosts'' host) (\<lambda>_.
       case parse_pattern host of Err e \<Rightarrow> Err (BadEgressHost e) | Ok _ \<Rightarrow> Ok ())"

definition validate_project :: "project_config \<Rightarrow> (config_error, project_config) result" where
  "validate_project pc =
     bind_res (validate_optional (check_all (validate_name ''inmate'')) (pc_inmates pc)) (\<lambda>_.
     bind_res (validate_box pc) (\<lambda>pc1.
     bind_res (check_all (require_text ''every setup command'') (pc_commands pc)) (\<lambda>_.
     bind_res (check_all validate_ignore_entry (pc_ignore pc)) (\<lambda>_.
     bind_res (check_all validate_egress_host (pc_hosts pc)) (\<lambda>_.
     bind_res (check_all validate_required_secret (pc_require pc)) (\<lambda>_. Ok pc1))))))"

definition unusable :: "string \<Rightarrow> (config_error, 'a) result \<Rightarrow> (config_error, 'a) result" where
  "unusable path r = (case r of Err e \<Rightarrow> Err (Unusable path e) | Ok x \<Rightarrow> Ok x)"

definition load_project_config ::
  "(string \<Rightarrow> project_config toml_document option) \<Rightarrow> string \<Rightarrow> string \<Rightarrow> (config_error, project_config) result" where
  "load_project_config decode path content =
     bind_res (decode_text path decode project_schema content) (\<lambda>doc.
     bind_res (unusable path (read_environment (td_environment doc))) (\<lambda>env.
       unusable path (validate_project ((td_value doc)\<lparr>pc_environment := env\<rparr>))))"

section \<open>The global file\<close>

record global_config =
  gl_inmates :: "string list option"
  gl_pager :: "string option"
  gl_diff_tool :: "string option"

definition no_global :: global_config where
  "no_global = \<lparr>gl_inmates = None, gl_pager = None, gl_diff_tool = None\<rparr>"

definition global_schema :: schema where
  "global_schema = [(''prison'', Some [''inmates'']), (''checkpoint'', Some [''pager'', ''diff_tool''])]"

definition validate_global :: "global_config \<Rightarrow> (config_error, unit) result" where
  "validate_global g =
     bind_res (validate_optional (check_all (validate_name ''inmate'')) (gl_inmates g)) (\<lambda>_.
     bind_res (validate_optional (require_single_line ''checkpoint.pager'') (gl_pager g)) (\<lambda>_.
       validate_optional (require_single_line ''checkpoint.diff_tool'') (gl_diff_tool g)))"

text \<open>The content of the file: \<open>None\<close> when it is missing, an error when it cannot be read.\<close>

definition load_global ::
  "(string \<Rightarrow> global_config toml_document option) \<Rightarrow> string \<Rightarrow> string option option \<Rightarrow> (config_error, global_config) result" where
  "load_global decode path content = (case content of
       None \<Rightarrow> Ok no_global
     | Some None \<Rightarrow> Err (Unusable path CannotReadConfig)
     | Some (Some file_text) \<Rightarrow>
         bind_res (decode_text path decode global_schema file_text) (\<lambda>doc.
         bind_res (unusable path (validate_global (td_value doc))) (\<lambda>_. Ok (td_value doc))))"

section \<open>Precedence\<close>

definition first_set :: "'a option list \<Rightarrow> 'a \<Rightarrow> 'a" where
  "first_set vs fallback = (case find (\<lambda>v. v \<noteq> None) vs of Some (Some x) \<Rightarrow> x | _ \<Rightarrow> fallback)"

definition resolve_inmates :: "overrides \<Rightarrow> project_config option \<Rightarrow> global_config \<Rightarrow> string list" where
  "resolve_inmates ov pc g = first_set [ov_inmates ov, Option.bind pc pc_inmates, gl_inmates g] []"

definition resolve_cpus :: "overrides \<Rightarrow> project_config option \<Rightarrow> int" where
  "resolve_cpus ov pc = first_set [ov_cpus ov, Option.bind pc pc_cpus] default_cpus"

definition resolve_memory :: "overrides \<Rightarrow> project_config option \<Rightarrow> string" where
  "resolve_memory ov pc = first_set [ov_memory ov, Option.bind pc pc_memory] default_memory"

definition resolve_sudo :: "overrides \<Rightarrow> project_config option \<Rightarrow> bool" where
  "resolve_sudo ov pc = first_set [ov_sudo ov, Option.bind pc pc_sudo] False"

definition resolve_ports :: "overrides \<Rightarrow> project_config option \<Rightarrow> int list \<times> bool" where
  "resolve_ports ov pc =
     first_set [map_option (\<lambda>ps. (ps, True)) (ov_ports ov), map_option (\<lambda>ps. (ps, True)) (Option.bind pc pc_ports)] (default_guest_ports, False)"

definition fallback_pager :: string where "fallback_pager = ''less -R''"

definition resolve_pager :: "overrides \<Rightarrow> global_config \<Rightarrow> environment \<Rightarrow> bool \<Rightarrow> string" where
  "resolve_pager ov g env has_less =
     first_set [ov_pager ov, gl_pager g, map_option trim_space (env ''PAGER'')] (if has_less then fallback_pager else [])"

definition resolve_diff_tool :: "overrides \<Rightarrow> global_config \<Rightarrow> string" where
  "resolve_diff_tool ov g = first_set [ov_diff_tool ov, gl_diff_tool g] []"

section \<open>Accepted overrides\<close>

definition port_number :: "int \<Rightarrow> bool" where "port_number n \<longleftrightarrow> 1 \<le> n \<and> n \<le> 65535"

definition option_all :: "('a \<Rightarrow> bool) \<Rightarrow> 'a option \<Rightarrow> bool" where
  "option_all p v = (case v of None \<Rightarrow> True | Some x \<Rightarrow> p x)"

lemma option_all_simps [simp]: "option_all p None" "option_all p (Some x) = p x"
  by (simp_all add: option_all_def)

definition overrides_ok :: "overrides \<Rightarrow> bool" where
  "overrides_ok ov \<longleftrightarrow> option_all (list_all name_pattern) (ov_inmates ov) \<and> option_all single_line (ov_pager ov) \<and>
     option_all single_line (ov_diff_tool ov) \<and> option_all (\<lambda>n. 1 \<le> n \<and> n \<le> 32) (ov_cpus ov) \<and>
     option_all memory_size_pattern (ov_memory ov) \<and> option_all (list_all port_number) (ov_ports ov) \<and>
     trim_space (ov_root ov) \<noteq> [] \<and> single_line (ov_root ov) \<and> single_line (ov_domain ov) \<and> ov_domain ov \<noteq> [] \<and>
     single_line (ov_network ov) \<and> ov_network ov \<noteq> [] \<and>
     port_number (ov_broker_port ov) \<and> port_number (ov_port_base ov) \<and> port_number (ov_port_limit ov) \<and>
     ov_port_base ov \<le> ov_port_limit ov"

lemma port_or_Ok: "port_or env name fallback = Ok n \<Longrightarrow> port_number n"
  by (auto simp: port_or_def bind_res_Ok port_number_def)

lemma text_or_Ok: "text_or env name fallback = Ok v \<Longrightarrow> single_line fallback \<Longrightarrow> fallback \<noteq> [] \<Longrightarrow> single_line v \<and> v \<noteq> []"
  by (auto simp: text_or_def bind_res_Ok Let_def split: if_splits)

lemma read_root_Ok: "read_root env = Ok v \<Longrightarrow> single_line v \<and> trim_space v \<noteq> []"
  by (auto simp: read_root_def bind_res_Ok)

lemma read_ports_Ok: "map_res read_port vs = Ok ps \<Longrightarrow> list_all port_number ps"
  unfolding map_res_Ok
  by (induction vs ps rule: list_all2_induct) (auto simp: read_port_def bind_res_Ok port_number_def)

lemma reader_results:
  "read_inmates env ov = Ok ov' \<Longrightarrow> \<exists>v. ov' = ov\<lparr>ov_inmates := v\<rparr> \<and> (v = ov_inmates ov \<or> option_all (list_all name_pattern) v)"
  "read_cpus env ov = Ok ov' \<Longrightarrow> \<exists>v. ov' = ov\<lparr>ov_cpus := v\<rparr> \<and> (v = ov_cpus ov \<or> option_all (\<lambda>n. 1 \<le> n \<and> n \<le> 32) v)"
  "read_memory env ov = Ok ov' \<Longrightarrow> \<exists>v. ov' = ov\<lparr>ov_memory := v\<rparr> \<and> (v = ov_memory ov \<or> option_all memory_size_pattern v)"
  "\<exists>v. read_sudo env ov = ov\<lparr>ov_sudo := v\<rparr>"
  "read_ports env ov = Ok ov' \<Longrightarrow> \<exists>v. ov' = ov\<lparr>ov_ports := v\<rparr> \<and> (v = ov_ports ov \<or> option_all (list_all port_number) v)"
proof -
  show "\<exists>v. ov' = ov\<lparr>ov_inmates := v\<rparr> \<and> (v = ov_inmates ov \<or> option_all (list_all name_pattern) v)"
    if "read_inmates env ov = Ok ov'"
  proof (cases "env ''PRISON_INMATES''")
    case None
    then have "ov' = ov\<lparr>ov_inmates := ov_inmates ov\<rparr>" using that by (simp add: read_inmates_def)
    then show ?thesis by blast
  next
    case (Some names)
    then have "ov' = ov\<lparr>ov_inmates := Some (Go_Prelude.fields names)\<rparr>" "list_all name_pattern (Go_Prelude.fields names)"
      using that by (auto simp: read_inmates_def check_all_Ok list_all_iff split: sum.splits)
    then show ?thesis by auto
  qed
  show "\<exists>v. ov' = ov\<lparr>ov_cpus := v\<rparr> \<and> (v = ov_cpus ov \<or> option_all (\<lambda>n. 1 \<le> n \<and> n \<le> 32) v)"
    if "read_cpus env ov = Ok ov'"
  proof (cases "value_of env ''PRISON_CPUS'' = []")
    case True
    then have "ov' = ov\<lparr>ov_cpus := ov_cpus ov\<rparr>" using that by (simp add: read_cpus_def)
    then show ?thesis by blast
  qed (use that in \<open>auto simp: read_cpus_def bind_res_Ok Let_def\<close>)
  show "\<exists>v. ov' = ov\<lparr>ov_memory := v\<rparr> \<and> (v = ov_memory ov \<or> option_all memory_size_pattern v)"
    if "read_memory env ov = Ok ov'"
  proof (cases "value_of env ''PRISON_MEMORY'' = []")
    case True
    then have "ov' = ov\<lparr>ov_memory := ov_memory ov\<rparr>" using that by (simp add: read_memory_def)
    then show ?thesis by blast
  qed (use that in \<open>auto simp: read_memory_def bind_res_Ok Let_def\<close>)
  show "\<exists>v. read_sudo env ov = ov\<lparr>ov_sudo := v\<rparr>"
  proof (cases "env ''PRISON_SUDO''")
    case None
    then have "read_sudo env ov = ov\<lparr>ov_sudo := ov_sudo ov\<rparr>" by (simp add: read_sudo_def)
    then show ?thesis by blast
  qed (auto simp: read_sudo_def)
  show "\<exists>v. ov' = ov\<lparr>ov_ports := v\<rparr> \<and> (v = ov_ports ov \<or> option_all (list_all port_number) v)"
    if h: "read_ports env ov = Ok ov'"
  proof (cases "env ''PRISON_PORTS''")
    case None
    then have "ov' = ov\<lparr>ov_ports := ov_ports ov\<rparr>" using that by (simp add: read_ports_def)
    then show ?thesis by blast
  next
    case (Some v)
    then obtain ps where p: "map_res read_port (Go_Prelude.fields v) = Ok ps" "ov' = ov\<lparr>ov_ports := Some ps\<rparr>"
      using h by (auto simp: read_ports_def bind_res_Ok)
    then have "option_all (list_all port_number) (Some ps)" using read_ports_Ok by simp
    then show ?thesis using p(2) by blast
  qed
qed

lemma read_tools_result:
  assumes "read_checkpoint_tools env ov = Ok ov'"
  shows "\<exists>v w. ov' = ov\<lparr>ov_pager := v, ov_diff_tool := w\<rparr> \<and> (v = ov_pager ov \<or> option_all single_line v) \<and>
    (w = ov_diff_tool ov \<or> option_all single_line w)"
proof -
  let ?pager = "env ''PRISON_PAGER''" and ?tool = "env ''PRISON_DIFF_TOOL''"
  let ?v = "if ?pager = None then ov_pager ov else ?pager" and ?w = "if ?tool = None then ov_diff_tool ov else ?tool"
  have "ov' = ov\<lparr>ov_pager := ?v, ov_diff_tool := ?w\<rparr>" "?v = ov_pager ov \<or> option_all single_line ?v"
    "?w = ov_diff_tool ov \<or> option_all single_line ?w"
    using assms by (cases ?pager; cases ?tool; simp add: read_checkpoint_tools_def bind_res_Ok; force)+
  then show ?thesis by blast
qed

text \<open>Accepted overrides are well formed: names, sizes and single lines have their form, all ports are
  port numbers, the port range is not reversed, and the state root is not empty.\<close>

theorem overrides_well_formed:
  assumes "read_overrides env = Ok ov"
  shows "overrides_ok ov"
proof -
  define ov0 where "ov0 = \<lparr>ov_inmates = None, ov_pager = None, ov_diff_tool = None, ov_cpus = None, ov_memory = None, ov_sudo = None,
            ov_ports = None, ov_image = value_of env ''PRISON_IMAGE'', ov_foundation = value_of env ''PRISON_FOUNDATION'',
            ov_root = [], ov_domain = default_domain, ov_network = default_network, ov_broker_port = 0, ov_port_base = 0,
            ov_port_limit = 0\<rparr>"
  obtain ov1 ov2 ov3 where r: "read_inmates env ov0 = Ok ov1" "read_box_shape env ov1 = Ok ov2"
    "read_checkpoint_tools env ov2 = Ok ov3" "read_host_placement env ov3 = Ok ov"
    using assms unfolding read_overrides_def Let_def ov0_def [symmetric] bind_res_Ok by blast
  obtain o1 o2 where b: "read_cpus env ov1 = Ok o1" "read_memory env o1 = Ok o2" "read_ports env (read_sudo env o2) = Ok ov2"
    using r(2) unfolding read_box_shape_def bind_res_Ok by blast
  obtain i c m s p where v: "ov1 = ov0\<lparr>ov_inmates := i\<rparr>" "i = None \<or> option_all (list_all name_pattern) i"
    "o1 = ov1\<lparr>ov_cpus := c\<rparr>" "c = None \<or> option_all (\<lambda>n. 1 \<le> n \<and> n \<le> 32) c"
    "o2 = o1\<lparr>ov_memory := m\<rparr>" "m = None \<or> option_all memory_size_pattern m"
    "ov2 = o2\<lparr>ov_sudo := s, ov_ports := p\<rparr>" "p = None \<or> option_all (list_all port_number) p"
    using reader_results(1) [OF r(1)] reader_results(2) [OF b(1)] reader_results(3) [OF b(2)] reader_results(4) [of env o2]
      reader_results(5) [OF b(3)] by (auto simp: ov0_def)
  obtain g d where t: "ov3 = ov2\<lparr>ov_pager := g, ov_diff_tool := d\<rparr>" "g = None \<or> option_all single_line g" "d = None \<or> option_all single_line d"
    using read_tools_result [OF r(3)] by (auto simp: v ov0_def)
  have lines: "single_line default_domain" "single_line default_network" "default_domain \<noteq> []" "default_network \<noteq> []"
    by (simp_all add: single_line_def default_domain_def default_network_def contains_any_def forbidden_value_characters_def)
  obtain root domain network bp pb pl where h: "read_root env = Ok root" "text_or env ''PRISON_DOMAIN'' default_domain = Ok domain"
    "text_or env ''PRISON_NETWORK'' default_network = Ok network" "port_number bp" "port_number pb" "port_number pl" "pb \<le> pl"
    "ov = ov3\<lparr>ov_root := root, ov_domain := domain, ov_network := network, ov_broker_port := bp, ov_port_base := pb, ov_port_limit := pl\<rparr>"
    using r(4) by (auto simp: read_host_placement_def bind_res_Ok t v ov0_def split: if_splits dest!: port_or_Ok)
  show ?thesis
    using v(2,4,6,8) t(2,3) h(4-7) read_root_Ok [OF h(1)] text_or_Ok [OF h(2) lines(1,3)] text_or_Ok [OF h(3) lines(2,4)]
    by (auto simp: overrides_ok_def h(8) t(1) v(1,3,5,7) ov0_def)
qed

section \<open>An accepted project file\<close>

definition shadows_git :: "string \<Rightarrow> bool" where
  "shadows_git p \<longleftrightarrow> p = ''.git'' \<or> has_prefix p ''.git/''"

lemma validate_shadow_Ok:
  "validate_shadow seen ps = Ok cs \<Longrightarrow> list_all project_path cs \<and> list_all (\<lambda>c. \<not> shadows_git c) cs \<and>
     distinct (map flatten_path cs) \<and> flatten_path ` set cs \<inter> fst ` set seen = {}"
proof (induction ps arbitrary: seen cs)
  case (Cons p ps)
  obtain c where c: "validate_relative_path ''every entry in box.shadow'' p = Ok c"
    and r: "(if c = ''.git'' \<or> has_prefix c ''.git/'' then Err ShadowsGit
       else (case map_of seen (flatten_path c) of Some other \<Rightarrow> Err (SameShadowDirectory other c)
         | None \<Rightarrow> bind_res (validate_shadow ((flatten_path c, c) # seen) ps) (\<lambda>cs. Ok (c # cs)))) = Ok cs"
    using Cons.prems unfolding validate_shadow.simps bind_res_Ok by blast
  have g: "\<not> shadows_git c" using r unfolding shadows_git_def by (auto split: if_splits)
  with r have r: "(case map_of seen (flatten_path c) of Some other \<Rightarrow> Err (SameShadowDirectory other c)
         | None \<Rightarrow> bind_res (validate_shadow ((flatten_path c, c) # seen) ps) (\<lambda>cs. Ok (c # cs))) = Ok cs"
    unfolding shadows_git_def by (simp only: if_False)
  then obtain cs' where cs: "map_of seen (flatten_path c) = None" "validate_shadow ((flatten_path c, c) # seen) ps = Ok cs'" "cs = c # cs'"
    by (cases "map_of seen (flatten_path c)") (auto simp: bind_res_Ok)
  have "flatten_path ` set cs' \<inter> insert (flatten_path c) (fst ` set seen) = {}" and i: "list_all project_path cs'"
    "list_all (\<lambda>c. \<not> shadows_git c) cs'" "distinct (map flatten_path cs')"
    using Cons.IH [OF cs(2)] by simp_all
  then have "flatten_path c \<notin> flatten_path ` set cs'" "flatten_path ` set cs' \<inter> fst ` set seen = {}" by blast+
  moreover have "flatten_path c \<notin> fst ` set seen" using cs(1) by (simp add: map_of_eq_None_iff)
  ultimately show ?case using relative_path_accepted [OF c] g i cs(3) by simp
qed auto

definition project_config_ok :: "project_config \<Rightarrow> bool" where
  "project_config_ok pc \<longleftrightarrow> option_all (list_all name_pattern) (pc_inmates pc) \<and> option_all (\<lambda>n. 1 \<le> n \<and> n \<le> 32) (pc_cpus pc) \<and>
     option_all memory_size_pattern (pc_memory pc) \<and> option_all (list_all port_number) (pc_ports pc) \<and>
     list_all project_path (pc_shadow pc) \<and> list_all (\<lambda>c. \<not> shadows_git c) (pc_shadow pc) \<and>
     distinct (map flatten_path (pc_shadow pc)) \<and> list_all (\<lambda>c. trim_space c \<noteq> [] \<and> single_line c) (pc_commands pc) \<and>
     list_all (\<lambda>p. project_path (trim_right_slashes p)) (pc_ignore pc) \<and>
     list_all (\<lambda>h. is_ok (parse_pattern h) \<and> single_line h) (pc_hosts pc) \<and>
     list_all (\<lambda>n. name_pattern n \<and> n \<noteq> secret_name_the_broker_uses) (pc_require pc) \<and>
     distinct (map fst (pc_environment pc)) \<and> list_all (\<lambda>(n, v). box_environment_name n \<and> single_line v) (pc_environment pc)"

lemma validate_optional_Ok: "validate_optional f v = Ok u \<Longrightarrow> option_all (\<lambda>x. f x = Ok ()) v"
  by (cases v) (simp_all add: validate_optional_def)

lemma validate_ignore_entry_Ok:
  assumes "validate_ignore_entry s = Ok u"
  shows "project_path (trim_right_slashes s)"
proof -
  obtain d p where p: "validate_relative_path d s = Ok p" using assms by (auto simp: validate_ignore_entry_def bind_res_Ok)
  then have "p = trim_right_slashes s" by (auto simp: validate_relative_path_def bind_res_Ok Let_def split: if_splits)
  then show ?thesis using relative_path_accepted [OF p] by simp
qed

lemma unusable_Ok: "unusable path r = Ok x \<longleftrightarrow> r = Ok x"
  by (cases r) (simp_all add: unusable_def)

lemma read_environment_Ok:
  assumes "read_environment table = Ok env"
  shows "distinct (map fst env) \<and> list_all (\<lambda>(n, v). box_environment_name n \<and> single_line v) env"
proof -
  have r: "list_all2 (\<lambda>n e. read_variable table n = Ok e) (sorted_keys table) env" using assms by (simp add: read_environment_def map_res_Ok)
  have one: "read_variable table n = Ok e \<Longrightarrow> fst e = n \<and> box_environment_name n \<and> single_line (snd e)" for n e
    by (auto simp: read_variable_def bind_res_Ok)
  have "map fst env = sorted_keys table \<and> list_all (\<lambda>(n, v). box_environment_name n \<and> single_line v) env"
    using r by (induction rule: list_all2_induct) (auto dest!: one)
  moreover have "distinct (sorted_keys table)" by (simp add: sorted_keys_def)
  ultimately show ?thesis by simp
qed

lemma loaded_config_ok:
  assumes "load_project_config decode path content = Ok pc"
  shows "project_config_ok pc"
proof -
  obtain doc :: "project_config toml_document" and env where d: "read_environment (td_environment doc) = Ok env"
    "validate_project ((td_value doc)\<lparr>pc_environment := env\<rparr>) = Ok pc"
    using assms unfolding load_project_config_def bind_res_Ok unusable_Ok by blast
  define raw where "raw = (td_value doc)\<lparr>pc_environment := env\<rparr>"
  obtain shadow where v: "validate_optional (check_all (validate_name ''inmate'')) (pc_inmates raw) = Ok ()"
    "validate_optional (validate_cpu_count ''box.cpus'') (pc_cpus raw) = Ok ()"
    "validate_optional (validate_memory_size ''box.memory'') (pc_memory raw) = Ok ()"
    "validate_optional (check_all (validate_port ''every entry in box.ports'')) (pc_ports raw) = Ok ()"
    "validate_shadow [] (pc_shadow raw) = Ok shadow" "check_all validate_egress_host (pc_hosts raw) = Ok ()"
    "check_all validate_required_secret (pc_require raw) = Ok ()" "pc = raw\<lparr>pc_shadow := shadow\<rparr>"
    "check_all (require_text ''every setup command'') (pc_commands raw) = Ok ()" "check_all validate_ignore_entry (pc_ignore raw) = Ok ()"
    using d(2) unfolding raw_def [symmetric] validate_project_def validate_box_def bind_res_Ok by auto
  have e: "pc_environment raw = env" by (simp add: raw_def)
  have h: "validate_egress_host x = Ok () \<Longrightarrow> is_ok (parse_pattern x) \<and> single_line x" for x
    by (auto simp: validate_egress_host_def bind_res_Ok accepted split: sum.splits)
  have c: "list_all (\<lambda>c. trim_space c \<noteq> [] \<and> single_line c) (pc_commands raw)"
    using v(9) check_all_accepts [of "require_text ''every setup command''", OF accepted(2)] by blast
  have g: "list_all (\<lambda>p. project_path (trim_right_slashes p)) (pc_ignore raw)"
    using v(10) validate_ignore_entry_Ok by (auto simp: check_all_Ok list_all_iff)
  have n: "validate_required_secret x = Ok () \<Longrightarrow> name_pattern x \<and> x \<noteq> secret_name_the_broker_uses" for x
    by (auto simp: validate_required_secret_def bind_res_Ok split: if_splits)
  show ?thesis
    using v(1-4) [THEN validate_optional_Ok] validate_shadow_Ok [OF v(5)] v(6,7) h n c g read_environment_Ok [OF d(1)]
    by (auto simp: project_config_ok_def v(8) e check_all_Ok list_all_iff port_number_def option_all_def split: option.splits)
qed


section \<open>Examples\<close>

definition example_environment :: environment where
  "example_environment = [''HOME'' \<mapsto> ''/home/me'', ''PRISON_PORTS'' \<mapsto> ''80 443'']"

lemma overrides_well_formed_witness:
  "\<exists>ov. read_overrides example_environment = Ok ov \<and> overrides_ok ov \<and> ov_ports ov = Some [80, 443]"
proof -
  have "is_ok (read_overrides example_environment) \<and>
    (case read_overrides example_environment of Ok ov \<Rightarrow> ov_ports ov = Some [80, 443] | Err _ \<Rightarrow> False)" by code_simp
  then obtain ov where "read_overrides example_environment = Ok ov" "ov_ports ov = Some [80, 443]" by (auto split: sum.splits)
  then show ?thesis using overrides_well_formed by blast
qed

definition example_project_document :: "string \<Rightarrow> project_config toml_document option" where
  "example_project_document content = Some \<lparr>td_value = \<lparr>pc_inmates = None, pc_cpus = Some 2, pc_memory = None, pc_ports = Some [],
     pc_sudo = None, pc_shadow = [content, ''build/''], pc_commands = [''make''], pc_ignore = [''dist/''], pc_hosts = [''example.com''],
     pc_require = [], pc_environment = []\<rparr>, td_environment = [(''MODE'', RawInt 3)], td_undecoded = []\<rparr>"


end
