(* ===== verification/Plugin_Manifest.thy ===== *)
theory Plugin_Manifest
  imports Config Checkpoint_Text
begin

text \<open>
  \<open>internal/plugin/manifest.go\<close>, and the approval text of \<open>install.go\<close>: the manifest of an inmate, its defaults,
  its validation, and what the user is shown before it is approved.

  TOML decoding and the compilation of a regular expression are parameters. A map of the manifest is an
  association list whose keys are walked in sorted order. The properties say that an accepted manifest names
  no path outside the directories it may use, and that nothing in it can rewrite the approval text.
\<close>

section \<open>The manifest\<close>

definition manifest_file_name :: string where "manifest_file_name = ''inmate.toml''"
definition persisted_root :: string where "persisted_root = ''/home/dev''"
definition default_dockerfile :: string where "default_dockerfile = ''Dockerfile''"

record credential =
  cd_variable :: string
  cd_header :: string
  cd_prefix :: string

record auth_table =
  au_upstream :: string
  au_path_prefix :: string
  au_base_url_variable :: string
  au_token_variable :: string
  au_credentials :: "credential list"

record json_operation =
  jo_from :: string
  jo_to :: string
  jo_keep :: "string list"
  jo_append :: "(string \<times> string) list"
  jo_set :: "(string \<times> string) list"

record environment_source =
  es_name :: string
  es_from :: string
  es_path :: string
  es_pattern :: string

text \<open>A float is the text that \<open>FormatFloat\<close> gives it.\<close>

datatype manifest_value = ManifestText string | ManifestBool bool | ManifestInt int | ManifestFloat string | ManifestOther

record manifest =
  mf_name :: string
  mf_description :: string
  mf_aliases :: "string list"
  mf_foundation :: string
  mf_dockerfile :: string
  mf_run :: string
  mf_unsafe :: string
  mf_auth :: "auth_table option"
  mf_persist :: "string list"
  mf_environment :: "(string \<times> manifest_value) list"
  mf_hosts :: "string list"
  mf_box_command :: string
  mf_host_config :: string
  mf_host_root :: string
  mf_host_copy :: "string list"
  mf_host_json :: "json_operation list"
  mf_host_environment :: "environment_source list"

datatype manifest_error =
    InConfig string config_error
  | EmptyLine string
  | ControlCharacters string
  | AliasReserved string
  | AliasDuplicate string
  | NoRunCommand
  | PrefixNotRooted string
  | NoCredentials
  | PrefixNotSingleLine
  | NotPersisted string
  | ClimbingPath string string
  | AbsolutePath string string
  | BadEnvironmentValue string
  | BadHost pattern_error
  | HostConfigUnsupported
  | NoHostRoot
  | EmptyJsonOperation string
  | EmptySegment string string
  | NoPattern
  | BadPattern string
  | NotTomlManifest
  | UnknownTableIn string string "string list"
  | UnknownKeyIn string string "string list"
  | UnknownManifestKey string

section \<open>Unknown keys\<close>

definition accepted_keys :: "(string \<times> string list) list" where
  "accepted_keys = [
    ('''', [''inmate'', ''image'', ''command'', ''auth'', ''persist'', ''environment'', ''egress'', ''hooks'', ''host'']),
    (''inmate'', [''name'', ''description'', ''aliases'']),
    (''image'', [''foundation'', ''dockerfile'']),
    (''command'', [''run'', ''unsafe'']),
    (''auth'', [''upstream'', ''path_prefix'', ''base_url_variable'', ''token_variable'', ''credentials'']),
    (''auth.credentials'', [''variable'', ''header'', ''prefix'']),
    (''persist'', [''paths'']),
    (''egress'', [''hosts'']),
    (''hooks'', [''box_command'']),
    (''host'', [''root'', ''copy'', ''json'', ''environment'']),
    (''host.json'', [''from'', ''to'', ''keep'', ''append'', ''set'']),
    (''host.environment'', [''name'', ''from'', ''path'', ''pattern''])]"

definition array_tables :: "string list" where
  "array_tables = [''auth.credentials'', ''host.json'', ''host.environment'']"

definition table_name :: "string \<Rightarrow> string" where
  "table_name table =
     (if table = [] then ''the manifest'' else if table \<in> set array_tables then ''[['' @ table @ '']]'' else ''['' @ table @ '']'')"

text \<open>The loop over the depths, from the longest proper prefix to the empty one.\<close>

fun unknown_at :: "bool \<Rightarrow> string list \<Rightarrow> nat \<Rightarrow> manifest_error option" where
  "unknown_at is_table parts depth =
     (case map_of accepted_keys (join ''.'' (take depth parts)) of
        Some accepted \<Rightarrow> Some
          (if is_table \<or> depth < length parts - 1
           then UnknownTableIn (table_name (join ''.'' (take (depth + 1) parts))) (table_name (join ''.'' (take depth parts))) accepted
           else UnknownKeyIn (parts ! depth) (table_name (join ''.'' (take depth parts))) accepted)
      | None \<Rightarrow> (case depth of 0 \<Rightarrow> None | Suc d \<Rightarrow> unknown_at is_table parts d))"

definition refuse_unknown_keys :: "string list \<Rightarrow> (manifest_error, unit) result" where
  "refuse_unknown_keys undecoded = (case sort undecoded of
       [] \<Rightarrow> Ok ()
     | first # others \<Rightarrow>
         (let is_table = list_ex (\<lambda>other. has_prefix other (first @ ''.'')) others;
              parts = split_on CHR ''.'' first
          in (case unknown_at is_table parts (length parts - 1) of Some e \<Rightarrow> Err e | None \<Rightarrow> Err (UnknownManifestKey first))))"

section \<open>Lines and paths\<close>

text \<open>\<open>unicode.IsControl\<close>: the ASCII controls, and U+0080 to U+009F in UTF-8.\<close>

fun has_control :: "string \<Rightarrow> bool" where
  "has_control [] = False"
| "has_control (c # s) =
     (byte c < 0x20 \<or> byte c = 0x7F \<or> (byte c = 0xC2 \<and> (case s of d # _ \<Rightarrow> 0x80 \<le> byte d \<and> byte d \<le> 0x9F | [] \<Rightarrow> False)) \<or>
      has_control s)"

definition require_line :: "string \<Rightarrow> string \<Rightarrow> (manifest_error, unit) result" where
  "require_line v key =
     (if trim_space v = [] then Err (EmptyLine key) else if has_control v then Err (ControlCharacters key) else Ok ())"

definition has_climbing_segment :: "string \<Rightarrow> bool" where
  "has_climbing_segment v \<longleftrightarrow> list_ex (\<lambda>segment. segment = ''..'') (split_on CHR ''/'' v)"

definition require_inside_relative :: "string \<Rightarrow> string \<Rightarrow> (manifest_error, unit) result" where
  "require_inside_relative v key =
     bind_res (require_line v key) (\<lambda>_.
       if has_prefix v ''/'' then Err (AbsolutePath key v)
       else if has_climbing_segment v then Err (ClimbingPath key v) else Ok ())"

definition home_relative_path :: "string \<Rightarrow> string" where
  "home_relative_path v = (let trimmed = trim_prefix (trim_prefix v ''~'') ''/'' in if trimmed = [] then ''.'' else trimmed)"

definition require_home_relative :: "string \<Rightarrow> string \<Rightarrow> (manifest_error, unit) result" where
  "require_home_relative v key =
     bind_res (require_line v key) (\<lambda>_. require_inside_relative (home_relative_path v) key)"

definition require_dotted_path :: "string \<Rightarrow> string \<Rightarrow> (manifest_error, unit) result" where
  "require_dotted_path v key =
     bind_res (require_line v key) (\<lambda>_.
       if list_ex (\<lambda>segment. segment = []) (split_on CHR ''.'' v) then Err (EmptySegment key v) else Ok ())"

section \<open>Defaults\<close>

definition apply_defaults :: "manifest \<Rightarrow> manifest" where
  "apply_defaults m =
     (let m1 = (if mf_description m = [] then m\<lparr>mf_description := mf_name m\<rparr> else m);
          m2 = (if mf_dockerfile m1 = [] then m1\<lparr>mf_dockerfile := default_dockerfile\<rparr> else m1);
          m3 = (case mf_auth m2 of None \<Rightarrow> m2
            | Some au \<Rightarrow> if au_path_prefix au = [] then m2\<lparr>mf_auth := Some (au\<lparr>au_path_prefix := ''/''\<rparr>)\<rparr> else m2)
      in (case mf_persist m3 of
           first # _ \<Rightarrow> if mf_host_root m3 = [] \<and> has_prefix first persisted_root
             then m3\<lparr>mf_host_root := ''~'' @ trim_prefix first persisted_root\<rparr> else m3
         | [] \<Rightarrow> m3))"

section \<open>Validation\<close>

definition reserved_names :: "string list" where
  "reserved_names = [''up'', ''down'', ''rm'', ''shell'', ''run'', ''trust'', ''checkpoint'', ''setup'', ''ports'', ''status'', ''list'',
     ''build'', ''doctor'', ''inmate'', ''verify'', ''broker'', ''host'', ''secret'', ''help'', ''version'']"

definition config_check :: "string \<Rightarrow> (config_error, unit) result \<Rightarrow> (manifest_error, unit) result" where
  "config_check where_from r = (case r of Err e \<Rightarrow> Err (InConfig where_from e) | Ok u \<Rightarrow> Ok u)"

fun validate_aliases_loop :: "string list \<Rightarrow> string list \<Rightarrow> (manifest_error, unit) result" where
  "validate_aliases_loop taken [] = Ok ()"
| "validate_aliases_loop taken (alias # aliases) =
     bind_res (config_check [] (validate_name ''inmate alias'' alias)) (\<lambda>_.
       if alias \<in> set reserved_names then Err (AliasReserved alias)
       else if alias \<in> set taken then Err (AliasDuplicate alias)
       else validate_aliases_loop (alias # taken) aliases)"

definition validate_aliases :: "manifest \<Rightarrow> (manifest_error, unit) result" where
  "validate_aliases m = validate_aliases_loop [mf_name m] (mf_aliases m)"

definition validate_image :: "manifest \<Rightarrow> (manifest_error, unit) result" where
  "validate_image m =
     bind_res (if mf_foundation m = [] then Ok () else require_line (mf_foundation m) ''image.foundation'') (\<lambda>_.
       require_inside_relative (mf_dockerfile m) ''image.dockerfile'')"

definition validate_command :: "manifest \<Rightarrow> (manifest_error, unit) result" where
  "validate_command m =
     (if trim_space (mf_run m) = [] then Err NoRunCommand
      else bind_res (require_line (mf_run m) ''command.run'') (\<lambda>_.
        if mf_unsafe m = [] then Ok () else require_line (mf_unsafe m) ''command.unsafe''))"

definition validate_variable :: "string \<Rightarrow> string \<Rightarrow> (manifest_error, unit) result" where
  "validate_variable v key = bind_res (require_line v key) (\<lambda>_. config_check key (validate_environment_name v))"

definition validate_credential :: "credential \<Rightarrow> (manifest_error, unit) result" where
  "validate_credential c =
     bind_res (validate_variable (cd_variable c) ''auth.credentials.variable'') (\<lambda>_.
     bind_res (require_line (cd_header c) ''auth.credentials.header'') (\<lambda>_.
       if contains_any (cd_prefix c) [CHR 0x0D, CHR 0x0A] then Err PrefixNotSingleLine else Ok ()))"

definition validate_auth_table :: "auth_table \<Rightarrow> (manifest_error, unit) result" where
  "validate_auth_table au =
     bind_res (require_line (au_upstream au) ''auth.upstream'') (\<lambda>_.
       if \<not> has_prefix (au_path_prefix au) ''/'' then Err (PrefixNotRooted (au_path_prefix au))
       else bind_res (require_line (au_path_prefix au) ''auth.path_prefix'') (\<lambda>_.
       bind_res (validate_variable (au_base_url_variable au) ''auth.base_url_variable'') (\<lambda>_.
       bind_res (validate_variable (au_token_variable au) ''auth.token_variable'') (\<lambda>_.
         if au_credentials au = [] then Err NoCredentials else check_all validate_credential (au_credentials au)))))"

definition validate_auth :: "manifest \<Rightarrow> (manifest_error, unit) result" where
  "validate_auth m = (case mf_auth m of None \<Rightarrow> Ok () | Some au \<Rightarrow> validate_auth_table au)"

definition validate_persist_path :: "string \<Rightarrow> (manifest_error, unit) result" where
  "validate_persist_path guest_path =
     bind_res (require_line guest_path ''persist.paths'') (\<lambda>_.
       if \<not> has_prefix guest_path (persisted_root @ ''/'') then Err (NotPersisted guest_path)
       else if has_climbing_segment guest_path then Err (ClimbingPath ''persist.paths'' guest_path) else Ok ())"

definition environment_value_text :: "manifest_value \<Rightarrow> string option" where
  "environment_value_text v = (case v of
       ManifestText s \<Rightarrow> if contains_any s [CHR 0x0D, CHR 0x0A] then None else Some s
     | ManifestBool b \<Rightarrow> Some (if b then ''true'' else ''false'')
     | ManifestInt i \<Rightarrow> Some (itoa i)
     | ManifestFloat s \<Rightarrow> Some s
     | ManifestOther \<Rightarrow> None)"

definition environment_value :: "manifest \<Rightarrow> string \<Rightarrow> string option" where
  "environment_value m name = (case map_of (mf_environment m) name of None \<Rightarrow> None | Some v \<Rightarrow> environment_value_text v)"

definition validate_environment_entry :: "manifest \<Rightarrow> string \<Rightarrow> (manifest_error, unit) result" where
  "validate_environment_entry m name =
     bind_res (config_check ''[environment]'' (validate_box_environment_name name)) (\<lambda>_.
       if environment_value m name = None then Err (BadEnvironmentValue name) else Ok ())"

definition validate_environment :: "manifest \<Rightarrow> (manifest_error, unit) result" where
  "validate_environment m = check_all (validate_environment_entry m) (sorted_keys (mf_environment m))"

definition validate_host_entry :: "string \<Rightarrow> (manifest_error, unit) result" where
  "validate_host_entry host =
     bind_res (require_line host ''egress.hosts'') (\<lambda>_. case parse_pattern host of Err e \<Rightarrow> Err (BadHost e) | Ok _ \<Rightarrow> Ok ())"

definition validate_hooks :: "manifest \<Rightarrow> (manifest_error, unit) result" where
  "validate_hooks m =
     (if mf_host_config m \<noteq> [] then Err HostConfigUnsupported
      else if mf_box_command m = [] then Ok () else require_line (mf_box_command m) ''hooks.box_command'')"

definition validate_dotted_value :: "string \<Rightarrow> (string \<times> string) list \<Rightarrow> string \<Rightarrow> (manifest_error, unit) result" where
  "validate_dotted_value key vs dotted =
     bind_res (require_dotted_path dotted key) (\<lambda>_.
       require_line (case map_of vs dotted of None \<Rightarrow> [] | Some v \<Rightarrow> v) key)"

definition validate_json_operation :: "json_operation \<Rightarrow> (manifest_error, unit) result" where
  "validate_json_operation jo =
     bind_res (if jo_from jo = [] then Ok () else require_inside_relative (jo_from jo) ''host.json.from'') (\<lambda>_.
     bind_res (require_inside_relative (jo_to jo) ''host.json.to'') (\<lambda>_.
       if jo_from jo = [] \<and> jo_keep jo = [] \<and> jo_set jo = [] \<and> jo_append jo = [] then Err (EmptyJsonOperation (jo_to jo))
       else bind_res (check_all (\<lambda>key. require_line key ''host.json.keep'') (jo_keep jo)) (\<lambda>_.
         bind_res (check_all (validate_dotted_value ''host.json.set'' (jo_set jo)) (sorted_keys (jo_set jo))) (\<lambda>_.
           check_all (validate_dotted_value ''host.json.append'' (jo_append jo)) (sorted_keys (jo_append jo))))))"

definition validate_environment_source :: "(string \<Rightarrow> bool) \<Rightarrow> environment_source \<Rightarrow> (manifest_error, unit) result" where
  "validate_environment_source compiles es =
     bind_res (config_check ''host.environment.name'' (validate_box_environment_name (es_name es))) (\<lambda>_.
     bind_res (require_home_relative (es_from es) ''host.environment.from'') (\<lambda>_.
     bind_res (require_dotted_path (es_path es) ''host.environment.path'') (\<lambda>_.
       if es_pattern es = [] then Err NoPattern else if \<not> compiles (es_pattern es) then Err (BadPattern (es_pattern es)) else Ok ())))"

definition validate_host :: "(string \<Rightarrow> bool) \<Rightarrow> manifest \<Rightarrow> (manifest_error, unit) result" where
  "validate_host compiles m =
     bind_res (if mf_host_root m = [] then Ok () else require_home_relative (mf_host_root m) ''host.root'') (\<lambda>_.
       let needs_root = (mf_host_copy m \<noteq> [] \<or> list_ex (\<lambda>jo. jo_from jo \<noteq> []) (mf_host_json m)) in
       if needs_root \<and> mf_host_root m = [] then Err NoHostRoot
       else bind_res (check_all (\<lambda>entry. require_inside_relative (trim_suffix entry ''/'') ''host.copy'') (mf_host_copy m)) (\<lambda>_.
         bind_res (check_all validate_json_operation (mf_host_json m)) (\<lambda>_.
           check_all (validate_environment_source compiles) (mf_host_environment m))))"

definition validate_manifest :: "(string \<Rightarrow> bool) \<Rightarrow> manifest \<Rightarrow> (manifest_error, unit) result" where
  "validate_manifest compiles m =
     bind_res (config_check [] (validate_name ''inmate'' (mf_name m))) (\<lambda>_.
     bind_res (require_line (mf_description m) ''inmate.description'') (\<lambda>_.
     bind_res (validate_aliases m) (\<lambda>_.
     bind_res (validate_image m) (\<lambda>_.
     bind_res (validate_command m) (\<lambda>_.
     bind_res (validate_auth m) (\<lambda>_.
     bind_res (check_all validate_persist_path (mf_persist m)) (\<lambda>_.
     bind_res (validate_environment m) (\<lambda>_.
     bind_res (check_all validate_host_entry (mf_hosts m)) (\<lambda>_.
     bind_res (validate_hooks m) (\<lambda>_.
       validate_host compiles m))))))))))"

text \<open>What the decoder gives: the tables and the undecoded keys in dotted form.\<close>

definition parse_inmate_manifest ::
  "(string \<Rightarrow> (manifest \<times> string list) option) \<Rightarrow> (string \<Rightarrow> bool) \<Rightarrow> string \<Rightarrow> (manifest_error, manifest) result" where
  "parse_inmate_manifest decode compiles data = (case decode data of
       None \<Rightarrow> Err NotTomlManifest
     | Some (raw, undecoded) \<Rightarrow>
         bind_res (refuse_unknown_keys undecoded) (\<lambda>_.
           let m = apply_defaults raw in bind_res (validate_manifest compiles m) (\<lambda>_. Ok m)))"

definition environment_assignments :: "manifest \<Rightarrow> string list" where
  "environment_assignments m = List.map_filter
     (\<lambda>name. case environment_value m name of None \<Rightarrow> None | Some v \<Rightarrow> Some (name @ ''='' @ v)) (sorted_keys (mf_environment m))"

section \<open>The approval text\<close>

fun add_missing :: "string list \<Rightarrow> string list \<Rightarrow> string list" where
  "add_missing acc [] = acc"
| "add_missing acc (x # xs) = add_missing (if x \<in> set acc then acc else acc @ [x]) xs"

definition host_summary :: "manifest \<Rightarrow> string list" where
  "host_summary m =
     (let copies = (if mf_host_copy m = [] then [] else [''copies '' @ join '', '' (mf_host_copy m) @ '' from '' @ mf_host_root m]);
          edited = add_missing [] (map jo_to (mf_host_json m));
          edits = (if edited = [] then [] else [''edits '' @ join '', '' edited]);
          sources = sort (map (\<lambda>es. es_name es @ '' from '' @ es_path es @ '' of '' @ es_from es) (mf_host_environment m));
          reads = (if sources = [] then [] else [''reads '' @ join '', '' sources])
      in copies @ edits @ reads)"

definition field_line :: "string \<Rightarrow> string \<Rightarrow> string" where
  "field_line key v = key @ replicate (11 - length key) CHR '' '' @ '' '' @ v"

text \<open>The lines of \<open>approvalDescription\<close> before the list of files.\<close>

definition approval_lines :: "manifest \<Rightarrow> string list" where
  "approval_lines m =
     [field_line ''inmate'' (mf_name m)] @ map (field_line ''alias'') (mf_aliases m) @
     [field_line ''summary'' (mf_description m), field_line ''command'' (mf_run m)] @
     (case mf_auth m of None \<Rightarrow> []
      | Some au \<Rightarrow> [field_line ''upstream'' (au_upstream au @ '', credential from '' @ join '', '' (map cd_variable (au_credentials au)))]) @
     (if mf_hosts m = [] then [] else [field_line ''egress'' (''adds '' @ join '', '' (mf_hosts m))]) @
     (if mf_persist m = [] then [] else [field_line ''persists'' (join '', '' (mf_persist m))]) @
     map (field_line ''host'') (host_summary m)"

section \<open>What is accepted\<close>

definition clean_line :: "string \<Rightarrow> bool" where
  "clean_line v \<longleftrightarrow> trim_space v \<noteq> [] \<and> \<not> has_control v"

definition inside_relative :: "string \<Rightarrow> bool" where
  "inside_relative v \<longleftrightarrow> clean_line v \<and> \<not> has_prefix v ''/'' \<and> ''..'' \<notin> set (split_on CHR ''/'' v)"

lemma climbing_iff: "has_climbing_segment v \<longleftrightarrow> ''..'' \<in> set (split_on CHR ''/'' v)"
  unfolding has_climbing_segment_def list_ex_iff by blast

lemma line_checks [simp]:
  "require_line v key = Ok u \<longleftrightarrow> clean_line v"
  "config_check w r = Ok u \<longleftrightarrow> r = Ok u"
proof -
  show "require_line v key = Ok u \<longleftrightarrow> clean_line v" by (simp add: require_line_def clean_line_def)
  show "config_check w r = Ok u \<longleftrightarrow> r = Ok u" by (simp add: config_check_def split: sum.splits)
qed

lemma path_checks [simp]:
  "require_inside_relative v key = Ok u \<longleftrightarrow> inside_relative v"
  "require_home_relative v key = Ok u \<longleftrightarrow> clean_line v \<and> inside_relative (home_relative_path v)"
proof -
  show i: "require_inside_relative v key = Ok u \<longleftrightarrow> inside_relative v" for v key u
    by (simp add: require_inside_relative_def bind_res_Ok climbing_iff inside_relative_def)
  show "require_home_relative v key = Ok u \<longleftrightarrow> clean_line v \<and> inside_relative (home_relative_path v)"
    by (simp add: require_home_relative_def bind_res_Ok i)
qed

lemma no_climb_inside: "''..'' \<notin> set ss \<Longrightarrow> stays_inside d ss"
proof (induction ss arbitrary: d)
  case (Cons s ss)
  then have "s \<noteq> ''..''" "''..'' \<notin> set ss" by (metis list.set_intros(1), metis list.set_intros(2))
  then show ?case using Cons.IH by (simp only: stays_inside.simps if_False split: if_split) simp
qed simp

lemma inside_relative_local: "inside_relative v \<Longrightarrow> is_local v"
  using no_climb_inside unfolding inside_relative_def is_local_def clean_line_def
  by (cases "v = []") (simp_all add: trim_space_def trim_by_def trim_right_by_def)

definition auth_ok :: "auth_table \<Rightarrow> bool" where
  "auth_ok au \<longleftrightarrow> clean_line (au_upstream au) \<and> has_prefix (au_path_prefix au) ''/'' \<and> clean_line (au_path_prefix au) \<and>
     environment_name_pattern (au_base_url_variable au) \<and> environment_name_pattern (au_token_variable au) \<and>
     au_credentials au \<noteq> [] \<and>
     list_all (\<lambda>c. clean_line (cd_variable c) \<and> environment_name_pattern (cd_variable c) \<and> clean_line (cd_header c)) (au_credentials au)"

definition json_operation_ok :: "json_operation \<Rightarrow> bool" where
  "json_operation_ok jo \<longleftrightarrow> (jo_from jo = [] \<or> inside_relative (jo_from jo)) \<and> inside_relative (jo_to jo) \<and>
     list_all clean_line (jo_keep jo)"

definition environment_source_ok :: "environment_source \<Rightarrow> bool" where
  "environment_source_ok es \<longleftrightarrow> box_environment_name (es_name es) \<and> clean_line (es_from es) \<and>
     inside_relative (home_relative_path (es_from es)) \<and> clean_line (es_path es)"

definition manifest_ok :: "manifest \<Rightarrow> bool" where
  "manifest_ok m \<longleftrightarrow> name_pattern (mf_name m) \<and> clean_line (mf_description m) \<and>
     list_all (\<lambda>a. name_pattern a \<and> a \<notin> set reserved_names) (mf_aliases m) \<and> distinct (mf_name m # mf_aliases m) \<and>
     inside_relative (mf_dockerfile m) \<and> clean_line (mf_run m) \<and> (mf_unsafe m = [] \<or> clean_line (mf_unsafe m)) \<and>
     option_all auth_ok (mf_auth m) \<and>
     list_all (\<lambda>p. clean_line p \<and> has_prefix p (persisted_root @ ''/'') \<and> ''..'' \<notin> set (split_on CHR ''/'' p)) (mf_persist m) \<and>
     list_all (\<lambda>(n, v). box_environment_name n) (mf_environment m) \<and>
     list_all (\<lambda>h. clean_line h \<and> is_ok (parse_pattern h)) (mf_hosts m) \<and>
     (mf_host_root m = [] \<or> clean_line (mf_host_root m) \<and> inside_relative (home_relative_path (mf_host_root m))) \<and>
     (mf_host_root m = [] \<longrightarrow> mf_host_copy m = [] \<and> list_all (\<lambda>jo. jo_from jo = []) (mf_host_json m)) \<and>
     list_all (\<lambda>e. inside_relative (trim_suffix e ''/'')) (mf_host_copy m) \<and> list_all json_operation_ok (mf_host_json m) \<and>
     list_all environment_source_ok (mf_host_environment m)"

lemma aliases_accepted:
  "validate_aliases_loop taken as = Ok u \<Longrightarrow>
   list_all (\<lambda>a. name_pattern a \<and> a \<notin> set reserved_names) as \<and> distinct as \<and> set as \<inter> set taken = {}"
  by (induction taken as rule: validate_aliases_loop.induct) (auto simp: bind_res_Ok split: if_splits)

lemma auth_accepted: "validate_auth_table au = Ok u \<Longrightarrow> auth_ok au"
  by (auto simp: validate_auth_table_def auth_ok_def bind_res_Ok validate_variable_def check_all_Ok list_all_iff validate_credential_def
      split: if_splits)

lemma json_accepted: "validate_json_operation jo = Ok u \<Longrightarrow> json_operation_ok jo"
  by (auto simp: validate_json_operation_def json_operation_ok_def bind_res_Ok check_all_Ok list_all_iff split: if_splits)

lemma source_accepted: "validate_environment_source compiles es = Ok u \<Longrightarrow> environment_source_ok es"
  by (auto simp: validate_environment_source_def environment_source_ok_def bind_res_Ok require_dotted_path_def)

lemma host_accepted:
  assumes "validate_host compiles m = Ok u"
  shows "(mf_host_root m = [] \<or> clean_line (mf_host_root m) \<and> inside_relative (home_relative_path (mf_host_root m))) \<and>
    (mf_host_root m = [] \<longrightarrow> mf_host_copy m = [] \<and> list_all (\<lambda>jo. jo_from jo = []) (mf_host_json m)) \<and>
    list_all (\<lambda>e. inside_relative (trim_suffix e ''/'')) (mf_host_copy m) \<and> list_all json_operation_ok (mf_host_json m) \<and>
    list_all environment_source_ok (mf_host_environment m)"
  using assms json_accepted source_accepted
  by (auto simp: validate_host_def bind_res_Ok Let_def check_all_Ok list_all_iff list_ex_iff split: if_splits)

lemma persist_accepted: "validate_persist_path p = Ok u \<Longrightarrow>
    clean_line p \<and> has_prefix p (persisted_root @ ''/'') \<and> ''..'' \<notin> set (split_on CHR ''/'' p)"
  unfolding validate_persist_path_def bind_res_Ok climbing_iff by (simp split: if_splits)

lemma validated_ok:
  assumes "validate_manifest compiles m = Ok u"
  shows "manifest_ok m"
proof -
  have v: "name_pattern (mf_name m)" "clean_line (mf_description m)" "validate_aliases m = Ok ()" "validate_image m = Ok ()"
    "validate_command m = Ok ()" "validate_auth m = Ok ()" "check_all validate_persist_path (mf_persist m) = Ok ()"
    "validate_environment m = Ok ()" "check_all validate_host_entry (mf_hosts m) = Ok ()" "validate_host compiles m = Ok u"
    using assms by (simp_all add: validate_manifest_def bind_res_Ok)
  have "inside_relative (mf_dockerfile m)" "clean_line (mf_run m)" "mf_unsafe m = [] \<or> clean_line (mf_unsafe m)"
    using v(4,5) by (auto simp: validate_image_def validate_command_def bind_res_Ok split: if_splits)
  moreover have "list_all (\<lambda>a. name_pattern a \<and> a \<notin> set reserved_names) (mf_aliases m)" "distinct (mf_name m # mf_aliases m)"
    using aliases_accepted [of "[mf_name m]" "mf_aliases m"] v(3) by (auto simp: validate_aliases_def)
  moreover have "option_all auth_ok (mf_auth m)"
    using v(6) auth_accepted by (auto simp: validate_auth_def split: option.splits)
  moreover have "list_all (\<lambda>p. clean_line p \<and> has_prefix p (persisted_root @ ''/'') \<and> ''..'' \<notin> set (split_on CHR ''/'' p)) (mf_persist m)"
    using v(7) persist_accepted unfolding check_all_Ok list_all_iff by blast
  moreover have "list_all (\<lambda>(n, v). box_environment_name n) (mf_environment m)"
    using v(8) by (auto simp: validate_environment_def check_all_Ok list_all_iff validate_environment_entry_def bind_res_Ok sorted_keys_def)
  moreover have "list_all (\<lambda>h. clean_line h \<and> is_ok (parse_pattern h)) (mf_hosts m)"
    using v(9) unfolding check_all_Ok list_all_iff validate_host_entry_def bind_res_Ok is_ok_def by (auto split: sum.splits)
  ultimately show ?thesis using v(1,2) host_accepted [OF v(10)] unfolding manifest_ok_def by blast
qed


section \<open>The approval text is clean\<close>

definition plain_byte :: "char \<Rightarrow> bool" where "plain_byte c \<longleftrightarrow> 0x20 \<le> byte c \<and> byte c < 0x7F"

lemma control_plain: "list_all plain_byte p \<Longrightarrow> has_control (p @ s) = has_control s"
  by (induction p) (auto simp: plain_byte_def)

lemma control_append:
  "\<not> has_control a \<Longrightarrow> \<not> has_control b \<Longrightarrow> b = [] \<or> byte (hd b) < 0x80 \<Longrightarrow> \<not> has_control (a @ b)"
  by (induction a) (auto split: list.splits simp: neq_Nil_conv)

text \<open>Parts with a plain separator between them.\<close>

lemma control_between:
  "\<not> has_control a \<Longrightarrow> list_all plain_byte sep \<Longrightarrow> sep \<noteq> [] \<Longrightarrow> \<not> has_control b \<Longrightarrow> \<not> has_control (a @ sep @ b)"
proof -
  assume h: "\<not> has_control a" "list_all plain_byte sep" "sep \<noteq> []" "\<not> has_control b"
  have "\<not> has_control (sep @ b)" "byte (hd (sep @ b)) < 0x80"
    using control_plain [OF h(2), of b] h(2-4) by (auto simp: plain_byte_def neq_Nil_conv)
  then show "\<not> has_control (a @ sep @ b)" using control_append [OF h(1)] by blast
qed

lemma control_join:
  "list_all (\<lambda>x. \<not> has_control x) xs \<Longrightarrow> \<not> has_control (join '', '' xs)"
proof (induction "'', ''" xs rule: join.induct)
  case (3 x y ys)
  then have "\<not> has_control (x @ '', '' @ join '', '' (y # ys))"
    by (intro control_between) (simp_all add: plain_byte_def)
  then show ?case by simp
qed simp_all

lemma control_field: "list_all plain_byte key \<Longrightarrow> \<not> has_control v \<Longrightarrow> \<not> has_control (field_line key v)"
proof -
  assume k: "list_all plain_byte key" and v: "\<not> has_control v"
  have "list_all plain_byte (key @ replicate (11 - length key) CHR '' '' @ '' '')"
    using k by (auto simp: list_all_iff plain_byte_def)
  from control_plain [OF this, of v] show ?thesis using v by (simp add: field_line_def)
qed

lemma add_missing_set: "set (add_missing acc xs) = set acc \<union> set xs"
  by (induction acc xs rule: add_missing.induct) auto

lemma control_names:
  "name_pattern v \<Longrightarrow> \<not> has_control v" "environment_name_pattern v \<Longrightarrow> \<not> has_control v"
proof -
  have p: "list_all plain_byte v \<Longrightarrow> \<not> has_control v" for v using control_plain [of v "[]"] by simp
  have c: "is_lower c \<or> is_upper c \<or> is_digit c \<Longrightarrow> plain_byte c" for c
    by (auto simp: plain_byte_def is_lower_def is_upper_def is_digit_def)
  have o: "plain_byte CHR ''-''" "plain_byte CHR ''_''" by (simp_all add: plain_byte_def)
  have q: "is_lower y \<or> is_digit y \<or> y = CHR ''-'' \<Longrightarrow> plain_byte y" "is_letter y \<or> is_digit y \<or> y = CHR ''_'' \<Longrightarrow> plain_byte y"
    "is_letter y \<or> y = CHR ''_'' \<Longrightarrow> plain_byte y" for y
    unfolding is_letter_def by (elim disjE; simp add: c o)+
  show "\<not> has_control v" if h: "name_pattern v"
  proof (cases v)
    case (Cons x cs)
    then have "plain_byte x" "list_all plain_byte cs"
      using h c unfolding name_pattern_def by (auto elim!: list.pred_mono_strong intro: q(1))
    then show ?thesis using p [of v] Cons by simp
  qed simp
  show "\<not> has_control v" if h: "environment_name_pattern v"
  proof (cases v)
    case (Cons x cs)
    then have x: "is_letter x \<or> x = CHR ''_''" "list_all (\<lambda>y. is_letter y \<or> is_digit y \<or> y = CHR ''_'') cs"
      using h unfolding environment_name_pattern_def by simp_all
    then have "list_all plain_byte cs" by (elim list.pred_mono_strong) (rule q(2))
    then show ?thesis using p [of v] Cons q(3) [OF x(1)] by simp
  qed simp
qed

lemma clean_no_control: "clean_line v \<Longrightarrow> \<not> has_control v" "inside_relative v \<Longrightarrow> \<not> has_control v"
  by (simp_all add: clean_line_def inside_relative_def)

lemma control_copy_entry: "inside_relative (trim_suffix e ''/'') \<Longrightarrow> \<not> has_control e"
proof -
  assume h: "inside_relative (trim_suffix e ''/'')"
  show ?thesis
  proof (cases "has_suffix e ''/''")
    case True
    then obtain t where t: "e = t @ ''/''" using has_suffix_iff by blast
    then have "\<not> has_control t" using h clean_no_control(2) by (simp add: trim_suffix_def has_suffix_def)
    from control_between [OF this, of "''/''" "[]"] show ?thesis using t by (simp add: plain_byte_def)
  next
    case False
    then show ?thesis using clean_no_control(2) [OF h] by (simp add: trim_suffix_def)
  qed
qed

lemma host_summary_clean:
  assumes "manifest_ok m" "line \<in> set (host_summary m)"
  shows "\<not> has_control line"
proof -
  have root: "mf_host_copy m \<noteq> [] \<Longrightarrow> \<not> has_control (mf_host_root m)"
    using assms(1) clean_no_control(1) by (auto simp: manifest_ok_def)
  have copy: "\<not> has_control (join '', '' (mf_host_copy m))"
    using assms(1) control_copy_entry by (intro control_join) (auto simp: manifest_ok_def list_all_iff)
  have edits: "\<not> has_control (join '', '' (add_missing [] (map jo_to (mf_host_json m))))"
    using assms(1) clean_no_control(2) by (intro control_join) (auto simp: manifest_ok_def list_all_iff add_missing_set json_operation_ok_def)
  have source: "\<not> has_control (es_name es @ '' from '' @ es_path es @ '' of '' @ es_from es)" if "es \<in> set (mf_host_environment m)" for es
  proof -
    have "\<not> has_control (es_name es)" "\<not> has_control (es_path es)" "\<not> has_control (es_from es)"
      using assms(1) that clean_no_control(1) control_names(2)
      by (auto simp: manifest_ok_def list_all_iff environment_source_ok_def box_environment_name_def)
    then show ?thesis by (intro control_between) (simp_all add: plain_byte_def)
  qed
  then have reads: "\<not> has_control (join '', '' (sort (map (\<lambda>es. es_name es @ '' from '' @ es_path es @ '' of '' @ es_from es) (mf_host_environment m))))"
    by (intro control_join) (auto simp: list_all_iff)
  have p: "\<not> has_control (''copies '' @ join '', '' (mf_host_copy m) @ '' from '' @ mf_host_root m)" if "mf_host_copy m \<noteq> []"
    using control_between [OF copy _ _ root [OF that], of "'' from ''"] control_plain [of "''copies ''"] by (simp add: plain_byte_def)
  have "\<not> has_control (''edits '' @ join '', '' (add_missing [] (map jo_to (mf_host_json m))))"
    "\<not> has_control (''reads '' @ join '', '' (sort (map (\<lambda>es. es_name es @ '' from '' @ es_path es @ '' of '' @ es_from es) (mf_host_environment m))))"
    using edits reads control_plain [of "''edits ''"] control_plain [of "''reads ''"] by (simp_all add: plain_byte_def)
  then show ?thesis using assms(2) p unfolding host_summary_def Let_def by (auto split: if_splits)
qed

text \<open>The approval text cannot be rewritten by the manifest it describes: no line of it has a control
  character, so no part of an accepted manifest can hold an escape sequence for the terminal or start a new line.\<close>

theorem approval_text_clean:
  assumes "parse_inmate_manifest decode compiles data = Ok m" "line \<in> set (approval_lines m)"
  shows "\<not> has_control line"
proof -
  have m: "manifest_ok m"
    using assms(1) validated_ok by (auto simp: parse_inmate_manifest_def bind_res_Ok Let_def split: option.splits prod.splits)
  note c = clean_no_control control_names
  have f: "\<not> has_control (mf_name m)" "\<forall>a\<in>set (mf_aliases m). \<not> has_control a" "\<not> has_control (mf_description m)" "\<not> has_control (mf_run m)"
    using m c by (auto simp: manifest_ok_def list_all_iff)
  have h: "\<not> has_control (''adds '' @ join '', '' (mf_hosts m))"
    using m c control_plain [of "''adds ''"] control_join [of "mf_hosts m"] by (auto simp: manifest_ok_def list_all_iff plain_byte_def)
  have p: "\<not> has_control (join '', '' (mf_persist m))" using m c by (intro control_join) (auto simp: manifest_ok_def list_all_iff)
  have u: "\<not> has_control (au_upstream au @ '', credential from '' @ join '', '' (map cd_variable (au_credentials au)))" if "mf_auth m = Some au" for au
  proof -
    have "auth_ok au" using m that by (simp add: manifest_ok_def)
    then have "\<not> has_control (au_upstream au)" "\<not> has_control (join '', '' (map cd_variable (au_credentials au)))"
      using c by (auto simp: auth_ok_def list_all_iff intro!: control_join)
    then show ?thesis by (intro control_between) (simp_all add: plain_byte_def)
  qed
  have k: "\<not> has_control (field_line ''inmate'' v)" "\<not> has_control (field_line ''alias'' v)" "\<not> has_control (field_line ''summary'' v)"
    "\<not> has_control (field_line ''command'' v)" "\<not> has_control (field_line ''upstream'' v)" "\<not> has_control (field_line ''egress'' v)"
    "\<not> has_control (field_line ''persists'' v)" "\<not> has_control (field_line ''host'' v)" if "\<not> has_control v" for v
    using control_field [OF _ that] by (simp_all add: plain_byte_def)
  have "list_all (\<lambda>line. \<not> has_control line) (approval_lines m)"
    unfolding approval_lines_def list_all_append
  proof (intro conjI)
    show "list_all (\<lambda>line. \<not> has_control line) (map (field_line ''alias'') (mf_aliases m))" using k(2) f(2) by (simp add: list_all_iff)
    show "list_all (\<lambda>line. \<not> has_control line) (map (field_line ''host'') (host_summary m))"
      using k(8) host_summary_clean [OF m] by (simp add: list_all_iff)
  qed (use k(1,3-7) f h p u in \<open>simp_all split: option.split\<close>)
  then show ?thesis using assms(2) by (simp add: list_all_iff)
qed

section \<open>Examples\<close>

definition example_raw_manifest :: manifest where
  "example_raw_manifest = \<lparr>mf_name = ''agent'', mf_description = [], mf_aliases = [''ag''], mf_foundation = [], mf_dockerfile = [],
     mf_run = ''agent --go'', mf_unsafe = [],
     mf_auth = Some \<lparr>au_upstream = ''api.example.com'', au_path_prefix = [], au_base_url_variable = ''BASE'', au_token_variable = ''TOKEN'',
       au_credentials = [\<lparr>cd_variable = ''KEY'', cd_header = ''Authorization'', cd_prefix = ''Bearer ''\<rparr>]\<rparr>,
     mf_persist = [''/home/dev/.agent''], mf_environment = [(''MODE'', ManifestInt 1)], mf_hosts = [''example.com''],
     mf_box_command = [], mf_host_config = [], mf_host_root = [], mf_host_copy = [''rules/''],
     mf_host_json = [\<lparr>jo_from = [], jo_to = ''a.json'', jo_keep = [], jo_append = [], jo_set = [(''x.y'', ''1'')]\<rparr>],
     mf_host_environment = []\<rparr>"

lemma example_manifest:
  "parse_inmate_manifest (\<lambda>data. Some (example_raw_manifest, [])) (\<lambda>p. True) [] = Ok (apply_defaults example_raw_manifest)"
  by code_simp


lemma approval_text_clean_witness:
  "\<exists>line\<in>set (approval_lines (apply_defaults example_raw_manifest)). has_suffix line ''adds example.com'' \<and> \<not> has_control line"
proof -
  have "field_line ''egress'' ''adds example.com'' \<in> set (approval_lines (apply_defaults example_raw_manifest))"
    "has_suffix (field_line ''egress'' ''adds example.com'') ''adds example.com''"
    by code_simp+
  then show ?thesis using approval_text_clean [OF example_manifest] by blast
qed

text \<open>The values of the environment are not shown there. They may hold control characters other than line ends,
  which \<open>describe\<close> then prints.\<close>

lemma environment_value_may_have_control:
  "environment_value_text (ManifestText [CHR 0x1B]) = Some [CHR 0x1B]" "has_control [CHR 0x1B]"
  by (simp_all add: environment_value_text_def contains_any_def)

end
