(* ===== verification/Plugin_Host.thy ===== *)
theory Plugin_Host
  imports Plugin_Manifest "HOL-Library.AList"
begin

text \<open>
  \<open>internal/plugin/host.go\<close>: the edits of JSON files and the values that an inmate may read from the host.

  A JSON object is an association list, the value of a number or a constant is its text. What a file holds is
  a function of the path, the JSON forms and regular expressions are parameters, and the writes below the
  persisted home are a function from names to contents. The copies of files and directories (\<open>copyHostEntry\<close>)
  are not modelled. The properties say that a resolved path stays below its base, that an edit sets exactly the
  value it names, and that only values that match their pattern in full reach the box.
\<close>

section \<open>Paths\<close>

datatype host_error =
    NotInside string string
  | OutsideBase string string
  | PatternInvalid string
  | CannotWriteHost string
  | NilMapPanic

definition resolve_inside :: "string \<Rightarrow> string \<Rightarrow> (host_error, string) result" where
  "resolve_inside base relative =
     (let target = path_join [base, relative] in
      case path_rel base target of
        None \<Rightarrow> Err (NotInside relative base)
      | Some within \<Rightarrow> if within = ''..'' \<or> has_prefix within ''../'' then Err (OutsideBase relative base) else Ok target)"

definition resolve_under_home :: "string \<Rightarrow> string \<Rightarrow> (host_error, string) result" where
  "resolve_under_home home v = (if v = [] then Ok home else resolve_inside home (home_relative_path v))"

section \<open>Placeholders\<close>

record placeholders =
  ph_tail :: string
  ph_inmate :: string
  ph_project :: string

definition placeholder_pairs :: "placeholders \<Rightarrow> (string \<times> string) list" where
  "placeholder_pairs ph = [(''${placeholder_tail}'', ph_tail ph), (''${inmate}'', ph_inmate ph), (''${project_id}'', ph_project ph)]"

text \<open>\<open>strings.Replacer\<close>: from left to right, the first pair whose name starts here, and no second pass.\<close>

function replace_pairs :: "(string \<times> string) list \<Rightarrow> string \<Rightarrow> string" where
  "replace_pairs pairs [] = []"
| "replace_pairs pairs (c # s) =
     (case find (\<lambda>(name, v). name \<noteq> [] \<and> has_prefix (c # s) name) pairs of
        None \<Rightarrow> c # replace_pairs pairs s
      | Some (name, v) \<Rightarrow> v @ replace_pairs pairs (drop (length name) (c # s)))"
  by pat_completeness auto
termination
  by (relation "measure (length \<circ> snd)") (auto simp: find_Some_iff)

section \<open>Documents\<close>

datatype json = JObject "(string \<times> json) list" | JArray "json list" | JText string | JRaw string

type_synonym json_object = "(string \<times> json) list"

datatype host_note =
    SkippedMissing string
  | DroppedKeys string "string list"
  | ReplacedNotObject string string
  | ReplacedNotList string string
  | IgnoredUnreadable string
  | IgnoredNotObject string

definition keep_only :: "json_object \<Rightarrow> string list \<Rightarrow> json_object \<times> string list" where
  "keep_only document keep =
     (filter (\<lambda>(k, v). k \<in> set keep) document, sort (filter (\<lambda>k. k \<notin> set keep) (map fst document)))"

text \<open>\<open>containerFor\<close> and the change of the container it finds: each missing or wrong container is replaced by an
  empty one.\<close>

fun with_container ::
  "string \<Rightarrow> string \<Rightarrow> (json_object \<Rightarrow> json_object \<times> host_note list) \<Rightarrow> json_object \<Rightarrow> string list \<Rightarrow> json_object \<times> host_note list" where
  "with_container dotted name change container [] = change container"
| "with_container dotted name change container (segment # segments) =
     (let (next, notes) = (case map_of container segment of
            Some (JObject inner) \<Rightarrow> (inner, [])
          | Some _ \<Rightarrow> ([], [ReplacedNotObject name dotted])
          | None \<Rightarrow> ([], []));
          (inner', added) = with_container dotted name change next segments
      in (AList.update segment (JObject inner') container, notes @ added))"

definition set_value :: "string \<Rightarrow> string \<Rightarrow> json_object \<Rightarrow> json_object \<times> host_note list" where
  "set_value key v container = (AList.update key (JText v) container, [])"

definition append_value :: "string \<Rightarrow> string \<Rightarrow> string \<Rightarrow> string \<Rightarrow> json_object \<Rightarrow> json_object \<times> host_note list" where
  "append_value dotted name key v container =
     (let existing = (case map_of container key of Some (JArray members) \<Rightarrow> members | _ \<Rightarrow> []);
          notes = (case map_of container key of None \<Rightarrow> [] | Some (JArray _) \<Rightarrow> [] | Some _ \<Rightarrow> [ReplacedNotList name dotted])
      in if JText v \<in> set existing then (container, notes)
         else (AList.update key (JArray (existing @ [JText v])) container, notes))"

definition set_dotted :: "string \<Rightarrow> string \<Rightarrow> string \<Rightarrow> json_object \<Rightarrow> json_object \<times> host_note list" where
  "set_dotted dotted v name document =
     (let segments = split_on CHR ''.'' dotted
      in with_container dotted name (set_value (last segments) v) document (butlast segments))"

definition append_dotted :: "string \<Rightarrow> string \<Rightarrow> string \<Rightarrow> json_object \<Rightarrow> json_object \<times> host_note list" where
  "append_dotted dotted v name document =
     (let segments = split_on CHR ''.'' dotted
      in with_container dotted name (append_value dotted name (last segments) v) document (butlast segments))"

fun lookup_segments :: "json \<Rightarrow> string list \<Rightarrow> json option" where
  "lookup_segments current [] = Some current"
| "lookup_segments current (segment # segments) =
     (case current of
        JObject inner \<Rightarrow> (case map_of inner segment of None \<Rightarrow> None | Some v \<Rightarrow> lookup_segments v segments)
      | _ \<Rightarrow> None)"

definition lookup_dotted :: "json_object \<Rightarrow> string \<Rightarrow> string option" where
  "lookup_dotted document dotted =
     (case lookup_segments (JObject document) (split_on CHR ''.'' dotted) of Some (JText s) \<Rightarrow> Some s | _ \<Rightarrow> None)"

section \<open>Operations\<close>

datatype file_read = FileMissing | FileUnreadable | FileBytes string

text \<open>A file that holds \<open>null\<close> is decoded without an error to a nil map, here \<open>None\<close>. A nil map can be read and replaced,
  but a write into it panics.\<close>

definition read_json_object ::
  "(string \<Rightarrow> json_object option option) \<Rightarrow> file_read \<Rightarrow> string \<Rightarrow> json_object option \<times> bool \<times> host_note list" where
  "read_json_object parse data path = (case data of
       FileMissing \<Rightarrow> (Some [], False, [])
     | FileUnreadable \<Rightarrow> (Some [], False, [IgnoredUnreadable path])
     | FileBytes bytes \<Rightarrow> (case parse bytes of None \<Rightarrow> (Some [], False, [IgnoredNotObject path]) | Some document \<Rightarrow> (document, True, [])))"

fun apply_edits ::
  "(string \<Rightarrow> string \<Rightarrow> json_object \<Rightarrow> json_object \<times> host_note list) \<Rightarrow> (string \<times> string) list \<Rightarrow> json_object \<Rightarrow> json_object \<times> host_note list" where
  "apply_edits edit [] document = (document, [])"
| "apply_edits edit ((dotted, v) # edits) document =
     (let (document1, notes) = edit dotted v document; (document2, added) = apply_edits edit edits document1
      in (document2, notes @ added))"

definition sorted_pairs :: "placeholders \<Rightarrow> (string \<times> string) list \<Rightarrow> (string \<times> string) list" where
  "sorted_pairs ph vs =
     map (\<lambda>k. (k, replace_pairs (placeholder_pairs ph) (case map_of vs k of None \<Rightarrow> [] | Some v \<Rightarrow> v))) (sorted_keys vs)"

definition entries_of :: "json_object option \<Rightarrow> json_object" where
  "entries_of document = (case document of None \<Rightarrow> [] | Some es \<Rightarrow> es)"

definition edit_document ::
  "placeholders \<Rightarrow> json_operation \<Rightarrow> json_object option \<Rightarrow> (host_error, json_object option \<times> host_note list) result" where
  "edit_document ph jo document =
     (let (kept, dropped) = (if jo_keep jo = [] then (document, [])
            else (case keep_only (entries_of document) (jo_keep jo) of (es, ks) \<Rightarrow> (Some es, ks)));
          dropped_note = (if dropped = [] then [] else [DroppedKeys (jo_to jo) dropped])
      in case kept of
           None \<Rightarrow> if jo_set jo = [] \<and> jo_append jo = [] then Ok (None, dropped_note) else Err NilMapPanic
         | Some es \<Rightarrow>
             (let (document1, notes1) = apply_edits (\<lambda>dotted v. set_dotted dotted v (jo_to jo)) (sorted_pairs ph (jo_set jo)) es;
                  (document2, notes2) = apply_edits (\<lambda>dotted v. append_dotted dotted v (jo_to jo)) (sorted_pairs ph (jo_append jo)) document1
              in Ok (Some document2, dropped_note @ notes1 @ notes2)))"

text \<open>The host and the persisted home as functions from paths to what a read gives; the result has whether the
  file was written, the notes, and the persisted home afterwards.\<close>

type_synonym files = "string \<Rightarrow> file_read"

record json_codec =
  jc_parse :: "string \<Rightarrow> json_object option option"
  jc_print :: "json_object option \<Rightarrow> string"

definition run_json_operation ::
  "json_codec \<Rightarrow> (string \<Rightarrow> bool) \<Rightarrow> files \<Rightarrow> string \<Rightarrow> placeholders \<Rightarrow> json_operation \<Rightarrow> files \<Rightarrow> (host_error, bool) result \<times> host_note list \<times> files" where
  "run_json_operation jc writable host root ph jo home =
     (case (if jo_from jo = [] then Ok (home (jo_to jo), jo_to jo)
            else bind_res (resolve_inside root (jo_from jo)) (\<lambda>source. Ok (host source, source))) of
        Err e \<Rightarrow> (Err e, [], home)
      | Ok (data, source) \<Rightarrow>
          (case read_json_object (jc_parse jc) data source of (document, found, notes) \<Rightarrow>
             if jo_from jo \<noteq> [] \<and> \<not> found then (Ok False, notes, home)
             else (case edit_document ph jo document of
                 Err e \<Rightarrow> (Err e, notes, home)
               | Ok (edited, added) \<Rightarrow>
                   if \<not> writable (jo_to jo) then (Err (CannotWriteHost (jo_to jo)), notes @ added, home)
                   else (Ok True, notes @ added, home(jo_to jo := FileBytes (jc_print jc edited @ [newline]))))))"

fun run_json_operations ::
  "json_codec \<Rightarrow> (string \<Rightarrow> bool) \<Rightarrow> files \<Rightarrow> string \<Rightarrow> placeholders \<Rightarrow> json_operation list \<Rightarrow> string list \<Rightarrow> host_note list \<Rightarrow> files \<Rightarrow>
     host_error option \<times> string list \<times> host_note list \<times> files" where
  "run_json_operations jc writable host root ph [] carried notes home = (None, carried, notes, home)"
| "run_json_operations jc writable host root ph (jo # jos) carried notes home =
     (case run_json_operation jc writable host root ph jo home of
        (Err e, added, home1) \<Rightarrow> (Some e, carried, notes @ added, home1)
      | (Ok written, added, home1) \<Rightarrow>
          run_json_operations jc writable host root ph jos
            (if written \<and> jo_to jo \<notin> set carried then carried @ [jo_to jo] else carried) (notes @ added) home1)"

text \<open>Regular expressions: whether a pattern compiles, and the bounds of its leftmost match.\<close>

record regex =
  rx_compiles :: "string \<Rightarrow> bool"
  rx_find :: "string \<Rightarrow> string \<Rightarrow> (nat \<times> nat) option"

definition matches_in_full :: "regex \<Rightarrow> string \<Rightarrow> string \<Rightarrow> bool" where
  "matches_in_full rx pattern_text v =
     (case rx_find rx pattern_text v of None \<Rightarrow> False | Some (start, stop) \<Rightarrow> start = 0 \<and> stop = length v)"

definition source_value :: "json_codec \<Rightarrow> regex \<Rightarrow> files \<Rightarrow> string \<Rightarrow> environment_source \<Rightarrow> string option" where
  "source_value jc rx host path es =
     (case read_json_object (jc_parse jc) (host path) path of (document, found, _) \<Rightarrow>
        if \<not> found then None
        else (case lookup_dotted (entries_of document) (es_path es) of
            None \<Rightarrow> None
          | Some v \<Rightarrow> if matches_in_full rx (es_pattern es) v then Some v else None))"

fun host_environment ::
  "json_codec \<Rightarrow> regex \<Rightarrow> files \<Rightarrow> string \<Rightarrow> environment_source list \<Rightarrow> (host_error, string list) result" where
  "host_environment jc rx host home [] = Ok []"
| "host_environment jc rx host home (es # sources) =
     bind_res (resolve_under_home home (es_from es)) (\<lambda>path.
       if \<not> rx_compiles rx (es_pattern es) then Err (PatternInvalid (es_pattern es))
       else bind_res (host_environment jc rx host home sources) (\<lambda>others.
         Ok (case source_value jc rx host path es of None \<Rightarrow> others | Some v \<Rightarrow> (es_name es @ ''='' @ v) # others)))"

section \<open>A resolved path stays below its base\<close>

lemma rel_below:
  assumes "path_rel base target = Some r" "is_abs target" "is_abs base" "r \<noteq> ''..''" "\<not> has_prefix r ''../''"
  shows "\<exists>t. list_all plain t \<and> path_segments target = path_segments base @ t"
proof (cases "path_clean base = path_clean target")
  case True
  obtain ys zs where f: "path_segments base = ys" "path_segments target = zs" "list_all plain ys" "list_all plain zs"
    using path_segments_form [of base] path_segments_form [of target] assms(2,3) by (metis append_Nil replicate_0)
  have "join ''/'' ys = join ''/'' zs" using True f assms(2,3) by (simp add: path_clean_def)
  moreover have "split_on CHR ''/'' (join ''/'' xs) = xs" if "list_all plain xs" "xs \<noteq> []" for xs
    using split_on_join [of xs "CHR ''/''"] that plain_parts [of xs 0] by simp
  moreover have "join ''/'' xs = [] \<longleftrightarrow> xs = []" if "list_all plain xs" for xs
    using join_eq_Nil [of xs "''/''"] that by (auto simp: list_all_iff plain_def)
  ultimately have "ys = zs" using f(3,4) by metis
  then show ?thesis using f by (intro exI [of _ "[]"]) simp
next
  case False
  have "path_clean target \<noteq> ''.''" using assms(2) by (simp add: path_clean_def Let_def)
  then obtain b t where bt: "drop_common (path_segments base) (path_segments target) = (b, t)"
    "r = join ''/'' (replicate (length b) ''..'' @ t)"
    using assms(1-3) False by (auto simp: path_rel_def split: prod.splits if_splits)
  obtain ys where ys: "path_segments target = ys" "list_all plain ys"
    using path_segments_form [of target] assms(2) by (metis append_Nil replicate_0)
  obtain cs where cs: "path_segments base = cs @ b" "ys = cs @ t"
    using drop_common_suffix [of "path_segments base" "path_segments target"] bt(1) ys(1) by auto
  have t: "list_all plain t" using ys(2) cs(2) by simp
  have "b = []" using climbs [OF t, of "length b"] assms(4,5) bt(2) by auto
  then show ?thesis using t cs ys by auto
qed

lemma join_abs: "is_abs base \<Longrightarrow> is_abs (path_join [base, relative])"
proof -
  have clean: "is_abs p \<Longrightarrow> is_abs (path_clean p)" for p by (simp add: path_clean_def is_abs_def has_prefix_iff Let_def)
  assume "is_abs base"
  then obtain b where b: "base = CHR ''/'' # b" by (auto simp: is_abs_def has_prefix_iff)
  have "path_join [base, relative] = path_clean (CHR ''/'' # b @ (if relative = [] then [] else ''/'' @ relative))"
    by (simp add: path_join_def b)
  moreover have "is_abs (CHR ''/'' # x)" for x by (simp add: is_abs_def has_prefix_iff)
  ultimately show ?thesis using clean by simp
qed

lemma resolved_below:
  assumes "resolve_inside base relative = Ok target" "is_abs base"
  shows "\<exists>t. list_all plain t \<and> path_segments target = path_segments base @ t"
proof -
  obtain within where w: "path_rel base (path_join [base, relative]) = Some within"
    and r: "(if within = ''..'' \<or> has_prefix within ''../'' then Err (OutsideBase relative base) else Ok (path_join [base, relative])) = Ok target"
    using assms(1) unfolding resolve_inside_def Let_def by (cases "path_rel base (path_join [base, relative])") auto
  have n: "\<not> (within = ''..'' \<or> has_prefix within ''../'')" "target = path_join [base, relative]"
    using r by (simp_all split: if_splits)
  then show ?thesis using rel_below [OF w join_abs [OF assms(2)] assms(2)] by blast
qed

lemma resolved_home_below:
  "resolve_under_home home v = Ok path \<Longrightarrow> is_abs home \<Longrightarrow> \<exists>t. list_all plain t \<and> path_segments path = path_segments home @ t"
  using resolved_below by (auto simp: resolve_under_home_def split: if_splits intro: exI [of _ "[]"])

text \<open>What an inmate reads from the host is confined and filtered. Each variable that comes from the host is one
  that the manifest names, its value is the text at the path the manifest names in a JSON file below the home
  directory, and the pattern of the manifest matches the value in full.\<close>

theorem host_environment_filtered:
  assumes "host_environment jc rx host home sources = Ok found" "is_abs home" "assignment \<in> set found"
  shows "\<exists>es\<in>set sources. \<exists>v path bytes document t. assignment = es_name es @ ''='' @ v \<and> matches_in_full rx (es_pattern es) v \<and>
    resolve_under_home home (es_from es) = Ok path \<and> list_all plain t \<and> path_segments path = path_segments home @ t \<and>
    host path = FileBytes bytes \<and> jc_parse jc bytes = Some document \<and> lookup_dotted (entries_of document) (es_path es) = Some v"
  using assms(1,3)
proof (induction sources arbitrary: found)
  case (Cons es sources)
  obtain path others where o: "resolve_under_home home (es_from es) = Ok path" "host_environment jc rx host home sources = Ok others"
    "found = (case source_value jc rx host path es of None \<Rightarrow> others | Some v \<Rightarrow> (es_name es @ ''='' @ v) # others)"
    using Cons.prems(1) by (auto simp: bind_res_Ok split: if_splits)
  show ?case
  proof (cases "assignment \<in> set others")
    case True
    then show ?thesis using Cons.IH [OF o(2)] by (metis list.set_intros(2))
  next
    case False
    then obtain v where s: "source_value jc rx host path es = Some v" "assignment = es_name es @ ''='' @ v"
      using o(3) Cons.prems(2) by (auto split: option.splits)
    obtain bytes document where v: "host path = FileBytes bytes" "jc_parse jc bytes = Some document"
      "lookup_dotted (entries_of document) (es_path es) = Some v" "matches_in_full rx (es_pattern es) v"
      using s(1) by (auto simp: source_value_def read_json_object_def split: file_read.splits option.splits if_splits)
    obtain t where "list_all plain t" "path_segments path = path_segments home @ t"
      using resolved_home_below [OF o(1) assms(2)] by blast
    then show ?thesis using v o(1) s(2) by (intro bexI [of _ es]) (blast, simp)
  qed
qed simp

section \<open>An edit sets what it names\<close>

lemma lookup_set:
  "lookup_segments (JObject (fst (with_container dotted name (set_value k v) document ss))) (ss @ [k]) = Some (JText v)"
proof (induction ss arbitrary: document)
  case (Cons s ss)
  then show ?case by (simp add: update_conv' split: prod.split) (metis fst_conv)
qed (simp add: set_value_def update_conv')

lemma lookup_other:
  "\<not> prefix qs (ss @ [k]) \<Longrightarrow> \<not> prefix (ss @ [k]) qs \<Longrightarrow>
   lookup_segments (JObject (fst (with_container dotted name (set_value k v) document ss))) qs = lookup_segments (JObject document) qs"
proof (induction ss arbitrary: document qs)
  case Nil
  then obtain x q where "qs = x # q" "x \<noteq> k" by (cases qs) auto
  then show ?case by (simp add: set_value_def update_conv')
next
  case (Cons s ss)
  then obtain x q where q: "qs = x # q" by (cases qs) auto
  define inner where "inner = (case map_of document s of Some (JObject i) \<Rightarrow> i | _ \<Rightarrow> [])"
  define inner' where "inner' = fst (with_container dotted name (set_value k v) inner ss)"
  have d: "fst (with_container dotted name (set_value k v) document (s # ss)) = AList.update s (JObject inner') document"
    by (auto simp: inner_def inner'_def split: option.split json.split prod.split)
  show ?case
  proof (cases "x = s")
    case False
    then show ?thesis using d q by (simp add: update_conv')
  next
    case True
    have p: "\<not> prefix q (ss @ [k])" "\<not> prefix (ss @ [k]) q" using Cons.prems q True by auto
    have "lookup_segments (JObject inner') q = lookup_segments (JObject inner) q"
      using Cons.IH [OF p] by (simp add: inner'_def)
    moreover obtain y q' where "q = y # q'" using p(1) by (cases q) auto
    ultimately show ?thesis using d q True
      by (auto simp: update_conv' inner_def split: option.splits json.splits)
  qed
qed

text \<open>Setting a value at a dotted path makes exactly that change: the path then has the value, and the value at
  every path that is neither above nor below it is as before.\<close>

theorem set_dotted_exact:
  "lookup_dotted (fst (set_dotted dotted v name document)) dotted = Some v \<and>
   (\<not> prefix (split_on CHR ''.'' other) (split_on CHR ''.'' dotted) \<and> \<not> prefix (split_on CHR ''.'' dotted) (split_on CHR ''.'' other) \<longrightarrow>
     lookup_dotted (fst (set_dotted dotted v name document)) other = lookup_dotted document other)"
proof -
  let ?ss = "split_on CHR ''.'' dotted"
  have e: "butlast ?ss @ [last ?ss] = ?ss" by simp
  show ?thesis
    using lookup_set [of dotted name "last ?ss" v document "butlast ?ss"] lookup_other [of _ "butlast ?ss" "last ?ss" dotted name v document]
    unfolding set_dotted_def lookup_dotted_def Let_def e by simp
qed

text \<open>Appending a member twice is appending it once.\<close>

lemma append_value_member:
  "\<exists>ms. map_of (fst (append_value dotted name key v container)) key = Some (JArray ms) \<and> JText v \<in> set ms"
proof (cases "\<exists>ms. map_of container key = Some (JArray ms)")
  case True
  then obtain ms where "map_of container key = Some (JArray ms)" by blast
  then show ?thesis by (simp add: append_value_def update_conv')
next
  case False
  then have "(case map_of container key of Some (JArray members) \<Rightarrow> members | _ \<Rightarrow> []) = []"
    by (auto split: option.split json.split)
  then show ?thesis by (simp add: append_value_def Let_def update_conv')
qed

lemma append_value_idem:
  "append_value dotted name key v (fst (append_value dotted name key v container)) = (fst (append_value dotted name key v container), [])"
proof -
  obtain ms where m: "map_of (fst (append_value dotted name key v container)) key = Some (JArray ms)" "JText v \<in> set ms"
    using append_value_member by blast
  show ?thesis unfolding append_value_def [of dotted name key v "fst (append_value dotted name key v container)"] by (simp add: m)
qed

section \<open>Where an operation panics\<close>

text \<open>An operation panics exactly when the file it reads holds the JSON text \<open>C32. null\<close>, it keeps no keys, and it sets or appends a
  value. It then writes nothing. A box can write such a file into its persisted home.\<close>

theorem operation_panics_exact:
  "fst (run_json_operation jc writable host root ph jo home) = Err NilMapPanic \<longleftrightarrow>
     jo_keep jo = [] \<and> (jo_set jo \<noteq> [] \<or> jo_append jo \<noteq> []) \<and>
     (\<exists>bytes. jc_parse jc bytes = Some None \<and>
        (if jo_from jo = [] then home (jo_to jo) = FileBytes bytes
         else \<exists>source. resolve_inside root (jo_from jo) = Ok source \<and> host source = FileBytes bytes))"
proof -
  have r: "resolve_inside root (jo_from jo) \<noteq> Err NilMapPanic" by (simp add: resolve_inside_def Let_def split: option.split)
  have e: "edit_document ph jo document = Err NilMapPanic \<longleftrightarrow> document = None \<and> jo_keep jo = [] \<and> (jo_set jo \<noteq> [] \<or> jo_append jo \<noteq> [])" for document
    by (simp add: edit_document_def Let_def split: option.split prod.split)
  define panics where "panics = (\<lambda>data. \<exists>bytes. data = FileBytes bytes \<and> jc_parse jc bytes = Some None)"
  define edits where "edits \<longleftrightarrow> jo_keep jo = [] \<and> (jo_set jo \<noteq> [] \<or> jo_append jo \<noteq> [])"
  have read: "fst (case read_json_object (jc_parse jc) data source of (document, found, notes) \<Rightarrow>
      if jo_from jo \<noteq> [] \<and> \<not> found then (Ok False, notes, home)
      else (case edit_document ph jo document of
          Err e \<Rightarrow> (Err e, notes, home)
        | Ok (edited, added) \<Rightarrow>
            if \<not> writable (jo_to jo) then (Err (CannotWriteHost (jo_to jo)), notes @ added, home)
            else (Ok True, notes @ added, home(jo_to jo := FileBytes (jc_print jc edited @ [newline]))))) = Err NilMapPanic \<longleftrightarrow>
      panics data \<and> edits" for data source
  proof -
    have d: "fst (case edit_document ph jo document of
          Err e \<Rightarrow> (Err e, ns, home)
        | Ok (edited, added) \<Rightarrow>
            if \<not> writable (jo_to jo) then (Err (CannotWriteHost (jo_to jo)), ns @ added, home)
            else (Ok True, ns @ added, home(jo_to jo := FileBytes (jc_print jc edited @ [newline])))) = Err NilMapPanic \<longleftrightarrow>
        document = None \<and> edits" for document and ns :: "host_note list"
      using e [of document] unfolding edits_def by (cases "edit_document ph jo document") (auto split: prod.split)
    show ?thesis
    proof (cases data)
      case (FileBytes bytes)
      then show ?thesis by (cases "jc_parse jc bytes") (simp_all add: read_json_object_def panics_def d)
    qed (simp_all add: read_json_object_def panics_def d)
  qed
  show ?thesis
  proof (cases "jo_from jo = []")
    case True
    then show ?thesis using read [of "home (jo_to jo)" "jo_to jo"] by (auto simp: run_json_operation_def panics_def edits_def)
  next
    case False
    show ?thesis
    proof (cases "resolve_inside root (jo_from jo)")
      case (Inl x)
      then show ?thesis using False r by (simp add: run_json_operation_def)
    next
      case (Inr source)
      then show ?thesis using False read [of "host source" source] by (auto simp: run_json_operation_def panics_def edits_def)
    qed
  qed
qed

section \<open>Examples\<close>

definition example_codec :: json_codec where
  "example_codec = \<lparr>jc_parse = (\<lambda>bytes. if bytes = [] then None else Some (if bytes = ''null'' then None else Some [(''id'', JObject [(''name'', JText bytes)])])),
     jc_print = (\<lambda>document. [])\<rparr>"

definition example_regex :: regex where
  "example_regex = \<lparr>rx_compiles = (\<lambda>p. True), rx_find = (\<lambda>p v. if has_prefix v p then Some (0, length p) else None)\<rparr>"

definition example_source :: "string \<Rightarrow> environment_source" where
  "example_source p = \<lparr>es_name = ''ID'', es_from = ''~/.agent/me.json'', es_path = ''id.name'', es_pattern = p\<rparr>"

definition example_host :: files where
  "example_host path = (if path = ''/home/me/.agent/me.json'' then FileBytes ''ann'' else FileMissing)"

lemma host_environment_filtered_witness:
  "host_environment example_codec example_regex example_host ''/home/me'' [example_source ''an'', example_source ''ann''] = Ok [''ID=ann''] \<and>
   (\<exists>es\<in>set [example_source ''an'', example_source ''ann'']. matches_in_full example_regex (es_pattern es) ''ann'')"
proof -
  have h: "host_environment example_codec example_regex example_host ''/home/me'' [example_source ''an'', example_source ''ann''] = Ok [''ID=ann'']"
    by code_simp
  have "is_abs ''/home/me''" by code_simp
  from host_environment_filtered [OF h this, of "''ID=ann''"]
  obtain es v where "es \<in> set [example_source ''an'', example_source ''ann'']" "''ID=ann'' = es_name es @ ''='' @ v"
    "matches_in_full example_regex (es_pattern es) v" by auto
  moreover have "es_name es = ''ID''" using calculation(1) by (auto simp: example_source_def)
  ultimately show ?thesis using h by auto
qed

lemma set_dotted_exact_witness:
  "lookup_dotted (fst (set_dotted ''a.b'' ''2'' ''f'' [(''a'', JObject [(''c'', JText ''1'')])])) ''a.b'' = Some ''2'' \<and>
   lookup_dotted (fst (set_dotted ''a.b'' ''2'' ''f'' [(''a'', JObject [(''c'', JText ''1'')])])) ''a.c'' = Some ''1''"
proof -
  have "\<not> prefix (split_on CHR ''.'' ''a.c'') (split_on CHR ''.'' ''a.b'')" "\<not> prefix (split_on CHR ''.'' ''a.b'') (split_on CHR ''.'' ''a.c'')"
    "lookup_dotted [(''a'', JObject [(''c'', JText ''1'')])] ''a.c'' = Some ''1''"
    by code_simp+
  then show ?thesis using set_dotted_exact [of "''a.b''" "''2''" "''f''" "[(''a'', JObject [(''c'', JText ''1'')])]" "''a.c''"] by simp
qed

theorem operation_panics_exact_witness:
  "fst (run_json_operation example_codec (\<lambda>name. True) example_host ''/home/me'' \<lparr>ph_tail = [], ph_inmate = [], ph_project = []\<rparr>
     \<lparr>jo_from = [], jo_to = ''settings.json'', jo_keep = [], jo_append = [], jo_set = [(''a'', ''1'')]\<rparr>
     (\<lambda>name. if name = ''settings.json'' then FileBytes ''null'' else FileMissing)) = Err NilMapPanic"
  unfolding operation_panics_exact by (auto simp: example_codec_def)

end
