(* ===== verification/Plugin_Hash.thy ===== *)
theory Plugin_Hash
  imports Plugin_Manifest State_Root
begin

text \<open>
  \<open>internal/plugin/hash.go\<close>: the hash of an inmate's directory, which its approval records.

  A directory is the list of its entries as \<open>ReadDir\<close> gives them. SHA-256 is a parameter; that it does not
  collide is a hypothesis of the theorem that the hash determines the files. A file that is neither regular
  nor a link has no kind and no content in the hash, so the theorem is about trees without such files, which
  is what a clone of a repository holds.
\<close>

section \<open>Trees\<close>

datatype tree = TDir "(string \<times> tree) list" | TFile string nat | TLink string nat | TSpecial nat

definition ignored_tree_names :: "string list" where
  "ignored_tree_names = [''.git'', ''.DS_Store'', ''__pycache__'', ''node_modules'']"

definition tree_path :: "string \<Rightarrow> string \<Rightarrow> string" where
  "tree_path parent name = (if parent = [] then name else parent @ ''/'' @ name)"

text \<open>The walk in the order of the entries: the leaves with their paths. An ignored directory is skipped.\<close>

function walk_tree :: "string \<Rightarrow> (string \<times> tree) list \<Rightarrow> (string \<times> tree) list" where
  "walk_tree parent [] = []"
| "walk_tree parent ((name, t) # ts) =
     (if name \<in> set ignored_tree_names then []
      else (case t of TDir es \<Rightarrow> walk_tree (tree_path parent name) es | _ \<Rightarrow> [(tree_path parent name, t)])) @ walk_tree parent ts"
  by pat_completeness auto
termination
  by (relation "measure (\<lambda>(p, ts). size_list (size_prod (\<lambda>n. 0) size) ts)") auto

definition tree_files :: "(string \<times> tree) list \<Rightarrow> string list" where
  "tree_files ts = map fst (walk_tree [] ts)"

fun tree_perm :: "tree \<Rightarrow> nat" where
  "tree_perm (TDir es) = 0"
| "tree_perm (TFile content perm) = perm"
| "tree_perm (TLink target perm) = perm"
| "tree_perm (TSpecial perm) = perm"

text \<open>\<open>Perm() \& 0o100\<close>.\<close>

definition owner_executes :: "nat \<Rightarrow> bool" where "owner_executes perm \<longleftrightarrow> odd (perm div 64)"

section \<open>Frames\<close>

text \<open>\<open>binary.BigEndian\<close> of a \<open>uint64\<close>.\<close>

definition big_endian :: "nat \<Rightarrow> string" where
  "big_endian n = map (\<lambda>i. char_of (n div 256 ^ (7 - i))) [0..<8]"

definition write_framed :: "string \<Rightarrow> string" where
  "write_framed part = big_endian (length part) @ part"

definition entry_parts :: "(string \<Rightarrow> string) \<Rightarrow> string \<times> tree \<Rightarrow> string list" where
  "entry_parts sha e = (case e of (path, t) \<Rightarrow>
     [path, [char_of (if owner_executes (tree_perm t) then 1 else 0 :: nat)]] @
     (case t of
        TLink target perm \<Rightarrow> [''l'', target]
      | TFile content perm \<Rightarrow> [''f'', sha content]
      | _ \<Rightarrow> []))"

definition hash_input :: "(string \<Rightarrow> string) \<Rightarrow> (string \<times> tree) list \<Rightarrow> string" where
  "hash_input sha ts = concat (map write_framed (concat (map (entry_parts sha) (walk_tree [] ts))))"

definition tree_hash :: "(string \<Rightarrow> string) \<Rightarrow> (string \<times> tree) list \<Rightarrow> string" where
  "tree_hash sha ts = hex_encode (sha (hash_input sha ts))"

section \<open>The hash determines the files\<close>

lemma big_endian_length [simp]: "length (big_endian n) = 8" by (simp add: big_endian_def)

lemma big_endian_neq_Nil [simp]: "big_endian n \<noteq> []" by (metis big_endian_length list.size(3) zero_neq_numeral)

lemma big_endian_inject:
  assumes "big_endian m = big_endian n" "m < 2 ^ 64" "n < 2 ^ 64"
  shows "m = n"
proof -
  have d: "m div 256 ^ k mod 256 = n div 256 ^ k mod 256" if "k < 8" for k
  proof -
    have "big_endian m ! (7 - k) = big_endian n ! (7 - k)" using assms(1) by simp
    moreover have "[0..<8] ! (7 - k) = 7 - k" using nth_upt [of 0 "7 - k" 8] by simp
    ultimately have "(char_of (m div 256 ^ k) :: char) = char_of (n div 256 ^ k)" using that by (simp add: big_endian_def)
    then show ?thesis by (metis of_char_of)
  qed
  have e: "x mod 256 ^ k = y mod 256 ^ k" if "\<forall>j<k. x div 256 ^ j mod 256 = y div 256 ^ j mod 256" for k and x y :: nat
    using that
  proof (induction k)
    case (Suc k)
    have "z mod 256 ^ Suc k = 256 ^ k * (z div 256 ^ k mod 256) + z mod 256 ^ k" for z :: nat
      by (metis mod_mult2_eq power_Suc2)
    then show ?case using Suc by simp
  qed simp
  have "m mod 256 ^ 8 = n mod 256 ^ 8" using d e by blast
  then show ?thesis using assms(2,3) by simp
qed

lemma framed_inject:
  assumes "write_framed a @ x = write_framed b @ y" "length a < 2 ^ 64" "length b < 2 ^ 64"
  shows "a = b \<and> x = y"
proof -
  have "big_endian (length a) = big_endian (length b)" "a @ x = b @ y"
    using assms(1) append_eq_append_conv [of "big_endian (length a)" "big_endian (length b)"] by (simp_all add: write_framed_def)
  then show ?thesis using big_endian_inject assms(2,3) by simp
qed

lemma framed_list_inject:
  "concat (map write_framed as) = concat (map write_framed bs) \<Longrightarrow> \<forall>p\<in>set as \<union> set bs. length p < 2 ^ 64 \<Longrightarrow> as = bs"
proof (induction as arbitrary: bs)
  case Nil
  then show ?case by (cases bs) (auto simp: write_framed_def)
next
  case (Cons a as)
  then obtain b bs' where b: "bs = b # bs'" by (cases bs) (auto simp: write_framed_def)
  have "a = b \<and> concat (map write_framed as) = concat (map write_framed bs')"
    using Cons.prems b by (intro framed_inject) auto
  then show ?case using Cons b by auto
qed

lemma hex_char_inject: "hex_char m = hex_char n \<Longrightarrow> m < 16 \<Longrightarrow> n < 16 \<Longrightarrow> m = n"
  by (auto simp: hex_char_def split: if_splits dest!: arg_cong [of _ _ "of_char :: char \<Rightarrow> nat"])

lemma hex_encode_inject: "hex_encode a = hex_encode b \<Longrightarrow> a = b"
proof (induction a arbitrary: b)
  case Nil
  then show ?case by (cases b) (simp_all add: hex_encode_def)
next
  case (Cons c a)
  obtain d b' where b: "b = d # b'" using Cons.prems by (cases b) (auto simp: hex_encode_def)
  let ?c = "of_char c :: nat" and ?d = "of_char d :: nat"
  have "hex_char (?c div 16) = hex_char (?d div 16)" "hex_char (?c mod 16) = hex_char (?d mod 16)" "hex_encode a = hex_encode b'"
    using Cons.prems b by (simp_all add: hex_encode_def)
  moreover have "?c div 16 < 16" "?d div 16 < 16"
    using of_char_less [of c] of_char_less [of d] less_mult_imp_div_less [of ?c 16 16] less_mult_imp_div_less [of ?d 16 16] by simp_all
  ultimately have "?c div 16 = ?d div 16" "?c mod 16 = ?d mod 16" using hex_char_inject by simp_all
  then have "?c = ?d" by (metis div_mult_mod_eq)
  then show ?case using Cons.IH \<open>hex_encode a = hex_encode b'\<close> b by simp
qed

text \<open>What the hash sees of an entry.\<close>

fun seen :: "string \<times> tree \<Rightarrow> string \<times> bool \<times> bool \<times> string" where
  "seen (path, t) = (path, owner_executes (tree_perm t), (case t of TLink _ _ \<Rightarrow> True | _ \<Rightarrow> False),
     (case t of TLink target _ \<Rightarrow> target | TFile content _ \<Rightarrow> content | _ \<Rightarrow> []))"

definition no_special :: "(string \<times> tree) list \<Rightarrow> bool" where
  "no_special es \<longleftrightarrow> list_all (\<lambda>(path, t). case t of TFile _ _ \<Rightarrow> True | TLink _ _ \<Rightarrow> True | _ \<Rightarrow> False) es"

lemma parts_inject:
  assumes "\<forall>x y. sha x = sha y \<longrightarrow> x = y"
  shows "concat (map (entry_parts sha) es) = concat (map (entry_parts sha) fs) \<Longrightarrow> no_special es \<Longrightarrow> no_special fs \<Longrightarrow>
    map seen es = map seen fs"
proof (induction es arbitrary: fs)
  case Nil
  then show ?case by (cases fs) (auto simp: entry_parts_def split: prod.splits)
next
  case (Cons e es)
  have four: "\<exists>kind body. entry_parts sha (p, t) = [p, [char_of (if owner_executes (tree_perm t) then 1 else 0 :: nat)], kind, body]"
    if "no_special [(p, t)]" for p t
    using that by (cases t) (auto simp: entry_parts_def no_special_def)
  obtain p t where e: "e = (p, t)" by (cases e)
  have n: "no_special [(p, t)]" "no_special es" using Cons.prems(2) e by (simp_all add: no_special_def)
  obtain f fs' where f: "fs = f # fs'"
    using Cons.prems(1) four [OF n(1)] e by (cases fs) auto
  obtain q u where fq: "f = (q, u)" by (cases f)
  have m: "no_special [(q, u)]" "no_special fs'" using Cons.prems(3) f fq by (simp_all add: no_special_def)
  have len: "length (entry_parts sha (p, t)) = length (entry_parts sha (q, u))" using four [OF n(1)] four [OF m(1)] by auto
  have h: "entry_parts sha (p, t) = entry_parts sha (q, u)" "concat (map (entry_parts sha) es) = concat (map (entry_parts sha) fs')"
    using Cons.prems(1) len f fq e by simp_all
  have bit: "(char_of (if a then 1 else 0 :: nat) :: char) = char_of (if b then 1 else 0 :: nat) \<Longrightarrow> a = b" for a b
    by (auto dest: arg_cong [of _ _ "of_char :: char \<Rightarrow> nat"] split: if_splits)
  have "seen (p, t) = seen (q, u)"
    using h(1) n(1) m(1) assms bit [of "owner_executes (tree_perm t)" "owner_executes (tree_perm u)"]
    by (cases t; cases u) (auto simp: entry_parts_def no_special_def)
  then show ?case using Cons.IH [OF h(2) n(2) m(2)] f fq e by simp
qed

lemma hash_determines:
  assumes "\<forall>x y. sha x = sha y \<longrightarrow> x = y" "tree_hash sha ts = tree_hash sha us"
    and "no_special (walk_tree [] ts)" "no_special (walk_tree [] us)"
    and "\<forall>part\<in>set (concat (map (entry_parts sha) (walk_tree [] ts @ walk_tree [] us))). length part < 2 ^ 64"
  shows "map seen (walk_tree [] ts) = map seen (walk_tree [] us)"
proof -
  let ?ps = "\<lambda>ts. concat (map (entry_parts sha) (walk_tree [] ts))"
  have "sha (hash_input sha ts) = sha (hash_input sha us)"
    using assms(2) unfolding tree_hash_def by (rule hex_encode_inject)
  then have "concat (map write_framed (?ps ts)) = concat (map write_framed (?ps us))"
    using assms(1) unfolding hash_input_def by blast
  moreover have "\<forall>p\<in>set (?ps ts) \<union> set (?ps us). length p < 2 ^ 64" using assms(5) by auto
  ultimately have "?ps ts = ?ps us" by (rule framed_list_inject)
  then show ?thesis using parts_inject [OF assms(1)] assms(3,4) by blast
qed

end
