(* ===== verification/Plugin_Registry.thy ===== *)
theory Plugin_Registry
  imports Plugin_Hash "HOL-Library.AList"
begin

text \<open>
  \<open>internal/plugin/registry.go\<close> and \<open>install.go\<close>: which inmates there are, which of them may be used, and how one is
  installed, approved, updated and removed.

  The registry is the bundled and the installed directories, each list in the order of \<open>ReadDir\<close>, and the
  approval records. The parser of manifests and SHA-256 are parameters, and a clone is the tree it fetched.
  Read and write errors of the file system are not modelled. A link in the place of a manifest is followed, as the code does: where the
  links of a directory lead is part of the registry, because it is not part of the directory. The properties say that
  only bundled and approved inmates load, and that an approval binds the files it was given for; one lemma shows that it does not bind
  a manifest that is a link.
\<close>

section \<open>Inmates\<close>

record approval =
  ap_hash :: string
  ap_url :: string
  ap_ref :: string

datatype approval_file = NoApproval | BadApproval | Approved approval

type_synonym directory = "(string \<times> tree) list"

text \<open>Where a link leads: nowhere, to what is no readable file, or to a content.\<close>

datatype link_end = NoTarget | UnreadableTarget | TargetContent string

record registry =
  rg_bundled :: directory
  rg_installed :: directory
  rg_follow :: "string \<Rightarrow> string \<Rightarrow> link_end"
  rg_install_dir :: string
  rg_approvals :: "string \<Rightarrow> approval_file"

datatype inmate_problem =
    ManifestUnreadable
  | ManifestInvalid manifest_error
  | NameMismatch string string
  | TakenByBundled string

record inmate =
  im_name :: string
  im_dir :: string
  im_tree :: directory
  im_manifest :: "manifest option"
  im_bundled :: bool
  im_trusted :: bool
  im_approval :: "approval option"
  im_problem :: "inmate_problem option"

datatype registry_error =
    ApprovalInvalid string
  | NoSuchInmate string "string list"
  | AliasContested string "string list"
  | InmateUnusable string inmate_problem
  | ChangedAfterApproval string
  | BundledInmate string
  | NotApproved
  | NoInstallDir
  | NoManifestInRepository
  | FetchedInvalid manifest_error
  | NameChanged string string
  | TakenByCommand string
  | TakenByInmate string
  | TakenByAlias string string
  | SourceNotRecorded string
  | CloneFailed string

type_synonym parser = "string \<Rightarrow> (manifest_error, manifest) result"

definition inmate_aliases :: "inmate \<Rightarrow> string list" where
  "inmate_aliases i = (case im_manifest i of None \<Rightarrow> [] | Some m \<Rightarrow> mf_aliases m)"

definition has_alias :: "inmate \<Rightarrow> string \<Rightarrow> bool" where
  "has_alias i name = list_ex (\<lambda>alias. alias = name) (inmate_aliases i)"

definition inmate_origin :: "inmate \<Rightarrow> string \<times> string" where
  "inmate_origin i = (case im_approval i of None \<Rightarrow> ([], []) | Some ap \<Rightarrow> (ap_url ap, ap_ref ap))"

text \<open>What \<open>Stat\<close> and \<open>ReadFile\<close> find in the place of the manifest.\<close>

definition manifest_read :: "(string \<Rightarrow> link_end) \<Rightarrow> directory \<Rightarrow> link_end" where
  "manifest_read follow ts =
     (case map_of ts manifest_file_name of
        None \<Rightarrow> NoTarget
      | Some (TFile content perm) \<Rightarrow> TargetContent content
      | Some (TLink target perm) \<Rightarrow> follow target
      | _ \<Rightarrow> UnreadableTarget)"

definition new_inmate :: "parser \<Rightarrow> string \<Rightarrow> string \<Rightarrow> (string \<Rightarrow> link_end) \<Rightarrow> directory \<Rightarrow> inmate" where
  "new_inmate parse name dir follow ts =
     (let i = \<lparr>im_name = name, im_dir = dir, im_tree = ts, im_manifest = None, im_bundled = False, im_trusted = False,
            im_approval = None, im_problem = None\<rparr>
      in case manifest_read follow ts of
           TargetContent content \<Rightarrow> (case parse content of
               Err e \<Rightarrow> i\<lparr>im_problem := Some (ManifestInvalid e)\<rparr>
             | Ok m \<Rightarrow> if mf_name m \<noteq> name then i\<lparr>im_problem := Some (NameMismatch (mf_name m) name)\<rparr>
                       else i\<lparr>im_manifest := Some m\<rparr>)
         | _ \<Rightarrow> i\<lparr>im_problem := Some ManifestUnreadable\<rparr>)"

text \<open>The directories that have a manifest file. The files that are embedded in the program have no links.\<close>

definition no_links :: "string \<Rightarrow> string \<Rightarrow> link_end" where "no_links name target = NoTarget"

definition inmate_directories :: "(string \<Rightarrow> string \<Rightarrow> link_end) \<Rightarrow> directory \<Rightarrow> (string \<times> directory) list" where
  "inmate_directories follow ts = List.map_filter
     (\<lambda>(name, t). case t of TDir es \<Rightarrow> (if manifest_read (follow name) es \<noteq> NoTarget then Some (name, es) else None) | _ \<Rightarrow> None) ts"

definition bundled_inmates :: "parser \<Rightarrow> registry \<Rightarrow> inmate list" where
  "bundled_inmates parse rg =
     map (\<lambda>(name, es). (new_inmate parse name [] (no_links name) es)\<lparr>im_bundled := True, im_trusted := True\<rparr>)
       (inmate_directories no_links (rg_bundled rg))"

definition hash_matches :: "(string \<Rightarrow> string) \<Rightarrow> directory \<Rightarrow> approval option \<Rightarrow> bool" where
  "hash_matches sha ts given = (case given of None \<Rightarrow> False
     | Some ap \<Rightarrow> if ap_hash ap = [] then False else tree_hash sha ts = ap_hash ap)"

definition read_approval :: "registry \<Rightarrow> string \<Rightarrow> (registry_error, approval option) result" where
  "read_approval rg name = (case rg_approvals rg name of
       NoApproval \<Rightarrow> Ok None | BadApproval \<Rightarrow> Err (ApprovalInvalid name) | Approved ap \<Rightarrow> Ok (Some ap))"

definition installed_inmate :: "parser \<Rightarrow> (string \<Rightarrow> string) \<Rightarrow> registry \<Rightarrow> string \<times> directory \<Rightarrow> (registry_error, inmate) result" where
  "installed_inmate parse sha rg entry = (case entry of (name, es) \<Rightarrow>
     bind_res (read_approval rg name) (\<lambda>given.
       Ok ((new_inmate parse name (path_join [rg_install_dir rg, name]) (rg_follow rg name) es)
         \<lparr>im_approval := given, im_trusted := hash_matches sha es given\<rparr>)))"

definition installed_inmates :: "parser \<Rightarrow> (string \<Rightarrow> string) \<Rightarrow> registry \<Rightarrow> (registry_error, inmate list) result" where
  "installed_inmates parse sha rg =
     (if rg_install_dir rg = [] then Ok [] else map_res (installed_inmate parse sha rg) (inmate_directories (rg_follow rg) (rg_installed rg)))"

text \<open>\<open>SliceStable\<close> by the name, and the bundled one first among equal names: two stable sorts.\<close>

definition sort_inmates :: "inmate list \<Rightarrow> inmate list" where
  "sort_inmates is = sort_key im_name (sort_key (\<lambda>i. if im_bundled i then 0 else 1 :: nat) is)"

definition list_inmates :: "parser \<Rightarrow> (string \<Rightarrow> string) \<Rightarrow> registry \<Rightarrow> (registry_error, inmate list) result" where
  "list_inmates parse sha rg =
     (let bundled = bundled_inmates parse rg; shipped = map im_name bundled in
      bind_res (installed_inmates parse sha rg) (\<lambda>installed.
        Ok (sort_inmates (bundled @ map (\<lambda>i. if im_name i \<in> set shipped then i\<lparr>im_problem := Some (TakenByBundled (im_name i))\<rparr> else i) installed))))"

definition inmate_claiming_alias :: "string \<Rightarrow> inmate list \<Rightarrow> (registry_error, inmate) result" where
  "inmate_claiming_alias alias claiming =
     (let first = hd claiming;
          contested = im_name first # filter (\<lambda>n. n \<noteq> im_name first) (map im_name (tl claiming))
      in if length contested = 1 then Ok first else Err (AliasContested alias contested))"

definition get_inmate :: "parser \<Rightarrow> (string \<Rightarrow> string) \<Rightarrow> registry \<Rightarrow> string \<Rightarrow> (registry_error, inmate) result" where
  "get_inmate parse sha rg name =
     bind_res (list_inmates parse sha rg) (\<lambda>inmates.
       case find (\<lambda>i. im_name i = name) inmates of
         Some i \<Rightarrow> Ok i
       | None \<Rightarrow> (case filter (\<lambda>i. has_alias i name) inmates of
             [] \<Rightarrow> Err (NoSuchInmate name (remdups_adj (map im_name inmates)))
           | claiming \<Rightarrow> inmate_claiming_alias name claiming))"

fun load_inmates ::
  "parser \<Rightarrow> (string \<Rightarrow> string) \<Rightarrow> registry \<Rightarrow> string list \<Rightarrow> string list \<Rightarrow> (registry_error, inmate list) result" where
  "load_inmates parse sha rg loaded [] = Ok []"
| "load_inmates parse sha rg loaded (name # names) =
     bind_res (get_inmate parse sha rg name) (\<lambda>i.
       if im_name i \<in> set loaded then load_inmates parse sha rg loaded names
       else (case im_problem i of
           Some p \<Rightarrow> Err (InmateUnusable (im_name i) p)
         | None \<Rightarrow> if \<not> im_trusted i then Err (ChangedAfterApproval (im_name i))
             else bind_res (load_inmates parse sha rg (im_name i # loaded) names) (\<lambda>is. Ok (i # is))))"

section \<open>Approval and installation\<close>

text \<open>The user sees the lines and the files.\<close>

type_synonym approver = "string list \<Rightarrow> string list \<Rightarrow> bool"

definition approve_inmate ::
  "parser \<Rightarrow> (string \<Rightarrow> string) \<Rightarrow> approver \<Rightarrow> string \<Rightarrow> registry \<Rightarrow> (registry_error, inmate) result \<times> registry" where
  "approve_inmate parse sha approve name rg =
     (case get_inmate parse sha rg name of
        Err e \<Rightarrow> (Err e, rg)
      | Ok i \<Rightarrow>
          if im_bundled i then (Ok i, rg)
          else (case im_problem i of
              Some p \<Rightarrow> (Err (InmateUnusable (im_name i) p), rg)
            | None \<Rightarrow>
                if im_trusted i then (Ok i, rg)
                else if \<not> approve (case im_manifest i of None \<Rightarrow> [] | Some m \<Rightarrow> approval_lines m) (tree_files (im_tree i)) then (Err NotApproved, rg)
                else (let (url, ref) = inmate_origin i;
                          rg1 = rg\<lparr>rg_approvals := (rg_approvals rg)(im_name i :=
                            Approved \<lparr>ap_hash = tree_hash sha (im_tree i), ap_url = url, ap_ref = ref\<rparr>)\<rparr>
                      in (get_inmate parse sha rg1 (im_name i), rg1))))"

definition name_taken :: "inmate list \<Rightarrow> string \<Rightarrow> registry_error option" where
  "name_taken shipped name =
     (if name \<in> set reserved_names then Some (TakenByCommand name)
      else (case find (\<lambda>i. im_name i = name \<or> has_alias i name) shipped of
          None \<Rightarrow> None
        | Some i \<Rightarrow> if im_name i = name then Some (TakenByInmate name) else Some (TakenByAlias (im_name i) name)))"

definition refuse_unusable_names :: "parser \<Rightarrow> registry \<Rightarrow> manifest \<Rightarrow> (registry_error, unit) result" where
  "refuse_unusable_names parse rg m =
     check_all (\<lambda>name. case name_taken (bundled_inmates parse rg) name of None \<Rightarrow> Ok () | Some e \<Rightarrow> Err e)
       (mf_name m # mf_aliases m)"

text \<open>\<open>copyTree\<close>: the ignored names and the special files stay behind.\<close>

function copy_tree :: "directory \<Rightarrow> directory" where
  "copy_tree [] = []"
| "copy_tree ((name, t) # ts) =
     (if name \<in> set ignored_tree_names then []
      else (case t of TDir es \<Rightarrow> [(name, TDir (copy_tree es))] | TSpecial perm \<Rightarrow> [] | _ \<Rightarrow> [(name, t)])) @ copy_tree ts"
  by pat_completeness auto
termination
  by (relation "measure (size_list (size_prod (\<lambda>n. 0) size))") auto

definition put_directory :: "string \<Rightarrow> directory \<Rightarrow> directory \<Rightarrow> directory" where
  "put_directory name es ts = sort_key fst ((name, TDir es) # filter (\<lambda>(n, t). n \<noteq> name) ts)"

text \<open>A fetched tree with where its links lead.\<close>

type_synonym fetched = "directory \<times> (string \<Rightarrow> link_end)"

definition install_fetched ::
  "parser \<Rightarrow> (string \<Rightarrow> string) \<Rightarrow> approver \<Rightarrow> fetched \<Rightarrow> string \<Rightarrow> string \<Rightarrow> string \<Rightarrow> registry \<Rightarrow>
     (registry_error, inmate) result \<times> registry" where
  "install_fetched parse sha approve fetched expected url ref rg =
     (if rg_install_dir rg = [] then (Err NoInstallDir, rg)
      else (case manifest_read (snd fetched) (fst fetched) of
          TargetContent content \<Rightarrow>
            (case parse content of
               Err e \<Rightarrow> (Err (FetchedInvalid e), rg)
             | Ok m \<Rightarrow>
                 if expected \<noteq> [] \<and> mf_name m \<noteq> expected then (Err (NameChanged (mf_name m) expected), rg)
                 else (case refuse_unusable_names parse rg m of
                     Err e \<Rightarrow> (Err e, rg)
                   | Ok _ \<Rightarrow>
                       if \<not> approve (approval_lines m) (tree_files (fst fetched)) then (Err NotApproved, rg)
                       else (let copied = copy_tree (fst fetched);
                                 rg1 = rg\<lparr>rg_installed := put_directory (mf_name m) copied (rg_installed rg),
                                   rg_approvals := (rg_approvals rg)(mf_name m :=
                                     Approved \<lparr>ap_hash = tree_hash sha copied, ap_url = url, ap_ref = ref\<rparr>)\<rparr>
                             in (get_inmate parse sha rg1 (mf_name m), rg1))))
        | _ \<Rightarrow> (Err NoManifestInRepository, rg)))"

definition install_inmate ::
  "parser \<Rightarrow> (string \<Rightarrow> string) \<Rightarrow> approver \<Rightarrow> (string \<Rightarrow> string \<Rightarrow> fetched option) \<Rightarrow> string \<Rightarrow> string \<Rightarrow> registry \<Rightarrow>
     (registry_error, inmate) result \<times> registry" where
  "install_inmate parse sha approve clone url ref rg =
     (case clone url ref of None \<Rightarrow> (Err (CloneFailed url), rg)
      | Some source \<Rightarrow> install_fetched parse sha approve source [] url ref rg)"

definition update_inmate ::
  "parser \<Rightarrow> (string \<Rightarrow> string) \<Rightarrow> approver \<Rightarrow> (string \<Rightarrow> string \<Rightarrow> fetched option) \<Rightarrow> string \<Rightarrow> string \<Rightarrow> registry \<Rightarrow>
     (registry_error, inmate) result \<times> registry" where
  "update_inmate parse sha approve clone name ref rg =
     (case get_inmate parse sha rg name of
        Err e \<Rightarrow> (Err e, rg)
      | Ok i \<Rightarrow>
          if im_bundled i then (Err (BundledInmate (im_name i)), rg)
          else (case inmate_origin i of (url, recorded) \<Rightarrow>
            if url = [] then (Err (SourceNotRecorded (im_name i)), rg)
            else (let wanted = (if ref = [] then recorded else ref) in
              case clone url wanted of None \<Rightarrow> (Err (CloneFailed url), rg)
              | Some source \<Rightarrow>
                  if tree_hash sha (fst source) = tree_hash sha (im_tree i) then (Ok i, rg)
                  else install_fetched parse sha approve source (im_name i) url wanted rg)))"

definition remove_inmate :: "parser \<Rightarrow> (string \<Rightarrow> string) \<Rightarrow> string \<Rightarrow> registry \<Rightarrow> registry_error option \<times> registry" where
  "remove_inmate parse sha name rg =
     (case get_inmate parse sha rg name of
        Err e \<Rightarrow> (Some e, rg)
      | Ok i \<Rightarrow>
          if im_bundled i then (Some (BundledInmate (im_name i)), rg)
          else (None, rg\<lparr>rg_installed := filter (\<lambda>(n, t). n \<noteq> im_name i) (rg_installed rg),
            rg_approvals := (rg_approvals rg)(im_name i := NoApproval)\<rparr>))"

section \<open>Only approved inmates load\<close>

lemma new_inmate_fields [simp]:
  "im_name (new_inmate parse name dir follow ts) = name" "im_tree (new_inmate parse name dir follow ts) = ts"
  "im_bundled (new_inmate parse name dir follow ts) = False"
  by (auto simp: new_inmate_def Let_def split: link_end.splits sum.splits)

lemma new_inmate_sound:
  "im_problem (new_inmate parse name dir follow ts) = None \<Longrightarrow>
     \<exists>content m. manifest_read follow ts = TargetContent content \<and> parse content = Ok m \<and> mf_name m = name \<and>
       im_manifest (new_inmate parse name dir follow ts) = Some m"
  by (auto simp: new_inmate_def Let_def split: link_end.splits sum.splits if_splits)

text \<open>What is known of an inmate of the list: it is bundled, or it has an approval for the hash of its files; and it has the manifest that is read
  in its directory.\<close>

definition may_load :: "parser \<Rightarrow> (string \<Rightarrow> string) \<Rightarrow> registry \<Rightarrow> inmate \<Rightarrow> bool" where
  "may_load parse sha rg i \<longleftrightarrow>
     (if im_bundled i then (im_name i, im_tree i) \<in> set (inmate_directories no_links (rg_bundled rg))
      else (im_name i, im_tree i) \<in> set (inmate_directories (rg_follow rg) (rg_installed rg)) \<and>
        im_name i \<notin> fst ` set (inmate_directories no_links (rg_bundled rg)) \<and>
        (\<exists>ap. rg_approvals rg (im_name i) = Approved ap \<and> ap_hash ap = tree_hash sha (im_tree i))) \<and>
     (\<exists>content m. manifest_read ((if im_bundled i then no_links else rg_follow rg) (im_name i)) (im_tree i) = TargetContent content \<and>
        parse content = Ok m \<and> mf_name m = im_name i \<and> im_manifest i = Some m)"

lemma list_all2_source: "list_all2 R xs ys \<Longrightarrow> y \<in> set ys \<Longrightarrow> \<exists>x\<in>set xs. R x y"
  by (induction rule: list_all2_induct) auto

lemma list_all2_target: "list_all2 R xs ys \<Longrightarrow> x \<in> set xs \<Longrightarrow> \<exists>y\<in>set ys. R x y"
  by (induction rule: list_all2_induct) auto

lemma in_directories:
  "(name, es) \<in> set (inmate_directories follow ts) \<longleftrightarrow> (name, TDir es) \<in> set ts \<and> manifest_read (follow name) es \<noteq> NoTarget"
  by (induction ts) (auto simp: inmate_directories_def List.map_filter_simps split: tree.splits option.splits if_splits)

lemma filter_hd: "filter P xs = x # ys \<Longrightarrow> x \<in> set xs \<and> P x"
  by (induction xs) (auto split: if_splits)

lemma installed_source:
  assumes "installed_inmates parse sha rg = Ok installed" "j \<in> set installed"
  shows "\<exists>e\<in>set (inmate_directories (rg_follow rg) (rg_installed rg)). installed_inmate parse sha rg e = Ok j"
proof (cases "rg_install_dir rg = []")
  case True
  then show ?thesis using assms by (simp add: installed_inmates_def)
next
  case False
  then have "list_all2 (\<lambda>e j. installed_inmate parse sha rg e = Ok j) (inmate_directories (rg_follow rg) (rg_installed rg)) installed"
    using assms(1) by (simp add: installed_inmates_def map_res_Ok)
  then show ?thesis using assms(2) by (rule list_all2_source)
qed

lemma listed_may_load:
  assumes "list_inmates parse sha rg = Ok is" "i \<in> set is" "im_problem i = None" "im_trusted i"
  shows "may_load parse sha rg i"
proof -
  let ?bundled = "bundled_inmates parse rg"
  obtain installed where n: "installed_inmates parse sha rg = Ok installed"
    and l: "set is = set ?bundled \<union> (\<lambda>i. if im_name i \<in> set (map im_name ?bundled) then i\<lparr>im_problem := Some (TakenByBundled (im_name i))\<rparr> else i) ` set installed"
    using assms(1) by (auto simp: list_inmates_def Let_def bind_res_Ok sort_inmates_def)
  have names: "set (map im_name ?bundled) = fst ` set (inmate_directories no_links (rg_bundled rg))"
    by (force simp: bundled_inmates_def)
  show ?thesis
  proof (cases "i \<in> set ?bundled")
    case True
    then obtain name es where e: "(name, es) \<in> set (inmate_directories no_links (rg_bundled rg))"
      "i = (new_inmate parse name [] (no_links name) es)\<lparr>im_bundled := True, im_trusted := True\<rparr>"
      by (auto simp: bundled_inmates_def)
    then show ?thesis using assms(3) new_inmate_sound [of parse name "[]" "no_links name" es] by (simp add: may_load_def)
  next
    case False
    then obtain j where j: "j \<in> set installed" "i = (if im_name j \<in> set (map im_name ?bundled) then j\<lparr>im_problem := Some (TakenByBundled (im_name j))\<rparr> else j)"
      using assms(2) l by auto
    then have ij: "i = j" "im_name j \<notin> fst ` set (inmate_directories no_links (rg_bundled rg))" using assms(3) names by (auto split: if_splits)
    obtain e where e: "e \<in> set (inmate_directories (rg_follow rg) (rg_installed rg))" "installed_inmate parse sha rg e = Ok j"
      using installed_source [OF n j(1)] by blast
    obtain name es given where g: "e = (name, es)" "read_approval rg name = Ok given"
      "j = (new_inmate parse name (path_join [rg_install_dir rg, name]) (rg_follow rg name) es)\<lparr>im_approval := given, im_trusted := hash_matches sha es given\<rparr>"
      using e(2) by (cases e) (auto simp: installed_inmate_def bind_res_Ok)
    have "\<exists>ap. rg_approvals rg name = Approved ap \<and> ap_hash ap = tree_hash sha es"
      using g(2,3) ij(1) assms(4)
      by (auto simp: read_approval_def hash_matches_def split: approval_file.splits option.splits if_splits)
    then show ?thesis using new_inmate_sound [of parse name "path_join [rg_install_dir rg, name]" "rg_follow rg name" es] ij g e(1) assms(3)
      by (simp add: may_load_def)
  qed
qed

lemma got_listed: "get_inmate parse sha rg name = Ok i \<Longrightarrow> \<exists>is. list_inmates parse sha rg = Ok is \<and> i \<in> set is \<and> (im_name i = name \<or> has_alias i name)"
proof -
  assume g: "get_inmate parse sha rg name = Ok i"
  then obtain "is" where l: "list_inmates parse sha rg = Ok is"
    and c: "(case find (\<lambda>i. im_name i = name) is of Some i \<Rightarrow> Ok i
       | None \<Rightarrow> (case filter (\<lambda>i. has_alias i name) is of
             [] \<Rightarrow> Err (NoSuchInmate name (remdups_adj (map im_name is)))
           | claiming \<Rightarrow> inmate_claiming_alias name claiming)) = Ok i"
    unfolding get_inmate_def bind_res_Ok by blast
  show ?thesis
  proof (cases "find (\<lambda>i. im_name i = name) is")
    case (Some j)
    then have "i = j" using c by simp
    moreover have "j \<in> set is \<and> im_name j = name" using Some by (auto simp: find_Some_iff)
    ultimately show ?thesis using l by blast
  next
    case None
    then obtain xs where "filter (\<lambda>i. has_alias i name) is = i # xs"
      using c by (cases "filter (\<lambda>i. has_alias i name) is") (simp_all add: inmate_claiming_alias_def Let_def split: if_splits)
    then show ?thesis using l filter_hd by fastforce
  qed
qed

lemma loaded_may_load:
  assumes "load_inmates parse sha rg [] names = Ok is"
  shows "(\<forall>i\<in>set is. may_load parse sha rg i) \<and> distinct (map im_name is)"
proof -
  have "load_inmates parse sha rg loaded names = Ok is \<Longrightarrow>
    (\<forall>i\<in>set is. may_load parse sha rg i) \<and> distinct (map im_name is) \<and> im_name ` set is \<inter> set loaded = {}" for loaded "is"
  proof (induction names arbitrary: loaded "is")
    case (Cons name names)
    obtain i where g: "get_inmate parse sha rg name = Ok i" using Cons.prems by (auto simp: bind_res_Ok)
    show ?case
    proof (cases "im_name i \<in> set loaded")
      case True
      then show ?thesis using Cons g by simp
    next
      case False
      then obtain is' where s: "im_problem i = None" "im_trusted i" "load_inmates parse sha rg (im_name i # loaded) names = Ok is'" "is = i # is'"
        using Cons.prems g by (auto simp: bind_res_Ok split: option.splits if_splits)
      have "may_load parse sha rg i" using got_listed [OF g] listed_may_load s(1,2) by blast
      then show ?thesis using Cons.IH [OF s(3)] s(4) False by auto
    qed
  qed simp
  then show ?thesis using assms by blast
qed

text \<open>C12. Only bundled inmates and inmates whose present files have the approved hash load. A loaded inmate is either bundled, or it is installed under a
  name that no bundled inmate has and its approval holds the hash of its present files; it has a valid manifest that names it, which is read
  in its directory (through a link, when its \<open>inmate.toml\<close> is one). No inmate is loaded twice.\<close>

theorem load_only_approved:
  assumes "load_inmates parse sha rg [] names = Ok is"
  shows "(\<forall>i\<in>set is. may_load parse sha rg i) \<and> distinct (map im_name is)"
  using assms by (rule loaded_may_load)

definition named_manifest :: "string \<Rightarrow> manifest" where
  "named_manifest name = \<lparr>mf_name = name, mf_description = [], mf_aliases = [], mf_foundation = [], mf_dockerfile = [], mf_run = [],
     mf_unsafe = [], mf_auth = None, mf_persist = [], mf_environment = [], mf_hosts = [], mf_box_command = [], mf_host_config = [],
     mf_host_root = [], mf_host_copy = [], mf_host_json = [], mf_host_environment = []\<rparr>"

definition tool_parser :: parser where "tool_parser c = Ok (named_manifest ''tool'')"

definition tool_registry :: registry where
  "tool_registry = \<lparr>rg_bundled = [(''tool'', TDir [(''inmate.toml'', TFile [] 420)])], rg_installed = [], rg_follow = no_links, rg_install_dir = ''/i'',
     rg_approvals = (\<lambda>n. NoApproval)\<rparr>"

theorem load_only_approved_witness:
  "case load_inmates tool_parser id tool_registry [] [''tool'', ''tool''] of Err e \<Rightarrow> False
   | Ok is \<Rightarrow> map im_name is = [''tool''] \<and> (\<forall>i\<in>set is. may_load tool_parser id tool_registry i)"
proof -
  have e: "case load_inmates tool_parser id tool_registry [] [''tool'', ''tool''] of Err e \<Rightarrow> False | Ok is \<Rightarrow> map im_name is = [''tool'']"
    by code_simp
  then obtain "is" where l: "load_inmates tool_parser id tool_registry [] [''tool'', ''tool''] = Ok is"
    by (auto split: sum.splits)
  then show ?thesis using e load_only_approved [OF l] by simp
qed

section \<open>An approval binds the files\<close>

definition special_entry :: "string \<times> tree \<Rightarrow> bool" where
  "special_entry e = (case snd e of TSpecial _ \<Rightarrow> True | _ \<Rightarrow> False)"

lemma walk_copy: "walk_tree parent (copy_tree ts) = filter (\<lambda>e. \<not> special_entry e) (walk_tree parent ts)"
  by (induction parent ts rule: walk_tree.induct) (auto simp: special_entry_def split: tree.splits)

lemma no_special_copy: "no_special (walk_tree [] (copy_tree ts))"
proof -
  have "e \<in> set (walk_tree parent us) \<Longrightarrow> (case snd e of TDir _ \<Rightarrow> False | _ \<Rightarrow> True)" for e parent us
    by (induction parent us rule: walk_tree.induct) (auto split: tree.splits if_splits)
  then show ?thesis
    unfolding no_special_def walk_copy list_all_iff by (fastforce simp: special_entry_def split: tree.splits)
qed

lemma copied_file: "name \<notin> set ignored_tree_names \<Longrightarrow> map_of ts name = Some (TFile content perm) \<Longrightarrow> map_of (copy_tree ts) name = Some (TFile content perm)"
  by (induction ts rule: copy_tree.induct) (auto split: tree.splits if_splits)

lemma copied_manifest: "map_of ts manifest_file_name = Some (TFile content perm) \<Longrightarrow> map_of (copy_tree ts) manifest_file_name = Some (TFile content perm)"
  by (rule copied_file) (simp_all add: ignored_tree_names_def manifest_file_name_def)

lemma listed_names:
  assumes "list_inmates parse sha rg = Ok is" "rg_install_dir rg \<noteq> []"
  shows "fst ` set (inmate_directories (rg_follow rg) (rg_installed rg)) \<subseteq> im_name ` set is"
proof
  fix name assume "name \<in> fst ` set (inmate_directories (rg_follow rg) (rg_installed rg))"
  then obtain es where e: "(name, es) \<in> set (inmate_directories (rg_follow rg) (rg_installed rg))" by force
  obtain installed where n: "list_all2 (\<lambda>e j. installed_inmate parse sha rg e = Ok j) (inmate_directories (rg_follow rg) (rg_installed rg)) installed"
    and s: "set is = set (bundled_inmates parse rg) \<union> (\<lambda>i. if im_name i \<in> set (map im_name (bundled_inmates parse rg))
      then i\<lparr>im_problem := Some (TakenByBundled (im_name i))\<rparr> else i) ` set installed"
    using assms by (auto simp: list_inmates_def Let_def bind_res_Ok sort_inmates_def installed_inmates_def map_res_Ok)
  have l: "im_name ` set installed \<subseteq> im_name ` set is"
    by (auto simp: s image_Un image_image intro!: image_eqI)
  obtain j where "j \<in> set installed" "installed_inmate parse sha rg (name, es) = Ok j"
    using list_all2_target [OF n e] by blast
  then show "name \<in> im_name ` set is" using l by (auto simp: installed_inmate_def bind_res_Ok)
qed

lemma installed_approval:
  assumes "install_fetched parse sha approve fetched expected url ref rg = (Ok i, rg1)"
  shows "\<exists>content m. manifest_read (snd fetched) (fst fetched) = TargetContent content \<and> parse content = Ok m \<and>
    approve (approval_lines m) (tree_files (fst fetched)) \<and>
    rg1 = rg\<lparr>rg_installed := put_directory (mf_name m) (copy_tree (fst fetched)) (rg_installed rg),
       rg_approvals := (rg_approvals rg)(mf_name m := Approved \<lparr>ap_hash = tree_hash sha (copy_tree (fst fetched)), ap_url = url, ap_ref = ref\<rparr>)\<rparr>"
  using assms by (auto simp: install_fetched_def Let_def split: if_splits link_end.splits sum.splits)

lemma leaf_walked: "map_of ts name = Some t \<Longrightarrow> name \<notin> set ignored_tree_names \<Longrightarrow> (\<forall>es. t \<noteq> TDir es) \<Longrightarrow> (name, t) \<in> set (walk_tree [] ts)"
  by (induction ts) (auto simp: tree_path_def split: tree.splits if_splits)

text \<open>With the files of a tree comes a manifest that is a file.\<close>

lemma manifest_from_files:
  assumes "map seen (walk_tree [] ts) = map seen (walk_tree [] us)" "distinct (map fst (walk_tree [] us))"
    and "map_of us manifest_file_name = Some (TFile content perm)" "manifest_read follow ts = TargetContent read"
  shows "read = content"
proof -
  have name: "manifest_file_name \<notin> set ignored_tree_names" by (simp add: manifest_file_name_def ignored_tree_names_def)
  have u: "(manifest_file_name, TFile content perm) \<in> set (walk_tree [] us)" using leaf_walked [OF assms(3) name] by simp
  have same: "seen (manifest_file_name, t) = seen (manifest_file_name, TFile content perm)"
    if "(manifest_file_name, t) \<in> set (walk_tree [] ts)" for t
  proof -
    have "seen (manifest_file_name, t) \<in> set (map seen (walk_tree [] us))" unfolding assms(1) [symmetric] using that by force
    then obtain q v where v: "(q, v) \<in> set (walk_tree [] us)" "seen (manifest_file_name, t) = seen (q, v)" by force
    then have q: "q = manifest_file_name" by simp
    then have "v = TFile content perm" using v(1) u assms(2) by (metis eq_key_imp_eq_value)
    then show ?thesis using v(2) q by simp
  qed
  obtain t where t: "map_of ts manifest_file_name = Some t" using assms(4) by (auto simp: manifest_read_def split: option.splits)
  show ?thesis
  proof (cases t)
    case (TFile c p)
    have "seen (manifest_file_name, t) = seen (manifest_file_name, TFile content perm)" by (rule same) (rule leaf_walked [OF t name], simp add: TFile)
    then show ?thesis using t TFile assms(4) by (simp add: manifest_read_def)
  next
    case (TLink c p)
    have "seen (manifest_file_name, t) = seen (manifest_file_name, TFile content perm)" by (rule same) (rule leaf_walked [OF t name], simp add: TLink)
    then show ?thesis using TLink by simp
  qed (use t assms(4) in \<open>simp_all add: manifest_read_def\<close>)
qed

text \<open>C13. An approval binds the files that it was given for. After an install, an inmate that loads with the approval record of
  the install has the files of the fetched tree, the special ones apart: the same paths, kinds, contents, link targets and owner-execute bits.
  The approval was given by the user, who saw the lines of the manifest and the list of the files; and when the manifest is a file and not a link,
  the inmate loads with the very manifest that the user saw. This relies on the absence of collisions of the hash, and on no special file and no
  part of \<open>2 ^ 64\<close> bytes in the files of the loaded inmate.\<close>

theorem approval_binds_files:
  assumes "install_fetched parse sha approve fetched expected url ref rg = (Ok i, rg1)"
    and "manifest_read (snd fetched) (fst fetched) = TargetContent content" "parse content = Ok m"
    and "load_inmates parse sha rg2 [] names = Ok is" "j \<in> set is" "\<not> im_bundled j" "rg_approvals rg2 (im_name j) = rg_approvals rg1 (mf_name m)"
    and "\<forall>x y. sha x = sha y \<longrightarrow> x = y" "no_special (walk_tree [] (im_tree j))" "distinct (map fst (walk_tree [] (fst fetched)))"
    and "\<forall>part\<in>set (concat (map (entry_parts sha) (walk_tree [] (im_tree j) @ walk_tree [] (copy_tree (fst fetched))))). length part < 2 ^ 64"
  shows "map seen (walk_tree [] (im_tree j)) = map seen (filter (\<lambda>e. \<not> special_entry e) (walk_tree [] (fst fetched))) \<and>
    approve (approval_lines m) (tree_files (fst fetched)) \<and>
    (map_of (fst fetched) manifest_file_name = Some (TFile content perm) \<longrightarrow> im_manifest j = Some m)"
proof -
  have a: "approve (approval_lines m) (tree_files (fst fetched))"
    "rg_approvals rg1 (mf_name m) = Approved \<lparr>ap_hash = tree_hash sha (copy_tree (fst fetched)), ap_url = url, ap_ref = ref\<rparr>"
    using installed_approval [OF assms(1)] assms(2,3) by auto
  have l: "may_load parse sha rg2 j" using loaded_may_load [OF assms(4)] assms(5) by blast
  then have "tree_hash sha (im_tree j) = tree_hash sha (copy_tree (fst fetched))"
    using assms(6,7) a(2) by (auto simp: may_load_def)
  then have s: "map seen (walk_tree [] (im_tree j)) = map seen (walk_tree [] (copy_tree (fst fetched)))"
    using hash_determines assms(8,9,11) no_special_copy by blast
  obtain read m' where r: "manifest_read (rg_follow rg2 (im_name j)) (im_tree j) = TargetContent read" "parse read = Ok m'" "im_manifest j = Some m'"
    using l assms(6) by (auto simp: may_load_def)
  have "im_manifest j = Some m" if f: "map_of (fst fetched) manifest_file_name = Some (TFile content perm)"
  proof -
    have "distinct (map fst (walk_tree [] (copy_tree (fst fetched))))"
      unfolding walk_copy using assms(10) by (rule distinct_map_filter)
    from manifest_from_files [OF s this copied_manifest [OF f] r(1)] show ?thesis using r(2,3) assms(3) by simp
  qed
  then show ?thesis using a(1) s by (simp add: walk_copy)
qed

text \<open>A manifest that is a link is not bound. The hash has only the text of the link, so with the same files and the same approval another manifest
  loads when the link leads to another content.\<close>

definition linked_registry :: "string \<Rightarrow> registry" where
  "linked_registry content =
     (let es = [(''inmate.toml'', TLink ''../t'' 511)]
      in \<lparr>rg_bundled = [], rg_installed = [(''tool'', TDir es)], rg_follow = (\<lambda>name target. TargetContent content), rg_install_dir = ''/i'',
           rg_approvals = (\<lambda>n. Approved \<lparr>ap_hash = tree_hash id es, ap_url = [], ap_ref = []\<rparr>)\<rparr>)"

definition describing_parser :: parser where
  "describing_parser content = Ok ((named_manifest ''tool'')\<lparr>mf_run := content\<rparr>)"

lemma linked_manifest_unbound:
  "case load_inmates describing_parser id (linked_registry content) [] [''tool''] of Err e \<Rightarrow> False
   | Ok is \<Rightarrow> map im_manifest is = [Some ((named_manifest ''tool'')\<lparr>mf_run := content\<rparr>)]"
proof -
  have "tree_hash id [(''inmate.toml'', TLink ''../t'' 511)] \<noteq> []"
    by (simp add: tree_hash_def hash_input_def entry_parts_def write_framed_def hex_encode_def ignored_tree_names_def tree_path_def big_endian_def)
  then show ?thesis
    by (simp add: linked_registry_def describing_parser_def named_manifest_def get_inmate_def list_inmates_def installed_inmates_def installed_inmate_def
        inmate_directories_def List.map_filter_simps bundled_inmates_def sort_inmates_def new_inmate_def manifest_read_def hash_matches_def
        read_approval_def manifest_file_name_def Let_def)
qed

definition fetched_tool :: directory where
  "fetched_tool = [(''.git'', TDir []), (''inmate.toml'', TFile ''x'' 420), (''run'', TFile ''y'' 493)]"

definition after_install :: "(registry_error, inmate) result \<times> registry" where
  "after_install = install_fetched tool_parser id (\<lambda>lines files. files = [''inmate.toml'', ''run'']) (fetched_tool, no_links []) [] ''u'' ''r''
     (tool_registry\<lparr>rg_bundled := []\<rparr>)"

lemma tool_hash: "tree_hash id [(''inmate.toml'', TFile ''x'' 420), (''run'', TFile ''y'' 493)] \<noteq> []"
  by (simp add: tree_hash_def hash_input_def entry_parts_def write_framed_def hex_encode_def ignored_tree_names_def tree_path_def big_endian_def)

theorem approval_binds_files_witness:
  "case load_inmates tool_parser id (snd after_install) [] [''tool''] of Err e \<Rightarrow> False
   | Ok is \<Rightarrow> is \<noteq> [] \<and> map seen (walk_tree [] (im_tree (hd is))) = [(''inmate.toml'', False, False, ''x''), (''run'', True, False, ''y'')] \<and>
       im_manifest (hd is) = Some (named_manifest ''tool'')"
proof -
  have e: "case (fst after_install, load_inmates tool_parser id (snd after_install) [] [''tool'']) of
      (Ok i, Ok [j]) \<Rightarrow> \<not> im_bundled j \<and> im_name j = ''tool'' \<and> no_special (walk_tree [] (im_tree j)) \<and>
        list_all (\<lambda>part. length part < 100) (concat (map (entry_parts id) (walk_tree [] (im_tree j) @ walk_tree [] (copy_tree fetched_tool))))
    | _ \<Rightarrow> False"
    using tool_hash
    by (simp add: after_install_def install_fetched_def tool_parser_def tool_registry_def named_manifest_def fetched_tool_def
        put_directory_def get_inmate_def list_inmates_def installed_inmates_def installed_inmate_def inmate_directories_def
        List.map_filter_simps bundled_inmates_def sort_inmates_def new_inmate_def manifest_read_def hash_matches_def read_approval_def refuse_unusable_names_def
        name_taken_def reserved_names_def manifest_file_name_def tree_files_def ignored_tree_names_def tree_path_def no_special_def
        entry_parts_def Let_def)
  then obtain i j where l: "fst after_install = Ok i" "load_inmates tool_parser id (snd after_install) [] [''tool''] = Ok [j]"
    and f: "\<not> im_bundled j" "im_name j = ''tool''" "no_special (walk_tree [] (im_tree j))"
      "list_all (\<lambda>part. length part < 100) (concat (map (entry_parts id) (walk_tree [] (im_tree j) @ walk_tree [] (copy_tree fetched_tool))))"
    by (auto split: sum.splits list.splits)
  have i: "install_fetched tool_parser id (\<lambda>lines files. files = [''inmate.toml'', ''run'']) (fetched_tool, no_links []) [] ''u'' ''r''
     (tool_registry\<lparr>rg_bundled := []\<rparr>) = (Ok i, snd after_install)"
    using l(1) unfolding after_install_def by (metis prod.collapse)
  have p: "\<forall>part\<in>set (concat (map (entry_parts id) (walk_tree [] (im_tree j) @ walk_tree [] (copy_tree (fst (fetched_tool, no_links [])))))). length part < 2 ^ 64"
    using f(4) unfolding list_all_iff fst_conv by fastforce
  have r: "manifest_read (snd (fetched_tool, no_links [])) (fst (fetched_tool, no_links [])) = TargetContent ''x''"
    "map_of (fst (fetched_tool, no_links [])) manifest_file_name = Some (TFile ''x'' 420)"
    "distinct (map fst (walk_tree [] (fst (fetched_tool, no_links []))))" by code_simp+
  have m: "tool_parser ''x'' = Ok (named_manifest ''tool'')" by (simp add: tool_parser_def)
  have "mf_name (named_manifest ''tool'') = ''tool''" by (simp add: named_manifest_def)
  then have "map seen (walk_tree [] (im_tree j)) = map seen (filter (\<lambda>e. \<not> special_entry e) (walk_tree [] fetched_tool)) \<and>
      im_manifest j = Some (named_manifest ''tool'')"
    using approval_binds_files [OF i r(1) m l(2) _ f(1) _ _ f(3) r(3) p, of 420] f(2) r(2) by simp
  moreover have "map seen (filter (\<lambda>e. \<not> special_entry e) (walk_tree [] fetched_tool)) =
    [(''inmate.toml'', False, False, ''x''), (''run'', True, False, ''y'')]"
    by code_simp
  ultimately show ?thesis using l(2) by simp
qed

section \<open>An inmate that a bundled one hides\<close>

lemma find_hd: "filter P xs = x # ys \<Longrightarrow> find P xs = Some x"
  by (induction xs) (auto split: if_splits)

lemma new_inmate_problem [simp]: "im_problem (new_inmate parse name dir follow ts) \<noteq> Some (TakenByBundled n)"
  by (auto simp: new_inmate_def Let_def split: link_end.splits sum.splits)

lemma installed_problem:
  assumes "installed_inmates parse sha rg = Ok installed" "i \<in> set installed"
  shows "im_problem i \<noteq> Some (TakenByBundled n)"
proof -
  obtain e where "installed_inmate parse sha rg e = Ok i"
    using installed_source [OF assms] by blast
  then show ?thesis by (cases e) (auto simp: installed_inmate_def bind_res_Ok)
qed

lemma sort_inmates_first:
  assumes "i \<in> set is" "im_bundled i"
  shows "\<exists>j. find (\<lambda>j. im_name j = im_name i) (sort_inmates is) = Some j \<and> im_name j = im_name i \<and> im_bundled j"
proof -
  let ?P = "\<lambda>j. im_name j = im_name i" and ?f = "\<lambda>j. if im_bundled j then 0 else 1 :: nat"
  have n: "filter ?P (sort_inmates is) = sort_key ?f (filter ?P is)"
    by (simp add: sort_inmates_def sort_key_stable filter_sort)
  have "i \<in> set (sort_key ?f (filter ?P is))" using assms by simp
  then obtain j js where j: "sort_key ?f (filter ?P is) = j # js" by (metis list.set_cases)
  have "sorted (map ?f (j # js))" using sorted_sort_key [of ?f "filter ?P is"] unfolding j .
  moreover have "i \<in> set (j # js)" using \<open>i \<in> set (sort_key ?f (filter ?P is))\<close> unfolding j .
  ultimately have "im_bundled j" using assms(2) by (auto split: if_splits)
  moreover have "im_name j = im_name i" using n j filter_hd by fastforce
  moreover have "find ?P (sort_inmates is) = Some j" using n j by (simp add: find_hd)
  ultimately show ?thesis by blast
qed

text \<open>An installed inmate whose name a bundled one took cannot be removed. \<open>List\<close> reports it and tells the user to run
  \<open>prison inmate remove\<close> with its name, but the name finds the bundled inmate, which \<open>Remove\<close> refuses, and
  the registry is as before.\<close>

theorem hidden_inmate_stays:
  assumes "list_inmates parse sha rg = Ok is" "i \<in> set is" "im_problem i = Some (TakenByBundled name)"
  shows "remove_inmate parse sha name rg = (Some (BundledInmate name), rg)"
proof -
  obtain installed where n: "installed_inmates parse sha rg = Ok installed"
    and l: "is = sort_inmates (bundled_inmates parse rg @
      map (\<lambda>i. if im_name i \<in> set (map im_name (bundled_inmates parse rg)) then i\<lparr>im_problem := Some (TakenByBundled (im_name i))\<rparr> else i) installed)"
    using assms(1) by (auto simp: list_inmates_def Let_def bind_res_Ok)
  have "\<exists>b\<in>set (bundled_inmates parse rg). im_name b = name"
  proof -
    have bundled: "im_problem b \<noteq> Some (TakenByBundled name)" if "b \<in> set (bundled_inmates parse rg)" for b
      using that by (auto simp: bundled_inmates_def)
    have "i \<in> set (bundled_inmates parse rg) \<or>
      (\<exists>j\<in>set installed. i = (if im_name j \<in> set (map im_name (bundled_inmates parse rg)) then j\<lparr>im_problem := Some (TakenByBundled (im_name j))\<rparr> else j))"
      using assms(2) unfolding l by (auto simp: sort_inmates_def)
    then obtain j where j: "j \<in> set installed"
      "i = (if im_name j \<in> set (map im_name (bundled_inmates parse rg)) then j\<lparr>im_problem := Some (TakenByBundled (im_name j))\<rparr> else j)"
      using bundled assms(3) by blast
    then have "im_name j \<in> set (map im_name (bundled_inmates parse rg))" "im_name j = name"
      using assms(3) installed_problem [OF n j(1)] by (auto split: if_splits)
    then show ?thesis by auto
  qed
  then obtain b where b: "b \<in> set (bundled_inmates parse rg)" "im_name b = name" by blast
  have in_append: "b \<in> set (bundled_inmates parse rg @ xs)" for xs using b(1) by simp
  have "im_bundled b" using b(1) by (auto simp: bundled_inmates_def)
  then obtain j where j: "find (\<lambda>j. im_name j = name) is = Some j" "im_name j = name" "im_bundled j"
    using sort_inmates_first [OF in_append \<open>im_bundled b\<close>] b(2) unfolding l by blast
  have "get_inmate parse sha rg name = Ok j" using assms(1) j(1) by (simp add: get_inmate_def)
  then show ?thesis using j by (simp add: remove_inmate_def)
qed

theorem hidden_inmate_stays_witness:
  "fst (remove_inmate tool_parser id ''tool'' (tool_registry\<lparr>rg_installed := [(''tool'', TDir [(''inmate.toml'', TFile [] 420)])]\<rparr>)) =
     Some (BundledInmate ''tool'')"
proof -
  let ?rg = "tool_registry\<lparr>rg_installed := [(''tool'', TDir [(''inmate.toml'', TFile [] 420)])]\<rparr>"
  have "case list_inmates tool_parser id ?rg of Err e \<Rightarrow> False | Ok is \<Rightarrow> list_ex (\<lambda>i. im_problem i = Some (TakenByBundled ''tool'')) is"
    by code_simp
  then obtain "is" i where "list_inmates tool_parser id ?rg = Ok is" "i \<in> set is" "im_problem i = Some (TakenByBundled ''tool'')"
    by (auto simp: list_ex_iff split: sum.splits)
  then show ?thesis using hidden_inmate_stays by simp
qed

end
