(* ===== verification/Session.thy ===== *)
theory Session
  imports Plugin_Registry Plugin_Host Broker_Protocol
begin

text \<open>
  \<open>internal/session/environment.go\<close>: what a project gets from its inmates, its configuration and the overrides:
  the environment of the box and of its commands, the mounts, the shape and its drift, the profile.

  Whether a directory exists, the files of the host and the terminal are parameters. The lemmas give the meaning
  of the \<open>assignments\<close> type as a list of assignments of which the last one counts. The properties say that the
  environment is exactly that, that nothing can change where the box finds its certificates,
  that the mounts expose no other host directory, and that drift is reported exactly.
\<close>

section \<open>The session\<close>

record session =
  se_overrides :: overrides
  se_home :: string
  se_directory :: string
  se_project :: project
  se_record :: "project_record option"
  se_config :: "project_config option"
  se_inmate_names :: "string list"
  se_inmates :: "inmate list"
  se_box_name :: string

definition guest_home :: string where "guest_home = ''/home/dev''"
definition workspace_dir :: string where "workspace_dir = ''/workspace''"
definition trust_store_path :: string where "trust_store_path = ''/etc/ssl/certs/ca-certificates.crt''"

definition trust_store_variables :: "string list" where
  "trust_store_variables = [''SSL_CERT_FILE'', ''NODE_EXTRA_CA_CERTS'', ''REQUESTS_CA_BUNDLE'', ''CURL_CA_BUNDLE'', ''GIT_SSL_CAINFO'']"

definition automatic_shadow_paths :: "string list" where
  "automatic_shadow_paths = [''node_modules'', ''.venv'']"

definition placeholder_token :: "session \<Rightarrow> string" where
  "placeholder_token s = ''prison-placeholder-'' @ prj_id (se_project s)"

definition placeholder_tail :: "session \<Rightarrow> string" where
  "placeholder_tail s = (let placeholder = placeholder_token s in
     if length placeholder \<le> 20 then placeholder else drop (length placeholder - 20) placeholder)"

text \<open>The manifest that an inmate embeds; it is the zero value when there is a problem with the inmate.\<close>

definition zero_manifest :: manifest where
  "zero_manifest = \<lparr>mf_name = [], mf_description = [], mf_aliases = [], mf_foundation = [], mf_dockerfile = [], mf_run = [],
     mf_unsafe = [], mf_auth = None, mf_persist = [], mf_environment = [], mf_hosts = [], mf_box_command = [], mf_host_config = [],
     mf_host_root = [], mf_host_copy = [], mf_host_json = [], mf_host_environment = []\<rparr>"

definition manifest_of :: "inmate \<Rightarrow> manifest" where
  "manifest_of i = (case im_manifest i of None \<Rightarrow> zero_manifest | Some m \<Rightarrow> m)"

section \<open>Assignments\<close>

record assignment_set =
  as_values :: "string \<Rightarrow> string option"
  as_order :: "string list"

definition new_assignments :: assignment_set where
  "new_assignments = \<lparr>as_values = (\<lambda>n. None), as_order = []\<rparr>"

definition set_assignment :: "string \<Rightarrow> string \<Rightarrow> assignment_set \<Rightarrow> assignment_set" where
  "set_assignment name v a =
     (if name = [] then a
      else \<lparr>as_values = (as_values a)(name := Some v), as_order = (if as_values a name = None then as_order a @ [name] else as_order a)\<rparr>)"

definition add_assignment :: "string \<Rightarrow> assignment_set \<Rightarrow> assignment_set" where
  "add_assignment assignment a =
     (case cut assignment CHR ''='' of (name, v, found) \<Rightarrow> if found then set_assignment name v a else a)"

definition sorted_assignments :: "assignment_set \<Rightarrow> string list" where
  "sorted_assignments a =
     map (\<lambda>name. name @ ''='' @ (case as_values a name of None \<Rightarrow> [] | Some v \<Rightarrow> v)) (sort (as_order a))"

definition yes_no :: "bool \<Rightarrow> string" where "yes_no b = (if b then ''yes'' else ''no'')"

definition creation_environment :: "(string \<Rightarrow> bool) \<Rightarrow> session \<Rightarrow> string \<Rightarrow> bool \<Rightarrow> string list \<Rightarrow> string list" where
  "creation_environment directory_exists s token sudo persist_paths =
     [''PRISON_TOKEN='' @ token, ''PRISON_BROKER_PORT='' @ itoa (ov_broker_port (se_overrides s)), ''PRISON_SUDO='' @ yes_no sudo, ''LANG=C.UTF-8''] @
     (if persist_paths = [] then [] else [''PRISON_PERSIST_PATHS='' @ join '':'' persist_paths]) @
     (if directory_exists (path_join [se_directory s, ''.git'']) then [''PRISON_READ_ONLY_FILES='' @ workspace_dir @ ''/.git/config''] else [])"

datatype session_error =
    HostEnvironmentFailed string host_error
  | SecretsUnavailable

text \<open>The steps of \<open>ExecEnvironment\<close>, in the order of the code. The variables of the broker are there when there is a
  client, and its answer can be an error.\<close>

definition add_manifest_assignments :: "inmate list \<Rightarrow> assignment_set \<Rightarrow> assignment_set" where
  "add_manifest_assignments inmates a =
     foldl (\<lambda>a i. foldl (\<lambda>a x. add_assignment x a) a (environment_assignments (manifest_of i))) a inmates"

fun add_host_assignments ::
  "json_codec \<Rightarrow> regex \<Rightarrow> files \<Rightarrow> string \<Rightarrow> inmate list \<Rightarrow> assignment_set \<Rightarrow> (session_error, assignment_set) result" where
  "add_host_assignments jc rx host home [] a = Ok a"
| "add_host_assignments jc rx host home (i # inmates) a =
     (case host_environment jc rx host home (mf_host_environment (manifest_of i)) of
        Err e \<Rightarrow> Err (HostEnvironmentFailed (im_name i) e)
      | Ok found \<Rightarrow> add_host_assignments jc rx host home inmates (foldl (\<lambda>a x. add_assignment x a) a found))"

definition set_auth_assignments :: "session \<Rightarrow> assignment_set \<Rightarrow> assignment_set" where
  "set_auth_assignments s a =
     foldl (\<lambda>a i. case mf_auth (manifest_of i) of None \<Rightarrow> a
       | Some au \<Rightarrow> set_assignment (au_token_variable au) (placeholder_token s)
           (set_assignment (au_base_url_variable au) (''http://'' @ inmate_host (im_name i)) a)) a (se_inmates s)"

definition set_all :: "(string \<times> string) list \<Rightarrow> assignment_set \<Rightarrow> assignment_set" where
  "set_all nvs a = foldl (\<lambda>a (n, v). set_assignment n v a) a nvs"

definition exec_environment ::
  "json_codec \<Rightarrow> regex \<Rightarrow> files \<Rightarrow> session \<Rightarrow> string list option option \<Rightarrow> string \<Rightarrow> string \<Rightarrow> (session_error, string list) result" where
  "exec_environment jc rx host s client term colour =
     (let a1 = add_manifest_assignments (se_inmates s) (set_assignment ''LANG'' ''C.UTF-8'' new_assignments) in
      bind_res (add_host_assignments jc rx host (se_home s) (se_inmates s) a1) (\<lambda>a2.
      let a3 = set_auth_assignments s a2 in
      bind_res (case client of None \<Rightarrow> Ok a3 | Some None \<Rightarrow> Err SecretsUnavailable
          | Some (Some variables) \<Rightarrow> Ok (foldl (\<lambda>a x. add_assignment x a) a3 variables)) (\<lambda>a4.
      let a5 = set_all (map (\<lambda>n. (n, trust_store_path)) trust_store_variables) a4;
          a6 = (case se_config s of None \<Rightarrow> a5 | Some pc \<Rightarrow> set_all (pc_environment pc) a5);
          a7 = (if term = [] then a6
                else let a = set_assignment ''TERM'' term a6 in if colour = [] then a else set_assignment ''COLORTERM'' colour a)
      in Ok (sorted_assignments a7))))"

section \<open>Paths, mounts and shape\<close>

definition trim_slashes :: "string \<Rightarrow> string" where
  "trim_slashes s = trim_by (\<lambda>c. c = CHR ''/'') s"

definition shadow_paths :: "(string \<Rightarrow> bool) \<Rightarrow> session \<Rightarrow> string list" where
  "shadow_paths directory_exists s =
     (let candidates = filter (\<lambda>c. directory_exists (path_join [se_directory s, c])) automatic_shadow_paths @
            (case se_config s of None \<Rightarrow> [] | Some pc \<Rightarrow> pc_shadow pc)
      in sort (dedupe_by id [] (filter (\<lambda>c. c \<noteq> []) (map trim_slashes candidates))))"

definition persist_paths :: "session \<Rightarrow> string list" where
  "persist_paths s = dedupe_by id [] (concat (map (\<lambda>i. mf_persist (manifest_of i)) (se_inmates s)))"

definition host_path_for_guest_path :: "session \<Rightarrow> inmate \<Rightarrow> string \<Rightarrow> string" where
  "host_path_for_guest_path s i guest_path =
     (let relative = trim_prefix (trim_prefix guest_path (guest_home @ ''/'')) ''/''
      in path_join [home_dir (se_project s) (im_name i), relative])"

definition persisted_home :: "session \<Rightarrow> inmate \<Rightarrow> string" where
  "persisted_home s i = (case mf_persist (manifest_of i) of
       [] \<Rightarrow> home_dir (se_project s) (im_name i)
     | first # _ \<Rightarrow> host_path_for_guest_path s i first)"

record mount =
  mt_source :: string
  mt_target :: string
  mt_read_only :: bool

definition mounts :: "(string \<Rightarrow> bool) \<Rightarrow> session \<Rightarrow> string list \<Rightarrow> mount list" where
  "mounts directory_exists s shadows =
     [\<lparr>mt_source = se_directory s, mt_target = workspace_dir, mt_read_only = False\<rparr>] @
     map (\<lambda>relative. \<lparr>mt_source = shadow_dir (se_project s) relative, mt_target = path_join [workspace_dir, relative], mt_read_only = False\<rparr>) shadows @
     (if directory_exists (path_join [se_directory s, ''.git''])
      then [\<lparr>mt_source = empty_dir (se_project s), mt_target = workspace_dir @ ''/.git/hooks'', mt_read_only = True\<rparr>] else []) @
     concat (map (\<lambda>i. map (\<lambda>guest_path. \<lparr>mt_source = host_path_for_guest_path s i guest_path, mt_target = guest_path, mt_read_only = False\<rparr>)
       (mf_persist (manifest_of i))) (se_inmates s))"

record port_mapping =
  pm_host :: int
  pm_guest :: int

definition shape :: "session \<Rightarrow> string \<Rightarrow> port_mapping list \<Rightarrow> string list \<Rightarrow> box_shape" where
  "shape s tag ports shadows =
     \<lparr>bx_image = tag, bx_cpus = resolve_cpus (se_overrides s) (se_config s), bx_memory = resolve_memory (se_overrides s) (se_config s),
      bx_sudo = resolve_sudo (se_overrides s) (se_config s), bx_network = ov_network (se_overrides s), bx_shadow = shadows,
      bx_ports = map (\<lambda>p. (pm_host p, pm_guest p)) ports, bx_inmates = se_inmate_names s\<rparr>"

definition join_or_none :: "string list \<Rightarrow> string" where
  "join_or_none vs = (if vs = [] then ''none'' else join '', '' vs)"

definition join_ports :: "(int \<times> int) list \<Rightarrow> string" where
  "join_ports ports = (if ports = [] then ''none'' else join '' '' (map (\<lambda>(h, g). itoa h @ '':'' @ itoa g) ports))"

definition drift_entry :: "string \<Rightarrow> string \<Rightarrow> string \<Rightarrow> string list" where
  "drift_entry field was now = (if was \<noteq> now then [field @ '' changed from '' @ was @ '' to '' @ now] else [])"

definition describe_shape_drift :: "box_shape option \<Rightarrow> box_shape option \<Rightarrow> string list" where
  "describe_shape_drift recorded resolved = (case (recorded, resolved) of
       (Some r, Some n) \<Rightarrow>
         drift_entry ''the image'' (bx_image r) (bx_image n) @ drift_entry ''cpus'' (itoa (bx_cpus r)) (itoa (bx_cpus n)) @
         drift_entry ''memory'' (bx_memory r) (bx_memory n) @ drift_entry ''sudo'' (yes_no (bx_sudo r)) (yes_no (bx_sudo n)) @
         drift_entry ''the network'' (bx_network r) (bx_network n) @
         drift_entry ''the shadowed directories'' (join_or_none (bx_shadow r)) (join_or_none (bx_shadow n)) @
         drift_entry ''the inmates'' (join_or_none (bx_inmates r)) (join_or_none (bx_inmates n)) @
         drift_entry ''the published ports'' (join_ports (bx_ports r)) (join_ports (bx_ports n))
     | _ \<Rightarrow> [])"

section \<open>The profile\<close>

definition auth_routes :: "inmate \<Rightarrow> inmate_route list" where
  "auth_routes i = (case mf_auth (manifest_of i) of None \<Rightarrow> []
     | Some au \<Rightarrow> [\<lparr>ir_name = im_name i, ir_upstream = au_upstream au, ir_path_prefix = au_path_prefix au,
         ir_credentials = map (\<lambda>c. \<lparr>cs_variable = cd_variable c, cs_header = cd_header c, cs_prefix = cd_prefix c\<rparr>) (au_credentials au)\<rparr>])"

definition session_profile :: "int \<Rightarrow> session \<Rightarrow> profile" where
  "session_profile now s =
     \<lparr>pf_inmates = concat (map auth_routes (se_inmates s)),
      pf_egress = dedupe_by id [] (filter (\<lambda>p. p \<noteq> [])
        (concat (map (\<lambda>i. mf_hosts (manifest_of i)) (se_inmates s)) @ (case se_config s of None \<Rightarrow> [] | Some pc \<Rightarrow> pc_hosts pc))),
      pf_written = now\<rparr>"

definition session_credential_variables :: "session \<Rightarrow> string list" where
  "session_credential_variables s =
     dedupe_by id [] (concat (map (\<lambda>i. case mf_auth (manifest_of i) of None \<Rightarrow> [] | Some au \<Rightarrow> map cd_variable (au_credentials au)) (se_inmates s)))"

section \<open>What the assignments mean\<close>

text \<open>Of the assignments to a name the last one counts, and an assignment to the empty name does not.\<close>

definition named :: "(string \<times> string) list \<Rightarrow> (string \<times> string) list" where
  "named nvs = filter (\<lambda>nv. fst nv \<noteq> []) nvs"

definition parsed_assignment :: "string \<Rightarrow> (string \<times> string) list" where
  "parsed_assignment x = (case cut x CHR ''='' of (n, v, found) \<Rightarrow> if found then [(n, v)] else [])"

definition parsed_assignments :: "string list \<Rightarrow> (string \<times> string) list" where
  "parsed_assignments xs = concat (map parsed_assignment xs)"

definition assigned_lines :: "(string \<times> string) list \<Rightarrow> string list" where
  "assigned_lines nvs = map (\<lambda>n. n @ ''='' @ the (map_of (rev nvs) n)) (sorted_keys (named nvs))"

definition collects :: "(string \<times> string) list \<Rightarrow> assignment_set \<Rightarrow> bool" where
  "collects nvs a \<longleftrightarrow> as_values a = map_of (rev (named nvs)) \<and> distinct (as_order a) \<and> set (as_order a) = fst ` set (named nvs)"

lemma map_of_filter_key: "P n \<Longrightarrow> map_of (filter (\<lambda>nv. P (fst nv)) xs) n = map_of xs n"
  by (induction xs) auto

lemma collects_new [simp]: "collects [] new_assignments"
  by (simp add: collects_def new_assignments_def named_def)

lemma collects_set: "collects nvs a \<Longrightarrow> collects (nvs @ [(n, v)]) (set_assignment n v a)"
proof -
  assume c: "collects nvs a"
  have "as_values a n = None \<longleftrightarrow> n \<notin> set (as_order a)"
    using c by (simp add: collects_def map_of_eq_None_iff)
  then show ?thesis using c by (auto simp: collects_def named_def set_assignment_def)
qed

lemma collects_add: "collects nvs a \<Longrightarrow> collects (nvs @ parsed_assignment x) (add_assignment x a)"
  using collects_set by (auto simp: add_assignment_def parsed_assignment_def split: prod.split)

lemma collects_add_all: "collects nvs a \<Longrightarrow> collects (nvs @ parsed_assignments xs) (foldl (\<lambda>a x. add_assignment x a) a xs)"
proof (induction xs arbitrary: nvs a)
  case (Cons x xs)
  then show ?case using Cons.IH [OF collects_add [OF Cons.prems, of x]] by (simp add: parsed_assignments_def)
qed (simp add: parsed_assignments_def)

lemma collects_set_all: "collects nvs a \<Longrightarrow> collects (nvs @ xs) (set_all xs a)"
proof (induction xs arbitrary: nvs a)
  case (Cons x xs)
  obtain n v where x: "x = (n, v)" by (cases x)
  then show ?case using Cons.IH [OF collects_set [OF Cons.prems, of n v]] by (simp add: set_all_def)
qed (simp add: set_all_def)

lemma collected_lines: "collects nvs a \<Longrightarrow> sorted_assignments a = assigned_lines nvs"
proof -
  assume c: "collects nvs a"
  have "sort (as_order a) = sorted_keys (named nvs)"
    using c by (intro sorted_distinct_set_unique) (simp_all add: collects_def sorted_keys_def)
  moreover have "map_of (rev (named nvs)) n = map_of (rev nvs) n" if "n \<in> set (as_order a)" for n
  proof -
    have "n \<noteq> []" using that c by (auto simp: collects_def named_def)
    moreover have "rev (named nvs) = filter (\<lambda>nv. fst nv \<noteq> []) (rev nvs)" by (simp add: named_def rev_filter)
    ultimately show ?thesis by (simp add: map_of_filter_key [where P = "\<lambda>n. n \<noteq> []"])
  qed
  moreover have "map_of (rev (named nvs)) n \<noteq> None" if "n \<in> set (as_order a)" for n
    using that c by (simp add: collects_def map_of_eq_None_iff)
  ultimately show ?thesis
    using c by (force simp: sorted_assignments_def assigned_lines_def collects_def split: option.split)
qed

section \<open>The environment of a command\<close>

definition auth_assignments :: "session \<Rightarrow> (string \<times> string) list" where
  "auth_assignments s = concat (map (\<lambda>i. case mf_auth (manifest_of i) of None \<Rightarrow> []
     | Some au \<Rightarrow> [(au_base_url_variable au, ''http://'' @ inmate_host (im_name i)), (au_token_variable au, placeholder_token s)]) (se_inmates s))"

lemma collects_manifest:
  "collects nvs a \<Longrightarrow> collects (nvs @ parsed_assignments (concat (map (\<lambda>i. environment_assignments (manifest_of i)) inmates))) (add_manifest_assignments inmates a)"
proof (induction inmates arbitrary: nvs a)
  case (Cons i inmates)
  then show ?case using Cons.IH [OF collects_add_all [OF Cons.prems, of "environment_assignments (manifest_of i)"]]
    by (simp add: add_manifest_assignments_def parsed_assignments_def)
qed (simp add: add_manifest_assignments_def parsed_assignments_def)

lemma collects_host:
  "add_host_assignments jc rx host home inmates a = Ok b \<Longrightarrow> collects nvs a \<Longrightarrow>
   \<exists>found. list_all2 (\<lambda>i f. host_environment jc rx host home (mf_host_environment (manifest_of i)) = Ok f) inmates found \<and>
     collects (nvs @ parsed_assignments (concat found)) b"
proof (induction inmates arbitrary: nvs a)
  case Nil
  then show ?case by (simp add: parsed_assignments_def)
next
  case (Cons i inmates)
  obtain f where f: "host_environment jc rx host home (mf_host_environment (manifest_of i)) = Ok f"
    "add_host_assignments jc rx host home inmates (foldl (\<lambda>a x. add_assignment x a) a f) = Ok b"
    using Cons.prems(1) by (auto split: sum.splits)
  obtain found where found: "list_all2 (\<lambda>i f. host_environment jc rx host home (mf_host_environment (manifest_of i)) = Ok f) inmates found"
    "collects ((nvs @ parsed_assignments f) @ parsed_assignments (concat found)) b"
    using Cons.IH [OF f(2) collects_add_all [OF Cons.prems(2)]] by blast
  then show ?case using f(1) by (intro exI [of _ "f # found"]) (simp add: parsed_assignments_def)
qed

lemma collects_auth: "collects nvs a \<Longrightarrow> collects (nvs @ auth_assignments s) (set_auth_assignments s a)"
proof -
  have "collects nvs a \<Longrightarrow> collects (nvs @ concat (map (\<lambda>i. case mf_auth (manifest_of i) of None \<Rightarrow> []
     | Some au \<Rightarrow> [(au_base_url_variable au, ''http://'' @ inmate_host (im_name i)), (au_token_variable au, placeholder_token s)]) inmates))
     (foldl (\<lambda>a i. case mf_auth (manifest_of i) of None \<Rightarrow> a
       | Some au \<Rightarrow> set_assignment (au_token_variable au) (placeholder_token s)
           (set_assignment (au_base_url_variable au) (''http://'' @ inmate_host (im_name i)) a)) a inmates)" for inmates
  proof (induction inmates arbitrary: nvs a)
    case (Cons i inmates)
    show ?case
    proof (cases "mf_auth (manifest_of i)")
      case None
      then show ?thesis using Cons by simp
    next
      case (Some au)
      show ?thesis
        using Cons.IH [OF collects_set [OF collects_set [OF Cons.prems, of "au_base_url_variable au" "''http://'' @ inmate_host (im_name i)"],
          of "au_token_variable au" "placeholder_token s"]] Some by simp
    qed
  qed simp
  then show "collects nvs a \<Longrightarrow> ?thesis" by (simp add: auth_assignments_def set_auth_assignments_def)
qed

definition terminal_assignments :: "string \<Rightarrow> string \<Rightarrow> (string \<times> string) list" where
  "terminal_assignments term colour =
     (if term = [] then [] else (''TERM'', term) # (if colour = [] then [] else [(''COLORTERM'', colour)]))"

definition config_assignments :: "session \<Rightarrow> (string \<times> string) list" where
  "config_assignments s = (case se_config s of None \<Rightarrow> [] | Some pc \<Rightarrow> pc_environment pc)"

definition trust_store_assignments :: "(string \<times> string) list" where
  "trust_store_assignments = map (\<lambda>n. (n, trust_store_path)) trust_store_variables"

text \<open>The assignments of the sources in their order; each may replace what is before it.\<close>

definition source_assignments :: "session \<Rightarrow> string list list \<Rightarrow> string list \<Rightarrow> string \<Rightarrow> string \<Rightarrow> (string \<times> string) list" where
  "source_assignments s found variables term colour =
     [(''LANG'', ''C.UTF-8'')] @ parsed_assignments (concat (map (\<lambda>i. environment_assignments (manifest_of i)) (se_inmates s))) @
     parsed_assignments (concat found) @ auth_assignments s @ parsed_assignments variables @ trust_store_assignments @
     config_assignments s @ terminal_assignments term colour"

lemma exec_environment_lines:
  assumes "exec_environment jc rx host s client term colour = Ok lines"
  shows "\<exists>found variables. list_all2 (\<lambda>i f. host_environment jc rx host (se_home s) (mf_host_environment (manifest_of i)) = Ok f) (se_inmates s) found \<and>
    (client = None \<and> variables = [] \<or> client = Some (Some variables)) \<and> lines = assigned_lines (source_assignments s found variables term colour)"
proof -
  define a1 where "a1 = add_manifest_assignments (se_inmates s) (set_assignment ''LANG'' ''C.UTF-8'' new_assignments)"
  obtain a2 where a2: "add_host_assignments jc rx host (se_home s) (se_inmates s) a1 = Ok a2"
    using assms by (auto simp: exec_environment_def a1_def Let_def bind_res_Ok)
  define a3 where "a3 = set_auth_assignments s a2"
  have "client \<noteq> Some None" using assms by (auto simp: exec_environment_def Let_def bind_res_Ok)
  then obtain variables where v: "client = None \<and> variables = [] \<or> client = Some (Some variables)"
    by (metis option.exhaust)
  define a4 where "a4 = foldl (\<lambda>a x. add_assignment x a) a3 variables"
  define a5 where "a5 = set_all trust_store_assignments a4"
  define a6 where "a6 = set_all (config_assignments s) a5"
  define a7 where "a7 = set_all (terminal_assignments term colour) a6"
  have "lines = sorted_assignments (if term = [] then a6
      else let a = set_assignment ''TERM'' term a6 in if colour = [] then a else set_assignment ''COLORTERM'' colour a)"
    using assms v a2 unfolding exec_environment_def a1_def [symmetric] Let_def a3_def a4_def a5_def a6_def config_assignments_def trust_store_assignments_def
    by (auto simp: set_all_def split: option.splits)
  then have l: "lines = sorted_assignments a7" by (simp add: a7_def terminal_assignments_def set_all_def Let_def)
  have "collects ([(''LANG'', ''C.UTF-8'')] @ parsed_assignments (concat (map (\<lambda>i. environment_assignments (manifest_of i)) (se_inmates s)))) a1"
    unfolding a1_def using collects_set [OF collects_new, of "''LANG''" "''C.UTF-8''"] by (intro collects_manifest) simp
  from collects_host [OF a2 this]
  obtain found where f: "list_all2 (\<lambda>i f. host_environment jc rx host (se_home s) (mf_host_environment (manifest_of i)) = Ok f) (se_inmates s) found"
    and "collects (([(''LANG'', ''C.UTF-8'')] @ parsed_assignments (concat (map (\<lambda>i. environment_assignments (manifest_of i)) (se_inmates s)))) @ parsed_assignments (concat found)) a2"
    by blast
  from collects_set_all [OF collects_set_all [OF collects_set_all [OF collects_add_all [OF collects_auth [OF this(2)]]]]]
  have "collects (source_assignments s found variables term colour) a7"
    unfolding a3_def a4_def a5_def a6_def a7_def source_assignments_def by simp
  then show ?thesis using f v l collected_lines by blast
qed

text \<open>The environment of a command is exactly what its sources assign, in sorted order. There is one line for each
  name, and its value is that of the last source that assigns the name: the language, the manifests, the
  host files of the inmates, their base URLs and placeholder tokens, the granted secrets, the trust store, the configuration of the project,
  the terminal.\<close>

theorem exec_environment_exact:
  assumes "exec_environment jc rx host s client term colour = Ok lines"
  shows "\<exists>found variables. list_all2 (\<lambda>i f. host_environment jc rx host (se_home s) (mf_host_environment (manifest_of i)) = Ok f) (se_inmates s) found \<and>
    (client = None \<and> variables = [] \<or> client = Some (Some variables)) \<and> lines = assigned_lines (source_assignments s found variables term colour)"
  using assms by (rule exec_environment_lines)

section \<open>The trust store\<close>

text \<open>What an opened session holds: its inmates and its configuration are accepted ones.\<close>

definition session_ok :: "session \<Rightarrow> bool" where
  "session_ok s \<longleftrightarrow> clean_dir (prj_dir (se_project s)) \<and> option_all project_config_ok (se_config s) \<and>
     (\<forall>i\<in>set (se_inmates s). manifest_ok (manifest_of i) \<and> im_name i = mf_name (manifest_of i))"

definition no_equals :: "string \<times> string \<Rightarrow> bool" where
  "no_equals nv \<longleftrightarrow> CHR ''='' \<notin> set (fst nv)"

lemma parsed_no_equals: "list_all no_equals (parsed_assignments xs)"
proof -
  have "list_all no_equals (parsed_assignment x)" for x
    by (auto simp: parsed_assignment_def no_equals_def dest: cut_found split: prod.split)
  then show ?thesis by (auto simp: parsed_assignments_def list_all_iff)
qed

lemma pattern_no_equals: "environment_name_pattern n \<Longrightarrow> CHR ''='' \<notin> set n"
proof -
  have "\<not> is_letter CHR ''=''" "\<not> is_digit CHR ''=''" by code_simp+
  then show "environment_name_pattern n \<Longrightarrow> ?thesis" by (fastforce simp: environment_name_pattern_def list_all_iff split: list.splits)
qed

lemma session_config:
  assumes "session_ok s" "(n, v) \<in> set (config_assignments s)"
  shows "box_environment_name n"
proof -
  obtain pc where "se_config s = Some pc" "(n, v) \<in> set (pc_environment pc)"
    using assms(2) by (cases "se_config s") (simp_all add: config_assignments_def)
  moreover have "project_config_ok pc" using assms(1) calculation(1) by (simp add: session_ok_def)
  ultimately show ?thesis unfolding project_config_ok_def list_all_iff by blast
qed

lemma session_auth:
  assumes "session_ok s" "(n, v) \<in> set (auth_assignments s)"
  shows "environment_name_pattern n"
proof -
  obtain i where i0: "i \<in> set (se_inmates s)" "(n, v) \<in> set (case mf_auth (manifest_of i) of None \<Rightarrow> []
     | Some au \<Rightarrow> [(au_base_url_variable au, ''http://'' @ inmate_host (im_name i)), (au_token_variable au, placeholder_token s)])"
    using assms(2) by (auto simp: auth_assignments_def)
  then obtain au where i: "i \<in> set (se_inmates s)" "mf_auth (manifest_of i) = Some au" "n \<in> {au_base_url_variable au, au_token_variable au}"
    by (cases "mf_auth (manifest_of i)") auto
  then have "manifest_ok (manifest_of i)" using assms(1) by (simp add: session_ok_def)
  then have "auth_ok au" using i(2) by (simp add: manifest_ok_def)
  then show ?thesis using i(3) by (auto simp: auth_ok_def)
qed

lemma source_no_equals:
  assumes "session_ok s"
  shows "list_all no_equals (source_assignments s found variables term colour)"
proof -
  have "list_all no_equals (auth_assignments s)" "list_all no_equals (config_assignments s)"
    using session_auth [OF assms] session_config [OF assms] pattern_no_equals
    by (auto simp: list_all_iff no_equals_def box_environment_name_def)
  then show ?thesis
    using parsed_no_equals
    by (simp add: source_assignments_def no_equals_def terminal_assignments_def trust_store_assignments_def trust_store_variables_def)
qed

lemma assigned_unique:
  assumes "list_all no_equals nvs" "CHR ''='' \<notin> set n" "n \<noteq> []" "map_of (rev nvs) n = Some v"
  shows "n @ ''='' @ w \<in> set (assigned_lines nvs) \<longleftrightarrow> w = v"
proof
  assume "n @ ''='' @ w \<in> set (assigned_lines nvs)"
  then obtain m x where m: "(m, x) \<in> set nvs" "n @ ''='' @ w = m @ ''='' @ the (map_of (rev nvs) m)"
    by (auto simp: assigned_lines_def named_def)
  have "CHR ''='' \<notin> set m" using m(1) assms(1) by (auto simp: list_all_iff no_equals_def)
  then have "n = m \<and> w = the (map_of (rev nvs) m)" using m(2) assms(2) cut_hit [of "CHR ''=''"] by (metis append_Cons append_Nil prod.inject)
  then show "w = v" using assms(4) by simp
next
  assume "w = v"
  moreover have "(n, v) \<in> set nvs" using map_of_SomeD [OF assms(4)] by simp
  ultimately show "n @ ''='' @ w \<in> set (assigned_lines nvs)"
    using assms(3,4) by (force simp: assigned_lines_def named_def image_iff)
qed

text \<open>Nothing changes where a box finds its certificates. In the environment of every command of an opened session each
  variable of the trust store has the path of the store of the box, whatever the inmates, the host files, the granted
  secrets and the configuration assign.\<close>

theorem trust_store_kept:
  assumes "session_ok s" "exec_environment jc rx host s client term colour = Ok lines" "name \<in> set trust_store_variables"
  shows "name @ ''='' @ w \<in> set lines \<longleftrightarrow> w = trust_store_path"
proof -
  obtain found variables where l: "lines = assigned_lines (source_assignments s found variables term colour)"
    using exec_environment_lines [OF assms(2)] by blast
  have n: "CHR ''='' \<notin> set name" "name \<noteq> []" "name \<noteq> ''TERM''" "name \<noteq> ''COLORTERM''" "name \<in> set reserved_environment_names"
    using assms(3) by (auto simp: trust_store_variables_def reserved_environment_names_def)
  have "name \<notin> fst ` set (config_assignments s)"
    using session_config [OF assms(1)] n(5) by (auto simp: box_environment_name_def)
  then have c: "map_of (rev (config_assignments s)) name = None" by (simp add: map_of_eq_None_iff)
  have t: "map_of (rev (terminal_assignments term colour)) name = None" using n(3,4) by (simp add: terminal_assignments_def)
  have "map_of (rev trust_store_assignments) name = Some trust_store_path"
    using assms(3) by (auto simp: trust_store_assignments_def trust_store_variables_def)
  then have "map_of (rev (source_assignments s found variables term colour)) name = Some trust_store_path"
    using c t by (simp add: source_assignments_def map_of_append map_add_def)
  then show ?thesis using assigned_unique [OF source_no_equals [OF assms(1)] n(1,2)] l by simp
qed

section \<open>Examples\<close>

definition example_tool :: manifest where
  "example_tool = zero_manifest\<lparr>mf_name := ''tool'', mf_description := ''d'', mf_dockerfile := ''Dockerfile'', mf_run := ''tool'',
     mf_auth := Some \<lparr>au_upstream = ''api.example.com'', au_path_prefix = ''/'', au_base_url_variable = ''SSL_CERT_FILE'',
       au_token_variable = ''TOKEN'', au_credentials = [\<lparr>cd_variable = ''KEY'', cd_header = ''X-Key'', cd_prefix = []\<rparr>]\<rparr>,
     mf_persist := [''/home/dev/.tool'']\<rparr>"

definition example_session :: session where
  "example_session = \<lparr>se_overrides = \<lparr>ov_inmates = None, ov_pager = None, ov_diff_tool = None, ov_cpus = None, ov_memory = None, ov_sudo = None,
       ov_ports = None, ov_image = [], ov_foundation = [], ov_root = ''/r'', ov_domain = ''prison'', ov_network = ''prison'', ov_broker_port = 8787,
       ov_port_base = 40000, ov_port_limit = 40100\<rparr>,
     se_home = ''/home/me'', se_directory = ''/src'',
     se_project = \<lparr>prj_id = ''0123456789ab'', prj_dir = ''/r/projects/0123456789ab'', prj_root = \<lparr>root_path = ''/r''\<rparr>, prj_directory_path = ''/src''\<rparr>,
     se_record = None,
     se_config = Some \<lparr>pc_inmates = None, pc_cpus = None, pc_memory = None, pc_ports = None, pc_sudo = None, pc_shadow = [''node/modules''],
       pc_commands = [], pc_ignore = [], pc_hosts = [], pc_require = [], pc_environment = [(''MODE'', ''3'')]\<rparr>,
     se_inmate_names = [''tool''],
     se_inmates = [\<lparr>im_name = ''tool'', im_dir = [], im_tree = [], im_manifest = Some example_tool, im_bundled = True, im_trusted = True,
       im_approval = None, im_problem = None\<rparr>],
     se_box_name = ''src-0123456789ab.prison''\<rparr>"

lemma example_session_ok: "session_ok example_session"
  by code_simp

lemma example_environment_ok:
  "is_ok (exec_environment example_codec example_regex example_host example_session (Some (Some [''SSL_CERT_FILE=/x''])) ''xterm'' [])"
  by code_simp

theorem exec_environment_exact_witness:
  "\<exists>found variables. list_all2 (\<lambda>i f. host_environment example_codec example_regex example_host ''/home/me'' (mf_host_environment (manifest_of i)) = Ok f)
      (se_inmates example_session) found \<and> variables = [''SSL_CERT_FILE=/x''] \<and>
    exec_environment example_codec example_regex example_host example_session (Some (Some [''SSL_CERT_FILE=/x''])) ''xterm'' [] =
      Ok (assigned_lines (source_assignments example_session found variables ''xterm'' []))"
proof -
  obtain lines where "exec_environment example_codec example_regex example_host example_session (Some (Some [''SSL_CERT_FILE=/x''])) ''xterm'' [] = Ok lines"
    using example_environment_ok by (auto simp: is_ok_def split: sum.splits)
  from exec_environment_exact [OF this] this show ?thesis by (auto simp: example_session_def)
qed

theorem trust_store_kept_witness:
  "case exec_environment example_codec example_regex example_host example_session (Some (Some [''SSL_CERT_FILE=/x''])) ''xterm'' [] of
     Err e \<Rightarrow> False
   | Ok lines \<Rightarrow> ''SSL_CERT_FILE='' @ trust_store_path \<in> set lines \<and> ''SSL_CERT_FILE=/x'' \<notin> set lines"
proof -
  obtain lines where l: "exec_environment example_codec example_regex example_host example_session (Some (Some [''SSL_CERT_FILE=/x''])) ''xterm'' [] = Ok lines"
    using example_environment_ok by (auto simp: is_ok_def split: sum.splits)
  have n: "''SSL_CERT_FILE'' \<in> set trust_store_variables" by (simp add: trust_store_variables_def)
  have "''/x'' \<noteq> trust_store_path" by (simp add: trust_store_path_def)
  then show ?thesis
    using trust_store_kept [OF example_session_ok l n, of trust_store_path] trust_store_kept [OF example_session_ok l n, of "''/x''"] l by simp
qed

end
