(* ===== verification/Session_Ports.thy ===== *)
theory Session_Ports
  imports Session "HOL-Library.AList"
begin

text \<open>
  \<open>internal/session/ports.go\<close>: the host ports that a box publishes. When the settings name no ports, a project gets a block
  of host ports of its own.

  The claimed blocks come from the records of the projects (\<open>claimed_port_blocks\<close>), and which ports answer a
  connection on the loopback is a parameter. The properties say where an allocated block lies, when there is none, and
  that the blocks of the projects stay apart.
\<close>

section \<open>Allocation\<close>

definition taken_ports :: "string \<Rightarrow> int \<Rightarrow> (string \<times> int) list \<Rightarrow> int list" where
  "taken_ports own width claimed = concat (map (\<lambda>(project, base). if project = own then [] else map (\<lambda>offset. base + offset) [0..width - 1]) claimed)"

definition block_is_taken :: "int list \<Rightarrow> int \<Rightarrow> int \<Rightarrow> bool" where
  "block_is_taken taken base width = list_ex (\<lambda>offset. base + offset \<in> set taken) [0..width - 1]"

definition block_is_free :: "(int \<Rightarrow> bool) \<Rightarrow> int \<Rightarrow> int \<Rightarrow> bool" where
  "block_is_free answers base width = list_all (\<lambda>offset. \<not> answers (base + offset)) [0..width - 1]"

text \<open>The loop over the blocks of the range. The caller never has a block of no ports, for which the loop would not end.\<close>

function search_block :: "int list \<Rightarrow> (int \<Rightarrow> bool) \<Rightarrow> int \<Rightarrow> int \<Rightarrow> int \<Rightarrow> int" where
  "search_block taken answers limit width base =
     (if width \<le> 0 \<or> limit < base + width - 1 then 0
      else if block_is_taken taken base width then search_block taken answers limit width (base + width)
      else if \<not> block_is_free answers base width then search_block taken answers limit width (base + width)
      else base)"
  by pat_completeness auto
termination
  by (relation "measure (\<lambda>(taken, answers, limit, width, base). nat (limit + 1 - base))") auto

declare search_block.simps [simp del]

definition allocate_port_block :: "(string \<times> int) list \<Rightarrow> (int \<Rightarrow> bool) \<Rightarrow> session \<Rightarrow> int \<Rightarrow> int" where
  "allocate_port_block claimed answers s width =
     (let taken = taken_ports (prj_id (se_project s)) width claimed;
          recorded = (case se_record s of None \<Rightarrow> 0 | Some r \<Rightarrow> pr_port_block r);
          low = ov_port_base (se_overrides s); high = ov_port_limit (se_overrides s)
      in if recorded \<noteq> 0 \<and> low \<le> recorded \<and> recorded + width - 1 \<le> high \<and> \<not> block_is_taken taken recorded width then recorded
         else search_block taken answers high width low)"

text \<open>The mappings, \<open>None\<close> for a nil slice.\<close>

definition resolve_session_ports ::
  "(state_error, (string \<times> int) list) result \<Rightarrow> (int \<Rightarrow> bool) \<Rightarrow> session \<Rightarrow> (state_error, port_mapping list option) result" where
  "resolve_session_ports claimed answers s =
     (case resolve_ports (se_overrides s) (se_config s) of (guest_ports, explicit) \<Rightarrow>
        if explicit then Ok (Some (map (\<lambda>p. \<lparr>pm_host = p, pm_guest = p\<rparr>) guest_ports))
        else if guest_ports = [] then Ok None
        else bind_res claimed (\<lambda>blocks.
          let base = allocate_port_block blocks answers s (int (length guest_ports)) in
          if base = 0 then Ok None
          else Ok (Some (map (\<lambda>(index, guest). \<lparr>pm_host = base + int index, pm_guest = guest\<rparr>) (enumerate 0 guest_ports)))))"

section \<open>Where a block lies\<close>

definition block_ports :: "int \<Rightarrow> int \<Rightarrow> int set" where
  "block_ports base width = {base..<base + width}"

definition others_claim :: "string \<Rightarrow> int \<Rightarrow> (string \<times> int) list \<Rightarrow> int set" where
  "others_claim own width claimed = (\<Union>(project, base)\<in>set claimed. if project = own then {} else block_ports base width)"

lemma block_offsets: "(\<lambda>offset. base + offset) ` {0..width - 1} = block_ports base width"
proof -
  have "{0..width - 1} = {0..<width}" by auto
  then show ?thesis by (simp add: block_ports_def add.commute)
qed

lemma taken_ports_set: "set (taken_ports own width claimed) = others_claim own width claimed"
proof -
  have blocks: "set (map (\<lambda>offset. base + offset) [0..width - 1]) = block_ports base width" for base
    using block_offsets by simp
  have "set (case e of (project, base) \<Rightarrow> if project = own then [] else map (\<lambda>offset. base + offset) [0..width - 1]) =
      (case e of (project, base) \<Rightarrow> if project = own then {} else block_ports base width)" for e :: "string \<times> int"
  proof (cases e)
    case (Pair p b)
    then show ?thesis using blocks by (cases "p = own") simp_all
  qed
  then show ?thesis unfolding taken_ports_def others_claim_def set_concat set_map image_image by (rule SUP_cong [OF refl])
qed

lemma block_is_taken_iff: "block_is_taken taken base width \<longleftrightarrow> block_ports base width \<inter> set taken \<noteq> {}"
proof -
  have "block_is_taken taken base width \<longleftrightarrow> (\<exists>port\<in>(\<lambda>offset. base + offset) ` {0..width - 1}. port \<in> set taken)"
    unfolding block_is_taken_def list_ex_iff set_upto by blast
  then show ?thesis unfolding block_offsets by blast
qed

lemma block_is_free_iff: "block_is_free answers base width \<longleftrightarrow> (\<forall>port\<in>block_ports base width. \<not> answers port)"
proof -
  have "block_is_free answers base width \<longleftrightarrow> (\<forall>port\<in>(\<lambda>offset. base + offset) ` {0..width - 1}. \<not> answers port)"
    unfolding block_is_free_def list_all_iff set_upto by blast
  then show ?thesis unfolding block_offsets .
qed

text \<open>A block of the range that the search would give.\<close>

definition usable_block :: "int list \<Rightarrow> (int \<Rightarrow> bool) \<Rightarrow> int \<Rightarrow> int \<Rightarrow> bool" where
  "usable_block taken answers width base \<longleftrightarrow> \<not> block_is_taken taken base width \<and> block_is_free answers base width"

lemma search_found:
  "0 < width \<Longrightarrow> 0 < base \<Longrightarrow> search_block taken answers limit width base = b \<Longrightarrow> b \<noteq> 0 \<Longrightarrow>
   (\<exists>k::nat. b = base + int k * width) \<and> b + width - 1 \<le> limit \<and> usable_block taken answers width b"
proof (induction taken answers limit width base rule: search_block.induct)
  case (1 taken answers limit width base)
  show ?case
  proof (cases "limit < base + width - 1 \<or> usable_block taken answers width base")
    case True
    then show ?thesis using 1(3-6) by (auto simp: search_block.simps [of taken answers limit width base] usable_block_def intro!: exI [of _ 0] split: if_splits)
  next
    case False
    then have s: "search_block taken answers limit width (base + width) = b"
      using 1(3,5) by (auto simp: search_block.simps [of taken answers limit width base] usable_block_def split: if_splits)
    have "(\<exists>k::nat. b = (base + width) + int k * width) \<and> b + width - 1 \<le> limit \<and> usable_block taken answers width b"
      using 1(1,2) False 1(3,4,6) s by (auto simp: usable_block_def)
    then obtain k :: nat where "b = (base + width) + int k * width" "b + width - 1 \<le> limit" "usable_block taken answers width b" by blast
    then show ?thesis by (intro conjI exI [of _ "Suc k"]) (simp_all add: algebra_simps)
  qed
qed

lemma search_none:
  "0 < width \<Longrightarrow> 0 < base \<Longrightarrow> search_block taken answers limit width base = 0 \<Longrightarrow> base + int k * width + width - 1 \<le> limit \<Longrightarrow>
   \<not> usable_block taken answers width (base + int k * width)"
proof (induction taken answers limit width base arbitrary: k rule: search_block.induct)
  case (1 taken answers limit width base)
  have low: "\<not> limit < base + width - 1" using 1(6) 1(3) by (smt (verit) mult_nonneg_nonneg of_nat_0_le_iff)
  then have u: "\<not> usable_block taken answers width base" "search_block taken answers limit width (base + width) = 0"
    using 1(3-5) by (auto simp: search_block.simps [of taken answers limit width base] usable_block_def split: if_splits)
  show ?case
  proof (cases k)
    case 0
    then show ?thesis using u by simp
  next
    case (Suc j)
    have e: "base + int k * width = (base + width) + int j * width" by (simp add: Suc algebra_simps)
    show ?thesis using 1(1,2) 1(3,4,6) low u unfolding e by (auto simp: usable_block_def)
  qed
qed

text \<open>What an allocation gives: the recorded block, a usable block of the range, or 0 when the range has no usable block.\<close>

lemma allocated:
  assumes "allocate_port_block claimed answers s width = base" "0 < width" "0 < ov_port_base (se_overrides s)"
  shows "base = 0 \<longrightarrow> (\<forall>k::nat. ov_port_base (se_overrides s) + int k * width + width - 1 \<le> ov_port_limit (se_overrides s) \<longrightarrow>
      \<not> usable_block (taken_ports (prj_id (se_project s)) width claimed) answers width (ov_port_base (se_overrides s) + int k * width))"
    and "base \<noteq> 0 \<longrightarrow> block_ports base width \<subseteq> {ov_port_base (se_overrides s)..ov_port_limit (se_overrides s)} \<and>
      block_ports base width \<inter> others_claim (prj_id (se_project s)) width claimed = {} \<and>
      ((\<forall>port\<in>block_ports base width. \<not> answers port) \<or> (\<exists>r. se_record s = Some r \<and> pr_port_block r = base))"
proof -
  let ?taken = "taken_ports (prj_id (se_project s)) width claimed"
  let ?low = "ov_port_base (se_overrides s)" and ?high = "ov_port_limit (se_overrides s)"
  define recorded where "recorded = (case se_record s of None \<Rightarrow> 0 | Some r \<Rightarrow> pr_port_block r)"
  have b: "base = (if recorded \<noteq> 0 \<and> ?low \<le> recorded \<and> recorded + width - 1 \<le> ?high \<and> \<not> block_is_taken ?taken recorded width then recorded
      else search_block ?taken answers ?high width ?low)"
    using assms(1) unfolding allocate_port_block_def recorded_def Let_def by (rule sym)
  show "base = 0 \<longrightarrow> (\<forall>k::nat. ?low + int k * width + width - 1 \<le> ?high \<longrightarrow> \<not> usable_block ?taken answers width (?low + int k * width))"
    using search_none [OF assms(2,3)] b by auto
  show "base \<noteq> 0 \<longrightarrow> block_ports base width \<subseteq> {?low..?high} \<and> block_ports base width \<inter> others_claim (prj_id (se_project s)) width claimed = {} \<and>
      ((\<forall>port\<in>block_ports base width. \<not> answers port) \<or> (\<exists>r. se_record s = Some r \<and> pr_port_block r = base))"
  proof
    assume n: "base \<noteq> 0"
    show "block_ports base width \<subseteq> {?low..?high} \<and> block_ports base width \<inter> others_claim (prj_id (se_project s)) width claimed = {} \<and>
      ((\<forall>port\<in>block_ports base width. \<not> answers port) \<or> (\<exists>r. se_record s = Some r \<and> pr_port_block r = base))"
    proof (cases "recorded \<noteq> 0 \<and> ?low \<le> recorded \<and> recorded + width - 1 \<le> ?high \<and> \<not> block_is_taken ?taken recorded width")
      case True
      then have "base = recorded" using b by simp
      moreover have "\<exists>r. se_record s = Some r \<and> pr_port_block r = recorded" using True recorded_def by (auto split: option.splits)
      ultimately show ?thesis using True by (auto simp: block_is_taken_iff taken_ports_set block_ports_def)
    next
      case False
      then have "search_block ?taken answers ?high width ?low = base" using b by auto
      from search_found [OF assms(2,3) this n]
      obtain k :: nat where k: "base = ?low + int k * width" "base + width - 1 \<le> ?high" "usable_block ?taken answers width base" by blast
      have "?low \<le> base" using k(1) assms(2) by simp
      then show ?thesis using k by (auto simp: usable_block_def block_is_taken_iff block_is_free_iff taken_ports_set block_ports_def)
    qed
  qed
qed

lemma first_set_simps:
  "first_set [] v = v" "first_set (Some x # vs) v = x" "first_set (None # vs) v = first_set vs v"
  by (simp_all add: first_set_def)

text \<open>The published ports of a project are its own. When the settings name no ports, either the box publishes the default guest
  ports at consecutive host ports that lie in the range of the settings, that no other project claims, and that nothing listens on
  unless they are the recorded ones of the project itself; or it publishes nothing, and every block of the
  range is claimed or in use.\<close>

theorem ports_exact:
  assumes "resolve_session_ports (Ok claimed) answers s = Ok mappings" "\<not> snd (resolve_ports (se_overrides s) (se_config s))"
    and "overrides_ok (se_overrides s)"
  shows "case mappings of
      None \<Rightarrow> \<forall>k::nat. ov_port_base (se_overrides s) + int k * 4 + 3 \<le> ov_port_limit (se_overrides s) \<longrightarrow>
        (let block = block_ports (ov_port_base (se_overrides s) + int k * 4) 4 in
          block \<inter> others_claim (prj_id (se_project s)) 4 claimed \<noteq> {} \<or> (\<exists>port\<in>block. answers port))
    | Some ms \<Rightarrow> map pm_guest ms = default_guest_ports \<and>
        (\<exists>base. map pm_host ms = [base, base + 1, base + 2, base + 3] \<and>
          block_ports base 4 \<subseteq> {ov_port_base (se_overrides s)..ov_port_limit (se_overrides s)} \<and>
          block_ports base 4 \<inter> others_claim (prj_id (se_project s)) 4 claimed = {} \<and>
          ((\<forall>port\<in>block_ports base 4. \<not> answers port) \<or> (\<exists>r. se_record s = Some r \<and> pr_port_block r = base)))"
proof -
  have low: "0 < ov_port_base (se_overrides s)" using assms(3) by (simp add: overrides_ok_def port_number_def)
  have r: "resolve_ports (se_overrides s) (se_config s) = (default_guest_ports, False)"
    using assms(2)
    by (cases "ov_ports (se_overrides s)"; cases "Option.bind (se_config s) pc_ports") (simp_all add: resolve_ports_def first_set_simps)
  have g: "default_guest_ports = [3000, 5173, 8000, 8080]" by (simp add: default_guest_ports_def)
  define base where "base = allocate_port_block claimed answers s 4"
  have m: "mappings = (if base = 0 then None
      else Some (map (\<lambda>(index, guest). \<lparr>pm_host = base + int index, pm_guest = guest\<rparr>) (enumerate 0 default_guest_ports)))"
    using assms(1) by (simp add: resolve_session_ports_def r g base_def Let_def split: if_splits)
  note a = allocated [OF base_def [symmetric] _ low]
  show ?thesis
  proof (cases "base = 0")
    case True
    then show ?thesis using a(1) by (auto simp: m usable_block_def block_is_taken_iff block_is_free_iff taken_ports_set Let_def algebra_simps)
  next
    case False
    then have "map pm_guest (the mappings) = default_guest_ports" "map pm_host (the mappings) = [base, base + 1, base + 2, base + 3]"
      by (simp_all add: m g)
    then show ?thesis using a(2) False by (auto simp: m)
  qed
qed

section \<open>The blocks of the projects stay apart\<close>

definition blocks_apart :: "int \<Rightarrow> (string \<times> int) list \<Rightarrow> bool" where
  "blocks_apart width claimed \<longleftrightarrow> (\<forall>(p, b)\<in>set claimed. \<forall>(q, c)\<in>set claimed. p \<noteq> q \<longrightarrow> block_ports b width \<inter> block_ports c width = {})"

text \<open>The claimed blocks stay apart. When the blocks of the projects do not overlap and a project claims the block that it is given,
  they still do not overlap.\<close>

theorem allocation_keeps_apart:
  assumes "blocks_apart width claimed" "allocate_port_block claimed answers s width = base" "base \<noteq> 0"
    and "0 < width" "0 < ov_port_base (se_overrides s)"
  shows "blocks_apart width (AList.update (prj_id (se_project s)) base claimed)"
proof -
  let ?own = "prj_id (se_project s)"
  have "block_ports c width \<subseteq> others_claim ?own width claimed" if "(q, c) \<in> set claimed" "q \<noteq> ?own" for q c
    using UN_upper [of "(q, c)" "set claimed" "\<lambda>(project, base). if project = ?own then {} else block_ports base width"] that
    unfolding others_claim_def by simp
  moreover have "block_ports base width \<inter> others_claim ?own width claimed = {}" using allocated(2) [OF assms(2,4,5)] assms(3) by blast
  ultimately have o: "block_ports base width \<inter> block_ports c width = {}" if "(q, c) \<in> set claimed" "q \<noteq> ?own" for q c
    using that by blast
  have u: "e \<in> set (AList.update ?own base claimed) \<Longrightarrow> e = (?own, base) \<or> e \<in> set claimed" for e
    by (induction claimed) (auto split: if_splits)
  show ?thesis unfolding blocks_apart_def
  proof (intro ballI, clarify)
    fix p b q c x
    assume e: "(p, b) \<in> set (AList.update ?own base claimed)" "(q, c) \<in> set (AList.update ?own base claimed)" "p \<noteq> q"
    show "block_ports b width \<inter> block_ports c width = {}"
    proof (cases "(p, b) = (?own, base)")
      case True
      then have "(q, c) \<in> set claimed" "q \<noteq> ?own" using u [OF e(2)] e(3) by auto
      then show ?thesis using o True by simp
    next
      case False
      then have p: "(p, b) \<in> set claimed" using u [OF e(1)] by blast
      show ?thesis
      proof (cases "(q, c) = (?own, base)")
        case True
        then have "p \<noteq> ?own" using e(3) by simp
        then show ?thesis using o [OF p] True by (simp add: Int_commute)
      next
        case False
        then have "(q, c) \<in> set claimed" using u [OF e(2)] by blast
        then show ?thesis using assms(1) p e(3) unfolding blocks_apart_def by fast
      qed
    qed
  qed
qed

section \<open>Examples\<close>

definition example_claimed :: "(string \<times> int) list" where "example_claimed = [(''ffffffffffff'', 40000)]"

definition example_listening :: "int \<Rightarrow> bool" where "example_listening port \<longleftrightarrow> port = 40005"

theorem ports_exact_witness:
  "resolve_session_ports (Ok example_claimed) example_listening example_session =
     Ok (Some (map (\<lambda>(h, g). \<lparr>pm_host = h, pm_guest = g\<rparr>) [(40008, 3000), (40009, 5173), (40010, 8000), (40011, 8080)])) \<and>
   block_ports 40008 4 \<inter> others_claim ''0123456789ab'' 4 example_claimed = {}"
proof -
  have r: "resolve_session_ports (Ok example_claimed) example_listening example_session =
     Ok (Some (map (\<lambda>(h, g). \<lparr>pm_host = h, pm_guest = g\<rparr>) [(40008, 3000), (40009, 5173), (40010, 8000), (40011, 8080)]))" by code_simp
  have e: "\<not> snd (resolve_ports (se_overrides example_session) (se_config example_session))" "overrides_ok (se_overrides example_session)"
    "prj_id (se_project example_session) = ''0123456789ab''" by code_simp+
  show ?thesis using ports_exact [OF r e(1,2)] r by (simp add: e(3))
qed

theorem allocation_keeps_apart_witness:
  "allocate_port_block example_claimed example_listening example_session 4 = 40008 \<and>
   blocks_apart 4 (AList.update ''0123456789ab'' 40008 example_claimed)"
proof -
  have a: "allocate_port_block example_claimed example_listening example_session 4 = 40008"
    "prj_id (se_project example_session) = ''0123456789ab''" "0 < ov_port_base (se_overrides example_session)" by code_simp+
  have "blocks_apart 4 example_claimed" by (simp add: blocks_apart_def example_claimed_def)
  then show ?thesis using allocation_keeps_apart [OF _ a(1) _ _ a(3)] a by simp
qed

end
