(* ===== verification/Session_Mounts.thy ===== *)
theory Session_Mounts
  imports Session
begin

text \<open>
  The mounts and the shape of a box (\<open>internal/session/environment.go\<close>): a mount reaches only the project
  directory and the state of the project, and drift is reported exactly.
\<close>

section \<open>Paths below a base\<close>

lemma clean_segments_append: "clean_segments rooted acc (xs @ ys) = clean_segments rooted (rev (clean_segments rooted acc xs)) ys"
  by (induction rooted acc xs rule: clean_segments.induct) auto

lemma clean_segments_no_climb:
  "''..'' \<notin> set ss \<Longrightarrow> clean_segments rooted acc ss = rev acc @ filter (\<lambda>s. s \<noteq> [] \<and> s \<noteq> ''.'') ss"
  by (induction rooted acc ss rule: clean_segments.induct) auto

lemma clean_segments_plain_list: "list_all plain ys \<Longrightarrow> clean_segments rooted [] ys = ys"
proof -
  assume p: "list_all plain ys"
  then have "''..'' \<notin> set ys" "filter (\<lambda>s. s \<noteq> [] \<and> s \<noteq> ''.'') ys = ys"
    by (auto simp: list_all_iff plain_def filter_id_conv)
  then show ?thesis using clean_segments_no_climb by simp
qed

lemma path_segments_clean: "is_abs p \<Longrightarrow> path_segments (path_clean p) = path_segments p"
proof -
  assume a: "is_abs p"
  obtain ys where y: "path_segments p = ys" "list_all plain ys" using path_segments_form [of p] a by (metis append_Nil replicate_0)
  have c: "path_clean p = CHR ''/'' # join ''/'' ys" using a y(1) by (simp add: path_clean_def Let_def)
  have abs: "is_abs (path_clean p)" by (simp add: c is_abs_def has_prefix_iff)
  show ?thesis
  proof (cases "ys = []")
    case True
    then show ?thesis using y abs c by (simp add: path_segments_def)
  next
    case False
    then have "split_on CHR ''/'' (path_clean p) = [] # ys"
      using split_on_join [of ys "CHR ''/''"] y(2) plain_parts [of ys 0] unfolding c by simp
    then show ?thesis using y abs clean_segments_plain_list [OF y(2)] by (simp add: path_segments_def)
  qed
qed

definition strictly_below :: "string \<Rightarrow> string \<Rightarrow> bool" where
  "strictly_below base path \<longleftrightarrow> (\<exists>t. t \<noteq> [] \<and> list_all plain t \<and> path_segments path = path_segments base @ t)"

definition at_or_below :: "string \<Rightarrow> string \<Rightarrow> bool" where
  "at_or_below base path \<longleftrightarrow> (\<exists>t. list_all plain t \<and> path_segments path = path_segments base @ t)"

lemma append_below:
  assumes "is_abs base" "''..'' \<notin> set (split_on CHR ''/'' relative)"
  shows "at_or_below base (base @ ''/'' @ relative)"
proof -
  have n: "is_abs (base @ ''/'' @ relative)" using assms(1) by (auto simp: is_abs_def has_prefix_iff)
  have "path_segments (base @ ''/'' @ relative) = clean_segments True (rev (path_segments base)) (split_on CHR ''/'' relative)"
    using assms(1) n by (simp add: path_segments_def split_on_concat clean_segments_append del: split_on.simps)
  also have "\<dots> = path_segments base @ filter (\<lambda>s. s \<noteq> [] \<and> s \<noteq> ''.'') (split_on CHR ''/'' relative)"
    using assms(2) clean_segments_no_climb by simp
  finally show ?thesis
    using assms(2) split_on_fields [of _ "CHR ''/''" relative] unfolding at_or_below_def
    by (intro exI [of _ "filter (\<lambda>s. s \<noteq> [] \<and> s \<noteq> ''.'') (split_on CHR ''/'' relative)"]) (auto simp: list_all_iff plain_def)
qed

lemma join_below:
  assumes "is_abs base" "''..'' \<notin> set (split_on CHR ''/'' relative)"
  shows "at_or_below base (path_join [base, relative])"
proof -
  have n: "base \<noteq> []" "is_abs (base @ ''/'' @ relative)" using assms(1) by (auto simp: is_abs_def has_prefix_iff)
  show ?thesis
  proof (cases "relative = []")
    case True
    then show ?thesis using n(1) assms(1) path_segments_clean by (simp add: path_join_def at_or_below_def)
  next
    case False
    then show ?thesis using append_below [OF assms] n path_segments_clean by (simp add: path_join_def at_or_below_def)
  qed
qed

section \<open>The mounts\<close>

lemma segments_below: "clean_dir d \<Longrightarrow> plain a \<Longrightarrow> path_segments (path_join [d, a]) = path_segments d @ [a]"
proof -
  assume d: "clean_dir d" "plain a"
  then have a: "is_abs d" by (simp add: clean_dir_def)
  have n: "CHR ''/'' \<notin> set a" "a \<noteq> []" using d(2) by (auto simp: plain_def)
  have "path_segments (d @ ''/'' @ a) = path_segments d @ [a]"
    using a n(1) clean_segments_plain [OF d(2)]
    by (auto simp: path_segments_def split_on_concat split_on_no_sep is_abs_def has_prefix_iff simp del: split_on.simps)
  moreover have "d \<noteq> []" "is_abs (d @ ''/'' @ a)" using a by (auto simp: is_abs_def has_prefix_iff)
  ultimately show ?thesis using n path_segments_clean by (simp add: path_join_def)
qed

lemma plain_name: "name_pattern n \<Longrightarrow> plain n"
proof -
  assume n: "name_pattern n"
  have "\<not> is_lower CHR ''.''" "\<not> is_lower CHR ''/''" "\<not> is_digit CHR ''/''" by code_simp+
  then show ?thesis using n by (auto simp: name_pattern_def plain_def list_all_iff split: list.splits)
qed

lemma plain_shadow: "plain ''shadow''" "plain ''homes''" "plain ''empty''" by (simp_all add: plain_def)

lemma home_below:
  assumes "clean_dir (prj_dir p)" "name_pattern n"
  shows "path_segments (home_dir p n) = path_segments (prj_dir p) @ [''homes'', n] \<and> is_abs (home_dir p n)"
proof -
  have h: "clean_dir (homes_dir p)" using path_below [OF assms(1) plain_shadow(2)] by (simp add: homes_dir_def)
  have "clean_dir (home_dir p n)" using path_below [OF h plain_name [OF assms(2)]] by (simp add: home_dir_def)
  then show ?thesis
    using segments_below [OF h plain_name [OF assms(2)]] segments_below [OF assms(1) plain_shadow(2)]
    by (simp add: home_dir_def homes_dir_def clean_dir_def)
qed

lemma shadow_below:
  assumes "clean_dir (prj_dir p)" "project_path r"
  shows "strictly_below (prj_dir p) (shadow_dir p r)"
proof -
  let ?f = "replace_char CHR ''/'' CHR ''_'' r"
  have s: "CHR ''/'' \<notin> set ?f" by (auto simp: replace_char_def)
  have "r \<noteq> []" "r \<noteq> ''.''" "r \<noteq> ''..''" using assms(2) is_local_neq_Nil by (auto simp: project_path_def)
  then have "plain ?f" using s by (cases r; cases "tl r") (auto simp: plain_def replace_char_def split: if_splits)
  then show ?thesis
    using path_join_nested [OF assms(1) plain_shadow(1)] path_below [OF assms(1) plain_shadow(1)]
      segments_below [OF assms(1) plain_shadow(1)] segments_below [of "path_join [prj_dir p, ''shadow'']" ?f] plain_shadow
    unfolding strictly_below_def shadow_dir_def by (intro exI [of _ "[''shadow'', ?f]"]) simp
qed

lemma join_ends:
  "ss \<noteq> [] \<Longrightarrow> \<forall>s\<in>set ss. s \<noteq> [] \<and> CHR ''/'' \<notin> set s \<Longrightarrow>
   join ''/'' ss \<noteq> [] \<and> hd (join ''/'' ss) \<noteq> CHR ''/'' \<and> last (join ''/'' ss) \<noteq> CHR ''/''"
proof (induction ss)
  case (Cons x xs)
  have x: "x \<noteq> []" "hd x \<noteq> CHR ''/''" "last x \<noteq> CHR ''/''" using Cons.prems(2) by (metis hd_in_set last_in_set list.set_intros(1))+
  show ?case
  proof (cases "xs = []")
    case False
    then show ?thesis using Cons x by (simp add: join_Cons)
  qed (use x in \<open>simp add: join_Cons\<close>)
qed simp

lemma trim_slashes_id: "project_path p \<Longrightarrow> trim_slashes p = p"
proof -
  assume p: "project_path p"
  then have l: "\<not> is_abs p" "path_clean p = p" "p \<noteq> ''.''" by (auto simp: project_path_def is_local_def is_abs_def)
  obtain k ys where y: "path_segments p = replicate k ''..'' @ ys" "list_all plain ys" using path_segments_form by blast
  have j: "p = join ''/'' (replicate k ''..'' @ ys)" "replicate k ''..'' @ ys \<noteq> []"
    using l y(1) by (auto simp: path_clean_def Let_def split: if_splits)
  have e: "p \<noteq> [] \<and> hd p \<noteq> CHR ''/'' \<and> last p \<noteq> CHR ''/''"
    using join_ends [OF j(2) plain_parts [OF y(2)]] unfolding j(1) [symmetric] .
  have "dropWhile (\<lambda>c. c = CHR ''/'') p = p" using e by (cases p) auto
  moreover have "dropWhile (\<lambda>c. c = CHR ''/'') (rev p) = rev p" using e by (cases p rule: rev_cases) auto
  ultimately show ?thesis by (simp add: trim_slashes_def trim_by_def trim_right_by_def)
qed

lemma shadow_paths_accepted:
  assumes "session_ok s"
  shows "list_all project_path (shadow_paths dirs s)"
proof -
  have c: "list_all project_path (case se_config s of None \<Rightarrow> [] | Some pc \<Rightarrow> pc_shadow pc)"
    using assms by (auto simp: session_ok_def project_config_ok_def split: option.split)
  have a: "list_all project_path automatic_shadow_paths" by code_simp
  define candidates where "candidates = filter (\<lambda>c. dirs (path_join [se_directory s, c])) automatic_shadow_paths @
    (case se_config s of None \<Rightarrow> [] | Some pc \<Rightarrow> pc_shadow pc)"
  have p: "list_all project_path candidates" using a c by (auto simp: candidates_def list_all_iff)
  then have "map trim_slashes candidates = candidates" using trim_slashes_id by (simp add: list_all_iff map_idI)
  then have "set (shadow_paths dirs s) \<subseteq> set candidates"
    unfolding shadow_paths_def Let_def candidates_def [symmetric] by (auto dest: set_dedupe_by)
  then show ?thesis using p by (auto simp: list_all_iff)
qed

lemma guest_target: "has_prefix p (persisted_root @ ''/'') \<Longrightarrow> \<exists>r. p = guest_home @ ''/'' @ r"
  by (auto simp: has_prefix_iff persisted_root_def guest_home_def)

text \<open>C26. A box sees no other directory of the host. Every mount of a box is the project directory itself at the workspace, or its
  source is strictly below the state of the project and its target is below the workspace or the home of the
  guest.\<close>

theorem mounts_confined:
  assumes "session_ok s" "m \<in> set (mounts dirs s (shadow_paths dirs s))"
  shows "(mt_source m = se_directory s \<and> mt_target m = workspace_dir) \<or>
    (strictly_below (prj_dir (se_project s)) (mt_source m) \<and> (at_or_below workspace_dir (mt_target m) \<or> at_or_below guest_home (mt_target m)))"
proof -
  let ?p = "se_project s"
  have d: "clean_dir (prj_dir ?p)" using assms(1) by (simp add: session_ok_def)
  have w: "is_abs workspace_dir" "is_abs guest_home" by code_simp+
  consider (workspace) "mt_source m = se_directory s" "mt_target m = workspace_dir"
    | (shadow) r where "r \<in> set (shadow_paths dirs s)" "mt_source m = shadow_dir ?p r" "mt_target m = path_join [workspace_dir, r]"
    | (hooks) "mt_source m = empty_dir ?p" "mt_target m = workspace_dir @ ''/.git/hooks''"
    | (persist) i g where "i \<in> set (se_inmates s)" "g \<in> set (mf_persist (manifest_of i))" "mt_source m = host_path_for_guest_path s i g" "mt_target m = g"
    using assms(2) by (auto simp: mounts_def split: if_splits)
  then show ?thesis
  proof cases
    case shadow
    have r: "project_path r" using shadow_paths_accepted [OF assms(1)] shadow(1) by (auto simp: list_all_iff)
    then have "''..'' \<notin> set (split_on CHR ''/'' r)" by (simp add: project_path_def)
    then have "at_or_below workspace_dir (mt_target m)" using join_below [OF w(1)] shadow(3) by simp
    then show ?thesis using shadow_below [OF d r] shadow(2) by simp
  next
    case hooks
    have "path_segments (mt_target m) = path_segments workspace_dir @ [''.git'', ''hooks'']" unfolding hooks(2) by code_simp
    then have "at_or_below workspace_dir (mt_target m)" by (auto simp: at_or_below_def plain_def)
    moreover have "strictly_below (prj_dir ?p) (mt_source m)"
      using segments_below [OF d plain_shadow(3)] plain_shadow by (auto simp: hooks(1) empty_dir_def strictly_below_def)
    ultimately show ?thesis by simp
  next
    case persist
    have i: "manifest_ok (manifest_of i)" "name_pattern (im_name i)"
      using assms(1) persist(1) by (auto simp: session_ok_def manifest_ok_def)
    have g: "has_prefix g (persisted_root @ ''/'')" "''..'' \<notin> set (split_on CHR ''/'' g)"
      using i(1) persist(2) by (auto simp: manifest_ok_def list_all_iff)
    obtain r where r: "g = guest_home @ ''/'' @ r" using guest_target [OF g(1)] by blast
    have c: "''..'' \<notin> set (split_on CHR ''/'' r)" using g(2) r by (simp add: split_on_concat del: split_on.simps)
    have t: "''..'' \<notin> set (split_on CHR ''/'' (trim_prefix r ''/''))"
      using c split_on_concat [of "CHR ''/''" "[]"] by (auto simp: trim_prefix_def has_prefix_iff)
    have h: "is_abs (home_dir ?p (im_name i))" "path_segments (home_dir ?p (im_name i)) = path_segments (prj_dir ?p) @ [''homes'', im_name i]"
      using home_below [OF d i(2)] by simp_all
    have "trim_prefix g (guest_home @ ''/'') = r" using trim_prefix_append [of "guest_home @ ''/''" r] r by simp
    then have "at_or_below (home_dir ?p (im_name i)) (mt_source m)"
      using join_below [OF h(1) t] persist(3) by (simp add: host_path_for_guest_path_def)
    then obtain q where "list_all plain q" "path_segments (mt_source m) = path_segments (home_dir ?p (im_name i)) @ q"
      by (auto simp: at_or_below_def)
    then have "strictly_below (prj_dir ?p) (mt_source m)"
      using plain_name [OF i(2)] plain_shadow h(2) unfolding strictly_below_def by (intro exI [of _ "[''homes'', im_name i] @ q"]) simp
    moreover have "at_or_below guest_home (mt_target m)" using append_below [OF w(2) c] r persist(4) by simp
    ultimately show ?thesis by simp
  qed simp
qed

section \<open>Drift\<close>

lemma split_comma_join:
  "\<forall>x\<in>set (x # xs). CHR '','' \<notin> set x \<Longrightarrow> split_on CHR '','' (join '', '' (x # xs)) = x # map ((#) CHR '' '') xs"
proof (induction xs arbitrary: x)
  case (Cons y ys)
  have "split_on CHR '','' (x @ CHR '','' # (CHR '' '' # join '', '' (y # ys))) = x # split_on CHR '','' (CHR '' '' # join '', '' (y # ys))"
    using Cons.prems by (intro split_on_append) simp
  moreover have "split_on CHR '','' (CHR '' '' # z) = (CHR '' '' # hd (split_on CHR '','' z)) # tl (split_on CHR '','' z)" for z
    by (simp split: list.split)
  ultimately show ?case using Cons.IH [of y] Cons.prems by simp
qed (simp add: split_on_no_sep)

definition listed_name :: "string \<Rightarrow> bool" where
  "listed_name x \<longleftrightarrow> x \<noteq> ''none'' \<and> CHR '','' \<notin> set x"

lemma join_or_none_inj:
  assumes "list_all listed_name xs" "list_all listed_name ys" "join_or_none xs = join_or_none ys"
  shows "xs = ys"
proof -
  have one: "join_or_none zs \<noteq> ''none''" if l: "list_all listed_name zs" and n: "zs \<noteq> []" for zs
  proof
    assume j: "join_or_none zs = ''none''"
    obtain z zs' where z: "zs = z # zs'" using n by (cases zs) auto
    have "split_on CHR '','' ''none'' = [''none'']" by code_simp
    then have "z = ''none''" using split_comma_join [of z zs'] l j z by (simp add: join_or_none_def listed_name_def list_all_iff)
    then show False using l z by (simp add: listed_name_def)
  qed
  show ?thesis
  proof (cases "xs = [] \<or> ys = []")
    case True
    have e: "join_or_none [] = ''none''" by (simp add: join_or_none_def)
    have "ys = []" if x: "xs = []" using one [OF assms(2)] assms(3) unfolding x e by argo
    moreover have "xs = []" if y: "ys = []" using one [OF assms(1)] assms(3) unfolding y e by argo
    ultimately show ?thesis using True by argo
  next
    case False
    then obtain a as b bs where c: "xs = a # as" "ys = b # bs" by (meson list.exhaust)
    have l: "join_or_none (z # zs) = join '', '' (z # zs)" for z zs by (simp add: join_or_none_def)
    have p: "split_on CHR '','' (join '', '' (z # zs)) = z # map ((#) CHR '' '') zs" if "list_all listed_name (z # zs)" for z zs
      using split_comma_join [of z zs] that unfolding list_all_iff listed_name_def by blast
    have "join '', '' (a # as) = join '', '' (b # bs)" using assms(3) unfolding c l .
    then have "a # map ((#) CHR '' '') as = b # map ((#) CHR '' '') bs"
      using p [OF assms(1) [unfolded c]] p [OF assms(2) [unfolded c]] by argo
    then show ?thesis using c by (simp add: inj_map_eq_map)
  qed
qed

definition port_text :: "int \<times> int \<Rightarrow> string" where
  "port_text p = itoa (fst p) @ '':'' @ itoa (snd p)"

lemma port_text_inj: "port_text p = port_text q \<Longrightarrow> p = q"
proof -
  have "CHR '':'' \<notin> set (itoa i)" for i using itoa_chars [of "CHR '':''" i] by (auto simp: is_digit_def)
  then have c: "cut (port_text p) CHR '':'' = (itoa (fst p), itoa (snd p), True)" for p
    using cut_hit by (simp add: port_text_def)
  assume "port_text p = port_text q"
  then have "itoa (fst p) = itoa (fst q)" "itoa (snd p) = itoa (snd q)" using c [of p] c [of q] by simp_all
  then show "p = q" using itoa_inj by (metis prod.collapse)
qed

lemma join_ports_inj: "join_ports ps = join_ports qs \<Longrightarrow> ps = qs"
proof -
  have "port_text = (\<lambda>(h, g). itoa h @ '':'' @ itoa g)" by (auto simp: port_text_def)
  then have p: "join_ports xs = (if xs = [] then ''none'' else join '' '' (map port_text xs))" for xs
    by (simp add: join_ports_def)
  have "CHR '' '' \<notin> set (itoa i)" for i using itoa_chars [of "CHR '' ''" i] by (auto simp: is_digit_def)
  then have s: "\<forall>x\<in>set (map port_text xs). CHR '' '' \<notin> set x" for xs by (auto simp: port_text_def)
  have n: "join_ports xs \<noteq> ''none''" if "xs \<noteq> []" for xs
  proof
    assume "join_ports xs = ''none''"
    then have "map port_text xs = split_on CHR '' '' ''none''" using split_on_join [of "map port_text xs" "CHR '' ''"] s that by (simp add: p)
    moreover have "split_on CHR '' '' ''none'' = [''none'']" by code_simp
    ultimately have "port_text (hd xs) = ''none''" using that by (cases xs) auto
    moreover have "CHR '':'' \<in> set (port_text x)" for x by (simp add: port_text_def)
    moreover have "CHR '':'' \<notin> set ''none''" by simp
    ultimately show False by metis
  qed
  assume j: "join_ports ps = join_ports qs"
  show "ps = qs"
  proof (cases "ps = [] \<or> qs = []")
    case True
    have e: "join_ports [] = ''none''" by (simp add: join_ports_def)
    have "qs = []" if x: "ps = []" using n [of qs] j unfolding x e by argo
    moreover have "ps = []" if y: "qs = []" using n [of ps] j unfolding y e by argo
    ultimately show ?thesis using True by argo
  next
    case False
    then have f: "map port_text ps \<noteq> []" "map port_text qs \<noteq> []" "join_ports ps = join '' '' (map port_text ps)" "join_ports qs = join '' '' (map port_text qs)"
      using p by simp_all
    have "join '' '' (map port_text ps) = join '' '' (map port_text qs)" using j unfolding f(3,4) .
    then have "map port_text ps = map port_text qs"
      using split_on_join [OF f(1) s [of ps]] split_on_join [OF f(2) s [of qs]] by argo
    then show ?thesis using port_text_inj by (simp add: inj_map_eq_map inj_def)
  qed
qed

text \<open>Drift is reported exactly. When the names of the shadowed directories and of the inmates have no comma and are not
  the word \<open>none\<close>, nothing is reported exactly when the box was created with the shape that the settings give now.\<close>

theorem drift_exact:
  assumes "list_all listed_name (bx_shadow recorded @ bx_shadow resolved @ bx_inmates recorded @ bx_inmates resolved)"
  shows "describe_shape_drift (Some recorded) (Some resolved) = [] \<longleftrightarrow> recorded = resolved"
proof -
  have y: "yes_no a = yes_no b \<longleftrightarrow> a = b" for a b by (simp add: yes_no_def)
  have "join_or_none (bx_shadow recorded) = join_or_none (bx_shadow resolved) \<longleftrightarrow> bx_shadow recorded = bx_shadow resolved"
    "join_or_none (bx_inmates recorded) = join_or_none (bx_inmates resolved) \<longleftrightarrow> bx_inmates recorded = bx_inmates resolved"
    using assms join_or_none_inj by auto
  moreover have "join_ports (bx_ports recorded) = join_ports (bx_ports resolved) \<longleftrightarrow> bx_ports recorded = bx_ports resolved"
    using join_ports_inj by auto
  moreover have "itoa (bx_cpus recorded) = itoa (bx_cpus resolved) \<longleftrightarrow> bx_cpus recorded = bx_cpus resolved" using itoa_inj by auto
  ultimately show ?thesis by (cases recorded; cases resolved) (auto simp: describe_shape_drift_def drift_entry_def y)
qed

text \<open>Without the condition a change is missed: a directory called \<open>none\<close> reads like no directory.\<close>

lemma drift_missed: "describe_shape_drift (Some (b\<lparr>bx_shadow := [''none'']\<rparr>)) (Some (b\<lparr>bx_shadow := []\<rparr>)) = []"
  by (simp add: describe_shape_drift_def drift_entry_def join_or_none_def)

section \<open>Examples\<close>

theorem mounts_confined_witness:
  "list_all (\<lambda>m. (mt_source m = se_directory example_session \<and> mt_target m = workspace_dir) \<or>
      strictly_below (prj_dir (se_project example_session)) (mt_source m)) (mounts (\<lambda>d. True) example_session (shadow_paths (\<lambda>d. True) example_session)) \<and>
   length (mounts (\<lambda>d. True) example_session (shadow_paths (\<lambda>d. True) example_session)) = 6"
proof -
  have "length (mounts (\<lambda>d. True) example_session (shadow_paths (\<lambda>d. True) example_session)) = 6" by code_simp
  then show ?thesis using mounts_confined [OF example_session_ok, of _ "\<lambda>d. True"] by (auto simp: list_all_iff)
qed

text \<open>Two shadowed directories can share one directory of the host, when one of them is an automatic one.\<close>

lemma shadow_clash:
  "\<exists>m n. m \<in> set (mounts (\<lambda>d. True) example_session (shadow_paths (\<lambda>d. True) example_session)) \<and>
     n \<in> set (mounts (\<lambda>d. True) example_session (shadow_paths (\<lambda>d. True) example_session)) \<and> mt_source m = mt_source n \<and> mt_target m \<noteq> mt_target n"
proof -
  have "list_ex (\<lambda>m. list_ex (\<lambda>n. mt_source m = mt_source n \<and> mt_target m \<noteq> mt_target n)
      (mounts (\<lambda>d. True) example_session (shadow_paths (\<lambda>d. True) example_session)))
    (mounts (\<lambda>d. True) example_session (shadow_paths (\<lambda>d. True) example_session))" by code_simp
  then show ?thesis unfolding list_ex_iff by blast
qed

definition example_shape :: box_shape where
  "example_shape = shape example_session ''image'' [] [''build'']"

theorem drift_exact_witness:
  "describe_shape_drift (Some example_shape) (Some (example_shape\<lparr>bx_shadow := []\<rparr>)) \<noteq> []"
proof -
  have c: "list_all listed_name (bx_shadow example_shape @ bx_shadow (example_shape\<lparr>bx_shadow := []\<rparr>) @
     bx_inmates example_shape @ bx_inmates (example_shape\<lparr>bx_shadow := []\<rparr>))" by code_simp
  have "example_shape \<noteq> example_shape\<lparr>bx_shadow := []\<rparr>" by (simp add: example_shape_def shape_def)
  then show ?thesis using drift_exact [OF c] by simp
qed

end
