(* ===== verification/Session_Context.thy ===== *)
theory Session_Context
  imports Session
begin

text \<open>
  \<open>internal/session/context.go\<close> and \<open>internal/cli/trust.go\<close>: opening the session of a directory, and trusting its
  \<open>prison.toml\<close>.

  What a read of \<open>prison.toml\<close> gives, the decoder, the parser of the manifests, SHA-256 and the answer of the user are
  parameters. The properties say that a session holds only what was approved, that a file
  that is not trusted changes nothing, and that trust holds for the bytes that were trusted.
\<close>

section \<open>Opening a session\<close>

definition project_config_file_name :: string where "project_config_file_name = ''prison.toml''"

record host_environment_context =
  hc_host :: host
  hc_overrides :: overrides
  hc_global :: global_config
  hc_root :: root
  hc_registry :: registry
  hc_home :: string

datatype config_read = ConfigMissing | ConfigUnreadable | ConfigContent string

record config_state =
  cf_path :: string
  cf_present :: bool
  cf_trusted :: bool
  cf_hash :: string
  cf_content :: string

datatype open_error =
    StateFailed state_error
  | ConfigReadFailed
  | ConfigFailed config_error
  | InmatesFailed registry_error
  | NoConfigFile
  | NotTrusted
  | NotABoxName string
  | NoProjectRecord

definition lift_error :: "('e \<Rightarrow> 'f) \<Rightarrow> ('e, 'a) result \<Rightarrow> ('f, 'a) result" where
  "lift_error f r = (case r of Err e \<Rightarrow> Err (f e) | Ok x \<Rightarrow> Ok x)"

lemma lift_error_Ok [simp]: "lift_error f r = Ok x \<longleftrightarrow> r = Ok x"
  by (simp add: lift_error_def split: sum.split)

definition recorded_trust :: "project_record option \<Rightarrow> string option" where
  "recorded_trust r = map_option pr_trusted_config r"

definition read_config ::
  "(string \<Rightarrow> project_config toml_document option) \<Rightarrow> (string \<Rightarrow> string) \<Rightarrow> string \<Rightarrow> project_record option \<Rightarrow> config_read \<Rightarrow>
     (open_error, config_state \<times> project_config option) result" where
  "read_config decode sha path record content =
     (let absent = \<lparr>cf_path = path, cf_present = False, cf_trusted = False, cf_hash = [], cf_content = []\<rparr> in
      case content of
        ConfigMissing \<Rightarrow> Ok (absent, None)
      | ConfigUnreadable \<Rightarrow> Err ConfigReadFailed
      | ConfigContent bytes \<Rightarrow>
          (let found = absent\<lparr>cf_present := True, cf_hash := hex_encode (sha bytes), cf_content := bytes\<rparr> in
           if recorded_trust record \<noteq> Some (cf_hash found) then Ok (found, None)
           else bind_res (lift_error ConfigFailed (load_project_config decode path bytes)) (\<lambda>pc.
             Ok (found\<lparr>cf_trusted := True\<rparr>, Some pc))))"

definition open_session ::
  "json_forms \<Rightarrow> (string \<Rightarrow> project_config toml_document option) \<Rightarrow> parser \<Rightarrow> host_environment_context \<Rightarrow> (string \<Rightarrow> config_read) \<Rightarrow> int \<Rightarrow>
     string \<Rightarrow> disk \<Rightarrow> (open_error, session \<times> config_state \<times> disk) result" where
  "open_session js decode parse hc read_config_file now directory d =
     bind_res (lift_error StateFailed (open_project (hc_host hc) (hc_root hc) directory now d)) (\<lambda>(p, d').
     bind_res (lift_error StateFailed (load_record js p d')) (\<lambda>record.
     let real_directory = (case h_resolve (hc_host hc) directory of None \<Rightarrow> directory | Some resolved \<Rightarrow> resolved);
         path = path_join [real_directory, project_config_file_name]
     in bind_res (read_config decode (h_sha (hc_host hc)) path record (read_config_file path)) (\<lambda>(cf, pc).
        let names = resolve_inmates (hc_overrides hc) pc (hc_global hc) in
        bind_res (lift_error InmatesFailed (load_inmates parse (h_sha (hc_host hc)) (hc_registry hc) [] names)) (\<lambda>inmates.
          Ok (\<lparr>se_overrides = hc_overrides hc, se_home = hc_home hc, se_directory = real_directory, se_project = p, se_record = record,
               se_config = pc, se_inmate_names = names, se_inmates = inmates,
               se_box_name = box_name js p (ov_domain (hc_overrides hc)) d'\<rparr>, cf, d')))))"

definition project_id_from_box_name :: "string \<Rightarrow> string \<Rightarrow> string" where
  "project_id_from_box_name name domain =
     (let candidate = trim_suffix name (''.'' @ domain);
          candidate' = (case last_index CHR ''-'' candidate of None \<Rightarrow> candidate | Some i \<Rightarrow> drop (Suc i) candidate)
      in if is_project_id candidate' then candidate' else [])"

text \<open>The project of the working directory, or the one that the argument names.\<close>

definition resolve_box_argument ::
  "host_environment_context \<Rightarrow> string \<Rightarrow> string \<Rightarrow> int \<Rightarrow> disk \<Rightarrow> (open_error, project \<times> disk) result" where
  "resolve_box_argument hc working_directory argument now d =
     (if argument = [] then lift_error StateFailed (open_project (hc_host hc) (hc_root hc) working_directory now d)
      else let candidate = project_id_from_box_name argument (ov_domain (hc_overrides hc)) in
        if candidate = [] then Err (NotABoxName argument)
        else (case project_by_id (hc_root hc) candidate d of
            Err _ \<Rightarrow> Err (NotABoxName argument)
          | Ok p \<Rightarrow> Ok (p, d)))"

definition require_project_record :: "session \<Rightarrow> (open_error, project_record) result" where
  "require_project_record s = (case se_record s of None \<Rightarrow> Err NoProjectRecord | Some r \<Rightarrow> Ok r)"

definition inmate_by_name :: "session \<Rightarrow> string \<Rightarrow> inmate option" where
  "inmate_by_name s name = (case find (\<lambda>i. im_name i = name) (se_inmates s) of
       Some i \<Rightarrow> Some i
     | None \<Rightarrow> find (\<lambda>i. has_alias i name) (se_inmates s))"

section \<open>Trusting prison.toml\<close>

definition was_trusted_before :: "session \<Rightarrow> disk \<Rightarrow> bool" where
  "was_trusted_before s d \<longleftrightarrow> (case se_record s of None \<Rightarrow> False | Some r \<Rightarrow> pr_trusted_config r \<noteq> []) \<or> is_ok (stat_file d (trusted_config_copy (se_project s)))"

datatype config_warning = ChangedAfterTrust | NeverTrusted

definition warn_about_untrusted :: "session \<Rightarrow> config_state \<Rightarrow> disk \<Rightarrow> config_warning option" where
  "warn_about_untrusted s cf d =
     (if \<not> cf_present cf \<or> cf_trusted cf then None
      else if was_trusted_before s d then Some ChangedAfterTrust else Some NeverTrusted)"

datatype grant_warning = GrantsSetup | GrantsInmates | GrantsEgress | GrantsSudo

definition grant_warnings :: "project_config \<Rightarrow> grant_warning list" where
  "grant_warnings pc =
     (if pc_commands pc \<noteq> [] then [GrantsSetup] else []) @ (if pc_inmates pc \<noteq> None then [GrantsInmates] else []) @
     (if pc_hosts pc \<noteq> [] then [GrantsEgress] else []) @ (if pc_sudo pc = Some True then [GrantsSudo] else [])"

definition empty_record :: "string \<Rightarrow> int \<Rightarrow> project_record" where
  "empty_record path now = \<lparr>pr_path = path, pr_created = now, pr_trusted_config = [], pr_port_block = 0, pr_setup_signature = [], pr_box = None\<rparr>"

definition trusted_record :: "(string \<Rightarrow> string) \<Rightarrow> session \<Rightarrow> string \<Rightarrow> int \<Rightarrow> project_record" where
  "trusted_record sha s content now =
     (case se_record s of None \<Rightarrow> empty_record (se_directory s) now | Some r \<Rightarrow> r)\<lparr>pr_trusted_config := hex_encode (sha content)\<rparr>"

definition record_trusted_configuration ::
  "json_forms \<Rightarrow> (string \<Rightarrow> string) \<Rightarrow> session \<Rightarrow> string \<Rightarrow> int \<Rightarrow> disk \<Rightarrow> (open_error, disk) result" where
  "record_trusted_configuration js sha s content now d =
     bind_res (lift_error StateFailed (save_record js (se_project s) (trusted_record sha s content now) now d)) (\<lambda>d1.
       lift_error StateFailed (write_file_atomic (trusted_config_copy (se_project s)) content now d1))"

text \<open>The user sees the content and what it grants. The result has whether anything was written.\<close>

definition run_trust_command ::
  "json_forms \<Rightarrow> (string \<Rightarrow> project_config toml_document option) \<Rightarrow> (string \<Rightarrow> string) \<Rightarrow> (string \<Rightarrow> grant_warning list \<Rightarrow> bool) \<Rightarrow> bool \<Rightarrow>
     session \<Rightarrow> config_state \<Rightarrow> int \<Rightarrow> disk \<Rightarrow> (open_error, disk) result" where
  "run_trust_command js decode sha confirm yes s cf now d =
     (if \<not> cf_present cf then Err NoConfigFile
      else if cf_trusted cf then Ok d
      else bind_res (lift_error ConfigFailed (load_project_config decode (cf_path cf) (cf_content cf))) (\<lambda>pc.
        if \<not> yes \<and> \<not> confirm (cf_content cf) (grant_warnings pc) then Err NotTrusted
        else record_trusted_configuration js sha s (cf_content cf) now d))"

section \<open>An opened session holds what was approved\<close>

lemma parsed_manifest_ok: "parse_inmate_manifest decode compiles data = Ok m \<Longrightarrow> manifest_ok m"
  using validated_ok by (auto simp: parse_inmate_manifest_def bind_res_Ok Let_def split: option.splits prod.splits)

lemma read_config_Ok:
  assumes "read_config decode sha path record content = Ok (cf, pc)"
  shows "(pc = None \<and> \<not> cf_trusted cf \<and> (content = ConfigMissing \<or> (\<exists>bytes. content = ConfigContent bytes \<and> recorded_trust record \<noteq> Some (hex_encode (sha bytes))))) \<or>
    (\<exists>bytes c. content = ConfigContent bytes \<and> cf_content cf = bytes \<and> cf_trusted cf \<and> recorded_trust record = Some (hex_encode (sha bytes)) \<and>
      pc = Some c \<and> load_project_config decode path bytes = Ok c)"
  using assms by (cases content) (auto simp: read_config_def Let_def bind_res_Ok split: if_splits)

lemma opened_project_dir:
  assumes "open_project h r directory now d = Ok (p, d')" "clean_dir (root_path r)" "\<forall>x. 6 \<le> length (h_sha h x)"
  shows "clean_dir (prj_dir p) \<and> is_project_id (prj_id p)"
proof -
  obtain path where p: "prj_id p = project_id (h_sha h) path" "prj_dir p = path_join [projects_dir r, prj_id p]"
    using assms(1) by (auto simp: open_project_def bind_res_Ok Let_def split: option.splits)
  have i: "is_project_id (prj_id p)" using p(1) assms(3) project_id_recognised by simp
  show ?thesis using path_below [OF root_dirs(4) [OF assms(2)] project_id_plain [OF i]] p(2) i by simp
qed

lemma open_session_parts:
  assumes "open_session js decode parse hc read_config_file now directory d = Ok (s, cf, d')"
  shows "open_project (hc_host hc) (hc_root hc) directory now d = Ok (se_project s, d') \<and> load_record js (se_project s) d' = Ok (se_record s) \<and>
    read_config decode (h_sha (hc_host hc)) (path_join [se_directory s, project_config_file_name]) (se_record s)
      (read_config_file (path_join [se_directory s, project_config_file_name])) = Ok (cf, se_config s) \<and>
    load_inmates parse (h_sha (hc_host hc)) (hc_registry hc) [] (se_inmate_names s) = Ok (se_inmates s) \<and>
    se_inmate_names s = resolve_inmates (hc_overrides hc) (se_config s) (hc_global hc) \<and>
    se_box_name s = box_name js (se_project s) (ov_domain (hc_overrides hc)) d'"
  using assms by (auto simp: open_session_def bind_res_Ok Let_def)

lemma opened_inmates:
  assumes "load_inmates (parse_inmate_manifest dec compiles) sha rg [] names = Ok is" "i \<in> set is"
  shows "manifest_ok (manifest_of i) \<and> im_name i = mf_name (manifest_of i)"
proof -
  have "may_load (parse_inmate_manifest dec compiles) sha rg i" using loaded_may_load [OF assms(1)] assms(2) by blast
  then obtain content m where m: "parse_inmate_manifest dec compiles content = Ok m" "mf_name m = im_name i" "im_manifest i = Some m"
    by (auto simp: may_load_def)
  then show ?thesis using parsed_manifest_ok by (simp add: manifest_of_def)
qed

lemma opened_session_ok:
  assumes "open_session js decode (parse_inmate_manifest dec compiles) hc read_config_file now directory d = Ok (s, cf, d')"
    and "clean_dir (root_path (hc_root hc))" "\<forall>x. 6 \<le> length (h_sha (hc_host hc) x)"
  shows "session_ok s"
proof -
  note o = open_session_parts [OF assms(1)]
  have "option_all project_config_ok (se_config s)"
    using read_config_Ok [of decode "h_sha (hc_host hc)"] o loaded_config_ok by (metis option_all_simps)
  moreover have "clean_dir (prj_dir (se_project s))" using opened_project_dir assms(2,3) o by blast
  moreover have "\<forall>i\<in>set (se_inmates s). manifest_ok (manifest_of i) \<and> im_name i = mf_name (manifest_of i)" using opened_inmates o by blast
  ultimately show ?thesis by (simp add: session_ok_def)
qed

text \<open>C11. A session holds only what was approved. Its state directory is a clean path, each of its inmates is bundled or
  has an approval for the hash of its present files and has an accepted manifest that is read in its directory, and when it has a configuration, that is the accepted content of \<open>prison.toml\<close>
  whose hash the project has recorded as trusted.\<close>

theorem opened_session_approved:
  assumes "open_session js decode (parse_inmate_manifest dec compiles) hc read_config_file now directory d = Ok (s, cf, d')"
    and "clean_dir (root_path (hc_root hc))" "\<forall>x. 6 \<le> length (h_sha (hc_host hc) x)"
  shows "session_ok s \<and> (\<forall>i\<in>set (se_inmates s). may_load (parse_inmate_manifest dec compiles) (h_sha (hc_host hc)) (hc_registry hc) i) \<and>
    (case se_config s of None \<Rightarrow> True | Some pc \<Rightarrow>
      \<exists>bytes r. read_config_file (path_join [se_directory s, project_config_file_name]) = ConfigContent bytes \<and> se_record s = Some r \<and>
        pr_trusted_config r = hex_encode (h_sha (hc_host hc) bytes) \<and>
        load_project_config decode (path_join [se_directory s, project_config_file_name]) bytes = Ok pc)"
proof -
  note o = open_session_parts [OF assms(1)]
  have "\<forall>i\<in>set (se_inmates s). may_load (parse_inmate_manifest dec compiles) (h_sha (hc_host hc)) (hc_registry hc) i"
    using loaded_may_load o by blast
  moreover have "session_ok s" using assms by (rule opened_session_ok)
  moreover have "read_config decode (h_sha (hc_host hc)) (path_join [se_directory s, project_config_file_name]) (se_record s)
      (read_config_file (path_join [se_directory s, project_config_file_name])) = Ok (cf, se_config s)" using o by blast
  note c = read_config_Ok [OF this]
  ultimately show ?thesis using c by (auto simp: recorded_trust_def split: option.split)
qed

section \<open>What is not trusted has no effect\<close>

text \<open>A \<open>prison.toml\<close> that is not trusted changes nothing. Opening the directory with it gives the same session, and the same
  changes to the state, as opening the directory without any \<open>prison.toml\<close>.\<close>

theorem untrusted_config_ignored:
  assumes "open_session js decode parse hc read_config_file now directory d = Ok (s, cf, d')" "\<not> cf_trusted cf"
  shows "\<exists>cf'. open_session js decode parse hc (\<lambda>path. ConfigMissing) now directory d = Ok (s, cf', d') \<and> se_config s = None"
proof -
  note o = open_session_parts [OF assms(1)]
  have "read_config decode (h_sha (hc_host hc)) (path_join [se_directory s, project_config_file_name]) (se_record s)
      (read_config_file (path_join [se_directory s, project_config_file_name])) = Ok (cf, se_config s)" using o by blast
  then have "se_config s = None" using read_config_Ok assms(2) by metis
  then show ?thesis using assms(1) by (auto simp: open_session_def bind_res_Ok Let_def read_config_def [of _ _ _ _ ConfigMissing])
qed

section \<open>Trust is for the bytes\<close>

lemma state_files_differ:
  assumes "clean_dir (prj_dir p)"
  shows "record_file p \<noteq> trusted_config_copy p"
  using path_below(1) [OF assms, of "''project.json''"] path_below(1) [OF assms, of "''config-trusted.toml''"]
  by (simp add: record_file_def trusted_config_copy_def plain_def)

text \<open>C10. Trust is for the bytes that were shown. After a file is trusted the record of the project names its hash. Reading a \<open>prison.toml\<close> with
  the bytes that the user saw succeeds and applies the configuration that was decoded from them; reading any other bytes applies nothing. The copy
  of the trusted file holds the bytes. This relies on the hash of other bytes being another one.\<close>

theorem trust_binds_bytes:
  assumes "run_trust_command js decode sha confirm yes s cf now d = Ok d1" "\<not> cf_trusted cf"
    and "clean_dir (prj_dir (se_project s))" "record_file (se_project s) \<notin> set (dk_blocked d)" "trusted_config_copy (se_project s) \<notin> set (dk_blocked d)"
    and "jf_record js (jf_record_text js (trusted_record sha s (cf_content cf) now) @ [newline]) = Some (trusted_record sha s (cf_content cf) now)"
    and "\<forall>bytes. sha bytes = sha (cf_content cf) \<longrightarrow> bytes = cf_content cf"
  shows "\<exists>pc r. load_project_config decode (cf_path cf) (cf_content cf) = Ok pc \<and> (yes \<or> confirm (cf_content cf) (grant_warnings pc)) \<and>
    read_file d1 (trusted_config_copy (se_project s)) = Ok (cf_content cf) \<and> load_record js (se_project s) d1 = Ok (Some r) \<and>
    (\<exists>cf'. read_config decode sha (cf_path cf) (Some r) (ConfigContent (cf_content cf)) = Ok (cf', Some pc) \<and> cf_trusted cf') \<and>
    (\<forall>bytes. bytes \<noteq> cf_content cf \<longrightarrow>
      (\<exists>cf'. read_config decode sha (cf_path cf) (Some r) (ConfigContent bytes) = Ok (cf', None) \<and> \<not> cf_trusted cf'))"
proof -
  let ?p = "se_project s"
  obtain pc where pc: "load_project_config decode (cf_path cf) (cf_content cf) = Ok pc" "yes \<or> confirm (cf_content cf) (grant_warnings pc)"
    "record_trusted_configuration js sha s (cf_content cf) now d = Ok d1"
    using assms(1,2) by (auto simp: run_trust_command_def bind_res_Ok split: if_splits)
  let ?r = "trusted_record sha s (cf_content cf) now"
  have h: "pr_trusted_config ?r = hex_encode (sha (cf_content cf))" by (simp add: trusted_record_def)
  obtain d0 where r: "save_record js ?p ?r now d = Ok d0" "write_file_atomic (trusted_config_copy ?p) (cf_content cf) now d0 = Ok d1"
    using pc(3) by (auto simp: record_trusted_configuration_def bind_res_Ok)
  have w: "write_file_atomic (record_file ?p) (jf_record_text js ?r @ [newline]) now d = Ok d0"
    using r(1) by (simp add: save_record_def write_json_file_def)
  have b: "dk_blocked d0 = dk_blocked d" using write_atomic_Ok [OF w] by simp
  have "read_file d1 (record_file ?p) = Ok (jf_record_text js ?r @ [newline])"
    using read_other(1) [OF r(2) state_files_differ [OF assms(3)]] read_written [OF w assms(4)] by simp
  then have l: "load_record js ?p d1 = Ok (Some ?r)" using assms(6) by (simp add: load_record_def read_json_file_def)
  have other: "hex_encode (sha bytes) = hex_encode (sha (cf_content cf)) \<longleftrightarrow> bytes = cf_content cf" for bytes
    using assms(7) hex_encode_inject by blast
  have "\<exists>cf'. read_config decode sha (cf_path cf) (Some ?r) (ConfigContent (cf_content cf)) = Ok (cf', Some pc) \<and> cf_trusted cf'"
    using h pc(1) by (simp add: read_config_def recorded_trust_def lift_error_def)
  moreover have "\<exists>cf'. read_config decode sha (cf_path cf) (Some ?r) (ConfigContent bytes) = Ok (cf', None) \<and> \<not> cf_trusted cf'"
    if "bytes \<noteq> cf_content cf" for bytes
    using h that other [of bytes] by (simp add: read_config_def recorded_trust_def Let_def)
  ultimately show ?thesis using pc(1,2) l read_written [OF r(2)] assms(5) b by auto
qed

section \<open>Box names\<close>

text \<open>The name of a box gives back its project. With the domain of the settings, the name that a project gives its box is
  read as the identifier of the project.\<close>

theorem box_name_round_trip:
  assumes "is_project_id (prj_id p)"
  shows "project_id_from_box_name (box_name js p domain d) domain = prj_id p"
proof -
  have "CHR ''-'' \<notin> set (prj_id p)"
  proof
    assume "CHR ''-'' \<in> set (prj_id p)"
    then have "hex_byte CHR ''-''" using assms by (auto simp: is_project_id_def list_all_iff)
    moreover have "\<not> hex_byte CHR ''-''" by code_simp
    ultimately show False by blast
  qed
  then have l: "last_index CHR ''-'' (n @ ''-'' @ prj_id p) = Some (length n)" for n
    using last_index_append [of "CHR ''-''" "prj_id p" n] by simp
  define path where "path = (case load_record js p d of Ok (Some rec) \<Rightarrow> if pr_path rec \<noteq> [] then pr_path rec else prj_directory_path p
                  | _ \<Rightarrow> prj_directory_path p)"
  define n where "n = (if slug path = [] then ''project'' else slug path)"
  have "box_name js p domain d = (n @ ''-'' @ prj_id p) @ (''.'' @ domain)"
    unfolding box_name_def path_def [symmetric] n_def Let_def append_assoc ..
  then have "trim_suffix (box_name js p domain d) (''.'' @ domain) = n @ ''-'' @ prj_id p" by (simp only: trim_suffix_append)
  moreover have "drop (Suc (length n)) (n @ ''-'' @ prj_id p) = prj_id p" by simp
  ultimately show ?thesis using assms unfolding project_id_from_box_name_def Let_def by (simp only: l option.case if_True)
qed

section \<open>Examples\<close>

definition example_record :: project_record where
  "example_record = \<lparr>pr_path = ''/src'', pr_created = 1, pr_trusted_config = ''612f62'', pr_port_block = 0, pr_setup_signature = [], pr_box = None\<rparr>"

text \<open>A codec that gives the record of the example for each file.\<close>

definition trusting_json :: "project_record \<Rightarrow> json_forms" where
  "trusting_json r = \<lparr>jf_record = (\<lambda>_. Some r), jf_record_text = (\<lambda>_. []), jf_profile = (\<lambda>_. None), jf_profile_text = (\<lambda>_. []),
     jf_trust = (\<lambda>_. None), jf_trust_text = (\<lambda>_. [])\<rparr>"

definition example_hash :: "string \<Rightarrow> string" where "example_hash x = x @ ''-digest''"

definition example_context :: "(string \<Rightarrow> string) \<Rightarrow> host_environment_context" where
  "example_context sha = \<lparr>hc_host = \<lparr>h_resolve = Some, h_home = Some ''/home/me'', h_sha = sha\<rparr>,
     hc_overrides = (se_overrides example_session)\<lparr>ov_inmates := Some [''tool'']\<rparr>, hc_global = no_global, hc_root = example_root,
     hc_registry = tool_registry, hc_home = ''/home/me''\<rparr>"

definition tool_decoder :: "string \<Rightarrow> (manifest \<times> string list) option" where "tool_decoder data = Some (example_tool, [])"

definition example_opened :: "string \<Rightarrow> (open_error, session \<times> config_state \<times> disk) result" where
  "example_opened hash = open_session (trusting_json (example_record\<lparr>pr_trusted_config := hash\<rparr>)) example_project_document
     (parse_inmate_manifest tool_decoder (\<lambda>p. True)) (example_context example_hash) (\<lambda>path. ConfigContent ''a/b'') 5 ''/src''
     (put_node ''/p/projects/2f7372632d64/project.json'' (SFile [] 1) example_state_disk)"

definition trusted_hash :: string where "trusted_hash = hex_encode (example_hash ''a/b'')"

lemma example_opened_ok:
  "case example_opened trusted_hash of Err e \<Rightarrow> False
   | Ok (s, cf, d') \<Rightarrow> cf_trusted cf \<and> se_config s \<noteq> None \<and> map im_name (se_inmates s) = [''tool'']"
  by code_simp

lemma example_untrusted_ok:
  "case example_opened [] of Err e \<Rightarrow> False | Ok (s, cf, d') \<Rightarrow> \<not> cf_trusted cf \<and> cf_present cf"
  by code_simp

lemma example_context_ok:
  "clean_dir (root_path (hc_root (example_context example_hash)))" "\<forall>x. 6 \<le> length (h_sha (hc_host (example_context example_hash)) x)"
  by code_simp (simp add: example_context_def example_hash_def)

theorem opened_session_approved_witness:
  "case example_opened trusted_hash of Err e \<Rightarrow> False
   | Ok (s, cf, d') \<Rightarrow> session_ok s \<and> map im_name (se_inmates s) = [''tool''] \<and> (\<exists>r. se_record s = Some r \<and> pr_trusted_config r = trusted_hash)"
proof -
  obtain s cf d' where e: "example_opened trusted_hash = Ok (s, cf, d')" "se_config s \<noteq> None" "map im_name (se_inmates s) = [''tool'']"
    using example_opened_ok by (auto split: sum.splits)
  have h: "h_sha (hc_host (example_context example_hash)) = example_hash" by (simp add: example_context_def)
  show ?thesis
    using opened_session_approved [OF e(1) [unfolded example_opened_def] example_context_ok] e h by (auto simp: trusted_hash_def)
qed

theorem untrusted_config_ignored_witness:
  "case example_opened [] of Err e \<Rightarrow> False | Ok (s, cf, d') \<Rightarrow> se_config s = None \<and> cf_present cf"
proof -
  obtain s cf d' where e: "example_opened [] = Ok (s, cf, d')" "\<not> cf_trusted cf" "cf_present cf"
    using example_untrusted_ok by (auto split: sum.splits)
  show ?thesis using untrusted_config_ignored [OF e(1) [unfolded example_opened_def] e(2)] e by auto
qed

definition example_found :: config_state where
  "example_found = \<lparr>cf_path = ''/src/prison.toml'', cf_present = True, cf_trusted = False, cf_hash = hex_encode ''a/b'', cf_content = ''a/b''\<rparr>"

definition example_trusted :: "(open_error, disk) result" where
  "example_trusted = run_trust_command (trusting_json (trusted_record id example_session ''a/b'' 5)) example_project_document id (\<lambda>content warnings. True) False
     example_session example_found 5 \<lparr>dk_nodes = [(''/r'', SDir 1), (''/r/projects'', SDir 1), (''/r/projects/0123456789ab'', SDir 1)], dk_blocked = []\<rparr>"

lemma example_trusted_ok: "is_ok example_trusted"
  by code_simp

theorem trust_binds_bytes_witness:
  "case example_trusted of Err e \<Rightarrow> False
   | Ok d1 \<Rightarrow> read_file d1 (trusted_config_copy (se_project example_session)) = Ok ''a/b'' \<and>
       (\<exists>r cf' pc. read_config example_project_document id (cf_path example_found) (Some r) (ConfigContent ''a/b'') = Ok (cf', Some pc) \<and> cf_trusted cf')"
proof -
  let ?js = "trusting_json (trusted_record id example_session ''a/b'' 5)"
  obtain d1 where d: "example_trusted = Ok d1" using example_trusted_ok by (auto simp: is_ok_def split: sum.splits)
  have c: "clean_dir (prj_dir (se_project example_session))" using example_session_ok by (simp add: session_ok_def)
  have f: "cf_content example_found = ''a/b''" "\<not> cf_trusted example_found" by (simp_all add: example_found_def)
  have j: "jf_record ?js (jf_record_text ?js (trusted_record id example_session (cf_content example_found) 5) @ [newline]) =
      Some (trusted_record id example_session (cf_content example_found) 5)"
    "\<forall>bytes. id bytes = id (cf_content example_found) \<longrightarrow> bytes = cf_content example_found"
    by (simp_all add: trusting_json_def f(1))
  define disk0 where "disk0 = \<lparr>dk_nodes = [(''/r'', SDir 1), (''/r/projects'', SDir 1), (''/r/projects/0123456789ab'', SDir 1)], dk_blocked = []\<rparr>"
  have b: "p \<notin> set (dk_blocked disk0)" for p by (simp add: disk0_def)
  from trust_binds_bytes [OF d [unfolded example_trusted_def disk0_def [symmetric]] f(2) c b b j]
  obtain pc r cf' where x: "read_file d1 (trusted_config_copy (se_project example_session)) = Ok (cf_content example_found)"
    "read_config example_project_document id (cf_path example_found) (Some r) (ConfigContent (cf_content example_found)) = Ok (cf', Some pc)" "cf_trusted cf'"
    by (elim exE conjE) (rule that; assumption)
  show ?thesis unfolding d sum.case f(1) [symmetric] by (intro conjI exI) (rule x)+
qed

theorem box_name_round_trip_witness:
  "project_id_from_box_name (box_name (trusting_json example_record) (known_project example_root example_id) ''prison'' example_state_disk) ''prison'' = example_id"
proof -
  have "is_project_id (prj_id (known_project example_root example_id))" by code_simp
  from box_name_round_trip [OF this] show ?thesis by (simp add: known_project_def)
qed

end
