(* ===== verification/Session_Exec.thy ===== *)
theory Session_Exec
  imports Session
begin

text \<open>
  \<open>internal/session/exec.go\<close> and \<open>internal/session/setup.go\<close>: commands in the box, the wait for its resolver, and the setup
  commands of a project.

  What a command in the box does is a parameter: it gives the exit status or that the command cannot run, and what it writes.
\<close>

section \<open>Commands in the box\<close>

definition guest_binary :: string where "guest_binary = ''/usr/local/bin/prison-guest''"
definition guest_output_limit :: nat where "guest_output_limit = 1048576"

text \<open>A \<open>Write\<close> of a capped buffer reports all of the data as written.\<close>

definition capped_write :: "string \<Rightarrow> string \<Rightarrow> nat \<times> string" where
  "capped_write buffer data =
     (let room = guest_output_limit - length buffer in (length data, buffer @ take (min (length data) room) data))"

definition capped_output :: "string list \<Rightarrow> string" where
  "capped_output writes = foldl (\<lambda>buffer data. snd (capped_write buffer data)) [] writes"

record exec_request =
  er_command :: "string list"
  er_tty :: bool
  er_interactive :: bool
  er_work_dir :: string
  er_environment :: "string list"

record exec_spec =
  ex_box :: string
  ex_command :: "string list"
  ex_tty :: bool
  ex_interactive :: bool
  ex_work_dir :: string
  ex_uid :: int
  ex_gid :: int
  ex_environment :: "string list"

record exec_answer =
  xa_failed :: bool
  xa_status :: int
  xa_stdout :: "string list"
  xa_both :: "string list"

text \<open>The user of the host and what the box does with a command: the writes to the standard output, and those to both streams.\<close>

record box_runner =
  br_uid :: int
  br_gid :: int
  br_exec :: "exec_spec \<Rightarrow> exec_answer"

definition quiet_request :: "string list \<Rightarrow> exec_request" where
  "quiet_request command = \<lparr>er_command = command, er_tty = False, er_interactive = False, er_work_dir = [], er_environment = []\<rparr>"

definition exec_spec_for :: "box_runner \<Rightarrow> session \<Rightarrow> exec_request \<Rightarrow> exec_spec" where
  "exec_spec_for br s request =
     \<lparr>ex_box = se_box_name s, ex_command = er_command request, ex_tty = er_tty request, ex_interactive = er_interactive request,
      ex_work_dir = (if er_work_dir request = [] then workspace_dir else er_work_dir request),
      ex_uid = br_uid br, ex_gid = br_gid br, ex_environment = er_environment request\<rparr>"

definition exec_in_box :: "box_runner \<Rightarrow> session \<Rightarrow> exec_request \<Rightarrow> exec_answer" where
  "exec_in_box br s request = br_exec br (exec_spec_for br s request)"

definition run_quiet :: "box_runner \<Rightarrow> session \<Rightarrow> string list \<Rightarrow> bool \<times> int \<times> string" where
  "run_quiet br s command =
     (let answer = exec_in_box br s (quiet_request command) in (xa_failed answer, xa_status answer, capped_output (xa_both answer)))"

definition shell_request :: "string \<Rightarrow> string list \<Rightarrow> exec_request" where
  "shell_request line environment = (quiet_request [''bash'', ''-lc'', line])\<lparr>er_environment := environment\<rparr>"

definition run_shell :: "box_runner \<Rightarrow> session \<Rightarrow> string \<Rightarrow> string list \<Rightarrow> int option" where
  "run_shell br s line environment =
     (let answer = exec_in_box br s (shell_request line environment) in if xa_failed answer then None else Some (xa_status answer))"

record probe_result =
  pb_commands :: "string list"
  pb_terminfo :: bool

definition probe_has :: "probe_result \<Rightarrow> string \<Rightarrow> bool" where
  "probe_has pb command \<longleftrightarrow> command \<in> set (pb_commands pb)"

datatype exec_error =
    CannotProbe
  | ProbeFailed
  | ProbeInvalid
  | NotReady string
  | NoBox
  | BoxStopped
  | CannotInspectBox

text \<open>The decoder gives the commands that the answer maps to true.\<close>

definition probe_arguments :: "string list \<Rightarrow> string \<Rightarrow> string list" where
  "probe_arguments commands term =
     [guest_binary, ''probe''] @ (if commands = [] then [] else [''--command'', join '','' commands]) @ (if term = [] then [] else [''--term'', term])"

definition probe :: "box_runner \<Rightarrow> (string \<Rightarrow> probe_result option) \<Rightarrow> session \<Rightarrow> string list \<Rightarrow> string \<Rightarrow> (exec_error, probe_result) result" where
  "probe br decode s commands term =
     (if commands = [] \<and> term = [] then Ok \<lparr>pb_commands = [], pb_terminfo = False\<rparr>
      else let answer = exec_in_box br s (quiet_request (probe_arguments commands term)) in
        if xa_failed answer then Err CannotProbe
        else if xa_status answer \<noteq> 0 then Err ProbeFailed
        else (case decode (capped_output (xa_stdout answer)) of None \<Rightarrow> Err ProbeInvalid | Some pb \<Rightarrow> Ok pb))"

section \<open>The wait for the resolver\<close>

definition readiness_timeout :: nat where "readiness_timeout = 60000"
definition readiness_interval :: nat where "readiness_interval = 1000"

text \<open>One attempt: how long it takes in milliseconds, whether the answer is status 0, and the output.\<close>

record ready_attempt =
  ra_duration :: nat
  ra_ready :: bool
  ra_output :: string

function wait_until_ready :: "(nat \<Rightarrow> ready_attempt) \<Rightarrow> nat \<Rightarrow> nat \<Rightarrow> string \<Rightarrow> (exec_error, unit) result" where
  "wait_until_ready attempts n now last_output =
     (let a = attempts n; after = now + ra_duration a;
          last' = (if ra_output a \<noteq> [] then trim_space (ra_output a) else last_output)
      in if ra_ready a then Ok ()
         else if readiness_timeout < after then Err (NotReady last')
         else wait_until_ready attempts (Suc n) (after + readiness_interval) last')"
  by pat_completeness auto
termination
  by (relation "measure (\<lambda>(attempts, n, now, last). readiness_timeout + 1 - now)") (auto simp: readiness_interval_def)

declare wait_until_ready.simps [simp del]

record box_info =
  xi_exists :: bool
  xi_running :: bool
  xi_address :: string

definition require_running :: "box_info option \<Rightarrow> (exec_error, unit) result" where
  "require_running box = (case box of None \<Rightarrow> Err CannotInspectBox
     | Some b \<Rightarrow> if \<not> xi_exists b then Err NoBox else if \<not> xi_running b then Err BoxStopped else Ok ())"

definition resolve_term :: "box_runner \<Rightarrow> (string \<Rightarrow> probe_result option) \<Rightarrow> session \<Rightarrow> string \<Rightarrow> string" where
  "resolve_term br decode s term =
     (if term = [] \<or> term = ''dumb'' then ''xterm-256color''
      else (case probe br decode s [] term of
          Err _ \<Rightarrow> term
        | Ok pb \<Rightarrow> if pb_terminfo pb then term else ''xterm-256color''))"

section \<open>Setup commands\<close>

record setup_rule =
  sr_marker :: string
  sr_tool :: string
  sr_command :: string

definition rule :: "string \<Rightarrow> string \<Rightarrow> string \<Rightarrow> setup_rule" where
  "rule marker tool command = \<lparr>sr_marker = marker, sr_tool = tool, sr_command = command\<rparr>"

definition setup_rule_groups :: "setup_rule list list" where
  "setup_rule_groups = [
     [rule ''package-lock.json'' ''npm'' ''npm ci'', rule ''pnpm-lock.yaml'' ''pnpm'' ''pnpm install --frozen-lockfile'',
      rule ''yarn.lock'' ''yarn'' ''yarn install'', rule ''package.json'' ''npm'' ''npm install''],
     [rule ''uv.lock'' ''uv'' ''uv sync'', rule ''poetry.lock'' ''poetry'' ''poetry install'',
      rule ''requirements.txt'' ''pip3'' ''pip3 install -r requirements.txt''],
     [rule ''go.mod'' ''go'' ''go mod download''], [rule ''Cargo.toml'' ''cargo'' ''cargo fetch''],
     [rule ''Gemfile.lock'' ''bundle'' ''bundle install'']]"

definition setup_candidates :: "(string \<Rightarrow> bool) \<Rightarrow> session \<Rightarrow> setup_rule list" where
  "setup_candidates file_exists s =
     List.map_filter (find (\<lambda>r. file_exists (path_join [se_directory s, sr_marker r]))) setup_rule_groups"

text \<open>The commands, and those whose tool is missing. The code asks for the tools in any order; here it is that of their first use.\<close>

definition detect_setup_commands ::
  "box_runner \<Rightarrow> (string \<Rightarrow> probe_result option) \<Rightarrow> (string \<Rightarrow> bool) \<Rightarrow> session \<Rightarrow> (exec_error, string list \<times> string list) result" where
  "detect_setup_commands br decode file_exists s =
     (let candidates = setup_candidates file_exists s in
      if candidates = [] then Ok ([], [])
      else bind_res (probe br decode s (dedupe_by id [] (map sr_tool candidates)) []) (\<lambda>pb.
        Ok (map sr_command (filter (\<lambda>r. probe_has pb (sr_tool r)) candidates),
            map sr_command (filter (\<lambda>r. \<not> probe_has pb (sr_tool r)) candidates))))"

definition setup_commands ::
  "box_runner \<Rightarrow> (string \<Rightarrow> probe_result option) \<Rightarrow> (string \<Rightarrow> bool) \<Rightarrow> session \<Rightarrow> (exec_error, string list \<times> string list) result" where
  "setup_commands br decode file_exists s =
     (case se_config s of
        Some pc \<Rightarrow> if pc_commands pc \<noteq> [] then Ok (pc_commands pc, []) else detect_setup_commands br decode file_exists s
      | None \<Rightarrow> detect_setup_commands br decode file_exists s)"

definition setup_signature :: "(string \<Rightarrow> string) \<Rightarrow> string list \<Rightarrow> string" where
  "setup_signature sha commands = (if commands = [] then [] else take 16 (hex_encode (sha (join [newline] commands))))"

section \<open>What they do\<close>

lemma capped_output_prefix:
  "foldl (\<lambda>buffer data. snd (capped_write buffer data)) buffer writes =
     buffer @ take (guest_output_limit - length buffer) (concat writes)"
proof (induction writes arbitrary: buffer)
  case (Cons data writes)
  have m: "take (min (length data) k) data = take k data" for k by (metis min.commute take_all_iff take_take order_refl)
  have k: "guest_output_limit - (length buffer + min (length data) (guest_output_limit - length buffer)) =
      guest_output_limit - (length buffer + length data)" by linarith
  show ?case unfolding foldl_Cons Cons.IH by (simp add: capped_write_def m k)
qed simp

text \<open>The output that is kept is the start of all the output.\<close>

lemma capped_output_exact: "capped_output writes = take guest_output_limit (concat writes)"
  using capped_output_prefix [of "[]" writes] by (simp add: capped_output_def)

text \<open>When attempt \<open>n\<close> starts, in milliseconds after the first.\<close>

fun attempt_start :: "(nat \<Rightarrow> ready_attempt) \<Rightarrow> nat \<Rightarrow> nat" where
  "attempt_start attempts 0 = 0"
| "attempt_start attempts (Suc n) = attempt_start attempts n + ra_duration (attempts n) + readiness_interval"

lemma attempt_start_grows: "1000 * n \<le> attempt_start attempts n"
  by (induction n) (simp_all add: readiness_interval_def)

text \<open>The attempts before \<open>n\<close> were not the last one.\<close>

definition still_waiting :: "(nat \<Rightarrow> ready_attempt) \<Rightarrow> nat \<Rightarrow> bool" where
  "still_waiting attempts n \<longleftrightarrow>
     (\<forall>m<n. \<not> ra_ready (attempts m) \<and> attempt_start attempts m + ra_duration (attempts m) \<le> readiness_timeout)"

lemma wait_exact:
  "still_waiting attempts n \<Longrightarrow>
   wait_until_ready attempts n (attempt_start attempts n) out = Ok () \<longleftrightarrow> (\<exists>k. ra_ready (attempts k) \<and> still_waiting attempts k)"
proof (induction "readiness_timeout + 1 - attempt_start attempts n" arbitrary: n out rule: less_induct)
  case less
  let ?a = "attempts n"
  consider (ready) "ra_ready ?a" | (late) "\<not> ra_ready ?a" "readiness_timeout < attempt_start attempts n + ra_duration ?a"
    | (again) "\<not> ra_ready ?a" "attempt_start attempts n + ra_duration ?a \<le> readiness_timeout" by linarith
  then show ?case
  proof cases
    case ready
    then show ?thesis using less(2) by (auto simp: wait_until_ready.simps [of attempts n])
  next
    case late
    have "\<not> (ra_ready (attempts k) \<and> still_waiting attempts k)" for k
    proof (cases "k \<le> n")
      case True
      then show ?thesis using less(2) late(1) by (cases "k = n") (auto simp: still_waiting_def)
    next
      case False
      then show ?thesis using late(2) unfolding still_waiting_def by (meson not_le)
    qed
    then show ?thesis using late by (simp add: wait_until_ready.simps [of attempts n] Let_def)
  next
    case again
    have w: "still_waiting attempts (Suc n)" using less(2) again by (auto simp: still_waiting_def less_Suc_eq)
    have "readiness_timeout + 1 - attempt_start attempts (Suc n) < readiness_timeout + 1 - attempt_start attempts n"
      using again by (simp add: readiness_interval_def)
    then show ?thesis using less(1) [OF _ w] again by (simp add: wait_until_ready.simps [of attempts n] Let_def)
  qed
qed

text \<open>The wait for the box ends, and it reports the box as ready exactly when some attempt finds it ready and each attempt before that one ended within
  the time limit. At most 61 attempts are made.\<close>

theorem wait_until_ready_exact:
  "(wait_until_ready attempts 0 0 [] = Ok () \<longleftrightarrow> (\<exists>k. ra_ready (attempts k) \<and> still_waiting attempts k)) \<and>
   (\<forall>k. still_waiting attempts k \<longrightarrow> k \<le> 61)"
proof -
  have "k \<le> 61" if w: "still_waiting attempts k" for k
  proof (rule ccontr)
    assume "\<not> k \<le> 61"
    then have "attempt_start attempts 61 \<le> readiness_timeout" using w unfolding still_waiting_def by (meson add_leE not_le)
    then show False using attempt_start_grows [of 61 attempts] by (simp add: readiness_timeout_def)
  qed
  moreover have "wait_until_ready attempts 0 0 [] = Ok () \<longleftrightarrow> (\<exists>k. ra_ready (attempts k) \<and> still_waiting attempts k)"
    using wait_exact [of attempts 0 "[]"] by (simp add: still_waiting_def)
  ultimately show ?thesis by blast
qed

section \<open>Examples\<close>

definition slow_attempts :: "nat \<Rightarrow> ready_attempt" where
  "slow_attempts n = \<lparr>ra_duration = 5, ra_ready = (n = 2), ra_output = ''no''\<rparr>"

theorem wait_until_ready_exact_witness:
  "wait_until_ready slow_attempts 0 0 [] = Ok ()"
proof -
  have "still_waiting slow_attempts 2"
    by (auto simp: still_waiting_def slow_attempts_def readiness_timeout_def readiness_interval_def less_Suc_eq numeral_2_eq_2)
  moreover have "ra_ready (slow_attempts 2)" by (simp add: slow_attempts_def)
  ultimately show ?thesis using wait_until_ready_exact [of slow_attempts] by blast
qed

end
