(* ===== verification/Image_Plan.thy ===== *)
theory Image_Plan
  imports Session
begin

text \<open>
  \<open>internal/image\<close>: the chain of images that a box runs on. Each tag holds a hash of the inputs of its image and of the images
  below it, and an image that is there already is not built again.

  What the isolator answers is a parameter. The properties say that a tag fixes the whole chain that it names, and that after a build
  each image of the chain is there and was made from its own context on the image below.
\<close>

section \<open>The foundation\<close>

definition default_foundation :: string where "default_foundation = ''debian:bookworm-slim''"
definition base_repository :: string where "base_repository = ''prison/base''"
definition box_repository :: string where "box_repository = ''prison/box''"

datatype image_error =
    DifferentFoundations "string list"
  | CannotLookUpImage string
  | NoGuestBinary
  | CannotBuild string

definition wanted_foundations :: "inmate list \<Rightarrow> (string \<times> string) list" where
  "wanted_foundations inmates =
     map (\<lambda>i. (mf_foundation (manifest_of i), im_name i)) (filter (\<lambda>i. mf_foundation (manifest_of i) \<noteq> []) inmates)"

definition resolve_foundation :: "inmate list \<Rightarrow> string \<Rightarrow> (image_error, string) result" where
  "resolve_foundation inmates override =
     (if override \<noteq> [] then Ok override
      else let wanting = wanted_foundations inmates in
        (case sorted_keys wanting of
           [] \<Rightarrow> Ok default_foundation
         | [foundation] \<Rightarrow> Ok foundation
         | foundations \<Rightarrow> Err (DifferentFoundations
             (map (\<lambda>f. f @ '' for '' @ join '', '' (map snd (filter (\<lambda>w. fst w = f) wanting))) foundations))))"

section \<open>The plan\<close>

definition short_hash_length :: nat where "short_hash_length = 12"

definition guest_binary_name :: string where "guest_binary_name = ''prison-guest''"

definition ended_parts :: "string list \<Rightarrow> string" where
  "ended_parts parts = concat (map (\<lambda>part. part @ [CHR 0x00]) parts)"

definition short_hash :: "(string \<Rightarrow> string) \<Rightarrow> string list \<Rightarrow> string" where
  "short_hash sha parts = take short_hash_length (hex_encode (sha (ended_parts parts)))"

record build_step =
  bs_tag :: string
  bs_context :: directory
  bs_dockerfile :: string
  bs_args :: "(string \<times> string) list"
  bs_description :: string

record image_plan =
  pl_foundation :: string
  pl_steps :: "build_step list"
  pl_final :: string

text \<open>The loop over the inmates, with the hash so far and the tag below.\<close>

fun inmate_steps :: "(string \<Rightarrow> string) \<Rightarrow> string \<Rightarrow> string \<Rightarrow> inmate list \<Rightarrow> build_step list \<times> string" where
  "inmate_steps sha cumulative previous [] = ([], previous)"
| "inmate_steps sha cumulative previous (i # inmates) =
     (let next_hash = short_hash sha [cumulative, im_name i, tree_hash sha (im_tree i)];
          tag = box_repository @ '':'' @ next_hash
      in case inmate_steps sha next_hash tag inmates of (steps, final) \<Rightarrow>
           (\<lparr>bs_tag = tag, bs_context = im_tree i, bs_dockerfile = mf_dockerfile (manifest_of i),
             bs_args = [(''PRISON_BASE'', previous)], bs_description = ''layer for '' @ im_name i\<rparr> # steps, final))"

definition base_hash :: "(string \<Rightarrow> string) \<Rightarrow> directory \<Rightarrow> string \<Rightarrow> int \<Rightarrow> string" where
  "base_hash sha base foundation uid = short_hash sha [foundation, itoa uid, tree_hash sha base]"

definition new_plan :: "(string \<Rightarrow> string) \<Rightarrow> directory \<Rightarrow> inmate list \<Rightarrow> string \<Rightarrow> int \<Rightarrow> image_plan" where
  "new_plan sha base inmates foundation uid =
     (let cumulative = base_hash sha base foundation uid;
          tag = base_repository @ '':'' @ cumulative
      in case inmate_steps sha cumulative tag inmates of (steps, final) \<Rightarrow>
           \<lparr>pl_foundation = foundation,
            pl_steps = \<lparr>bs_tag = tag, bs_context = base, bs_dockerfile = [],
              bs_args = [(''PRISON_FOUNDATION'', foundation), (''UID'', itoa uid)], bs_description = ''base on '' @ foundation\<rparr> # steps,
            pl_final = final\<rparr>)"

definition is_base_step :: "build_step \<Rightarrow> bool" where
  "is_base_step step \<longleftrightarrow> has_prefix (bs_tag step) (base_repository @ '':'')"

definition context_has_guest_binary :: "directory \<Rightarrow> bool" where
  "context_has_guest_binary ts \<longleftrightarrow> (case map_of ts guest_binary_name of Some (TFile _ _) \<Rightarrow> True | _ \<Rightarrow> False)"

section \<open>Building\<close>

text \<open>What \<open>ExtractFS\<close> writes: the directories (\<open>None\<close>) and the regular files with their content, all with the same modes.\<close>

function extract_tree :: "string \<Rightarrow> directory \<Rightarrow> (string \<times> string option) list" where
  "extract_tree parent [] = []"
| "extract_tree parent ((name, t) # ts) =
     (if name \<in> set ignored_tree_names then []
      else (case t of
          TDir es \<Rightarrow> (tree_path parent name, None) # extract_tree (tree_path parent name) es
        | TFile content perm \<Rightarrow> [(tree_path parent name, Some content)]
        | _ \<Rightarrow> [])) @ extract_tree parent ts"
  by pat_completeness auto
termination
  by (relation "measure (\<lambda>(p, ts). size_list (size_prod (\<lambda>n. 0) size) ts)") auto

record built_image =
  bi_tag :: string
  bi_context :: "(string \<times> string option) list"
  bi_dockerfile :: string
  bi_args :: "(string \<times> string) list"

text \<open>What the isolator does: whether a lookup or a build fails.\<close>

record isolator_answers =
  ia_lookup :: "string \<Rightarrow> bool"
  ia_build :: "built_image \<Rightarrow> bool"

record image_store =
  is_tags :: "string list"
  is_built :: "built_image list"
  is_releases :: nat

definition build_image_step :: "isolator_answers \<Rightarrow> build_step \<Rightarrow> image_store \<Rightarrow> (image_error, unit) result \<times> image_store" where
  "build_image_step ia step st =
     (let image = \<lparr>bi_tag = bs_tag step, bi_context = extract_tree [] (bs_context step), bi_dockerfile = bs_dockerfile step, bi_args = bs_args step\<rparr>
      in if \<not> ia_build ia image then (Err (CannotBuild (bs_tag step)), st)
         else (Ok (), st\<lparr>is_tags := bs_tag step # is_tags st, is_built := is_built st @ [image]\<rparr>))"

text \<open>The loop of \<open>Ensure\<close>, with whether a build has started.\<close>

fun ensure_steps ::
  "isolator_answers \<Rightarrow> build_step list \<Rightarrow> bool \<Rightarrow> image_store \<Rightarrow> (image_error, unit) result \<times> bool \<times> image_store" where
  "ensure_steps ia [] started st = (Ok (), started, st)"
| "ensure_steps ia (step # steps) started st =
     (if \<not> ia_lookup ia (bs_tag step) then (Err (CannotLookUpImage (bs_tag step)), started, st)
      else if bs_tag step \<in> set (is_tags st) then ensure_steps ia steps started st
      else if is_base_step step \<and> \<not> context_has_guest_binary (bs_context step) then (Err NoGuestBinary, started, st)
      else (case build_image_step ia step st of
          (Err e, st') \<Rightarrow> (Err e, True, st')
        | (Ok _, st') \<Rightarrow> ensure_steps ia steps True st'))"

definition ensure_images :: "isolator_answers \<Rightarrow> image_plan \<Rightarrow> image_store \<Rightarrow> (image_error, unit) result \<times> image_store" where
  "ensure_images ia plan st =
     (case ensure_steps ia (pl_steps plan) False st of
        (r, started, st') \<Rightarrow> (r, if started then st'\<lparr>is_releases := is_releases st' + 1\<rparr> else st'))"

section \<open>A tag fixes the chain\<close>

lemma append_sep_inject: "p @ c # x = q @ c # y \<Longrightarrow> c \<notin> set p \<Longrightarrow> c \<notin> set q \<Longrightarrow> p = q \<and> x = y"
proof (induction p arbitrary: q)
  case Nil
  then show ?case by (cases q) auto
next
  case (Cons a p)
  then show ?case by (cases q) auto
qed

lemma ended_simps: "ended_parts [] = []" "ended_parts (p # ps) = p @ CHR 0x00 # ended_parts ps"
  by (simp_all add: ended_parts_def)

lemma ended_inject:
  "ended_parts ps = ended_parts qs \<Longrightarrow> \<forall>p\<in>set ps \<union> set qs. CHR 0x00 \<notin> set p \<Longrightarrow> ps = qs"
proof (induction ps arbitrary: qs)
  case Nil
  then show ?case by (cases qs) (simp_all add: ended_simps)
next
  case (Cons p ps)
  then obtain q qs' where q: "qs = q # qs'" by (cases qs) (simp_all add: ended_simps)
  have n: "CHR 0x00 \<notin> set p" "CHR 0x00 \<notin> set q" using Cons.prems(2) q by auto
  have "p = q \<and> ended_parts ps = ended_parts qs'"
    using Cons.prems(1) append_sep_inject [OF _ n] unfolding q ended_simps by blast
  then show ?case using Cons.IH [of qs'] Cons.prems(2) q by auto
qed

lemma hex_char_code: "n < 16 \<Longrightarrow> hex_char n \<noteq> CHR 0x00"
proof
  assume "n < 16" "hex_char n = CHR 0x00"
  then have "(of_char (hex_char n) :: nat) = 0" "n < 16" by simp_all
  then show False by (simp add: hex_char_def split: if_splits)
qed

lemma hex_plain: "CHR 0x00 \<notin> set (hex_encode s)"
proof -
  have b: "(of_char c :: nat) div 16 < 16" for c :: char by (simp add: less_mult_imp_div_less)
  show ?thesis using hex_char_code [OF b] hex_char_code by (auto simp: hex_encode_def) (metis mod_less_divisor zero_less_numeral)+
qed

text \<open>The parts of the hashes of a plan, from the base to the last inmate.\<close>

fun inmate_parts :: "(string \<Rightarrow> string) \<Rightarrow> string \<Rightarrow> inmate list \<Rightarrow> string list list" where
  "inmate_parts sha cumulative [] = []"
| "inmate_parts sha cumulative (i # inmates) =
     (let parts = [cumulative, im_name i, tree_hash sha (im_tree i)] in parts # inmate_parts sha (short_hash sha parts) inmates)"

definition plan_parts :: "(string \<Rightarrow> string) \<Rightarrow> directory \<Rightarrow> inmate list \<Rightarrow> string \<Rightarrow> int \<Rightarrow> string list list" where
  "plan_parts sha base inmates foundation uid =
     [foundation, itoa uid, tree_hash sha base] # inmate_parts sha (base_hash sha base foundation uid) inmates"

definition last_hash :: "(string \<Rightarrow> string) \<Rightarrow> string \<Rightarrow> inmate list \<Rightarrow> string" where
  "last_hash sha cumulative inmates = foldl (\<lambda>c i. short_hash sha [c, im_name i, tree_hash sha (im_tree i)]) cumulative inmates"

lemma final_tag:
  "pl_final (new_plan sha base inmates foundation uid) =
     (if inmates = [] then base_repository else box_repository) @ '':'' @ last_hash sha (base_hash sha base foundation uid) inmates"
proof -
  have "snd (inmate_steps sha c previous inmates) = (if inmates = [] then previous else box_repository @ '':'' @ last_hash sha c inmates)" for c previous
    by (induction sha c previous inmates rule: inmate_steps.induct) (auto simp: last_hash_def Let_def split: prod.splits)
  note s = this [of "base_hash sha base foundation uid" "base_repository @ '':'' @ base_hash sha base foundation uid"]
  have "pl_final (new_plan sha base inmates foundation uid) =
      snd (inmate_steps sha (base_hash sha base foundation uid) (base_repository @ '':'' @ base_hash sha base foundation uid) inmates)"
    by (simp add: new_plan_def Let_def split: prod.split)
  then show ?thesis unfolding s by (simp add: last_hash_def)
qed

text \<open>No two of these part lists have the same short hash.\<close>

definition no_collision :: "(string \<Rightarrow> string) \<Rightarrow> string list list \<Rightarrow> bool" where
  "no_collision sha partss \<longleftrightarrow> inj_on (\<lambda>text. take short_hash_length (hex_encode (sha text))) (ended_parts ` set partss)"

definition plain_parts :: "string list list \<Rightarrow> bool" where
  "plain_parts partss \<longleftrightarrow> (\<forall>parts\<in>set partss. \<forall>p\<in>set parts. CHR 0x00 \<notin> set p)"

lemma plain_append: "plain_parts (ps @ qs) \<longleftrightarrow> plain_parts ps \<and> plain_parts qs"
  by (auto simp: plain_parts_def)

lemma parts_fixed:
  assumes "short_hash sha ps = short_hash sha qs" "no_collision sha partss" "plain_parts partss" "ps \<in> set partss" "qs \<in> set partss"
  shows "ps = qs"
proof -
  have "ended_parts ps = ended_parts qs"
    using assms(1,2,4,5) by (auto simp: short_hash_def no_collision_def dest: inj_onD)
  then show ?thesis using ended_inject assms(3-5) unfolding plain_parts_def by blast
qed

definition layers :: "(string \<Rightarrow> string) \<Rightarrow> inmate list \<Rightarrow> (string \<times> string) list" where
  "layers sha inmates = map (\<lambda>i. (im_name i, tree_hash sha (im_tree i))) inmates"

lemma last_hash_snoc: "last_hash sha c (xs @ [i]) = short_hash sha [last_hash sha c xs, im_name i, tree_hash sha (im_tree i)]"
  by (simp add: last_hash_def)

lemma inmate_parts_snoc:
  "inmate_parts sha c (xs @ [i]) = inmate_parts sha c xs @ [[last_hash sha c xs, im_name i, tree_hash sha (im_tree i)]]"
  by (induction sha c xs rule: inmate_parts.induct) (simp_all add: last_hash_def Let_def)

lemma name_not_number: "name_pattern n \<Longrightarrow> n \<noteq> itoa uid"
proof
  assume n: "name_pattern n" "n = itoa uid"
  then have "is_lower (hd (itoa uid))" "itoa uid \<noteq> []" by (auto simp: name_pattern_def split: list.splits)
  then have "is_lower (hd (itoa uid))" "hd (itoa uid) \<in> set (itoa uid)" by auto
  then show False using itoa_chars [of "hd (itoa uid)" uid] by (auto simp: is_lower_def is_digit_def)
qed

lemma plan_parts_plain:
  assumes "CHR 0x00 \<notin> set foundation" "\<forall>i\<in>set inmates. name_pattern (im_name i)"
  shows "plain_parts (plan_parts sha base inmates foundation uid)"
proof -
  have s: "CHR 0x00 \<notin> set (short_hash sha ps)" for ps
    using hex_plain in_set_takeD unfolding short_hash_def by fastforce
  have n: "CHR 0x00 \<notin> set n" if "name_pattern n" for n
  proof -
    have "\<not> is_lower CHR 0x00" "\<not> is_digit CHR 0x00" by code_simp+
    then show ?thesis using that by (auto simp: name_pattern_def list_all_iff split: list.splits)
  qed
  have u: "CHR 0x00 \<notin> set (itoa uid)" using itoa_chars [of "CHR 0x00" uid] by (auto simp: is_digit_def)
  have "CHR 0x00 \<notin> set c \<Longrightarrow> \<forall>i\<in>set is. name_pattern (im_name i) \<Longrightarrow> plain_parts (inmate_parts sha c is)" for c "is"
  proof (induction "is" arbitrary: c)
    case (Cons i "is")
    have "plain_parts (inmate_parts sha (short_hash sha [c, im_name i, tree_hash sha (im_tree i)]) is)"
      using Cons.IH [OF s] Cons.prems(2) by simp
    then show ?case using n [of "im_name i"] hex_plain Cons.prems by (simp add: plain_parts_def Let_def tree_hash_def)
  qed (simp add: plain_parts_def)
  from this [OF s assms(2)] have "plain_parts (inmate_parts sha (base_hash sha base foundation uid) inmates)" by (simp add: base_hash_def)
  then show ?thesis using assms(1) u hex_plain by (simp add: plain_parts_def plan_parts_def tree_hash_def)
qed

lemma chain_fixed:
  assumes "last_hash sha (base_hash sha b1 f1 u1) is1 = last_hash sha (base_hash sha b2 f2 u2) is2"
    and "no_collision sha (plan_parts sha b1 is1 f1 u1 @ plan_parts sha b2 is2 f2 u2)"
    and "plain_parts (plan_parts sha b1 is1 f1 u1 @ plan_parts sha b2 is2 f2 u2)"
    and "\<forall>i\<in>set is1 \<union> set is2. name_pattern (im_name i)"
  shows "f1 = f2 \<and> u1 = u2 \<and> tree_hash sha b1 = tree_hash sha b2 \<and> layers sha is1 = layers sha is2"
  using assms
proof (induction is1 arbitrary: is2 rule: rev_induct)
  case Nil
  then show ?case
  proof (cases is2 rule: rev_cases)
    case Nil
    then have "[f1, itoa u1, tree_hash sha b1] = [f2, itoa u2, tree_hash sha b2]"
      using Nil.prems(1) by (intro parts_fixed [OF _ Nil.prems(2,3)]) (simp_all add: plan_parts_def last_hash_def base_hash_def)
    then show ?thesis using itoa_inj [of u1 u2] Nil by (simp add: layers_def)
  next
    case (snoc ys j)
    then have "[f1, itoa u1, tree_hash sha b1] = [last_hash sha (base_hash sha b2 f2 u2) ys, im_name j, tree_hash sha (im_tree j)]"
      using Nil.prems(1) by (intro parts_fixed [OF _ Nil.prems(2,3)])
        (simp_all add: last_hash_snoc inmate_parts_snoc plan_parts_def last_hash_def [of _ _ "[]"] base_hash_def)
    then show ?thesis using name_not_number [of "im_name j" u1] Nil.prems(4) snoc by simp
  qed
next
  case (snoc i xs)
  then show ?case
  proof (cases is2 rule: rev_cases)
    case Nil
    then have "[last_hash sha (base_hash sha b1 f1 u1) xs, im_name i, tree_hash sha (im_tree i)] = [f2, itoa u2, tree_hash sha b2]"
      using snoc.prems(1) by (intro parts_fixed [OF _ snoc.prems(2,3)])
        (simp_all add: last_hash_snoc inmate_parts_snoc plan_parts_def last_hash_def [of _ _ "[]"] base_hash_def)
    then show ?thesis using name_not_number [of "im_name i" u2] snoc.prems(4) by simp
  next
    case (snoc ys j)
    note is2 = this
    have e: "[last_hash sha (base_hash sha b1 f1 u1) xs, im_name i, tree_hash sha (im_tree i)] =
        [last_hash sha (base_hash sha b2 f2 u2) ys, im_name j, tree_hash sha (im_tree j)]"
      using snoc.prems(1) is2 by (intro parts_fixed [OF _ snoc.prems(2,3)]) (simp_all add: last_hash_snoc inmate_parts_snoc plan_parts_def)
    have "set (plan_parts sha b1 xs f1 u1 @ plan_parts sha b2 ys f2 u2) \<subseteq> set (plan_parts sha b1 (xs @ [i]) f1 u1 @ plan_parts sha b2 is2 f2 u2)"
      by (auto simp: plan_parts_def inmate_parts_snoc is2)
    then have "no_collision sha (plan_parts sha b1 xs f1 u1 @ plan_parts sha b2 ys f2 u2)"
      "plain_parts (plan_parts sha b1 xs f1 u1 @ plan_parts sha b2 ys f2 u2)"
      using snoc.prems(2,3) unfolding no_collision_def plain_parts_def by (meson image_mono inj_on_subset subsetD)+
    then show ?thesis using snoc.IH [of ys] snoc.prems(4) e is2 by (simp add: layers_def)
  qed
qed

text \<open>C28. The tag of a box image fixes the whole chain. Two plans with the same final tag have the same foundation, user, base context
  and inmates in the same order, with the same hashes of their files, as long as the short hash has no collision among the
  parts of the two plans.\<close>

theorem final_tag_exact:
  assumes "pl_final (new_plan sha b1 is1 f1 u1) = pl_final (new_plan sha b2 is2 f2 u2)"
    and "no_collision sha (plan_parts sha b1 is1 f1 u1 @ plan_parts sha b2 is2 f2 u2)"
    and "CHR 0x00 \<notin> set (f1 @ f2)" "\<forall>i\<in>set is1 \<union> set is2. name_pattern (im_name i)"
  shows "f1 = f2 \<and> u1 = u2 \<and> tree_hash sha b1 = tree_hash sha b2 \<and> layers sha is1 = layers sha is2"
proof -
  have "(if is1 = [] then base_repository else box_repository) @ '':'' @ last_hash sha (base_hash sha b1 f1 u1) is1 =
      (if is2 = [] then base_repository else box_repository) @ '':'' @ last_hash sha (base_hash sha b2 f2 u2) is2"
    using assms(1) unfolding final_tag .
  moreover have "CHR '':'' \<notin> set (if inmates = [] then base_repository else box_repository)" for inmates :: "inmate list"
    by (simp add: base_repository_def box_repository_def)
  ultimately have "last_hash sha (base_hash sha b1 f1 u1) is1 = last_hash sha (base_hash sha b2 f2 u2) is2"
    unfolding append.append_Cons append.append_Nil using append_sep_inject [of _ "CHR '':''"] by metis
  moreover have "plain_parts (plan_parts sha b1 is1 f1 u1 @ plan_parts sha b2 is2 f2 u2)"
    unfolding plain_append using assms(3,4) by (intro conjI plan_parts_plain) simp_all
  ultimately show ?thesis using assms(2,4) by (intro chain_fixed)
qed

section \<open>Building makes the chain\<close>

definition image_of :: "build_step \<Rightarrow> built_image" where
  "image_of step = \<lparr>bi_tag = bs_tag step, bi_context = extract_tree [] (bs_context step), bi_dockerfile = bs_dockerfile step, bi_args = bs_args step\<rparr>"

text \<open>Each new image is that of a step, it was not there, and the images of the steps before it were there when it was built.\<close>

definition built_in_order :: "build_step list \<Rightarrow> string set \<Rightarrow> built_image list \<Rightarrow> bool" where
  "built_in_order steps present news \<longleftrightarrow> (\<forall>n<length news. \<exists>k<length steps. news ! n = image_of (steps ! k) \<and>
     bi_tag (news ! n) \<notin> present \<union> bi_tag ` set (take n news) \<and> (\<forall>j<k. bs_tag (steps ! j) \<in> present \<union> bi_tag ` set (take n news)))"

lemma in_order_skip: "built_in_order steps present news \<Longrightarrow> bs_tag step \<in> present \<Longrightarrow> built_in_order (step # steps) present news"
  unfolding built_in_order_def
proof (intro allI impI)
  fix n
  assume a: "bs_tag step \<in> present" "n < length news" "\<forall>n<length news. \<exists>k<length steps. news ! n = image_of (steps ! k) \<and>
     bi_tag (news ! n) \<notin> present \<union> bi_tag ` set (take n news) \<and> (\<forall>j<k. bs_tag (steps ! j) \<in> present \<union> bi_tag ` set (take n news))"
  then obtain k where "k < length steps" "news ! n = image_of (steps ! k)" "bi_tag (news ! n) \<notin> present \<union> bi_tag ` set (take n news)"
    "\<forall>j<k. bs_tag (steps ! j) \<in> present \<union> bi_tag ` set (take n news)" by blast
  then show "\<exists>k<length (step # steps). news ! n = image_of ((step # steps) ! k) \<and>
     bi_tag (news ! n) \<notin> present \<union> bi_tag ` set (take n news) \<and> (\<forall>j<k. bs_tag ((step # steps) ! j) \<in> present \<union> bi_tag ` set (take n news))"
    using a(1) by (intro exI [of _ "Suc k"]) (auto simp: less_Suc_eq_0_disj)
qed

lemma in_order_build:
  assumes "built_in_order steps (insert (bs_tag step) present) news" "bs_tag step \<notin> present"
  shows "built_in_order (step # steps) present (image_of step # news)"
  unfolding built_in_order_def
proof (intro allI impI)
  fix n assume n: "n < length (image_of step # news)"
  show "\<exists>k<length (step # steps). (image_of step # news) ! n = image_of ((step # steps) ! k) \<and>
      bi_tag ((image_of step # news) ! n) \<notin> present \<union> bi_tag ` set (take n (image_of step # news)) \<and>
      (\<forall>j<k. bs_tag ((step # steps) ! j) \<in> present \<union> bi_tag ` set (take n (image_of step # news)))"
  proof (cases n)
    case 0
    then show ?thesis using assms(2) by (intro exI [of _ 0]) (simp add: image_of_def)
  next
    case (Suc m)
    then obtain k where k: "k < length steps" "news ! m = image_of (steps ! k)"
      "bi_tag (news ! m) \<notin> insert (bs_tag step) present \<union> bi_tag ` set (take m news)"
      "\<forall>j<k. bs_tag (steps ! j) \<in> insert (bs_tag step) present \<union> bi_tag ` set (take m news)"
      using assms(1) n unfolding built_in_order_def by auto
    have "bi_tag (image_of step) = bs_tag step" by (simp add: image_of_def)
    then show ?thesis using k Suc by (intro exI [of _ "Suc k"]) (auto simp: nth_Cons' less_Suc_eq_0_disj)
  qed
qed

lemma ensure_steps_spec:
  "ensure_steps ia steps started st = (r, started', st') \<Longrightarrow>
   \<exists>news. is_built st' = is_built st @ news \<and> is_tags st' = rev (map bi_tag news) @ is_tags st \<and> is_releases st' = is_releases st \<and>
     (started' \<longleftrightarrow> started \<or> news \<noteq> [] \<or> (\<exists>tag. r = Err (CannotBuild tag))) \<and>
     (r = Ok () \<longrightarrow> (\<forall>step\<in>set steps. bs_tag step \<in> set (is_tags st'))) \<and> built_in_order steps (set (is_tags st)) news"
proof (induction ia steps started st rule: ensure_steps.induct)
  case (1 ia started st)
  then show ?case by (auto simp: built_in_order_def)
next
  case (2 ia step steps started st)
  consider (stop) "started' = started" "st' = st" "(\<exists>e. r = Err e \<and> (\<forall>tag. e \<noteq> CannotBuild tag))"
    | (failed) "started'" "st' = st" "\<exists>tag. r = Err (CannotBuild tag)"
    | (present) "bs_tag step \<in> set (is_tags st)" "ensure_steps ia steps started st = (r, started', st')" "ia_lookup ia (bs_tag step)"
    | (built) "bs_tag step \<notin> set (is_tags st)" "ia_lookup ia (bs_tag step)" "\<not> (is_base_step step \<and> \<not> context_has_guest_binary (bs_context step))"
        "build_image_step ia step st = (Ok (), st\<lparr>is_tags := bs_tag step # is_tags st, is_built := is_built st @ [image_of step]\<rparr>)"
        "ensure_steps ia steps True (st\<lparr>is_tags := bs_tag step # is_tags st, is_built := is_built st @ [image_of step]\<rparr>) = (r, started', st')"
    using 2(3) by (auto simp: build_image_step_def image_of_def Let_def split: if_splits)
  then show ?case
  proof cases
    case stop
    then show ?thesis by (auto simp: built_in_order_def)
  next
    case failed
    then show ?thesis by (auto simp: built_in_order_def)
  next
    case present
    show ?thesis using 2(1) [OF _ present(1) present(2)] present(1,3) in_order_skip [of steps "set (is_tags st)"] by (auto simp: image_iff)
  next
    case built
    obtain news where n: "is_built st' = is_built st @ [image_of step] @ news" "is_tags st' = rev (map bi_tag news) @ bs_tag step # is_tags st"
      "is_releases st' = is_releases st" "started'" "r = Ok () \<longrightarrow> (\<forall>step\<in>set steps. bs_tag step \<in> set (is_tags st'))"
      "built_in_order steps (insert (bs_tag step) (set (is_tags st))) news"
      using 2(2) [OF _ built(1,3) built(4) [symmetric] refl built(5)] built(2) by auto
    then show ?thesis using in_order_build [OF n(6) built(1)]
      by (intro exI [of _ "image_of step # news"]) (simp add: image_of_def)
  qed
qed

text \<open>A build of a plan only adds images. Each new image is made from the context and the arguments of its own step, on images of the earlier
  steps that are there by then, and no image is built twice. When it reports no error, every image of the plan is there. The
  builder is released once exactly when a build was started.\<close>

theorem ensure_builds_chain:
  "case ensure_images ia plan st of (r, st') \<Rightarrow>
     \<exists>news. is_built st' = is_built st @ news \<and> is_tags st' = rev (map bi_tag news) @ is_tags st \<and>
       built_in_order (pl_steps plan) (set (is_tags st)) news \<and>
       (r = Ok () \<longrightarrow> (\<forall>step\<in>set (pl_steps plan). bs_tag step \<in> set (is_tags st'))) \<and>
       is_releases st' = is_releases st + (if news \<noteq> [] \<or> (\<exists>tag. r = Err (CannotBuild tag)) then 1 else 0)"
proof -
  obtain r started st1 where e: "ensure_steps ia (pl_steps plan) False st = (r, started, st1)" by (metis prod_cases3)
  obtain news where n: "is_built st1 = is_built st @ news" "is_tags st1 = rev (map bi_tag news) @ is_tags st" "is_releases st1 = is_releases st"
    "started \<longleftrightarrow> news \<noteq> [] \<or> (\<exists>tag. r = Err (CannotBuild tag))" "r = Ok () \<longrightarrow> (\<forall>step\<in>set (pl_steps plan). bs_tag step \<in> set (is_tags st1))"
    "built_in_order (pl_steps plan) (set (is_tags st)) news"
    using ensure_steps_spec [OF e] by blast
  have "ensure_images ia plan st = (r, if started then st1\<lparr>is_releases := is_releases st1 + 1\<rparr> else st1)" by (simp add: ensure_images_def e)
  then show ?thesis using n by (intro case_prodI2 exI [of _ news]) (auto split: if_splits)
qed

text \<open>The steps of a plan: each one after the first takes the image of the step before it as its base.\<close>

definition chained :: "build_step list \<Rightarrow> bool" where
  "chained steps \<longleftrightarrow> (\<forall>n. Suc n < length steps \<longrightarrow> bs_args (steps ! Suc n) = [(''PRISON_BASE'', bs_tag (steps ! n))])"

lemma plan_chained: "chained (pl_steps (new_plan sha base inmates foundation uid))"
proof -
  have "chained (step # fst (inmate_steps sha c (bs_tag step) inmates))" for c step
  proof (induction inmates arbitrary: c step)
    case Nil
    then show ?case by (simp add: chained_def)
  next
    case (Cons i inmates)
    let ?h = "short_hash sha [c, im_name i, tree_hash sha (im_tree i)]"
    let ?s = "\<lparr>bs_tag = box_repository @ '':'' @ ?h, bs_context = im_tree i, bs_dockerfile = mf_dockerfile (manifest_of i),
      bs_args = [(''PRISON_BASE'', bs_tag step)], bs_description = ''layer for '' @ im_name i\<rparr>"
    have c: "chained (?s # fst (inmate_steps sha ?h (bs_tag ?s) inmates))" by (rule Cons)
    have "fst (inmate_steps sha c (bs_tag step) (i # inmates)) = ?s # fst (inmate_steps sha ?h (bs_tag ?s) inmates)"
      by (simp add: Let_def split: prod.split)
    then show ?case using c unfolding chained_def by (auto simp: nth_Cons split: nat.split)
  qed
  then show ?thesis by (simp add: new_plan_def Let_def split: prod.split) (metis build_step.select_convs(1) fst_conv)
qed

lemma extract_regular:
  "List.map_filter (\<lambda>(path, c). map_option (Pair path) c) (extract_tree parent ts) =
   List.map_filter (\<lambda>(path, t). case t of TFile content perm \<Rightarrow> Some (path, content) | _ \<Rightarrow> None) (walk_tree parent ts)"
  by (induction parent ts rule: walk_tree.induct) (auto simp: map_filter_simps map_filter_def split: tree.split)

lemma foundation_exact:
  "resolve_foundation inmates override = Ok foundation \<longleftrightarrow>
     (if override \<noteq> [] then foundation = override
      else if wanted_foundations inmates = [] then foundation = default_foundation
      else fst ` set (wanted_foundations inmates) = {foundation})"
proof -
  have d: "distinct (sorted_keys (wanted_foundations inmates))" "set (sorted_keys (wanted_foundations inmates)) = fst ` set (wanted_foundations inmates)"
    using sorted_keys_sorted by simp_all
  show ?thesis
  proof (cases "sorted_keys (wanted_foundations inmates)")
    case Nil
    then show ?thesis using d by (auto simp: resolve_foundation_def)
  next
    case (Cons f fs)
    then show ?thesis using d by (cases fs) (auto simp: resolve_foundation_def Let_def)
  qed
qed

section \<open>Examples\<close>

definition example_base :: directory where
  "example_base = [(''Dockerfile'', TFile ''FROM x'' 420), (''prison-guest'', TFile ''guest'' 420), (''etc'', TDir [])]"

definition example_inmates :: "inmate list" where
  "example_inmates = [\<lparr>im_name = ''tool'', im_dir = [], im_tree = [(''inmate.toml'', TFile ''t'' 420)], im_manifest = Some example_tool, im_bundled = True,
     im_trusted = True, im_approval = None, im_problem = None\<rparr>]"

definition example_plan :: image_plan where
  "example_plan = \<lparr>pl_foundation = default_foundation,
     pl_steps = [\<lparr>bs_tag = ''prison/base:0a'', bs_context = example_base, bs_dockerfile = [], bs_args = [], bs_description = []\<rparr>,
       \<lparr>bs_tag = ''prison/box:0b'', bs_context = [], bs_dockerfile = ''Dockerfile'', bs_args = [(''PRISON_BASE'', ''prison/base:0a'')], bs_description = []\<rparr>],
     pl_final = ''prison/box:0b''\<rparr>"

lemma hex_encode_Cons: "hex_encode (c # s) = hex_char (of_char c div 16) # hex_char (of_char c mod 16) # hex_encode s"
  by (simp add: hex_encode_def)

lemma example_no_collision: "no_collision id (plan_parts id base example_inmates default_foundation uid)"
proof -
  define rest1 where "rest1 = ''ebian:bookworm-slim'' @ CHR 0x00 # ended_parts [itoa uid, tree_hash id base]"
  have e1: "ended_parts [default_foundation, itoa uid, tree_hash id base] = CHR ''d'' # rest1"
    by (simp only: ended_simps default_foundation_def rest1_def append.simps)
  have six: "char_of (54 :: nat) = CHR ''6''" by code_simp
  obtain rest2 where b: "base_hash id base default_foundation uid = CHR ''6'' # rest2"
    by (simp add: base_hash_def short_hash_def e1 hex_encode_Cons short_hash_length_def hex_char_def six)
  obtain rest3 where p: "plan_parts id base example_inmates default_foundation uid =
      [[default_foundation, itoa uid, tree_hash id base], (CHR ''6'' # rest2) # rest3]"
    by (simp add: plan_parts_def example_inmates_def b Let_def)
  have e2: "ended_parts ((CHR ''6'' # rest2) # rest3) = CHR ''6'' # rest2 @ CHR 0x00 # ended_parts rest3" by (simp add: ended_simps)
  have "take short_hash_length (hex_encode (CHR ''d'' # rest1)) \<noteq> take short_hash_length (hex_encode (CHR ''6'' # rest2 @ CHR 0x00 # ended_parts rest3))"
    by (simp add: hex_encode_Cons short_hash_length_def hex_char_def)
  then show ?thesis unfolding no_collision_def p list.set image_insert image_empty e1 e2 by (auto simp: inj_on_def)
qed

theorem final_tag_exact_witness:
  "layers id example_inmates = layers id (map (\<lambda>i. i\<lparr>im_bundled := False\<rparr>) example_inmates)"
proof -
  let ?other = "map (\<lambda>i. i\<lparr>im_bundled := False\<rparr>) example_inmates"
  have a: "pl_final (new_plan id example_base example_inmates default_foundation 1000) = pl_final (new_plan id example_base ?other default_foundation 1000)"
    unfolding final_tag last_hash_def by (simp add: foldl_map)
  have o: "inmate_parts id c ?other = inmate_parts id c example_inmates" for c by (simp add: example_inmates_def Let_def)
  then have o: "plan_parts id example_base ?other default_foundation 1000 = plan_parts id example_base example_inmates default_foundation 1000"
    by (simp only: plan_parts_def)
  have b: "no_collision id (plan_parts id example_base example_inmates default_foundation 1000 @ plan_parts id example_base ?other default_foundation 1000)"
    using example_no_collision by (simp add: no_collision_def o)
  have c: "CHR 0x00 \<notin> set (default_foundation @ default_foundation)" "\<forall>i\<in>set example_inmates \<union> set ?other. name_pattern (im_name i)"
    by code_simp+
  show ?thesis using final_tag_exact [OF a b c] by blast
qed

theorem ensure_builds_chain_witness:
  "case ensure_images \<lparr>ia_lookup = (\<lambda>t. True), ia_build = (\<lambda>i. True)\<rparr> example_plan \<lparr>is_tags = [], is_built = [], is_releases = 0\<rparr> of (r, st) \<Rightarrow>
     r = Ok () \<and> length (is_tags st) = 2 \<and> is_releases st = 1 \<and> (\<forall>step\<in>set (pl_steps example_plan). bs_tag step \<in> set (is_tags st))"
proof -
  let ?ia = "\<lparr>ia_lookup = (\<lambda>t. True), ia_build = (\<lambda>i. True)\<rparr>"
  let ?st = "\<lparr>is_tags = [], is_built = [], is_releases = 0\<rparr>"
  obtain r st where e: "ensure_images ?ia example_plan ?st = (r, st)" by (metis surj_pair)
  have "case ensure_images ?ia example_plan ?st of (r, st) \<Rightarrow> r = Ok () \<and> length (is_tags st) = 2 \<and> is_releases st = 1" by code_simp
  then have p: "r = Ok () \<and> length (is_tags st) = 2 \<and> is_releases st = 1" unfolding e prod.case .
  have "\<exists>news. is_built st = is_built ?st @ news \<and> is_tags st = rev (map bi_tag news) @ is_tags ?st \<and>
       built_in_order (pl_steps example_plan) (set (is_tags ?st)) news \<and>
       (r = Ok () \<longrightarrow> (\<forall>step\<in>set (pl_steps example_plan). bs_tag step \<in> set (is_tags st))) \<and>
       is_releases st = is_releases ?st + (if news \<noteq> [] \<or> (\<exists>tag. r = Err (CannotBuild tag)) then 1 else 0)"
    using ensure_builds_chain [where ia = ?ia and plan = example_plan and st = ?st] unfolding e prod.case .
  then show ?thesis unfolding e prod.case using p by blast
qed

end
