(* ===== verification/Go_Effects.thy ===== *)
theory Go_Effects
  imports Go_Prelude
begin

text \<open>
  Functions that change a state and can fail, the shape of a Go function with side effects and an \<open>error\<close> result, with the
  reasoning rules for their composition. The state is kept when a step fails, as it is in the code.
\<close>

type_synonym ('s, 'e, 'a) step = "'s \<Rightarrow> ('e, 'a) result \<times> 's"

definition step_return :: "'a \<Rightarrow> ('s, 'e, 'a) step" where "step_return x s = (Ok x, s)"
definition step_fail :: "'e \<Rightarrow> ('s, 'e, 'a) step" where "step_fail e s = (Err e, s)"
definition step_lift :: "('s \<Rightarrow> ('e, 'a) result) \<Rightarrow> ('s, 'e, 'a) step" where "step_lift f s = (f s, s)"
definition step_change :: "('s \<Rightarrow> 's) \<Rightarrow> ('s, 'e, unit) step" where "step_change f s = (Ok (), f s)"
definition step_read :: "('s \<Rightarrow> 'a) \<Rightarrow> ('s, 'e, 'a) step" where "step_read f s = (Ok (f s), s)"

definition step_bind :: "('s, 'e, 'a) step \<Rightarrow> ('a \<Rightarrow> ('s, 'e, 'b) step) \<Rightarrow> ('s, 'e, 'b) step" where
  "step_bind m f s = (case m s of (Err e, s') \<Rightarrow> (Err e, s') | (Ok x, s') \<Rightarrow> f x s')"

definition step_then :: "('s, 'e, unit) step \<Rightarrow> ('s, 'e, 'b) step \<Rightarrow> ('s, 'e, 'b) step" where
  "step_then m k = step_bind m (\<lambda>_. k)"

definition step_when :: "bool \<Rightarrow> ('s, 'e, unit) step \<Rightarrow> ('s, 'e, unit) step" where
  "step_when c m = (if c then m else step_return ())"

fun step_each :: "('a \<Rightarrow> ('s, 'e, unit) step) \<Rightarrow> 'a list \<Rightarrow> ('s, 'e, unit) step" where
  "step_each f [] = step_return ()"
| "step_each f (x # xs) = step_then (f x) (step_each f xs)"

text \<open>A step of which the error is dropped.\<close>

definition step_try :: "('s, 'e, unit) step \<Rightarrow> ('e \<Rightarrow> ('s, 'e, unit) step) \<Rightarrow> ('s, 'e, unit) step" where
  "step_try m handler s = (case m s of (Err e, s') \<Rightarrow> handler e s' | (Ok x, s') \<Rightarrow> (Ok (), s'))"

section \<open>What holds after a step\<close>

definition ensures :: "('s \<Rightarrow> bool) \<Rightarrow> ('s, 'e, 'a) step \<Rightarrow> ('a \<Rightarrow> 's \<Rightarrow> bool) \<Rightarrow> ('s \<Rightarrow> bool) \<Rightarrow> bool" where
  "ensures P m Q E \<longleftrightarrow> (\<forall>s. P s \<longrightarrow> (case m s of (Err e, s') \<Rightarrow> E s' | (Ok x, s') \<Rightarrow> Q x s'))"

named_theorems ensures_rules

lemma ensures_bind [ensures_rules]:
  "ensures P m R E \<Longrightarrow> (\<And>x. ensures (R x) (f x) Q E) \<Longrightarrow> ensures P (step_bind m f) Q E"
  unfolding ensures_def step_bind_def by (fastforce split: prod.splits sum.splits)

lemma ensures_then [ensures_rules]:
  "ensures P m (\<lambda>x. R) E \<Longrightarrow> ensures R k Q E \<Longrightarrow> ensures P (step_then m k) Q E"
  unfolding step_then_def by (rule ensures_bind)

lemma ensures_return: "(\<And>s. P s \<Longrightarrow> Q x s) \<Longrightarrow> ensures P (step_return x) Q E"
  by (simp add: ensures_def step_return_def)

lemma ensures_fail: "(\<And>s. P s \<Longrightarrow> E s) \<Longrightarrow> ensures P (step_fail e) Q E"
  by (simp add: ensures_def step_fail_def)

lemma ensures_change: "(\<And>s. P s \<Longrightarrow> Q () (f s)) \<Longrightarrow> ensures P (step_change f) Q E"
  by (simp add: ensures_def step_change_def)

lemma ensures_read: "(\<And>s. P s \<Longrightarrow> Q (f s) s) \<Longrightarrow> ensures P (step_read f) Q E"
  by (simp add: ensures_def step_read_def)

lemma ensures_lift: "(\<And>s x. P s \<Longrightarrow> f s = Ok x \<Longrightarrow> Q x s) \<Longrightarrow> (\<And>s e. P s \<Longrightarrow> f s = Err e \<Longrightarrow> E s) \<Longrightarrow> ensures P (step_lift f) Q E"
  by (auto simp: ensures_def step_lift_def split: sum.splits)

lemma ensures_if: "(c \<Longrightarrow> ensures P m Q E) \<Longrightarrow> (\<not> c \<Longrightarrow> ensures P n Q E) \<Longrightarrow> ensures P (if c then m else n) Q E"
  by simp

lemma ensures_when: "(c \<Longrightarrow> ensures P m (\<lambda>x. Q) E) \<Longrightarrow> (\<And>s. \<not> c \<Longrightarrow> P s \<Longrightarrow> Q s) \<Longrightarrow> ensures P (step_when c m) (\<lambda>x. Q) E"
  by (auto simp: step_when_def intro: ensures_return)

lemma ensures_each: "(\<And>x. x \<in> set xs \<Longrightarrow> ensures P (f x) (\<lambda>x. P) P) \<Longrightarrow> ensures P (step_each f xs) (\<lambda>x. P) P"
  by (induction xs) (auto intro: ensures_then ensures_return)

lemma ensures_try: "ensures P m (\<lambda>x. Q) R \<Longrightarrow> (\<And>e. ensures R (h e) (\<lambda>x. Q) E) \<Longrightarrow> ensures P (step_try m h) (\<lambda>x. Q) E"
  unfolding ensures_def step_try_def by (fastforce split: prod.splits sum.splits)

lemma ensures_weaken:
  "ensures P' m Q' E' \<Longrightarrow> (\<And>s. P s \<Longrightarrow> P' s) \<Longrightarrow> (\<And>x s. Q' x s \<Longrightarrow> Q x s) \<Longrightarrow> (\<And>s. E' s \<Longrightarrow> E s) \<Longrightarrow> ensures P m Q E"
  unfolding ensures_def by (fastforce split: prod.splits sum.splits)

lemma ensuresD:
  "ensures P m Q E \<Longrightarrow> P s \<Longrightarrow> m s = (r, s') \<Longrightarrow> (case r of Err e \<Rightarrow> E s' | Ok x \<Rightarrow> Q x s')"
  unfolding ensures_def by (fastforce split: sum.splits)

end
