(* ===== verification/Hostfw.thy ===== *)
theory Hostfw
  imports Go_Effects Go_Path
begin

text \<open>
  \<open>internal/hostfw\<close>: the host firewall of the box network, an nftables table with a systemd unit on Linux and a pf anchor with lines
  in the main ruleset and a launchd job on macOS.

  The host is its readable files, and a command that is run on it is a parameter: it gives whether it succeeded, its output and the
  host after it. The properties say that rules of another network are stale, that what an install writes is what the status looks
  for, and that the main ruleset keeps every line of other tools.
\<close>

section \<open>The network and the rules\<close>

record firewall_spec =
  fs_subnet_v4 :: string
  fs_subnet_v6 :: string
  fs_broker_port :: int

datatype firewall_error =
    NoSubnet
  | BadBrokerPort int
  | UnsupportedSystem
  | CannotStage string
  | CannotReadFile string
  | CommandFailed "string list" string
  | RulesDoNotParse string
  | RulesetDoesNotParse string
  | CannotInstall string
  | RulesetNotLoaded
  | CannotRemoveFile string

datatype firewall_state = StateInstalled | StateMissing | StateStale | StateUnsupported
datatype operating_system = Linux | Darwin | OtherSystem

definition validate_firewall :: "firewall_spec \<Rightarrow> (firewall_error, unit) result" where
  "validate_firewall spec =
     (if trim_space (fs_subnet_v4 spec) = [] then Err NoSubnet
      else if fs_broker_port spec < 1 \<or> 65535 < fs_broker_port spec then Err (BadBrokerPort (fs_broker_port spec))
      else Ok ())"

abbreviation tab :: char where "tab \<equiv> CHR 0x09"

definition nft_table_name :: string where "nft_table_name = ''prison''"
definition nft_unit_name :: string where "nft_unit_name = ''prison-firewall.service''"
definition nfs_port :: int where "nfs_port = 2049"

record nft_paths =
  np_rules :: string
  np_unit :: string

definition nft_system_paths :: nft_paths where
  "nft_system_paths = \<lparr>np_rules = ''/etc/prison/firewall.nft'', np_unit = ''/etc/systemd/system/'' @ nft_unit_name\<rparr>"

definition nft_lines :: "firewall_spec \<Rightarrow> string list" where
  "nft_lines spec =
     [''#!/usr/sbin/nft -f'', ''# Generated by prison.'', ''table inet '' @ nft_table_name, ''delete table inet '' @ nft_table_name,
      ''table inet '' @ nft_table_name @ '' {'', tab # ''chain input {'', [tab, tab] @ ''type filter hook input priority filter; policy accept;'',
      [tab, tab] @ ''ip saddr '' @ fs_subnet_v4 spec @ '' ct state established,related accept'',
      [tab, tab] @ ''ip saddr '' @ fs_subnet_v4 spec @ '' tcp dport { '' @ itoa (fs_broker_port spec) @ '', '' @ itoa nfs_port @ '' } accept'',
      [tab, tab] @ ''ip saddr '' @ fs_subnet_v4 spec @ '' drop''] @
     (if fs_subnet_v6 spec = [] then [] else [[tab, tab] @ ''ip6 saddr '' @ fs_subnet_v6 spec @ '' drop'']) @
     [tab # ''}'', tab # ''chain forward {'', [tab, tab] @ ''type filter hook forward priority filter; policy accept;'',
      [tab, tab] @ ''ip saddr '' @ fs_subnet_v4 spec @ '' drop'', [tab, tab] @ ''ip daddr '' @ fs_subnet_v4 spec @ '' drop'', tab # ''}'', ''}'']"

definition nft_rules :: "firewall_spec \<Rightarrow> string" where
  "nft_rules spec = join [newline] (nft_lines spec) @ [newline]"

definition nft_unit :: "nft_paths \<Rightarrow> string" where
  "nft_unit p = join [newline]
     [''[Unit]'', ''Description=prison box network firewall'', ''Before=network-pre.target'', ''Wants=network-pre.target'', [], ''[Service]'',
      ''Type=oneshot'', ''RemainAfterExit=yes'', ''ExecStart=/usr/sbin/nft -f '' @ np_rules p,
      ''ExecStop=/usr/sbin/nft delete table inet '' @ nft_table_name, [], ''[Install]'', ''WantedBy=multi-user.target'', []]"

definition anchor_name :: string where "anchor_name = ''prison''"
definition daemon_label :: string where "daemon_label = ''prison.firewall''"
definition staged_rules_name :: string where "staged_rules_name = ''pf-rules''"
definition staged_conf_name :: string where "staged_conf_name = ''pf-conf''"
definition staged_daemon_name :: string where "staged_daemon_name = ''pf-daemon.plist''"
definition enable_token_name :: string where "enable_token_name = ''pf-loaded''"
definition main_ruleset_comment :: string where "main_ruleset_comment = ''# prison, added by `prison firewall`.''"

record pf_paths =
  pp_anchor :: string
  pp_main :: string
  pp_daemon :: string
  pp_marker :: string

definition pf_system_paths :: pf_paths where
  "pf_system_paths = \<lparr>pp_anchor = ''/etc/pf.anchors/'' @ anchor_name, pp_main = ''/etc/pf.conf'',
     pp_daemon = ''/Library/LaunchDaemons/'' @ daemon_label @ ''.plist'', pp_marker = ''/var/run/prison-firewall''\<rparr>"

definition pf_rules :: "firewall_spec \<Rightarrow> string" where
  "pf_rules spec =
     ''# Generated by prison.'' @ [newline] @
     ''pass in quick inet proto tcp from '' @ fs_subnet_v4 spec @ '' to any port '' @ itoa (fs_broker_port spec) @ [newline] @
     ''pass in quick inet proto udp from '' @ fs_subnet_v4 spec @ '' to any port 67'' @ [newline] @
     ''block drop in quick inet from '' @ fs_subnet_v4 spec @ '' to any'' @ [newline] @
     (if fs_subnet_v6 spec = [] then []
      else ''# The box needs neighbor discovery for its address.'' @ [newline] @
        ''pass in quick inet6 proto ipv6-icmp from '' @ fs_subnet_v6 spec @ '' to any'' @ [newline] @
        ''block drop in quick inet6 from '' @ fs_subnet_v6 spec @ '' to any'' @ [newline])"

text \<open>\<open>\%q\<close> of a text without characters that it escapes.\<close>

definition quoted :: "string \<Rightarrow> string" where "quoted s = [CHR 0x22] @ s @ [CHR 0x22]"

definition load_anchor_line :: "pf_paths \<Rightarrow> string" where
  "load_anchor_line p = ''load anchor '' @ quoted anchor_name @ '' from '' @ quoted (pp_anchor p)"

definition main_ruleset_lines :: "pf_paths \<Rightarrow> string list" where
  "main_ruleset_lines p = [main_ruleset_comment, ''anchor '' @ quoted anchor_name, load_anchor_line p]"

definition end_with_newline :: "string \<Rightarrow> string" where
  "end_with_newline s = (if s = [] \<or> has_suffix s [newline] then s else s @ [newline])"

definition main_ruleset_without :: "string \<Rightarrow> pf_paths \<Rightarrow> string" where
  "main_ruleset_without content p =
     end_with_newline (join [newline] (filter (\<lambda>line. line \<notin> set (main_ruleset_lines p)) (split_on newline content)))"

definition main_ruleset_with :: "string \<Rightarrow> pf_paths \<Rightarrow> string" where
  "main_ruleset_with content p = main_ruleset_without content p @ join [newline] (main_ruleset_lines p) @ [newline]"

definition main_ruleset_carries :: "string \<Rightarrow> pf_paths \<Rightarrow> bool" where
  "main_ruleset_carries content p \<longleftrightarrow> load_anchor_line p \<in> set (split_on newline content)"

definition daemon_plist :: "pf_paths \<Rightarrow> string" where
  "daemon_plist p =
     (let command = ''/sbin/pfctl -E 2&gt;&amp;1 | /usr/bin/awk '' @ [CHR 0x27] @ ''/Token/ { print $NF; exit }'' @ [CHR 0x27] @ '' &gt; '' @ pp_marker p
      in join [newline]
        [''<?xml version='' @ quoted ''1.0'' @ '' encoding='' @ quoted ''UTF-8'' @ ''?>'',
         ''<!DOCTYPE plist PUBLIC '' @ quoted ''-//Apple//DTD PLIST 1.0//EN'',
         ''  '' @ quoted ''http://www.apple.com/DTDs/PropertyList-1.0.dtd'' @ ''>'',
         ''<plist version='' @ quoted ''1.0'' @ ''>'', ''<dict>'', ''  <key>Label</key>'', ''  <string>'' @ daemon_label @ ''</string>'',
         ''  <key>ProgramArguments</key>'', ''  <array>'', ''    <string>/bin/sh</string>'', ''    <string>-c</string>'',
         ''    <string>'' @ command @ ''</string>'', ''  </array>'', ''  <key>RunAtLoad</key>'', ''  <true/>'', ''</dict>'', ''</plist>'', []])"

text \<open>The last word of the first line with words that has \<open>Token\<close>.\<close>

fun parse_enable_token_lines :: "string list \<Rightarrow> string" where
  "parse_enable_token_lines [] = []"
| "parse_enable_token_lines (line # ls) =
     (if \<not> contains_str line ''Token'' then parse_enable_token_lines ls
      else if Go_Prelude.fields line = [] then parse_enable_token_lines ls else last (Go_Prelude.fields line))"

definition parse_enable_token :: "string \<Rightarrow> string" where
  "parse_enable_token output = parse_enable_token_lines (split_on newline output)"

section \<open>The host\<close>

record firewall_host =
  fh_files :: "string \<Rightarrow> string option"
  fh_unreadable :: "string list"
  fh_unwritable :: "string list"
  fh_commands :: "string list list"

type_synonym host_runner = "string list \<Rightarrow> firewall_host \<Rightarrow> (bool \<times> string) \<times> firewall_host"
type_synonym 'a host_step = "(firewall_host, firewall_error, 'a) step"

definition run_command :: "host_runner \<Rightarrow> string list \<Rightarrow> (bool \<times> string) host_step" where
  "run_command run command h =
     (case run command h of (answer, h') \<Rightarrow> (Ok answer, h'\<lparr>fh_commands := fh_commands h @ [command]\<rparr>))"

definition write_staged_file :: "string \<Rightarrow> string \<Rightarrow> string \<Rightarrow> string host_step" where
  "write_staged_file staging name content h =
     (let path = path_join [staging, name] in
      if path \<in> set (fh_unwritable h) then (Err (CannotStage path), h)
      else (Ok path, h\<lparr>fh_files := (fh_files h)(path := Some content)\<rparr>))"

text \<open>The content of a file, \<open>None\<close> when it is not there.\<close>

definition read_host_file :: "string \<Rightarrow> string option host_step" where
  "read_host_file path h = (if path \<in> set (fh_unreadable h) then (Err (CannotReadFile path), h) else (Ok (fh_files h path), h))"

definition host_file_exists :: "firewall_host \<Rightarrow> string \<Rightarrow> bool" where
  "host_file_exists h path \<longleftrightarrow> fh_files h path \<noteq> None \<or> path \<in> set (fh_unreadable h)"

definition run_or_fail :: "host_runner \<Rightarrow> string list \<Rightarrow> unit host_step" where
  "run_or_fail run command =
     step_bind (run_command run command) (\<lambda>(ok, output). if ok then step_return () else step_fail (CommandFailed command (trim_space output)))"

definition run_and_ignore :: "host_runner \<Rightarrow> string list \<Rightarrow> unit host_step" where
  "run_and_ignore run command = step_bind (run_command run command) (\<lambda>_. step_return ())"

text \<open>A removal step succeeds too when its output says that there is nothing to remove.\<close>

definition run_removal :: "host_runner \<Rightarrow> string \<Rightarrow> string list \<Rightarrow> unit host_step" where
  "run_removal run absent_text command =
     step_bind (run_command run command) (\<lambda>(ok, output).
       if ok \<or> absent_text \<noteq> [] \<and> contains_str output absent_text then step_return ()
       else step_fail (CommandFailed command (trim_space output)))"

section \<open>nftables\<close>

definition nft_status :: "host_runner \<Rightarrow> firewall_spec \<Rightarrow> nft_paths \<Rightarrow> firewall_state host_step" where
  "nft_status run spec p =
     step_bind (step_read (\<lambda>h. (if np_rules p \<in> set (fh_unreadable h) then None else fh_files h (np_rules p), host_file_exists h (np_unit p))))
       (\<lambda>(rules, unit_present).
       if rules = None \<and> \<not> unit_present then step_return StateMissing
       else if rules = None \<or> \<not> unit_present \<or> rules \<noteq> Some (nft_rules spec) then step_return StateStale
       else step_bind (run_command run [''systemctl'', ''is-active'', ''--quiet'', nft_unit_name]) (\<lambda>(ok, output).
         step_return (if ok then StateInstalled else StateStale)))"

definition nft_install_commands :: "nft_paths \<Rightarrow> string \<Rightarrow> string \<Rightarrow> string list list" where
  "nft_install_commands p rules_path unit_path =
     [[''sudo'', ''nft'', ''--check'', ''-f'', rules_path],
      [''sudo'', ''install'', ''-D'', ''-m'', ''0644'', ''-o'', ''root'', ''-g'', ''root'', rules_path, np_rules p],
      [''sudo'', ''install'', ''-m'', ''0644'', ''-o'', ''root'', ''-g'', ''root'', unit_path, np_unit p],
      [''sudo'', ''systemctl'', ''daemon-reload''], [''sudo'', ''systemctl'', ''enable'', nft_unit_name],
      [''sudo'', ''systemctl'', ''restart'', nft_unit_name]]"

definition nft_install :: "host_runner \<Rightarrow> firewall_spec \<Rightarrow> string \<Rightarrow> nft_paths \<Rightarrow> unit host_step" where
  "nft_install run spec staging p =
     step_bind (write_staged_file staging ''nft-rules'' (nft_rules spec)) (\<lambda>rules_path.
     step_bind (write_staged_file staging ''nft-unit'' (nft_unit p)) (\<lambda>unit_path.
       step_each (run_or_fail run) (nft_install_commands p rules_path unit_path)))"

definition nft_remove :: "host_runner \<Rightarrow> nft_paths \<Rightarrow> unit host_step" where
  "nft_remove run p =
     step_each (\<lambda>(absent_text, command). run_removal run absent_text command)
       [(nft_unit_name @ '' does not exist'', [''sudo'', ''systemctl'', ''disable'', ''--now'', nft_unit_name]),
        ([], [''sudo'', ''rm'', ''-f'', np_unit p, np_rules p]),
        ([], [''sudo'', ''systemctl'', ''daemon-reload'']),
        (''No such file or directory'', [''sudo'', ''nft'', ''delete'', ''table'', ''inet'', nft_table_name])]"

section \<open>pf\<close>

definition read_main_ruleset :: "pf_paths \<Rightarrow> string host_step" where
  "read_main_ruleset p = step_bind (read_host_file (pp_main p)) (\<lambda>content. step_return (case content of None \<Rightarrow> [] | Some c \<Rightarrow> c))"

definition install_as_root :: "host_runner \<Rightarrow> string \<Rightarrow> string \<Rightarrow> unit host_step" where
  "install_as_root run source target =
     step_bind (run_command run [''sudo'', ''install'', ''-m'', ''0644'', ''-o'', ''root'', ''-g'', ''wheel'', source, target]) (\<lambda>(ok, output).
       if ok then step_return () else step_fail (CannotInstall target))"

definition pf_status :: "host_runner \<Rightarrow> firewall_spec \<Rightarrow> string \<Rightarrow> pf_paths \<Rightarrow> firewall_state host_step" where
  "pf_status run spec staging p =
     step_bind (read_host_file (pp_anchor p)) (\<lambda>anchor.
     step_bind (read_main_ruleset p) (\<lambda>ruleset.
     step_bind (step_read (\<lambda>h. (host_file_exists h (pp_daemon p), host_file_exists h (path_join [staging, enable_token_name])))) (\<lambda>(daemon, token).
       let carries = main_ruleset_carries ruleset p in
       if anchor = None \<and> \<not> carries \<and> \<not> daemon then step_return StateMissing
       else if anchor = None \<or> \<not> carries \<or> \<not> daemon then step_return StateStale
       else if anchor \<noteq> Some (pf_rules spec) then step_return StateStale
       else step_bind (run_command run [''pfctl'', ''-a'', anchor_name, ''-sr'']) (\<lambda>(ok, loaded).
         step_return (if \<not> ok then (if token then StateInstalled else StateStale)
           else if trim_space loaded = [] then StateStale else StateInstalled)))))"

definition hold_enable_reference :: "host_runner \<Rightarrow> string \<Rightarrow> unit host_step" where
  "hold_enable_reference run staging =
     (let token_path = path_join [staging, enable_token_name] in
      step_bind (step_read (\<lambda>h. if token_path \<in> set (fh_unreadable h) then [] else case fh_files h token_path of None \<Rightarrow> [] | Some c \<Rightarrow> trim_space c)) (\<lambda>previous.
      step_bind (run_command run [''sudo'', ''pfctl'', ''-E'']) (\<lambda>(ok, output).
      let token = parse_enable_token output in
      step_bind (write_staged_file staging enable_token_name (token @ [newline])) (\<lambda>_.
        step_when (previous \<noteq> [] \<and> previous \<noteq> token) (run_and_ignore run [''sudo'', ''pfctl'', ''-X'', previous])))))"

text \<open>The last part of the install, after the new main ruleset was accepted.\<close>

definition pf_activate :: "host_runner \<Rightarrow> string \<Rightarrow> pf_paths \<Rightarrow> string \<Rightarrow> unit host_step" where
  "pf_activate run staging p conf_path =
     step_then (install_as_root run conf_path (pp_main p)) (
     step_bind (write_staged_file staging staged_daemon_name (daemon_plist p)) (\<lambda>daemon_path.
     step_then (run_and_ignore run [''sudo'', ''launchctl'', ''bootout'', ''system/'' @ daemon_label]) (
     step_then (install_as_root run daemon_path (pp_daemon p)) (
     step_bind (run_command run [''sudo'', ''launchctl'', ''bootstrap'', ''system'', pp_daemon p]) (\<lambda>(started, started_output).
     step_then (step_when (\<not> started) (run_and_ignore run [''sudo'', ''launchctl'', ''load'', ''-w'', pp_daemon p])) (
     step_bind (run_command run [''sudo'', ''pfctl'', ''-f'', pp_main p]) (\<lambda>(loaded, loaded_output).
       if \<not> loaded then step_fail RulesetNotLoaded else hold_enable_reference run staging)))))))"

definition pf_replace_main :: "host_runner \<Rightarrow> string \<Rightarrow> pf_paths \<Rightarrow> unit host_step" where
  "pf_replace_main run staging p =
     step_bind (read_main_ruleset p) (\<lambda>ruleset.
     step_bind (write_staged_file staging staged_conf_name (main_ruleset_with ruleset p)) (\<lambda>conf_path.
     step_bind (run_command run [''pfctl'', ''-n'', ''-f'', conf_path]) (\<lambda>(parsed, conf_output).
       if \<not> parsed then step_fail (RulesetDoesNotParse conf_path) else pf_activate run staging p conf_path)))"

definition pf_install :: "host_runner \<Rightarrow> firewall_spec \<Rightarrow> string \<Rightarrow> pf_paths \<Rightarrow> unit host_step" where
  "pf_install run spec staging p =
     step_bind (write_staged_file staging staged_rules_name (pf_rules spec)) (\<lambda>rules_path.
     step_bind (run_command run [''pfctl'', ''-nf'', rules_path]) (\<lambda>(parsed, rules_output).
       if \<not> parsed then step_fail (RulesDoNotParse rules_path)
       else step_then (install_as_root run rules_path (pp_anchor p)) (pf_replace_main run staging p)))"

definition pf_remove :: "host_runner \<Rightarrow> string \<Rightarrow> pf_paths \<Rightarrow> unit host_step" where
  "pf_remove run staging p =
     step_bind (run_command run [''sudo'', ''cat'', pp_marker p]) (\<lambda>(read, boot_output).
     let boot_token = (if read then trim_space boot_output else []) in
     step_then (run_removal run ''No such process'' [''sudo'', ''launchctl'', ''bootout'', ''system/'' @ daemon_label]) (
     step_then (run_and_ignore run [''sudo'', ''launchctl'', ''unload'', ''-w'', pp_daemon p]) (
     step_then (run_removal run [] [''sudo'', ''rm'', ''-f'', pp_daemon p, pp_marker p]) (
     step_bind (read_main_ruleset p) (\<lambda>ruleset.
     step_then (step_when (main_ruleset_carries ruleset p)
       (step_bind (write_staged_file staging staged_conf_name (main_ruleset_without ruleset p)) (\<lambda>conf_path. install_as_root run conf_path (pp_main p)))) (
     step_then (run_removal run [] [''sudo'', ''rm'', ''-f'', pp_anchor p]) (
     step_then (run_removal run ''Anchor or Ruleset does not exist'' [''sudo'', ''pfctl'', ''-a'', anchor_name, ''-F'', ''rules'']) (
     step_then (run_removal run [] [''sudo'', ''pfctl'', ''-f'', pp_main p]) (
     let token_path = path_join [staging, enable_token_name] in
     step_bind (step_read (\<lambda>h. if token_path \<in> set (fh_unreadable h) then [] else case fh_files h token_path of None \<Rightarrow> [] | Some c \<Rightarrow> trim_space c)) (\<lambda>held.
     step_then (step_each (\<lambda>token. step_when (token \<noteq> []) (run_removal run ''token invalid'' [''sudo'', ''pfctl'', ''-X'', token])) [held, boot_token])
       (\<lambda>h. if token_path \<in> set (fh_unwritable h) then (Err (CannotRemoveFile token_path), h)
          else (Ok (), h\<lparr>fh_files := (fh_files h)(token_path := None)\<rparr>))))))))))))"

section \<open>The operations\<close>

definition firewall_rules :: "operating_system \<Rightarrow> firewall_spec \<Rightarrow> string" where
  "firewall_rules os spec = (case os of Darwin \<Rightarrow> pf_rules spec | Linux \<Rightarrow> nft_rules spec | OtherSystem \<Rightarrow> [])"

definition open_ports :: "operating_system \<Rightarrow> firewall_spec \<Rightarrow> int list" where
  "open_ports os spec = (if os = Linux then [fs_broker_port spec, nfs_port] else [fs_broker_port spec])"

text \<open>An error of the status comes with no state.\<close>

definition firewall_status :: "operating_system \<Rightarrow> host_runner \<Rightarrow> firewall_spec \<Rightarrow> string \<Rightarrow> firewall_state host_step" where
  "firewall_status os run spec staging =
     (if os = OtherSystem then step_return StateUnsupported
      else step_then (step_lift (\<lambda>h. validate_firewall spec))
        (if os = Linux then nft_status run spec nft_system_paths else pf_status run spec staging pf_system_paths))"

definition install_firewall :: "operating_system \<Rightarrow> host_runner \<Rightarrow> firewall_spec \<Rightarrow> string \<Rightarrow> unit host_step" where
  "install_firewall os run spec staging =
     (if os = OtherSystem then step_fail UnsupportedSystem
      else step_then (step_lift (\<lambda>h. validate_firewall spec))
        (if os = Linux then nft_install run spec staging nft_system_paths else pf_install run spec staging pf_system_paths))"

definition remove_firewall :: "operating_system \<Rightarrow> host_runner \<Rightarrow> string \<Rightarrow> unit host_step" where
  "remove_firewall os run staging =
     (if os = OtherSystem then step_fail UnsupportedSystem
      else if os = Linux then nft_remove run nft_system_paths else pf_remove run staging pf_system_paths)"

section \<open>The main ruleset keeps the lines of others\<close>

lemma prison_lines:
  assumes "newline \<notin> set (pp_anchor p)"
  shows "\<forall>l\<in>set (main_ruleset_lines p). newline \<notin> set l \<and> l \<noteq> []" "load_anchor_line p \<in> set (main_ruleset_lines p)" "main_ruleset_lines p \<noteq> []"
  using assms by (simp_all add: main_ruleset_lines_def main_ruleset_comment_def load_anchor_line_def quoted_def anchor_name_def)

text \<open>A text that is empty or ends its last line, and has only lines of others.\<close>

definition others_only :: "string \<Rightarrow> pf_paths \<Rightarrow> bool" where
  "others_only s p \<longleftrightarrow> s = [] \<or> (\<exists>t. s = t @ [newline] \<and> (\<forall>l\<in>set (split_on newline t). l \<notin> set (main_ruleset_lines p)))"

definition other_lines :: "string \<Rightarrow> pf_paths \<Rightarrow> string list" where
  "other_lines content p = filter (\<lambda>l. l \<noteq> [] \<and> l \<notin> set (main_ruleset_lines p)) (split_on newline content)"

lemma other_lines_snoc: "other_lines (t @ [newline]) p = other_lines t p"
  by (simp add: other_lines_def split_on_snoc)

lemma kept_lines:
  assumes "ls = filter (\<lambda>l. l \<notin> set (main_ruleset_lines p)) (split_on newline content)"
  shows "(ls = [] \<or> split_on newline (join [newline] ls) = ls) \<and> (\<forall>l\<in>set ls. l \<notin> set (main_ruleset_lines p)) \<and>
    filter (\<lambda>l. l \<noteq> [] \<and> l \<notin> set (main_ruleset_lines p)) ls = other_lines content p"
proof -
  have "\<forall>l\<in>set ls. newline \<notin> set l" using assms split_on_fields by auto
  then have "ls = [] \<or> split_on newline (join [newline] ls) = ls" using split_on_join by blast
  then show ?thesis using assms by (auto simp: other_lines_def intro!: filter_cong)
qed

lemma without_others:
  "others_only (main_ruleset_without content p) p \<and> other_lines (main_ruleset_without content p) p = other_lines content p"
proof -
  define ls where "ls = filter (\<lambda>l. l \<notin> set (main_ruleset_lines p)) (split_on newline content)"
  note k = kept_lines [OF ls_def]
  have w: "main_ruleset_without content p = end_with_newline (join [newline] ls)" by (simp add: main_ruleset_without_def ls_def)
  show ?thesis
  proof (cases "join [newline] ls = []")
    case True
    then have "filter (\<lambda>l. l \<noteq> [] \<and> l \<notin> set (main_ruleset_lines p)) ls = []" using k by (cases "ls = []") auto
    then show ?thesis using True w k by (simp add: end_with_newline_def others_only_def other_lines_def)
  next
    case False
    then have s: "split_on newline (join [newline] ls) = ls" using k by auto
    have o: "other_lines (join [newline] ls) p = other_lines content p" using k unfolding other_lines_def s by simp
    show ?thesis
    proof (cases "has_suffix (join [newline] ls) [newline]")
      case True
      then obtain u where u: "join [newline] ls = u @ [newline]" by (auto simp: has_suffix_iff)
      then have "set (split_on newline u) \<subseteq> set ls" using s split_on_snoc [of newline u] by auto
      then show ?thesis using u w True o k by (auto simp: end_with_newline_def others_only_def)
    next
      case suffix: False
      then show ?thesis using w False o k s by (auto simp: end_with_newline_def others_only_def other_lines_snoc)
    qed
  qed
qed

lemma without_others_id: "others_only s p \<Longrightarrow> newline \<notin> set (pp_anchor p) \<Longrightarrow> main_ruleset_without s p = s"
proof -
  assume o: "others_only s p" "newline \<notin> set (pp_anchor p)"
  have e: "[] \<notin> set (main_ruleset_lines p)" using prison_lines [OF o(2)] by blast
  show ?thesis
  proof (cases "s = []")
    case True
    then show ?thesis using e by (simp add: main_ruleset_without_def end_with_newline_def)
  next
    case False
    then obtain u where u: "s = u @ [newline]" "\<forall>l\<in>set (split_on newline u). l \<notin> set (main_ruleset_lines p)" using o(1) by (auto simp: others_only_def)
    then have "filter (\<lambda>l. l \<notin> set (main_ruleset_lines p)) (split_on newline s) = split_on newline s" using e by (auto simp: split_on_snoc filter_id_conv)
    then show ?thesis using u by (simp add: main_ruleset_without_def end_with_newline_def has_suffix_iff)
  qed
qed

lemma with_lines:
  assumes "others_only s p" "newline \<notin> set (pp_anchor p)"
  shows "split_on newline (s @ join [newline] (main_ruleset_lines p) @ [newline]) = butlast (split_on newline s) @ main_ruleset_lines p @ [[]]"
proof -
  have j: "split_on newline (join [newline] (main_ruleset_lines p) @ [newline]) = main_ruleset_lines p @ [[]]"
    using prison_lines [OF assms(2)] by (simp add: split_on_snoc split_on_join)
  show ?thesis
  proof (cases "s = []")
    case True
    then show ?thesis using j by simp
  next
    case False
    then obtain u where u: "s = u @ [newline]" using assms(1) by (auto simp: others_only_def)
    then show ?thesis using j split_on_concat [of newline u] by (simp add: split_on_snoc)
  qed
qed

lemma with_without:
  assumes "newline \<notin> set (pp_anchor p)"
  shows "main_ruleset_without (main_ruleset_with content p) p = main_ruleset_without content p"
    and "other_lines (main_ruleset_with content p) p = other_lines content p"
    and "main_ruleset_carries (main_ruleset_with content p) p"
proof -
  let ?s = "main_ruleset_without content p"
  note o = without_others [of content p, THEN conjunct1] and e = without_others [of content p, THEN conjunct2]
  note w = with_lines [OF o assms]
  have n: "[] \<notin> set (main_ruleset_lines p)" using prison_lines [OF assms] by blast
  have b: "filter (\<lambda>l. l \<notin> set (main_ruleset_lines p)) (butlast (split_on newline ?s)) @ [[]] = split_on newline ?s"
  proof (cases "?s = []")
    case False
    then obtain u where u: "?s = u @ [newline]" "\<forall>l\<in>set (split_on newline u). l \<notin> set (main_ruleset_lines p)" using o by (auto simp: others_only_def)
    then show ?thesis by (simp add: split_on_snoc filter_id_conv)
  qed simp
  have "filter (\<lambda>l. l \<notin> set (main_ruleset_lines p)) (split_on newline (main_ruleset_with content p)) = split_on newline ?s"
    using n b unfolding main_ruleset_with_def w by (simp add: filter_False)
  then show "main_ruleset_without (main_ruleset_with content p) p = ?s"
    using without_others_id [OF o assms] o by (auto simp: main_ruleset_without_def [of "main_ruleset_with content p"] end_with_newline_def has_suffix_iff others_only_def)
  then show "other_lines (main_ruleset_with content p) p = other_lines content p" using e without_others [of "main_ruleset_with content p" p] by simp
  show "main_ruleset_carries (main_ruleset_with content p) p"
    using prison_lines(2) [OF assms] unfolding main_ruleset_carries_def main_ruleset_with_def w by simp
qed

text \<open>The lines of prison in the main ruleset of pf come and go without a trace. Adding them keeps every other line in order, adding them again
  changes nothing, and removing them gives the same text whether they were added or not.\<close>

theorem main_ruleset_exact:
  assumes "newline \<notin> set (pp_anchor p)"
  shows "main_ruleset_carries (main_ruleset_with content p) p \<and> \<not> main_ruleset_carries (main_ruleset_without content p) p \<and>
    other_lines (main_ruleset_with content p) p = other_lines content p \<and> other_lines (main_ruleset_without content p) p = other_lines content p \<and>
    main_ruleset_with (main_ruleset_with content p) p = main_ruleset_with content p \<and>
    main_ruleset_without (main_ruleset_with content p) p = main_ruleset_without content p"
proof -
  note o = without_others [of content p, THEN conjunct1]
  have "\<not> main_ruleset_carries (main_ruleset_without content p) p"
  proof (cases "main_ruleset_without content p = []")
    case True
    then show ?thesis using prison_lines [OF assms] by (auto simp: main_ruleset_carries_def)
  next
    case False
    then obtain u where "main_ruleset_without content p = u @ [newline]" "\<forall>l\<in>set (split_on newline u). l \<notin> set (main_ruleset_lines p)"
      using o by (auto simp: others_only_def)
    then show ?thesis using prison_lines [OF assms] by (auto simp: main_ruleset_carries_def split_on_snoc)
  qed
  then show ?thesis using with_without [OF assms] without_others by (simp add: main_ruleset_with_def)
qed

section \<open>The rules name their network\<close>

definition plain_spec :: "firewall_spec \<Rightarrow> bool" where
  "plain_spec spec \<longleftrightarrow> newline \<notin> set (fs_subnet_v4 spec) \<and> newline \<notin> set (fs_subnet_v6 spec)"

lemma itoa_no_newline: "newline \<notin> set (itoa i)"
  using itoa_chars [of newline i] by (auto simp: is_digit_def)

lemma nft_lines_plain: "plain_spec spec \<Longrightarrow> \<forall>l\<in>set (nft_lines spec). newline \<notin> set l"
  using itoa_no_newline by (simp add: nft_lines_def nft_table_name_def plain_spec_def)

lemma nft_lines_inject: "nft_lines a = nft_lines b \<Longrightarrow> a = b"
proof -
  assume e: "nft_lines a = nft_lines b"
  have n: "nft_lines s ! 9 = [tab, tab] @ ''ip saddr '' @ fs_subnet_v4 s @ '' drop''"
    "nft_lines s ! 8 = [tab, tab] @ ''ip saddr '' @ fs_subnet_v4 s @ '' tcp dport { '' @ itoa (fs_broker_port s) @ '', '' @ itoa nfs_port @ '' } accept''"
    "fs_subnet_v6 s \<noteq> [] \<Longrightarrow> nft_lines s ! 10 = [tab, tab] @ ''ip6 saddr '' @ fs_subnet_v6 s @ '' drop''"
    "length (nft_lines s) = (if fs_subnet_v6 s = [] then 17 else 18)" for s
    by (simp_all add: nft_lines_def)
  have v4: "fs_subnet_v4 a = fs_subnet_v4 b" using n(1) [of a] n(1) [of b] unfolding e by simp
  have "itoa (fs_broker_port a) = itoa (fs_broker_port b)" using n(2) [of a] n(2) [of b] v4 unfolding e by simp
  then have port: "fs_broker_port a = fs_broker_port b" by (rule itoa_inj)
  have "fs_subnet_v6 a = [] \<longleftrightarrow> fs_subnet_v6 b = []" using n(4) [of a] n(4) [of b] unfolding e by (simp split: if_splits)
  then have "fs_subnet_v6 a = fs_subnet_v6 b" using n(3) [of a] n(3) [of b] unfolding e by (cases "fs_subnet_v6 a = []") simp_all
  then show ?thesis using v4 port by simp
qed

lemma nft_rules_inject: "nft_rules a = nft_rules b \<Longrightarrow> plain_spec a \<Longrightarrow> plain_spec b \<Longrightarrow> a = b"
proof -
  assume a: "nft_rules a = nft_rules b" "plain_spec a" "plain_spec b"
  have ne: "nft_lines s \<noteq> []" for s by (simp add: nft_lines_def)
  have "join [newline] (nft_lines a) = join [newline] (nft_lines b)" using a(1) unfolding nft_rules_def by blast
  then have "split_on newline (join [newline] (nft_lines a)) = split_on newline (join [newline] (nft_lines b))" by (rule arg_cong)
  then have "nft_lines a = nft_lines b" unfolding split_on_join [OF ne nft_lines_plain [OF a(2)]] split_on_join [OF ne nft_lines_plain [OF a(3)]] .
  then show ?thesis by (rule nft_lines_inject)
qed

lemma nft_status_installed:
  "nft_status run spec p h = (Ok StateInstalled, h') \<Longrightarrow>
   np_rules p \<notin> set (fh_unreadable h) \<and> fh_files h (np_rules p) = Some (nft_rules spec) \<and> host_file_exists h (np_unit p) \<and>
   fst (fst (run [''systemctl'', ''is-active'', ''--quiet'', nft_unit_name] h))"
  unfolding nft_status_def step_bind_def step_read_def step_return_def run_command_def
  by (auto split: if_splits prod.splits)

text \<open>On Linux the firewall counts as installed only for the network that its rules were written for. The rules file then holds the rules of that
  network, the unit is there and active, and on the same host no other network has the status installed.\<close>

theorem installed_for_one_network:
  assumes "firewall_status Linux run spec staging h = (Ok StateInstalled, h1)" "plain_spec spec"
  shows "fh_files h (np_rules nft_system_paths) = Some (nft_rules spec) \<and> host_file_exists h (np_unit nft_system_paths) \<and>
    fst (fst (run [''systemctl'', ''is-active'', ''--quiet'', nft_unit_name] h)) \<and>
    (\<forall>other h2. plain_spec other \<longrightarrow> firewall_status Linux run other staging h = (Ok StateInstalled, h2) \<longrightarrow> other = spec)"
proof -
  have s: "firewall_status Linux run other staging h = (Ok StateInstalled, h2) \<Longrightarrow> nft_status run other nft_system_paths h = (Ok StateInstalled, h2)" for other h2
    by (auto simp: firewall_status_def step_then_def step_bind_def step_lift_def split: sum.splits)
  note i = nft_status_installed [OF s [OF assms(1)]]
  have "other = spec" if o: "plain_spec other" "firewall_status Linux run other staging h = (Ok StateInstalled, h2)" for other h2
    using nft_status_installed [OF s [OF o(2)]] i nft_rules_inject o(1) assms(2) by (metis option.inject)
  then show ?thesis using i by blast
qed

section \<open>An install gives the status\<close>

text \<open>What the commands do: \<open>install\<close> copies a file that is there, and the other commands of the install succeed and leave the files.\<close>

definition copies_files :: "host_runner \<Rightarrow> bool" where
  "copies_files run \<longleftrightarrow> (\<forall>h src dst options content. fh_files h src = Some content \<longrightarrow>
     run ([''sudo'', ''install''] @ options @ [src, dst]) h = ((True, []), h\<lparr>fh_files := (fh_files h)(dst := Some content)\<rparr>))"

definition other_commands_pass :: "host_runner \<Rightarrow> bool" where
  "other_commands_pass run \<longleftrightarrow> (\<forall>h command. take 2 command \<noteq> [''sudo'', ''install''] \<longrightarrow> (\<exists>printed. run command h = ((True, printed), h)))"

lemma pass_command:
  assumes "other_commands_pass run" "take 2 command \<noteq> [''sudo'', ''install'']"
  shows "run_or_fail run command h = (Ok (), h\<lparr>fh_commands := fh_commands h @ [command]\<rparr>)"
proof -
  obtain printed where "run command h = ((True, printed), h)" using assms unfolding other_commands_pass_def by blast
  then show ?thesis by (simp add: run_or_fail_def run_command_def step_bind_def step_return_def)
qed

lemma copy_command:
  assumes "copies_files run" "fh_files h src = Some content" "command = [''sudo'', ''install''] @ options @ [src, dst]"
  shows "run_or_fail run command h = (Ok (), h\<lparr>fh_files := (fh_files h)(dst := Some content), fh_commands := fh_commands h @ [command]\<rparr>)"
proof -
  have "run command h = ((True, []), h\<lparr>fh_files := (fh_files h)(dst := Some content)\<rparr>)" using assms unfolding copies_files_def by blast
  then show ?thesis by (simp add: run_or_fail_def run_command_def step_bind_def step_return_def)
qed

lemma run_then: "run_or_fail run c h = (Ok (), h') \<Longrightarrow> step_then (run_or_fail run c) k h = k h'"
  by (simp add: step_then_def step_bind_def)

lemma nft_install_done:
  assumes "copies_files run" "other_commands_pass run"
    and "fh_files h rules_path = Some rules" "fh_files h unit_path = Some unit" "rules_path \<noteq> unit_path" "unit_path \<noteq> np_rules p" "np_unit p \<noteq> np_rules p"
  shows "\<exists>commands. step_each (run_or_fail run) (nft_install_commands p rules_path unit_path) h =
    (Ok (), h\<lparr>fh_files := (fh_files h)(np_rules p := Some rules, np_unit p := Some unit), fh_commands := commands\<rparr>)"
proof -
  define c1 where "c1 = [''sudo'', ''nft'', ''--check'', ''-f'', rules_path]"
  define c2 where "c2 = [''sudo'', ''install''] @ [''-D'', ''-m'', ''0644'', ''-o'', ''root'', ''-g'', ''root''] @ [rules_path, np_rules p]"
  define c3 where "c3 = [''sudo'', ''install''] @ [''-m'', ''0644'', ''-o'', ''root'', ''-g'', ''root''] @ [unit_path, np_unit p]"
  define c4 where "c4 = [''sudo'', ''systemctl'', ''daemon-reload'']"
  define c5 where "c5 = [''sudo'', ''systemctl'', ''enable'', nft_unit_name]"
  define c6 where "c6 = [''sudo'', ''systemctl'', ''restart'', nft_unit_name]"
  have cs: "nft_install_commands p rules_path unit_path = [c1, c2, c3, c4, c5, c6]"
    by (simp add: nft_install_commands_def c1_def c2_def c3_def c4_def c5_def c6_def)
  have other: "take 2 c1 \<noteq> [''sudo'', ''install'']" "take 2 c4 \<noteq> [''sudo'', ''install'']" "take 2 c5 \<noteq> [''sudo'', ''install'']" "take 2 c6 \<noteq> [''sudo'', ''install'']"
    by (simp_all add: c1_def c4_def c5_def c6_def)
  note pass = pass_command [OF assms(2)]
  define h1 where "h1 = h\<lparr>fh_commands := fh_commands h @ [c1]\<rparr>"
  define h2 where "h2 = h1\<lparr>fh_files := (fh_files h1)(np_rules p := Some rules), fh_commands := fh_commands h1 @ [c2]\<rparr>"
  define h3 where "h3 = h2\<lparr>fh_files := (fh_files h2)(np_unit p := Some unit), fh_commands := fh_commands h2 @ [c3]\<rparr>"
  have r1: "run_or_fail run c1 h = (Ok (), h1)" unfolding h1_def by (rule pass [OF other(1)])
  have f1: "fh_files h1 rules_path = Some rules" using assms(3) by (simp add: h1_def)
  have r2: "run_or_fail run c2 h1 = (Ok (), h2)" unfolding h2_def by (rule copy_command [OF assms(1) f1 c2_def])
  have f2: "fh_files h2 unit_path = Some unit" using assms(4,6) by (simp add: h1_def h2_def)
  have r3: "run_or_fail run c3 h2 = (Ok (), h3)" unfolding h3_def by (rule copy_command [OF assms(1) f2 c3_def])
  have "step_each (run_or_fail run) [c1, c2, c3, c4, c5, c6] h = (Ok (), h3\<lparr>fh_commands := fh_commands h3 @ [c4] @ [c5] @ [c6]\<rparr>)"
    by (simp add: run_then [OF r1] run_then [OF r2] run_then [OF r3] run_then [OF pass [OF other(2)]]
        run_then [OF pass [OF other(3)]] run_then [OF pass [OF other(4)]] step_return_def)
  then show ?thesis unfolding cs by (simp add: h3_def h2_def h1_def) blast
qed

lemma installed_after_install:
  assumes "copies_files run" "other_commands_pass run" "validate_firewall spec = Ok ()" "fh_unwritable h = []" "fh_unreadable h = []"
    and "path_join [staging, ''nft-rules''] \<noteq> path_join [staging, ''nft-unit'']"
    and "path_join [staging, ''nft-unit''] \<noteq> np_rules nft_system_paths"
  shows "\<exists>h1 h2. install_firewall Linux run spec staging h = (Ok (), h1) \<and> firewall_status Linux run spec staging h1 = (Ok StateInstalled, h2) \<and>
    open_ports Linux spec = [fs_broker_port spec, nfs_port]"
proof -
  let ?p = nft_system_paths
  let ?rules = "path_join [staging, ''nft-rules'']" and ?unit = "path_join [staging, ''nft-unit'']"
  define g where "g = h\<lparr>fh_files := (fh_files h)(?rules := Some (nft_rules spec), ?unit := Some (nft_unit ?p))\<rparr>"
  have f: "fh_files g ?rules = Some (nft_rules spec)" "fh_files g ?unit = Some (nft_unit ?p)" using assms(6) by (simp_all add: g_def)
  have n: "np_unit ?p \<noteq> np_rules ?p" by (simp add: nft_system_paths_def nft_unit_name_def)
  obtain cs where c: "step_each (run_or_fail run) (nft_install_commands ?p ?rules ?unit) g =
      (Ok (), g\<lparr>fh_files := (fh_files g)(np_rules ?p := Some (nft_rules spec), np_unit ?p := Some (nft_unit ?p)), fh_commands := cs\<rparr>)"
    using nft_install_done [OF assms(1,2) f assms(6,7) n] by blast
  define h1 where "h1 = g\<lparr>fh_files := (fh_files g)(np_rules ?p := Some (nft_rules spec), np_unit ?p := Some (nft_unit ?p)), fh_commands := cs\<rparr>"
  have v: "step_then (step_lift (\<lambda>h. validate_firewall spec)) k h = k h" for k :: "'a host_step" and h
    by (simp add: step_then_def step_bind_def step_lift_def assms(3))
  have "nft_install run spec staging ?p h = step_each (run_or_fail run) (nft_install_commands ?p ?rules ?unit) g"
    by (simp add: nft_install_def step_bind_def write_staged_file_def assms(4) g_def Let_def)
  then have i: "install_firewall Linux run spec staging h = (Ok (), h1)" using c by (simp add: install_firewall_def v h1_def)
  have h1: "fh_files h1 (np_rules ?p) = Some (nft_rules spec)" "host_file_exists h1 (np_unit ?p)" "fh_unreadable h1 = []"
    using n assms(5) by (simp_all add: h1_def g_def host_file_exists_def)
  have "take 2 [''systemctl'', ''is-active'', ''--quiet'', nft_unit_name] \<noteq> [''sudo'', ''install'']" by simp
  then obtain printed where r: "run [''systemctl'', ''is-active'', ''--quiet'', nft_unit_name] h1 = ((True, printed), h1)"
    using assms(2) unfolding other_commands_pass_def by blast
  have "\<exists>h2. nft_status run spec ?p h1 = (Ok StateInstalled, h2)"
    using h1 r by (simp add: nft_status_def step_bind_def step_read_def step_return_def run_command_def)
  then show ?thesis using i by (auto simp: firewall_status_def v open_ports_def)
qed

text \<open>On Linux an install that writes its staged files gives the status installed, for commands that do what they are documented to do: \<open>install\<close> copies
  a file, and the others succeed and leave the files alone.\<close>

theorem install_gives_status:
  assumes "copies_files run" "other_commands_pass run" "validate_firewall spec = Ok ()" "fh_unwritable h = []" "fh_unreadable h = []"
    and "path_join [staging, ''nft-rules''] \<noteq> path_join [staging, ''nft-unit'']"
    and "path_join [staging, ''nft-unit''] \<noteq> np_rules nft_system_paths"
  shows "\<exists>h1 h2. install_firewall Linux run spec staging h = (Ok (), h1) \<and> firewall_status Linux run spec staging h1 = (Ok StateInstalled, h2) \<and>
    open_ports Linux spec = [fs_broker_port spec, nfs_port]"
  using assms by (rule installed_after_install)

section \<open>The main ruleset is checked first\<close>

definition main_ruleset_command :: "pf_paths \<Rightarrow> string list \<Rightarrow> bool" where
  "main_ruleset_command p command \<longleftrightarrow> (\<exists>source. command = [''sudo'', ''install'', ''-m'', ''0644'', ''-o'', ''root'', ''-g'', ''wheel'', source, pp_main p]) \<or>
     command = [''sudo'', ''pfctl'', ''-f'', pp_main p]"

definition ruleset_untouched :: "pf_paths \<Rightarrow> firewall_host \<Rightarrow> bool" where
  "ruleset_untouched p h \<longleftrightarrow> (\<forall>command\<in>set (fh_commands h). \<not> main_ruleset_command p command)"

lemma run_untouched: "\<not> main_ruleset_command p command \<Longrightarrow> ensures (ruleset_untouched p) (run_command run command) (\<lambda>x. ruleset_untouched p) (ruleset_untouched p)"
  by (auto simp: ensures_def run_command_def ruleset_untouched_def split: prod.splits)

lemma staged_untouched: "ensures (ruleset_untouched p) (write_staged_file staging name content)
    (\<lambda>path h. path = path_join [staging, name] \<and> ruleset_untouched p h) (ruleset_untouched p)"
  by (auto simp: ensures_def write_staged_file_def ruleset_untouched_def Let_def)

lemma read_untouched: "ensures (ruleset_untouched p) (read_main_ruleset p) (\<lambda>x. ruleset_untouched p) (ruleset_untouched p)"
  by (auto simp: ensures_def read_main_ruleset_def read_host_file_def step_bind_def step_return_def)

text \<open>On macOS the main ruleset of the host is only replaced, and only loaded, after \<open>pfctl\<close> accepted the new text. When it is refused, the
  install fails and no command that replaces or loads the main ruleset has run.\<close>

theorem refused_ruleset_not_installed:
  assumes "pf_install run spec staging p h = (r, h')" "fh_commands h = []"
    and "\<forall>h. fst (fst (run [''pfctl'', ''-n'', ''-f'', path_join [staging, staged_conf_name]] h)) = False" "pp_anchor p \<noteq> pp_main p"
  shows "r \<noteq> Ok () \<and> ruleset_untouched p h'"
proof -
  let ?conf = "path_join [staging, staged_conf_name]"
  have a: "\<not> main_ruleset_command p [''sudo'', ''install'', ''-m'', ''0644'', ''-o'', ''root'', ''-g'', ''wheel'', source, pp_anchor p]" for source
    using assms(4) by (simp add: main_ruleset_command_def)
  have n: "\<not> main_ruleset_command p (''pfctl'' # options)" for options by (simp add: main_ruleset_command_def)
  have refused: "ensures (\<lambda>h. path = ?conf \<and> ruleset_untouched p h) (run_command run [''pfctl'', ''-n'', ''-f'', path]) (\<lambda>(ok, printed) h. \<not> ok \<and> ruleset_untouched p h) (\<lambda>h. False)"
    for path using assms(3) n by (auto simp: ensures_def run_command_def ruleset_untouched_def split: prod.splits) (metis fst_conv)
  have replaced: "ensures (ruleset_untouched p) (pf_replace_main run staging p) (\<lambda>x h. False) (ruleset_untouched p)"
    unfolding pf_replace_main_def
  proof (rule ensures_bind [OF read_untouched], rule ensures_bind [OF staged_untouched])
    show "ensures (\<lambda>h. path = ?conf \<and> ruleset_untouched p h) (step_bind (run_command run [''pfctl'', ''-n'', ''-f'', path]) (\<lambda>(parsed, conf_output).
        if \<not> parsed then step_fail (RulesetDoesNotParse path) else pf_activate run staging p path)) (\<lambda>x h. False) (ruleset_untouched p)" for path
      by (rule ensures_bind [where R = "\<lambda>(ok, printed) h. \<not> ok \<and> ruleset_untouched p h"], rule ensures_weaken [OF refused])
        (auto simp: ensures_def step_fail_def)
  qed
  have installed: "ensures (ruleset_untouched p) (install_as_root run source (pp_anchor p)) (\<lambda>x. ruleset_untouched p) (ruleset_untouched p)" for source
    unfolding install_as_root_def
    by (rule ensures_bind [OF run_untouched [OF a]]) (auto intro: ensures_return ensures_fail)
  have "ensures (ruleset_untouched p) (pf_install run spec staging p) (\<lambda>x h. False) (ruleset_untouched p)"
    unfolding pf_install_def
  proof (rule ensures_bind)
    show "ensures (ruleset_untouched p) (write_staged_file staging staged_rules_name (pf_rules spec)) (\<lambda>x. ruleset_untouched p) (ruleset_untouched p)"
      by (rule ensures_weaken [OF staged_untouched]) auto
    show "ensures (ruleset_untouched p) (step_bind (run_command run [''pfctl'', ''-nf'', rules_path]) (\<lambda>(parsed, rules_output).
        if \<not> parsed then step_fail (RulesDoNotParse rules_path)
        else step_then (install_as_root run rules_path (pp_anchor p)) (pf_replace_main run staging p))) (\<lambda>x h. False) (ruleset_untouched p)" for rules_path
      by (rule ensures_bind [OF run_untouched [OF n]]) (auto intro!: ensures_fail ensures_then [OF installed replaced] split: prod.splits)
  qed
  from ensuresD [OF this _ assms(1)] show ?thesis using assms(2) by (auto simp: ruleset_untouched_def split: sum.splits)
qed

section \<open>Examples\<close>

definition example_firewall :: firewall_spec where
  "example_firewall = \<lparr>fs_subnet_v4 = ''192.168.1.0/24'', fs_subnet_v6 = ''fd00::/64'', fs_broker_port = 8787\<rparr>"

definition example_firewall_host :: firewall_host where
  "example_firewall_host = \<lparr>fh_files = (\<lambda>path. None), fh_unreadable = [], fh_unwritable = [], fh_commands = []\<rparr>"

text \<open>A host on which \<open>install\<close> copies and the other commands succeed, and one on which each command fails that starts with \<open>pfctl -n\<close>.\<close>

definition copying_runner :: host_runner where
  "copying_runner command h =
     (if take 2 command = [''sudo'', ''install''] \<and> 4 \<le> length command \<and> fh_files h (last (butlast command)) \<noteq> None
      then ((True, []), h\<lparr>fh_files := (fh_files h)(last command := fh_files h (last (butlast command)))\<rparr>)
      else ((True, []), h))"

definition refusing_runner :: host_runner where
  "refusing_runner command h = ((take 2 command \<noteq> [''pfctl'', ''-n''], []), h)"

lemma copying_runner_ok: "copies_files copying_runner" "other_commands_pass copying_runner"
proof -
  have "copying_runner ([''sudo'', ''install''] @ options @ [src, dst]) h = ((True, []), h\<lparr>fh_files := (fh_files h)(dst := Some content)\<rparr>)"
    if "fh_files h src = Some content" for h src dst options content
    using that by (simp add: copying_runner_def butlast_append)
  then show "copies_files copying_runner" unfolding copies_files_def by blast
  show "other_commands_pass copying_runner" by (simp add: other_commands_pass_def copying_runner_def)
qed

lemma example_firewall_ok:
  "validate_firewall example_firewall = Ok ()" "fh_unwritable example_firewall_host = []" "fh_unreadable example_firewall_host = []"
  "path_join [''/p'', ''nft-rules''] \<noteq> path_join [''/p'', ''nft-unit'']" "path_join [''/p'', ''nft-unit''] \<noteq> np_rules nft_system_paths"
  "plain_spec example_firewall"
  by code_simp+

theorem main_ruleset_exact_witness:
  "main_ruleset_carries (main_ruleset_with ''pass in all'' pf_system_paths) pf_system_paths \<and>
   other_lines (main_ruleset_with ''pass in all'' pf_system_paths) pf_system_paths = [''pass in all'']"
proof -
  have n: "newline \<notin> set (pp_anchor pf_system_paths)" by code_simp
  have "other_lines ''pass in all'' pf_system_paths = [''pass in all'']" by code_simp
  then show ?thesis using main_ruleset_exact [OF n, of "''pass in all''"] by argo
qed

theorem install_gives_status_witness:
  "\<exists>h1 h2. install_firewall Linux copying_runner example_firewall ''/p'' example_firewall_host = (Ok (), h1) \<and>
     firewall_status Linux copying_runner example_firewall ''/p'' h1 = (Ok StateInstalled, h2)"
  using install_gives_status [OF copying_runner_ok example_firewall_ok(1-5)] by blast

theorem installed_for_one_network_witness:
  "\<exists>h. fh_files h (np_rules nft_system_paths) = Some (nft_rules example_firewall) \<and>
     fst (fst (copying_runner [''systemctl'', ''is-active'', ''--quiet'', nft_unit_name] h))"
proof -
  obtain h1 h2 where "firewall_status Linux copying_runner example_firewall ''/p'' h1 = (Ok StateInstalled, h2)"
    using installed_after_install [OF copying_runner_ok example_firewall_ok(1-5)] by blast
  from installed_for_one_network [OF this example_firewall_ok(6)] show ?thesis by blast
qed

theorem refused_ruleset_not_installed_witness:
  "case pf_install refusing_runner example_firewall ''/p'' pf_system_paths example_firewall_host of (r, h) \<Rightarrow> r \<noteq> Ok () \<and> ruleset_untouched pf_system_paths h"
proof -
  obtain r h where e: "pf_install refusing_runner example_firewall ''/p'' pf_system_paths example_firewall_host = (r, h)" by (metis surj_pair)
  have a: "fh_commands example_firewall_host = []" "pp_anchor pf_system_paths \<noteq> pp_main pf_system_paths" by code_simp+
  have c: "\<forall>h. fst (fst (refusing_runner [''pfctl'', ''-n'', ''-f'', path_join [''/p'', staged_conf_name]] h)) = False" by (simp add: refusing_runner_def)
  show ?thesis using refused_ruleset_not_installed [OF e a(1) c a(2)] e by simp
qed

end
