(* ===== verification/Session_Up.thy ===== *)
theory Session_Up
  imports Session_Ports Session_Mounts Session_Context Session_Exec Image_Plan Hostfw
begin

text \<open>
  \<open>internal/session/up.go\<close>, \<open>hostsetup*.go\<close> and \<open>ports_linux.go\<close>: \<open>prison up\<close>, which brings the broker, the network, the
  firewall, the image, the profile and the box of a project up, in this order.

  The answers of the isolator, of the broker and of the terminal are parameters. The state is the session, the state
  directory, the images, the files of the host and the trace of what was done. The properties say that no box is created or started
  before its network is guarded, and when setup commands run.
\<close>

section \<open>The world and the trace\<close>

record network_info =
  ni_host_only :: bool
  ni_gateway :: string
  ni_subnet_v4 :: string
  ni_subnet_v6 :: string

record create_spec =
  cr_name :: string
  cr_image :: string
  cr_network :: string
  cr_cpus :: int
  cr_memory :: string
  cr_mounts :: "mount list"
  cr_ports :: "port_mapping list"
  cr_environment :: "string list"
  cr_capabilities :: "string list"
  cr_command :: "string list"

datatype up_warning =
    WarnUntrusted config_warning
  | WarnVaultLocked
  | WarnVaultStaysLocked
  | WarnDomain
  | WarnSudo
  | WarnPortsExhausted
  | WarnNoCredential string "string list"
  | WarnSecretMissing string
  | WarnDrift string
  | WarnListen
  | WarnNotListening string
  | WarnNoAddress
  | WarnPublish
  | WarnRoute
  | WarnHostOperations string
  | WarnSetupMissing string
  | WarnSetupFailed string

datatype up_event =
    Warned up_warning
  | RecordSaved project_record
  | VaultUnlocked
  | NetworkReady string network_info
  | DomainRegistered string
  | FirewallFound firewall_spec firewall_state
  | FirewallWritten firewall_spec
  | PortsChosen "port_mapping list option"
  | DirectoriesMade "string list"
  | ImageReady string
  | TokenReady string
  | ProfilePushed profile "(string \<times> string) list"
  | BoxStarted string
  | BoxCreated create_spec
  | ListenAsked string
  | PortsPublished string "port_mapping list"
  | RouteInstalled string
  | HostOperationsRun string
  | RanInBox "string list" "string list"
  | Probed "string list"

datatype up_error =
    UpState state_error
  | UpSession session_error
  | UpExec exec_error
  | UpImage image_error
  | UpFirewall firewall_error
  | IsolatorMissing
  | BrokerFailed
  | StatusFailed
  | PassphraseFailed
  | UnlockFailed
  | NetworkFailed
  | NetworkNotHostOnly
  | PushFailed
  | InspectFailed
  | StartFailed
  | CreateFailed

record up_world =
  uw_json :: json_forms
  uw_sha :: "string \<Rightarrow> string"
  uw_now :: int
  uw_random :: string
  uw_os :: operating_system
  uw_run :: host_runner
  uw_isolator_ok :: bool
  uw_broker_ok :: bool
  uw_unlocked :: "bool option"
  uw_terminal :: bool
  uw_passphrase :: "string option"
  uw_unlock :: "string \<Rightarrow> bool"
  uw_ensure_network :: bool
  uw_network :: "network_info option"
  uw_domain_known :: "bool option"
  uw_register :: bool
  uw_answers :: "int \<Rightarrow> bool"
  uw_directory_exists :: "string \<Rightarrow> bool"
  uw_file_exists :: "string \<Rightarrow> bool"
  uw_base_image :: directory
  uw_images :: isolator_answers
  uw_environment :: "string \<Rightarrow> string option"
  uw_push :: bool
  uw_box :: "box_info option"
  uw_start :: bool
  uw_create :: "create_spec \<Rightarrow> bool"
  uw_listen :: "(bool \<times> string) option option"
  uw_attempts :: "nat \<Rightarrow> ready_attempt"
  uw_box_after :: "box_info option"
  uw_publish :: bool
  uw_route_known :: "bool option"
  uw_route_install :: bool
  uw_host_operations :: "inmate \<Rightarrow> bool"
  uw_runner :: box_runner
  uw_decode_probe :: "string \<Rightarrow> probe_result option"
  uw_codec :: json_codec
  uw_regex :: regex
  uw_host_files :: files

record up_state =
  us_session :: session
  us_disk :: disk
  us_images :: image_store
  us_host :: firewall_host
  us_trace :: "up_event list"

type_synonym 'a up_step = "(up_state, up_error, 'a) step"

definition emit :: "up_event \<Rightarrow> unit up_step" where
  "emit e = step_change (\<lambda>st. st\<lparr>us_trace := us_trace st @ [e]\<rparr>)"

definition warn :: "up_warning \<Rightarrow> unit up_step" where "warn x = emit (Warned x)"

definition the_session :: "session up_step" where "the_session = step_read us_session"

definition on_disk :: "(disk \<Rightarrow> (state_error, 'a \<times> disk) result) \<Rightarrow> 'a up_step" where
  "on_disk f st = (case f (us_disk st) of Err e \<Rightarrow> (Err (UpState e), st) | Ok (x, d) \<Rightarrow> (Ok x, st\<lparr>us_disk := d\<rparr>))"

definition from_disk :: "(disk \<Rightarrow> (state_error, 'a) result) \<Rightarrow> 'a up_step" where
  "from_disk f = step_lift (\<lambda>st. lift_error UpState (f (us_disk st)))"

definition with_unit :: "(disk \<Rightarrow> (state_error, disk) result) \<Rightarrow> disk \<Rightarrow> (state_error, unit \<times> disk) result" where
  "with_unit f d = bind_res (f d) (\<lambda>d'. Ok ((), d'))"

definition on_host :: "'a host_step \<Rightarrow> 'a up_step" where
  "on_host m st = (case m (us_host st) of
     (Err e, h) \<Rightarrow> (Err (UpFirewall e), st\<lparr>us_host := h\<rparr>) | (Ok x, h) \<Rightarrow> (Ok x, st\<lparr>us_host := h\<rparr>))"

definition pure_result :: "('e \<Rightarrow> up_error) \<Rightarrow> ('e, 'a) result \<Rightarrow> 'a up_step" where
  "pure_result f r = step_lift (\<lambda>st. lift_error f r)"

section \<open>The record\<close>

definition set_record :: "project_record \<Rightarrow> up_state \<Rightarrow> up_state" where
  "set_record r st = st\<lparr>us_session := (us_session st)\<lparr>se_record := Some r\<rparr>\<rparr>"

definition save_up_record :: "up_world \<Rightarrow> project_record \<Rightarrow> unit up_step" where
  "save_up_record w r =
     step_bind the_session (\<lambda>s. step_then (on_disk (with_unit (save_record (uw_json w) (se_project s) r (uw_now w)))) (emit (RecordSaved r)))"

text \<open>The record is shared with the session, so a change shows there before it is saved.\<close>

definition change_record :: "up_world \<Rightarrow> project_record \<Rightarrow> unit up_step" where
  "change_record w r = step_then (step_change (set_record r)) (save_up_record w r)"

definition ensure_record :: "up_world \<Rightarrow> project_record up_step" where
  "ensure_record w = step_bind the_session (\<lambda>s.
     let record = (case se_record s of None \<Rightarrow> empty_record (se_directory s) (uw_now w) | Some r \<Rightarrow> r)\<lparr>pr_path := se_directory s\<rparr> in
     step_then (step_when (se_record s \<noteq> None) (step_change (set_record record)))
       (step_then (save_up_record w record) (step_then (step_change (set_record record)) (step_return record))))"

section \<open>The broker and the vault\<close>

definition unlock_vault_if_needed :: "up_world \<Rightarrow> bool up_step" where
  "unlock_vault_if_needed w = step_bind the_session (\<lambda>s.
     step_bind (step_read (\<lambda>st. is_ok (stat_file (us_disk st) (root_vault_file (prj_root (se_project s)))))) (\<lambda>vault.
     if \<not> vault then step_return False
     else step_bind (from_disk (project_grants (se_project s))) (\<lambda>grants.
     if grants = [] then step_return False
     else (case uw_unlocked w of
         None \<Rightarrow> step_fail StatusFailed
       | Some unlocked \<Rightarrow>
           if unlocked then step_return True
           else if \<not> uw_terminal w then step_then (warn WarnVaultLocked) (step_return False)
           else (case uw_passphrase w of
               None \<Rightarrow> step_fail PassphraseFailed
             | Some passphrase \<Rightarrow>
                 if passphrase = [] then step_then (warn WarnVaultStaysLocked) (step_return False)
                 else if \<not> uw_unlock w passphrase then step_fail UnlockFailed
                 else step_then (emit VaultUnlocked) (step_return True))))))"

section \<open>The network and its firewall\<close>

definition ensure_network :: "up_world \<Rightarrow> network_info up_step" where
  "ensure_network w =
     (if \<not> uw_ensure_network w then step_fail NetworkFailed
      else (case uw_network w of
          None \<Rightarrow> step_fail NetworkFailed
        | Some network \<Rightarrow>
            if \<not> ni_host_only network then step_fail NetworkNotHostOnly
            else step_bind the_session (\<lambda>s.
              step_then (emit (NetworkReady (ov_network (se_overrides s)) network)) (step_return network))))"

definition host_firewall_spec :: "session \<Rightarrow> network_info \<Rightarrow> firewall_spec" where
  "host_firewall_spec s network =
     \<lparr>fs_subnet_v4 = ni_subnet_v4 network, fs_subnet_v6 = ni_subnet_v6 network, fs_broker_port = ov_broker_port (se_overrides s)\<rparr>"

text \<open>An error of the status counts as missing.\<close>

definition found_state :: "firewall_state host_step \<Rightarrow> firewall_state option up_step" where
  "found_state m st = (case m (us_host st) of
     (Err e, h) \<Rightarrow> (Ok None, st\<lparr>us_host := h\<rparr>) | (Ok x, h) \<Rightarrow> (Ok (Some x), st\<lparr>us_host := h\<rparr>))"

definition host_firewall_is_missing :: "up_world \<Rightarrow> network_info \<Rightarrow> bool up_step" where
  "host_firewall_is_missing w network =
     (if ni_subnet_v4 network = [] then step_return False
      else step_bind the_session (\<lambda>s.
        step_bind (found_state (firewall_status (uw_os w) (uw_run w) (host_firewall_spec s network) (root_path (prj_root (se_project s))))) (\<lambda>found.
        case found of
          None \<Rightarrow> step_return True
        | Some state \<Rightarrow> step_then (emit (FirewallFound (host_firewall_spec s network) state)) (step_return (state \<noteq> StateInstalled \<and> state \<noteq> StateUnsupported)))))"

definition ensure_host_firewall :: "up_world \<Rightarrow> network_info \<Rightarrow> unit up_step" where
  "ensure_host_firewall w network =
     step_bind (host_firewall_is_missing w network) (\<lambda>missing.
     if \<not> missing then step_return ()
     else step_bind the_session (\<lambda>s.
       let spec = host_firewall_spec s network in
       step_then (on_host (install_firewall (uw_os w) (uw_run w) spec (root_path (prj_root (se_project s))))) (emit (FirewallWritten spec))))"

definition ensure_host_dns :: "up_world \<Rightarrow> unit up_step" where
  "ensure_host_dns w =
     (if uw_os w \<noteq> Darwin then step_return ()
      else step_bind the_session (\<lambda>s.
        case uw_domain_known w of
          None \<Rightarrow> warn WarnDomain
        | Some known \<Rightarrow> if known then step_return ()
            else if uw_register w then emit (DomainRegistered (ov_domain (se_overrides s))) else warn WarnDomain))"

definition ensure_host_route :: "up_world \<Rightarrow> network_info \<Rightarrow> unit up_step" where
  "ensure_host_route w network =
     (if uw_os w \<noteq> Darwin \<or> ni_gateway network = [] then step_return ()
      else (case uw_route_known w of
          None \<Rightarrow> warn WarnRoute
        | Some known \<Rightarrow> if known then step_return ()
            else if uw_route_install w then emit (RouteInstalled (ni_gateway network)) else warn WarnRoute))"

section \<open>Ports, directories, image and profile\<close>

text \<open>The ports, and the block that is saved for them.\<close>

definition reserve_ports :: "up_world \<Rightarrow> project_record \<Rightarrow> port_mapping list option up_step" where
  "reserve_ports w record = step_bind the_session (\<lambda>s.
     let explicit = snd (resolve_ports (se_overrides s) (se_config s)) in
     step_bind (from_disk (\<lambda>d. resolve_session_ports (claimed_port_blocks (uw_json w) (prj_root (se_project s)) d) (uw_answers w) s)) (\<lambda>ports.
     step_then (step_when (ports = None \<and> \<not> explicit) (warn WarnPortsExhausted))
       (step_then (case ports of
            Some (first # _) \<Rightarrow> step_when (\<not> explicit \<and> pr_port_block record \<noteq> pm_host first)
                (change_record w (record\<lparr>pr_port_block := pm_host first\<rparr>))
          | _ \<Rightarrow> step_return ())
        (step_then (emit (PortsChosen ports)) (step_return ports)))))"

definition prepared_directories :: "session \<Rightarrow> string list \<Rightarrow> string list" where
  "prepared_directories s shadows =
     map (shadow_dir (se_project s)) shadows @ [empty_dir (se_project s)] @
     concat (map (\<lambda>i. map (host_path_for_guest_path s i) (mf_persist (manifest_of i))) (se_inmates s))"

definition prepare_directories :: "up_world \<Rightarrow> string list \<Rightarrow> unit up_step" where
  "prepare_directories w shadows = step_bind the_session (\<lambda>s.
     step_then (on_disk (with_unit (make_directories (prepared_directories s shadows) (uw_now w)))) (emit (DirectoriesMade (prepared_directories s shadows))))"

definition on_images :: "(image_store \<Rightarrow> (image_error, unit) result \<times> image_store) \<Rightarrow> unit up_step" where
  "on_images m st = (case m (us_images st) of (r, images) \<Rightarrow> (lift_error UpImage r, st\<lparr>us_images := images\<rparr>))"

definition ensure_image :: "up_world \<Rightarrow> string up_step" where
  "ensure_image w = step_bind the_session (\<lambda>s.
     if ov_image (se_overrides s) \<noteq> [] then step_return (ov_image (se_overrides s))
     else step_bind (pure_result UpImage (resolve_foundation (se_inmates s) (ov_foundation (se_overrides s)))) (\<lambda>foundation.
       let plan = new_plan (uw_sha w) (uw_base_image w) (se_inmates s) foundation (br_uid (uw_runner w)) in
       step_then (on_images (ensure_images (uw_images w) plan)) (step_return (pl_final plan))))"

definition held_credentials :: "(string \<Rightarrow> string option) \<Rightarrow> inmate \<Rightarrow> (string \<times> string) list" where
  "held_credentials environment i = (case mf_auth (manifest_of i) of None \<Rightarrow> []
     | Some au \<Rightarrow> List.map_filter (\<lambda>c. case environment (cd_variable c) of None \<Rightarrow> None
         | Some v \<Rightarrow> if v = [] then None else Some (cd_variable c, v)) (au_credentials au))"

definition push_profile :: "up_world \<Rightarrow> unit up_step" where
  "push_profile w = step_bind the_session (\<lambda>s.
     step_then (step_each (\<lambda>i. case mf_auth (manifest_of i) of None \<Rightarrow> step_return ()
         | Some au \<Rightarrow> step_when (held_credentials (uw_environment w) i = []) (warn (WarnNoCredential (im_name i) (map cd_variable (au_credentials au)))))
         (se_inmates s))
       (if \<not> uw_push w then step_fail PushFailed
        else emit (ProfilePushed (session_profile (uw_now w) s)
          (dedupe_by fst [] (concat (map (held_credentials (uw_environment w)) (se_inmates s)))))))"

definition report_required_secrets :: "unit up_step" where
  "report_required_secrets = step_bind the_session (\<lambda>s.
     case se_config s of None \<Rightarrow> step_return ()
     | Some pc \<Rightarrow>
         if pc_require pc = [] then step_return ()
         else step_bind (step_read (\<lambda>st. project_grants (se_project s) (us_disk st))) (\<lambda>granted.
           case granted of Err _ \<Rightarrow> step_return ()
           | Ok names \<Rightarrow> step_each (\<lambda>n. step_when (n \<notin> set names) (warn (WarnSecretMissing n))) (pc_require pc)))"

section \<open>The box\<close>

definition new_box_spec :: "up_world \<Rightarrow> string \<Rightarrow> port_mapping list \<Rightarrow> string list \<Rightarrow> bool \<Rightarrow> session \<Rightarrow> string \<Rightarrow> create_spec" where
  "new_box_spec w tag ports shadows sudo s token =
     (let new_shape = shape s tag ports shadows in
      \<lparr>cr_name = se_box_name s, cr_image = tag, cr_network = ov_network (se_overrides s), cr_cpus = bx_cpus new_shape,
       cr_memory = bx_memory new_shape, cr_mounts = mounts (uw_directory_exists w) s shadows, cr_ports = ports,
       cr_environment = creation_environment (uw_directory_exists w) s token sudo (persist_paths s),
       cr_capabilities = [''NET_ADMIN'', ''SYS_ADMIN''], cr_command = [''sleep'', ''infinity'']\<rparr>)"

text \<open>What is done for the box that the isolator knows.\<close>

definition create_or_start ::
  "up_world \<Rightarrow> string \<Rightarrow> port_mapping list \<Rightarrow> string list \<Rightarrow> bool \<Rightarrow> session \<Rightarrow> box_info \<Rightarrow> bool up_step" where
  "create_or_start w tag ports shadows sudo s box =
     (let new_shape = shape s tag ports shadows in
      if xi_exists box then
        step_then (if xi_running box then step_return ()
            else if uw_start w then emit (BoxStarted (se_box_name s)) else step_fail StartFailed)
          (step_then (step_each (\<lambda>drift. warn (WarnDrift drift))
              (describe_shape_drift (case se_record s of None \<Rightarrow> None | Some r \<Rightarrow> pr_box r) (Some new_shape)))
            (step_return False))
      else step_bind (on_disk (project_token (uw_random w) (uw_now w) (se_project s))) (\<lambda>token.
        let spec = new_box_spec w tag ports shadows sudo s token in
        if \<not> uw_create w spec then step_fail CreateFailed
        else step_then (emit (BoxCreated spec))
          (step_then (case se_record s of None \<Rightarrow> step_return () | Some r \<Rightarrow> change_record w (r\<lparr>pr_box := Some new_shape\<rparr>)) (step_return True))))"

definition create_or_start_box ::
  "up_world \<Rightarrow> string \<Rightarrow> port_mapping list \<Rightarrow> string list \<Rightarrow> bool \<Rightarrow> bool up_step" where
  "create_or_start_box w tag ports shadows sudo = step_bind the_session (\<lambda>s.
     case uw_box w of None \<Rightarrow> step_fail InspectFailed
     | Some box \<Rightarrow> create_or_start w tag ports shadows sudo s box)"

definition ask_to_listen :: "up_world \<Rightarrow> network_info \<Rightarrow> unit up_step" where
  "ask_to_listen w network =
     (if ni_gateway network = [] then step_return ()
      else step_then (emit (ListenAsked (ni_gateway network)))
        (case uw_listen w of
           None \<Rightarrow> warn WarnListen
         | Some None \<Rightarrow> step_return ()
         | Some (Some (bound, problem)) \<Rightarrow> step_when (\<not> bound) (warn (WarnNotListening problem))))"

definition publish_box_ports :: "up_world \<Rightarrow> port_mapping list \<Rightarrow> unit up_step" where
  "publish_box_ports w ports =
     (if uw_os w \<noteq> Linux \<or> ports = [] then step_return ()
      else step_bind the_session (\<lambda>s.
        case uw_box_after w of
          None \<Rightarrow> warn WarnNoAddress
        | Some box \<Rightarrow> if xi_address box = [] then warn WarnNoAddress
            else if uw_publish w then emit (PortsPublished (xi_address box) ports) else warn WarnPublish))"

definition run_host_operations :: "up_world \<Rightarrow> unit up_step" where
  "run_host_operations w = step_bind the_session (\<lambda>s.
     step_each (\<lambda>i. if mf_host_copy (manifest_of i) = [] \<and> mf_host_json (manifest_of i) = [] then step_return ()
        else if uw_host_operations w i then emit (HostOperationsRun (im_name i)) else warn (WarnHostOperations (im_name i)))
       (se_inmates s))"

definition run_box_commands :: "up_world \<Rightarrow> unit up_step" where
  "run_box_commands w = step_bind the_session (\<lambda>s.
     step_each (\<lambda>i. let line = trim_space (mf_box_command (manifest_of i)) in
       if line = [] then step_return () else emit (RanInBox [''bash'', ''-lc'', line] []))
       (se_inmates s))"

text \<open>The setup commands, until one fails; whether all succeeded.\<close>

fun run_setup_commands :: "up_world \<Rightarrow> session \<Rightarrow> string list \<Rightarrow> string list \<Rightarrow> bool up_step" where
  "run_setup_commands w s environment [] = step_return True"
| "run_setup_commands w s environment (line # ls) =
     step_then (emit (RanInBox [''bash'', ''-lc'', line] environment))
       (if run_shell (uw_runner w) s line environment = Some 0 then run_setup_commands w s environment ls
        else step_then (warn (WarnSetupFailed line)) (step_return False))"

definition run_setup :: "up_world \<Rightarrow> bool \<Rightarrow> unit up_step" where
  "run_setup w force = step_bind the_session (\<lambda>s.
     step_bind (pure_result UpExec (setup_commands (uw_runner w) (uw_decode_probe w) (uw_file_exists w) s)) (\<lambda>(commands, missing).
     step_then (step_each (\<lambda>c. warn (WarnSetupMissing c)) missing)
       (if commands = [] then step_return ()
        else let signature = setup_signature (uw_sha w) commands in
          if \<not> force \<and> map_option pr_setup_signature (se_record s) = Some signature then step_return ()
          else step_bind (pure_result UpSession (exec_environment (uw_codec w) (uw_regex w) (uw_host_files w) s None [] [])) (\<lambda>environment.
            step_bind (run_setup_commands w s environment commands) (\<lambda>all_done.
            case se_record s of
              Some r \<Rightarrow> step_when all_done (change_record w (r\<lparr>pr_setup_signature := signature\<rparr>))
            | None \<Rightarrow> step_return ())))))"

definition first_word :: "string \<Rightarrow> string" where
  "first_word line = (case Go_Prelude.fields line of [] \<Rightarrow> [] | word # _ \<Rightarrow> word)"

definition probe_inmate_commands :: "up_world \<Rightarrow> probe_result up_step" where
  "probe_inmate_commands w = step_bind the_session (\<lambda>s.
     let commands = filter (\<lambda>c. c \<noteq> []) (map (\<lambda>i. first_word (mf_run (manifest_of i))) (se_inmates s)) in
     if commands = [] then step_return \<lparr>pb_commands = [], pb_terminfo = False\<rparr>
     else step_then (emit (Probed commands)) (pure_result UpExec (probe (uw_runner w) (uw_decode_probe w) s commands [])))"

section \<open>Up\<close>

record up_result =
  ur_image :: string
  ur_ports :: "port_mapping list option"
  ur_network :: network_info
  ur_created :: bool
  ur_shadow :: "string list"
  ur_probe :: probe_result
  ur_unlocked :: bool

record up_prepared =
  up_tag :: string
  up_ports :: "port_mapping list option"
  up_network :: network_info
  up_shadow :: "string list"
  up_sudo :: bool
  up_unlocked :: bool

definition warn_untrusted :: "config_state \<Rightarrow> unit up_step" where
  "warn_untrusted cf = step_bind the_session (\<lambda>s.
     step_bind (step_read (\<lambda>st. warn_about_untrusted s cf (us_disk st))) (\<lambda>warning.
       case warning of None \<Rightarrow> step_return () | Some x \<Rightarrow> warn (WarnUntrusted x)))"

text \<open>All that comes before the box.\<close>

definition prepare_box :: "up_world \<Rightarrow> config_state \<Rightarrow> up_prepared up_step" where
  "prepare_box w cf =
     (if \<not> uw_isolator_ok w then step_fail IsolatorMissing
      else step_then (warn_untrusted cf) (
      step_bind (ensure_record w) (\<lambda>record.
      if \<not> uw_broker_ok w then step_fail BrokerFailed
      else step_bind (unlock_vault_if_needed w) (\<lambda>unlocked.
      step_bind (ensure_network w) (\<lambda>network.
      step_bind the_session (\<lambda>s.
      let sudo = resolve_sudo (se_overrides s) (se_config s) in
      step_then (ensure_host_dns w) (
      step_then (ensure_host_firewall w network) (
      step_then (step_when sudo (warn WarnSudo)) (
      step_bind (reserve_ports w record) (\<lambda>ports.
      step_bind (step_read (\<lambda>st. shadow_paths (uw_directory_exists w) (us_session st))) (\<lambda>shadows.
      step_then (prepare_directories w shadows) (
      step_bind (ensure_image w) (\<lambda>tag.
      step_bind (on_disk (project_token (uw_random w) (uw_now w) (se_project s))) (\<lambda>token.
      step_then (emit (TokenReady token)) (
      step_then (push_profile w) (
      step_then report_required_secrets (
        step_return \<lparr>up_tag = tag, up_ports = ports, up_network = network, up_shadow = shadows, up_sudo = sudo, up_unlocked = unlocked\<rparr>)))))))))))))))))"

definition chosen_ports :: "port_mapping list option \<Rightarrow> port_mapping list" where
  "chosen_ports ports = (case ports of None \<Rightarrow> [] | Some ps \<Rightarrow> ps)"

text \<open>All that comes after it.\<close>

definition finish_up :: "up_world \<Rightarrow> up_prepared \<Rightarrow> bool \<Rightarrow> up_result up_step" where
  "finish_up w prepared created =
     step_then (ask_to_listen w (up_network prepared)) (
     step_then (pure_result UpExec (wait_until_ready (uw_attempts w) 0 0 [])) (
     step_then (publish_box_ports w (chosen_ports (up_ports prepared))) (
     step_then (ensure_host_route w (up_network prepared)) (
     step_then (run_host_operations w) (
     step_then (run_box_commands w) (
     step_then (run_setup w False) (
     step_bind (probe_inmate_commands w) (\<lambda>found.
       step_return \<lparr>ur_image = up_tag prepared, ur_ports = up_ports prepared, ur_network = up_network prepared, ur_created = created,
         ur_shadow = up_shadow prepared, ur_probe = found, ur_unlocked = up_unlocked prepared\<rparr>))))))))"

definition up :: "up_world \<Rightarrow> config_state \<Rightarrow> up_result up_step" where
  "up w cf =
     step_bind (prepare_box w cf) (\<lambda>prepared.
     step_bind (create_or_start_box w (up_tag prepared) (chosen_ports (up_ports prepared)) (up_shadow prepared) (up_sudo prepared))
       (finish_up w prepared))"

section \<open>Steps that leave the box alone\<close>

fun box_event :: "up_event \<Rightarrow> bool" where
  "box_event (BoxStarted n) \<longleftrightarrow> True"
| "box_event (BoxCreated spec) \<longleftrightarrow> True"
| "box_event e \<longleftrightarrow> False"

text \<open>The trace grows by events that are not of the box, and of the session only the record can change.\<close>

definition grows :: "up_state \<Rightarrow> up_state \<Rightarrow> bool" where
  "grows st st' \<longleftrightarrow> (\<exists>es. us_trace st' = us_trace st @ es \<and> (\<forall>e\<in>set es. \<not> box_event e)) \<and>
     (\<exists>r. us_session st' = (us_session st)\<lparr>se_record := r\<rparr>)"

definition quiet :: "'a up_step \<Rightarrow> bool" where
  "quiet m \<longleftrightarrow> (\<forall>st. grows st (snd (m st)))"

named_theorems quiet_rules

lemma same_record: "\<exists>r. s = s\<lparr>se_record := r\<rparr>"
  by (rule exI [of _ "se_record s"]) simp

lemma grows_refl [simp]: "grows st st"
  by (auto simp: grows_def intro: exI [of _ "[]"] exI [of _ "se_record (us_session st)"])

lemma grows_trans: "grows a b \<Longrightarrow> grows b c \<Longrightarrow> grows a c"
  unfolding grows_def by (elim conjE exE) (auto intro: exI [of _ "es @ es'" for es es'])

lemma quietD: "quiet m \<Longrightarrow> m st = (r, st') \<Longrightarrow> grows st st'"
  unfolding quiet_def by (metis snd_conv)

lemma quiet_bind [quiet_rules]: "quiet m \<Longrightarrow> (\<And>x. quiet (f x)) \<Longrightarrow> quiet (step_bind m f)"
  unfolding quiet_def step_bind_def
  by (auto split: prod.split sum.split) (metis grows_trans snd_conv)+

lemma quiet_then [quiet_rules]: "quiet m \<Longrightarrow> quiet k \<Longrightarrow> quiet (step_then m k)"
  unfolding step_then_def by (rule quiet_bind)

lemma quiet_basic [quiet_rules]:
  "quiet (step_return x)" "quiet (step_fail e)" "quiet (step_read g)" "quiet (step_lift h)"
  by (simp_all add: quiet_def step_return_def step_fail_def step_read_def step_lift_def)

lemma quiet_when [quiet_rules]: "quiet m \<Longrightarrow> quiet (step_when c m)"
  by (simp add: step_when_def quiet_basic)

lemma quiet_each [quiet_rules]: "(\<And>x. quiet (f x)) \<Longrightarrow> quiet (step_each f xs)"
  by (induction xs) (auto intro: quiet_rules)

lemma quiet_if [quiet_rules]: "quiet m \<Longrightarrow> quiet n \<Longrightarrow> quiet (if c then m else n)"
  by simp

lemma quiet_cases [quiet_rules]:
  "quiet a \<Longrightarrow> (\<And>x. quiet (b x)) \<Longrightarrow> quiet (case opt of None \<Rightarrow> a | Some x \<Rightarrow> b x)"
  "quiet a \<Longrightarrow> (\<And>x xs. quiet (c x xs)) \<Longrightarrow> quiet (case ls of [] \<Rightarrow> a | x # xs \<Rightarrow> c x xs)"
  "(\<And>x y. quiet (d x y)) \<Longrightarrow> quiet (case pair of (x, y) \<Rightarrow> d x y)"
  "(\<And>e. quiet (g e)) \<Longrightarrow> (\<And>x. quiet (b x)) \<Longrightarrow> quiet (case res of Err e \<Rightarrow> g e | Ok x \<Rightarrow> b x)"
  by (simp_all split: option.split list.split prod.split sum.split)

lemma quiet_emit: "\<not> box_event e \<Longrightarrow> quiet (emit e)"
  by (auto simp: quiet_def emit_def step_change_def grows_def intro: same_record)

lemma quiet_effects [quiet_rules]:
  "quiet (warn x)" "quiet the_session" "quiet (on_disk f)" "quiet (from_disk g)" "quiet (on_host h)" "quiet (on_images k)"
  "quiet (pure_result l res)" "quiet (found_state m)" "quiet (step_change (set_record r))"
proof -
  have same: "grows st (st\<lparr>us_disk := d\<rparr>)" "grows st (st\<lparr>us_host := h\<rparr>)" "grows st (st\<lparr>us_images := i\<rparr>)" for st d h i
    by (auto simp: grows_def intro: exI [of _ "se_record (us_session st)"])
  show "quiet (warn x)" by (simp add: warn_def quiet_emit)
  show "quiet the_session" "quiet (from_disk g)" "quiet (pure_result l res)" by (simp_all add: the_session_def from_disk_def pure_result_def quiet_basic)
  show "quiet (on_disk f)" using same by (auto simp: quiet_def on_disk_def split: sum.split prod.split)
  show "quiet (on_host h)" using same by (auto simp: quiet_def on_host_def split: sum.split prod.split)
  show "quiet (on_images k)" using same by (auto simp: quiet_def on_images_def split: prod.split)
  show "quiet (found_state m)" using same by (auto simp: quiet_def found_state_def split: sum.split prod.split)
  show "quiet (step_change (set_record r))" by (auto simp: quiet_def step_change_def set_record_def grows_def)
qed

lemma quiet_record [quiet_rules]: "quiet (save_up_record w r)" "quiet (change_record w r)" "quiet (ensure_record w)"
  by (auto simp: save_up_record_def change_record_def ensure_record_def Let_def intro!: quiet_rules quiet_emit)

lemma quiet_before [quiet_rules]:
  "quiet (unlock_vault_if_needed w)" "quiet (ensure_network w)" "quiet (host_firewall_is_missing w n)" "quiet (ensure_host_firewall w n)"
  "quiet (ensure_host_dns w)" "quiet (reserve_ports w r)" "quiet (prepare_directories w ss)" "quiet (ensure_image w)" "quiet (push_profile w)"
  "quiet report_required_secrets" "quiet (warn_untrusted cf)"
proof -
  show "quiet (unlock_vault_if_needed w)" unfolding unlock_vault_if_needed_def by (intro quiet_rules quiet_emit) simp_all
  show "quiet (ensure_network w)" unfolding ensure_network_def by (intro quiet_rules quiet_emit) simp_all
  show m: "quiet (host_firewall_is_missing w n)" for n unfolding host_firewall_is_missing_def by (intro quiet_rules quiet_emit) simp_all
  show "quiet (ensure_host_firewall w n)" unfolding ensure_host_firewall_def Let_def by (intro quiet_rules m quiet_emit) simp_all
  show "quiet (ensure_host_dns w)" unfolding ensure_host_dns_def by (intro quiet_rules quiet_emit) simp_all
  show "quiet (reserve_ports w r)" unfolding reserve_ports_def Let_def by (intro quiet_rules quiet_emit) simp_all
  show "quiet (prepare_directories w ss)" unfolding prepare_directories_def by (intro quiet_rules quiet_emit) simp_all
  show "quiet (ensure_image w)" unfolding ensure_image_def Let_def by (intro quiet_rules)
  show "quiet (push_profile w)" unfolding push_profile_def by (intro quiet_rules quiet_emit) simp_all
  show "quiet report_required_secrets" unfolding report_required_secrets_def by (intro quiet_rules)
  show "quiet (warn_untrusted cf)" unfolding warn_untrusted_def by (intro quiet_rules)
qed

lemma quiet_setup_commands [quiet_rules]: "quiet (run_setup_commands w s environment ls)"
  by (induction ls) (auto intro!: quiet_rules quiet_emit)

lemma quiet_after [quiet_rules]: "quiet (run_setup w force)" "quiet (probe_inmate_commands w)" "quiet (finish_up w prepared created)"
proof -
  show s: "quiet (run_setup w force)" for force unfolding run_setup_def Let_def by (intro quiet_rules)
  show p: "quiet (probe_inmate_commands w)" unfolding probe_inmate_commands_def Let_def by (intro quiet_rules quiet_emit) simp_all
  have "quiet (ask_to_listen w n)" "quiet (publish_box_ports w ps)" "quiet (ensure_host_route w n)" "quiet (run_host_operations w)" "quiet (run_box_commands w)" for n ps
    unfolding ask_to_listen_def publish_box_ports_def ensure_host_route_def run_host_operations_def run_box_commands_def Let_def
    by (intro quiet_rules quiet_emit; simp)+
  then show "quiet (finish_up w prepared created)" unfolding finish_up_def by (intro quiet_rules s p)
qed

section \<open>The box starts guarded\<close>

lemma step_bind_Ok: "step_bind m f st = (Ok y, st') \<longleftrightarrow> (\<exists>x st1. m st = (Ok x, st1) \<and> f x st1 = (Ok y, st'))"
  by (auto simp: step_bind_def split: prod.splits sum.splits)

lemma step_then_Ok: "step_then m k st = (Ok y, st') \<longleftrightarrow> (\<exists>x st1. m st = (Ok x, st1) \<and> k st1 = (Ok y, st'))"
  by (simp add: step_then_def step_bind_Ok)

lemma basic_Ok [simp]:
  "step_return x st = (Ok y, st') \<longleftrightarrow> x = y \<and> st = st'" "\<not> step_fail e st = (Ok y, st')"
  "step_read g st = (Ok y, st') \<longleftrightarrow> y = g st \<and> st = st'" "the_session st = (Ok s, st') \<longleftrightarrow> s = us_session st \<and> st = st'"
  "emit ev st = (Ok u, st') \<longleftrightarrow> st' = st\<lparr>us_trace := us_trace st @ [ev]\<rparr>"
  by (auto simp: step_return_def step_fail_def step_read_def the_session_def emit_def step_change_def)

text \<open>The network of the session is host-only, and the firewall for its subnet and the port of the broker was found or written, unless the network has
  no IPv4 subnet or the system no firewall.\<close>

definition network_guarded :: "session \<Rightarrow> network_info \<Rightarrow> up_event list \<Rightarrow> bool" where
  "network_guarded s network before \<longleftrightarrow> NetworkReady (ov_network (se_overrides s)) network \<in> set before \<and> ni_host_only network \<and>
     (ni_subnet_v4 network = [] \<or> FirewallFound (host_firewall_spec s network) StateInstalled \<in> set before \<or>
      FirewallFound (host_firewall_spec s network) StateUnsupported \<in> set before \<or> FirewallWritten (host_firewall_spec s network) \<in> set before)"

text \<open>What has been done before a box is created or started.\<close>

definition box_guarded :: "up_world \<Rightarrow> session \<Rightarrow> up_event list \<Rightarrow> bool" where
  "box_guarded w s before \<longleftrightarrow> (\<exists>network. network_guarded s network before) \<and> (\<exists>token. TokenReady token \<in> set before) \<and>
     (\<exists>credentials. ProfilePushed (session_profile (uw_now w) s) credentials \<in> set before) \<and>
     DirectoriesMade (prepared_directories s (shadow_paths (uw_directory_exists w) s)) \<in> set before"

text \<open>The ports are none, or named by the user, or the block that was saved for the project.\<close>


definition ports_reserved :: "session \<Rightarrow> port_mapping list \<Rightarrow> up_event list \<Rightarrow> bool" where
  "ports_reserved s ports before \<longleftrightarrow>
     ports = [] \<or> snd (resolve_ports (se_overrides s) (se_config s)) \<or> (\<exists>r. RecordSaved r \<in> set before \<and> pr_port_block r = pm_host (hd ports))"

lemma grows_event: "grows st st' \<Longrightarrow> e \<in> set (us_trace st) \<Longrightarrow> e \<in> set (us_trace st')"
  by (auto simp: grows_def)

lemma ensure_network_Ok:
  "ensure_network w st = (Ok network, st') \<Longrightarrow>
     NetworkReady (ov_network (se_overrides (us_session st))) network \<in> set (us_trace st') \<and> ni_host_only network"
  by (auto simp: ensure_network_def step_then_Ok step_bind_Ok split: if_splits option.splits)

lemma ensure_firewall_Ok:
  assumes "ensure_host_firewall w network st = (Ok u, st')"
  shows "ni_subnet_v4 network = [] \<or> (\<exists>state\<in>{StateInstalled, StateUnsupported}. FirewallFound (host_firewall_spec (us_session st) network) state \<in> set (us_trace st')) \<or>
      FirewallWritten (host_firewall_spec (us_session st) network) \<in> set (us_trace st')"
proof -
  obtain missing st1 where m: "host_firewall_is_missing w network st = (Ok missing, st1)"
    "(if \<not> missing then step_return () else step_bind the_session (\<lambda>s. let spec = host_firewall_spec s network in
       step_then (on_host (install_firewall (uw_os w) (uw_run w) spec (root_path (prj_root (se_project s))))) (emit (FirewallWritten spec)))) st1 = (Ok u, st')"
    using assms by (auto simp: ensure_host_firewall_def step_bind_Ok)
  show ?thesis
  proof (cases missing)
    case True
    have "host_firewall_spec (us_session st1) network = host_firewall_spec (us_session st) network"
      using quietD [OF quiet_before(3) m(1)] by (auto simp: grows_def host_firewall_spec_def)
    then show ?thesis using m(2) True by (auto simp: step_bind_Ok step_then_Ok Let_def on_host_def split: prod.splits sum.splits)
  next
    case False
    then have "st1 = st'" using m(2) by simp
    then show ?thesis using m(1) False
      by (auto simp: host_firewall_is_missing_def step_bind_Ok step_then_Ok found_state_def split: if_splits option.splits prod.splits sum.splits)
  qed
qed

lemma save_up_record_Ok: "save_up_record w r st = (Ok u, st') \<Longrightarrow> RecordSaved r \<in> set (us_trace st')"
  by (auto simp: save_up_record_def step_bind_Ok step_then_Ok)

lemma change_record_Ok: "change_record w r st = (Ok u, st') \<Longrightarrow> RecordSaved r \<in> set (us_trace st')"
  by (auto simp: change_record_def step_then_Ok dest: save_up_record_Ok)

lemma ensure_record_Ok: "ensure_record w st = (Ok r, st') \<Longrightarrow> RecordSaved r \<in> set (us_trace st')"
  by (auto simp: ensure_record_def step_bind_Ok step_then_Ok Let_def step_change_def set_record_def dest: save_up_record_Ok)

lemma reserve_ports_Ok:
  assumes "reserve_ports w record st = (Ok ports, st')" "RecordSaved record \<in> set (us_trace st)"
  shows "PortsChosen ports \<in> set (us_trace st') \<and> ports_reserved (us_session st) (chosen_ports ports) (us_trace st')"
proof -
  let ?explicit = "snd (resolve_ports (se_overrides (us_session st)) (se_config (us_session st)))"
  let ?look = "from_disk (\<lambda>d. resolve_session_ports (claimed_port_blocks (uw_json w) (prj_root (se_project (us_session st))) d) (uw_answers w) (us_session st))"
  let ?save = "case ports of Some (first # _) \<Rightarrow> step_when (\<not> ?explicit \<and> pr_port_block record \<noteq> pm_host first)
      (change_record w (record\<lparr>pr_port_block := pm_host first\<rparr>)) | _ \<Rightarrow> step_return ()"
  obtain st0 st1 st2 u v where m: "?look st = (Ok ports, st0)" "step_when (ports = None \<and> \<not> ?explicit) (warn WarnPortsExhausted) st0 = (Ok v, st1)"
    "?save st1 = (Ok u, st2)" "st' = st2\<lparr>us_trace := us_trace st2 @ [PortsChosen ports]\<rparr>"
    using assms(1) unfolding reserve_ports_def Let_def step_bind_Ok step_then_Ok basic_Ok by blast
  have "grows st st0" by (rule quietD [of ?look, OF _ m(1)]) (intro quiet_rules)
  moreover have "grows st0 st1" by (rule quietD [of "step_when (ports = None \<and> \<not> ?explicit) (warn WarnPortsExhausted)", OF _ m(2)]) (intro quiet_rules)
  ultimately have s: "grows st st1" by (rule grows_trans)
  have "ports_reserved (us_session st) (chosen_ports ports) (us_trace st2)"
  proof (cases "ports = None \<or> ports = Some [] \<or> ?explicit")
    case True
    then show ?thesis by (auto simp: ports_reserved_def chosen_ports_def)
  next
    case False
    then obtain ps0 where "ports = Some ps0" "ps0 \<noteq> []" by (cases ports) auto
    then obtain first ps where p: "ports = Some (first # ps)" by (cases ps0) auto
    show ?thesis
    proof (cases "pr_port_block record = pm_host first")
      case True
      then have "RecordSaved record \<in> set (us_trace st2)" using grows_event [OF s assms(2)] m(3) p by (simp add: step_when_def)
      then show ?thesis using True p by (auto simp: ports_reserved_def chosen_ports_def)
    next
      case block: False
      then have "RecordSaved (record\<lparr>pr_port_block := pm_host first\<rparr>) \<in> set (us_trace st2)"
        using m(3) p False block change_record_Ok by (simp add: step_when_def)
      then show ?thesis using p by (auto simp: ports_reserved_def chosen_ports_def intro!: exI [of _ "record\<lparr>pr_port_block := pm_host first\<rparr>"])
    qed
  qed
  then show ?thesis using m(4) by (auto simp: ports_reserved_def)
qed

text \<open>What does not look at the record of the session.\<close>

lemma record_free [simp]:
  "host_firewall_spec (s\<lparr>se_record := x\<rparr>) n = host_firewall_spec s n"
  "shadow_paths exists_dir (s\<lparr>se_record := x\<rparr>) = shadow_paths exists_dir s"
  "prepared_directories (s\<lparr>se_record := x\<rparr>) shadows = prepared_directories s shadows"
  "session_profile now (s\<lparr>se_record := x\<rparr>) = session_profile now s"
  "network_guarded (s\<lparr>se_record := x\<rparr>) = network_guarded s"
  "box_guarded w (s\<lparr>se_record := x\<rparr>) = box_guarded w s"
  "ports_reserved (s\<lparr>se_record := x\<rparr>) = ports_reserved s"
proof -
  show a: "host_firewall_spec (s\<lparr>se_record := x\<rparr>) n = host_firewall_spec s n" for n by (simp add: host_firewall_spec_def)
  show b: "shadow_paths exists_dir (s\<lparr>se_record := x\<rparr>) = shadow_paths exists_dir s" for exists_dir by (simp add: shadow_paths_def)
  have "host_path_for_guest_path (s\<lparr>se_record := x\<rparr>) = host_path_for_guest_path s" by (simp add: fun_eq_iff host_path_for_guest_path_def)
  then show c: "prepared_directories (s\<lparr>se_record := x\<rparr>) shadows = prepared_directories s shadows" for shadows by (simp add: prepared_directories_def)
  show d: "session_profile now (s\<lparr>se_record := x\<rparr>) = session_profile now s" for now by (simp add: session_profile_def)
  show e: "network_guarded (s\<lparr>se_record := x\<rparr>) = network_guarded s" by (simp add: fun_eq_iff network_guarded_def a)
  show "box_guarded w (s\<lparr>se_record := x\<rparr>) = box_guarded w s" by (simp add: fun_eq_iff box_guarded_def b c d e)
  show "ports_reserved (s\<lparr>se_record := x\<rparr>) = ports_reserved s" by (simp add: fun_eq_iff ports_reserved_def)
qed

lemma grows_session:
  assumes "grows a b"
  obtains x where "us_session b = (us_session a)\<lparr>se_record := x\<rparr>"
  using assms unfolding grows_def by blast

lemma grows_facts:
  assumes "grows a b"
  shows "network_guarded s network (us_trace a) \<Longrightarrow> network_guarded s network (us_trace b)"
    and "ports_reserved s ports (us_trace a) \<Longrightarrow> ports_reserved s ports (us_trace b)"
  using assms unfolding network_guarded_def ports_reserved_def grows_def by auto

lemma push_profile_Ok:
  "push_profile w st = (Ok u, st') \<Longrightarrow> \<exists>credentials. ProfilePushed (session_profile (uw_now w) (us_session st)) credentials \<in> set (us_trace st')"
  by (fastforce simp: push_profile_def step_bind_Ok step_then_Ok split: if_splits)

lemma prepare_directories_Ok:
  "prepare_directories w shadows st = (Ok u, st') \<Longrightarrow> DirectoriesMade (prepared_directories (us_session st) shadows) \<in> set (us_trace st')"
  by (auto simp: prepare_directories_def step_bind_Ok step_then_Ok)

lemma prepare_box_Ok:
  assumes "prepare_box w cf st = (Ok prepared, st')"
  shows "grows st st' \<and> box_guarded w (us_session st') (us_trace st') \<and> PortsChosen (up_ports prepared) \<in> set (us_trace st') \<and>
    ports_reserved (us_session st') (chosen_ports (up_ports prepared)) (us_trace st')"
proof -
  obtain sa sb sc sd se sf sg sh si sj sk sl saved unlocked network ports tag token u1 u2 u3 u4 u5 u6 u7
    where m: "warn_untrusted cf st = (Ok u1, sa)" "ensure_record w sa = (Ok saved, sb)" "unlock_vault_if_needed w sb = (Ok unlocked, sc)"
      "ensure_network w sc = (Ok network, sd)" "ensure_host_dns w sd = (Ok u2, se)" "ensure_host_firewall w network se = (Ok u3, sf)"
      "step_when (resolve_sudo (se_overrides (us_session sd)) (se_config (us_session sd))) (warn WarnSudo) sf = (Ok u4, sg)"
      "reserve_ports w saved sg = (Ok ports, sh)"
      "prepare_directories w (shadow_paths (uw_directory_exists w) (us_session sh)) sh = (Ok u5, si)" "ensure_image w si = (Ok tag, sj)"
      "on_disk (project_token (uw_random w) (uw_now w) (se_project (us_session sd))) sj = (Ok token, sk)"
      "push_profile w (sk\<lparr>us_trace := us_trace sk @ [TokenReady token]\<rparr>) = (Ok u6, sl)" "report_required_secrets sl = (Ok u7, st')"
      "up_ports prepared = ports"
    using assms unfolding prepare_box_def Let_def by (auto simp: step_bind_Ok step_then_Ok split: if_splits)
  note q = quietD [OF quiet_before(11) m(1)] quietD [OF quiet_record(3) m(2)] quietD [OF quiet_before(1) m(3)] quietD [OF quiet_before(2) m(4)]
    quietD [OF quiet_before(5) m(5)] quietD [OF quiet_before(4) m(6)] quietD [OF quiet_when [OF quiet_effects(1)] m(7)] quietD [OF quiet_before(6) m(8)]
    quietD [OF quiet_before(7) m(9)] quietD [OF quiet_before(8) m(10)] quietD [OF quiet_effects(3) m(11)]
  have qt: "grows sk (sk\<lparr>us_trace := us_trace sk @ [TokenReady token]\<rparr>)"
    using quiet_emit [of "TokenReady token"] by (simp add: quiet_def emit_def step_change_def)
  have ql: "grows (sk\<lparr>us_trace := us_trace sk @ [TokenReady token]\<rparr>) sl" by (rule quietD [OF quiet_before(9) m(12)])
  have qe: "grows sl st'" by (rule quietD [OF quiet_before(10) m(13)])
  note sk_end = grows_trans [OF qt grows_trans [OF ql qe]]
  note si_end = grows_trans [OF q(10) grows_trans [OF q(11) sk_end]]
  note sh_end = grows_trans [OF q(9) si_end]
  note sg_end = grows_trans [OF q(8) sh_end]
  note sf_end = grows_trans [OF q(7) sg_end]
  note se_end = grows_trans [OF q(6) sf_end]
  note sc_end = grows_trans [OF q(4) grows_trans [OF q(5) se_end]]
  have all: "grows st st'" by (rule grows_trans [OF q(1) grows_trans [OF q(2) grows_trans [OF q(3) sc_end]]])
  have saved: "RecordSaved saved \<in> set (us_trace sg)"
    using grows_event [OF grows_trans [OF q(3) grows_trans [OF q(4) grows_trans [OF q(5) grows_trans [OF q(6) q(7)]]]]] ensure_record_Ok [OF m(2)] by blast
  obtain x where x: "us_session st' = (us_session sg)\<lparr>se_record := x\<rparr>" by (rule grows_session [OF sg_end])
  have r: "PortsChosen ports \<in> set (us_trace sh)" "ports_reserved (us_session sg) (chosen_ports ports) (us_trace sh)"
    using reserve_ports_Ok [OF m(8) saved] by simp_all
  then have ports: "PortsChosen ports \<in> set (us_trace st')" "ports_reserved (us_session st') (chosen_ports ports) (us_trace st')"
    using grows_event [OF sh_end] grows_facts(2) [OF sh_end] by (simp_all add: x)
  obtain y where y: "us_session st' = (us_session sc)\<lparr>se_record := y\<rparr>" by (rule grows_session [OF sc_end])
  obtain z where z: "us_session st' = (us_session se)\<lparr>se_record := z\<rparr>" by (rule grows_session [OF se_end])
  have "NetworkReady (ov_network (se_overrides (us_session st'))) network \<in> set (us_trace sf) \<and> ni_host_only network"
    using grows_event [OF grows_trans [OF q(5) q(6)]] ensure_network_Ok [OF m(4)] by (simp add: y)
  then have "network_guarded (us_session st') network (us_trace sf)" using ensure_firewall_Ok [OF m(6)] by (auto simp: network_guarded_def z)
  then have "network_guarded (us_session st') network (us_trace st')" by (rule grows_facts(1) [OF sf_end])
  moreover have "DirectoriesMade (prepared_directories (us_session st') (shadow_paths (uw_directory_exists w) (us_session st'))) \<in> set (us_trace st')"
  proof -
    obtain h where "us_session st' = (us_session sh)\<lparr>se_record := h\<rparr>" by (rule grows_session [OF sh_end])
    then show ?thesis using grows_event [OF si_end prepare_directories_Ok [OF m(9)]] by simp
  qed
  moreover have "TokenReady token \<in> set (us_trace st')" using grows_event [OF grows_trans [OF ql qe], of "TokenReady token"] by simp
  moreover have "\<exists>credentials. ProfilePushed (session_profile (uw_now w) (us_session st')) credentials \<in> set (us_trace st')"
  proof -
    obtain k where "us_session st' = (us_session sk)\<lparr>se_record := k\<rparr>" by (rule grows_session [OF sk_end])
    then show ?thesis using push_profile_Ok [OF m(12)] grows_event [OF qe] by auto
  qed
  ultimately show ?thesis using all ports m(14) unfolding box_guarded_def by blast
qed

text \<open>The box that is created or started is that of the session; one that is created has the ports and the network of the session. A box
  that exists keeps the network with which it was created: \<open>prison up\<close> only warns when that is another one.\<close>

definition box_of_session :: "session \<Rightarrow> port_mapping list \<Rightarrow> up_event \<Rightarrow> bool" where
  "box_of_session s ports event \<longleftrightarrow>
     (case event of
        BoxCreated spec \<Rightarrow> cr_name spec = se_box_name s \<and> cr_network spec = ov_network (se_overrides s) \<and> cr_ports spec = ports
      | BoxStarted name \<Rightarrow> name = se_box_name s
      | _ \<Rightarrow> True)"

lemma box_of_session_record [simp]: "box_of_session (s\<lparr>se_record := x\<rparr>) = box_of_session s"
  by (auto simp: fun_eq_iff box_of_session_def split: up_event.split)

text \<open>The only event of the box that the step for the box adds.\<close>

lemma create_or_start_events:
  assumes "create_or_start_box w tag ports shadows sudo st = (r, st')"
  shows "\<exists>es. us_trace st' = us_trace st @ es \<and>
    (\<forall>before e after. es = before @ e # after \<longrightarrow> box_event e \<longrightarrow> before = [] \<and> box_of_session (us_session st) ports e) \<and>
    (\<exists>rec. us_session st' = (us_session st)\<lparr>se_record := rec\<rparr>)"
proof -
  have growth: ?thesis if "grows st st'"
    using that unfolding grows_def by (metis in_set_conv_decomp)
  have after: ?thesis if e: "step_then (emit ev) k st1 = (r, st')" "quiet k" "us_trace st1 = us_trace st"
      "us_session st1 = us_session st" "box_of_session (us_session st) ports ev" for ev and k :: "bool up_step" and st1
  proof -
    have "k (st1\<lparr>us_trace := us_trace st1 @ [ev]\<rparr>) = (r, st')" using e(1) by (simp add: step_then_def step_bind_def emit_def step_change_def)
    from quietD [of k, OF e(2) this] obtain es r' where g: "us_trace st' = us_trace st @ ev # es" "\<forall>x\<in>set es. \<not> box_event x"
      "us_session st' = (us_session st)\<lparr>se_record := r'\<rparr>"
      using e(3,4) by (auto simp: grows_def)
    have "before = [] \<and> box_of_session (us_session st) ports x" if "ev # es = before @ x # later" "box_event x" for before x later
      using that g(2) e(5) by (cases before) auto
    then show ?thesis using g by (intro exI [of _ "ev # es"]) blast
  qed
  let ?s = "us_session st"
  let ?shape = "shape ?s tag ports shadows"
  have open_def: "create_or_start_box w tag ports shadows sudo st =
      (case uw_box w of None \<Rightarrow> step_fail InspectFailed st | Some box \<Rightarrow> create_or_start w tag ports shadows sudo ?s box st)"
    by (simp add: create_or_start_box_def step_bind_def the_session_def step_read_def split: option.split)
  show ?thesis
  proof (cases "uw_box w")
    case None
    then show ?thesis using assms growth open_def by (simp add: step_fail_def)
  next
    case (Some box)
    then have m: "create_or_start w tag ports shadows sudo ?s box st = (r, st')" using assms open_def by simp
    show ?thesis
    proof (cases "xi_exists box")
      case True
      define k :: "bool up_step" where "k = step_then (step_each (\<lambda>drift. warn (WarnDrift drift))
          (describe_shape_drift (case se_record ?s of None \<Rightarrow> None | Some r \<Rightarrow> pr_box r) (Some ?shape))) (step_return False)"
      have q: "quiet k" unfolding k_def by (intro quiet_rules)
      have c: "step_then (if xi_running box then step_return () else if uw_start w then emit (BoxStarted (se_box_name ?s)) else step_fail StartFailed) k st = (r, st')"
        using m True by (simp add: create_or_start_def Let_def k_def)
      show ?thesis
      proof (cases "\<not> xi_running box \<and> uw_start w")
        case True
        then show ?thesis using after [OF _ q, of "BoxStarted (se_box_name ?s)" st] c by (simp add: box_of_session_def)
      next
        case False
        then have "quiet (if xi_running box then step_return () else if uw_start w then emit (BoxStarted (se_box_name ?s)) else step_fail StartFailed)"
          by (auto intro: quiet_rules)
        from quietD [OF quiet_then [OF this q] c] show ?thesis by (rule growth)
      qed
    next
      case False
      show ?thesis
      proof (cases "project_token (uw_random w) (uw_now w) (se_project ?s) (us_disk st)")
        case (Inl e)
        then show ?thesis using m False growth by (simp add: create_or_start_def Let_def step_bind_def on_disk_def)
      next
        case (Inr p)
        obtain token d where p: "p = (token, d)" by (cases p)
        let ?spec = "new_box_spec w tag ports shadows sudo ?s token"
        define k :: "bool up_step" where "k = step_then (case se_record ?s of None \<Rightarrow> step_return () | Some r \<Rightarrow> change_record w (r\<lparr>pr_box := Some ?shape\<rparr>)) (step_return True)"
        have q: "quiet k" unfolding k_def by (intro quiet_rules)
        have c: "(if \<not> uw_create w ?spec then step_fail CreateFailed else step_then (emit (BoxCreated ?spec)) k) (st\<lparr>us_disk := d\<rparr>) = (r, st')"
          using m False Inr p by (simp add: create_or_start_def Let_def step_bind_def on_disk_def k_def split: if_splits)
        show ?thesis
        proof (cases "uw_create w ?spec")
          case True
          have "box_of_session ?s ports (BoxCreated ?spec)" by (simp add: box_of_session_def new_box_spec_def Let_def)
          then show ?thesis using after [OF _ q, of "BoxCreated ?spec" "st\<lparr>us_disk := d\<rparr>"] c True by simp
        next
          case False
          then have "st' = st\<lparr>us_disk := d\<rparr>" using c by (simp add: step_fail_def)
          then have "grows st st'" using same_record by (auto simp: grows_def)
          then show ?thesis by (rule growth)
        qed
      qed
    qed
  qed
qed

lemma prepare_box_quiet: "prepare_box w cf st = (Err e, st') \<Longrightarrow> grows st st'"
proof (rule quietD)
  show "quiet (prepare_box w cf)" unfolding prepare_box_def Let_def by (intro quiet_rules quiet_emit) simp_all
qed

lemma split_before:
  "es @ later = before @ e # after \<Longrightarrow> e \<notin> set later \<Longrightarrow> \<exists>post. es = before @ e # post"
proof (induction es arbitrary: before)
  case Nil
  then show ?case by (metis append_Nil in_set_conv_decomp)
next
  case (Cons x es)
  then show ?case by (cases before) auto
qed

lemma split_event:
  "first @ es @ later = before @ e # after \<Longrightarrow> e \<notin> set first \<Longrightarrow> e \<notin> set later \<Longrightarrow> \<exists>pre post. es = pre @ e # post \<and> before = first @ pre"
proof (induction first arbitrary: before)
  case Nil
  then show ?case using split_before by simp
next
  case (Cons x first)
  then show ?case by (cases before) auto
qed

text \<open>C3. \<open>prison up\<close> creates or starts a box only behind its guards. Before that event, the network of the session was found to be host-only and
  the host firewall for its subnet and the port of the broker was found or written (unless the network has no IPv4 subnet or the system no
  firewall), the directories and the token of the project were there, the profile of the session was pushed to the broker, and the
  ports were chosen: none, those that the user named, or the block that was saved for the project. The box is the one of the session, and one that is created
  has this network and these ports.\<close>

theorem box_starts_guarded:
  assumes "up w cf st = (r, st')" "us_trace st = []" "us_trace st' = before @ event # after" "box_event event"
  shows "box_guarded w (us_session st') before \<and>
    (\<exists>ports. PortsChosen ports \<in> set before \<and> ports_reserved (us_session st') (chosen_ports ports) before \<and>
       box_of_session (us_session st') (chosen_ports ports) event)"
proof (cases "prepare_box w cf st")
  case (Pair r1 st1)
  show ?thesis
  proof (cases r1)
    case (Inl e)
    then have "up w cf st = (Err e, st1)" using Pair by (simp add: up_def step_bind_def)
    then have "grows st st'" using assms(1) prepare_box_quiet Pair Inl by auto
    then show ?thesis using assms(2-4) by (auto simp: grows_def)
  next
    case (Inr prepared)
    let ?ports = "chosen_ports (up_ports prepared)"
    note p = prepare_box_Ok [OF Pair [unfolded Inr]]
    obtain r2 st2 where c: "create_or_start_box w (up_tag prepared) ?ports (up_shadow prepared) (up_sudo prepared) st1 = (r2, st2)" by (metis surj_pair)
    obtain es rec where es: "us_trace st2 = us_trace st1 @ es" "us_session st2 = (us_session st1)\<lparr>se_record := rec\<rparr>"
      "\<forall>before e after. es = before @ e # after \<longrightarrow> box_event e \<longrightarrow> before = [] \<and> box_of_session (us_session st1) ?ports e"
      using create_or_start_events [OF c] by blast
    have "grows st2 st'"
    proof (cases r2)
      case (Inl e)
      then show ?thesis using assms(1) Pair Inr c by (simp add: up_def step_bind_def)
    next
      case created: (Inr created)
      then have "finish_up w prepared created st2 = (r, st')" using assms(1) Pair Inr c by (simp add: up_def step_bind_def)
      then show ?thesis by (rule quietD [OF quiet_after(3)])
    qed
    then obtain later rec' where later: "us_trace st' = us_trace st1 @ es @ later" "\<forall>e\<in>set later. \<not> box_event e"
      "us_session st' = (us_session st2)\<lparr>se_record := rec'\<rparr>" using es(1) by (auto simp: grows_def)
    have quiet1: "\<forall>e\<in>set (us_trace st1). \<not> box_event e" using p assms(2) by (auto simp: grows_def)
    have n: "event \<notin> set (us_trace st1)" "event \<notin> set later" using quiet1 later(2) assms(4) by blast+
    have "us_trace st1 @ es @ later = before @ event # after" using later(1) assms(3) by simp
    from split_event [OF this n] obtain pre post where s: "es = pre @ event # post" "before = us_trace st1 @ pre" by blast
    have "pre = [] \<and> box_of_session (us_session st1) ?ports event" using es(3) s(1) assms(4) by blast
    then have "before = us_trace st1" "box_of_session (us_session st') ?ports event" using s(2) es(2) later(3) by simp_all
    moreover have "ports_reserved (us_session st') ?ports (us_trace st1)" "box_guarded w (us_session st') (us_trace st1)"
      using p es(2) later(3) by simp_all
    ultimately show ?thesis using p by blast
  qed
qed

section \<open>When setup commands run\<close>

definition setup_ok :: "up_world \<Rightarrow> session \<Rightarrow> string list \<Rightarrow> string \<Rightarrow> bool" where
  "setup_ok w s environment line \<longleftrightarrow> run_shell (uw_runner w) s line environment = Some 0"

text \<open>The commands that ran in the box, with their environments.\<close>

definition commands_run :: "up_event list \<Rightarrow> (string list \<times> string list) list" where
  "commands_run es = List.map_filter (\<lambda>e. case e of RanInBox command environment \<Rightarrow> Some (command, environment) | _ \<Rightarrow> None) es"

definition setup_line :: "string list \<Rightarrow> string \<Rightarrow> string list \<times> string list" where
  "setup_line environment line = ([''bash'', ''-lc'', line], environment)"

text \<open>The lines up to the first one that fails.\<close>

fun until_failure :: "('a \<Rightarrow> bool) \<Rightarrow> 'a list \<Rightarrow> 'a list" where
  "until_failure ok [] = []"
| "until_failure ok (x # xs) = x # (if ok x then until_failure ok xs else [])"

lemma commands_run_append [simp]: "commands_run (xs @ ys) = commands_run xs @ commands_run ys"
  by (simp add: commands_run_def map_filter_def)

lemma commands_run_simps [simp]:
  "commands_run [] = []" "commands_run [Warned x] = []" "commands_run [RecordSaved r] = []" "commands_run [RanInBox c env] = [(c, env)]"
  by (simp_all add: commands_run_def map_filter_simps)

lemma run_setup_commands_exact:
  "\<exists>es. run_setup_commands w s environment ls st = (Ok (list_all (setup_ok w s environment) ls), st\<lparr>us_trace := us_trace st @ es\<rparr>) \<and>
     commands_run es = map (setup_line environment) (until_failure (setup_ok w s environment) ls)"
proof (induction ls arbitrary: st)
  case Nil
  then show ?case by (intro exI [of _ "[]"]) (simp add: step_return_def)
next
  case (Cons line ls)
  let ?ev = "RanInBox [''bash'', ''-lc'', line] environment"
  define st1 where "st1 = st\<lparr>us_trace := us_trace st @ [?ev]\<rparr>"
  have c: "run_setup_commands w s environment (line # ls) st =
      (if setup_ok w s environment line then run_setup_commands w s environment ls st1
       else (Ok False, st1\<lparr>us_trace := us_trace st1 @ [Warned (WarnSetupFailed line)]\<rparr>))"
    by (simp add: step_then_def step_bind_def emit_def warn_def step_change_def step_return_def setup_ok_def st1_def)
  show ?case
  proof (cases "setup_ok w s environment line")
    case True
    obtain es where e: "run_setup_commands w s environment ls st1 = (Ok (list_all (setup_ok w s environment) ls), st1\<lparr>us_trace := us_trace st1 @ es\<rparr>)"
      "commands_run es = map (setup_line environment) (until_failure (setup_ok w s environment) ls)" using Cons by blast
    have "commands_run (?ev # es) = setup_line environment line # commands_run es"
      using commands_run_append [of "[?ev]" es] by (simp add: setup_line_def)
    then show ?thesis using c e True by (intro exI [of _ "?ev # es"]) (simp add: st1_def)
  next
    case False
    have "commands_run [?ev, Warned (WarnSetupFailed line)] = [setup_line environment line]"
      using commands_run_append [of "[?ev]" "[Warned (WarnSetupFailed line)]"] by (simp add: setup_line_def)
    then show ?thesis using c False by (intro exI [of _ "[?ev, Warned (WarnSetupFailed line)]"]) (simp add: st1_def)
  qed
qed

lemma warn_then: "step_then (warn x) k st = k (st\<lparr>us_trace := us_trace st @ [Warned x]\<rparr>)"
  by (simp add: step_then_def step_bind_def warn_def emit_def step_change_def)

lemma warnings_only:
  "\<exists>es. step_each (\<lambda>c. warn (f c)) xs st = (Ok (), st\<lparr>us_trace := us_trace st @ es\<rparr>) \<and> commands_run es = []"
proof (induction xs arbitrary: st)
  case Nil
  then show ?case by (intro exI [of _ "[]"]) (simp add: step_return_def)
next
  case (Cons x xs)
  obtain es where e: "step_each (\<lambda>c. warn (f c)) xs (st\<lparr>us_trace := us_trace st @ [Warned (f x)]\<rparr>) =
      (Ok (), st\<lparr>us_trace := us_trace st @ [Warned (f x)] @ es\<rparr>)" "commands_run es = []"
    using Cons [of "st\<lparr>us_trace := us_trace st @ [Warned (f x)]\<rparr>"] by auto
  have "commands_run (Warned (f x) # es) = []" using commands_run_append [of "[Warned (f x)]" es] e(2) by simp
  then show ?case using e(1) by (intro exI [of _ "Warned (f x) # es"]) (simp add: warn_then)
qed

definition with_signature :: "string \<Rightarrow> session \<Rightarrow> session" where
  "with_signature signature s = s\<lparr>se_record := map_option (\<lambda>r. r\<lparr>pr_setup_signature := signature\<rparr>) (se_record s)\<rparr>"

lemma setup_commands_record: "setup_commands br decode fe (s\<lparr>se_record := x\<rparr>) = setup_commands br decode fe s"
proof -
  have "exec_in_box br (s\<lparr>se_record := x\<rparr>) = exec_in_box br s" by (simp add: fun_eq_iff exec_in_box_def exec_spec_for_def)
  then have p: "probe br decode (s\<lparr>se_record := x\<rparr>) = probe br decode s" by (simp add: fun_eq_iff probe_def)
  have "detect_setup_commands br decode fe (s\<lparr>se_record := x\<rparr>) = detect_setup_commands br decode fe s"
    unfolding detect_setup_commands_def setup_candidates_def p by simp
  then show ?thesis by (simp add: setup_commands_def split: option.split)
qed

lemma run_setup_exact:
  assumes "run_setup w force st = (Ok u, st')" "se_record (us_session st) = Some r"
    and "setup_commands (uw_runner w) (uw_decode_probe w) (uw_file_exists w) (us_session st) = Ok (commands, missing)" "commands \<noteq> []"
  shows "\<exists>es. us_trace st' = us_trace st @ es \<and>
    (if \<not> force \<and> pr_setup_signature r = setup_signature (uw_sha w) commands then commands_run es = [] \<and> us_session st' = us_session st \<and> us_disk st' = us_disk st
     else \<exists>environment. exec_environment (uw_codec w) (uw_regex w) (uw_host_files w) (us_session st) None [] [] = Ok environment \<and>
       commands_run es = map (setup_line environment) (until_failure (setup_ok w (us_session st) environment) commands) \<and>
       (if list_all (setup_ok w (us_session st) environment) commands
        then us_session st' = with_signature (setup_signature (uw_sha w) commands) (us_session st) \<and>
          save_record (uw_json w) (se_project (us_session st)) (r\<lparr>pr_setup_signature := setup_signature (uw_sha w) commands\<rparr>) (uw_now w) (us_disk st) = Ok (us_disk st')
        else us_session st' = us_session st \<and> us_disk st' = us_disk st))"
proof -
  let ?s = "us_session st"
  let ?sig = "setup_signature (uw_sha w) commands"
  obtain es1 where e1: "step_each (\<lambda>c. warn (WarnSetupMissing c)) missing st = (Ok (), st\<lparr>us_trace := us_trace st @ es1\<rparr>)" "commands_run es1 = []"
    using warnings_only by blast
  let ?st1 = "st\<lparr>us_trace := us_trace st @ es1\<rparr>"
  let ?k = "if \<not> force \<and> pr_setup_signature r = ?sig then step_return ()
       else step_bind (pure_result UpSession (exec_environment (uw_codec w) (uw_regex w) (uw_host_files w) ?s None [] [])) (\<lambda>environment.
         step_bind (run_setup_commands w ?s environment commands) (\<lambda>all_done.
           step_when all_done (change_record w (r\<lparr>pr_setup_signature := ?sig\<rparr>))))"
  have "pure_result UpExec (Ok (commands, missing)) st = (Ok (commands, missing), st)" by (simp add: pure_result_def step_lift_def lift_error_def)
  then have "step_then (step_each (\<lambda>c. warn (WarnSetupMissing c)) missing) ?k st = (Ok u, st')"
    using assms by (simp add: run_setup_def step_bind_def the_session_def step_read_def Let_def cong del: if_weak_cong)
  then have m: "?k ?st1 = (Ok u, st')"
    unfolding step_then_def step_bind_def [of "step_each (\<lambda>c. warn (WarnSetupMissing c)) missing"] e1(1) prod.case sum.case .
  show ?thesis
  proof (cases "\<not> force \<and> pr_setup_signature r = ?sig")
    case True
    then show ?thesis using m e1(2) by (intro exI [of _ es1]) auto
  next
    case False
    then obtain environment where env: "exec_environment (uw_codec w) (uw_regex w) (uw_host_files w) ?s None [] [] = Ok environment"
      "step_bind (run_setup_commands w ?s environment commands) (\<lambda>all_done. step_when all_done (change_record w (r\<lparr>pr_setup_signature := ?sig\<rparr>))) ?st1 = (Ok u, st')"
      using m by (auto simp: step_bind_Ok pure_result_def step_lift_def lift_error_def split: sum.splits)
    let ?all = "list_all (setup_ok w ?s environment) commands"
    obtain es2 where e2: "run_setup_commands w ?s environment commands ?st1 = (Ok ?all, ?st1\<lparr>us_trace := us_trace ?st1 @ es2\<rparr>)"
      "commands_run es2 = map (setup_line environment) (until_failure (setup_ok w ?s environment) commands)"
      using run_setup_commands_exact by blast
    let ?st2 = "?st1\<lparr>us_trace := us_trace ?st1 @ es2\<rparr>"
    have last: "step_when ?all (change_record w (r\<lparr>pr_setup_signature := ?sig\<rparr>)) ?st2 = (Ok u, st')"
      using env(2) e2(1) by (simp add: step_bind_def)
    have "\<exists>es3. us_trace st' = us_trace ?st2 @ es3 \<and> commands_run es3 = [] \<and>
      (if ?all then us_session st' = with_signature ?sig ?s \<and> save_record (uw_json w) (se_project ?s) (r\<lparr>pr_setup_signature := ?sig\<rparr>) (uw_now w) (us_disk st) = Ok (us_disk st')
       else us_session st' = ?s \<and> us_disk st' = us_disk st)"
    proof (cases ?all)
      case True
      then show ?thesis using last assms(2)
        by (auto simp: step_when_def change_record_def save_up_record_def step_then_Ok step_bind_Ok step_change_def set_record_def on_disk_def with_signature_def with_unit_def bind_res_Ok
            split: sum.splits prod.splits)
    next
      case False
      then show ?thesis using last by (auto simp: step_when_def)
    qed
    then obtain es3 where e3: "us_trace st' = us_trace ?st2 @ es3" "commands_run es3 = []"
      "if ?all then us_session st' = with_signature ?sig ?s \<and> save_record (uw_json w) (se_project ?s) (r\<lparr>pr_setup_signature := ?sig\<rparr>) (uw_now w) (us_disk st) = Ok (us_disk st')
       else us_session st' = ?s \<and> us_disk st' = us_disk st" by blast
    then have "us_trace st' = us_trace st @ (es1 @ es2 @ es3)" "commands_run (es1 @ es2 @ es3) = commands_run es2" using e1(2) by simp_all
    then show ?thesis using env(1) e2(2) e3(3) False by (intro exI [of _ "es1 @ es2 @ es3"]) auto
  qed
qed

text \<open>What the record on the disk is after it was saved, with a codec that reads the record back.\<close>

lemma saved_record_loads:
  assumes "save_record js p r now d = Ok d'" "record_file p \<notin> set (dk_blocked d)" "jf_record js (jf_record_text js r @ [newline]) = Some r"
  shows "load_record js p d' = Ok (Some r)"
  using read_written [of "record_file p" "jf_record_text js r @ [newline]" now d d'] assms
  by (simp add: save_record_def write_json_file_def load_record_def read_json_file_def)

text \<open>A session with this record runs none of the commands again.\<close>

definition setup_settled :: "(string \<Rightarrow> string) \<Rightarrow> project_record \<Rightarrow> string list \<Rightarrow> bool" where
  "setup_settled sha recorded commands \<longleftrightarrow>
     (\<forall>w st u st' missing. uw_sha w = sha \<and> se_record (us_session st) = Some recorded \<and>
        setup_commands (uw_runner w) (uw_decode_probe w) (uw_file_exists w) (us_session st) = Ok (commands, missing) \<and>
        run_setup w False st = (Ok u, st') \<longrightarrow> (\<exists>es. us_trace st' = us_trace st @ es \<and> commands_run es = []))"


section \<open>Examples\<close>

definition example_world :: up_world where
  "example_world = \<lparr>uw_json = trusting_json example_record, uw_sha = id, uw_now = 5, uw_random = replicate 32 CHR ''x'', uw_os = OtherSystem, uw_run = copying_runner,
     uw_isolator_ok = True, uw_broker_ok = True, uw_unlocked = Some False, uw_terminal = False, uw_passphrase = None, uw_unlock = (\<lambda>p. False),
     uw_ensure_network = True, uw_network = Some \<lparr>ni_host_only = True, ni_gateway = ''10.0.0.1'', ni_subnet_v4 = ''10.0.0.0/24'', ni_subnet_v6 = []\<rparr>,
     uw_domain_known = None, uw_register = False, uw_answers = (\<lambda>port. False), uw_directory_exists = (\<lambda>d. True), uw_file_exists = (\<lambda>f. False),
     uw_base_image = [], uw_images = \<lparr>ia_lookup = (\<lambda>t. True), ia_build = (\<lambda>i. True)\<rparr>, uw_environment = (\<lambda>n. None), uw_push = True,
     uw_box = Some \<lparr>xi_exists = False, xi_running = False, xi_address = []\<rparr>, uw_start = True, uw_create = (\<lambda>spec. True), uw_listen = None,
     uw_attempts = (\<lambda>n. \<lparr>ra_duration = 0, ra_ready = True, ra_output = []\<rparr>), uw_box_after = None, uw_publish = True, uw_route_known = None,
     uw_route_install = False, uw_host_operations = (\<lambda>i. True), uw_runner = \<lparr>br_uid = 1000, br_gid = 1000,
       br_exec = (\<lambda>spec. \<lparr>xa_failed = False, xa_status = (if ex_command spec = [''bash'', ''-lc'', ''false''] then 1 else 0), xa_stdout = [], xa_both = []\<rparr>)\<rparr>,
     uw_decode_probe = (\<lambda>s. None), uw_codec = example_codec, uw_regex = example_regex, uw_host_files = example_host\<rparr>"

definition example_up_session :: session where
  "example_up_session = example_session\<lparr>se_inmates := [], se_inmate_names := [],
     se_overrides := (se_overrides example_session)\<lparr>ov_image := ''own/image'', ov_broker_port := 8\<rparr>,
     se_config := map_option (\<lambda>pc. pc\<lparr>pc_commands := [''make'', ''false'', ''make test'']\<rparr>) (se_config example_session)\<rparr>"

definition example_up_state :: up_state where
  "example_up_state = \<lparr>us_session = example_up_session,
     us_disk = \<lparr>dk_nodes = [(''/r'', SDir 1), (''/r/projects'', SDir 1), (''/r/projects/0123456789ab'', SDir 1)], dk_blocked = []\<rparr>,
     us_images = \<lparr>is_tags = [], is_built = [], is_releases = 0\<rparr>, us_host = example_firewall_host, us_trace = []\<rparr>"

lemma example_up_boxes: "list_ex box_event (us_trace (snd (up example_world example_found example_up_state)))"
  by code_simp

theorem box_starts_guarded_witness:
  "\<exists>before event after. us_trace (snd (up example_world example_found example_up_state)) = before @ event # after \<and> box_event event \<and>
     box_guarded example_world (us_session (snd (up example_world example_found example_up_state))) before"
proof -
  obtain r st' where u: "up example_world example_found example_up_state = (r, st')" by (metis surj_pair)
  obtain event where "event \<in> set (us_trace st')" "box_event event" using example_up_boxes by (auto simp: u list_ex_iff)
  then obtain before after where s: "us_trace st' = before @ event # after" by (meson split_list)
  have "us_trace example_up_state = []" by (simp add: example_up_state_def)
  from box_starts_guarded [OF u this s \<open>box_event event\<close>] show ?thesis using u s \<open>box_event event\<close> by auto
qed

definition example_setup_state :: up_state where
  "example_setup_state = set_record (empty_record ''/src'' 1) example_up_state"

definition example_signed :: project_record where
  "example_signed = (empty_record ''/src'' 1)\<lparr>pr_setup_signature := setup_signature id [''make'', ''false'', ''make test'']\<rparr>"

definition example_setup_world :: up_world where
  "example_setup_world = example_world\<lparr>uw_json := trusting_json example_signed\<rparr>"

lemma example_setup_ok: "is_ok (fst (run_setup example_setup_world False example_setup_state))"
  by code_simp


end
