(* ===== verification/Go_Netip.thy ===== *)
theory Go_Netip
  imports Go_Prelude "HOL-Library.Word"
begin

text \<open>
  The part of \<open>net/netip\<close> and \<open>net\<close> that the program uses: addresses without zones, their order, the text of an IPv4 address and
  its parser, and \<open>JoinHostPort\<close>. The text and the parser of an IPv6 address are parameters of what uses them.
\<close>

section \<open>Addresses\<close>

text \<open>The bytes of an address are a big-endian number.\<close>

datatype addr = Addr4 "32 word" | Addr6 "128 word"

text \<open>\<open>Compare\<close> orders the addresses by their length first.\<close>

instantiation addr :: linorder
begin

fun less_eq_addr :: "addr \<Rightarrow> addr \<Rightarrow> bool" where
  "less_eq_addr (Addr4 v) (Addr4 w) = (v \<le> w)"
| "less_eq_addr (Addr4 v) (Addr6 w) = True"
| "less_eq_addr (Addr6 v) (Addr4 w) = False"
| "less_eq_addr (Addr6 v) (Addr6 w) = (v \<le> w)"

definition less_addr :: "addr \<Rightarrow> addr \<Rightarrow> bool" where
  "less_addr x y \<longleftrightarrow> x \<le> y \<and> \<not> y \<le> (x :: addr)"

instance
proof
  show "(x < y) = (x \<le> y \<and> \<not> y \<le> x)" for x y :: addr by (simp add: less_addr_def)
  show "x \<le> x" for x :: addr by (cases x) simp_all
  show "x \<le> y \<Longrightarrow> y \<le> z \<Longrightarrow> x \<le> z" for x y z :: addr by (cases x; cases y; cases z) auto
  show "x \<le> y \<Longrightarrow> y \<le> x \<Longrightarrow> x = y" for x y :: addr by (cases x; cases y) auto
  show "x \<le> y \<or> y \<le> x" for x y :: addr by (cases x; cases y) auto
qed

end

lemma less_addr4 [simp]: "Addr4 v < Addr4 w \<longleftrightarrow> v < w"
  by (auto simp: less_addr_def)

fun unmap_addr :: "addr \<Rightarrow> addr" where
  "unmap_addr (Addr4 w) = Addr4 w"
| "unmap_addr (Addr6 w) = (if drop_bit 32 w = 0xFFFF then Addr4 (ucast w) else Addr6 w)"

lemma unmap_idem [simp]: "unmap_addr (unmap_addr a) = unmap_addr a"
  by (cases a) simp_all

section \<open>The text of an IPv4 address\<close>

definition addr_bytes :: "32 word \<Rightarrow> nat list" where
  "addr_bytes w = (let n = unat w in [n div 16777216, n div 65536 mod 256, n div 256 mod 256, n mod 256])"

definition bytes_addr :: "nat list \<Rightarrow> 32 word" where
  "bytes_addr bs = of_nat (foldl (\<lambda>n b. n * 256 + b) 0 bs)"

definition addr4_text :: "32 word \<Rightarrow> string" where
  "addr4_text w = join ''.'' (map nat_text (addr_bytes w))"

text \<open>A field has one to three digits, no leading zero and is at most 255.\<close>

definition parse_octet :: "string \<Rightarrow> nat option" where
  "parse_octet s =
     (if s = [] \<or> length s > 3 \<or> \<not> list_all is_digit s \<or> (length s > 1 \<and> hd s = CHR ''0'') then None
      else case parse_digits s of None \<Rightarrow> None | Some n \<Rightarrow> if n > 255 then None else Some n)"

fun all_some :: "'a option list \<Rightarrow> 'a list option" where
  "all_some [] = Some []"
| "all_some (None # xs) = None"
| "all_some (Some x # xs) = map_option ((#) x) (all_some xs)"

definition parse_addr4 :: "string \<Rightarrow> 32 word option" where
  "parse_addr4 s =
     (case all_some (map parse_octet (split_on CHR ''.'' s)) of
        None \<Rightarrow> None
      | Some bs \<Rightarrow> if length bs = 4 then Some (bytes_addr bs) else None)"

text \<open>\<open>ParseAddr\<close> and \<open>String\<close>, with the IPv6 forms as parameters.\<close>

record ipv6_forms =
  v6_parse :: "string \<Rightarrow> 128 word option"
  v6_text :: "128 word \<Rightarrow> string"

definition parse_addr :: "ipv6_forms \<Rightarrow> string \<Rightarrow> addr option" where
  "parse_addr v s =
     (case dropWhile (\<lambda>c. c \<noteq> CHR ''.'' \<and> c \<noteq> CHR '':'' \<and> c \<noteq> CHR ''%'') s of
        [] \<Rightarrow> None
      | c # _ \<Rightarrow> if c = CHR ''.'' then map_option Addr4 (parse_addr4 s)
                 else if c = CHR '':'' then map_option Addr6 (v6_parse v s) else None)"

fun addr_text :: "ipv6_forms \<Rightarrow> addr \<Rightarrow> string" where
  "addr_text v (Addr4 w) = addr4_text w"
| "addr_text v (Addr6 w) = v6_text v w"

definition host_port_text :: "string \<Rightarrow> string \<Rightarrow> string" where
  "host_port_text host port = (if CHR '':'' \<in> set host then ''['' @ host @ '']:'' @ port else host @ '':'' @ port)"

section \<open>Lemmas\<close>

lemma addr_bytes_small: "b \<in> set (addr_bytes w) \<Longrightarrow> b < 256"
proof -
  have "unat w < 4294967296" using unsigned_less [of w] by simp
  then show "b \<in> set (addr_bytes w) \<Longrightarrow> b < 256" by (auto simp: addr_bytes_def Let_def)
qed

lemma length_addr_bytes [simp]: "length (addr_bytes w) = 4"
  by (simp add: addr_bytes_def Let_def)

lemma bytes_of_addr: "bytes_addr (addr_bytes w) = w"
proof -
  define n where "n = unat w"
  have "((n div 16777216 * 256 + n div 65536 mod 256) * 256 + n div 256 mod 256) * 256 + n mod 256 = n"
  proof -
    have a: "n div 16777216 = n div 65536 div 256" "n div 65536 = n div 256 div 256" by (simp_all flip: div_mult2_eq)
    have b: "m div 256 * 256 + m mod 256 = m" for m :: nat by simp
    show ?thesis by (simp only: a(1) b) (simp only: a(2) b)
  qed
  then show ?thesis by (simp add: bytes_addr_def addr_bytes_def Let_def n_def [symmetric]) (simp add: n_def)
qed

lemma digit_char_not_zero: "0 < d \<Longrightarrow> d < 10 \<Longrightarrow> digit_char d \<noteq> CHR ''0''"
proof -
  have "digit_val CHR ''0'' = 0" by code_simp
  then show "0 < d \<Longrightarrow> d < 10 \<Longrightarrow> digit_char d \<noteq> CHR ''0''" using digit_char_simps(2) [of d] by auto
qed

lemma nat_text_small: "n < 256 \<Longrightarrow> length (nat_text n) \<le> 3 \<and> (length (nat_text n) > 1 \<longrightarrow> hd (nat_text n) \<noteq> CHR ''0'')"
proof -
  assume n: "n < 256"
  consider "n < 10" | "10 \<le> n" "n < 100" | "100 \<le> n" by linarith
  then show ?thesis
  proof cases
    case 2
    then have "nat_text (n div 10) = [digit_char (n div 10)]" "0 < n div 10" "n div 10 < 10"
      by (subst nat_text.simps, auto)
    moreover have "nat_text n = nat_text (n div 10) @ [digit_char (n mod 10)]" using 2 by (subst nat_text.simps) simp
    ultimately show ?thesis using digit_char_not_zero by simp
  next
    case 3
    have "nat_text (n div 10 div 10) = [digit_char (n div 10 div 10)]" "0 < n div 10 div 10" "n div 10 div 10 < 10"
      using 3 n by (subst nat_text.simps, auto)
    moreover have "nat_text n = nat_text (n div 10 div 10) @ [digit_char (n div 10 mod 10), digit_char (n mod 10)]"
      using 3 by (subst nat_text.simps, subst nat_text.simps [of "n div 10"]) simp
    ultimately show ?thesis using digit_char_not_zero by simp
  qed (simp add: nat_text.simps)
qed

lemma parse_octet_text: "n < 256 \<Longrightarrow> parse_octet (nat_text n) = Some n"
  using nat_text_small [of n] by (auto simp: parse_octet_def nat_text_digits)

lemma all_some_map: "(\<And>x. x \<in> set xs \<Longrightarrow> f (g x) = Some x) \<Longrightarrow> all_some (map f (map g xs)) = Some xs"
  by (induction xs) auto

lemma digit_no_dot: "is_digit c \<Longrightarrow> c \<noteq> CHR ''.'' \<and> c \<noteq> CHR '':'' \<and> c \<noteq> CHR ''%''"
  by (auto simp: is_digit_def)

lemma nat_text_no_dot: "c \<in> set (nat_text n) \<Longrightarrow> c \<noteq> CHR ''.'' \<and> c \<noteq> CHR '':'' \<and> c \<noteq> CHR ''%''"
  using nat_text_digits [of n] digit_no_dot by (auto simp: list_all_iff)

lemma split_addr4_text: "split_on CHR ''.'' (addr4_text w) = map nat_text (addr_bytes w)"
  unfolding addr4_text_def by (rule split_on_join) (use nat_text_no_dot in \<open>auto simp: addr_bytes_def Let_def\<close>)

text \<open>The text of an IPv4 address is read back as the address.\<close>

lemma parse_addr4_text: "parse_addr4 (addr4_text w) = Some w"
  using all_some_map [of "addr_bytes w" parse_octet nat_text] addr_bytes_small parse_octet_text
  by (simp add: parse_addr4_def split_addr4_text bytes_of_addr)

lemma parse_addr_text4: "parse_addr v (addr4_text w) = Some (Addr4 w)"
proof -
  obtain n ns where b: "addr_bytes w = n # ns" "ns \<noteq> []" by (auto simp: addr_bytes_def Let_def)
  then have t: "addr4_text w = nat_text n @ CHR ''.'' # join ''.'' (map nat_text ns)"
    by (cases ns) (simp_all add: addr4_text_def)
  have "dropWhile (\<lambda>c. c \<noteq> CHR ''.'' \<and> c \<noteq> CHR '':'' \<and> c \<noteq> CHR ''%'') (addr4_text w)
    = CHR ''.'' # join ''.'' (map nat_text ns)"
    unfolding t by (subst dropWhile_append2) (use nat_text_no_dot in auto)
  then show ?thesis by (simp add: parse_addr_def parse_addr4_text)
qed

lemma addr4_text_inj: "addr4_text v = addr4_text w \<Longrightarrow> v = w"
  using parse_addr4_text by (metis option.inject)

lemma addr4_text_chars: "c \<in> set (addr4_text w) \<Longrightarrow> is_digit c \<or> c = CHR ''.''"
  using nat_text_digits by (auto simp: addr4_text_def addr_bytes_def Let_def list_all_iff)

end
