(* ===== verification/Guest_Names.thy ===== *)
theory Guest_Names
  imports Policy Broker_Protocol Go_Netip
begin

text \<open>
  \<open>internal/guest/sentinel.go\<close>, \<open>allowlist.go\<close> and \<open>resolver.go\<close>: the name server of the box. It answers an allowed name with a
  loopback address of its own, a sentinel, from which the tunnel later finds the name again.

  A locale states what the resolver and the tunnel need of the table of names and addresses; it is interpreted on
  \<open>sentinelAllocator\<close>. The DNS library, which is not in the repository, is a parameter: how it parses a query and builds an answer.
\<close>

section \<open>A table of names and addresses\<close>

text \<open>What the clients of the table rely on: an address that is given to a name keeps it.\<close>

locale name_table =
  fixes table_ok :: "'s \<Rightarrow> bool"
    and give :: "'n \<Rightarrow> 's \<Rightarrow> 'a option \<times> 's"
    and name_of :: "'s \<Rightarrow> 'a \<Rightarrow> 'n option"
  assumes give_ok: "table_ok s \<Longrightarrow> give n s = (r, s') \<Longrightarrow> table_ok s'"
    and give_name: "table_ok s \<Longrightarrow> give n s = (Some a, s') \<Longrightarrow> name_of s' a = Some n"
    and give_keeps: "table_ok s \<Longrightarrow> give n s = (r, s') \<Longrightarrow> name_of s a = Some m \<Longrightarrow> name_of s' a = Some m"
    and give_only: "table_ok s \<Longrightarrow> give n s = (r, s') \<Longrightarrow> name_of s' a = Some m \<Longrightarrow> name_of s a = Some m \<or> (m = n \<and> r \<noteq> None)"
begin

definition give_all :: "'n list \<Rightarrow> 's \<Rightarrow> 's" where
  "give_all ns s = foldl (\<lambda>s n. snd (give n s)) s ns"

lemma give_all_ok: "table_ok s \<Longrightarrow> table_ok (give_all ns s)"
  by (induction ns arbitrary: s) (auto simp: give_all_def intro: give_ok [OF _ surjective_pairing])

lemma give_all_keeps: "table_ok s \<Longrightarrow> name_of s a = Some m \<Longrightarrow> name_of (give_all ns s) a = Some m"
proof (induction ns arbitrary: s)
  case (Cons n ns)
  have "table_ok (snd (give n s))" "name_of (snd (give n s)) a = Some m"
    using give_ok [OF Cons.prems(1) surjective_pairing] give_keeps [OF Cons.prems(1) surjective_pairing Cons.prems(2)] .
  from Cons.IH [OF this] show ?case by (simp add: give_all_def)
qed (simp add: give_all_def)

text \<open>The address of a name is never the address of another name, however much is given in between.\<close>

lemma given_distinct:
  assumes "table_ok s" "give n s = (Some a, s1)" "give m (give_all ns s1) = (Some a, s2)"
  shows "m = n"
proof -
  have ok: "table_ok s1" using give_ok [OF assms(1,2)] .
  have "name_of (give_all ns s1) a = Some n" using give_all_keeps [OF ok give_name [OF assms(1,2)]] .
  with give_keeps [OF give_all_ok [OF ok] assms(3)] have "name_of s2 a = Some n" .
  with give_name [OF give_all_ok [OF ok] assms(3)] show ?thesis by simp
qed

lemma given_stays:
  assumes "table_ok s" "give n s = (Some a, s1)"
  shows "name_of (give_all ns s1) a = Some n"
  using give_all_keeps [OF give_ok [OF assms] give_name [OF assms]] .

lemma given_names: "table_ok s \<Longrightarrow> name_of (give_all ns s) a = Some m \<Longrightarrow> name_of s a = Some m \<or> m \<in> set ns"
proof (induction ns arbitrary: s)
  case (Cons n ns)
  have "name_of (give_all ns (snd (give n s))) a = Some m" using Cons.prems(2) by (simp add: give_all_def)
  from Cons.IH [OF give_ok [OF Cons.prems(1) surjective_pairing] this] show ?case
    using give_only [OF Cons.prems(1) surjective_pairing, of n a m] by auto
qed (simp add: give_all_def)

end

section \<open>Sentinel addresses\<close>

definition first_sentinel :: "32 word" where "first_sentinel = 0x7F630001"
definition last_sentinel :: "32 word" where "last_sentinel = 0x7F63FFFE"

record sentinel_allocator =
  sa_address_by_name :: "string \<rightharpoonup> addr"
  sa_name_by_address :: "addr \<rightharpoonup> string"
  sa_next_offset :: "32 word"

definition new_sentinel_allocator :: sentinel_allocator where
  "new_sentinel_allocator = \<lparr>sa_address_by_name = Map.empty, sa_name_by_address = Map.empty, sa_next_offset = 0\<rparr>"

definition address_at_offset :: "32 word \<Rightarrow> 32 word \<Rightarrow> addr" where
  "address_at_offset base offset = Addr4 (base + offset)"

definition allocate :: "string \<Rightarrow> sentinel_allocator \<Rightarrow> addr option \<times> sentinel_allocator" where
  "allocate name a =
     (case sa_address_by_name a name of
        Some address \<Rightarrow> (Some address, a)
      | None \<Rightarrow>
          (let address = address_at_offset first_sentinel (sa_next_offset a)
           in if address > Addr4 last_sentinel then (None, a)
              else (Some address,
                    a\<lparr>sa_next_offset := sa_next_offset a + 1,
                      sa_address_by_name := (sa_address_by_name a)(name \<mapsto> address),
                      sa_name_by_address := (sa_name_by_address a)(address \<mapsto> name)\<rparr>)))"

definition lookup_sentinel :: "sentinel_allocator \<Rightarrow> addr \<Rightarrow> string option" where
  "lookup_sentinel a address = sa_name_by_address a (unmap_addr address)"

text \<open>The two maps are inverse, the addresses are the first ones of the network, and the offset counts them. There are 65534
  addresses, so the offset and the addresses do not wrap around.\<close>

definition sentinel_count :: nat where "sentinel_count = 65534"

definition used_sentinels :: "32 word \<Rightarrow> addr set" where
  "used_sentinels n = Addr4 ` {first_sentinel ..< first_sentinel + n}"

definition sentinels_ok :: "sentinel_allocator \<Rightarrow> bool" where
  "sentinels_ok a \<longleftrightarrow>
     unat (sa_next_offset a) \<le> sentinel_count \<and>
     dom (sa_name_by_address a) = used_sentinels (sa_next_offset a) \<and>
     (\<forall>n x. sa_address_by_name a n = Some x \<longleftrightarrow> sa_name_by_address a x = Some n)"

lemma sentinels_ok_new: "sentinels_ok new_sentinel_allocator"
  by (simp add: sentinels_ok_def new_sentinel_allocator_def used_sentinels_def)

lemma offset_small: "unat (n :: 32 word) \<le> sentinel_count \<longleftrightarrow> n \<le> 65534"
  by (simp add: sentinel_count_def word_le_nat_alt)

lemma sentinel_free: "n \<le> 65534 \<Longrightarrow> \<not> first_sentinel + n > last_sentinel \<longleftrightarrow> n < (65534 :: 32 word)"
  unfolding first_sentinel_def last_sentinel_def
  by (simp add: word_le_nat_alt word_less_nat_alt unat_word_ariths not_less; arith)

lemma used_Suc: "n < 65534 \<Longrightarrow> used_sentinels (n + 1) = insert (Addr4 (first_sentinel + n)) (used_sentinels n)"
proof -
  assume n: "n < (65534 :: 32 word)"
  have "{first_sentinel ..< first_sentinel + (n + 1)} = insert (first_sentinel + n) {first_sentinel ..< first_sentinel + n}"
    using n unfolding first_sentinel_def
    by (auto simp: word_le_nat_alt word_less_nat_alt unat_word_ariths word_unat_eq_iff)
  then show ?thesis by (simp add: used_sentinels_def)
qed

lemma new_sentinel_unused: "n < 65534 \<Longrightarrow> Addr4 (first_sentinel + n) \<notin> used_sentinels n"
  by (auto simp: used_sentinels_def)

lemma succ_small: "n < (65534 :: 32 word) \<Longrightarrow> n + 1 \<le> 65534"
  by (simp add: word_le_nat_alt word_less_nat_alt unat_word_ariths)

lemma used_in_network: "x \<in> used_sentinels n \<Longrightarrow> n \<le> 65534 \<Longrightarrow> \<exists>w. x = Addr4 w \<and> first_sentinel \<le> w \<and> w \<le> last_sentinel"
  unfolding used_sentinels_def first_sentinel_def last_sentinel_def
  by (auto simp: word_le_nat_alt word_less_nat_alt unat_word_ariths)

lemmas sentinel_words = sentinel_free used_Suc new_sentinel_unused succ_small offset_small

text \<open>The three cases of \<open>Allocate\<close>.\<close>

lemma allocate_cases:
  assumes "sentinels_ok a"
  obtains (known) x where "sa_address_by_name a name = Some x" "allocate name a = (Some x, a)"
  | (full) "sa_address_by_name a name = None" "sa_next_offset a = 65534" "allocate name a = (None, a)"
  | (fresh) x where "sa_address_by_name a name = None" "sa_next_offset a < 65534" "x = Addr4 (first_sentinel + sa_next_offset a)"
      "sa_name_by_address a x = None"
      "allocate name a = (Some x, a\<lparr>sa_next_offset := sa_next_offset a + 1, sa_address_by_name := (sa_address_by_name a)(name \<mapsto> x),
         sa_name_by_address := (sa_name_by_address a)(x \<mapsto> name)\<rparr>)"
proof (cases "sa_address_by_name a name")
  case None
  have small: "sa_next_offset a \<le> 65534" and D: "dom (sa_name_by_address a) = used_sentinels (sa_next_offset a)"
    using assms by (simp_all add: sentinels_ok_def offset_small)
  show thesis
  proof (cases "sa_next_offset a < 65534")
    case True
    have "sa_name_by_address a (Addr4 (first_sentinel + sa_next_offset a)) = None"
      using new_sentinel_unused [OF True] D by blast
    then show thesis
      using fresh [OF None True refl] sentinel_free [OF small] True
      by (simp add: allocate_def None Let_def address_at_offset_def)
  next
    case False
    then have "sa_next_offset a = 65534" using small by simp
    then show thesis
      using full [OF None] sentinel_free [OF small] False
      by (simp add: allocate_def None Let_def address_at_offset_def)
  qed
qed (simp add: allocate_def known)

lemma allocate_ok:
  assumes "sentinels_ok a" "allocate name a = (r, b)"
  shows "sentinels_ok b"
  using assms(1)
proof (cases rule: allocate_cases [where name = name])
  case (fresh x)
  have b: "b = a\<lparr>sa_next_offset := sa_next_offset a + 1, sa_address_by_name := (sa_address_by_name a)(name \<mapsto> x),
         sa_name_by_address := (sa_name_by_address a)(x \<mapsto> name)\<rparr>" using fresh(5) assms(2) by simp
  have "\<forall>n y. sa_address_by_name a n = Some y \<longleftrightarrow> sa_name_by_address a y = Some n"
    using assms(1) by (simp add: sentinels_ok_def)
  then have "\<forall>n y. sa_address_by_name b n = Some y \<longleftrightarrow> sa_name_by_address b y = Some n"
    unfolding b using fresh(1,4) by (simp add: fun_upd_apply) (metis option.distinct(1))
  then show ?thesis
    using assms(1) fresh(2,3) succ_small [OF fresh(2)] used_Suc [OF fresh(2)]
    unfolding b by (simp add: sentinels_ok_def offset_small)
qed (use assms in auto)

lemma used_unmap: "x \<in> used_sentinels n \<Longrightarrow> unmap_addr x = x"
  by (auto simp: used_sentinels_def)

lemma known_unmap: "sentinels_ok a \<Longrightarrow> sa_address_by_name a n = Some x \<Longrightarrow> unmap_addr x = x"
  using used_unmap unfolding sentinels_ok_def by blast

interpretation sentinels: name_table sentinels_ok allocate lookup_sentinel
proof
  show "sentinels_ok b" if "sentinels_ok a" "allocate n a = (r, b)" for a n r b
    using allocate_ok [OF that] .
  show "lookup_sentinel b x = Some n" if "sentinels_ok a" "allocate n a = (Some x, b)" for a n x b
    using that(1)
  proof (cases rule: allocate_cases [where name = n])
    case (known y)
    then have "x = y" "b = a" using that(2) by simp_all
    then show ?thesis using known(1) that(1) known_unmap [OF that(1) known(1)]
      by (simp add: lookup_sentinel_def sentinels_ok_def)
  qed (use that(2) in \<open>auto simp: lookup_sentinel_def\<close>)
  show "lookup_sentinel b x = Some m" if "sentinels_ok a" "allocate n a = (r, b)" "lookup_sentinel a x = Some m" for a n r b x m
    using that(1)
  proof (cases rule: allocate_cases [where name = n])
    case (fresh y)
    then show ?thesis using that(2,3) by (auto simp: lookup_sentinel_def)
  qed (use that(2,3) in auto)
  show "lookup_sentinel a x = Some m \<or> m = n \<and> r \<noteq> None"
    if "sentinels_ok a" "allocate n a = (r, b)" "lookup_sentinel b x = Some m" for a n r b x m
    using that(1)
  proof (cases rule: allocate_cases [where name = n])
    case (fresh y)
    then show ?thesis using that(2,3) by (auto simp: lookup_sentinel_def split: if_splits)
  qed (use that(2,3) in auto)
qed

section \<open>The list of the allowed hosts\<close>

definition normalize_name :: "string \<Rightarrow> string" where
  "normalize_name name = to_lower (trim_suffix name ''.'')"

text \<open>The list and how many patterns the answer of the broker has.\<close>

definition parse_hosts_answer :: "string \<Rightarrow> (pattern_error, allow_list \<times> nat) result" where
  "parse_hosts_answer answer =
     bind_res (parse_list answer) (\<lambda>patterns. Ok (new_allow_list [patterns], length patterns))"

section \<open>The resolver\<close>

text \<open>The DNS library. A parsed packet has a header, the questions that parse and whether the section ends after them.\<close>

record dns_question =
  dq_name :: string
  dq_type :: nat
  dq_class :: nat

record dns_packet =
  dp_id :: "16 word"
  dp_response :: bool
  dp_op_code :: nat
  dp_recursion_desired :: bool
  dp_questions :: "dns_question list"
  dp_ended :: bool

datatype rcode = Success | Server_Failure | Name_Error

record dns_response =
  dr_id :: "16 word"
  dr_op_code :: nat
  dr_recursion_desired :: bool
  dr_code :: rcode
  dr_question :: dns_question
  dr_address :: "addr option"
  dr_ttl :: nat

record dns_library =
  dl_parse :: "string \<Rightarrow> dns_packet option"
  dl_build :: "dns_response \<Rightarrow> string option"

definition class_inet :: nat where "class_inet = 1"
definition type_a :: nat where "type_a = 1"
definition sentinel_ttl :: nat where "sentinel_ttl = 60"
definition maximum_query_bytes :: nat where "maximum_query_bytes = 4096"
definition maximum_reported_refusals :: nat where "maximum_reported_refusals = 1024"

datatype resolver_line = Logged_Enough | Not_In_Allowlist string

text \<open>The resolver and the tunnel share the allocator and the list. The fields are in the order in which the code makes them.\<close>

record resolver =
  rs_sentinels :: sentinel_allocator
  rs_allow_list :: allow_list
  rs_reported :: "string list"
  rs_reported_full :: bool
  rs_log :: "resolver_line list"

definition new_resolver :: resolver where
  "new_resolver = \<lparr>rs_sentinels = new_sentinel_allocator, rs_allow_list = new_allow_list [], rs_reported = [],
     rs_reported_full = False, rs_log = []\<rparr>"

definition note_refusal :: "string \<Rightarrow> resolver \<Rightarrow> resolver" where
  "note_refusal name r =
     (if rs_reported_full r \<or> name \<in> set (rs_reported r) then r
      else if length (rs_reported r) \<ge> maximum_reported_refusals
      then r\<lparr>rs_reported_full := True, rs_log := rs_log r @ [Logged_Enough]\<rparr>
      else r\<lparr>rs_reported := rs_reported r @ [name], rs_log := rs_log r @ [Not_In_Allowlist name]\<rparr>)"

definition resolves :: "resolver \<Rightarrow> string \<Rightarrow> bool" where
  "resolves r name \<longleftrightarrow> in_zone name \<or> host_matches (rs_allow_list r) name"

definition host_name_byte :: "char \<Rightarrow> bool" where
  "host_name_byte c \<longleftrightarrow> is_lower c \<or> is_digit c \<or> c = CHR ''.'' \<or> c = CHR ''-'' \<or> c = CHR ''_''"

definition is_host_name :: "string \<Rightarrow> bool" where
  "is_host_name name = list_all host_name_byte name"

text \<open>The code and the address of an answer.\<close>

definition answer_name :: "dns_question \<Rightarrow> resolver \<Rightarrow> (rcode \<times> addr option) \<times> resolver" where
  "answer_name question r =
     (let name = normalize_name (dq_name question)
      in if \<not> is_host_name name then ((Name_Error, None), r)
         else if \<not> resolves r name then ((Name_Error, None), note_refusal name r)
         else if dq_type question = type_a
         then (case allocate name (rs_sentinels r) of
                 (None, a) \<Rightarrow> ((Server_Failure, None), r\<lparr>rs_sentinels := a\<rparr>)
               | (Some address, a) \<Rightarrow> ((Success, Some address), r\<lparr>rs_sentinels := a\<rparr>))
         else ((Success, None), r))"

definition dns_answer :: "dns_library \<Rightarrow> string \<Rightarrow> resolver \<Rightarrow> string option \<times> resolver" where
  "dns_answer dl packet r =
     (case dl_parse dl packet of
        None \<Rightarrow> (None, r)
      | Some p \<Rightarrow>
          if dp_response p then (None, r)
          else (case dp_questions p of
                  [question] \<Rightarrow>
                    if \<not> dp_ended p \<or> dq_class question \<noteq> class_inet then (None, r)
                    else (case answer_name question r of
                            ((rc, address), r') \<Rightarrow>
                              (dl_build dl \<lparr>dr_id = dp_id p, dr_op_code = dp_op_code p,
                                 dr_recursion_desired = dp_recursion_desired p, dr_code = rc, dr_question = question,
                                 dr_address = address, dr_ttl = sentinel_ttl\<rparr>, r'))
                | _ \<Rightarrow> (None, r)))"

text \<open>What happens to the resolver: a packet of at most \<open>maximum_query_bytes\<close> bytes, or a new list.\<close>

datatype resolver_event = Query string | Replace_List allow_list

fun resolver_step :: "dns_library \<Rightarrow> resolver \<Rightarrow> resolver_event \<Rightarrow> resolver" where
  "resolver_step dl r (Query packet) = snd (dns_answer dl (take maximum_query_bytes packet) r)"
| "resolver_step dl r (Replace_List l) = r\<lparr>rs_allow_list := l\<rparr>"

definition resolver_run :: "dns_library \<Rightarrow> resolver \<Rightarrow> resolver_event list \<Rightarrow> resolver" where
  "resolver_run dl r events = foldl (resolver_step dl) r events"

section \<open>What the resolver gives out\<close>

text \<open>Every name with an address is a host name, and the log is bounded: one line per reported name and one last line.\<close>

definition resolver_ok :: "resolver \<Rightarrow> bool" where
  "resolver_ok r \<longleftrightarrow>
     sentinels_ok (rs_sentinels r) \<and>
     (\<forall>x n. lookup_sentinel (rs_sentinels r) x = Some n \<longrightarrow> is_host_name n) \<and>
     distinct (rs_reported r) \<and> length (rs_reported r) \<le> maximum_reported_refusals \<and>
     length (rs_log r) = length (rs_reported r) + (if rs_reported_full r then 1 else 0)"

lemma resolver_ok_new: "resolver_ok new_resolver"
  unfolding resolver_ok_def new_resolver_def using sentinels_ok_new
  by (simp add: lookup_sentinel_def new_sentinel_allocator_def)

lemma note_refusal_ok: "resolver_ok r \<Longrightarrow> resolver_ok (note_refusal name r)"
  by (auto simp: resolver_ok_def note_refusal_def)

lemma note_refusal_sentinels [simp]: "rs_sentinels (note_refusal name r) = rs_sentinels r"
  by (simp add: note_refusal_def)

text \<open>The cases of an answer.\<close>

lemma answer_name_cases:
  assumes "answer_name q r = ((rc, address), r')"
  obtains (refused) "r' = r \<or> r' = note_refusal (normalize_name (dq_name q)) r" "rc = Name_Error" "address = None"
  | (given) b where "is_host_name (normalize_name (dq_name q))" "resolves r (normalize_name (dq_name q))" "dq_type q = type_a"
      "allocate (normalize_name (dq_name q)) (rs_sentinels r) = (address, b)"
      "r' = r\<lparr>rs_sentinels := b\<rparr>" "rc = (if address = None then Server_Failure else Success)"
  | (other) "is_host_name (normalize_name (dq_name q))" "resolves r (normalize_name (dq_name q))" "dq_type q \<noteq> type_a"
      "r' = r" "rc = Success" "address = None"
proof -
  define n where "n = normalize_name (dq_name q)"
  obtain x a where al: "allocate n (rs_sentinels r) = (x, a)" by (cases "allocate n (rs_sentinels r)")
  show thesis
  proof (cases "is_host_name n \<and> resolves r n")
    case False
    have "(r' = r \<or> r' = note_refusal n r) \<and> rc = Name_Error \<and> address = None"
      using assms False by (auto simp: answer_name_def Let_def n_def [symmetric] split: if_splits)
    then show thesis using refused unfolding n_def by blast
  next
    case True
    show thesis
    proof (cases "dq_type q = type_a")
      case True
      have "r' = r\<lparr>rs_sentinels := a\<rparr>" "address = x" "rc = (if x = None then Server_Failure else Success)"
        using assms \<open>is_host_name n \<and> resolves r n\<close> True al
        by (auto simp: answer_name_def Let_def n_def [symmetric] split: option.splits)
      then show thesis using given \<open>is_host_name n \<and> resolves r n\<close> True al unfolding n_def by simp
    next
      case False
      have "r' = r" "rc = Success" "address = None"
        using assms \<open>is_host_name n \<and> resolves r n\<close> False by (simp_all add: answer_name_def Let_def n_def [symmetric])
      then show thesis using other \<open>is_host_name n \<and> resolves r n\<close> False unfolding n_def by simp
    qed
  qed
qed

lemma answer_name_ok:
  assumes "resolver_ok r" "answer_name q r = (x, r')"
  shows "resolver_ok r'"
proof -
  obtain rc address where x: "x = (rc, address)" by (cases x)
  from assms(2) [unfolded x] show ?thesis
  proof (cases rule: answer_name_cases)
    case refused
    then show ?thesis using assms(1) note_refusal_ok by auto
  next
    case (given b)
    have ok: "sentinels_ok (rs_sentinels r)" using assms(1) by (simp add: resolver_ok_def)
    have "is_host_name n" if "lookup_sentinel b y = Some n" for y n
      using sentinels.give_only [OF ok given(4) that] assms(1) given(1) by (auto simp: resolver_ok_def)
    then show ?thesis
      using allocate_ok [OF ok given(4)] assms(1) unfolding given(5) resolver_ok_def by simp
  qed (use assms in auto)
qed

lemma dns_answer_state:
  "snd (dns_answer dl packet r) = r \<or> (\<exists>q. snd (dns_answer dl packet r) = snd (answer_name q r))"
  by (auto simp: dns_answer_def split: option.splits list.splits prod.splits) (metis snd_conv)+

lemma dns_answer_ok: "resolver_ok r \<Longrightarrow> resolver_ok (snd (dns_answer dl packet r))"
  using dns_answer_state answer_name_ok surjective_pairing by metis

lemma resolver_step_ok: "resolver_ok r \<Longrightarrow> resolver_ok (resolver_step dl r e)"
  by (cases e) (simp_all add: dns_answer_ok, simp add: resolver_ok_def)

lemma resolver_run_ok: "resolver_ok r \<Longrightarrow> resolver_ok (resolver_run dl r events)"
  by (induction events arbitrary: r) (simp_all add: resolver_run_def resolver_step_ok)

text \<open>An address that the resolver gives out keeps its name, whatever is asked later.\<close>

lemma answer_name_keeps:
  assumes "resolver_ok r" "lookup_sentinel (rs_sentinels r) x = Some n"
  shows "lookup_sentinel (rs_sentinels (snd (answer_name q r))) x = Some n"
proof -
  obtain rc address r' where a: "answer_name q r = ((rc, address), r')" by (metis surjective_pairing)
  have ok: "sentinels_ok (rs_sentinels r)" using assms(1) by (simp add: resolver_ok_def)
  from a show ?thesis
  proof (cases rule: answer_name_cases)
    case (given b)
    show ?thesis using sentinels.give_keeps [OF ok given(4) assms(2)] given(5) a by simp
  qed (use a assms in auto)
qed

lemma resolver_run_keeps:
  "resolver_ok r \<Longrightarrow> lookup_sentinel (rs_sentinels r) x = Some n \<Longrightarrow>
   lookup_sentinel (rs_sentinels (resolver_run dl r events)) x = Some n"
proof (induction events arbitrary: r)
  case (Cons e es)
  have "lookup_sentinel (rs_sentinels (resolver_step dl r e)) x = Some n"
    using dns_answer_state [of dl _ r] answer_name_keeps [OF Cons.prems] Cons.prems(2) by (cases e) (simp, metis, simp)
  from Cons.IH [OF resolver_step_ok [OF Cons.prems(1)] this] show ?case by (simp add: resolver_run_def)
qed (simp add: resolver_run_def)

end
