(* ===== verification/Guest_Tunnel.thy ===== *)
theory Guest_Tunnel
  imports Guest_Names Broker_Http
begin

text \<open>
  \<open>internal/guest/tunnel.go\<close>: the tunnel, which accepts the connections that the firewall of the box redirects, finds the name of the
  sentinel address and opens a \<open>CONNECT\<close> connection to the broker. What the network does is a parameter; the bytes that move after the
  connection is open, and their timeouts, are left out.
\<close>

section \<open>The request\<close>

abbreviation crlf :: string where "crlf \<equiv> [carriage_return, newline]"

definition maximum_head_bytes :: nat where "maximum_head_bytes = 16384"

definition connect_host :: "string \<Rightarrow> int \<Rightarrow> string" where
  "connect_host host port = host_port_text host (itoa port)"

definition connect_request :: "string \<Rightarrow> int \<Rightarrow> string \<Rightarrow> string" where
  "connect_request host port token =
     (let target = connect_host host port
      in ''CONNECT '' @ target @ '' HTTP/1.1'' @ crlf @
         ''Host: '' @ target @ crlf @
         ''Proxy-Authorization: '' @ proxy_authorization token @ crlf @
         crlf)"

section \<open>The response\<close>

datatype tunnel_error =
  Stream_Ended
| Long_Header_Line
| Response_Not_HTTP string
| Status_Not_Valid string
| Head_Too_Long
| Broker_Unreachable string
| Deadline_Error
| Send_Failed string int
| Broker_Returned int string int

text \<open>A line and what is left of the stream.\<close>

definition read_head_line :: "string \<Rightarrow> (tunnel_error, string \<times> string) result" where
  "read_head_line stream =
     (case cut stream newline of (before, after, found) \<Rightarrow>
        if \<not> found then Err Stream_Ended
        else if length before + 1 > maximum_head_bytes then Err Long_Header_Line
        else Ok (trim_right_by (\<lambda>c. c = carriage_return \<or> c = newline) before, after))"

lemma read_head_line_shorter: "read_head_line s = Ok (line, t) \<Longrightarrow> length t < length s"
  by (auto simp: read_head_line_def split: prod.splits if_splits dest!: cut_found)

function read_headers :: "int \<Rightarrow> nat \<Rightarrow> string \<Rightarrow> (tunnel_error, int \<times> string) result" where
  "read_headers status consumed stream =
     (case read_head_line stream of
        Err e \<Rightarrow> Err e
      | Ok (line, stream') \<Rightarrow>
          if line = [] then Ok (status, stream')
          else if consumed + length line > maximum_head_bytes then Err Head_Too_Long
          else read_headers status (consumed + length line) stream')"
  by pat_completeness auto
termination
  by (relation "measure (\<lambda>(status, consumed, stream). length stream)") (auto dest: read_head_line_shorter)

declare read_headers.simps [simp del]

text \<open>The status and what the reader holds after the head.\<close>

definition read_connect_response :: "string \<Rightarrow> (tunnel_error, int \<times> string) result" where
  "read_connect_response stream =
     bind_res (read_head_line stream) (\<lambda>(status_line, stream').
       (case split_n 3 CHR '' '' status_line of
          version # code_text # _ \<Rightarrow>
            if \<not> has_prefix version ''HTTP/1.'' then Err (Response_Not_HTTP status_line)
            else (case atoi code_text of
                    None \<Rightarrow> Err (Status_Not_Valid status_line)
                  | Some status \<Rightarrow>
                      if status < 100 \<or> status > 999 then Err (Status_Not_Valid status_line)
                      else read_headers status (length status_line) stream')
        | _ \<Rightarrow> Err (Response_Not_HTTP status_line)))"

section \<open>The connection\<close>

text \<open>What the network does with a connection to the broker: the dial, the deadline and the write can fail, and the broker sends a
  stream in answer to the request.\<close>

datatype dial_outcome = No_Dial | No_Deadline | No_Write | Sends string

record broker_dialer =
  bd_address :: string
  bd_token :: string

type_synonym network_side = "string \<Rightarrow> string \<Rightarrow> dial_outcome"

text \<open>The connection has what is left of the stream to read. \<open>reset\<close> tells whether the deadline can be cleared.\<close>

definition dial_connect :: "network_side \<Rightarrow> bool \<Rightarrow> broker_dialer \<Rightarrow> string \<Rightarrow> int \<Rightarrow> (tunnel_error, string) result" where
  "dial_connect net reset d host port =
     (case net (bd_address d) (connect_request host port (bd_token d)) of
        No_Dial \<Rightarrow> Err (Broker_Unreachable (bd_address d))
      | No_Deadline \<Rightarrow> Err Deadline_Error
      | No_Write \<Rightarrow> Err (Send_Failed host port)
      | Sends stream \<Rightarrow>
          bind_res (read_connect_response stream) (\<lambda>(status, remaining).
            if status \<noteq> 200 then Err (Broker_Returned status host port)
            else if \<not> reset then Err Deadline_Error
            else Ok remaining))"

section \<open>The tunnel\<close>

text \<open>The first rule is for the reserved zone, where the broker decides.\<close>

definition permits :: "resolver \<Rightarrow> string \<Rightarrow> int \<Rightarrow> bool" where
  "permits r name port \<longleftrightarrow> in_zone name \<or> allowed (allows (rs_allow_list r) name port)"

text \<open>What the tunnel does with an accepted connection. A port has 16 bits.\<close>

datatype tunnel_outcome =
  No_Destination
| No_Name addr
| Not_Allowed string int
| Connect_Error string int tunnel_error
| Spliced string int string

definition handle_tunnel :: "network_side \<Rightarrow> bool \<Rightarrow> broker_dialer \<Rightarrow> resolver \<Rightarrow> (addr \<times> 16 word) option \<Rightarrow> tunnel_outcome" where
  "handle_tunnel net reset d r destination =
     (case destination of
        None \<Rightarrow> No_Destination
      | Some (address, port_word) \<Rightarrow>
          (case lookup_sentinel (rs_sentinels r) address of
             None \<Rightarrow> No_Name address
           | Some name \<Rightarrow>
               (let port = uint port_word
                in if \<not> permits r name port then Not_Allowed name port
                   else (case dial_connect net reset d name port of
                           Err e \<Rightarrow> Connect_Error name port e
                         | Ok remaining \<Rightarrow> Spliced name port remaining))))"

section \<open>Lemmas\<close>

lemma host_name_byte_safe:
  "host_name_byte c \<Longrightarrow> \<not> is_space c \<and> c \<noteq> CHR '':'' \<and> c \<noteq> CHR ''['' \<and> c \<noteq> CHR '']'' \<and> \<not> is_upper c"
  by (auto simp: host_name_byte_def is_space_def is_lower_def is_upper_def is_digit_def)

lemma host_name_no:
  "is_host_name n \<Longrightarrow> \<not> is_space c \<and> c \<noteq> CHR '':'' \<and> c \<noteq> CHR ''['' \<and> c \<noteq> CHR '']'' \<and> \<not> is_upper c \<or> c \<notin> set n"
  using host_name_byte_safe by (auto simp: is_host_name_def list_all_iff)

lemma connect_host_plain: "is_host_name n \<Longrightarrow> connect_host n port = n @ '':'' @ itoa port"
  using host_name_no [of n "CHR '':''"] by (simp add: connect_host_def host_port_text_def)

lemma to_lower_host_name: "is_host_name n \<Longrightarrow> to_lower n = n"
  unfolding to_lower_def is_host_name_def list_all_iff
  by (rule map_idI) (use host_name_byte_safe lower_char_fix in blast)

lemma itoa_safe: "c \<in> set (itoa i) \<Longrightarrow> \<not> is_space c \<and> c \<noteq> CHR '':'' \<and> c \<noteq> CHR ''['' \<and> c \<noteq> CHR '']''"
  using itoa_chars [of c i] by (auto simp: is_digit_def is_space_def)

lemma itoa_lacks: "\<not> (\<not> is_space c \<and> c \<noteq> CHR '':'' \<and> c \<noteq> CHR ''['' \<and> c \<noteq> CHR '']'') \<Longrightarrow> c \<notin> set (itoa i)"
  using itoa_safe by blast

text \<open>The broker reads the target that the tunnel sends, without one more dot at its end.\<close>

lemma connect_host_read:
  assumes "is_host_name n" "1 \<le> port" "port \<le> 65535"
  shows "split_connect_target (connect_host n port)
    = (if trim_suffix n ''.'' = [] then None else Some (trim_suffix n ''.'', port))"
proof -
  have i: "CHR '':'' \<notin> set (itoa port)" "CHR ''['' \<notin> set (itoa port)" "CHR '']'' \<notin> set (itoa port)"
    by (rule itoa_lacks, simp)+
  have n: "CHR '':'' \<notin> set n" "CHR ''['' \<notin> set n" "CHR '']'' \<notin> set n"
    using host_name_no [OF assms(1)] by blast+
  have h: "\<not> has_prefix (n @ CHR '':'' # itoa port) ''[''" using n(2) by (cases n) (auto simp: has_prefix_def)
  have l: "last_index CHR '':'' (n @ CHR '':'' # itoa port) = Some (length n)" by (rule last_index_append [OF i(1)])
  have "split_host_port (n @ CHR '':'' # itoa port) = Some (n, itoa port)"
    unfolding split_host_port_def l using h n i by simp
  moreover have "atoi (itoa port) = Some port"
    using assms(2,3) by (intro atoi_itoa) (simp_all add: int64_min_def int64_max_def)
  ultimately show ?thesis
    using assms(2,3) to_lower_host_name [OF assms(1)]
    by (simp add: connect_host_plain [OF assms(1)] split_connect_target_def normalize_target_host_def Let_def)
qed

text \<open>The request has exactly the three lines that the code writes: a name cannot add one.\<close>

definition request_lines :: "string \<Rightarrow> int \<Rightarrow> string \<Rightarrow> string list" where
  "request_lines host port token =
     [''CONNECT '' @ connect_host host port @ '' HTTP/1.1'', ''Host: '' @ connect_host host port,
      ''Proxy-Authorization: '' @ proxy_authorization token, []]"

lemma connect_request_lines: "connect_request host port token = concat (map (\<lambda>l. l @ crlf) (request_lines host port token))"
  by (simp add: connect_request_def request_lines_def Let_def)

lemma split_lines:
  "\<forall>l\<in>set ls. newline \<notin> set l \<Longrightarrow>
   split_on newline (concat (map (\<lambda>l. l @ crlf) ls)) = map (\<lambda>l. l @ [carriage_return]) ls @ [[]]"
proof (induction ls)
  case (Cons l ls)
  have "newline \<notin> set (l @ [carriage_return])" using Cons.prems by auto
  from split_on_append [OF this, of "concat (map (\<lambda>l. l @ crlf) ls)"] show ?case using Cons by simp
qed simp

lemma no_newline: "c = newline \<Longrightarrow> is_space c"
  by (simp add: is_space_def)

lemma connect_host_no_newline: "is_host_name n \<Longrightarrow> newline \<notin> set (connect_host n port)"
  using host_name_no [of n newline] itoa_lacks [of newline port] by (auto simp: connect_host_plain is_space_def)

lemma proxy_no_newline: "newline \<notin> set (proxy_authorization token)"
  using base64_encode_space [of newline] by (auto simp: proxy_authorization_def is_space_def)

lemma request_lines_no_newline: "is_host_name n \<Longrightarrow> \<forall>l\<in>set (request_lines n port token). newline \<notin> set l"
  using connect_host_no_newline [of n port] proxy_no_newline [of token] unfolding request_lines_def by simp

section \<open>Lemmas on the response\<close>

lemma read_head_line_plain:
  assumes "newline \<notin> set l" "length l + 2 \<le> maximum_head_bytes" "l = [] \<or> last l \<noteq> carriage_return"
  shows "read_head_line (l @ crlf @ s) = Ok (l, s)"
proof -
  have "newline \<notin> set (l @ [carriage_return])" using assms(1) by simp
  from cut_hit [OF this, of s] have "cut (l @ crlf @ s) newline = (l @ [carriage_return], s, True)" by simp
  moreover have "trim_right_by (\<lambda>c. c = carriage_return \<or> c = newline) (l @ [carriage_return]) = l"
    using assms(1,3) by (cases l rule: rev_cases) (auto simp: trim_right_by_def)
  ultimately show ?thesis using assms(2) by (simp add: read_head_line_def)
qed

definition header_line_ok :: "string \<Rightarrow> bool" where
  "header_line_ok l \<longleftrightarrow> l \<noteq> [] \<and> newline \<notin> set l \<and> last l \<noteq> carriage_return \<and> length l + 2 \<le> maximum_head_bytes"

lemma read_headers_plain:
  "list_all header_line_ok ls \<Longrightarrow> consumed + sum_list (map length ls) \<le> maximum_head_bytes \<Longrightarrow>
   read_headers status consumed (concat (map (\<lambda>l. l @ crlf) ls) @ crlf @ body) = Ok (status, body)"
proof (induction ls arbitrary: consumed)
  case Nil
  have "read_head_line ([] @ crlf @ body) = Ok ([], body)" by (rule read_head_line_plain) (simp_all add: maximum_head_bytes_def)
  then show ?case by (simp add: read_headers.simps)
next
  case (Cons l ls)
  have "read_head_line (l @ crlf @ concat (map (\<lambda>l. l @ crlf) ls) @ crlf @ body) = Ok (l, concat (map (\<lambda>l. l @ crlf) ls) @ crlf @ body)"
    using Cons.prems by (intro read_head_line_plain) (simp_all add: header_line_ok_def)
  then show ?case using Cons by (subst read_headers.simps) (simp add: header_line_ok_def)
qed

text \<open>What is left of the stream is its end.\<close>

lemma read_head_line_suffix: "read_head_line s = Ok (line, t) \<Longrightarrow> \<exists>h. s = h @ t \<and> length line \<le> maximum_head_bytes"
  by (auto simp: read_head_line_def trim_right_by_def split: prod.splits if_splits dest!: cut_found
      intro!: exI le_trans [OF length_dropWhile_le])

lemma read_headers_suffix:
  "read_headers status consumed s = Ok (st, t) \<Longrightarrow> st = status \<and> (\<exists>h. s = h @ t)"
proof (induction status consumed s rule: read_headers.induct)
  case (1 status consumed s)
  from "1.prems" obtain line s' where r: "read_head_line s = Ok (line, s')"
    by (subst (asm) read_headers.simps) (auto split: sum.splits prod.splits)
  obtain h where h: "s = h @ s'" using read_head_line_suffix [OF r] by blast
  show ?case
  proof (cases "line = []")
    case True
    then show ?thesis using "1.prems" r h by (subst (asm) read_headers.simps) auto
  next
    case False
    then have "read_headers status (consumed + length line) s' = Ok (st, t)" "consumed + length line \<le> maximum_head_bytes"
      using "1.prems" r by (subst (asm) read_headers.simps, auto split: if_splits)+
    then show ?thesis using "1.IH" [OF r refl False] h by auto
  qed
qed

lemma read_connect_response_status:
  assumes "read_connect_response s = Ok (status, t)"
  shows "100 \<le> status \<and> status \<le> 999 \<and> (\<exists>h. s = h @ t)"
proof -
  from assms obtain line s' where l: "read_head_line s = Ok (line, s')"
    by (auto simp: read_connect_response_def bind_res_Ok)
  then obtain st where "100 \<le> st" "st \<le> 999"
      and h: "read_headers st (length line) s' = Ok (status, t)"
    using assms by (auto simp: read_connect_response_def not_less split: list.splits if_splits option.splits)
  then show ?thesis using read_headers_suffix [OF h] read_head_line_suffix [OF l] by auto
qed


section \<open>Properties\<close>

text \<open>The request that is sent to the broker has exactly the request line and the two headers, each ended by a carriage return and a
  newline, and then an empty line: a name that the resolver accepts cannot add a line. The broker reads from the target the name, without
  one more dot at its end, and the port.\<close>

theorem connect_request_safe:
  assumes "is_host_name n" "1 \<le> port" "port \<le> 65535"
  shows "split_on newline (connect_request n port token)
           = map (\<lambda>l. l @ [carriage_return]) (request_lines n port token) @ [[]] \<and>
         split_connect_target (connect_host n port)
           = (if trim_suffix n ''.'' = [] then None else Some (trim_suffix n ''.'', port))"
  using split_lines [OF request_lines_no_newline [OF assms(1)]] connect_host_read [OF assms]
  by (simp add: connect_request_lines)

lemma connect_request_safe_witness:
  "split_connect_target (connect_host ''example.org'' 443) = Some (''example.org'', 443)"
proof -
  have n: "is_host_name ''example.org''" by code_simp
  have d: "trim_suffix ''example.org'' ''.'' = ''example.org''" by code_simp
  from connect_request_safe [OF n, of 443 "''t''"] show ?thesis unfolding d by simp
qed

text \<open>A status line and header lines that fit give the status, and the bytes after the head are left for the connection.\<close>

lemma status_line_split:
  "split_n 3 CHR '' '' (''HTTP/1.1 '' @ itoa st @ CHR '' '' # reason) = [''HTTP/1.1'', itoa st, reason]"
proof -
  have a: "cut (''HTTP/1.1'' @ CHR '' '' # (itoa st @ CHR '' '' # reason)) CHR '' '' = (''HTTP/1.1'', itoa st @ CHR '' '' # reason, True)"
    by (rule cut_hit) simp
  have b: "cut (itoa st @ CHR '' '' # reason) CHR '' '' = (itoa st, reason, True)"
    by (rule cut_hit) (rule itoa_lacks, simp add: is_space_def)
  show ?thesis using a b by (simp add: numeral_3_eq_3)
qed

theorem connect_response_read:
  assumes status: "100 \<le> st" "st \<le> 999"
    and reason: "newline \<notin> set reason" "reason = [] \<or> last reason \<noteq> carriage_return"
    and fits: "list_all header_line_ok ls" "10 + length (itoa st) + length reason + sum_list (map length ls) + 2 \<le> maximum_head_bytes"
  shows "read_connect_response (''HTTP/1.1 '' @ itoa st @ '' '' @ reason @ crlf @ concat (map (\<lambda>l. l @ crlf) ls) @ crlf @ body)
     = Ok (st, body)"
proof -
  define line where "line = ''HTTP/1.1 '' @ itoa st @ CHR '' '' # reason"
  have n: "newline \<notin> set line" "length line = 10 + length (itoa st) + length reason"
    using reason(1) itoa_lacks [of newline st] by (auto simp: line_def is_space_def)
  have e: "line = [] \<or> last line \<noteq> carriage_return" using reason(2) by (auto simp: line_def)
  have r: "read_head_line (line @ crlf @ s) = Ok (line, s)" for s
    by (rule read_head_line_plain [OF n(1) _ e]) (use n(2) fits(2) in simp)
  have p: "has_prefix ''HTTP/1.1'' ''HTTP/1.''" by code_simp
  have a: "atoi (itoa st) = Some st" using status by (intro atoi_itoa) (simp_all add: int64_min_def int64_max_def)
  have h: "read_headers st (length line) (concat (map (\<lambda>l. l @ crlf) ls) @ crlf @ body) = Ok (st, body)"
    by (rule read_headers_plain [OF fits(1)]) (use n(2) fits(2) in simp)
  have "read_connect_response (line @ crlf @ concat (map (\<lambda>l. l @ crlf) ls) @ crlf @ body) = Ok (st, body)"
    unfolding read_connect_response_def r bind_res_simps prod.case
    unfolding line_def status_line_split using p a status h by (simp add: line_def)
  then show ?thesis by (simp add: line_def)
qed

lemma connect_response_read_witness:
  "read_connect_response (''HTTP/1.1 '' @ itoa 200 @ '' '' @ ''OK'' @ crlf @ concat (map (\<lambda>l. l @ crlf) [''Via: prison'']) @ crlf @ ''hello'')
     = Ok (200, ''hello'')"
proof (rule connect_response_read)
  show "newline \<notin> set ''OK''" "''OK'' = [] \<or> last ''OK'' \<noteq> carriage_return" by simp_all
  show "list_all header_line_ok [''Via: prison'']" by (simp add: header_line_ok_def maximum_head_bytes_def)
  show "10 + length (itoa 200) + length ''OK'' + sum_list (map length [''Via: prison'']) + 2 \<le> maximum_head_bytes"
    by (simp add: maximum_head_bytes_def) code_simp
qed simp_all

text \<open>C5. Whatever the box asks its resolver and whatever lists the broker sends: the tunnel opens a connection only for a sentinel address that
  the resolver gave to the name, under a host name that the current list permits at the port, with exactly the request for that name, and
  after the broker answered 200.\<close>

theorem guest_tunnel_confined:
  assumes "handle_tunnel net reset d (resolver_run dl new_resolver events) destination = Spliced name port remaining"
  shows "\<exists>address port_word stream.
     destination = Some (address, port_word) \<and> port = uint port_word \<and>
     lookup_sentinel (rs_sentinels (resolver_run dl new_resolver events)) address = Some name \<and>
     is_host_name name \<and> permits (resolver_run dl new_resolver events) name port \<and>
     net (bd_address d) (connect_request name port (bd_token d)) = Sends stream \<and>
     read_connect_response stream = Ok (200, remaining)"
proof -
  define r where "r = resolver_run dl new_resolver events"
  have ok: "resolver_ok r" unfolding r_def by (rule resolver_run_ok [OF resolver_ok_new])
  from assms [folded r_def] obtain address w where d: "destination = Some (address, w)" "port = uint w"
      and l: "lookup_sentinel (rs_sentinels r) address = Some name" and p: "permits r name port"
      and c: "dial_connect net reset d name port = Ok remaining"
    by (auto simp: handle_tunnel_def Let_def split: option.splits prod.splits if_splits sum.splits)
  from c obtain stream where "net (bd_address d) (connect_request name port (bd_token d)) = Sends stream"
      "read_connect_response stream = Ok (200, remaining)"
    by (auto simp: dial_connect_def bind_res_Ok split: dial_outcome.splits if_splits)
  moreover have "is_host_name name" using ok l by (simp add: resolver_ok_def)
  ultimately show ?thesis using d l p unfolding r_def by blast
qed

definition example_dns :: dns_library where
  "example_dns = \<lparr>dl_parse = (\<lambda>packet. Some \<lparr>dp_id = 0, dp_response = False, dp_op_code = 0, dp_recursion_desired = True,
      dp_questions = [\<lparr>dq_name = packet, dq_type = 1, dq_class = 1\<rparr>], dp_ended = True\<rparr>),
    dl_build = (\<lambda>response. Some [])\<rparr>"

definition example_hosts :: allow_list where
  "example_hosts = [\<lparr>pat_host = ''a.org'', pat_wildcard = False, pat_all_ports = True, pat_ports = []\<rparr>]"

definition example_dialer :: broker_dialer where
  "example_dialer = \<lparr>bd_address = ''192.168.64.1:8787'', bd_token = ''t''\<rparr>"

definition example_network :: network_side where
  "example_network address sent = Sends (''HTTP/1.1 '' @ itoa 200 @ '' '' @ ''OK'' @ crlf @ concat (map (\<lambda>l. l @ crlf) []) @ crlf @ ''x'')"

lemma example_run:
  "lookup_sentinel (rs_sentinels (resolver_run example_dns new_resolver [Replace_List example_hosts, Query ''a.org'']))
     (Addr4 first_sentinel) = Some ''a.org''"
  "permits (resolver_run example_dns new_resolver [Replace_List example_hosts, Query ''a.org'']) ''a.org'' 443"
proof -
  have n: "normalize_name ''a.org'' = ''a.org''" "is_host_name ''a.org''" "host_matches example_hosts ''a.org''"
    "allowed (allows example_hosts ''a.org'' 443)" by code_simp+
  have t: "take maximum_query_bytes ''a.org'' = ''a.org''" by (simp add: maximum_query_bytes_def)
  have s: "allocate ''a.org'' new_sentinel_allocator = (Some (Addr4 first_sentinel), new_sentinel_allocator
      \<lparr>sa_next_offset := 1, sa_address_by_name := [''a.org'' \<mapsto> Addr4 first_sentinel],
       sa_name_by_address := [Addr4 first_sentinel \<mapsto> ''a.org'']\<rparr>)"
    by (simp add: allocate_def new_sentinel_allocator_def address_at_offset_def Let_def first_sentinel_def last_sentinel_def)
  have run: "resolver_run example_dns new_resolver [Replace_List example_hosts, Query ''a.org'']
    = new_resolver\<lparr>rs_allow_list := example_hosts, rs_sentinels := new_sentinel_allocator
      \<lparr>sa_next_offset := 1, sa_address_by_name := [''a.org'' \<mapsto> Addr4 first_sentinel],
       sa_name_by_address := [Addr4 first_sentinel \<mapsto> ''a.org'']\<rparr>\<rparr>"
    by (simp add: resolver_run_def t dns_answer_def example_dns_def answer_name_def Let_def n(1) n(2) resolves_def n(3) type_a_def
        class_inet_def new_resolver_def s)
  show "lookup_sentinel (rs_sentinels (resolver_run example_dns new_resolver [Replace_List example_hosts, Query ''a.org'']))
     (Addr4 first_sentinel) = Some ''a.org''" unfolding run by (simp add: lookup_sentinel_def)
  show "permits (resolver_run example_dns new_resolver [Replace_List example_hosts, Query ''a.org'']) ''a.org'' 443"
    unfolding run permits_def using n(4) by simp
qed

lemma example_connect: "dial_connect example_network True example_dialer ''a.org'' 443 = Ok ''x''"
proof -
  have l: "length (itoa 200) = 3" by code_simp
  have "read_connect_response (''HTTP/1.1 '' @ itoa 200 @ '' '' @ ''OK'' @ crlf @ concat (map (\<lambda>l. l @ crlf) []) @ crlf @ ''x'') = Ok (200, ''x'')"
    by (rule connect_response_read) (simp_all add: l maximum_head_bytes_def)
  then show ?thesis unfolding dial_connect_def example_network_def by (simp only: dial_outcome.case bind_res_simps) simp
qed

lemma guest_tunnel_confined_witness: "\<exists>address port_word stream. (443 :: int) = uint (port_word :: 16 word) \<and>
   lookup_sentinel (rs_sentinels (resolver_run example_dns new_resolver [Replace_List example_hosts, Query ''a.org''])) address
     = Some ''a.org'' \<and>
   example_network (bd_address example_dialer) (connect_request ''a.org'' 443 (bd_token example_dialer)) = Sends stream"
proof -
  have "handle_tunnel example_network True example_dialer
      (resolver_run example_dns new_resolver [Replace_List example_hosts, Query ''a.org'']) (Some (Addr4 first_sentinel, 443))
    = Spliced ''a.org'' 443 ''x''"
    using example_run example_connect by (simp add: handle_tunnel_def)
  from guest_tunnel_confined [OF this] show ?thesis by blast
qed

text \<open>A program that resolves a name and connects to the address reaches the broker under that name, however many other names are resolved
  and lists replaced in between, when the list at the time of the connection permits it and the broker answers 200.\<close>

theorem resolved_name_connects:
  assumes asked: "answer_name q (resolver_run dl new_resolver events) = ((Success, Some address), r1)"
    and later: "r2 = resolver_run dl r1 more_events"
    and name: "name = normalize_name (dq_name q)"
    and permitted: "permits r2 name (uint port_word)"
    and broker: "net (bd_address d) (connect_request name (uint port_word) (bd_token d)) = Sends stream"
      "read_connect_response stream = Ok (200, remaining)"
  shows "handle_tunnel net True d r2 (Some (address, port_word)) = Spliced name (uint port_word) remaining"
proof -
  have ok: "resolver_ok (resolver_run dl new_resolver events)" by (rule resolver_run_ok [OF resolver_ok_new])
  then have s: "sentinels_ok (rs_sentinels (resolver_run dl new_resolver events))" by (simp add: resolver_ok_def)
  from asked have "lookup_sentinel (rs_sentinels r1) address = Some name"
  proof (cases rule: answer_name_cases)
    case (given b)
    then show ?thesis using sentinels.give_name [OF s given(4)] name by simp
  qed simp_all
  from resolver_run_keeps [OF answer_name_ok [OF ok asked] this]
  have "lookup_sentinel (rs_sentinels r2) address = Some name" unfolding later .
  moreover have "dial_connect net True d name (uint port_word) = Ok remaining"
    using broker by (simp add: dial_connect_def)
  ultimately show ?thesis using permitted by (simp add: handle_tunnel_def)
qed

end
