(* ===== verification/Guest_Firewall.thy ===== *)
theory Guest_Firewall
  imports Guest_Names
begin

text \<open>
  \<open>internal/guest/gateway.go\<close> and \<open>firewall_linux.go\<close>: how the box finds its gateway and the rules that confine it. The rules are
  text for \<open>iptables-restore\<close>; beside the text there is a list of rules with the meaning that \<open>iptables\<close> documents, and a lemma that the
  text is the one of the list.
\<close>

section \<open>The gateway\<close>

fun via_address :: "ipv6_forms \<Rightarrow> string list \<Rightarrow> addr option" where
  "via_address v (field # value # fs) =
     (case (if field = ''via'' then parse_addr v value else None) of
        Some a \<Rightarrow> Some a
      | None \<Rightarrow> via_address v (value # fs))"
| "via_address v fs = None"

fun first_some :: "('a \<Rightarrow> 'b option) \<Rightarrow> 'a list \<Rightarrow> 'b option" where
  "first_some f [] = None"
| "first_some f (x # xs) = (case f x of Some y \<Rightarrow> Some y | None \<Rightarrow> first_some f xs)"

definition parse_ip_route_default :: "ipv6_forms \<Rightarrow> string \<Rightarrow> addr option" where
  "parse_ip_route_default v output_text =
     first_some (\<lambda>line. via_address v (Go_Prelude.fields line)) (split_on newline output_text)"

datatype gateway_error = Table_Empty | Gateway_Not_Hex string | No_Default_Route | Route_Not_Readable

definition hex_value :: "char \<Rightarrow> nat option" where
  "hex_value c = (let n = of_char c :: nat in
     if 48 \<le> n \<and> n \<le> 57 then Some (n - 48)
     else if 97 \<le> n \<and> n \<le> 102 then Some (n - 87)
     else if 65 \<le> n \<and> n \<le> 70 then Some (n - 55) else None)"

text \<open>\<open>ParseUint\<close> with base 16 and 32 bits.\<close>

definition parse_hex32 :: "string \<Rightarrow> 32 word option" where
  "parse_hex32 s =
     (if s = [] then None
      else case all_some (map hex_value s) of
        None \<Rightarrow> None
      | Some ds \<Rightarrow> (let n = foldl (\<lambda>n d. n * 16 + d) 0 ds in if n < 4294967296 then Some (of_nat n) else None))"

text \<open>The kernel writes the bytes of the address in its own order, which is little-endian.\<close>

fun first_route :: "string list \<Rightarrow> (gateway_error, addr) result" where
  "first_route [] = Err No_Default_Route"
| "first_route (line # ls) =
     (case Go_Prelude.fields line of
        _ # destination # gateway # _ \<Rightarrow>
          if destination \<noteq> ''00000000'' then first_route ls
          else (case parse_hex32 gateway of
                  None \<Rightarrow> Err (Gateway_Not_Hex gateway)
                | Some raw \<Rightarrow> Ok (Addr4 (bytes_addr (rev (addr_bytes raw)))))
      | _ \<Rightarrow> first_route ls)"

definition parse_proc_net_route :: "string \<Rightarrow> (gateway_error, addr) result" where
  "parse_proc_net_route content =
     (let lines = split_on newline content in if length lines < 2 then Err Table_Empty else first_route (tl lines))"

text \<open>What \<open>ip route show default\<close> prints, if it succeeds, and the routing table of the kernel, if it can be read.\<close>

definition default_gateway :: "ipv6_forms \<Rightarrow> string option \<Rightarrow> string option \<Rightarrow> (gateway_error, addr) result" where
  "default_gateway v ip_output proc_table =
     (case Option.bind ip_output (parse_ip_route_default v) of
        Some a \<Rightarrow> Ok a
      | None \<Rightarrow> (case proc_table of None \<Rightarrow> Err Route_Not_Readable | Some content \<Rightarrow> parse_proc_net_route content))"

section \<open>The text of the rules\<close>

definition tunnel_port :: int where "tunnel_port = 8790"
definition sentinel_network :: string where "sentinel_network = ''127.99.0.0/16''"

definition firewall_rules_v4 :: "ipv6_forms \<Rightarrow> addr \<Rightarrow> int \<Rightarrow> int list \<Rightarrow> string" where
  "firewall_rules_v4 v gateway broker_port gateway_ports =
     (let gatewayText = addr_text v gateway;
          ls1 =
            [''*filter'',
             '':INPUT DROP [0:0]'',
             '':FORWARD DROP [0:0]'',
             '':OUTPUT DROP [0:0]'',
             ''-A INPUT -i lo -j ACCEPT'',
             ''-A OUTPUT -o lo -j ACCEPT'',
             ''-A INPUT -m conntrack --ctstate ESTABLISHED,RELATED -j ACCEPT'',
             ''-A OUTPUT -m conntrack --ctstate ESTABLISHED,RELATED -j ACCEPT'',
             ''-A INPUT -s '' @ gatewayText @ '' -j ACCEPT'',
             ''-A OUTPUT -d '' @ gatewayText @ '' -p udp --dport 67 -j ACCEPT'',
             ''-A OUTPUT -d '' @ gatewayText @ '' -p tcp --dport '' @ itoa broker_port @ '' -j ACCEPT''];
          ls2 = map (\<lambda>port. ''-A OUTPUT -d '' @ gatewayText @ '' -p tcp --dport '' @ itoa port @ '' -j ACCEPT'') gateway_ports;
          ls3 =
            [''-A OUTPUT -p tcp -j REJECT --reject-with tcp-reset'',
             ''-A OUTPUT -j REJECT --reject-with icmp-port-unreachable'',
             ''COMMIT'',
             ''*nat'',
             '':PREROUTING ACCEPT [0:0]'',
             '':INPUT ACCEPT [0:0]'',
             '':OUTPUT ACCEPT [0:0]'',
             '':POSTROUTING ACCEPT [0:0]'',
             ''-A OUTPUT -d '' @ sentinel_network @ '' -p tcp -j REDIRECT --to-ports '' @ itoa tunnel_port,
             ''COMMIT'']
      in join [newline] (ls1 @ ls2 @ ls3) @ [newline])"

definition firewall_rules_v6 :: string where
  "firewall_rules_v6 =
     join [newline]
       [''*filter'',
        '':INPUT DROP [0:0]'',
        '':FORWARD DROP [0:0]'',
        '':OUTPUT DROP [0:0]'',
        ''-A INPUT -i lo -j ACCEPT'',
        ''-A OUTPUT -o lo -j ACCEPT'',
        ''-A INPUT -m conntrack --ctstate ESTABLISHED,RELATED -j ACCEPT'',
        ''-A OUTPUT -m conntrack --ctstate ESTABLISHED,RELATED -j ACCEPT'',
        ''-A INPUT -p ipv6-icmp -j ACCEPT'',
        ''-A OUTPUT -p ipv6-icmp -j ACCEPT'',
        ''-A OUTPUT -p tcp -j REJECT --reject-with tcp-reset'',
        ''-A OUTPUT -j REJECT --reject-with icmp6-port-unreachable'',
        ''COMMIT''] @ [newline]"

text \<open>The file of the rules, the programs that restore them and the end: a program that fails ends the installation, and the file is
  removed after each program. \<open>run\<close> tells whether a program succeeds.\<close>

definition firewall_rules_file :: string where "firewall_rules_file = ''/run/prison-firewall''"

datatype firewall_action = Write_Rules string | Restore string | Remove_Rules

fun install_restores :: "(string \<Rightarrow> bool) \<Rightarrow> (string \<Rightarrow> string \<Rightarrow> bool) \<Rightarrow> (string \<times> string) list \<Rightarrow> firewall_action list \<times> bool" where
  "install_restores can_write run [] = ([], True)"
| "install_restores can_write run ((program, rules) # rs) =
     (if \<not> can_write rules then ([], False)
      else if \<not> run program rules then ([Write_Rules rules, Restore program, Remove_Rules], False)
      else (case install_restores can_write run rs of
              (actions, ok) \<Rightarrow> ([Write_Rules rules, Restore program, Remove_Rules] @ actions, ok)))"

definition install_box_firewall ::
  "(string \<Rightarrow> bool) \<Rightarrow> (string \<Rightarrow> string \<Rightarrow> bool) \<Rightarrow> ipv6_forms \<Rightarrow> addr \<Rightarrow> int \<Rightarrow> int list \<Rightarrow> firewall_action list \<times> bool" where
  "install_box_firewall can_write run v gateway broker_port gateway_ports =
     install_restores can_write run
       [(''iptables-restore'', firewall_rules_v4 v gateway broker_port gateway_ports),
        (''ip6tables-restore'', firewall_rules_v6)]"

section \<open>The meaning of the rules\<close>

datatype protocol = Tcp | Udp | Icmp6 | Other_Protocol nat

record packet =
  pk_loopback :: bool
  pk_established :: bool
  pk_source :: addr
  pk_target :: addr
  pk_protocol :: protocol
  pk_target_port :: int

datatype chain = Input_Chain | Output_Chain

datatype condition = On_Loopback | Established | From addr | To addr | To_Sentinels | Protocol protocol | To_Port int

datatype verdict = Accept | Reject_Reset | Reject_Port | Reject_Port6 | Redirect int

record fw_rule =
  fr_chain :: chain
  fr_conditions :: "condition list"
  fr_verdict :: verdict

definition in_sentinel_network :: "addr \<Rightarrow> bool" where
  "in_sentinel_network a = (case a of Addr4 w \<Rightarrow> drop_bit 16 w = 0x7F63 | Addr6 w \<Rightarrow> False)"

fun holds :: "packet \<Rightarrow> condition \<Rightarrow> bool" where
  "holds p On_Loopback = pk_loopback p"
| "holds p Established = pk_established p"
| "holds p (From a) = (pk_source p = a)"
| "holds p (To a) = (pk_target p = a)"
| "holds p To_Sentinels = in_sentinel_network (pk_target p)"
| "holds p (Protocol q) = (pk_protocol p = q)"
| "holds p (To_Port n) = (pk_target_port p = n)"

text \<open>The first rule of the chain of which all conditions hold decides, and without one the policy of the chain does.\<close>

fun fw_decide :: "verdict option \<Rightarrow> fw_rule list \<Rightarrow> chain \<Rightarrow> packet \<Rightarrow> verdict option" where
  "fw_decide policy [] c p = policy"
| "fw_decide policy (r # rs) c p =
     (if fr_chain r = c \<and> list_all (holds p) (fr_conditions r) then Some (fr_verdict r) else fw_decide policy rs c p)"

definition fw_accepts :: "fw_rule list \<Rightarrow> chain \<Rightarrow> packet \<Rightarrow> bool" where
  "fw_accepts rules c p \<longleftrightarrow> fw_decide None rules c p = Some Accept"

definition box_rules_v4 :: "addr \<Rightarrow> int \<Rightarrow> int list \<Rightarrow> fw_rule list" where
  "box_rules_v4 gateway broker_port gateway_ports =
     [\<lparr>fr_chain = Input_Chain, fr_conditions = [On_Loopback], fr_verdict = Accept\<rparr>,
      \<lparr>fr_chain = Output_Chain, fr_conditions = [On_Loopback], fr_verdict = Accept\<rparr>,
      \<lparr>fr_chain = Input_Chain, fr_conditions = [Established], fr_verdict = Accept\<rparr>,
      \<lparr>fr_chain = Output_Chain, fr_conditions = [Established], fr_verdict = Accept\<rparr>,
      \<lparr>fr_chain = Input_Chain, fr_conditions = [From gateway], fr_verdict = Accept\<rparr>,
      \<lparr>fr_chain = Output_Chain, fr_conditions = [To gateway, Protocol Udp, To_Port 67], fr_verdict = Accept\<rparr>,
      \<lparr>fr_chain = Output_Chain, fr_conditions = [To gateway, Protocol Tcp, To_Port broker_port], fr_verdict = Accept\<rparr>] @
     map (\<lambda>port. \<lparr>fr_chain = Output_Chain, fr_conditions = [To gateway, Protocol Tcp, To_Port port], fr_verdict = Accept\<rparr>) gateway_ports @
     [\<lparr>fr_chain = Output_Chain, fr_conditions = [Protocol Tcp], fr_verdict = Reject_Reset\<rparr>,
      \<lparr>fr_chain = Output_Chain, fr_conditions = [], fr_verdict = Reject_Port\<rparr>]"

definition box_nat_rules :: "fw_rule list" where
  "box_nat_rules = [\<lparr>fr_chain = Output_Chain, fr_conditions = [To_Sentinels, Protocol Tcp], fr_verdict = Redirect tunnel_port\<rparr>]"

definition box_rules_v6 :: "fw_rule list" where
  "box_rules_v6 =
     [\<lparr>fr_chain = Input_Chain, fr_conditions = [On_Loopback], fr_verdict = Accept\<rparr>,
      \<lparr>fr_chain = Output_Chain, fr_conditions = [On_Loopback], fr_verdict = Accept\<rparr>,
      \<lparr>fr_chain = Input_Chain, fr_conditions = [Established], fr_verdict = Accept\<rparr>,
      \<lparr>fr_chain = Output_Chain, fr_conditions = [Established], fr_verdict = Accept\<rparr>,
      \<lparr>fr_chain = Input_Chain, fr_conditions = [Protocol Icmp6], fr_verdict = Accept\<rparr>,
      \<lparr>fr_chain = Output_Chain, fr_conditions = [Protocol Icmp6], fr_verdict = Accept\<rparr>,
      \<lparr>fr_chain = Output_Chain, fr_conditions = [Protocol Tcp], fr_verdict = Reject_Reset\<rparr>,
      \<lparr>fr_chain = Output_Chain, fr_conditions = [], fr_verdict = Reject_Port6\<rparr>]"

text \<open>How a rule is written.\<close>

fun protocol_text :: "protocol \<Rightarrow> string" where
  "protocol_text Tcp = ''tcp''"
| "protocol_text Udp = ''udp''"
| "protocol_text Icmp6 = ''ipv6-icmp''"
| "protocol_text (Other_Protocol n) = nat_text n"

fun condition_text :: "ipv6_forms \<Rightarrow> chain \<Rightarrow> condition \<Rightarrow> string" where
  "condition_text v Input_Chain On_Loopback = ''-i lo ''"
| "condition_text v Output_Chain On_Loopback = ''-o lo ''"
| "condition_text v c Established = ''-m conntrack --ctstate ESTABLISHED,RELATED ''"
| "condition_text v c (From a) = ''-s '' @ addr_text v a @ '' ''"
| "condition_text v c (To a) = ''-d '' @ addr_text v a @ '' ''"
| "condition_text v c To_Sentinels = ''-d '' @ sentinel_network @ '' ''"
| "condition_text v c (Protocol q) = ''-p '' @ protocol_text q @ '' ''"
| "condition_text v c (To_Port n) = ''--dport '' @ itoa n @ '' ''"

fun verdict_text :: "verdict \<Rightarrow> string" where
  "verdict_text Accept = ''-j ACCEPT''"
| "verdict_text Reject_Reset = ''-j REJECT --reject-with tcp-reset''"
| "verdict_text Reject_Port = ''-j REJECT --reject-with icmp-port-unreachable''"
| "verdict_text Reject_Port6 = ''-j REJECT --reject-with icmp6-port-unreachable''"
| "verdict_text (Redirect n) = ''-j REDIRECT --to-ports '' @ itoa n"

definition rule_text :: "ipv6_forms \<Rightarrow> fw_rule \<Rightarrow> string" where
  "rule_text v r =
     (case fr_chain r of Input_Chain \<Rightarrow> ''-A INPUT '' | Output_Chain \<Rightarrow> ''-A OUTPUT '') @
     concat (map (condition_text v (fr_chain r)) (fr_conditions r)) @ verdict_text (fr_verdict r)"

definition filter_head :: "string list" where
  "filter_head = [''*filter'', '':INPUT DROP [0:0]'', '':FORWARD DROP [0:0]'', '':OUTPUT DROP [0:0]'']"

definition nat_head :: "string list" where
  "nat_head = [''COMMIT'', ''*nat'', '':PREROUTING ACCEPT [0:0]'', '':INPUT ACCEPT [0:0]'', '':OUTPUT ACCEPT [0:0]'', '':POSTROUTING ACCEPT [0:0]'']"

section \<open>Lemmas\<close>

text \<open>The text is the one of the rules.\<close>

lemma rules_v4_text:
  "firewall_rules_v4 v gateway broker_port gateway_ports =
     join [newline] (filter_head @ map (rule_text v) (box_rules_v4 gateway broker_port gateway_ports) @ nat_head
       @ map (rule_text v) box_nat_rules @ [''COMMIT'']) @ [newline]"
proof -
  have p: "itoa 67 = ''67''" by code_simp
  show ?thesis
    by (simp add: firewall_rules_v4_def box_rules_v4_def box_nat_rules_def rule_text_def filter_head_def nat_head_def Let_def p comp_def)
qed

lemma rules_v6_text:
  "firewall_rules_v6 = join [newline] (filter_head @ map (rule_text v) box_rules_v6 @ [''COMMIT'']) @ [newline]"
  by (simp add: firewall_rules_v6_def box_rules_v6_def rule_text_def filter_head_def)

lemma fw_decide_append:
  "fw_decide policy (rs @ qs) c p = fw_decide (fw_decide policy qs c p) rs c p"
  by (induction rs) auto

lemma fw_decide_ports:
  "fw_decide policy (map (\<lambda>port. \<lparr>fr_chain = Output_Chain, fr_conditions = [To g, Protocol Tcp, To_Port port], fr_verdict = Accept\<rparr>) ports)
     Output_Chain p
   = (if pk_target p = g \<and> pk_protocol p = Tcp \<and> pk_target_port p \<in> set ports then Some Accept else policy)"
  by (induction ports) auto

lemma sentinels_in_network: "x \<in> used_sentinels n \<Longrightarrow> n \<le> 65534 \<Longrightarrow> in_sentinel_network x"
proof -
  assume "x \<in> used_sentinels n" "n \<le> 65534"
  then obtain w where x: "x = Addr4 w" and w: "first_sentinel \<le> w" "w \<le> last_sentinel" using used_in_network by blast
  have "unat w div 65536 = 32611"
    using w by (simp add: first_sentinel_def last_sentinel_def word_le_nat_alt)
  then have "drop_bit 16 w = (0x7F63 :: 32 word)"
    by (simp add: word_unat_eq_iff unsigned_drop_bit_eq drop_bit_eq_div unat_div)
  then show ?thesis by (simp add: x in_sentinel_network_def)
qed

lemma box_output_v4:
  "fw_accepts (box_rules_v4 gateway broker_port gateway_ports) Output_Chain p \<longleftrightarrow>
     pk_loopback p \<or> pk_established p \<or>
     (pk_target p = gateway \<and>
      ((pk_protocol p = Udp \<and> pk_target_port p = 67) \<or>
       (pk_protocol p = Tcp \<and> pk_target_port p \<in> set (broker_port # gateway_ports))))"
  unfolding fw_accepts_def box_rules_v4_def by (auto simp: fw_decide_append fw_decide_ports)

lemma fw_decide_ports_input:
  "fw_decide policy (map (\<lambda>port. \<lparr>fr_chain = Output_Chain, fr_conditions = [To g, Protocol Tcp, To_Port port], fr_verdict = Accept\<rparr>) ports)
     Input_Chain p = policy"
  by (induction ports) auto

lemma box_input_v4:
  "fw_accepts (box_rules_v4 gateway broker_port gateway_ports) Input_Chain p \<longleftrightarrow>
     pk_loopback p \<or> pk_established p \<or> pk_source p = gateway"
  unfolding fw_accepts_def box_rules_v4_def by (auto simp: fw_decide_append fw_decide_ports_input)

lemma box_output_v6: "fw_accepts box_rules_v6 Output_Chain p \<longleftrightarrow> pk_loopback p \<or> pk_established p \<or> pk_protocol p = Icmp6"
  unfolding fw_accepts_def box_rules_v6_def by auto

section \<open>Properties\<close>


text \<open>A TCP connection to an address that the resolver gave out goes to the tunnel.\<close>

theorem sentinels_redirected:
  assumes "sentinels_ok a" "lookup_sentinel a address = Some name" "pk_target p = unmap_addr address" "pk_protocol p = Tcp"
  shows "fw_decide (Some Accept) box_nat_rules Output_Chain p = Some (Redirect tunnel_port)"
proof -
  have "unmap_addr address \<in> used_sentinels (sa_next_offset a)" "sa_next_offset a \<le> 65534"
    using assms(1,2) by (auto simp: sentinels_ok_def lookup_sentinel_def offset_small)
  then have "in_sentinel_network (pk_target p)" using sentinels_in_network assms(3) by simp
  then show ?thesis using assms(4) by (simp add: box_nat_rules_def)
qed

end
