(* ===== verification/Go_Json.thy ===== *)
theory Go_Json
  imports Go_Prelude
begin

text \<open>
  The part of \<open>encoding/json\<close> that the program uses between its own parts: values of strings, whole numbers, constants, lists and
  objects, the text that \<open>Marshal\<close> writes and the parser of \<open>Unmarshal\<close>.

  A byte from 128 is passed on; the library checks that such bytes are UTF-8. Numbers with a fraction or an exponent, which the
  program does not use, and the limit of 10000 on the nesting are left out.
\<close>

datatype json_value =
  JNull
| JBool bool
| JInt int
| JStr string
| JArr "json_value list"
| JObj "(string \<times> json_value) list"

abbreviation dquote :: char where "dquote \<equiv> CHR 0x22"

section \<open>Strings\<close>

definition hex_digit :: "nat \<Rightarrow> char" where
  "hex_digit n = (if n < 10 then char_of (48 + n) else char_of (87 + n))"

definition hex_number :: "char \<Rightarrow> nat option" where
  "hex_number c = (let n = of_char c :: nat in
     if 48 \<le> n \<and> n \<le> 57 then Some (n - 48)
     else if 97 \<le> n \<and> n \<le> 102 then Some (n - 87)
     else if 65 \<le> n \<and> n \<le> 70 then Some (n - 55) else None)"

definition json_escape :: "char \<Rightarrow> string" where
  "json_escape c =
     (let n = of_char c :: nat in
      if c = dquote \<or> c = backslash then [backslash, c]
      else if n = 8 then [backslash, CHR ''b'']
      else if n = 12 then [backslash, CHR ''f'']
      else if n = 10 then [backslash, CHR ''n'']
      else if n = 13 then [backslash, CHR ''r'']
      else if n = 9 then [backslash, CHR ''t'']
      else if n < 32 \<or> c = CHR ''<'' \<or> c = CHR ''>'' \<or> c = CHR ''&''
      then [backslash, CHR ''u'', CHR ''0'', CHR ''0'', hex_digit (n div 16), hex_digit (n mod 16)]
      else [c])"

definition json_string :: "string \<Rightarrow> string" where
  "json_string s = dquote # concat (map json_escape s) @ [dquote]"

definition unescape :: "char \<Rightarrow> char option" where
  "unescape e =
     (if e = dquote \<or> e = backslash \<or> e = CHR ''/'' then Some e
      else if e = CHR ''b'' then Some CHR 0x08
      else if e = CHR ''f'' then Some CHR 0x0C
      else if e = CHR ''n'' then Some newline
      else if e = CHR ''r'' then Some carriage_return
      else if e = CHR ''t'' then Some tab
      else None)"

text \<open>The UTF-8 bytes of a code point.\<close>

definition utf8_encode :: "nat \<Rightarrow> string" where
  "utf8_encode n =
     (if n < 128 then [char_of n]
      else if n < 2048 then [char_of (192 + n div 64), char_of (128 + n mod 64)]
      else if n < 65536 then [char_of (224 + n div 4096), char_of (128 + n div 64 mod 64), char_of (128 + n mod 64)]
      else [char_of (240 + n div 262144), char_of (128 + n div 4096 mod 64), char_of (128 + n div 64 mod 64), char_of (128 + n mod 64)])"

definition hex4 :: "string \<Rightarrow> nat option" where
  "hex4 s = (case s of
       a # b # c # d # _ \<Rightarrow>
         (case (hex_number a, hex_number b, hex_number c, hex_number d) of
            (Some i, Some j, Some k, Some l) \<Rightarrow> Some (((i * 16 + j) * 16 + k) * 16 + l)
          | _ \<Rightarrow> None)
     | _ \<Rightarrow> None)"

definition replacement_rune :: string where "replacement_rune = utf8_encode 65533"

text \<open>The text of a \<open>\u\<close> escape and what follows: two escapes are one code point when they are a pair of surrogates.\<close>

definition unicode_escape :: "string \<Rightarrow> (string \<times> string) option" where
  "unicode_escape r =
     (case hex4 r of
        None \<Rightarrow> None
      | Some n \<Rightarrow>
          if n < 55296 \<or> 57343 < n then Some (utf8_encode n, drop 4 r)
          else (case drop 4 r of
                  b # u # r2 \<Rightarrow>
                    (case (if b = backslash \<and> u = CHR ''u'' then hex4 r2 else None) of
                       Some m \<Rightarrow> if n < 56320 \<and> 56320 \<le> m \<and> m \<le> 57343
                         then Some (utf8_encode (65536 + (n - 55296) * 1024 + (m - 56320)), drop 4 r2)
                         else Some (replacement_rune, drop 4 r)
                     | None \<Rightarrow> Some (replacement_rune, drop 4 r))
                | _ \<Rightarrow> Some (replacement_rune, drop 4 r)))"

lemma unicode_escape_shorter: "unicode_escape r = Some (t, u) \<Longrightarrow> length u \<le> length r"
  by (auto simp: unicode_escape_def split: option.splits if_splits list.splits dest!: arg_cong [where f = length])

text \<open>A string after its first quote: the text and what follows the last quote.\<close>

function parse_str :: "string \<Rightarrow> (string \<times> string) option" where
  "parse_str s =
     (case s of
        [] \<Rightarrow> None
      | c # r \<Rightarrow>
          if c = dquote then Some ([], r)
          else if c = backslash then
            (case r of
               [] \<Rightarrow> None
             | e # r2 \<Rightarrow>
                 (case (if e = CHR ''u'' then unicode_escape r2 else map_option (\<lambda>x. ([x], r2)) (unescape e)) of
                    None \<Rightarrow> None
                  | Some (t, r3) \<Rightarrow> map_option (\<lambda>(t2, u). (t @ t2, u)) (parse_str r3)))
          else if (of_char c :: nat) < 32 then None
          else map_option (\<lambda>(t2, u). (c # t2, u)) (parse_str r))"
  by pat_completeness auto
termination
  by (relation "measure length") (auto split: if_splits dest: unicode_escape_shorter)

declare parse_str.simps [simp del]

section \<open>Values\<close>

fun json_text :: "json_value \<Rightarrow> string" where
  "json_text JNull = ''null''"
| "json_text (JBool b) = (if b then ''true'' else ''false'')"
| "json_text (JInt i) = itoa i"
| "json_text (JStr s) = json_string s"
| "json_text (JArr vs) = ''['' @ join '','' (map json_text vs) @ '']''"
| "json_text (JObj ms) = ''{'' @ join '','' (map (\<lambda>(k, v). json_string k @ '':'' @ json_text v) ms) @ ''}''"

definition json_space :: "char \<Rightarrow> bool" where
  "json_space c \<longleftrightarrow> c = CHR '' '' \<or> c = tab \<or> c = newline \<or> c = carriage_return"

definition skip_space :: "string \<Rightarrow> string" where "skip_space = dropWhile json_space"

text \<open>A whole number has no leading zero, no plus sign and no minus sign alone. The number ends where the digits do.\<close>

definition parse_json_number :: "string \<Rightarrow> (json_value \<times> string) option" where
  "parse_json_number s =
     (let (sign, t) = (case s of [] \<Rightarrow> (False, s) | c # r \<Rightarrow> if c = CHR ''-'' then (True, r) else (False, s));
          ds = takeWhile is_digit t; r = dropWhile is_digit t
      in if ds = [] \<or> (length ds > 1 \<and> hd ds = CHR ''0'') \<or> (r \<noteq> [] \<and> hd r \<in> {CHR ''.'', CHR ''e'', CHR ''E''}) then None
         else case parse_digits ds of None \<Rightarrow> None | Some n \<Rightarrow> Some (JInt (if sign then - int n else int n), r))"

definition parse_word :: "string \<Rightarrow> (json_value \<times> string) option" where
  "parse_word s =
     (if has_prefix s ''null'' then Some (JNull, drop 4 s)
      else if has_prefix s ''true'' then Some (JBool True, drop 4 s)
      else if has_prefix s ''false'' then Some (JBool False, drop 5 s)
      else parse_json_number s)"

text \<open>The fuel bounds the number of values and of list steps, of which there are at most two per byte.\<close>

fun parse_value :: "nat \<Rightarrow> string \<Rightarrow> (json_value \<times> string) option"
and parse_items :: "nat \<Rightarrow> string \<Rightarrow> (json_value list \<times> string) option"
and parse_members :: "nat \<Rightarrow> string \<Rightarrow> ((string \<times> json_value) list \<times> string) option" where
  "parse_value 0 s = None"
| "parse_value (Suc f) s =
     (case skip_space s of
        [] \<Rightarrow> None
      | c # r \<Rightarrow>
          if c = dquote then map_option (\<lambda>(t, u). (JStr t, u)) (parse_str r)
          else if c = CHR ''['' then
            (case skip_space r of
               [] \<Rightarrow> None
             | d # u \<Rightarrow> if d = CHR '']'' then Some (JArr [], u)
                         else map_option (\<lambda>(vs, u). (JArr vs, u)) (parse_items f r))
          else if c = CHR ''{'' then
            (case skip_space r of
               [] \<Rightarrow> None
             | d # u \<Rightarrow> if d = CHR ''}'' then Some (JObj [], u)
                         else map_option (\<lambda>(ms, u). (JObj ms, u)) (parse_members f r))
          else parse_word (c # r))"
| "parse_items 0 s = None"
| "parse_items (Suc f) s =
     (case parse_value f s of
        None \<Rightarrow> None
      | Some (v, r) \<Rightarrow>
          (case skip_space r of
             [] \<Rightarrow> None
           | c # u \<Rightarrow> if c = CHR '']'' then Some ([v], u)
                       else if c = CHR '','' then map_option (\<lambda>(vs, w). (v # vs, w)) (parse_items f u)
                       else None))"
| "parse_members 0 s = None"
| "parse_members (Suc f) s =
     (case skip_space s of
        [] \<Rightarrow> None
      | q # s1 \<Rightarrow>
          if q \<noteq> dquote then None
          else (case parse_str s1 of
                  None \<Rightarrow> None
                | Some (k, s2) \<Rightarrow>
                    (case skip_space s2 of
                       [] \<Rightarrow> None
                     | c # s3 \<Rightarrow>
                         if c \<noteq> CHR '':'' then None
                         else (case parse_value f s3 of
                                 None \<Rightarrow> None
                               | Some (v, r) \<Rightarrow>
                                   (case skip_space r of
                                      [] \<Rightarrow> None
                                    | d # u \<Rightarrow> if d = CHR ''}'' then Some ([(k, v)], u)
                                                else if d = CHR '','' then map_option (\<lambda>(ms, w). ((k, v) # ms, w)) (parse_members f u)
                                                else None)))))"

definition parse_json :: "string \<Rightarrow> json_value option" where
  "parse_json s =
     (case parse_value (2 * length s + 2) s of
        None \<Rightarrow> None
      | Some (v, r) \<Rightarrow> if skip_space r = [] then Some v else None)"

section \<open>Fields of an object\<close>

text \<open>A member sets the field whose name is the key, without regard to case. A later member wins, \<open>null\<close> sets nothing, or an empty list,
  and a value of another type is an error. A list element that is \<open>null\<close> is an empty text.\<close>

definition members_named :: "string \<Rightarrow> (string \<times> json_value) list \<Rightarrow> json_value list" where
  "members_named name ms = map snd (filter (\<lambda>(k, v). equal_fold k name) ms)"

fun read_last :: "'a \<Rightarrow> ('a \<Rightarrow> json_value \<Rightarrow> 'a option) \<Rightarrow> json_value list \<Rightarrow> 'a option" where
  "read_last x f [] = Some x"
| "read_last x f (v # vs) = Option.bind (f x v) (\<lambda>y. read_last y f vs)"

fun as_text :: "string \<Rightarrow> json_value \<Rightarrow> string option" where
  "as_text x (JStr s) = Some s"
| "as_text x JNull = Some x"
| "as_text x _ = None"

fun as_bool :: "bool \<Rightarrow> json_value \<Rightarrow> bool option" where
  "as_bool x (JBool b) = Some b"
| "as_bool x JNull = Some x"
| "as_bool x _ = None"

fun as_int :: "int \<Rightarrow> json_value \<Rightarrow> int option" where
  "as_int x (JInt i) = (if int64_min \<le> i \<and> i \<le> int64_max then Some i else None)"
| "as_int x JNull = Some x"
| "as_int x _ = None"

fun read_all :: "(json_value \<Rightarrow> 'a option) \<Rightarrow> json_value list \<Rightarrow> 'a list option" where
  "read_all f [] = Some []"
| "read_all f (v # vs) = Option.bind (f v) (\<lambda>x. map_option ((#) x) (read_all f vs))"

fun as_list :: "(json_value \<Rightarrow> 'a option) \<Rightarrow> 'a list \<Rightarrow> json_value \<Rightarrow> 'a list option" where
  "as_list f x (JArr vs) = read_all f vs"
| "as_list f x JNull = Some []"
| "as_list f x _ = None"

definition text_field :: "string \<Rightarrow> (string \<times> json_value) list \<Rightarrow> string option" where
  "text_field name ms = read_last [] as_text (members_named name ms)"

definition bool_field :: "string \<Rightarrow> (string \<times> json_value) list \<Rightarrow> bool option" where
  "bool_field name ms = read_last False as_bool (members_named name ms)"

definition int_field :: "string \<Rightarrow> (string \<times> json_value) list \<Rightarrow> int option" where
  "int_field name ms = read_last 0 as_int (members_named name ms)"

definition list_field :: "(json_value \<Rightarrow> 'a option) \<Rightarrow> string \<Rightarrow> (string \<times> json_value) list \<Rightarrow> 'a list option" where
  "list_field f name ms = read_last [] (as_list f) (members_named name ms)"

text \<open>A nil list is written as \<open>null\<close>; the model has no other empty list.\<close>

definition text_list :: "string list \<Rightarrow> json_value" where
  "text_list xs = (if xs = [] then JNull else JArr (map JStr xs))"

section \<open>Lemmas\<close>

lemma hex_number_digit: "n < 16 \<Longrightarrow> hex_number (hex_digit n) = Some n"
  by (auto simp: hex_number_def hex_digit_def Let_def)

lemma unescape_simps:
  "unescape dquote = Some dquote" "unescape backslash = Some backslash" "unescape CHR ''b'' = Some CHR 0x08"
  "unescape CHR ''f'' = Some CHR 0x0C" "unescape CHR ''n'' = Some newline" "unescape CHR ''r'' = Some carriage_return"
  "unescape CHR ''t'' = Some tab"
  by (simp_all add: unescape_def)

lemma parse_str_end: "parse_str (dquote # r) = Some ([], r)"
  by (simp add: parse_str.simps)

lemma parse_str_unescape:
  "unescape e = Some x \<Longrightarrow> e \<noteq> CHR ''u'' \<Longrightarrow>
   parse_str (backslash # e # r) = map_option (\<lambda>(t, u). (x # t, u)) (parse_str r)"
  by (subst parse_str.simps) simp

lemma parse_str_unicode:
  "unicode_escape r = Some (t, r2) \<Longrightarrow>
   parse_str (backslash # CHR ''u'' # r) = map_option (\<lambda>(t2, u). (t @ t2, u)) (parse_str r2)"
  by (subst parse_str.simps) simp

lemma parse_str_plain:
  "c \<noteq> dquote \<Longrightarrow> c \<noteq> backslash \<Longrightarrow> \<not> (of_char c :: nat) < 32 \<Longrightarrow>
   parse_str (c # r) = map_option (\<lambda>(t, u). (c # t, u)) (parse_str r)"
  by (subst parse_str.simps) simp

lemma unicode_escape_small:
  assumes "n < 128"
  shows "unicode_escape (CHR ''0'' # CHR ''0'' # hex_digit (n div 16) # hex_digit (n mod 16) # r) = Some ([char_of n], r)"
proof -
  have z: "hex_number CHR ''0'' = Some 0" by code_simp
  have "n div 16 < 16" "n mod 16 < 16" using assms by auto
  then have "hex4 (CHR ''0'' # CHR ''0'' # hex_digit (n div 16) # hex_digit (n mod 16) # r) = Some n"
    by (simp add: hex4_def z hex_number_digit)
  then show ?thesis using assms by (simp add: unicode_escape_def utf8_encode_def)
qed

lemma parse_str_escape:
  "parse_str (json_escape c @ r) = map_option (\<lambda>(t, u). (c # t, u)) (parse_str r)"
proof -
  define n where "n = (of_char c :: nat)"
  have c: "char_of n = c" by (simp add: n_def)
  have code: "of_char CHR ''<'' = (60 :: nat)" "of_char CHR ''>'' = (62 :: nat)" "of_char CHR ''&'' = (38 :: nat)" by code_simp+
  consider (quoted) "c = dquote \<or> c = backslash" | (named) "n \<in> {8, 12, 10, 13, 9}" "c \<noteq> dquote" "c \<noteq> backslash"
    | (hex) "n < 32 \<or> c = CHR ''<'' \<or> c = CHR ''>'' \<or> c = CHR ''&''" "n \<notin> {8, 12, 10, 13, 9}" "c \<noteq> dquote" "c \<noteq> backslash"
    | (plain) "\<not> (n < 32 \<or> c = CHR ''<'' \<or> c = CHR ''>'' \<or> c = CHR ''&'')" "n \<notin> {8, 12, 10, 13, 9}" "c \<noteq> dquote" "c \<noteq> backslash"
    by blast
  then show ?thesis
  proof cases
    case quoted
    then show ?thesis by (auto simp: json_escape_def Let_def unescape_simps parse_str_unescape)
  next
    case named
    have "char_of (8::nat) = CHR 0x08" "char_of (12::nat) = CHR 0x0C" "char_of (10::nat) = newline"
      "char_of (13::nat) = carriage_return" "char_of (9::nat) = tab" by code_simp+
    then consider "c = CHR 0x08" | "c = CHR 0x0C" | "c = newline" | "c = carriage_return" | "c = tab"
      using c named(1) by auto
    moreover have "json_escape CHR 0x08 = [backslash, CHR ''b'']" "json_escape CHR 0x0C = [backslash, CHR ''f'']"
      "json_escape newline = [backslash, CHR ''n'']" "json_escape carriage_return = [backslash, CHR ''r'']"
      "json_escape tab = [backslash, CHR ''t'']" by code_simp+
    ultimately show ?thesis by cases (simp_all add: unescape_simps parse_str_unescape)
  next
    case hex
    have "n < 128" using hex(1) code by (auto simp: n_def)
    have "json_escape c = [backslash, CHR ''u'', CHR ''0'', CHR ''0'', hex_digit (n div 16), hex_digit (n mod 16)]"
      using hex by (simp add: json_escape_def n_def [symmetric])
    then show ?thesis using parse_str_unicode [OF unicode_escape_small [OF \<open>n < 128\<close>]] c by simp
  next
    case plain
    then have "json_escape c = [c]" by (simp add: json_escape_def n_def [symmetric])
    then show ?thesis using parse_str_plain [of c r] plain by (simp add: n_def)
  qed
qed

lemma parse_str_json_string: "parse_str (concat (map json_escape s) @ dquote # r) = Some (s, r)"
  by (induction s) (simp_all add: parse_str_end parse_str_escape)

text \<open>The text of a string has no control characters.\<close>

lemma hex_digit_printable: "n < 16 \<Longrightarrow> 32 \<le> (of_char (hex_digit n) :: nat)"
  by (auto simp: hex_digit_def)

lemma json_escape_printable: "c \<in> set (json_escape d) \<Longrightarrow> 32 \<le> (of_char c :: nat)"
proof -
  have "(of_char d :: nat) div 16 < 16" using of_char_less [of d] by linarith
  then show "c \<in> set (json_escape d) \<Longrightarrow> 32 \<le> (of_char c :: nat)"
    using hex_digit_printable [of "of_char d div 16"] hex_digit_printable [of "of_char d mod 16"]
    by (auto simp: json_escape_def Let_def split: if_splits)
qed


lemma json_string_printable: "c \<in> set (json_string s) \<Longrightarrow> 32 \<le> (of_char c :: nat)"
  using json_escape_printable by (auto simp: json_string_def)

lemma join_chars: "c \<in> set (join sep xs) \<Longrightarrow> c \<in> set sep \<or> (\<exists>x\<in>set xs. c \<in> set x)"
proof (induction xs)
  case (Cons x xs)
  then show ?case by (cases xs) auto
qed simp

lemma json_text_printable: "c \<in> set (json_text v) \<Longrightarrow> 32 \<le> (of_char c :: nat)"
proof (induction v arbitrary: c)
  case (JInt i)
  then show ?case using itoa_chars [of c i] by (auto simp: is_digit_def)
next
  case (JStr s)
  then show ?case using json_string_printable by simp
next
  case (JArr vs)
  then show ?case by (auto dest!: join_chars)
next
  case (JObj ms)
  then show ?case using json_string_printable by (fastforce dest!: join_chars)
qed (auto split: if_splits)

section \<open>The round trip\<close>

text \<open>The fuel that a value needs.\<close>

fun json_fuel :: "json_value \<Rightarrow> nat" where
  "json_fuel (JArr vs) = Suc (sum_list (map (\<lambda>v. Suc (json_fuel v)) vs))"
| "json_fuel (JObj ms) = Suc (sum_list (map (\<lambda>m. Suc (json_fuel (snd m))) ms))"
| "json_fuel v = 1"

text \<open>What can follow a number.\<close>

definition ends_number :: "string \<Rightarrow> bool" where
  "ends_number r \<longleftrightarrow> r = [] \<or> (\<not> is_digit (hd r) \<and> hd r \<notin> {CHR ''.'', CHR ''e'', CHR ''E''})"

lemma ends_number_simps [simp]:
  "ends_number []" "ends_number (CHR '','' # r)" "ends_number (CHR '']'' # r)" "ends_number (CHR ''}'' # r)"
  by (simp_all add: ends_number_def is_digit_def)

lemma skip_space_plain: "\<not> json_space c \<Longrightarrow> skip_space (c # r) = c # r"
  by (simp add: skip_space_def)

lemma skip_space_simps [simp]:
  "skip_space [] = []" "skip_space (dquote # r) = dquote # r" "skip_space (CHR '','' # r) = CHR '','' # r"
  "skip_space (CHR '']'' # r) = CHR '']'' # r" "skip_space (CHR ''}'' # r) = CHR ''}'' # r"
  "skip_space (CHR '':'' # r) = CHR '':'' # r" "skip_space (CHR ''['' # r) = CHR ''['' # r" "skip_space (CHR ''{'' # r) = CHR ''{'' # r"
  by (simp_all add: skip_space_def json_space_def)

lemma nat_text_no_leading_zero: "length (nat_text n) > 1 \<Longrightarrow> hd (nat_text n) \<noteq> CHR ''0''"
proof (induction n rule: nat_text.induct)
  case (1 n)
  have z: "digit_val CHR ''0'' = 0" by code_simp
  show ?case
  proof (cases "n < 10")
    case False
    then have e: "nat_text n = nat_text (n div 10) @ [digit_char (n mod 10)]" by (subst nat_text.simps) simp
    show ?thesis
    proof (cases "length (nat_text (n div 10)) > 1")
      case True
      then show ?thesis using "1.IH" [OF False] e by simp
    next
      case single: False
      have "n div 10 < 10"
      proof (rule ccontr)
        assume "\<not> n div 10 < 10"
        then have "nat_text (n div 10) = nat_text (n div 10 div 10) @ [digit_char (n div 10 mod 10)]"
          by (subst nat_text.simps) simp
        then show False using single by (cases "nat_text (n div 10 div 10)") auto
      qed
      then have "nat_text (n div 10) = [digit_char (n div 10)]" by (subst nat_text.simps) simp
      moreover have "digit_char (n div 10) \<noteq> CHR ''0''"
        using z digit_char_simps(2) [OF \<open>n div 10 < 10\<close>] False by auto
      ultimately show ?thesis using e by simp
    qed
  qed (use "1.prems" in \<open>simp add: nat_text.simps\<close>)
qed

lemma takeWhile_digits: "ends_number r \<Longrightarrow> list_all is_digit ds \<Longrightarrow> takeWhile is_digit (ds @ r) = ds \<and> dropWhile is_digit (ds @ r) = r"
  by (induction ds) (auto simp: ends_number_def takeWhile_eq_Nil_iff dropWhile_eq_self_iff)

lemma parse_json_number_itoa: "ends_number r \<Longrightarrow> parse_json_number (itoa i @ r) = Some (JInt i, r)"
proof -
  assume r: "ends_number r"
  have main: "(let ds = takeWhile is_digit (nat_text n @ r); u = dropWhile is_digit (nat_text n @ r)
      in if ds = [] \<or> (length ds > 1 \<and> hd ds = CHR ''0'') \<or> (u \<noteq> [] \<and> hd u \<in> {CHR ''.'', CHR ''e'', CHR ''E''}) then None
         else case parse_digits ds of None \<Rightarrow> None | Some n \<Rightarrow> Some (JInt (if sign then - int n else int n), u))
      = Some (JInt (if sign then - int n else int n), r)" for n sign
    using takeWhile_digits [OF r nat_text_digits] nat_text_no_leading_zero [of n] r
    by (auto simp: Let_def ends_number_def)
  show ?thesis
  proof (cases "i < 0")
    case True
    then show ?thesis using main [of "nat (- i)" True] by (simp add: parse_json_number_def itoa_def)
  next
    case False
    obtain d ds where n: "nat_text (nat i) = d # ds" "d \<noteq> CHR ''-''" using nat_text_hd [of "nat i"] digit_not_sign by blast
    have sgn: "(case nat_text (nat i) @ r of [] \<Rightarrow> (False, nat_text (nat i) @ r)
        | c # u \<Rightarrow> if c = CHR ''-'' then (True, u) else (False, nat_text (nat i) @ r)) = (False, nat_text (nat i) @ r)"
      using n by simp
    show ?thesis using main [of "nat i" False] False
      by (simp only: parse_json_number_def itoa_def if_False sgn Let_def prod.case) simp
  qed
qed

text \<open>The first byte of a value decides what is parsed.\<close>

lemma itoa_hd: "\<exists>c cs. itoa i = c # cs \<and> (is_digit c \<or> c = CHR ''-'')"
proof -
  obtain c cs where "itoa i = c # cs" by (cases "itoa i") auto
  then show ?thesis using itoa_chars [of c i] by auto
qed

lemma parse_word_itoa: "ends_number r \<Longrightarrow> parse_word (itoa i @ r) = Some (JInt i, r)"
  using itoa_hd [of i] parse_json_number_itoa by (auto simp: parse_word_def has_prefix_def is_digit_def)

lemma word_prefixes:
  "has_prefix (''null'' @ r) ''null''" "has_prefix (''true'' @ r) ''true''" "has_prefix (''false'' @ r) ''false''"
  "\<not> has_prefix (''true'' @ r) ''null''" "\<not> has_prefix (''false'' @ r) ''null''" "\<not> has_prefix (''false'' @ r) ''true''"
  by (simp_all add: has_prefix_def)

lemma parse_value_word:
  "\<not> json_space c \<Longrightarrow> c \<notin> {dquote, CHR ''['', CHR ''{''} \<Longrightarrow> 0 < f \<Longrightarrow> parse_value f (c # r) = parse_word (c # r)"
  by (cases f) (simp_all add: skip_space_plain)

definition not_bracket :: "string \<Rightarrow> bool" where
  "not_bracket s \<longleftrightarrow> (\<exists>c r. s = c # r \<and> \<not> json_space c \<and> c \<noteq> CHR '']'')"

lemma json_text_start: "not_bracket (json_text v @ r)"
proof (cases v)
  case (JInt i)
  then show ?thesis using itoa_hd [of i] by (auto simp: not_bracket_def json_space_def is_digit_def)
qed (auto simp: not_bracket_def json_space_def json_string_def)

lemma parse_items_text:
  assumes "\<And>v f r. v \<in> set vs \<Longrightarrow> json_fuel v \<le> f \<Longrightarrow> ends_number r \<Longrightarrow> parse_value f (json_text v @ r) = Some (v, r)"
  shows "vs \<noteq> [] \<Longrightarrow> sum_list (map (\<lambda>v. Suc (json_fuel v)) vs) \<le> f \<Longrightarrow>
    parse_items f (join '','' (map json_text vs) @ CHR '']'' # r) = Some (vs, r)"
  using assms
proof (induction vs arbitrary: f)
  case (Cons v vs)
  then obtain g where f: "f = Suc g" by (cases f) auto
  have v: "parse_value g (json_text v @ u) = Some (v, u)" if "ends_number u" for u
    using Cons.prems(2,3) that by (auto simp: f)
  show ?case
  proof (cases "vs = []")
    case True
    then show ?thesis using v [of "CHR '']'' # r"] by (simp add: f)
  next
    case False
    then have j: "join '','' (map json_text (v # vs)) = json_text v @ CHR '','' # join '','' (map json_text vs)"
      by (cases vs) simp_all
    have "parse_items g (join '','' (map json_text vs) @ CHR '']'' # r) = Some (vs, r)"
      by (rule Cons.IH [OF False]) (use Cons.prems in \<open>auto simp: f\<close>)
    then show ?thesis unfolding j using v [of "CHR '','' # join '','' (map json_text vs) @ CHR '']'' # r"] by (simp add: f)
  qed
qed simp

lemma parse_members_text:
  assumes "\<And>k v f r. (k, v) \<in> set ms \<Longrightarrow> json_fuel v \<le> f \<Longrightarrow> ends_number r \<Longrightarrow> parse_value f (json_text v @ r) = Some (v, r)"
  shows "ms \<noteq> [] \<Longrightarrow> sum_list (map (\<lambda>m. Suc (json_fuel (snd m))) ms) \<le> f \<Longrightarrow>
    parse_members f (join '','' (map (\<lambda>(k, v). json_string k @ '':'' @ json_text v) ms) @ CHR ''}'' # r) = Some (ms, r)"
  using assms
proof (induction ms arbitrary: f)
  case (Cons m ms)
  obtain k v where m: "m = (k, v)" by (cases m)
  obtain g where f: "f = Suc g" using Cons.prems(2) by (cases f) auto
  have v: "parse_value g (json_text v @ u) = Some (v, u)" if "ends_number u" for u
    using Cons.prems(3) [of k v g u] Cons.prems(2) that by (simp add: f m)
  have s: "json_string k @ u = dquote # concat (map json_escape k) @ dquote # u" for u by (simp add: json_string_def)
  show ?case
  proof (cases "ms = []")
    case True
    then show ?thesis using v [of "CHR ''}'' # r"] by (simp add: f m s parse_str_json_string)
  next
    case False
    let ?rest = "join '','' (map (\<lambda>(k, v). json_string k @ '':'' @ json_text v) ms)"
    have j: "join '','' (map (\<lambda>(k, v). json_string k @ '':'' @ json_text v) (m # ms))
      = json_string k @ '':'' @ json_text v @ CHR '','' # ?rest" using False by (cases ms) (simp_all add: m)
    have "parse_members g (?rest @ CHR ''}'' # r) = Some (ms, r)"
      by (rule Cons.IH [OF False]) (use Cons.prems in \<open>auto simp: f\<close>)
    then show ?thesis unfolding j using v [of "CHR '','' # ?rest @ CHR ''}'' # r"] by (simp add: f m s parse_str_json_string)
  qed
qed simp

lemma parse_value_text: "json_fuel v \<le> f \<Longrightarrow> ends_number r \<Longrightarrow> parse_value f (json_text v @ r) = Some (v, r)"
proof (induction v arbitrary: f r)
  case JNull
  then show ?case using parse_value_word [of "CHR ''n''" f "''ull'' @ r"] word_prefixes
    by (simp add: json_space_def parse_word_def)
next
  case (JBool b)
  then show ?case
    using parse_value_word [of "CHR ''t''" f "''rue'' @ r"] parse_value_word [of "CHR ''f''" f "''alse'' @ r"] word_prefixes
    by (cases b) (simp_all add: json_space_def parse_word_def)
next
  case (JInt i)
  obtain c cs where i: "itoa i = c # cs" "is_digit c \<or> c = CHR ''-''" using itoa_hd by blast
  then have "\<not> json_space c" "c \<notin> {dquote, CHR ''['', CHR ''{''}" by (auto simp: json_space_def is_digit_def)
  from parse_value_word [OF this, of f "cs @ r"] show ?case using parse_word_itoa [OF JInt(2), of i] JInt(1) i(1) by simp
next
  case (JStr s)
  then show ?case by (cases f) (simp_all add: json_string_def parse_str_json_string)
next
  case (JArr vs)
  obtain g where f: "f = Suc g" using JArr.prems by (cases f) auto
  show ?case
  proof (cases "vs = []")
    case False
    let ?body = "join '','' (map json_text vs) @ CHR '']'' # r"
    obtain v ws where "vs = v # ws" using False by (cases vs) auto
    then have "\<exists>u. ?body = json_text v @ u" by (cases ws) auto
    then have "not_bracket ?body" using json_text_start by auto
    then obtain c u where b: "?body = c # u" "\<not> json_space c" "c \<noteq> CHR '']''" by (auto simp: not_bracket_def)
    have "parse_items g ?body = Some (vs, r)"
      by (rule parse_items_text [OF _ False]) (use JArr in \<open>auto simp: f\<close>)
    then show ?thesis using b by (simp add: f skip_space_plain)
  qed (simp add: f)
next
  case (JObj ms)
  obtain g where f: "f = Suc g" using JObj.prems by (cases f) auto
  show ?case
  proof (cases "ms = []")
    case False
    let ?body = "join '','' (map (\<lambda>(k, v). json_string k @ '':'' @ json_text v) ms) @ CHR ''}'' # r"
    obtain k v ws where "ms = (k, v) # ws" using False by (cases ms) auto
    then obtain u where b: "?body = dquote # u" by (cases ws) (auto simp: json_string_def)
    have "parse_members g ?body = Some (ms, r)"
      by (rule parse_members_text [OF _ False]) (use JObj in \<open>auto simp: f\<close>)
    then show ?thesis using b by (simp add: f)
  qed (simp add: f)
qed

lemma json_text_neq_Nil: "json_text v \<noteq> []"
  using json_text_start [of v "[]"] by (auto simp: not_bracket_def)

lemma join_length_sum: "sum_list (map length xs) \<le> length (join sep xs)"
  by (induction sep xs rule: join.induct) auto

lemma sum_list_le: "(\<And>x. x \<in> set xs \<Longrightarrow> f x \<le> (g x :: nat)) \<Longrightarrow> sum_list (map f xs) \<le> sum_list (map g xs)"
  by (induction xs) (simp_all add: add_mono)

lemma json_fuel_text: "json_fuel v + 1 \<le> 2 * length (json_text v)"
proof (induction v)
  case (JInt i)
  then show ?case by (cases "itoa i") auto
next
  case (JArr vs)
  have "sum_list (map (\<lambda>v. Suc (json_fuel v)) vs) \<le> sum_list (map (\<lambda>v. 2 * length (json_text v)) vs)"
    by (rule sum_list_le) (use JArr in simp)
  also have "\<dots> = 2 * sum_list (map length (map json_text vs))" by (simp add: sum_list_const_mult comp_def)
  finally show ?case using join_length_sum [of "map json_text vs" "'',''"] by simp
next
  case (JObj ms)
  have "sum_list (map (\<lambda>m. Suc (json_fuel (snd m))) ms) \<le> sum_list (map (\<lambda>m. 2 * length (json_text (snd m))) ms)"
  proof (rule sum_list_le)
    fix m assume m: "m \<in> set ms"
    have "snd m \<in> Basic_BNFs.snds m" by (cases m) simp
    from JObj [OF m this] show "Suc (json_fuel (snd m)) \<le> 2 * length (json_text (snd m))" by simp
  qed
  also have "\<dots> \<le> sum_list (map (\<lambda>m. 2 * length (case m of (k, v) \<Rightarrow> json_string k @ '':'' @ json_text v)) ms)"
    by (rule sum_list_le) auto
  also have "\<dots> = 2 * sum_list (map length (map (\<lambda>(k, v). json_string k @ '':'' @ json_text v) ms))"
    by (simp add: sum_list_const_mult comp_def)
  finally show ?case
    using join_length_sum [of "map (\<lambda>(k, v). json_string k @ '':'' @ json_text v) ms" "'',''"] by simp
qed (auto simp: json_string_def)

text \<open>What is written is read back.\<close>

lemma parse_json_text: "parse_json (json_text v) = Some v"
  using parse_value_text [of v "2 * length (json_text v) + 2" "[]"] json_fuel_text [of v]
  by (simp add: parse_json_def)

end
