(* ===== verification/Machine.thy ===== *)
theory Machine
  imports Go_Json "HOL-Library.Word"
begin

text \<open>
  \<open>internal/machine/machine.go\<close>: what the aws-firecracker isolator on the host and \<open>prison-guest\<close> in the microVM say to each other: the
  configuration disk, the request line and the frames of a command.
\<close>

section \<open>The configuration disk\<close>

definition config_device :: string where "config_device = ''/dev/vdb''"
definition agent_port :: int where "agent_port = 1024"
definition machine_nfs_port :: int where "machine_nfs_port = 2049"
definition config_magic :: string where "config_magic = ''prison-machine-config-1'' @ [newline]"
definition config_block_size :: nat where "config_block_size = 4096"

record share_mount =
  sm_source :: string
  sm_target :: string
  sm_read_only :: bool

record machine_config =
  mc_hostname :: string
  mc_environment :: "string list"
  mc_command :: "string list"
  mc_nfs_server :: string
  mc_mounts :: "share_mount list"

definition no_config :: machine_config where
  "no_config = \<lparr>mc_hostname = [], mc_environment = [], mc_command = [], mc_nfs_server = [], mc_mounts = []\<rparr>"

definition no_share :: share_mount where
  "no_share = \<lparr>sm_source = [], sm_target = [], sm_read_only = False\<rparr>"

definition share_json :: "share_mount \<Rightarrow> json_value" where
  "share_json m = JObj ([(''source'', JStr (sm_source m)), (''target'', JStr (sm_target m))] @
     (if sm_read_only m then [(''read_only'', JBool True)] else []))"

definition config_json :: "machine_config \<Rightarrow> json_value" where
  "config_json c = JObj
     ([(''hostname'', JStr (mc_hostname c)), (''environment'', text_list (mc_environment c)), (''command'', text_list (mc_command c))] @
      (if mc_nfs_server c = [] then [] else [(''nfs_server'', JStr (mc_nfs_server c))]) @
      (if mc_mounts c = [] then [] else [(''mounts'', JArr (map share_json (mc_mounts c)))]))"

definition share_fields :: "(string \<times> json_value) list \<Rightarrow> share_mount option" where
  "share_fields ms =
     Option.bind (text_field ''source'' ms) (\<lambda>s.
     Option.bind (text_field ''target'' ms) (\<lambda>t.
     map_option (\<lambda>r. \<lparr>sm_source = s, sm_target = t, sm_read_only = r\<rparr>) (bool_field ''read_only'' ms)))"

fun share_of :: "json_value \<Rightarrow> share_mount option" where
  "share_of (JObj ms) = share_fields ms"
| "share_of JNull = Some no_share"
| "share_of _ = None"

definition config_fields :: "(string \<times> json_value) list \<Rightarrow> machine_config option" where
  "config_fields ms =
     Option.bind (text_field ''hostname'' ms) (\<lambda>h.
     Option.bind (list_field (as_text []) ''environment'' ms) (\<lambda>e.
     Option.bind (list_field (as_text []) ''command'' ms) (\<lambda>c.
     Option.bind (text_field ''nfs_server'' ms) (\<lambda>n.
     map_option (\<lambda>m. \<lparr>mc_hostname = h, mc_environment = e, mc_command = c, mc_nfs_server = n, mc_mounts = m\<rparr>)
       (list_field share_of ''mounts'' ms)))))"

fun config_of :: "json_value \<Rightarrow> machine_config option" where
  "config_of (JObj ms) = config_fields ms"
| "config_of JNull = Some no_config"
| "config_of _ = None"

text \<open>The document ends at the first NUL byte; there is at least one.\<close>

definition encode_config :: "machine_config \<Rightarrow> string" where
  "encode_config c =
     (let content = config_magic @ json_text (config_json c);
          disk_size = (length content div config_block_size + 1) * config_block_size
      in content @ replicate (disk_size - length content) (CHR 0x00))"

datatype machine_config_error = No_Prison_Header | Config_Not_Valid

definition decode_config :: "string \<Rightarrow> (machine_config_error, machine_config) result" where
  "decode_config disk =
     (if \<not> has_prefix disk config_magic then Err No_Prison_Header
      else let content = takeWhile (\<lambda>c. c \<noteq> CHR 0x00) (drop (length config_magic) disk)
           in case Option.bind (parse_json content) config_of of None \<Rightarrow> Err Config_Not_Valid | Some c \<Rightarrow> Ok c)"

section \<open>Requests\<close>

definition operation_ping :: string where "operation_ping = ''ping''"
definition operation_shutdown :: string where "operation_shutdown = ''shutdown''"
definition operation_exec :: string where "operation_exec = ''exec''"

record machine_exec =
  me_command :: "string list"
  me_tty :: bool
  me_work_dir :: string
  me_uid :: int
  me_gid :: int
  me_environment :: "string list"
  me_rows :: int
  me_columns :: int

record machine_request =
  mr_operation :: string
  mr_exec :: "machine_exec option"

definition exec_json :: "machine_exec \<Rightarrow> json_value" where
  "exec_json e = JObj
     [(''command'', text_list (me_command e)), (''tty'', JBool (me_tty e)), (''workdir'', JStr (me_work_dir e)),
      (''uid'', JInt (me_uid e)), (''gid'', JInt (me_gid e)), (''environment'', text_list (me_environment e)),
      (''rows'', JInt (me_rows e)), (''columns'', JInt (me_columns e))]"

definition request_json :: "machine_request \<Rightarrow> json_value" where
  "request_json r = JObj ((''operation'', JStr (mr_operation r)) #
     (case mr_exec r of None \<Rightarrow> [] | Some e \<Rightarrow> [(''exec'', exec_json e)]))"

definition request_line :: "machine_request \<Rightarrow> string" where
  "request_line r = json_text (request_json r) @ [newline]"

text \<open>A value of a wrong type is an error, but \<open>Unmarshal\<close> sets the other fields before it returns it: the fields and whether all types are
  right.\<close>

fun read_lenient :: "'a \<Rightarrow> ('a \<Rightarrow> json_value \<Rightarrow> 'a option) \<Rightarrow> json_value list \<Rightarrow> 'a \<times> bool" where
  "read_lenient x f [] = (x, True)"
| "read_lenient x f (v # vs) =
     (case f x v of
        Some y \<Rightarrow> read_lenient y f vs
      | None \<Rightarrow> (fst (read_lenient x f vs), False))"

fun texts_lenient :: "string list \<Rightarrow> json_value list \<Rightarrow> string list \<times> bool" where
  "texts_lenient x [] = (x, True)"
| "texts_lenient x (JNull # vs) = texts_lenient [] vs"
| "texts_lenient x (JArr ws # vs) =
     (let (y, ok) = texts_lenient (map (\<lambda>w. case as_text [] w of Some t \<Rightarrow> t | None \<Rightarrow> []) ws) vs
      in (y, ok \<and> list_all (\<lambda>w. as_text [] w \<noteq> None) ws))"
| "texts_lenient x (v # vs) = (fst (texts_lenient x vs), False)"

definition exec_fields :: "(string \<times> json_value) list \<Rightarrow> machine_exec \<times> bool" where
  "exec_fields ms =
     (let (c, ok1) = texts_lenient [] (members_named ''command'' ms);
          (t, ok2) = read_lenient False as_bool (members_named ''tty'' ms);
          (w, ok3) = read_lenient [] as_text (members_named ''workdir'' ms);
          (u, ok4) = read_lenient 0 as_int (members_named ''uid'' ms);
          (g, ok5) = read_lenient 0 as_int (members_named ''gid'' ms);
          (e, ok6) = texts_lenient [] (members_named ''environment'' ms);
          (r, ok7) = read_lenient 0 as_int (members_named ''rows'' ms);
          (k, ok8) = read_lenient 0 as_int (members_named ''columns'' ms)
      in (\<lparr>me_command = c, me_tty = t, me_work_dir = w, me_uid = u, me_gid = g, me_environment = e, me_rows = r, me_columns = k\<rparr>,
          ok1 \<and> ok2 \<and> ok3 \<and> ok4 \<and> ok5 \<and> ok6 \<and> ok7 \<and> ok8))"

text \<open>The program writes one \<open>exec\<close> member; a second one, which \<open>Unmarshal\<close> merges into the first, takes its place here.\<close>

fun exec_lenient :: "machine_exec option \<Rightarrow> json_value list \<Rightarrow> machine_exec option \<times> bool" where
  "exec_lenient x [] = (x, True)"
| "exec_lenient x (JNull # vs) = exec_lenient None vs"
| "exec_lenient x (JObj ms # vs) =
     (let (e, ok1) = exec_fields ms; (y, ok2) = exec_lenient (Some e) vs in (y, ok1 \<and> ok2))"
| "exec_lenient x (v # vs) = (fst (exec_lenient x vs), False)"

fun request_of :: "json_value \<Rightarrow> machine_request \<times> bool" where
  "request_of (JObj ms) =
     (let (op, ok1) = read_lenient [] as_text (members_named ''operation'' ms);
          (e, ok2) = exec_lenient None (members_named ''exec'' ms)
      in (\<lparr>mr_operation = op, mr_exec = e\<rparr>, ok1 \<and> ok2))"
| "request_of v = (\<lparr>mr_operation = [], mr_exec = None\<rparr>, v = JNull)"

definition read_request :: "string \<Rightarrow> machine_request \<times> bool" where
  "read_request line = (case parse_json line of
       None \<Rightarrow> (\<lparr>mr_operation = [], mr_exec = None\<rparr>, False)
     | Some v \<Rightarrow> request_of v)"

section \<open>Frames\<close>

definition frame_stdin :: "8 word" where "frame_stdin = 1"
definition frame_stdin_close :: "8 word" where "frame_stdin_close = 2"
definition frame_resize :: "8 word" where "frame_resize = 3"
definition frame_stdout :: "8 word" where "frame_stdout = 4"
definition frame_stderr :: "8 word" where "frame_stderr = 5"
definition frame_exit :: "8 word" where "frame_exit = 6"
definition frame_failure :: "8 word" where "frame_failure = 7"
definition maximum_frame_payload :: nat where "maximum_frame_payload = 1048576"

type_synonym bytes = "8 word list"

text \<open>The big-endian bytes of a number of \<open>n\<close> bytes.\<close>

fun put_bytes :: "nat \<Rightarrow> nat \<Rightarrow> bytes" where
  "put_bytes 0 n = []"
| "put_bytes (Suc k) n = of_nat (n div 256 ^ k) # put_bytes k n"

definition get_bytes :: "bytes \<Rightarrow> nat" where
  "get_bytes bs = foldl (\<lambda>n b. n * 256 + unat b) 0 bs"

definition put_uint32 :: "32 word \<Rightarrow> bytes" where "put_uint32 w = put_bytes 4 (unat w)"
definition get_uint32 :: "bytes \<Rightarrow> 32 word" where "get_uint32 bs = of_nat (get_bytes (take 4 bs))"
definition put_uint16 :: "16 word \<Rightarrow> bytes" where "put_uint16 w = put_bytes 2 (unat w)"
definition get_uint16 :: "bytes \<Rightarrow> 16 word" where "get_uint16 bs = of_nat (get_bytes (take 2 bs))"

text \<open>The length is cut to 32 bits.\<close>

definition write_frame :: "8 word \<Rightarrow> bytes \<Rightarrow> bytes" where
  "write_frame kind payload = kind # put_uint32 (of_nat (length payload)) @ payload"

datatype frame_error = Frame_Ended | Frame_Too_Large nat

definition read_frame :: "bytes \<Rightarrow> (frame_error, (8 word \<times> bytes) \<times> bytes) result" where
  "read_frame stream =
     (if length stream < 5 then Err Frame_Ended
      else let n = unat (get_uint32 (drop 1 stream)); r = drop 5 stream
           in if n > maximum_frame_payload then Err (Frame_Too_Large n)
              else if length r < n then Err Frame_Ended
              else Ok ((hd stream, take n r), drop n r))"

definition resize_payload :: "int \<Rightarrow> int \<Rightarrow> bytes" where
  "resize_payload rows columns = put_uint16 (of_int rows) @ put_uint16 (of_int columns)"

definition parse_resize :: "bytes \<Rightarrow> (int \<times> int) option" where
  "parse_resize payload =
     (if length payload \<noteq> 4 then None
      else Some (uint (get_uint16 payload), uint (get_uint16 (drop 2 payload))))"

definition exit_payload :: "int \<Rightarrow> bytes" where
  "exit_payload status = put_uint32 (of_int status)"

definition parse_exit :: "bytes \<Rightarrow> int option" where
  "parse_exit payload = (if length payload \<noteq> 4 then None else Some (sint (get_uint32 payload)))"

section \<open>Lemmas\<close>

lemma length_put_bytes [simp]: "length (put_bytes k n) = k"
  by (induction k) simp_all

lemma get_bytes_append: "get_bytes (bs @ cs) = get_bytes bs * 256 ^ length cs + get_bytes cs"
  by (induction cs rule: rev_induct) (simp_all add: get_bytes_def algebra_simps)

lemma get_put_bytes: "get_bytes (put_bytes k n) = n mod 256 ^ k"
proof (induction k)
  case (Suc k)
  have "get_bytes (put_bytes (Suc k) n) = (n div 256 ^ k mod 256) * 256 ^ k + n mod 256 ^ k"
    using get_bytes_append [of "[of_nat (n div 256 ^ k)]" "put_bytes k n"] Suc
    by (simp add: get_bytes_def unat_of_nat)
  also have "\<dots> = n mod 256 ^ Suc k" by (simp add: mod_mult2_eq [of n "256 ^ k" 256, symmetric] mult.commute)
  finally show ?case .
qed (simp add: get_bytes_def)

lemma get_put_uint32 [simp]: "get_uint32 (put_uint32 w @ r) = w"
proof -
  have "unat w < 256 ^ 4" using unsigned_less [of w] by simp
  then show ?thesis by (simp add: get_uint32_def put_uint32_def get_put_bytes)
qed

lemma get_put_uint16 [simp]: "get_uint16 (put_uint16 w @ r) = w"
proof -
  have "unat w < 256 ^ 2" using unsigned_less [of w] by simp
  then show ?thesis by (simp add: get_uint16_def put_uint16_def get_put_bytes)
qed

lemma length_put_uint [simp]: "length (put_uint32 v) = 4" "length (put_uint16 w) = 2"
  by (simp_all add: put_uint32_def put_uint16_def)

lemma get_put_uint32_end [simp]: "get_uint32 (put_uint32 w) = w"
  using get_put_uint32 [of w "[]"] by simp

lemma get_put_uint16_end [simp]: "get_uint16 (put_uint16 w) = w"
  using get_put_uint16 [of w "[]"] by simp

lemma drop_put_uint16 [simp]: "drop 2 (put_uint16 w @ r) = r"
  using length_put_uint(2) [of w] by (metis append_eq_conv_conj)

lemma read_frame_shorter: "read_frame s = Ok (f, r) \<Longrightarrow> length r < length s"
  by (auto simp: read_frame_def Let_def split: if_splits)

lemma read_write_frame:
  assumes "length payload \<le> maximum_frame_payload"
  shows "read_frame (write_frame kind payload @ r) = Ok ((kind, payload), r)"
proof -
  have l: "length payload < 4294967296" using assms by (simp add: maximum_frame_payload_def)
  have d: "drop 5 (write_frame kind payload @ r) = payload @ r" by (simp add: write_frame_def)
  have g: "unat (get_uint32 (drop 1 (write_frame kind payload @ r))) = length payload"
    using l by (simp add: write_frame_def unat_of_nat)
  show ?thesis unfolding read_frame_def Let_def g d using assms by (simp add: write_frame_def)
qed


section \<open>Lemmas on the documents\<close>

lemma members_named_simps [simp]:
  "members_named name [] = []"
  "members_named name ((k, v) # ms) = (if equal_fold k name then v # members_named name ms else members_named name ms)"
  by (simp_all add: members_named_def)

lemma members_named_append: "members_named name (xs @ ys) = members_named name xs @ members_named name ys"
  by (simp add: members_named_def)

lemma members_named_if: "members_named name (if c then xs else ys) = (if c then members_named name xs else members_named name ys)"
  by simp

lemma read_texts: "read_all (as_text []) (map JStr xs) = Some xs"
  by (induction xs) simp_all

lemma as_list_texts: "as_list (as_text []) x (text_list xs) = Some xs"
  by (simp add: text_list_def read_texts)

lemma fold_eq: "equal_fold s t \<longleftrightarrow> to_lower s = to_lower t"
  by (simp add: equal_fold_def)

lemma field_names:
  "map to_lower [''hostname'', ''environment'', ''command'', ''nfs_server'', ''mounts'', ''source'', ''target'', ''read_only'']
     = [''hostname'', ''environment'', ''command'', ''nfs_server'', ''mounts'', ''source'', ''target'', ''read_only'']"
  "map to_lower [''operation'', ''exec'', ''tty'', ''workdir'', ''uid'', ''gid'', ''rows'', ''columns'']
     = [''operation'', ''exec'', ''tty'', ''workdir'', ''uid'', ''gid'', ''rows'', ''columns'']"
  by code_simp+

lemmas lower_names = field_names [simplified]

lemma share_of_json: "share_of (share_json m) = Some m"
  by (simp add: share_json_def share_fields_def text_field_def bool_field_def fold_eq lower_names members_named_append)

lemma read_shares: "read_all share_of (map share_json ms) = Some ms"
  by (induction ms) (simp_all add: share_of_json)

lemma config_of_json: "config_of (config_json c) = Some c"
proof -
  obtain h e k n m where c: "c = \<lparr>mc_hostname = h, mc_environment = e, mc_command = k, mc_nfs_server = n, mc_mounts = m\<rparr>"
    by (cases c)
  show ?thesis unfolding c config_json_def
    by (simp add: config_fields_def text_field_def list_field_def fold_eq lower_names members_named_append as_list_texts read_shares)
qed

lemma texts_lenient_list: "texts_lenient x [text_list xs] = (xs, True)"
  by (cases xs) (simp_all add: text_list_def comp_def list_all_iff)

definition small_int :: "int \<Rightarrow> bool" where
  "small_int i \<longleftrightarrow> int64_min \<le> i \<and> i \<le> int64_max"

definition wf_exec :: "machine_exec \<Rightarrow> bool" where
  "wf_exec e \<longleftrightarrow> small_int (me_uid e) \<and> small_int (me_gid e) \<and> small_int (me_rows e) \<and> small_int (me_columns e)"

lemma exec_fields_json:
  assumes "wf_exec e" "exec_json e = JObj ms"
  shows "exec_fields ms = (e, True)"
proof -
  obtain c t w u g v r k where e: "e = \<lparr>me_command = c, me_tty = t, me_work_dir = w, me_uid = u, me_gid = g, me_environment = v,
      me_rows = r, me_columns = k\<rparr>" by (cases e)
  have ms: "ms = [(''command'', text_list c), (''tty'', JBool t), (''workdir'', JStr w), (''uid'', JInt u), (''gid'', JInt g),
      (''environment'', text_list v), (''rows'', JInt r), (''columns'', JInt k)]"
    using assms(2) by (simp add: exec_json_def e)
  show ?thesis using assms(1) unfolding ms
    by (simp add: exec_fields_def fold_eq lower_names texts_lenient_list wf_exec_def small_int_def e)
qed

lemma request_of_json: "(\<And>e. mr_exec r = Some e \<Longrightarrow> wf_exec e) \<Longrightarrow> request_of (request_json r) = (r, True)"
proof -
  assume w: "\<And>e. mr_exec r = Some e \<Longrightarrow> wf_exec e"
  obtain p x where r: "r = \<lparr>mr_operation = p, mr_exec = x\<rparr>" by (cases r)
  show ?thesis
  proof (cases x)
    case None
    then show ?thesis by (simp add: request_json_def fold_eq lower_names r)
  next
    case (Some e)
    obtain ms where ms: "exec_json e = JObj ms" by (simp add: exec_json_def)
    have "exec_fields ms = (e, True)" by (rule exec_fields_json [OF _ ms]) (use w Some r in simp)
    then show ?thesis using Some by (simp add: request_json_def fold_eq lower_names r ms)
  qed
qed

section \<open>Properties\<close>

text \<open>The guest reads from the configuration disk the configuration that the host wrote on it, whatever is in it, and the disk is a whole
  number of blocks.\<close>

theorem config_round_trip:
  "decode_config (encode_config c) = Ok c \<and> config_block_size dvd length (encode_config c)"
proof
  define content where "content = config_magic @ json_text (config_json c)"
  define k where "k = (length content div config_block_size + 1) * config_block_size - length content"
  have enc: "encode_config c = content @ replicate k (CHR 0x00)"
    by (simp add: encode_config_def Let_def content_def k_def)
  have less: "length content < (length content div config_block_size + 1) * config_block_size"
    by (metis config_block_size_def Suc_eq_plus1 dividend_less_div_times mult.commute mult_Suc_right zero_less_numeral)
  then have "0 < k" by (simp add: k_def)
  have nul: "\<forall>c\<in>set (json_text v). c \<noteq> CHR 0x00" for v using json_text_printable by fastforce
  have "takeWhile (\<lambda>c. c \<noteq> CHR 0x00) (json_text (config_json c) @ replicate k (CHR 0x00)) = json_text (config_json c)"
    using nul \<open>0 < k\<close> by (subst takeWhile_append2) (auto simp: takeWhile_eq_Nil_iff)
  then show "decode_config (encode_config c) = Ok c"
    unfolding enc content_def by (simp add: decode_config_def parse_json_text config_of_json)
  show "config_block_size dvd length (encode_config c)" using less unfolding enc k_def by simp
qed

text \<open>A request line is one line, and the guest reads from it the request that the host wrote.\<close>

theorem request_round_trip:
  assumes "\<And>e. mr_exec r = Some e \<Longrightarrow> wf_exec e"
  shows "request_line r = json_text (request_json r) @ [newline] \<and> newline \<notin> set (json_text (request_json r)) \<and>
    read_request (json_text (request_json r)) = (r, True)"
  using json_text_printable [of newline "request_json r"] request_of_json [OF assms]
  by (auto simp: request_line_def read_request_def parse_json_text)

text \<open>A frame is read back with its kind and its payload when the payload has at most one MiB, and is refused when it has more, up to the
  4 GiB at which its length wraps around.\<close>

theorem frame_round_trip:
  assumes "length payload < 4294967296"
  shows "read_frame (write_frame kind payload @ r) =
    (if length payload \<le> maximum_frame_payload then Ok ((kind, payload), r) else Err (Frame_Too_Large (length payload)))"
proof (cases "length payload \<le> maximum_frame_payload")
  case True
  then show ?thesis using read_write_frame by simp
next
  case False
  have "unat (get_uint32 (drop 1 (write_frame kind payload @ r))) = length payload"
    using assms by (simp add: write_frame_def unat_of_nat)
  then show ?thesis using False by (simp add: read_frame_def Let_def write_frame_def)
qed

text \<open>The size of a terminal and an exit status are cut to 16 and 32 bits: what fits is read back as it is.\<close>

theorem payload_round_trip:
  "parse_resize (resize_payload rows columns) = Some (rows mod 65536, columns mod 65536) \<and>
   parse_exit (exit_payload status) = Some ((status + 2147483648) mod 4294967296 - 2147483648)"
proof
  show "parse_resize (resize_payload rows columns) = Some (rows mod 65536, columns mod 65536)"
    by (simp add: parse_resize_def resize_payload_def uint_word_of_int)
  have "sint (word_of_int status :: 32 word) = (status + 2147483648) mod 4294967296 - 2147483648"
    by (simp add: signed_of_int signed_take_bit_eq_take_bit_shift take_bit_eq_mod)
  then show "parse_exit (exit_payload status) = Some ((status + 2147483648) mod 4294967296 - 2147483648)"
    by (simp add: parse_exit_def exit_payload_def)
qed

end
