(* ===== verification/Guest_Exec.thy ===== *)
theory Guest_Exec
  imports Machine Go_Path
begin

text \<open>
  \<open>internal/guest/runner.go\<close>, \<open>devuser.go\<close>, \<open>exec_linux.go\<close> and the agent of \<open>machine_linux.go\<close>: how the init of a box delivers exit
  codes, the users and the environment of its processes, and the commands that the host runs in a microVM.

  The kernel is a parameter: the exit codes and the output of processes, the files and the terminals.
\<close>

section \<open>Exit codes\<close>

text \<open>A channel has room for one code. The owners are processes that the agent started; the code of a process without an owner is kept for
  a minute. Times are in nanoseconds.\<close>

record unclaimed_exit =
  ue_code :: int
  ue_reaped :: int

record command_runner =
  cr_owned :: "int \<rightharpoonup> nat"
  cr_unclaimed :: "int \<rightharpoonup> unclaimed_exit"
  cr_channels :: "int list list"

definition new_runner :: command_runner where
  "new_runner = \<lparr>cr_owned = Map.empty, cr_unclaimed = Map.empty, cr_channels = []\<rparr>"

definition unclaimed_lifetime :: int where "unclaimed_lifetime = 60000000000"

definition register :: "int \<Rightarrow> command_runner \<Rightarrow> nat \<times> command_runner" where
  "register pid r =
     (let exited = length (cr_channels r)
      in case cr_unclaimed r pid of
           Some early \<Rightarrow>
             (exited, r\<lparr>cr_unclaimed := (cr_unclaimed r)(pid := None), cr_channels := cr_channels r @ [[ue_code early]]\<rparr>)
         | None \<Rightarrow> (exited, r\<lparr>cr_owned := (cr_owned r)(pid \<mapsto> exited), cr_channels := cr_channels r @ [[]]\<rparr>))"

definition send_code :: "int \<Rightarrow> nat \<Rightarrow> int list list \<Rightarrow> int list list" where
  "send_code exit_code exited channels = channels[exited := channels ! exited @ [exit_code]]"

definition keep_recent :: "int \<Rightarrow> (int \<rightharpoonup> unclaimed_exit) \<Rightarrow> (int \<rightharpoonup> unclaimed_exit)" where
  "keep_recent now m = (\<lambda>pid. case m pid of None \<Rightarrow> None
     | Some entry \<Rightarrow> if now - ue_reaped entry > unclaimed_lifetime then None else Some entry)"

definition deliver_exit :: "int \<Rightarrow> int \<Rightarrow> int \<Rightarrow> command_runner \<Rightarrow> command_runner" where
  "deliver_exit pid exit_code now r =
     (case cr_owned r pid of
        Some exited \<Rightarrow> r\<lparr>cr_channels := send_code exit_code exited (cr_channels r), cr_owned := (cr_owned r)(pid := None)\<rparr>
      | None \<Rightarrow> r\<lparr>cr_unclaimed := (keep_recent now (cr_unclaimed r))(pid \<mapsto> \<lparr>ue_code = exit_code, ue_reaped = now\<rparr>)\<rparr>)"

datatype runner_event = Register int | Deliver int int int

fun runner_step :: "command_runner \<Rightarrow> runner_event \<Rightarrow> command_runner" where
  "runner_step r (Register pid) = snd (register pid r)"
| "runner_step r (Deliver pid exit_code now) = deliver_exit pid exit_code now r"

definition runner_run :: "command_runner \<Rightarrow> runner_event list \<Rightarrow> command_runner" where
  "runner_run r events = foldl runner_step r events"

text \<open>No channel has more codes than it has room for, and a channel with an owner is empty and has one owner: the reaper, which holds the
  lock, never waits for room. A process is not both owned and unclaimed.\<close>

definition runner_ok :: "command_runner \<Rightarrow> bool" where
  "runner_ok r \<longleftrightarrow>
     (\<forall>c\<in>set (cr_channels r). length c \<le> 1) \<and>
     (\<forall>pid c. cr_owned r pid = Some c \<longrightarrow> c < length (cr_channels r) \<and> cr_channels r ! c = [] \<and> cr_unclaimed r pid = None) \<and>
     inj_on (cr_owned r) (dom (cr_owned r))"

lemma runner_ok_new: "runner_ok new_runner"
  by (simp add: runner_ok_def new_runner_def)

lemma register_ok: "runner_ok r \<Longrightarrow> runner_ok (snd (register pid r))"
proof -
  assume ok: "runner_ok r"
  have b: "c < length (cr_channels r)" if "cr_owned r q = Some c" for q c using ok that by (simp add: runner_ok_def)
  show ?thesis
  proof (cases "cr_unclaimed r pid")
    case None
    have "inj_on ((cr_owned r)(pid \<mapsto> length (cr_channels r))) (insert pid (dom (cr_owned r)))"
      using ok b unfolding runner_ok_def inj_on_def by (auto simp: dom_def) blast+
    then show ?thesis using ok b None by (auto simp: runner_ok_def register_def Let_def nth_append less_SucI)
  next
    case (Some early)
    then show ?thesis using ok b by (auto simp: runner_ok_def register_def Let_def nth_append less_SucI)
  qed
qed

lemma deliver_ok: "runner_ok r \<Longrightarrow> runner_ok (deliver_exit pid c now r)"
proof -
  assume ok: "runner_ok r"
  show ?thesis
  proof (cases "cr_owned r pid")
    case None
    have "keep_recent now (cr_unclaimed r) q = None" if "cr_owned r q = Some e" for q e
      using ok that by (simp add: runner_ok_def keep_recent_def)
    then show ?thesis using ok None by (auto simp: runner_ok_def deliver_exit_def)
  next
    case (Some e)
    have e: "e < length (cr_channels r)" "cr_channels r ! e = []" using ok Some by (simp_all add: runner_ok_def)
    have ne: "f \<noteq> e" if "cr_owned r q = Some f" "q \<noteq> pid" for q f
      using ok that Some unfolding runner_ok_def inj_on_def by (metis domI)
    have "\<forall>ch\<in>set (send_code c e (cr_channels r)). length ch \<le> 1"
      using ok e set_update_subset_insert [of "cr_channels r" e "[c]"] by (auto simp: runner_ok_def send_code_def)
    moreover have "inj_on ((cr_owned r)(pid := None)) (dom (cr_owned r) - {pid})"
      using ok by (auto simp: runner_ok_def inj_on_def)
    ultimately show ?thesis using ok Some e ne
      by (auto simp: runner_ok_def deliver_exit_def send_code_def nth_list_update)
  qed
qed

lemma runner_run_ok: "runner_ok r \<Longrightarrow> runner_ok (runner_run r events)"
proof (induction events arbitrary: r)
  case (Cons e es)
  have "runner_ok (runner_step r e)" using register_ok deliver_ok Cons.prems by (cases e) auto
  from Cons.IH [OF this] show ?case by (simp add: runner_run_def)
qed (simp add: runner_run_def)


text \<open>What happens to other processes does not matter to a process.\<close>

fun event_pid :: "runner_event \<Rightarrow> int" where
  "event_pid (Register pid) = pid"
| "event_pid (Deliver pid exit_code now) = pid"

fun event_time :: "runner_event \<Rightarrow> int option" where
  "event_time (Register pid) = None"
| "event_time (Deliver pid exit_code now) = Some now"

text \<open>Nothing else writes to the channel of a process, and none takes its entry.\<close>

lemma step_owned:
  assumes "runner_ok r" "cr_owned r pid = Some c" "event_pid e \<noteq> pid"
  shows "cr_owned (runner_step r e) pid = Some c"
  using assms by (cases e) (auto simp: register_def deliver_exit_def Let_def split: option.splits)

lemma run_owned:
  "runner_ok r \<Longrightarrow> cr_owned r pid = Some c \<Longrightarrow> \<forall>e\<in>set events. event_pid e \<noteq> pid \<Longrightarrow> cr_owned (runner_run r events) pid = Some c"
proof (induction events arbitrary: r)
  case (Cons e es)
  have "runner_ok (runner_step r e)" using register_ok deliver_ok Cons.prems(1) by (cases e) auto
  moreover have "cr_owned (runner_step r e) pid = Some c" using step_owned Cons.prems by simp
  ultimately show ?case using Cons.IH Cons.prems(3) by (simp add: runner_run_def)
qed (simp add: runner_run_def)

lemma step_unclaimed:
  assumes "cr_unclaimed r pid = Some u" "event_pid e \<noteq> pid" "\<And>now. event_time e = Some now \<Longrightarrow> now - ue_reaped u \<le> unclaimed_lifetime"
  shows "cr_unclaimed (runner_step r e) pid = Some u"
  using assms by (cases e) (auto simp: register_def deliver_exit_def Let_def keep_recent_def split: option.splits)

lemma run_unclaimed:
  "cr_unclaimed r pid = Some u \<Longrightarrow> \<forall>e\<in>set events. event_pid e \<noteq> pid \<and> (\<forall>now. event_time e = Some now \<longrightarrow> now - ue_reaped u \<le> unclaimed_lifetime) \<Longrightarrow>
   cr_unclaimed (runner_run r events) pid = Some u"
proof (induction events arbitrary: r)
  case (Cons e es)
  have "cr_unclaimed (runner_step r e) pid = Some u" using step_unclaimed Cons.prems by simp
  then show ?case using Cons.IH Cons.prems(2) by (simp add: runner_run_def)
qed (simp add: runner_run_def)

section \<open>Users\<close>

record dev_identity =
  di_uid :: int
  di_gid :: int
  di_home :: string

definition fallback_dev_identity :: dev_identity where
  "fallback_dev_identity = \<lparr>di_uid = 501, di_gid = 501, di_home = ''/home/dev''\<rparr>"

definition dev_user_name :: string where "dev_user_name = ''dev''"

fun find_passwd :: "string \<Rightarrow> string list \<Rightarrow> dev_identity option" where
  "find_passwd name [] = None"
| "find_passwd name (line # ls) =
     (let fs = split_on CHR '':'' line
      in if length fs < 6 \<or> fs ! 0 \<noteq> name then find_passwd name ls
         else (case (atoi (fs ! 2), atoi (fs ! 3)) of
                 (Some uid, Some gid) \<Rightarrow> Some \<lparr>di_uid = uid, di_gid = gid, di_home = fs ! 5\<rparr>
               | _ \<Rightarrow> None))"

definition parse_passwd_entry :: "string \<Rightarrow> string \<Rightarrow> dev_identity option" where
  "parse_passwd_entry content name = find_passwd name (split_on newline content)"

text \<open>The argument is the content of \<open>/etc/passwd\<close>, if it can be read.\<close>

definition lookup_dev_identity :: "string option \<Rightarrow> dev_identity" where
  "lookup_dev_identity passwd =
     (case Option.bind passwd (\<lambda>content. parse_passwd_entry content dev_user_name) of
        None \<Rightarrow> fallback_dev_identity | Some d \<Rightarrow> d)"

definition variable_name :: "string \<Rightarrow> string" where
  "variable_name entry = fst (cut entry CHR ''='')"

definition dropped_variables :: "string list" where
  "dropped_variables = [''PRISON_TOKEN'', ''HOME'', ''USER'', ''LOGNAME'']"

definition child_environment :: "string list \<Rightarrow> dev_identity \<Rightarrow> string list" where
  "child_environment environment dev =
     filter (\<lambda>entry. variable_name entry \<notin> set dropped_variables) environment @
     [''HOME='' @ di_home dev, ''USER='' @ dev_user_name, ''LOGNAME='' @ dev_user_name]"

text \<open>A path below the home directory has at most as many parents there as it has bytes, so the fuel is enough.\<close>

fun parents_loop :: "nat \<Rightarrow> string \<Rightarrow> string \<Rightarrow> string list" where
  "parents_loop 0 home parent = []"
| "parents_loop (Suc n) home parent =
     (if has_prefix parent (home @ ''/'') then parent # parents_loop n home (path_dir parent) else [])"

definition parents_under_home :: "string \<Rightarrow> string \<Rightarrow> string list" where
  "parents_under_home home path = parents_loop (length path + 2) home (path_dir path)"

section \<open>Commands of the host\<close>

fun find_uid :: "int \<Rightarrow> string list \<Rightarrow> (string \<times> string) option" where
  "find_uid uid [] = None"
| "find_uid uid (line # ls) =
     (let fs = split_on CHR '':'' line
      in if length fs \<ge> 6 \<and> fs ! 2 = itoa uid then Some (fs ! 0, fs ! 5) else find_uid uid ls)"

definition passwd_entry_for_uid :: "string option \<Rightarrow> int \<Rightarrow> (string \<times> string) option" where
  "passwd_entry_for_uid passwd uid = (case passwd of None \<Rightarrow> None | Some content \<Rightarrow> find_uid uid (split_on newline content))"

definition token_variable :: string where "token_variable = ''PRISON_TOKEN''"

text \<open>The names in their order with their values.\<close>

type_synonym variables = "(string \<times> string) list"

definition set_variable :: "variables \<Rightarrow> string \<Rightarrow> variables" where
  "set_variable vs assignment =
     (case cut assignment CHR ''='' of (name, v, found) \<Rightarrow>
        if \<not> found \<or> name = token_variable then vs
        else if name \<in> set (map fst vs) then map (\<lambda>(n, w). if n = name then (n, v) else (n, w)) vs
        else vs @ [(name, v)])"

text \<open>The variables of the user are set in the order of a map; here the order is a parameter.\<close>

definition user_variables :: "string list \<Rightarrow> string \<Rightarrow> string \<Rightarrow> string list" where
  "user_variables order name home =
     map (\<lambda>variable. variable @ ''='' @ (if variable = ''HOME'' then home else name)) order"

definition agent_environment :: "string list \<Rightarrow> string option \<Rightarrow> string list \<Rightarrow> machine_exec \<Rightarrow> string list" where
  "agent_environment order passwd base request =
     (let vs = foldl set_variable (foldl set_variable [] base) (me_environment request);
          explicit = map variable_name (me_environment request);
          user = (case passwd_entry_for_uid passwd (me_uid request) of
                    None \<Rightarrow> []
                  | Some (name, home) \<Rightarrow> filter (\<lambda>a. variable_name a \<notin> set explicit) (user_variables order name home))
      in map (\<lambda>(name, v). name @ ''='' @ v) (foldl set_variable vs user))"

definition agent_variable :: "string list \<Rightarrow> string \<Rightarrow> string" where
  "agent_variable environment name =
     foldl (\<lambda>v assignment. if has_prefix assignment (name @ ''='') then drop (length name + 1) assignment else v) [] environment"

text \<open>\<open>runs\<close> tells whether a path is a regular file that can be executed. An empty list has no directory.\<close>

definition split_path_list :: "string \<Rightarrow> string list" where
  "split_path_list path = (if path = [] then [] else split_on CHR '':'' path)"

definition look_path_in :: "(string \<Rightarrow> bool) \<Rightarrow> string \<Rightarrow> string \<Rightarrow> string option" where
  "look_path_in runs name path =
     (if CHR ''/'' \<in> set name then Some name
      else find runs (map (\<lambda>directory. path_join [directory, name]) (split_path_list path)))"

definition text_bytes :: "string \<Rightarrow> bytes" where
  "text_bytes s = map (\<lambda>c. of_nat (of_char c)) s"

text \<open>The process that the agent asks the kernel for. A user number is cut to 32 bits.\<close>

record started_command =
  st_path :: string
  st_args :: "string list"
  st_environment :: "string list"
  st_dir :: string
  st_credential :: "(32 word \<times> 32 word) option"
  st_terminal :: bool
  st_size :: "(int \<times> int) option"

text \<open>What the kernel does with it: the pipes or the terminal can be refused, the start can fail, and a started command writes chunks to
  its outputs, in the order in which they are sent, and exits. What a background process writes after the time for the rest of the
  output is not among the chunks.\<close>

datatype exec_kernel = No_Streams string | No_Start string | Runs "(bool \<times> bytes) list" int

record agent_box =
  ab_order :: "string list"
  ab_passwd :: "string option"
  ab_environment :: "string list"
  ab_executable :: "string \<Rightarrow> bool"
  ab_root :: bool
  ab_kernel :: "started_command \<Rightarrow> exec_kernel"

definition command_for :: "agent_box \<Rightarrow> machine_exec \<Rightarrow> string option \<Rightarrow> started_command" where
  "command_for ab request path =
     \<lparr>st_path = (case path of None \<Rightarrow> [] | Some p \<Rightarrow> p), st_args = me_command request,
      st_environment = agent_environment (ab_order ab) (ab_passwd ab) (ab_environment ab) request,
      st_dir = me_work_dir request,
      st_credential = (if ab_root ab then Some (of_int (me_uid request), of_int (me_gid request)) else None),
      st_terminal = me_tty request,
      st_size = (if me_tty request \<and> me_rows request > 0 \<and> me_columns request > 0
                 then Some (me_rows request, me_columns request) else None)\<rparr>"

definition output_kind :: "bool \<Rightarrow> bool \<Rightarrow> 8 word" where
  "output_kind tty is_error = (if is_error \<and> \<not> tty then frame_stderr else frame_stdout)"

text \<open>The frames that the agent sends, in their order.\<close>

definition serve_exec :: "agent_box \<Rightarrow> machine_exec \<Rightarrow> (8 word \<times> bytes) list" where
  "serve_exec ab request =
     (let name = hd (me_command request);
          environment = agent_environment (ab_order ab) (ab_passwd ab) (ab_environment ab) request;
          path = look_path_in (ab_executable ab) name (agent_variable environment ''PATH'')
      in if path = None then [(frame_failure, text_bytes (name @ '': command not found''))]
         else (case ab_kernel ab (command_for ab request path) of
                 No_Streams e \<Rightarrow> [(frame_failure, text_bytes e)]
               | No_Start e \<Rightarrow> [(frame_failure, text_bytes e)]
               | Runs chunks exit_code \<Rightarrow>
                   map (\<lambda>(is_error, chunk). (output_kind (me_tty request) is_error, chunk)) (filter (\<lambda>(is_error, chunk). chunk \<noteq> []) chunks) @
                   [(frame_exit, exit_payload exit_code)]))"

section \<open>The input of a command\<close>

datatype kill_signal = Sig_Kill | Sig_Hup

record exec_input =
  ei_written :: bytes
  ei_closed :: bool
  ei_size :: "(int \<times> int) option"

definition input_frame :: "bool \<Rightarrow> 8 word \<Rightarrow> bytes \<Rightarrow> exec_input \<Rightarrow> exec_input" where
  "input_frame tty kind payload i =
     (if kind = frame_stdin then (if ei_closed i then i else i\<lparr>ei_written := ei_written i @ payload\<rparr>)
      else if kind = frame_stdin_close then
        (if tty then i\<lparr>ei_written := ei_written i @ [4]\<rparr> else i\<lparr>ei_closed := True\<rparr>)
      else if kind = frame_resize then
        (case parse_resize payload of
           Some s \<Rightarrow> if tty then i\<lparr>ei_size := Some s\<rparr> else i
         | None \<Rightarrow> i)
      else i)"

text \<open>The stream ends or is not valid at some frame: then a command that has not finished gets a signal.\<close>

function copy_input :: "bool \<Rightarrow> bool \<Rightarrow> bytes \<Rightarrow> exec_input \<Rightarrow> exec_input \<times> kill_signal option" where
  "copy_input tty finished stream i =
     (case read_frame stream of
        Err e \<Rightarrow> (i, if finished then None else Some (if tty then Sig_Hup else Sig_Kill))
      | Ok ((kind, payload), stream') \<Rightarrow> copy_input tty finished stream' (input_frame tty kind payload i))"
  by pat_completeness auto
termination
  by (relation "measure (\<lambda>(tty, finished, stream, i). length stream)") (auto dest: read_frame_shorter)

declare copy_input.simps [simp del]

section \<open>The agent\<close>

definition request_line_limit :: nat where "request_line_limit = 65536"

fun read_line_loop :: "nat \<Rightarrow> string \<Rightarrow> (string \<times> string) option" where
  "read_line_loop 0 stream = None"
| "read_line_loop (Suc n) [] = None"
| "read_line_loop (Suc n) (c # stream) =
     (if c = newline then Some ([], stream) else map_option (\<lambda>(l, r). (c # l, r)) (read_line_loop n stream))"

definition read_request_line :: "string \<Rightarrow> (string \<times> string) option" where
  "read_request_line stream = read_line_loop request_line_limit stream"

datatype agent_error = Request_Not_Json | Exec_No_Command | Unknown_Operation string

text \<open>No answer, an answer and whether the machine stops then, or a command and the frames that follow the line.\<close>

datatype agent_outcome = No_Answer | Answer "agent_error option" bool | Exec machine_exec string

definition handle_agent_connection :: "string \<Rightarrow> agent_outcome" where
  "handle_agent_connection stream =
     (case read_request_line stream of
        None \<Rightarrow> No_Answer
      | Some (line, frames) \<Rightarrow>
          (case read_request line of (request, valid) \<Rightarrow>
             (let problem = (if valid then None else Some Request_Not_Json); op = mr_operation request
              in if op = operation_exec then
                   (case mr_exec request of
                      None \<Rightarrow> Answer (Some Exec_No_Command) False
                    | Some e \<Rightarrow> if me_command e = [] then Answer (Some Exec_No_Command) False else Exec e frames)
                 else if op = operation_ping then Answer problem False
                 else if op = operation_shutdown then Answer problem True
                 else Answer (if problem = None then Some (Unknown_Operation op) else problem) False)))"

section \<open>Lemmas\<close>

lemma read_line_loop_line:
  "newline \<notin> set line \<Longrightarrow> length line < n \<Longrightarrow> read_line_loop n (line @ newline # r) = Some (line, r)"
proof (induction line arbitrary: n)
  case Nil
  then show ?case by (cases n) simp_all
next
  case (Cons c line)
  then show ?case by (cases n) auto
qed

lemma set_variable_names:
  "set_variable vs a = vs \<or> map fst (set_variable vs a) = map fst vs
     \<or> (\<exists>name v. set_variable vs a = vs @ [(name, v)] \<and> name \<notin> set (map fst vs) \<and> name \<noteq> token_variable \<and> CHR ''='' \<notin> set name)"
proof -
  obtain name v found where c: "cut a CHR ''='' = (name, v, found)" by (cases "cut a CHR ''=''")
  have n: "found \<Longrightarrow> CHR ''='' \<notin> set name" using c cut_found [of a "CHR ''=''" name v] by simp
  show ?thesis
  proof (cases "\<not> found \<or> name = token_variable")
    case True
    then show ?thesis by (simp add: set_variable_def c)
  next
    case False
    show ?thesis
    proof (cases "name \<in> set (map fst vs)")
      case True
      then have "set_variable vs a = map (\<lambda>(m, w). if m = name then (m, v) else (m, w)) vs"
        using False by (simp add: set_variable_def c)
      then have "map fst (set_variable vs a) = map fst vs" by (simp add: comp_def split_def if_distrib cong: if_cong)
      then show ?thesis by blast
    next
      case new: False
      then have "set_variable vs a = vs @ [(name, v)]" using False by (simp add: set_variable_def c)
      then show ?thesis using new False n by blast
    qed
  qed
qed

text \<open>Each variable is there once, and the token is not there.\<close>

definition clean_names :: "variables \<Rightarrow> bool" where
  "clean_names vs \<longleftrightarrow> distinct (map fst vs) \<and> (\<forall>n\<in>set (map fst vs). n \<noteq> token_variable \<and> CHR ''='' \<notin> set n)"

lemma clean_set_variable: "clean_names vs \<Longrightarrow> clean_names (set_variable vs a)"
  using set_variable_names [of vs a] unfolding clean_names_def by (elim disjE exE conjE; force)

lemma clean_foldl: "clean_names vs \<Longrightarrow> clean_names (foldl set_variable vs as)"
  by (induction as arbitrary: vs) (simp_all add: clean_set_variable)

lemma variable_name_of: "CHR ''='' \<notin> set name \<Longrightarrow> variable_name (name @ CHR ''='' # v) = name"
  by (simp add: variable_name_def cut_hit)

lemma agent_environment_vars:
  "\<exists>vs. clean_names vs \<and> agent_environment order passwd base request = map (\<lambda>(name, v). name @ ''='' @ v) vs"
  unfolding agent_environment_def Let_def
  by (rule exI, rule conjI [OF _ refl]) (intro clean_foldl, simp add: clean_names_def)

lemma variable_names_of: "clean_names vs \<Longrightarrow> map variable_name (map (\<lambda>(name, v). name @ ''='' @ v) vs) = map fst vs"
  by (induction vs) (auto simp: clean_names_def variable_name_of)

lemma child_environment_names:
  "map variable_name (child_environment environment dev) =
     filter (\<lambda>n. n \<notin> set dropped_variables) (map variable_name environment) @ [''HOME'', ''USER'', ''LOGNAME'']"
  using variable_name_of [of "''HOME''"] variable_name_of [of "''USER''"] variable_name_of [of "''LOGNAME''"]
  by (simp add: child_environment_def filter_map comp_def)

section \<open>Properties\<close>


text \<open>The answer to a command is its output and then one last frame: the exit status, cut to 32 bits, or, with no output before it, why
  it did not start.\<close>

theorem exec_answer_frames:
  "\<exists>outputs kind payload. serve_exec ab request = outputs @ [(kind, payload)] \<and>
     (\<forall>f\<in>set outputs. fst f = frame_stdout \<or> (fst f = frame_stderr \<and> \<not> me_tty request)) \<and>
     (kind = frame_failure \<and> outputs = [] \<or> kind = frame_exit \<and> (\<exists>exit_code. payload = exit_payload exit_code))"
proof -
  define path where "path = look_path_in (ab_executable ab) (hd (me_command request))
    (agent_variable (agent_environment (ab_order ab) (ab_passwd ab) (ab_environment ab) request) ''PATH'')"
  show ?thesis
  proof (cases "path = None")
    case True
    then show ?thesis by (simp add: serve_exec_def Let_def path_def [symmetric])
  next
    case False
    have s: "serve_exec ab request = (case ab_kernel ab (command_for ab request path) of
        No_Streams e \<Rightarrow> [(frame_failure, text_bytes e)]
      | No_Start e \<Rightarrow> [(frame_failure, text_bytes e)]
      | Runs chunks exit_code \<Rightarrow>
          map (\<lambda>(is_error, chunk). (output_kind (me_tty request) is_error, chunk)) (filter (\<lambda>(is_error, chunk). chunk \<noteq> []) chunks) @
          [(frame_exit, exit_payload exit_code)])"
      unfolding serve_exec_def Let_def path_def [symmetric] using False by (simp only: if_False)
    show ?thesis
    proof (cases "ab_kernel ab (command_for ab request path)")
      case (Runs chunks exit_code)
      then show ?thesis unfolding s
        by (intro exI [of _ "map (\<lambda>(is_error, chunk). (output_kind (me_tty request) is_error, chunk)) (filter (\<lambda>(is_error, chunk). chunk \<noteq> []) chunks)"]
            exI [of _ frame_exit] exI [of _ "exit_payload exit_code"]) (auto simp: output_kind_def)
    qed (simp_all add: s)
  qed
qed

text \<open>The agent runs the command that the host asks for, with the frames that follow the line, when the line is not too long.\<close>

theorem agent_reads_request:
  assumes "mr_operation r = operation_exec" "mr_exec r = Some e" "wf_exec e" "me_command e \<noteq> []"
    and "length (json_text (request_json r)) < request_line_limit"
  shows "handle_agent_connection (request_line r @ frames) = Exec e frames"
proof -
  have n: "newline \<notin> set (json_text (request_json r))" using json_text_printable [of newline] by fastforce
  have "read_request_line (json_text (request_json r) @ newline # frames) = Some (json_text (request_json r), frames)"
    unfolding read_request_line_def by (rule read_line_loop_line [OF n assms(5)])
  moreover have "read_request (json_text (request_json r)) = (r, True)"
    using request_of_json [of r] assms(2,3) by (simp add: read_request_def parse_json_text)
  ultimately show ?thesis using assms(1,2,4) by (simp add: handle_agent_connection_def request_line_def Let_def)
qed

definition example_exec :: machine_exec where
  "example_exec = \<lparr>me_command = [''ls''], me_tty = False, me_work_dir = ''/workspace'', me_uid = 501, me_gid = 501,
     me_environment = [''A=1''], me_rows = 0, me_columns = 0\<rparr>"

lemma agent_reads_request_witness:
  "handle_agent_connection (request_line \<lparr>mr_operation = operation_exec, mr_exec = Some example_exec\<rparr> @ ''x'') = Exec example_exec ''x''"
proof (rule agent_reads_request)
  show "mr_exec \<lparr>mr_operation = operation_exec, mr_exec = Some example_exec\<rparr> = Some example_exec" by simp
  show "wf_exec example_exec" by (simp add: wf_exec_def small_int_def example_exec_def int64_min_def int64_max_def)
  have "length (json_text (request_json \<lparr>mr_operation = operation_exec, mr_exec = Some example_exec\<rparr>)) < 500" by code_simp
  then show "length (json_text (request_json \<lparr>mr_operation = operation_exec, mr_exec = Some example_exec\<rparr>)) < request_line_limit"
    by (simp add: request_line_limit_def)
qed (simp_all add: example_exec_def)

text \<open>C31. A process that the agent starts gets its exit code once, whether the reaper collects it after or, by at most a minute, before the agent
  registers the process, and whatever happens to other processes in between. No channel ever has more codes than it has room for, so the
  reaper never waits.\<close>

theorem exit_code_delivered:
  assumes ok: "runner_ok r" and fresh: "cr_owned r pid = None" "cr_unclaimed r pid = None"
    and others: "\<forall>e\<in>set events. event_pid e \<noteq> pid"
    and soon: "\<forall>e\<in>set events. \<forall>now. event_time e = Some now \<longrightarrow> now - reaped \<le> unclaimed_lifetime"
  shows "cr_channels (runner_run r (Register pid # events @ [Deliver pid c reaped])) ! length (cr_channels r) = [c] \<and>
    (let s = runner_run r (Deliver pid c reaped # events)
     in cr_channels (runner_run s [Register pid]) ! length (cr_channels s) = [c]) \<and>
    (\<forall>ch\<in>set (cr_channels (runner_run r (Register pid # events @ [Deliver pid c reaped]))). length ch \<le> 1)"
proof (intro conjI)
  define r1 where "r1 = snd (register pid r)"
  have r1: "runner_ok r1" "cr_owned r1 pid = Some (length (cr_channels r))"
    using register_ok [OF ok, of pid] fresh by (simp_all add: r1_def register_def Let_def)
  define r2 where "r2 = runner_run r1 events"
  have r2: "runner_ok r2" "cr_owned r2 pid = Some (length (cr_channels r))"
    using runner_run_ok [OF r1(1)] run_owned [OF r1 others] by (simp_all add: r2_def)
  then have "length (cr_channels r) < length (cr_channels r2)" "cr_channels r2 ! length (cr_channels r) = []"
    by (simp_all add: runner_ok_def)
  moreover have run: "runner_run r (Register pid # events @ [Deliver pid c reaped]) = deliver_exit pid c reaped r2"
    by (simp add: runner_run_def r1_def r2_def)
  ultimately show "cr_channels (runner_run r (Register pid # events @ [Deliver pid c reaped])) ! length (cr_channels r) = [c]"
    using r2(2) by (simp add: deliver_exit_def send_code_def)
  show "\<forall>ch\<in>set (cr_channels (runner_run r (Register pid # events @ [Deliver pid c reaped]))). length ch \<le> 1"
    using deliver_ok [OF r2(1)] unfolding run by (simp add: runner_ok_def)
  define d where "d = deliver_exit pid c reaped r"
  have "cr_unclaimed d pid = Some \<lparr>ue_code = c, ue_reaped = reaped\<rparr>" by (simp add: d_def deliver_exit_def fresh)
  from run_unclaimed [OF this, of events] others soon
  have "cr_unclaimed (runner_run d events) pid = Some \<lparr>ue_code = c, ue_reaped = reaped\<rparr>" by simp
  then show "let s = runner_run r (Deliver pid c reaped # events)
     in cr_channels (runner_run s [Register pid]) ! length (cr_channels s) = [c]"
    by (simp add: runner_run_def d_def [symmetric] register_def Let_def)
qed

lemma exit_code_delivered_witness:
  "cr_channels (runner_run new_runner (Register 7 # [Register 8, Deliver 9 1 0] @ [Deliver 7 3 0])) ! 0 = [3]"
  using exit_code_delivered [OF runner_ok_new, of 7 "[Register 8, Deliver 9 1 0]" 0 3]
  by (simp add: new_runner_def unclaimed_lifetime_def)

end
