(* ===== verification/Nfs_Export.thy ===== *)
theory Nfs_Export
  imports Go_Netip Go_Path
begin

text \<open>
  \<open>internal/nfsexport\<close>: the helper that runs as root and exports folders to the boxes for one user. What the file system and
  \<open>exportfs\<close> answer is a parameter; the helper's exports are the state.
\<close>

section \<open>Requests\<close>

definition operation_export :: string where "operation_export = ''export''"
definition operation_unexport :: string where "operation_unexport = ''unexport''"
definition nfs_operation_ping :: string where "nfs_operation_ping = ''ping''"

record nfs_request =
  nq_operation :: string
  nq_path :: string
  nq_client :: string
  nq_read_only :: bool

definition nfs_socket_path :: "int \<Rightarrow> string" where
  "nfs_socket_path uid = ''/run/prison/nfs-'' @ itoa uid @ ''.sock''"

datatype nfs_error =
  Not_A_Box_Address string
| Export_Not_Absolute string
| Cannot_Resolve string
| Export_Of_Root
| Cannot_Read_Owner string
| Not_A_Folder string
| Not_Owned string
| Exportfs_Failed string
| Unknown_Nfs_Operation string
| Wrong_Peer int
| Not_A_Unix_Socket

section \<open>The policy\<close>

text \<open>The owner of a path and whether it is a folder, of the file that a path resolves to.\<close>

record nfs_host =
  nh_ipv6 :: ipv6_forms
  nh_resolve :: "string \<Rightarrow> string option"
  nh_owner :: "string \<Rightarrow> (int \<times> bool) option"

record nfs_policy =
  np_uid :: int
  np_gid :: int
  np_allow_client :: "addr \<Rightarrow> bool"

definition policy_client :: "nfs_host \<Rightarrow> nfs_policy \<Rightarrow> string \<Rightarrow> (nfs_error, addr) result" where
  "policy_client nh np client =
     (case parse_addr (nh_ipv6 nh) client of
        None \<Rightarrow> Err (Not_A_Box_Address client)
      | Some a \<Rightarrow> if np_allow_client np a then Ok a else Err (Not_A_Box_Address client))"

definition root_folder :: string where "root_folder = ''/''"

definition target_text :: "nfs_host \<Rightarrow> addr \<Rightarrow> string \<Rightarrow> string" where
  "target_text nh client resolved = addr_text (nh_ipv6 nh) client @ '':'' @ resolved"

definition export_target :: "nfs_host \<Rightarrow> nfs_policy \<Rightarrow> nfs_request \<Rightarrow> (nfs_error, string) result" where
  "export_target nh np request =
     bind_res (policy_client nh np (nq_client request)) (\<lambda>client.
     if \<not> is_abs (nq_path request) then Err (Export_Not_Absolute (nq_path request))
     else (case nh_resolve nh (nq_path request) of
             None \<Rightarrow> Err (Cannot_Resolve (nq_path request))
           | Some resolved \<Rightarrow>
               if resolved = root_folder then Err Export_Of_Root
               else (case nh_owner nh resolved of
                       None \<Rightarrow> Err (Cannot_Read_Owner resolved)
                     | Some (owner, is_directory) \<Rightarrow>
                         if \<not> is_directory then Err (Not_A_Folder resolved)
                         else if owner \<noteq> np_uid np then Err (Not_Owned resolved)
                         else Ok (target_text nh client resolved))))"

definition unexport_target :: "nfs_host \<Rightarrow> nfs_policy \<Rightarrow> nfs_request \<Rightarrow> (nfs_error, string) result" where
  "unexport_target nh np request =
     bind_res (policy_client nh np (nq_client request)) (\<lambda>client.
     if \<not> is_abs (nq_path request) then Err (Export_Not_Absolute (nq_path request))
     else Ok (target_text nh client
       (case nh_resolve nh (nq_path request) of None \<Rightarrow> path_clean (nq_path request) | Some resolved \<Rightarrow> resolved)))"

definition export_options :: "nfs_policy \<Rightarrow> bool \<Rightarrow> string" where
  "export_options np read_only =
     (if read_only then ''ro'' else ''rw'') @ '',sync,no_subtree_check,all_squash,anonuid='' @ itoa (np_uid np) @
     '',anongid='' @ itoa (np_gid np)"

section \<open>The helper\<close>

text \<open>The exports with their options. What \<open>exportfs\<close> answers to its arguments: whether it succeeds, and its output.\<close>

type_synonym exports = "(string \<times> string) list"
type_synonym exportfs = "string list \<Rightarrow> bool \<times> string"

text \<open>The user of the peer, when the connection is a Unix socket; its credentials can always be read here.\<close>

definition check_peer :: "nfs_policy \<Rightarrow> int option \<Rightarrow> (nfs_error, unit) result" where
  "check_peer np peer =
     (case peer of
        None \<Rightarrow> Err Not_A_Unix_Socket
      | Some uid \<Rightarrow> if uid \<noteq> np_uid np \<and> uid \<noteq> 0 then Err (Wrong_Peer uid) else Ok ())"

definition serve_nfs :: "nfs_host \<Rightarrow> exportfs \<Rightarrow> nfs_policy \<Rightarrow> nfs_request \<Rightarrow> exports \<Rightarrow> (nfs_error, unit) result \<times> exports" where
  "serve_nfs nh run np request es =
     (if nq_operation request = nfs_operation_ping then (Ok (), es)
      else if nq_operation request = operation_export then
        (case export_target nh np request of
           Err e \<Rightarrow> (Err e, es)
         | Ok target \<Rightarrow>
             (let options = export_options np (nq_read_only request)
              in case run [''-o'', options, target] of
                   (ok, output_text) \<Rightarrow> if ok then (Ok (), (target, options) # filter (\<lambda>e. fst e \<noteq> target) es)
                                        else (Err (Exportfs_Failed output_text), es)))
      else if nq_operation request = operation_unexport then
        (case unexport_target nh np request of
           Err e \<Rightarrow> (Err e, es)
         | Ok target \<Rightarrow>
             (case run [''-u'', target] of
                (ok, output_text) \<Rightarrow>
                  if ok then (Ok (), filter (\<lambda>e. fst e \<noteq> target) es)
                  else if contains_str output_text ''Could not find'' then (Ok (), es)
                  else (Err (Exportfs_Failed output_text), es)))
      else (Err (Unknown_Nfs_Operation (nq_operation request)), es))"

text \<open>A request of a peer. One that is not JSON, which changes nothing, is left out.\<close>

definition handle_nfs :: "nfs_host \<Rightarrow> exportfs \<Rightarrow> nfs_policy \<Rightarrow> int option \<times> nfs_request \<Rightarrow> exports \<Rightarrow> (nfs_error, unit) result \<times> exports" where
  "handle_nfs nh run np call es =
     (case check_peer np (fst call) of
        Err e \<Rightarrow> (Err e, es)
      | Ok u \<Rightarrow> serve_nfs nh run np (snd call) es)"

text \<open>The files can change between two requests.\<close>

fun nfs_run :: "exportfs \<Rightarrow> nfs_policy \<Rightarrow> (nfs_host \<times> int option \<times> nfs_request) list \<Rightarrow> exports \<Rightarrow> exports" where
  "nfs_run run np [] es = es"
| "nfs_run run np ((nh, call) # calls) es = nfs_run run np calls (snd (handle_nfs nh run np call es))"

section \<open>What is exported\<close>

text \<open>What the options of an export mean to the kernel: every user of the client, its root too, acts on the folder as the user \<open>uid\<close> in the
  group \<open>gid\<close> (no option lets a user keep its own number, and each anonymous number is given once), and the client may write exactly
  when \<open>writable\<close>.\<close>

definition squashed_to :: "int \<Rightarrow> int \<Rightarrow> bool \<Rightarrow> string \<Rightarrow> bool" where
  "squashed_to uid gid writable options \<longleftrightarrow>
     (let os = split_on CHR '','' options
      in ''all_squash'' \<in> set os \<and> ''no_all_squash'' \<notin> set os \<and> ''no_root_squash'' \<notin> set os \<and>
         filter (\<lambda>opt. has_prefix opt ''anonuid='') os = [''anonuid='' @ itoa uid] \<and>
         filter (\<lambda>opt. has_prefix opt ''anongid='') os = [''anongid='' @ itoa gid] \<and>
         (''rw'' \<in> set os \<longleftrightarrow> writable) \<and> (''ro'' \<in> set os \<longleftrightarrow> \<not> writable))"

text \<open>An export that some request of the user or of root justifies: a folder of the user, not the root folder, under its resolved path, for
  one box address, on which the box acts as the user and writes only if the request asked for it.\<close>

definition justified :: "nfs_policy \<Rightarrow> (nfs_host \<times> int option \<times> nfs_request) \<Rightarrow> string \<times> string \<Rightarrow> bool" where
  "justified np call entry \<longleftrightarrow>
     (case call of (nh, peer, request) \<Rightarrow>
       (peer = Some (np_uid np) \<or> peer = Some 0) \<and>
       (\<exists>client resolved. parse_addr (nh_ipv6 nh) (nq_client request) = Some client \<and> np_allow_client np client \<and>
          is_abs (nq_path request) \<and> nh_resolve nh (nq_path request) = Some resolved \<and> resolved \<noteq> root_folder \<and>
          nh_owner nh resolved = Some (np_uid np, True) \<and>
          fst entry = addr_text (nh_ipv6 nh) client @ '':'' @ resolved \<and>
          squashed_to (np_uid np) (np_gid np) (\<not> nq_read_only request) (snd entry)))"

lemma export_options_split:
  "split_on CHR '','' (export_options np read_only) =
     [if read_only then ''ro'' else ''rw'', ''sync'', ''no_subtree_check'', ''all_squash'', ''anonuid='' @ itoa (np_uid np),
      ''anongid='' @ itoa (np_gid np)]"
proof -
  have o: "export_options np read_only =
      join [CHR '',''] [if read_only then ''ro'' else ''rw'', ''sync'', ''no_subtree_check'', ''all_squash'', ''anonuid='' @ itoa (np_uid np),
        ''anongid='' @ itoa (np_gid np)]"
    by (simp add: export_options_def)
  have n: "CHR '','' \<notin> set (itoa i)" for i using itoa_chars [of "CHR '',''" i] by (auto simp: is_digit_def)
  show ?thesis unfolding o by (rule split_on_join) (simp_all add: n)
qed

lemma export_options_squash: "squashed_to (np_uid np) (np_gid np) (\<not> read_only) (export_options np read_only)"
  by (simp add: squashed_to_def export_options_split has_prefix_def)

lemma policy_client_Ok: "policy_client nh np t = Ok a \<longleftrightarrow> parse_addr (nh_ipv6 nh) t = Some a \<and> np_allow_client np a"
  by (auto simp: policy_client_def split: option.splits)

lemma export_target_Ok:
  "export_target nh np request = Ok target \<longleftrightarrow>
     (\<exists>client resolved. policy_client nh np (nq_client request) = Ok client \<and> is_abs (nq_path request) \<and>
        nh_resolve nh (nq_path request) = Some resolved \<and> resolved \<noteq> root_folder \<and>
        nh_owner nh resolved = Some (np_uid np, True) \<and> target = target_text nh client resolved)"
proof (cases "nh_resolve nh (nq_path request)")
  case None
  then show ?thesis by (simp add: export_target_def bind_res_Ok)
next
  case (Some resolved)
  show ?thesis
  proof (cases "nh_owner nh resolved")
    case None
    then show ?thesis using Some by (simp add: export_target_def bind_res_Ok)
  next
    case o: (Some od)
    obtain owner is_directory where od: "od = (owner, is_directory)" by (cases od)
    show ?thesis using Some o by (auto simp: export_target_def bind_res_Ok od)
  qed
qed

lemma handle_nfs_exports:
  assumes "e \<in> set (snd (handle_nfs nh run np call es))"
  shows "e \<in> set es \<or> justified np (nh, call) e"
proof (cases "check_peer np (fst call)")
  case (Inr u)
  then have peer: "fst call = Some (np_uid np) \<or> fst call = Some 0"
    by (auto simp: check_peer_def split: option.splits if_splits)
  let ?r = "snd call"
  have s: "e \<in> set (snd (serve_nfs nh run np ?r es))" using assms Inr by (simp add: handle_nfs_def)
  consider "nq_operation ?r = operation_export" "nq_operation ?r \<noteq> nfs_operation_ping"
    | "nq_operation ?r \<noteq> operation_export \<or> nq_operation ?r = nfs_operation_ping" by blast
  then show ?thesis
  proof cases
    case 1
    show ?thesis
    proof (cases "export_target nh np ?r")
      case (Inl x)
      then show ?thesis using s 1 by (simp add: serve_nfs_def)
    next
      case (Inr target)
      then have "e \<in> set es \<or> e = (target, export_options np (nq_read_only ?r))"
        using s 1 by (auto simp: serve_nfs_def Let_def split: prod.splits if_splits)
      moreover have "justified np (nh, call) (target, export_options np (nq_read_only ?r))"
        using Inr [unfolded export_target_Ok policy_client_Ok] peer
        by (cases call) (auto simp: justified_def target_text_def export_options_squash)
      ultimately show ?thesis by blast
    qed
  next
    case 2
    then have "set (snd (serve_nfs nh run np ?r es)) \<subseteq> set es"
      by (auto simp: serve_nfs_def split: sum.splits prod.splits if_splits)
    then show ?thesis using s by blast
  qed
qed (use assms in \<open>simp add: handle_nfs_def\<close>)

section \<open>Properties\<close>

text \<open>C9. Whatever the boxes and the user ask the helper, and however the files change: every folder that it exports was at the time of some
  request of the user, or of root, a folder of the user other than the root folder, is exported under its resolved path to one box address,
  and its options make every user of the box, root too, act there as the user of the helper, who can write only if the request was not for
  reading alone.\<close>

theorem exports_justified:
  assumes "e \<in> set (nfs_run run np calls [])"
  shows "\<exists>call\<in>set calls. justified np call e"
proof -
  have "e \<in> set (nfs_run run np calls es) \<Longrightarrow> e \<in> set es \<or> (\<exists>call\<in>set calls. justified np call e)" for es
  proof (induction run np calls es rule: nfs_run.induct)
    case (2 run np nh call calls es)
    then show ?case using handle_nfs_exports by fastforce
  qed simp
  with assms show ?thesis by fastforce
qed

definition example_nfs_host :: nfs_host where
  "example_nfs_host = \<lparr>nh_ipv6 = \<lparr>v6_parse = (\<lambda>t. None), v6_text = (\<lambda>w. [])\<rparr>, nh_resolve = (\<lambda>p. Some p),
     nh_owner = (\<lambda>p. Some (501, True))\<rparr>"

definition example_nfs_policy :: nfs_policy where
  "example_nfs_policy = \<lparr>np_uid = 501, np_gid = 20, np_allow_client = (\<lambda>a. True)\<rparr>"

definition example_nfs_request :: nfs_request where
  "example_nfs_request = \<lparr>nq_operation = operation_export, nq_path = ''/src'', nq_client = addr4_text 0xC0A8640A, nq_read_only = True\<rparr>"

lemma exports_justified_witness:
  "justified example_nfs_policy (example_nfs_host, Some 501, example_nfs_request)
     (target_text example_nfs_host (Addr4 0xC0A8640A) ''/src'', export_options example_nfs_policy True)"
proof -
  have "export_target example_nfs_host example_nfs_policy example_nfs_request = Ok (target_text example_nfs_host (Addr4 0xC0A8640A) ''/src'')"
    unfolding export_target_Ok policy_client_Ok
    by (simp add: example_nfs_request_def example_nfs_policy_def example_nfs_host_def parse_addr_text4 is_abs_def has_prefix_def root_folder_def)
  then have "(target_text example_nfs_host (Addr4 0xC0A8640A) ''/src'', export_options example_nfs_policy True)
      \<in> set (nfs_run (\<lambda>args. (True, [])) example_nfs_policy [(example_nfs_host, Some 501, example_nfs_request)] [])"
    by (simp add: handle_nfs_def check_peer_def serve_nfs_def Let_def)
      (simp add: example_nfs_policy_def example_nfs_request_def operation_export_def operation_unexport_def nfs_operation_ping_def)
  from exports_justified [OF this] show ?thesis by simp
qed

end
