(* ===== verification/Firecracker.thy ===== *)
theory Firecracker
  imports Nfs_Export Machine
begin

text \<open>
  \<open>internal/isolator/firecracker/network.go\<close>: the host-only network of the microVMs. A network has a bridge, a subnet that depends on its
  name only, and a pool of taps; each tap has one address, and the rules of the bridge let a box send only from the address of its tap.
  Beside the text of the rules there is a list of rules with the meaning that nftables documents, and a lemma that the text is theirs.
\<close>

section \<open>Networks\<close>

definition tap_pool_size :: nat where "tap_pool_size = 16"
definition first_box_host_number :: nat where "first_box_host_number = 10"
definition interface_name_limit :: nat where "interface_name_limit = 15"
definition network_script_folder :: string where "network_script_folder = ''/usr/local/libexec/prison''"
definition systemd_unit_folder :: string where "systemd_unit_folder = ''/etc/systemd/system''"

record box_network =
  bn_name :: string
  bn_subnet :: "32 word \<times> nat"
  bn_gateway :: "32 word"

datatype network_error =
  Network_Name_Not_Valid string
| No_State_Directory
| No_Nfs_Server
| No_Nft
| No_Prison_Binary
| Cannot_Write_Staging string
| Sudo_Not_Run
| Sudo_Failed string
| Network_Not_Ready string
| Helper_Not_Ready

definition network_name_pattern :: "string \<Rightarrow> bool" where
  "network_name_pattern name =
     (case name of [] \<Rightarrow> False
      | c # s \<Rightarrow> is_lower c \<and> list_all (\<lambda>d. is_lower d \<or> is_digit d \<or> d = CHR ''-'') s)"

text \<open>FNV-1a with 32 bits.\<close>

definition fnv32a :: "string \<Rightarrow> 32 word" where
  "fnv32a s = foldl (\<lambda>h c. xor h (of_nat (of_char c)) * 16777619) 2166136261 s"

definition third_octet :: "string \<Rightarrow> nat" where
  "third_octet name = 100 + unat (fnv32a name) mod 100"

definition network_for :: "string \<Rightarrow> (network_error, box_network) result" where
  "network_for name =
     (let longest_tap = name @ ''-'' @ itoa (int tap_pool_size - 1)
      in if \<not> network_name_pattern name \<or> length longest_tap > interface_name_limit then Err (Network_Name_Not_Valid name)
         else (let third = third_octet name
               in Ok \<lparr>bn_name = name, bn_subnet = (bytes_addr [192, 168, third, 0], 24), bn_gateway = bytes_addr [192, 168, third, 1]\<rparr>))"

definition is_box_address :: "addr \<Rightarrow> bool" where
  "is_box_address a =
     (case a of
        Addr6 w \<Rightarrow> False
      | Addr4 w \<Rightarrow> (let os = addr_bytes w
          in os ! 0 = 192 \<and> os ! 1 = 168 \<and> os ! 2 \<ge> 100 \<and> os ! 2 \<le> 199 \<and>
             os ! 3 \<ge> first_box_host_number \<and> os ! 3 < first_box_host_number + tap_pool_size))"

definition tap_name :: "box_network \<Rightarrow> nat \<Rightarrow> string" where
  "tap_name n index = bn_name n @ ''-'' @ itoa (int index)"

text \<open>The last byte is cut to 8 bits.\<close>

definition box_address :: "box_network \<Rightarrow> nat \<Rightarrow> 32 word" where
  "box_address n index = bytes_addr ((addr_bytes (bn_gateway n))[3 := (first_box_host_number + index) mod 256])"

definition unit_name :: "box_network \<Rightarrow> string" where
  "unit_name n = ''prison-network-'' @ bn_name n @ ''.service''"

definition script_path :: "box_network \<Rightarrow> string" where
  "script_path n = path_join [network_script_folder, ''network-'' @ bn_name n]"

section \<open>The script\<close>

definition quoted_name :: "string \<Rightarrow> string" where "quoted_name s = dquote # s @ [dquote]"
definition indent :: string where "indent = [tab, tab]"

definition rules_table :: "box_network \<Rightarrow> string" where
  "rules_table n = ''prison_'' @ replace_char CHR ''-'' CHR ''_'' (bn_name n)"

definition spoofing_rules :: "box_network \<Rightarrow> string list" where
  "spoofing_rules n =
     [''table bridge '' @ rules_table n,
      ''delete table bridge '' @ rules_table n,
      ''table bridge '' @ rules_table n @ '' {'',
      tab # ''chain prerouting {'',
      indent @ ''type filter hook prerouting priority filter; policy accept;''] @
     concat (map (\<lambda>index.
       let tap = tap_name n index; address = box_address n index
       in [indent @ ''iifname '' @ quoted_name tap @ '' ip saddr != '' @ addr4_text address @ '' drop'',
           indent @ ''iifname '' @ quoted_name tap @ '' arp saddr ip != '' @ addr4_text address @ '' drop'']) [0..<tap_pool_size]) @
     [indent @ ''iifname '' @ quoted_name (bn_name n @ ''-*'') @ '' ether type != { ip, arp } drop'', tab # ''}'', ''}'']"

definition network_script :: "box_network \<Rightarrow> int \<Rightarrow> int \<Rightarrow> string" where
  "network_script n uid gid =
     join [newline]
       ([''#!/bin/sh'',
         ''# Written by prison. Creates the '' @ bn_name n @ '' network.'',
         ''set -eu'',
         ''bridge='' @ bn_name n,
         ''if ! ip link show dev '' @ quoted_name ''$bridge'' @ '' >/dev/null 2>&1; then'',
         ''  ip link add name '' @ quoted_name ''$bridge'' @ '' type bridge'',
         ''fi'',
         ''ip address replace '' @ addr4_text (bn_gateway n) @ ''/'' @ itoa (int (snd (bn_subnet n))) @ '' dev '' @ quoted_name ''$bridge'',
         ''ip link set dev '' @ quoted_name ''$bridge'' @ '' up'',
         ''for index in $(seq 0 '' @ itoa (int tap_pool_size - 1) @ ''); do'',
         ''  tap='' @ quoted_name ''$bridge-$index'',
         ''  if ! ip link show dev '' @ quoted_name ''$tap'' @ '' >/dev/null 2>&1; then'',
         ''    ip tuntap add dev '' @ quoted_name ''$tap'' @ '' mode tap user '' @ itoa uid @ '' group '' @ itoa gid,
         ''  fi'',
         ''  ip link set dev '' @ quoted_name ''$tap'' @ '' master '' @ quoted_name ''$bridge'' @ '' up'',
         ''  bridge link set dev '' @ quoted_name ''$tap'' @ '' isolated on'',
         ''done'',
         ''nft -f - <<'' @ [CHR 0x27] @ ''RULES'' @ [CHR 0x27]] @ spoofing_rules n @ [''RULES'']) @ [newline]"

definition network_unit :: "box_network \<Rightarrow> string" where
  "network_unit n =
     join [newline]
       [''[Unit]'',
        ''Description=prison '' @ bn_name n @ '' network'',
        ''After=network-pre.target'',
        [],
        ''[Service]'',
        ''Type=oneshot'',
        ''RemainAfterExit=yes'',
        ''ExecStart='' @ script_path n,
        [],
        ''[Install]'',
        ''WantedBy=multi-user.target'',
        []]"

section \<open>The meaning of the rules\<close>

text \<open>What a frame carries: an IPv4 packet or an ARP packet with its source address, or something else.\<close>

datatype frame_body = Ip4 "32 word" | Arp "32 word" | Other_Body

record bridge_frame =
  bf_interface :: string
  bf_body :: frame_body

datatype drop_rule = Drop_Ip string "32 word" | Drop_Arp string "32 word" | Drop_Others string

fun drops :: "bridge_frame \<Rightarrow> drop_rule \<Rightarrow> bool" where
  "drops f (Drop_Ip tap a) \<longleftrightarrow> bf_interface f = tap \<and> (\<exists>b. bf_body f = Ip4 b \<and> b \<noteq> a)"
| "drops f (Drop_Arp tap a) \<longleftrightarrow> bf_interface f = tap \<and> (\<exists>b. bf_body f = Arp b \<and> b \<noteq> a)"
| "drops f (Drop_Others pre) \<longleftrightarrow> has_prefix (bf_interface f) pre \<and> bf_body f = Other_Body"

fun drop_rule_text :: "drop_rule \<Rightarrow> string" where
  "drop_rule_text (Drop_Ip tap a) = indent @ ''iifname '' @ quoted_name tap @ '' ip saddr != '' @ addr4_text a @ '' drop''"
| "drop_rule_text (Drop_Arp tap a) = indent @ ''iifname '' @ quoted_name tap @ '' arp saddr ip != '' @ addr4_text a @ '' drop''"
| "drop_rule_text (Drop_Others pre) = indent @ ''iifname '' @ quoted_name (pre @ ''*'') @ '' ether type != { ip, arp } drop''"

definition bridge_rules :: "box_network \<Rightarrow> drop_rule list" where
  "bridge_rules n =
     concat (map (\<lambda>index. [Drop_Ip (tap_name n index) (box_address n index), Drop_Arp (tap_name n index) (box_address n index)])
       [0..<tap_pool_size]) @ [Drop_Others (bn_name n @ ''-'')]"

definition bridge_passes :: "box_network \<Rightarrow> bridge_frame \<Rightarrow> bool" where
  "bridge_passes n f \<longleftrightarrow> \<not> list_ex (drops f) (bridge_rules n)"

section \<open>Lemmas\<close>

lemma bridge_rules_text:
  "spoofing_rules n =
     [''table bridge '' @ rules_table n, ''delete table bridge '' @ rules_table n, ''table bridge '' @ rules_table n @ '' {'',
      tab # ''chain prerouting {'', indent @ ''type filter hook prerouting priority filter; policy accept;''] @
     map drop_rule_text (bridge_rules n) @ [tab # ''}'', ''}'']"
proof -
  have c: "concat (map (\<lambda>index.
       let tap = tap_name n index; address = box_address n index
       in [indent @ ''iifname '' @ quoted_name tap @ '' ip saddr != '' @ addr4_text address @ '' drop'',
           indent @ ''iifname '' @ quoted_name tap @ '' arp saddr ip != '' @ addr4_text address @ '' drop'']) is)
    = map drop_rule_text (concat (map (\<lambda>index. [Drop_Ip (tap_name n index) (box_address n index), Drop_Arp (tap_name n index) (box_address n index)]) is))" for "is"
    by (induction "is") (simp_all add: Let_def)
  show ?thesis unfolding spoofing_rules_def bridge_rules_def c by simp
qed

lemma tap_name_inj: "tap_name n i = tap_name n j \<longleftrightarrow> i = j"
  using itoa_inj [of "int i" "int j"] by (auto simp: tap_name_def)

lemma bytes_addr_bytes: "length bs = 4 \<Longrightarrow> \<forall>b\<in>set bs. b < 256 \<Longrightarrow> addr_bytes (bytes_addr bs) = bs"
proof -
  assume "length bs = 4" and small: "\<forall>b\<in>set bs. b < 256"
  then obtain a b c d where bs: "bs = [a, b, c, d]" by (auto simp: length_Suc_conv numeral_eq_Suc)
  have l: "a < 256" "b < 256" "c < 256" "d < 256" using small by (simp_all add: bs)
  define m where "m = ((a * 256 + b) * 256 + c) * 256 + d"
  have "m < 4294967296" using l by (simp add: m_def)
  then have u: "unat (of_nat m :: 32 word) = m" by (simp add: unat_of_nat)
  have low: "(x * 256 + y) div 256 = x" "(x * 256 + y) mod 256 = y" if "y < 256" for x y :: nat using that by simp_all
  have m: "m div 256 = (a * 256 + b) * 256 + c" "m mod 256 = d" unfolding m_def by (rule low [OF l(4)])+
  moreover have "((a * 256 + b) * 256 + c) div 256 = a * 256 + b" "((a * 256 + b) * 256 + c) mod 256 = c" by (rule low [OF l(3)])+
  moreover have "(a * 256 + b) div 256 = a" "(a * 256 + b) mod 256 = b" by (rule low [OF l(2)])+
  moreover have "m div 65536 = m div 256 div 256" "m div 16777216 = m div 256 div 256 div 256" by (simp_all flip: div_mult2_eq)
  ultimately have "[m div 16777216, m div 65536 mod 256, m div 256 mod 256, m mod 256] = [a, b, c, d]" using m by presburger
  moreover have "bytes_addr bs = of_nat m" by (simp add: bytes_addr_def bs m_def)
  ultimately show ?thesis using u by (simp only: addr_bytes_def Let_def bs)
qed

lemma network_for_Ok:
  assumes "network_for name = Ok n"
  shows "n = \<lparr>bn_name = name, bn_subnet = (bytes_addr [192, 168, third_octet name, 0], 24),
      bn_gateway = bytes_addr [192, 168, third_octet name, 1]\<rparr>" "network_name_pattern name" "length name + 3 \<le> interface_name_limit"
proof -
  have i: "length (itoa 15) = 2" by code_simp
  show "n = \<lparr>bn_name = name, bn_subnet = (bytes_addr [192, 168, third_octet name, 0], 24),
      bn_gateway = bytes_addr [192, 168, third_octet name, 1]\<rparr>" "network_name_pattern name" "length name + 3 \<le> interface_name_limit"
    using assms by (auto simp: network_for_def Let_def tap_pool_size_def i split: if_splits)
qed

lemma third_octet_range: "100 \<le> third_octet name" "third_octet name < 200"
  by (simp_all add: third_octet_def)

lemma box_address_bytes:
  assumes "network_for name = Ok n" "index < tap_pool_size"
  shows "addr_bytes (box_address n index) = [192, 168, third_octet name, first_box_host_number + index]"
proof -
  have t: "third_octet name < 256" using third_octet_range [of name] by simp
  have "addr_bytes (bn_gateway n) = [192, 168, third_octet name, 1]"
    using network_for_Ok(1) [OF assms(1)] t by (simp add: bytes_addr_bytes)
  moreover have "(first_box_host_number + index) mod 256 = first_box_host_number + index" "first_box_host_number + index < 256"
    using assms(2) by (simp_all add: first_box_host_number_def tap_pool_size_def)
  ultimately show ?thesis using t by (simp add: box_address_def bytes_addr_bytes)
qed

lemma box_address_inj:
  assumes "network_for name = Ok n" "i < tap_pool_size" "j < tap_pool_size"
  shows "box_address n i = box_address n j \<longleftrightarrow> i = j"
proof
  assume "box_address n i = box_address n j"
  then have "[192, 168, third_octet name, first_box_host_number + i] = [192, 168, third_octet name, first_box_host_number + j]"
    using box_address_bytes [OF assms(1,2)] box_address_bytes [OF assms(1,3)] by metis
  then show "i = j" by simp
qed simp

lemma box_address_ok: "network_for name = Ok n \<Longrightarrow> i < tap_pool_size \<Longrightarrow> is_box_address (Addr4 (box_address n i))"
  using box_address_bytes [of name n i] third_octet_range [of name] by (simp add: is_box_address_def)

lemma gateway_no_box: "network_for name = Ok n \<Longrightarrow> \<not> is_box_address (Addr4 (bn_gateway n))"
  using network_for_Ok(1) [of name n] third_octet_range [of name]
  by (simp add: is_box_address_def bytes_addr_bytes first_box_host_number_def)

lemma tap_prefix: "has_prefix (tap_name n i) (bn_name n @ ''-'')"
  using has_prefix_append [of "bn_name n @ ''-''" "itoa (int i)"] by (simp add: tap_name_def)

section \<open>Properties\<close>

text \<open>C8. The rules that the network script loads are the text of a list of rules that drop frames. By these rules, from a tap of a network
  the bridge passes exactly the IPv4 and ARP packets with the address of that tap as their source, and the
  addresses of the taps are 16 different box addresses, none of which is the gateway. So a box cannot send in the name of another box or
  of the host.\<close>

theorem boxes_cannot_spoof:
  assumes net: "network_for name = Ok n" and i: "i < tap_pool_size"
  shows "(bridge_passes n \<lparr>bf_interface = tap_name n i, bf_body = body\<rparr> \<longleftrightarrow>
            body = Ip4 (box_address n i) \<or> body = Arp (box_address n i)) \<and>
         is_box_address (Addr4 (box_address n i)) \<and> box_address n i \<noteq> bn_gateway n \<and>
         (\<forall>j<tap_pool_size. box_address n j = box_address n i \<longrightarrow> tap_name n j = tap_name n i) \<and>
         spoofing_rules n =
           [''table bridge '' @ rules_table n, ''delete table bridge '' @ rules_table n, ''table bridge '' @ rules_table n @ '' {'',
            tab # ''chain prerouting {'', indent @ ''type filter hook prerouting priority filter; policy accept;''] @
           map drop_rule_text (bridge_rules n) @ [tab # ''}'', ''}'']"
proof (intro conjI allI impI)
  show "spoofing_rules n =
      [''table bridge '' @ rules_table n, ''delete table bridge '' @ rules_table n, ''table bridge '' @ rules_table n @ '' {'',
       tab # ''chain prerouting {'', indent @ ''type filter hook prerouting priority filter; policy accept;''] @
      map drop_rule_text (bridge_rules n) @ [tab # ''}'', ''}'']" by (rule bridge_rules_text)
  have "list_ex (drops \<lparr>bf_interface = tap_name n i, bf_body = body\<rparr>) (bridge_rules n) \<longleftrightarrow>
      (\<exists>b. body = Ip4 b \<and> b \<noteq> box_address n i) \<or> (\<exists>b. body = Arp b \<and> b \<noteq> box_address n i) \<or> body = Other_Body"
    using i tap_prefix by (auto simp: bridge_rules_def list_ex_iff tap_name_inj)
  then show "bridge_passes n \<lparr>bf_interface = tap_name n i, bf_body = body\<rparr> \<longleftrightarrow>
      body = Ip4 (box_address n i) \<or> body = Arp (box_address n i)"
    unfolding bridge_passes_def by (cases body) auto
  show "is_box_address (Addr4 (box_address n i))" using box_address_ok [OF net i] .
  then show "box_address n i \<noteq> bn_gateway n" using gateway_no_box [OF net] by auto
  show "tap_name n j = tap_name n i" if "j < tap_pool_size" "box_address n j = box_address n i" for j
    using that box_address_inj [OF net that(1) i] by simp
qed

lemma example_network_name: "is_ok (network_for ''prison'')"
proof -
  have "length (itoa (int tap_pool_size - 1)) = 2" unfolding tap_pool_size_def by code_simp
  moreover have "network_name_pattern ''prison''" by code_simp
  ultimately show ?thesis by (simp add: network_for_def Let_def interface_name_limit_def is_ok_def)
qed

lemma boxes_cannot_spoof_witness: "\<exists>n. network_for ''prison'' = Ok n \<and> box_address n 3 \<noteq> bn_gateway n"
proof -
  obtain n where n: "network_for ''prison'' = Ok n" using example_network_name by (auto simp: is_ok_def split: sum.splits)
  from boxes_cannot_spoof [OF n, of 3] show ?thesis using n by (auto simp: tap_pool_size_def)
qed

end
