(* ===== verification/Firecracker_Boxes.thy ===== *)
theory Firecracker_Boxes
  imports Firecracker "HOL-Library.AList"
begin

text \<open>
  \<open>internal/isolator/firecracker/boxes.go\<close>: the boxes of the aws-firecracker isolator: their records, the choice of a tap, and how boxes are
  created, started, stopped and deleted with the folders that are exported to them.

  The directory of the boxes is a list of box directories. What the kernel, the disk, Firecracker, the agent and the NFS helper answer in
  one operation is a parameter of the operation.
\<close>

section \<open>Boxes\<close>

definition default_box_cpus :: int where "default_box_cpus = 2"
definition default_memory_mib :: int where "default_memory_mib = 2048"
definition unix_socket_limit :: nat where "unix_socket_limit = 107"
definition vsock_socket_file :: string where "vsock_socket_file = ''vsock.sock''"

record box_record =
  xr_name :: string
  xr_image :: string
  xr_network :: string
  xr_tap_index :: nat
  xr_cpus :: int
  xr_memory :: int
  xr_mounts :: "share_mount list"

text \<open>The record file of a box directory: none, one that is not valid, or a record; and whether Firecracker runs.\<close>

record fc_box =
  fb_record :: "box_record option option"
  fb_running :: bool

text \<open>An export is the path that a folder resolves to and the address of a box.\<close>

record fc_state =
  fs_boxes :: "(string \<times> fc_box) list"
  fs_exports :: "(string \<times> 32 word) list"

datatype fc_error =
  Fc_Network network_error
| Box_Path_Too_Long string
| No_Disk string
| Memory_Not_Valid string
| Fc_No_Lock
| Box_Exists string
| Box_Missing string
| Record_Not_Valid string
| No_Free_Tap string
| Box_Not_Written string
| No_Kernel
| Share_Failed string
| Unshare_Failed string
| Boot_Error string
| Box_Not_Stopped string

definition read_box_record :: "fc_state \<Rightarrow> string \<Rightarrow> (fc_error, box_record option) result" where
  "read_box_record st name =
     (case map_of (fs_boxes st) name of
        None \<Rightarrow> Ok None
      | Some b \<Rightarrow> (case fb_record b of
            None \<Rightarrow> Ok None
          | Some None \<Rightarrow> Err (Record_Not_Valid name)
          | Some (Some r) \<Rightarrow> Ok (Some r)))"

definition box_found :: "fc_state \<Rightarrow> string \<Rightarrow> bool" where
  "box_found st name = (case read_box_record st name of Ok (Some r) \<Rightarrow> True | _ \<Rightarrow> False)"

text \<open>The records in the order of their directories, which the sort by name does not change for what follows.\<close>

fun list_records :: "fc_state \<Rightarrow> (string \<times> fc_box) list \<Rightarrow> (fc_error, box_record list) result" where
  "list_records st [] = Ok []"
| "list_records st ((name, b) # bs) =
     bind_res (read_box_record st name) (\<lambda>found.
     bind_res (list_records st bs) (\<lambda>records.
     Ok (case found of None \<Rightarrow> records | Some r \<Rightarrow> r # records)))"

definition list_boxes :: "fc_state \<Rightarrow> (fc_error, box_record list) result" where
  "list_boxes st = list_records st (fs_boxes st)"

definition used_taps :: "fc_state \<Rightarrow> string \<Rightarrow> box_record list \<Rightarrow> nat list" where
  "used_taps st network records =
     List.map_filter (\<lambda>r. case read_box_record st (xr_name r) of
         Ok (Some s) \<Rightarrow> if xr_network s = network then Some (xr_tap_index s) else None
       | _ \<Rightarrow> None) records"

definition free_tap_index :: "fc_state \<Rightarrow> box_network \<Rightarrow> (fc_error, nat) result" where
  "free_tap_index st n =
     bind_res (list_boxes st) (\<lambda>records.
       case find (\<lambda>index. index \<notin> set (used_taps st (bn_name n) records)) [0..<tap_pool_size] of
         None \<Rightarrow> Err (No_Free_Tap (bn_name n))
       | Some index \<Rightarrow> Ok index)"

section \<open>Memory\<close>

text \<open>The number can wrap around in the product, which has 64 bits.\<close>

definition memory_unit :: "char \<Rightarrow> int option" where
  "memory_unit c =
     (if c = CHR ''M'' then Some 1 else if c = CHR ''G'' then Some 1024 else if c = CHR ''T'' then Some 1048576 else None)"

definition wrap64 :: "int \<Rightarrow> int" where
  "wrap64 i = (i + 2 ^ 63) mod 2 ^ 64 - 2 ^ 63"

definition memory_in_mib :: "string \<Rightarrow> (fc_error, int) result" where
  "memory_in_mib text_size =
     (if text_size = [] then Ok default_memory_mib
      else let trimmed = trim_suffix (to_upper text_size) ''B''
           in if trimmed = [] then Err (Memory_Not_Valid text_size)
              else (case (memory_unit (last trimmed), atoi (trim_right_by (\<lambda>c. c \<in> set ''MGT'') trimmed)) of
                      (Some multiplier, Some number) \<Rightarrow>
                        if number \<le> 0 then Err (Memory_Not_Valid text_size) else Ok (wrap64 (number * multiplier))
                    | _ \<Rightarrow> Err (Memory_Not_Valid text_size)))"

section \<open>The configuration of a machine\<close>

definition box_disk_file :: string where "box_disk_file = ''rootfs.ext4''"
definition config_disk_file :: string where "config_disk_file = ''config.disk''"
definition guest_cid :: int where "guest_cid = 3"
definition guest_init_path :: string where "guest_init_path = ''/usr/local/bin/prison-guest''"

record firecracker_drive =
  fd_drive_id :: string
  fd_path_on_host :: string
  fd_is_root_device :: bool
  fd_is_read_only :: bool

record firecracker_interface =
  fi_interface_id :: string
  fi_host_dev_name :: string
  fi_guest_mac :: string

record firecracker_document =
  fx_kernel_image_path :: string
  fx_boot_arguments :: string
  fx_drives :: "firecracker_drive list"
  fx_vcpu_count :: int
  fx_mem_size :: int
  fx_network_interfaces :: "firecracker_interface list"
  fx_guest_cid :: int
  fx_uds_path :: string

text \<open>\<open>net.CIDRMask\<close> and the verb \<open>%02x\<close> of a byte.\<close>

definition cidr_mask :: "nat \<Rightarrow> 32 word" where
  "cidr_mask bits = push_bit (32 - bits) (- 1)"

definition hex_octet :: "nat \<Rightarrow> string" where
  "hex_octet n = [hex_digit (n div 16), hex_digit (n mod 16)]"

definition boot_arguments :: "bool \<Rightarrow> box_record \<Rightarrow> box_network \<Rightarrow> string" where
  "boot_arguments amd64 r n =
     (let address = box_address n (xr_tap_index r);
          netmask = addr4_text (cidr_mask (snd (bn_subnet n)));
          arguments = [''console=ttyS0'', ''reboot=k'', ''panic=1'', ''rw'',
            ''ip='' @ addr4_text address @ ''::'' @ addr4_text (bn_gateway n) @ '':'' @ netmask @ '':'' @ xr_name r @ '':eth0:off'',
            ''init='' @ guest_init_path] @ (if amd64 then [''pci=off''] else [])
      in join '' '' (arguments @ [''--'', ''init'', ''--machine'']))"

definition guest_mac :: "box_network \<Rightarrow> nat \<Rightarrow> string" where
  "guest_mac n index =
     (let octets = addr_bytes (bn_gateway n)
      in ''06:00:'' @ hex_octet (octets ! 0) @ '':'' @ hex_octet (octets ! 1) @ '':'' @ hex_octet (octets ! 2) @ '':'' @
         hex_octet (first_box_host_number + index))"

definition firecracker_configuration :: "bool \<Rightarrow> box_record \<Rightarrow> box_network \<Rightarrow> string \<Rightarrow> string \<Rightarrow> firecracker_document" where
  "firecracker_configuration amd64 r n kernel_image directory =
     \<lparr>fx_kernel_image_path = kernel_image, fx_boot_arguments = boot_arguments amd64 r n,
      fx_drives =
        [\<lparr>fd_drive_id = ''rootfs'', fd_path_on_host = path_join [directory, box_disk_file], fd_is_root_device = True, fd_is_read_only = False\<rparr>,
         \<lparr>fd_drive_id = ''config'', fd_path_on_host = path_join [directory, config_disk_file], fd_is_root_device = False, fd_is_read_only = True\<rparr>],
      fx_vcpu_count = xr_cpus r, fx_mem_size = xr_memory r,
      fx_network_interfaces =
        [\<lparr>fi_interface_id = ''eth0'', fi_host_dev_name = tap_name n (xr_tap_index r), fi_guest_mac = guest_mac n (xr_tap_index r)\<rparr>],
      fx_guest_cid = guest_cid, fx_uds_path = path_join [directory, vsock_socket_file]\<rparr>"

section \<open>Operations\<close>

text \<open>How a boot ends: before Firecracker runs, with it running, with it running but without an answer of the agent, or with its end.\<close>

datatype boot_outcome = Boot_Refused | Boot_Up | Boot_Silent | Boot_Exited

record fc_world =
  fw_boxes_directory :: string
  fw_disk :: "string \<Rightarrow> bool"
  fw_lock :: bool
  fw_write :: bool
  fw_kernel :: bool
  fw_resolve :: "string \<Rightarrow> string option"
  fw_share :: "share_mount \<Rightarrow> bool"
  fw_unshare :: "share_mount \<Rightarrow> bool"
  fw_boot :: boot_outcome
  fw_stops :: bool

record fc_spec =
  fp_name :: string
  fp_image :: string
  fp_network :: string
  fp_cpus :: int
  fp_memory :: string
  fp_mounts :: "share_mount list"

definition set_box :: "string \<Rightarrow> fc_box \<Rightarrow> fc_state \<Rightarrow> fc_state" where
  "set_box name b st = st\<lparr>fs_boxes := AList.update name b (fs_boxes st)\<rparr>"

definition remove_box :: "string \<Rightarrow> fc_state \<Rightarrow> fc_state" where
  "remove_box name st = st\<lparr>fs_boxes := AList.delete name (fs_boxes st)\<rparr>"

definition set_running :: "string \<Rightarrow> bool \<Rightarrow> fc_state \<Rightarrow> fc_state" where
  "set_running name running st =
     (case map_of (fs_boxes st) name of None \<Rightarrow> st | Some b \<Rightarrow> set_box name (b\<lparr>fb_running := running\<rparr>) st)"

definition process_runs :: "fc_state \<Rightarrow> string \<Rightarrow> bool" where
  "process_runs st name = (case map_of (fs_boxes st) name of None \<Rightarrow> False | Some b \<Rightarrow> fb_running b)"

text \<open>The helper resolves the path of a folder when it exports it, and again when it stops.\<close>

fun export_mounts :: "fc_world \<Rightarrow> 32 word \<Rightarrow> share_mount list \<Rightarrow> fc_state \<Rightarrow> (fc_error, unit) result \<times> fc_state" where
  "export_mounts w client [] st = (Ok (), st)"
| "export_mounts w client (m # ms) st =
     (case (fw_share w m, fw_resolve w (sm_source m)) of
        (True, Some p) \<Rightarrow> export_mounts w client ms (st\<lparr>fs_exports := (p, client) # filter (\<lambda>e. e \<noteq> (p, client)) (fs_exports st)\<rparr>)
      | _ \<Rightarrow> (Err (Share_Failed (sm_source m)), st))"

definition unexport_path :: "fc_world \<Rightarrow> share_mount \<Rightarrow> string" where
  "unexport_path w m = (case fw_resolve w (sm_source m) of None \<Rightarrow> path_clean (sm_source m) | Some p \<Rightarrow> p)"

fun unexport_mounts :: "fc_world \<Rightarrow> 32 word \<Rightarrow> share_mount list \<Rightarrow> fc_state \<Rightarrow> (fc_error, unit) result \<times> fc_state" where
  "unexport_mounts w client [] st = (Ok (), st)"
| "unexport_mounts w client (m # ms) st =
     (if fw_unshare w m
      then unexport_mounts w client ms (st\<lparr>fs_exports := filter (\<lambda>e. e \<noteq> (unexport_path w m, client)) (fs_exports st)\<rparr>)
      else (Err (Unshare_Failed (sm_source m)), st))"

definition boot :: "fc_world \<Rightarrow> box_record \<Rightarrow> fc_state \<Rightarrow> (fc_error, unit) result \<times> fc_state" where
  "boot w r st =
     (if \<not> fw_kernel w then (Err No_Kernel, st)
      else case network_for (xr_network r) of
        Err e \<Rightarrow> (Err (Fc_Network e), st)
      | Ok n \<Rightarrow>
          (case export_mounts w (box_address n (xr_tap_index r)) (xr_mounts r) st of
             (Err e, st1) \<Rightarrow> (Err e, st1)
           | (Ok u, st1) \<Rightarrow>
               (case fw_boot w of
                  Boot_Refused \<Rightarrow> (Err (Boot_Error (xr_name r)), st1)
                | Boot_Up \<Rightarrow> (Ok (), set_running (xr_name r) True st1)
                | Boot_Silent \<Rightarrow> (Err (Boot_Error (xr_name r)), set_running (xr_name r) True st1)
                | Boot_Exited \<Rightarrow> (Err (Boot_Error (xr_name r)), set_running (xr_name r) False st1))))"

definition new_record :: "fc_spec \<Rightarrow> int \<Rightarrow> box_record" where
  "new_record p memory =
     \<lparr>xr_name = fp_name p, xr_image = fp_image p, xr_network = fp_network p, xr_tap_index = 0,
      xr_cpus = (if fp_cpus p \<le> 0 then default_box_cpus else fp_cpus p), xr_memory = memory, xr_mounts = fp_mounts p\<rparr>"

text \<open>A box whose record cannot be read counts as missing here. Its directory is removed when no tap is free or the files cannot be written.\<close>

definition create_box :: "fc_world \<Rightarrow> fc_spec \<Rightarrow> fc_state \<Rightarrow> (fc_error, unit) result \<times> fc_state" where
  "create_box w p st =
     (case network_for (fp_network p) of
        Err e \<Rightarrow> (Err (Fc_Network e), st)
      | Ok n \<Rightarrow>
          (let directory = path_join [fw_boxes_directory w, fp_name p]
           in if length (path_join [directory, vsock_socket_file]) > unix_socket_limit then (Err (Box_Path_Too_Long directory), st)
              else if \<not> fw_disk w (fp_image p) then (Err (No_Disk (fp_image p)), st)
              else (case memory_in_mib (fp_memory p) of
                      Err e \<Rightarrow> (Err e, st)
                    | Ok memory \<Rightarrow>
                        if \<not> fw_lock w then (Err Fc_No_Lock, st)
                        else if box_found st (fp_name p) then (Err (Box_Exists (fp_name p)), st)
                        else (case free_tap_index st n of
                                Err e \<Rightarrow> (Err e, remove_box (fp_name p) st)
                              | Ok index \<Rightarrow>
                                  if \<not> fw_write w then (Err (Box_Not_Written (fp_name p)), remove_box (fp_name p) st)
                                  else (let r = (new_record p memory)\<lparr>xr_tap_index := index\<rparr>
                                        in boot w r (set_box (fp_name p) \<lparr>fb_record = Some (Some r), fb_running = False\<rparr> st))))))"

definition start_box :: "fc_world \<Rightarrow> string \<Rightarrow> fc_state \<Rightarrow> (fc_error, unit) result \<times> fc_state" where
  "start_box w name st =
     (case read_box_record st name of
        Err e \<Rightarrow> (Err e, st)
      | Ok None \<Rightarrow> (Err (Box_Missing name), st)
      | Ok (Some r) \<Rightarrow> if process_runs st name then (Ok (), st) else boot w r st)"

definition unexport_box :: "fc_world \<Rightarrow> box_record \<Rightarrow> fc_state \<Rightarrow> (fc_error, unit) result \<times> fc_state" where
  "unexport_box w r st =
     (if xr_mounts r = [] then (Ok (), st)
      else case network_for (xr_network r) of
        Err e \<Rightarrow> (Err (Fc_Network e), st)
      | Ok n \<Rightarrow> unexport_mounts w (box_address n (xr_tap_index r)) (xr_mounts r) st)"

definition stop_box :: "fc_world \<Rightarrow> string \<Rightarrow> fc_state \<Rightarrow> (fc_error, unit) result \<times> fc_state" where
  "stop_box w name st =
     (if process_runs st name \<and> \<not> fw_stops w then (Err (Box_Not_Stopped name), st)
      else let st1 = set_running name False st
           in case read_box_record st1 name of
                Ok (Some r) \<Rightarrow> unexport_box w r st1
              | _ \<Rightarrow> (Ok (), st1))"

definition delete_box :: "fc_world \<Rightarrow> string \<Rightarrow> fc_state \<Rightarrow> (fc_error, unit) result \<times> fc_state" where
  "delete_box w name st =
     (case stop_box w name st of
        (Err e, st1) \<Rightarrow> (Err e, st1)
      | (Ok u, st1) \<Rightarrow> if \<not> fw_lock w then (Err Fc_No_Lock, st1) else (Ok (), remove_box name st1))"

text \<open>What happens to the boxes: an operation of the isolator, or the end of the process of a box.\<close>

datatype fc_call = Create fc_spec | Start string | Stop string | Delete string | Ended string

fun fc_step :: "fc_world \<Rightarrow> fc_call \<Rightarrow> fc_state \<Rightarrow> fc_state" where
  "fc_step w (Create p) st = snd (create_box w p st)"
| "fc_step w (Start name) st = snd (start_box w name st)"
| "fc_step w (Stop name) st = snd (stop_box w name st)"
| "fc_step w (Delete name) st = snd (delete_box w name st)"
| "fc_step w (Ended name) st = set_running name False st"

fun fc_run :: "(fc_world \<times> fc_call) list \<Rightarrow> fc_state \<Rightarrow> fc_state" where
  "fc_run [] st = st"
| "fc_run ((w, c) # calls) st = fc_run calls (fc_step w c st)"

definition no_boxes :: fc_state where "no_boxes = \<lparr>fs_boxes = [], fs_exports = []\<rparr>"

section \<open>The invariant\<close>

definition box_of :: "fc_state \<Rightarrow> string \<Rightarrow> box_record option" where
  "box_of st name = (case map_of (fs_boxes st) name of None \<Rightarrow> None | Some b \<Rightarrow> Option.bind (fb_record b) (\<lambda>x. x))"

text \<open>Every directory holds the record of its own name, with a network and a tap that exist; two boxes of one network have different taps; and
  every export is of a folder of a box, for the address of that box.\<close>

definition record_ok :: "box_record \<Rightarrow> bool" where
  "record_ok r \<longleftrightarrow> is_ok (network_for (xr_network r)) \<and> xr_tap_index r < tap_pool_size"

definition record_address :: "box_record \<Rightarrow> 32 word option" where
  "record_address r = (case network_for (xr_network r) of Err e \<Rightarrow> None | Ok n \<Rightarrow> Some (box_address n (xr_tap_index r)))"

definition fc_ok :: "(string \<Rightarrow> string option) \<Rightarrow> fc_state \<Rightarrow> bool" where
  "fc_ok rv st \<longleftrightarrow>
     distinct (map fst (fs_boxes st)) \<and>
     (\<forall>name. map_of (fs_boxes st) name \<noteq> None \<longrightarrow> (\<exists>r. box_of st name = Some r \<and> xr_name r = name \<and> record_ok r)) \<and>
     (\<forall>x y r s. box_of st x = Some r \<longrightarrow> box_of st y = Some s \<longrightarrow> xr_network r = xr_network s \<longrightarrow> xr_tap_index r = xr_tap_index s \<longrightarrow> x = y) \<and>
     (\<forall>e\<in>set (fs_exports st). \<exists>x r. box_of st x = Some r \<and> Some (fst e) \<in> (rv \<circ> sm_source) ` set (xr_mounts r) \<and> record_address r = Some (snd e))"

lemma fc_ok_no_boxes: "fc_ok rv no_boxes"
  by (simp add: fc_ok_def no_boxes_def box_of_def)

lemma box_of_set_box: "box_of (set_box name b st) x = (if x = name then Option.bind (fb_record b) (\<lambda>y. y) else box_of st x)"
  by (simp add: box_of_def set_box_def AList.update_conv')

lemma box_of_remove: "box_of (remove_box name st) x = (if x = name then None else box_of st x)"
  by (simp add: box_of_def remove_box_def AList.delete_conv')

lemma box_of_running [simp]: "box_of (set_running name v st) x = box_of st x"
proof (cases "map_of (fs_boxes st) name")
  case None
  then show ?thesis by (simp add: set_running_def)
next
  case (Some b)
  then have "box_of st name = Option.bind (fb_record b) (\<lambda>x. x)" by (simp add: box_of_def)
  then show ?thesis using Some by (simp add: set_running_def box_of_set_box)
qed

lemma set_running_other [simp]: "fs_exports (set_running name v st) = fs_exports st"
  "map_of (fs_boxes (set_running name v st)) x = None \<longleftrightarrow> map_of (fs_boxes st) x = None"
  by (auto simp: set_running_def set_box_def AList.update_conv' split: option.splits)

lemma distinct_running [simp]: "distinct (map fst (fs_boxes st)) \<Longrightarrow> distinct (map fst (fs_boxes (set_running name v st)))"
  by (simp add: set_running_def set_box_def distinct_update split: option.split)

lemma fc_ok_running: "fc_ok rv st \<Longrightarrow> fc_ok rv (set_running name v st)"
  unfolding fc_ok_def by simp

lemma read_box_ok:
  assumes "fc_ok rv st"
  shows "read_box_record st name = Ok (box_of st name)"
proof (cases "map_of (fs_boxes st) name")
  case None
  then show ?thesis by (simp add: read_box_record_def box_of_def)
next
  case (Some b)
  then obtain r where "box_of st name = Some r" using assms unfolding fc_ok_def by blast
  then obtain s where "fb_record b = Some (Some s)" using Some by (cases "fb_record b") (simp_all add: box_of_def)
  then show ?thesis using Some by (simp add: read_box_record_def box_of_def)
qed

lemma box_found_ok: "fc_ok rv st \<Longrightarrow> box_found st name \<longleftrightarrow> box_of st name \<noteq> None"
  by (auto simp: box_found_def read_box_ok split: option.splits)

lemma list_records_ok:
  assumes "fc_ok rv st"
  shows "\<exists>rs. list_records st bs = Ok rs \<and> set rs = {r. \<exists>name\<in>fst ` set bs. box_of st name = Some r}"
proof (induction bs)
  case (Cons nb bs)
  obtain name b where nb: "nb = (name, b)" by (cases nb)
  obtain rs where rs: "list_records st bs = Ok rs" "set rs = {r. \<exists>name\<in>fst ` set bs. box_of st name = Some r}" using Cons by blast
  show ?case
  proof (cases "box_of st name")
    case None
    then have "list_records st (nb # bs) = Ok rs" by (simp add: nb rs(1) read_box_ok [OF assms])
    moreover have "set rs = {r. \<exists>x\<in>fst ` set (nb # bs). box_of st x = Some r}" using None rs(2) by (simp add: nb)
    ultimately show ?thesis by blast
  next
    case (Some r)
    then have "list_records st (nb # bs) = Ok (r # rs)" by (simp add: nb rs(1) read_box_ok [OF assms])
    moreover have "set (r # rs) = {s. \<exists>x\<in>fst ` set (nb # bs). box_of st x = Some s}" proof (rule set_eqI)
      show "s \<in> set (r # rs) \<longleftrightarrow> s \<in> {s. \<exists>x\<in>fst ` set (nb # bs). box_of st x = Some s}" for s
        unfolding nb list.set image_insert fst_conv bex_simps mem_Collect_eq insert_iff rs(2) Some option.inject by (simp only: eq_commute)
    qed
    ultimately show ?thesis by blast
  qed
qed simp

lemma list_boxes_ok:
  assumes "fc_ok rv st"
  shows "\<exists>rs. list_boxes st = Ok rs \<and> set rs = {r. \<exists>name. box_of st name = Some r}"
proof -
  obtain rs where rs: "list_boxes st = Ok rs" "set rs = {r. \<exists>name\<in>fst ` set (fs_boxes st). box_of st name = Some r}"
    using list_records_ok [OF assms, of "fs_boxes st"] by (auto simp: list_boxes_def)
  have "name \<in> fst ` set (fs_boxes st)" if "box_of st name = Some r" for name r
  proof (rule ccontr)
    assume "name \<notin> fst ` set (fs_boxes st)"
    then have "map_of (fs_boxes st) name = None" by (simp add: map_of_eq_None_iff)
    then show False using that by (simp add: box_of_def)
  qed
  then show ?thesis using rs by blast
qed

text \<open>The tap that is chosen exists and no box of the network has it.\<close>

lemma free_tap_free:
  assumes ok: "fc_ok rv st" and i: "free_tap_index st n = Ok index"
  shows "index < tap_pool_size \<and> (\<forall>x r. box_of st x = Some r \<longrightarrow> xr_network r = bn_name n \<longrightarrow> xr_tap_index r \<noteq> index)"
proof -
  obtain rs where rs: "list_boxes st = Ok rs" "set rs = {r. \<exists>name. box_of st name = Some r}" using list_boxes_ok [OF ok] by blast
  have f: "find (\<lambda>index. index \<notin> set (used_taps st (bn_name n) rs)) [0..<tap_pool_size] = Some index"
    using i by (auto simp: free_tap_index_def rs(1) split: option.splits)
  then have free: "index \<notin> set (used_taps st (bn_name n) rs)" "index < tap_pool_size"
    by (auto simp: find_Some_iff)
  have "xr_tap_index r \<in> set (used_taps st (bn_name n) rs)" if "box_of st x = Some r" "xr_network r = bn_name n" for x r
  proof -
    have "map_of (fs_boxes st) x \<noteq> None" using that(1) by (auto simp: box_of_def split: option.splits)
    then have "xr_name r = x" using ok that(1) unfolding fc_ok_def by force
    moreover have "r \<in> set rs" using rs(2) that(1) by blast
    ultimately show ?thesis using that by (auto simp: used_taps_def List.map_filter_def read_box_ok [OF ok] image_iff intro!: bexI [of _ r])
  qed
  then show ?thesis using free by blast
qed

lemma export_mounts_effect:
  "export_mounts w client ms st = (r, st') \<Longrightarrow>
   fs_boxes st' = fs_boxes st \<and>
   (\<forall>e\<in>set (fs_exports st'). e \<in> set (fs_exports st) \<or> Some (fst e) \<in> (fw_resolve w \<circ> sm_source) ` set ms \<and> snd e = client)"
proof (induction w client ms st rule: export_mounts.induct)
  case (2 w client m ms st)
  show ?case
  proof (cases "fw_resolve w (sm_source m)")
    case None
    then show ?thesis using "2.prems" by (simp split: bool.splits)
  next
    case (Some p)
    show ?thesis
    proof (cases "fw_share w m")
      case True
      then have "export_mounts w client ms (st\<lparr>fs_exports := (p, client) # filter (\<lambda>e. e \<noteq> (p, client)) (fs_exports st)\<rparr>) = (r, st')"
        using "2.prems" Some by simp
      from "2.IH" [OF refl _ _ this] True Some show ?thesis using Some by fastforce
    next
      case False
      then show ?thesis using "2.prems" by simp
    qed
  qed
qed simp

lemma unexport_mounts_effect:
  "unexport_mounts w client ms st = (r, st') \<Longrightarrow>
   fs_boxes st' = fs_boxes st \<and> set (fs_exports st') \<subseteq> set (fs_exports st) \<and>
   (is_ok r \<longrightarrow> (\<forall>e\<in>set (fs_exports st'). snd e = client \<longrightarrow> Some (fst e) \<notin> (fw_resolve w \<circ> sm_source) ` set ms))"
proof (induction w client ms st rule: unexport_mounts.induct)
  case (2 w client m ms st)
  show ?case
  proof (cases "fw_unshare w m")
    case True
    let ?st = "st\<lparr>fs_exports := filter (\<lambda>e. e \<noteq> (unexport_path w m, client)) (fs_exports st)\<rparr>"
    have u: "unexport_mounts w client ms ?st = (r, st')" using "2.prems" True by simp
    note ih = "2.IH" [OF True u]
    have "Some (fst e) \<noteq> fw_resolve w (sm_source m)" if "e \<in> set (fs_exports st')" "snd e = client" for e
    proof
      assume "Some (fst e) = fw_resolve w (sm_source m)"
      then have "unexport_path w m = fst e" by (cases "fw_resolve w (sm_source m)") (simp_all add: unexport_path_def)
      moreover have "e \<in> set (fs_exports ?st)" using ih that(1) by blast
      ultimately show False using that(2) by (cases e) simp
    qed
    then show ?thesis using ih by auto
  next
    case False
    then show ?thesis using "2.prems" by (auto simp: is_ok_def)
  qed
qed simp

lemma fc_ok_exports:
  assumes "fc_ok rv st" "fs_boxes st' = fs_boxes st"
    "\<And>e. e \<in> set (fs_exports st') \<Longrightarrow> \<exists>x r. box_of st x = Some r \<and> Some (fst e) \<in> (rv \<circ> sm_source) ` set (xr_mounts r) \<and> record_address r = Some (snd e)"
  shows "fc_ok rv st'"
proof -
  have "box_of st' = box_of st" using assms(2) by (simp add: box_of_def fun_eq_iff)
  then show ?thesis using assms unfolding fc_ok_def by simp
qed

lemma boot_ok:
  assumes rv: "fw_resolve w = rv" and ok: "fc_ok rv st" and r: "box_of st x = Some r" and b: "boot w r st = (res, st')"
  shows "fc_ok rv st'"
proof (cases "network_for (xr_network r)")
  case (Inl e)
  then show ?thesis using ok b by (auto simp: boot_def split: if_splits)
next
  case (Inr n)
  obtain r1 st1 where e: "export_mounts w (box_address n (xr_tap_index r)) (xr_mounts r) st = (r1, st1)" by (metis surj_pair)
  have ok1: "fc_ok rv st1"
  proof (rule fc_ok_exports [OF ok])
    show "fs_boxes st1 = fs_boxes st" using export_mounts_effect [OF e] by simp
    show "\<exists>x r. box_of st x = Some r \<and> Some (fst en) \<in> (rv \<circ> sm_source) ` set (xr_mounts r) \<and> record_address r = Some (snd en)"
      if en: "en \<in> set (fs_exports st1)" for en
    proof -
      consider "en \<in> set (fs_exports st)" | "Some (fst en) \<in> (rv \<circ> sm_source) ` set (xr_mounts r)" "snd en = box_address n (xr_tap_index r)"
        using export_mounts_effect [OF e] en unfolding rv by blast
      then show ?thesis
      proof cases
        case 1
        then show ?thesis using ok unfolding fc_ok_def by blast
      next
        case 2
        then show ?thesis using r Inr by (intro exI [of _ x] exI [of _ r]) (simp add: record_address_def)
      qed
    qed
  qed
  have "st' = st \<or> st' = st1 \<or> (\<exists>v. st' = set_running (xr_name r) v st1)"
    using b by (auto simp: boot_def Inr e split: if_splits sum.splits boot_outcome.splits)
  then show ?thesis using ok ok1 fc_ok_running by blast
qed

lemma fc_ok_remove:
  assumes ok: "fc_ok rv st" and free: "\<And>e r. e \<in> set (fs_exports st) \<Longrightarrow> box_of st name = Some r \<Longrightarrow>
      Some (fst e) \<in> (rv \<circ> sm_source) ` set (xr_mounts r) \<Longrightarrow> record_address r = Some (snd e) \<Longrightarrow> False"
  shows "fc_ok rv (remove_box name st)"
  unfolding fc_ok_def
proof (intro conjI allI ballI impI)
  show "distinct (map fst (fs_boxes (remove_box name st)))"
    using ok by (simp add: fc_ok_def remove_box_def distinct_delete)
  show "\<exists>r. box_of (remove_box name st) x = Some r \<and> xr_name r = x \<and> record_ok r"
    if "map_of (fs_boxes (remove_box name st)) x \<noteq> None" for x
  proof -
    have "x \<noteq> name" "map_of (fs_boxes st) x \<noteq> None" using that by (auto simp: remove_box_def AList.delete_conv' split: if_splits)
    then show ?thesis using ok unfolding fc_ok_def by (simp add: box_of_remove)
  qed
  show "x = y" if "box_of (remove_box name st) x = Some r" "box_of (remove_box name st) y = Some s"
    "xr_network r = xr_network s" "xr_tap_index r = xr_tap_index s" for x y r s
  proof -
    have "box_of st x = Some r" "box_of st y = Some s" using that(1,2) by (simp_all add: box_of_remove split: if_splits)
    then show ?thesis using ok that(3,4) unfolding fc_ok_def by blast
  qed
  show "\<exists>x r. box_of (remove_box name st) x = Some r \<and> Some (fst e) \<in> (rv \<circ> sm_source) ` set (xr_mounts r) \<and> record_address r = Some (snd e)"
    if "e \<in> set (fs_exports (remove_box name st))" for e
  proof -
    have e: "e \<in> set (fs_exports st)" using that by (simp add: remove_box_def)
    then obtain x r where x: "box_of st x = Some r" "Some (fst e) \<in> (rv \<circ> sm_source) ` set (xr_mounts r)" "record_address r = Some (snd e)"
      using ok unfolding fc_ok_def by blast
    then have "x \<noteq> name" using free [OF e] by blast
    then show ?thesis using x by (auto simp: box_of_remove)
  qed
qed

lemma stop_box_exports:
  assumes rv: "fw_resolve w = rv" and ok: "fc_ok rv st" and s: "stop_box w name st = (res, st')"
  shows "fc_ok rv st' \<and> (\<forall>x. box_of st' x = box_of st x) \<and>
    (is_ok res \<longrightarrow> (\<forall>e r. e \<in> set (fs_exports st') \<longrightarrow> box_of st' name = Some r \<longrightarrow>
       Some (fst e) \<in> (rv \<circ> sm_source) ` set (xr_mounts r) \<longrightarrow> record_address r = Some (snd e) \<longrightarrow> False))"
proof (cases "process_runs st name \<and> \<not> fw_stops w")
  case True
  then show ?thesis using ok s by (auto simp: stop_box_def is_ok_def)
next
  case False
  define st1 where "st1 = set_running name False st"
  have ok1: "fc_ok rv st1" unfolding st1_def by (rule fc_ok_running [OF ok])
  have same: "box_of st1 x = box_of st x" for x by (simp add: st1_def)
  show ?thesis
  proof (cases "box_of st name")
    case None
    then have "(res, st') = (Ok (), st1)" using s False by (simp add: stop_box_def st1_def [symmetric] Let_def read_box_ok [OF ok1] same)
    then show ?thesis using ok1 same None by simp
  next
    case (Some r)
    then have u: "unexport_box w r st1 = (res, st')"
      using s False by (simp add: stop_box_def st1_def [symmetric] Let_def read_box_ok [OF ok1] same)
    show ?thesis
    proof (cases "xr_mounts r = []")
      case True
      then have "(res, st') = (Ok (), st1)" using u by (simp add: unexport_box_def)
      then show ?thesis using ok1 same Some True by simp
    next
      case False
      show ?thesis
      proof (cases "network_for (xr_network r)")
        case (Inl e)
        then have "(res, st') = (Err (Fc_Network e), st1)" using u False by (simp add: unexport_box_def)
        then show ?thesis using ok1 same by (simp add: is_ok_def)
      next
        case (Inr n)
        then have m: "unexport_mounts w (box_address n (xr_tap_index r)) (xr_mounts r) st1 = (res, st')"
          using u False by (simp add: unexport_box_def)
        note eff = unexport_mounts_effect [OF m]
        have box: "box_of st' x = box_of st x" for x using eff same by (simp add: box_of_def)
        have "fc_ok rv st'"
        proof (rule fc_ok_exports [OF ok1])
          show "fs_boxes st' = fs_boxes st1" using eff by simp
          show "\<exists>x r. box_of st1 x = Some r \<and> Some (fst e) \<in> (rv \<circ> sm_source) ` set (xr_mounts r) \<and> record_address r = Some (snd e)"
            if "e \<in> set (fs_exports st')" for e
            using that eff ok1 unfolding fc_ok_def by blast
        qed
        moreover have False if "is_ok res" "e \<in> set (fs_exports st')" "box_of st' name = Some q"
          "Some (fst e) \<in> (rv \<circ> sm_source) ` set (xr_mounts q)" "record_address q = Some (snd e)" for e q
        proof -
          have q: "q = r" using that(3) box Some by simp
          then have "snd e = box_address n (xr_tap_index r)" using that(5) Inr by (simp add: record_address_def)
          then show False using eff that(1,2,4) unfolding rv q by blast
        qed
        ultimately show ?thesis using box by blast
      qed
    qed
  qed
qed

lemma delete_box_ok:
  assumes rv: "fw_resolve w = rv" and ok: "fc_ok rv st" and d: "delete_box w name st = (res, st')"
  shows "fc_ok rv st'"
proof -
  obtain r1 st1 where s: "stop_box w name st = (r1, st1)" by (metis surj_pair)
  note one = stop_box_exports [OF rv ok s]
  show ?thesis
  proof (cases "is_ok r1 \<and> fw_lock w")
    case True
    then have "st' = remove_box name st1" using d s by (auto simp: delete_box_def is_ok_def split: sum.splits)
    moreover have "fc_ok rv (remove_box name st1)" by (rule fc_ok_remove) (use one True in blast)+
    ultimately show ?thesis by simp
  next
    case False
    then have "st' = st1" using d s by (auto simp: delete_box_def is_ok_def split: sum.splits if_splits)
    then show ?thesis using one by simp
  qed
qed

lemma fc_ok_add:
  assumes ok: "fc_ok rv st" and free: "box_of st (xr_name r) = None" and r: "record_ok r"
    and tap: "\<And>x s. box_of st x = Some s \<Longrightarrow> xr_network s = xr_network r \<Longrightarrow> xr_tap_index s \<noteq> xr_tap_index r"
  shows "fc_ok rv (set_box (xr_name r) \<lparr>fb_record = Some (Some r), fb_running = False\<rparr> st)" (is "fc_ok rv ?st")
  unfolding fc_ok_def
proof (intro conjI allI ballI impI)
  have box: "box_of ?st x = (if x = xr_name r then Some r else box_of st x)" for x by (simp add: box_of_set_box)
  show "distinct (map fst (fs_boxes ?st))" using ok by (simp add: fc_ok_def set_box_def distinct_update)
  show "\<exists>s. box_of ?st x = Some s \<and> xr_name s = x \<and> record_ok s" if "map_of (fs_boxes ?st) x \<noteq> None" for x
  proof (cases "x = xr_name r")
    case True
    then show ?thesis using r by (simp add: box)
  next
    case False
    then have "map_of (fs_boxes st) x \<noteq> None" using that by (simp add: set_box_def AList.update_conv')
    then show ?thesis using ok False unfolding fc_ok_def by (simp add: box)
  qed
  show "x = y" if "box_of ?st x = Some q" "box_of ?st y = Some s" "xr_network q = xr_network s" "xr_tap_index q = xr_tap_index s" for x y q s
  proof -
    have old: "a = b" if "box_of st a = Some q" "box_of st b = Some s" for a b
      using ok that \<open>xr_network q = xr_network s\<close> \<open>xr_tap_index q = xr_tap_index s\<close> unfolding fc_ok_def by blast
    show ?thesis using that tap [of x q] tap [of y s] old by (simp add: box split: if_splits)
  qed
  show "\<exists>x s. box_of ?st x = Some s \<and> Some (fst e) \<in> (rv \<circ> sm_source) ` set (xr_mounts s) \<and> record_address s = Some (snd e)"
    if "e \<in> set (fs_exports ?st)" for e
  proof -
    have "e \<in> set (fs_exports st)" using that by (simp add: set_box_def)
    then obtain x s where x: "box_of st x = Some s" "Some (fst e) \<in> (rv \<circ> sm_source) ` set (xr_mounts s)" "record_address s = Some (snd e)"
      using ok unfolding fc_ok_def by blast
    then have "x \<noteq> xr_name r" using free by auto
    then show ?thesis using x by (intro exI [of _ x] exI [of _ s]) (simp add: box)
  qed
qed

lemma fc_ok_remove_missing: "fc_ok rv st \<Longrightarrow> box_of st name = None \<Longrightarrow> fc_ok rv (remove_box name st)"
  by (rule fc_ok_remove) simp_all

lemma create_box_ok:
  assumes rv: "fw_resolve w = rv" and ok: "fc_ok rv st" and c: "create_box w p st = (res, st')"
  shows "fc_ok rv st'"
proof (cases "st' = st")
  case False
  then obtain n memory where n: "network_for (fp_network p) = Ok n" and found: "\<not> box_found st (fp_name p)"
    and tail: "(case free_tap_index st n of
                  Err e \<Rightarrow> (Err e, remove_box (fp_name p) st)
                | Ok index \<Rightarrow>
                    if \<not> fw_write w then (Err (Box_Not_Written (fp_name p)), remove_box (fp_name p) st)
                    else (let r = (new_record p memory)\<lparr>xr_tap_index := index\<rparr>
                          in boot w r (set_box (fp_name p) \<lparr>fb_record = Some (Some r), fb_running = False\<rparr> st))) = (res, st')"
    using c by (auto simp: create_box_def Let_def split: sum.splits if_splits)
  have none: "box_of st (fp_name p) = None" using found box_found_ok [OF ok] by simp
  note gone = fc_ok_remove_missing [OF ok none]
  show ?thesis
  proof (cases "free_tap_index st n")
    case (Inl e)
    then show ?thesis using tail gone by simp
  next
    case (Inr index)
    define r where "r = (new_record p memory)\<lparr>xr_tap_index := index\<rparr>"
    have r: "xr_name r = fp_name p" "xr_network r = fp_network p" "xr_tap_index r = index" by (simp_all add: r_def new_record_def)
    have bn: "bn_name n = fp_network p" using network_for_Ok(1) [OF n] by simp
    note free = free_tap_free [OF ok Inr]
    have new: "fc_ok rv (set_box (xr_name r) \<lparr>fb_record = Some (Some r), fb_running = False\<rparr> st)"
    proof (rule fc_ok_add [OF ok])
      show "box_of st (xr_name r) = None" using none r by simp
      show "record_ok r" using free n r by (simp add: record_ok_def is_ok_def)
      show "xr_tap_index s \<noteq> xr_tap_index r" if "box_of st x = Some s" "xr_network s = xr_network r" for x s
        using free that r bn by simp
    qed
    show ?thesis
    proof (cases "fw_write w")
      case True
      then have b: "boot w r (set_box (xr_name r) \<lparr>fb_record = Some (Some r), fb_running = False\<rparr> st) = (res, st')"
        using tail Inr r(1) by (simp add: r_def Let_def)
      show ?thesis by (rule boot_ok [OF rv new _ b, of "xr_name r"]) (simp add: box_of_set_box)
    next
      case False
      then show ?thesis using tail Inr gone by simp
    qed
  qed
qed (use ok in simp)

lemma start_box_ok:
  assumes rv: "fw_resolve w = rv" and ok: "fc_ok rv st" and s: "start_box w name st = (res, st')"
  shows "fc_ok rv st'"
proof (cases "box_of st name")
  case None
  then show ?thesis using ok s by (simp add: start_box_def read_box_ok [OF ok])
next
  case (Some r)
  then show ?thesis using ok s boot_ok [OF rv ok Some] by (auto simp: start_box_def read_box_ok [OF ok] split: if_splits)
qed

lemma fc_step_ok:
  assumes rv: "fw_resolve w = rv" and ok: "fc_ok rv st"
  shows "fc_ok rv (fc_step w c st)"
proof (cases c)
  case (Create p)
  then show ?thesis using create_box_ok [OF rv ok, of p] by (metis fc_step.simps(1) surj_pair snd_conv)
next
  case (Start name)
  then show ?thesis using start_box_ok [OF rv ok, of name] by (metis fc_step.simps(2) surj_pair snd_conv)
next
  case (Stop name)
  then show ?thesis using stop_box_exports [OF rv ok, of name] by (metis fc_step.simps(3) surj_pair snd_conv)
next
  case (Delete name)
  then show ?thesis using delete_box_ok [OF rv ok, of name] by (metis fc_step.simps(4) surj_pair snd_conv)
next
  case (Ended name)
  then show ?thesis using fc_ok_running [OF ok] by simp
qed

lemma fc_run_ok:
  "\<forall>call\<in>set calls. fw_resolve (fst call) = rv \<Longrightarrow> fc_ok rv st \<Longrightarrow> fc_ok rv (fc_run calls st)"
  by (induction calls st rule: fc_run.induct) (simp_all add: fc_step_ok)

lemma hex_octet_inj:
  assumes "m < 256" "n < 256"
  shows "hex_octet m = hex_octet n \<longleftrightarrow> m = n"
proof
  assume h: "hex_octet m = hex_octet n"
  have "m div 16 < 16" "m mod 16 < 16" "n div 16 < 16" "n mod 16 < 16" using assms by simp_all
  then have "m div 16 = n div 16" "m mod 16 = n mod 16" using h hex_number_digit unfolding hex_octet_def by (metis list.inject option.inject)+
  then show "m = n" by (metis div_mult_mod_eq)
qed simp

lemma guest_mac_inj: "i < tap_pool_size \<Longrightarrow> j < tap_pool_size \<Longrightarrow> guest_mac n i = guest_mac n j \<longleftrightarrow> i = j"
  using hex_octet_inj [of "first_box_host_number + i" "first_box_host_number + j"]
  by (simp add: guest_mac_def Let_def first_box_host_number_def tap_pool_size_def)

section \<open>Properties\<close>


definition example_fc_world :: fc_world where
  "example_fc_world = \<lparr>fw_boxes_directory = ''/s/boxes'', fw_disk = (\<lambda>i. True), fw_lock = True, fw_write = True, fw_kernel = True, fw_resolve = Some,
     fw_share = (\<lambda>m. True), fw_unshare = (\<lambda>m. True), fw_boot = Boot_Up, fw_stops = True\<rparr>"

definition example_fc_spec :: "string \<Rightarrow> fc_spec" where
  "example_fc_spec name = \<lparr>fp_name = name, fp_image = ''i'', fp_network = ''prison'', fp_cpus = 0, fp_memory = ''2g'',
     fp_mounts = [\<lparr>sm_source = ''/p'' @ name, sm_target = ''/w'', sm_read_only = False\<rparr>]\<rparr>"

definition example_fc_calls :: "(fc_world \<times> fc_call) list" where
  "example_fc_calls = map (Pair example_fc_world) [Create (example_fc_spec ''a''), Create (example_fc_spec ''b''), Delete ''a'', Create (example_fc_spec ''c'')]"

lemma example_fc_parts:
  "memory_in_mib ''2g'' = Ok 2048"
  "(unix_socket_limit < length (path_join [path_join [''/s/boxes'', ''a''], vsock_socket_file])) = False"
  "(unix_socket_limit < length (path_join [path_join [''/s/boxes'', ''b''], vsock_socket_file])) = False"
  "(unix_socket_limit < length (path_join [path_join [''/s/boxes'', ''c''], vsock_socket_file])) = False"
  "[0..<tap_pool_size] = 0 # 1 # 2 # [3..<tap_pool_size]"
  by code_simp+

lemma example_fc_exports:
  assumes n: "network_for ''prison'' = Ok n"
  shows "fs_exports (fc_run example_fc_calls no_boxes) = [(''/pc'', box_address n 0), (''/pb'', box_address n 1)]"
proof -
  have bn: "bn_name n = ''prison''" using network_for_Ok(1) [OF n] by simp
  note defs = unexport_path_def example_fc_world_def example_fc_spec_def Let_def n bn example_fc_parts create_box_def box_found_def read_box_record_def
    free_tap_index_def list_boxes_def used_taps_def map_filter_simps boot_def set_box_def set_running_def new_record_def
  have one: "fc_step example_fc_world (Create (example_fc_spec ''a'')) no_boxes =
      \<lparr>fs_boxes = [(''a'', \<lparr>fb_record = Some (Some ((new_record (example_fc_spec ''a'') 2048)\<lparr>xr_tap_index := 0\<rparr>)), fb_running = True\<rparr>)],
        fs_exports = [(''/pa'', box_address n 0)]\<rparr>" (is "_ = ?one")
    by (simp add: defs no_boxes_def)
  have two: "fc_step example_fc_world (Create (example_fc_spec ''b'')) ?one =
      \<lparr>fs_boxes = fs_boxes ?one @ [(''b'', \<lparr>fb_record = Some (Some ((new_record (example_fc_spec ''b'') 2048)\<lparr>xr_tap_index := 1\<rparr>)), fb_running = True\<rparr>)],
        fs_exports = [(''/pb'', box_address n 1), (''/pa'', box_address n 0)]\<rparr>" (is "_ = ?two")
    by (simp add: defs)
  have three: "fc_step example_fc_world (Delete ''a'') ?two =
      \<lparr>fs_boxes = [(''b'', \<lparr>fb_record = Some (Some ((new_record (example_fc_spec ''b'') 2048)\<lparr>xr_tap_index := 1\<rparr>)), fb_running = True\<rparr>)],
        fs_exports = [(''/pb'', box_address n 1)]\<rparr>" (is "_ = ?three")
    by (simp add: defs delete_box_def stop_box_def process_runs_def unexport_box_def remove_box_def)
  have four: "fs_exports (fc_step example_fc_world (Create (example_fc_spec ''c'')) ?three) = [(''/pc'', box_address n 0), (''/pb'', box_address n 1)]"
    by (simp add: defs)
  show ?thesis unfolding example_fc_calls_def list.map fc_run.simps one two three four by (rule refl)
qed


text \<open>The folders must resolve to the same paths. When the path of a folder is replaced by a link, or by a link to another place, between the
  start and the deletion of its box, the deletion succeeds and leaves the folder exported to the address, which the next box gets.\<close>

definition example_moved_calls :: "(fc_world \<times> fc_call) list" where
  "example_moved_calls =
     [(example_fc_world, Create (example_fc_spec ''a'')), (example_fc_world\<lparr>fw_resolve := (\<lambda>p. Some (''/moved'' @ p))\<rparr>, Delete ''a'')]"

lemma moved_folder_stays_exported:
  "\<exists>n. network_for ''prison'' = Ok n \<and> fc_run example_moved_calls no_boxes = \<lparr>fs_boxes = [], fs_exports = [(''/pa'', box_address n 0)]\<rparr>"
proof -
  obtain n where n: "network_for ''prison'' = Ok n" using example_network_name by (auto simp: is_ok_def split: sum.splits)
  have bn: "bn_name n = ''prison''" using network_for_Ok(1) [OF n] by simp
  have "fc_run example_moved_calls no_boxes = \<lparr>fs_boxes = [], fs_exports = [(''/pa'', box_address n 0)]\<rparr>"
    by (simp add: example_moved_calls_def unexport_path_def example_fc_world_def example_fc_spec_def Let_def n bn example_fc_parts create_box_def box_found_def
      read_box_record_def free_tap_index_def list_boxes_def used_taps_def map_filter_simps boot_def set_box_def set_running_def new_record_def
      no_boxes_def delete_box_def stop_box_def process_runs_def unexport_box_def remove_box_def)
  with n show ?thesis by blast
qed

text \<open>Networks of different names can have the same subnet, which nothing checks: then their boxes share addresses, and the exports of one
  are those of the other.\<close>

lemma networks_can_collide:
  "\<exists>m n. network_for ''az'' = Ok m \<and> network_for ''bk'' = Ok n \<and> bn_name m \<noteq> bn_name n \<and> bn_gateway m = bn_gateway n"
proof -
  have "length (itoa (int tap_pool_size - 1)) = 2" unfolding tap_pool_size_def by code_simp
  moreover have "network_name_pattern ''az''" "network_name_pattern ''bk''" by code_simp+
  ultimately have "is_ok (network_for ''az'')" "is_ok (network_for ''bk'')" by (simp_all add: network_for_def Let_def interface_name_limit_def is_ok_def)
  then obtain m n where mn: "network_for ''az'' = Ok m" "network_for ''bk'' = Ok n" by (auto simp: is_ok_def split: sum.splits)
  have "third_octet ''az'' = third_octet ''bk''" by (simp add: third_octet_def fnv32a_def)
  then have "bn_gateway m = bn_gateway n" "bn_name m \<noteq> bn_name n"
    using network_for_Ok(1) [OF mn(1)] network_for_Ok(1) [OF mn(2)] by simp_all
  then show ?thesis using mn by blast
qed

end
