(* ===== verification/Spec2Isabelle.thy ===== *)
theory Spec2Isabelle
  imports Checkpoint_Pick Checkpoint_Report Broker_Dispatch Broker_Listeners Broker_Forwards
    Broker_Log Broker_Relay Plugin_Host Plugin_Registry Session_Up
    Guest_Tunnel Guest_Firewall Guest_Exec Firecracker_Boxes
begin

text \<open>
  A verification development of \<open>prison\<close>, a program that runs coding agents (inmates) in boxes: containers or microVMs without egress of their
  own, which reach the world only through a broker on the host. This theory imports all others and holds this overview.

  \<^bold>\<open>The parts and how they interact.\<close> \<open>prison up\<close> (\<open>internal/session\<close>) opens the project of a directory: its state below
  the state root (\<open>internal/state\<close>), its \<open>prison.toml\<close> when the user trusts its bytes (\<open>internal/config\<close>) and its inmates when their files
  have the approved hash (\<open>internal/plugin\<close>). It plans and builds the images (\<open>internal/image\<close>), wants the host firewall
  (\<open>internal/hostfw\<close>), and starts the box through an isolator with a token in its environment. In the box PID 1 (\<open>internal/guest\<close>) closes
  the egress, answers names with sentinel addresses and tunnels the connections to the broker (\<open>internal/broker\<close>), which finds the project
  of the token, decides with the allow list (\<open>internal/policy\<close>), and adds the credentials of the vault (\<open>internal/vault\<close>) that the
  project is granted. Checkpoints (\<open>internal/checkpoint\<close>) record and restore the project tree, with a text diff and a three-way merge
  below them.

  \<^bold>\<open>How the code is modelled.\<close> A Go string is a list of bytes (\<open>char list\<close>); a struct is a record, with a short prefix on its fields; an enum is a
  datatype; a result with an error is \<open>('e, 'a) result\<close>, the sum type with \<open>Err\<close> and \<open>Ok\<close>, and each place that can fail has its own
  error. An \<open>int\<close> is \<open>int\<close> with the bounds of 64 bits where the code parses one, and a fixed-width number is a word where it can wrap.
  Functions that change files or state take it and give it back, in the order in which the code changes it; \<open>Go_Effects\<close> has the
  composition of such steps and their reasoning rules. Goroutines are step relations. What the repository does not hold (SHA-256 and
  the ciphers, TOML and DNS libraries, the kernel, the programs that are called, the network, the answers of the user) is an argument of the
  definitions, and a law that a property needs of it is a hypothesis of that property.

  \<^bold>\<open>The shared layer.\<close> \<open>Go_Prelude\<close> (results, strings, decimal text), \<open>Go_Path\<close> (\<open>path/filepath\<close>), \<open>Go_Base64\<close>, \<open>Go_Netip\<close>
  (addresses, their order as an instance of \<open>linorder\<close>, their text), \<open>Go_Json\<close> (\<open>encoding/json\<close>, with the round trip of its text),
  \<open>Go_Effects\<close>.

  \<^bold>\<open>The theories and the code.\<close>
  \<^item> \<open>Policy\<close>: \<open>internal/policy\<close>. Patterns, lists and decisions; the decision is exact over the entries.
  \<^item> \<open>Textdiff_Myers\<close>, \<open>Textdiff_Split\<close>, \<open>Textdiff_Align\<close>, \<open>Textdiff\<close>, \<open>Textdiff_Merge\<close>: \<open>internal/checkpoint/textdiff\<close>. The linear-space
    search with its step limit, the blocks, hunks and \<open>Merge3\<close>. The search always returns, the script replays, the hunks are a patch. The
    locale \<open>common_block_finder\<close> is what diff and merge need of the search; it is interpreted on \<open>common_blocks\<close>.
  \<^item> \<open>Checkpoint_Text\<close>, \<open>_Manifest\<close>, \<open>_Ignore\<close>, \<open>_Tree\<close>, \<open>_Scan\<close>, \<open>_Store\<close>, \<open>_Restore\<close>, \<open>_Merge\<close>, \<open>_Pick\<close>, \<open>_Report\<close>, \<open>_History\<close>:
    \<open>internal/checkpoint\<close>. The tree is a list of paths with their nodes. \<open>_History\<close> has the invariant of the store, its preservation by
    every operation, and that a checkpoint that is taken and restored gives the tree back.
  \<^item> \<open>Vault_Validate\<close>, \<open>Vault\<close>: \<open>internal/vault\<close>. Records and their checks, the encrypted file, its lock, the cached reads and the writes.
  \<^item> \<open>State_Files\<close>, \<open>State_Root\<close>: \<open>internal/state\<close>. The files of the state root, projects, tokens, trust records.
  \<^item> \<open>Broker_Protocol\<close>, \<open>_Http\<close>, \<open>_Limits\<close>, \<open>_Projects\<close>, \<open>_Secrets\<close>, \<open>_Handlers\<close>, \<open>_Dispatch\<close>, \<open>_Relay\<close>, \<open>_Log\<close>, \<open>_Listeners\<close>,
    \<open>_Forwards\<close>: \<open>internal/broker\<close>. What the broker does with a request is the list of its effects. The listeners are a step relation
    whose rank (two for each of the 30 attempts that is left and at most three for the present one) shows that a bind ends.
  \<^item> \<open>Config_Values\<close>, \<open>Config\<close>: \<open>internal/config\<close>. What is accepted is well formed.
  \<^item> \<open>Plugin_Hash\<close>, \<open>_Manifest\<close>, \<open>_Registry\<close>, \<open>_Host\<close>: \<open>internal/plugin\<close>. The hash determines the files, and only approved files load.
  \<^item> \<open>Image_Plan\<close>: \<open>internal/image\<close>. The last tag determines what is built.
  \<^item> \<open>Session\<close>, \<open>_Mounts\<close>, \<open>_Ports\<close>, \<open>_Context\<close>, \<open>_Exec\<close>, \<open>_Up\<close>: \<open>internal/session\<close> and \<open>internal/cli/trust.go\<close>. The environment, the
    mounts, the ports, the opening with its trust, the commands and the steps of \<open>prison up\<close>. The wait for a box makes at most 61 attempts.
  \<^item> \<open>Hostfw\<close>: \<open>internal/hostfw\<close>. The rules of nftables and pf, the edits of the main ruleset, install and removal.
  \<^item> \<open>Guest_Names\<close>, \<open>_Tunnel\<close>, \<open>_Firewall\<close>, \<open>_Exec\<close>: \<open>internal/guest\<close>. The locale \<open>name_table\<close> is what the resolver and the tunnel need of the
    sentinel addresses; it is interpreted on the allocator. \<open>Guest_Firewall\<close> gives the rules of the box a meaning and shows what they let out.
  \<^item> \<open>Machine\<close>: \<open>internal/machine\<close>. The disk, the requests and the frames between the host and a microVM, with their round trips.
  \<^item> \<open>Nfs_Export\<close>: \<open>internal/nfsexport\<close>. What the helper that runs as root exports: only folders of its user, only to box addresses.
  \<^item> \<open>Firecracker\<close>, \<open>Firecracker_Boxes\<close>: \<open>network.go\<close> and \<open>boxes.go\<close> of \<open>internal/isolator/firecracker\<close>. The addresses and taps of a network and
    the meaning of its bridge rules; the boxes with their taps and exports, whose invariant every operation keeps. Two lemmas give inputs
    on which the code does not keep boxes apart: a folder that moves while it is exported, and two networks with one subnet.

  \<^bold>\<open>What the properties show.\<close> Across components: the requests of a box lead only where its list, an intercept or the zone permits; a box starts only
  behind its guards; a session holds only what the user trusted or approved; the tunnel of a box uses a name only for its own address; boxes of one
  network cannot send in each other's name and share no address or export. Within a
  component: invariants of the project table, the store, the listeners and the ports; round trips of texts and frames; refinement of the log
  by a list of its entries and of a diff by a patch; the window of the rate limit; that every refusal is recorded.

  \<^bold>\<open>Fuel and bounds.\<close> Recursions that are not structural are functions with a measure. The JSON parser has two steps per byte as its fuel, which
  \<open>parse_json_text\<close> shows to be enough, and the parents of a path have one step per byte. The line scanner has the limit of 65536 bytes
  of \<open>bufio.Scanner\<close>, a request line of the agent 65535 bytes, a frame one MiB, the log of refusals 1024 names, and there are 65534 sentinel
  addresses, so their 32-bit offset does not wrap around.

  \<^bold>\<open>Not modelled.\<close> The commands of \<open>internal/cli\<close> other than \<open>trust\<close>, and \<open>internal/console\<close> and \<open>internal/ui\<close>: they parse flags, ask, print
  and call modelled operations. The isolator of macOS, the images, processes and consoles of the
  Firecracker isolator, and the order of the system calls of PID 1: they drive programs and the kernel. The
  copies of bytes between connections. The certificate authority and the signatures of the broker: X.509, TLS and SSH. The polls of the guest
  for its list and certificates and its signing commands. Read and write errors of the file system are left out where a component says so.
\<close>

end
